(* ===== verification/Prelude.thy ===== *)
theory Prelude
  imports Main "HOL-Library.Word"
begin

unbundle bit_operations_syntax

text \<open>
  What every component shares: the machine integers of the firmware, byte buffers with
  \<open>memcpy\<close>, the big-endian helpers, and the generic contracts of the development as
  locales. A component interprets the locales on its own definitions.

  \<^item> C integers are words of their width; \<open>size_t\<close> lengths are \<open>nat\<close>, since every length of
    the firmware is the length of an object in the 384 KB of SRAM.
  \<^item> A byte buffer is a list of bytes of the buffer's size.
\<close>

type_synonym u8 = "8 word"
type_synonym u16 = "16 word"
type_synonym u32 = "32 word"
type_synonym u64 = "64 word"
type_synonym bytes = "u8 list"

named_theorems buf_simps \<open>rules for buffers and memcpy\<close>
named_theorems be_simps \<open>rules for big-endian encodings\<close>
named_theorems state_simps \<open>rules for the states of the components\<close>

section \<open>Words\<close>

lemma bit_word_high [simp]: "LENGTH('a) \<le> n \<Longrightarrow> \<not> bit (w :: 'a::len word) n"
  by (auto dest: bit_imp_le_length)

lemma word_uint_le_max [simp]: "unat (w :: 'a::len word) < 2 ^ LENGTH('a)"
  by (rule unsigned_less)

lemma unat_u8_less [simp]: "unat (b :: u8) < 256"
  using unsigned_less [of b] by simp

lemma unat_u16_less [simp]: "unat (w :: u16) < 65536"
  using unsigned_less [of w] by simp

lemma unat_ucast_u8_u32 [simp]: "unat (ucast (b :: u8) :: u32) = unat b"
  by (simp add: unsigned_ucast_eq take_bit_nat_eq_self less_trans [OF unat_u8_less])

lemma unat_ucast_u16_u32 [simp]: "unat (ucast (w :: u16) :: u32) = unat w"
  by (simp add: unsigned_ucast_eq take_bit_nat_eq_self less_trans [OF unat_u16_less])

lemma of_nat_Suc_unat_mod16 [simp]: "of_nat (Suc (unat (w :: u16)) mod 65536) = w + 1"
  by (simp add: word_unat_eq_iff unat_word_ariths unat_of_nat take_bit_eq_mod)

lemma of_nat_Suc_unat_mod8 [simp]: "of_nat (Suc (unat (w :: u8)) mod 256) = w + 1"
  by (simp add: word_unat_eq_iff unat_word_ariths unat_of_nat take_bit_eq_mod)

lemma unat_of_nat_small: "n < 2 ^ LENGTH('a) \<Longrightarrow> unat (of_nat n :: 'a::len word) = n"
  by (simp add: unat_of_nat take_bit_nat_eq_self)

lemma xor_cancel_right [simp]: "(a :: 'a::len word) XOR c = b XOR c \<longleftrightarrow> a = b"
  by (metis xor.assoc xor.right_neutral xor_self_eq)

lemma xor_cancel_left [simp]: "(c :: 'a::len word) XOR a = c XOR b \<longleftrightarrow> a = b"
  by (simp only: xor.commute [of c] xor_cancel_right)

lemma and_0xFF: "(x :: 'a::len word) AND 0xFF = take_bit 8 x"
  by (simp add: take_bit_eq_mask mask_eq_exp_minus_1)

lemma xor_split_at: "(x :: 'a::len word) = take_bit n x XOR push_bit n (drop_bit n x)"
proof (rule bit_word_eqI)
  fix i assume "i < LENGTH('a)"
  then show "bit x i = bit (take_bit n x XOR push_bit n (drop_bit n x)) i"
    by (cases "i < n") (auto simp: bit_simps)
qed

section \<open>Buffers\<close>

text \<open>
  \<open>memcpy(buf + off, data, length data)\<close> into a buffer: the bytes before and after the
  copied range stay. It is used where \<open>off + length data \<le> length buf\<close>.
\<close>

definition memcpy_at :: "bytes \<Rightarrow> nat \<Rightarrow> bytes \<Rightarrow> bytes" where
  "memcpy_at buf off data = take off buf @ data @ drop (off + length data) buf"

definition slice :: "bytes \<Rightarrow> nat \<Rightarrow> nat \<Rightarrow> bytes" where
  "slice buf off n = take n (drop off buf)"

lemma length_memcpy_at [simp, buf_simps]:
  "off + length data \<le> length buf \<Longrightarrow> length (memcpy_at buf off data) = length buf"
  by (simp add: memcpy_at_def)

lemma length_slice [simp, buf_simps]: "length (slice buf off n) = min (length buf - off) n"
  by (simp add: slice_def)

lemma slice_memcpy_same [buf_simps]:
  "off + length data \<le> length buf \<Longrightarrow> n = length data \<Longrightarrow>
   slice (memcpy_at buf off data) off n = data"
  by (simp add: memcpy_at_def slice_def)

lemma take_memcpy_at [buf_simps]:
  "off + length data \<le> length buf \<Longrightarrow> n = off + length data \<Longrightarrow>
   take n (memcpy_at buf off data) = take off buf @ data"
  by (simp add: memcpy_at_def)

lemma take_take_le: "n \<le> m \<Longrightarrow> take n (take m xs) = take n xs"
  by (simp add: min_def)

lemma slice_append_left: "off + n \<le> length xs \<Longrightarrow> slice (xs @ ys) off n = slice xs off n"
  by (simp add: slice_def)

lemma slice_append_right: "off = length xs \<Longrightarrow> slice (xs @ ys) off n = take n ys"
  by (simp add: slice_def)

section \<open>Big-endian encodings\<close>

definition put_be16 :: "u16 \<Rightarrow> bytes" where
  "put_be16 v = [ucast (drop_bit 8 v), ucast v]"

definition get_be16 :: "bytes \<Rightarrow> u16" where
  "get_be16 p = (push_bit 8 (ucast (p ! 0)) OR ucast (p ! 1))"

definition put_be32 :: "u32 \<Rightarrow> bytes" where
  "put_be32 v = [ucast (drop_bit 24 v), ucast (drop_bit 16 v), ucast (drop_bit 8 v), ucast v]"

definition get_be32 :: "bytes \<Rightarrow> u32" where
  "get_be32 p = (push_bit 24 (ucast (p ! 0)) OR push_bit 16 (ucast (p ! 1))
     OR push_bit 8 (ucast (p ! 2)) OR ucast (p ! 3))"

lemma length_put_be16 [simp]: "length (put_be16 v) = 2"
  by (simp add: put_be16_def)

lemma length_put_be32 [simp]: "length (put_be32 v) = 4"
  by (simp add: put_be32_def)

lemma get_put_be16 [simp, be_simps]: "get_be16 (put_be16 v) = v"
  by (rule bit_word_eqI) (auto simp: get_be16_def put_be16_def bit_simps)

lemma get_put_be32 [simp, be_simps]: "get_be32 (put_be32 v) = v"
proof (rule bit_word_eqI)
  fix n assume n: "n < LENGTH(32)"
  then consider "n < 8" | "8 \<le> n \<and> n < 16" | "16 \<le> n \<and> n < 24" | "24 \<le> n" by linarith
  then show "bit (get_be32 (put_be32 v)) n = bit v n"
    using n by cases (auto simp: get_be32_def put_be32_def bit_simps)
qed

lemma get_be16_prefix [be_simps]: "get_be16 (put_be16 v @ xs) = v"
  using get_put_be16 [of v] by (simp add: get_be16_def put_be16_def)

lemma get_be32_prefix [be_simps]: "get_be32 (put_be32 v @ xs) = v"
  using get_put_be32 [of v] by (simp add: get_be32_def put_be32_def)

lemma list_take_2: "2 \<le> length xs \<Longrightarrow> take 2 xs = [xs ! 0, xs ! 1]"
  by (cases xs; cases "tl xs") (auto simp: numeral_2_eq_2)

lemma list_take_4: "4 \<le> length xs \<Longrightarrow> take 4 xs = [xs ! 0, xs ! 1, xs ! 2, xs ! 3]"
  by (auto intro!: nth_equalityI simp: less_Suc_eq numeral_eq_Suc)

lemma put_get_be16 [be_simps]: "2 \<le> length xs \<Longrightarrow> put_be16 (get_be16 xs) = take 2 xs"
  unfolding list_take_2 put_be16_def get_be16_def
  by (auto intro!: bit_word_eqI simp: bit_simps dest: bit_imp_le_length)

lemma put_get_be32 [be_simps]: "4 \<le> length xs \<Longrightarrow> put_be32 (get_be32 xs) = take 4 xs"
  unfolding list_take_4 put_be32_def get_be32_def
  by (auto intro!: bit_word_eqI simp: bit_simps dest: bit_imp_le_length)

section \<open>Contracts\<close>

subsection \<open>Machines with an invariant\<close>

text \<open>
  A component is a state, its initial value and one function per operation; \<open>step\<close> runs
  the operation that an event names. An invariant that the initial state has and every
  operation keeps holds after every run.
\<close>

locale machine =
  fixes init :: "'s" and step :: "'e \<Rightarrow> 's \<Rightarrow> 's" and inv :: "'s \<Rightarrow> bool"
  assumes inv_init: "inv init"
    and inv_step: "inv s \<Longrightarrow> inv (step e s)"
begin

lemma inv_run: "inv s \<Longrightarrow> inv (fold step es s)"
  by (induction es arbitrary: s) (simp_all add: inv_step)

lemma inv_reachable: "inv (fold step es init)"
  by (rule inv_run [OF inv_init])

end

subsection \<open>States that are never left\<close>

locale absorbing =
  fixes step :: "'e \<Rightarrow> 's \<Rightarrow> 's" and trap :: "'s \<Rightarrow> bool"
  assumes trap_step: "trap s \<Longrightarrow> trap (step e s)"
begin

lemma trap_run: "trap s \<Longrightarrow> trap (fold step es s)"
  by (induction es arbitrary: s) (simp_all add: trap_step)

text \<open>A state that was a trap at some point of a run is one at its end.\<close>

lemma trap_prefix: "trap (fold step es s) \<Longrightarrow> trap (fold step (es @ fs) s)"
  by (simp add: trap_run)

end

subsection \<open>Bounded recency buffers\<close>

lemma drop_last_snoc:
  assumes "0 < cap"
  shows "drop (Suc (length (drop (length l - cap) l)) - cap) (drop (length l - cap) l @ [x]) =
    drop (Suc (length l) - cap) (l @ [x])"
proof (cases "length l < cap")
  case False
  then have "length (drop (length l - cap) l) = cap" by simp
  then show ?thesis using assms False by (simp add: Suc_diff_le)
qed simp

text \<open>
  A buffer that shows the values pushed into it, oldest first, and at capacity forgets the
  oldest one.
\<close>

locale recency =
  fixes contents :: "'s \<Rightarrow> 'a list" and push :: "'a \<Rightarrow> 's \<Rightarrow> 's" and wf :: "'s \<Rightarrow> bool" and cap :: nat
  assumes cap_pos: "0 < cap"
    and wf_push: "wf s \<Longrightarrow> wf (push x s)"
    and contents_bound: "wf s \<Longrightarrow> length (contents s) \<le> cap"
    and contents_push: "wf s \<Longrightarrow> contents (push x s) =
      (if length (contents s) < cap then contents s else tl (contents s)) @ [x]"
begin

lemma wf_pushes: "wf s \<Longrightarrow> wf (fold push xs s)"
  by (induction xs arbitrary: s) (simp_all add: wf_push)

lemma contents_push_last:
  "wf s \<Longrightarrow> contents (push x s) = drop (Suc (length (contents s)) - cap) (contents s @ [x])"
proof -
  assume w: "wf s"
  then consider "length (contents s) < cap" | "length (contents s) = cap"
    using contents_bound by fastforce
  then show ?thesis
    using contents_push [OF w, of x] cap_pos by cases (auto simp: drop_Suc tl_append split: list.split)
qed

text \<open>After any pushes the buffer shows the last \<open>cap\<close> values of everything it was given.\<close>

lemma contents_pushes:
  "wf s \<Longrightarrow> contents (fold push xs s) =
     drop (length (contents s) + length xs - cap) (contents s @ xs)"
proof (induction xs rule: rev_induct)
  case Nil
  then show ?case using contents_bound by simp
next
  case (snoc x xs)
  then have "contents (fold push (xs @ [x]) s) =
      drop (Suc (length (contents (fold push xs s))) - cap) (contents (fold push xs s) @ [x])"
    using contents_push_last [OF wf_pushes] by simp
  also have "\<dots> = drop (length (contents s) + length (xs @ [x]) - cap) (contents s @ xs @ [x])"
    using snoc drop_last_snoc [OF cap_pos, of "contents s @ xs" x] by simp
  finally show ?case by simp
qed

end

text \<open>The slots of a ring of \<open>cap\<close> entries that starts at \<open>h\<close> and holds \<open>n\<close> of them.\<close>

definition ring_view :: "nat \<Rightarrow> nat \<Rightarrow> nat \<Rightarrow> 'a list \<Rightarrow> 'a list" where
  "ring_view cap h n buf = map (\<lambda>i. buf ! ((h + i) mod cap)) [0..<n]"

lemma length_ring_view [simp]: "length (ring_view cap h n buf) = n"
  by (simp add: ring_view_def)

lemma ring_slot_inj: "i < cap \<Longrightarrow> j < cap \<Longrightarrow> (h + i) mod cap = (h + j) mod cap \<Longrightarrow> i = (j :: nat)"
proof (induction i j rule: linorder_wlog)
  case (le i j)
  then have "cap dvd (h + j) - (h + i)" by (metis add_le_cancel_left mod_eq_dvd_iff_nat)
  then show ?case using le by (auto dest: dvd_imp_le)
qed (simp add: eq_commute)

lemma ring_view_grow:
  assumes "n < cap" "length buf = cap" "slot = (h + n) mod cap"
  shows "ring_view cap h (Suc n) (buf[slot := x]) = ring_view cap h n buf @ [x]"
proof -
  have "buf[slot := x] ! ((h + i) mod cap) = buf ! ((h + i) mod cap)" if "i < n" for i
    using ring_slot_inj [of i cap n h] that assms by (intro nth_list_update_neq) auto
  then have "ring_view cap h n (buf[slot := x]) = ring_view cap h n buf"
    by (simp add: ring_view_def)
  moreover have "buf[slot := x] ! ((h + n) mod cap) = x" using assms by simp
  ultimately show ?thesis by (simp add: ring_view_def)
qed

lemma ring_view_slide:
  assumes "0 < cap" "length buf = cap" "h < cap"
  shows "ring_view cap ((h + 1) mod cap) cap (buf[h := x]) = tl (ring_view cap h cap buf) @ [x]"
proof (rule nth_equalityI)
  fix i
  assume "i < length (ring_view cap ((h + 1) mod cap) cap (buf[h := x]))"
  then have i: "i < cap" by simp
  show "ring_view cap ((h + 1) mod cap) cap (buf[h := x]) ! i = (tl (ring_view cap h cap buf) @ [x]) ! i"
  proof (cases "Suc i < cap")
    case True
    then have "(h + Suc i) mod cap \<noteq> h"
      using ring_slot_inj [of "Suc i" cap 0 h] assms by auto
    with True i show ?thesis
      using assms less_diff_conv [of i cap 1] by (simp add: ring_view_def nth_append nth_tl mod_simps)
  next
    case False
    with i have "Suc i = cap" by simp
    then have "(h + Suc i) mod cap = h" using assms by simp
    with False i assms show ?thesis
      by (simp add: ring_view_def nth_append mod_simps less_diff_conv)
  qed
qed (use assms in simp)

subsection \<open>Encodings\<close>

locale codec =
  fixes enc :: "'a \<Rightarrow> 'b" and dec :: "'b \<Rightarrow> 'a option" and valid :: "'a \<Rightarrow> bool"
  assumes dec_enc: "valid x \<Longrightarrow> dec (enc x) = Some x"
begin

lemma enc_inj: "valid x \<Longrightarrow> valid y \<Longrightarrow> enc x = enc y \<Longrightarrow> x = y"
  by (metis dec_enc option.inject)

end

text \<open>An encoding whose decoder accepts nothing but encodings.\<close>

locale strict_codec = codec +
  assumes enc_dec: "dec y = Some x \<Longrightarrow> valid x \<and> enc x = y"
begin

lemma dec_inj: "dec y = Some x \<Longrightarrow> dec z = Some x \<Longrightarrow> y = z"
  by (auto dest!: enc_dec)

lemma dec_iff: "dec y = Some x \<longleftrightarrow> valid x \<and> enc x = y"
  by (auto dest: enc_dec simp: dec_enc)

end

text \<open>Two encodings one after the other are an encoding.\<close>

locale codec_stack =
  inner: codec enc1 dec1 valid1 + outer: codec enc2 dec2 valid2
  for enc1 :: "'a \<Rightarrow> 'b" and dec1 valid1 and enc2 :: "'b \<Rightarrow> 'c" and dec2 valid2 +
  assumes valid_enc: "valid1 x \<Longrightarrow> valid2 (enc1 x)"
begin

sublocale stacked: codec "enc2 \<circ> enc1" "\<lambda>y. Option.bind (dec2 y) dec1" valid1
  by unfold_locales (simp add: valid_enc outer.dec_enc inner.dec_enc)

end

end
