(* ===== verification/Board.thy ===== *)
theory Board
  imports Prelude
begin

text \<open>
  The pins the firmware drives: the macros of \<open>bsp.h\<close> on the output data registers of the two
  PIO controllers, and \<open>BSP_Initialize\<close>. Both LEDs are active low. \<open>PIO_CODR\<close> and \<open>PIO_SODR\<close>
  clear and set the bits written as one in \<open>PIO_ODSR\<close>.
\<close>

record board =
  pioa_odsr :: u32
  piob_odsr :: u32
  pioa_pdsr :: u32

definition LED1_Toggle :: "board \<Rightarrow> board" where
  "LED1_Toggle b = b\<lparr>pioa_odsr := pioa_odsr b XOR push_bit 5 1\<rparr>"

definition LED1_On :: "board \<Rightarrow> board" where
  "LED1_On b = b\<lparr>pioa_odsr := pioa_odsr b AND NOT (push_bit 5 1)\<rparr>"

definition LED1_Off :: "board \<Rightarrow> board" where
  "LED1_Off b = b\<lparr>pioa_odsr := pioa_odsr b OR push_bit 5 1\<rparr>"

definition LED2_Toggle :: "board \<Rightarrow> board" where
  "LED2_Toggle b = b\<lparr>piob_odsr := piob_odsr b XOR push_bit 8 1\<rparr>"

definition LED2_On :: "board \<Rightarrow> board" where
  "LED2_On b = b\<lparr>piob_odsr := piob_odsr b AND NOT (push_bit 8 1)\<rparr>"

definition LED2_Off :: "board \<Rightarrow> board" where
  "LED2_Off b = b\<lparr>piob_odsr := piob_odsr b OR push_bit 8 1\<rparr>"

definition SWITCH_Get :: "board \<Rightarrow> u32" where
  "SWITCH_Get b = drop_bit 11 (pioa_pdsr b) AND 1"

definition BSP_Initialize :: "board \<Rightarrow> board" where
  "BSP_Initialize b = LED2_Off (LED1_Off b)"

text \<open>What the pins show.\<close>

definition headlight_lit :: "board \<Rightarrow> bool" where
  "headlight_lit b \<longleftrightarrow> \<not> bit (pioa_odsr b) 5"

definition hazard_lit :: "board \<Rightarrow> bool" where
  "hazard_lit b \<longleftrightarrow> \<not> bit (piob_odsr b) 8"

definition all_dark :: "board \<Rightarrow> bool" where
  "all_dark b \<longleftrightarrow> \<not> headlight_lit b \<and> \<not> hazard_lit b"

lemma led_effects [simp, state_simps]:
  "headlight_lit (LED1_On b)" "\<not> headlight_lit (LED1_Off b)"
  "headlight_lit (LED1_Toggle b) \<longleftrightarrow> \<not> headlight_lit b"
  "headlight_lit (LED2_On b) = headlight_lit b" "headlight_lit (LED2_Off b) = headlight_lit b"
  "headlight_lit (LED2_Toggle b) = headlight_lit b"
  "hazard_lit (LED2_On b)" "\<not> hazard_lit (LED2_Off b)"
  "hazard_lit (LED2_Toggle b) \<longleftrightarrow> \<not> hazard_lit b"
  "hazard_lit (LED1_On b) = hazard_lit b" "hazard_lit (LED1_Off b) = hazard_lit b"
  "hazard_lit (LED1_Toggle b) = hazard_lit b"
  by (simp_all add: headlight_lit_def hazard_lit_def LED1_On_def LED1_Off_def LED1_Toggle_def
      LED2_On_def LED2_Off_def LED2_Toggle_def bit_and_iff bit_or_iff bit_xor_iff bit_not_iff
      bit_push_bit_iff bit_1_iff)

lemma all_dark_off [simp, state_simps]: "all_dark (LED2_Off (LED1_Off b))" "all_dark (BSP_Initialize b)"
  by (simp_all add: all_dark_def BSP_Initialize_def)

lemma switch_bit: "SWITCH_Get b = (if bit (pioa_pdsr b) 11 then 1 else 0)"
  by (rule bit_word_eqI) (auto simp: SWITCH_Get_def bit_simps intro!: gr0I)

end
