(* ===== verification/Crc.thy ===== *)
theory Crc
  imports Prelude
begin

text \<open>
  The CRC-32 of \<open>e2e_protection.c\<close>: the lazily built lookup table and the table-driven loop.

  \<^item> \<open>crc32_init_table\<close>, \<open>e2e_crc32_st\<close>: the code with its two static variables;
    \<open>e2e_crc32\<close>: the value it returns, from any state of the statics it can be in.
  \<^item> The table-driven loop is the bit-serial division (\<open>crc_update_bitwise\<close>), each step of
    which is linear and injective. So corruption within four consecutive bytes always shows
    (\<open>e2e_crc32_burst\<close>), whatever surrounds it.
\<close>

section \<open>Model\<close>

text \<open>One round of the inner loop of \<open>crc32_init_table\<close>.\<close>

definition crc_round :: "u32 \<Rightarrow> u32" where
  "crc_round c = (if c AND 1 \<noteq> 0 then drop_bit 1 c XOR 0xEDB88320 else drop_bit 1 c)"

definition crc32_table_entry :: "nat \<Rightarrow> u32" where
  "crc32_table_entry i = (crc_round ^^ 8) (of_nat i)"

record crc_statics =
  crc32_table :: "u32 list"
  crc32_table_ready :: bool

definition crc_statics_boot :: crc_statics where
  "crc_statics_boot = \<lparr>crc32_table = replicate 256 0, crc32_table_ready = False\<rparr>"

definition crc32_init_table :: "crc_statics \<Rightarrow> crc_statics" where
  "crc32_init_table g =
     g\<lparr>crc32_table := map crc32_table_entry [0..<256], crc32_table_ready := True\<rparr>"

definition crc_update :: "u32 list \<Rightarrow> u32 \<Rightarrow> u8 \<Rightarrow> u32" where
  "crc_update table crc b = table ! unat ((crc XOR ucast b) AND 0xFF) XOR drop_bit 8 crc"

definition e2e_crc32_st :: "crc_statics \<Rightarrow> bytes \<Rightarrow> u32 \<times> crc_statics" where
  "e2e_crc32_st g data =
     (let g' = (if crc32_table_ready g then g else crc32_init_table g);
          crc = foldl (crc_update (crc32_table g')) 0xFFFFFFFF data
      in (crc XOR 0xFFFFFFFF, g'))"

definition e2e_crc32 :: "bytes \<Rightarrow> u32" where
  "e2e_crc32 data =
     foldl (crc_update (map crc32_table_entry [0..<256])) 0xFFFFFFFF data XOR 0xFFFFFFFF"

section \<open>The lazily built table\<close>

text \<open>What the two statics satisfy from boot on: a ready table is the right one.\<close>

definition crc_statics_ok :: "crc_statics \<Rightarrow> bool" where
  "crc_statics_ok g \<longleftrightarrow>
     (crc32_table_ready g \<longrightarrow> crc32_table g = map crc32_table_entry [0..<256])"

lemma e2e_crc32_st_eq:
  "crc_statics_ok g \<Longrightarrow> fst (e2e_crc32_st g data) = e2e_crc32 data"
  by (simp add: crc_statics_ok_def e2e_crc32_st_def e2e_crc32_def crc32_init_table_def Let_def)

interpretation crc_statics_machine:
  machine crc_statics_boot "\<lambda>data g. snd (e2e_crc32_st g data)" crc_statics_ok
  by unfold_locales
    (auto simp: crc_statics_boot_def crc_statics_ok_def e2e_crc32_st_def crc32_init_table_def Let_def)

section \<open>The bit-serial reference\<close>

lemma and_1_iff_bit_0: "(c :: u32) AND 1 \<noteq> 0 \<longleftrightarrow> bit c 0"
  by (simp add: bit_0 and_one_eq odd_iff_mod_2_eq_one)

lemma crc_round_alt: "crc_round c = drop_bit 1 c XOR (if bit c 0 then 0xEDB88320 else 0)"
  by (simp only: crc_round_def and_1_iff_bit_0) simp

lemma crc_round_xor: "crc_round (a XOR b) = crc_round a XOR crc_round b"
  by (rule bit_word_eqI) (auto simp: crc_round_alt bit_xor_iff bit_drop_bit_eq)

lemma crc_rounds_xor: "(crc_round ^^ n) (a XOR b) = (crc_round ^^ n) a XOR (crc_round ^^ n) b"
  by (induction n) (simp_all add: crc_round_xor)

text \<open>The polynomial has its top bit set, so a round loses no information.\<close>

lemma crc_round_top: "bit (crc_round c) 31 = bit c 0"
  by (simp add: crc_round_alt bit_xor_iff bit_drop_bit_eq impossible_bit)

lemma crc_round_inj: "crc_round a = crc_round b \<longleftrightarrow> a = b"
proof
  assume eq: "crc_round a = crc_round b"
  have low: "bit a 0 = bit b 0" by (metis crc_round_top eq)
  have "drop_bit 1 a = drop_bit 1 b"
    using eq low by (simp only: crc_round_alt xor_cancel_right)
  then have "bit a (Suc n) = bit b (Suc n)" for n
    by (metis bit_drop_bit_eq comp_apply plus_1_eq_Suc)
  with low show "a = b"
    by (intro bit_word_eqI) (metis not0_implies_Suc)
qed simp

lemma crc_rounds_inj: "(crc_round ^^ n) a = (crc_round ^^ n) b \<longleftrightarrow> a = b"
  by (induction n) (simp_all add: crc_round_inj)

lemma crc_rounds_high: "n \<le> 32 \<Longrightarrow> take_bit n x = 0 \<Longrightarrow> (crc_round ^^ n) x = drop_bit n x"
proof (induction n)
  case (Suc n)
  then have lo: "\<not> bit x i" if "i < Suc n" for i
    using that by (metis bit_take_bit_iff bit_0_eq bot_apply bot_bool_def)
  have "take_bit n x = 0"
    by (rule bit_word_eqI) (auto simp: bit_take_bit_iff lo)
  with Suc have "(crc_round ^^ Suc n) x = crc_round (drop_bit n x)" by simp
  also have "\<dots> = drop_bit (Suc n) x"
    using lo [of n] by (simp add: crc_round_alt bit_drop_bit_eq)
  finally show ?case .
qed simp

lemma crc_update_bitwise:
  "crc_update (map crc32_table_entry [0..<256]) c b = (crc_round ^^ 8) (c XOR ucast b)"
proof -
  let ?x = "c XOR ucast b"
  have lt: "unat (take_bit 8 ?x) < 256"
    using take_bit_nat_less_exp [of 8 "unat ?x"] by (simp only: unsigned_take_bit_eq) simp
  have hi: "drop_bit 8 ?x = drop_bit 8 c"
    by (rule bit_word_eqI) (auto simp: bit_simps dest: bit_imp_le_length)
  have drop: "drop_bit 8 (push_bit 8 (drop_bit 8 ?x)) = drop_bit 8 ?x"
    by (rule bit_word_eqI) (auto simp: bit_simps dest: bit_imp_le_length)
  have "(crc_round ^^ 8) ?x =
      (crc_round ^^ 8) (take_bit 8 ?x) XOR (crc_round ^^ 8) (push_bit 8 (drop_bit 8 ?x))"
    by (metis crc_rounds_xor xor_split_at)
  also have "(crc_round ^^ 8) (push_bit 8 (drop_bit 8 ?x)) = drop_bit 8 ?x"
    using crc_rounds_high [of 8 "push_bit 8 (drop_bit 8 ?x)"] drop by (simp add: take_bit_push_bit)
  finally show ?thesis
    using lt by (simp add: crc_update_def and_0xFF crc32_table_entry_def hi [symmetric] del: take_bit_xor drop_bit_xor)
qed

text \<open>The loop over a message, from any start value.\<close>

definition crc_bytes :: "u32 \<Rightarrow> bytes \<Rightarrow> u32" where
  "crc_bytes c data = foldl (\<lambda>c b. (crc_round ^^ 8) (c XOR ucast b)) c data"

lemma crc_bytes_simps [simp]:
  "crc_bytes c [] = c"
  "crc_bytes c (b # bs) = crc_bytes ((crc_round ^^ 8) (c XOR ucast b)) bs"
  "crc_bytes c (xs @ ys) = crc_bytes (crc_bytes c xs) ys"
  by (simp_all add: crc_bytes_def)

lemma e2e_crc32_bitwise: "e2e_crc32 data = crc_bytes 0xFFFFFFFF data XOR 0xFFFFFFFF"
  by (simp only: e2e_crc32_def crc_bytes_def crc_update_bitwise [abs_def])

section \<open>Detection of corruption\<close>

lemma crc_bytes_inj: "crc_bytes c bs = crc_bytes d bs \<longleftrightarrow> c = d"
  by (induction bs arbitrary: c d) (simp_all add: crc_rounds_inj)

text \<open>Up to four bytes enter the register as one little-endian word.\<close>

fun le_word :: "bytes \<Rightarrow> u32" where
  "le_word [] = 0"
| "le_word (b # bs) = ucast b XOR push_bit 8 (le_word bs)"

lemma bit_le_word: "bit (le_word bs) i \<longleftrightarrow> i < 32 \<and> i div 8 < length bs \<and> bit (bs ! (i div 8)) (i mod 8)"
proof (induction bs arbitrary: i)
  case (Cons b bs)
  show ?case
  proof (cases "i < 8")
    case False
    then have "i div 8 = Suc ((i - 8) div 8)" "i mod 8 = (i - 8) mod 8"
      by (simp_all add: le_div_geq le_mod_geq)
    with False show ?thesis by (auto simp: Cons.IH bit_simps dest: bit_imp_le_length)
  qed (auto simp: bit_simps)
qed simp

lemma le_word_small: "length bs \<le> 3 \<Longrightarrow> drop_bit 24 (le_word bs) = 0"
  by (rule bit_word_eqI) (auto simp: bit_le_word bit_simps)

lemma crc_bytes_le_word:
  "length bs \<le> 4 \<Longrightarrow> crc_bytes c bs = (crc_round ^^ (8 * length bs)) (c XOR le_word bs)"
proof (induction bs arbitrary: c)
  case (Cons b bs)
  have "(crc_round ^^ 8) (push_bit 8 (le_word bs)) = drop_bit 8 (push_bit 8 (le_word bs))"
    by (rule crc_rounds_high) (simp_all add: take_bit_push_bit)
  also have "\<dots> = le_word bs"
    using Cons.prems by (intro bit_word_eqI) (auto simp: bit_simps bit_le_word)
  finally have push: "(crc_round ^^ 8) (push_bit 8 (le_word bs)) = le_word bs" .
  have "crc_bytes c (b # bs) =
      (crc_round ^^ (8 * length bs)) ((crc_round ^^ 8) (c XOR ucast b) XOR le_word bs)"
    using Cons by simp
  also have "\<dots> = (crc_round ^^ (8 * length bs)) ((crc_round ^^ 8) (c XOR le_word (b # bs)))"
    by (simp add: crc_rounds_xor push xor.assoc)
  also have "\<dots> = (crc_round ^^ (8 * length (b # bs))) (c XOR le_word (b # bs))"
    by (simp add: funpow_add funpow_swap1 flip: funpow_mult)
  finally show ?case .
qed simp

lemma le_word_inj:
  assumes "length as = length bs" "length bs \<le> 4" "le_word as = le_word bs"
  shows "as = bs"
proof (rule nth_equalityI [OF assms(1)])
  fix j assume j: "j < length as"
  show "as ! j = bs ! j"
  proof (rule bit_word_eqI)
    fix i assume "i < LENGTH(8)"
    then have i: "i < 8" by simp
    then have "8 * j + i < 32" "(8 * j + i) div 8 = j" "(8 * j + i) mod 8 = i"
      using j assms by auto
    then show "bit (as ! j) i = bit (bs ! j) i"
      using assms j bit_le_word [of as "8 * j + i"] bit_le_word [of bs "8 * j + i"] by simp
  qed
qed

lemma e2e_crc32_burst:
  assumes "length as = length bs" "length bs \<le> 4" "as \<noteq> bs"
  shows "e2e_crc32 (pre @ as @ post) \<noteq> e2e_crc32 (pre @ bs @ post)"
  using assms le_word_inj [of as bs]
  by (auto simp: e2e_crc32_bitwise crc_bytes_inj crc_bytes_le_word crc_rounds_inj)

lemma e2e_crc32_single:
  assumes "i < length data" "b \<noteq> data ! i"
  shows "e2e_crc32 (data[i := b]) \<noteq> e2e_crc32 data"
proof -
  have "data = take i data @ [data ! i] @ drop (Suc i) data"
    using assms(1) by (simp add: id_take_nth_drop [symmetric])
  moreover have "data[i := b] = take i data @ [b] @ drop (Suc i) data"
    using assms(1) by (simp add: upd_conv_take_nth_drop)
  ultimately show ?thesis
    using e2e_crc32_burst [of "[b]" "[data ! i]" "take i data" "drop (Suc i) data"] assms(2)
    by (metis One_nat_def length_Cons list.inject list.size(3) numeral_le_one_iff one_le_numeral)
qed

section \<open>The check value\<close>

lemma crc_rounds_8: "(crc_round ^^ 8) c =
    crc_round (crc_round (crc_round (crc_round (crc_round (crc_round (crc_round (crc_round c)))))))"
  by (simp add: eval_nat_numeral)

lemma crc32_check_value: "e2e_crc32 (map of_char ''123456789'') = 0xCBF43926"
  by (simp add: e2e_crc32_bitwise crc_rounds_8 crc_round_def)

end
