(* ===== verification/E2E.thy ===== *)
theory E2E
  imports Crc
begin

text \<open>
  The end-to-end protection of \<open>e2e_protection.c\<close>: the 11 byte header, \<open>e2e_encode\<close>,
  \<open>e2e_decode\<close> and the receive-side sequence checker.

  \<^item> \<open>e2e_frame\<close> is the wire format. \<open>e2e_encode\<close> writes exactly that frame, and
    \<open>e2e_decode\<close> accepts exactly those frames (\<open>e2e\<close> interprets \<open>strict_codec\<close>).
  \<^item> No accepted frame stays accepted when one byte of it changes, nor when up to four
    consecutive bytes of header fields or payload change.
  \<^item> The sequence checker: what it accepts, how it resynchronises.
\<close>

section \<open>Model\<close>

abbreviation (input) E2E_HEADER_SIZE :: nat where "E2E_HEADER_SIZE \<equiv> 11"
abbreviation (input) DATA_ID_STEERING :: u16 where "DATA_ID_STEERING \<equiv> 0x1010"
abbreviation (input) DATA_ID_HEADLIGHT :: u16 where "DATA_ID_HEADLIGHT \<equiv> 0x2010"
abbreviation (input) DATA_ID_HAZARD :: u16 where "DATA_ID_HAZARD \<equiv> 0x2011"
abbreviation (input) E2E_ASILD_MAX_GAP :: u16 where "E2E_ASILD_MAX_GAP \<equiv> 1"

datatype e2e_status_t =
  E2E_OK | E2E_ERR_CRC | E2E_ERR_SEQ_REPEATED | E2E_ERR_SEQ_GAP | E2E_ERR_TOO_SHORT
| E2E_ERR_LENGTH_MISMATCH

record e2e_header_t =
  data_id :: u16
  sequence_counter :: u16
  alive_counter :: u8
  length_field :: u16
  crc32 :: u32

record e2e_counter_state_t =
  seq :: u16
  alive :: u8

record e2e_seq_checker_t =
  last_seq :: "32 word"
  max_gap :: u16
  valid_count :: u16
  init_count :: u16

text \<open>The seven header bytes that the CRC covers.\<close>

definition e2e_hdr_fields :: "u16 \<Rightarrow> u16 \<Rightarrow> u8 \<Rightarrow> u16 \<Rightarrow> bytes" where
  "e2e_hdr_fields did sq al len = put_be16 did @ put_be16 sq @ [al] @ put_be16 len"

text \<open>
  \<open>e2e_encode\<close> returns the number of bytes written, the counter state and the output buffer.
  The counters advance before the size of the CRC input is checked.
\<close>

definition e2e_encode ::
  "bytes \<Rightarrow> u16 \<Rightarrow> e2e_counter_state_t \<Rightarrow> bytes \<Rightarrow> nat \<times> e2e_counter_state_t \<times> bytes" where
  "e2e_encode payload did counter out_buf =
     (let total = E2E_HEADER_SIZE + length payload in
      if length out_buf < total then (0, counter, out_buf)
      else
        let sq = seq counter; al = alive counter;
            counter' = counter\<lparr>seq := of_nat ((unat (seq counter) + 1) mod 65536),
                               alive := of_nat ((unat (alive counter) + 1) mod 256)\<rparr>;
            hdr_fields = e2e_hdr_fields did sq al (of_nat (length payload));
            crc_len = 7 + length payload
        in if 7 + 512 < crc_len then (0, counter', out_buf)
           else
             let crc = e2e_crc32 (hdr_fields @ payload);
                 buf1 = memcpy_at out_buf 0 hdr_fields;
                 buf2 = memcpy_at buf1 7 (put_be32 crc);
                 buf3 = memcpy_at buf2 E2E_HEADER_SIZE payload
             in (total, counter', buf3))"

text \<open>
  \<open>e2e_decode\<close> fills the header it is given and, on success, hands out the payload (a pointer
  and a length into the buffer). On an early return the header keeps the fields it had.
\<close>

definition e2e_parse_header :: "bytes \<Rightarrow> e2e_header_t" where
  "e2e_parse_header buf =
     \<lparr>data_id = get_be16 (drop 0 buf), sequence_counter = get_be16 (drop 2 buf),
      alive_counter = buf ! 4, length_field = get_be16 (drop 5 buf),
      crc32 = get_be32 (drop 7 buf)\<rparr>"

definition e2e_decode ::
  "bytes \<Rightarrow> e2e_header_t \<Rightarrow> e2e_status_t \<times> e2e_header_t \<times> bytes option" where
  "e2e_decode buf header =
     (if length buf < E2E_HEADER_SIZE then (E2E_ERR_TOO_SHORT, header, None)
      else
        let header' = e2e_parse_header buf;
            expected_total = E2E_HEADER_SIZE + unat (length_field header')
        in if expected_total \<noteq> length buf then (E2E_ERR_LENGTH_MISMATCH, header', None)
           else
             let crc_len = 7 + unat (length_field header')
             in if 7 + 512 < crc_len then (E2E_ERR_TOO_SHORT, header', None)
                else
                  let payload = slice buf E2E_HEADER_SIZE (unat (length_field header'));
                      computed_crc = e2e_crc32 (slice buf 0 7 @ payload)
                  in if computed_crc \<noteq> crc32 header' then (E2E_ERR_CRC, header', None)
                     else (E2E_OK, header', Some payload))"

definition e2e_seq_checker_init :: "u16 \<Rightarrow> e2e_seq_checker_t" where
  "e2e_seq_checker_init gap =
     \<lparr>last_seq = - 1, max_gap = gap, valid_count = 0, init_count = 3\<rparr>"

definition e2e_seq_check :: "e2e_seq_checker_t \<Rightarrow> u16 \<Rightarrow> e2e_status_t \<times> e2e_seq_checker_t" where
  "e2e_seq_check chk sq =
     (if sint (last_seq chk) < 0 then
        (E2E_OK, chk\<lparr>last_seq := ucast sq, valid_count := 1\<rparr>)
      else
        let delta = (sq - ucast (last_seq chk)) AND 0xFFFF
        in if delta = 0 then (E2E_ERR_SEQ_REPEATED, chk)
           else if delta \<le> max_gap chk then
             (E2E_OK, chk\<lparr>last_seq := ucast sq, valid_count := valid_count chk + 1\<rparr>)
           else
             (E2E_ERR_SEQ_GAP, chk\<lparr>last_seq := ucast sq, valid_count := 0\<rparr>))"

section \<open>Frames\<close>

text \<open>The wire format: seven header bytes, the CRC over them and the payload, the payload.\<close>

record e2e_msg =
  msg_id :: u16
  msg_seq :: u16
  msg_alive :: u8
  msg_payload :: bytes

definition e2e_msg_ok :: "e2e_msg \<Rightarrow> bool" where
  "e2e_msg_ok m \<longleftrightarrow> length (msg_payload m) \<le> 512"

definition e2e_fields :: "e2e_msg \<Rightarrow> bytes" where
  "e2e_fields m = e2e_hdr_fields (msg_id m) (msg_seq m) (msg_alive m) (of_nat (length (msg_payload m)))"

definition e2e_frame :: "e2e_msg \<Rightarrow> bytes" where
  "e2e_frame m = e2e_fields m @ put_be32 (e2e_crc32 (e2e_fields m @ msg_payload m)) @ msg_payload m"

text \<open>The decoder as a partial function, from any previous content of the header.\<close>

definition e2e_accept :: "bytes \<Rightarrow> e2e_msg option" where
  "e2e_accept buf =
     (case e2e_decode buf \<lparr>data_id = 0, sequence_counter = 0, alive_counter = 0,
                           length_field = 0, crc32 = 0\<rparr> of
        (E2E_OK, h, Some p) \<Rightarrow>
          Some \<lparr>msg_id = data_id h, msg_seq = sequence_counter h, msg_alive = alive_counter h,
                msg_payload = p\<rparr>
      | _ \<Rightarrow> None)"

lemma length_e2e_hdr_fields [simp]: "length (e2e_hdr_fields a b c d) = 7"
  by (simp add: e2e_hdr_fields_def)

lemma length_e2e_fields [simp]: "length (e2e_fields m) = 7"
  by (simp add: e2e_fields_def)

lemma length_e2e_frame [simp]: "length (e2e_frame m) = E2E_HEADER_SIZE + length (msg_payload m)"
  by (simp add: e2e_frame_def)

lemma e2e_encode_frame:
  assumes "length payload \<le> 512" "E2E_HEADER_SIZE + length payload \<le> length out_buf"
  shows "e2e_encode payload did cnt out_buf =
    (E2E_HEADER_SIZE + length payload, cnt\<lparr>seq := seq cnt + 1, alive := alive cnt + 1\<rparr>,
     e2e_frame \<lparr>msg_id = did, msg_seq = seq cnt, msg_alive = alive cnt, msg_payload = payload\<rparr>
     @ drop (E2E_HEADER_SIZE + length payload) out_buf)"
  using assms by (simp add: e2e_encode_def e2e_frame_def e2e_fields_def memcpy_at_def Let_def)

lemma e2e_parse_frame:
  assumes "e2e_msg_ok m"
  shows "e2e_parse_header (e2e_frame m) =
    \<lparr>data_id = msg_id m, sequence_counter = msg_seq m, alive_counter = msg_alive m,
     length_field = of_nat (length (msg_payload m)),
     crc32 = e2e_crc32 (e2e_fields m @ msg_payload m)\<rparr>"
  by (simp add: e2e_parse_header_def e2e_frame_def e2e_fields_def e2e_hdr_fields_def be_simps nth_append)

lemma e2e_decode_frame:
  assumes "e2e_msg_ok m"
  shows "e2e_decode (e2e_frame m) h = (E2E_OK, e2e_parse_header (e2e_frame m), Some (msg_payload m))"
proof -
  have len: "unat (of_nat (length (msg_payload m)) :: u16) = length (msg_payload m)"
    using assms by (intro unat_of_nat_small) (simp add: e2e_msg_ok_def)
  have "slice (e2e_frame m) 0 7 = e2e_fields m"
    "slice (e2e_frame m) E2E_HEADER_SIZE (length (msg_payload m)) = msg_payload m"
    by (simp_all add: e2e_frame_def slice_def)
  then show ?thesis
    using assms by (simp add: e2e_decode_def e2e_parse_frame len e2e_msg_ok_def Let_def)
qed

lemma e2e_decode_ok_frame:
  assumes "e2e_decode buf h = (E2E_OK, h', Some p)"
  defines "m \<equiv> \<lparr>msg_id = data_id h', msg_seq = sequence_counter h',
                 msg_alive = alive_counter h', msg_payload = p\<rparr>"
  shows "e2e_msg_ok m \<and> buf = e2e_frame m"
proof -
  from assms(1) have h': "h' = e2e_parse_header buf" and l: "E2E_HEADER_SIZE \<le> length buf"
    and len: "length buf = E2E_HEADER_SIZE + unat (length_field h')" "unat (length_field h') \<le> 512"
    and p: "p = drop E2E_HEADER_SIZE buf"
    and crc: "e2e_crc32 (take 7 buf @ p) = crc32 h'"
    by (auto simp: e2e_decode_def Let_def slice_def split: if_splits)
  have lp: "length p = unat (length_field h')" using len p by simp
  have "e2e_fields m = take 2 buf @ take 2 (drop 2 buf) @ [buf ! 4] @ take 2 (drop 5 buf)"
    using l lp by (simp add: e2e_fields_def m_def e2e_hdr_fields_def h' e2e_parse_header_def put_get_be16)
  also have "\<dots> = take 7 buf"
    using l by (intro nth_equalityI) (auto simp: nth_append less_Suc_eq numeral_eq_Suc)
  finally have f: "e2e_fields m = take 7 buf" .
  have "put_be32 (crc32 h') = take 4 (drop 7 buf)"
    using l by (simp add: h' e2e_parse_header_def put_get_be32)
  with f crc have "e2e_frame m = take 7 buf @ take 4 (drop 7 buf) @ drop 11 buf"
    by (simp add: e2e_frame_def m_def p)
  also have "\<dots> = buf"
    using append_take_drop_id [of 7 buf] append_take_drop_id [of 4 "drop 7 buf"] by simp
  finally show ?thesis using len lp by (simp add: e2e_msg_ok_def m_def)
qed

lemma e2e_decode_payload: "(\<exists>p. snd (snd (e2e_decode buf h)) = Some p) \<longleftrightarrow> fst (e2e_decode buf h) = E2E_OK"
  by (auto simp: e2e_decode_def Let_def)

text \<open>The decoder accepts the frames of well-formed messages and nothing else.\<close>

interpretation e2e: strict_codec e2e_frame e2e_accept e2e_msg_ok
proof unfold_locales
  fix m :: e2e_msg assume "e2e_msg_ok m"
  then show "e2e_accept (e2e_frame m) = Some m"
    by (simp add: e2e_accept_def e2e_decode_frame e2e_parse_frame)
next
  fix buf m assume "e2e_accept buf = Some m"
  then show "e2e_msg_ok m \<and> e2e_frame m = buf"
    by (auto simp: e2e_accept_def split: prod.splits e2e_status_t.splits option.splits
        dest!: e2e_decode_ok_frame)
qed

section \<open>Corruption\<close>

text \<open>A corrupted header field other than the length keeps the length check satisfied.\<close>

lemma e2e_accepted_split:
  assumes "fst (e2e_decode buf h) = E2E_OK"
  obtains m where "e2e_msg_ok m" "buf = e2e_frame m"
proof -
  obtain h' p where "e2e_decode buf h = (E2E_OK, h', Some p)"
    using assms e2e_decode_payload [of buf h] by (cases "e2e_decode buf h") auto
  then show thesis using that e2e_decode_ok_frame by blast
qed

lemma e2e_accept_iff: "fst (e2e_decode buf h) = E2E_OK \<longleftrightarrow> (\<exists>m. e2e_msg_ok m \<and> buf = e2e_frame m)"
  by (metis e2e_accepted_split e2e_decode_frame fst_conv)

lemma e2e_frame_same_length:
  assumes "e2e_msg_ok m" "e2e_msg_ok m'" "length (e2e_frame m) = length (e2e_frame m')"
    and "take 7 (e2e_frame m) @ drop E2E_HEADER_SIZE (e2e_frame m) = pre @ as @ post"
    and "take 7 (e2e_frame m') @ drop E2E_HEADER_SIZE (e2e_frame m') = pre @ bs @ post"
    and "length as = length bs" "length bs \<le> 4" "as \<noteq> bs"
  shows "slice (e2e_frame m) 7 4 \<noteq> slice (e2e_frame m') 7 4"
proof -
  have "e2e_fields m @ msg_payload m = pre @ as @ post" "e2e_fields m' @ msg_payload m' = pre @ bs @ post"
    using assms(4,5) by (simp_all add: e2e_frame_def)
  then have "e2e_crc32 (e2e_fields m @ msg_payload m) \<noteq> e2e_crc32 (e2e_fields m' @ msg_payload m')"
    using e2e_crc32_burst [OF assms(6-8)] by simp
  then have "put_be32 (e2e_crc32 (e2e_fields m @ msg_payload m)) \<noteq>
      put_be32 (e2e_crc32 (e2e_fields m' @ msg_payload m'))"
    by (metis get_put_be32)
  then show ?thesis by (simp add: e2e_frame_def slice_def)
qed

text \<open>
  C16: corruption of up to four consecutive bytes among the bytes that the CRC covers
  (data id, sequence counter, alive counter, length, payload) is always detected: if a frame
  is accepted, no buffer that differs from it exactly so, with the CRC field unchanged, is.
\<close>

theorem e2e_burst_detected:
  assumes "fst (e2e_decode buf h) = E2E_OK"
    and "length buf' = length buf" "slice buf' 7 4 = slice buf 7 4"
    and "take 7 buf @ drop 11 buf = pre @ as @ post"
    and "take 7 buf' @ drop 11 buf' = pre @ bs @ post"
    and "length as = length bs" "length bs \<le> 4" "as \<noteq> bs"
  shows "fst (e2e_decode buf' h') \<noteq> E2E_OK"
proof
  assume "fst (e2e_decode buf' h') = E2E_OK"
  then obtain m m' where "e2e_msg_ok m" "buf = e2e_frame m" "e2e_msg_ok m'" "buf' = e2e_frame m'"
    using assms(1) by (metis e2e_accepted_split)
  then show False
    using e2e_frame_same_length [of m m' pre as post bs] assms by auto
qed

text \<open>The status of \<open>e2e_decode\<close> in terms of the buffer alone.\<close>

lemma e2e_decode_status:
  "fst (e2e_decode buf h) =
     (if length buf < E2E_HEADER_SIZE then E2E_ERR_TOO_SHORT
      else if E2E_HEADER_SIZE + unat (get_be16 (drop 5 buf)) \<noteq> length buf then E2E_ERR_LENGTH_MISMATCH
      else if 512 < unat (get_be16 (drop 5 buf)) then E2E_ERR_TOO_SHORT
      else if e2e_crc32 (take 7 buf @ drop E2E_HEADER_SIZE buf) \<noteq> get_be32 (drop 7 buf) then E2E_ERR_CRC
      else E2E_OK)"
  by (auto simp: e2e_decode_def e2e_parse_header_def slice_def Let_def)

lemma get_be16_eq_iff:
  "2 \<le> length xs \<Longrightarrow> 2 \<le> length ys \<Longrightarrow> get_be16 xs = get_be16 ys \<longleftrightarrow> take 2 xs = take 2 ys"
  by (metis put_get_be16 get_be16_prefix append_take_drop_id)

lemma get_be32_eq_iff:
  "4 \<le> length xs \<Longrightarrow> 4 \<le> length ys \<Longrightarrow> get_be32 xs = get_be32 ys \<longleftrightarrow> take 4 xs = take 4 ys"
  by (metis put_get_be32 get_be32_prefix append_take_drop_id)

text \<open>One byte of the buffer is one byte of the CRC input, or of the CRC field.\<close>

lemma covered_update:
  assumes "i < length buf" "11 \<le> length buf"
  shows "take 7 (buf[i := b]) @ drop 11 (buf[i := b]) =
    (if i < 7 then (take 7 buf @ drop 11 buf)[i := b]
     else if i < 11 then take 7 buf @ drop 11 buf
     else (take 7 buf @ drop 11 buf)[i - 4 := b])"
  using assms by (auto simp: list_update_append take_update_swap drop_update_swap
      list_update_beyond)

lemma covered_nth:
  assumes "i < length buf" "11 \<le> length buf" "\<not> (7 \<le> i \<and> i < 11)"
  shows "(take 7 buf @ drop 11 buf) ! (if i < 7 then i else i - 4) = buf ! i"
  using assms by (auto simp: nth_append)

text \<open>
  Whatever single byte of an accepted frame is changed, the result is rejected: a change
  of the length field by the length check, any other by the CRC check.
\<close>

theorem e2e_single_byte_detected:
  assumes ok: "fst (e2e_decode buf h) = E2E_OK" and i: "i < length buf" and b: "b \<noteq> buf ! i"
  shows "fst (e2e_decode (buf[i := b]) h') =
    (if i = 5 \<or> i = 6 then E2E_ERR_LENGTH_MISMATCH else E2E_ERR_CRC)"
proof -
  have l: "11 \<le> length buf" "11 + unat (get_be16 (drop 5 buf)) = length buf"
    "unat (get_be16 (drop 5 buf)) \<le> 512"
    "e2e_crc32 (take 7 buf @ drop 11 buf) = get_be32 (drop 7 buf)"
    using ok by (simp_all add: e2e_decode_status split: if_splits)
  consider "i = 5 \<or> i = 6" | "7 \<le> i \<and> i < 11" | "i < 5 \<or> 11 \<le> i" by linarith
  then show ?thesis
  proof cases
    case 1
    then have "take 2 (drop 5 (buf[i := b])) \<noteq> take 2 (drop 5 buf)"
      using l(1) b by (auto simp: list_take_2 nth_list_update)
    then have "get_be16 (drop 5 (buf[i := b])) \<noteq> get_be16 (drop 5 buf)"
      using l(1) by (simp add: get_be16_eq_iff)
    then have "11 + unat (get_be16 (drop 5 (buf[i := b]))) \<noteq> length buf"
      using l(2) by (metis add_left_cancel word_unat_eq_iff)
    with 1 l(1) show ?thesis by (auto simp: e2e_decode_status)
  next
    case 2
    then obtain k where k: "i = 7 + k" "k < 4" by (auto intro: that [of "i - 7"])
    then have "take 4 (drop 7 (buf[i := b])) ! k \<noteq> take 4 (drop 7 buf) ! k"
      using l(1) b by simp
    then have "get_be32 (drop 7 (buf[i := b])) \<noteq> get_be32 (drop 7 buf)"
      using l(1) get_be32_eq_iff [of "drop 7 (buf[i := b])" "drop 7 buf"] by auto
    moreover have "get_be16 (drop 5 (buf[i := b])) = get_be16 (drop 5 buf)"
      using 2 l(1) by (simp add: get_be16_def)
    ultimately show ?thesis using 2 l i by (auto simp: e2e_decode_status covered_update)
  next
    case 3
    let ?cov = "take 7 buf @ drop 11 buf" and ?j = "if i < 7 then i else i - 4"
    have "e2e_crc32 (?cov[?j := b]) \<noteq> e2e_crc32 ?cov"
      using i b l(1) 3 covered_nth [of i buf] by (intro e2e_crc32_single) auto
    moreover have "get_be16 (drop 5 (buf[i := b])) = get_be16 (drop 5 buf)"
      "get_be32 (drop 7 (buf[i := b])) = get_be32 (drop 7 buf)"
      using 3 l(1) by (auto simp: get_be16_def get_be32_def)
    ultimately show ?thesis using 3 l i covered_update [of i buf b]
      by (auto simp: e2e_decode_status split: if_splits)
  qed
qed


text \<open>A frame to apply the theorems to: a headlight command with a two byte payload.\<close>

definition sample_msg :: e2e_msg where
  "sample_msg = \<lparr>msg_id = 0x2010, msg_seq = 65535, msg_alive = 7, msg_payload = [0x7B, 0x7D]\<rparr>"

lemma sample_msg_ok: "e2e_msg_ok sample_msg"
  by (simp add: e2e_msg_ok_def sample_msg_def)

lemma sample_frame_accepted: "fst (e2e_decode (e2e_frame sample_msg) h) = E2E_OK"
  using sample_msg_ok e2e_accept_iff by blast

lemma sample_frame_length: "length (e2e_frame sample_msg) = 13"
  by (simp add: sample_msg_def)

lemma sample_frame_head: "take 7 (e2e_frame sample_msg) = [0x20, 0x10, 0xFF, 0xFF, 7, 0, 2]"
  by (simp add: e2e_frame_def e2e_fields_def e2e_hdr_fields_def sample_msg_def put_be16_def)

lemma sample_frame_tail: "drop 11 (e2e_frame sample_msg) = [0x7B, 0x7D]"
  by (simp add: e2e_frame_def sample_msg_def)

definition blank_header :: e2e_header_t where
  "blank_header = \<lparr>data_id = 0, sequence_counter = 0, alive_counter = 0, length_field = 0, crc32 = 0\<rparr>"

theorem e2e_single_byte_detected_witness:
  "fst (e2e_decode ((e2e_frame sample_msg)[3 := 0]) blank_header) = E2E_ERR_CRC"
proof -
  have "take 7 (e2e_frame sample_msg) ! 3 = 0xFF" by (simp add: sample_frame_head)
  then have "0 \<noteq> e2e_frame sample_msg ! 3" by simp
  then show ?thesis
    using e2e_single_byte_detected [OF sample_frame_accepted [of blank_header], of 3 0 blank_header]
    by (simp add: sample_frame_length)
qed

theorem e2e_burst_detected_witness:
  "fst (e2e_decode ([0x20, 0x11, 0, 0, 8, 0, 2] @ drop 7 (e2e_frame sample_msg)) blank_header) \<noteq> E2E_OK"
proof (rule e2e_burst_detected [OF sample_frame_accepted [of blank_header],
      where pre = "[0x20]" and as = "[0x10, 0xFF, 0xFF, 7]" and bs = "[0x11, 0, 0, 8]"
        and post = "[0, 2, 0x7B, 0x7D]"])
qed (simp_all add: sample_frame_head sample_frame_tail sample_frame_length slice_def)

section \<open>Round trip\<close>

text \<open>
  C15: what \<open>e2e_encode\<close> writes into a buffer with room, \<open>e2e_decode\<close> accepts and hands back:
  the payload, the data id and the counters of before the call. The sequence counter advances
  by one modulo \<open>2^16\<close>, the alive counter modulo \<open>2^8\<close>.
\<close>

theorem e2e_encode_decode:
  assumes "length payload \<le> 512" "11 + length payload \<le> length out_buf"
    and "e2e_encode payload did cnt out_buf = (n, cnt', out_buf')"
  shows "n = 11 + length payload \<and> length out_buf' = length out_buf \<and>
    seq cnt' = seq cnt + 1 \<and> alive cnt' = alive cnt + 1 \<and>
    (\<exists>h'. e2e_decode (take n out_buf') h = (E2E_OK, h', Some payload) \<and> data_id h' = did \<and>
       sequence_counter h' = seq cnt \<and> alive_counter h' = alive cnt)"
proof -
  let ?m = "\<lparr>msg_id = did, msg_seq = seq cnt, msg_alive = alive cnt, msg_payload = payload\<rparr>"
  have ok: "e2e_msg_ok ?m" using assms(1) by (simp add: e2e_msg_ok_def)
  have "n = 11 + length payload" "cnt' = cnt\<lparr>seq := seq cnt + 1, alive := alive cnt + 1\<rparr>"
    "out_buf' = e2e_frame ?m @ drop n out_buf"
    using assms by (auto simp: e2e_encode_frame)
  then show ?thesis
    using assms(2) by (simp add: e2e_decode_frame [OF ok] e2e_parse_frame [OF ok])
qed

theorem e2e_encode_decode_witness:
  "\<exists>n cnt' out'. e2e_encode [0x7B, 0x7D] 0x1010 \<lparr>seq = 65535, alive = 255\<rparr> (replicate 300 0) = (n, cnt', out')
     \<and> n = 13 \<and> seq cnt' = 0 \<and> alive cnt' = 0 \<and> fst (e2e_decode (take n out') blank_header) = E2E_OK"
proof -
  obtain n cnt' out' where
    e: "e2e_encode [0x7B, 0x7D] 0x1010 \<lparr>seq = 65535, alive = 255\<rparr> (replicate 300 0) = (n, cnt', out')"
    by (metis prod_cases3)
  show ?thesis
    using e2e_encode_decode [OF _ _ e, of blank_header] e by auto
qed

text \<open>
  The three outcomes of \<open>e2e_encode\<close>. With too small a buffer it returns 0 and changes
  nothing. With a payload of more than 512 bytes it returns 0 and leaves the buffer alone, but
  the counters have advanced, so the next frame shows the receiver a gap. Otherwise it writes
  the frame of the message into the front of the buffer.
\<close>

theorem e2e_encode_outcomes:
  "e2e_encode payload did cnt out_buf =
     (if length out_buf < 11 + length payload then (0, cnt, out_buf)
      else if 512 < length payload
      then (0, cnt\<lparr>seq := seq cnt + 1, alive := alive cnt + 1\<rparr>, out_buf)
      else (11 + length payload, cnt\<lparr>seq := seq cnt + 1, alive := alive cnt + 1\<rparr>,
            e2e_frame \<lparr>msg_id = did, msg_seq = seq cnt, msg_alive = alive cnt, msg_payload = payload\<rparr>
            @ drop (11 + length payload) out_buf))"
proof (cases "length payload \<le> 512 \<and> 11 + length payload \<le> length out_buf")
  case True
  then show ?thesis by (simp add: e2e_encode_frame)
qed (auto simp: e2e_encode_def Let_def)

section \<open>The sequence checker\<close>

text \<open>The checker's last number is \<open>-1\<close> or the zero extension of a received number.\<close>

definition seq_chk_ok :: "u16 \<Rightarrow> e2e_seq_checker_t \<Rightarrow> bool" where
  "seq_chk_ok gap c \<longleftrightarrow> max_gap c = gap \<and>
     (last_seq c = - 1 \<or> last_seq c = ucast (ucast (last_seq c) :: u16))"

lemma ucast_down_up [simp]: "ucast (ucast (s :: u16) :: 32 word) = s"
  by (rule bit_word_eqI) (auto simp: bit_simps)

lemma sint_ucast_u16 [simp]: "sint (ucast (s :: u16) :: 32 word) = uint s"
proof -
  have b: "0 \<le> uint s" "uint s < 65536"
    using uint_lt2p [of s] by simp_all
  then have "uint (ucast s :: 32 word) = uint s"
    by (simp add: unsigned_ucast_eq take_bit_int_eq_self)
  moreover have "signed_take_bit 31 (uint s) = uint s"
    by (rule signed_take_bit_int_eq_self) (use b in \<open>simp_all add: order_trans [of _ 0]\<close>)
  ultimately show ?thesis by (simp add: sint_uint)
qed

lemma seq_first: "last_seq c = - 1 \<Longrightarrow>
    e2e_seq_check c s = (E2E_OK, c\<lparr>last_seq := ucast s, valid_count := 1\<rparr>)"
  by (simp add: e2e_seq_check_def)

lemma and_0xFFFF_u16 [simp]: "(x :: u16) AND 0xFFFF = x"
proof -
  have "(0xFFFF :: u16) = - 1" by simp
  then show ?thesis by (simp only: and.right_neutral)
qed

lemma seq_next: "last_seq c = ucast a \<Longrightarrow>
    e2e_seq_check c s =
      (if s = a then (E2E_ERR_SEQ_REPEATED, c)
       else if s - a \<le> max_gap c then (E2E_OK, c\<lparr>last_seq := ucast s, valid_count := valid_count c + 1\<rparr>)
       else (E2E_ERR_SEQ_GAP, c\<lparr>last_seq := ucast s, valid_count := 0\<rparr>))"
  by (simp add: e2e_seq_check_def Let_def not_less)

interpretation seq_machine:
  machine "e2e_seq_checker_init gap" "\<lambda>s c. snd (e2e_seq_check c s)" "seq_chk_ok gap" for gap
  by unfold_locales
    (auto simp: seq_chk_ok_def e2e_seq_checker_init_def e2e_seq_check_def Let_def)

text \<open>The verdicts on a run of received numbers.\<close>

fun e2e_seq_verdicts :: "e2e_seq_checker_t \<Rightarrow> u16 list \<Rightarrow> e2e_status_t list" where
  "e2e_seq_verdicts c [] = []"
| "e2e_seq_verdicts c (s # ss) =
     fst (e2e_seq_check c s) # e2e_seq_verdicts (snd (e2e_seq_check c s)) ss"

lemma word_diff_le_1: "(s :: u16) - a \<le> 1 \<longleftrightarrow> s = a \<or> s = a + 1"
proof -
  have "d \<le> 1 \<longleftrightarrow> d = 0 \<or> d = 1" for d :: u16
    by (auto simp: word_le_nat_alt word_unat_eq_iff le_Suc_eq)
  then show ?thesis by (auto simp: algebra_simps)
qed

lemma seq_verdicts_consecutive:
  assumes "last_seq c = ucast a" "max_gap c = E2E_ASILD_MAX_GAP"
  shows "set (e2e_seq_verdicts c ss) \<subseteq> {E2E_OK} \<longleftrightarrow> successively (\<lambda>x y. y = x + 1) (a # ss)"
  using assms
proof (induction ss arbitrary: c a)
  case (Cons s ss)
  show ?case
  proof (cases "s = a + 1")
    case True
    with Cons show ?thesis by (simp add: seq_next)
  next
    case False
    with Cons.prems show ?thesis by (simp add: seq_next word_diff_le_1)
  qed
qed simp

lemma seq_accepts_iff:
  "set (e2e_seq_verdicts (e2e_seq_checker_init E2E_ASILD_MAX_GAP) ss) \<subseteq> {E2E_OK} \<longleftrightarrow>
     successively (\<lambda>x y. y = x + 1) ss"
proof (cases ss)
  case (Cons s ss')
  then show ?thesis
    by (simp add: seq_first e2e_seq_checker_init_def seq_verdicts_consecutive)
qed simp

text \<open>
  C17: the ASIL-D checker, from its initial state, accepts every message of a run exactly when
  each sequence number is the successor of the one before, modulo \<open>2^16\<close>; the first number is
  free.
\<close>

theorem e2e_seq_accepts_consecutive:
  "set (e2e_seq_verdicts (e2e_seq_checker_init E2E_ASILD_MAX_GAP) ss) \<subseteq> {E2E_OK} \<longleftrightarrow>
     successively (\<lambda>x y. y = x + 1) ss"
  by (rule seq_accepts_iff)

text \<open>
  The checker resynchronises on a rejected message. After any accepted number \<open>a\<close>, a
  number \<open>s\<close> outside the gap limit is rejected, and then its successor is accepted: of two
  old consecutive messages the second gets past the sequence check.
\<close>

theorem e2e_seq_resync:
  "e2e_seq_verdicts (e2e_seq_checker_init E2E_ASILD_MAX_GAP) [a, s, s + 1] =
     (if s = a then [E2E_OK, E2E_ERR_SEQ_REPEATED, E2E_OK]
      else if s = a + 1 then [E2E_OK, E2E_OK, E2E_OK]
      else [E2E_OK, E2E_ERR_SEQ_GAP, E2E_OK])"
  by (simp add: seq_first seq_next e2e_seq_checker_init_def word_diff_le_1)

end
