(* ===== verification/Sha256.thy ===== *)
theory Sha256
  imports Prelude
begin

text \<open>
  SHA-256 and HMAC-SHA256 of \<open>secoc.c\<close>.

  \<^item> \<open>sha256_init\<close>, \<open>sha256_transform\<close>, \<open>sha256_update\<close>, \<open>sha256_final\<close>: the streaming
    implementation on its context. Its two loops have no bound in the code, so they are
    partial functions: \<open>None\<close> would be a loop that does not end.
  \<^item> \<open>sha256\<close>: the standard's function, on the whole message: pad it, split it into blocks of
    64 bytes, compress them one after the other.
  \<^item> \<open>sha256_run_eq\<close>: the implementation always returns, and returns the standard's digest.
    \<open>hmac_sha256_run_eq\<close>: the same for HMAC as RFC 2104 defines it.
\<close>

section \<open>The compression function\<close>

definition SHA_K :: "u32 list" where
  "SHA_K =
     0x428a2f98 # 0x71374491 # 0xb5c0fbcf # 0xe9b5dba5 #
     0x3956c25b # 0x59f111f1 # 0x923f82a4 # 0xab1c5ed5 #
     0xd807aa98 # 0x12835b01 # 0x243185be # 0x550c7dc3 #
     0x72be5d74 # 0x80deb1fe # 0x9bdc06a7 # 0xc19bf174 #
     0xe49b69c1 # 0xefbe4786 # 0x0fc19dc6 # 0x240ca1cc #
     0x2de92c6f # 0x4a7484aa # 0x5cb0a9dc # 0x76f988da #
     0x983e5152 # 0xa831c66d # 0xb00327c8 # 0xbf597fc7 #
     0xc6e00bf3 # 0xd5a79147 # 0x06ca6351 # 0x14292967 #
     0x27b70a85 # 0x2e1b2138 # 0x4d2c6dfc # 0x53380d13 #
     0x650a7354 # 0x766a0abb # 0x81c2c92e # 0x92722c85 #
     0xa2bfe8a1 # 0xa81a664b # 0xc24b8b70 # 0xc76c51a3 #
     0xd192e819 # 0xd6990624 # 0xf40e3585 # 0x106aa070 #
     0x19a4c116 # 0x1e376c08 # 0x2748774c # 0x34b0bcb5 #
     0x391c0cb3 # 0x4ed8aa4a # 0x5b9cca4f # 0x682e6ff3 #
     0x748f82ee # 0x78a5636f # 0x84c87814 # 0x8cc70208 #
     0x90befffa # 0xa4506ceb # 0xbef9a3f7 # 0xc67178f2 # []"

definition ROTR :: "u32 \<Rightarrow> nat \<Rightarrow> u32" where
  "ROTR x n = drop_bit n x OR push_bit (32 - n) x"

definition CH :: "u32 \<Rightarrow> u32 \<Rightarrow> u32 \<Rightarrow> u32" where
  "CH x y z = (x AND y) XOR (NOT x AND z)"

definition MAJ :: "u32 \<Rightarrow> u32 \<Rightarrow> u32 \<Rightarrow> u32" where
  "MAJ x y z = (x AND y) XOR (x AND z) XOR (y AND z)"

definition EP0 :: "u32 \<Rightarrow> u32" where
  "EP0 x = ROTR x 2 XOR ROTR x 13 XOR ROTR x 22"

definition EP1 :: "u32 \<Rightarrow> u32" where
  "EP1 x = ROTR x 6 XOR ROTR x 11 XOR ROTR x 25"

definition SIG0 :: "u32 \<Rightarrow> u32" where
  "SIG0 x = ROTR x 7 XOR ROTR x 18 XOR drop_bit 3 x"

definition SIG1 :: "u32 \<Rightarrow> u32" where
  "SIG1 x = ROTR x 17 XOR ROTR x 19 XOR drop_bit 10 x"

text \<open>The message schedule: 16 words from the block, then the loop from 16 to 63.\<close>

definition sha_schedule0 :: "bytes \<Rightarrow> u32 list" where
  "sha_schedule0 block = map (\<lambda>i. get_be32 (drop (4 * i) block)) [0..<16]"

definition sha_schedule_step :: "nat \<Rightarrow> u32 list \<Rightarrow> u32 list" where
  "sha_schedule_step i w = w @ [SIG1 (w ! (i - 2)) + w ! (i - 7) + SIG0 (w ! (i - 15)) + w ! (i - 16)]"

definition sha_schedule :: "bytes \<Rightarrow> u32 list" where
  "sha_schedule block = fold sha_schedule_step [16..<64] (sha_schedule0 block)"

text \<open>One round, on the eight working variables \<open>[a, b, c, d, e, f, g, h]\<close>.\<close>

fun sha_round :: "u32 \<Rightarrow> u32 \<Rightarrow> u32 list \<Rightarrow> u32 list" where
  "sha_round k w [a, b, c, d, e, f, g, h] =
     (let t1 = h + EP1 e + CH e f g + k + w;
          t2 = EP0 a + MAJ a b c
      in [t1 + t2, a, b, c, d + t1, e, f, g])"
| "sha_round k w vs = vs"

definition sha_compress :: "u32 list \<Rightarrow> bytes \<Rightarrow> u32 list" where
  "sha_compress st block =
     (let w = sha_schedule block;
          vs = fold (\<lambda>i. sha_round (SHA_K ! i) (w ! i)) [0..<64] st
      in map2 (+) st vs)"

section \<open>The streaming implementation\<close>

record sha256_ctx_t =
  ctx_state :: "u32 list"
  ctx_buf :: bytes
  ctx_total_len :: u64
  ctx_buf_len :: u8

definition SHA_H0 :: "u32 list" where
  "SHA_H0 = [0x6a09e667, 0xbb67ae85, 0x3c6ef372, 0xa54ff53a,
             0x510e527f, 0x9b05688c, 0x1f83d9ab, 0x5be0cd19]"

text \<open>\<open>sha256_init\<close> leaves the block buffer as it finds it on the stack.\<close>

definition sha256_init :: "sha256_ctx_t \<Rightarrow> sha256_ctx_t" where
  "sha256_init ctx = ctx\<lparr>ctx_state := SHA_H0, ctx_total_len := 0, ctx_buf_len := 0\<rparr>"

definition sha256_transform :: "sha256_ctx_t \<Rightarrow> bytes \<Rightarrow> sha256_ctx_t" where
  "sha256_transform ctx block = ctx\<lparr>ctx_state := sha_compress (ctx_state ctx) block\<rparr>"

text \<open>
  The body of the update loop: how many bytes it copies, and the context after it has copied
  the bytes \<open>c\<close>.
\<close>

definition sha256_chunk :: "sha256_ctx_t \<Rightarrow> bytes \<Rightarrow> nat" where
  "sha256_chunk ctx data =
     (let space = unat (64 - ucast (ctx_buf_len ctx) :: u32)
      in if length data < space then length data else space)"

definition sha256_copy :: "sha256_ctx_t \<Rightarrow> bytes \<Rightarrow> sha256_ctx_t" where
  "sha256_copy ctx c =
     (let ctx1 = ctx\<lparr>ctx_buf := memcpy_at (ctx_buf ctx) (unat (ctx_buf_len ctx)) c,
                     ctx_buf_len := ctx_buf_len ctx + of_nat (length c)\<rparr>
      in if ctx_buf_len ctx1 = 64
         then (sha256_transform ctx1 (ctx_buf ctx1))\<lparr>ctx_buf_len := 0\<rparr> else ctx1)"

partial_function (option) sha256_update_loop :: "sha256_ctx_t \<Rightarrow> bytes \<Rightarrow> sha256_ctx_t option" where
  "sha256_update_loop ctx data =
     (if data = [] then Some ctx
      else sha256_update_loop (sha256_copy ctx (take (sha256_chunk ctx data) data))
             (drop (sha256_chunk ctx data) data))"

definition sha256_update :: "sha256_ctx_t \<Rightarrow> bytes \<Rightarrow> sha256_ctx_t option" where
  "sha256_update ctx data =
     sha256_update_loop (ctx\<lparr>ctx_total_len := ctx_total_len ctx + of_nat (length data)\<rparr>) data"

partial_function (option) sha256_pad_loop :: "sha256_ctx_t \<Rightarrow> sha256_ctx_t option" where
  "sha256_pad_loop ctx =
     (if ctx_buf_len ctx = 56 then Some ctx
      else Option.bind (sha256_update ctx [0]) sha256_pad_loop)"

definition put_be64 :: "u64 \<Rightarrow> bytes" where
  "put_be64 v = map (\<lambda>i. ucast (drop_bit (8 * (7 - i)) v)) [0..<8]"

definition sha256_final :: "sha256_ctx_t \<Rightarrow> (bytes \<times> sha256_ctx_t) option" where
  "sha256_final ctx =
     (let bit_len = ctx_total_len ctx * 8
      in Option.bind (sha256_update ctx [0x80]) (\<lambda>ctx1.
         Option.bind (sha256_pad_loop ctx1) (\<lambda>ctx2.
         Option.bind (sha256_update ctx2 (put_be64 bit_len)) (\<lambda>ctx3.
         Some (concat (map put_be32 (ctx_state ctx3)), ctx3)))))"

text \<open>\<open>ctx\<close> is the memory of the local context before the call.\<close>

definition sha256_run :: "sha256_ctx_t \<Rightarrow> bytes \<Rightarrow> bytes option" where
  "sha256_run ctx data =
     Option.bind (sha256_update (sha256_init ctx) data) (\<lambda>ctx1. map_option fst (sha256_final ctx1))"

text \<open>A 64 byte pad of the byte \<open>c\<close>, its front xored with the key.\<close>

definition xor_pad :: "u8 \<Rightarrow> bytes \<Rightarrow> bytes" where
  "xor_pad c key = map (\<lambda>i. if i < length key then c XOR key ! i else c) [0..<64]"

definition hmac_sha256_run :: "sha256_ctx_t \<Rightarrow> bytes \<Rightarrow> bytes \<Rightarrow> bytes option" where
  "hmac_sha256_run ctx key0 data =
     Option.bind (if 64 < length key0 then sha256_run ctx key0 else Some key0) (\<lambda>key.
     Option.bind (sha256_update (sha256_init ctx) (xor_pad 0x36 key)) (\<lambda>c1.
     Option.bind (sha256_update c1 data) (\<lambda>c2.
     Option.bind (sha256_final c2) (\<lambda>(inner, c3).
     Option.bind (sha256_update (sha256_init c3) (xor_pad 0x5C key)) (\<lambda>c4.
     Option.bind (sha256_update c4 inner) (\<lambda>c5. map_option fst (sha256_final c5)))))))"

section \<open>The standard's functions\<close>

fun sha_blocks :: "u32 list \<Rightarrow> bytes \<Rightarrow> u32 list" where
  "sha_blocks st m =
     (if length m < 64 then st else sha_blocks (sha_compress st (take 64 m)) (drop 64 m))"

declare sha_blocks.simps [simp del]

definition sha_pad :: "bytes \<Rightarrow> bytes" where
  "sha_pad m = m @ [0x80] @ replicate ((119 - length m mod 64) mod 64) 0
     @ put_be64 (of_nat (length m) * 8)"

definition sha256 :: "bytes \<Rightarrow> bytes" where
  "sha256 m = concat (map put_be32 (sha_blocks SHA_H0 (sha_pad m)))"

definition hmac_sha256 :: "bytes \<Rightarrow> bytes \<Rightarrow> bytes" where
  "hmac_sha256 key0 m =
     (let key = (if 64 < length key0 then sha256 key0 else key0)
      in sha256 (xor_pad 0x5C key @ sha256 (xor_pad 0x36 key @ m)))"

section \<open>Blocks\<close>

definition tail64 :: "bytes \<Rightarrow> bytes" where
  "tail64 m = drop (64 * (length m div 64)) m"

lemma length_tail64 [simp]: "length (tail64 m) = length m mod 64"
  by (simp add: tail64_def minus_mult_div_eq_mod)

lemma tail64_small: "length m < 64 \<Longrightarrow> tail64 m = m"
  by (simp add: tail64_def)

lemma tail64_drop: "64 \<le> length m \<Longrightarrow> tail64 (drop 64 m) = tail64 m"
  by (simp add: tail64_def le_div_geq add.commute)

lemma sha_blocks_small [simp]: "length m < 64 \<Longrightarrow> sha_blocks st m = st"
  by (simp add: sha_blocks.simps)

lemma sha_blocks_one: "length m = 64 \<Longrightarrow> sha_blocks st m = sha_compress st m"
  by (simp add: sha_blocks.simps)

lemma sha_blocks_append: "sha_blocks st (m @ n) = sha_blocks (sha_blocks st m) (tail64 m @ n)"
proof (induction st m rule: sha_blocks.induct)
  case (1 st m)
  show ?case
  proof (cases "length m < 64")
    case False
    then show ?thesis
      using "1.IH" by (simp add: sha_blocks.simps [of st m] sha_blocks.simps [of st "m @ n"] tail64_drop)
  qed (simp add: tail64_small)
qed

lemma tail64_append: "tail64 (m @ n) = tail64 (tail64 m @ n)"
proof (induction m rule: length_induct)
  case (1 m)
  show ?case
  proof (cases "length m < 64")
    case False
    then have "tail64 (m @ n) = tail64 (drop 64 m @ n)"
      using tail64_drop [of "m @ n"] by simp
    also have "\<dots> = tail64 (tail64 (drop 64 m) @ n)"
      by (rule "1.IH" [rule_format]) (use False in simp)
    also have "\<dots> = tail64 (tail64 m @ n)"
      using False by (simp add: tail64_drop)
    finally show ?thesis .
  qed (simp add: tail64_small)
qed

section \<open>What a context has absorbed\<close>

text \<open>The context has absorbed \<open>m\<close>: all full blocks are compressed, the rest is buffered.\<close>

definition sha_absorbed :: "sha256_ctx_t \<Rightarrow> bytes \<Rightarrow> bool" where
  "sha_absorbed ctx m \<longleftrightarrow> length (ctx_buf ctx) = 64 \<and> unat (ctx_buf_len ctx) = length m mod 64 \<and>
     take (length m mod 64) (ctx_buf ctx) = tail64 m \<and> ctx_state ctx = sha_blocks SHA_H0 m"

lemma sha_absorbed_init: "length (ctx_buf ctx) = 64 \<Longrightarrow> sha_absorbed (sha256_init ctx) []"
  by (simp add: sha_absorbed_def sha256_init_def tail64_def)

text \<open>One turn of the update loop absorbs the chunk it copies.\<close>

lemma sha256_chunk_eq:
  assumes "unat (ctx_buf_len ctx) < 64"
  shows "sha256_chunk ctx data = min (length data) (64 - unat (ctx_buf_len ctx))"
proof -
  have "unat (64 - ucast (ctx_buf_len ctx) :: u32) = 64 - unat (ctx_buf_len ctx)"
    using assms by (subst unat_sub) (simp_all add: word_le_nat_alt)
  then show ?thesis by (simp add: sha256_chunk_def Let_def)
qed

lemma sha256_copy_absorbs:
  assumes rep: "sha_absorbed ctx m" and c: "c \<noteq> []" "length m mod 64 + length c \<le> 64"
  shows "sha_absorbed (sha256_copy ctx c) (m @ c)"
proof -
  let ?k = "length m mod 64"
  have len: "unat (ctx_buf_len ctx + of_nat (length c)) = ?k + length c"
    using rep c by (simp add: sha_absorbed_def unat_word_ariths unat_of_nat take_bit_eq_mod)
  have b: "take (?k + length c) (memcpy_at (ctx_buf ctx) ?k c) = tail64 m @ c"
    using rep c by (simp add: sha_absorbed_def take_memcpy_at)
  have lm: "length (memcpy_at (ctx_buf ctx) ?k c) = 64"
    using rep c by (simp add: sha_absorbed_def)
  have st: "sha_blocks SHA_H0 (m @ c) = sha_blocks (ctx_state ctx) (tail64 m @ c)"
    using rep sha_blocks_append [of SHA_H0 m c] by (simp add: sha_absorbed_def)
  show ?thesis
  proof (cases "?k + length c = 64")
    case True
    with len have eq: "ctx_buf_len ctx + of_nat (length c) = 64"
      by (simp add: word_unat_eq_iff)
    have "memcpy_at (ctx_buf ctx) ?k c = tail64 m @ c"
      using b lm True by simp
    moreover have "(length m + length c) mod 64 = 0"
      using True by (metis mod_add_left_eq mod_self)
    moreover have "tail64 (m @ c) = []"
      using calculation(2) by (metis length_0_conv length_append length_tail64)
    ultimately show ?thesis
      using rep True st lm by (simp add: sha_absorbed_def sha256_copy_def eq sha256_transform_def sha_blocks_one)
  next
    case False
    with c have lt: "?k + length c < 64" by simp
    with len have neq: "ctx_buf_len ctx + of_nat (length c) \<noteq> 64" by (auto simp: word_unat_eq_iff)
    have "(length m + length c) mod 64 = ?k + length c"
      using lt by (metis mod_add_left_eq mod_less)
    moreover have "tail64 (m @ c) = tail64 m @ c"
      using lt by (simp add: tail64_append [of m] tail64_small)
    ultimately show ?thesis
      using rep lt st lm len b neq by (simp add: sha_absorbed_def sha256_copy_def)
  qed
qed

lemma sha256_copy_total [simp]: "ctx_total_len (sha256_copy ctx c) = ctx_total_len ctx"
  by (simp add: sha256_copy_def sha256_transform_def Let_def)

lemma sha_loop_absorbs:
  "sha_absorbed ctx m \<Longrightarrow>
   \<exists>ctx'. sha256_update_loop ctx data = Some ctx' \<and> sha_absorbed ctx' (m @ data) \<and>
     ctx_total_len ctx' = ctx_total_len ctx"
proof (induction data arbitrary: ctx m rule: length_induct)
  case (1 data)
  show ?case
  proof (cases "data = []")
    case True
    with 1 show ?thesis by (simp add: sha256_update_loop.simps)
  next
    case False
    let ?n = "sha256_chunk ctx data"
    let ?ctx = "sha256_copy ctx (take ?n data)"
    have bl: "unat (ctx_buf_len ctx) = length m mod 64"
      using "1.prems" by (simp add: sha_absorbed_def)
    have n: "0 < ?n" "length m mod 64 + ?n \<le> 64" "?n \<le> length data"
      using False by (auto simp: sha256_chunk_eq bl)
    have "sha_absorbed ?ctx (m @ take ?n data)"
      using n False by (intro sha256_copy_absorbs "1.prems") auto
    moreover have "length (drop ?n data) < length data" using n(1) False by simp
    ultimately obtain ctx' where "sha256_update_loop ?ctx (drop ?n data) = Some ctx'"
      "sha_absorbed ctx' ((m @ take ?n data) @ drop ?n data)" "ctx_total_len ctx' = ctx_total_len ?ctx"
      using "1.IH" by blast
    moreover have "sha256_update_loop ctx data = sha256_update_loop ?ctx (drop ?n data)"
      using False by (subst sha256_update_loop.simps) (simp only: if_False)
    ultimately show ?thesis by simp
  qed
qed

lemma sha_update_absorbs:
  assumes "sha_absorbed ctx m"
  obtains ctx' where "sha256_update ctx data = Some ctx'" "sha_absorbed ctx' (m @ data)"
    "ctx_total_len ctx' = ctx_total_len ctx + of_nat (length data)"
proof -
  have "sha_absorbed (ctx\<lparr>ctx_total_len := ctx_total_len ctx + of_nat (length data)\<rparr>) m"
    using assms by (simp add: sha_absorbed_def)
  from sha_loop_absorbs [OF this, of data] show thesis
    using that by (auto simp: sha256_update_def)
qed

lemma pad_120: "r < 64 \<Longrightarrow> (120 - r) mod 64 = (if r \<le> 56 then 56 - r else 120 - r :: nat)"
  by (auto simp: le_mod_geq)

lemma pad_119: "r < 64 \<Longrightarrow> (119 - r) mod 64 = (if r \<le> 55 then 55 - r else 119 - r :: nat)"
  by (auto simp: le_mod_geq)

lemma pad_step:
  assumes "r < 64" "r \<noteq> 56" "(120 - r) mod 64 = Suc k"
  shows "k = (120 - (if Suc r = 64 then 0 else Suc r)) mod (64 :: nat)"
proof -
  have k: "Suc k = (if r \<le> 56 then 56 - r else 120 - r)" using assms pad_120 [of r] by simp
  consider "r = 63" | "r < 56" | "56 < r" "r < 63" using assms by linarith
  then show ?thesis using k by cases (simp_all add: pad_119 pad_120)
qed

text \<open>The padding loop feeds zeros until 56 bytes are buffered.\<close>

lemma sha_pad_loop_absorbs:
  "sha_absorbed ctx m \<Longrightarrow>
   \<exists>ctx'. sha256_pad_loop ctx = Some ctx' \<and>
     sha_absorbed ctx' (m @ replicate ((120 - length m mod 64) mod 64) 0)"
proof (induction "(120 - length m mod 64) mod 64" arbitrary: ctx m)
  case 0
  have l: "length m mod 64 = 56"
    using "0.hyps" pad_120 [of "length m mod 64"] by (simp split: if_splits)
  then have "ctx_buf_len ctx = 56" using "0.prems" by (simp add: sha_absorbed_def word_unat_eq_iff)
  then show ?case using "0.prems" by (simp add: sha256_pad_loop.simps l)
next
  case (Suc k)
  then have ne: "length m mod 64 \<noteq> 56" by auto
  then have bl: "ctx_buf_len ctx \<noteq> 56" using Suc.prems by (auto simp: sha_absorbed_def)
  obtain ctx1 where c1: "sha256_update ctx [0] = Some ctx1" "sha_absorbed ctx1 (m @ [0])"
    using sha_update_absorbs [OF Suc.prems, of "[0]"] by metis
  have k: "(120 - length m mod 64) mod 64 = Suc k" using Suc.hyps(2) by simp
  have e: "length (m @ [0]) mod 64 = (if Suc (length m mod 64) = 64 then 0 else Suc (length m mod 64))"
    by (simp add: mod_Suc)
  have k1: "k = (120 - length (m @ [0]) mod 64) mod 64"
    unfolding e by (rule pad_step [OF _ ne k]) simp
  obtain ctx' where c': "sha256_pad_loop ctx1 = Some ctx'" "sha_absorbed ctx' ((m @ [0]) @ replicate k 0)"
    using Suc.hyps(1) [OF k1 c1(2)] unfolding k1 [symmetric] by blast
  have "sha256_pad_loop ctx = Some ctx'"
    using bl c1(1) c'(1) by (subst sha256_pad_loop.simps) (simp only: if_False Option.bind.bind_lunit)
  then show ?case using c'(2) by (simp add: k)
qed

lemma length_put_be64 [simp]: "length (put_be64 v) = 8"
  by (simp add: put_be64_def)

lemma pad_zeros: "(120 - (length m + 1) mod 64) mod 64 = (119 - length m mod 64) mod (64 :: nat)"
  by (simp add: pad_120 pad_119 mod_Suc)

lemma sha_pad_multiple: "length (sha_pad m) mod 64 = 0"
proof -
  obtain q r where m: "length m = 64 * q + r" "r < 64"
    by (metis mod_less_divisor mult_div_mod_eq zero_less_numeral)
  then have "length m mod 64 = r" by simp
  with m have "length (sha_pad m) = 64 * (if r \<le> 55 then q + 1 else q + 2)"
    by (simp add: sha_pad_def pad_119)
  then show ?thesis by simp
qed

lemma sha_final_digest:
  assumes "sha_absorbed ctx m" "ctx_total_len ctx = of_nat (length m)"
  obtains ctx' where "sha256_final ctx = Some (sha256 m, ctx')" "length (ctx_buf ctx') = 64"
proof -
  obtain ctx1 where c1: "sha256_update ctx [0x80] = Some ctx1" "sha_absorbed ctx1 (m @ [0x80])"
    using sha_update_absorbs [OF assms(1), of "[0x80]"] by metis
  obtain ctx2 where c2: "sha256_pad_loop ctx1 = Some ctx2"
    "sha_absorbed ctx2 ((m @ [0x80]) @ replicate ((119 - length m mod 64) mod 64) 0)"
    using sha_pad_loop_absorbs [OF c1(2)] pad_zeros [of m] by auto
  obtain ctx3 where c3: "sha256_update ctx2 (put_be64 (of_nat (length m) * 8)) = Some ctx3"
    "sha_absorbed ctx3 (sha_pad m)"
    using sha_update_absorbs [OF c2(2), of "put_be64 (of_nat (length m) * 8)"]
    unfolding sha_pad_def by (metis append.assoc)
  have "sha256_final ctx = Some (sha256 m, ctx3)"
    using c3(2) by (simp add: sha256_final_def assms(2) c1(1) c2(1) c3(1) sha256_def sha_absorbed_def)
  moreover have "length (ctx_buf ctx3) = 64" using c3(2) by (simp add: sha_absorbed_def)
  ultimately show thesis by (rule that)
qed

lemma sha_init_total [simp]: "ctx_total_len (sha256_init ctx) = 0"
  by (simp add: sha256_init_def)

lemma sha_feed:
  assumes "length (ctx_buf ctx) = 64"
  obtains ctx' where "sha256_update (sha256_init ctx) m = Some ctx'" "sha_absorbed ctx' m"
    "ctx_total_len ctx' = of_nat (length m)"
  using sha_update_absorbs [OF sha_absorbed_init [OF assms], of m] by auto

section \<open>The implementation computes the standard's functions\<close>

text \<open>
  C13: for every message and whatever the context's memory held before, \<open>sha256\<close> returns, and
  returns the SHA-256 digest of the standard: its chunked copying, the padding loop and the
  length trailer amount to padding the whole message and compressing its 64 byte blocks.
\<close>

theorem sha256_run_eq:
  assumes "length (ctx_buf ctx) = 64"
  shows "sha256_run ctx m = Some (sha256 m)"
proof -
  obtain ctx1 where 1: "sha256_update (sha256_init ctx) m = Some ctx1" "sha_absorbed ctx1 m"
    "ctx_total_len ctx1 = of_nat (length m)"
    using sha_feed [OF assms] .
  obtain ctx2 where "sha256_final ctx1 = Some (sha256 m, ctx2)"
    using sha_final_digest [OF 1(2,3)] by metis
  with 1 show ?thesis by (simp add: sha256_run_def)
qed

definition blank_ctx :: sha256_ctx_t where
  "blank_ctx = \<lparr>ctx_state = [], ctx_buf = replicate 64 0xA5, ctx_total_len = 77, ctx_buf_len = 13\<rparr>"

lemma length_blank_ctx [simp]: "length (ctx_buf blank_ctx) = 64"
  by (simp add: blank_ctx_def)

theorem sha256_run_eq_witness: "sha256_run blank_ctx [0x61, 0x62, 0x63] = Some (sha256 [0x61, 0x62, 0x63])"
  by (rule sha256_run_eq) simp

text \<open>Feeding a message in two pieces is feeding it whole.\<close>

lemma sha_feed2:
  assumes "length (ctx_buf ctx) = 64"
  obtains c1 c2 where "sha256_update (sha256_init ctx) xs = Some c1" "sha256_update c1 ys = Some c2"
    "sha_absorbed c2 (xs @ ys)" "ctx_total_len c2 = of_nat (length (xs @ ys))"
proof -
  obtain c1 where 1: "sha256_update (sha256_init ctx) xs = Some c1" "sha_absorbed c1 xs"
    "ctx_total_len c1 = of_nat (length xs)"
    using sha_feed [OF assms] .
  obtain c2 where "sha256_update c1 ys = Some c2" "sha_absorbed c2 (xs @ ys)"
    "ctx_total_len c2 = ctx_total_len c1 + of_nat (length ys)"
    using sha_update_absorbs [OF 1(2)] by metis
  with 1 show thesis by (intro that) simp_all
qed

text \<open>
  C14: for every key and message \<open>hmac_sha256\<close> returns, and returns HMAC-SHA256 of RFC 2104:
  a key of more than 64 bytes is hashed first, then the inner and the outer digest are taken.
\<close>

theorem hmac_sha256_run_eq:
  assumes "length (ctx_buf ctx) = 64"
  shows "hmac_sha256_run ctx key m = Some (hmac_sha256 key m)"
proof -
  let ?k = "if 64 < length key then sha256 key else key"
  obtain c1 c2 where 1: "sha256_update (sha256_init ctx) (xor_pad 0x36 ?k) = Some c1"
    "sha256_update c1 m = Some c2" "sha_absorbed c2 (xor_pad 0x36 ?k @ m)"
    "ctx_total_len c2 = of_nat (length (xor_pad 0x36 ?k @ m))"
    using sha_feed2 [OF assms] .
  obtain c3 where 3: "sha256_final c2 = Some (sha256 (xor_pad 0x36 ?k @ m), c3)" "length (ctx_buf c3) = 64"
    using sha_final_digest [OF 1(3,4)] .
  obtain c4 c5 where 4: "sha256_update (sha256_init c3) (xor_pad 0x5C ?k) = Some c4"
    "sha256_update c4 (sha256 (xor_pad 0x36 ?k @ m)) = Some c5"
    "sha_absorbed c5 (xor_pad 0x5C ?k @ sha256 (xor_pad 0x36 ?k @ m))"
    "ctx_total_len c5 = of_nat (length (xor_pad 0x5C ?k @ sha256 (xor_pad 0x36 ?k @ m)))"
    using sha_feed2 [OF 3(2)] .
  obtain c6 where 6: "sha256_final c5 = Some (sha256 (xor_pad 0x5C ?k @ sha256 (xor_pad 0x36 ?k @ m)), c6)"
    using sha_final_digest [OF 4(3,4)] by metis
  have k: "(if 64 < length key then sha256_run ctx key else Some key) = Some ?k"
    using assms by (simp add: sha256_run_eq)
  show ?thesis
    by (simp only: hmac_sha256_run_def k Option.bind.bind_lunit 1 3(1) 4(1,2) 6 prod.case
        option.map fst_conv) (simp add: hmac_sha256_def Let_def)
qed

theorem hmac_sha256_run_eq_witness:
  "hmac_sha256_run blank_ctx (replicate 65 0x0B) [0x48, 0x69] = Some (hmac_sha256 (replicate 65 0x0B) [0x48, 0x69])"
  by (rule hmac_sha256_run_eq) simp

section \<open>Lengths\<close>

lemma length_sha_round [simp]: "length (sha_round k w vs) = length vs"
  by (induction k w vs rule: sha_round.induct) (simp_all add: Let_def)

lemma length_sha_rounds: "length (fold (\<lambda>i. sha_round (f i) (g i)) is vs) = length vs"
  by (induction "is" arbitrary: vs) simp_all

lemma length_sha_compress [simp]: "length (sha_compress st b) = length st"
  by (simp add: sha_compress_def Let_def length_sha_rounds)

lemma length_sha_blocks [simp]: "length (sha_blocks st m) = length st"
  by (induction st m rule: sha_blocks.induct) (subst sha_blocks.simps, simp)

lemma length_concat_put_be32: "length (concat (map put_be32 ws)) = 4 * length ws"
  by (induction ws) simp_all

lemma length_sha256 [simp]: "length (sha256 m) = 32"
  by (simp add: sha256_def length_concat_put_be32 SHA_H0_def)

lemma length_hmac_sha256 [simp]: "length (hmac_sha256 key m) = 32"
  by (simp add: hmac_sha256_def Let_def)

end
