(* ===== verification/Secoc.thy ===== *)
theory Secoc
  imports E2E Sha256
begin

text \<open>
  SecOC of \<open>secoc.c\<close>: the freshness value and the truncated HMAC that \<open>secoc_encode\<close> appends
  to an E2E message and \<open>secoc_decode_ex\<close> verifies. The HMAC is the function \<open>hmac_sha256\<close> of
  \<open>Sha256\<close>, which the code's context-passing routine is proved to compute.

  \<^item> \<open>secoc_frame\<close> is the wire format; \<open>secoc\<close> interprets \<open>strict_codec\<close> on it for every key.
  \<^item> \<open>wire\<close> stacks E2E inside SecOC.
  \<^item> What the freshness check measures, and that the returned flag does not depend on it.
\<close>

section \<open>Model\<close>

abbreviation (input) SECOC_OVERHEAD :: nat where "SECOC_OVERHEAD \<equiv> 24"
abbreviation (input) SECOC_REPLAY_WINDOW_MS :: int where "SECOC_REPLAY_WINDOW_MS \<equiv> 5000"

definition SECOC_TEST_KEY :: bytes where
  "SECOC_TEST_KEY = map of_nat [0..<32]"

record secoc_freshness_t =
  counter :: u16

record secoc_decode_result_t =
  mac_valid :: bool
  freshness_valid :: bool
  freshness_ts :: u64
  freshness_counter :: u16

definition put_be48 :: "u64 \<Rightarrow> bytes" where
  "put_be48 v = [ucast (drop_bit 40 v), ucast (drop_bit 32 v), ucast (drop_bit 24 v),
                 ucast (drop_bit 16 v), ucast (drop_bit 8 v), ucast v]"

text \<open>The tick count is a 32 bit millisecond counter.\<close>

definition get_tick_ms :: "u32 \<Rightarrow> u64" where
  "get_tick_ms tick = ucast tick"

text \<open>
  \<open>secoc_encode\<close> returns the number of bytes written, the freshness state and the output
  buffer. When the HMAC input would not fit its 600 byte buffer, the message and the freshness
  value have been copied and the counter has advanced.
\<close>

definition secoc_encode ::
  "bytes \<Rightarrow> bytes \<Rightarrow> secoc_freshness_t \<Rightarrow> u32 \<Rightarrow> bytes \<Rightarrow> nat \<times> secoc_freshness_t \<times> bytes" where
  "secoc_encode msg key freshness tick out_buf =
     (let total = length msg + SECOC_OVERHEAD in
      if length out_buf < total then (0, freshness, out_buf)
      else
        let buf1 = memcpy_at out_buf 0 msg;
            ts = get_tick_ms tick;
            fv = put_be48 ts @ put_be16 (counter freshness);
            freshness' = freshness\<lparr>counter := counter freshness + 1\<rparr>;
            buf2 = memcpy_at buf1 (length msg) fv;
            hmac_input_len = length msg + 8
        in if 600 < hmac_input_len then (0, freshness', buf2)
           else
             let full_mac = hmac_sha256 key (msg @ fv);
                 buf3 = memcpy_at buf2 (length msg + 8) (take 16 full_mac)
             in (total, freshness', buf3))"

definition get_freshness_ts :: "bytes \<Rightarrow> u64" where
  "get_freshness_ts fv = fold (\<lambda>i ts. push_bit 8 ts OR ucast (fv ! i)) [0..<6] 0"

definition get_freshness_counter :: "bytes \<Rightarrow> u16" where
  "get_freshness_counter fv = push_bit 8 (ucast (fv ! 6)) OR ucast (fv ! 7)"

text \<open>The comparison that ors together the differences of all sixteen bytes.\<close>

definition secoc_mac_diff :: "bytes \<Rightarrow> bytes \<Rightarrow> u8" where
  "secoc_mac_diff computed_mac mac =
     fold (\<lambda>i diff. diff OR (computed_mac ! i XOR mac ! i)) [0..<16] 0"

definition secoc_fresh :: "u64 \<Rightarrow> u32 \<Rightarrow> bool" where
  "secoc_fresh ts tick =
     (let local_tick = get_tick_ms tick;
          delta = ts - local_tick;
          delta' = (if sint delta < 0 then - delta else delta)
      in sint delta' \<le> SECOC_REPLAY_WINDOW_MS)"

text \<open>
  \<open>secoc_decode_ex\<close> returns its verdict, what it stored through \<open>e2e_len_out\<close> (\<open>None\<close> where it
  stores nothing) and the result record.
\<close>

definition secoc_decode_ex ::
  "bytes \<Rightarrow> bytes \<Rightarrow> u32 \<Rightarrow> bool \<times> nat option \<times> secoc_decode_result_t" where
  "secoc_decode_ex buf key tick =
     (let r0 = \<lparr>mac_valid = False, freshness_valid = False, freshness_ts = 0, freshness_counter = 0\<rparr> in
      if length buf < SECOC_OVERHEAD then (False, None, r0)
      else
        let e2e_len = length buf - SECOC_OVERHEAD;
            freshness = slice buf e2e_len 8;
            mac = slice buf (e2e_len + 8) 16;
            r1 = r0\<lparr>freshness_ts := get_freshness_ts freshness,
                    freshness_counter := get_freshness_counter freshness\<rparr>;
            hmac_input_len = e2e_len + 8
        in if 600 < hmac_input_len then (False, None, r1)
           else
             let computed_mac = hmac_sha256 key (slice buf 0 e2e_len @ freshness);
                 r2 = r1\<lparr>mac_valid := (secoc_mac_diff computed_mac mac = 0)\<rparr>
             in if \<not> mac_valid r2 then (False, None, r2)
                else
                  let r3 = r2\<lparr>freshness_valid := secoc_fresh (freshness_ts r2) tick\<rparr>
                  in (mac_valid r3, Some e2e_len, r3))"

definition secoc_decode :: "bytes \<Rightarrow> bytes \<Rightarrow> u32 \<Rightarrow> bool \<times> nat option" where
  "secoc_decode buf key tick =
     (case secoc_decode_ex buf key tick of (ok, e2e_len_out, result) \<Rightarrow> (ok, e2e_len_out))"

section \<open>Freshness values\<close>

definition freshness_value :: "u64 \<Rightarrow> u16 \<Rightarrow> bytes" where
  "freshness_value ts c = put_be48 ts @ put_be16 c"

lemma length_put_be48 [simp]: "length (put_be48 v) = 6"
  by (simp add: put_be48_def)

lemma length_freshness_value [simp]: "length (freshness_value ts c) = 8"
  by (simp add: freshness_value_def)

lemma list_take_6: "6 \<le> length xs \<Longrightarrow> take 6 xs = [xs!0, xs!1, xs!2, xs!3, xs!4, xs!5]"
  by (auto intro!: nth_equalityI simp: less_Suc_eq numeral_eq_Suc)

text \<open>Bits of a number assembled byte by byte, most significant byte first.\<close>

lemma bit_horner:
  "bit (fold (\<lambda>b ts. push_bit 8 ts OR ucast b) bs (0 :: u64)) n \<longleftrightarrow>
     n < 64 \<and> n div 8 < length bs \<and> bit (rev (bs :: bytes) ! (n div 8)) (n mod 8)"
proof (induction bs arbitrary: n rule: rev_induct)
  case (snoc b bs)
  show ?case
  proof (cases "n < 8")
    case True
    then show ?thesis by (simp add: bit_simps)
  next
    case False
    then obtain m where m: "n = m + 8" by (metis add.commute le_Suc_ex not_less)
    show ?thesis
      by (auto simp: m bit_simps snoc.IH div_add_self2)
  qed
qed simp

lemmas nth_simps = numeral_2_eq_2 [symmetric] numeral_3_eq_3 [symmetric]

lemma get_freshness_ts_horner:
  "8 \<le> length fv \<Longrightarrow>
   get_freshness_ts fv = fold (\<lambda>b ts. push_bit 8 ts OR ucast b) (take 6 fv) (0 :: u64)"
  by (simp add: get_freshness_ts_def list_take_6 upt_rec nth_simps)

lemma bit_freshness_ts:
  assumes "8 \<le> length fv"
  shows "bit (get_freshness_ts fv) n \<longleftrightarrow> n < 48 \<and> bit (fv ! (5 - n div 8)) (n mod 8)"
  using assms by (auto simp: get_freshness_ts_horner bit_horner rev_nth)

lemma put_be48_nth:
  assumes "i < 6"
  shows "put_be48 v ! i = ucast (drop_bit (8 * (5 - i)) v)"
proof -
  from assms consider "i = 0" | "i = 1" | "i = 2" | "i = 3" | "i = 4" | "i = 5" by linarith
  then show ?thesis by cases (simp_all add: put_be48_def)
qed

lemma get_freshness_ts_value [simp]: "get_freshness_ts (freshness_value ts c) = take_bit 48 ts"
proof (rule bit_word_eqI)
  fix n assume "n < LENGTH(64)"
  have "put_be48 ts ! (5 - n div 8) = ucast (drop_bit (8 * (n div 8)) ts)" if "n < 48"
    using that put_be48_nth [of "5 - n div 8" ts] by simp
  then show "bit (get_freshness_ts (freshness_value ts c)) n = bit (take_bit 48 ts) n"
    by (auto simp: bit_freshness_ts bit_simps freshness_value_def nth_append)
qed

lemma get_freshness_counter_value [simp]: "get_freshness_counter (freshness_value ts c) = c"
  using get_be16_prefix [of c "[]"]
  by (simp add: get_freshness_counter_def freshness_value_def get_be16_def nth_append)

lemma freshness_ts_bound:
  assumes "8 \<le> length fv"
  shows "uint (get_freshness_ts fv) < 2 ^ 48"
proof -
  have "take_bit 48 (get_freshness_ts fv) = get_freshness_ts fv"
    by (rule bit_word_eqI) (auto simp: bit_freshness_ts [OF assms] bit_take_bit_iff)
  then have "uint (get_freshness_ts fv) = take_bit 48 (uint (get_freshness_ts fv))"
    by (metis unsigned_take_bit_eq)
  then show ?thesis by (metis take_bit_int_less_exp)
qed

lemma freshness_value_parse:
  assumes "length fv = 8"
  shows "freshness_value (get_freshness_ts fv) (get_freshness_counter fv) = fv"
proof (rule nth_equalityI)
  fix i assume "i < length (freshness_value (get_freshness_ts fv) (get_freshness_counter fv))"
  then consider "i < 6" | "i = 6" | "i = 7" by (auto simp: less_Suc_eq numeral_eq_Suc)
  then show "freshness_value (get_freshness_ts fv) (get_freshness_counter fv) ! i = fv ! i"
  proof cases
    case 1
    have "ucast (drop_bit (8 * (5 - i)) (get_freshness_ts fv)) = fv ! i"
    proof (rule bit_word_eqI)
      fix k assume "k < LENGTH(8)"
      moreover from this have "(8 * (5 - i) + k) div 8 = 5 - i" "(8 * (5 - i) + k) mod 8 = k"
        by simp_all
      ultimately show "bit (ucast (drop_bit (8 * (5 - i)) (get_freshness_ts fv)) :: u8) k = bit (fv ! i) k"
        using 1 assms \<open>k < LENGTH(8)\<close> by (auto simp: bit_simps bit_freshness_ts)
    qed
    with 1 show ?thesis by (simp add: freshness_value_def nth_append put_be48_nth)
  next
    case 2
    then show ?thesis
      by (auto intro!: bit_word_eqI simp: freshness_value_def nth_append put_be16_def
          get_freshness_counter_def bit_simps)
  next
    case 3
    then show ?thesis
      by (auto intro!: bit_word_eqI simp: freshness_value_def nth_append put_be16_def
          get_freshness_counter_def bit_simps)
  qed
qed (simp add: assms)

section \<open>The MAC comparison\<close>

lemma or_eq_0_word: "(a :: 'a::len word) OR b = 0 \<longleftrightarrow> a = 0 \<and> b = 0"
  by (auto simp: bit_eq_iff bit_or_iff)

lemma xor_eq_0_word: "(a :: 'a::len word) XOR b = 0 \<longleftrightarrow> a = b"
  by (metis xor_cancel_right xor_self_eq)

lemma fold_or_zero:
  "fold (\<lambda>i d. d OR f i) is d0 = (0 :: 'a::len word) \<longleftrightarrow> d0 = 0 \<and> (\<forall>i\<in>set is. f i = 0)"
  by (induction "is" arbitrary: d0) (auto simp: or_eq_0_word)

lemma secoc_mac_diff_zero:
  assumes "16 \<le> length a" "length b = 16"
  shows "secoc_mac_diff a b = 0 \<longleftrightarrow> take 16 a = b"
proof -
  have "secoc_mac_diff a b = 0 \<longleftrightarrow> (\<forall>i\<in>{0..<16}. a ! i = b ! i)"
    by (simp add: secoc_mac_diff_def fold_or_zero xor_eq_0_word)
  then show ?thesis
    using assms by (auto simp: list_eq_iff_nth_eq)
qed

section \<open>Frames\<close>

text \<open>An authenticated message: the E2E message, the time stamp and the counter.\<close>

type_synonym secoc_msg = "bytes \<times> u64 \<times> u16"

definition secoc_msg_ok :: "secoc_msg \<Rightarrow> bool" where
  "secoc_msg_ok = (\<lambda>(msg, ts, c). length msg \<le> 592 \<and> take_bit 48 ts = ts)"

definition secoc_signed :: "secoc_msg \<Rightarrow> bytes" where
  "secoc_signed = (\<lambda>(msg, ts, c). msg @ freshness_value ts c)"

definition secoc_frame :: "bytes \<Rightarrow> secoc_msg \<Rightarrow> bytes" where
  "secoc_frame key m = secoc_signed m @ take 16 (hmac_sha256 key (secoc_signed m))"

text \<open>The decoder as a partial function: what it verified, whatever the time is.\<close>

definition secoc_accept :: "bytes \<Rightarrow> bytes \<Rightarrow> secoc_msg option" where
  "secoc_accept key buf =
     (case secoc_decode_ex buf key 0 of
        (True, Some n, r) \<Rightarrow> Some (take n buf, freshness_ts r, freshness_counter r)
      | _ \<Rightarrow> None)"

lemma length_secoc_signed [simp]: "length (secoc_signed m) = length (fst m) + 8"
  by (simp add: secoc_signed_def split: prod.splits)

lemma length_secoc_frame [simp]: "length (secoc_frame key m) = length (fst m) + SECOC_OVERHEAD"
  by (simp add: secoc_frame_def)

text \<open>The verdict of the decoder in terms of the buffer alone.\<close>

lemma slice_tail: "length xs = off + n \<Longrightarrow> slice xs off n = drop off xs"
  by (simp add: slice_def)

lemma signed_part: "k + 24 = length buf \<Longrightarrow> slice buf 0 k @ slice buf k 8 = take (k + 8) buf"
  by (simp add: slice_def take_add)

lemma secoc_decode_ex_eq:
  "secoc_decode_ex buf key tick =
     (let k = length buf - 24; fv = slice buf k 8;
          r = \<lparr>mac_valid = False, freshness_valid = False, freshness_ts = get_freshness_ts fv,
               freshness_counter = get_freshness_counter fv\<rparr>
      in if length buf < 24
         then (False, None, r\<lparr>freshness_ts := 0, freshness_counter := 0\<rparr>)
         else if 592 < k then (False, None, r)
         else if take 16 (hmac_sha256 key (take (k + 8) buf)) \<noteq> drop (k + 8) buf then (False, None, r)
         else (True, Some k, r\<lparr>mac_valid := True, freshness_valid := secoc_fresh (get_freshness_ts fv) tick\<rparr>))"
proof (cases "length buf < 24")
  case False
  then obtain k where k: "length buf = k + 24" by (metis add.commute le_Suc_ex not_less)
  have "secoc_mac_diff (hmac_sha256 key (take (k + 8) buf)) (slice buf (k + 8) 16) = 0 \<longleftrightarrow>
      take 16 (hmac_sha256 key (take (k + 8) buf)) = drop (k + 8) buf"
    using k by (subst secoc_mac_diff_zero) (simp_all add: slice_tail)
  moreover have "slice buf 0 k @ slice buf k 8 = take (k + 8) buf"
    using k by (intro signed_part) simp
  ultimately show ?thesis
    using k by (simp add: secoc_decode_ex_def Let_def)
qed (simp add: secoc_decode_ex_def)

lemma secoc_frame_split:
  assumes "secoc_msg_ok (msg, ts, c)"
  shows "take (length msg + 8) (secoc_frame key (msg, ts, c)) = secoc_signed (msg, ts, c)"
    and "drop (length msg + 8) (secoc_frame key (msg, ts, c)) =
      take 16 (hmac_sha256 key (secoc_signed (msg, ts, c)))"
    and "slice (secoc_frame key (msg, ts, c)) (length msg) 8 = freshness_value ts c"
  by (simp_all add: secoc_frame_def secoc_signed_def slice_def)

lemma secoc_decode_frame:
  assumes "secoc_msg_ok (msg, ts, c)"
  shows "secoc_decode_ex (secoc_frame key (msg, ts, c)) key tick =
    (True, Some (length msg),
     \<lparr>mac_valid = True, freshness_valid = secoc_fresh ts tick, freshness_ts = ts,
      freshness_counter = c\<rparr>)"
  using assms by (simp add: secoc_decode_ex_eq secoc_frame_split Let_def secoc_msg_ok_def)

lemma secoc_decode_true:
  assumes "secoc_decode_ex buf key tick = (True, n, r)"
  obtains k where "n = Some k" "mac_valid r" "freshness_valid r = secoc_fresh (freshness_ts r) tick"
    "secoc_msg_ok (take k buf, freshness_ts r, freshness_counter r)"
    "buf = secoc_frame key (take k buf, freshness_ts r, freshness_counter r)"
    "length buf = k + 24"
proof -
  let ?k = "length buf - 24" and ?fv = "slice buf (length buf - 24) 8"
  from assms have l: "24 \<le> length buf" "?k \<le> 592"
    and mac: "take 16 (hmac_sha256 key (take (?k + 8) buf)) = drop (?k + 8) buf"
    and r: "n = Some ?k" "mac_valid r" "freshness_valid r = secoc_fresh (freshness_ts r) tick"
      "freshness_ts r = get_freshness_ts ?fv" "freshness_counter r = get_freshness_counter ?fv"
    by (auto simp: secoc_decode_ex_eq Let_def split: if_splits)
  have fv: "length ?fv = 8" using l by simp
  then have fb: "freshness_value (freshness_ts r) (freshness_counter r) = ?fv"
    using r by (simp add: freshness_value_parse)
  then have tb: "take_bit 48 (freshness_ts r) = freshness_ts r"
    by (metis get_freshness_ts_value r(4))
  have sg: "secoc_signed (take ?k buf, freshness_ts r, freshness_counter r) = take (?k + 8) buf"
    using l fb by (simp add: secoc_signed_def slice_def flip: take_add)
  show thesis
  proof (rule that [OF r(1,2,3)])
    show "secoc_msg_ok (take ?k buf, freshness_ts r, freshness_counter r)"
      using l tb by (simp add: secoc_msg_ok_def)
    show "buf = secoc_frame key (take ?k buf, freshness_ts r, freshness_counter r)"
      unfolding secoc_frame_def sg mac by simp
    show "length buf = ?k + 24" using l by simp
  qed
qed

lemma take_secoc_frame: "take (length msg) (secoc_frame key (msg, ts, c)) = msg"
  by (simp add: secoc_frame_def secoc_signed_def)

interpretation secoc: strict_codec "secoc_frame key" "secoc_accept key" secoc_msg_ok for key
proof unfold_locales
  fix m assume "secoc_msg_ok m"
  then show "secoc_accept key (secoc_frame key m) = Some m"
    by (cases m) (simp add: secoc_accept_def secoc_decode_frame take_secoc_frame)
next
  fix buf m assume "secoc_accept key buf = Some m"
  then obtain n r where d: "secoc_decode_ex buf key 0 = (True, Some n, r)"
    and m: "m = (take n buf, freshness_ts r, freshness_counter r)"
    by (auto simp: secoc_accept_def split: prod.splits bool.splits option.splits)
  show "secoc_msg_ok m \<and> secoc_frame key m = buf"
    by (rule secoc_decode_true [OF d]) (use m in auto)
qed

text \<open>E2E inside SecOC, at one time stamp and counter: the wire format of the vehicle.\<close>

interpretation wire:
  codec_stack e2e_frame e2e_accept e2e_msg_ok
    "\<lambda>msg. secoc_frame key (msg, take_bit 48 ts, c)" "\<lambda>buf. map_option fst (secoc_accept key buf)"
    "\<lambda>msg. length msg \<le> 592"
  for key ts c
  by unfold_locales (auto simp: secoc.dec_enc secoc_msg_ok_def e2e_msg_ok_def)

section \<open>Encoding\<close>

lemma take_bit_ucast_tick [simp]: "take_bit 48 (get_tick_ms tick) = get_tick_ms tick"
  by (rule bit_word_eqI) (auto simp: get_tick_ms_def bit_simps dest: bit_imp_le_length)

lemma secoc_encode_frame:
  assumes "length msg \<le> 592" "length msg + 24 \<le> length out_buf"
  shows "secoc_encode msg key f tick out_buf =
    (length msg + 24, f\<lparr>counter := counter f + 1\<rparr>,
     secoc_frame key (msg, get_tick_ms tick, counter f) @ drop (length msg + 24) out_buf)"
  using assms
  by (simp add: secoc_encode_def secoc_frame_def secoc_signed_def freshness_value_def memcpy_at_def Let_def
      add.commute [of 24])

lemma uint_get_tick_ms [simp]: "uint (get_tick_ms tick) = uint tick"
proof -
  have "uint tick < 2 ^ 64" using uint_lt2p [of tick] by simp
  then show ?thesis by (simp add: get_tick_ms_def unsigned_ucast_eq take_bit_int_eq_self)
qed

lemma sint_diff_small:
  assumes "\<bar>uint (a :: u64) - uint b\<bar> < 2 ^ 63"
  shows "sint (a - b) = uint a - uint b"
proof -
  have "uint (a - b) = take_bit 64 (uint a - uint b)"
    by (simp add: uint_word_ariths take_bit_eq_mod)
  then have "sint (a - b) = signed_take_bit 63 (uint a - uint b)"
    by (simp add: sint_uint signed_take_bit_take_bit)
  then show ?thesis using assms by (simp add: signed_take_bit_int_eq_self)
qed

lemma abs_diff_bound: "0 \<le> a \<Longrightarrow> a < 2 ^ 48 \<Longrightarrow> 0 \<le> b \<Longrightarrow> b < 2 ^ 48 \<Longrightarrow> \<bar>a - b\<bar> < (2 :: int) ^ 63"
  by simp

lemma secoc_fresh_iff:
  assumes "uint ts < 2 ^ 48"
  shows "secoc_fresh ts tick \<longleftrightarrow> \<bar>uint ts - uint tick\<bar> \<le> 5000"
proof -
  have b: "\<bar>uint ts - uint tick\<bar> < 2 ^ 63"
    using uint_lt2p [of tick] by (intro abs_diff_bound assms) simp_all
  then have d: "sint (ts - get_tick_ms tick) = uint ts - uint tick"
    "sint (get_tick_ms tick - ts) = uint tick - uint ts"
    using sint_diff_small [of ts "get_tick_ms tick"] sint_diff_small [of "get_tick_ms tick" ts]
    by (simp_all add: abs_minus_commute)
  then show ?thesis by (auto simp: secoc_fresh_def Let_def)
qed

section \<open>Properties\<close>

text \<open>
  C11: what \<open>secoc_encode\<close> writes at tick \<open>t\<close>, \<open>secoc_decode_ex\<close> verifies under the same key at
  any tick \<open>t'\<close>: it hands back the length of the E2E message, the tick and the counter of before
  the call, and calls them fresh exactly when the two ticks are at most 5000 ms apart.
\<close>

theorem secoc_encode_decode:
  assumes "length msg \<le> 592" "length msg + 24 \<le> length out_buf"
    and "secoc_encode msg key f t out_buf = (n, f', out_buf')"
  shows "n = length msg + 24 \<and> counter f' = counter f + 1 \<and> length out_buf' = length out_buf \<and>
    take (length msg) out_buf' = msg \<and>
    secoc_decode_ex (take n out_buf') key t' =
      (True, Some (length msg),
       \<lparr>mac_valid = True, freshness_valid = (\<bar>uint t - uint t'\<bar> \<le> 5000),
        freshness_ts = ucast t, freshness_counter = counter f\<rparr>)"
proof -
  let ?m = "(msg, get_tick_ms t, counter f)"
  have ok: "secoc_msg_ok ?m" using assms(1) by (simp add: secoc_msg_ok_def)
  have n: "n = length msg + 24" and f': "f' = f\<lparr>counter := counter f + 1\<rparr>"
    and o: "out_buf' = secoc_frame key ?m @ drop n out_buf"
    using assms by (auto simp: secoc_encode_frame)
  have "uint (get_tick_ms t) < 2 ^ 48" using uint_lt2p [of t] by simp
  then have "secoc_fresh (get_tick_ms t) t' \<longleftrightarrow> \<bar>uint t - uint t'\<bar> \<le> 5000"
    by (simp add: secoc_fresh_iff)
  moreover have "take n out_buf' = secoc_frame key ?m" "take (length msg) out_buf' = msg"
    using n o by (simp_all add: take_secoc_frame)
  moreover have "length out_buf' = length out_buf" using o n assms(2) by simp
  ultimately show ?thesis
    using n f' by (simp add: secoc_decode_frame [OF ok, unfolded get_tick_ms_def] get_tick_ms_def)
qed

theorem secoc_encode_decode_witness:
  "\<exists>n f' out'. secoc_encode [0x7B, 0x7D] SECOC_TEST_KEY \<lparr>counter = 65535\<rparr> 1000 (replicate 400 0) = (n, f', out')
     \<and> n = 26 \<and> counter f' = 0
     \<and> freshness_valid (snd (snd (secoc_decode_ex (take n out') SECOC_TEST_KEY 6000)))
     \<and> \<not> freshness_valid (snd (snd (secoc_decode_ex (take n out') SECOC_TEST_KEY 6001)))"
proof -
  obtain n f' out' where
    e: "secoc_encode [0x7B, 0x7D] SECOC_TEST_KEY \<lparr>counter = 65535\<rparr> 1000 (replicate 400 0) = (n, f', out')"
    by (metis prod_cases3)
  show ?thesis
    using secoc_encode_decode [OF _ _ e, of 6000] secoc_encode_decode [OF _ _ e, of 6001] e by auto
qed

text \<open>
  The failing outcomes of \<open>secoc_encode\<close>. A buffer that is too small is left alone. A message
  of more than 592 bytes is refused after its bytes and the freshness value were written and the
  counter advanced; no MAC is written.
\<close>

theorem secoc_encode_errors:
  "(fst (secoc_encode msg key f t out_buf) = 0 \<longleftrightarrow>
      length out_buf < length msg + 24 \<or> 592 < length msg) \<and>
   snd (secoc_encode msg key f t out_buf) =
     (if length out_buf < length msg + 24 then (f, out_buf)
      else if 592 < length msg
      then (f\<lparr>counter := counter f + 1\<rparr>,
            msg @ freshness_value (ucast t) (counter f) @ drop (length msg + 8) out_buf)
      else (f\<lparr>counter := counter f + 1\<rparr>,
            secoc_frame key (msg, ucast t, counter f) @ drop (length msg + 24) out_buf))"
proof (cases "length msg \<le> 592 \<and> length msg + 24 \<le> length out_buf")
  case True
  then show ?thesis by (simp add: secoc_encode_frame get_tick_ms_def)
next
  case False
  then show ?thesis
    by (auto simp: secoc_encode_def Let_def memcpy_at_def freshness_value_def get_tick_ms_def
        add.commute [of 8])
qed

text \<open>
  \<open>secoc_decode_ex\<close> says true exactly for the buffers that carry an authentic frame of their
  own E2E part: 24 to 616 bytes whose last 16 are the truncated HMAC of all the others. Nothing
  else of the buffer, and no clock value, plays a part.
\<close>

theorem secoc_decode_ex_iff:
  "fst (secoc_decode_ex buf key t) \<longleftrightarrow>
     24 \<le> length buf \<and> length buf \<le> 616 \<and>
     drop (length buf - 16) buf = take 16 (hmac_sha256 key (take (length buf - 16) buf))"
proof (cases "length buf < 24")
  case False
  then obtain k where "length buf = k + 24" by (metis add.commute le_Suc_ex not_less)
  then show ?thesis by (auto simp: secoc_decode_ex_eq Let_def add.commute [of 8])
qed (simp add: secoc_decode_ex_def)

text \<open>
  \<open>secoc_decode\<close>, documented to check that the freshness is within the window, returns the
  same verdict at every tick: a recorded frame is accepted for ever.
\<close>

theorem secoc_decode_any_tick: "secoc_decode buf key t = secoc_decode buf key t'"
  by (auto simp: secoc_decode_def secoc_decode_ex_eq Let_def split: prod.splits)

text \<open>
  C12: when \<open>secoc_decode_ex\<close> says true, its freshness flag is set exactly when the time stamp in
  the frame is at most 5000 ms away from the local tick in either direction: the 64 bit
  subtraction does not overflow, and the counter plays no part.
\<close>

theorem secoc_freshness_window:
  assumes "secoc_decode_ex buf key t = (True, n, r)"
  shows "n = Some (length buf - 24) \<and> mac_valid r \<and>
    freshness_ts r = get_freshness_ts (drop (length buf - 24) buf) \<and>
    (freshness_valid r \<longleftrightarrow> \<bar>uint (freshness_ts r) - uint t\<bar> \<le> 5000)"
proof -
  from assms have l: "24 \<le> length buf" and n: "n = Some (length buf - 24)" "mac_valid r"
    and ts: "freshness_ts r = get_freshness_ts (slice buf (length buf - 24) 8)"
    and fv: "freshness_valid r = secoc_fresh (freshness_ts r) t"
    by (auto simp: secoc_decode_ex_eq Let_def split: if_splits)
  have "get_freshness_ts (slice buf (length buf - 24) 8) = get_freshness_ts (drop (length buf - 24) buf)"
    using l by (auto intro!: bit_word_eqI simp: bit_freshness_ts slice_def)
  moreover have "uint (freshness_ts r) < 2 ^ 48"
    unfolding ts by (rule freshness_ts_bound) (use l in simp)
  ultimately show ?thesis using n ts fv by (simp add: secoc_fresh_iff)
qed

theorem secoc_freshness_window_witness:
  "\<not> freshness_valid (snd (snd (secoc_decode_ex (secoc_frame SECOC_TEST_KEY ([], 7000, 3)) SECOC_TEST_KEY 1999)))
   \<and> freshness_valid (snd (snd (secoc_decode_ex (secoc_frame SECOC_TEST_KEY ([], 7000, 3)) SECOC_TEST_KEY 12000)))"
proof -
  have ok: "secoc_msg_ok ([], 7000, 3)" by (simp add: secoc_msg_ok_def)
  show ?thesis
    using secoc_freshness_window [OF secoc_decode_frame [OF ok, of SECOC_TEST_KEY 1999]]
      secoc_freshness_window [OF secoc_decode_frame [OF ok, of SECOC_TEST_KEY 12000]]
    by (simp add: secoc_decode_frame [OF ok])
qed

end
