(* ===== verification/Format.thy ===== *)
theory Format
  imports Prelude
begin

text \<open>
  The parts of the C library that the firmware formats and scans text with: string literals as
  bytes, \<open>%u\<close> and \<open>%d\<close> conversions, \<open>snprintf\<close> into a buffer, NUL-terminated strings and
  \<open>strstr\<close>.
\<close>

text \<open>The bytes of a string literal, without the terminator.\<close>

definition str_bytes :: "string \<Rightarrow> bytes" where
  "str_bytes s = map of_char s"

text \<open>Decimal digits, most significant first.\<close>

fun dec_digits :: "nat \<Rightarrow> bytes" where
  "dec_digits n =
     (if n < 10 then [of_nat (48 + n)] else dec_digits (n div 10) @ [of_nat (48 + n mod 10)])"

declare dec_digits.simps [simp del]

definition fmt_d :: "int \<Rightarrow> bytes" where
  "fmt_d i = (if i < 0 then 45 # dec_digits (nat (- i)) else dec_digits (nat i))"

text \<open>
  \<open>snprintf(buf, size, ...)\<close> with the formatted text \<open>s\<close>: what the buffer holds after it, and the
  length it returns.
\<close>

definition snprintf_to :: "bytes \<Rightarrow> bytes \<Rightarrow> bytes \<times> nat" where
  "snprintf_to buf s = (memcpy_at buf 0 (take (length buf - 1) s @ [0]), length s)"

text \<open>The string that starts at the front of a buffer.\<close>

definition cstr :: "bytes \<Rightarrow> bytes" where
  "cstr buf = takeWhile (\<lambda>b. b \<noteq> 0) buf"

section \<open>Decimal numbers\<close>

definition is_digit :: "u8 \<Rightarrow> bool" where
  "is_digit b \<longleftrightarrow> 48 \<le> b \<and> b \<le> 57"

definition undec :: "bytes \<Rightarrow> nat" where
  "undec s = foldl (\<lambda>v b. 10 * v + (unat b - 48)) 0 s"

lemma unat_digit: "d < 10 \<Longrightarrow> unat (of_nat (48 + d) :: u8) = 48 + d"
  by (rule unat_of_nat_small) simp

lemma undec_dec [simp]: "undec (dec_digits n) = n"
proof (induction n rule: dec_digits.induct)
  case (1 n)
  show ?case
  proof (cases "n < 10")
    case True
    then show ?thesis using unat_digit [of n] by (subst dec_digits.simps) (simp add: undec_def)
  next
    case False
    have "undec (dec_digits (n div 10) @ [of_nat (48 + n mod 10)]) =
        10 * undec (dec_digits (n div 10)) + n mod 10"
      using unat_digit [of "n mod 10"] by (simp add: undec_def)
    then show ?thesis using False 1 by (subst dec_digits.simps) simp
  qed
qed

lemma dec_digits_inj: "dec_digits m = dec_digits n \<Longrightarrow> m = n"
  by (metis undec_dec)

lemma dec_digits_digit: "b \<in> set (dec_digits n) \<Longrightarrow> is_digit b"
proof (induction n rule: dec_digits.induct)
  case (1 n)
  have d: "is_digit (of_nat (48 + d))" if "d < 10" for d
    using that unat_digit [OF that] by (simp only: is_digit_def word_le_nat_alt) simp
  show ?case
  proof (cases "n < 10")
    case True
    then show ?thesis using 1(2) d [of n] by (subst (asm) dec_digits.simps) simp
  next
    case False
    then show ?thesis using 1 d [of "n mod 10"] by (subst (asm) (2) dec_digits.simps) auto
  qed
qed

lemma dec_digits_length: "n < 10 ^ Suc k \<Longrightarrow> length (dec_digits n) \<le> Suc k"
proof (induction k arbitrary: n)
  case 0
  then show ?case by (subst dec_digits.simps) simp
next
  case (Suc k)
  show ?case
  proof (cases "n < 10")
    case True
    then show ?thesis by (subst dec_digits.simps) simp
  next
    case False
    have "n div 10 < 10 ^ Suc k" using Suc.prems by (simp add: less_mult_imp_div_less)
    then show ?thesis using False Suc.IH by (subst dec_digits.simps) simp
  qed
qed

lemma dec_digits_nonempty [simp]: "dec_digits n \<noteq> []"
  by (subst dec_digits.simps) simp

lemma dec_digits_u8: "length (dec_digits (unat (w :: u8))) \<le> 3"
  using dec_digits_length [of "unat w" 2] less_trans [OF unat_u8_less [of w], of 1000]
  by (simp add: numeral_3_eq_3)

lemma dec_digits_u16: "length (dec_digits (unat (w :: u16))) \<le> 5"
  using dec_digits_length [of "unat w" 4] less_trans [OF unat_u16_less [of w], of 100000] by simp

lemma dec_digits_u32: "length (dec_digits (unat (w :: u32))) \<le> 10"
proof -
  have "unat w < 2 ^ 32" using word_uint_le_max [of w] by simp
  then have "unat w < 10 ^ Suc 9" by simp
  from dec_digits_length [OF this] show ?thesis by simp
qed

section \<open>Strings in buffers\<close>

lemma cstr_append_zero: "0 \<notin> set s \<Longrightarrow> cstr (s @ 0 # t) = s"
  by (simp add: cstr_def takeWhile_append takeWhile_eq_all_conv)

lemma cstr_no_zero: "0 \<notin> set (cstr buf)"
  by (metis (mono_tags) cstr_def set_takeWhileD)

lemma snprintf_fits:
  assumes "length s < length buf"
  shows "snprintf_to buf s = (s @ 0 # drop (Suc (length s)) buf, length s)"
  using assms by (simp add: snprintf_to_def memcpy_at_def)

end
