(* ===== verification/Safety.thy ===== *)
theory Safety
  imports Board Secoc Format
begin

text \<open>
  The safety manager of \<open>safety_manager.c\<close>: the fault FSM
  \<open>NORMAL \<rightarrow> DEGRADED \<rightarrow> SAFE_STATE \<rightarrow> FAIL_SILENT\<close>, its self-tests and its safe action.

  \<^item> Every operation that may run the safe action takes and returns the board.
  \<^item> \<open>fsm_step\<close> is the specification of the states alone; every operation follows it.
  \<^item> \<open>safety_step\<close> runs the operation an event names, \<open>safety_machine\<close> and \<open>safety_trap\<close>
    interpret the contracts of \<open>Prelude\<close> on it.
\<close>

section \<open>Model\<close>

datatype safety_state_t =
  SAFETY_NORMAL | SAFETY_DEGRADED | SAFETY_SAFE_STATE | SAFETY_FAIL_SILENT

datatype fault_type_t =
  FAULT_CRC_FAILURE | FAULT_SEQ_ERROR | FAULT_MAC_FAILURE | FAULT_REPLAY | FAULT_FLOOD
| FAULT_FLOW | FAULT_TIMEOUT | FAULT_WATCHDOG | FAULT_SELF_TEST | FAULT_TYPE_COUNT

abbreviation (input) ASILD_DEGRADED_TIMEOUT :: u32 where "ASILD_DEGRADED_TIMEOUT \<equiv> 30000"
abbreviation (input) ASILD_RECOVERY_COUNT :: u32 where "ASILD_RECOVERY_COUNT \<equiv> 10"

text \<open>The numbers the compiler gives the enumerators.\<close>

primrec safety_state_num :: "safety_state_t \<Rightarrow> nat" where
  "safety_state_num SAFETY_NORMAL = 0"
| "safety_state_num SAFETY_DEGRADED = 1"
| "safety_state_num SAFETY_SAFE_STATE = 2"
| "safety_state_num SAFETY_FAIL_SILENT = 3"

primrec fault_num :: "fault_type_t \<Rightarrow> nat" where
  "fault_num FAULT_CRC_FAILURE = 0"
| "fault_num FAULT_SEQ_ERROR = 1"
| "fault_num FAULT_MAC_FAILURE = 2"
| "fault_num FAULT_REPLAY = 3"
| "fault_num FAULT_FLOOD = 4"
| "fault_num FAULT_FLOW = 5"
| "fault_num FAULT_TIMEOUT = 6"
| "fault_num FAULT_WATCHDOG = 7"
| "fault_num FAULT_SELF_TEST = 8"
| "fault_num FAULT_TYPE_COUNT = 9"

record safety_manager_t =
  sm_state :: safety_state_t
  fault_counts :: "u32 list"
  total_faults :: u32
  consecutive_ok :: u32
  degraded_enter_tick :: u32
  self_test_passed :: bool

definition safety_init :: "safety_manager_t \<Rightarrow> safety_manager_t" where
  "safety_init sm =
     \<lparr>sm_state = SAFETY_NORMAL, fault_counts = replicate 9 0, total_faults = 0,
      consecutive_ok = 0, degraded_enter_tick = 0, self_test_passed = False\<rparr>"

text \<open>\<open>buf0\<close> is what the 64 bytes of \<open>buf\<close> and \<open>hdr0\<close> what \<open>hdr\<close> hold on the stack before.\<close>

definition safety_self_test ::
  "bytes \<Rightarrow> e2e_header_t \<Rightarrow> safety_manager_t \<Rightarrow> bool \<times> safety_manager_t" where
  "safety_self_test buf0 hdr0 sm =
     (let pass1 = (e2e_crc32 (str_bytes ''123456789'') = 0xCBF43926);
          (encoded_len, cnt, buf) =
            e2e_encode (str_bytes ''{\"test\":1}'') 0xFFFF \<lparr>seq = 0, alive = 0\<rparr> buf0;
          pass2 = (if encoded_len \<noteq> E2E_HEADER_SIZE + 10 then False
                   else fst (e2e_decode (take encoded_len buf) hdr0) = E2E_OK);
          pass3 = (\<not> (seq cnt \<noteq> 1 \<or> alive cnt \<noteq> 1));
          pass = (pass1 \<and> pass2 \<and> pass3);
          sm1 = sm\<lparr>self_test_passed := pass\<rparr>
      in (pass, if pass then sm1 else sm1\<lparr>sm_state := SAFETY_SAFE_STATE\<rparr>))"

definition safety_execute_safe_action :: "board \<Rightarrow> board" where
  "safety_execute_safe_action b = LED2_Off (LED1_Off b)"

definition safety_report_fault ::
  "fault_type_t \<Rightarrow> u32 \<Rightarrow> safety_manager_t \<times> board \<Rightarrow> safety_manager_t \<times> board" where
  "safety_report_fault fault tick = (\<lambda>(sm, b).
     if sm_state sm = SAFETY_FAIL_SILENT then (sm, b)
     else
       let sm1 = (if fault_num fault < 9
                  then sm\<lparr>fault_counts := (fault_counts sm)
                            [fault_num fault := fault_counts sm ! fault_num fault + 1]\<rparr>
                  else sm);
           sm2 = sm1\<lparr>total_faults := total_faults sm1 + 1, consecutive_ok := 0\<rparr>
       in (case sm_state sm2 of
             SAFETY_NORMAL \<Rightarrow>
               (sm2\<lparr>sm_state := SAFETY_DEGRADED, degraded_enter_tick := tick\<rparr>, b)
           | SAFETY_DEGRADED \<Rightarrow>
               if 4 \<le> total_faults sm2
               then (sm2\<lparr>sm_state := SAFETY_SAFE_STATE\<rparr>, safety_execute_safe_action b)
               else (sm2, b)
           | SAFETY_SAFE_STATE \<Rightarrow>
               (sm2\<lparr>sm_state := SAFETY_FAIL_SILENT\<rparr>, safety_execute_safe_action b)
           | SAFETY_FAIL_SILENT \<Rightarrow> (sm2, b)))"

definition safety_report_ok :: "safety_manager_t \<Rightarrow> safety_manager_t" where
  "safety_report_ok sm =
     (if sm_state sm = SAFETY_DEGRADED then
        let sm1 = sm\<lparr>consecutive_ok := consecutive_ok sm + 1\<rparr>
        in if ASILD_RECOVERY_COUNT \<le> consecutive_ok sm1
           then sm1\<lparr>sm_state := SAFETY_NORMAL, consecutive_ok := 0\<rparr> else sm1
      else sm)"

definition safety_tick :: "u32 \<Rightarrow> safety_manager_t \<times> board \<Rightarrow> safety_manager_t \<times> board" where
  "safety_tick current_tick = (\<lambda>(sm, b).
     if sm_state sm = SAFETY_DEGRADED then
       let elapsed = current_tick - degraded_enter_tick sm
       in if ASILD_DEGRADED_TIMEOUT \<le> elapsed
          then (sm\<lparr>sm_state := SAFETY_SAFE_STATE\<rparr>, safety_execute_safe_action b)
          else (sm, b)
     else (sm, b))"

definition safety_get_state :: "safety_manager_t \<Rightarrow> safety_state_t" where
  "safety_get_state sm = sm_state sm"

definition safety_actuator_allowed :: "safety_manager_t \<Rightarrow> bool" where
  "safety_actuator_allowed sm \<longleftrightarrow>
     sm_state sm = SAFETY_NORMAL \<or> sm_state sm = SAFETY_DEGRADED"

definition hmac_expected :: bytes where
  "hmac_expected =
     [0x5b,0xdc,0xc1,0x46,0xbf,0x60,0x75,0x4e, 0x6a,0x04,0x24,0x26,0x08,0x95,0x75,0xc7,
      0x5a,0x00,0x3f,0x08,0x9d,0x27,0x39,0x83, 0x9d,0xec,0x58,0xb9,0x64,0xec,0x38,0x43]"

text \<open>\<open>ram\<close> is what the volatile test cell reads back after a value was written to it.\<close>

definition safety_periodic_test ::
  "(u32 \<Rightarrow> u32) \<Rightarrow> u32 \<Rightarrow> safety_manager_t \<times> board \<Rightarrow> bool \<times> safety_manager_t \<times> board" where
  "safety_periodic_test ram tick s =
     (let pass1 = (e2e_crc32 (str_bytes ''123456789'') = 0xCBF43926);
          hmac_out = hmac_sha256 (str_bytes ''Jefe'') (str_bytes ''what do ya want for nothing?'');
          pass2 = (hmac_out = hmac_expected);
          pass3 = (ram 0xAA55AA55 = 0xAA55AA55 \<and> ram 0x55AA55AA = 0x55AA55AA);
          pass = (pass1 \<and> pass2 \<and> pass3)
      in (pass, if pass then s else safety_report_fault FAULT_SELF_TEST tick s))"

section \<open>The states alone\<close>

text \<open>The severity order of the states.\<close>

instantiation safety_state_t :: linorder
begin

definition less_eq_safety_state_t :: "safety_state_t \<Rightarrow> safety_state_t \<Rightarrow> bool" where
  "less_eq_safety_state_t s t \<longleftrightarrow> safety_state_num s \<le> safety_state_num t"

definition less_safety_state_t :: "safety_state_t \<Rightarrow> safety_state_t \<Rightarrow> bool" where
  "less_safety_state_t s t \<longleftrightarrow> safety_state_num s < safety_state_num t"

lemma safety_state_num_inj: "safety_state_num s = safety_state_num t \<Longrightarrow> s = t"
  by (cases s; cases t) simp_all

instance
  by intro_classes
    (auto simp: less_eq_safety_state_t_def less_safety_state_t_def intro: safety_state_num_inj)

end

lemma safety_state_le [simp, state_simps]:
  "SAFETY_NORMAL \<le> s" "s \<le> SAFETY_FAIL_SILENT"
  "SAFETY_DEGRADED \<le> s \<longleftrightarrow> s \<noteq> SAFETY_NORMAL"
  "SAFETY_SAFE_STATE \<le> s \<longleftrightarrow> s = SAFETY_SAFE_STATE \<or> s = SAFETY_FAIL_SILENT"
  "SAFETY_FAIL_SILENT \<le> s \<longleftrightarrow> s = SAFETY_FAIL_SILENT"
  by (cases s; simp add: less_eq_safety_state_t_def)+

text \<open>
  The specification of the FSM: a fault escalates, a run of good messages recovers from
  \<open>DEGRADED\<close> only, a time-out or too many faults end in \<open>SAFE_STATE\<close>, and a fault there
  silences the node.
\<close>

inductive fsm_step :: "safety_state_t \<Rightarrow> safety_state_t \<Rightarrow> bool" where
  degrade: "fsm_step SAFETY_NORMAL SAFETY_DEGRADED"
| escalate: "fsm_step SAFETY_DEGRADED SAFETY_SAFE_STATE"
| silence: "fsm_step SAFETY_SAFE_STATE SAFETY_FAIL_SILENT"
| recover: "fsm_step SAFETY_DEGRADED SAFETY_NORMAL"
| stay: "fsm_step s s"

inductive_cases fsm_from_safe: "fsm_step SAFETY_SAFE_STATE t"
inductive_cases fsm_from_silent: "fsm_step SAFETY_FAIL_SILENT t"
inductive_simps fsm_step_simps: "fsm_step s t"

text \<open>The operations after boot as events.\<close>

datatype safety_event =
  Ev_fault fault_type_t u32
| Ev_ok
| Ev_tick u32
| Ev_periodic "u32 \<Rightarrow> u32" u32

primrec safety_step :: "safety_event \<Rightarrow> safety_manager_t \<times> board \<Rightarrow> safety_manager_t \<times> board" where
  "safety_step (Ev_fault f t) s = safety_report_fault f t s"
| "safety_step Ev_ok s = apfst safety_report_ok s"
| "safety_step (Ev_tick t) s = safety_tick t s"
| "safety_step (Ev_periodic ram t) s = snd (safety_periodic_test ram t s)"

lemma report_fault_state [state_simps]:
  "sm_state (fst (safety_report_fault f t (sm, b))) =
     (case sm_state sm of
        SAFETY_NORMAL \<Rightarrow> SAFETY_DEGRADED
      | SAFETY_DEGRADED \<Rightarrow> if 4 \<le> total_faults sm + 1 then SAFETY_SAFE_STATE else SAFETY_DEGRADED
      | _ \<Rightarrow> SAFETY_FAIL_SILENT)"
  by (simp add: safety_report_fault_def Let_def split: safety_state_t.split)

lemma report_fault_board [state_simps]:
  "snd (safety_report_fault f t (sm, b)) =
     (if sm_state sm = SAFETY_SAFE_STATE \<or> (sm_state sm = SAFETY_DEGRADED \<and> 4 \<le> total_faults sm + 1)
      then safety_execute_safe_action b else b)"
  by (simp add: safety_report_fault_def Let_def split: safety_state_t.split)

lemma report_fault_total [state_simps]:
  "total_faults (fst (safety_report_fault f t (sm, b))) =
     (if sm_state sm = SAFETY_FAIL_SILENT then total_faults sm else total_faults sm + 1)"
  by (simp add: safety_report_fault_def Let_def split: safety_state_t.split)

lemma report_ok_state [state_simps]:
  "sm_state (safety_report_ok sm) =
     (if sm_state sm = SAFETY_DEGRADED \<and> 10 \<le> consecutive_ok sm + 1 then SAFETY_NORMAL else sm_state sm)"
  by (simp add: safety_report_ok_def Let_def)

lemma tick_state [state_simps]:
  "sm_state (fst (safety_tick t (sm, b))) =
     (if sm_state sm = SAFETY_DEGRADED \<and> 30000 \<le> t - degraded_enter_tick sm
      then SAFETY_SAFE_STATE else sm_state sm)"
  by (simp add: safety_tick_def Let_def)

lemma tick_board [state_simps]:
  "snd (safety_tick t (sm, b)) =
     (if sm_state sm = SAFETY_DEGRADED \<and> 30000 \<le> t - degraded_enter_tick sm
      then safety_execute_safe_action b else b)"
  by (simp add: safety_tick_def Let_def)

lemma periodic_test_cases:
  obtains "snd (safety_periodic_test ram t s) = s"
  | "snd (safety_periodic_test ram t s) = safety_report_fault FAULT_SELF_TEST t s"
  by (simp add: safety_periodic_test_def Let_def) metis

lemma safe_action_dark [simp]: "all_dark (safety_execute_safe_action b)"
  by (simp add: safety_execute_safe_action_def)

lemma report_fault_follows: "fsm_step (sm_state sm) (sm_state (fst (safety_report_fault f t (sm, b))))"
  by (auto simp: state_simps intro: fsm_step.intros split: safety_state_t.split)

lemma safety_step_follows: "fsm_step (sm_state (fst s)) (sm_state (fst (safety_step e s)))"
proof (cases e)
  case (Ev_periodic ram t)
  then show ?thesis
    by (cases s; cases rule: periodic_test_cases [of ram t s]) (auto simp: report_fault_follows intro: stay)
qed (cases s; auto simp: report_fault_follows report_ok_state tick_state intro: fsm_step.intros)+

text \<open>The lattice of traps: \<open>SAFE_STATE\<close> upwards is never left.\<close>

lemma fsm_safe_trap: "fsm_step s t \<Longrightarrow> SAFETY_SAFE_STATE \<le> s \<Longrightarrow> SAFETY_SAFE_STATE \<le> t \<and> s \<le> t"
  by (cases rule: fsm_step.cases) auto

interpretation safety_trap: absorbing safety_step "\<lambda>s. SAFETY_SAFE_STATE \<le> sm_state (fst s)"
  by unfold_locales (use fsm_safe_trap [OF safety_step_follows] in blast)

interpretation silent_trap: absorbing safety_step "\<lambda>s. sm_state (fst s) = SAFETY_FAIL_SILENT"
  by unfold_locales (metis fsm_safe_trap safety_step_follows safety_state_le(4,5))

text \<open>
  Away from boot, a node that forbids its actuators has run the safe action and no operation of
  the safety manager lights a lamp.
\<close>

definition safety_inv :: "safety_manager_t \<times> board \<Rightarrow> bool" where
  "safety_inv s \<longleftrightarrow> length (fault_counts (fst s)) = 9 \<and>
     (safety_actuator_allowed (fst s) \<or> all_dark (snd s))"

lemma fault_counts_length [simp]:
  "length (fault_counts (fst (safety_report_fault f t s))) = length (fault_counts (fst s))"
  "length (fault_counts (safety_report_ok sm)) = length (fault_counts sm)"
  "length (fault_counts (fst (safety_tick t s))) = length (fault_counts (fst s))"
  "length (fault_counts (fst (snd (safety_periodic_test ram t s)))) = length (fault_counts (fst s))"
proof -
  show f: "length (fault_counts (fst (safety_report_fault f t s))) = length (fault_counts (fst s))" for f t s
    by (cases s) (simp add: safety_report_fault_def Let_def split: safety_state_t.split)
  show "length (fault_counts (safety_report_ok sm)) = length (fault_counts sm)"
    by (simp add: safety_report_ok_def Let_def)
  show "length (fault_counts (fst (safety_tick t s))) = length (fault_counts (fst s))"
    by (cases s) (simp add: safety_tick_def Let_def)
  show "length (fault_counts (fst (snd (safety_periodic_test ram t s)))) = length (fault_counts (fst s))"
    by (cases rule: periodic_test_cases [of ram t s]) (simp_all add: f)
qed

lemma report_fault_inv:
  assumes "safety_inv s"
  shows "safety_inv (safety_report_fault f t s)"
proof (cases s)
  case (Pair sm b)
  show ?thesis
    using assms Pair
    by (cases "sm_state sm") (auto simp: safety_inv_def safety_actuator_allowed_def state_simps)
qed

lemma report_ok_inv: "safety_inv (sm, b) \<Longrightarrow> safety_inv (safety_report_ok sm, b)"
  by (auto simp: safety_inv_def safety_actuator_allowed_def safety_report_ok_def Let_def)

lemma tick_inv: "safety_inv s \<Longrightarrow> safety_inv (safety_tick t s)"
  by (cases s) (auto simp: safety_inv_def safety_actuator_allowed_def safety_tick_def Let_def)

lemma periodic_test_inv: "safety_inv s \<Longrightarrow> safety_inv (snd (safety_periodic_test ram t s))"
  by (cases rule: periodic_test_cases [of ram t s]) (simp_all add: report_fault_inv)

lemma safety_inv_step: "safety_inv s \<Longrightarrow> safety_inv (safety_step e s)"
  by (cases e; cases s) (simp_all add: report_fault_inv report_ok_inv tick_inv periodic_test_inv)

lemma safety_inv_init: "safety_inv (safety_init sm, b)"
  by (simp add: safety_inv_def safety_init_def safety_actuator_allowed_def)

interpretation safety_machine: machine "(safety_init sm, b)" safety_step safety_inv for sm b
  by unfold_locales (rule safety_inv_init, rule safety_inv_step)

section \<open>Properties\<close>

definition safety_run :: "safety_manager_t \<Rightarrow> board \<Rightarrow> safety_event list \<Rightarrow> safety_manager_t \<times> board" where
  "safety_run sm b es = fold safety_step es (safety_init sm, b)"

lemma forbidden_iff: "\<not> safety_actuator_allowed sm \<longleftrightarrow> SAFETY_SAFE_STATE \<le> sm_state sm"
  by (cases "sm_state sm") (simp_all add: safety_actuator_allowed_def)

lemma safety_run_inv: "safety_inv (safety_run sm b es)"
  unfolding safety_run_def by (rule safety_machine.inv_reachable)

text \<open>A concrete node: garbage before \<open>safety_init\<close>, both lamps lit.\<close>

definition junk_sm :: safety_manager_t where
  "junk_sm = \<lparr>sm_state = SAFETY_FAIL_SILENT, fault_counts = [], total_faults = 7, consecutive_ok = 7,
              degraded_enter_tick = 7, self_test_passed = True\<rparr>"

definition lit_board :: board where
  "lit_board = \<lparr>pioa_odsr = 0, piob_odsr = 0, pioa_pdsr = 0\<rparr>"

text \<open>
  Actuators that are forbidden stay forbidden and dark. Once a run of the safety manager after
  \<open>safety_init\<close> has reached a state in which \<open>safety_actuator_allowed\<close> is false, then whatever
  faults, good messages, ticks and periodic tests follow, it stays false and both lamps stay off.
\<close>

theorem safety_forbidden_forever:
  assumes "\<not> safety_actuator_allowed (fst (safety_run sm b es))"
  shows "\<not> safety_actuator_allowed (fst (safety_run sm b (es @ fs))) \<and>
    all_dark (snd (safety_run sm b (es @ fs)))"
proof -
  have "\<not> safety_actuator_allowed (fst (safety_run sm b (es @ fs)))"
    using assms safety_trap.trap_prefix unfolding forbidden_iff safety_run_def by blast
  then show ?thesis using safety_run_inv [of sm b "es @ fs"] by (simp add: safety_inv_def)
qed

definition four_faults :: "safety_event list" where
  "four_faults = [Ev_fault FAULT_REPLAY 10, Ev_fault FAULT_FLOOD 20, Ev_fault FAULT_FLOW 30,
                  Ev_fault FAULT_SEQ_ERROR 40]"

lemma four_faults_run: "sm_state (fst (safety_run junk_sm lit_board four_faults)) = SAFETY_SAFE_STATE"
  by (simp add: safety_run_def four_faults_def safety_init_def safety_report_fault_def Let_def)

theorem safety_forbidden_forever_witness:
  "\<not> safety_actuator_allowed (fst (safety_run junk_sm lit_board (four_faults @ replicate 10 Ev_ok)))"
  using safety_forbidden_forever [of junk_sm lit_board four_faults "replicate 10 Ev_ok"] four_faults_run
  by (simp add: forbidden_iff)

text \<open>
  C8: every run of the safety manager is a run of the specified FSM: the states before and after
  each event are related by \<open>fsm_step\<close>, so states are only ever left along its edges.
\<close>

theorem safety_run_follows_fsm:
  "successively fsm_step (map (\<lambda>k. sm_state (fst (safety_run sm b (take k es)))) [0..<Suc (length es)])"
proof (unfold successively_conv_nth, intro allI impI)
  fix i
  assume i: "Suc i < length (map (\<lambda>k. sm_state (fst (safety_run sm b (take k es)))) [0..<Suc (length es)])"
  then have "take (Suc i) es = take i es @ [es ! i]" by (simp add: take_Suc_conv_app_nth)
  then have "safety_run sm b (take (Suc i) es) = safety_step (es ! i) (safety_run sm b (take i es))"
    by (simp add: safety_run_def)
  then show "fsm_step (map (\<lambda>k. sm_state (fst (safety_run sm b (take k es)))) [0..<Suc (length es)] ! i)
      (map (\<lambda>k. sm_state (fst (safety_run sm b (take k es)))) [0..<Suc (length es)] ! Suc i)"
    using i safety_step_follows [of "safety_run sm b (take i es)" "es ! i"]
    by (simp add: nth_append del: upt_Suc)
qed

text \<open>A run of faults only, from each state.\<close>

definition fault_run ::
  "(fault_type_t \<times> u32) list \<Rightarrow> safety_manager_t \<times> board \<Rightarrow> safety_manager_t \<times> board" where
  "fault_run = fold (\<lambda>(f, t). safety_report_fault f t)"

lemma fault_run_simps [simp]:
  "fault_run [] s = s" "fault_run ((f, t) # fts) s = fault_run fts (safety_report_fault f t s)"
  by (simp_all add: fault_run_def)

lemma faults_silent:
  "sm_state (fst s) = SAFETY_FAIL_SILENT \<Longrightarrow> sm_state (fst (fault_run fts s)) = SAFETY_FAIL_SILENT"
  by (induction fts arbitrary: s) (auto simp: safety_report_fault_def)

lemma faults_safe:
  "sm_state (fst s) = SAFETY_SAFE_STATE \<Longrightarrow>
   sm_state (fst (fault_run fts s)) = (if fts = [] then SAFETY_SAFE_STATE else SAFETY_FAIL_SILENT)"
proof (cases fts)
  case (Cons ft fts')
  assume "sm_state (fst s) = SAFETY_SAFE_STATE"
  then have "sm_state (fst (safety_report_fault (fst ft) (snd ft) s)) = SAFETY_FAIL_SILENT"
    by (cases s) (simp add: report_fault_state)
  then show ?thesis using Cons faults_silent by (cases ft) simp
qed simp

lemma faults_degraded:
  "sm_state (fst s) = SAFETY_DEGRADED \<Longrightarrow> total_faults (fst s) = of_nat k \<Longrightarrow> k < 4 \<Longrightarrow>
   sm_state (fst (fault_run fts s)) =
     (if k + length fts < 4 then SAFETY_DEGRADED
      else if k + length fts = 4 then SAFETY_SAFE_STATE else SAFETY_FAIL_SILENT)"
proof (induction fts arbitrary: s k)
  case (Cons ft fts)
  obtain f t where ft: "ft = (f, t)" by fastforce
  obtain sm b where s: "s = (sm, b)" by fastforce
  let ?s = "safety_report_fault f t s"
  have t4: "4 \<le> total_faults sm + 1 \<longleftrightarrow> k = 3"
    using Cons.prems s by (auto simp: word_le_nat_alt unat_word_ariths unat_of_nat take_bit_eq_mod)
  show ?case
  proof (cases "k = 3")
    case True
    then have "sm_state (fst ?s) = SAFETY_SAFE_STATE"
      using Cons.prems s t4 by (simp add: report_fault_state)
    then show ?thesis using faults_safe [of ?s fts] True by (simp add: ft)
  next
    case False
    then have "sm_state (fst ?s) = SAFETY_DEGRADED" "total_faults (fst ?s) = of_nat (Suc k)" "Suc k < 4"
      using Cons.prems s t4 by (simp_all add: report_fault_state report_fault_total add.commute)
    from Cons.IH [OF this] show ?thesis by (simp add: ft)
  qed
qed simp

text \<open>
  C9: what \<open>n\<close> faults in a row do to a node fresh from \<open>safety_init\<close>, whatever their types and
  times: the first degrades it, the fourth puts it into the safe state, the fifth silences it.
\<close>

theorem safety_fault_escalation:
  "sm_state (fst (fault_run fts (safety_init sm, b))) =
     (if length fts = 0 then SAFETY_NORMAL else if length fts \<le> 3 then SAFETY_DEGRADED
      else if length fts = 4 then SAFETY_SAFE_STATE else SAFETY_FAIL_SILENT)"
proof (cases fts)
  case (Cons ft fts')
  obtain f t where ft: "ft = (f, t)" by fastforce
  let ?s = "safety_report_fault f t (safety_init sm, b)"
  have "sm_state (fst ?s) = SAFETY_DEGRADED" "total_faults (fst ?s) = of_nat 1"
    by (simp_all add: report_fault_state report_fault_total safety_init_def)
  from faults_degraded [OF this, of fts'] show ?thesis by (simp add: Cons ft)
qed (simp add: safety_init_def)

text \<open>
  The fault total is never reset, so after a recovery the documented three additional faults
  are not granted: a node that recovered with three or more faults behind it goes to the safe
  state on its second new fault.
\<close>

theorem safety_lifetime_faults:
  assumes "sm_state sm = SAFETY_NORMAL" "3 \<le> total_faults sm" "total_faults sm \<le> 0xFFFFFFFD"
  shows "sm_state (fst (safety_report_fault f t (sm, b))) = SAFETY_DEGRADED \<and>
    sm_state (fst (safety_report_fault f' t' (safety_report_fault f t (sm, b)))) = SAFETY_SAFE_STATE \<and>
    all_dark (snd (safety_report_fault f' t' (safety_report_fault f t (sm, b))))"
proof -
  obtain sm1 b1 where 1: "safety_report_fault f t (sm, b) = (sm1, b1)" by fastforce
  have s1: "sm_state sm1 = SAFETY_DEGRADED" "total_faults sm1 = total_faults sm + 1"
    using 1 assms(1) report_fault_state [of f t sm b] report_fault_total [of f t sm b] by auto
  have "4 \<le> total_faults sm1 + 1"
    using assms(2,3) by (simp add: s1 word_le_nat_alt unat_word_ariths)
  then show ?thesis
    using s1 report_fault_state [of f' t' sm1 b1] report_fault_board [of f' t' sm1 b1] by (simp add: 1)
qed

lemma report_ok_run:
  assumes "sm_state sm = SAFETY_DEGRADED" "consecutive_ok sm = 0"
  shows "n < 10 \<Longrightarrow> (safety_report_ok ^^ n) sm = sm\<lparr>consecutive_ok := of_nat n\<rparr>"
proof (induction n)
  case (Suc n)
  have "\<not> (10 :: u32) \<le> of_nat n + 1"
    using Suc.prems by (simp add: word_le_nat_alt unat_word_ariths unat_of_nat take_bit_eq_mod)
  with Suc assms show ?case by (simp add: safety_report_ok_def add.commute)
qed (simp add: assms(2))

lemma report_ok_normal: "sm_state sm = SAFETY_NORMAL \<Longrightarrow> (safety_report_ok ^^ n) sm = sm"
  by (induction n) (simp_all add: safety_report_ok_def)

lemma report_ok_ten:
  assumes "sm_state sm = SAFETY_DEGRADED" "consecutive_ok sm = 0"
  shows "(safety_report_ok ^^ 10) sm = sm\<lparr>consecutive_ok := 0, sm_state := SAFETY_NORMAL\<rparr>"
proof -
  have "(safety_report_ok ^^ Suc 9) sm = safety_report_ok ((safety_report_ok ^^ 9) sm)" by (simp only: funpow.simps comp_apply)
  then have "(safety_report_ok ^^ Suc 9) sm = sm\<lparr>consecutive_ok := 0, sm_state := SAFETY_NORMAL\<rparr>"
    using assms by (simp only: report_ok_run [OF assms, of 9]) (simp add: safety_report_ok_def)
  then show ?thesis by (simp only: Suc_numeral semiring_norm)
qed

definition recovered_sm :: safety_manager_t where
  "recovered_sm = fst (safety_run junk_sm lit_board (take 3 four_faults @ replicate 10 Ev_ok))"

lemma Ev_ok_pow: "(safety_step Ev_ok ^^ n) (sm, b) = ((safety_report_ok ^^ n) sm, b)"
  by (induction n) simp_all

lemma recovered_sm_state:
  "sm_state recovered_sm = SAFETY_NORMAL" "total_faults recovered_sm = 3"
proof -
  obtain sm b where sm: "fold safety_step (take 3 four_faults) (safety_init junk_sm, lit_board) = (sm, b)"
    by fastforce
  then have "sm_state sm = SAFETY_DEGRADED" "consecutive_ok sm = 0" "total_faults sm = 3"
    by (auto simp: four_faults_def safety_init_def safety_report_fault_def Let_def)
  then show "sm_state recovered_sm = SAFETY_NORMAL" "total_faults recovered_sm = 3"
    by (simp_all add: recovered_sm_def safety_run_def sm Ev_ok_pow report_ok_ten)
qed

theorem safety_lifetime_faults_witness:
  "sm_state (fst (safety_report_fault FAULT_CRC_FAILURE 2
     (safety_report_fault FAULT_CRC_FAILURE 1 (recovered_sm, lit_board)))) = SAFETY_SAFE_STATE"
  using safety_lifetime_faults [of recovered_sm FAULT_CRC_FAILURE 1 lit_board FAULT_CRC_FAILURE 2]
  by (simp add: recovered_sm_state)

text \<open>
  A degraded node recovers with the tenth good message in a row and not before; further good
  messages change nothing.
\<close>

theorem safety_recovery:
  assumes "sm_state sm = SAFETY_DEGRADED" "consecutive_ok sm = 0"
  shows "sm_state ((safety_report_ok ^^ n) sm) = (if n < 10 then SAFETY_DEGRADED else SAFETY_NORMAL)"
proof (cases "n < 10")
  case True
  then show ?thesis using assms by (simp add: report_ok_run)
next
  case False
  then have n: "n = (n - 10) + 10" by simp
  have "(safety_report_ok ^^ (n - 10 + 10)) sm = (safety_report_ok ^^ (n - 10)) ((safety_report_ok ^^ 10) sm)"
    by (simp only: funpow_add comp_apply)
  then have "sm_state ((safety_report_ok ^^ n) sm) = SAFETY_NORMAL"
    unfolding n [symmetric] report_ok_ten [OF assms] by (simp add: report_ok_normal)
  then show ?thesis using False by simp
qed

theorem safety_recovery_witness:
  "sm_state ((safety_report_ok ^^ 9) (junk_sm\<lparr>sm_state := SAFETY_DEGRADED, consecutive_ok := 0\<rparr>)) = SAFETY_DEGRADED
   \<and> sm_state ((safety_report_ok ^^ 10) (junk_sm\<lparr>sm_state := SAFETY_DEGRADED, consecutive_ok := 0\<rparr>)) = SAFETY_NORMAL"
  using safety_recovery [of "junk_sm\<lparr>sm_state := SAFETY_DEGRADED, consecutive_ok := 0\<rparr>" 9]
    safety_recovery [of "junk_sm\<lparr>sm_state := SAFETY_DEGRADED, consecutive_ok := 0\<rparr>" 10]
  by simp

text \<open>
  C10: the degraded time-out is exact across the wrap of the 32 bit tick counter: \<open>d\<close> milliseconds
  after the fault that degraded the node, \<open>safety_tick\<close> runs the safe action if and only if
  \<open>d \<ge> 30000\<close>.
\<close>

theorem safety_timeout:
  fixes sm :: safety_manager_t and b :: board and f :: fault_type_t and t :: u32
  assumes "sm_state sm = SAFETY_NORMAL" "d < 2 ^ 32"
  defines "s \<equiv> safety_tick (t + of_nat d) (safety_report_fault f t (sm, b))"
  shows "sm_state (fst s) = (if 30000 \<le> d then SAFETY_SAFE_STATE else SAFETY_DEGRADED) \<and>
    snd s = (if 30000 \<le> d then safety_execute_safe_action b else b)"
proof -
  have "(30000 :: u32) \<le> of_nat d \<longleftrightarrow> 30000 \<le> d"
    using assms(2) by (simp add: word_le_nat_alt unat_of_nat_small)
  then show ?thesis
    using assms(1) unfolding s_def
    by (simp add: safety_report_fault_def safety_tick_def Let_def)
qed

theorem safety_timeout_witness:
  "sm_state (fst (safety_tick (0xFFFFFFF0 + of_nat 29999)
      (safety_report_fault FAULT_FLOW 0xFFFFFFF0 (safety_init junk_sm, lit_board)))) = SAFETY_DEGRADED
   \<and> sm_state (fst (safety_tick (0xFFFFFFF0 + of_nat 30000)
      (safety_report_fault FAULT_FLOW 0xFFFFFFF0 (safety_init junk_sm, lit_board)))) = SAFETY_SAFE_STATE"
proof -
  have n: "sm_state (safety_init junk_sm) = SAFETY_NORMAL" by (simp add: safety_init_def)
  show ?thesis
    using safety_timeout [OF n, where d = 29999 and t = "0xFFFFFFF0" and f = FAULT_FLOW and b = lit_board]
      safety_timeout [OF n, where d = 30000 and t = "0xFFFFFFF0" and f = FAULT_FLOW and b = lit_board] by simp
qed

lemma self_test_ok:
  assumes "length buf0 = 64"
  shows "safety_self_test buf0 hdr0 sm = (True, sm\<lparr>self_test_passed := True\<rparr>)"
proof -
  let ?m = "\<lparr>msg_id = 0xFFFF, msg_seq = 0, msg_alive = 0, msg_payload = str_bytes ''{\"test\":1}''\<rparr>"
  have crc: "e2e_crc32 (str_bytes ''123456789'') = 0xCBF43926"
    using crc32_check_value by (simp add: str_bytes_def)
  have l: "length (str_bytes ''{\"test\":1}'') = 10" by (simp add: str_bytes_def)
  have ok: "e2e_msg_ok ?m" by (simp add: e2e_msg_ok_def l)
  have "e2e_encode (str_bytes ''{\"test\":1}'') 0xFFFF \<lparr>seq = 0, alive = 0\<rparr> buf0 =
      (21, \<lparr>seq = 1, alive = 1\<rparr>, e2e_frame ?m @ drop 21 buf0)"
    using assms by (subst e2e_encode_frame) (simp_all add: l)
  then show ?thesis
    using crc by (simp add: safety_self_test_def e2e_decode_frame [OF ok] l)
qed

text \<open>
  The boot self-test passes: the CRC of the test string is the check value, the frame that
  \<open>e2e_encode\<close> writes into the 64 byte buffer decodes, and the counters have advanced to one,
  whatever the stack held before.
\<close>

theorem safety_self_test_passes:
  assumes "length buf0 = 64"
  shows "safety_self_test buf0 hdr0 sm = (True, sm\<lparr>self_test_passed := True\<rparr>)"
  by (rule self_test_ok [OF assms])

theorem safety_self_test_passes_witness:
  "fst (safety_self_test (replicate 64 0xCC) blank_header (safety_init junk_sm))"
  using safety_self_test_passes [of "replicate 64 0xCC" blank_header "safety_init junk_sm"] by simp

section \<open>The counters\<close>

definition counts_ok :: "safety_manager_t \<times> board \<Rightarrow> bool" where
  "counts_ok s \<longleftrightarrow> length (fault_counts (fst s)) = 9 \<and> sum_list (fault_counts (fst s)) = total_faults (fst s)"

lemma sum_list_update_Suc:
  "i < length ws \<Longrightarrow> sum_list (ws[i := ws ! i + 1]) = sum_list ws + (1 :: 'a::len word)"
  by (induction ws arbitrary: i) (auto simp: algebra_simps split: nat.split)

lemma report_fault_counts:
  assumes "counts_ok s" "f \<noteq> FAULT_TYPE_COUNT"
  shows "counts_ok (safety_report_fault f t s)"
proof (cases s)
  case (Pair sm b)
  have "fault_num f < 9" using assms(2) by (cases f) simp_all
  then show ?thesis
    using assms(1) Pair
    by (simp add: counts_ok_def safety_report_fault_def Let_def sum_list_update_Suc
        split: safety_state_t.split)
qed

lemma counts_step:
  assumes "counts_ok s" "\<forall>t. e \<noteq> Ev_fault FAULT_TYPE_COUNT t"
  shows "counts_ok (safety_step e s)"
proof (cases e)
  case (Ev_periodic ram t)
  then show ?thesis
    using assms(1) by (cases rule: periodic_test_cases [of ram t s]) (simp_all add: report_fault_counts)
next
  case Ev_ok
  then show ?thesis
    using assms(1) by (cases s) (simp add: counts_ok_def safety_report_ok_def Let_def)
next
  case (Ev_tick t)
  then show ?thesis
    using assms(1) by (cases s) (simp add: counts_ok_def safety_tick_def Let_def)
qed (use assms report_fault_counts in auto)

text \<open>
  The per-type fault counters add up to the fault total, modulo \<open>2^32\<close>, after every run whose
  faults have one of the nine types.
\<close>

theorem safety_counts_add_up:
  assumes "\<And>t. Ev_fault FAULT_TYPE_COUNT t \<notin> set es"
  shows "sum_list (fault_counts (fst (safety_run sm b es))) = total_faults (fst (safety_run sm b es))"
proof -
  have "counts_ok (fold safety_step es s)" if "counts_ok s" for s
    using that assms
  proof (induction es arbitrary: s)
    case (Cons e es)
    then have "counts_ok (safety_step e s)" by (intro counts_step) auto
    with Cons show ?case by simp
  qed simp
  moreover have "counts_ok (safety_init sm, b)"
    by (simp add: counts_ok_def safety_init_def numeral_eq_Suc)
  ultimately show ?thesis by (simp add: safety_run_def counts_ok_def)
qed

theorem safety_counts_add_up_witness:
  "sum_list (fault_counts (fst (safety_run junk_sm lit_board four_faults))) =
     total_faults (fst (safety_run junk_sm lit_board four_faults))"
  by (rule safety_counts_add_up) (simp add: four_faults_def)

end
