(* ===== verification/Dtc.thy ===== *)
theory Dtc
  imports Prelude
begin

text \<open>
  The trouble code store of \<open>dtc_manager.c\<close>: sixteen entries, one per code, written as a ring.

  \<^item> \<open>dtc_view\<close> reads the ring oldest entry first; \<open>dtc_spec\<close> is what recording means on that
    list. Every run of the manager refines it (\<open>dtc_run_refines\<close>).
  \<^item> \<open>dtc_ring\<close> interprets \<open>recency\<close>, \<open>dtc_machine\<close> interprets \<open>machine\<close>.
\<close>

section \<open>Model\<close>

abbreviation (input) DTC_MAX_ENTRIES :: nat where "DTC_MAX_ENTRIES \<equiv> 16"
abbreviation (input) DTC_CRC_FAILURE :: u16 where "DTC_CRC_FAILURE \<equiv> 0xE001"
abbreviation (input) DTC_SEQ_ERROR :: u16 where "DTC_SEQ_ERROR \<equiv> 0xE002"
abbreviation (input) DTC_MAC_FAILURE :: u16 where "DTC_MAC_FAILURE \<equiv> 0xE003"
abbreviation (input) DTC_REPLAY :: u16 where "DTC_REPLAY \<equiv> 0xE004"
abbreviation (input) DTC_FLOOD :: u16 where "DTC_FLOOD \<equiv> 0xE005"
abbreviation (input) DTC_FLOW_ERROR :: u16 where "DTC_FLOW_ERROR \<equiv> 0xE007"

record dtc_freeze_frame_t =
  ff_tick :: u32
  ff_last_seq :: u16
  ff_safety_state :: u8
  ff_fault_count :: u8

record dtc_entry_t =
  dtc_code :: u16
  occurrence_count :: u8
  freeze :: dtc_freeze_frame_t

record dtc_manager_t =
  dtc_entries :: "dtc_entry_t list"
  dtc_count :: u8
  write_idx :: u8
  total_dtcs :: u32

definition zero_entry :: dtc_entry_t where
  "zero_entry = \<lparr>dtc_code = 0, occurrence_count = 0,
     freeze = \<lparr>ff_tick = 0, ff_last_seq = 0, ff_safety_state = 0, ff_fault_count = 0\<rparr>\<rparr>"

definition dtc_init :: "dtc_manager_t \<Rightarrow> dtc_manager_t" where
  "dtc_init dm = \<lparr>dtc_entries = replicate DTC_MAX_ENTRIES zero_entry, dtc_count = 0,
                  write_idx = 0, total_dtcs = 0\<rparr>"

text \<open>The loop over the stored entries, up to the first with the code.\<close>

definition dtc_find :: "dtc_manager_t \<Rightarrow> u16 \<Rightarrow> nat option" where
  "dtc_find dm c = find (\<lambda>i. dtc_code (dtc_entries dm ! i) = c) [0..<unat (dtc_count dm)]"

definition dtc_touch :: "dtc_freeze_frame_t \<Rightarrow> dtc_entry_t \<Rightarrow> dtc_entry_t" where
  "dtc_touch ff e =
     e\<lparr>occurrence_count := (if occurrence_count e < 255 then occurrence_count e + 1
                             else occurrence_count e),
       freeze := ff\<rparr>"

definition dtc_append :: "dtc_entry_t \<Rightarrow> dtc_manager_t \<Rightarrow> dtc_manager_t" where
  "dtc_append e dm =
     dm\<lparr>dtc_entries := (dtc_entries dm)[unat (write_idx dm) := e],
        write_idx := of_nat ((unat (write_idx dm) + 1) mod DTC_MAX_ENTRIES),
        dtc_count := (if dtc_count dm < 16 then dtc_count dm + 1 else dtc_count dm)\<rparr>"

definition dtc_record :: "u16 \<Rightarrow> dtc_freeze_frame_t \<Rightarrow> dtc_manager_t \<Rightarrow> dtc_manager_t" where
  "dtc_record c ff dm =
     (case dtc_find dm c of
        Some i \<Rightarrow>
          dm\<lparr>dtc_entries := (dtc_entries dm)[i := dtc_touch ff (dtc_entries dm ! i)],
             total_dtcs := total_dtcs dm + 1\<rparr>
      | None \<Rightarrow>
          (dtc_append \<lparr>dtc_code = c, occurrence_count = 1, freeze = ff\<rparr> dm)
            \<lparr>total_dtcs := total_dtcs dm + 1\<rparr>)"

definition dtc_get_count :: "dtc_manager_t \<Rightarrow> u8" where
  "dtc_get_count dm = dtc_count dm"

definition dtc_get_entry :: "dtc_manager_t \<Rightarrow> u8 \<Rightarrow> dtc_entry_t option" where
  "dtc_get_entry dm index =
     (if dtc_count dm \<le> index then None else Some (dtc_entries dm ! unat index))"

definition dtc_clear :: "dtc_manager_t \<Rightarrow> dtc_manager_t" where
  "dtc_clear dm =
     dm\<lparr>dtc_count := 0, write_idx := 0, dtc_entries := replicate DTC_MAX_ENTRIES zero_entry\<rparr>"

definition dtc_get_total :: "dtc_manager_t \<Rightarrow> u32" where
  "dtc_get_total dm = total_dtcs dm"

section \<open>The ring\<close>

text \<open>
  Until the ring is full the next slot is the one after the last; then the oldest entry is in
  the slot that is written next.
\<close>

definition dtc_wf :: "dtc_manager_t \<Rightarrow> bool" where
  "dtc_wf dm \<longleftrightarrow> length (dtc_entries dm) = 16 \<and> unat (write_idx dm) < 16 \<and>
     unat (dtc_count dm) \<le> 16 \<and> (unat (dtc_count dm) < 16 \<longrightarrow> write_idx dm = dtc_count dm)"

definition dtc_head :: "dtc_manager_t \<Rightarrow> nat" where
  "dtc_head dm = (if unat (dtc_count dm) < 16 then 0 else unat (write_idx dm))"

definition dtc_view :: "dtc_manager_t \<Rightarrow> dtc_entry_t list" where
  "dtc_view dm = ring_view 16 (dtc_head dm) (unat (dtc_count dm)) (dtc_entries dm)"

lemma length_dtc_view [simp]: "length (dtc_view dm) = unat (dtc_count dm)"
  by (simp add: dtc_view_def)

lemma unat_Suc_u8: "unat (w :: u8) < 255 \<Longrightarrow> unat (w + 1) = Suc (unat w)"
  by (simp add: unat_word_ariths)

lemma dtc_append_wf: "dtc_wf dm \<Longrightarrow> dtc_wf (dtc_append e dm)"
  by (auto simp: dtc_wf_def dtc_append_def unat_of_nat unat_Suc_u8 word_less_nat_alt
      word_unat_eq_iff take_bit_eq_mod)

lemma dtc_append_view:
  assumes "dtc_wf dm"
  shows "dtc_view (dtc_append e dm) =
    (if unat (dtc_count dm) < 16 then dtc_view dm else tl (dtc_view dm)) @ [e]"
proof (cases "unat (dtc_count dm) < 16")
  case True
  then have c: "unat (dtc_count dm + 1) = Suc (unat (dtc_count dm))" by (simp add: unat_Suc_u8)
  have e15: "unat (dtc_count dm) < 15 \<or> Suc (unat (dtc_count dm)) = 16" using True by linarith
  have h: "dtc_head (dtc_append e dm) mod 16 = 0" and v:
    "dtc_view (dtc_append e dm) = ring_view 16 0 (Suc (unat (dtc_count dm)))
       ((dtc_entries dm)[unat (dtc_count dm) := e])"
    using True assms c e15
    by (auto simp: dtc_head_def dtc_view_def dtc_append_def dtc_wf_def word_less_nat_alt
        unat_of_nat take_bit_eq_mod)
  show ?thesis
    using True assms unfolding v
    by (subst ring_view_grow) (simp_all add: dtc_view_def dtc_head_def dtc_wf_def)
next
  case False
  then have c: "dtc_count dm = 16" using assms by (simp add: dtc_wf_def word_unat_eq_iff)
  have "dtc_view (dtc_append e dm) =
      ring_view 16 ((unat (write_idx dm) + 1) mod 16) 16 ((dtc_entries dm)[unat (write_idx dm) := e])"
    using c by (simp add: dtc_view_def dtc_head_def dtc_append_def unat_of_nat take_bit_eq_mod)
  also have "\<dots> = tl (ring_view 16 (unat (write_idx dm)) 16 (dtc_entries dm)) @ [e]"
    using assms by (intro ring_view_slide) (simp_all add: dtc_wf_def)
  finally show ?thesis using c by (simp add: dtc_view_def dtc_head_def)
qed

interpretation dtc_ring: recency dtc_view dtc_append dtc_wf 16
  by unfold_locales (auto simp: dtc_append_wf dtc_append_view, simp add: dtc_wf_def)

section \<open>The specification\<close>

text \<open>
  Recording a code on the list of entries, oldest first: an entry with the code counts one more
  and takes the new freeze frame where it stands; a new code goes to the end, and the oldest
  entry leaves a full store.
\<close>

definition dtc_spec :: "u16 \<Rightarrow> dtc_freeze_frame_t \<Rightarrow> dtc_entry_t list \<Rightarrow> dtc_entry_t list" where
  "dtc_spec c ff l =
     (if c \<in> dtc_code ` set l
      then map (\<lambda>e. if dtc_code e = c then dtc_touch ff e else e) l
      else (if length l < 16 then l else tl l) @ [\<lparr>dtc_code = c, occurrence_count = 1, freeze = ff\<rparr>])"

datatype dtc_event = Dtc_record u16 dtc_freeze_frame_t | Dtc_clear

primrec dtc_step :: "dtc_event \<Rightarrow> dtc_manager_t \<Rightarrow> dtc_manager_t" where
  "dtc_step (Dtc_record c ff) dm = dtc_record c ff dm"
| "dtc_step Dtc_clear dm = dtc_clear dm"

primrec dtc_spec_step :: "dtc_event \<Rightarrow> dtc_entry_t list \<Rightarrow> dtc_entry_t list" where
  "dtc_spec_step (Dtc_record c ff) l = dtc_spec c ff l"
| "dtc_spec_step Dtc_clear l = []"

text \<open>The slots in use, and the view as a rearrangement of them.\<close>

lemma dtc_view_nth:
  "i < unat (dtc_count dm) \<Longrightarrow> dtc_view dm ! i = dtc_entries dm ! ((dtc_head dm + i) mod 16)"
  by (simp add: dtc_view_def ring_view_def)

definition dtc_slot :: "dtc_manager_t \<Rightarrow> nat \<Rightarrow> nat" where
  "dtc_slot dm i = (dtc_head dm + i) mod 16"

lemma dtc_slot_less: "dtc_wf dm \<Longrightarrow> i < unat (dtc_count dm) \<Longrightarrow> dtc_slot dm i < unat (dtc_count dm)"
  by (auto simp: dtc_slot_def dtc_head_def dtc_wf_def)

lemma dtc_slot_onto:
  assumes "dtc_wf dm" "k < unat (dtc_count dm)"
  obtains i where "i < unat (dtc_count dm)" "dtc_slot dm i = k"
proof (cases "unat (dtc_count dm) < 16")
  case True
  then show thesis using that [of k] assms by (simp add: dtc_slot_def dtc_head_def)
next
  case False
  then have c: "unat (dtc_count dm) = 16" using assms(1) by (simp add: dtc_wf_def)
  let ?h = "unat (write_idx dm)" and ?i = "(k + (16 - unat (write_idx dm))) mod 16"
  have "?h < 16" "k < 16" using assms c by (simp_all add: dtc_wf_def)
  then have "(?h + ?i) mod 16 = k" by (simp add: mod_simps) 
  then show thesis using that [of ?i] False c by (simp add: dtc_slot_def dtc_head_def)
qed

lemma dtc_slot_inj:
  assumes "dtc_wf dm" "i < unat (dtc_count dm)" "j < unat (dtc_count dm)" "dtc_slot dm i = dtc_slot dm j"
  shows "i = j"
  using assms by (intro ring_slot_inj [of i 16 j "dtc_head dm"]) (auto simp: dtc_slot_def dtc_wf_def)

lemma dtc_find_Some:
  "dtc_find dm c = Some k \<Longrightarrow> k < unat (dtc_count dm) \<and> dtc_code (dtc_entries dm ! k) = c"
  by (auto simp: dtc_find_def find_Some_iff)

lemma dtc_find_None:
  "dtc_find dm c = None \<longleftrightarrow> (\<forall>k < unat (dtc_count dm). dtc_code (dtc_entries dm ! k) \<noteq> c)"
  by (auto simp: dtc_find_def find_None_iff)

lemma dtc_codes_view:
  assumes "dtc_wf dm"
  shows "c \<in> dtc_code ` set (dtc_view dm) \<longleftrightarrow> dtc_find dm c \<noteq> None"
proof
  assume "c \<in> dtc_code ` set (dtc_view dm)"
  then obtain i where "i < unat (dtc_count dm)" "dtc_code (dtc_view dm ! i) = c"
    by (auto simp: in_set_conv_nth)
  then show "dtc_find dm c \<noteq> None"
    using dtc_slot_less [OF assms] dtc_find_None by (auto simp: dtc_view_nth dtc_slot_def)
next
  assume "dtc_find dm c \<noteq> None"
  then obtain k where k: "k < unat (dtc_count dm)" "dtc_code (dtc_entries dm ! k) = c"
    using dtc_find_Some by blast
  then obtain i where "i < unat (dtc_count dm)" "dtc_slot dm i = k"
    using dtc_slot_onto [OF assms] by blast
  then have "dtc_view dm ! i = dtc_entries dm ! k" "i < length (dtc_view dm)"
    by (simp_all add: dtc_view_nth dtc_slot_def)
  then show "c \<in> dtc_code ` set (dtc_view dm)" using k(2) by (metis imageI nth_mem)
qed

definition dtc_inv :: "dtc_manager_t \<Rightarrow> bool" where
  "dtc_inv dm \<longleftrightarrow> dtc_wf dm \<and> distinct (map dtc_code (dtc_view dm))"

lemma dtc_code_touch [simp]: "dtc_code (dtc_touch ff e) = dtc_code e"
  by (simp add: dtc_touch_def)

lemma dtc_spec_distinct:
  "distinct (map dtc_code l) \<Longrightarrow> distinct (map dtc_code (dtc_spec c ff l))"
proof -
  assume d: "distinct (map dtc_code l)"
  have "map dtc_code (map (\<lambda>e. if dtc_code e = c then dtc_touch ff e else e) l) = map dtc_code l"
    by simp
  with d show ?thesis
    by (cases l) (auto simp: dtc_spec_def simp del: map_map)
qed

text \<open>Recording refines the specification.\<close>

lemma dtc_record_view:
  assumes "dtc_inv dm"
  shows "dtc_wf (dtc_record c ff dm) \<and> dtc_view (dtc_record c ff dm) = dtc_spec c ff (dtc_view dm)"
proof (cases "dtc_find dm c")
  case None
  let ?e = "\<lparr>dtc_code = c, occurrence_count = 1, freeze = ff\<rparr>"
  have wf: "dtc_wf dm" using assms by (simp add: dtc_inv_def)
  have same: "dtc_wf (dm\<lparr>total_dtcs := n\<rparr>) = dtc_wf dm" "dtc_view (dm\<lparr>total_dtcs := n\<rparr>) = dtc_view dm"
    for n and dm :: dtc_manager_t
    by (simp_all add: dtc_wf_def dtc_view_def dtc_head_def)
  show ?thesis
    using None wf dtc_codes_view [OF wf, of c]
    by (simp add: dtc_record_def same dtc_append_wf dtc_append_view dtc_spec_def)
next
  case (Some k)
  have wf: "dtc_wf dm" and d: "distinct (map dtc_code (dtc_view dm))"
    using assms by (simp_all add: dtc_inv_def)
  have k: "k < unat (dtc_count dm)" "dtc_code (dtc_entries dm ! k) = c" "k < length (dtc_entries dm)"
    using dtc_find_Some [OF Some] wf by (auto simp: dtc_wf_def)
  let ?dm = "dtc_record c ff dm"
  have dm: "dtc_entries ?dm = (dtc_entries dm)[k := dtc_touch ff (dtc_entries dm ! k)]"
    "dtc_count ?dm = dtc_count dm" "dtc_head ?dm = dtc_head dm" "dtc_wf ?dm"
    using Some wf by (simp_all add: dtc_record_def dtc_head_def dtc_wf_def)
  obtain i0 where i0: "i0 < unat (dtc_count dm)" "dtc_slot dm i0 = k"
    using dtc_slot_onto [OF wf k(1)] by blast
  have "dtc_view ?dm = map (\<lambda>e. if dtc_code e = c then dtc_touch ff e else e) (dtc_view dm)"
  proof (rule nth_equalityI)
    fix i assume "i < length (dtc_view ?dm)"
    then have i: "i < unat (dtc_count dm)" by (simp add: dm)
    have "dtc_code (dtc_view dm ! i) = c \<longleftrightarrow> i = i0"
    proof -
      have "dtc_view dm ! i0 = dtc_entries dm ! k" using i0 by (simp add: dtc_view_nth dtc_slot_def)
      then show ?thesis
        using d i i0(1) k(2) nth_eq_iff_index_eq [OF d, of i i0] by auto
    qed
    moreover have "dtc_slot dm i = k \<longleftrightarrow> i = i0" using dtc_slot_inj [OF wf i i0(1)] i0(2) by auto
    ultimately show "dtc_view ?dm ! i = map (\<lambda>e. if dtc_code e = c then dtc_touch ff e else e) (dtc_view dm) ! i"
      using i k(3) by (auto simp: dtc_view_nth dm dtc_slot_def [symmetric])
  qed (simp add: dm)
  moreover have "c \<in> dtc_code ` set (dtc_view dm)" using Some dtc_codes_view [OF wf] by simp
  ultimately show ?thesis using dm(4) by (simp add: dtc_spec_def)
qed

lemma dtc_clear_view: "dtc_wf (dtc_clear dm)" "dtc_view (dtc_clear dm) = []"
  by (simp_all add: dtc_clear_def dtc_wf_def dtc_view_def ring_view_def)

lemma dtc_init_inv: "dtc_inv (dtc_init dm)" "dtc_view (dtc_init dm) = []"
  by (simp_all add: dtc_inv_def dtc_init_def dtc_wf_def dtc_view_def ring_view_def)

lemma dtc_step_refines:
  "dtc_inv dm \<Longrightarrow> dtc_inv (dtc_step e dm) \<and> dtc_view (dtc_step e dm) = dtc_spec_step e (dtc_view dm)"
  by (cases e) (auto simp: dtc_inv_def dtc_record_view dtc_spec_distinct dtc_clear_view)

interpretation dtc_machine: machine "dtc_init dm" dtc_step dtc_inv for dm
  by unfold_locales (simp_all add: dtc_init_inv dtc_step_refines)

section \<open>Properties\<close>

definition dtc_run :: "dtc_manager_t \<Rightarrow> dtc_event list \<Rightarrow> dtc_manager_t" where
  "dtc_run dm es = fold dtc_step es (dtc_init dm)"

lemma dtc_run_inv: "dtc_inv (dtc_run dm es)"
  unfolding dtc_run_def by (rule dtc_machine.inv_reachable)

lemma dtc_fold_refines:
  "dtc_inv dm \<Longrightarrow> dtc_view (fold dtc_step es dm) = fold dtc_spec_step es (dtc_view dm)"
  by (induction es arbitrary: dm) (simp_all add: dtc_step_refines)

text \<open>
  After any sequence of recordings and clears since \<open>dtc_init\<close>, the ring, read oldest entry
  first, is what the list specification gives for the same sequence.
\<close>

theorem dtc_run_refines: "dtc_view (dtc_run dm es) = fold dtc_spec_step es []"
  using dtc_fold_refines [of "dtc_init dm" es] by (simp add: dtc_run_def dtc_init_inv)

text \<open>
  After any such sequence the store holds at most sixteen entries, no two with the same code,
  and \<open>dtc_get_entry\<close> hands out exactly the entries with an index below the count.
\<close>

theorem dtc_run_wellformed:
  "unat (dtc_get_count (dtc_run dm es)) \<le> 16 \<and>
   distinct (map dtc_code (dtc_view (dtc_run dm es))) \<and>
   (dtc_get_entry (dtc_run dm es) i = None \<longleftrightarrow> dtc_get_count (dtc_run dm es) \<le> i) \<and>
   (\<lambda>i. dtc_get_entry (dtc_run dm es) i) ` {i. i < dtc_get_count (dtc_run dm es)} =
     Some ` set (dtc_view (dtc_run dm es))"
proof -
  let ?dm = "dtc_run dm es"
  have wf: "dtc_wf ?dm" using dtc_run_inv by (simp add: dtc_inv_def)
  have entry: "dtc_get_entry ?dm i = (if dtc_count ?dm \<le> i then None else Some (dtc_entries ?dm ! unat i))" for i
    by (simp add: dtc_get_entry_def)
  have "(\<lambda>i. dtc_entries ?dm ! unat i) ` {i. i < dtc_count ?dm} = set (dtc_view ?dm)" (is "?L = ?R")
  proof (intro equalityI subsetI)
    fix e assume "e \<in> ?L"
    then obtain i where "i < dtc_count ?dm" "e = dtc_entries ?dm ! unat i"
      by blast
    then have i: "unat i < unat (dtc_count ?dm)" "e = dtc_entries ?dm ! unat i"
      by (simp_all add: word_less_nat_alt)
    then obtain j where "j < unat (dtc_count ?dm)" "dtc_slot ?dm j = unat i"
      using dtc_slot_onto [OF wf] by metis
    then have "dtc_view ?dm ! j = e" "j < length (dtc_view ?dm)"
      using i by (simp_all add: dtc_view_nth dtc_slot_def)
    then show "e \<in> ?R" by (metis nth_mem)
  next
    fix e assume "e \<in> ?R"
    then obtain j where j: "j < unat (dtc_count ?dm)" "e = dtc_view ?dm ! j"
      by (auto simp: in_set_conv_nth)
    let ?i = "of_nat (dtc_slot ?dm j) :: u8"
    have "unat ?i = dtc_slot ?dm j"
      using dtc_slot_less [OF wf j(1)] wf by (intro unat_of_nat_small) (simp add: dtc_slot_def)
    then have "?i < dtc_count ?dm" "e = dtc_entries ?dm ! unat ?i"
      using dtc_slot_less [OF wf j(1)] j
      by (simp_all add: word_less_nat_alt dtc_view_nth dtc_slot_def)
    then show "e \<in> ?L" by blast
  qed
  then have "(\<lambda>i. dtc_get_entry ?dm i) ` {i. i < dtc_count ?dm} = Some ` set (dtc_view ?dm)"
    by (auto simp: entry image_image not_le [symmetric] cong: image_cong)
  then show ?thesis
    using dtc_run_inv [of dm es] by (auto simp: dtc_get_count_def dtc_inv_def dtc_wf_def entry)
qed

lemma dtc_spec_new_codes:
  "distinct (map dtc_code l @ map fst rs) \<Longrightarrow> length l \<le> 16 \<Longrightarrow>
   map dtc_code (fold (\<lambda>(c, ff). dtc_spec c ff) rs l) =
     drop (length l + length rs - 16) (map dtc_code l @ map fst rs)"
proof (induction rs arbitrary: l)
  case (Cons r rs)
  obtain c ff where r: "r = (c, ff)" by fastforce
  let ?l = "dtc_spec c ff l"
  have new: "c \<notin> dtc_code ` set l" using Cons.prems(1) r by auto
  have l': "map dtc_code ?l = (if length l < 16 then map dtc_code l else tl (map dtc_code l)) @ [c]"
    "length ?l = (if length l < 16 then Suc (length l) else length l)"
    using new Cons.prems(2) by (auto simp: dtc_spec_def map_tl)
  have "distinct (map dtc_code ?l @ map fst rs)"
    unfolding l'(1) using Cons.prems(1) by (cases l) (auto simp: r)
  moreover have "length ?l \<le> 16" using Cons.prems(2) l'(2) by simp
  ultimately have IH: "map dtc_code (fold (\<lambda>(c, ff). dtc_spec c ff) rs ?l) =
      drop (length ?l + length rs - 16) (map dtc_code ?l @ map fst rs)" by (rule Cons.IH)
  show ?case
  proof (cases "length l < 16")
    case True
    then show ?thesis using IH l' r by (simp del: drop_append)
  next
    case False
    then have "length l = 16" using Cons.prems(2) by simp
    moreover from this obtain a t where "l = a # t" by (cases l) auto
    ultimately show ?thesis using IH l' r by (simp del: drop_append)
  qed
qed simp

text \<open>
  Of a sequence of recordings of pairwise different codes, however long, the store keeps the
  last sixteen codes, in the order in which they came: a full store loses its oldest code first.
\<close>

theorem dtc_keeps_last_codes:
  assumes "distinct (map fst rs)"
  shows "map dtc_code (dtc_view (dtc_run dm (map (\<lambda>(c, ff). Dtc_record c ff) rs))) =
    drop (length rs - 16) (map fst rs)"
proof -
  have f: "fold dtc_spec_step (map (\<lambda>(c, ff). Dtc_record c ff) rs) l = fold (\<lambda>(c, ff). dtc_spec c ff) rs l"
    for l
    by (induction rs arbitrary: l) auto
  have "dtc_view (dtc_run dm (map (\<lambda>(c, ff). Dtc_record c ff) rs)) = fold (\<lambda>(c, ff). dtc_spec c ff) rs []"
    using dtc_fold_refines [of "dtc_init dm"] by (simp add: dtc_run_def dtc_init_inv f)
  then show ?thesis using dtc_spec_new_codes [of "[]" rs] assms by simp
qed

definition sample_frame :: dtc_freeze_frame_t where
  "sample_frame = \<lparr>ff_tick = 100, ff_last_seq = 3, ff_safety_state = 1, ff_fault_count = 1\<rparr>"

definition junk_dtc :: dtc_manager_t where
  "junk_dtc = \<lparr>dtc_entries = [], dtc_count = 99, write_idx = 99, total_dtcs = 99\<rparr>"

theorem dtc_keeps_last_codes_witness:
  "map dtc_code (dtc_view (dtc_run junk_dtc
     (map (\<lambda>(c, ff). Dtc_record c ff) (map (\<lambda>i. (of_nat i, sample_frame)) [0..<18])))) = map of_nat [2..<18]"
proof -
  have "distinct (map fst (map (\<lambda>i. (of_nat i :: u16, sample_frame)) [0..<18]))"
    by (simp add: upt_rec)
  from dtc_keeps_last_codes [OF this, of junk_dtc] show ?thesis
    by (simp add: upt_rec)
qed

text \<open>Repeated recordings of one code.\<close>

lemma dtc_touches:
  "occurrence_count (fold dtc_touch ffs e) = of_nat (min 255 (unat (occurrence_count e) + length ffs))"
proof (induction ffs arbitrary: e)
  case (Cons ff ffs)
  have "unat (occurrence_count e) \<le> 255" by (rule less_Suc_eq_le [THEN iffD1]) simp
  then have "unat (occurrence_count (dtc_touch ff e)) = min 255 (unat (occurrence_count e) + 1)"
    by (auto simp: dtc_touch_def word_less_nat_alt unat_word_ariths min_def)
  then have "min 255 (unat (occurrence_count (dtc_touch ff e)) + length ffs) =
      min 255 (unat (occurrence_count e) + length (ff # ffs))" by simp
  then show ?case using Cons.IH [of "dtc_touch ff e"] by (simp only: fold_simps)
next
  case Nil
  have "unat (occurrence_count e) \<le> 255" by (rule less_Suc_eq_le [THEN iffD1]) simp
  then show ?case by (simp add: min_absorb2)
qed

lemma dtc_touch_freeze: "ffs \<noteq> [] \<Longrightarrow> freeze (fold dtc_touch ffs e) = last ffs"
  by (induction ffs rule: rev_induct) (simp_all add: dtc_touch_def)

lemma dtc_touches_code [simp]: "dtc_code (fold dtc_touch ffs e) = dtc_code e"
  by (induction ffs arbitrary: e) simp_all

lemma dtc_spec_repeats:
  assumes "c \<in> dtc_code ` set l"
  shows "fold (dtc_spec c) ffs l = map (\<lambda>e. if dtc_code e = c then fold dtc_touch ffs e else e) l"
  using assms
proof (induction ffs arbitrary: l)
  case (Cons ff ffs)
  let ?l = "map (\<lambda>e. if dtc_code e = c then dtc_touch ff e else e) l"
  have "dtc_code ` set ?l = dtc_code ` set l"
    unfolding set_map image_image by (rule image_cong) simp_all
  then have "c \<in> dtc_code ` set ?l" using Cons.prems by simp
  from Cons.IH [OF this] show ?case
    using Cons.prems by (auto simp: dtc_spec_def)
qed (simp cong: if_cong)

lemma filter_other_codes:
  "c \<notin> dtc_code ` set l \<Longrightarrow>
   filter (\<lambda>e. dtc_code e = c) (map (\<lambda>e. if dtc_code e = c then g e else e) l) = []"
  by (induction l) auto

text \<open>
  A code that is recorded \<open>n + 1\<close> times in a row has one entry, whose occurrence count is
  \<open>n + 1\<close> capped at 255 and whose freeze frame is the last one. It does not matter what was
  recorded before, as long as the code was not stored.
\<close>

theorem dtc_occurrences_saturate:
  assumes "c \<notin> dtc_code ` set (dtc_view (dtc_run dm es))"
  shows "filter (\<lambda>e. dtc_code e = c) (dtc_view (dtc_run dm (es @ map (Dtc_record c) (ff # ffs)))) =
    [\<lparr>dtc_code = c, occurrence_count = of_nat (min 255 (Suc (length ffs))), freeze = last (ff # ffs)\<rparr>]"
proof -
  let ?e = "\<lparr>dtc_code = c, occurrence_count = 1, freeze = ff\<rparr>"
  let ?l = "dtc_view (dtc_run dm es)"
  let ?l' = "(if length ?l < 16 then ?l else tl ?l)"
  have l': "dtc_spec c ff ?l = ?l' @ [?e]" using assms by (simp add: dtc_spec_def)
  have nc: "c \<notin> dtc_code ` set ?l'" using assms by (cases "?l = []") (auto dest: list.set_sel(2))
  have f: "fold dtc_spec_step (map (Dtc_record c) fs) l = fold (dtc_spec c) fs l" for fs l
    by (induction fs arbitrary: l) simp_all
  have "dtc_view (dtc_run dm (es @ map (Dtc_record c) (ff # ffs))) = fold (dtc_spec c) ffs (dtc_spec c ff ?l)"
    using dtc_fold_refines [OF dtc_run_inv [of dm es], of "map (Dtc_record c) (ff # ffs)"]
    by (simp add: dtc_run_def f)
  also have "\<dots> = map (\<lambda>e. if dtc_code e = c then fold dtc_touch ffs e else e) (?l' @ [?e])"
    unfolding l' by (rule dtc_spec_repeats) simp
  finally have v: "dtc_view (dtc_run dm (es @ map (Dtc_record c) (ff # ffs))) =
    map (\<lambda>e. if dtc_code e = c then fold dtc_touch ffs e else e) (?l' @ [?e])" .
  have "filter (\<lambda>e. dtc_code e = c) (map (\<lambda>e. if dtc_code e = c then fold dtc_touch ffs e else e) ?l') = []"
    by (rule filter_other_codes [OF nc])
  then have "filter (\<lambda>e. dtc_code e = c) (dtc_view (dtc_run dm (es @ map (Dtc_record c) (ff # ffs)))) =
      [fold dtc_touch ffs ?e]"
    unfolding v map_append filter_append by (simp only: append_Nil) simp
  moreover have "fold dtc_touch ffs ?e = \<lparr>dtc_code = c,
      occurrence_count = of_nat (min 255 (Suc (length ffs))), freeze = last (ff # ffs)\<rparr>"
  proof (intro dtc_entry_t.equality)
    show "occurrence_count (fold dtc_touch ffs ?e) = occurrence_count \<lparr>dtc_code = c,
        occurrence_count = of_nat (min 255 (Suc (length ffs))), freeze = last (ff # ffs)\<rparr>"
      using dtc_touches [of ffs ?e] by simp
    show "freeze (fold dtc_touch ffs ?e) = freeze \<lparr>dtc_code = c,
        occurrence_count = of_nat (min 255 (Suc (length ffs))), freeze = last (ff # ffs)\<rparr>"
      using dtc_touch_freeze [of ffs ?e] by (cases "ffs = []") simp_all
  qed simp_all
  ultimately show ?thesis by simp
qed

theorem dtc_occurrences_saturate_witness:
  "filter (\<lambda>e. dtc_code e = 0xE003)
     (dtc_view (dtc_run junk_dtc ([] @ map (Dtc_record 0xE003) (sample_frame # replicate 300 sample_frame)))) =
    [\<lparr>dtc_code = 0xE003, occurrence_count = 255, freeze = sample_frame\<rparr>]"
proof -
  have "0xE003 \<notin> dtc_code ` set (dtc_view (dtc_run junk_dtc []))"
    by (simp add: dtc_run_def dtc_init_inv)
  from dtc_occurrences_saturate [OF this, of sample_frame "replicate 300 sample_frame"] show ?thesis
    by simp
qed

end
