(* ===== verification/Ids.thy ===== *)
theory Ids
  imports Prelude
begin

text \<open>
  The intrusion detection of \<open>ids_engine.c\<close>: per channel a ring of the last 24 accepted ticks
  that limits the rate, and a size anomaly counter. The theorems are about any well-formed engine in
  mixed traffic; \<open>accepted\<close> is how many messages of one channel a log lets through.

  \<^item> \<open>ids_ring\<close> interprets \<open>recency\<close> on the ring of time stamps.
  \<^item> \<open>ideal_accepts\<close> is the rate limit on unbounded time; the engine refines it as long as a run
    stays within the reach of the signed comparison (\<open>ids_refines_ideal\<close>), and only then
    (\<open>ids_lockout\<close>).
\<close>

section \<open>Model\<close>

abbreviation (input) IDS_MAX_CHANNELS :: nat where "IDS_MAX_CHANNELS \<equiv> 4"
abbreviation (input) IDS_RATE_WINDOW_MS :: u32 where "IDS_RATE_WINDOW_MS \<equiv> 1000"
abbreviation (input) IDS_RATE_MAX_MSG :: nat where "IDS_RATE_MAX_MSG \<equiv> 20"

record ids_channel_t =
  ch_data_id :: u16
  timestamps :: "u32 list"
  ts_head :: u8
  ts_count :: u8
  total_msgs :: u32
  total_dropped :: u32
  avg_size :: u32
  anomaly_count :: u32

record ids_engine_t =
  channels :: "ids_channel_t list"
  channel_count :: u8
  total_alerts :: u32

definition zero_channel :: ids_channel_t where
  "zero_channel = \<lparr>ch_data_id = 0, timestamps = replicate 24 0, ts_head = 0, ts_count = 0,
     total_msgs = 0, total_dropped = 0, avg_size = 0, anomaly_count = 0\<rparr>"

definition ids_init :: "ids_engine_t \<Rightarrow> ids_engine_t" where
  "ids_init ids = \<lparr>channels = replicate IDS_MAX_CHANNELS zero_channel, channel_count = 0,
                   total_alerts = 0\<rparr>"

definition ids_register_channel :: "u16 \<Rightarrow> ids_engine_t \<Rightarrow> ids_engine_t" where
  "ids_register_channel did ids =
     (if IDS_MAX_CHANNELS \<le> unat (channel_count ids) then ids
      else ids\<lparr>channels := (channels ids)[unat (channel_count ids) := zero_channel\<lparr>ch_data_id := did\<rparr>],
               channel_count := channel_count ids + 1\<rparr>)"

definition find_channel :: "ids_engine_t \<Rightarrow> u16 \<Rightarrow> nat option" where
  "find_channel ids did =
     find (\<lambda>i. ch_data_id (channels ids ! i) = did) [0..<unat (channel_count ids)]"

definition count_in_window :: "ids_channel_t \<Rightarrow> u32 \<Rightarrow> u8" where
  "count_in_window ch now =
     (let window_start = now - IDS_RATE_WINDOW_MS
      in of_nat (length (filter
           (\<lambda>i. 0 \<le> sint (timestamps ch ! ((unat (ts_head ch) + i) mod 24) - window_start))
           [0..<unat (ts_count ch)])))"

text \<open>The time stamp goes into the slot after the last; a full ring drops its first slot.\<close>

definition ids_record_tick :: "u32 \<Rightarrow> ids_channel_t \<Rightarrow> ids_channel_t" where
  "ids_record_tick tick ch =
     (let slot = (unat (ts_head ch) + unat (ts_count ch)) mod 24;
          ch1 = ch\<lparr>timestamps := (timestamps ch)[slot := tick]\<rparr>
      in if ts_count ch < 24 then ch1\<lparr>ts_count := ts_count ch + 1\<rparr>
         else ch1\<lparr>ts_head := of_nat ((unat (ts_head ch) + 1) mod 24)\<rparr>)"

text \<open>The size check: the channel and whether it raised an alert.\<close>

definition ids_size_check :: "u32 \<Rightarrow> ids_channel_t \<Rightarrow> ids_channel_t \<times> bool" where
  "ids_size_check msg_size ch =
     (if total_msgs ch \<le> 10 then
        (ch\<lparr>avg_size := (avg_size ch * (total_msgs ch - 1) + msg_size) div total_msgs ch\<rparr>, False)
      else
        let alert = (0 < avg_size ch \<and> avg_size ch * 3 < msg_size);
            ch1 = (if alert then ch\<lparr>anomaly_count := anomaly_count ch + 1\<rparr> else ch)
        in (ch1\<lparr>avg_size := (avg_size ch1 * 7 + msg_size) div 8\<rparr>, alert))"

definition ids_check_message ::
  "u16 \<Rightarrow> u32 \<Rightarrow> u32 \<Rightarrow> ids_engine_t \<Rightarrow> bool \<times> ids_engine_t" where
  "ids_check_message did msg_size tick ids =
     (case find_channel ids did of
        None \<Rightarrow> (True, ids)
      | Some k \<Rightarrow>
          let ch1 = (channels ids ! k)\<lparr>total_msgs := total_msgs (channels ids ! k) + 1\<rparr>;
              recent = count_in_window ch1 tick
          in if 20 \<le> recent then
               (False, ids\<lparr>channels := (channels ids)
                             [k := ch1\<lparr>total_dropped := total_dropped ch1 + 1\<rparr>],
                           total_alerts := total_alerts ids + 1\<rparr>)
             else
               let (ch2, alert) = ids_size_check msg_size (ids_record_tick tick ch1)
               in (True, ids\<lparr>channels := (channels ids)[k := ch2],
                             total_alerts := total_alerts ids + (if alert then 1 else 0)\<rparr>))"

definition ids_get_total_alerts :: "ids_engine_t \<Rightarrow> u32" where
  "ids_get_total_alerts ids = total_alerts ids"

definition ids_get_dropped :: "ids_engine_t \<Rightarrow> u16 \<Rightarrow> u32" where
  "ids_get_dropped ids did =
     (case find_channel ids did of None \<Rightarrow> 0 | Some k \<Rightarrow> total_dropped (channels ids ! k))"

section \<open>The ring of time stamps\<close>

definition ch_wf :: "ids_channel_t \<Rightarrow> bool" where
  "ch_wf ch \<longleftrightarrow> length (timestamps ch) = 24 \<and> unat (ts_head ch) < 24 \<and> unat (ts_count ch) \<le> 24"

definition ch_ticks :: "ids_channel_t \<Rightarrow> u32 list" where
  "ch_ticks ch = ring_view 24 (unat (ts_head ch)) (unat (ts_count ch)) (timestamps ch)"

lemma length_ch_ticks [simp]: "length (ch_ticks ch) = unat (ts_count ch)"
  by (simp add: ch_ticks_def)

lemma ids_record_tick_wf: "ch_wf ch \<Longrightarrow> ch_wf (ids_record_tick t ch)"
  by (auto simp: ch_wf_def ids_record_tick_def Let_def word_less_nat_alt unat_word_ariths
      unat_of_nat take_bit_eq_mod)

lemma ids_record_tick_ticks:
  assumes "ch_wf ch"
  shows "ch_ticks (ids_record_tick t ch) =
    (if length (ch_ticks ch) < 24 then ch_ticks ch else tl (ch_ticks ch)) @ [t]"
proof (cases "unat (ts_count ch) < 24")
  case True
  then have "unat (ts_count ch + 1) = Suc (unat (ts_count ch))" by (simp add: unat_word_ariths)
  then have "ch_ticks (ids_record_tick t ch) = ring_view 24 (unat (ts_head ch)) (Suc (unat (ts_count ch)))
      ((timestamps ch)[(unat (ts_head ch) + unat (ts_count ch)) mod 24 := t])"
    using True by (simp add: ch_ticks_def ids_record_tick_def Let_def word_less_nat_alt)
  then show ?thesis
    using True assms by (simp add: ring_view_grow ch_wf_def ch_ticks_def)
next
  case False
  then have c: "unat (ts_count ch) = 24" using assms by (simp add: ch_wf_def)
  then have "ch_ticks (ids_record_tick t ch) =
      ring_view 24 ((unat (ts_head ch) + 1) mod 24) 24 ((timestamps ch)[unat (ts_head ch) := t])"
    using assms
    by (simp add: ch_ticks_def ids_record_tick_def Let_def word_less_nat_alt ch_wf_def
        unat_of_nat take_bit_eq_mod)
  also have "\<dots> = tl (ring_view 24 (unat (ts_head ch)) 24 (timestamps ch)) @ [t]"
    using assms by (intro ring_view_slide) (simp_all add: ch_wf_def)
  finally show ?thesis using c by (simp add: ch_ticks_def)
qed

interpretation ids_ring: recency ch_ticks ids_record_tick ch_wf 24
  by unfold_locales (auto simp: ids_record_tick_wf ids_record_tick_ticks, simp add: ch_wf_def)

text \<open>The counter of the window loop cannot wrap.\<close>

lemma count_in_window_ticks:
  assumes "ch_wf ch"
  shows "unat (count_in_window ch now) =
    length (filter (\<lambda>t. 0 \<le> sint (t - (now - 1000))) (ch_ticks ch))"
proof -
  let ?P = "\<lambda>t. 0 \<le> sint (t - (now - 1000))"
  have "length (filter ?P (ch_ticks ch)) \<le> 24"
    using length_filter_le [of ?P "ch_ticks ch"] assms by (simp add: ch_wf_def)
  then show ?thesis
    by (simp add: count_in_window_def Let_def ch_ticks_def ring_view_def filter_map comp_def
        unat_of_nat_small)
qed

lemma ids_size_check_ticks [simp]:
  "ch_ticks (fst (ids_size_check sz ch)) = ch_ticks ch" "ch_wf (fst (ids_size_check sz ch)) = ch_wf ch"
  "ch_data_id (fst (ids_size_check sz ch)) = ch_data_id ch"
  by (simp_all add: ids_size_check_def Let_def ch_ticks_def ch_wf_def)

section \<open>One message\<close>

definition ids_wf :: "ids_engine_t \<Rightarrow> bool" where
  "ids_wf ids \<longleftrightarrow> length (channels ids) = 4 \<and> unat (channel_count ids) \<le> 4 \<and>
     (\<forall>ch\<in>set (channels ids). ch_wf ch)"

text \<open>The ticks the engine remembers for a data id.\<close>

definition ids_ticks :: "ids_engine_t \<Rightarrow> u16 \<Rightarrow> u32 list" where
  "ids_ticks ids did =
     (case find_channel ids did of None \<Rightarrow> [] | Some k \<Rightarrow> ch_ticks (channels ids ! k))"

definition window_load :: "u32 \<Rightarrow> u32 list \<Rightarrow> nat" where
  "window_load now ts = length (filter (\<lambda>t. 0 \<le> sint (t - (now - 1000))) ts)"

lemma find_channel_Some:
  "find_channel ids did = Some k \<Longrightarrow> k < unat (channel_count ids) \<and> ch_data_id (channels ids ! k) = did"
  by (auto simp: find_channel_def find_Some_iff)

lemma find_channel_update:
  assumes "ch_data_id ch = ch_data_id (channels ids ! k)"
  shows "find_channel (ids\<lparr>channels := (channels ids)[k := ch], total_alerts := n\<rparr>) did = find_channel ids did"
proof -
  have "ch_data_id ((channels ids)[k := ch] ! i) = ch_data_id (channels ids ! i)" for i
    using assms by (cases "k < length (channels ids)") (auto simp: nth_list_update list_update_beyond)
  then show ?thesis by (simp add: find_channel_def)
qed

lemma ids_update_ticks:
  fixes n :: u32
  assumes "ids_wf ids" "find_channel ids did = Some k" "ch_data_id ch = did" "ch_wf ch"
  defines "ids' \<equiv> ids\<lparr>channels := (channels ids)[k := ch], total_alerts := n\<rparr>"
  shows "ids_wf ids' \<and> find_channel ids' did' = find_channel ids did' \<and>
    ids_ticks ids' did' = (if did' = did then ch_ticks ch else ids_ticks ids did')"
proof -
  have k: "k < length (channels ids)" "ch_data_id (channels ids ! k) = did"
    using find_channel_Some [OF assms(2)] assms(1) by (auto simp: ids_wf_def)
  have f: "find_channel ids' x = find_channel ids x" for x
    unfolding ids'_def by (rule find_channel_update) (simp add: k assms(3))
  have other: "(channels ids)[k := ch] ! j = channels ids ! j" if "find_channel ids did' = Some j" "did' \<noteq> did" for j
    using that find_channel_Some [OF that(1)] k by (intro nth_list_update_neq) auto
  have "ids_wf ids'"
    using assms(1,4) by (auto simp: ids_wf_def ids'_def dest: set_update_subset_insert [THEN subsetD])
  moreover have "ids_ticks ids' did' = (if did' = did then ch_ticks ch else ids_ticks ids did')"
    using k other assms(2) by (auto simp: ids_ticks_def f) (auto simp: ids'_def split: option.splits)
  ultimately show ?thesis by (simp add: f)
qed

text \<open>What a message does to a registered channel, and that it does nothing to the others.\<close>

lemma ids_check_effect:
  fixes t sz :: u32
  assumes wf: "ids_wf ids" and k: "find_channel ids did = Some k"
  defines "l \<equiv> ids_ticks ids did" and "r \<equiv> ids_check_message did sz t ids"
  shows "fst r \<longleftrightarrow> window_load t l < 20"
    and "ids_wf (snd r) \<and> find_channel (snd r) did' = find_channel ids did' \<and>
      ids_ticks (snd r) did' =
        (if did' \<noteq> did then ids_ticks ids did'
         else if window_load t l < 20 then (if length l < 24 then l else tl l) @ [t] else l)"
proof -
  let ?ch = "channels ids ! k"
  let ?ch1 = "?ch\<lparr>total_msgs := total_msgs ?ch + 1\<rparr>"
  have ch: "ch_wf ?ch" "ch_data_id ?ch = did" "l = ch_ticks ?ch"
    using find_channel_Some [OF k] wf k by (auto simp: ids_wf_def l_def ids_ticks_def)
  have ch1: "ch_wf ?ch1" "ch_ticks ?ch1 = l" "ch_data_id ?ch1 = did"
    using ch by (simp_all add: ch_wf_def ch_ticks_def)
  have full: "20 \<le> count_in_window ?ch1 t \<longleftrightarrow> \<not> window_load t l < 20"
    using count_in_window_ticks [OF ch1(1), of t] ch1(2) by (simp add: word_le_nat_alt window_load_def not_less)
  show "fst r \<longleftrightarrow> window_load t l < 20"
    using full k by (simp add: r_def ids_check_message_def Let_def case_prod_beta)
  show "ids_wf (snd r) \<and> find_channel (snd r) did' = find_channel ids did' \<and>
      ids_ticks (snd r) did' =
        (if did' \<noteq> did then ids_ticks ids did'
         else if window_load t l < 20 then (if length l < 24 then l else tl l) @ [t] else l)"
  proof (cases "window_load t l < 20")
    case True
    let ?c = "ids_size_check sz (ids_record_tick t ?ch1)"
    have "snd r = ids\<lparr>channels := (channels ids)[k := fst ?c],
        total_alerts := total_alerts ids + (if snd ?c then 1 else 0)\<rparr>"
      using True full k by (simp add: r_def ids_check_message_def Let_def case_prod_beta)
    moreover have "ch_data_id (ids_record_tick t ?ch1) = did"
      using ch1 by (simp add: ids_record_tick_def Let_def)
    ultimately show ?thesis
      using ids_update_ticks [OF wf k, of "fst ?c"] True ch1
      by (simp add: ids_record_tick_wf ids_record_tick_ticks)
  next
    case False
    let ?c = "?ch1\<lparr>total_dropped := total_dropped ?ch1 + 1\<rparr>"
    have "snd r = ids\<lparr>channels := (channels ids)[k := ?c], total_alerts := total_alerts ids + 1\<rparr>"
      using False full k by (simp add: r_def ids_check_message_def Let_def)
    moreover have "ch_wf ?c" "ch_ticks ?c = l" "ch_data_id ?c = did"
      using ch by (simp_all add: ch_wf_def ch_ticks_def)
    ultimately show ?thesis using ids_update_ticks [OF wf k, of ?c] False by simp
  qed
qed

section \<open>Registration\<close>

definition ids_registered :: "u16 list \<Rightarrow> ids_engine_t \<Rightarrow> ids_engine_t" where
  "ids_registered dids ids = fold ids_register_channel dids (ids_init ids)"

lemma ids_registered_eq:
  "ids_registered dids ids =
     \<lparr>channels = map (\<lambda>d. zero_channel\<lparr>ch_data_id := d\<rparr>) (take 4 dids) @
        replicate (4 - length dids) zero_channel,
      channel_count = of_nat (min 4 (length dids)), total_alerts = 0\<rparr>"
proof (induction dids rule: rev_induct)
  case Nil
  then show ?case by (simp add: ids_registered_def ids_init_def)
next
  case (snoc d dids)
  have reg: "ids_registered (dids @ [d]) ids = ids_register_channel d (ids_registered dids ids)"
    by (simp add: ids_registered_def)
  have cnt: "unat (of_nat (min 4 (length dids)) :: u8) = min 4 (length dids)"
    by (rule unat_of_nat_small) simp
  show ?case
  proof (cases "length dids < 4")
    case True
    then have "replicate (4 - length dids) zero_channel = zero_channel # replicate (4 - Suc (length dids)) zero_channel"
      by (simp add: Suc_diff_Suc [symmetric] flip: replicate_Suc)
    then show ?thesis
      using True cnt unfolding reg snoc.IH
      by (simp add: ids_register_channel_def list_update_append min_absorb2)
  next
    case False
    then show ?thesis
      using cnt unfolding reg snoc.IH by (simp add: ids_register_channel_def min_absorb1)
  qed
qed

lemma ids_registered_wf: "ids_wf (ids_registered dids ids)"
  by (auto simp: ids_registered_eq ids_wf_def ch_wf_def zero_channel_def unat_of_nat_small)

lemma ids_registered_find:
  assumes "did \<in> set (take 4 dids)"
  shows "\<exists>k. find_channel (ids_registered dids ids) did = Some k"
proof (rule ccontr)
  have cnt: "unat (of_nat (min 4 (length dids)) :: u8) = min 4 (length dids)"
    by (rule unat_of_nat_small) simp
  assume "\<not> ?thesis"
  then have "find_channel (ids_registered dids ids) did = None" by simp
  then have "\<forall>i < min 4 (length dids). dids ! i \<noteq> did"
    by (auto simp: find_channel_def find_None_iff ids_registered_eq cnt nth_append)
  then show False using assms by (auto simp: in_set_conv_nth)
qed

lemma ids_registered_ticks: "ids_ticks (ids_registered dids ids) did = []"
proof (cases "find_channel (ids_registered dids ids) did")
  case (Some k)
  have "k < min 4 (length dids)"
    using find_channel_Some [OF Some] by (simp add: ids_registered_eq unat_of_nat_small)
  then show ?thesis
    using Some by (simp add: ids_ticks_def)
      (simp add: ids_registered_eq ch_ticks_def nth_append zero_channel_def ring_view_def)
qed (simp add: ids_ticks_def)

section \<open>The rate limit on unbounded time\<close>

text \<open>
  Accept a message when fewer than twenty were accepted in the second before it; times are
  natural numbers.
\<close>

fun ideal_accepts :: "nat list \<Rightarrow> nat list \<Rightarrow> nat list" where
  "ideal_accepts acc [] = acc"
| "ideal_accepts acc (t # ts) =
     ideal_accepts (if length (filter (\<lambda>a. t \<le> a + 1000) acc) < 20 then acc @ [t] else acc) ts"

text \<open>The times that the engine accepts, given messages as times and sizes.\<close>

fun ids_accepts :: "u16 \<Rightarrow> ids_engine_t \<Rightarrow> nat list \<Rightarrow> (nat \<times> u32) list \<Rightarrow> nat list" where
  "ids_accepts did ids acc [] = acc"
| "ids_accepts did ids acc ((t, sz) # ms) =
     (let (ok, ids') = ids_check_message did sz (of_nat t) ids
      in ids_accepts did ids' (if ok then acc @ [t] else acc) ms)"

lemma sint_word_of_int_small:
  assumes "- (2 ^ 31) \<le> x" "x < 2 ^ 31"
  shows "sint (word_of_int x :: u32) = x"
proof -
  have "sint (word_of_int x :: u32) = signed_take_bit 31 (take_bit 32 x)"
    by (simp add: sint_uint uint_word_of_int_eq)
  also have "\<dots> = signed_take_bit 31 x" by (simp add: signed_take_bit_take_bit)
  finally show ?thesis using assms by (simp add: signed_take_bit_int_eq_self)
qed

text \<open>The signed comparison of the window, for ages below \<open>2^31 + 1000\<close> ms.\<close>

lemma in_window_iff:
  assumes "a \<le> t" "t \<le> a + 2147484648"
  shows "0 \<le> sint (of_nat a - (of_nat t - 1000) :: u32) \<longleftrightarrow> t \<le> a + 1000"
proof -
  have "of_nat a - (of_nat t - 1000 :: u32) = word_of_int (int a - int t + 1000)"
    by simp
  then have "sint (of_nat a - (of_nat t - 1000) :: u32) = int a - int t + 1000"
    using assms by (simp only:) (rule sint_word_of_int_small, simp_all)
  then show ?thesis by auto
qed

text \<open>Of sorted times, the last twenty-four decide whether twenty are recent.\<close>

lemma recent_suffix:
  assumes "sorted (xs @ ys :: nat list)"
  shows "length (filter (\<lambda>a. t \<le> a + 1000) (xs @ ys)) = length (filter (\<lambda>a. t \<le> a + 1000) ys) \<or>
    filter (\<lambda>a. t \<le> a + 1000) ys = ys"
proof (cases "filter (\<lambda>a. t \<le> a + 1000) xs = []")
  case False
  then obtain a where "a \<in> set xs" "t \<le> a + 1000" by (auto simp: filter_empty_conv)
  then have "\<forall>b\<in>set ys. t \<le> b + 1000" using assms by (fastforce simp: sorted_append)
  then show ?thesis by (simp add: filter_id_conv)
qed simp

lemma recent_last24:
  assumes "sorted (acc :: nat list)"
  shows "length (filter (\<lambda>a. t \<le> a + 1000) (drop (length acc - 24) acc)) < 20 \<longleftrightarrow>
    length (filter (\<lambda>a. t \<le> a + 1000) acc) < (20 :: nat)"
proof (cases "length acc \<le> 24")
  case False
  have "length (filter (\<lambda>a. t \<le> a + 1000) (drop (length acc - 24) acc)) \<le>
      length (filter (\<lambda>a. t \<le> a + 1000) acc)"
    by (metis append_take_drop_id filter_append le_add2 length_append)
  moreover have "length (filter (\<lambda>a. t \<le> a + 1000) acc) = length (filter (\<lambda>a. t \<le> a + 1000) (drop (length acc - 24) acc))
      \<or> length (filter (\<lambda>a. t \<le> a + 1000) (drop (length acc - 24) acc)) = 24"
    using recent_suffix [of "take (length acc - 24) acc" "drop (length acc - 24) acc" t] assms False
    by auto
  ultimately show ?thesis by linarith
qed simp

lemma ids_accepts_ideal:
  assumes "ids_wf ids" "find_channel ids did \<noteq> None"
    and "ids_ticks ids did = map of_nat (drop (length acc - 24) acc)"
    and "sorted (acc @ map fst ms)" "\<forall>t\<in>set (acc @ map fst ms). lo \<le> t \<and> t \<le> lo + 2147484648"
  shows "ids_accepts did ids acc ms = ideal_accepts acc (map fst ms)"
  using assms
proof (induction ms arbitrary: ids acc)
  case (Cons m ms)
  obtain t sz where m: "m = (t, sz)" by fastforce
  obtain k where k: "find_channel ids did = Some k" using Cons.prems(2) by auto
  let ?r = "ids_check_message did sz (of_nat t) ids"
  let ?acc = "if fst ?r then acc @ [t] else acc"
  have t: "a \<le> t" "t \<le> a + 2147484648" if "a \<in> set acc" for a
  proof -
    show "a \<le> t" using that Cons.prems(4) m by (auto simp: sorted_append)
    have "lo \<le> a" "t \<le> lo + 2147484648" using that Cons.prems(5) m by auto
    then show "t \<le> a + 2147484648" by linarith
  qed
  have "window_load (of_nat t) (ids_ticks ids did) =
      length (filter (\<lambda>a. t \<le> a + 1000) (drop (length acc - 24) acc))"
    using t in_set_dropD [of _ "length acc - 24" acc]
    by (auto simp: window_load_def Cons.prems(3) filter_map comp_def in_window_iff cong: filter_cong)
  then have load: "window_load (of_nat t) (ids_ticks ids did) < 20 \<longleftrightarrow>
      length (filter (\<lambda>a. t \<le> a + 1000) acc) < 20"
    using recent_last24 [of acc t] Cons.prems(4) by (simp add: sorted_append)
  note eff = ids_check_effect [OF Cons.prems(1) k, of sz "of_nat t"]
  let ?d = "drop (length acc - 24) acc"
  have keep: "(if length ?d < 24 then ?d else tl ?d) @ [t] = drop (length (acc @ [t]) - 24) (acc @ [t])"
    using drop_last_snoc [of 24 acc t] by (auto simp: tl_drop drop_Suc Suc_diff_le)
  have "ids_ticks (snd ?r) did =
      (if fst ?r then (if length ?d < 24 then map of_nat ?d else tl (map of_nat ?d)) @ [of_nat t] else map of_nat ?d)"
    using eff(1) eff(2) [of did] Cons.prems(3) by simp
  also have "\<dots> = map of_nat (if fst ?r then (if length ?d < 24 then ?d else tl ?d) @ [t] else ?d)"
    by (simp add: map_tl)
  finally have ticks: "ids_ticks (snd ?r) did = map of_nat (drop (length ?acc - 24) ?acc)"
    unfolding keep by simp
  have "sorted (?acc @ map fst ms)" "\<forall>t\<in>set (?acc @ map fst ms). lo \<le> t \<and> t \<le> lo + 2147484648"
    using Cons.prems(4,5) m by (auto simp: sorted_append)
  from Cons.IH [OF _ _ ticks this] show ?case
    using eff load k by (simp add: m case_prod_beta)
qed simp

section \<open>Properties\<close>

definition app_ids :: ids_engine_t where
  "app_ids = ids_registered [0x2010, 0x2011] \<lparr>channels = [], channel_count = 77, total_alerts = 77\<rparr>"

text \<open>
  C18: for messages in the order of their times, over any span of up to \<open>2^31 + 1000\<close> ms and
  whatever the tick counter is at its start, the engine accepts on a registered channel exactly
  the messages that the ideal limiter on unbounded time accepts.
\<close>

theorem ids_refines_ideal:
  assumes "did \<in> set (take 4 dids)" "sorted (map fst ms)"
    and "\<forall>t\<in>set (map fst ms). lo \<le> t \<and> t \<le> lo + 2147484648"
  shows "ids_accepts did (ids_registered dids ids) [] ms = ideal_accepts [] (map fst ms)"
  using assms
  by (intro ids_accepts_ideal) (simp_all add: ids_registered_wf ids_registered_find ids_registered_ticks)

theorem ids_refines_ideal_witness:
  "ids_accepts 0x2011 app_ids [] [(4294967290, 60), (4294967300, 60), (4294968000, 60)] =
     [4294967290, 4294967300, 4294968000]"
proof -
  have "ids_accepts 0x2011 app_ids [] [(4294967290, 60), (4294967300, 60), (4294968000, 60)] =
      ideal_accepts [] (map fst [(4294967290 :: nat, 60 :: u32), (4294967300, 60), (4294968000, 60)])"
    unfolding app_ids_def by (rule ids_refines_ideal [where lo = 4294967290]) simp_all
  then show ?thesis by simp
qed

text \<open>Traffic on any channels: data id, time and size; and what the engine accepts of it.\<close>

fun ids_log :: "ids_engine_t \<Rightarrow> (u16 \<times> nat \<times> u32) list \<Rightarrow> (u16 \<times> nat) list" where
  "ids_log ids [] = []"
| "ids_log ids ((did, t, sz) # ms) =
     (let (ok, ids') = ids_check_message did sz (of_nat t) ids
      in (if ok then [(did, t)] else []) @ ids_log ids' ms)"

definition accepted :: "u16 \<Rightarrow> ids_engine_t \<Rightarrow> (u16 \<times> nat \<times> u32) list \<Rightarrow> nat list" where
  "accepted did ids ms = map snd (filter (\<lambda>m. fst m = did) (ids_log ids ms))"

fun ids_after :: "ids_engine_t \<Rightarrow> (u16 \<times> nat \<times> u32) list \<Rightarrow> ids_engine_t" where
  "ids_after ids [] = ids"
| "ids_after ids ((did, t, sz) # ms) = ids_after (snd (ids_check_message did sz (of_nat t) ids)) ms"

lemma accepted_simps [simp]:
  "accepted did ids [] = []"
  "accepted did ids ((d, t, sz) # ms) =
     (if d = did \<and> fst (ids_check_message d sz (of_nat t) ids) then [t] else []) @
     accepted did (snd (ids_check_message d sz (of_nat t) ids)) ms"
  by (simp_all add: accepted_def case_prod_beta Let_def)


text \<open>
  Of the times that were accepted on a channel, the engine remembers the last twenty-four, behind
  what it remembered before.
\<close>

definition remembers :: "u16 \<Rightarrow> ids_engine_t \<Rightarrow> nat list \<Rightarrow> bool" where
  "remembers did ids acc \<longleftrightarrow> ids_wf ids \<and> find_channel ids did \<noteq> None \<and>
     (\<exists>pre. ids_ticks ids did = pre @ map of_nat (drop (length acc - 24) acc))"

lemma remembers_start: "ids_wf ids \<Longrightarrow> find_channel ids did \<noteq> None \<Longrightarrow> remembers did ids []"
  by (simp add: remembers_def)

lemma ticks_bound: "ids_wf ids \<Longrightarrow> length (ids_ticks ids did) \<le> 24"
  by (cases "find_channel ids did")
     (auto simp: ids_ticks_def ids_wf_def ch_wf_def dest!: find_channel_Some)

lemma remembers_step:
  assumes "remembers did ids acc"
  shows "remembers did (snd (ids_check_message d sz (of_nat t) ids))
    (acc @ (if d = did \<and> fst (ids_check_message d sz (of_nat t) ids) then [t] else []))"
proof (cases "find_channel ids d")
  case None
  then have "d \<noteq> did" using assms by (auto simp: remembers_def)
  then show ?thesis using assms None by (simp add: ids_check_message_def)
next
  case (Some k)
  let ?r = "ids_check_message d sz (of_nat t) ids"
  let ?keep = "drop (length acc - 24) acc"
  obtain pre where pre: "ids_ticks ids did = pre @ map of_nat ?keep" and wf: "ids_wf ids"
    and f: "find_channel ids did \<noteq> None" using assms by (auto simp: remembers_def)
  have eff: "ids_wf (snd ?r)" "find_channel (snd ?r) did \<noteq> None"
    "ids_ticks (snd ?r) did = (if did \<noteq> d \<or> \<not> fst ?r then ids_ticks ids did
       else (if length (ids_ticks ids did) < 24 then ids_ticks ids did else tl (ids_ticks ids did)) @ [of_nat t])"
    using ids_check_effect [OF wf Some, of sz "of_nat t"] f by auto
  have l: "length pre + length ?keep \<le> 24" using ticks_bound [OF wf, of did] pre by simp
  show ?thesis
  proof (cases "d = did \<and> fst ?r")
    case True
    have "ids_ticks (snd ?r) did = (if length (pre @ map of_nat ?keep) < 24 then pre @ map of_nat ?keep
        else tl (pre @ map of_nat ?keep)) @ [of_nat t]"
      unfolding eff(3) pre using True by auto
    moreover have "\<exists>pre'. (if length (pre @ map of_nat ?keep) < 24 then pre @ map of_nat ?keep
        else tl (pre @ map of_nat ?keep)) @ [of_nat t] =
      pre' @ (map of_nat (drop (length (acc @ [t]) - 24) (acc @ [t])) :: u32 list)"
    proof (cases "length acc < 24")
      case True
      then show ?thesis
        using l by (cases pre) (auto intro: exI [of _ pre])
    next
      case False
      then have "pre = []" "?keep \<noteq> []" using l by auto
      then show ?thesis
        using False drop_last_snoc [of 24 acc t]
        by (auto simp: tl_drop drop_Suc Suc_diff_le simp flip: map_tl)
    qed
    ultimately show ?thesis using True eff(1,2) unfolding remembers_def by auto
  next
    case False
    then show ?thesis using eff pre by (auto simp: remembers_def)
  qed
qed


text \<open>Acceptance on a registered channel is a matter of the window.\<close>

lemma accepted_load:
  assumes "remembers did ids acc" "fst (ids_check_message did sz (of_nat t) ids)"
  shows "window_load (of_nat t) (map of_nat (drop (length acc - 24) acc)) < 20"
proof -
  obtain k pre where k: "find_channel ids did = Some k" "ids_wf ids"
    "ids_ticks ids did = pre @ map of_nat (drop (length acc - 24) acc)"
    using assms(1) by (auto simp: remembers_def)
  have "window_load (of_nat t) (ids_ticks ids did) < 20" using ids_check_effect(1) [OF k(2,1)] assms(2) by simp
  then show ?thesis by (simp add: k(3) window_load_def)
qed

definition in_second :: "nat \<Rightarrow> nat list \<Rightarrow> nat" where
  "in_second n l = length (filter (\<lambda>a. n \<le> a + 1000 \<and> a \<le> n) l)"

lemma length_filter_mono:
  "(\<And>x. x \<in> set xs \<Longrightarrow> P x \<Longrightarrow> Q x) \<Longrightarrow> length (filter P xs) \<le> length (filter Q xs)"
  by (induction xs) auto

lemma in_second_snoc:
  assumes "\<forall>a\<in>set acc. a \<le> t" "length (filter (\<lambda>a. t \<le> a + 1000) acc) < 20" "in_second n acc \<le> 20"
  shows "in_second n (acc @ [t]) \<le> 20"
proof (cases "n \<le> t + 1000 \<and> t \<le> n")
  case True
  then have "length (filter (\<lambda>a. n \<le> a + 1000 \<and> a \<le> n) acc) \<le> length (filter (\<lambda>a. t \<le> a + 1000) acc)"
    by (intro length_filter_mono) auto
  with assms(2) True show ?thesis by (simp add: in_second_def)
next
  case False
  then show ?thesis using assms(3) by (auto simp: in_second_def)
qed

lemma accepted_in_second:
  assumes "remembers did ids acc" "sorted (acc @ map (\<lambda>m. fst (snd m)) ms)"
    and "\<forall>t\<in>set (acc @ map (\<lambda>m. fst (snd m)) ms). lo \<le> t \<and> t \<le> lo + 2147484648" "\<forall>n. in_second n acc \<le> 20"
  shows "in_second n (acc @ accepted did ids ms) \<le> 20"
  using assms
proof (induction ids ms arbitrary: acc rule: ids_after.induct)
  case (2 ids d t sz ms)
  let ?r = "ids_check_message d sz (of_nat t) ids"
  let ?new = "if d = did \<and> fst ?r then [t] else []"
  have le: "a \<le> t" "t \<le> a + 2147484648" if "a \<in> set acc" for a
  proof -
    show "a \<le> t" using that "2.prems"(2) by (auto simp: sorted_append)
    have "lo \<le> a" "t \<le> lo + 2147484648" using that "2.prems"(3) by auto
    then show "t \<le> a + 2147484648" by linarith
  qed
  have "\<forall>n. in_second n (acc @ ?new) \<le> 20"
  proof (cases "d = did \<and> fst ?r")
    case True
    then have "window_load (of_nat t) (map of_nat (drop (length acc - 24) acc)) < 20"
      by (intro accepted_load [OF "2.prems"(1), where sz = sz]) auto
    moreover have "window_load (of_nat t) (map of_nat (drop (length acc - 24) acc)) =
        length (filter (\<lambda>a. t \<le> a + 1000) (drop (length acc - 24) acc))"
      using le in_set_dropD [of _ "length acc - 24" acc]
      by (auto simp: window_load_def filter_map comp_def in_window_iff cong: filter_cong)
    ultimately have "length (filter (\<lambda>a. t \<le> a + 1000) acc) < 20"
      using recent_last24 [of acc t] "2.prems"(2) by (simp add: sorted_append)
    then show ?thesis using True in_second_snoc le(1) "2.prems"(4) by simp
  next
    case False
    then show ?thesis using "2.prems"(4) by auto
  qed
  moreover have "sorted ((acc @ ?new) @ map (\<lambda>m. fst (snd m)) ms)"
    using "2.prems"(2) by (auto simp: sorted_append)
  moreover have "\<forall>t\<in>set ((acc @ ?new) @ map (\<lambda>m. fst (snd m)) ms). lo \<le> t \<and> t \<le> lo + 2147484648"
    using "2.prems"(3) by auto
  ultimately show ?case using "2.IH" [OF remembers_step [OF "2.prems"(1), of d sz t]] by simp
qed simp

text \<open>
  C19: take an engine in any well-formed state and traffic on any channels, registered or not, whose
  times are sorted and span at most \<open>2^31 + 1000\<close> ms (24.8 days). Then of the messages of any one
  registered channel no second sees more than twenty accepted: for every instant \<open>n\<close>, at most twenty
  of their accepted times lie in \<open>[n - 1000, n]\<close>.
\<close>

theorem ids_rate_bound:
  assumes "ids_wf ids" "find_channel ids did \<noteq> None" "sorted (map (\<lambda>m. fst (snd m)) ms)"
    and "\<forall>t\<in>set (map (\<lambda>m. fst (snd m)) ms). lo \<le> t \<and> t \<le> lo + 2147484648"
  shows "in_second n (accepted did ids ms) \<le> 20"
  using accepted_in_second [OF remembers_start [OF assms(1,2)], of ms lo n] assms(3,4)
  by (simp add: in_second_def)

theorem ids_rate_bound_witness:
  "in_second 1000 (accepted 0x2010 app_ids (map (\<lambda>i. (if even i then 0x2010 else 0x7777, 10 * i, 60)) [0..<80])) \<le> 20"
proof -
  have "ids_wf app_ids" unfolding app_ids_def by (rule ids_registered_wf)
  moreover have "find_channel app_ids 0x2010 \<noteq> None"
    unfolding app_ids_def using ids_registered_find [of "0x2010" "[0x2010, 0x2011]"] by auto
  ultimately show ?thesis by (rule ids_rate_bound [where lo = 0]) (auto simp: sorted_iff_nth_mono)
qed






text \<open>
  The channels are independent: a message on one data id never changes the verdict on a
  message of another, and a message on a data id that is not registered is accepted and leaves
  no trace.
\<close>

theorem ids_isolation:
  assumes "ids_wf ids"
  shows "(did' \<noteq> did \<longrightarrow>
      fst (ids_check_message did' sz' t' (snd (ids_check_message did sz t ids))) =
      fst (ids_check_message did' sz' t' ids)) \<and>
    (find_channel ids did = None \<longrightarrow> ids_check_message did sz t ids = (True, ids))"
proof (cases "find_channel ids did")
  case None
  then show ?thesis by (simp add: ids_check_message_def)
next
  case (Some k)
  note eff = ids_check_effect(2) [OF assms Some, of sz t]
  let ?s = "snd (ids_check_message did sz t ids)"
  have "fst (ids_check_message did' sz' t' ?s) = fst (ids_check_message did' sz' t' ids)" if "did' \<noteq> did"
  proof (cases "find_channel ids did'")
    case None
    then show ?thesis using eff [of did'] by (simp add: ids_check_message_def)
  next
    case (Some j)
    then show ?thesis
      using eff [of did'] that ids_check_effect(1) [OF assms Some] ids_check_effect(1) [of ?s did' j]
      by simp
  qed
  then show ?thesis using Some by simp
qed

theorem ids_isolation_witness:
  "fst (ids_check_message 0x2011 60 5 (snd (ids_check_message 0x2010 60 5 app_ids))) =
     fst (ids_check_message 0x2011 60 5 app_ids)"
proof -
  have "ids_wf app_ids" unfolding app_ids_def by (rule ids_registered_wf)
  from ids_isolation [OF this, of "0x2011" "0x2010" 60 5 60 5] show ?thesis by simp
qed

end
