(* ===== verification/Flow.thy ===== *)
theory Flow
  imports Prelude
begin

text \<open>
  The flow monitor of \<open>flow_monitor.c\<close>: the checkpoint mask of a publish cycle and the deadline
  of the actuator commands.
\<close>

section \<open>Model\<close>

datatype flow_checkpoint_t = CP_SENSOR_READ | CP_E2E_ENCODE | CP_SECOC_ENCODE | CP_PUBLISH | CP_COUNT

primrec cp_num :: "flow_checkpoint_t \<Rightarrow> nat" where
  "cp_num CP_SENSOR_READ = 0"
| "cp_num CP_E2E_ENCODE = 1"
| "cp_num CP_SECOC_ENCODE = 2"
| "cp_num CP_PUBLISH = 3"
| "cp_num CP_COUNT = 4"

abbreviation (input) FLOW_ACTUATOR_DEADLINE_MS :: u32 where "FLOW_ACTUATOR_DEADLINE_MS \<equiv> 10000"

record flow_monitor_t =
  checkpoints_hit :: u8
  last_actuator_tick :: u32
  total_flow_errors :: u32
  total_deadline_misses :: u32
  deadline_active :: bool

definition flow_init :: "flow_monitor_t \<Rightarrow> flow_monitor_t" where
  "flow_init fm = \<lparr>checkpoints_hit = 0, last_actuator_tick = 0, total_flow_errors = 0,
                  total_deadline_misses = 0, deadline_active = False\<rparr>"

definition flow_checkpoint :: "flow_checkpoint_t \<Rightarrow> flow_monitor_t \<Rightarrow> flow_monitor_t" where
  "flow_checkpoint cp fm =
     (if cp_num cp < 4
      then fm\<lparr>checkpoints_hit := checkpoints_hit fm OR push_bit (cp_num cp) 1\<rparr> else fm)"

definition flow_verify_cycle :: "flow_monitor_t \<Rightarrow> bool \<times> flow_monitor_t" where
  "flow_verify_cycle fm =
     (let expected = push_bit 4 1 - 1;
          ok = (checkpoints_hit fm = expected);
          fm1 = (if ok then fm else fm\<lparr>total_flow_errors := total_flow_errors fm + 1\<rparr>)
      in (ok, fm1\<lparr>checkpoints_hit := 0\<rparr>))"

definition flow_actuator_received :: "u32 \<Rightarrow> flow_monitor_t \<Rightarrow> flow_monitor_t" where
  "flow_actuator_received tick fm = fm\<lparr>last_actuator_tick := tick, deadline_active := True\<rparr>"

definition flow_check_deadline :: "u32 \<Rightarrow> flow_monitor_t \<Rightarrow> bool \<times> flow_monitor_t" where
  "flow_check_deadline current_tick fm =
     (if \<not> deadline_active fm then (True, fm)
      else let elapsed = current_tick - last_actuator_tick fm
           in if FLOW_ACTUATOR_DEADLINE_MS < elapsed
              then (False, fm\<lparr>total_deadline_misses := total_deadline_misses fm + 1\<rparr>)
              else (True, fm))"

definition flow_get_errors :: "flow_monitor_t \<Rightarrow> u32" where
  "flow_get_errors fm = total_flow_errors fm"

definition flow_get_deadline_misses :: "flow_monitor_t \<Rightarrow> u32" where
  "flow_get_deadline_misses fm = total_deadline_misses fm"

section \<open>The checkpoint mask\<close>

text \<open>Bit \<open>i\<close> of the mask says that checkpoint \<open>i\<close> was hit since the last verification.\<close>

lemma bit_checkpoints:
  "bit (checkpoints_hit (fold flow_checkpoint cps fm)) i \<longleftrightarrow>
     bit (checkpoints_hit fm) i \<or> (i < 4 \<and> i \<in> cp_num ` set cps)"
proof (induction cps arbitrary: fm)
  case (Cons cp cps)
  have "bit (checkpoints_hit (flow_checkpoint cp fm)) i \<longleftrightarrow>
      bit (checkpoints_hit fm) i \<or> (i = cp_num cp \<and> i < 4)"
    by (auto simp: flow_checkpoint_def bit_or_iff bit_exp_iff possible_bit_word)
  then show ?case using Cons.IH by auto
qed simp

lemma checkpoints_small:
  assumes "\<And>i. bit (checkpoints_hit fm) i \<Longrightarrow> i < 4"
  shows "\<And>i. bit (checkpoints_hit (fold flow_checkpoint cps fm)) i \<Longrightarrow> i < 4"
  using assms by (auto simp: bit_checkpoints)

lemma mask_full_iff:
  assumes "\<And>i. bit (w :: u8) i \<Longrightarrow> i < 4"
  shows "w = push_bit 4 1 - 1 \<longleftrightarrow> (\<forall>i<4. bit w i)"
proof -
  have m: "push_bit 4 1 - 1 = (mask 4 :: u8)" by (simp add: mask_eq_exp_minus_1)
  show ?thesis
    unfolding m using assms by (auto simp: bit_eq_iff bit_mask_iff)
qed

lemma all_checkpoints:
  "(\<forall>i<4. i \<in> cp_num ` set cps) \<longleftrightarrow> {CP_SENSOR_READ, CP_E2E_ENCODE, CP_SECOC_ENCODE, CP_PUBLISH} \<subseteq> set cps"
proof -
  have inj: "cp_num cp = cp_num cp' \<longleftrightarrow> cp = cp'" for cp cp' by (cases cp; cases cp') simp_all
  then have "i \<in> cp_num ` set cps \<longleftrightarrow> cp \<in> set cps" if "cp_num cp = i" for i cp
    using that by (metis image_iff)
  from this [of CP_SENSOR_READ 0] this [of CP_E2E_ENCODE 1] this [of CP_SECOC_ENCODE 2]
    this [of CP_PUBLISH 3]
  show ?thesis by (auto simp: less_Suc_eq numeral_eq_Suc)
qed

lemma verify_after:
  assumes "checkpoints_hit fm = 0"
  shows "fst (flow_verify_cycle (fold flow_checkpoint cps fm)) \<longleftrightarrow>
    {CP_SENSOR_READ, CP_E2E_ENCODE, CP_SECOC_ENCODE, CP_PUBLISH} \<subseteq> set cps"
proof -
  let ?w = "checkpoints_hit (fold flow_checkpoint cps fm)"
  have b: "bit ?w i \<longleftrightarrow> i < 4 \<and> i \<in> cp_num ` set cps" for i
    using assms by (simp add: bit_checkpoints)
  then have "?w = push_bit 4 1 - 1 \<longleftrightarrow> (\<forall>i<4. bit ?w i)" by (intro mask_full_iff) blast
  then show ?thesis using b all_checkpoints [of cps] by (simp add: flow_verify_cycle_def Let_def)
qed

lemma verify_resets [simp]: "checkpoints_hit (snd (flow_verify_cycle fm)) = 0"
  by (simp add: flow_verify_cycle_def Let_def)

lemma fold_checkpoint_keeps [simp]:
  "total_flow_errors (fold flow_checkpoint cps fm) = total_flow_errors fm"
  by (induction cps arbitrary: fm) (simp_all add: flow_checkpoint_def)

text \<open>One publish cycle: the checkpoints it hits, then the verification.\<close>

definition flow_cycle :: "flow_checkpoint_t list \<Rightarrow> flow_monitor_t \<Rightarrow> flow_monitor_t" where
  "flow_cycle cps fm = snd (flow_verify_cycle (fold flow_checkpoint cps fm))"

interpretation flow_machine: machine "flow_init fm" flow_cycle "\<lambda>fm. checkpoints_hit fm = 0" for fm
  by unfold_locales (simp_all add: flow_init_def flow_cycle_def)

section \<open>Properties\<close>

text \<open>
  After any number of cycles since \<open>flow_init\<close>, \<open>flow_verify_cycle\<close> accepts the next cycle
  exactly when each of the four checkpoints was hit at least once, in whatever order and however
  often; \<open>CP_COUNT\<close> counts for nothing.
\<close>

theorem flow_cycle_verdict:
  "fst (flow_verify_cycle (fold flow_checkpoint cps (fold flow_cycle cycles (flow_init fm)))) \<longleftrightarrow>
     {CP_SENSOR_READ, CP_E2E_ENCODE, CP_SECOC_ENCODE, CP_PUBLISH} \<subseteq> set cps"
  by (rule verify_after) (rule flow_machine.inv_reachable)

text \<open>
  The error counter counts the rejected cycles, modulo \<open>2^32\<close>.
\<close>

theorem flow_errors_count:
  "flow_get_errors (fold flow_cycle cycles (flow_init fm)) =
     of_nat (length (filter (\<lambda>cps. \<not> {CP_SENSOR_READ, CP_E2E_ENCODE, CP_SECOC_ENCODE, CP_PUBLISH} \<subseteq> set cps)
       cycles))"
proof -
  let ?bad = "\<lambda>cps. \<not> {CP_SENSOR_READ, CP_E2E_ENCODE, CP_SECOC_ENCODE, CP_PUBLISH} \<subseteq> set cps"
  have step: "total_flow_errors (flow_cycle cps fm) = total_flow_errors fm + (if ?bad cps then 1 else 0)"
    if "checkpoints_hit fm = 0" for cps fm
    using verify_after [OF that, of cps] by (simp add: flow_cycle_def flow_verify_cycle_def Let_def)
  have "total_flow_errors (fold flow_cycle cycles fm) = total_flow_errors fm + of_nat (length (filter ?bad cycles))"
    if "checkpoints_hit fm = 0" for fm
    using that
  proof (induction cycles arbitrary: fm)
    case (Cons cps cycles)
    have "checkpoints_hit (flow_cycle cps fm) = 0" by (simp add: flow_cycle_def)
    from Cons.IH [OF this] step [OF Cons.prems, of cps] show ?case by simp
  qed simp
  then show ?thesis by (simp add: flow_get_errors_def flow_init_def)
qed

text \<open>
  The actuator deadline is exact across the wrap of the tick counter: \<open>d\<close> ms after a command,
  the check fails and counts a miss if and only if \<open>d > 10000\<close>; before the first command it
  never fails.
\<close>

theorem flow_deadline:
  assumes "d < 2 ^ 32"
  shows "flow_check_deadline (t + of_nat d) (flow_actuator_received t fm) =
      (let fm' = flow_actuator_received t fm
       in if 10000 < d then (False, fm'\<lparr>total_deadline_misses := total_deadline_misses fm + 1\<rparr>)
          else (True, fm')) \<and>
    flow_check_deadline t (flow_init fm) = (True, flow_init fm)"
proof -
  have "(10000 :: u32) < of_nat d \<longleftrightarrow> 10000 < d"
    using assms by (simp add: word_less_nat_alt unat_of_nat_small)
  then show ?thesis
    by (simp add: flow_check_deadline_def flow_actuator_received_def flow_init_def Let_def)
qed

definition blank_flow :: flow_monitor_t where
  "blank_flow = flow_init \<lparr>checkpoints_hit = 9, last_actuator_tick = 9, total_flow_errors = 9,
                  total_deadline_misses = 9, deadline_active = True\<rparr>"

theorem flow_deadline_witness:
  "fst (flow_check_deadline (0xFFFFFF00 + of_nat 10000) (flow_actuator_received 0xFFFFFF00 blank_flow))
   \<and> \<not> fst (flow_check_deadline (0xFFFFFF00 + of_nat 10001) (flow_actuator_received 0xFFFFFF00 blank_flow))"
proof -
  have l: "10000 < (2 :: nat) ^ 32" "10001 < (2 :: nat) ^ 32" by simp_all
  show ?thesis
    using flow_deadline [OF l(1), of "0xFFFFFF00" blank_flow] flow_deadline [OF l(2), of "0xFFFFFF00" blank_flow]
    by (simp only: Let_def) simp
qed

end
