(* ===== verification/KeyMgr.thy ===== *)
theory KeyMgr
  imports Sha256 Format
begin

text \<open>
  The key manager of \<open>key_manager.c\<close>: the node key is the HMAC, under the master key, of the
  epoch and the node id; rotation increments the 16 bit epoch.
\<close>

section \<open>Model\<close>

record key_manager_t =
  master_key :: bytes
  node_key :: bytes
  epoch :: u16
  node_id :: bytes

text \<open>The text that \<open>snprintf\<close> formats with \<open>"epoch:%u:%s"\<close>.\<close>

definition key_text :: "u16 \<Rightarrow> bytes \<Rightarrow> bytes" where
  "key_text ep nid = str_bytes ''epoch:'' @ dec_digits (unat ep) @ str_bytes '':'' @ nid"

text \<open>\<open>input0\<close> is what the 48 bytes of \<open>input\<close> hold before.\<close>

definition derive_node_key :: "bytes \<Rightarrow> key_manager_t \<Rightarrow> key_manager_t" where
  "derive_node_key input0 km =
     (let (input, len) = snprintf_to input0 (key_text (epoch km) (cstr (node_id km)))
      in km\<lparr>node_key := hmac_sha256 (master_key km) (take len input)\<rparr>)"

text \<open>\<open>strncpy\<close> of 15 bytes: the string, padded with zeros.\<close>

definition key_init :: "bytes \<Rightarrow> bytes \<Rightarrow> bytes \<Rightarrow> key_manager_t \<Rightarrow> key_manager_t" where
  "key_init input0 mkey nid km =
     derive_node_key input0
       (km\<lparr>master_key := mkey,
          node_id := (take 15 (nid @ replicate 15 0) @ [0]),
          epoch := 1\<rparr>)"

definition key_get_node_key :: "key_manager_t \<Rightarrow> bytes" where
  "key_get_node_key km = node_key km"

definition key_get_epoch :: "key_manager_t \<Rightarrow> u16" where
  "key_get_epoch km = epoch km"

definition key_rotate :: "bytes \<Rightarrow> key_manager_t \<Rightarrow> key_manager_t" where
  "key_rotate input0 km = derive_node_key input0 (km\<lparr>epoch := epoch km + 1\<rparr>)"

section \<open>The derived key\<close>

definition key_of :: "bytes \<Rightarrow> u16 \<Rightarrow> bytes \<Rightarrow> bytes" where
  "key_of mkey ep nid = hmac_sha256 mkey (key_text ep nid)"

lemma length_key_text: "length (key_text ep nid) \<le> 12 + length nid"
  using dec_digits_u16 [of ep] by (simp add: key_text_def str_bytes_def)

lemma derive_node_key_eq:
  assumes "length input0 = 48" "length (cstr (node_id km)) \<le> 15"
  shows "derive_node_key input0 km =
    km\<lparr>node_key := key_of (master_key km) (epoch km) (cstr (node_id km))\<rparr>"
proof -
  have "length (key_text (epoch km) (cstr (node_id km))) < length input0"
    using length_key_text [of "epoch km" "cstr (node_id km)"] assms by simp
  then show ?thesis by (simp add: derive_node_key_def snprintf_fits key_of_def)
qed

lemma cstr_strncpy:
  assumes "0 \<notin> set nid"
  shows "cstr (take 15 (nid @ replicate 15 0) @ [0]) = take 15 nid"
proof (cases "length nid < 15")
  case True
  then have "take 15 (nid @ replicate 15 0) @ [0] = nid @ 0 # replicate (15 - length nid) 0"
    by (simp add: replicate_append_same min_def)
  then show ?thesis using assms True by (simp add: cstr_append_zero)
next
  case False
  then show ?thesis using assms by (auto intro: cstr_append_zero dest: in_set_takeD)
qed

lemma length_node_id: "length (cstr (node_id km)) \<le> length (node_id km)"
  by (simp add: cstr_def length_takeWhile_le)

definition key_ok :: "bytes \<Rightarrow> bytes \<Rightarrow> key_manager_t \<Rightarrow> bool" where
  "key_ok mkey nid km \<longleftrightarrow> master_key km = mkey \<and> cstr (node_id km) = take 15 nid \<and>
     node_key km = key_of mkey (epoch km) (take 15 nid)"

lemma key_init_ok:
  assumes "length input0 = 48" "0 \<notin> set nid"
  shows "key_ok mkey nid (key_init input0 mkey nid km) \<and> epoch (key_init input0 mkey nid km) = 1"
proof -
  let ?km = "km\<lparr>master_key := mkey, node_id := (take 15 (nid @ replicate 15 0) @ [0]), epoch := 1\<rparr>"
  have c: "cstr (node_id ?km) = take 15 nid" using cstr_strncpy [OF assms(2)] by simp
  then have "derive_node_key input0 ?km =
      ?km\<lparr>node_key := key_of (master_key ?km) (epoch ?km) (cstr (node_id ?km))\<rparr>"
    by (intro derive_node_key_eq assms(1)) simp
  then show ?thesis using c by (simp add: key_init_def key_ok_def)
qed

lemma key_rotate_ok:
  assumes "length input0 = 48" "key_ok mkey nid km"
  shows "key_ok mkey nid (key_rotate input0 km) \<and> epoch (key_rotate input0 km) = epoch km + 1"
  using assms by (simp add: key_rotate_def derive_node_key_eq key_ok_def)

lemma key_rotations:
  assumes "length input0 = 48" "key_ok mkey nid km"
  shows "key_ok mkey nid ((key_rotate input0 ^^ n) km) \<and> epoch ((key_rotate input0 ^^ n) km) = epoch km + of_nat n"
proof (induction n)
  case (Suc n)
  then show ?case using key_rotate_ok [OF assms(1), of mkey nid "(key_rotate input0 ^^ n) km"]
    by (simp add: add.commute add.left_commute)
qed (use assms in simp)

text \<open>The text is parsed back from its end of digits: the epoch and the id are unambiguous.\<close>

lemma takeWhile_digits: "takeWhile is_digit (dec_digits n @ 58 # xs) = dec_digits n"
proof -
  have "\<not> is_digit 58" by (simp add: is_digit_def word_le_nat_alt)
  then show ?thesis
    by (simp add: takeWhile_append dec_digits_digit takeWhile_eq_all_conv)
qed

lemma key_text_inj: "key_text ep nid = key_text ep' nid' \<Longrightarrow> ep = ep' \<and> nid = nid'"
proof -
  assume "key_text ep nid = key_text ep' nid'"
  then have e: "dec_digits (unat ep) @ 58 # nid = dec_digits (unat ep') @ 58 # nid'"
    by (simp add: key_text_def str_bytes_def)
  then have "dec_digits (unat ep) = dec_digits (unat ep')"
    using takeWhile_digits [of "unat ep" nid] takeWhile_digits [of "unat ep'" nid'] by metis
  then show ?thesis using e by (auto dest: dec_digits_inj simp: word_unat_eq_iff)
qed

section \<open>Properties\<close>

text \<open>
  After \<open>key_init\<close> and \<open>n\<close> rotations the node key is the HMAC, under the master key, of
  \<open>epoch:<e>:<id>\<close> with \<open>e = 1 + n\<close> modulo \<open>2^16\<close> and the id cut to 15 bytes; the 48 byte buffer
  always has room, and what was in it does not matter.
\<close>

theorem key_after_rotations:
  assumes "length input0 = 48" "0 \<notin> set nid"
  shows "key_get_epoch ((key_rotate input0 ^^ n) (key_init input0 mkey nid km)) = 1 + of_nat n \<and>
    key_get_node_key ((key_rotate input0 ^^ n) (key_init input0 mkey nid km)) =
      hmac_sha256 mkey (str_bytes ''epoch:'' @ dec_digits ((1 + n) mod 65536) @ str_bytes '':'' @ take 15 nid)"
proof -
  let ?km = "key_init input0 mkey nid km"
  have "unat (1 + of_nat n :: u16) = (1 + n) mod 65536"
    by (simp add: unat_word_ariths unat_of_nat take_bit_eq_mod mod_simps)
  then show ?thesis
    using key_rotations [OF assms(1), of mkey nid ?km n] key_init_ok [OF assms, of mkey km]
    by (simp add: key_get_epoch_def key_get_node_key_def key_ok_def key_of_def key_text_def)
qed

definition zero_km :: key_manager_t where
  "zero_km = \<lparr>master_key = [], node_key = [], epoch = 0, node_id = []\<rparr>"

theorem key_after_rotations_witness:
  "key_get_epoch ((key_rotate (replicate 48 7) ^^ 2) (key_init (replicate 48 7) [1, 2] (str_bytes ''front_left/1'') zero_km)) = 3"
proof -
  have "0 \<notin> set (str_bytes ''front_left/1'')" by (simp add: str_bytes_def)
  from key_after_rotations [OF _ this, of "replicate 48 7" 2 "[1, 2]" zero_km] show ?thesis by simp
qed

text \<open>
  Two epochs, or two node ids, never feed the same text to the HMAC: the keys of different
  nodes and epochs are HMACs of different messages under the master key.
\<close>

theorem key_separation:
  assumes "(ep, nid) \<noteq> (ep', nid')"
  shows "key_text ep nid \<noteq> key_text ep' nid'"
  using assms key_text_inj by blast

theorem key_separation_witness: "key_text 1 (str_bytes ''1:a'') \<noteq> key_text 11 (str_bytes '':a'')"
  by (rule key_separation) simp

text \<open>
  The epoch wraps: \<open>2^16\<close> rotations bring back the epoch and the very key the node had, and
  no fewer number of rotations brings back the epoch.
\<close>

theorem key_epoch_wraps:
  fixes km :: key_manager_t and mkey :: bytes
  assumes "length input0 = 48" "0 \<notin> set nid"
  defines "km0 \<equiv> key_init input0 mkey nid km"
  shows "key_get_node_key ((key_rotate input0 ^^ (n + 65536)) km0) = key_get_node_key ((key_rotate input0 ^^ n) km0) \<and>
    (0 < k \<and> k < 65536 \<longrightarrow>
       key_get_epoch ((key_rotate input0 ^^ (n + k)) km0) \<noteq> key_get_epoch ((key_rotate input0 ^^ n) km0))"
proof -
  have ok: "key_ok mkey nid km0" using key_init_ok [OF assms(1,2)] by (simp add: km0_def)
  note r = key_rotations [OF assms(1) ok]
  have "(of_nat 65536 :: u16) = 0" by (rule word_unat_eq_iff [THEN iffD2]) (simp add: unat_of_nat take_bit_eq_mod)
  then have same: "epoch ((key_rotate input0 ^^ (n + 65536)) km0) = epoch ((key_rotate input0 ^^ n) km0)"
    using r [of "n + 65536"] r [of n] by (simp only: of_nat_add add_0_right)
  have "(of_nat k :: u16) \<noteq> 0" if "0 < k" "k < 65536"
    using that unat_of_nat_small [of k, where 'a = 16] by (auto simp: word_unat_eq_iff)
  then have "0 < k \<and> k < 65536 \<longrightarrow> epoch ((key_rotate input0 ^^ (n + k)) km0) \<noteq> epoch ((key_rotate input0 ^^ n) km0)"
    using r [of n] r [of "n + k"] by simp
  moreover have "node_key ((key_rotate input0 ^^ (n + 65536)) km0) = node_key ((key_rotate input0 ^^ n) km0)"
    using r [of "n + 65536"] r [of n] unfolding key_ok_def same by metis
  ultimately show ?thesis by (simp add: key_get_node_key_def key_get_epoch_def)
qed

theorem key_epoch_wraps_witness:
  "key_get_node_key ((key_rotate (replicate 48 0) ^^ (0 + 65536)) (key_init (replicate 48 0) [1, 2] [97] zero_km)) =
     key_get_node_key ((key_rotate (replicate 48 0) ^^ 0) (key_init (replicate 48 0) [1, 2] [97] zero_km))"
  by (rule key_epoch_wraps [THEN conjunct1]) simp_all

end
