(* ===== verification/Watchdog.thy ===== *)
theory Watchdog
  imports Prelude
begin

text \<open>
  The watchdog of \<open>watchdog.c\<close> on the registers of the SAM E70. The registers behave as the data
  sheet of the chip documents them: \<open>WDT_MR\<close> can be written once after reset, later writes are
  ignored; a write of the key and \<open>WDRSTT\<close> to \<open>WDT_CR\<close> restarts the down counter. The values that
  are written come from the code. \<open>Sys_initialize_wdt\<close> is the one write that
  the start-up code of \<open>config/initialization.c\<close> makes before any task runs.
\<close>

record wdt_regs =
  WDT_MR :: u32
  mr_written :: bool
  restarts :: nat

definition wdt_reset :: wdt_regs where
  "wdt_reset = \<lparr>WDT_MR = 0x3FFF2FFF, mr_written = False, restarts = 0\<rparr>"

definition wdt_write_mr :: "u32 \<Rightarrow> wdt_regs \<Rightarrow> wdt_regs" where
  "wdt_write_mr v w = (if mr_written w then w else w\<lparr>WDT_MR := v, mr_written := True\<rparr>)"

definition wdt_write_cr :: "u32 \<Rightarrow> wdt_regs \<Rightarrow> wdt_regs" where
  "wdt_write_cr v w =
     (if drop_bit 24 v = 0xA5 \<and> bit v 0 then w\<lparr>restarts := restarts w + 1\<rparr> else w)"

abbreviation (input) WDT_WDV :: u32 where "WDT_WDV \<equiv> 0x1FF"

definition watchdog_init :: "wdt_regs \<Rightarrow> wdt_regs" where
  "watchdog_init =
     wdt_write_mr ((WDT_WDV AND 0xFFF) OR push_bit 13 1 OR push_bit 28 1 OR push_bit 16 (WDT_WDV AND 0xFFF))"

definition watchdog_feed :: "wdt_regs \<Rightarrow> wdt_regs" where
  "watchdog_feed = wdt_write_cr (push_bit 24 0xA5 OR push_bit 0 1)"

definition watchdog_disable :: "wdt_regs \<Rightarrow> wdt_regs" where
  "watchdog_disable = wdt_write_mr (push_bit 15 1)"

definition Sys_initialize_wdt :: "wdt_regs \<Rightarrow> wdt_regs" where
  "Sys_initialize_wdt = wdt_write_mr (push_bit 15 1)"

text \<open>What the mode register means.\<close>

definition wdt_enabled :: "wdt_regs \<Rightarrow> bool" where
  "wdt_enabled w \<longleftrightarrow> \<not> bit (WDT_MR w) 15"

definition wdt_resets_mcu :: "wdt_regs \<Rightarrow> bool" where
  "wdt_resets_mcu w \<longleftrightarrow> wdt_enabled w \<and> bit (WDT_MR w) 13"

text \<open>The period in milliseconds: the counter runs at 32768 / 128 = 256 Hz.\<close>

definition wdt_period_ms :: "wdt_regs \<Rightarrow> nat" where
  "wdt_period_ms w = (unat (WDT_MR w AND 0xFFF) + 1) * 1000 div 256"

lemma feed_restarts [simp]: "watchdog_feed w = w\<lparr>restarts := restarts w + 1\<rparr>"
  by (simp add: watchdog_feed_def wdt_write_cr_def bit_or_iff bit_push_bit_iff)

datatype wdt_event = Wdt_init | Wdt_feed | Wdt_disable

primrec wdt_step :: "wdt_event \<Rightarrow> wdt_regs \<Rightarrow> wdt_regs" where
  "wdt_step Wdt_init = watchdog_init"
| "wdt_step Wdt_feed = watchdog_feed"
| "wdt_step Wdt_disable = watchdog_disable"

text \<open>A written mode register is final.\<close>

interpretation wdt_locked: absorbing wdt_step "\<lambda>w. mr_written w \<and> WDT_MR w = v" for v
proof
  fix w :: wdt_regs and e assume "mr_written w \<and> WDT_MR w = v"
  then show "mr_written (wdt_step e w) \<and> WDT_MR (wdt_step e w) = v"
    by (cases e) (simp_all add: watchdog_init_def watchdog_disable_def wdt_write_mr_def)
qed

text \<open>
  On a mode register that was not written since reset, \<open>watchdog_init\<close> arms a watchdog that
  resets the controller after 2000 ms, and nothing the module does later, \<open>watchdog_disable\<close>
  included, turns it off or changes its period.
\<close>

theorem watchdog_armed_for_good:
  assumes "\<not> mr_written w"
  shows "wdt_resets_mcu (fold wdt_step es (watchdog_init w)) \<and>
    wdt_period_ms (fold wdt_step es (watchdog_init w)) = 2000"
proof -
  have "mr_written (watchdog_init w) \<and> WDT_MR (watchdog_init w) = 0x11FF21FF"
    using assms by (simp add: watchdog_init_def wdt_write_mr_def)
  from wdt_locked.trap_run [OF this, of es] show ?thesis
    by (simp add: wdt_resets_mcu_def wdt_enabled_def wdt_period_ms_def)
qed

theorem watchdog_armed_for_good_witness:
  "wdt_resets_mcu (fold wdt_step [Wdt_feed, Wdt_disable, Wdt_feed] (watchdog_init wdt_reset))"
  using watchdog_armed_for_good [of wdt_reset "[Wdt_feed, Wdt_disable, Wdt_feed]"]
  by (simp add: wdt_reset_def)

text \<open>
  C21: the start-up code writes \<open>WDDIS\<close> to the write-once mode register first, so in the firmware
  as it boots the watchdog is off, whatever \<open>watchdog_init\<close> and the other routines do.
\<close>

theorem watchdog_never_armed: "\<not> wdt_enabled (fold wdt_step es (Sys_initialize_wdt wdt_reset))"
proof -
  have "mr_written (Sys_initialize_wdt wdt_reset) \<and> WDT_MR (Sys_initialize_wdt wdt_reset) = 0x8000"
    by (simp add: Sys_initialize_wdt_def wdt_write_mr_def wdt_reset_def)
  from wdt_locked.trap_run [OF this, of es] show ?thesis
    by (simp add: wdt_enabled_def)
qed

end
