(* ===== verification/Mcp3204.thy ===== *)
theory Mcp3204
  imports Complex_Main Prelude
begin

text \<open>
  The bit-banged driver of the MCP3204 converter, \<open>drv_mcp3204.c\<close>, down to the pins.

  \<^item> The converter is outside the repository: it is the parameter \<open>adc\<close>, what it shows on MISO
    given the MOSI bits it has latched on rising clock edges since it was selected.
  \<^item> \<open>mcp3204_conforms\<close> is the part of its data sheet that the driver relies on.
  \<^item> The driver's \<open>float\<close> arithmetic is exact: every intermediate value is a multiple of
    \<open>2^-11\<close> with fewer than 24 significant bits. So it is modelled on \<open>rat\<close>.
\<close>

section \<open>Model\<close>

record spi_pins =
  portd_psr :: u32
  portd_osr :: u32
  portd_odsr :: u32
  porta_psr :: u32
  porta_osr :: u32
  porta_pullup :: u32
  porta_pdsr :: u32
  latched :: "bool list"
  seq_counter :: u32

abbreviation (input) PIN_CS :: nat where "PIN_CS \<equiv> 25"
abbreviation (input) PIN_SCK :: nat where "PIN_SCK \<equiv> 22"
abbreviation (input) PIN_MISO :: nat where "PIN_MISO \<equiv> 20"
abbreviation (input) PIN_MOSI :: nat where "PIN_MOSI \<equiv> 21"
abbreviation (input) PIN_BTN :: nat where "PIN_BTN \<equiv> 21"

definition pin_clear :: "nat \<Rightarrow> spi_pins \<Rightarrow> spi_pins" where
  "pin_clear n s = s\<lparr>portd_odsr := unset_bit n (portd_odsr s)\<rparr>"

definition pin_set :: "nat \<Rightarrow> spi_pins \<Rightarrow> spi_pins" where
  "pin_set n s = s\<lparr>portd_odsr := set_bit n (portd_odsr s)\<rparr>"

text \<open>Selecting the converter starts a conversation; a rising clock edge latches MOSI.\<close>

definition cs_low :: "spi_pins \<Rightarrow> spi_pins" where
  "cs_low s = (let s' = pin_clear PIN_CS s
               in if bit (portd_odsr s) PIN_CS then s'\<lparr>latched := []\<rparr> else s')"

definition cs_high :: "spi_pins \<Rightarrow> spi_pins" where
  "cs_high = pin_set PIN_CS"

definition sck_low :: "spi_pins \<Rightarrow> spi_pins" where
  "sck_low = pin_clear PIN_SCK"

definition sck_high :: "spi_pins \<Rightarrow> spi_pins" where
  "sck_high s =
     (let s' = pin_set PIN_SCK s
      in if \<not> bit (portd_odsr s) PIN_SCK \<and> \<not> bit (portd_odsr s) PIN_CS
         then s'\<lparr>latched := latched s @ [bit (portd_odsr s) PIN_MOSI]\<rparr> else s')"

definition mosi_low :: "spi_pins \<Rightarrow> spi_pins" where
  "mosi_low = pin_clear PIN_MOSI"

definition mosi_high :: "spi_pins \<Rightarrow> spi_pins" where
  "mosi_high = pin_set PIN_MOSI"

definition miso_read :: "(bool list \<Rightarrow> bool) \<Rightarrow> spi_pins \<Rightarrow> bool" where
  "miso_read adc s = adc (latched s)"

definition spi_xfer_bit :: "(bool list \<Rightarrow> bool) \<Rightarrow> bool \<Rightarrow> spi_pins \<Rightarrow> bool \<times> spi_pins" where
  "spi_xfer_bit adc mosi_val s =
     (let s1 = (if mosi_val then mosi_high s else mosi_low s);
          s2 = sck_high s1;
          miso_val = miso_read adc s2
      in (miso_val, sck_low s2))"

definition spi_positions :: "(nat \<times> nat) list" where
  "spi_positions = [(byte, k). byte \<leftarrow> [0..<3], k \<leftarrow> rev [0..<8]]"

definition spi_step ::
  "(bool list \<Rightarrow> bool) \<Rightarrow> bytes \<Rightarrow> nat \<times> nat \<Rightarrow> bytes \<times> spi_pins \<Rightarrow> bytes \<times> spi_pins" where
  "spi_step adc tx = (\<lambda>(byte, k) (rx, s).
     (let (miso_val, s') = spi_xfer_bit adc (bit (tx ! byte) k) s
      in (if miso_val then rx[byte := rx ! byte OR push_bit k 1] else rx, s')))"

definition MCP3204_ReadChannel ::
  "(bool list \<Rightarrow> bool) \<Rightarrow> u8 \<Rightarrow> spi_pins \<Rightarrow> u16 \<times> spi_pins" where
  "MCP3204_ReadChannel adc channel s =
     (let ch = channel AND 0x03;
          tx = [0x06, push_bit 6 (ch AND 0x03), 0x00];
          (rx, s') = fold (spi_step adc tx) spi_positions ([0, 0, 0], cs_low s);
          s'' = cs_high s'
      in (push_bit 8 (ucast (rx ! 1 AND 0x0F)) OR ucast (rx ! 2), s''))"

definition MCP3204_Initialize :: "(bool list \<Rightarrow> bool) \<Rightarrow> spi_pins \<Rightarrow> spi_pins" where
  "MCP3204_Initialize adc s =
     (let out = push_bit PIN_CS 1 OR push_bit PIN_SCK 1 OR push_bit PIN_MOSI 1;
          s1 = s\<lparr>portd_psr := portd_psr s OR (out OR push_bit PIN_MISO 1),
                 portd_osr := (portd_osr s OR out) AND NOT (push_bit PIN_MISO 1)\<rparr>;
          s2 = mosi_low (sck_low (cs_high s1));
          s3 = s2\<lparr>porta_psr := porta_psr s2 OR push_bit PIN_BTN 1,
                  porta_osr := porta_osr s2 AND NOT (push_bit PIN_BTN 1),
                  porta_pullup := porta_pullup s2 OR push_bit PIN_BTN 1\<rparr>
      in snd (MCP3204_ReadChannel adc 0 s3))"

definition MCP3204_ButtonPressed :: "spi_pins \<Rightarrow> bool" where
  "MCP3204_ButtonPressed s \<longleftrightarrow> porta_pdsr s AND push_bit PIN_BTN 1 = 0"

definition MCP3204_CalcAngle :: "u16 \<Rightarrow> rat" where
  "MCP3204_CalcAngle x = (of_nat (unat x) - 2048) / 2048 * 90"

record thumbstick_data_t =
  ts_x :: u16
  ts_y :: u16
  ts_btn :: u8
  ts_angle :: rat
  ts_seq :: u32

definition MCP3204_ReadThumbstick ::
  "(bool list \<Rightarrow> bool) \<Rightarrow> spi_pins \<Rightarrow> thumbstick_data_t \<times> spi_pins" where
  "MCP3204_ReadThumbstick adc s =
     (let (x, s1) = MCP3204_ReadChannel adc 0 s;
          (y, s2) = MCP3204_ReadChannel adc 1 s1;
          btn = (if MCP3204_ButtonPressed s2 then 1 else 0)
      in (\<lparr>ts_x = x, ts_y = y, ts_btn = btn, ts_angle = MCP3204_CalcAngle x, ts_seq = seq_counter s2\<rparr>,
          s2\<lparr>seq_counter := seq_counter s2 + 1\<rparr>))"

section \<open>One transfer\<close>

definition bus_idle :: "spi_pins \<Rightarrow> bool" where
  "bus_idle s \<longleftrightarrow> bit (portd_odsr s) PIN_CS \<and> \<not> bit (portd_odsr s) PIN_SCK"

definition bus_selected :: "spi_pins \<Rightarrow> bool" where
  "bus_selected s \<longleftrightarrow> \<not> bit (portd_odsr s) PIN_CS \<and> \<not> bit (portd_odsr s) PIN_SCK"

lemma xfer_bit_selected:
  assumes "bus_selected s"
  shows "fst (spi_xfer_bit adc m s) = adc (latched s @ [m])"
    and "latched (snd (spi_xfer_bit adc m s)) = latched s @ [m]"
    and "bus_selected (snd (spi_xfer_bit adc m s))"
    and "seq_counter (snd (spi_xfer_bit adc m s)) = seq_counter s"
  using assms
  by (simp_all add: spi_xfer_bit_def Let_def bus_selected_def mosi_high_def mosi_low_def pin_set_def
      pin_clear_def sck_high_def sck_low_def miso_read_def bit_set_bit_iff bit_unset_bit_iff)

text \<open>The 24 MOSI bits of a read of a channel.\<close>

definition spi_frame :: "bytes \<Rightarrow> bool list" where
  "spi_frame tx = map (\<lambda>(byte, k). bit (tx ! byte) k) spi_positions"

lemma spi_positions_eq: "spi_positions = map (\<lambda>n. (n div 8, 7 - n mod 8)) [0..<24]"
  by (simp add: spi_positions_def upt_rec)

lemma length_spi_frame [simp]: "length (spi_frame tx) = 24"
  by (simp add: spi_frame_def spi_positions_eq)

lemma spi_frame_nth: "n < 24 \<Longrightarrow> spi_frame tx ! n = bit (tx ! (n div 8)) (7 - n mod 8)"
  by (simp add: spi_frame_def spi_positions_eq)

text \<open>After \<open>k\<close> of the 24 clocks: what is latched, and which bits of \<open>rx\<close> are set.\<close>

lemma spi_steps:
  fixes adc :: "bool list \<Rightarrow> bool" and tx :: bytes
  assumes "bus_selected s" "latched s = []" "n \<le> 24"
  defines "r \<equiv> fold (spi_step adc tx) (take n spi_positions) ([0, 0, 0], s)"
  shows "bus_selected (snd r) \<and> latched (snd r) = take n (spi_frame tx) \<and> length (fst r) = 3 \<and>
    seq_counter (snd r) = seq_counter s \<and>
    (\<forall>j<3. \<forall>b<8. bit (fst r ! j) b \<longleftrightarrow> 8 * j + (7 - b) < n \<and> adc (take (8 * j + (8 - b)) (spi_frame tx)))"
  using assms(3) unfolding r_def
proof (induction n)
  case 0
  then show ?case using assms(1,2) by (auto simp: numeral_3_eq_3 less_Suc_eq)
next
  case (Suc n)
  let ?r = "fold (spi_step adc tx) (take n spi_positions) ([0, 0, 0], s)"
  have n: "n < 24" using Suc.prems by simp
  obtain rx sr where r: "?r = (rx, sr)" by fastforce
  have IH: "bus_selected sr" "latched sr = take n (spi_frame tx)" "length rx = 3"
    "seq_counter sr = seq_counter s"
    and bits: "\<And>j b. j < 3 \<Longrightarrow> b < 8 \<Longrightarrow>
      bit (rx ! j) b \<longleftrightarrow> 8 * j + (7 - b) < n \<and> adc (take (8 * j + (8 - b)) (spi_frame tx))"
    using Suc.IH n unfolding r by auto
  have pos: "take (Suc n) spi_positions = take n spi_positions @ [(n div 8, 7 - n mod 8)]"
    using n by (simp add: spi_positions_eq take_Suc_conv_app_nth)
  have frame: "take (Suc n) (spi_frame tx) = take n (spi_frame tx) @ [bit (tx ! (n div 8)) (7 - n mod 8)]"
    using n by (simp add: take_Suc_conv_app_nth spi_frame_nth)
  note x = xfer_bit_selected [OF IH(1), of adc "bit (tx ! (n div 8)) (7 - n mod 8)"]
  let ?m = "adc (take (Suc n) (spi_frame tx))"
  let ?rx = "if ?m then rx[n div 8 := rx ! (n div 8) OR push_bit (7 - n mod 8) 1] else rx"
  have step: "fold (spi_step adc tx) (take (Suc n) spi_positions) ([0, 0, 0], s) =
      (?rx, snd (spi_xfer_bit adc (bit (tx ! (n div 8)) (7 - n mod 8)) sr))"
    unfolding pos fold_append comp_apply r using x(1)
    by (simp add: spi_step_def case_prod_beta Let_def IH(2) frame)
  have new: "bit (?rx ! j) b \<longleftrightarrow> 8 * j + (7 - b) < Suc n \<and> adc (take (8 * j + (8 - b)) (spi_frame tx))"
    if jb: "j < 3" "b < 8" for j b
  proof (cases "j = n div 8 \<and> b = 7 - n mod 8")
    case True
    then have e: "8 * j + (7 - b) = n" "8 * j + (8 - b) = Suc n" by simp_all
    show ?thesis
      using True bits [OF jb] IH(3) jb unfolding e by (simp add: bit_or_iff bit_exp_iff)
  next
    case False
    have e: "8 * j + (7 - b) \<noteq> n"
    proof
      assume "8 * j + (7 - b) = n"
      then obtain c where c: "c = 7 - b" "n = 8 * j + c" by blast
      then have "c < 8" using jb by simp
      then have "n div 8 = j" "n mod 8 = c" unfolding c(2) by simp_all
      then show False using False jb c(1) by auto
    qed
    have "bit (rx[n div 8 := rx ! (n div 8) OR push_bit (7 - n mod 8) 1] ! j) b = bit (rx ! j) b"
      using False IH(3) jb
      by (cases "j = n div 8") (auto simp: bit_or_iff bit_exp_iff nth_list_update)
    then show ?thesis using bits [OF jb] e by auto
  qed
  have "length ?rx = 3" using IH(3) by simp
  then show ?case
    unfolding step fst_conv snd_conv x(2) x(4) IH(2) IH(4) frame [symmetric]
    by (intro conjI x(3) refl allI impI new) simp_all
qed

section \<open>One reading\<close>

definition read_frame :: "u8 \<Rightarrow> bool list" where
  "read_frame ch = spi_frame [0x06, push_bit 6 (ch AND 0x03), 0x00]"

lemma cs_low_selected:
  assumes "bus_idle s"
  shows "bus_selected (cs_low s)" "latched (cs_low s) = []" "seq_counter (cs_low s) = seq_counter s"
  using assms
  by (simp_all add: bus_idle_def bus_selected_def cs_low_def pin_clear_def Let_def bit_unset_bit_iff)

lemma read_channel_bits:
  assumes "bus_idle s"
  shows "(\<forall>i<16. bit (fst (MCP3204_ReadChannel adc ch s)) i \<longleftrightarrow> i < 12 \<and> adc (take (24 - i) (read_frame ch))) \<and>
    bus_idle (snd (MCP3204_ReadChannel adc ch s)) \<and>
    latched (snd (MCP3204_ReadChannel adc ch s)) = read_frame ch \<and>
    seq_counter (snd (MCP3204_ReadChannel adc ch s)) = seq_counter s"
proof -
  define tx :: bytes where "tx = [0x06, push_bit 6 (ch AND 0x03), 0x00]"
  let ?r = "fold (spi_step adc tx) spi_positions ([0, 0, 0], cs_low s)"
  obtain rx s' where r: "?r = (rx, s')" by fastforce
  have t24: "take 24 spi_positions = spi_positions" by (simp add: spi_positions_eq)
  have st: "bus_selected s'" "latched s' = read_frame ch" "length rx = 3" "seq_counter s' = seq_counter s"
    and bits: "\<And>j b. j < 3 \<Longrightarrow> b < 8 \<Longrightarrow> bit (rx ! j) b \<longleftrightarrow> adc (take (8 * j + (8 - b)) (read_frame ch))"
    using spi_steps [OF cs_low_selected(1,2) [OF assms], of 24 adc tx] cs_low_selected(3) [OF assms]
    unfolding t24 r by (auto simp: read_frame_def tx_def)
  have ch: "(channel AND 3) AND 3 = (channel AND 3 :: u8)" for channel
    by (simp add: and.assoc)
  have res: "MCP3204_ReadChannel adc ch s =
      (push_bit 8 (ucast (rx ! 1 AND 0x0F)) OR ucast (rx ! 2), cs_high s')"
    unfolding MCP3204_ReadChannel_def Let_def ch tx_def [symmetric] r by simp
  have m: "(0x0F :: u8) = mask 4" by (simp add: mask_eq_exp_minus_1)
  have "bit (fst (MCP3204_ReadChannel adc ch s)) i \<longleftrightarrow> i < 12 \<and> adc (take (24 - i) (read_frame ch))"
    if "i < 16" for i
  proof (cases "i < 8")
    case True
    then show ?thesis using bits [of 2 i] that by (simp add: res bit_simps)
  next
    case False
    have "24 - i = 8 * 1 + (8 - (i - 8))" using False that by simp
    then show ?thesis
      using False bits [of 1 "i - 8"] that by (auto simp: res bit_simps m)
  qed
  moreover have "bus_idle (cs_high s')" "latched (cs_high s') = latched s'" "seq_counter (cs_high s') = seq_counter s'"
    using st(1) by (simp_all add: bus_idle_def bus_selected_def cs_high_def pin_set_def bit_set_bit_iff)
  ultimately show ?thesis using st by (simp add: res)
qed

lemma read_frame_eq:
  "read_frame ch = replicate 5 False @ [True, True, False, bit ch 1, bit ch 0] @ replicate 14 False"
proof -
  have three: "bit (3 :: u8) n \<longleftrightarrow> n = 0 \<or> n = 1" for n
    using bit_mask_iff [of 2 n, where 'a = "8 word"]
    by (auto simp: mask_eq_exp_minus_1 less_Suc_eq numeral_2_eq_2)
  define tb where "tb = push_bit 6 (ch AND 0x03)"
  have b: "bit tb n \<longleftrightarrow> n < 8 \<and> 6 \<le> n \<and> bit ch (n - 6)" for n
    unfolding tb_def bit_push_bit_iff bit_and_iff three by auto
  have six: "bit (6 :: u8) n \<longleftrightarrow> n = 1 \<or> n = 2" if "n < 8" for n
  proof -
    from that consider "n = 0" | "n = 1" | "n = 2" | "n = 3" | "n = 4" | "n = 5" | "n = 6" | "n = 7" by linarith
    then show ?thesis by cases simp_all
  qed
  show ?thesis
    unfolding read_frame_def tb_def [symmetric]
    by (simp add: spi_frame_def spi_positions_def upt_rec b six) (simp add: numeral_eq_Suc)
qed

text \<open>The sample, bit by bit, as a number.\<close>

lemma bits_below_bound:
  assumes "\<forall>i<16. bit (w :: u16) i \<longrightarrow> i < 12"
  shows "unat w < 4096"
proof -
  have "take_bit 12 w = w"
    by (rule bit_word_eqI) (use assms in \<open>auto simp: bit_take_bit_iff\<close>)
  then have "unat w = take_bit 12 (unat w)" by (metis unsigned_take_bit_eq)
  also have "\<dots> < 4096" using take_bit_nat_less_exp [of 12 "unat w"] by simp
  finally show ?thesis .
qed

section \<open>Properties\<close>

text \<open>
  On an idle bus a reading sends exactly the 24 bits of a single-ended read command for the
  channel (five zeros, start, single-ended, zero, the two channel bits, fourteen zeros), leaves
  the bus idle, and returns a value below 4096 whose bit \<open>i\<close> is what the converter showed after
  clock \<open>24 - i\<close>, whatever the converter does.
\<close>

theorem mcp3204_read:
  assumes "bus_idle s"
  shows "latched (snd (MCP3204_ReadChannel adc ch s)) =
      replicate 5 False @ [True, True, False, bit ch 1, bit ch 0] @ replicate 14 False \<and>
    bus_idle (snd (MCP3204_ReadChannel adc ch s)) \<and>
    unat (fst (MCP3204_ReadChannel adc ch s)) < 4096 \<and>
    (\<forall>i<12. bit (fst (MCP3204_ReadChannel adc ch s)) i \<longleftrightarrow>
       adc (take (24 - i) (latched (snd (MCP3204_ReadChannel adc ch s)))))"
proof -
  note r = read_channel_bits [OF assms, of adc ch]
  have "unat (fst (MCP3204_ReadChannel adc ch s)) < 4096"
    by (rule bits_below_bound) (use r in blast)
  then show ?thesis using r by (simp add: read_frame_eq)
qed

definition idle_pins :: spi_pins where
  "idle_pins = \<lparr>portd_psr = 0, portd_osr = 0, portd_odsr = push_bit 25 1, porta_psr = 0, porta_osr = 0,
     porta_pullup = 0, porta_pdsr = 0, latched = [True], seq_counter = 41\<rparr>"

lemma idle_pins_idle: "bus_idle idle_pins"
  by (simp add: bus_idle_def idle_pins_def bit_push_bit_iff bit_exp_iff)

theorem mcp3204_read_witness:
  "unat (fst (MCP3204_ReadChannel (\<lambda>_. True) 7 idle_pins)) < 4096"
  using mcp3204_read [OF idle_pins_idle, of "\<lambda>_. True" 7] by blast

text \<open>
  The data sheet's conversion: after any leading zeros, the start bit, the single-ended bit and
  three channel bits (of which D2 is ignored), bit \<open>i\<close> of the sample is on MISO at the
  \<open>(14 - i)\<close>-th clock after the channel bits.
\<close>

definition mcp3204_conforms :: "(bool list \<Rightarrow> bool) \<Rightarrow> (nat \<Rightarrow> u16) \<Rightarrow> bool" where
  "mcp3204_conforms adc sample \<longleftrightarrow>
     (\<forall>z d2 d1 d0 xs i. i < 12 \<longrightarrow> length xs = 14 - i \<longrightarrow>
        adc (replicate z False @ [True, True, d2, d1, d0] @ xs) = bit (sample (2 * of_bool d1 + of_bool d0)) i)"

lemma mcp3204_conformsD:
  "mcp3204_conforms adc sample \<Longrightarrow> i < 12 \<Longrightarrow> length xs = 14 - i \<Longrightarrow>
   adc (replicate z False @ [True, True, d2, d1, d0] @ xs) = bit (sample (2 * of_bool d1 + of_bool d0)) i"
  by (simp only: mcp3204_conforms_def)

lemma take_bit_2_nat: "take_bit 2 (n :: nat) = 2 * of_bool (bit n 1) + of_bool (bit n 0)"
proof -
  have "n mod 4 = 2 * (n div 2 mod 2) + n mod 2" using mod_mult2_eq [of n 2 2] by simp
  then show ?thesis by (simp add: take_bit_eq_mod bit_iff_odd mod_2_eq_odd)
qed

lemma take_prefix_padding:
  "length xs = 10 \<Longrightarrow> i \<le> 14 \<Longrightarrow> take (24 - i) (xs @ replicate 14 x) = xs @ replicate (14 - i) x"
  by (simp add: min_def)

text \<open>
  With a converter that follows its data sheet, a reading of channel \<open>ch\<close> returns the twelve
  bit sample of channel \<open>ch mod 4\<close>.
\<close>

theorem mcp3204_reads_sample:
  assumes "bus_idle s" "mcp3204_conforms adc sample" "\<forall>c. unat (sample c) < 4096"
  shows "fst (MCP3204_ReadChannel adc ch s) = sample (unat (ch AND 3))"
proof (rule bit_word_eqI)
  fix i assume i: "i < LENGTH(16)"
  let ?c = "2 * of_bool (bit ch 1) + of_bool (bit ch 0) :: nat"
  have "ch AND 3 = take_bit 2 ch" by (simp add: take_bit_eq_mask mask_eq_exp_minus_1)
  then have "unat (ch AND 3) = take_bit 2 (unat ch)" by (simp add: unsigned_take_bit_eq)
  also have "\<dots> = 2 * of_bool (bit (unat ch) 1) + of_bool (bit (unat ch) 0)"
    by (rule take_bit_2_nat)
  also have "\<dots> = ?c" by (simp add: bit_unsigned_iff)
  finally have c: "unat (ch AND 3) = ?c" .
  show "bit (fst (MCP3204_ReadChannel adc ch s)) i = bit (sample (unat (ch AND 3))) i"
  proof (cases "i < 12")
    case True
    define P where "P = replicate 5 False @ [True, True, False, bit ch 1, bit ch 0]"
    have "take (24 - i) (P @ replicate 14 False) = P @ replicate (14 - i) False"
      using True by (intro take_prefix_padding) (simp_all add: P_def)
    then have "take (24 - i) (read_frame ch) =
        replicate 5 False @ [True, True, False, bit ch 1, bit ch 0] @ replicate (14 - i) False"
      by (simp add: read_frame_eq P_def)
    moreover have "adc (replicate 5 False @ [True, True, False, bit ch 1, bit ch 0] @ replicate (14 - i) False) =
        bit (sample ?c) i"
      by (rule mcp3204_conformsD [OF assms(2) True]) simp
    ultimately show ?thesis
      using True i read_channel_bits [OF assms(1), of adc ch] unfolding c by simp
  next
    case False
    have "sample (unat (ch AND 3)) = take_bit 12 (sample (unat (ch AND 3)))"
      using assms(3) by (simp add: word_unat_eq_iff unsigned_take_bit_eq take_bit_nat_eq_self)
    then have "\<not> bit (sample (unat (ch AND 3))) i" using False by (metis bit_take_bit_iff)
    then show ?thesis using False i read_channel_bits [OF assms(1), of adc ch] by simp
  qed
qed

text \<open>A converter of that kind.\<close>

definition sample_adc :: "(nat \<Rightarrow> u16) \<Rightarrow> bool list \<Rightarrow> bool" where
  "sample_adc sample bs =
     (let b = dropWhile Not bs in bit (sample (2 * of_bool (b ! 3) + of_bool (b ! 4))) (19 - length b))"

lemma sample_adc_conforms: "mcp3204_conforms (sample_adc sample) sample"
  by (auto simp: mcp3204_conforms_def sample_adc_def Let_def dropWhile_append numeral_eq_Suc)

theorem mcp3204_reads_sample_witness:
  "fst (MCP3204_ReadChannel (sample_adc (\<lambda>c. of_nat (1000 + c mod 4))) 6 idle_pins) = 1002"
proof -
  have b: "\<forall>c. unat (of_nat (1000 + c mod 4) :: u16) < 4096"
  proof
    fix c :: nat
    have "c mod 4 < 4" by simp
    then have "unat (of_nat (1000 + c mod 4) :: u16) = 1000 + c mod 4"
      by (intro unat_of_nat_small) simp
    then show "unat (of_nat (1000 + c mod 4) :: u16) < 4096" using \<open>c mod 4 < 4\<close> by linarith
  qed
  show ?thesis
    using mcp3204_reads_sample [OF idle_pins_idle sample_adc_conforms b, of 6] by simp
qed

text \<open>
  A thumbstick reading gives coordinates below 4096, an angle in \<open>[-90, 90)\<close> that is zero
  exactly at the centre 2048, button 0 or 1, and sequence numbers that count up from one reading
  to the next.
\<close>

theorem mcp3204_thumbstick:
  assumes "bus_idle s"
  shows "case MCP3204_ReadThumbstick adc s of (d, s') \<Rightarrow>
    unat (ts_x d) < 4096 \<and> unat (ts_y d) < 4096 \<and> - 90 \<le> ts_angle d \<and> ts_angle d < 90 \<and>
    (ts_angle d = 0 \<longleftrightarrow> ts_x d = 2048) \<and> ts_btn d \<le> 1 \<and> ts_seq d = seq_counter s \<and>
    seq_counter s' = seq_counter s + 1 \<and> bus_idle s'"
proof -
  obtain x s1 where 1: "MCP3204_ReadChannel adc 0 s = (x, s1)" by fastforce
  obtain y s2 where 2: "MCP3204_ReadChannel adc 1 s1 = (y, s2)" by fastforce
  have b1: "unat x < 4096" "bus_idle s1" "seq_counter s1 = seq_counter s"
    using read_channel_bits [OF assms, of adc 0] bits_below_bound [of x] 1 by auto
  have b2: "unat y < 4096" "bus_idle s2" "seq_counter s2 = seq_counter s1"
    using read_channel_bits [OF b1(2), of adc 1] bits_below_bound [of y] 2 by auto
  have idle: "bus_idle (s2\<lparr>seq_counter := n\<rparr>)" for n using b2(2) by (simp add: bus_idle_def)
  have ang: "- 90 \<le> MCP3204_CalcAngle x \<and> MCP3204_CalcAngle x < 90 \<and> (MCP3204_CalcAngle x = 0 \<longleftrightarrow> x = 2048)"
  proof -
    have "(of_nat (unat x) :: rat) < 4096" using b1(1) by (metis of_nat_less_iff of_nat_numeral)
    moreover have "(of_nat (unat x) - 2048 = (0 :: rat)) \<longleftrightarrow> x = 2048"
    proof -
      have "(of_nat (unat x) = (2048 :: rat)) \<longleftrightarrow> unat x = 2048"
        using of_nat_eq_iff [where 'a = rat, of "unat x" 2048] by simp
      then show ?thesis by (simp add: word_unat_eq_iff)
    qed
    moreover have "(0 :: rat) \<le> of_nat (unat x)" by (rule of_nat_0_le_iff)
    ultimately show ?thesis by (simp add: MCP3204_CalcAngle_def field_simps)
  qed
  show ?thesis
    using b1 b2 idle ang by (simp add: MCP3204_ReadThumbstick_def 1 2 Let_def)
qed

theorem mcp3204_thumbstick_witness:
  "ts_seq (fst (MCP3204_ReadThumbstick (\<lambda>_. False) idle_pins)) = 41"
  using mcp3204_thumbstick [OF idle_pins_idle, of "\<lambda>_. False"]
  by (simp add: case_prod_beta) (simp add: idle_pins_def)

end
