(* ===== verification/Json.thy ===== *)
theory Json
  imports Mcp3204 Format
begin

text \<open>
  The text of the node's messages: the scanner \<open>json_get_string\<close> of \<open>app_zenoh.c\<close> and the
  \<open>snprintf\<close> that builds the steering message.
\<close>

section \<open>Scanning\<close>

text \<open>\<open>strstr\<close>: the rest of the string from the first occurrence on.\<close>

fun strstr :: "bytes \<Rightarrow> bytes \<Rightarrow> bytes option" where
  "strstr h n =
     (if take (length n) h = n then Some h
      else case h of [] \<Rightarrow> None | _ # h' \<Rightarrow> strstr h' n)"

declare strstr.simps [simp del]

text \<open>
  The value for a key in a NUL-terminated text: whether one was found, and the string stored in
  \<open>out\<close> (\<open>None\<close> where nothing is stored). Bytes 58, 32, 9, 34 are colon, blank, tab, quote.
\<close>

definition json_get_string :: "bytes \<Rightarrow> string \<Rightarrow> nat \<Rightarrow> bool \<times> bytes option" where
  "json_get_string json key out_size =
     (let (search, slen) = snprintf_to (replicate 32 0) (34 # str_bytes key @ [34])
      in case strstr json (cstr search) of
           None \<Rightarrow> (False, None)
         | Some p \<Rightarrow>
             let p1 = dropWhile (\<lambda>b. b = 58 \<or> b = 32 \<or> b = 9) (drop slen p)
             in if p1 = [] \<or> hd p1 \<noteq> 34 then (False, None)
                else let v = take (out_size - 1) (takeWhile (\<lambda>b. b \<noteq> 34) (tl p1))
                     in (v \<noteq> [], Some v))"

lemma strstr_here: "take (length n) h = n \<Longrightarrow> strstr h n = Some h"
  by (subst strstr.simps) simp

lemma strstr_there: "take (length n) (x # h) \<noteq> n \<Longrightarrow> strstr (x # h) n = strstr h n"
  by (subst strstr.simps) simp

lemma strstr_suffix: "strstr h n = Some p \<Longrightarrow> \<exists>pre. h = pre @ p \<and> take (length n) p = n"
proof (induction h)
  case Nil
  then show ?case by (subst (asm) strstr.simps) (auto split: if_splits)
next
  case (Cons x h)
  show ?case
  proof (cases "take (length n) (x # h) = n")
    case True
    then show ?thesis using Cons.prems by (simp add: strstr_here)
  next
    case False
    then show ?thesis using Cons strstr_there by (metis append_Cons)
  qed
qed

lemma json_get_string_bound:
  assumes "json_get_string json key n = (ok, Some v)"
  shows "length v \<le> n - 1 \<and> (ok \<longleftrightarrow> v \<noteq> [])"
  using assms by (auto simp: json_get_string_def Let_def split: option.splits if_splits prod.splits)

section \<open>The steering message\<close>

text \<open>\<open>%.1f\<close> of an exactly representable value, rounded half to even.\<close>

definition round_tenths :: "rat \<Rightarrow> nat" where
  "round_tenths q =
     (let k = nat \<lfloor>q * 10\<rfloor>; r = q * 10 - of_nat k
      in if 1 / 2 < r \<or> (r = 1 / 2 \<and> odd k) then k + 1 else k)"

definition fmt_f1 :: "rat \<Rightarrow> bytes" where
  "fmt_f1 q =
     (let n = round_tenths \<bar>q\<bar>
      in (if q < 0 then [45] else []) @ dec_digits (n div 10) @ [46] @ dec_digits (n mod 10))"

definition steering_text :: "thumbstick_data_t \<Rightarrow> nat \<Rightarrow> u8 \<Rightarrow> u16 \<Rightarrow> bytes" where
  "steering_text ts safety dtcs ep =
     str_bytes ''{\"x\":'' @ dec_digits (unat (ts_x ts)) @
     str_bytes '',\"y\":'' @ dec_digits (unat (ts_y ts)) @
     str_bytes '',\"btn\":'' @ dec_digits (unat (ts_btn ts)) @
     str_bytes '',\"angle\":'' @ fmt_f1 (ts_angle ts) @
     str_bytes '',\"seq\":'' @ dec_digits (unat (ts_seq ts)) @
     str_bytes '',\"safety\":'' @ dec_digits safety @
     str_bytes '',\"dtc_count\":'' @ dec_digits (unat dtcs) @
     str_bytes '',\"key_epoch\":'' @ dec_digits (unat ep) @ str_bytes ''}''"

lemma round_tenths_bound:
  assumes "0 \<le> q" "q \<le> of_nat m"
  shows "round_tenths q \<le> 10 * m + 1"
proof -
  have "\<lfloor>q * 10\<rfloor> \<le> int (10 * m)"
  proof -
    have "q * 10 \<le> of_int (int (10 * m))" using assms(2) by simp
    then show ?thesis by (metis floor_mono floor_of_int)
  qed
  then have "nat \<lfloor>q * 10\<rfloor> \<le> 10 * m" by linarith
  then show ?thesis by (auto simp: round_tenths_def Let_def)
qed

lemma fmt_f1_length:
  assumes "\<bar>q\<bar> \<le> 9000"
  shows "length (fmt_f1 q) \<le> 7"
proof -
  have "round_tenths \<bar>q\<bar> \<le> 10 * 9000 + 1"
    by (rule round_tenths_bound) (use assms in simp_all)
  then have "round_tenths \<bar>q\<bar> div 10 < 10 ^ Suc 3" by simp
  then have "length (dec_digits (round_tenths \<bar>q\<bar> div 10)) \<le> 4" using dec_digits_length by fastforce
  moreover have "length (dec_digits (round_tenths \<bar>q\<bar> mod 10)) \<le> 1"
    using dec_digits_length [of "round_tenths \<bar>q\<bar> mod 10" 0] by simp
  moreover define n where "n = round_tenths \<bar>q\<bar>"
  ultimately show ?thesis unfolding fmt_f1_def Let_def n_def [symmetric] by auto
qed

text \<open>The message always fits its 192 byte buffer.\<close>

lemma steering_text_length:
  assumes "\<bar>ts_angle ts\<bar> \<le> 9000" "safety < 10"
  shows "length (steering_text ts safety dtcs ep) \<le> 110"
proof -
  have "length (dec_digits safety) \<le> 1" using dec_digits_length [of safety 0] assms(2) by simp
  then show ?thesis
    using dec_digits_u16 [of "ts_x ts"] dec_digits_u16 [of "ts_y ts"] dec_digits_u8 [of "ts_btn ts"]
      dec_digits_u32 [of "ts_seq ts"] dec_digits_u8 [of dtcs] dec_digits_u16 [of ep]
      fmt_f1_length [OF assms(1)]
    by (simp add: steering_text_def str_bytes_def)
qed

lemma calc_angle_bound: "\<bar>MCP3204_CalcAngle x\<bar> \<le> 9000"
proof -
  have "(of_nat (unat x) :: rat) < of_nat 65536" unfolding of_nat_less_iff by simp
  moreover have "(0 :: rat) \<le> of_nat (unat x)" by (rule of_nat_0_le_iff)
  ultimately show ?thesis by (simp add: MCP3204_CalcAngle_def abs_le_iff field_simps)
qed

end
