(* ===== verification/Node.thy ===== *)
theory Node
  imports Safety Dtc Ids Flow KeyMgr Watchdog Json
begin

text \<open>
  The control node of \<open>app_zenoh.c\<close>: the global state, \<open>record_dtc\<close>, \<open>decode_secure_message\<close>,
  the two subscriber callbacks and one turn of the main loop of \<open>zenoh_task\<close>.

  \<^item> \<open>clk i\<close> is what the \<open>i\<close>-th reading of the tick counter in a callback or turn returns; no
    relation between the readings is assumed.
  \<^item> \<open>junk\<close> is what the local variables hold on the stack before they are written.
  \<^item> \<open>z_publisher_put\<close> of zenoh-pico appends its bytes to \<open>published\<close>; a sample handed to a
    callback is the byte list that \<open>z_bytes_to_slice\<close> gives.
\<close>

section \<open>State\<close>

record node =
  safety :: safety_manager_t
  io :: board
  headlight_on :: bool
  hazard_on :: bool
  hazard_last_toggle :: u32
  sw0_press_count :: u32
  use_thumbstick :: bool
  steering_counter :: e2e_counter_state_t
  headlight_checker :: e2e_seq_checker_t
  hazard_checker :: e2e_seq_checker_t
  steering_freshness :: secoc_freshness_t
  ids :: ids_engine_t
  dtc :: dtc_manager_t
  flow :: flow_monitor_t
  key :: key_manager_t
  last_self_test_tick :: u32
  msg_count :: u32
  pins :: spi_pins
  wdt :: wdt_regs
  published :: "bytes list"

record stack_junk =
  jk_hdr :: e2e_header_t
  jk_json :: bytes
  jk_payload :: bytes
  jk_e2e :: bytes
  jk_secoc :: bytes

type_synonym clock = "nat \<Rightarrow> u32"

abbreviation (input) HAZARD_BLINK_MS :: u32 where "HAZARD_BLINK_MS \<equiv> 500"
abbreviation (input) SELF_TEST_INTERVAL_MS :: u32 where "SELF_TEST_INTERVAL_MS \<equiv> 10000"

section \<open>Receiving\<close>

definition node_fault :: "fault_type_t \<Rightarrow> u32 \<Rightarrow> node \<Rightarrow> node" where
  "node_fault f tick n =
     (let (sm, b) = safety_report_fault f tick (safety n, io n) in n\<lparr>safety := sm, io := b\<rparr>)"

definition record_dtc :: "u16 \<Rightarrow> u16 \<Rightarrow> u32 \<Rightarrow> node \<Rightarrow> node" where
  "record_dtc c sq tick n =
     (let ff = \<lparr>ff_tick = tick, ff_last_seq = sq,
                ff_safety_state = of_nat (safety_state_num (safety_get_state (safety n))),
                ff_fault_count = ucast (total_faults (safety n))\<rparr>
      in n\<lparr>dtc := dtc_record c ff (dtc n)\<rparr>)"

text \<open>
  The result: whether the message is good, the header and the JSON buffer as left, the sequence
  checker and the node.
\<close>

definition decode_secure_message ::
  "clock \<Rightarrow> bytes \<Rightarrow> e2e_header_t \<Rightarrow> bytes \<Rightarrow> e2e_seq_checker_t \<Rightarrow> u16 \<Rightarrow> node \<Rightarrow>
   bool \<times> e2e_header_t \<times> bytes \<times> e2e_seq_checker_t \<times> node" where
  "decode_secure_message clk raw hdr0 json0 chk did n =
     (let (allowed, ids') = ids_check_message did (of_nat (length raw)) (clk 0) (ids n);
          n1 = n\<lparr>ids := ids'\<rparr>
      in if \<not> allowed then
           (False, hdr0, json0, chk, record_dtc DTC_FLOOD 0 (clk 2) (node_fault FAULT_FLOOD (clk 1) n1))
         else case secoc_decode_ex raw (key_get_node_key (key n1)) (clk 1) of
           (ok, e2e_len, result) \<Rightarrow>
             if \<not> ok then
               (False, hdr0, json0, chk,
                record_dtc DTC_MAC_FAILURE 0 (clk 3) (node_fault FAULT_MAC_FAILURE (clk 2) n1))
             else if \<not> freshness_valid result then
               (False, hdr0, json0, chk,
                record_dtc DTC_REPLAY 0 (clk 3) (node_fault FAULT_REPLAY (clk 2) n1))
             else case e2e_decode (take (the e2e_len) raw) hdr0 of
               (st, hdr, payload) \<Rightarrow>
                 if st \<noteq> E2E_OK then
                   (False, hdr, json0, chk,
                    record_dtc DTC_CRC_FAILURE (sequence_counter hdr) (clk 3)
                      (node_fault FAULT_CRC_FAILURE (clk 2) n1))
                 else
                   let (seq_st, chk') = e2e_seq_check chk (sequence_counter hdr)
                   in if seq_st = E2E_ERR_SEQ_GAP \<or> seq_st = E2E_ERR_SEQ_REPEATED then
                        (False, hdr, json0, chk',
                         record_dtc DTC_SEQ_ERROR (sequence_counter hdr) (clk 3)
                           (node_fault FAULT_SEQ_ERROR (clk 2) n1))
                      else if length json0 \<le> length (the payload) then (False, hdr, json0, chk', n1)
                      else
                        (True, hdr, memcpy_at json0 0 (the payload @ [0]), chk',
                         n1\<lparr>safety := safety_report_ok (safety n1),
                            flow := flow_actuator_received (clk 2) (flow n1)\<rparr>))"

text \<open>What the callbacks do with a message that passed, once it is decided.\<close>

definition headlight_apply :: "bytes \<Rightarrow> node \<Rightarrow> node" where
  "headlight_apply json n =
     (case json_get_string (cstr json) ''state'' 8 of
        (True, Some v) \<Rightarrow>
          if v = str_bytes ''on'' then n\<lparr>io := LED1_On (io n), headlight_on := True\<rparr>
          else if v = str_bytes ''off'' then n\<lparr>io := LED1_Off (io n), headlight_on := False\<rparr>
          else n
      | _ \<Rightarrow> n)"

definition hazard_apply :: "u32 \<Rightarrow> bytes \<Rightarrow> node \<Rightarrow> node" where
  "hazard_apply tick json n =
     (case json_get_string (cstr json) ''state'' 8 of
        (True, Some v) \<Rightarrow>
          if v = str_bytes ''on'' then n\<lparr>hazard_on := True, hazard_last_toggle := tick\<rparr>
          else if v = str_bytes ''off'' then n\<lparr>hazard_on := False, io := LED2_Off (io n)\<rparr>
          else n
      | _ \<Rightarrow> n)"

text \<open>
  A callback up to and including its test of \<open>safety_actuator_allowed\<close>: the node, and the JSON
  buffer if the message may be acted on.
\<close>

definition headlight_check :: "clock \<Rightarrow> stack_junk \<Rightarrow> bytes \<Rightarrow> node \<Rightarrow> node \<times> bytes option" where
  "headlight_check clk junk raw n =
     (if length raw \<le> E2E_HEADER_SIZE + SECOC_OVERHEAD then (n, None)
      else case decode_secure_message clk raw (jk_hdr junk) (jk_json junk) (headlight_checker n)
                  DATA_ID_HEADLIGHT n of
        (secure, hdr, json, chk, n1) \<Rightarrow>
          let n2 = n1\<lparr>headlight_checker := chk\<rparr>
          in if \<not> secure then (n2, None)
             else if data_id hdr \<noteq> DATA_ID_HEADLIGHT then (node_fault FAULT_CRC_FAILURE (clk 4) n2, None)
             else if \<not> safety_actuator_allowed (safety n2) then (n2, None)
             else (n2, Some json))"

definition headlight_handler :: "clock \<Rightarrow> stack_junk \<Rightarrow> bytes \<Rightarrow> node \<Rightarrow> node" where
  "headlight_handler clk junk raw n =
     (case headlight_check clk junk raw n of
        (n', None) \<Rightarrow> n'
      | (n', Some json) \<Rightarrow> headlight_apply json n')"

definition hazard_check :: "clock \<Rightarrow> stack_junk \<Rightarrow> bytes \<Rightarrow> node \<Rightarrow> node \<times> bytes option" where
  "hazard_check clk junk raw n =
     (if length raw \<le> E2E_HEADER_SIZE + SECOC_OVERHEAD then (n, None)
      else case decode_secure_message clk raw (jk_hdr junk) (jk_json junk) (hazard_checker n)
                  DATA_ID_HAZARD n of
        (secure, hdr, json, chk, n1) \<Rightarrow>
          let n2 = n1\<lparr>hazard_checker := chk\<rparr>
          in if \<not> secure then (n2, None)
             else if data_id hdr \<noteq> DATA_ID_HAZARD then (node_fault FAULT_CRC_FAILURE (clk 4) n2, None)
             else if \<not> safety_actuator_allowed (safety n2) then (n2, None)
             else (n2, Some json))"

definition hazard_handler :: "clock \<Rightarrow> stack_junk \<Rightarrow> bytes \<Rightarrow> node \<Rightarrow> node" where
  "hazard_handler clk junk raw n =
     (case hazard_check clk junk raw n of
        (n', None) \<Rightarrow> n'
      | (n', Some json) \<Rightarrow> hazard_apply (clk 4) json n')"

section \<open>The main loop\<close>

text \<open>The sensor reading, or its simulation with the button of the board.\<close>

definition node_read_sensor :: "(bool list \<Rightarrow> bool) \<Rightarrow> node \<Rightarrow> thumbstick_data_t \<times> node" where
  "node_read_sensor adc n =
     (if use_thumbstick n then
        let (ts, p) = MCP3204_ReadThumbstick adc (pins n) in (ts, n\<lparr>pins := p\<rparr>)
      else
        let sw0 = (SWITCH_Get (io n) = 0);
            n1 = (if sw0 then n\<lparr>sw0_press_count := sw0_press_count n + 1\<rparr> else n);
            sim_x = (if sw0 then if sw0_press_count n1 mod 2 = 0 then 1024 else 3072 else 2048)
        in (\<lparr>ts_x = sim_x, ts_y = 2048, ts_btn = (if sw0 then 1 else 0),
             ts_angle = MCP3204_CalcAngle sim_x, ts_seq = msg_count n\<rparr>, n1))"

definition node_self_test :: "(u32 \<Rightarrow> u32) \<Rightarrow> u32 \<Rightarrow> u32 \<Rightarrow> node \<Rightarrow> node" where
  "node_self_test ram now tick n =
     (if SELF_TEST_INTERVAL_MS \<le> now - last_self_test_tick n then
        let (ok, sm, b) = safety_periodic_test ram tick (safety n, io n)
        in n\<lparr>safety := sm, io := b, last_self_test_tick := now\<rparr>
      else n)"

text \<open>Building, protecting and publishing the steering message.\<close>

definition node_publish :: "stack_junk \<Rightarrow> u32 \<Rightarrow> thumbstick_data_t \<Rightarrow> node \<Rightarrow> node" where
  "node_publish junk tick ts n =
     (let (json_payload, json_len) =
            snprintf_to (jk_payload junk)
              (steering_text ts (safety_state_num (safety_get_state (safety n)))
                 (dtc_get_count (dtc n)) (key_get_epoch (key n)));
          n1 = n\<lparr>flow := flow_checkpoint CP_E2E_ENCODE (flow n)\<rparr>;
          (e2e_len, counter', e2e_buf) =
            e2e_encode (take json_len json_payload) DATA_ID_STEERING (steering_counter n1) (jk_e2e junk);
          n2 = n1\<lparr>steering_counter := counter', flow := flow_checkpoint CP_SECOC_ENCODE (flow n1)\<rparr>;
          (secoc_len, freshness', secoc_buf) =
            secoc_encode (take e2e_len e2e_buf) (key_get_node_key (key n2)) (steering_freshness n2)
              tick (jk_secoc junk);
          n3 = n2\<lparr>steering_freshness := freshness'\<rparr>;
          n4 = (if 0 < secoc_len then n3\<lparr>published := published n3 @ [take secoc_len secoc_buf]\<rparr> else n3)
      in n4\<lparr>flow := flow_checkpoint CP_PUBLISH (flow n4)\<rparr>)"

definition node_verify_flow :: "u32 \<Rightarrow> u32 \<Rightarrow> node \<Rightarrow> node" where
  "node_verify_flow tick1 tick2 n =
     (let (ok, fm) = flow_verify_cycle (flow n);
          n1 = n\<lparr>flow := fm\<rparr>
      in if \<not> ok
         then record_dtc DTC_FLOW_ERROR (ucast (msg_count n1)) tick2 (node_fault FAULT_FLOW tick1 n1)
         else n1)"

text \<open>The blink test and what it guards; the read task can run between the two.\<close>

definition blink_due :: "u32 \<Rightarrow> node \<Rightarrow> bool" where
  "blink_due now n \<longleftrightarrow>
     hazard_on n \<and> safety_actuator_allowed (safety n) \<and> HAZARD_BLINK_MS \<le> now - hazard_last_toggle n"

definition blink_toggle :: "u32 \<Rightarrow> node \<Rightarrow> node" where
  "blink_toggle now n = n\<lparr>io := LED2_Toggle (io n), hazard_last_toggle := now\<rparr>"

definition node_blink :: "u32 \<Rightarrow> node \<Rightarrow> node" where
  "node_blink now n = (if blink_due now n then blink_toggle now n else n)"

text \<open>The calls of a turn of the loop, in their order, each on the node as the one before left it.\<close>

definition node_feed :: "node \<Rightarrow> node" where
  "node_feed n = n\<lparr>wdt := watchdog_feed (wdt n)\<rparr>"

definition node_tick :: "u32 \<Rightarrow> node \<Rightarrow> node" where
  "node_tick now n = (let (sm, b) = safety_tick now (safety n, io n) in n\<lparr>safety := sm, io := b\<rparr>)"

definition node_sense :: "(bool list \<Rightarrow> bool) \<Rightarrow> node \<Rightarrow> thumbstick_data_t \<times> node" where
  "node_sense adc n = node_read_sensor adc (n\<lparr>flow := flow_checkpoint CP_SENSOR_READ (flow n)\<rparr>)"

definition node_count :: "node \<Rightarrow> node" where
  "node_count n = n\<lparr>msg_count := msg_count n + 1\<rparr>"

text \<open>A turn that nothing interrupts.\<close>

definition node_turn :: "(bool list \<Rightarrow> bool) \<Rightarrow> (u32 \<Rightarrow> u32) \<Rightarrow> clock \<Rightarrow> stack_junk \<Rightarrow> node \<Rightarrow> node" where
  "node_turn adc ram clk junk n =
     (let now = clk 0;
          n2 = node_self_test ram now (clk 1) (node_tick now (node_feed n));
          (ts, n4) = node_sense adc n2;
          n5 = node_publish junk (clk 2) ts n4;
          n6 = node_verify_flow (clk 3) (clk 4) n5
      in node_count (node_blink now n6))"

section \<open>Start-up\<close>

text \<open>
  The statics as the C start-up leaves them, after \<open>SYS_Initialize\<close> has run \<open>BSP_Initialize\<close>
  and written the watchdog's mode register.
\<close>

definition node_reset :: "board \<Rightarrow> spi_pins \<Rightarrow> node" where
  "node_reset b p =
     \<lparr>safety = \<lparr>sm_state = SAFETY_NORMAL, fault_counts = replicate 9 0, total_faults = 0,
                consecutive_ok = 0, degraded_enter_tick = 0, self_test_passed = False\<rparr>,
      io = BSP_Initialize b, headlight_on = False, hazard_on = False, hazard_last_toggle = 0,
      sw0_press_count = 0, use_thumbstick = False, steering_counter = \<lparr>seq = 0, alive = 0\<rparr>,
      headlight_checker = \<lparr>last_seq = 0, max_gap = 0, valid_count = 0, init_count = 0\<rparr>,
      hazard_checker = \<lparr>last_seq = 0, max_gap = 0, valid_count = 0, init_count = 0\<rparr>,
      steering_freshness = \<lparr>counter = 0\<rparr>,
      ids = \<lparr>channels = replicate 4 zero_channel, channel_count = 0, total_alerts = 0\<rparr>,
      dtc = \<lparr>dtc_entries = replicate 16 zero_entry, dtc_count = 0, write_idx = 0, total_dtcs = 0\<rparr>,
      flow = \<lparr>checkpoints_hit = 0, last_actuator_tick = 0, total_flow_errors = 0,
              total_deadline_misses = 0, deadline_active = False\<rparr>,
      key = \<lparr>master_key = replicate 32 0, node_key = replicate 32 0, epoch = 0, node_id = replicate 16 0\<rparr>,
      last_self_test_tick = 0, msg_count = 0, pins = p, wdt = Sys_initialize_wdt wdt_reset,
      published = []\<rparr>"

definition node_init_subsystems :: "bytes \<Rightarrow> e2e_header_t \<Rightarrow> bytes \<Rightarrow> node \<Rightarrow> node" where
  "node_init_subsystems buf0 hdr0 input0 n =
     (let n1 = n\<lparr>safety := safety_init (safety n),
                 headlight_checker := e2e_seq_checker_init E2E_ASILD_MAX_GAP,
                 hazard_checker := e2e_seq_checker_init E2E_ASILD_MAX_GAP,
                 ids := ids_register_channel DATA_ID_HAZARD
                          (ids_register_channel DATA_ID_HEADLIGHT (ids_init (ids n))),
                 dtc := dtc_init (dtc n), flow := flow_init (flow n),
                 key := key_init input0 SECOC_TEST_KEY (str_bytes ''front_left/1'') (key n)\<rparr>;
          (pass, sm) = safety_self_test buf0 hdr0 (safety n1);
          n2 = n1\<lparr>safety := sm\<rparr>
      in if pass then n2 else n2\<lparr>io := safety_execute_safe_action (io n2)\<rparr>)"

text \<open>Readings in \<open>(100, 3995)\<close> on one of the first two channels mean a thumbstick.\<close>

definition node_init_sensor :: "(bool list \<Rightarrow> bool) \<Rightarrow> node \<Rightarrow> node" where
  "node_init_sensor adc n =
     (let p0 = MCP3204_Initialize adc (pins n);
          (c0, p1) = MCP3204_ReadChannel adc 0 p0;
          (c1, p2) = MCP3204_ReadChannel adc 1 p1;
          (c2, p3) = MCP3204_ReadChannel adc 2 p2;
          (c3, p4) = MCP3204_ReadChannel adc 3 p3
      in n\<lparr>pins := p4,
           use_thumbstick := (if (100 < c0 \<and> c0 < 3995) \<or> (100 < c1 \<and> c1 < 3995) then True
                              else use_thumbstick n)\<rparr>)"

text \<open>At most five attempts to open the session; \<open>opens\<close> is how the attempts turn out.\<close>

fun node_connect :: "nat \<Rightarrow> bool list \<Rightarrow> node \<Rightarrow> node option" where
  "node_connect 0 opens n = None"
| "node_connect (Suc k) [] n = None"
| "node_connect (Suc k) (ok # opens) n =
     (let n1 = n\<lparr>wdt := watchdog_feed (wdt n)\<rparr>
      in if ok then Some n1 else node_connect k opens n1)"

text \<open>
  \<open>zenoh_task\<close> up to its main loop; \<open>None\<close> where the task deletes itself. \<open>tasks\<close> says whether
  the read and lease tasks start.
\<close>

definition node_start ::
  "(bool list \<Rightarrow> bool) \<Rightarrow> bytes \<Rightarrow> e2e_header_t \<Rightarrow> bytes \<Rightarrow> bool list \<Rightarrow> bool \<Rightarrow> u32 \<Rightarrow> node \<Rightarrow> node option" where
  "node_start adc buf0 hdr0 input0 opens tasks tick n =
     (let n1 = node_init_subsystems buf0 hdr0 input0 n;
          n2 = n1\<lparr>wdt := watchdog_feed (watchdog_feed (watchdog_init (wdt n1)))\<rparr>;
          n3 = node_init_sensor adc n2;
          n4 = n3\<lparr>wdt := watchdog_feed (wdt n3)\<rparr>
      in case node_connect 5 opens n4 of
           None \<Rightarrow> None
         | Some n5 \<Rightarrow>
             if \<not> tasks then None
             else Some (n5\<lparr>wdt := watchdog_feed (wdt n5), msg_count := 0, last_self_test_tick := tick\<rparr>))"

section \<open>Runs\<close>

text \<open>The stack has buffers of the declared sizes.\<close>

definition junk_ok :: "stack_junk \<Rightarrow> bool" where
  "junk_ok j \<longleftrightarrow> length (jk_json j) = 64 \<and> length (jk_payload j) = 192 \<and>
     length (jk_e2e j) = 300 \<and> length (jk_secoc j) = 400"

text \<open>
  Where the main loop stands between two of its calls, with the locals \<open>now\<close> and \<open>ts\<close> that are
  alive there.
\<close>

datatype main_at =
  Loop_top
| At_tick u32
| At_self_test u32
| At_sensor u32
| At_publish u32 thumbstick_data_t
| At_verify u32
| At_blink u32
| At_toggle u32
| At_count

text \<open>
  The read task of zenoh-pico has the higher priority (\<open>configMAX_PRIORITIES / 2\<close> against 1 of
  \<open>zenoh_task\<close>): a sample can arrive wherever the main loop stands, and its callback is over before
  the main loop goes on. So a callback is one step, at any place, and the main loop makes one step
  for each of its calls; the blink test and the toggle it decides on are two. The pin of the button
  changes at any time, and the sensor, the clock, the memory test cell and the stack are new in
  every step. What a callback finds when it interrupts one of these calls in its middle is not
  modelled.
\<close>

inductive node_step :: "node \<times> main_at \<Rightarrow> node \<times> main_at \<Rightarrow> bool" where
  headlight: "junk_ok j \<Longrightarrow> node_step (n, pc) (headlight_handler clk j raw n, pc)"
| hazard: "junk_ok j \<Longrightarrow> node_step (n, pc) (hazard_handler clk j raw n, pc)"
| button: "node_step (n, pc) (n\<lparr>io := (io n)\<lparr>pioa_pdsr := v\<rparr>\<rparr>, pc)"
| feed: "node_step (n, Loop_top) (node_feed n, At_tick now)"
| tick: "node_step (n, At_tick now) (node_tick now n, At_self_test now)"
| self_test: "node_step (n, At_self_test now) (node_self_test ram now t n, At_sensor now)"
| sensor: "node_sense adc n = (ts, n') \<Longrightarrow> node_step (n, At_sensor now) (n', At_publish now ts)"
| publish: "junk_ok j \<Longrightarrow> node_step (n, At_publish now ts) (node_publish j t ts n, At_verify now)"
| verify: "node_step (n, At_verify now) (node_verify_flow t t' n, At_blink now)"
| blink: "node_step (n, At_blink now) (n, if blink_due now n then At_toggle now else At_count)"
| toggle: "node_step (n, At_toggle now) (blink_toggle now n, At_count)"
| count: "node_step (n, At_count) (node_count n, Loop_top)"

inductive node_reachable :: "node \<times> main_at \<Rightarrow> bool" where
  start: "node_start adc buf0 hdr0 input0 opens tasks tick (node_reset b p) = Some n \<Longrightarrow>
      length buf0 = 64 \<Longrightarrow> length input0 = 48 \<Longrightarrow> node_reachable (n, Loop_top)"
| step: "node_reachable s \<Longrightarrow> node_step s s' \<Longrightarrow> node_reachable s'"

inductive_cases node_stepE: "node_step (n, pc) (n', pc')"

lemmas node_step_cases = node_stepE [consumes 1, case_names headlight hazard button feed tick self_test
    sensor publish verify blink toggle count]

lemma reachable_run: "node_step\<^sup>*\<^sup>* s s' \<Longrightarrow> node_reachable s \<Longrightarrow> node_reachable s'"
  by (induction rule: rtranclp_induct) (auto intro: node_reachable.step)

text \<open>Without interruption the steps of the loop are a turn.\<close>

lemma turn_is_a_run:
  assumes "junk_ok j"
  shows "node_step\<^sup>*\<^sup>* (n, Loop_top) (node_turn adc ram clk j n, Loop_top)"
proof -
  define n2 where "n2 = node_self_test ram (clk 0) (clk 1) (node_tick (clk 0) (node_feed n))"
  obtain ts n4 where s: "node_sense adc n2 = (ts, n4)" by fastforce
  define n6 where "n6 = node_verify_flow (clk 3) (clk 4) (node_publish j (clk 2) ts n4)"
  have "node_step\<^sup>*\<^sup>* (n, Loop_top) (n2, At_sensor (clk 0))"
    unfolding n2_def
    by (rule converse_rtranclp_into_rtranclp, rule node_step.feed, rule converse_rtranclp_into_rtranclp,
        rule node_step.tick, rule r_into_rtranclp, rule node_step.self_test)
  moreover have "node_step\<^sup>*\<^sup>* (n2, At_sensor (clk 0)) (n6, At_blink (clk 0))"
    unfolding n6_def
    by (rule converse_rtranclp_into_rtranclp, rule node_step.sensor [OF s],
        rule converse_rtranclp_into_rtranclp, rule node_step.publish [OF assms],
        rule r_into_rtranclp, rule node_step.verify)
  moreover have "node_step\<^sup>*\<^sup>* (n6, At_blink (clk 0)) (node_blink (clk 0) n6, At_count)"
  proof (cases "blink_due (clk 0) n6")
    case True
    then have "node_step (n6, At_blink (clk 0)) (n6, At_toggle (clk 0))"
      using node_step.blink [of n6 "clk 0"] by simp
    then show ?thesis
      using True node_step.toggle [of n6 "clk 0"]
      by (simp add: node_blink_def converse_rtranclp_into_rtranclp r_into_rtranclp)
  next
    case False
    then show ?thesis using node_step.blink [of n6 "clk 0"] by (simp add: node_blink_def r_into_rtranclp)
  qed
  moreover have "node_step (node_blink (clk 0) n6, At_count) (node_turn adc ram clk j n, Loop_top)"
    unfolding node_turn_def Let_def n2_def [symmetric] s prod.case n6_def [symmetric] by (rule node_step.count)
  ultimately show ?thesis by (meson rtranclp.rtrancl_into_rtrancl rtranclp_trans)
qed

end
