(* ===== verification/NodeSafety.thy ===== *)
theory NodeSafety
  imports Node
begin

text \<open>
  What holds of the node in every reachable state, whatever samples arrive, wherever they interrupt
  the main loop between two of its calls, and whatever the clock and the sensor show: the invariant
  \<open>node_inv\<close>, what each operation leaves alone, and \<open>loop_inv\<close> over the steps of \<open>node_step\<close>.
\<close>

section \<open>The invariant\<close>

definition NODE_ID :: bytes where
  "NODE_ID = str_bytes ''front_left/1''"

definition NODE_KEY :: bytes where
  "NODE_KEY = key_of SECOC_TEST_KEY 1 NODE_ID"

definition node_inv :: "node \<Rightarrow> bool" where
  "node_inv n \<longleftrightarrow> length (fault_counts (safety n)) = 9 \<and> ids_wf (ids n) \<and>
     dtc_inv (dtc n) \<and> bus_idle (pins n) \<and> node_key (key n) = NODE_KEY \<and> epoch (key n) = 1"

text \<open>The parts of the node an operation leaves alone.\<close>

lemma node_fault_eq:
  "node_fault f t n =
     n\<lparr>safety := fst (safety_report_fault f t (safety n, io n)),
       io := snd (safety_report_fault f t (safety n, io n))\<rparr>"
  by (simp add: node_fault_def case_prod_beta Let_def)

lemma dtc_record_inv: "dtc_inv d \<Longrightarrow> dtc_inv (dtc_record c ff d)"
  using dtc_step_refines [of d "Dtc_record c ff"] by simp

lemma ids_check_wf: "ids_wf i \<Longrightarrow> ids_wf (snd (ids_check_message did sz t i))"
  by (cases "find_channel i did") (auto simp: ids_check_message_def dest: ids_check_effect(2))

lemma inv_fault [intro]: "node_inv n \<Longrightarrow> node_inv (node_fault f t n)"
  by (simp add: node_inv_def node_fault_eq)

lemma inv_dtc [intro]: "node_inv n \<Longrightarrow> node_inv (record_dtc c sq t n)"
  by (simp add: node_inv_def record_dtc_def Let_def dtc_record_inv)

lemma inv_ids [intro]:
  "node_inv n \<Longrightarrow> node_inv (n\<lparr>ids := snd (ids_check_message did sz t (ids n))\<rparr>)"
  by (simp add: node_inv_def ids_check_wf)

lemma inv_ok [intro]:
  "node_inv n \<Longrightarrow> node_inv (n\<lparr>safety := safety_report_ok (safety n),
     flow := flow_actuator_received t (flow n)\<rparr>)"
  by (simp add: node_inv_def)

lemma inv_checkers [simp]:
  "node_inv (n\<lparr>headlight_checker := c\<rparr>) = node_inv n" "node_inv (n\<lparr>hazard_checker := c\<rparr>) = node_inv n"
  by (simp_all add: node_inv_def)

section \<open>Receiving\<close>

lemma secoc_msg_ok_ts:
  assumes "secoc_msg_ok (msg, ts, c)"
  shows "uint ts < 2 ^ 48"
proof -
  have "uint (take_bit 48 ts) = take_bit 48 (uint ts)" by (simp add: unsigned_take_bit_eq)
  then have "uint ts = take_bit 48 (uint ts)" using assms by (simp add: secoc_msg_ok_def)
  also have "\<dots> < 2 ^ 48" by (rule take_bit_int_less_exp)
  finally show ?thesis .
qed

text \<open>
  The outcomes of \<open>decode_secure_message\<close>: a fault and a trouble code, a good message dropped for
  its length, or acceptance. In the last case the sample is authentic, fresh and in sequence.
\<close>

lemma decode_outcomes:
  assumes "decode_secure_message clk raw hdr0 json0 chk did n = (ok, hdr, json, chk', n')"
  obtains (fault) f c sq t t' where "\<not> ok"
      "n' = record_dtc c sq t (node_fault f t' (n\<lparr>ids := snd (ids_check_message did (of_nat (length raw)) (clk 0) (ids n))\<rparr>))"
  | (long) m ts c where "\<not> ok" "n' = n\<lparr>ids := snd (ids_check_message did (of_nat (length raw)) (clk 0) (ids n))\<rparr>"
      "raw = secoc_frame (node_key (key n)) (e2e_frame m, ts, c)" "e2e_msg_ok m"
      "length json0 \<le> length (msg_payload m)"
  | (good) m ts c where ok
      "n' = n\<lparr>ids := snd (ids_check_message did (of_nat (length raw)) (clk 0) (ids n)),
              safety := safety_report_ok (safety n), flow := flow_actuator_received (clk 2) (flow n)\<rparr>"
      "raw = secoc_frame (node_key (key n)) (e2e_frame m, ts, c)" "e2e_msg_ok m"
      "\<bar>uint ts - uint (clk 1)\<bar> \<le> 5000" "data_id hdr = msg_id m"
      "fst (e2e_seq_check chk (msg_seq m)) = E2E_OK" "chk' = snd (e2e_seq_check chk (msg_seq m))"
      "length (msg_payload m) < length json0" "take_bit 48 ts = ts" "json = memcpy_at json0 0 (msg_payload m @ [0])"
proof -
  obtain al ids' where i: "ids_check_message did (of_nat (length raw)) (clk 0) (ids n) = (al, ids')"
    by fastforce
  have key: "key_get_node_key (key (n\<lparr>ids := ids'\<rparr>)) = node_key (key n)"
    by (simp add: key_get_node_key_def)
  obtain sok len r where d: "secoc_decode_ex raw (node_key (key n)) (clk 1) = (sok, len, r)"
    by (metis prod_cases3)
  obtain st h p where e: "e2e_decode (take (the len) raw) hdr0 = (st, h, p)" by (metis prod_cases3)
  obtain ss chk1 where q: "e2e_seq_check chk (sequence_counter h) = (ss, chk1)" by fastforce
  note unf = assms [unfolded decode_secure_message_def i Let_def prod.case key d e q]
  consider "\<not> al" | "al" "\<not> sok" | "al" sok "\<not> freshness_valid r"
    | "al" sok "freshness_valid r" "st \<noteq> E2E_OK"
    | "al" sok "freshness_valid r" "st = E2E_OK" "ss \<noteq> E2E_OK"
    | "al" sok "freshness_valid r" "st = E2E_OK" "ss = E2E_OK" by blast
  then show thesis
  proof cases
    case 5
    then have "ss = E2E_ERR_SEQ_GAP \<or> ss = E2E_ERR_SEQ_REPEATED"
      using q by (auto simp: e2e_seq_check_def Let_def split: if_splits)
    then show thesis using 5 unf i by (intro fault) auto
  next
    case 6
    have d': "secoc_decode_ex raw (node_key (key n)) (clk 1) = (True, len, r)" using 6(2) d by simp
    obtain k where k: "len = Some k" "raw = secoc_frame (node_key (key n)) (take k raw, freshness_ts r, freshness_counter r)"
      "freshness_valid r = secoc_fresh (freshness_ts r) (clk 1)"
      "secoc_msg_ok (take k raw, freshness_ts r, freshness_counter r)"
      using secoc_decode_true [OF d'] by blast
    have "uint (freshness_ts r) < 2 ^ 48"
      by (rule secoc_msg_ok_ts [OF k(4)])
    then have fresh: "\<bar>uint (freshness_ts r) - uint (clk 1)\<bar> \<le> 5000"
      using 6(3) k(3) by (simp add: secoc_fresh_iff)
    obtain pl where pl: "p = Some pl" using e2e_decode_payload [of "take (the len) raw" hdr0] e 6(4) by auto
    let ?m = "\<lparr>msg_id = data_id h, msg_seq = sequence_counter h, msg_alive = alive_counter h, msg_payload = pl\<rparr>"
    have m: "e2e_msg_ok ?m" "take k raw = e2e_frame ?m"
      using e2e_decode_ok_frame [of "take k raw" hdr0 h pl] e 6(4) k(1) pl by simp_all
    have tb: "take_bit 48 (freshness_ts r) = freshness_ts r" using k(4) by (simp add: secoc_msg_ok_def)
    show thesis
    proof (cases "length json0 \<le> length pl")
      case True
      then show thesis using 6 unf pl i k m by (intro long [of ?m "freshness_ts r" "freshness_counter r"]) auto
    next
      case False
      then show thesis
        using 6 unf pl k fresh m q i tb by (intro good [of ?m "freshness_ts r" "freshness_counter r"]) auto
    qed
  next
    case 1
    then show thesis using unf i by (intro fault) auto
  next
    case 2
    then show thesis using unf i by (intro fault) auto
  next
    case 3
    then show thesis using unf i by (intro fault) auto
  next
    case 4
    then show thesis using unf i by (intro fault) auto
  qed
qed

lemma decode_inv:
  assumes "node_inv n" "decode_secure_message clk raw hdr0 json0 chk did n = (ok, hdr, json, chk', n')"
  shows "node_inv n'"
  using assms(2)
proof (cases rule: decode_outcomes)
  case (good m ts c)
  let ?n1 = "n\<lparr>ids := snd (ids_check_message did (of_nat (length raw)) (clk 0) (ids n))\<rparr>"
  have "node_inv (?n1\<lparr>safety := safety_report_ok (safety ?n1), flow := flow_actuator_received (clk 2) (flow ?n1)\<rparr>)"
    by (intro inv_ok inv_ids assms(1))
  then show ?thesis using good by simp
next
  case (fault f c sq t t')
  show ?thesis unfolding fault(2) by (intro inv_dtc inv_fault inv_ids assms(1))
next
  case long
  show ?thesis unfolding long(2) by (intro inv_ids assms(1))
qed

text \<open>An approved message: what it is, and that the actuators are allowed.\<close>

lemma headlight_check_inv:
  assumes "node_inv n" "headlight_check clk j raw n = (n', res)"
  shows "node_inv n' \<and> (res \<noteq> None \<longrightarrow> safety_actuator_allowed (safety n'))"
proof (cases "length raw \<le> 35")
  case True
  then show ?thesis using assms by (auto simp: headlight_check_def)
next
  case False
  obtain ok hdr json chk' n1 where
    d: "decode_secure_message clk raw (jk_hdr j) (jk_json j) (headlight_checker n) DATA_ID_HEADLIGHT n =
      (ok, hdr, json, chk', n1)" by (metis prod_cases5)
  show ?thesis
    using assms(2) False decode_inv [OF assms(1) d] inv_fault [of "n1\<lparr>headlight_checker := chk'\<rparr>"]
    by (auto simp: headlight_check_def d Let_def split: if_splits)
qed

lemma hazard_check_inv:
  assumes "node_inv n" "hazard_check clk j raw n = (n', res)"
  shows "node_inv n' \<and> (res \<noteq> None \<longrightarrow> safety_actuator_allowed (safety n'))"
proof (cases "length raw \<le> 35")
  case True
  then show ?thesis using assms by (auto simp: hazard_check_def)
next
  case False
  obtain ok hdr json chk' n1 where
    d: "decode_secure_message clk raw (jk_hdr j) (jk_json j) (hazard_checker n) DATA_ID_HAZARD n =
      (ok, hdr, json, chk', n1)" by (metis prod_cases5)
  show ?thesis
    using assms(2) False decode_inv [OF assms(1) d] inv_fault [of "n1\<lparr>hazard_checker := chk'\<rparr>"]
    by (auto simp: hazard_check_def d Let_def split: if_splits)
qed

text \<open>What acting on a message can do.\<close>

lemma apply_headlight_cases:
  obtains "headlight_apply json n = n"
  | "headlight_apply json n = n\<lparr>io := LED1_On (io n), headlight_on := True\<rparr>"
    "json_get_string (cstr json) ''state'' 8 = (True, Some (str_bytes ''on''))"
  | "headlight_apply json n = n\<lparr>io := LED1_Off (io n), headlight_on := False\<rparr>"
proof (cases "json_get_string (cstr json) ''state'' 8")
  case (Pair ok v)
  consider "ok \<and> v = Some (str_bytes ''on'')" | "ok \<and> v = Some (str_bytes ''off'')"
    | "\<not> ok \<or> v = None" | w where "ok" "v = Some w" "w \<noteq> str_bytes ''on''" "w \<noteq> str_bytes ''off''"
    by (cases v) auto
  then show thesis
  proof cases
    case 1
    then show thesis using that(2) Pair by (simp add: headlight_apply_def)
  next
    case 2
    have "str_bytes ''off'' \<noteq> str_bytes ''on''" by (simp add: str_bytes_def)
    then show thesis using that(3) Pair 2 by (simp add: headlight_apply_def)
  next
    case 3
    then show thesis using that(1) Pair by (cases ok; cases v) (simp_all add: headlight_apply_def)
  next
    case 4
    then show thesis using that(1) Pair by (simp add: headlight_apply_def)
  qed
qed

lemma apply_hazard_cases:
  obtains "hazard_apply t json n = n"
  | "hazard_apply t json n = n\<lparr>hazard_on := True, hazard_last_toggle := t\<rparr>"
    "json_get_string (cstr json) ''state'' 8 = (True, Some (str_bytes ''on''))"
  | "hazard_apply t json n = n\<lparr>hazard_on := False, io := LED2_Off (io n)\<rparr>"
proof (cases "json_get_string (cstr json) ''state'' 8")
  case (Pair ok v)
  consider "ok \<and> v = Some (str_bytes ''on'')" | "ok \<and> v = Some (str_bytes ''off'')"
    | "\<not> ok \<or> v = None" | w where "ok" "v = Some w" "w \<noteq> str_bytes ''on''" "w \<noteq> str_bytes ''off''"
    by (cases v) auto
  then show thesis
  proof cases
    case 1
    then show thesis using that(2) Pair by (simp add: hazard_apply_def)
  next
    case 2
    have "str_bytes ''off'' \<noteq> str_bytes ''on''" by (simp add: str_bytes_def)
    then show thesis using that(3) Pair 2 by (simp add: hazard_apply_def)
  next
    case 3
    then show thesis using that(1) Pair by (cases ok; cases v) (simp_all add: hazard_apply_def)
  next
    case 4
    then show thesis using that(1) Pair by (simp add: hazard_apply_def)
  qed
qed

lemma inv_apply:
  assumes "node_inv n"
  shows "node_inv (headlight_apply json n)" "node_inv (hazard_apply t json n)"
  using assms
  by (cases rule: apply_headlight_cases [of json n]; simp add: node_inv_def)
     (use assms in \<open>cases rule: apply_hazard_cases [of t json n]; simp add: node_inv_def\<close>)

lemma headlight_handler_inv: "node_inv n \<Longrightarrow> node_inv (headlight_handler clk j raw n)"
  using headlight_check_inv [of n clk j raw]
  by (auto simp: headlight_handler_def inv_apply split: prod.splits option.splits)

lemma hazard_handler_inv: "node_inv n \<Longrightarrow> node_inv (hazard_handler clk j raw n)"
  using hazard_check_inv [of n clk j raw]
  by (auto simp: hazard_handler_def inv_apply split: prod.splits option.splits)

section \<open>One turn of the main loop\<close>

lemma inv_self_test: "node_inv n \<Longrightarrow> node_inv (node_self_test ram now t n)"
  by (simp add: node_self_test_def node_inv_def case_prod_beta Let_def)

lemma inv_tick: "node_inv n \<Longrightarrow> node_inv (node_tick t n)"
  by (simp add: node_tick_def node_inv_def case_prod_beta Let_def)

lemma thumbstick_idle:
  assumes "bus_idle p"
  shows "bus_idle (snd (MCP3204_ReadThumbstick adc p))"
proof -
  obtain x p1 where 1: "MCP3204_ReadChannel adc 0 p = (x, p1)" by fastforce
  obtain y p2 where 2: "MCP3204_ReadChannel adc 1 p1 = (y, p2)" by fastforce
  have "bus_idle p2"
    using read_channel_bits [OF assms, of adc 0] read_channel_bits [of p1 adc 1] 1 2 by simp
  then show ?thesis by (simp add: MCP3204_ReadThumbstick_def 1 2 bus_idle_def)
qed

text \<open>The sensor touches its pins and the press counter only, and its angle is small.\<close>

lemma read_sensor_eq:
  assumes "node_read_sensor adc n = (ts, n')" "bus_idle (pins n)"
  shows "\<exists>p c. n' = n\<lparr>pins := p, sw0_press_count := c\<rparr> \<and> bus_idle p \<and> \<bar>ts_angle ts\<bar> \<le> 9000"
proof (cases "use_thumbstick n")
  case True
  have "ts_angle (fst (MCP3204_ReadThumbstick adc (pins n))) = MCP3204_CalcAngle (ts_x (fst (MCP3204_ReadThumbstick adc (pins n))))"
    by (simp add: MCP3204_ReadThumbstick_def case_prod_beta Let_def)
  then have "\<bar>ts_angle ts\<bar> \<le> 9000"
    using assms(1) True calc_angle_bound by (auto simp: node_read_sensor_def case_prod_beta Let_def)
  moreover have "n' = n\<lparr>pins := snd (MCP3204_ReadThumbstick adc (pins n)), sw0_press_count := sw0_press_count n\<rparr>"
    using assms(1) True by (auto simp: node_read_sensor_def case_prod_beta Let_def)
  ultimately show ?thesis using thumbstick_idle [OF assms(2)] by blast
next
  case False
  then have "n' = n\<lparr>pins := pins n, sw0_press_count := sw0_press_count n'\<rparr>" "\<bar>ts_angle ts\<bar> \<le> 9000"
    using assms(1) calc_angle_bound by (auto simp: node_read_sensor_def Let_def split: if_splits)
  then show ?thesis using assms(2) by metis
qed

text \<open>The steering message that a turn publishes, as the E2E message it carries.\<close>

definition steering_msg :: "thumbstick_data_t \<Rightarrow> node \<Rightarrow> e2e_msg" where
  "steering_msg ts n =
     \<lparr>msg_id = DATA_ID_STEERING, msg_seq = seq (steering_counter n), msg_alive = alive (steering_counter n),
      msg_payload = steering_text ts (safety_state_num (sm_state (safety n))) (dtc_count (dtc n)) (epoch (key n))\<rparr>"

lemma safety_state_num_less: "safety_state_num s < 10"
  by (cases s) simp_all

lemma publish_eq:
  assumes "junk_ok j" "\<bar>ts_angle ts\<bar> \<le> 9000"
  shows "e2e_msg_ok (steering_msg ts n) \<and>
    node_publish j t ts n =
      n\<lparr>steering_counter := \<lparr>seq = seq (steering_counter n) + 1, alive = alive (steering_counter n) + 1\<rparr>,
        steering_freshness := \<lparr>counter = counter (steering_freshness n) + 1\<rparr>,
        flow := fold flow_checkpoint [CP_E2E_ENCODE, CP_SECOC_ENCODE, CP_PUBLISH] (flow n),
        published := published n @
          [secoc_frame (node_key (key n)) (e2e_frame (steering_msg ts n), get_tick_ms t, counter (steering_freshness n))]\<rparr>"
proof -
  let ?txt = "steering_text ts (safety_state_num (sm_state (safety n))) (dtc_count (dtc n)) (epoch (key n))"
  let ?m = "steering_msg ts n"
  have len: "length ?txt \<le> 110" using assms(2) safety_state_num_less by (rule steering_text_length)
  have j: "length (jk_payload j) = 192" "length (jk_e2e j) = 300" "length (jk_secoc j) = 400"
    using assms(1) by (simp_all add: junk_ok_def)
  have sn: "snprintf_to (jk_payload j) ?txt = (?txt @ 0 # drop (Suc (length ?txt)) (jk_payload j), length ?txt)"
    using len j by (intro snprintf_fits) simp
  have e: "e2e_encode ?txt DATA_ID_STEERING (steering_counter n) (jk_e2e j) =
      (11 + length ?txt,
       (steering_counter n)\<lparr>seq := seq (steering_counter n) + 1, alive := alive (steering_counter n) + 1\<rparr>,
       e2e_frame ?m @ drop (11 + length ?txt) (jk_e2e j))"
    using len j by (subst e2e_encode_frame) (simp_all add: steering_msg_def)
  have lf: "length (e2e_frame ?m) = 11 + length ?txt" by (simp add: steering_msg_def)
  have s: "secoc_encode (e2e_frame ?m) (node_key (key n)) (steering_freshness n) t (jk_secoc j) =
      (length (e2e_frame ?m) + 24, (steering_freshness n)\<lparr>counter := counter (steering_freshness n) + 1\<rparr>,
       secoc_frame (node_key (key n)) (e2e_frame ?m, get_tick_ms t, counter (steering_freshness n))
         @ drop (length (e2e_frame ?m) + 24) (jk_secoc j))"
    using len j lf by (intro secoc_encode_frame) simp_all
  have "e2e_msg_ok ?m" using len by (simp add: e2e_msg_ok_def steering_msg_def)
  moreover have "node_publish j t ts n =
      n\<lparr>steering_counter := \<lparr>seq = seq (steering_counter n) + 1, alive = alive (steering_counter n) + 1\<rparr>,
        steering_freshness := \<lparr>counter = counter (steering_freshness n) + 1\<rparr>,
        flow := fold flow_checkpoint [CP_E2E_ENCODE, CP_SECOC_ENCODE, CP_PUBLISH] (flow n),
        published := published n @
          [secoc_frame (node_key (key n)) (e2e_frame ?m, get_tick_ms t, counter (steering_freshness n))]\<rparr>"
    unfolding node_publish_def safety_get_state_def dtc_get_count_def key_get_epoch_def key_get_node_key_def
      sn Let_def prod.case
    using e s lf by simp
  ultimately show ?thesis by simp
qed

lemma inv_blink: "node_inv n \<Longrightarrow> node_inv (blink_toggle now n)"
  by (simp add: blink_toggle_def node_inv_def)

lemma self_test_keeps:
  "\<exists>sm b t. node_self_test ram now tick n = n\<lparr>safety := sm, io := b, last_self_test_tick := t\<rparr>"
proof (cases "10000 \<le> now - last_self_test_tick n")
  case True
  then show ?thesis by (auto simp: node_self_test_def case_prod_beta Let_def)
next
  case False
  then have "node_self_test ram now tick n = n\<lparr>safety := safety n, io := io n, last_self_test_tick := last_self_test_tick n\<rparr>"
    by (simp add: node_self_test_def)
  then show ?thesis by blast
qed

text \<open>The checkpoints that are marked where the loop stands, and the invariant of node and loop.\<close>

definition mask_at :: "main_at \<Rightarrow> u8" where
  "mask_at pc = (case pc of At_publish now ts \<Rightarrow> 1 | At_verify now \<Rightarrow> 15 | _ \<Rightarrow> 0)"

lemma mask_at_simps [simp]:
  "mask_at Loop_top = 0" "mask_at (At_tick now) = 0" "mask_at (At_self_test now) = 0"
  "mask_at (At_sensor now) = 0" "mask_at (At_publish now ts) = 1" "mask_at (At_verify now) = 15"
  "mask_at (At_blink now) = 0" "mask_at (At_toggle now) = 0" "mask_at At_count = 0"
  by (simp_all add: mask_at_def)

definition loop_inv :: "node \<times> main_at \<Rightarrow> bool" where
  "loop_inv = (\<lambda>(n, pc). node_inv n \<and> total_flow_errors (flow n) = 0 \<and>
     checkpoints_hit (flow n) = mask_at pc \<and>
     (case pc of At_publish now ts \<Rightarrow> \<bar>ts_angle ts\<bar> \<le> 9000 | _ \<Rightarrow> True))"

text \<open>The callbacks mark no checkpoint.\<close>

lemma parts_keep_marks [simp]:
  "flow (node_fault f t n) = flow n" "flow (record_dtc c sq t n) = flow n"
  "flow (headlight_apply js n) = flow n" "flow (hazard_apply t js n) = flow n"
proof -
  show "flow (headlight_apply js n) = flow n" by (cases rule: apply_headlight_cases [of js n]) simp_all
  show "flow (hazard_apply t js n) = flow n" by (cases rule: apply_hazard_cases [of t js n]) simp_all
qed (simp_all add: node_fault_eq record_dtc_def Let_def)

lemma decode_keeps_marks:
  assumes "decode_secure_message clk raw h j chk did n = (ok, hdr, json, chk', n')"
  shows "checkpoints_hit (flow n') = checkpoints_hit (flow n) \<and>
    total_flow_errors (flow n') = total_flow_errors (flow n)"
  using assms by (cases rule: decode_outcomes) (simp_all add: flow_actuator_received_def)

lemma handlers_keep_marks:
  "checkpoints_hit (flow (headlight_handler clk j raw n)) = checkpoints_hit (flow n) \<and>
   total_flow_errors (flow (headlight_handler clk j raw n)) = total_flow_errors (flow n)"
  "checkpoints_hit (flow (hazard_handler clk j raw n)) = checkpoints_hit (flow n) \<and>
   total_flow_errors (flow (hazard_handler clk j raw n)) = total_flow_errors (flow n)"
proof -
  obtain ok hdr json chk' n1 where
    d: "decode_secure_message clk raw (jk_hdr j) (jk_json j) (headlight_checker n) DATA_ID_HEADLIGHT n =
      (ok, hdr, json, chk', n1)" by (metis prod_cases5)
  show "checkpoints_hit (flow (headlight_handler clk j raw n)) = checkpoints_hit (flow n) \<and>
      total_flow_errors (flow (headlight_handler clk j raw n)) = total_flow_errors (flow n)"
    using decode_keeps_marks [OF d] by (simp add: headlight_handler_def headlight_check_def d Let_def)
  obtain ok hdr json chk' n1 where
    d: "decode_secure_message clk raw (jk_hdr j) (jk_json j) (hazard_checker n) DATA_ID_HAZARD n =
      (ok, hdr, json, chk', n1)" by (metis prod_cases5)
  show "checkpoints_hit (flow (hazard_handler clk j raw n)) = checkpoints_hit (flow n) \<and>
      total_flow_errors (flow (hazard_handler clk j raw n)) = total_flow_errors (flow n)"
    using decode_keeps_marks [OF d] by (simp add: hazard_handler_def hazard_check_def d Let_def)
qed

text \<open>The calls of the loop, one by one.\<close>

lemma sense_eq:
  assumes "node_sense adc n = (ts, n')" "bus_idle (pins n)"
  shows "\<exists>p c. n' = n\<lparr>flow := flow_checkpoint CP_SENSOR_READ (flow n), pins := p, sw0_press_count := c\<rparr> \<and>
    bus_idle p \<and> \<bar>ts_angle ts\<bar> \<le> 9000"
  using read_sensor_eq [of adc "n\<lparr>flow := flow_checkpoint CP_SENSOR_READ (flow n)\<rparr>" ts n'] assms
  by (simp add: node_sense_def)

lemma verify_marked:
  "checkpoints_hit (flow n) = 15 \<Longrightarrow> node_verify_flow t t' n = n\<lparr>flow := (flow n)\<lparr>checkpoints_hit := 0\<rparr>\<rparr>"
  by (simp add: node_verify_flow_def flow_verify_cycle_def Let_def)

lemma self_test_marks [simp]: "flow (node_self_test ram now t n) = flow n"
  by (simp add: node_self_test_def case_prod_beta Let_def)

lemma tick_marks [simp]: "flow (node_tick now n) = flow n"
  by (simp add: node_tick_def case_prod_beta Let_def)

lemma loop_inv_step:
  assumes "node_step s s'" "loop_inv s"
  shows "loop_inv s'"
  using assms
proof (cases rule: node_step.cases)
  case (headlight j n pc clk raw)
  then show ?thesis using assms(2) by (simp add: loop_inv_def headlight_handler_inv handlers_keep_marks)
next
  case (hazard j n pc clk raw)
  then show ?thesis using assms(2) by (simp add: loop_inv_def hazard_handler_inv handlers_keep_marks)
next
  case (sensor adc n ts n' now)
  then have i: "node_inv n" "checkpoints_hit (flow n) = 0" "total_flow_errors (flow n) = 0"
    using assms(2) by (simp_all add: loop_inv_def)
  obtain p c where "n' = n\<lparr>flow := flow_checkpoint CP_SENSOR_READ (flow n), pins := p, sw0_press_count := c\<rparr>"
      "bus_idle p" "\<bar>ts_angle ts\<bar> \<le> 9000"
    using sense_eq [OF sensor(3)] i(1) by (auto simp: node_inv_def)
  then show ?thesis using sensor i by (simp add: loop_inv_def node_inv_def flow_checkpoint_def)
next
  case (publish j n now ts t)
  then show ?thesis
    using assms(2) publish_eq [of j ts n t] by (simp add: loop_inv_def node_inv_def flow_checkpoint_def)
next
  case (verify n now t t')
  then show ?thesis using assms(2) by (simp add: loop_inv_def verify_marked node_inv_def)
next
  case (self_test n now ram t)
  then show ?thesis using assms(2) by (simp add: loop_inv_def inv_self_test)
next
  case (tick n now)
  then show ?thesis using assms(2) by (simp add: loop_inv_def inv_tick)
next
  case (toggle n now)
  then show ?thesis using assms(2) inv_blink [of n now] by (simp add: loop_inv_def) (simp add: blink_toggle_def)
qed (simp_all add: loop_inv_def node_inv_def node_feed_def node_count_def)

section \<open>Start-up\<close>

lemma initialize_idle: "bus_idle (MCP3204_Initialize adc p)"
proof -
  have "bus_idle (mosi_low (sck_low (cs_high q))\<lparr>porta_psr := a, porta_osr := b, porta_pullup := c\<rparr>)" for q a b c
    by (simp add: bus_idle_def mosi_low_def sck_low_def cs_high_def pin_clear_def pin_set_def
        bit_set_bit_iff bit_unset_bit_iff)
  then show ?thesis
    using read_channel_bits by (simp add: MCP3204_Initialize_def Let_def)
qed

lemma init_sensor_eq: "\<exists>p u. node_init_sensor adc n = n\<lparr>pins := p, use_thumbstick := u\<rparr> \<and> bus_idle p"
proof -
  let ?p0 = "MCP3204_Initialize adc (pins n)"
  obtain c0 p1 where 0: "MCP3204_ReadChannel adc 0 ?p0 = (c0, p1)" by fastforce
  obtain c1 p2 where 1: "MCP3204_ReadChannel adc 1 p1 = (c1, p2)" by fastforce
  obtain c2 p3 where 2: "MCP3204_ReadChannel adc 2 p2 = (c2, p3)" by fastforce
  obtain c3 p4 where 3: "MCP3204_ReadChannel adc 3 p3 = (c3, p4)" by fastforce
  have "bus_idle p1" using read_channel_bits [OF initialize_idle, of adc 0] 0 by (metis snd_conv)
  then have "bus_idle p2" using read_channel_bits [of p1 adc 1] 1 by simp
  then have "bus_idle p3" using read_channel_bits [of p2 adc 2] 2 by simp
  then have "bus_idle p4" using read_channel_bits [of p3 adc 3] 3 by simp
  then show ?thesis
    unfolding node_init_sensor_def Let_def 0 1 2 3 prod.case by blast
qed

lemma connect_eq: "node_connect k opens n = Some n' \<Longrightarrow> \<exists>w. n' = n\<lparr>wdt := w\<rparr>"
proof (induction k opens n rule: node_connect.induct)
  case (3 k ok opens n)
  then show ?case by (cases ok) (auto simp: Let_def)
qed simp_all

lemma start_effect:
  assumes "node_start adc buf0 hdr0 input0 opens tasks tick (node_reset b p) = Some n"
    and "length buf0 = 64" "length input0 = 48"
  shows "node_inv n \<and> checkpoints_hit (flow n) = 0 \<and> total_flow_errors (flow n) = 0 \<and>
    safety n = (safety_init (safety n))\<lparr>self_test_passed := True\<rparr> \<and>
    published n = [] \<and> steering_counter n = \<lparr>seq = 0, alive = 0\<rparr> \<and> hazard_on n = False \<and>
    headlight_on n = False \<and> all_dark (io n) \<and>
    headlight_checker n = e2e_seq_checker_init E2E_ASILD_MAX_GAP \<and>
    hazard_checker n = e2e_seq_checker_init E2E_ASILD_MAX_GAP \<and>
    ids n = ids_registered [DATA_ID_HEADLIGHT, DATA_ID_HAZARD] (ids n)"
proof -
  let ?n0 = "node_reset b p"
  define n1 where "n1 = node_init_subsystems buf0 hdr0 input0 ?n0"
  define n2 where "n2 = n1\<lparr>wdt := watchdog_feed (watchdog_feed (watchdog_init (wdt n1)))\<rparr>"
  obtain q u where n3: "node_init_sensor adc n2 = n2\<lparr>pins := q, use_thumbstick := u\<rparr>" "bus_idle q"
    using init_sensor_eq by blast
  define n4 where "n4 = n2\<lparr>pins := q, use_thumbstick := u, wdt := watchdog_feed (wdt n2)\<rparr>"
  obtain n5 where n5: "node_connect 5 opens n4 = Some n5"
      "n = n5\<lparr>wdt := watchdog_feed (wdt n5), msg_count := 0, last_self_test_tick := tick\<rparr>"
    using assms(1) unfolding node_start_def Let_def n1_def [symmetric] n2_def [symmetric] n3(1)
    by (auto simp: n4_def split: option.splits if_splits)
  obtain w where w: "n5 = n4\<lparr>wdt := w\<rparr>" using connect_eq [OF n5(1)] by blast
  let ?km = "key_init input0 SECOC_TEST_KEY (str_bytes ''front_left/1'') (key ?n0)"
  have z: "0 \<notin> set (str_bytes ''front_left/1'')" by (simp add: str_bytes_def)
  have n1: "n1 = ?n0\<lparr>safety := (safety_init (safety ?n0))\<lparr>self_test_passed := True\<rparr>,
      headlight_checker := e2e_seq_checker_init E2E_ASILD_MAX_GAP,
      hazard_checker := e2e_seq_checker_init E2E_ASILD_MAX_GAP,
      ids := ids_registered [DATA_ID_HEADLIGHT, DATA_ID_HAZARD] (ids ?n0),
      dtc := dtc_init (dtc ?n0), flow := flow_init (flow ?n0), key := ?km\<rparr>"
    using assms(2) by (simp add: n1_def node_init_subsystems_def self_test_ok ids_registered_def)
  have key: "node_key ?km = NODE_KEY" "epoch ?km = 1"
    using key_init_ok [OF assms(3) z, of SECOC_TEST_KEY "key ?n0"]
    by (simp_all add: key_ok_def NODE_KEY_def NODE_ID_def str_bytes_def)
  have si: "length (fault_counts ((safety_init (safety ?n0))\<lparr>self_test_passed := True\<rparr>)) = 9"
    by (simp add: safety_init_def)
  have idem: "ids_registered ds (ids_registered ds' x) = ids_registered ds x" for ds ds' x
    by (simp add: ids_registered_def ids_init_def)
  have si2: "safety_init (safety_init x\<lparr>self_test_passed := v\<rparr>) = safety_init x" for x v
    by (simp add: safety_init_def)
  show ?thesis
    using key si n3(2) ids_registered_wf
    by (simp add: n5(2) w n4_def n2_def n1 node_inv_def dtc_init_inv flow_init_def idem si2)
       (simp add: node_reset_def)
qed

text \<open>The invariant, and what is left on the wire, in every reachable state.\<close>

definition wire_decode :: "bytes \<Rightarrow> bytes \<Rightarrow> e2e_msg option" where
  "wire_decode k f = Option.bind (map_option fst (secoc_accept k f)) e2e_accept"

definition stream_inv :: "node \<Rightarrow> bool" where
  "stream_inv n \<longleftrightarrow> seq (steering_counter n) = of_nat (length (published n)) \<and>
     (\<forall>i < length (published n). \<exists>m. wire_decode NODE_KEY (published n ! i) = Some m \<and>
        msg_id m = DATA_ID_STEERING \<and> msg_seq m = of_nat i)"

lemma wire_decode_frame:
  assumes "e2e_msg_ok m"
  shows "wire_decode k (secoc_frame k (e2e_frame m, get_tick_ms t, c)) = Some m"
  using wire.stacked.dec_enc [OF assms, of k "get_tick_ms t" c] by (simp add: wire_decode_def)

end
