(* ===== verification/NodeProps.thy ===== *)
theory NodeProps
  imports NodeSafety
begin

text \<open>
  The reachable states of the control node and the lemmas about single operations that its properties
  rest on: what the safety manager does in a run, which samples reach the lamps, and what one turn of
  the main loop publishes.
\<close>

section \<open>Reachable states\<close>

lemma reachable_loop: "node_reachable s \<Longrightarrow> loop_inv s"
proof (induction rule: node_reachable.induct)
  case (start adc buf0 hdr0 input0 opens tasks tick b p n)
  then show ?case using start_effect [OF start] by (simp add: loop_inv_def)
next
  case (step s s')
  then show ?case using loop_inv_step by blast
qed

lemma reachable_inv: "node_reachable (n, pc) \<Longrightarrow> node_inv n"
  using reachable_loop [of "(n, pc)"] by (simp add: loop_inv_def)

text \<open>A run of the system does to the safety manager what some run of its events does.\<close>

lemma fault_follows: "\<exists>e. (safety (node_fault f t n), io (node_fault f t n)) = safety_step e (safety n, io n)"
  by (rule exI [of _ "Ev_fault f t"]) (simp add: node_fault_eq)

lemma record_dtc_safety [simp]: "safety (record_dtc c sq t n) = safety n" "io (record_dtc c sq t n) = io n"
  by (simp_all add: record_dtc_def Let_def)

lemma decode_keeps_forbidden:
  assumes "decode_secure_message clk raw h j chk did n = (ok, hdr, json, chk', n')"
    and "SAFETY_SAFE_STATE \<le> sm_state (safety n)"
  shows "SAFETY_SAFE_STATE \<le> sm_state (safety n')"
  using assms(1)
proof (cases rule: decode_outcomes)
  case (fault f c sq t t')
  then show ?thesis
    using safety_trap.trap_step [of "(safety n, io n)" "Ev_fault f t'"] assms(2) by (simp add: node_fault_eq)
next
  case long
  then show ?thesis using assms(2) by simp
next
  case good
  then show ?thesis using assms(2) by (auto simp: report_ok_state)
qed

lemma handlers_keep_forbidden:
  assumes "SAFETY_SAFE_STATE \<le> sm_state (safety n)"
  shows "SAFETY_SAFE_STATE \<le> sm_state (safety (headlight_handler clk j raw n))"
    and "SAFETY_SAFE_STATE \<le> sm_state (safety (hazard_handler clk j raw n))"
proof -
  have f: "SAFETY_SAFE_STATE \<le> sm_state (safety (node_fault f t n'))"
    if "SAFETY_SAFE_STATE \<le> sm_state (safety n')" for f t n'
    using safety_trap.trap_step [of "(safety n', io n')" "Ev_fault f t"] that by (simp add: node_fault_eq)
  have na: "\<not> safety_actuator_allowed sm" if "SAFETY_SAFE_STATE \<le> sm_state sm" for sm
    using that forbidden_iff by blast
  show "SAFETY_SAFE_STATE \<le> sm_state (safety (headlight_handler clk j raw n))"
  proof -
    obtain ok hdr json chk' n1 where
      d: "decode_secure_message clk raw (jk_hdr j) (jk_json j) (headlight_checker n) DATA_ID_HEADLIGHT n =
        (ok, hdr, json, chk', n1)" by (metis prod_cases5)
    have s: "SAFETY_SAFE_STATE \<le> sm_state (safety (n1\<lparr>headlight_checker := chk'\<rparr>))"
      using decode_keeps_forbidden [OF d assms] by simp
    then show ?thesis
      using assms f [OF s] na [OF s]
      by (auto simp: headlight_handler_def headlight_check_def d Let_def)
  qed
  show "SAFETY_SAFE_STATE \<le> sm_state (safety (hazard_handler clk j raw n))"
  proof -
    obtain ok hdr json chk' n1 where
      d: "decode_secure_message clk raw (jk_hdr j) (jk_json j) (hazard_checker n) DATA_ID_HAZARD n =
        (ok, hdr, json, chk', n1)" by (metis prod_cases5)
    have s: "SAFETY_SAFE_STATE \<le> sm_state (safety (n1\<lparr>hazard_checker := chk'\<rparr>))"
      using decode_keeps_forbidden [OF d assms] by simp
    then show ?thesis
      using assms f [OF s] na [OF s]
      by (auto simp: hazard_handler_def hazard_check_def d Let_def)
  qed
qed

lemma loop_parts_safety [simp]:
  "safety (snd (node_read_sensor adc n)) = safety n" "safety (snd (node_sense adc n)) = safety n"
  "safety (node_publish j t ts n) = safety n" "safety (blink_toggle now n) = safety n"
  "safety (node_feed n) = safety n" "safety (node_count n) = safety n"
  by (simp_all add: node_sense_def node_read_sensor_def node_publish_def blink_toggle_def node_feed_def
      node_count_def Let_def case_prod_beta)

lemma loop_parts_io [simp]:
  "io (snd (node_read_sensor adc n)) = io n" "io (snd (node_sense adc n)) = io n"
  "io (node_publish j t ts n) = io n" "io (node_feed n) = io n" "io (node_count n) = io n"
  by (simp_all add: node_sense_def node_read_sensor_def node_publish_def node_feed_def node_count_def
      Let_def case_prod_beta)

text \<open>The calls of the loop that reach the safety manager are events of it, if anything.\<close>

lemma loop_event_cases:
  assumes "n' = node_tick now n \<or> n' = node_self_test ram now t n \<or> n' = node_verify_flow t t' n"
  obtains "safety n' = safety n" "io n' = io n"
  | e where "safety n' = fst (safety_step e (safety n, io n))" "io n' = snd (safety_step e (safety n, io n))"
  using assms
proof (elim disjE)
  assume "n' = node_tick now n"
  then show thesis using that(2) [of "Ev_tick now"] by (simp add: node_tick_def case_prod_beta Let_def)
next
  assume n': "n' = node_self_test ram now t n"
  show thesis
  proof (cases "10000 \<le> now - last_self_test_tick n")
    case True
    then show thesis using that(2) [of "Ev_periodic ram t"] n' by (simp add: node_self_test_def case_prod_beta Let_def)
  next
    case False
    then show thesis using that(1) n' by (simp add: node_self_test_def)
  qed
next
  assume n': "n' = node_verify_flow t t' n"
  show thesis
  proof (cases "fst (flow_verify_cycle (flow n))")
    case True
    then show thesis using that(1) n' by (simp add: node_verify_flow_def case_prod_beta Let_def)
  next
    case False
    then show thesis
      using that(2) [of "Ev_fault FAULT_FLOW t"] n'
      by (simp add: node_verify_flow_def case_prod_beta Let_def node_fault_eq)
  qed
qed

lemma loop_event_keeps:
  assumes "n' = node_tick now n \<or> n' = node_self_test ram now t n \<or> n' = node_verify_flow t t' n"
    and "SAFETY_SAFE_STATE \<le> sm_state (safety n)"
  shows "SAFETY_SAFE_STATE \<le> sm_state (safety n')"
  using assms(1)
proof (cases rule: loop_event_cases)
  case (2 e)
  then show ?thesis using safety_trap.trap_step [of "(safety n, io n)" e] assms(2) by simp
qed (use assms(2) in simp)

lemma step_keeps_forbidden:
  assumes "node_step (n, pc) (n', pc')" "SAFETY_SAFE_STATE \<le> sm_state (safety n)"
  shows "SAFETY_SAFE_STATE \<le> sm_state (safety n')"
  using assms(1)
proof (cases rule: node_step_cases)
  case (sensor adc ts now)
  then have "safety n' = safety n" using loop_parts_safety(2) [of adc n] by simp
  then show ?thesis using assms(2) by simp
qed (use assms(2) handlers_keep_forbidden loop_event_keeps in \<open>simp_all del: safety_state_le, blast+\<close>)

section \<open>A sample of noise\<close>

text \<open>A sample longer than any frame the node can verify: it always raises a fault.\<close>

definition noise :: bytes where
  "noise = replicate 700 0"

lemma noise_no_frame: "e2e_msg_ok m \<Longrightarrow> noise \<noteq> secoc_frame k (e2e_frame m, ts, c)"
proof
  assume m: "e2e_msg_ok m" and eq: "noise = secoc_frame k (e2e_frame m, ts, c)"
  have "length noise = length (secoc_frame k (e2e_frame m, ts, c))" by (rule arg_cong [OF eq])
  also have "\<dots> = length (msg_payload m) + 35" by simp
  finally show False using m by (simp add: noise_def e2e_msg_ok_def)
qed

text \<open>What a sample that is no frame under the node's key does through the headlight callback.\<close>

lemma unauthentic_headlight:
  assumes "35 < length raw" "\<And>m ts c. e2e_msg_ok m \<Longrightarrow> raw \<noteq> secoc_frame (node_key (key n)) (e2e_frame m, ts, c)"
  obtains f t where "safety (headlight_handler clk j raw n) = fst (safety_report_fault f t (safety n, io n))"
    "io (headlight_handler clk j raw n) = snd (safety_report_fault f t (safety n, io n))"
    "headlight_on (headlight_handler clk j raw n) = headlight_on n"
    "hazard_on (headlight_handler clk j raw n) = hazard_on n"
    "hazard_last_toggle (headlight_handler clk j raw n) = hazard_last_toggle n"
    "key (headlight_handler clk j raw n) = key n"
proof -
  obtain ok hdr json chk' n1 where
    d: "decode_secure_message clk raw (jk_hdr j) (jk_json j) (headlight_checker n) DATA_ID_HEADLIGHT n =
      (ok, hdr, json, chk', n1)" by (metis prod_cases5)
  from d show thesis
  proof (cases rule: decode_outcomes)
    case (fault f c sq t t')
    then have "headlight_handler clk j raw n = n1\<lparr>headlight_checker := chk'\<rparr>"
      using assms(1) by (simp add: headlight_handler_def headlight_check_def d Let_def)
    moreover have "safety n1 = fst (safety_report_fault f t' (safety n, io n))"
      "io n1 = snd (safety_report_fault f t' (safety n, io n))" "headlight_on n1 = headlight_on n"
      "hazard_on n1 = hazard_on n" "hazard_last_toggle n1 = hazard_last_toggle n" "key n1 = key n"
      by (simp_all add: fault node_fault_eq record_dtc_def Let_def)
    ultimately show thesis using that [of f t'] by simp
  next
    case (long m ts c)
    then show thesis using assms(2) by blast
  next
    case (good m ts c)
    then show thesis using assms(2) by blast
  qed
qed

end
