(* ===== verification/NodeClaims.thy ===== *)
theory NodeClaims
  imports NodeProps
begin

text \<open>
  What lights a lamp and what darkens it, step by step: only authentic, fresh and consecutive commands
  switch the headlight on or request the hazard lamp, the step that forbids the actuators switches both
  off, and after it only a toggle that was already decided on can light one.
\<close>

section \<open>What lights a lamp\<close>

text \<open>The safety manager only ever switches lamps off.\<close>

lemma safe_action_off [simp]:
  "\<not> headlight_lit (safety_execute_safe_action b)" "\<not> hazard_lit (safety_execute_safe_action b)"
  by (simp_all add: safety_execute_safe_action_def)

lemma fault_lights_none:
  "headlight_lit (snd (safety_report_fault f t (sm, b))) \<Longrightarrow> headlight_lit b"
  "hazard_lit (snd (safety_report_fault f t (sm, b))) \<Longrightarrow> hazard_lit b"
  by (auto simp: report_fault_board split: if_splits)

lemma tick_lights_none:
  "headlight_lit (snd (safety_tick t (sm, b))) \<Longrightarrow> headlight_lit b"
  "hazard_lit (snd (safety_tick t (sm, b))) \<Longrightarrow> hazard_lit b"
  by (auto simp: tick_board split: if_splits)

lemma node_fault_lights_none:
  "headlight_lit (io (node_fault f t n)) \<Longrightarrow> headlight_lit (io n)"
  "hazard_lit (io (node_fault f t n)) \<Longrightarrow> hazard_lit (io n)"
  by (auto simp: node_fault_eq dest: fault_lights_none)

lemma decode_lights_none:
  assumes "decode_secure_message clk raw h j chk did n = (ok, hdr, json, chk', n')"
  shows "(headlight_lit (io n') \<longrightarrow> headlight_lit (io n)) \<and> (hazard_lit (io n') \<longrightarrow> hazard_lit (io n)) \<and>
    hazard_on n' = hazard_on n \<and> headlight_on n' = headlight_on n"
  using assms
proof (cases rule: decode_outcomes)
  case (fault f c sq t t')
  define n0 where "n0 = n\<lparr>ids := snd (ids_check_message did (of_nat (length raw)) (clk 0) (ids n))\<rparr>"
  have n': "n' = record_dtc c sq t (node_fault f t' n0)" using fault(2) by (simp only: n0_def)
  have k: "hazard_on n' = hazard_on n0" "headlight_on n' = headlight_on n0"
    "io n' = io (node_fault f t' n0)"
    unfolding n' by (simp_all add: record_dtc_def node_fault_eq Let_def)
  have z: "io n0 = io n" "hazard_on n0 = hazard_on n" "headlight_on n0 = headlight_on n"
    by (simp_all add: n0_def)
  show ?thesis using node_fault_lights_none [of f t' n0] by (simp add: k z)
qed simp_all

lemma event_lights_none:
  "headlight_lit (snd (safety_step e (sm, b))) \<Longrightarrow> headlight_lit b"
  "hazard_lit (snd (safety_step e (sm, b))) \<Longrightarrow> hazard_lit b"
proof -
  have p: "headlight_lit (snd (snd (safety_periodic_test ram t (sm, b)))) \<Longrightarrow> headlight_lit b"
    "hazard_lit (snd (snd (safety_periodic_test ram t (sm, b)))) \<Longrightarrow> hazard_lit b" for ram t
    by (cases rule: periodic_test_cases [of ram t "(sm, b)"]; auto dest: fault_lights_none)+
  show "headlight_lit (snd (safety_step e (sm, b))) \<Longrightarrow> headlight_lit b"
    by (cases e) (auto dest: fault_lights_none tick_lights_none p)
  show "hazard_lit (snd (safety_step e (sm, b))) \<Longrightarrow> hazard_lit b"
    by (cases e) (auto dest: fault_lights_none tick_lights_none p)
qed

lemma loop_event_lights_none:
  assumes "n' = node_tick now n \<or> n' = node_self_test ram now t n \<or> n' = node_verify_flow t t' n"
  shows "(headlight_lit (io n') \<longrightarrow> headlight_lit (io n)) \<and> (hazard_lit (io n') \<longrightarrow> hazard_lit (io n))"
  using assms by (cases rule: loop_event_cases) (auto dest: event_lights_none)

lemma loop_lights_none:
  "headlight_lit (io (node_tick now n)) \<Longrightarrow> headlight_lit (io n)"
  "hazard_lit (io (node_tick now n)) \<Longrightarrow> hazard_lit (io n)"
  "headlight_lit (io (node_self_test ram now t n)) \<Longrightarrow> headlight_lit (io n)"
  "hazard_lit (io (node_self_test ram now t n)) \<Longrightarrow> hazard_lit (io n)"
  "headlight_lit (io (node_verify_flow t t' n)) \<Longrightarrow> headlight_lit (io n)"
  "hazard_lit (io (node_verify_flow t t' n)) \<Longrightarrow> hazard_lit (io n)"
  using loop_event_lights_none by blast+

lemma button_lamps [simp]:
  "headlight_lit (b\<lparr>pioa_pdsr := v\<rparr>) = headlight_lit b" "hazard_lit (b\<lparr>pioa_pdsr := v\<rparr>) = hazard_lit b"
  by (simp_all add: headlight_lit_def hazard_lit_def)

lemma toggle_keeps_headlight [simp]: "headlight_lit (io (blink_toggle now n)) = headlight_lit (io n)"
  by (simp add: blink_toggle_def)

lemma hazard_lights_no_headlight:
  assumes "headlight_lit (io (hazard_handler clk j raw n))"
  shows "headlight_lit (io n)"
proof (cases "length raw \<le> 35")
  case True
  then show ?thesis using assms by (simp add: hazard_handler_def hazard_check_def)
next
  case False
  obtain ok hdr json chk' n1 where
    d: "decode_secure_message clk raw (jk_hdr j) (jk_json j) (hazard_checker n) DATA_ID_HAZARD n =
      (ok, hdr, json, chk', n1)" by (metis prod_cases5)
  have a: "headlight_lit (io (hazard_apply t js n')) \<longleftrightarrow> headlight_lit (io n')" for t js n'
    by (cases rule: apply_hazard_cases [of t js n']) simp_all
  show ?thesis
    using assms False decode_lights_none [OF d]
    by (auto simp: hazard_handler_def hazard_check_def d Let_def a split: if_splits dest!: node_fault_lights_none)
qed

section \<open>Commands\<close>

text \<open>
  A command for the lamp \<open>did\<close>: a frame under the node's key around an intact message with that
  identifier, a time stamp near the tick, the sequence number that the checker expects and the
  wanted state in its text.
\<close>

definition authentic_command :: "u16 \<Rightarrow> e2e_seq_checker_t \<Rightarrow> u32 \<Rightarrow> bytes \<Rightarrow> string \<Rightarrow> bool" where
  "authentic_command did chk tick raw st \<longleftrightarrow>
     (\<exists>m ts c. raw = secoc_frame NODE_KEY (e2e_frame m, ts, c) \<and> e2e_msg_ok m \<and>
        length (msg_payload m) < 64 \<and> take_bit 48 ts = ts \<and> msg_id m = did \<and>
        \<bar>uint ts - uint tick\<bar> \<le> 5000 \<and> fst (e2e_seq_check chk (msg_seq m)) = E2E_OK \<and>
        json_get_string (cstr (msg_payload m)) ''state'' 8 = (True, Some (str_bytes st)))"

lemma cstr_memcpy:
  assumes "length p < length buf"
  shows "cstr (memcpy_at buf 0 (p @ [0])) = cstr p"
proof -
  have "memcpy_at buf 0 (p @ [0]) = p @ 0 # drop (Suc (length p)) buf"
    using assms by (simp add: memcpy_at_def)
  moreover have "takeWhile (\<lambda>b. b \<noteq> 0) (p @ 0 # r) = takeWhile (\<lambda>b. b \<noteq> 0) p" for r
    by (induction p) simp_all
  ultimately show ?thesis by (simp add: cstr_def)
qed

text \<open>A message the decoder approves, seen from the callback.\<close>

lemma decode_good_cases:
  assumes inv: "node_inv n" and j: "length json0 = 64"
    and d: "decode_secure_message clk raw hdr0 json0 chk did n = (True, hdr, json, chk', n')"
  shows "(json_get_string (cstr json) ''state'' 8 = (True, Some (str_bytes st)) \<longrightarrow>
     authentic_command (data_id hdr) chk (clk 1) raw st) \<and> io n' = io n"
  using d
proof (cases rule: decode_outcomes)
  case (good m ts c)
  have key: "node_key (key n) = NODE_KEY" using inv by (simp add: node_inv_def)
  have l: "length (msg_payload m) < 64" using good(9) j by simp
  have js: "cstr json = cstr (msg_payload m)" unfolding good(11) by (rule cstr_memcpy) (simp add: l j)
  show ?thesis
    using good key l js unfolding authentic_command_def by auto
qed auto

text \<open>The callbacks: what they light, if anything.\<close>

lemma headlight_handler_lights:
  assumes inv: "node_inv n" and j: "junk_ok j"
    and lit: "headlight_lit (io (headlight_handler clk j raw n))" "\<not> headlight_lit (io n)"
  shows "authentic_command DATA_ID_HEADLIGHT (headlight_checker n) (clk 1) raw ''on'' \<and>
    safety_actuator_allowed (safety (headlight_handler clk j raw n))"
proof -
  obtain ok hdr json chk' n1 where
    d: "decode_secure_message clk raw (jk_hdr j) (jk_json j) (headlight_checker n) DATA_ID_HEADLIGHT n =
      (ok, hdr, json, chk', n1)" by (metis prod_cases5)
  let ?n2 = "n1\<lparr>headlight_checker := chk'\<rparr>"
  have dark: "\<not> headlight_lit (io ?n2)" "\<not> headlight_lit (io (node_fault f t ?n2))" for f t
    using decode_lights_none [OF d] lit(2) node_fault_lights_none(1) [of f t ?n2] by auto
  have g: "ok" "data_id hdr = DATA_ID_HEADLIGHT" "safety_actuator_allowed (safety ?n2)"
      "headlight_handler clk j raw n = headlight_apply json ?n2"
    using lit dark by (auto simp: headlight_handler_def headlight_check_def d Let_def split: if_splits)
  have "json_get_string (cstr json) ''state'' 8 = (True, Some (str_bytes ''on''))"
      "safety (headlight_apply json ?n2) = safety ?n2"
    using lit(1) dark unfolding g(4) by (cases rule: apply_headlight_cases [of json ?n2]; simp)+
  then show ?thesis
    using decode_good_cases [OF inv _ d [unfolded eqTrueI [OF g(1)]]] j g by (auto simp: junk_ok_def)
qed

lemma hazard_handler_arms:
  assumes inv: "node_inv n" and j: "junk_ok j"
    and on: "hazard_on (hazard_handler clk j raw n)" "\<not> hazard_on n"
  shows "authentic_command DATA_ID_HAZARD (hazard_checker n) (clk 1) raw ''on'' \<and>
    safety_actuator_allowed (safety (hazard_handler clk j raw n))"
proof -
  obtain ok hdr json chk' n1 where
    d: "decode_secure_message clk raw (jk_hdr j) (jk_json j) (hazard_checker n) DATA_ID_HAZARD n =
      (ok, hdr, json, chk', n1)" by (metis prod_cases5)
  let ?n2 = "n1\<lparr>hazard_checker := chk'\<rparr>"
  have off: "\<not> hazard_on ?n2" "\<not> hazard_on (node_fault f t ?n2)" for f t
    using decode_lights_none [OF d] on(2) by (auto simp: node_fault_eq)
  have g: "ok" "data_id hdr = DATA_ID_HAZARD" "safety_actuator_allowed (safety ?n2)"
      "hazard_handler clk j raw n = hazard_apply (clk 4) json ?n2"
    using on off by (auto simp: hazard_handler_def hazard_check_def d Let_def split: if_splits)
  have "json_get_string (cstr json) ''state'' 8 = (True, Some (str_bytes ''on''))"
      "safety (hazard_apply (clk 4) json ?n2) = safety ?n2"
    using on(1) off unfolding g(4) by (cases rule: apply_hazard_cases [of "clk 4" json ?n2]; simp)+
  then show ?thesis
    using decode_good_cases [OF inv _ d [unfolded eqTrueI [OF g(1)]]] j g by (auto simp: junk_ok_def)
qed

lemma parts_keep_hazard [simp]:
  "hazard_on (node_tick now n) = hazard_on n" "hazard_on (node_self_test ram now t n) = hazard_on n"
  "hazard_on (node_verify_flow t t' n) = hazard_on n" "hazard_on (node_publish j t ts n) = hazard_on n"
  "hazard_on (snd (node_sense adc n)) = hazard_on n" "hazard_on (node_feed n) = hazard_on n"
  "hazard_on (node_count n) = hazard_on n" "hazard_on (blink_toggle now n) = hazard_on n"
proof -
  have d: "hazard_on (record_dtc c sq t (node_fault f t' n)) = hazard_on n" for c sq t f t' n
    by (simp add: record_dtc_def node_fault_eq Let_def)
  show "hazard_on (node_verify_flow t t' n) = hazard_on n"
    by (simp add: node_verify_flow_def case_prod_beta Let_def d)
qed (simp_all add: node_tick_def node_self_test_def node_publish_def node_sense_def node_read_sensor_def
      node_feed_def node_count_def blink_toggle_def case_prod_beta Let_def)

lemma headlight_keeps_hazard:
  "hazard_on (headlight_handler clk j raw n) = hazard_on n \<and>
   (hazard_lit (io (headlight_handler clk j raw n)) \<longrightarrow> hazard_lit (io n))"
proof (cases "length raw \<le> 35")
  case True
  then show ?thesis by (simp add: headlight_handler_def headlight_check_def)
next
  case False
  obtain ok hdr json chk' n1 where
    d: "decode_secure_message clk raw (jk_hdr j) (jk_json j) (headlight_checker n) DATA_ID_HEADLIGHT n =
      (ok, hdr, json, chk', n1)" by (metis prod_cases5)
  have a: "hazard_lit (io (headlight_apply js n')) = hazard_lit (io n')"
    "hazard_on (headlight_apply js n') = hazard_on n'" for js n'
    by (cases rule: apply_headlight_cases [of js n']; simp)+
  have f: "hazard_on (node_fault f t n') = hazard_on n'" for f t n' by (simp add: node_fault_eq)
  show ?thesis
    using False decode_lights_none [OF d]
    by (auto simp: headlight_handler_def headlight_check_def d Let_def a f dest: node_fault_lights_none(2))
qed

lemma hazard_handler_lights:
  "hazard_lit (io (hazard_handler clk j raw n)) \<Longrightarrow> hazard_lit (io n)"
proof (cases "length raw \<le> 35")
  case True
  then show "hazard_lit (io (hazard_handler clk j raw n)) \<Longrightarrow> ?thesis"
    by (simp add: hazard_handler_def hazard_check_def)
next
  case False
  assume lit: "hazard_lit (io (hazard_handler clk j raw n))"
  obtain ok hdr json chk' n1 where
    d: "decode_secure_message clk raw (jk_hdr j) (jk_json j) (hazard_checker n) DATA_ID_HAZARD n =
      (ok, hdr, json, chk', n1)" by (metis prod_cases5)
  have a: "hazard_lit (io (hazard_apply t js n')) \<Longrightarrow> hazard_lit (io n')" for t js n'
    by (cases rule: apply_hazard_cases [of t js n']) simp_all
  show ?thesis
    using lit False decode_lights_none [OF d]
    by (auto simp: hazard_handler_def hazard_check_def d Let_def split: if_splits
        dest!: node_fault_lights_none(2) a)
qed

section \<open>The steps of the node\<close>

text \<open>What lights the headlight, what requests and what lights the hazard lamp.\<close>

lemma step_headlight:
  assumes "node_step (n, pc) (n', pc')" "headlight_lit (io n')" "\<not> headlight_lit (io n)"
  shows "\<exists>clk j raw. junk_ok j \<and> n' = headlight_handler clk j raw n"
  using assms(1)
proof (cases rule: node_step_cases)
  case (headlight j clk raw)
  then show ?thesis by blast
next
  case (hazard j clk raw)
  then show ?thesis using hazard_lights_no_headlight assms(2,3) by blast
next
  case (sensor adc ts now)
  then show ?thesis using assms(2,3) loop_parts_io(2) [of adc n] by simp
qed (use assms(2,3) in \<open>auto dest: loop_lights_none\<close>)

lemma step_hazard_request:
  assumes "node_step (n, pc) (n', pc')" "hazard_on n'" "\<not> hazard_on n"
  shows "\<exists>clk j raw. junk_ok j \<and> n' = hazard_handler clk j raw n"
  using assms(1)
proof (cases rule: node_step_cases)
  case (hazard j clk raw)
  then show ?thesis by blast
next
  case (headlight j clk raw)
  then show ?thesis using headlight_keeps_hazard assms(2,3) by blast
next
  case (sensor adc ts now)
  then show ?thesis using assms(2,3) parts_keep_hazard(5) [of adc n] by simp
qed (use assms(2,3) in simp_all)

lemma step_hazard:
  assumes "node_step (n, pc) (n', pc')" "hazard_lit (io n')" "\<not> hazard_lit (io n)"
  shows "\<exists>now. pc = At_toggle now"
  using assms(1)
proof (cases rule: node_step_cases)
  case (hazard j clk raw)
  then show ?thesis using hazard_handler_lights assms(2,3) by blast
next
  case (headlight j clk raw)
  then show ?thesis using headlight_keeps_hazard assms(2,3) by blast
next
  case (sensor adc ts now)
  then show ?thesis using assms(2,3) loop_parts_io(2) [of adc n] by simp
qed (use assms(2,3) in \<open>auto dest: loop_lights_none\<close>)

lemma step_decides:
  assumes "node_step (n, pc) (n', At_toggle now)"
  shows "pc = At_toggle now \<or> n' = n \<and> blink_due now n"
  using assms by (cases rule: node_step_cases) (auto split: if_splits)

section \<open>Entering a forbidden state\<close>

text \<open>Whatever forbids the actuators switches both lamps off on the way.\<close>

lemma event_darkens:
  assumes "safety_actuator_allowed sm" "\<not> safety_actuator_allowed (fst (safety_step e (sm, b)))"
  shows "all_dark (snd (safety_step e (sm, b)))"
proof -
  have f: "all_dark (snd (safety_report_fault f t (sm, b)))"
    if "\<not> safety_actuator_allowed (fst (safety_report_fault f t (sm, b)))" for f t
    using that assms(1) by (cases "sm_state sm") (auto simp: safety_actuator_allowed_def state_simps)
  show ?thesis
  proof (cases e)
    case (Ev_periodic ram t)
    then show ?thesis
      using assms by (cases rule: periodic_test_cases [of ram t "(sm, b)"]) (auto intro: f)
  next
    case (Ev_tick t)
    then show ?thesis using assms by (auto simp: safety_actuator_allowed_def state_simps split: if_splits)
  next
    case Ev_ok
    then show ?thesis using assms by (auto simp: safety_actuator_allowed_def state_simps split: if_splits)
  qed (use assms(2) f in auto)
qed

lemma fault_darkens:
  "safety_actuator_allowed (safety n) \<Longrightarrow> \<not> safety_actuator_allowed (safety (node_fault f t n)) \<Longrightarrow>
   all_dark (io (node_fault f t n))"
  using event_darkens [of "safety n" "Ev_fault f t" "io n"] by (simp add: node_fault_eq)

lemma decode_darkens:
  assumes "decode_secure_message clk raw h j chk did n = (ok, hdr, json, chk', n')"
    and "safety_actuator_allowed (safety n)" "\<not> safety_actuator_allowed (safety n')"
  shows "\<not> ok \<and> all_dark (io n')"
  using assms(1)
proof (cases rule: decode_outcomes)
  case (fault f c sq t t')
  then show ?thesis
    using assms(2,3) fault_darkens [of "n\<lparr>ids := snd (ids_check_message did (of_nat (length raw)) (clk 0) (ids n))\<rparr>" f t']
    by (simp add: record_dtc_def Let_def)
next
  case (good m ts c)
  then show ?thesis using assms(2,3) by (auto simp: safety_actuator_allowed_def report_ok_state split: if_splits)
qed (use assms(2,3) in simp)

lemma handlers_darken:
  assumes "safety_actuator_allowed (safety n)"
  shows "\<not> safety_actuator_allowed (safety (headlight_handler clk j raw n)) \<Longrightarrow>
      all_dark (io (headlight_handler clk j raw n))"
    and "\<not> safety_actuator_allowed (safety (hazard_handler clk j raw n)) \<Longrightarrow>
      all_dark (io (hazard_handler clk j raw n))"
proof -
  have a: "safety (headlight_apply js n') = safety n'" for js n'
    by (cases rule: apply_headlight_cases [of js n']) simp_all
  have b: "safety (hazard_apply t js n') = safety n'" for t js n'
    by (cases rule: apply_hazard_cases [of t js n']) simp_all
  obtain ok hdr json chk' n1 where
    d: "decode_secure_message clk raw (jk_hdr j) (jk_json j) (headlight_checker n) DATA_ID_HEADLIGHT n =
      (ok, hdr, json, chk', n1)" by (metis prod_cases5)
  let ?n2 = "n1\<lparr>headlight_checker := chk'\<rparr>"
  show "\<not> safety_actuator_allowed (safety (headlight_handler clk j raw n)) \<Longrightarrow>
      all_dark (io (headlight_handler clk j raw n))"
    using assms decode_darkens [OF d assms] fault_darkens [of ?n2]
    by (cases "safety_actuator_allowed (safety n1)")
       (auto simp: headlight_handler_def headlight_check_def d Let_def a split: if_splits)
  obtain ok hdr json chk' n1 where
    d: "decode_secure_message clk raw (jk_hdr j) (jk_json j) (hazard_checker n) DATA_ID_HAZARD n =
      (ok, hdr, json, chk', n1)" by (metis prod_cases5)
  let ?n2 = "n1\<lparr>hazard_checker := chk'\<rparr>"
  show "\<not> safety_actuator_allowed (safety (hazard_handler clk j raw n)) \<Longrightarrow>
      all_dark (io (hazard_handler clk j raw n))"
    using assms decode_darkens [OF d assms] fault_darkens [of ?n2]
    by (cases "safety_actuator_allowed (safety n1)")
       (auto simp: hazard_handler_def hazard_check_def d Let_def b split: if_splits)
qed

lemma step_darkens:
  assumes "node_step (n, pc) (n', pc')" "safety_actuator_allowed (safety n)" "\<not> safety_actuator_allowed (safety n')"
  shows "all_dark (io n')"
proof -
  have e: "all_dark (io n')" if "n' = node_tick now n \<or> n' = node_self_test ram now t n \<or> n' = node_verify_flow t t' n"
    for now ram t t' using that
  proof (cases rule: loop_event_cases)
    case (2 e)
    then show ?thesis using event_darkens [of "safety n" e "io n"] assms(2,3) by simp
  qed (use assms(2,3) in simp)
  show ?thesis
    using assms(1)
  proof (cases rule: node_step_cases)
    case (sensor adc ts now)
    then show ?thesis using assms(2,3) loop_parts_safety(2) [of adc n] by simp
  next
    case (headlight j clk raw)
    then show ?thesis using handlers_darken(1) assms(2,3) by blast
  next
    case (hazard j clk raw)
    then show ?thesis using handlers_darken(2) assms(2,3) by blast
  qed (use assms(2,3) e in auto)
qed

text \<open>A run from a dark and forbidden node: one toggle may be pending, and nothing else lights a lamp.\<close>

definition stays_dark :: "main_at \<Rightarrow> node \<times> main_at \<Rightarrow> bool" where
  "stays_dark pc0 = (\<lambda>(n, pc). SAFETY_SAFE_STATE \<le> sm_state (safety n) \<and> \<not> headlight_lit (io n) \<and>
     ((\<forall>now. pc0 \<noteq> At_toggle now) \<longrightarrow> \<not> hazard_lit (io n) \<and> (\<forall>now. pc \<noteq> At_toggle now)))"

lemma stays_dark_step:
  assumes "node_step (n, pc) (n', pc')" "stays_dark pc0 (n, pc)"
    and headlight: "headlight_lit (io n') \<Longrightarrow> \<not> headlight_lit (io n) \<Longrightarrow> safety_actuator_allowed (safety n')"
  shows "stays_dark pc0 (n', pc')"
proof -
  have f: "SAFETY_SAFE_STATE \<le> sm_state (safety n)" "\<not> headlight_lit (io n)"
    using assms(2) by (simp_all add: stays_dark_def)
  have f': "SAFETY_SAFE_STATE \<le> sm_state (safety n')" by (rule step_keeps_forbidden [OF assms(1) f(1)])
  then have h: "\<not> headlight_lit (io n')" using headlight f(2) forbidden_iff by blast
  have z: "\<not> hazard_lit (io n') \<and> (\<forall>now. pc' \<noteq> At_toggle now)" if "\<forall>now. pc0 \<noteq> At_toggle now"
  proof -
    have d: "\<not> hazard_lit (io n)" "\<forall>now. pc \<noteq> At_toggle now"
      using assms(2) that by (simp_all add: stays_dark_def)
    have "\<not> blink_due now n" for now using f(1) forbidden_iff by (auto simp: blink_due_def)
    then show ?thesis using step_hazard [OF assms(1)] step_decides assms(1) d by blast
  qed
  show ?thesis using f' h z by (simp add: stays_dark_def)
qed

lemma stays_dark_run:
  assumes "stays_dark pc0 s" "node_reachable s" "node_step\<^sup>*\<^sup>* s s'"
  shows "stays_dark pc0 s'"
  using assms(3)
proof (induction rule: rtranclp_induct)
  case (step s1 s2)
  obtain n pc n' pc' where s: "s1 = (n, pc)" "s2 = (n', pc')" by fastforce
  have "node_inv n" using reachable_run [OF step(1) assms(2)] s reachable_inv by blast
  moreover have st: "node_step (n, pc) (n', pc')" using step(2) s by simp
  ultimately have "headlight_lit (io n') \<Longrightarrow> \<not> headlight_lit (io n) \<Longrightarrow> safety_actuator_allowed (safety n')"
    using step_headlight headlight_handler_lights by blast
  then show ?case using stays_dark_step [OF st] step.IH s by simp
qed (rule assms(1))

end
