(* ===== verification/NodeGoals.thy ===== *)
theory NodeGoals
  imports NodeClaims
begin

text \<open>
  Good commands are obeyed, and what the node publishes is accepted by a receiver with the same
  key; then the concrete node of the witnesses.
\<close>

section \<open>Obedience\<close>

lemma decode_good:
  assumes "fst (ids_check_message did (of_nat (length raw)) (clk 0) (ids n))"
    and "raw = secoc_frame (node_key (key n)) (e2e_frame m, ts, c)" "e2e_msg_ok m" "take_bit 48 ts = ts"
    and "\<bar>uint ts - uint (clk 1)\<bar> \<le> 5000" "fst (e2e_seq_check chk (msg_seq m)) = E2E_OK"
    and "length (msg_payload m) < length json0" "length (msg_payload m) \<le> 512"
  shows "decode_secure_message clk raw h json0 chk did n =
    (True, e2e_parse_header (e2e_frame m), memcpy_at json0 0 (msg_payload m @ [0]),
     snd (e2e_seq_check chk (msg_seq m)),
     n\<lparr>ids := snd (ids_check_message did (of_nat (length raw)) (clk 0) (ids n)),
       safety := safety_report_ok (safety n), flow := flow_actuator_received (clk 2) (flow n)\<rparr>)"
proof -
  obtain ids' where i: "ids_check_message did (of_nat (length raw)) (clk 0) (ids n) = (True, ids')"
    using assms(1) by (metis prod.collapse eqTrueI)
  obtain chk' where q: "e2e_seq_check chk (msg_seq m) = (E2E_OK, chk')"
    using assms(6) by (metis prod.collapse)
  have ok: "secoc_msg_ok (e2e_frame m, ts, c)" using assms(4,8) by (simp add: secoc_msg_ok_def)
  have "uint ts < 2 ^ 48" by (rule secoc_msg_ok_ts [OF ok])
  then have fr: "secoc_fresh ts (clk 1)" using assms(5) by (simp add: secoc_fresh_iff)
  have d: "secoc_decode_ex raw (key_get_node_key (key (n\<lparr>ids := ids'\<rparr>))) (clk 1) =
      (True, Some (length (e2e_frame m)), \<lparr>mac_valid = True, freshness_valid = True, freshness_ts = ts,
        freshness_counter = c\<rparr>)"
    using secoc_decode_frame [OF ok] fr assms(2) by (simp add: key_get_node_key_def)
  have "take (length (e2e_frame m)) raw = e2e_frame m" unfolding assms(2) by (rule take_secoc_frame)
  then have e: "e2e_decode (take (11 + length (msg_payload m)) raw) h' =
      (E2E_OK, e2e_parse_header (e2e_frame m), Some (msg_payload m))" for h'
    using e2e_decode_frame [OF assms(3)] by simp
  have s: "sequence_counter (e2e_parse_header (e2e_frame m)) = msg_seq m" using e2e_parse_frame [OF assms(3)] by simp
  show ?thesis
    unfolding decode_secure_message_def i Let_def prod.case d using assms(7) by (simp add: e s q)
qed

lemma no_empty_json: "json_get_string (cstr []) ''state'' 8 \<noteq> (True, v)"
  by (simp add: json_get_string_def cstr_def strstr.simps snprintf_to_def memcpy_at_def str_bytes_def Let_def)

text \<open>The node after a good message was taken in, before the callback acts on it.\<close>

definition received :: "clock \<Rightarrow> u16 \<Rightarrow> bytes \<Rightarrow> node \<Rightarrow> node" where
  "received clk did raw n =
     n\<lparr>ids := snd (ids_check_message did (of_nat (length raw)) (clk 0) (ids n)),
       safety := safety_report_ok (safety n), flow := flow_actuator_received (clk 2) (flow n)\<rparr>"

lemma command_decoded:
  assumes inv: "node_inv n" and j: "junk_ok j" and a: "authentic_command did chk (clk 1) raw st"
    and i: "fst (ids_check_message did (of_nat (length raw)) (clk 0) (ids n))"
  obtains hdr json chk' where
    "decode_secure_message clk raw (jk_hdr j) (jk_json j) chk did n = (True, hdr, json, chk', received clk did raw n)"
    "data_id hdr = did" "json_get_string (cstr json) ''state'' 8 = (True, Some (str_bytes st))"
    "\<not> length raw \<le> 35"
proof -
  have key: "node_key (key n) = NODE_KEY" using inv by (simp add: node_inv_def)
  obtain m ts c where m: "raw = secoc_frame (node_key (key n)) (e2e_frame m, ts, c)" "e2e_msg_ok m"
      "take_bit 48 ts = ts" "\<bar>uint ts - uint (clk 1)\<bar> \<le> 5000"
      "fst (e2e_seq_check chk (msg_seq m)) = E2E_OK"
      "length (msg_payload m) < length (jk_json j)" "length (msg_payload m) \<le> 512"
      "msg_id m = did" "json_get_string (cstr (msg_payload m)) ''state'' 8 = (True, Some (str_bytes st))"
    using a j unfolding authentic_command_def key junk_ok_def by auto
  have js: "cstr (memcpy_at (jk_json j) 0 (msg_payload m @ [0])) = cstr (msg_payload m)"
    using m(6) by (rule cstr_memcpy)
  show thesis
  proof (rule that)
    show "decode_secure_message clk raw (jk_hdr j) (jk_json j) chk did n =
        (True, e2e_parse_header (e2e_frame m), memcpy_at (jk_json j) 0 (msg_payload m @ [0]),
         snd (e2e_seq_check chk (msg_seq m)), received clk did raw n)"
      unfolding received_def by (rule decode_good [OF i m(1-7)])
    show "data_id (e2e_parse_header (e2e_frame m)) = did" using e2e_parse_frame [OF m(2)] m(8) by simp
    show "json_get_string (cstr (memcpy_at (jk_json j) 0 (msg_payload m @ [0]))) ''state'' 8 =
        (True, Some (str_bytes st))" by (simp add: js m(9))
    show "\<not> length raw \<le> 35" using m(9) by (cases "msg_payload m") (simp_all add: m(1) no_empty_json)
  qed
qed

lemma received_allowed:
  "safety_actuator_allowed (safety n) \<Longrightarrow> safety_actuator_allowed (safety (received clk did raw n))"
  by (simp add: received_def safety_actuator_allowed_def report_ok_state)

lemma on_off [simp]: "str_bytes ''off'' \<noteq> str_bytes ''on''" "str_bytes ''on'' \<noteq> str_bytes ''off''"
  by (simp_all add: str_bytes_def)

lemma headlight_good:
  assumes "node_inv n" "junk_ok j" "authentic_command DATA_ID_HEADLIGHT (headlight_checker n) (clk 1) raw st"
    and "fst (ids_check_message DATA_ID_HEADLIGHT (of_nat (length raw)) (clk 0) (ids n))"
    and al: "safety_actuator_allowed (safety n)" and st: "st = ''on'' \<or> st = ''off''"
  shows "\<exists>chk. headlight_handler clk j raw n =
    (let n1 = (received clk DATA_ID_HEADLIGHT raw n)\<lparr>headlight_checker := chk\<rparr>
     in if st = ''on'' then n1\<lparr>io := LED1_On (io n1), headlight_on := True\<rparr>
        else n1\<lparr>io := LED1_Off (io n1), headlight_on := False\<rparr>)"
proof -
  obtain hdr json chk' where d:
    "decode_secure_message clk raw (jk_hdr j) (jk_json j) (headlight_checker n) DATA_ID_HEADLIGHT n =
      (True, hdr, json, chk', received clk DATA_ID_HEADLIGHT raw n)"
    "data_id hdr = DATA_ID_HEADLIGHT" "json_get_string (cstr json) ''state'' 8 = (True, Some (str_bytes st))"
    "\<not> length raw \<le> 35"
    using command_decoded [OF assms(1-4)] by blast
  have "safety_actuator_allowed (safety (received clk DATA_ID_HEADLIGHT raw n))" by (rule received_allowed [OF al])
  then show ?thesis
    using d(2,3,4) st
    by (intro exI [of _ chk']) (auto simp: headlight_handler_def headlight_check_def d(1) Let_def headlight_apply_def)
qed

lemma hazard_good:
  assumes "node_inv n" "junk_ok j" "authentic_command DATA_ID_HAZARD (hazard_checker n) (clk 1) raw st"
    and "fst (ids_check_message DATA_ID_HAZARD (of_nat (length raw)) (clk 0) (ids n))"
    and al: "safety_actuator_allowed (safety n)" and st: "st = ''on'' \<or> st = ''off''"
  shows "\<exists>chk. hazard_handler clk j raw n =
    (let n1 = (received clk DATA_ID_HAZARD raw n)\<lparr>hazard_checker := chk\<rparr>
     in if st = ''on'' then n1\<lparr>hazard_on := True, hazard_last_toggle := clk 4\<rparr>
        else n1\<lparr>hazard_on := False, io := LED2_Off (io n1)\<rparr>)"
proof -
  obtain hdr json chk' where d:
    "decode_secure_message clk raw (jk_hdr j) (jk_json j) (hazard_checker n) DATA_ID_HAZARD n =
      (True, hdr, json, chk', received clk DATA_ID_HAZARD raw n)"
    "data_id hdr = DATA_ID_HAZARD" "json_get_string (cstr json) ''state'' 8 = (True, Some (str_bytes st))"
    "\<not> length raw \<le> 35"
    using command_decoded [OF assms(1-4)] by blast
  have "safety_actuator_allowed (safety (received clk DATA_ID_HAZARD raw n))" by (rule received_allowed [OF al])
  then show ?thesis
    using d(2,3,4) st
    by (intro exI [of _ chk']) (auto simp: hazard_handler_def hazard_check_def d(1) Let_def hazard_apply_def)
qed

section \<open>The published stream\<close>

lemma stream_publish:
  assumes inv: "node_key (key n) = NODE_KEY" and j: "junk_ok j" and ts: "\<bar>ts_angle ts\<bar> \<le> 9000" and st: "stream_inv n"
  shows "stream_inv (node_publish j t ts n)"
proof -
  let ?m = "steering_msg ts n"
  let ?f = "secoc_frame NODE_KEY (e2e_frame ?m, get_tick_ms t, counter (steering_freshness n))"
  have m: "e2e_msg_ok ?m" "msg_id ?m = DATA_ID_STEERING" "msg_seq ?m = seq (steering_counter n)"
    and pub: "published (node_publish j t ts n) = published n @ [?f]"
    and cnt: "steering_counter (node_publish j t ts n) =
      \<lparr>seq = seq (steering_counter n) + 1, alive = alive (steering_counter n) + 1\<rparr>"
    using publish_eq [OF j ts, of n t] inv by (simp_all add: steering_msg_def)
  have old: "\<exists>m. wire_decode NODE_KEY (published n ! i) = Some m \<and> msg_id m = DATA_ID_STEERING \<and> msg_seq m = of_nat i"
    if "i < length (published n)" for i
    using st that by (simp add: stream_inv_def)
  have new: "\<exists>m. wire_decode NODE_KEY ?f = Some m \<and> msg_id m = DATA_ID_STEERING \<and>
      msg_seq m = of_nat (length (published n))"
    using wire_decode_frame [OF m(1)] m st by (simp add: stream_inv_def)
  have seq: "seq (steering_counter n) + 1 = of_nat (Suc (length (published n)))"
    using st by (simp add: stream_inv_def)
  show ?thesis
    unfolding stream_inv_def pub cnt using old new seq by (auto simp: nth_append less_Suc_eq)
qed

lemma decode_keeps_stream:
  assumes "decode_secure_message clk raw h j chk did n = (ok, hdr, json, chk', n')"
  shows "published n' = published n \<and> steering_counter n' = steering_counter n"
  using assms
proof (cases rule: decode_outcomes)
  case (fault f c sq t t')
  then show ?thesis by (simp add: record_dtc_def node_fault_eq Let_def)
qed simp_all

lemma handlers_keep_stream:
  "published (headlight_handler clk j raw n) = published n \<and>
   steering_counter (headlight_handler clk j raw n) = steering_counter n"
  "published (hazard_handler clk j raw n) = published n \<and>
   steering_counter (hazard_handler clk j raw n) = steering_counter n"
proof -
  have f: "published (node_fault f t n') = published n'" "steering_counter (node_fault f t n') = steering_counter n'"
    for f t n' by (simp_all add: node_fault_eq)
  have a: "published (headlight_apply js n') = published n'" "steering_counter (headlight_apply js n') = steering_counter n'"
    for js n' by (cases rule: apply_headlight_cases [of js n']; simp)+
  have b: "published (hazard_apply t js n') = published n'" "steering_counter (hazard_apply t js n') = steering_counter n'"
    for t js n' by (cases rule: apply_hazard_cases [of t js n']; simp)+
  obtain ok hdr json chk' n1 where
    d: "decode_secure_message clk raw (jk_hdr j) (jk_json j) (headlight_checker n) DATA_ID_HEADLIGHT n =
      (ok, hdr, json, chk', n1)" by (metis prod_cases5)
  show "published (headlight_handler clk j raw n) = published n \<and>
      steering_counter (headlight_handler clk j raw n) = steering_counter n"
    using decode_keeps_stream [OF d] by (simp add: headlight_handler_def headlight_check_def d Let_def f a)
  obtain ok hdr json chk' n1 where
    d: "decode_secure_message clk raw (jk_hdr j) (jk_json j) (hazard_checker n) DATA_ID_HAZARD n =
      (ok, hdr, json, chk', n1)" by (metis prod_cases5)
  show "published (hazard_handler clk j raw n) = published n \<and>
      steering_counter (hazard_handler clk j raw n) = steering_counter n"
    using decode_keeps_stream [OF d] by (simp add: hazard_handler_def hazard_check_def d Let_def f b)
qed

lemma loop_parts_stream:
  "published (node_tick now n) = published n \<and> steering_counter (node_tick now n) = steering_counter n"
  "published (node_self_test ram now t n) = published n \<and> steering_counter (node_self_test ram now t n) = steering_counter n"
  "published (snd (node_sense adc n)) = published n \<and> steering_counter (snd (node_sense adc n)) = steering_counter n"
  "published (node_verify_flow t t' n) = published n \<and> steering_counter (node_verify_flow t t' n) = steering_counter n"
  by (simp_all add: node_tick_def node_self_test_def node_sense_def node_read_sensor_def node_verify_flow_def
      record_dtc_def node_fault_eq case_prod_beta Let_def)

lemma stream_step:
  assumes "node_step (n, pc) (n', pc')" "loop_inv (n, pc)" "stream_inv n"
  shows "stream_inv n'"
  using assms(1)
proof (cases rule: node_step_cases)
  case (publish j now ts t)
  then show ?thesis using stream_publish [of n j ts t] assms(2,3) by (simp add: loop_inv_def node_inv_def)
next
  case (sensor adc ts now)
  then show ?thesis using assms(3) loop_parts_stream(3) [of adc n] by (simp add: stream_inv_def)
qed (use assms(3) in \<open>simp_all add: stream_inv_def handlers_keep_stream loop_parts_stream node_feed_def
      node_count_def blink_toggle_def\<close>)

lemma reachable_stream: "node_reachable (n, pc) \<Longrightarrow> stream_inv n"
proof (induction "(n, pc)" arbitrary: n pc rule: node_reachable.induct)
  case (start adc buf0 hdr0 input0 opens tasks tick b p n)
  then show ?case using start_effect [OF start(1-3)] by (simp add: stream_inv_def)
next
  case (step s n' pc')
  obtain n pc where s: "s = (n, pc)" by fastforce
  show ?case using stream_step [of n pc n' pc'] reachable_loop [of s] step s by simp
qed

text \<open>A turn publishes one frame.\<close>

lemma turn_publishes:
  assumes "node_inv n" "junk_ok j"
  shows "\<exists>f. published (node_turn adc ram clk j n) = published n @ [f]"
proof -
  define n2 where "n2 = node_self_test ram (clk 0) (clk 1) (node_tick (clk 0) (node_feed n))"
  obtain ts n4 where s: "node_sense adc n2 = (ts, n4)" by fastforce
  have "node_inv n2"
    unfolding n2_def by (intro inv_self_test inv_tick) (use assms(1) in \<open>simp add: node_inv_def node_feed_def\<close>)
  then have ts: "\<bar>ts_angle ts\<bar> \<le> 9000" using sense_eq [OF s] by (auto simp: node_inv_def)
  have "published n2 = published n" by (simp add: n2_def loop_parts_stream node_feed_def)
  then have p: "published n4 = published n" using loop_parts_stream(3) [of adc n2] s by simp
  show ?thesis
    unfolding node_turn_def Let_def n2_def [symmetric] s prod.case
    using publish_eq [OF assms(2) ts, of n4 "clk 2"] p
    by (simp add: node_count_def node_blink_def blink_toggle_def loop_parts_stream)
qed

text \<open>The sequence numbers of a stream count up from zero, so a checker takes them all.\<close>

lemma successively_counting: "successively (\<lambda>x y. y = x + 1) (map (of_nat :: nat \<Rightarrow> u16) [k..<k + l])"
  by (induction l) (auto simp: successively_append_iff last_map)

lemma stream_accepted:
  assumes "stream_inv n"
  obtains ms where "map (wire_decode NODE_KEY) (published n) = map Some ms"
    "\<forall>m \<in> set ms. msg_id m = DATA_ID_STEERING"
    "set (e2e_seq_verdicts (e2e_seq_checker_init E2E_ASILD_MAX_GAP) (map msg_seq ms)) \<subseteq> {E2E_OK}"
proof -
  let ?l = "length (published n)"
  obtain f where f: "\<forall>i < ?l. wire_decode NODE_KEY (published n ! i) = Some (f i) \<and>
      msg_id (f i) = DATA_ID_STEERING \<and> msg_seq (f i) = of_nat i"
    using assms unfolding stream_inv_def by metis
  have seqs: "map msg_seq (map f [0..<?l]) = map of_nat [0..<?l]" using f by simp
  show thesis
  proof (rule that [of "map f [0..<?l]"])
    show "map (wire_decode NODE_KEY) (published n) = map Some (map f [0..<?l])"
      using f by (intro nth_equalityI) simp_all
    show "\<forall>m \<in> set (map f [0..<?l]). msg_id m = DATA_ID_STEERING" using f by simp
    show "set (e2e_seq_verdicts (e2e_seq_checker_init E2E_ASILD_MAX_GAP) (map msg_seq (map f [0..<?l]))) \<subseteq> {E2E_OK}"
      unfolding seqs seq_accepts_iff using successively_counting [of 0 ?l] by simp
  qed
qed

section \<open>A concrete node\<close>

text \<open>
  A node after its start-up, with arbitrary bytes on the stack, no sensor and a session that opens
  at the second attempt; its stack later; and commands for its lamps.
\<close>

definition boot_node :: node where
  "boot_node = the (node_start (\<lambda>_. False) (replicate 64 0xA5) blank_header (replicate 48 0xA5) [False, True] True
     100 (node_reset lit_board idle_pins))"

definition some_junk :: stack_junk where
  "some_junk = \<lparr>jk_hdr = blank_header, jk_json = replicate 64 0xA5, jk_payload = replicate 192 0xA5,
     jk_e2e = replicate 300 0xA5, jk_secoc = replicate 400 0xA5\<rparr>"

definition command_frame :: "u16 \<Rightarrow> string \<Rightarrow> bytes" where
  "command_frame did st = secoc_frame NODE_KEY
     (e2e_frame \<lparr>msg_id = did, msg_seq = 7, msg_alive = 0,
        msg_payload = str_bytes (''{\"state\":\"'' @ st @ ''\"}'')\<rparr>, 2000, 0)"

lemma some_junk_ok: "junk_ok some_junk"
  by (simp add: junk_ok_def some_junk_def)

lemma boot_start:
  "node_start (\<lambda>_. False) (replicate 64 0xA5) blank_header (replicate 48 0xA5) [False, True] True
     100 (node_reset lit_board idle_pins) = Some boot_node"
proof -
  have c: "node_connect 5 [False, True] n = Some (n\<lparr>wdt := watchdog_feed (watchdog_feed (wdt n))\<rparr>)" for n
    by (simp add: numeral_eq_Suc Let_def)
  have "node_start (\<lambda>_. False) (replicate 64 0xA5) blank_header (replicate 48 0xA5) [False, True] True
      100 (node_reset lit_board idle_pins) \<noteq> None"
    by (simp only: node_start_def Let_def c option.case not_True_eq_False if_False option.simps simp_thms)
  then show ?thesis unfolding boot_node_def by (rule option.collapse [symmetric])
qed

lemma start_tick: "node_start adc buf0 hdr0 input0 opens tasks tick n0 = Some n \<Longrightarrow> last_self_test_tick n = tick"
  by (auto simp: node_start_def Let_def split: option.splits if_splits)

lemma boot_self_test_tick: "last_self_test_tick boot_node = 100"
  by (rule start_tick [OF boot_start])

lemma boot_reachable: "node_reachable (boot_node, Loop_top)"
  by (rule node_reachable.start [OF boot_start]) simp_all

lemma boot_facts:
  "node_inv boot_node \<and> sm_state (safety boot_node) = SAFETY_NORMAL \<and> total_faults (safety boot_node) = 0 \<and>
   \<not> hazard_on boot_node \<and> \<not> headlight_lit (io boot_node) \<and> \<not> hazard_lit (io boot_node) \<and>
   headlight_checker boot_node = e2e_seq_checker_init E2E_ASILD_MAX_GAP \<and>
   hazard_checker boot_node = e2e_seq_checker_init E2E_ASILD_MAX_GAP \<and>
   ids boot_node = ids_registered [DATA_ID_HEADLIGHT, DATA_ID_HAZARD] (ids boot_node)"
proof -
  have "safety boot_node = (safety_init (safety boot_node))\<lparr>self_test_passed := True\<rparr>"
    using start_effect [OF boot_start] by simp
  then have "sm_state (safety boot_node) = SAFETY_NORMAL \<and> total_faults (safety boot_node) = 0"
    by (metis (no_types, lifting) safety_init_def safety_manager_t.select_convs(1,3) safety_manager_t.update_convs(6)
        safety_manager_t.simps)
  then show ?thesis using start_effect [OF boot_start] by (simp add: all_dark_def)
qed

lemma fresh_ids:
  assumes "i = ids_registered [DATA_ID_HEADLIGHT, DATA_ID_HAZARD] i" "did \<in> {DATA_ID_HEADLIGHT, DATA_ID_HAZARD}"
  shows "fst (ids_check_message did sz t i)"
proof -
  let ?i = "ids_registered [DATA_ID_HEADLIGHT, DATA_ID_HAZARD] i"
  obtain k where "find_channel ?i did = Some k"
    using ids_registered_find [of did "[DATA_ID_HEADLIGHT, DATA_ID_HAZARD]" i] assms(2) by auto
  from ids_check_effect(1) [OF ids_registered_wf this, of sz t]
  have "fst (ids_check_message did sz t ?i)" by (simp add: ids_registered_ticks window_load_def)
  then show ?thesis using assms(1) by metis
qed

lemma boot_ids:
  "did \<in> {DATA_ID_HEADLIGHT, DATA_ID_HAZARD} \<Longrightarrow> fst (ids_check_message did sz t (ids boot_node))"
  using boot_facts by (intro fresh_ids) simp_all

text \<open>A checker that has seen nothing takes any sequence number.\<close>

lemma authentic_fresh:
  assumes "authentic_command did chk t raw st"
  shows "authentic_command did (e2e_seq_checker_init E2E_ASILD_MAX_GAP) t raw st"
proof -
  have "fst (e2e_seq_check (e2e_seq_checker_init E2E_ASILD_MAX_GAP) s) = E2E_OK" for s
    by (simp add: e2e_seq_check_def e2e_seq_checker_init_def)
  then show ?thesis using assms unfolding authentic_command_def by blast
qed

lemma json_on: "json_get_string (cstr (str_bytes ''{\"state\":\"on\"}'')) ''state'' 8 = (True, Some (str_bytes ''on''))"
  by code_simp

lemma boot_command:
  assumes "chk = e2e_seq_checker_init E2E_ASILD_MAX_GAP"
  shows "authentic_command did chk 1000 (command_frame did ''on'') ''on''"
proof -
  let ?m = "\<lparr>msg_id = did, msg_seq = 7, msg_alive = 0, msg_payload = str_bytes ''{\"state\":\"on\"}''\<rparr>"
  have "e2e_msg_ok ?m" "length (msg_payload ?m) < 64" by (simp_all add: e2e_msg_ok_def str_bytes_def)
  moreover have "fst (e2e_seq_check chk (msg_seq ?m)) = E2E_OK"
    by (simp add: assms e2e_seq_check_def e2e_seq_checker_init_def)
  moreover have "command_frame did ''on'' = secoc_frame NODE_KEY (e2e_frame ?m, 2000, 0)"
    by (simp add: command_frame_def)
  moreover have "take_bit 48 (2000 :: u64) = 2000" by simp
  moreover have "\<bar>uint (2000 :: u64) - uint (1000 :: u32)\<bar> \<le> 5000" by simp
  ultimately show ?thesis
    unfolding authentic_command_def using json_on by (metis e2e_msg.select_convs(1,4))
qed

text \<open>A command for the headlight meets a node that takes it.\<close>

lemma boot_headlight_command:
  "authentic_command DATA_ID_HEADLIGHT (headlight_checker boot_node) ((\<lambda>_. 1000) (1 :: nat))
     (command_frame DATA_ID_HEADLIGHT ''on'') ''on''"
  "fst (ids_check_message DATA_ID_HEADLIGHT (of_nat (length (command_frame DATA_ID_HEADLIGHT ''on'')))
     ((\<lambda>_. 1000) (0 :: nat)) (ids boot_node))"
  "safety_actuator_allowed (safety boot_node)"
  using boot_facts by (simp_all add: boot_command boot_ids safety_actuator_allowed_def)

lemma boot_headlight_on:
  "headlight_lit (io (headlight_handler (\<lambda>_. 1000) some_junk (command_frame DATA_ID_HEADLIGHT ''on'') boot_node))"
proof -
  have "node_inv boot_node" using boot_facts by simp
  from headlight_good [OF this some_junk_ok boot_headlight_command] show ?thesis by (auto simp: Let_def)
qed

text \<open>Noise through the headlight callback, and what it does to the states.\<close>

abbreviation noisy :: "node \<Rightarrow> node" where
  "noisy n \<equiv> headlight_handler (\<lambda>_. 1000) some_junk noise n"

lemma noisy_effect:
  assumes "node_inv n"
  shows "node_inv (noisy n) \<and> hazard_on (noisy n) = hazard_on n \<and>
    hazard_last_toggle (noisy n) = hazard_last_toggle n \<and>
    (sm_state (safety n) = SAFETY_NORMAL \<longrightarrow> sm_state (safety (noisy n)) = SAFETY_DEGRADED) \<and>
    (sm_state (safety n) = SAFETY_DEGRADED \<longrightarrow> sm_state (safety (noisy n)) =
       (if 4 \<le> total_faults (safety n) + 1 then SAFETY_SAFE_STATE else SAFETY_DEGRADED)) \<and>
    (sm_state (safety n) \<noteq> SAFETY_FAIL_SILENT \<longrightarrow> total_faults (safety (noisy n)) = total_faults (safety n) + 1)"
proof -
  have "35 < length noise" by (simp add: noise_def)
  then obtain f t where h: "safety (noisy n) = fst (safety_report_fault f t (safety n, io n))"
    "hazard_on (noisy n) = hazard_on n" "hazard_last_toggle (noisy n) = hazard_last_toggle n"
    using noise_no_frame by (rule unauthentic_headlight)
  show ?thesis
    using headlight_handler_inv [OF assms] by (simp add: h report_fault_state report_fault_total)
qed

lemma noisy_reachable: "node_reachable (n, pc) \<Longrightarrow> node_reachable (noisy n, pc)"
  by (erule node_reachable.step) (rule node_step.headlight [OF some_junk_ok])

text \<open>Hazard requested, then three samples of noise: \<open>DEGRADED\<close>, one fault from \<open>SAFE_STATE\<close>.\<close>

definition hazard_node :: node where
  "hazard_node = hazard_handler (\<lambda>_. 1000) some_junk (command_frame DATA_ID_HAZARD ''on'') boot_node"

definition edge_node :: node where
  "edge_node = noisy (noisy (noisy hazard_node))"

lemma hazard_node_facts:
  "node_reachable (hazard_node, Loop_top) \<and> node_inv hazard_node \<and> hazard_on hazard_node \<and>
   hazard_last_toggle hazard_node = 1000 \<and> sm_state (safety hazard_node) = SAFETY_NORMAL \<and>
   total_faults (safety hazard_node) = 0 \<and> last_self_test_tick hazard_node = 100"
proof -
  have b: "node_inv boot_node" "sm_state (safety boot_node) = SAFETY_NORMAL" "total_faults (safety boot_node) = 0"
    "hazard_checker boot_node = e2e_seq_checker_init E2E_ASILD_MAX_GAP"
    using boot_facts by simp_all
  have a: "authentic_command DATA_ID_HAZARD (hazard_checker boot_node) ((\<lambda>_. 1000) (1 :: nat))
      (command_frame DATA_ID_HAZARD ''on'') ''on''"
    by (rule boot_command [OF b(4)])
  have i: "fst (ids_check_message DATA_ID_HAZARD (of_nat (length (command_frame DATA_ID_HAZARD ''on'')))
      ((\<lambda>_. 1000) (0 :: nat)) (ids boot_node))"
    by (rule boot_ids) simp
  have al: "safety_actuator_allowed (safety boot_node)" using b(2) by (simp add: safety_actuator_allowed_def)
  obtain chk where h: "hazard_node =
      (received (\<lambda>_. 1000) DATA_ID_HAZARD (command_frame DATA_ID_HAZARD ''on'') boot_node)
        \<lparr>hazard_checker := chk, hazard_on := True, hazard_last_toggle := 1000\<rparr>"
    using hazard_good [OF b(1) some_junk_ok a i al] by (auto simp: hazard_node_def Let_def)
  have ok: "safety_report_ok (safety boot_node) = safety boot_node" using b(2) by (simp add: safety_report_ok_def)
  have "node_reachable (hazard_node, Loop_top)"
    unfolding hazard_node_def
    by (rule node_reachable.step [OF boot_reachable node_step.hazard [OF some_junk_ok]])
  moreover from this have "node_inv hazard_node" by (rule reachable_inv)
  ultimately show ?thesis using b(2,3) by (simp add: h received_def ok boot_self_test_tick)
qed

lemma edge_node_facts:
  "node_reachable (edge_node, Loop_top) \<and> node_inv edge_node \<and> hazard_on edge_node \<and>
   hazard_last_toggle edge_node = 1000 \<and> sm_state (safety edge_node) = SAFETY_DEGRADED \<and>
   total_faults (safety edge_node) = 3"
proof -
  note h = hazard_node_facts
  have 1: "node_inv (noisy hazard_node)" "sm_state (safety (noisy hazard_node)) = SAFETY_DEGRADED"
    "total_faults (safety (noisy hazard_node)) = 1"
    using noisy_effect [of hazard_node] h by simp_all
  have 2: "node_inv (noisy (noisy hazard_node))" "sm_state (safety (noisy (noisy hazard_node))) = SAFETY_DEGRADED"
    "total_faults (safety (noisy (noisy hazard_node))) = 2"
    using noisy_effect [OF 1(1)] 1 by simp_all
  have 3: "node_inv edge_node" "sm_state (safety edge_node) = SAFETY_DEGRADED" "total_faults (safety edge_node) = 3"
    using noisy_effect [OF 2(1)] 2 by (simp_all add: edge_node_def)
  have "hazard_on edge_node" "hazard_last_toggle edge_node = 1000"
    using noisy_effect [of hazard_node] noisy_effect [OF 1(1)] noisy_effect [OF 2(1)] h
    by (simp_all add: edge_node_def)
  then show ?thesis using 3 h by (simp add: edge_node_def noisy_reachable)
qed

lemma edge_noise: "\<not> safety_actuator_allowed (safety (noisy edge_node))"
  using noisy_effect [of edge_node] edge_node_facts by (simp add: safety_actuator_allowed_def)

text \<open>
  The same three samples of noise when the main loop is about to make its blink test: with the
  request half a second old the test succeeds, and one more sample forbids the actuators.
\<close>

lemma hazard_node_at_blink:
  obtains n where "node_reachable (n, At_blink 1500)" "safety n = safety hazard_node" "hazard_on n"
    "hazard_last_toggle n = 1000"
proof -
  note h = hazard_node_facts
  define n1 where "n1 = node_tick 1500 (node_feed hazard_node)"
  have keep: "safety n1 = safety hazard_node" "hazard_on n1" "hazard_last_toggle n1 = 1000"
      "last_self_test_tick n1 = 100"
    using h by (simp_all add: n1_def node_tick_def node_feed_def safety_tick_def)
  then have st: "node_self_test id 1500 1500 n1 = n1" by (simp add: node_self_test_def)
  have "node_reachable (n1, At_self_test 1500)"
    unfolding n1_def
    by (intro node_reachable.step [OF _ node_step.tick] node_reachable.step [OF _ node_step.feed]) (use h in simp)
  from node_reachable.step [OF this node_step.self_test [where ram = id and t = 1500]]
  have r1: "node_reachable (n1, At_sensor 1500)" unfolding st .
  obtain ts n2 where s: "node_sense (\<lambda>_. False) n1 = (ts, n2)" by fastforce
  have r2: "node_reachable (n2, At_publish 1500 ts)" by (rule node_reachable.step [OF r1 node_step.sensor [OF s]])
  let ?n3 = "node_publish some_junk 1500 ts n2"
  have r3: "node_reachable (?n3, At_verify 1500)"
    by (rule node_reachable.step [OF r2 node_step.publish [OF some_junk_ok]])
  have "node_verify_flow 1500 1500 ?n3 = ?n3\<lparr>flow := (flow ?n3)\<lparr>checkpoints_hit := 0\<rparr>\<rparr>"
    by (rule verify_marked) (use reachable_loop [OF r3] in \<open>simp add: loop_inv_def\<close>)
  moreover have "hazard_last_toggle n2 = hazard_last_toggle n1" "safety n2 = safety n1" "hazard_on n2 = hazard_on n1"
    using sense_eq [OF s] reachable_inv [OF r1] by (auto simp: node_inv_def)
  moreover have "hazard_last_toggle ?n3 = hazard_last_toggle n2"
    by (simp add: node_publish_def Let_def case_prod_beta)
  ultimately show thesis
    using that [OF node_reachable.step [OF r3 node_step.verify [of _ _ 1500 1500]]] keep by simp
qed

lemma noisy_at_blink:
  obtains n where "node_reachable (n, At_blink 1500)" "blink_due 1500 n"
    "\<not> safety_actuator_allowed (safety (noisy n))"
proof -
  obtain n0 where n0: "node_reachable (n0, At_blink 1500)" "safety n0 = safety hazard_node" "hazard_on n0"
    "hazard_last_toggle n0 = 1000" by (rule hazard_node_at_blink)
  have 0: "node_inv n0" "sm_state (safety n0) = SAFETY_NORMAL" "total_faults (safety n0) = 0"
    using reachable_inv [OF n0(1)] n0(2) hazard_node_facts by simp_all
  have 1: "node_inv (noisy n0)" "sm_state (safety (noisy n0)) = SAFETY_DEGRADED"
    "total_faults (safety (noisy n0)) = 1"
    using noisy_effect [OF 0(1)] 0 by simp_all
  have 2: "node_inv (noisy (noisy n0))" "sm_state (safety (noisy (noisy n0))) = SAFETY_DEGRADED"
    "total_faults (safety (noisy (noisy n0))) = 2"
    using noisy_effect [OF 1(1)] 1 by simp_all
  have 3: "node_inv (noisy (noisy (noisy n0)))" "sm_state (safety (noisy (noisy (noisy n0)))) = SAFETY_DEGRADED"
    "total_faults (safety (noisy (noisy (noisy n0)))) = 3"
    using noisy_effect [OF 2(1)] 2 by simp_all
  have "hazard_on (noisy (noisy (noisy n0)))" "hazard_last_toggle (noisy (noisy (noisy n0))) = 1000"
    using noisy_effect [OF 0(1)] noisy_effect [OF 1(1)] noisy_effect [OF 2(1)] n0(3,4) by simp_all
  then show thesis
    using that [of "noisy (noisy (noisy n0))"] noisy_reachable n0(1) noisy_effect [OF 3(1)] 3
    by (simp add: blink_due_def safety_actuator_allowed_def)
qed

end
