(* ===== verification/NodeTheorems.thy ===== *)
theory NodeTheorems
  imports NodeGoals
begin

text \<open>
  The properties of the control node, over the steps of \<open>node_step\<close>: whatever samples arrive and
  wherever they interrupt the main loop between two of its calls, and whatever the clock, the
  sensor, the button and the stack hold.
\<close>



text \<open>
  C2: the only step that turns the headlight on is the callback on an authentic command: a frame
  under the node's own key around an intact message for the headlight, its time stamp at most five
  seconds from the clock, with the sequence number the checker expects and \<open>on\<close> as its state;
  and only while the actuators are allowed.
\<close>

theorem headlight_only_authentic:
  assumes "node_reachable (n, pc)" "node_step (n, pc) (n', pc')" "headlight_lit (io n')" "\<not> headlight_lit (io n)"
  shows "\<exists>clk j raw. n' = headlight_handler clk j raw n \<and>
    authentic_command DATA_ID_HEADLIGHT (headlight_checker n) (clk 1) raw ''on'' \<and>
    safety_actuator_allowed (safety n')"
proof -
  obtain clk j raw where h: "junk_ok j" "n' = headlight_handler clk j raw n"
    using step_headlight [OF assms(2-4)] by blast
  show ?thesis
    using headlight_handler_lights [OF reachable_inv [OF assms(1)] h(1)] assms(3,4) h(2) by blast
qed

theorem headlight_only_authentic_witness:
  "\<exists>clk j raw. headlight_handler (\<lambda>_. 1000) some_junk (command_frame DATA_ID_HEADLIGHT ''on'') boot_node =
      headlight_handler clk j raw boot_node \<and>
    authentic_command DATA_ID_HEADLIGHT (headlight_checker boot_node) (clk 1) raw ''on''"
proof -
  have "\<not> headlight_lit (io boot_node)" using boot_facts by simp
  then show ?thesis
    using headlight_only_authentic [OF boot_reachable node_step.headlight [OF some_junk_ok] boot_headlight_on]
    by blast
qed

text \<open>
  C3: a reachable node obeys such a command when its intrusion detection lets it through and the
  actuators are allowed: the headlight and its flag follow the state in the message.
\<close>

theorem headlight_obeys:
  assumes "node_reachable (n, pc)" "junk_ok j"
    and "authentic_command DATA_ID_HEADLIGHT (headlight_checker n) (clk 1) raw st"
    and "fst (ids_check_message DATA_ID_HEADLIGHT (of_nat (length raw)) (clk 0) (ids n))"
    and "safety_actuator_allowed (safety n)" "st = ''on'' \<or> st = ''off''"
  shows "(headlight_lit (io (headlight_handler clk j raw n)) \<longleftrightarrow> st = ''on'') \<and>
    (headlight_on (headlight_handler clk j raw n) \<longleftrightarrow> st = ''on'')"
proof -
  obtain chk where "headlight_handler clk j raw n =
    (let n1 = (received clk DATA_ID_HEADLIGHT raw n)\<lparr>headlight_checker := chk\<rparr>
     in if st = ''on'' then n1\<lparr>io := LED1_On (io n1), headlight_on := True\<rparr>
        else n1\<lparr>io := LED1_Off (io n1), headlight_on := False\<rparr>)"
    using headlight_good [OF reachable_inv [OF assms(1)] assms(2-6)] by blast
  then show ?thesis by (cases "st = ''on''") (simp_all add: Let_def)
qed

theorem headlight_obeys_witness:
  "headlight_on (headlight_handler (\<lambda>_. 1000) some_junk (command_frame DATA_ID_HEADLIGHT ''on'') boot_node)"
  using headlight_obeys [OF boot_reachable some_junk_ok boot_headlight_command] by simp

text \<open>
  The request for the hazard lamp is raised by an authentic \<open>on\<close> command only, and the lamp
  is lit by the toggle of the main loop only, after a test that found the request and the actuators
  allowed.
\<close>

theorem hazard_only_authentic:
  assumes "node_reachable (n, pc)" "node_step (n, pc) (n', pc')"
  shows "(hazard_on n' \<and> \<not> hazard_on n \<longrightarrow>
      (\<exists>clk j raw. n' = hazard_handler clk j raw n \<and>
         authentic_command DATA_ID_HAZARD (hazard_checker n) (clk 1) raw ''on'' \<and>
         safety_actuator_allowed (safety n'))) \<and>
    (hazard_lit (io n') \<and> \<not> hazard_lit (io n) \<longrightarrow> (\<exists>now. pc = At_toggle now)) \<and>
    (\<forall>now. pc' = At_toggle now \<and> pc \<noteq> At_toggle now \<longrightarrow> hazard_on n \<and> safety_actuator_allowed (safety n))"
proof -
  have "authentic_command DATA_ID_HAZARD (hazard_checker n) (clk 1) raw ''on'' \<and>
      safety_actuator_allowed (safety (hazard_handler clk j raw n))"
    if "junk_ok j" "hazard_on (hazard_handler clk j raw n)" "\<not> hazard_on n" for clk j raw
    using hazard_handler_arms [OF reachable_inv [OF assms(1)] that] .
  moreover have "hazard_on n \<and> safety_actuator_allowed (safety n)"
    if "pc' = At_toggle now" "pc \<noteq> At_toggle now" for now
    using step_decides [of n pc n' now] assms(2) that by (auto simp: blink_due_def)
  ultimately show ?thesis
    using step_hazard_request [OF assms(2)] step_hazard [OF assms(2)] by blast
qed

theorem hazard_only_authentic_witness:
  "\<exists>clk j raw. hazard_node = hazard_handler clk j raw boot_node \<and>
    authentic_command DATA_ID_HAZARD (hazard_checker boot_node) (clk 1) raw ''on''"
proof -
  have s: "node_step (boot_node, Loop_top) (hazard_node, Loop_top)"
    unfolding hazard_node_def by (rule node_step.hazard [OF some_junk_ok])
  have "hazard_on hazard_node \<and> \<not> hazard_on boot_node" using boot_facts hazard_node_facts by simp
  then show ?thesis using hazard_only_authentic [OF boot_reachable s] by blast
qed

text \<open>
  C4: whatever a reachable node has published, a receiver with the node's key verifies and
  decodes every frame of it, each is a steering message, and an ASIL-D sequence checker accepts
  the whole stream in order.
\<close>

theorem node_stream_accepted:
  assumes "node_reachable (n, pc)"
  shows "\<exists>ms. map (wire_decode NODE_KEY) (published n) = map Some ms \<and>
    (\<forall>m \<in> set ms. msg_id m = DATA_ID_STEERING) \<and>
    set (e2e_seq_verdicts (e2e_seq_checker_init E2E_ASILD_MAX_GAP) (map msg_seq ms)) \<subseteq> {E2E_OK}"
  using stream_accepted [OF reachable_stream [OF assms]] by metis

theorem node_stream_accepted_witness:
  "\<exists>m. map (wire_decode NODE_KEY) (published (node_turn (\<lambda>_. False) id (\<lambda>_. 1000) some_junk boot_node)) = [Some m] \<and>
     msg_id m = DATA_ID_STEERING"
proof -
  let ?n = "node_turn (\<lambda>_. False) id (\<lambda>_. 1000) some_junk boot_node"
  have b: "node_inv boot_node" "published boot_node = []" using start_effect [OF boot_start] by simp_all
  have l: "length (published ?n) = 1"
    using turn_publishes [OF b(1) some_junk_ok, of "\<lambda>_. False" id "\<lambda>_. 1000"] b(2) by auto
  have r: "node_reachable (?n, Loop_top)"
    by (rule reachable_run [OF turn_is_a_run [OF some_junk_ok] boot_reachable])
  obtain ms where ms: "map (wire_decode NODE_KEY) (published ?n) = map Some ms" "\<forall>m \<in> set ms. msg_id m = DATA_ID_STEERING"
    using node_stream_accepted [OF r] by blast
  have "length ms = 1" using arg_cong [OF ms(1), of length] l by simp
  then obtain m where "ms = [m]" by (auto simp: length_Suc_conv)
  then show ?thesis using ms by auto
qed

text \<open>
  In every reachable state the program flow monitor has counted no error, and the checkpoints that
  are marked are those the main loop has passed in this turn, so it never reports a flow fault.
\<close>

theorem node_no_flow_errors:
  assumes "node_reachable (n, pc)"
  shows "total_flow_errors (flow n) = 0 \<and> checkpoints_hit (flow n) = mask_at pc"
  using reachable_loop [OF assms] by (simp add: loop_inv_def)

theorem node_no_flow_errors_witness: "total_flow_errors (flow edge_node) = 0"
  using node_no_flow_errors [of edge_node Loop_top] edge_node_facts by simp

text \<open>
  C5: a sample longer than the headers that is no frame of a well-formed message under the node's
  key is a fault: through the headlight callback it escalates the safety state and lights nothing.
\<close>

theorem unauthentic_sample_faults:
  assumes "node_reachable (n, pc)" "35 < length raw"
    and "\<And>m ts c. e2e_msg_ok m \<Longrightarrow> raw \<noteq> secoc_frame NODE_KEY (e2e_frame m, ts, c)"
  shows "\<exists>f t. (safety (headlight_handler clk j raw n), io (headlight_handler clk j raw n)) =
      safety_report_fault f t (safety n, io n) \<and>
    sm_state (safety (headlight_handler clk j raw n)) =
      (case sm_state (safety n) of SAFETY_NORMAL \<Rightarrow> SAFETY_DEGRADED
       | SAFETY_DEGRADED \<Rightarrow> if 4 \<le> total_faults (safety n) + 1 then SAFETY_SAFE_STATE else SAFETY_DEGRADED
       | _ \<Rightarrow> SAFETY_FAIL_SILENT) \<and>
    headlight_on (headlight_handler clk j raw n) = headlight_on n"
proof -
  have "node_key (key n) = NODE_KEY" using reachable_inv [OF assms(1)] by (simp add: node_inv_def)
  then obtain f t where h: "safety (headlight_handler clk j raw n) = fst (safety_report_fault f t (safety n, io n))"
    "io (headlight_handler clk j raw n) = snd (safety_report_fault f t (safety n, io n))"
    "headlight_on (headlight_handler clk j raw n) = headlight_on n"
    using unauthentic_headlight [OF assms(2), of n clk j] assms(3) by metis
  then show ?thesis by (intro exI [of _ f] exI [of _ t]) (simp add: report_fault_state)
qed

theorem unauthentic_sample_faults_witness:
  "sm_state (safety (headlight_handler (\<lambda>_. 1000) some_junk noise boot_node)) = SAFETY_DEGRADED"
proof -
  have l: "35 < length noise" by (simp add: noise_def)
  show ?thesis
    using unauthentic_sample_faults [OF boot_reachable l noise_no_frame, of "\<lambda>_. 1000" some_junk] boot_facts by simp
qed

text \<open>
  C6: between the main loop's blink test and its toggle the read task can run. When a sample that
  arrives there ends in a forbidden state, the toggle that follows lights the hazard lamp although
  the actuators are forbidden; the node reaches that state.
\<close>

theorem blink_race:
  assumes "node_reachable (n, At_blink now)" "blink_due now n" "junk_ok j"
    and "\<not> safety_actuator_allowed (safety (headlight_handler clk j raw n))"
  shows "node_reachable (blink_toggle now (headlight_handler clk j raw n), At_count) \<and>
    hazard_lit (io (blink_toggle now (headlight_handler clk j raw n))) \<and>
    \<not> safety_actuator_allowed (safety (blink_toggle now (headlight_handler clk j raw n)))"
proof -
  have "safety_actuator_allowed (safety n)" using assms(2) by (simp add: blink_due_def)
  then have "all_dark (io (headlight_handler clk j raw n))" using assms(4) by (rule handlers_darken(1))
  moreover have "node_step (n, At_blink now) (n, At_toggle now)" using node_step.blink [of n now] assms(2) by simp
  then have "node_reachable (blink_toggle now (headlight_handler clk j raw n), At_count)"
    by (intro node_reachable.step [OF _ node_step.toggle] node_reachable.step [OF _ node_step.headlight [OF assms(3)]]
        node_reachable.step [OF assms(1)])
  ultimately show ?thesis using assms(4) by (simp add: all_dark_def) (simp add: blink_toggle_def)
qed

theorem blink_race_witness:
  "\<exists>n. node_reachable (n, At_count) \<and> hazard_lit (io n) \<and> \<not> safety_actuator_allowed (safety n)"
proof -
  obtain n where "node_reachable (n, At_blink 1500)" "blink_due 1500 n"
    "\<not> safety_actuator_allowed (safety (noisy n))" by (rule noisy_at_blink)
  from blink_race [OF this(1,2) some_junk_ok this(3)] show ?thesis by blast
qed

text \<open>
  C7: nothing of a session survives a reset. A command that a checker of an earlier run took at
  tick \<open>t\<close> is taken again, first thing, by any freshly started node whose tick count stands at
  \<open>t\<close>: the key, the tick count and the sequence checker all start over.
\<close>

theorem replay_after_reboot:
  assumes "authentic_command DATA_ID_HEADLIGHT chk t raw st" "st = ''on'' \<or> st = ''off''"
    and "node_start adc buf0 hdr0 input0 opens tasks tick (node_reset b p) = Some n"
    and "length buf0 = 64" "length input0 = 48" "junk_ok j" "clk 1 = t"
  shows "headlight_lit (io (headlight_handler clk j raw n)) \<longleftrightarrow> st = ''on''"
proof -
  have n: "node_inv n" "safety n = (safety_init (safety n))\<lparr>self_test_passed := True\<rparr>"
    "headlight_checker n = e2e_seq_checker_init E2E_ASILD_MAX_GAP"
    "ids n = ids_registered [DATA_ID_HEADLIGHT, DATA_ID_HAZARD] (ids n)"
    using start_effect [OF assms(3-5)] by simp_all
  have a: "authentic_command DATA_ID_HEADLIGHT (headlight_checker n) (clk 1) raw st"
    unfolding n(3) assms(7) by (rule authentic_fresh [OF assms(1)])
  have i: "fst (ids_check_message DATA_ID_HEADLIGHT (of_nat (length raw)) (clk 0) (ids n))"
    by (rule fresh_ids [OF n(4)]) simp
  have al: "safety_actuator_allowed (safety n)"
    by (subst n(2)) (simp add: safety_actuator_allowed_def safety_init_def)
  obtain chk' where "headlight_handler clk j raw n =
    (let n1 = (received clk DATA_ID_HEADLIGHT raw n)\<lparr>headlight_checker := chk'\<rparr>
     in if st = ''on'' then n1\<lparr>io := LED1_On (io n1), headlight_on := True\<rparr>
        else n1\<lparr>io := LED1_Off (io n1), headlight_on := False\<rparr>)"
    using headlight_good [OF n(1) assms(6) a i al assms(2)] by blast
  then show ?thesis by (cases "st = ''on''") (simp_all add: Let_def)
qed

theorem replay_after_reboot_witness:
  "headlight_lit (io (headlight_handler (\<lambda>_. 1000) some_junk (command_frame DATA_ID_HEADLIGHT ''on'') boot_node))"
  using replay_after_reboot [OF boot_command [OF refl] _ boot_start _ _ some_junk_ok, of "\<lambda>_. 1000"] by simp

end
