(* ===== verification/HarmonyNet.thy ===== *)
theory HarmonyNet
  imports Format
begin

text \<open>
  The network layer of the port, \<open>zenoh-pico/src/system/freertos/harmony/network.c\<close>: it gives
  zenoh-pico blocking sockets over the polled TCP interface and the Berkeley sockets of the
  Harmony TCP/IP stack.

  The stack is a parameter, a record of its entry points over a state \<open>'s\<close> that holds all of it,
  the other end of the connections and the passing of time included. \<open>size_t\<close> results are
  \<open>nat option\<close>, \<open>None\<close> for \<open>SIZE_MAX\<close>. Sockets are integers, negative ones invalid.
\<close>

section \<open>The stack\<close>

record 's stack =
  TCP_ClientOpen :: "u16 \<Rightarrow> u32 \<Rightarrow> 's \<Rightarrow> int \<times> 's"
  TCP_IsConnected :: "int \<Rightarrow> 's \<Rightarrow> bool \<times> 's"
  TCP_GetIsReady :: "int \<Rightarrow> 's \<Rightarrow> u16 \<times> 's"
  TCP_ArrayGet :: "int \<Rightarrow> u16 \<Rightarrow> 's \<Rightarrow> bytes \<times> 's"
  TCP_PutIsReady :: "int \<Rightarrow> 's \<Rightarrow> u16 \<times> 's"
  TCP_ArrayPut :: "int \<Rightarrow> bytes \<Rightarrow> 's \<Rightarrow> u16 \<times> 's"
  TCP_Flush :: "int \<Rightarrow> 's \<Rightarrow> 's"
  TCP_Close :: "int \<Rightarrow> 's \<Rightarrow> 's"
  bsd_socket :: "int \<Rightarrow> int \<Rightarrow> int \<Rightarrow> 's \<Rightarrow> int \<times> 's"
  bsd_bind :: "int \<Rightarrow> u16 \<times> u32 \<Rightarrow> 's \<Rightarrow> int \<times> 's"
  bsd_listen :: "int \<Rightarrow> int \<Rightarrow> 's \<Rightarrow> int \<times> 's"
  bsd_accept :: "int \<Rightarrow> 's \<Rightarrow> int \<times> 's"
  bsd_peek :: "int \<Rightarrow> 's \<Rightarrow> int \<times> 's"
  bsd_recvfrom :: "int \<Rightarrow> nat \<Rightarrow> 's \<Rightarrow> bytes option \<times> 's"
  bsd_sendto :: "int \<Rightarrow> bytes \<Rightarrow> u16 \<times> u32 \<Rightarrow> 's \<Rightarrow> int \<times> 's"
  bsd_setsockopt :: "int \<Rightarrow> int \<Rightarrow> int \<Rightarrow> 's \<Rightarrow> int \<times> 's"
  bsd_closesocket :: "int \<Rightarrow> 's \<Rightarrow> 's"
  bsd_getaddrinfo :: "bytes \<Rightarrow> bytes \<Rightarrow> 's \<Rightarrow> (u16 \<times> u32) list option \<times> 's"
  bsd_freeaddrinfo :: "(u16 \<times> u32) list \<Rightarrow> 's \<Rightarrow> 's"
  TaskDelay :: "u32 \<Rightarrow> 's \<Rightarrow> 's"

datatype z_result = RES_OK | ERR_GENERIC

text \<open>The option numbers of \<open>berkeley_api.h\<close>.\<close>

abbreviation (input) SO_REUSEADDR :: int where "SO_REUSEADDR \<equiv> 2"
abbreviation (input) SO_BROADCAST :: int where "SO_BROADCAST \<equiv> 6"
abbreviation (input) SO_SNDBUF :: int where "SO_SNDBUF \<equiv> 7"
abbreviation (input) SO_RCVBUF :: int where "SO_RCVBUF \<equiv> 8"
abbreviation (input) SO_KEEPALIVE :: int where "SO_KEEPALIVE \<equiv> 9"
abbreviation (input) SO_RCVTIMEO :: int where "SO_RCVTIMEO \<equiv> 20"
abbreviation (input) SOL_SOCKET :: int where "SOL_SOCKET \<equiv> 1"
abbreviation (input) IPPROTO_TCP :: int where "IPPROTO_TCP \<equiv> 6"
abbreviation (input) IPPROTO_UDP :: int where "IPPROTO_UDP \<equiv> 17"
abbreviation (input) AF_INET :: int where "AF_INET \<equiv> 2"
abbreviation (input) SOCK_STREAM :: int where "SOCK_STREAM \<equiv> 100"
abbreviation (input) SOCK_DGRAM :: int where "SOCK_DGRAM \<equiv> 110"
abbreviation (input) TCP_NODELAY :: int where "TCP_NODELAY \<equiv> 1"

abbreviation (input) Z_CONFIG_SOCKET_TIMEOUT :: u32 where "Z_CONFIG_SOCKET_TIMEOUT \<equiv> 100"
abbreviation (input) Z_HARMONY_POLL_INTERVAL_MS :: u32 where "Z_HARMONY_POLL_INTERVAL_MS \<equiv> 10"

section \<open>Helpers\<close>

definition zh_closesocket :: "'s stack \<Rightarrow> int \<Rightarrow> 's \<Rightarrow> 's" where
  "zh_closesocket st sock s = (if 0 \<le> sock then bsd_closesocket st sock s else s)"

definition zh_setsockopt_safe :: "'s stack \<Rightarrow> int \<Rightarrow> int \<Rightarrow> int \<Rightarrow> 's \<Rightarrow> int \<times> 's" where
  "zh_setsockopt_safe st sock level optname s =
     (if optname \<in> {SO_SNDBUF, SO_RCVBUF, SO_BROADCAST, SO_REUSEADDR}
      then bsd_setsockopt st sock level optname s else (0, s))"

text \<open>The macro \<open>htons\<close>, on a 16 bit operand.\<close>

definition htons :: "u16 \<Rightarrow> u16" where
  "htons x = (push_bit 8 x OR (drop_bit 8 x AND 0xFF))"

section \<open>Sockets\<close>

definition z_socket_set_blocking :: "int \<Rightarrow> bool \<Rightarrow> z_result" where
  "z_socket_set_blocking sock blocking = RES_OK"

text \<open>The result and the new socket.\<close>

definition z_socket_accept :: "'s stack \<Rightarrow> int \<Rightarrow> 's \<Rightarrow> z_result \<times> int \<times> 's" where
  "z_socket_accept st sock s =
     (let (con, s1) = bsd_accept st sock s
      in if con = - 1 then (ERR_GENERIC, - 1, s1)
         else
           let (_, s2) = zh_setsockopt_safe st con SOL_SOCKET SO_RCVTIMEO s1;
               (_, s3) = zh_setsockopt_safe st con SOL_SOCKET SO_KEEPALIVE s2;
               (_, s4) = zh_setsockopt_safe st con IPPROTO_TCP TCP_NODELAY s3
           in (RES_OK, con, s4))"

definition z_socket_close :: "'s stack \<Rightarrow> int \<Rightarrow> 's \<Rightarrow> int \<times> 's" where
  "z_socket_close st sock s = (- 1, if 0 \<le> sock then TCP_Close st sock s else s)"

text \<open>A peer of a unicast transport: its socket and its flag for pending data.\<close>

record peer =
  peer_socket :: int
  pending :: bool

fun probe_peers :: "'s stack \<Rightarrow> peer list \<Rightarrow> 's \<Rightarrow> bool \<times> peer list \<times> 's" where
  "probe_peers st [] s = (False, [], s)"
| "probe_peers st (p # ps) s =
     (let (rb, s1) = bsd_peek st (peer_socket p) s;
          (ready, ps', s2) = probe_peers st ps s1
      in if 0 < rb then (True, p\<lparr>pending := True\<rparr> # ps', s2) else (ready, p # ps', s2))"

function wait_loop :: "'s stack \<Rightarrow> u32 \<Rightarrow> peer list \<Rightarrow> 's \<Rightarrow> z_result \<times> peer list \<times> 's" where
  "wait_loop st elapsed peers s =
     (if elapsed < Z_CONFIG_SOCKET_TIMEOUT then
        let (ready, peers', s1) = probe_peers st peers s
        in if ready then (RES_OK, peers', s1)
           else wait_loop st (elapsed + Z_HARMONY_POLL_INTERVAL_MS) peers'
                  (TaskDelay st Z_HARMONY_POLL_INTERVAL_MS s1)
      else (ERR_GENERIC, peers, s))"
  by pat_completeness auto

termination
  by (relation "measure (\<lambda>(_, elapsed, _). 100 - unat elapsed)")
    (simp, simp add: word_less_nat_alt unat_word_ariths)

definition z_socket_wait_event :: "'s stack \<Rightarrow> peer list \<Rightarrow> 's \<Rightarrow> z_result \<times> peer list \<times> 's" where
  "z_socket_wait_event st peers s = wait_loop st 0 peers s"

section \<open>TCP\<close>

text \<open>
  \<open>atoi\<close> and the conversion \<open>%u\<close> of \<open>sscanf\<close> on the texts of addresses and ports: blanks, an
  optional sign, digits. Values that do not fit are cut to 32 bits; the C library leaves them
  open.
\<close>

definition is_blank :: "u8 \<Rightarrow> bool" where
  "is_blank b \<longleftrightarrow> b = 32 \<or> (9 \<le> b \<and> b \<le> 13)"

definition scan_u :: "bytes \<Rightarrow> (u32 \<times> bytes) option" where
  "scan_u s =
     (let s1 = dropWhile is_blank s;
          neg = (s1 \<noteq> [] \<and> hd s1 = 45);
          s2 = (if s1 \<noteq> [] \<and> (hd s1 = 45 \<or> hd s1 = 43) then tl s1 else s1);
          ds = takeWhile is_digit s2;
          v = of_nat (undec ds)
      in if ds = [] then None else Some (if neg then - v else v, dropWhile is_digit s2))"

definition atoi :: "bytes \<Rightarrow> u32" where
  "atoi s = (case scan_u s of None \<Rightarrow> 0 | Some (v, _) \<Rightarrow> v)"

text \<open>\<open>sscanf(s, "%u.%u.%u.%u", \<dots>)\<close> where it converts all four; 46 is the dot.\<close>

fun scan_quad :: "nat \<Rightarrow> bytes \<Rightarrow> u32 list option" where
  "scan_quad 0 s = Some []"
| "scan_quad (Suc k) s =
     (case scan_u s of
        None \<Rightarrow> None
      | Some (v, s') \<Rightarrow>
          if k = 0 then Some [v]
          else case s' of
                 c # s'' \<Rightarrow> if c = 46 then map_option ((#) v) (scan_quad k s'') else None
               | [] \<Rightarrow> None)"

text \<open>
  The address structure, port in network order and address; \<open>alloc\<close> is whether \<open>z_malloc\<close>
  succeeds. An address that does not scan leaves zero.
\<close>

definition z_create_endpoint_tcp :: "bool \<Rightarrow> bytes \<Rightarrow> bytes \<Rightarrow> z_result \<times> (u16 \<times> u32) option" where
  "z_create_endpoint_tcp alloc s_address s_port =
     (if \<not> alloc then (ERR_GENERIC, None)
      else
        let sin_port = htons (ucast (atoi s_port));
            addr = (case scan_quad 4 s_address of
                      Some [a, b, c, d] \<Rightarrow> a OR push_bit 8 b OR push_bit 16 c OR push_bit 24 d
                    | _ \<Rightarrow> 0)
        in (RES_OK, Some (sin_port, addr)))"

partial_function (option) connect_loop :: "'s stack \<Rightarrow> int \<Rightarrow> u32 \<Rightarrow> u32 \<Rightarrow> 's \<Rightarrow> (bool \<times> 's) option" where
  "connect_loop st skt tout wait s =
     (if wait < tout then
        let (con, s1) = TCP_IsConnected st skt s
        in if con then Some (True, s1)
           else connect_loop st skt tout (wait + 50) (TaskDelay st 50 s1)
      else Some (False, s))"

definition z_open_tcp :: "'s stack \<Rightarrow> u16 \<times> u32 \<Rightarrow> u32 \<Rightarrow> 's \<Rightarrow> (z_result \<times> int \<times> 's) option" where
  "z_open_tcp st rep tout s =
     (let (skt, s1) = TCP_ClientOpen st (htons (fst rep)) (snd rep) s
      in if skt = - 1 then Some (ERR_GENERIC, - 1, s1)
         else
           let connect_tout = (if tout < 10000 then 10000 else tout)
           in map_option
                (\<lambda>(con, s2). if con then (RES_OK, skt, s2) else (ERR_GENERIC, - 1, TCP_Close st skt s2))
                (connect_loop st skt connect_tout 0 s1))"

text \<open>Binding to each address of the end point, and listening.\<close>

fun bind_all :: "'s stack \<Rightarrow> int \<Rightarrow> (u16 \<times> u32) list \<Rightarrow> 's \<Rightarrow> z_result \<times> 's" where
  "bind_all st sock [] s = (RES_OK, s)"
| "bind_all st sock (a # as) s =
     (let (r, s1) = bsd_bind st sock a s
      in if r < 0 then (ERR_GENERIC, s1)
         else
           let (r', s2) = bsd_listen st sock 10 s1
           in if r' < 0 then (ERR_GENERIC, s2) else bind_all st sock as s2)"

definition z_listen_tcp :: "'s stack \<Rightarrow> (u16 \<times> u32) list \<Rightarrow> 's \<Rightarrow> z_result \<times> int \<times> 's" where
  "z_listen_tcp st lep s =
     (let (sock, s1) = bsd_socket st AF_INET SOCK_STREAM IPPROTO_TCP s
      in if sock = - 1 then (ERR_GENERIC, - 1, s1)
         else
           let (_, s2) = zh_setsockopt_safe st sock SOL_SOCKET SO_KEEPALIVE s1;
               (_, s3) = zh_setsockopt_safe st sock IPPROTO_TCP TCP_NODELAY s2;
               (r, s4) = bind_all st sock lep s3
           in if r \<noteq> RES_OK then (r, - 1, zh_closesocket st sock s4) else (r, sock, s4))"

definition z_close_tcp :: "'s stack \<Rightarrow> int \<Rightarrow> 's \<Rightarrow> int \<times> 's" where
  "z_close_tcp st sock s = (if 0 \<le> sock then (- 1, zh_closesocket st sock s) else (sock, s))"

text \<open>Reading: what is stored at the pointer, and the result. \<open>tries\<close> counts down from 100.\<close>

fun read_loop :: "nat \<Rightarrow> 's stack \<Rightarrow> int \<Rightarrow> nat \<Rightarrow> 's \<Rightarrow> nat option \<times> bytes \<times> 's" where
  "read_loop 0 st sock len s = (None, [], s)"
| "read_loop (Suc tries) st sock len s =
     (let (avail, s1) = TCP_GetIsReady st sock s
      in if 0 < avail then
           let to_read = (if avail < of_nat len then avail else of_nat len);
               (d, s2) = TCP_ArrayGet st sock to_read s1
           in (Some (length d), d, s2)
         else
           let (con, s2) = TCP_IsConnected st sock s1
           in if \<not> con then (None, [], s2) else read_loop tries st sock len (TaskDelay st 50 s2))"

definition z_read_tcp :: "'s stack \<Rightarrow> int \<Rightarrow> nat \<Rightarrow> 's \<Rightarrow> nat option \<times> bytes \<times> 's" where
  "z_read_tcp st sock len s = read_loop 100 st sock len s"

text \<open>\<open>pos\<close> is the index of the write pointer in the buffer.\<close>

partial_function (option) read_exact_loop ::
  "'s stack \<Rightarrow> int \<Rightarrow> nat \<Rightarrow> nat \<Rightarrow> nat \<Rightarrow> bytes \<Rightarrow> 's \<Rightarrow> (nat option \<times> bytes \<times> 's) option" where
  "read_exact_loop st sock len n pos buf s =
     (let (rb, d, s1) = z_read_tcp st sock (len - n) s;
          buf1 = memcpy_at buf pos d
      in if rb = None \<or> rb = Some 0 then Some (rb, buf1, s1)
         else
           let n1 = n + the rb; pos1 = pos + the rb
           in if n1 = len then Some (Some n1, buf1, s1)
              else read_exact_loop st sock len n1 pos1 buf1 s1)"

definition z_read_exact_tcp :: "'s stack \<Rightarrow> int \<Rightarrow> nat \<Rightarrow> bytes \<Rightarrow> 's \<Rightarrow> (nat option \<times> bytes \<times> 's) option" where
  "z_read_exact_tcp st sock len buf s = read_exact_loop st sock len 0 0 buf s"

text \<open>
  Sending: \<open>mem\<close> is the memory from the pointer on, of which the first \<open>len\<close> bytes are the
  message. \<open>tries\<close> counts down from 50.
\<close>

fun send_loop :: "nat \<Rightarrow> 's stack \<Rightarrow> int \<Rightarrow> bytes \<Rightarrow> nat \<Rightarrow> 's \<Rightarrow> nat option \<times> 's" where
  "send_loop 0 st sock mem len s =
     (let (space, s1) = TCP_PutIsReady st sock s
      in if 0 < space then
           let (sb, s2) = TCP_ArrayPut st sock (take (unat space) mem) s1
           in (Some (unat sb), TCP_Flush st sock s2)
         else (None, s1))"
| "send_loop (Suc tries) st sock mem len s =
     (let (space, s1) = TCP_PutIsReady st sock s
      in if of_nat len \<le> space then
           let (sb, s2) = TCP_ArrayPut st sock (take (unat (of_nat len :: u16)) mem) s1
           in (Some (unat sb), TCP_Flush st sock s2)
         else send_loop tries st sock mem len (TaskDelay st 10 s1))"

definition z_send_tcp :: "'s stack \<Rightarrow> int \<Rightarrow> bytes \<Rightarrow> nat \<Rightarrow> 's \<Rightarrow> nat option \<times> 's" where
  "z_send_tcp st sock mem len s =
     (let (con, s1) = TCP_IsConnected st sock s
      in if \<not> con then (None, s1) else send_loop 50 st sock mem len s1)"

section \<open>UDP\<close>

definition z_create_endpoint_udp ::
  "'s stack \<Rightarrow> bytes \<Rightarrow> bytes \<Rightarrow> 's \<Rightarrow> z_result \<times> (u16 \<times> u32) list option \<times> 's" where
  "z_create_endpoint_udp st s_address s_port s =
     (case bsd_getaddrinfo st s_address s_port s of
        (None, s1) \<Rightarrow> (ERR_GENERIC, None, s1)
      | (Some ai, s1) \<Rightarrow> (RES_OK, Some ai, s1))"

definition z_free_endpoint_udp :: "'s stack \<Rightarrow> (u16 \<times> u32) list \<Rightarrow> 's \<Rightarrow> 's" where
  "z_free_endpoint_udp st ai s = bsd_freeaddrinfo st ai s"

definition z_open_udp_unicast :: "'s stack \<Rightarrow> u32 \<Rightarrow> 's \<Rightarrow> z_result \<times> int \<times> 's" where
  "z_open_udp_unicast st tout s =
     (let (sock, s1) = bsd_socket st AF_INET SOCK_DGRAM IPPROTO_UDP s
      in if sock \<noteq> - 1 then (RES_OK, sock, snd (zh_setsockopt_safe st sock SOL_SOCKET SO_RCVTIMEO s1))
         else (ERR_GENERIC, - 1, s1))"

definition z_listen_udp_unicast :: z_result where
  "z_listen_udp_unicast = ERR_GENERIC"

definition z_close_udp_unicast :: "'s stack \<Rightarrow> int \<Rightarrow> 's \<Rightarrow> int \<times> 's" where
  "z_close_udp_unicast st sock s = (if 0 \<le> sock then (- 1, zh_closesocket st sock s) else (sock, s))"

definition z_read_udp_unicast :: "'s stack \<Rightarrow> int \<Rightarrow> nat \<Rightarrow> 's \<Rightarrow> nat option \<times> bytes \<times> 's" where
  "z_read_udp_unicast st sock len s =
     (case bsd_recvfrom st sock len s of
        (None, s1) \<Rightarrow> (None, [], s1)
      | (Some d, s1) \<Rightarrow> (Some (length d), d, s1))"

text \<open>The write pointer moves by the total so far, not by what was read last.\<close>

partial_function (option) read_exact_udp_loop ::
  "'s stack \<Rightarrow> int \<Rightarrow> nat \<Rightarrow> nat \<Rightarrow> nat \<Rightarrow> bytes \<Rightarrow> 's \<Rightarrow> (nat option \<times> bytes \<times> 's) option" where
  "read_exact_udp_loop st sock len n pos buf s =
     (let (rb, d, s1) = z_read_udp_unicast st sock (len - n) s;
          buf1 = memcpy_at buf pos d
      in if rb = None \<or> rb = Some 0 then Some (rb, buf1, s1)
         else
           let n1 = n + the rb; pos1 = pos + n1
           in if n1 = len then Some (Some n1, buf1, s1)
              else read_exact_udp_loop st sock len n1 pos1 buf1 s1)"

definition z_read_exact_udp_unicast ::
  "'s stack \<Rightarrow> int \<Rightarrow> nat \<Rightarrow> bytes \<Rightarrow> 's \<Rightarrow> (nat option \<times> bytes \<times> 's) option" where
  "z_read_exact_udp_unicast st sock len buf s = read_exact_udp_loop st sock len 0 0 buf s"

definition z_send_udp_unicast :: "'s stack \<Rightarrow> int \<Rightarrow> bytes \<Rightarrow> u16 \<times> u32 \<Rightarrow> 's \<Rightarrow> nat option \<times> 's" where
  "z_send_udp_unicast st sock data rep s =
     (let (sb, s1) = bsd_sendto st sock data rep s
      in (if sb < 0 then None else Some (nat sb), s1))"

text \<open>Multicast: opening and listening always fail.\<close>

definition get_ip_from_iface :: nat where
  "get_ip_from_iface = 0"

definition z_open_udp_multicast :: "z_result \<times> int" where
  "z_open_udp_multicast = (ERR_GENERIC, - 1)"

definition z_listen_udp_multicast :: "z_result \<times> int" where
  "z_listen_udp_multicast = (ERR_GENERIC, - 1)"

definition z_close_udp_multicast :: "'s stack \<Rightarrow> int \<Rightarrow> int \<Rightarrow> 's \<Rightarrow> (int \<times> int) \<times> 's" where
  "z_close_udp_multicast st sockrecv socksend s =
     (let (r, s1) = (if 0 \<le> sockrecv then (- 1, zh_closesocket st sockrecv s) else (sockrecv, s));
          (w, s2) = (if 0 \<le> socksend then (- 1, zh_closesocket st socksend s1) else (socksend, s1))
      in ((r, w), s2))"

definition z_read_udp_multicast :: "'s stack \<Rightarrow> int \<Rightarrow> nat \<Rightarrow> 's \<Rightarrow> nat option \<times> bytes \<times> 's" where
  "z_read_udp_multicast st sock len s =
     (case bsd_recvfrom st sock len s of
        (None, s1) \<Rightarrow> (None, [], s1)
      | (Some d, s1) \<Rightarrow> (Some (length d), d, s1))"

partial_function (option) read_exact_multicast_loop ::
  "'s stack \<Rightarrow> int \<Rightarrow> nat \<Rightarrow> nat \<Rightarrow> nat \<Rightarrow> bytes \<Rightarrow> 's \<Rightarrow> (nat option \<times> bytes \<times> 's) option" where
  "read_exact_multicast_loop st sock len n pos buf s =
     (let (rb, d, s1) = z_read_udp_multicast st sock (len - n) s;
          buf1 = memcpy_at buf pos d
      in if rb = None \<or> rb = Some 0 then Some (rb, buf1, s1)
         else
           let n1 = n + the rb; pos1 = pos + n1
           in if n1 = len then Some (Some n1, buf1, s1)
              else read_exact_multicast_loop st sock len n1 pos1 buf1 s1)"

definition z_read_exact_udp_multicast ::
  "'s stack \<Rightarrow> int \<Rightarrow> nat \<Rightarrow> bytes \<Rightarrow> 's \<Rightarrow> (nat option \<times> bytes \<times> 's) option" where
  "z_read_exact_udp_multicast st sock len buf s = read_exact_multicast_loop st sock len 0 0 buf s"

definition z_send_udp_multicast :: "'s stack \<Rightarrow> int \<Rightarrow> bytes \<Rightarrow> u16 \<times> u32 \<Rightarrow> 's \<Rightarrow> nat option \<times> 's" where
  "z_send_udp_multicast st sock data rep s =
     (let (sb, s1) = bsd_sendto st sock data rep s
      in (if sb < 0 then None else Some (nat sb), s1))"

section \<open>Reading a stream\<close>

text \<open>
  What the stack documents of its receive buffer: \<open>stream s\<close> is everything the socket will still
  deliver from state \<open>s\<close> on. \<open>TCP_ArrayGet\<close> hands out at most as many bytes as asked for, from
  its front; nothing else consumes any.
\<close>

definition rx_conforms :: "'s stack \<Rightarrow> int \<Rightarrow> ('s \<Rightarrow> bytes) \<Rightarrow> bool" where
  "rx_conforms st sock stream \<longleftrightarrow>
     (\<forall>s. stream (snd (TCP_IsConnected st sock s)) = stream s \<and>
          stream (snd (TCP_GetIsReady st sock s)) = stream s \<and>
          (\<forall>t. stream (TaskDelay st t s) = stream s) \<and>
          (\<forall>k. length (fst (TCP_ArrayGet st sock k s)) \<le> unat k \<and>
             stream s = fst (TCP_ArrayGet st sock k s) @ stream (snd (TCP_ArrayGet st sock k s))))"

lemma unat_of_nat_le: "unat (of_nat n :: 'a::len word) \<le> n"
  by (simp add: unat_of_nat take_bit_nat_less_eq_self)

lemma read_loop_stream:
  assumes "rx_conforms st sock stream" "read_loop tries st sock len s = (rb, d, s')"
  shows "stream s = d @ stream s' \<and> length d \<le> len \<and> (rb = None \<and> d = [] \<or> rb = Some (length d))"
  using assms(2)
proof (induction tries arbitrary: s)
  case (Suc tries)
  obtain avail s1 where a: "TCP_GetIsReady st sock s = (avail, s1)" by fastforce
  have s1: "stream s1 = stream s" using assms(1) a by (metis rx_conforms_def snd_conv)
  show ?case
  proof (cases "0 < avail")
    case True
    define k where "k = (if avail < of_nat len then avail else of_nat len)"
    have "unat k \<le> unat (of_nat len :: u16)"
      by (simp add: k_def word_less_nat_alt word_le_nat_alt)
    then have k: "unat k \<le> len" using unat_of_nat_le le_trans by blast
    obtain e s2 where g: "TCP_ArrayGet st sock k s1 = (e, s2)" by fastforce
    have "length e \<le> unat k" "stream s1 = e @ stream s2"
      using assms(1) g unfolding rx_conforms_def by (metis fst_conv snd_conv)+
    then show ?thesis
      using Suc.prems True s1 k by (auto simp: a g Let_def simp flip: k_def)
  next
    case False
    obtain con s2 where c: "TCP_IsConnected st sock s1 = (con, s2)" by fastforce
    have s2: "stream s2 = stream s1" "stream (TaskDelay st 50 s2) = stream s2"
      using assms(1) c by (metis rx_conforms_def snd_conv)+
    show ?thesis
      using Suc.prems Suc.IH [of "TaskDelay st 50 s2"] False s1 s2 by (auto simp: a c Let_def split: if_splits)
  qed
qed simp

lemma memcpy_at_twice:
  assumes "pos = off + length d" "pos + length e \<le> length buf"
  shows "memcpy_at (memcpy_at buf off d) pos e = memcpy_at buf off (d @ e)"
  using assms by (simp add: memcpy_at_def ac_simps)

lemma memcpy_at_Nil [simp]: "memcpy_at buf off [] = buf"
  by (simp add: memcpy_at_def)

text \<open>The loop of the exact read, from the middle: \<open>n\<close> bytes are there already.\<close>

lemma read_exact_loop_stream:
  assumes c: "rx_conforms st sock stream" and len: "len \<le> length buf" and n: "n < len \<or> n = 0" "n \<le> len"
  shows "\<exists>rb d s'. read_exact_loop st sock len n n buf s = Some (rb, memcpy_at buf n d, s') \<and>
    stream s = d @ stream s' \<and> n + length d \<le> len \<and>
    (rb = Some len \<and> n + length d = len \<or> (rb = None \<or> rb = Some 0) \<and> (n + length d < len \<or> len = 0))"
  using len n
proof (induction "len - n" arbitrary: n buf s rule: less_induct)
  case less
  obtain rb d s1 where r: "z_read_tcp st sock (len - n) s = (rb, d, s1)" by (metis prod_cases3)
  have d: "stream s = d @ stream s1" "length d \<le> len - n" "rb = None \<and> d = [] \<or> rb = Some (length d)"
    using read_loop_stream [OF c] r unfolding z_read_tcp_def by blast+
  show ?case
  proof (cases "rb = None \<or> rb = Some 0")
    case True
    then have "d = []" using d(3) by auto
    then show ?thesis
      using True d less.prems by (subst read_exact_loop.simps) (auto simp: r Let_def intro!: exI [of _ "[]"])
  next
    case False
    then have rb: "rb = Some (length d)" "d \<noteq> []" using d(3) by auto
    show ?thesis
    proof (cases "n + length d = len")
      case True
      then show ?thesis
        using False d rb by (subst read_exact_loop.simps) (auto simp: r Let_def intro!: exI [of _ d])
    next
      case neq: False
      let ?n = "n + length d" and ?buf = "memcpy_at buf n d"
      have le: "?n < len" using neq d(2) less.prems by linarith
      have lb: "len \<le> length ?buf" using less.prems d(2) le by simp
      have "len - ?n < len - n" using le rb(2) by (cases d) auto
      from less.hyps [OF this lb, of s1] le obtain rb' d' s' where
        ih: "read_exact_loop st sock len ?n ?n ?buf s1 = Some (rb', memcpy_at ?buf ?n d', s')"
          "stream s1 = d' @ stream s'" "?n + length d' \<le> len"
          "rb' = Some len \<and> ?n + length d' = len \<or> (rb' = None \<or> rb' = Some 0) \<and> (?n + length d' < len \<or> len = 0)"
        by auto
      have m: "memcpy_at ?buf ?n d' = memcpy_at buf n (d @ d')"
        using ih(3) less.prems(1) by (intro memcpy_at_twice) simp_all
      have "read_exact_loop st sock len n n buf s = read_exact_loop st sock len ?n ?n ?buf s1"
        using False neq rb(1) by (subst read_exact_loop.simps) (simp add: r Let_def)
      then show ?thesis
        using ih d m by (intro exI [of _ rb'] exI [of _ "d @ d'"] exI [of _ s']) auto
    qed
  qed
qed

text \<open>
  C22: on a stack that delivers a byte stream, the exact TCP read always returns. When it returns
  \<open>len\<close>, the buffer holds the next \<open>len\<close> bytes of the stream and nothing else has changed; when
  it fails, the bytes it had got by then are gone from the stream all the same.
\<close>

theorem tcp_read_exact:
  assumes "rx_conforms st sock stream" "len \<le> length buf"
  shows "\<exists>rb k s'. z_read_exact_tcp st sock len buf s = Some (rb, memcpy_at buf 0 (take k (stream s)), s') \<and>
    stream s' = drop k (stream s) \<and> k \<le> length (stream s) \<and>
    (rb = Some len \<and> k = len \<or> (rb = None \<or> rb = Some 0) \<and> (k < len \<or> len = 0))"
proof -
  obtain rb d s' where "read_exact_loop st sock len 0 0 buf s = Some (rb, memcpy_at buf 0 d, s')"
    "stream s = d @ stream s'"
    "rb = Some len \<and> length d = len \<or> (rb = None \<or> rb = Some 0) \<and> (length d < len \<or> len = 0)"
    using read_exact_loop_stream [OF assms, of 0 s] by auto
  then show ?thesis
    by (intro exI [of _ rb] exI [of _ "length d"] exI [of _ s']) (auto simp: z_read_exact_tcp_def)
qed

text \<open>A stack that delivers chunks, each after the one before was read and a delay; no connection after.\<close>

definition idle_stack :: "'s stack" where
  "idle_stack =
     \<lparr>TCP_ClientOpen = \<lambda>_ _ s. (- 1, s), TCP_IsConnected = \<lambda>_ s. (False, s), TCP_GetIsReady = \<lambda>_ s. (0, s),
      TCP_ArrayGet = \<lambda>_ _ s. ([], s), TCP_PutIsReady = \<lambda>_ s. (0, s), TCP_ArrayPut = \<lambda>_ _ s. (0, s),
      TCP_Flush = \<lambda>_ s. s, TCP_Close = \<lambda>_ s. s, bsd_socket = \<lambda>_ _ _ s. (- 1, s),
      bsd_bind = \<lambda>_ _ s. (- 1, s), bsd_listen = \<lambda>_ _ s. (- 1, s), bsd_accept = \<lambda>_ s. (- 1, s),
      bsd_peek = \<lambda>_ s. (- 1, s), bsd_recvfrom = \<lambda>_ _ s. (None, s), bsd_sendto = \<lambda>_ _ _ s. (- 1, s),
      bsd_setsockopt = \<lambda>_ _ _ s. (0, s), bsd_closesocket = \<lambda>_ s. s, bsd_getaddrinfo = \<lambda>_ _ s. (None, s),
      bsd_freeaddrinfo = \<lambda>_ s. s, TaskDelay = \<lambda>_ s. s\<rparr>"

definition chunk_stack :: "bytes list stack" where
  "chunk_stack = idle_stack
     \<lparr>TCP_IsConnected := \<lambda>_ s. (s \<noteq> [], s),
      TCP_GetIsReady := \<lambda>_ s. (case s of [] \<Rightarrow> 0 | c # _ \<Rightarrow> of_nat (length c), s),
      TCP_ArrayGet := \<lambda>_ k s. (case s of [] \<Rightarrow> ([], []) | c # cs \<Rightarrow> (take (unat k) c, drop (unat k) c # cs)),
      TaskDelay := \<lambda>_ s. (case s of [] # cs \<Rightarrow> cs | _ \<Rightarrow> s),
      bsd_recvfrom := \<lambda>_ k s. (case s of [] \<Rightarrow> (None, []) | c # cs \<Rightarrow> (Some (take k c), cs))\<rparr>"

lemma chunk_stack_conforms: "rx_conforms chunk_stack sock concat"
  by (auto simp: rx_conforms_def chunk_stack_def idle_stack_def split: list.splits)

theorem tcp_read_exact_witness:
  "\<exists>rb k s'. z_read_exact_tcp chunk_stack 3 4 (replicate 5 0) [[1, 2], [3, 4, 5]] =
     Some (rb, memcpy_at (replicate 5 0) 0 (take k [1, 2, 3, 4, 5]), s') \<and> concat s' = drop k [1, 2, 3, 4, 5]"
  using tcp_read_exact [OF chunk_stack_conforms, of 4 "replicate 5 0" 3 "[[1, 2], [3, 4, 5]]"] by auto

section \<open>Sending\<close>

text \<open>
  What the stack documents of its send buffer: \<open>sent s\<close> is what the socket has taken so far.
  \<open>TCP_ArrayPut\<close> takes a prefix of what it is given and tells how much.
\<close>

definition tx_conforms :: "'s stack \<Rightarrow> int \<Rightarrow> ('s \<Rightarrow> bytes) \<Rightarrow> bool" where
  "tx_conforms st sock sent \<longleftrightarrow>
     (\<forall>s. sent (snd (TCP_IsConnected st sock s)) = sent s \<and> sent (snd (TCP_PutIsReady st sock s)) = sent s \<and>
          sent (TCP_Flush st sock s) = sent s \<and> (\<forall>t. sent (TaskDelay st t s) = sent s) \<and>
          (\<forall>d. unat (fst (TCP_ArrayPut st sock d s)) \<le> length d \<and>
             sent (snd (TCP_ArrayPut st sock d s)) = sent s @ take (unat (fst (TCP_ArrayPut st sock d s))) d))"

lemma send_put:
  assumes "tx_conforms st sock sent" "TCP_ArrayPut st sock (take n mem) s = (sb, s')"
  shows "sent (TCP_Flush st sock s') = sent s @ take (unat sb) mem \<and> unat sb \<le> n"
proof -
  have "unat sb \<le> length (take n mem)" "sent s' = sent s @ take (unat sb) (take n mem)"
    "sent (TCP_Flush st sock s') = sent s'"
    using assms unfolding tx_conforms_def by (metis fst_conv snd_conv)+
  then show ?thesis by (auto simp: min_def split: if_splits)
qed

lemma send_loop_sent:
  assumes c: "tx_conforms st sock sent" and l: "len < 65536" and r: "send_loop tries st sock mem len s = (rb, s')"
  shows "sent s' = sent s @ (case rb of None \<Rightarrow> [] | Some k \<Rightarrow> take k mem)"
  using r
proof (induction tries arbitrary: s)
  case 0
  obtain space s1 where p: "TCP_PutIsReady st sock s = (space, s1)" by fastforce
  obtain sb s2 where q: "TCP_ArrayPut st sock (take (unat space) mem) s1 = (sb, s2)" by fastforce
  have "sent s1 = sent s" using c p by (metis tx_conforms_def snd_conv)
  then show ?case using 0 send_put [OF c q] by (auto simp: p q Let_def split: if_splits)
next
  case (Suc tries)
  obtain space s1 where p: "TCP_PutIsReady st sock s = (space, s1)" by fastforce
  obtain sb s2 where q: "TCP_ArrayPut st sock (take (unat (of_nat len :: u16)) mem) s1 = (sb, s2)" by fastforce
  have s: "sent s1 = sent s" "sent (TaskDelay st 10 s1) = sent s1"
    using c p by (metis tx_conforms_def snd_conv)+
  show ?case
  proof (cases "of_nat len \<le> space")
    case True
    then show ?thesis using Suc.prems s send_put [OF c q] by (auto simp: p q Let_def)
  next
    case False
    then show ?thesis using Suc s by (simp add: p Let_def)
  qed
qed

text \<open>
  Whatever the TCP send reports as sent is what the socket took: the result \<open>k\<close> means that
  the first \<open>k\<close> bytes from the pointer on were appended to the stream, and \<open>SIZE_MAX\<close> that none
  were.
\<close>

theorem tcp_send_reports:
  assumes "tx_conforms st sock sent" "len < 65536" "z_send_tcp st sock mem len s = (rb, s')"
  shows "sent s' = sent s @ (case rb of None \<Rightarrow> [] | Some k \<Rightarrow> take k mem)"
proof -
  obtain con s1 where c: "TCP_IsConnected st sock s = (con, s1)" by fastforce
  have "sent s1 = sent s" using assms(1) c by (metis tx_conforms_def snd_conv)
  then show ?thesis
    using assms(3) send_loop_sent [OF assms(1,2), of 50 mem s1 rb s'] by (auto simp: z_send_tcp_def c split: if_splits)
qed

text \<open>A connected stack whose send buffer is full for the first fifty polls and then has room for \<open>room\<close> bytes.\<close>

definition congested_stack :: "u16 \<Rightarrow> (nat \<times> bytes) stack" where
  "congested_stack room = idle_stack
     \<lparr>TCP_IsConnected := \<lambda>_ s. (True, s),
      TCP_PutIsReady := \<lambda>_ s. (if fst s < 50 then 0 else room, (fst s + 1, snd s)),
      TCP_ArrayPut := \<lambda>_ d s. let k = of_nat (length d) in (k, (fst s, snd s @ take (unat k) d))\<rparr>"

lemma congested_conforms: "tx_conforms (congested_stack room) sock snd"
  by (simp add: tx_conforms_def congested_stack_def idle_stack_def Let_def unat_of_nat_le)

lemma congested_loop:
  assumes "0 < len" "len < 65536" "n + tries = 50" "0 < room" "unat room \<le> length mem"
  shows "send_loop tries (congested_stack room) sock mem len (n, out) =
    (Some (unat room), (51, out @ take (unat room) mem))"
  using assms(3)
proof (induction tries arbitrary: n)
  case 0
  have "unat (of_nat (length (take (unat room) mem)) :: u16) = unat room" using assms(5) by simp
  then show ?case using 0 assms(4) by (simp add: congested_stack_def idle_stack_def Let_def)
next
  case (Suc tries)
  have "unat (of_nat len :: u16) = len" using assms(2) by (intro unat_of_nat_small) simp
  then have nz: "\<not> (of_nat len :: u16) \<le> 0" using assms(1) by (simp add: word_le_nat_alt)
  have "send_loop tries (congested_stack room) sock mem len (n + 1, out) =
      (Some (unat room), (51, out @ take (unat room) mem))"
    using Suc by simp
  then show ?case using Suc.prems nz by (simp add: congested_stack_def idle_stack_def Let_def)
qed

theorem tcp_send_reports_witness:
  "snd (snd (z_send_tcp (congested_stack 6) 3 [1, 2] 2 (0, []))) =
     (case fst (z_send_tcp (congested_stack 6) 3 [1, 2] 2 (0, [])) of None \<Rightarrow> [] | Some k \<Rightarrow> take k [1, 2])"
  using tcp_send_reports [OF congested_conforms, of 2 6 3 "[1, 2]" "(0, [])"] by (simp add: prod_eq_iff)

text \<open>
  After fifty polls without room for the message the send writes as many bytes as there is
  room for by then, not at most \<open>len\<close>: when the buffer has drained meanwhile, memory beyond the
  message goes out on the wire and the result exceeds \<open>len\<close>.
\<close>

theorem tcp_send_overread:
  assumes "0 < len" "len < unat room" "unat room \<le> length mem"
  shows "z_send_tcp (congested_stack room) sock mem len (0, []) = (Some (unat room), (51, take (unat room) mem))"
proof -
  have "TCP_IsConnected (congested_stack room) sock (0, []) = (True, (0, []))" by (simp add: congested_stack_def)
  moreover have "len < 65536" using assms(2) less_trans unat_u16_less by blast
  moreover have "0 < room" using assms(2) by (simp add: word_less_nat_alt)
  ultimately show ?thesis
    using congested_loop [of len 0 50 room mem sock "[]"] assms by (simp add: z_send_tcp_def Let_def)
qed

theorem tcp_send_overread_witness:
  "fst (z_send_tcp (congested_stack 6) 3 ([10, 11, 12, 13] @ [0xDE, 0xAD]) 4 (0, [])) = Some 6"
  using tcp_send_overread [of 4 6 "[10, 11, 12, 13] @ [0xDE, 0xAD]" 3] by simp

section \<open>Opening and closing\<close>

text \<open>
  The socket tables of the stack: \<open>tcp s\<close> and \<open>bsd s\<close> are the TCP and the Berkeley sockets in use.
  Opening adds an unused one or fails with a negative one, closing removes it, and the two kinds
  of descriptors are different tables.
\<close>

definition tables_conform :: "'s stack \<Rightarrow> ('s \<Rightarrow> int set) \<Rightarrow> ('s \<Rightarrow> int set) \<Rightarrow> bool" where
  "tables_conform st tcp bsd \<longleftrightarrow>
     (\<forall>s. (\<forall>p a. let (k, s') = TCP_ClientOpen st p a s in bsd s' = bsd s \<and>
             (if k = - 1 then tcp s' = tcp s else 0 \<le> k \<and> k \<notin> tcp s \<and> tcp s' = insert k (tcp s))) \<and>
          (\<forall>k. let s' = snd (TCP_IsConnected st k s) in tcp s' = tcp s \<and> bsd s' = bsd s) \<and>
          (\<forall>t. let s' = TaskDelay st t s in tcp s' = tcp s \<and> bsd s' = bsd s) \<and>
          (\<forall>k. let s' = TCP_Close st k s in tcp s' = tcp s - {k} \<and> bsd s' = bsd s) \<and>
          (\<forall>k. let (c, s') = bsd_accept st k s in tcp s' = tcp s \<and>
             (if c = - 1 then bsd s' = bsd s else 0 \<le> c \<and> c \<notin> bsd s \<and> bsd s' = insert c (bsd s))) \<and>
          (\<forall>k l opt. let s' = snd (bsd_setsockopt st k l opt s) in tcp s' = tcp s \<and> bsd s' = bsd s))"

text \<open>The connection loop ends, since its counter cannot wrap before it reaches the limit.\<close>

lemma connect_loop_total:
  assumes "tables_conform st tcp bsd" "tout \<le> 4294967245"
  shows "\<exists>con s'. connect_loop st skt tout wait s = Some (con, s') \<and> tcp s' = tcp s \<and> bsd s' = bsd s"
proof (induction "4294967296 - unat wait" arbitrary: wait s rule: less_induct)
  case less
  obtain con s1 where c: "TCP_IsConnected st skt s = (con, s1)" by fastforce
  have s1: "tcp s1 = tcp s" "bsd s1 = bsd s"
    "tcp (TaskDelay st 50 s1) = tcp s1" "bsd (TaskDelay st 50 s1) = bsd s1"
    using assms(1) c unfolding tables_conform_def by (metis snd_conv)+
  show ?case
  proof (cases "wait < tout \<and> \<not> con")
    case True
    have "unat wait < unat tout" "unat tout \<le> 4294967245"
      using True assms(2) by (simp_all add: word_less_nat_alt word_le_nat_alt)
    then have "unat (wait + 50) = unat wait + 50" by (simp add: unat_word_ariths)
    then have "4294967296 - unat (wait + 50) < 4294967296 - unat wait"
      using \<open>unat wait < unat tout\<close> \<open>unat tout \<le> 4294967245\<close> by simp
    from less.hyps [OF this, of "TaskDelay st 50 s1"] s1 True show ?thesis
      by (subst connect_loop.simps) (simp add: c)
  next
    case False
    then show ?thesis using s1 by (subst connect_loop.simps) (auto simp: c)
  qed
qed

text \<open>
  C23: opening a TCP connection always returns, for every time-out below \<open>2^32 - 50\<close> ms. On success
  exactly the returned socket is newly in use; on failure the handle is invalid and no socket is
  left behind, time-outs included.
\<close>

theorem tcp_open_no_leak:
  assumes "tables_conform st tcp bsd" "tout \<le> 4294967245"
  shows "\<exists>r sock s'. z_open_tcp st rep tout s = Some (r, sock, s') \<and> bsd s' = bsd s \<and>
    (if r = RES_OK then 0 \<le> sock \<and> sock \<notin> tcp s \<and> tcp s' = insert sock (tcp s)
     else sock = - 1 \<and> tcp s' = tcp s)"
proof -
  obtain skt s1 where o: "TCP_ClientOpen st (htons (fst rep)) (snd rep) s = (skt, s1)" by fastforce
  have "let (k, s') = TCP_ClientOpen st (htons (fst rep)) (snd rep) s in bsd s' = bsd s \<and>
      (if k = - 1 then tcp s' = tcp s else 0 \<le> k \<and> k \<notin> tcp s \<and> tcp s' = insert k (tcp s))"
    using assms(1) unfolding tables_conform_def by blast
  then have s1: "bsd s1 = bsd s"
      "if skt = - 1 then tcp s1 = tcp s else 0 \<le> skt \<and> skt \<notin> tcp s \<and> tcp s1 = insert skt (tcp s)"
    unfolding o by simp_all
  define t where "t = (if tout < 10000 then 10000 else tout)"
  have t: "t \<le> 4294967245" using assms(2) by (simp add: t_def)
  obtain con s2 where l: "connect_loop st skt t 0 s1 = Some (con, s2)" "tcp s2 = tcp s1" "bsd s2 = bsd s1"
    using connect_loop_total [OF assms(1) t] by blast
  have cl: "tcp (TCP_Close st skt s2) = tcp s2 - {skt}" "bsd (TCP_Close st skt s2) = bsd s2"
    using assms(1) unfolding tables_conform_def by metis+
  show ?thesis
  proof (cases "skt = - 1")
    case True
    then show ?thesis using s1 by (simp add: z_open_tcp_def o)
  next
    case False
    then show ?thesis using s1 l cl by (cases con) (auto simp: z_open_tcp_def o t_def [symmetric])
  qed
qed

text \<open>A stack with the two tables as lists; connections need some delays to come up.\<close>

definition fresh_socket :: "int list \<Rightarrow> int" where
  "fresh_socket l = 1 + foldr max l 0"

lemma fresh_socket_new: "0 \<le> fresh_socket l \<and> fresh_socket l \<notin> set l"
proof -
  have "x \<le> foldr max l 0" if "x \<in> set l" for x
    using that by (induction l) (auto simp: le_max_iff_disj)
  moreover have "0 \<le> foldr max l (0 :: int)" by (induction l) auto
  ultimately show ?thesis unfolding fresh_socket_def by fastforce
qed

definition table_stack :: "(int list \<times> int list \<times> nat) stack" where
  "table_stack = idle_stack
     \<lparr>TCP_ClientOpen := \<lambda>_ _ (t, b, n). (fresh_socket t, (fresh_socket t # t, b, n)),
      TCP_IsConnected := \<lambda>_ (t, b, n). (n = 0, (t, b, n)),
      TaskDelay := \<lambda>_ (t, b, n). (t, b, n - 1),
      TCP_Close := \<lambda>k (t, b, n). (filter (\<lambda>x. x \<noteq> k) t, b, n),
      bsd_accept := \<lambda>_ (t, b, n). (fresh_socket b, (t, fresh_socket b # b, n))\<rparr>"

lemma table_stack_conforms: "tables_conform table_stack (set \<circ> fst) (set \<circ> fst \<circ> snd)"
proof -
  have "fresh_socket l \<noteq> - 1" for l using fresh_socket_new [of l] by linarith
  then show ?thesis
    using fresh_socket_new by (auto simp: tables_conform_def table_stack_def idle_stack_def split: prod.splits)
qed

theorem tcp_open_no_leak_witness:
  "\<exists>r sock s'. z_open_tcp table_stack (0x1F90, 0) 100 ([3], [1], 7) = Some (r, sock, s') \<and>
     (if r = RES_OK then sock \<noteq> 3 \<and> set (fst s') = {sock, 3} else set (fst s') = {3})"
proof -
  have "(100 :: u32) \<le> 4294967245" by simp
  from tcp_open_no_leak [OF table_stack_conforms this, of "(0x1F90, 0)" "([3], [1], 7)"] show ?thesis
    by (elim exE conjE) (intro exI conjI, assumption, simp split: if_splits)
qed

text \<open>
  Closing an accepted socket leaks it. \<open>z_socket_accept\<close> returns a Berkeley descriptor, and
  \<open>z_socket_close\<close> hands that number to \<open>TCPIP_TCP_Close\<close>: the descriptor stays in use, and a TCP
  socket that happens to have the same number is closed instead.
\<close>

theorem accepted_socket_leaks:
  assumes "tables_conform st tcp bsd" "z_socket_accept st sock s = (RES_OK, c, s1)"
  shows "c \<in> bsd (snd (z_socket_close st c s1)) \<and> tcp (snd (z_socket_close st c s1)) = tcp s1 - {c}"
proof -
  obtain k s0 where a: "bsd_accept st sock s = (k, s0)" by fastforce
  have k: "k \<noteq> - 1" "c = k" "s1 = s0"
    using assms(2) by (auto simp: z_socket_accept_def a zh_setsockopt_safe_def Let_def split: if_splits)
  have "let (c, s') = bsd_accept st sock s in tcp s' = tcp s \<and>
      (if c = - 1 then bsd s' = bsd s else 0 \<le> c \<and> c \<notin> bsd s \<and> bsd s' = insert c (bsd s))"
    using assms(1) unfolding tables_conform_def by blast
  then have b: "0 \<le> k" "k \<in> bsd s0" using k(1) by (simp_all add: a)
  have "tcp (TCP_Close st k s0) = tcp s0 - {k}" "bsd (TCP_Close st k s0) = bsd s0"
    using assms(1) unfolding tables_conform_def by metis+
  then show ?thesis using k b by (simp add: z_socket_close_def)
qed

theorem accepted_socket_leaks_witness:
  "set (fst (snd (z_socket_close table_stack 2 ([2, 3], [2, 1], 0)))) \<inter> {2} = {}
   \<and> 2 \<in> set (fst (snd (snd (z_socket_close table_stack 2 ([2, 3], [2, 1], 0)))))"
proof -
  have "z_socket_accept table_stack 1 ([2, 3], [1], 0) = (RES_OK, 2, ([2, 3], [2, 1], 0))"
    by (simp add: z_socket_accept_def table_stack_def fresh_socket_def zh_setsockopt_safe_def)
  then show ?thesis using accepted_socket_leaks [OF table_stack_conforms] by fastforce
qed

section \<open>Datagrams\<close>

text \<open>Two datagrams: the second lands where it should.\<close>

lemma udp_step:
  assumes "c \<noteq> []" "length c \<le> len - n" "n + length c < len"
  shows "read_exact_udp_loop chunk_stack sock len n pos buf (c # cs) =
    read_exact_udp_loop chunk_stack sock len (n + length c) (pos + (n + length c)) (memcpy_at buf pos c) cs"
  using assms by (subst read_exact_udp_loop.simps)
    (simp add: z_read_udp_unicast_def chunk_stack_def idle_stack_def Let_def)

lemma udp_last:
  assumes "c \<noteq> []" "n + length c = len"
  shows "read_exact_udp_loop chunk_stack sock len n pos buf [c] = Some (Some len, memcpy_at buf pos c, [])"
  using assms by (subst read_exact_udp_loop.simps)
    (auto simp: z_read_udp_unicast_def chunk_stack_def idle_stack_def Let_def)

text \<open>
  The exact UDP read advances its pointer by the running total. Data that arrive in two
  datagrams are put together; of three, the third is written \<open>length a\<close> bytes too far to the
  right, beyond the end of a buffer of the requested length.
\<close>

theorem udp_read_exact_misplaces:
  assumes "a \<noteq> []" "b \<noteq> []" "c \<noteq> []"
  shows "z_read_exact_udp_unicast chunk_stack sock (length a + length b) buf [a, b] =
      Some (Some (length a + length b), memcpy_at (memcpy_at buf 0 a) (length a) b, []) \<and>
    z_read_exact_udp_unicast chunk_stack sock (length a + length b + length c) buf [a, b, c] =
      Some (Some (length a + length b + length c),
        memcpy_at (memcpy_at (memcpy_at buf 0 a) (length a) b) (length a + (length a + length b)) c, [])"
proof -
  have "read_exact_udp_loop chunk_stack sock (length a + length b) 0 0 buf [a, b] =
      read_exact_udp_loop chunk_stack sock (length a + length b) (length a) (length a) (memcpy_at buf 0 a) [b]"
    using assms(2) by (subst udp_step) (simp_all add: assms)
  moreover have "read_exact_udp_loop chunk_stack sock (length a + length b) (length a) (length a) (memcpy_at buf 0 a) [b] =
      Some (Some (length a + length b), memcpy_at (memcpy_at buf 0 a) (length a) b, [])"
    by (rule udp_last) (simp_all add: assms)
  moreover have "read_exact_udp_loop chunk_stack sock (length a + length b + length c) 0 0 buf [a, b, c] =
      read_exact_udp_loop chunk_stack sock (length a + length b + length c) (length a) (length a) (memcpy_at buf 0 a) [b, c]"
    using assms(2) by (subst udp_step) (simp_all add: assms)
  moreover have "\<dots> = read_exact_udp_loop chunk_stack sock (length a + length b + length c) (length a + length b)
      (length a + (length a + length b)) (memcpy_at (memcpy_at buf 0 a) (length a) b) [c]"
    using assms(3) by (subst udp_step) (simp_all add: assms)
  moreover have "\<dots> = Some (Some (length a + length b + length c),
      memcpy_at (memcpy_at (memcpy_at buf 0 a) (length a) b) (length a + (length a + length b)) c, [])"
    by (rule udp_last) (simp_all add: assms)
  ultimately show ?thesis unfolding z_read_exact_udp_unicast_def by simp
qed

theorem udp_read_exact_misplaces_witness:
  "z_read_exact_udp_unicast chunk_stack 3 3 (replicate 4 0) [[1], [2], [3]] = Some (Some 3, [1, 2, 0, 3], [])"
  using udp_read_exact_misplaces [of "[1]" "[2]" "[3]" 3 "replicate 4 0"]
  by (simp add: memcpy_at_def numeral_eq_Suc)

section \<open>Waiting for data\<close>

text \<open>
  A stack that answers a probe with what there is to read and is not changed by it: \<open>avail s\<close> is
  the number of readable bytes per socket.
\<close>

definition peek_conforms :: "'s stack \<Rightarrow> ('s \<Rightarrow> int \<Rightarrow> int) \<Rightarrow> bool" where
  "peek_conforms st avail \<longleftrightarrow> (\<forall>sock s. bsd_peek st sock s = (avail s sock, s))"

definition flag_ready :: "(int \<Rightarrow> int) \<Rightarrow> peer list \<Rightarrow> peer list" where
  "flag_ready av = map (\<lambda>p. if 0 < av (peer_socket p) then p\<lparr>pending := True\<rparr> else p)"

definition any_ready :: "(int \<Rightarrow> int) \<Rightarrow> peer list \<Rightarrow> bool" where
  "any_ready av ps \<longleftrightarrow> (\<exists>p \<in> set ps. 0 < av (peer_socket p))"

lemma probe_peers_eq:
  assumes "peek_conforms st avail"
  shows "probe_peers st ps s = (any_ready (avail s) ps, flag_ready (avail s) ps, s)"
  using assms by (induction ps) (auto simp: peek_conforms_def any_ready_def flag_ready_def Let_def)

lemma flag_none [simp]: "\<not> any_ready av ps \<Longrightarrow> flag_ready av ps = ps"
  by (auto simp: any_ready_def flag_ready_def intro: map_idI)

lemma wait_loop_eq:
  fixes s :: 's and st :: "'s stack"
  assumes c: "peek_conforms st avail" and "i \<le> 10"
  defines "later \<equiv> \<lambda>k. ((TaskDelay st 10) ^^ k) s"
  shows "wait_loop st (of_nat (10 * i)) ps (later i) =
    (case find (\<lambda>k. any_ready (avail (later k)) ps) [i..<10] of
       Some k \<Rightarrow> (RES_OK, flag_ready (avail (later k)) ps, later k)
     | None \<Rightarrow> (ERR_GENERIC, ps, later 10))"
  using assms(2)
proof (induction "10 - i" arbitrary: i)
  case 0
  then have i: "i = 10" by simp
  show ?case by (subst wait_loop.simps) (simp add: i)
next
  case (Suc d)
  then have i: "i < 10" by simp
  have u: "(of_nat (10 * i) :: u32) < 100"
  proof -
    have "unat (of_nat (10 * i) :: u32) = 10 * i" using i by (intro unat_of_nat_small) simp
    then show ?thesis using i by (simp only: word_less_nat_alt) simp
  qed
  have n: "[i..<10] = i # [Suc i..<10]" using i by (rule upt_conv_Cons)
  have ih: "wait_loop st (of_nat (10 * Suc i)) ps (later (Suc i)) =
    (case find (\<lambda>k. any_ready (avail (later k)) ps) [Suc i..<10] of
       Some k \<Rightarrow> (RES_OK, flag_ready (avail (later k)) ps, later k)
     | None \<Rightarrow> (ERR_GENERIC, ps, later 10))"
    using Suc i by (intro Suc.hyps(1)) auto
  have s: "(of_nat (10 * i) :: u32) + 10 = of_nat (10 * Suc i)" "TaskDelay st 10 (later i) = later (Suc i)"
    by (simp_all add: later_def algebra_simps)
  show ?case
  proof (cases "any_ready (avail (later i)) ps")
    case True
    then show ?thesis by (subst wait_loop.simps) (simp only: u probe_peers_eq [OF c] n, simp)
  next
    case False
    then have "wait_loop st (of_nat (10 * i)) ps (later i) = wait_loop st (of_nat (10 * Suc i)) ps (later (Suc i))"
      by (subst wait_loop.simps) (simp only: u probe_peers_eq [OF c] s if_True Let_def prod.case if_False flag_none
          not_False_eq_True)
    then show ?thesis using ih False by (simp add: n)
  qed
qed

text \<open>
  Waiting for an event probes all peers at most ten times, 10 ms apart. It succeeds at the
  first probe that finds data and flags exactly the peers that have some, and fails after 100 ms
  without any, changing no flag.
\<close>

theorem wait_event_polls:
  assumes "peek_conforms st avail"
  shows "z_socket_wait_event st ps s =
    (case find (\<lambda>k. any_ready (avail (((TaskDelay st 10) ^^ k) s)) ps) [0..<10] of
       Some k \<Rightarrow> (RES_OK, flag_ready (avail (((TaskDelay st 10) ^^ k) s)) ps, ((TaskDelay st 10) ^^ k) s)
     | None \<Rightarrow> (ERR_GENERIC, ps, ((TaskDelay st 10) ^^ 10) s))"
  using wait_loop_eq [OF assms, of 0 ps s] by (simp add: z_socket_wait_event_def)

text \<open>Data for socket 4 after three delays.\<close>

definition timer_stack :: "nat stack" where
  "timer_stack = idle_stack
     \<lparr>bsd_peek := \<lambda>sock s. (if sock = 4 \<and> 3 \<le> s then 1 else - 1, s), TaskDelay := \<lambda>_ s. s + 1\<rparr>"

lemma timer_stack_conforms: "peek_conforms timer_stack (\<lambda>s sock. if sock = 4 \<and> 3 \<le> s then 1 else - 1)"
  by (simp add: peek_conforms_def timer_stack_def)

lemma timer_delays: "((TaskDelay timer_stack t) ^^ k) s = s + k"
  by (induction k) (simp_all add: timer_stack_def)

theorem wait_event_polls_witness:
  "z_socket_wait_event timer_stack [\<lparr>peer_socket = 3, pending = False\<rparr>, \<lparr>peer_socket = 4, pending = False\<rparr>] 0 =
     (RES_OK, [\<lparr>peer_socket = 3, pending = False\<rparr>, \<lparr>peer_socket = 4, pending = True\<rparr>], 3)"
proof -
  have "[0..<10] = [0, 1, 2, 3, 4, 5, 6, 7, 8, 9 :: nat]" by (simp add: upt_rec)
  then show ?thesis
    using wait_event_polls [OF timer_stack_conforms,
        of "[\<lparr>peer_socket = 3, pending = False\<rparr>, \<lparr>peer_socket = 4, pending = False\<rparr>]" 0]
    by (simp add: timer_delays any_ready_def flag_ready_def)
qed

end
