(* ===== verification/EchoServer.thy ===== *)
theory EchoServer
  imports Format
begin

text \<open>
  The demo server of \<open>app.c\<close>: a state machine that waits for the TCP/IP stack and its interfaces,
  opens a server socket on port 9760 and then echoes what its clients send.

  The stack is a parameter, a record of the entry points the server calls over a state \<open>'s\<close>.
  \<open>mem\<close> is the memory that starts with the 15 bytes of the local buffer \<open>bfr\<close>.
\<close>

section \<open>State\<close>

datatype APP_STATES =
  APP_TCPIP_WAIT_INIT | APP_TCPIP_WAIT_FOR_IP | APP_BSD_INIT | APP_BSD_CREATE_SOCKET
| APP_BSD_BIND | APP_BSD_LISTEN | APP_BSD_OPERATION | APP_TCPIP_ERROR

record APP_DATA =
  app_state :: APP_STATES
  bsdServerSocket :: int
  ClientSock :: "int list"

record 's host =
  STACK_Status :: "'s \<Rightarrow> int \<times> 's"
  NumberOfNetworksGet :: "'s \<Rightarrow> nat \<times> 's"
  NetIsReady :: "nat \<Rightarrow> 's \<Rightarrow> bool \<times> 's"
  h_socket :: "'s \<Rightarrow> int \<times> 's"
  h_bind :: "int \<Rightarrow> nat \<Rightarrow> 's \<Rightarrow> int \<times> 's"
  h_listen :: "int \<Rightarrow> nat \<Rightarrow> 's \<Rightarrow> int \<times> 's"
  h_accept :: "int \<Rightarrow> 's \<Rightarrow> int \<times> 's"
  h_recv :: "int \<Rightarrow> nat \<Rightarrow> 's \<Rightarrow> (int \<times> bytes) \<times> 's"
  h_wouldblock :: "'s \<Rightarrow> bool"
  h_send :: "int \<Rightarrow> bytes \<Rightarrow> 's \<Rightarrow> 's"
  h_closesocket :: "int \<Rightarrow> 's \<Rightarrow> 's"

abbreviation (input) SERVER_PORT :: nat where "SERVER_PORT \<equiv> 9760"
abbreviation (input) MAX_CLIENT :: nat where "MAX_CLIENT \<equiv> 3"
abbreviation (input) INVALID_SOCKET :: int where "INVALID_SOCKET \<equiv> - 1"
abbreviation (input) SYS_STATUS_READY :: int where "SYS_STATUS_READY \<equiv> 2"

section \<open>Operations\<close>

definition APP_Initialize :: "APP_DATA \<Rightarrow> APP_DATA" where
  "APP_Initialize app = app\<lparr>app_state := APP_TCPIP_WAIT_INIT\<rparr>"

fun nets_ready :: "'s host \<Rightarrow> nat \<Rightarrow> nat \<Rightarrow> 's \<Rightarrow> bool \<times> 's" where
  "nets_ready h 0 i s = (True, s)"
| "nets_ready h (Suc k) i s =
     (let (r, s1) = NetIsReady h i s in if \<not> r then (False, s1) else nets_ready h k (i + 1) s1)"

text \<open>One client: the slot, the buffer and the state after its turn.\<close>

definition serve_client :: "'s host \<Rightarrow> int \<Rightarrow> int \<Rightarrow> bytes \<Rightarrow> 's \<Rightarrow> int \<times> bytes \<times> 's" where
  "serve_client h server sock mem s =
     (let (sock1, s1) = (if sock = INVALID_SOCKET then h_accept h server s else (sock, s))
      in if sock1 = INVALID_SOCKET then (sock1, mem, s1)
         else
           let ((len, d), s2) = h_recv h sock1 15 s1;
               mem1 = memcpy_at mem 0 d
           in if 0 < len then
                let mem2 = mem1[nat len := 0]
                in (sock1, mem2, h_send h sock1 (cstr mem2) s2)
              else if len = 0 \<or> \<not> h_wouldblock h s2
                then (INVALID_SOCKET, mem1, h_closesocket h sock1 s2)
                else (sock1, mem1, s2))"

fun serve_clients :: "'s host \<Rightarrow> int \<Rightarrow> int list \<Rightarrow> bytes \<Rightarrow> 's \<Rightarrow> int list \<times> bytes \<times> 's" where
  "serve_clients h server [] mem s = ([], mem, s)"
| "serve_clients h server (c # cs) mem s =
     (let (c', mem1, s1) = serve_client h server c mem s;
          (cs', mem2, s2) = serve_clients h server cs mem1 s1
      in (c' # cs', mem2, s2))"

definition app_listen :: "'s host \<Rightarrow> APP_DATA \<Rightarrow> 's \<Rightarrow> APP_DATA \<times> 's" where
  "app_listen h app s =
     (let (r, s1) = h_listen h (bsdServerSocket app) MAX_CLIENT s
      in (if r = 0 then app\<lparr>app_state := APP_BSD_OPERATION\<rparr> else app, s1))"

definition APP_Tasks :: "'s host \<Rightarrow> bytes \<Rightarrow> APP_DATA \<Rightarrow> 's \<Rightarrow> APP_DATA \<times> bytes \<times> 's" where
  "APP_Tasks h mem app s =
     (case app_state app of
        APP_TCPIP_WAIT_INIT \<Rightarrow>
          let (st, s1) = STACK_Status h s
          in if st < 0 then (app\<lparr>app_state := APP_TCPIP_ERROR\<rparr>, mem, s1)
             else if st = SYS_STATUS_READY then
               let (n, s2) = NumberOfNetworksGet h s1
               in (app\<lparr>app_state := APP_TCPIP_WAIT_FOR_IP\<rparr>, mem, s2)
             else (app, mem, s1)
      | APP_TCPIP_WAIT_FOR_IP \<Rightarrow>
          let (n, s1) = NumberOfNetworksGet h s;
              (r, s2) = nets_ready h n 0 s1
          in (if r then app\<lparr>app_state := APP_BSD_INIT\<rparr> else app, mem, s2)
      | APP_BSD_INIT \<Rightarrow>
          (app\<lparr>ClientSock := replicate MAX_CLIENT INVALID_SOCKET, app_state := APP_BSD_CREATE_SOCKET\<rparr>, mem, s)
      | APP_BSD_CREATE_SOCKET \<Rightarrow>
          let (k, s1) = h_socket h s
          in if k = INVALID_SOCKET then (app, mem, s1)
             else (app\<lparr>bsdServerSocket := k, app_state := APP_BSD_BIND\<rparr>, mem, s1)
      | APP_BSD_BIND \<Rightarrow>
          let (r, s1) = h_bind h (bsdServerSocket app) SERVER_PORT s
          in if r = - 1 then (app, mem, s1)
             else (app\<lparr>app_state := APP_BSD_LISTEN\<rparr>, mem, s1)
      | APP_BSD_LISTEN \<Rightarrow> let (app', s1) = app_listen h app s in (app', mem, s1)
      | APP_BSD_OPERATION \<Rightarrow>
          let (cs, mem1, s1) = serve_clients h (bsdServerSocket app) (ClientSock app) mem s
          in (app\<lparr>ClientSock := cs\<rparr>, mem1, s1)
      | APP_TCPIP_ERROR \<Rightarrow> (app, mem, s))"

section \<open>The state machine\<close>

inductive app_edge :: "APP_STATES \<Rightarrow> APP_STATES \<Rightarrow> bool" where
  ready: "app_edge APP_TCPIP_WAIT_INIT APP_TCPIP_WAIT_FOR_IP"
| failed: "app_edge APP_TCPIP_WAIT_INIT APP_TCPIP_ERROR"
| has_ip: "app_edge APP_TCPIP_WAIT_FOR_IP APP_BSD_INIT"
| cleared: "app_edge APP_BSD_INIT APP_BSD_CREATE_SOCKET"
| created: "app_edge APP_BSD_CREATE_SOCKET APP_BSD_BIND"
| bound: "app_edge APP_BSD_BIND APP_BSD_LISTEN"
| listening: "app_edge APP_BSD_LISTEN APP_BSD_OPERATION"
| wait: "app_edge s s"

inductive_cases app_edge_operation: "app_edge APP_BSD_OPERATION t"

lemma app_tasks_edge: "app_edge (app_state app) (app_state (fst (APP_Tasks h mem app s)))"
  by (cases "app_state app")
    (simp_all add: APP_Tasks_def app_listen_def Let_def case_prod_beta app_edge.intros)

text \<open>
  What the stack documents: \<open>open_set s\<close> are the connections in use. Accepting adds an unused one
  or fails, closing removes it, receiving and sending leave the table alone; what is received fits
  the buffer and its length is the result.
\<close>

definition host_conforms :: "'s host \<Rightarrow> ('s \<Rightarrow> int set) \<Rightarrow> bool" where
  "host_conforms h open_set \<longleftrightarrow>
     (\<forall>s. - 1 \<notin> open_set s) \<and>
     (\<forall>k s. let (c, s') = h_accept h k s in
        if c = - 1 then open_set s' = open_set s
        else c \<notin> open_set s \<and> open_set s' = insert c (open_set s)) \<and>
     (\<forall>k n s. let ((len, d), s') = h_recv h k n s in
        open_set s' = open_set s \<and> (if 0 < len then nat len = length d \<and> length d \<le> n else d = [])) \<and>
     (\<forall>k d s. open_set (h_send h k d s) = open_set s \<and> open_set (snd (STACK_Status h s)) = open_set s \<and>
        open_set (snd (NumberOfNetworksGet h s)) = open_set s \<and> open_set (snd (h_socket h s)) = open_set s) \<and>
     (\<forall>i s. open_set (snd (NetIsReady h i s)) = open_set s) \<and>
     (\<forall>k n s. open_set (snd (h_bind h k n s)) = open_set s \<and> open_set (snd (h_listen h k n s)) = open_set s) \<and>
     (\<forall>k s. open_set (h_closesocket h k s) = open_set s - {k})"

text \<open>The slots in use are distinct and open.\<close>

definition slots_ok :: "int set \<Rightarrow> int list \<Rightarrow> bool" where
  "slots_ok used cs \<longleftrightarrow> distinct (filter (\<lambda>c. c \<noteq> - 1) cs) \<and> set cs - {- 1} \<subseteq> used"

lemma host_accept:
  assumes "host_conforms h open_set"
  shows "let (c, s') = h_accept h k s in
    if c = - 1 then open_set s' = open_set s else c \<notin> open_set s \<and> open_set s' = insert c (open_set s)"
  by (rule assms [unfolded host_conforms_def, THEN conjunct2, THEN conjunct1, rule_format])

lemma host_recv:
  assumes "host_conforms h open_set"
  shows "let ((len, d), s') = h_recv h k n s in
    open_set s' = open_set s \<and> (if 0 < len then nat len = length d \<and> length d \<le> n else d = [])"
  by (rule assms [unfolded host_conforms_def, THEN conjunct2, THEN conjunct2, THEN conjunct1, rule_format])

lemma host_others:
  assumes "host_conforms h open_set"
  shows "open_set (h_send h k d s) = open_set s" "open_set (h_closesocket h k s) = open_set s - {k}"
    "- 1 \<notin> open_set s"
  using assms by (simp_all add: host_conforms_def)

lemma serve_client_open:
  assumes c: "host_conforms h open_set" and r: "serve_client h server sock mem s = (sock', mem', s')"
    and i: "sock = - 1 \<or> sock \<in> open_set s"
  shows "(sock' \<noteq> - 1 \<longrightarrow> sock' \<in> open_set s') \<and>
    open_set s' = open_set s - {sock} \<union> (if sock' = - 1 then {} else {sock'}) \<and>
    (sock' \<noteq> - 1 \<longrightarrow> sock' = sock \<or> sock' \<notin> open_set s)"
proof -
  obtain k s1 where a: "(if sock = - 1 then h_accept h server s else (sock, s)) = (k, s1)" by fastforce
  obtain len d s2 where v: "h_recv h k 15 s1 = ((len, d), s2)" by (metis surj_pair)
  note acc = host_accept [OF c, of server s]
  have k: "k = - 1 \<and> sock = - 1 \<and> open_set s1 = open_set s \<or>
      k \<noteq> - 1 \<and> open_set s1 = insert k (open_set s) \<and> (k = sock \<or> sock = - 1 \<and> k \<notin> open_set s)"
    using a acc i by (auto split: if_splits prod.splits)
  have o: "open_set s2 = open_set s1" using host_recv [OF c, of k 15 s1] by (simp add: v)
  note cl = host_others(1,2) [OF c] and n1 = host_others(3) [OF c]
  consider "k = - 1" | "k \<noteq> - 1" "0 < len" | "k \<noteq> - 1" "\<not> 0 < len" "len = 0 \<or> \<not> h_wouldblock h s2"
    | "k \<noteq> - 1" "\<not> 0 < len" "\<not> (len = 0 \<or> \<not> h_wouldblock h s2)" by blast
  then show ?thesis
  proof cases
    case 1
    then have "sock' = - 1" "s' = s1" using r unfolding serve_client_def a Let_def prod.case by auto
    then show ?thesis using 1 k n1 by auto
  next
    case 2
    then have "sock' = k" "open_set s' = open_set s2" using r cl unfolding serve_client_def a Let_def prod.case v by auto
    then show ?thesis using 2 k o i n1 by auto
  next
    case 3
    then have "sock' = - 1" "open_set s' = open_set s2 - {k}"
      using r cl unfolding serve_client_def a Let_def prod.case v by auto
    then show ?thesis using 3 k o i n1 by auto
  next
    case 4
    then have "sock' = k" "s' = s2" using r unfolding serve_client_def a Let_def prod.case v by auto
    then show ?thesis using 4 k o i n1 by auto
  qed
qed

definition slots :: "int list \<Rightarrow> int set" where
  "slots cs = set cs - {- 1}"

lemma slots_Cons [simp]: "slots (c # cs) = (if c = - 1 then slots cs else insert c (slots cs))"
  by (auto simp: slots_def)

lemma slots_ok_Cons [simp]:
  "slots_ok used (c # cs) \<longleftrightarrow> slots_ok used cs \<and> (c \<noteq> - 1 \<longrightarrow> c \<in> used \<and> c \<notin> slots cs)"
  by (auto simp: slots_ok_def slots_def)

lemma slots_ok_sub: "slots_ok used cs \<Longrightarrow> slots cs \<subseteq> used"
  by (simp add: slots_ok_def slots_def)

lemma slots_ok_mono: "slots_ok used cs \<Longrightarrow> slots cs \<subseteq> used' \<Longrightarrow> slots_ok used' cs"
  by (simp add: slots_ok_def slots_def)

lemma serve_clients_open:
  assumes c: "host_conforms h open_set"
    and "serve_clients h server cs mem s = (cs', mem', s')" "slots_ok (open_set s) cs"
  shows "slots_ok (open_set s') cs' \<and> open_set s' = open_set s - slots cs \<union> slots cs' \<and>
    slots cs' \<subseteq> slots cs \<union> - open_set s \<and> length cs' = length cs"
  using assms(2,3)
proof (induction cs arbitrary: mem s cs' mem' s')
  case Nil
  then show ?case by (simp add: slots_ok_def slots_def)
next
  case (Cons x cs)
  obtain x' mem1 s1 where 1: "serve_client h server x mem s = (x', mem1, s1)" by (metis prod_cases3)
  obtain ys mem2 s2 where 2: "serve_clients h server cs mem1 s1 = (ys, mem2, s2)" by (metis prod_cases3)
  have r: "cs' = x' # ys" "s' = s2" using Cons.prems(1) by (simp_all add: 1 2)
  have x: "slots_ok (open_set s) cs" "x \<noteq> - 1 \<longrightarrow> x \<in> open_set s \<and> x \<notin> slots cs"
    using Cons.prems(2) by simp_all
  have e: "x' \<noteq> - 1 \<longrightarrow> x' \<in> open_set s1" "open_set s1 = open_set s - {x} \<union> (if x' = - 1 then {} else {x'})"
    "x' \<noteq> - 1 \<longrightarrow> x' = x \<or> x' \<notin> open_set s"
    using serve_client_open [OF c 1] x(2) by blast+
  note n1 = host_others(3) [OF c]
  have sub: "slots cs \<subseteq> open_set s" by (rule slots_ok_sub [OF x(1)])
  have sub1: "slots cs \<subseteq> open_set s1" using sub x(2) e(2) by (auto simp: slots_def)
  have ok1: "slots_ok (open_set s1) cs" by (rule slots_ok_mono [OF x(1) sub1])
  note ih = Cons.IH [OF 2 ok1]
  have fresh: "x' \<noteq> - 1 \<longrightarrow> x' \<notin> slots ys \<and> x' \<in> open_set s2" using ih e x(2) sub by blast
  have sub2: "slots ys \<subseteq> slots cs \<union> - open_set s1" using ih by blast
  have s2: "open_set s2 = open_set s1 - slots cs \<union> slots ys" using ih by blast
  have nx: "- 1 \<notin> slots l" for l by (simp add: slots_def)
  have "open_set s2 = open_set s - slots (x # cs) \<union> slots (x' # ys)"
  proof (cases "x' = - 1")
    case True
    then show ?thesis using s2 e(2) n1 by (cases "x = - 1") (simp_all, blast+)
  next
    case False
    then have "x' \<notin> slots cs" using e(3) x(2) sub by blast
    then show ?thesis using False s2 e(2) n1 by (cases "x = - 1") (simp_all, blast+)
  qed
  moreover have "slots (x' # ys) \<subseteq> slots (x # cs) \<union> - open_set s"
  proof -
    have "slots ys \<subseteq> slots (x # cs) \<union> - open_set s"
      using sub2 e(2) x(2) nx by (cases "x = - 1") (simp_all, blast+)
    then show ?thesis using e(3) by (cases "x' = - 1") auto
  qed
  moreover have "slots_ok (open_set s2) (x' # ys)" unfolding slots_ok_Cons using ih fresh by blast
  ultimately show ?case using ih unfolding r by simp
qed

section \<open>Runs of the server\<close>

lemma nets_ready_open: "host_conforms h open_set \<Longrightarrow> open_set (snd (nets_ready h k i s)) = open_set s"
proof (induction k arbitrary: i s)
  case (Suc k)
  then have "open_set (snd (NetIsReady h i s)) = open_set s" by (simp add: host_conforms_def)
  then show ?case using Suc by (simp add: case_prod_beta Let_def)
qed simp

definition app_inv :: "('s \<Rightarrow> int set) \<Rightarrow> APP_DATA \<Rightarrow> 's \<Rightarrow> bool" where
  "app_inv open_set app s \<longleftrightarrow>
     (if app_state app \<in> {APP_BSD_CREATE_SOCKET, APP_BSD_BIND, APP_BSD_LISTEN, APP_BSD_OPERATION}
      then slots_ok (open_set s) (ClientSock app) \<and> open_set s = slots (ClientSock app) \<and>
        length (ClientSock app) = MAX_CLIENT
      else open_set s = {})"

lemma app_listen_eq:
  assumes "host_conforms h open_set"
  shows "open_set (snd (app_listen h app s)) = open_set s \<and>
    (fst (app_listen h app s) = app \<or> fst (app_listen h app s) = app\<lparr>app_state := APP_BSD_OPERATION\<rparr>)"
  using assms by (simp add: app_listen_def case_prod_beta Let_def host_conforms_def)

lemma app_inv_outside:
  "app_state app \<notin> {APP_BSD_CREATE_SOCKET, APP_BSD_BIND, APP_BSD_LISTEN, APP_BSD_OPERATION} \<Longrightarrow>
    app_inv open_set app s \<longleftrightarrow> open_set s = {}"
  unfolding app_inv_def by (simp only: if_False)

lemma app_inv_inside:
  assumes "app_state app \<in> {APP_BSD_CREATE_SOCKET, APP_BSD_BIND, APP_BSD_LISTEN, APP_BSD_OPERATION}"
    and "app_state app' \<in> {APP_BSD_CREATE_SOCKET, APP_BSD_BIND, APP_BSD_LISTEN, APP_BSD_OPERATION}"
    and "ClientSock app' = ClientSock app" "open_set s' = open_set s" "app_inv open_set app s"
  shows "app_inv open_set app' s'"
  using assms(5) unfolding app_inv_def if_P [OF assms(1)] if_P [OF assms(2)] assms(3) assms(4) .

lemma app_inv_step:
  assumes c: "host_conforms h open_set" and i: "app_inv open_set app s"
    and t: "APP_Tasks h mem app s = (app', mem', s')"
  shows "app_inv open_set app' s'"
proof -
  have o: "open_set (snd (STACK_Status h s)) = open_set s" "open_set (snd (NumberOfNetworksGet h s)) = open_set s"
    "open_set (snd (h_socket h s)) = open_set s" "open_set (snd (h_bind h k n s)) = open_set s" for s k n
    using c by (simp_all add: host_conforms_def)
  have sl: "slots (replicate 3 (- 1)) = {}" "slots_ok {} (replicate 3 (- 1))"
    by (auto simp: slots_def slots_ok_def)
  show ?thesis
  proof (cases "app_state app")
    case APP_BSD_OPERATION
    obtain cs mem1 s1 where v: "serve_clients h (bsdServerSocket app) (ClientSock app) mem s = (cs, mem1, s1)"
      by (metis prod_cases3)
    have ok: "slots_ok (open_set s) (ClientSock app)" "open_set s = slots (ClientSock app)"
      "length (ClientSock app) = 3" using i unfolding app_inv_def APP_BSD_OPERATION by (metis insertCI)+
    have r: "app' = app\<lparr>ClientSock := cs\<rparr>" "s' = s1" using t APP_BSD_OPERATION by (simp_all add: APP_Tasks_def v)
    show ?thesis
      using serve_clients_open [OF c v ok(1)] ok(2,3) APP_BSD_OPERATION
      unfolding app_inv_def r by (metis (no_types, lifting) APP_DATA.ext_inject APP_DATA.surjective
          APP_DATA.update_convs(3) Diff_cancel Un_empty_left insertCI)
  next
    case APP_BSD_BIND
    have "open_set (snd (snd (APP_Tasks h mem app s))) = open_set s"
      "app_state (fst (APP_Tasks h mem app s)) \<in> {APP_BSD_BIND, APP_BSD_LISTEN}"
      "ClientSock (fst (APP_Tasks h mem app s)) = ClientSock app"
      by (simp_all add: APP_Tasks_def APP_BSD_BIND case_prod_beta Let_def o)
    then show ?thesis unfolding t fst_conv snd_conv
      by (intro app_inv_inside [OF _ _ _ _ i]) (auto simp: APP_BSD_BIND)
  next
    case APP_BSD_LISTEN
    have "open_set (snd (snd (APP_Tasks h mem app s))) = open_set s"
      "app_state (fst (APP_Tasks h mem app s)) \<in> {APP_BSD_LISTEN, APP_BSD_OPERATION}"
      "ClientSock (fst (APP_Tasks h mem app s)) = ClientSock app"
      using app_listen_eq [OF c, of app s]
      by (auto simp: APP_Tasks_def APP_BSD_LISTEN case_prod_beta Let_def)
    then show ?thesis unfolding t fst_conv snd_conv
      by (intro app_inv_inside [OF _ _ _ _ i]) (auto simp: APP_BSD_LISTEN)
  next
    case APP_TCPIP_WAIT_FOR_IP
    have "open_set (snd (snd (APP_Tasks h mem app s))) = open_set s"
      "app_state (fst (APP_Tasks h mem app s)) \<in> {APP_TCPIP_WAIT_FOR_IP, APP_BSD_INIT}"
      by (simp_all add: APP_Tasks_def APP_TCPIP_WAIT_FOR_IP case_prod_beta Let_def o nets_ready_open [OF c])
    moreover have "open_set s = {}" using i by (subst (asm) app_inv_outside) (simp_all add: APP_TCPIP_WAIT_FOR_IP)
    ultimately show ?thesis unfolding t fst_conv snd_conv by (subst app_inv_outside) auto
  next
    case APP_BSD_INIT
    then show ?thesis using t i sl by (auto simp: APP_Tasks_def app_inv_def)
  next
    case APP_TCPIP_WAIT_INIT
    have "open_set (snd (snd (APP_Tasks h mem app s))) = open_set s"
      "app_state (fst (APP_Tasks h mem app s)) \<in> {APP_TCPIP_WAIT_INIT, APP_TCPIP_WAIT_FOR_IP, APP_TCPIP_ERROR}"
      by (simp_all add: APP_Tasks_def APP_TCPIP_WAIT_INIT case_prod_beta Let_def o)
    moreover have "open_set s = {}" using i by (subst (asm) app_inv_outside) (simp_all add: APP_TCPIP_WAIT_INIT)
    ultimately show ?thesis unfolding t fst_conv snd_conv by (subst app_inv_outside) auto
  next
    case APP_BSD_CREATE_SOCKET
    have "open_set (snd (snd (APP_Tasks h mem app s))) = open_set s"
      "app_state (fst (APP_Tasks h mem app s)) \<in> {APP_BSD_CREATE_SOCKET, APP_BSD_BIND}"
      "ClientSock (fst (APP_Tasks h mem app s)) = ClientSock app"
      by (simp_all add: APP_Tasks_def APP_BSD_CREATE_SOCKET case_prod_beta Let_def o)
    then show ?thesis unfolding t fst_conv snd_conv
      by (intro app_inv_inside [OF _ _ _ _ i]) (auto simp: APP_BSD_CREATE_SOCKET)
  next
    case APP_TCPIP_ERROR
    then show ?thesis using t i by (simp add: APP_Tasks_def)
  qed
qed

primrec app_run :: "'s host \<Rightarrow> nat \<Rightarrow> APP_DATA \<times> bytes \<times> 's \<Rightarrow> APP_DATA \<times> bytes \<times> 's" where
  "app_run h 0 x = x"
| "app_run h (Suc n) x = (case app_run h n x of (app, mem, s) \<Rightarrow> APP_Tasks h mem app s)"

lemma app_run_inv:
  assumes "host_conforms h open_set" "open_set s = {}" "app_run h n (APP_Initialize app, mem, s) = (app', mem', s')"
  shows "app_inv open_set app' s'"
  using assms(3)
proof (induction n arbitrary: app' mem' s')
  case 0
  then show ?case using assms(2) by (auto simp: app_inv_def APP_Initialize_def)
next
  case (Suc n)
  obtain a m t where r: "app_run h n (APP_Initialize app, mem, s) = (a, m, t)" by (metis prod_cases3)
  show ?case using Suc.prems app_inv_step [OF assms(1) Suc.IH [OF r]] by (simp add: r)
qed

text \<open>
  A host for the witnesses: every accept opens the next descriptor, every receive returns the same
  message.
\<close>

definition echo_host :: "bytes \<Rightarrow> (int \<times> int set) host" where
  "echo_host d = \<lparr>
     STACK_Status = \<lambda>s. (2, s), NumberOfNetworksGet = \<lambda>s. (1, s), NetIsReady = \<lambda>i s. (True, s),
     h_socket = \<lambda>s. (0, s), h_bind = \<lambda>k n s. (0, s), h_listen = \<lambda>k n s. (0, s),
     h_accept = \<lambda>k (n, u). if n < 0 \<or> n \<in> u then (- 1, (n, u)) else (n, (n + 1, insert n u)),
     h_recv = \<lambda>k m s. if length d \<le> m then ((int (length d), d), s) else ((- 1, []), s),
     h_wouldblock = \<lambda>s. True, h_send = \<lambda>k b s. s, h_closesocket = \<lambda>k (n, u). (n, u - {k})\<rparr>"

lemma echo_host_conforms: "host_conforms (echo_host d) (\<lambda>s. {x \<in> snd s. 0 \<le> x})"
  by (auto simp: host_conforms_def echo_host_def Let_def)

text \<open>
  After any number of calls of \<open>APP_Tasks\<close> since \<open>APP_Initialize\<close>, while the server operates the
  connections in use are exactly the ones in its three slots, each in one slot: it neither loses a
  connection nor keeps a closed one.
\<close>

theorem echo_keeps_connections:
  assumes "host_conforms h open_set" "open_set s = {}"
    and "app_run h n (APP_Initialize app, mem, s) = (app', mem', s')" "app_state app' = APP_BSD_OPERATION"
  shows "open_set s' = set (ClientSock app') - {- 1} \<and> distinct (filter (\<lambda>c. c \<noteq> - 1) (ClientSock app')) \<and>
    length (ClientSock app') = 3"
  using app_run_inv [OF assms(1-3)] assms(4) by (simp add: app_inv_def slots_ok_def slots_def)

text \<open>
  \<open>bfr\<close> has 15 bytes and \<open>recv\<close> may fill it; the terminator is then written behind it. A
  message of 15 bytes clears the byte of memory after the buffer, a shorter one leaves the memory
  after the buffer alone.
\<close>

theorem echo_overflow:
  assumes "sock \<noteq> - 1" "h_recv h sock 15 s = ((int (length d), d), s1)" "d \<noteq> []" "length d \<le> 15"
    and "15 < length mem" "serve_client h server sock mem s = (sock', mem', s')"
  shows "drop 15 mem' = (if length d = 15 then 0 # drop 16 mem else drop 15 mem)"
proof -
  have m: "mem' = (memcpy_at mem 0 d)[length d := 0]"
    using assms(1,2,3,6) by (auto simp: serve_client_def Let_def)
  show ?thesis
  proof (cases "length d = 15")
    case True
    then have "memcpy_at mem 0 d = d @ drop 15 mem" by (simp add: memcpy_at_def)
    moreover obtain x xs where "drop 15 mem = x # xs" using assms(5) by (metis Cons_nth_drop_Suc)
    moreover from this have "drop 16 mem = xs" by (metis drop_Suc numeral_eq_Suc pred_numeral_simps(2) pred_numeral_simps(3) semiring_norm(26,27) tl_drop list.sel(3))
    ultimately show ?thesis using True by (simp add: m list_update_append)
  next
    case False
    then have "length d < 15" using assms(4) by simp
    then show ?thesis using False by (simp add: m drop_update_cancel memcpy_at_def)
  qed
qed

text \<open>
  The server echoes a message up to its first zero byte only: the reply is sent as a string.
\<close>

theorem echo_reply:
  assumes "sock \<noteq> - 1" "h_recv h sock 15 s = ((int (length d), d), s1)" "d \<noteq> []" "length d < length mem"
  shows "\<exists>mem'. serve_client h server sock mem s = (sock, mem', h_send h sock (takeWhile (\<lambda>b. b \<noteq> 0) d) s1)"
proof -
  let ?m = "(memcpy_at mem 0 d)[length d := 0]"
  have "?m = d @ 0 # drop (Suc (length d)) mem"
  proof -
    obtain x xs where x: "drop (length d) mem = x # xs" using assms(4) by (metis Cons_nth_drop_Suc)
    then have "drop (Suc (length d)) mem = xs" by (metis drop_Suc list.sel(3) tl_drop)
    then show ?thesis by (simp add: memcpy_at_def x list_update_append)
  qed
  moreover have "takeWhile (\<lambda>b. b \<noteq> 0) (l @ 0 # r) = takeWhile (\<lambda>b. b \<noteq> 0) l" for l r
    by (induction l) simp_all
  ultimately have "cstr ?m = takeWhile (\<lambda>b. b \<noteq> 0) d" by (simp add: cstr_def)
  then show ?thesis using assms(1,2,3) by (simp add: serve_client_def Let_def)
qed


definition echo_start :: APP_DATA where
  "echo_start = \<lparr>app_state = APP_TCPIP_ERROR, bsdServerSocket = 0, ClientSock = []\<rparr>"

definition echo_ran :: "APP_DATA \<times> bytes \<times> int \<times> int set" where
  "echo_ran = app_run (echo_host [1, 2]) 7 (APP_Initialize echo_start, replicate 20 9, 1, {})"

theorem echo_keeps_connections_witness:
  "app_state (fst echo_ran) = APP_BSD_OPERATION \<and> ClientSock (fst echo_ran) = [1, 2, 3] \<and>
    {x \<in> snd (snd (snd echo_ran)). 0 \<le> x} = set (ClientSock (fst echo_ran)) - {- 1}"
proof -
  have *: "app_state (fst echo_ran) = APP_BSD_OPERATION" "ClientSock (fst echo_ran) = [1, 2, 3]"
    by (simp_all add: echo_ran_def echo_start_def APP_Initialize_def APP_Tasks_def echo_host_def app_listen_def
        serve_client_def numeral_eq_Suc)
  obtain a m s where e: "echo_ran = (a, m, s)" by (metis prod_cases3)
  show ?thesis
    using * echo_keeps_connections [OF echo_host_conforms _ e [unfolded echo_ran_def]] by (simp add: e)
qed

theorem echo_overflow_witness:
  "drop 15 (fst (snd (serve_client (echo_host (replicate 15 7)) 0 1 (replicate 17 9) (2, {1})))) = [0, 9]"
proof -
  obtain k m s where e: "serve_client (echo_host (replicate 15 7)) 0 1 (replicate 17 9) (2, {1}) = (k, m, s)"
    by (metis prod_cases3)
  have "drop 15 m = (if length (replicate 15 (7 :: 8 word)) = 15 then 0 # drop 16 (replicate 17 9) else drop 15 (replicate 17 9))"
    by (rule echo_overflow [OF _ _ _ _ _ e]) (simp_all add: echo_host_def)
  then show ?thesis unfolding e fst_conv snd_conv by (simp add: numeral_eq_Suc)
qed

theorem echo_reply_witness:
  "\<exists>mem'. serve_client (echo_host [1, 2, 0, 4]) 0 1 (replicate 17 9) (2, {1}) =
     (1, mem', h_send (echo_host [1, 2, 0, 4]) 1 [1, 2] (2, {1}))"
  using echo_reply [of 1 "echo_host [1, 2, 0, 4]" "(2, {1})" "[1, 2, 0, 4]" "(2, {1})" "replicate 17 9" 0]
  by (simp add: echo_host_def)

end
