(* ===== verification/ZBase.thy ===== *)
theory ZBase
  imports Prelude "HOL-Library.Monad_Syntax"
begin

text \<open>
  What the models of zenoh-pico share: the 32 bit \<open>size_t\<close> of the controller, arrays whose
  accesses out of range are undefined, and the contract of its bounded stores.

  The result of an operation that could run into undefined behaviour (an access out of range, a
  failed assertion, a division by zero) or run forever is an option, \<open>None\<close> when it does.
\<close>

named_theorems z_simps \<open>evaluation rules for the models of zenoh-pico\<close>

section \<open>Sizes\<close>

definition SIZE_MAX :: nat where "SIZE_MAX = 2 ^ 32 - 1"

definition size_add :: "nat \<Rightarrow> nat \<Rightarrow> nat" where
  "size_add a b = (a + b) mod 2 ^ 32"

definition size_sub :: "nat \<Rightarrow> nat \<Rightarrow> nat" where
  "size_sub a b = (if b \<le> a then a - b else (a + 2 ^ 32 - b) mod 2 ^ 32)"

definition size_mul :: "nat \<Rightarrow> nat \<Rightarrow> nat" where
  "size_mul a b = a * b mod 2 ^ 32"

lemma size_add_small [simp]: "a + b \<le> SIZE_MAX \<Longrightarrow> size_add a b = a + b"
  by (simp add: size_add_def SIZE_MAX_def)

lemma size_sub_le [simp]: "b \<le> a \<Longrightarrow> size_sub a b = a - b"
  by (simp add: size_sub_def)

lemma size_mul_small [simp]: "a * b \<le> SIZE_MAX \<Longrightarrow> size_mul a b = a * b"
  by (simp add: size_mul_def SIZE_MAX_def)

lemma size_sub_0_1 [simp]: "size_sub 0 (Suc 0) = SIZE_MAX"
  by (simp add: size_sub_def SIZE_MAX_def)

section \<open>Results\<close>

text \<open>The result codes of \<open>utils/result.h\<close> that the modelled code returns.\<close>

datatype z_res =
  Z_OK | Z_ERR_TRANSPORT_NO_SPACE | Z_ERR_SYSTEM_OUT_OF_MEMORY | Z_ERR_MESSAGE_DESERIALIZATION_FAILED
  | Z_ERR_MESSAGE_SERIALIZATION_FAILED | Z_ERR_MESSAGE_EXTENSION_MANDATORY_AND_UNKNOWN | Z_ERR_MESSAGE_TRANSPORT_UNKNOWN
  | Z_ERR_CONNECTION_CLOSED | Z_NO_DATA_PROCESSED | Z_ERR_TRANSPORT_RX_DURATION_EXPIRED | Z_ERR_MESSAGE_UNEXPECTED
  | Z_ERR_TRANSPORT_NOT_AVAILABLE | Z_ERR_TRANSPORT_OPEN_FAILED | Z_ERR_TRANSPORT_OPEN_SN_RESOLUTION | Z_ERR_TRANSPORT_TX_FAILED
  | Z_ERR_TRANSPORT_RX_FAILED | Z_ERR_TRANSPORT_NOT_ENOUGH_BYTES | Z_ETIMEDOUT | Z_ERR_GENERIC | Z_ERR_INVALID
  | Z_ERR_MESSAGE_ZENOH_UNKNOWN | Z_ERR_KEYEXPR_UNKNOWN | Z_ERR_FAILED_TO_SPAWN_TASK

section \<open>Masks\<close>

lemma bits_7: "bit (0x7F :: int) n \<longleftrightarrow> n < 7" "bit (0xFF :: int) n \<longleftrightarrow> n < 8" "bit (0x80 :: int) n \<longleftrightarrow> n = 7"
proof -
  have "(0x7F :: int) = mask 7" "(0xFF :: int) = mask 8" "(0x80 :: int) = push_bit 7 1"
    by (simp_all add: mask_eq_exp_minus_1 push_bit_eq_mult)
  then show "bit (0x7F :: int) n \<longleftrightarrow> n < 7" "bit (0xFF :: int) n \<longleftrightarrow> n < 8" "bit (0x80 :: int) n \<longleftrightarrow> n = 7"
    unfolding bit_push_bit_iff bit_1_iff by (simp_all only: bit_mask_iff bit_push_bit_iff bit_1_iff) auto
qed

lemma ucast_low: "(ucast (w AND 0xFF) :: u8) = ucast w"
  by (rule bit_word_eqI) (auto simp: bits_7 bit_simps dest: bit_imp_le_length)

section \<open>Arrays\<close>

definition arr_get :: "'a list \<Rightarrow> nat \<Rightarrow> 'a option" where
  "arr_get xs i = (if i < length xs then Some (xs ! i) else None)"

definition arr_set :: "'a list \<Rightarrow> nat \<Rightarrow> 'a \<Rightarrow> 'a list option" where
  "arr_set xs i x = (if i < length xs then Some (xs[i := x]) else None)"

definition assert_c :: "bool \<Rightarrow> unit option" where
  "assert_c b = (if b then Some () else None)"

lemma arr_get_in [simp, z_simps]: "i < length xs \<Longrightarrow> arr_get xs i = Some (xs ! i)"
  by (simp add: arr_get_def)

lemma arr_set_in [simp, z_simps]: "i < length xs \<Longrightarrow> arr_set xs i x = Some (xs[i := x])"
  by (simp add: arr_set_def)

lemma arr_out [simp, z_simps]: "length xs \<le> i \<Longrightarrow> arr_get xs i = None" "length xs \<le> i \<Longrightarrow> arr_set xs i x = None"
  by (simp_all add: arr_get_def arr_set_def)

lemma assert_c_simps [simp, z_simps]: "assert_c True = Some ()" "assert_c False = None"
  by (simp_all add: assert_c_def)

lemma assert_c_eq_Some [simp]: "assert_c b = Some x \<longleftrightarrow> b"
  by (simp add: assert_c_def)

lemma bind_Some_iff: "Option.bind m f = Some y \<longleftrightarrow> (\<exists>x. m = Some x \<and> f x = Some y)"
  by (cases m) simp_all

section \<open>Blocks\<close>

text \<open>
  \<open>z_malloc\<close> is a parameter: the block it hands out for a number of bytes, as a list of elements of
  \<open>es\<close> bytes each with arbitrary content, or \<open>None\<close>. The code relies on its size only.
\<close>

type_synonym 'b pool = "nat \<Rightarrow> 'b list option"

definition pool_ok :: "nat \<Rightarrow> 'b pool \<Rightarrow> bool" where
  "pool_ok es mal \<longleftrightarrow> (\<forall>n b. mal n = Some b \<longrightarrow> length b = n div es)"

text \<open>The same for an allocator with a state \<open>'h\<close>, so that each call may fail or not.\<close>

type_synonym ('b, 'h) malloc = "nat \<Rightarrow> 'h \<Rightarrow> 'b list option \<times> 'h"

definition malloc_ok :: "nat \<Rightarrow> ('b, 'h) malloc \<Rightarrow> bool" where
  "malloc_ok es mal \<longleftrightarrow> (\<forall>n h b h'. mal n h = (Some b, h') \<longrightarrow> length b = n div es)"

lemma pool_ok_length: "pool_ok es mal \<Longrightarrow> mal n = Some b \<Longrightarrow> length b = n div es"
  by (simp add: pool_ok_def)

lemma malloc_ok_length: "malloc_ok es mal \<Longrightarrow> mal n h = (Some b, h') \<Longrightarrow> length b = n div es"
  unfolding malloc_ok_def by blast

section \<open>Growing vectors\<close>

text \<open>
  A vector that grows on demand up to \<open>limit\<close> elements. An append is defined; it adds the element at
  the end, or leaves the vector as it was when the heap is exhausted.
\<close>

locale growable =
  fixes wf :: "'v \<Rightarrow> bool" and items :: "'v \<Rightarrow> 'a list" and limit :: nat
    and append :: "'v \<Rightarrow> 'a \<Rightarrow> 'h \<Rightarrow> (bool \<times> 'v \<times> 'h) option"
  assumes append_law: "wf v \<Longrightarrow> length (items v) < limit \<Longrightarrow>
    \<exists>ok v' h'. append v x h = Some (ok, v', h') \<and> wf v' \<and> items v' = (if ok then items v @ [x] else items v)"
begin

fun appends :: "'v \<Rightarrow> 'a list \<Rightarrow> 'h \<Rightarrow> (bool list \<times> 'v \<times> 'h) option" where
  "appends v [] h = Some ([], v, h)"
| "appends v (x # xs) h = do {
     (ok, v1, h1) \<leftarrow> append v x h;
     (oks, v2, h2) \<leftarrow> appends v1 xs h1;
     Some (ok # oks, v2, h2) }"

text \<open>A sequence of appends keeps the order, and loses exactly the elements it reports.\<close>

lemma appends_items:
  "wf v \<Longrightarrow> length (items v) + length xs \<le> limit \<Longrightarrow>
    \<exists>oks v' h'. appends v xs h = Some (oks, v', h') \<and> wf v' \<and> length oks = length xs \<and>
      items v' = items v @ map fst (filter snd (zip xs oks))"
proof (induction xs arbitrary: v h)
  case Nil
  then show ?case by simp
next
  case (Cons x xs)
  obtain ok v1 h1 where 1: "append v x h = Some (ok, v1, h1)" "wf v1"
    "items v1 = (if ok then items v @ [x] else items v)"
    using append_law [OF Cons.prems(1), of x h] Cons.prems(2) by auto
  have "length (items v1) + length xs \<le> limit" using Cons.prems(2) 1(3) by simp
  from Cons.IH [OF 1(2) this, of h1] obtain oks v' h' where
    "appends v1 xs h1 = Some (oks, v', h')" "wf v'" "length oks = length xs"
    "items v' = items v1 @ map fst (filter snd (zip xs oks))" by blast
  then show ?case using 1 by simp
qed

end

section \<open>Bounded stores\<close>

text \<open>
  A store of pointers with a capacity. \<open>items\<close> are its elements in the order in which \<open>pull\<close> hands
  them out and \<open>put\<close> says where a new one goes; a push into a full store hands the element back, a
  pull from an empty one returns nothing.
\<close>

locale bounded_store =
  fixes wf :: "'s \<Rightarrow> bool" and items :: "'s \<Rightarrow> 'a list" and cap :: "'s \<Rightarrow> nat"
    and push :: "'s \<Rightarrow> 'a \<Rightarrow> ('a option \<times> 's) option" and pull :: "'s \<Rightarrow> ('a option \<times> 's) option"
    and put :: "'a \<Rightarrow> 'a list \<Rightarrow> 'a list"
  assumes bounded: "wf s \<Longrightarrow> length (items s) \<le> cap s"
    and push_room: "wf s \<Longrightarrow> length (items s) < cap s \<Longrightarrow>
      \<exists>s'. push s x = Some (None, s') \<and> wf s' \<and> cap s' = cap s \<and> items s' = put x (items s)"
    and push_full: "wf s \<Longrightarrow> length (items s) = cap s \<Longrightarrow> push s x = Some (Some x, s)"
    and pull_empty: "wf s \<Longrightarrow> items s = [] \<Longrightarrow> pull s = Some (None, s)"
    and pull_some: "wf s \<Longrightarrow> items s = x # xs \<Longrightarrow>
      \<exists>s'. pull s = Some (Some x, s') \<and> wf s' \<and> cap s' = cap s \<and> items s' = xs"

datatype 'a store_op = Push 'a | Pull

text \<open>The same on a list of at most \<open>n\<close> elements.\<close>

fun spec_op :: "('a \<Rightarrow> 'a list \<Rightarrow> 'a list) \<Rightarrow> nat \<Rightarrow> 'a list \<Rightarrow> 'a store_op \<Rightarrow> 'a option \<times> 'a list" where
  "spec_op put n xs (Push x) = (if length xs < n then (None, put x xs) else (Some x, xs))"
| "spec_op put n [] Pull = (None, [])"
| "spec_op put n (x # xs) Pull = (Some x, xs)"

fun spec_run :: "('a \<Rightarrow> 'a list \<Rightarrow> 'a list) \<Rightarrow> nat \<Rightarrow> 'a list \<Rightarrow> 'a store_op list \<Rightarrow> 'a option list \<times> 'a list" where
  "spec_run put n xs [] = ([], xs)"
| "spec_run put n xs (op # ops) =
     (let (r, xs1) = spec_op put n xs op; (rs, xs2) = spec_run put n xs1 ops in (r # rs, xs2))"

fun store_run ::
  "('s \<Rightarrow> 'a \<Rightarrow> ('a option \<times> 's) option) \<Rightarrow> ('s \<Rightarrow> ('a option \<times> 's) option) \<Rightarrow> 's \<Rightarrow> 'a store_op list \<Rightarrow>
   ('a option list \<times> 's) option" where
  "store_run push pull s [] = Some ([], s)"
| "store_run push pull s (op # ops) = do {
     (r, s1) \<leftarrow> (case op of Push x \<Rightarrow> push s x | Pull \<Rightarrow> pull s);
     (rs, s2) \<leftarrow> store_run push pull s1 ops;
     Some (r # rs, s2) }"

context bounded_store begin

lemma op_refines:
  assumes "wf s"
  shows "\<exists>s'. (case op of Push x \<Rightarrow> push s x | Pull \<Rightarrow> pull s) = Some (fst (spec_op put (cap s) (items s) op), s') \<and>
    wf s' \<and> cap s' = cap s \<and> items s' = snd (spec_op put (cap s) (items s) op)"
proof (cases op)
  case (Push x)
  then show ?thesis
    using push_room [OF assms, of x] push_full [OF assms, of x] bounded [OF assms] assms
    by (cases "length (items s) < cap s") auto
next
  case Pull
  then show ?thesis
    using pull_empty [OF assms] pull_some [OF assms] assms by (cases "items s") auto
qed

text \<open>Any sequence of pushes and pulls is defined and answers as the list does.\<close>

lemma run_refines:
  assumes "wf s"
  shows "\<exists>s'. store_run push pull s ops = Some (fst (spec_run put (cap s) (items s) ops), s') \<and>
    wf s' \<and> cap s' = cap s \<and> items s' = snd (spec_run put (cap s) (items s) ops)"
  using assms
proof (induction ops arbitrary: s)
  case Nil
  then show ?case by simp
next
  case (Cons op ops)
  let ?r = "spec_op put (cap s) (items s) op"
  obtain s1 where s1: "(case op of Push x \<Rightarrow> push s x | Pull \<Rightarrow> pull s) = Some (fst ?r, s1)"
    "wf s1" "cap s1 = cap s" "items s1 = snd ?r"
    using op_refines [OF Cons.prems, of op] by blast
  obtain s2 where "store_run push pull s1 ops = Some (fst (spec_run put (cap s) (snd ?r) ops), s2)"
    "wf s2" "cap s2 = cap s" "items s2 = snd (spec_run put (cap s) (snd ?r) ops)"
    using Cons.IH [OF s1(2)] unfolding s1(3,4) by blast
  then show ?case by (auto simp: s1(1) split_beta Let_def)
qed

end

end
