(* ===== verification/ZRing.thy ===== *)
theory ZRing
  imports ZBase
begin

text \<open>
  The bounded stores behind the channel handlers of zenoh-pico: \<open>collections/ring.c\<close>,
  \<open>collections/fifo.c\<close> and \<open>collections/lifo.c\<close>.

  They store pointers, \<open>None\<close> is the null pointer; \<open>r_val\<close> is the array, \<open>[]\<close> for no array.
  A pointer has four bytes.
\<close>

section \<open>The ring\<close>

record 'a z_ring =
  r_val :: "'a option list"
  r_capacity :: nat
  r_len :: nat
  r_ridx :: nat
  r_widx :: nat

text \<open>\<open>memset(val, 0, n)\<close> counts bytes.\<close>

definition clear_bytes :: "nat \<Rightarrow> 'a option list \<Rightarrow> 'a option list" where
  "clear_bytes n b = replicate (n div 4) None @ drop (n div 4) b"

definition z_ring_init :: "'a option pool \<Rightarrow> nat \<Rightarrow> 'a z_ring" where
  "z_ring_init mal capacity =
     (let c = size_add capacity 1;
          r = \<lparr>r_val = [], r_capacity = 0, r_len = 0, r_ridx = 0, r_widx = 0\<rparr>
      in case (if c \<noteq> 0 then mal (size_mul 4 c) else None) of
           None \<Rightarrow> r
         | Some b \<Rightarrow> r\<lparr>r_val := clear_bytes c b, r_capacity := c\<rparr>)"

definition z_ring_make :: "'a option pool \<Rightarrow> nat \<Rightarrow> 'a z_ring" where
  "z_ring_make mal capacity = z_ring_init mal capacity"

definition z_ring_capacity :: "'a z_ring \<Rightarrow> nat" where
  "z_ring_capacity r = size_sub (r_capacity r) 1"

definition z_ring_len :: "'a z_ring \<Rightarrow> nat" where
  "z_ring_len r = (if r_ridx r \<le> r_widx r then r_widx r - r_ridx r
     else size_add (r_widx r) (size_sub (r_capacity r) (r_ridx r)))"

definition z_ring_is_empty :: "'a z_ring \<Rightarrow> bool" where
  "z_ring_is_empty r \<longleftrightarrow> r_widx r = r_ridx r"

definition z_ring_is_full :: "'a z_ring \<Rightarrow> bool" where
  "z_ring_is_full r \<longleftrightarrow> z_ring_len r = z_ring_capacity r"

text \<open>\<open>x % n\<close>, undefined for \<open>n = 0\<close>.\<close>

definition c_mod :: "nat \<Rightarrow> nat \<Rightarrow> nat option" where
  "c_mod x n = (if n = 0 then None else Some (x mod n))"

definition z_ring_push :: "'a z_ring \<Rightarrow> 'a option \<Rightarrow> ('a option \<times> 'a z_ring) option" where
  "z_ring_push r e =
     (if \<not> z_ring_is_full r then do {
        v \<leftarrow> arr_set (r_val r) (r_widx r) e;
        w \<leftarrow> c_mod (size_add (r_widx r) 1) (r_capacity r);
        Some (None, r\<lparr>r_val := v, r_widx := w\<rparr>) }
      else Some (e, r))"

definition z_ring_pull :: "'a z_ring \<Rightarrow> ('a option \<times> 'a z_ring) option" where
  "z_ring_pull r =
     (if \<not> z_ring_is_empty r then do {
        ret \<leftarrow> arr_get (r_val r) (r_ridx r);
        v \<leftarrow> arr_set (r_val r) (r_ridx r) None;
        i \<leftarrow> c_mod (size_add (r_ridx r) 1) (r_capacity r);
        Some (ret, r\<lparr>r_val := v, r_ridx := i\<rparr>) }
      else Some (None, r))"

definition z_ring_push_force :: "'a z_ring \<Rightarrow> 'a option \<Rightarrow> ('a option \<times> 'a z_ring) option" where
  "z_ring_push_force r e = do {
     (ret, r1) \<leftarrow> z_ring_push r e;
     if ret \<noteq> None then do {
       (ret, r2) \<leftarrow> z_ring_pull r1;
       (_, r3) \<leftarrow> z_ring_push r2 e;
       Some (ret, r3) }
     else Some (ret, r1) }"

text \<open>\<open>free_f\<close> is the caller's destructor of an element, over the state of the heap.\<close>

definition z_ring_push_force_drop :: "('a \<Rightarrow> 'h \<Rightarrow> 'h) \<Rightarrow> 'a z_ring \<Rightarrow> 'a option \<Rightarrow> 'h \<Rightarrow> ('a z_ring \<times> 'h) option" where
  "z_ring_push_force_drop free_f r e h = do {
     (ret, r1) \<leftarrow> z_ring_push_force r e;
     Some (r1, case ret of Some x \<Rightarrow> free_f x h | None \<Rightarrow> h) }"

partial_function (option) ring_drain :: "('a \<Rightarrow> 'h \<Rightarrow> 'h) \<Rightarrow> 'a z_ring \<Rightarrow> 'h \<Rightarrow> ('a z_ring \<times> 'h) option" where
  "ring_drain free_f r h = do {
     (e, r1) \<leftarrow> z_ring_pull r;
     (case e of None \<Rightarrow> Some (r1, h) | Some x \<Rightarrow> ring_drain free_f r1 (free_f x h)) }"

definition z_ring_clear :: "('a \<Rightarrow> 'h \<Rightarrow> 'h) \<Rightarrow> 'a z_ring \<Rightarrow> 'h \<Rightarrow> ('a z_ring \<times> 'h) option" where
  "z_ring_clear free_f r h = do {
     (r1, h1) \<leftarrow> ring_drain free_f r h;
     Some (r1\<lparr>r_val := [], r_capacity := 0, r_len := 0, r_ridx := 0, r_widx := 0\<rparr>, h1) }"

text \<open>The pointer to the ring is an option; it is null afterwards.\<close>

definition z_ring_free :: "('a \<Rightarrow> 'h \<Rightarrow> 'h) \<Rightarrow> 'a z_ring option \<Rightarrow> 'h \<Rightarrow> ('a z_ring option \<times> 'h) option" where
  "z_ring_free free_f p h =
     (case p of None \<Rightarrow> Some (None, h)
      | Some r \<Rightarrow> do { (r1, h1) \<leftarrow> z_ring_clear free_f r h; Some (None, h1) })"

record 'a z_ring_iterator =
  it_val :: "'a option"
  it_ring :: "'a z_ring"
  it_ridx :: nat
  it_widx :: nat

definition z_ring_iterator_make :: "'a z_ring \<Rightarrow> 'a z_ring_iterator" where
  "z_ring_iterator_make r = \<lparr>it_val = None, it_ring = r, it_ridx = r_ridx r, it_widx = r_widx r\<rparr>"

definition z_ring_iterator_next :: "'a z_ring_iterator \<Rightarrow> (bool \<times> 'a z_ring_iterator) option" where
  "z_ring_iterator_next it =
     (if it_ridx it \<noteq> it_widx it then do {
        x \<leftarrow> arr_get (r_val (it_ring it)) (it_ridx it);
        i \<leftarrow> c_mod (size_add (it_ridx it) 1) (r_capacity (it_ring it));
        Some (True, it\<lparr>it_val := x, it_ridx := i\<rparr>) }
      else Some (False, it))"

definition back_one :: "'a z_ring \<Rightarrow> nat \<Rightarrow> nat" where
  "back_one r i = (if i = 0 then size_sub (r_capacity r) 1 else i - 1)"

definition z_ring_reverse_iterator_make :: "'a z_ring \<Rightarrow> 'a z_ring_iterator" where
  "z_ring_reverse_iterator_make r =
     \<lparr>it_val = None, it_ring = r, it_ridx = back_one r (r_widx r), it_widx = back_one r (r_ridx r)\<rparr>"

definition z_ring_reverse_iterator_next :: "'a z_ring_iterator \<Rightarrow> (bool \<times> 'a z_ring_iterator) option" where
  "z_ring_reverse_iterator_next it =
     (if it_ridx it \<noteq> it_widx it then do {
        x \<leftarrow> arr_get (r_val (it_ring it)) (it_ridx it);
        Some (True, it\<lparr>it_val := x, it_ridx := back_one (it_ring it) (it_ridx it)\<rparr>) }
      else Some (False, it))"

section \<open>FIFO and LIFO\<close>

definition z_fifo_init :: "'a option pool \<Rightarrow> nat \<Rightarrow> 'a z_ring" where
  "z_fifo_init mal capacity = z_ring_init mal capacity"

definition z_fifo_make :: "'a option pool \<Rightarrow> nat \<Rightarrow> 'a z_ring" where
  "z_fifo_make mal capacity = z_fifo_init mal capacity"

definition z_fifo_capacity :: "'a z_ring \<Rightarrow> nat" where "z_fifo_capacity r = z_ring_capacity r"
definition z_fifo_len :: "'a z_ring \<Rightarrow> nat" where "z_fifo_len r = z_ring_len r"
definition z_fifo_is_empty :: "'a z_ring \<Rightarrow> bool" where "z_fifo_is_empty r = z_ring_is_empty r"
definition z_fifo_is_full :: "'a z_ring \<Rightarrow> bool" where "z_fifo_is_full r \<longleftrightarrow> z_fifo_len r = z_fifo_capacity r"
definition z_fifo_push :: "'a z_ring \<Rightarrow> 'a option \<Rightarrow> ('a option \<times> 'a z_ring) option" where
  "z_fifo_push r e = z_ring_push r e"
definition z_fifo_pull :: "'a z_ring \<Rightarrow> ('a option \<times> 'a z_ring) option" where "z_fifo_pull r = z_ring_pull r"

definition z_fifo_push_drop :: "('a \<Rightarrow> 'h \<Rightarrow> 'h) \<Rightarrow> 'a z_ring \<Rightarrow> 'a option \<Rightarrow> 'h \<Rightarrow> ('a z_ring \<times> 'h) option" where
  "z_fifo_push_drop free_f r e h = do {
     (ret, r1) \<leftarrow> z_fifo_push r e;
     Some (r1, case ret of Some x \<Rightarrow> free_f x h | None \<Rightarrow> h) }"

definition z_fifo_clear :: "('a \<Rightarrow> 'h \<Rightarrow> 'h) \<Rightarrow> 'a z_ring \<Rightarrow> 'h \<Rightarrow> ('a z_ring \<times> 'h) option" where
  "z_fifo_clear free_f r h = z_ring_clear free_f r h"

definition z_fifo_free :: "('a \<Rightarrow> 'h \<Rightarrow> 'h) \<Rightarrow> 'a z_ring option \<Rightarrow> 'h \<Rightarrow> ('a z_ring option \<times> 'h) option" where
  "z_fifo_free free_f p h =
     (case p of None \<Rightarrow> Some (None, h)
      | Some r \<Rightarrow> do { (r1, h1) \<leftarrow> z_fifo_clear free_f r h; Some (None, h1) })"

record 'a z_lifo =
  l_val :: "'a option list"
  l_capacity :: nat
  l_len :: nat

definition z_lifo_init :: "'a option pool \<Rightarrow> nat \<Rightarrow> 'a z_lifo" where
  "z_lifo_init mal capacity =
     (let r = \<lparr>l_val = [], l_capacity = 0, l_len = 0\<rparr>
      in case (if capacity \<noteq> 0 then mal (size_mul 4 capacity) else None) of
           None \<Rightarrow> r
         | Some b \<Rightarrow> r\<lparr>l_val := clear_bytes capacity b, l_capacity := capacity\<rparr>)"

definition z_lifo_make :: "'a option pool \<Rightarrow> nat \<Rightarrow> 'a z_lifo" where
  "z_lifo_make mal capacity = z_lifo_init mal capacity"

definition z_lifo_capacity :: "'a z_lifo \<Rightarrow> nat" where "z_lifo_capacity r = l_capacity r"
definition z_lifo_len :: "'a z_lifo \<Rightarrow> nat" where "z_lifo_len r = l_len r"
definition z_lifo_is_empty :: "'a z_lifo \<Rightarrow> bool" where "z_lifo_is_empty r \<longleftrightarrow> l_len r = 0"
definition z_lifo_is_full :: "'a z_lifo \<Rightarrow> bool" where "z_lifo_is_full r \<longleftrightarrow> l_len r = l_capacity r"

definition z_lifo_push :: "'a z_lifo \<Rightarrow> 'a option \<Rightarrow> ('a option \<times> 'a z_lifo) option" where
  "z_lifo_push r e =
     (if \<not> z_lifo_is_full r then do {
        v \<leftarrow> arr_set (l_val r) (l_len r) e;
        Some (None, r\<lparr>l_val := v, l_len := size_add (l_len r) 1\<rparr>) }
      else Some (e, r))"

definition z_lifo_push_drop :: "('a \<Rightarrow> 'h \<Rightarrow> 'h) \<Rightarrow> 'a z_lifo \<Rightarrow> 'a option \<Rightarrow> 'h \<Rightarrow> ('a z_lifo \<times> 'h) option" where
  "z_lifo_push_drop free_f r e h = do {
     (ret, r1) \<leftarrow> z_lifo_push r e;
     Some (r1, case ret of Some x \<Rightarrow> free_f x h | None \<Rightarrow> h) }"

definition z_lifo_pull :: "'a z_lifo \<Rightarrow> ('a option \<times> 'a z_lifo) option" where
  "z_lifo_pull r =
     (if \<not> z_lifo_is_empty r then do {
        let n = l_len r - 1;
        ret \<leftarrow> arr_get (l_val r) n;
        Some (ret, r\<lparr>l_len := n\<rparr>) }
      else Some (None, r))"

partial_function (option) lifo_drain :: "('a \<Rightarrow> 'h \<Rightarrow> 'h) \<Rightarrow> 'a z_lifo \<Rightarrow> 'h \<Rightarrow> ('a z_lifo \<times> 'h) option" where
  "lifo_drain free_f r h = do {
     (e, r1) \<leftarrow> z_lifo_pull r;
     (case e of None \<Rightarrow> Some (r1, h) | Some x \<Rightarrow> lifo_drain free_f r1 (free_f x h)) }"

definition z_lifo_clear :: "('a \<Rightarrow> 'h \<Rightarrow> 'h) \<Rightarrow> 'a z_lifo \<Rightarrow> 'h \<Rightarrow> ('a z_lifo \<times> 'h) option" where
  "z_lifo_clear free_f r h = do {
     (r1, h1) \<leftarrow> lifo_drain free_f r h;
     Some (r1\<lparr>l_val := [], l_capacity := 0, l_len := 0\<rparr>, h1) }"

definition z_lifo_free :: "('a \<Rightarrow> 'h \<Rightarrow> 'h) \<Rightarrow> 'a z_lifo option \<Rightarrow> 'h \<Rightarrow> ('a z_lifo option \<times> 'h) option" where
  "z_lifo_free free_f p h =
     (case p of None \<Rightarrow> Some (None, h)
      | Some r \<Rightarrow> do { (r1, h1) \<leftarrow> z_lifo_clear free_f r h; Some (None, h1) })"

section \<open>The ring is a queue\<close>

definition ring_slots :: "'a z_ring \<Rightarrow> 'a option list" where
  "ring_slots r = ring_view (r_capacity r) (r_ridx r) (z_ring_len r) (r_val r)"

definition ring_items :: "'a z_ring \<Rightarrow> 'a list" where
  "ring_items r = map the (ring_slots r)"

definition ring_ok :: "'a z_ring \<Rightarrow> bool" where
  "ring_ok r \<longleftrightarrow> 0 < r_capacity r \<and> r_capacity r \<le> SIZE_MAX \<and> length (r_val r) = r_capacity r \<and>
     r_ridx r < r_capacity r \<and> r_widx r < r_capacity r \<and> None \<notin> set (ring_slots r)"

lemma ring_len_eq:
  assumes "r_capacity r \<le> SIZE_MAX" "r_ridx r < r_capacity r" "r_widx r < r_capacity r"
  shows "z_ring_len r < r_capacity r" "r_widx r = (r_ridx r + z_ring_len r) mod r_capacity r"
proof -
  have e: "z_ring_len r = (if r_ridx r \<le> r_widx r then r_widx r - r_ridx r
      else r_widx r + (r_capacity r - r_ridx r))"
    using assms by (auto simp: z_ring_len_def size_add_def size_sub_def SIZE_MAX_def)
  show "z_ring_len r < r_capacity r" using assms by (auto simp: e)
  show "r_widx r = (r_ridx r + z_ring_len r) mod r_capacity r" using assms by (auto simp: e)
qed

lemma ring_ok_len: "ring_ok r \<Longrightarrow> z_ring_len r < r_capacity r"
  by (simp add: ring_ok_def ring_len_eq(1))

lemma ring_len_unique:
  assumes "r_capacity r \<le> SIZE_MAX" "r_ridx r < r_capacity r" "n < r_capacity r"
    and "r_widx r = (r_ridx r + n) mod r_capacity r"
  shows "z_ring_len r = n"
proof -
  have "r_widx r < r_capacity r" using assms(2,4) by simp
  note l = ring_len_eq [OF assms(1,2) this]
  show ?thesis by (rule ring_slot_inj [OF l(1) assms(3), of "r_ridx r"]) (use l(2) assms(4) in simp)
qed

lemma length_ring_slots [simp]: "length (ring_slots r) = z_ring_len r"
  by (simp add: ring_slots_def)

lemma length_ring_items [simp]: "length (ring_items r) = z_ring_len r"
  by (simp add: ring_items_def)

lemma z_ring_capacity_eq [simp]: "ring_ok r \<Longrightarrow> z_ring_capacity r = r_capacity r - 1"
  by (simp add: z_ring_capacity_def ring_ok_def)

lemma ring_full_iff: "ring_ok r \<Longrightarrow> z_ring_is_full r \<longleftrightarrow> length (ring_items r) = r_capacity r - 1"
  by (simp add: z_ring_is_full_def)

lemma ring_empty_iff: "ring_ok r \<Longrightarrow> z_ring_is_empty r \<longleftrightarrow> ring_items r = []"
proof -
  assume ok: "ring_ok r"
  have "r_widx r = r_ridx r \<longleftrightarrow> z_ring_len r = 0"
  proof
    assume "r_widx r = r_ridx r"
    then show "z_ring_len r = 0" by (simp add: z_ring_len_def)
  next
    assume "z_ring_len r = 0"
    then show "r_widx r = r_ridx r" using ok ring_len_eq(2) [of r] by (simp add: ring_ok_def)
  qed
  then show ?thesis by (simp add: z_ring_is_empty_def flip: length_0_conv)
qed

lemma ring_push_room:
  assumes ok: "ring_ok r" and room: "length (ring_items r) < r_capacity r - 1"
  shows "\<exists>r'. z_ring_push r (Some x) = Some (None, r') \<and> ring_ok r' \<and> r_capacity r' = r_capacity r \<and>
    ring_items r' = ring_items r @ [x]"
proof -
  let ?c = "r_capacity r" and ?n = "z_ring_len r"
  let ?r = "r\<lparr>r_val := (r_val r)[r_widx r := Some x], r_widx := (r_widx r + 1) mod ?c\<rparr>"
  have o: "0 < ?c" "?c \<le> SIZE_MAX" "length (r_val r) = ?c" "r_ridx r < ?c" "r_widx r < ?c"
    "None \<notin> set (ring_slots r)" using ok by (simp_all add: ring_ok_def)
  note l = ring_len_eq [OF o(2,4,5)]
  have n: "?n < ?c - 1" using room by simp
  have p: "z_ring_push r (Some x) = Some (None, ?r)"
    using room ok o by (simp add: z_ring_push_def ring_full_iff c_mod_def)
  have len: "z_ring_len ?r = Suc ?n"
  proof (rule ring_len_unique)
    show "r_widx ?r = (r_ridx ?r + Suc ?n) mod r_capacity ?r" using l(2) by (simp add: mod_simps)
  qed (use o n in simp_all)
  have sl: "ring_slots ?r = ring_slots r @ [Some x]"
    unfolding ring_slots_def len using l n o by (simp add: ring_view_grow)
  have "ring_ok ?r" using o sl by (simp add: ring_ok_def)
  then show ?thesis using p sl by (simp add: ring_items_def)
qed

lemma ring_push_full:
  "ring_ok r \<Longrightarrow> length (ring_items r) = r_capacity r - 1 \<Longrightarrow> z_ring_push r e = Some (e, r)"
  by (simp add: z_ring_push_def ring_full_iff)

lemma ring_pull_empty: "ring_ok r \<Longrightarrow> ring_items r = [] \<Longrightarrow> z_ring_pull r = Some (None, r)"
  by (simp add: z_ring_pull_def ring_empty_iff)

lemma ring_pull_some:
  assumes ok: "ring_ok r" and i: "ring_items r = x # xs"
  shows "\<exists>r'. z_ring_pull r = Some (Some x, r') \<and> ring_ok r' \<and> r_capacity r' = r_capacity r \<and> ring_items r' = xs"
proof -
  let ?c = "r_capacity r" and ?n = "z_ring_len r"
  let ?r = "r\<lparr>r_val := (r_val r)[r_ridx r := None], r_ridx := (r_ridx r + 1) mod ?c\<rparr>"
  have o: "0 < ?c" "?c \<le> SIZE_MAX" "length (r_val r) = ?c" "r_ridx r < ?c" "r_widx r < ?c"
    "None \<notin> set (ring_slots r)" using ok by (simp_all add: ring_ok_def)
  note l = ring_len_eq [OF o(2,4,5)]
  obtain m where n: "?n = Suc m" using i length_ring_items [of r] by (cases ?n) auto
  have sl: "ring_slots r = r_val r ! r_ridx r # ring_view ?c ((r_ridx r + 1) mod ?c) m (r_val r)"
    using o by (simp add: ring_slots_def ring_view_def n upt_conv_Cons map_Suc_upt [symmetric] mod_simps del: upt_Suc)
  have h: "r_val r ! r_ridx r = Some x"
    using i o(6) by (cases "r_val r ! r_ridx r") (simp_all add: ring_items_def sl)
  have p: "z_ring_pull r = Some (Some x, ?r)"
    using i ok o h by (simp add: z_ring_pull_def ring_empty_iff c_mod_def)
  have len: "z_ring_len ?r = m"
  proof (rule ring_len_unique)
    show "r_widx ?r = (r_ridx ?r + m) mod r_capacity ?r" using l(2) n by (simp add: mod_simps)
  qed (use o n l in simp_all)
  have "ring_view ?c ((r_ridx r + 1) mod ?c) m ((r_val r)[r_ridx r := None]) =
      ring_view ?c ((r_ridx r + 1) mod ?c) m (r_val r)"
  proof -
    have "r_ridx r \<noteq> (r_ridx r + 1 + k) mod ?c" if "k < m" for k
      using ring_slot_inj [of "Suc k" ?c 0 "r_ridx r"] that n l(1) o by auto
    then show ?thesis by (simp add: ring_view_def mod_simps)
  qed
  then have sl': "ring_slots ?r = ring_view ?c ((r_ridx r + 1) mod ?c) m (r_val r)"
    unfolding ring_slots_def len by simp
  have "ring_ok ?r" using o sl sl' by (simp add: ring_ok_def)
  then show ?thesis using p sl sl' i by (simp add: ring_items_def)
qed

interpretation ring_store: bounded_store ring_ok ring_items "\<lambda>r. r_capacity r - 1"
  "\<lambda>r x. z_ring_push r (Some x)" z_ring_pull "\<lambda>x xs. xs @ [x]"
proof
  fix r :: "'a z_ring"
  show "ring_ok r \<Longrightarrow> length (ring_items r) \<le> r_capacity r - 1" using ring_ok_len [of r] by simp
qed (use ring_push_room ring_push_full ring_pull_empty ring_pull_some in \<open>metis+\<close>)

subsection \<open>Emptying it\<close>

lemma ring_drain_items:
  "ring_ok r \<Longrightarrow> \<exists>r'. ring_drain free_f r h = Some (r', fold free_f (ring_items r) h)"
proof (induction "ring_items r" arbitrary: r h)
  case Nil
  then show ?case by (simp add: ring_drain.simps [of free_f r] ring_pull_empty)
next
  case (Cons x xs)
  obtain r1 where r1: "z_ring_pull r = Some (Some x, r1)" "ring_ok r1" "ring_items r1 = xs"
    using ring_pull_some [OF Cons.prems Cons.hyps(2) [symmetric]] by blast
  obtain r' where "ring_drain free_f r1 (free_f x h) = Some (r', fold free_f xs (free_f x h))"
    using Cons.hyps(1) [OF r1(3) [symmetric] r1(2)] r1(3) by metis
  then show ?case by (simp add: ring_drain.simps [of free_f r] r1(1) flip: Cons.hyps(2))
qed

subsection \<open>Overwriting the oldest\<close>

lemma ring_push_force_spec:
  assumes ok: "ring_ok r" and cap: "1 < r_capacity r"
  shows "\<exists>r'. z_ring_push_force r (Some x) =
      Some (if length (ring_items r) < r_capacity r - 1 then None else Some (hd (ring_items r)), r') \<and>
    ring_ok r' \<and> r_capacity r' = r_capacity r \<and>
    ring_items r' = (if length (ring_items r) < r_capacity r - 1 then ring_items r else tl (ring_items r)) @ [x]"
proof (cases "length (ring_items r) < r_capacity r - 1")
  case True
  then obtain r1 where "z_ring_push r (Some x) = Some (None, r1)" "ring_ok r1" "r_capacity r1 = r_capacity r"
    "ring_items r1 = ring_items r @ [x]" using ring_push_room [OF ok True] by blast
  then show ?thesis using True by (simp add: z_ring_push_force_def)
next
  case False
  then have full: "length (ring_items r) = r_capacity r - 1" using ring_ok_len [OF ok] by simp
  then obtain y ys where ys: "ring_items r = y # ys" using cap by (cases "ring_items r") auto
  obtain r1 where r1: "z_ring_pull r = Some (Some y, r1)" "ring_ok r1" "r_capacity r1 = r_capacity r"
    "ring_items r1 = ys" using ring_pull_some [OF ok ys] by blast
  have "length (ring_items r1) < r_capacity r1 - 1" using full cap ys r1 by simp
  from ring_push_room [OF r1(2) this] obtain r2 where "z_ring_push r1 (Some x) = Some (None, r2)" "ring_ok r2"
    "r_capacity r2 = r_capacity r1" "ring_items r2 = ys @ [x]" using r1(4) by blast
  then show ?thesis
    using False ring_push_full [OF ok full] r1 ys by (simp add: z_ring_push_force_def)
qed

interpretation ring_recent: recency ring_items "\<lambda>x r. snd (the (z_ring_push_force r (Some x)))"
  "\<lambda>r. ring_ok r \<and> r_capacity r = Suc (Suc n)" "Suc n" for n
proof
  fix r :: "'a z_ring" and x
  assume w: "ring_ok r \<and> r_capacity r = Suc (Suc n)"
  then obtain r' where r': "snd (the (z_ring_push_force r (Some x))) = r'" "ring_ok r'" "r_capacity r' = r_capacity r"
    "ring_items r' = (if length (ring_items r) < r_capacity r - 1 then ring_items r else tl (ring_items r)) @ [x]"
    using ring_push_force_spec [of r x] by auto
  then show "ring_ok (snd (the (z_ring_push_force r (Some x)))) \<and>
      r_capacity (snd (the (z_ring_push_force r (Some x)))) = Suc (Suc n)"
    "ring_items (snd (the (z_ring_push_force r (Some x)))) =
      (if length (ring_items r) < Suc n then ring_items r else tl (ring_items r)) @ [x]"
    using w by simp_all
  show "length (ring_items r) \<le> Suc n" using ring_ok_len [of r] w by simp
qed simp

subsection \<open>Making it\<close>

lemma length_clear_bytes [simp]: "n div 4 \<le> length b \<Longrightarrow> length (clear_bytes n b) = length b"
  by (simp add: clear_bytes_def)

lemma ring_make_ok:
  assumes "pool_ok 4 mal" "mal (4 * (n + 1)) = Some b" "4 * (n + 1) \<le> SIZE_MAX"
  shows "ring_ok (z_ring_make mal n) \<and> r_capacity (z_ring_make mal n) = n + 1 \<and> ring_items (z_ring_make mal n) = []"
proof -
  have "length b = n + 1" using assms(1,2) by (auto simp: pool_ok_def)
  then show ?thesis
    using assms(2,3) by (simp add: z_ring_make_def z_ring_init_def Let_def ring_ok_def ring_items_def ring_slots_def
        z_ring_len_def ring_view_def)
qed

subsection \<open>Iterators\<close>

text \<open>The values that repeated calls of an iterator deliver, at most \<open>k\<close>.\<close>

primrec iterate ::
  "('a z_ring_iterator \<Rightarrow> (bool \<times> 'a z_ring_iterator) option) \<Rightarrow> nat \<Rightarrow> 'a z_ring_iterator \<Rightarrow> 'a option list option" where
  "iterate nxt 0 it = Some []"
| "iterate nxt (Suc k) it = do {
     (more, it1) \<leftarrow> nxt it;
     if more then do { xs \<leftarrow> iterate nxt k it1; Some (it_val it1 # xs) } else Some [] }"

lemma iterate_forward:
  assumes ok: "ring_ok (it_ring it)" and "it_widx it < r_capacity (it_ring it)"
    and "it_widx it = (it_ridx it + n) mod r_capacity (it_ring it)" "it_ridx it < r_capacity (it_ring it)"
    and "n < r_capacity (it_ring it)"
  shows "iterate z_ring_iterator_next (Suc n) it =
    Some (ring_view (r_capacity (it_ring it)) (it_ridx it) n (r_val (it_ring it)))"
  using assms
proof (induction n arbitrary: it)
  case 0
  then show ?case by (simp add: z_ring_iterator_next_def ring_view_def)
next
  case (Suc n)
  let ?r = "it_ring it" and ?i = "it_ridx it"
  let ?it = "it\<lparr>it_val := r_val ?r ! ?i, it_ridx := (?i + 1) mod r_capacity ?r\<rparr>"
  have o: "length (r_val ?r) = r_capacity ?r" "r_capacity ?r \<le> SIZE_MAX" "0 < r_capacity ?r"
    using Suc.prems(1) by (simp_all add: ring_ok_def)
  have "?i \<noteq> it_widx it" using ring_slot_inj [of "Suc n" "r_capacity ?r" 0 ?i] Suc.prems by auto
  then have step: "z_ring_iterator_next it = Some (True, ?it)"
    using Suc.prems(4) o by (simp add: z_ring_iterator_next_def c_mod_def)
  have "iterate z_ring_iterator_next (Suc n) ?it =
      Some (ring_view (r_capacity ?r) ((?i + 1) mod r_capacity ?r) n (r_val ?r))"
    using Suc.IH [of ?it] Suc.prems o by (simp add: mod_simps)
  moreover have "ring_view (r_capacity ?r) ?i (Suc n) (r_val ?r) =
      r_val ?r ! ?i # ring_view (r_capacity ?r) ((?i + 1) mod r_capacity ?r) n (r_val ?r)"
    using Suc.prems(4) by (simp add: ring_view_def upt_conv_Cons map_Suc_upt [symmetric] mod_simps del: upt_Suc)
  ultimately show ?case by (subst iterate.simps) (simp add: step del: iterate.simps)
qed

lemma back_one_eq: "ring_ok r \<Longrightarrow> i < r_capacity r \<Longrightarrow> back_one r i = (i + (r_capacity r - 1)) mod r_capacity r"
  by (auto simp: back_one_def ring_ok_def mod_if)

lemma iterate_backward:
  assumes ok: "ring_ok (it_ring it)"
    and "it_widx it = (s + (r_capacity (it_ring it) - 1)) mod r_capacity (it_ring it)"
    and "it_ridx it = (s + n + (r_capacity (it_ring it) - 1)) mod r_capacity (it_ring it)"
    and "n < r_capacity (it_ring it)"
  shows "iterate z_ring_reverse_iterator_next (Suc n) it =
    Some (rev (ring_view (r_capacity (it_ring it)) s n (r_val (it_ring it))))"
  using assms
proof (induction n arbitrary: it)
  case 0
  then show ?case by (simp add: z_ring_reverse_iterator_next_def ring_view_def)
next
  case (Suc n)
  let ?r = "it_ring it" and ?i = "it_ridx it"
  let ?c = "r_capacity ?r"
  let ?it = "it\<lparr>it_val := r_val ?r ! ?i, it_ridx := back_one ?r ?i\<rparr>"
  have o: "length (r_val ?r) = ?c" "?c \<le> SIZE_MAX" "0 < ?c"
    using Suc.prems(1) by (simp_all add: ring_ok_def)
  have i: "?i < ?c" using Suc.prems(3) o by simp
  have i': "?i = (s + n) mod ?c" 
  proof -
    have "s + Suc n + (?c - 1) = s + n + ?c" using o(3) by simp
    then show ?thesis using Suc.prems(3) by simp
  qed
  have "(s + (?c - 1) + Suc n) mod ?c \<noteq> (s + (?c - 1)) mod ?c"
    using ring_slot_inj [of "Suc n" ?c 0 "s + (?c - 1)"] Suc.prems(4) by auto
  then have ne: "?i \<noteq> it_widx it" using Suc.prems(2,3) by (simp add: ac_simps)
  have step: "z_ring_reverse_iterator_next it = Some (True, ?it)"
    using ne i o by (simp add: z_ring_reverse_iterator_next_def)
  have "it_ridx ?it = (s + n + (?c - 1)) mod ?c"
    using back_one_eq [OF Suc.prems(1) i] i' by (simp add: mod_simps)
  then have "iterate z_ring_reverse_iterator_next (Suc n) ?it = Some (rev (ring_view ?c s n (r_val ?r)))"
    using Suc.IH [of ?it] Suc.prems by simp
  moreover have "rev (ring_view ?c s (Suc n) (r_val ?r)) = r_val ?r ! ?i # rev (ring_view ?c s n (r_val ?r))"
    by (simp add: ring_view_def i')
  ultimately show ?case by (subst iterate.simps) (simp add: step del: iterate.simps)
qed

lemma ring_slots_items: "ring_ok r \<Longrightarrow> ring_slots r = map Some (ring_items r)"
  by (auto simp: ring_ok_def ring_items_def not_None_eq intro!: map_idI [symmetric]) (metis option.collapse)

text \<open>The iterators deliver the items in both directions.\<close>

lemma iterate_ring:
  assumes ok: "ring_ok r"
  shows "iterate z_ring_iterator_next (Suc (length (ring_items r))) (z_ring_iterator_make r) = Some (map Some (ring_items r))"
    "iterate z_ring_reverse_iterator_next (Suc (length (ring_items r))) (z_ring_reverse_iterator_make r) =
      Some (rev (map Some (ring_items r)))"
proof -
  have o: "r_capacity r \<le> SIZE_MAX" "r_ridx r < r_capacity r" "r_widx r < r_capacity r"
    using ok by (simp_all add: ring_ok_def)
  note l = ring_len_eq [OF o]
  show "iterate z_ring_iterator_next (Suc (length (ring_items r))) (z_ring_iterator_make r) = Some (map Some (ring_items r))"
    using iterate_forward [of "z_ring_iterator_make r" "z_ring_len r"] ok o l
    by (simp add: z_ring_iterator_make_def ring_slots_def flip: ring_slots_items del: iterate.simps)
  have "back_one r (r_ridx r) = (r_ridx r + (r_capacity r - 1)) mod r_capacity r"
    "back_one r (r_widx r) = (r_ridx r + z_ring_len r + (r_capacity r - 1)) mod r_capacity r"
    using back_one_eq [OF ok o(2)] back_one_eq [OF ok o(3)] l(2) by (simp_all add: mod_simps)
  then show "iterate z_ring_reverse_iterator_next (Suc (length (ring_items r))) (z_ring_reverse_iterator_make r) =
      Some (rev (map Some (ring_items r)))"
    using iterate_backward [of "z_ring_reverse_iterator_make r" "r_ridx r" "z_ring_len r"] ok l(1)
    by (simp add: z_ring_reverse_iterator_make_def ring_slots_def flip: ring_slots_items del: iterate.simps)
qed

section \<open>The LIFO is a stack\<close>

definition lifo_items :: "'a z_lifo \<Rightarrow> 'a list" where
  "lifo_items r = rev (map the (take (l_len r) (l_val r)))"

definition lifo_ok :: "'a z_lifo \<Rightarrow> bool" where
  "lifo_ok r \<longleftrightarrow> l_len r \<le> l_capacity r \<and> l_capacity r \<le> SIZE_MAX \<and> length (l_val r) = l_capacity r \<and>
     None \<notin> set (take (l_len r) (l_val r))"

lemma length_lifo_items: "lifo_ok r \<Longrightarrow> length (lifo_items r) = l_len r"
  by (simp add: lifo_ok_def lifo_items_def)

lemma lifo_push_room:
  assumes ok: "lifo_ok r" and room: "length (lifo_items r) < l_capacity r"
  shows "\<exists>r'. z_lifo_push r (Some x) = Some (None, r') \<and> lifo_ok r' \<and> l_capacity r' = l_capacity r \<and>
    lifo_items r' = x # lifo_items r"
  using assms by (auto simp: z_lifo_push_def z_lifo_is_full_def lifo_ok_def lifo_items_def take_Suc_conv_app_nth)

lemma lifo_pull_some:
  assumes ok: "lifo_ok r" and i: "lifo_items r = x # xs"
  shows "\<exists>r'. z_lifo_pull r = Some (Some x, r') \<and> lifo_ok r' \<and> l_capacity r' = l_capacity r \<and> lifo_items r' = xs"
proof -
  obtain m where m: "l_len r = Suc m" using length_lifo_items [OF ok] i by (cases "l_len r") auto
  then have t: "take (l_len r) (l_val r) = take m (l_val r) @ [l_val r ! m]"
    using ok by (simp add: lifo_ok_def take_Suc_conv_app_nth)
  have "l_val r ! m = Some x"
    using i ok t by (cases "l_val r ! m") (simp_all add: lifo_items_def lifo_ok_def)
  then show ?thesis
    using m ok t i by (simp add: z_lifo_pull_def z_lifo_is_empty_def lifo_ok_def lifo_items_def)
qed

interpretation lifo_store: bounded_store lifo_ok lifo_items l_capacity
  "\<lambda>r x. z_lifo_push r (Some x)" z_lifo_pull Cons
proof
  fix r :: "'a z_lifo" and x
  assume ok: "lifo_ok r"
  show "length (lifo_items r) \<le> l_capacity r" using length_lifo_items [OF ok] ok by (simp add: lifo_ok_def)
  show "length (lifo_items r) = l_capacity r \<Longrightarrow> z_lifo_push r (Some x) = Some (Some x, r)"
    using length_lifo_items [OF ok] by (simp add: z_lifo_push_def z_lifo_is_full_def)
  show "lifo_items r = [] \<Longrightarrow> z_lifo_pull r = Some (None, r)"
    using length_lifo_items [OF ok] by (simp add: z_lifo_pull_def z_lifo_is_empty_def)
qed (use lifo_push_room lifo_pull_some in \<open>metis+\<close>)

lemma lifo_make_ok:
  assumes "pool_ok 4 mal" "4 * n \<le> SIZE_MAX"
  shows "lifo_ok (z_lifo_make mal n) \<and> lifo_items (z_lifo_make mal n) = [] \<and>
    l_capacity (z_lifo_make mal n) = (if mal (4 * n) = None then 0 else n)"
proof (cases "mal (4 * n)")
  case None
  then show ?thesis using assms by (simp add: z_lifo_make_def z_lifo_init_def lifo_ok_def lifo_items_def)
next
  case (Some b)
  then have "length b = n" using assms(1) by (auto simp: pool_ok_def)
  then show ?thesis using Some assms(2)
    by (auto simp: z_lifo_make_def z_lifo_init_def lifo_ok_def lifo_items_def)
qed

lemma lifo_drain_items:
  "lifo_ok r \<Longrightarrow> \<exists>r'. lifo_drain free_f r h = Some (r', fold free_f (lifo_items r) h)"
proof (induction "lifo_items r" arbitrary: r h)
  case Nil
  then show ?case by (simp add: lifo_drain.simps [of free_f r] lifo_store.pull_empty)
next
  case (Cons x xs)
  obtain r1 where r1: "z_lifo_pull r = Some (Some x, r1)" "lifo_ok r1" "lifo_items r1 = xs"
    using lifo_pull_some [OF Cons.prems Cons.hyps(2) [symmetric]] by blast
  obtain r' where "lifo_drain free_f r1 (free_f x h) = Some (r', fold free_f xs (free_f x h))"
    using Cons.hyps(1) [OF r1(3) [symmetric] r1(2)] r1(3) by metis
  then show ?case by (simp add: lifo_drain.simps [of free_f r] r1(1) flip: Cons.hyps(2))
qed

section \<open>The properties\<close>

text \<open>
  C36: a FIFO made for \<open>n\<close> elements answers every sequence of pushes and pulls as a list of at most
  \<open>n\<close> elements does: an element pushed onto a full FIFO comes back, the others come out in the order
  they went in, nothing is undefined.
\<close>

theorem fifo_refines_list:
  assumes "pool_ok 4 mal" "mal (4 * (n + 1)) = Some b" "4 * (n + 1) \<le> SIZE_MAX"
  shows "\<exists>r. store_run (\<lambda>r x. z_fifo_push r (Some x)) z_fifo_pull (z_fifo_make mal n) ops =
    Some (fst (spec_run (\<lambda>x xs. xs @ [x]) n [] ops), r)"
proof -
  note ok = ring_make_ok [OF assms]
  have e: "z_fifo_make mal n = z_ring_make mal n" "z_fifo_pull = z_ring_pull" "z_fifo_push = z_ring_push"
    by (simp_all add: fun_eq_iff z_fifo_make_def z_fifo_init_def z_ring_make_def z_fifo_push_def z_fifo_pull_def)
  show ?thesis unfolding e using ring_store.run_refines [of "z_ring_make mal n" ops] ok by auto
qed

definition fixed_pool :: "nat \<Rightarrow> nat option pool" where
  "fixed_pool k n = (if n div 4 \<le> k then Some (replicate (n div 4) (Some 77)) else None)"

lemma fixed_pool_ok: "pool_ok 4 (fixed_pool k)"
  by (auto simp: pool_ok_def fixed_pool_def split: if_splits)

theorem fifo_refines_list_witness:
  "\<exists>r. store_run (\<lambda>r x. z_fifo_push r (Some x)) z_fifo_pull (z_fifo_make (fixed_pool 9) 2)
      [Push 1, Push 2, Push 3, Pull, Push 4, Pull, Pull, Pull] =
    Some ([None, None, Some 3, Some 1, None, Some 2, Some 4, None], r)"
  using fifo_refines_list [OF fixed_pool_ok, of 9 2 "replicate 3 (Some 77)"
      "[Push 1, Push 2, Push 3, Pull, Push 4, Pull, Pull, Pull]"]
  by (simp add: fixed_pool_def SIZE_MAX_def)

text \<open>C0: a LIFO answers every sequence of pushes and pulls as a bounded stack does.\<close>

theorem lifo_refines_list:
  assumes "pool_ok 4 mal" "4 * n \<le> SIZE_MAX"
  shows "\<exists>r. store_run (\<lambda>r x. z_lifo_push r (Some x)) z_lifo_pull (z_lifo_make mal n) ops =
    Some (fst (spec_run Cons (if mal (4 * n) = None then 0 else n) [] ops), r)"
proof -
  have "lifo_ok (z_lifo_make mal n)" "lifo_items (z_lifo_make mal n) = []"
    "l_capacity (z_lifo_make mal n) = (if mal (4 * n) = None then 0 else n)"
    using lifo_make_ok [OF assms] by auto
  then show ?thesis using lifo_store.run_refines [of "z_lifo_make mal n" ops] by auto
qed

theorem lifo_refines_list_witness:
  "(\<exists>r. store_run (\<lambda>r x. z_lifo_push r (Some x)) z_lifo_pull (z_lifo_make (fixed_pool 9) 2)
      [Push 1, Push 2, Push 3, Pull, Pull, Pull] = Some ([None, None, Some 3, Some 2, Some 1, None], r)) \<and>
   (\<exists>r. store_run (\<lambda>r x. z_lifo_push r (Some x)) z_lifo_pull (z_lifo_make (fixed_pool 1) 2) [Push 1, Pull] =
      Some ([Some 1, None], r))"
  using lifo_refines_list [OF fixed_pool_ok, of 2 9 "[Push 1, Push 2, Push 3, Pull, Pull, Pull]"]
    lifo_refines_list [OF fixed_pool_ok, of 2 1 "[Push 1, Pull]"]
  by (simp add: fixed_pool_def SIZE_MAX_def)

text \<open>
  A ring that is pushed with force keeps the last \<open>n\<close> elements in order, the forward iterator
  delivers them oldest first and the reverse one newest first.
\<close>

theorem ring_keeps_last:
  assumes "pool_ok 4 mal" "mal (4 * (Suc n + 1)) = Some b" "4 * (Suc n + 1) \<le> SIZE_MAX"
    and r: "r = fold (\<lambda>x r. snd (the (z_ring_push_force r (Some x)))) xs (z_ring_make mal (Suc n))"
  shows "let last = drop (length xs - Suc n) xs in
    iterate z_ring_iterator_next (Suc (length last)) (z_ring_iterator_make r) = Some (map Some last) \<and>
    iterate z_ring_reverse_iterator_next (Suc (length last)) (z_ring_reverse_iterator_make r) =
      Some (rev (map Some last))"
proof -
  have 0: "ring_ok (z_ring_make mal (Suc n)) \<and> r_capacity (z_ring_make mal (Suc n)) = Suc (Suc n)"
    "ring_items (z_ring_make mal (Suc n)) = []" using ring_make_ok [OF assms(1-3)] by simp_all
  have ok: "ring_ok r" using ring_recent.wf_pushes [OF 0(1)] unfolding r by blast
  have i: "ring_items r = drop (length xs - Suc n) xs"
    unfolding r by (subst ring_recent.contents_pushes [OF 0(1)]) (simp add: 0(2))
  show ?thesis
    unfolding Let_def by (simp only: iterate_ring [OF ok] flip: i)
qed

definition pushed_ring :: "nat z_ring" where
  "pushed_ring = fold (\<lambda>x r. snd (the (z_ring_push_force r (Some x)))) [1, 2, 3, 4] (z_ring_make (fixed_pool 9) (Suc 1))"

theorem ring_keeps_last_witness:
  "iterate z_ring_iterator_next 3 (z_ring_iterator_make pushed_ring) = Some [Some 3, Some 4] \<and>
    iterate z_ring_reverse_iterator_next 3 (z_ring_reverse_iterator_make pushed_ring) = Some [Some 4, Some 3]"
  using ring_keeps_last [OF fixed_pool_ok _ _ pushed_ring_def]
  by (simp add: fixed_pool_def SIZE_MAX_def numeral_3_eq_3 del: iterate.simps)

text \<open>
  Clearing a FIFO ends and frees every element once, oldest first; a freed FIFO is null.
\<close>

theorem fifo_free_frees_all:
  assumes "ring_ok r"
  shows "z_fifo_free free_f (Some r) h = Some (None, fold free_f (ring_items r) h)"
  using ring_drain_items [OF assms, of free_f h] by (auto simp: z_fifo_free_def z_fifo_clear_def z_ring_clear_def)

theorem fifo_free_frees_all_witness:
  "z_fifo_free (\<lambda>x h. x # h) (Some \<lparr>r_val = [None, Some 5, Some 6], r_capacity = 3, r_len = 0, r_ridx = 1, r_widx = 0\<rparr>) [] =
    Some (None, [6, 5 :: nat])"
  using fifo_free_frees_all [of "\<lparr>r_val = [None, Some 5, Some 6], r_capacity = 3, r_len = 0, r_ridx = 1, r_widx = 0\<rparr>"
      "\<lambda>x h. x # h" "[]"]
  by (simp add: ring_ok_def ring_items_def ring_slots_def z_ring_len_def ring_view_def SIZE_MAX_def size_add_def upt_rec
      nth_Cons')

text \<open>
  When the allocation of a FIFO fails, \<open>z_fifo_init\<close> reports success all the same and the first
  push is undefined: it goes through a null pointer.
\<close>

theorem fifo_unallocated_push:
  "z_fifo_push (z_fifo_make (\<lambda>_. None) n) (Some x) = None"
  by (simp add: z_fifo_push_def z_fifo_make_def z_fifo_init_def z_ring_init_def Let_def z_ring_push_def
      z_ring_is_full_def z_ring_len_def z_ring_capacity_def SIZE_MAX_def)

end
