(* ===== verification/ZVec.thy ===== *)
theory ZVec
  imports ZBase
begin

text \<open>
  The vectors of zenoh-pico, \<open>collections/vec.c\<close>: \<open>z_vec\<close> holds pointers, \<open>z_svec\<close> values of
  \<open>es\<close> bytes each.

  The array of a vector is a list of its capacity, \<open>[]\<close> for no array; the elements beyond the
  length are arbitrary. A null pointer is \<open>None\<close>. \<open>free_f\<close>, \<open>clear_f\<close> and \<open>clone_f\<close> are the
  caller's functions on an element, over the state \<open>'h\<close> of the heap.
\<close>

section \<open>Vectors of pointers\<close>

record 'a z_vec =
  v_capacity :: nat
  v_len :: nat
  v_val :: "'a option list"

definition z_vec_null :: "'a z_vec" where
  "z_vec_null = \<lparr>v_capacity = 0, v_len = 0, v_val = []\<rparr>"

definition z_vec_get :: "'a z_vec \<Rightarrow> nat \<Rightarrow> 'a option option" where
  "z_vec_get v pos = do { assert_c (pos < v_len v); arr_get (v_val v) pos }"

definition z_vec_is_empty :: "'a z_vec \<Rightarrow> bool" where
  "z_vec_is_empty v \<longleftrightarrow> v_len v = 0"

definition z_vec_make :: "('a option, 'h) malloc \<Rightarrow> nat \<Rightarrow> 'h \<Rightarrow> 'a z_vec \<times> 'h" where
  "z_vec_make mal capacity h =
     (if capacity \<noteq> 0 then
        case mal (size_mul 4 capacity) h of
          (Some b, h') \<Rightarrow> (z_vec_null\<lparr>v_val := b, v_capacity := capacity\<rparr>, h')
        | (None, h') \<Rightarrow> (z_vec_null, h')
      else (z_vec_null, h))"

text \<open>The loop of the copy, from index \<open>i\<close> on for \<open>k\<close> elements.\<close>

fun vec_clone_loop ::
  "('a option \<Rightarrow> 'h \<Rightarrow> 'a option \<times> 'h) \<Rightarrow> nat \<Rightarrow> nat \<Rightarrow> 'a option list \<Rightarrow> 'a option list \<Rightarrow> 'h \<Rightarrow>
   ('a option list \<times> 'h) option" where
  "vec_clone_loop clone_f 0 i src dst h = Some (dst, h)"
| "vec_clone_loop clone_f (Suc k) i src dst h = do {
     x \<leftarrow> arr_get src i;
     let (y, h1) = clone_f x h;
     dst1 \<leftarrow> arr_set dst i y;
     vec_clone_loop clone_f k (i + 1) src dst1 h1 }"

definition z_vec_copy ::
  "('a option, 'h) malloc \<Rightarrow> ('a option \<Rightarrow> 'h \<Rightarrow> 'a option \<times> 'h) \<Rightarrow> 'a z_vec \<Rightarrow> 'h \<Rightarrow> ('a z_vec \<times> 'h) option" where
  "z_vec_copy mal clone_f src h =
     (let dst = \<lparr>v_capacity = v_capacity src, v_len = v_len src, v_val = []\<rparr>
      in case mal (size_mul 4 (v_capacity src)) h of
           (None, h1) \<Rightarrow> Some (dst, h1)
         | (Some b, h1) \<Rightarrow> do {
             (val, h2) \<leftarrow> vec_clone_loop clone_f (v_len src) 0 (v_val src) b h1;
             Some (dst\<lparr>v_val := val\<rparr>, h2) })"

text \<open>Results: the destination and the source.\<close>

definition z_vec_move :: "'a z_vec \<Rightarrow> 'a z_vec \<times> 'a z_vec" where
  "z_vec_move src = (src, z_vec_null)"

text \<open>\<open>elem_free\<close> of \<open>element.h\<close>: a destructor leaves alone a null pointer and nulls any other.\<close>

definition elem_free :: "('a \<Rightarrow> 'h \<Rightarrow> 'h) \<Rightarrow> 'a option \<Rightarrow> 'h \<Rightarrow> 'a option \<times> 'h" where
  "elem_free free_f e h = (None, case e of None \<Rightarrow> h | Some x \<Rightarrow> free_f x h)"

fun vec_free_loop :: "('a \<Rightarrow> 'h \<Rightarrow> 'h) \<Rightarrow> nat \<Rightarrow> nat \<Rightarrow> 'a option list \<Rightarrow> 'h \<Rightarrow> ('a option list \<times> 'h) option" where
  "vec_free_loop free_f 0 i val h = Some (val, h)"
| "vec_free_loop free_f (Suc k) i val h = do {
     x \<leftarrow> arr_get val i;
     let (y, h1) = elem_free free_f x h;
     val1 \<leftarrow> arr_set val i y;
     vec_free_loop free_f k (i + 1) val1 h1 }"

definition z_vec_reset :: "('a \<Rightarrow> 'h \<Rightarrow> 'h) \<Rightarrow> 'a z_vec \<Rightarrow> 'h \<Rightarrow> ('a z_vec \<times> 'h) option" where
  "z_vec_reset free_f v h = do {
     (val, h1) \<leftarrow> vec_free_loop free_f (v_len v) 0 (v_val v) h;
     Some (v\<lparr>v_val := val, v_len := 0\<rparr>, h1) }"

definition z_vec_release :: "'a z_vec \<Rightarrow> 'a z_vec" where
  "z_vec_release v = v\<lparr>v_val := [], v_capacity := 0, v_len := 0\<rparr>"

definition z_vec_clear :: "('a \<Rightarrow> 'h \<Rightarrow> 'h) \<Rightarrow> 'a z_vec \<Rightarrow> 'h \<Rightarrow> ('a z_vec \<times> 'h) option" where
  "z_vec_clear free_f v h = do {
     (val, h1) \<leftarrow> vec_free_loop free_f (v_len v) 0 (v_val v) h;
     Some (z_vec_release (v\<lparr>v_val := val\<rparr>), h1) }"

definition z_vec_free :: "('a \<Rightarrow> 'h \<Rightarrow> 'h) \<Rightarrow> 'a z_vec option \<Rightarrow> 'h \<Rightarrow> ('a z_vec option \<times> 'h) option" where
  "z_vec_free free_f p h =
     (case p of None \<Rightarrow> Some (None, h)
      | Some v \<Rightarrow> do { (v1, h1) \<leftarrow> z_vec_clear free_f v h; Some (None, h1) })"

text \<open>\<open>memcpy\<close> of the first \<open>n\<close> elements into a block.\<close>

definition copy_first :: "nat \<Rightarrow> 'b list \<Rightarrow> 'b list \<Rightarrow> 'b list option" where
  "copy_first n src dst = do {
     assert_c (n \<le> length src \<and> n \<le> length dst);
     Some (take n src @ drop n dst) }"

definition z_vec_append :: "('a option, 'h) malloc \<Rightarrow> 'a z_vec \<Rightarrow> 'a option \<Rightarrow> 'h \<Rightarrow> ('a z_vec \<times> 'h) option" where
  "z_vec_append mal v e h =
     (if v_len v = v_capacity v then
        let c = size_add (size_mul 2 (v_capacity v)) 1
        in case mal (size_mul c 4) h of
             (None, h1) \<Rightarrow> Some (v, h1)
           | (Some b, h1) \<Rightarrow> do {
               b1 \<leftarrow> copy_first (v_capacity v) (v_val v) b;
               b2 \<leftarrow> arr_set b1 (v_len v) e;
               Some (v\<lparr>v_val := b2, v_capacity := c, v_len := size_add (v_len v) 1\<rparr>, h1) }
      else do {
        val \<leftarrow> arr_set (v_val v) (v_len v) e;
        Some (v\<lparr>v_val := val, v_len := size_add (v_len v) 1\<rparr>, h) })"

definition z_vec_set :: "('a \<Rightarrow> 'h \<Rightarrow> 'h) \<Rightarrow> 'a z_vec \<Rightarrow> nat \<Rightarrow> 'a option \<Rightarrow> 'h \<Rightarrow> ('a z_vec \<times> 'h) option" where
  "z_vec_set free_f v i e h = do {
     assert_c (i < v_len v);
     x \<leftarrow> arr_get (v_val v) i;
     let h1 = (if x \<noteq> None then snd (elem_free free_f x h) else h);
     val \<leftarrow> arr_set (v_val v) i e;
     Some (v\<lparr>v_val := val\<rparr>, h1) }"

text \<open>The loop of the removal, run \<open>k\<close> times: its body uses \<open>pos\<close>, not the loop variable.\<close>

fun vec_shift_loop :: "nat \<Rightarrow> nat \<Rightarrow> 'a option list \<Rightarrow> 'a option list option" where
  "vec_shift_loop 0 pos val = Some val"
| "vec_shift_loop (Suc k) pos val = do {
     x \<leftarrow> arr_get val (pos + 1);
     val1 \<leftarrow> arr_set val pos x;
     vec_shift_loop k pos val1 }"

definition z_vec_remove :: "('a \<Rightarrow> 'h \<Rightarrow> 'h) \<Rightarrow> 'a z_vec \<Rightarrow> nat \<Rightarrow> 'h \<Rightarrow> ('a z_vec \<times> 'h) option" where
  "z_vec_remove free_f v pos h = do {
     x \<leftarrow> arr_get (v_val v) pos;
     let (y, h1) = elem_free free_f x h;
     val \<leftarrow> arr_set (v_val v) pos y;
     val \<leftarrow> vec_shift_loop (v_len v - pos) pos val;
     val \<leftarrow> arr_set val (v_len v) None;
     Some (v\<lparr>v_val := val, v_len := size_sub (v_len v) 1\<rparr>, h1) }"

section \<open>Vectors of values\<close>

record 'b z_svec =
  sv_capacity :: nat
  sv_len :: nat
  sv_val :: "'b list"
  sv_aliased :: bool

definition z_svec_null :: "'b z_svec" where
  "z_svec_null = \<lparr>sv_capacity = 0, sv_len = 0, sv_val = [], sv_aliased = False\<rparr>"

definition z_svec_alias :: "'b z_svec \<Rightarrow> bool \<Rightarrow> 'b z_svec" where
  "z_svec_alias src ownership =
     \<lparr>sv_capacity = sv_capacity src, sv_len = sv_len src, sv_val = sv_val src, sv_aliased = (\<not> ownership)\<rparr>"

definition z_svec_alias_element :: "'b \<Rightarrow> 'b z_svec" where
  "z_svec_alias_element e = \<lparr>sv_capacity = 1, sv_len = 1, sv_val = [e], sv_aliased = True\<rparr>"

definition z_svec_is_empty :: "'b z_svec \<Rightarrow> bool" where
  "z_svec_is_empty v \<longleftrightarrow> sv_len v = 0"

definition z_svec_get :: "'b z_svec \<Rightarrow> nat \<Rightarrow> 'b option" where
  "z_svec_get v i = do { assert_c (i < sv_len v); arr_get (sv_val v) i }"

definition z_svec_make :: "('b, 'h) malloc \<Rightarrow> nat \<Rightarrow> nat \<Rightarrow> 'h \<Rightarrow> 'b z_svec \<times> 'h" where
  "z_svec_make mal es capacity h =
     (case (if capacity \<noteq> 0 then mal (size_mul es capacity) h else (None, h)) of
        (None, h1) \<Rightarrow> (z_svec_null, h1)
      | (Some b, h1) \<Rightarrow> (z_svec_null\<lparr>sv_val := b, sv_capacity := capacity\<rparr>, h1))"

text \<open>\<open>zero\<close> is the element of zero bytes.\<close>

definition z_svec_init :: "'b \<Rightarrow> 'b z_svec \<Rightarrow> nat \<Rightarrow> 'b z_svec option" where
  "z_svec_init zero v offset = do {
     assert_c (offset \<le> sv_capacity v);
     assert_c (sv_capacity v \<le> length (sv_val v));
     Some (v\<lparr>sv_val := take offset (sv_val v) @ replicate (sv_capacity v - offset) zero @ drop (sv_capacity v) (sv_val v)\<rparr>) }"

definition z_svec_move :: "'b z_svec \<Rightarrow> 'b z_svec \<times> 'b z_svec" where
  "z_svec_move src = (src, z_svec_null)"

text \<open>
  \<open>move\<close> maps the destination and the source element to their new values. Within one array, \<open>n\<close>
  elements move from index \<open>src\<close> on to index \<open>dst\<close> on; \<open>memmove\<close> when the elements have no function.
\<close>

fun elem_move_loop :: "('b \<Rightarrow> 'b \<Rightarrow> 'b \<times> 'b) \<Rightarrow> nat \<Rightarrow> nat \<Rightarrow> nat \<Rightarrow> 'b list \<Rightarrow> 'b list option" where
  "elem_move_loop move 0 dst src val = Some val"
| "elem_move_loop move (Suc n) dst src val = do {
     d \<leftarrow> arr_get val dst;
     s \<leftarrow> arr_get val src;
     let (d', s') = move d s;
     val1 \<leftarrow> arr_set val dst d';
     val2 \<leftarrow> arr_set val1 src s';
     elem_move_loop move n (dst + 1) (src + 1) val2 }"

definition z_svec_move_inner ::
  "('b \<Rightarrow> 'b \<Rightarrow> 'b \<times> 'b) \<Rightarrow> bool \<Rightarrow> nat \<Rightarrow> nat \<Rightarrow> nat \<Rightarrow> 'b list \<Rightarrow> 'b list option" where
  "z_svec_move_inner move use_elem_f dst src n val =
     (if use_elem_f then elem_move_loop move n dst src val
      else do {
        assert_c (src + n \<le> length val \<and> dst + n \<le> length val);
        Some (take dst val @ take n (drop src val) @ drop (dst + n) val) })"

text \<open>The same from one array to another, both from index 0 on.\<close>

fun elem_move_over :: "('b \<Rightarrow> 'b \<Rightarrow> 'b \<times> 'b) \<Rightarrow> nat \<Rightarrow> nat \<Rightarrow> 'b list \<Rightarrow> 'b list \<Rightarrow> 'b list option" where
  "elem_move_over move 0 i dst src = Some dst"
| "elem_move_over move (Suc n) i dst src = do {
     d \<leftarrow> arr_get dst i;
     s \<leftarrow> arr_get src i;
     let (d', s') = move d s;
     dst1 \<leftarrow> arr_set dst i d';
     elem_move_over move n (i + 1) dst1 src }"

definition z_svec_move_out ::
  "('b \<Rightarrow> 'b \<Rightarrow> 'b \<times> 'b) \<Rightarrow> bool \<Rightarrow> nat \<Rightarrow> 'b list \<Rightarrow> 'b list \<Rightarrow> 'b list option" where
  "z_svec_move_out move use_elem_f n dst src =
     (if use_elem_f then elem_move_over move n 0 dst src else copy_first n src dst)"

fun elem_copy_loop :: "('b \<Rightarrow> 'b \<Rightarrow> 'h \<Rightarrow> 'b \<times> 'h) \<Rightarrow> nat \<Rightarrow> nat \<Rightarrow> 'b list \<Rightarrow> 'b list \<Rightarrow> 'h \<Rightarrow> ('b list \<times> 'h) option" where
  "elem_copy_loop copy 0 i dst src h = Some (dst, h)"
| "elem_copy_loop copy (Suc n) i dst src h = do {
     d \<leftarrow> arr_get dst i;
     s \<leftarrow> arr_get src i;
     let (d', h1) = copy d s h;
     dst1 \<leftarrow> arr_set dst i d';
     elem_copy_loop copy n (i + 1) dst1 src h1 }"

definition z_svec_copy ::
  "('b, 'h) malloc \<Rightarrow> nat \<Rightarrow> ('b \<Rightarrow> 'b \<Rightarrow> 'h \<Rightarrow> 'b \<times> 'h) \<Rightarrow> bool \<Rightarrow> 'b z_svec \<Rightarrow> 'h \<Rightarrow>
   (z_res \<times> 'b z_svec \<times> 'h) option" where
  "z_svec_copy mal es copy use_elem_f src h =
     (if sv_capacity src = 0 then Some (Z_OK, z_svec_null, h)
      else case mal (size_mul es (sv_capacity src)) h of
        (None, h1) \<Rightarrow> Some (Z_ERR_SYSTEM_OUT_OF_MEMORY, z_svec_null, h1)
      | (Some b, h1) \<Rightarrow> do {
          (val, h2) \<leftarrow> (if use_elem_f then elem_copy_loop copy (sv_len src) 0 b (sv_val src) h1
                        else do { val \<leftarrow> copy_first (sv_len src) (sv_val src) b; Some (val, h1) });
          Some (Z_OK, \<lparr>sv_capacity = sv_capacity src, sv_len = sv_len src, sv_val = val, sv_aliased = False\<rparr>, h2) })"

text \<open>\<open>clear_f\<close> maps an element to what is left of it; \<open>None\<close> for no function.\<close>

fun elem_clear_loop :: "('b \<Rightarrow> 'h \<Rightarrow> 'b \<times> 'h) \<Rightarrow> nat \<Rightarrow> nat \<Rightarrow> 'b list \<Rightarrow> 'h \<Rightarrow> ('b list \<times> 'h) option" where
  "elem_clear_loop clear_f 0 i val h = Some (val, h)"
| "elem_clear_loop clear_f (Suc n) i val h = do {
     x \<leftarrow> arr_get val i;
     let (y, h1) = clear_f x h;
     val1 \<leftarrow> arr_set val i y;
     elem_clear_loop clear_f n (i + 1) val1 h1 }"

definition z_svec_reset :: "('b \<Rightarrow> 'h \<Rightarrow> 'b \<times> 'h) option \<Rightarrow> 'b z_svec \<Rightarrow> 'h \<Rightarrow> ('b z_svec \<times> 'h) option" where
  "z_svec_reset clear v h = do {
     (val, h1) \<leftarrow> (case clear of None \<Rightarrow> Some (sv_val v, h) | Some f \<Rightarrow> elem_clear_loop f (sv_len v) 0 (sv_val v) h);
     Some (v\<lparr>sv_val := val, sv_len := 0\<rparr>, h1) }"

definition z_svec_release :: "'b z_svec \<Rightarrow> 'b z_svec" where
  "z_svec_release v = v\<lparr>sv_capacity := 0, sv_val := []\<rparr>"

definition z_svec_clear :: "('b \<Rightarrow> 'h \<Rightarrow> 'b \<times> 'h) option \<Rightarrow> 'b z_svec \<Rightarrow> 'h \<Rightarrow> ('b z_svec \<times> 'h) option" where
  "z_svec_clear clear v h = do {
     (v1, h1) \<leftarrow> z_svec_reset clear v h;
     Some (if \<not> sv_aliased v1 then z_svec_release v1 else v1, h1) }"

definition z_svec_free :: "('b \<Rightarrow> 'h \<Rightarrow> 'b \<times> 'h) option \<Rightarrow> 'b z_svec option \<Rightarrow> 'h \<Rightarrow> ('b z_svec option \<times> 'h) option" where
  "z_svec_free clear p h =
     (case p of None \<Rightarrow> Some (None, h)
      | Some v \<Rightarrow> do { (v1, h1) \<leftarrow> z_svec_clear clear v h; Some (None, h1) })"

definition z_svec_expand ::
  "('b, 'h) malloc \<Rightarrow> nat \<Rightarrow> ('b \<Rightarrow> 'b \<Rightarrow> 'b \<times> 'b) \<Rightarrow> bool \<Rightarrow> 'b z_svec \<Rightarrow> 'h \<Rightarrow> (z_res \<times> 'b z_svec \<times> 'h) option" where
  "z_svec_expand mal es move use_elem_f v h =
     (let c = (if sv_capacity v = 0 then 1 else size_mul 2 (sv_capacity v))
      in case mal (size_mul c es) h of
           (None, h1) \<Rightarrow> Some (Z_ERR_SYSTEM_OUT_OF_MEMORY, v, h1)
         | (Some b, h1) \<Rightarrow> do {
             val \<leftarrow> z_svec_move_out move use_elem_f (sv_len v) b (sv_val v);
             Some (Z_OK, v\<lparr>sv_val := val, sv_capacity := c\<rparr>, h1) })"

definition z_svec_append ::
  "('b, 'h) malloc \<Rightarrow> nat \<Rightarrow> ('b \<Rightarrow> 'b \<Rightarrow> 'b \<times> 'b) \<Rightarrow> bool \<Rightarrow> 'b z_svec \<Rightarrow> 'b \<Rightarrow> 'h \<Rightarrow>
   (z_res \<times> 'b z_svec \<times> 'h) option" where
  "z_svec_append mal es move use_elem_f v e h = do {
     (r, v1, h1) \<leftarrow> (if sv_len v = sv_capacity v then z_svec_expand mal es move use_elem_f v h
                     else Some (Z_OK, v, h));
     if r \<noteq> Z_OK then Some (r, v1, h1)
     else do {
       val \<leftarrow> arr_set (sv_val v1) (sv_len v1) e;
       Some (Z_OK, v1\<lparr>sv_val := val, sv_len := size_add (sv_len v1) 1\<rparr>, h1) } }"

definition z_svec_set ::
  "('b \<Rightarrow> 'h \<Rightarrow> 'b \<times> 'h) \<Rightarrow> 'b z_svec \<Rightarrow> nat \<Rightarrow> 'b \<Rightarrow> 'h \<Rightarrow> ('b z_svec \<times> 'h) option" where
  "z_svec_set clear_f v i e h = do {
     assert_c (i < sv_len v);
     x \<leftarrow> arr_get (sv_val v) i;
     let (y, h1) = clear_f x h;
     val \<leftarrow> arr_set (sv_val v) i e;
     Some (v\<lparr>sv_val := val\<rparr>, h1) }"

text \<open>The number of elements to move is multiplied by their size here, and again where they move.\<close>

definition z_svec_remove ::
  "nat \<Rightarrow> ('b \<Rightarrow> 'h \<Rightarrow> 'b \<times> 'h) \<Rightarrow> ('b \<Rightarrow> 'b \<Rightarrow> 'b \<times> 'b) \<Rightarrow> bool \<Rightarrow> 'b z_svec \<Rightarrow> nat \<Rightarrow> 'h \<Rightarrow> ('b z_svec \<times> 'h) option" where
  "z_svec_remove es clear_f move use_elem_f v pos h = do {
     assert_c (pos < sv_len v);
     x \<leftarrow> arr_get (sv_val v) pos;
     let (y, h1) = clear_f x h;
     val \<leftarrow> arr_set (sv_val v) pos y;
     val \<leftarrow> z_svec_move_inner move use_elem_f pos (pos + 1) ((sv_len v - pos - 1) * es) val;
     Some (v\<lparr>sv_val := val, sv_len := sv_len v - 1\<rparr>, h1) }"

section \<open>Appending\<close>

definition vec_items :: "'a z_vec \<Rightarrow> 'a option list" where
  "vec_items v = take (v_len v) (v_val v)"

definition vec_ok :: "'a z_vec \<Rightarrow> bool" where
  "vec_ok v \<longleftrightarrow> v_len v \<le> v_capacity v \<and> length (v_val v) = v_capacity v"

definition svec_items :: "'b z_svec \<Rightarrow> 'b list" where
  "svec_items v = take (sv_len v) (sv_val v)"

definition svec_ok :: "'b z_svec \<Rightarrow> bool" where
  "svec_ok v \<longleftrightarrow> sv_len v \<le> sv_capacity v \<and> length (sv_val v) = sv_capacity v"

lemma length_vec_items [simp]: "vec_ok v \<Longrightarrow> length (vec_items v) = v_len v"
  by (simp add: vec_ok_def vec_items_def)

lemma length_svec_items [simp]: "svec_ok v \<Longrightarrow> length (svec_items v) = sv_len v"
  by (simp add: svec_ok_def svec_items_def)

lemma take_Suc_update: "n < length xs \<Longrightarrow> take (Suc n) (xs[n := x]) = take n xs @ [x]"
  by (simp add: take_Suc_conv_app_nth)

lemma take_add_1_update: "n < length xs \<Longrightarrow> take (n + 1) (xs[n := x]) = take n xs @ [x]"
  using take_Suc_update by simp

lemma z_vec_append_items:
  assumes m: "malloc_ok 4 mal" and ok: "vec_ok v" and small: "8 * v_len v + 4 \<le> SIZE_MAX"
  shows "\<exists>v' h'. z_vec_append mal v e h = Some (v', h') \<and> vec_ok v' \<and>
    vec_items v' = (if v_len v = v_capacity v \<and> fst (mal (8 * v_len v + 4) h) = None then vec_items v
      else vec_items v @ [e])"
proof (cases "v_len v = v_capacity v")
  case False
  then show ?thesis
    using ok small by (auto simp: z_vec_append_def vec_ok_def vec_items_def take_Suc_update)
next
  case True
  have c: "size_mul (size_add (size_mul 2 (v_capacity v)) 1) 4 = 8 * v_len v + 4"
    "size_add (size_mul 2 (v_capacity v)) 1 = 2 * v_len v + 1" using small True by simp_all
  show ?thesis
  proof (cases "mal (8 * v_len v + 4) h")
    case (Pair b h1)
    show ?thesis
    proof (cases b)
      case None
      then show ?thesis using True Pair c ok by (simp add: z_vec_append_def)
    next
      case (Some blk)
      then have blk: "length blk = 2 * v_len v + 1" using malloc_ok_length [OF m] Pair by simp
      have "z_vec_append mal v e h = Some (v\<lparr>v_val := (v_val v @ drop (v_len v) blk)[v_len v := e],
          v_capacity := 2 * v_len v + 1, v_len := v_len v + 1\<rparr>, h1)"
      proof -
        have "mal (8 * v_capacity v + 4) h = (Some blk, h1)" using Pair Some True by simp
        then show ?thesis
          using True ok small blk unfolding z_vec_append_def Let_def c
          by (simp add: copy_first_def vec_ok_def del: One_nat_def)
      qed
      then show ?thesis using ok blk True Pair Some
        by (simp add: vec_ok_def vec_items_def take_add_1_update del: One_nat_def)
    qed
  qed
qed

lemma z_svec_append_items:
  assumes m: "malloc_ok es mal" and ok: "svec_ok v" and es: "0 < es"
    and small: "2 * (sv_len v + 1) * es \<le> SIZE_MAX"
  shows "\<exists>r v' h'. z_svec_append mal es move False v e h = Some (r, v', h') \<and> svec_ok v' \<and>
    sv_aliased v' = sv_aliased v \<and>
    (if r = Z_OK then svec_items v' = svec_items v @ [e] else v' = v \<and> sv_len v = sv_capacity v)"
proof (cases "sv_len v = sv_capacity v")
  case False
  have "Suc (sv_len v) \<le> SIZE_MAX"
    using small es by (cases es) simp_all
  then show ?thesis
    using ok False by (auto simp: z_svec_append_def svec_ok_def svec_items_def take_Suc_update)
next
  case True
  let ?c = "if sv_capacity v = 0 then 1 else size_mul 2 (sv_capacity v)"
  have le: "2 * sv_len v + 2 \<le> 2 * (sv_len v + 1) * es" using es by (cases es) simp_all
  then have c: "?c = (if sv_len v = 0 then 1 else 2 * sv_len v)" using small True by simp
  have "?c * es \<le> 2 * (sv_len v + 1) * es" unfolding c by (intro mult_le_mono1) simp
  then have ces: "size_mul ?c es = ?c * es" using small by (intro size_mul_small) linarith
  show ?thesis
  proof (cases "mal (?c * es) h")
    case (Pair b h1)
    show ?thesis
    proof (cases b)
      case None
      then show ?thesis using True Pair ces ok by (simp add: z_svec_append_def z_svec_expand_def)
    next
      case (Some blk)
      have blk: "length blk = ?c" using malloc_ok_length [OF m Pair [unfolded Some]] es by simp
      have fit: "sv_len v < ?c" "sv_len v + 1 \<le> SIZE_MAX" using c le small by (simp_all split: if_splits)
      have "z_svec_append mal es move False v e h = Some (Z_OK,
          v\<lparr>sv_val := (take (sv_len v) (sv_val v) @ drop (sv_len v) blk)[sv_len v := e], sv_capacity := ?c,
            sv_len := sv_len v + 1\<rparr>, h1)"
        using True Pair Some ok fit blk
        unfolding z_svec_append_def z_svec_expand_def Let_def ces
        by (simp add: z_svec_move_out_def copy_first_def svec_ok_def del: One_nat_def)
      then show ?thesis using ok fit blk
        by (simp add: svec_ok_def svec_items_def take_add_1_update del: One_nat_def split del: if_split)
    qed
  qed
qed

lemma z_svec_append_res:
  "z_svec_append mal es move False v e h = Some (r, v', h') \<Longrightarrow> r = Z_OK \<or> r = Z_ERR_SYSTEM_OUT_OF_MEMORY"
  by (auto simp: z_svec_append_def z_svec_expand_def Let_def bind_Some_iff split: if_splits option.splits prod.splits)

lemma z_svec_append_capacity:
  "z_svec_append mal es move False v e h = Some (r, v', h') \<Longrightarrow> sv_capacity v' \<le> max (sv_capacity v) (2 * sv_len v + 1)"
proof -
  have le: "size_mul 2 n \<le> 2 * n" for n by (simp add: size_mul_def)
  assume "z_svec_append mal es move False v e h = Some (r, v', h')"
  then show ?thesis
    using le [of "sv_capacity v"]
    by (auto simp: z_svec_append_def z_svec_expand_def Let_def bind_Some_iff le_max_iff_disj
        split: if_splits option.splits prod.splits)
qed

interpretation vec_growable: growable "\<lambda>v. vec_ok v \<and> malloc_ok 4 mal" vec_items "2 ^ 28"
  "\<lambda>v e h. map_option (\<lambda>(v', h'). (v_len v' = v_len v + 1, v', h')) (z_vec_append mal v e h)"
  for mal :: "('a option, 'h) malloc"
proof
  fix v :: "'a z_vec" and e and h :: 'h
  assume ok: "vec_ok v \<and> malloc_ok 4 mal" and "length (vec_items v) < 2 ^ 28"
  then have "8 * v_len v + 4 \<le> SIZE_MAX" by (simp add: SIZE_MAX_def)
  then obtain v' h' where v': "z_vec_append mal v e h = Some (v', h')" "vec_ok v'"
    "vec_items v' = vec_items v \<or> vec_items v' = vec_items v @ [e]"
    using z_vec_append_items [of mal v e h] ok by (metis (full_types))
  then have "v_len v' = v_len v + 1 \<longleftrightarrow> vec_items v' = vec_items v @ [e]"
    using ok by (metis length_vec_items length_append_singleton Suc_eq_plus1 n_not_Suc_n)
  then show "\<exists>b v' h'. map_option (\<lambda>(v', h'). (v_len v' = v_len v + 1, v', h')) (z_vec_append mal v e h) =
      Some (b, v', h') \<and> (vec_ok v' \<and> malloc_ok 4 mal) \<and> vec_items v' = (if b then vec_items v @ [e] else vec_items v)"
    using v' ok by (intro exI [of _ "v_len v' = v_len v + 1"] exI [of _ v'] exI [of _ h']) auto
qed

interpretation svec_growable: growable "\<lambda>v. svec_ok v \<and> 0 < es \<and> malloc_ok es mal" svec_items "SIZE_MAX div (2 * es)"
  "\<lambda>v e h. map_option (\<lambda>(r, v', h'). (r = Z_OK, v', h')) (z_svec_append mal es move False v e h)"
  for mal :: "('b, 'h) malloc" and es move
proof
  fix v :: "'b z_svec" and e and h :: 'h
  assume ok: "svec_ok v \<and> 0 < es \<and> malloc_ok es mal" and "length (svec_items v) < SIZE_MAX div (2 * es)"
  then have "Suc (sv_len v) \<le> SIZE_MAX div (2 * es)" by simp
  then have "2 * (sv_len v + 1) * es \<le> SIZE_MAX" using ok by (simp add: less_eq_div_iff_mult_less_eq algebra_simps)
  from z_svec_append_items [OF _ _ _ this, of mal move e h] ok
  show "\<exists>b v' h'. map_option (\<lambda>(r, v', h'). (r = Z_OK, v', h')) (z_svec_append mal es move False v e h) =
      Some (b, v', h') \<and> (svec_ok v' \<and> 0 < es \<and> malloc_ok es mal) \<and>
      svec_items v' = (if b then svec_items v @ [e] else svec_items v)"
    by (auto split: if_splits)
qed

section \<open>Freeing\<close>

text \<open>The elements of a vector that are freed: the pointers that are not null, in order.\<close>

definition live :: "'a option list \<Rightarrow> 'a list" where
  "live xs = map the (filter (\<lambda>x. x \<noteq> None) xs)"

lemma live_simps [simp]: "live [] = []" "live (x # xs) = (case x of None \<Rightarrow> live xs | Some y \<Rightarrow> y # live xs)"
  by (auto simp: live_def split: option.split)

lemma vec_free_loop_all:
  "i + k \<le> length val \<Longrightarrow> vec_free_loop free_f k i val h =
     Some (take i val @ replicate k None @ drop (i + k) val, fold free_f (live (take k (drop i val))) h)"
proof (induction k arbitrary: i val h)
  case 0
  then show ?case by simp
next
  case (Suc k)
  have "take (Suc k) (drop i val) = val ! i # take k (drop (Suc i) val)"
    using Suc.prems by (metis Cons_nth_drop_Suc Suc_leD add_Suc_right le_add1 le_less_trans less_Suc_eq_le less_le_trans take_Suc_Cons lessI)
  then show ?case
    using Suc by (simp add: elem_free_def take_Suc_update split: option.split)
qed

lemma z_vec_clear_frees:
  "vec_ok v \<Longrightarrow> z_vec_clear free_f v h = Some (z_vec_null, fold free_f (live (vec_items v)) h)"
  by (simp add: z_vec_clear_def vec_ok_def vec_free_loop_all z_vec_release_def z_vec_null_def vec_items_def)

section \<open>Removing\<close>

lemma vec_shift_loop_eq:
  "Suc pos < length val \<Longrightarrow> vec_shift_loop k pos val = Some (if k = 0 then val else val[pos := val ! Suc pos])"
  by (induction k arbitrary: val) (auto split: if_splits)

lemma vec_shift_loop_out: "length val \<le> Suc pos \<Longrightarrow> 0 < k \<Longrightarrow> vec_shift_loop k pos val = None"
  by (cases k) simp_all

text \<open>
  A removal from a full vector of pointers runs out of its array. On any other vector it puts the
  successor of the removed element into its place and drops the last element: right for the last two
  positions, and otherwise an element is lost and another one is there twice.
\<close>

theorem vec_remove_effect:
  assumes "vec_ok v" "pos < v_len v"
  shows "if v_len v = v_capacity v then z_vec_remove free_f v pos h = None
    else \<exists>v' h'. z_vec_remove free_f v pos h = Some (v', h') \<and> vec_ok v' \<and>
      (let xs = vec_items v in vec_items v' =
         (if v_len v \<le> pos + 2 then take pos xs @ drop (pos + 1) xs
          else take pos xs @ [xs ! (pos + 1)] @ drop (pos + 1) (butlast xs)))"
proof (cases "v_len v = v_capacity v")
  case True
  show ?thesis
  proof (cases "Suc pos = v_len v")
    case True
    then show ?thesis using assms \<open>v_len v = v_capacity v\<close>
      by (simp add: z_vec_remove_def vec_ok_def elem_free_def vec_shift_loop_out)
  next
    case False
    then show ?thesis using assms True
      by (simp add: z_vec_remove_def vec_ok_def elem_free_def vec_shift_loop_eq)
  qed
next
  case False
  let ?val = "v_val v" and ?n = "v_len v"
  have o: "?n < v_capacity v" "length ?val = v_capacity v" using assms False by (simp_all add: vec_ok_def)
  let ?v = "v\<lparr>v_val := ?val[pos := ?val ! Suc pos, ?n := None], v_len := ?n - 1\<rparr>"
  have r: "z_vec_remove free_f v pos h = Some (?v, snd (elem_free free_f (?val ! pos) h))"
    using o assms(2) by (simp add: z_vec_remove_def elem_free_def vec_shift_loop_eq)
  have t: "vec_items ?v = take (?n - 1) (?val[pos := ?val ! Suc pos])"
    using assms(2) by (simp add: vec_items_def)
  have "let xs = vec_items v in vec_items ?v = (if ?n \<le> pos + 2 then take pos xs @ drop (pos + 1) xs
          else take pos xs @ [xs ! (pos + 1)] @ drop (pos + 1) (butlast xs))"
  proof -
    define xs where "xs = vec_items v"
    have xs: "length xs = ?n" "?n \<noteq> 0" using o assms by (simp_all add: xs_def)
    have "take (?n - 1) ?val = butlast xs" using o by (simp add: xs_def vec_items_def butlast_take)
    then have b: "vec_items ?v = (butlast xs)[pos := ?val ! Suc pos]"
      unfolding t take_update_swap by (rule arg_cong)
    consider "Suc pos = ?n" | "Suc (Suc pos) = ?n" | "Suc (Suc pos) < ?n" using assms(2) by linarith
    then have "vec_items ?v = (if ?n \<le> pos + 2 then take pos xs @ drop (pos + 1) xs
        else take pos xs @ [xs ! (pos + 1)] @ drop (pos + 1) (butlast xs))"
    proof cases
      case 1
      then have "v_len v - 1 = pos" by simp
      then have "take pos xs = butlast xs" using xs by (simp add: butlast_conv_take)
      moreover have "(butlast xs)[pos := z] = butlast xs" for z using 1 xs by (intro list_update_beyond) simp
      ultimately show ?thesis unfolding b using 1 xs by simp
    next
      case 2
      then have v: "?val ! Suc pos = xs ! Suc pos" by (simp add: xs_def vec_items_def)
      have "drop (Suc pos) xs = [xs ! Suc pos]" using 2 xs by (metis Cons_nth_drop_Suc drop_all le_refl lessI)
      moreover have "drop (Suc pos) (butlast xs) = []" "take pos (butlast xs) = take pos xs"
        using 2 xs by (simp_all add: butlast_conv_take)
      ultimately show ?thesis unfolding b unfolding v using 2 xs by (simp add: upd_conv_take_nth_drop)
    next
      case 3
      then have v: "?val ! Suc pos = xs ! Suc pos" by (simp add: xs_def vec_items_def)
      have "take pos (butlast xs) = take pos xs" using 3 xs by (simp add: butlast_conv_take)
      then show ?thesis unfolding b unfolding v using 3 xs by (simp add: upd_conv_take_nth_drop)
    qed
    then show ?thesis by (simp add: xs_def Let_def)
  qed
  then show ?thesis using False r o by (auto simp: vec_ok_def)
qed

lemma take_moved:
  "l - 1 - pos \<le> k \<Longrightarrow> pos + 1 + k \<le> length val \<Longrightarrow> pos < l \<Longrightarrow>
    take (l - 1) (take pos val @ take k (drop (pos + 1) val) @ R) =
    take pos val @ take (l - 1 - pos) (drop (pos + 1) val)"
proof -
  assume a: "l - 1 - pos \<le> k" "pos + 1 + k \<le> length val" "pos < l"
  then have "length (take pos val) = pos" "length (take k (drop (pos + 1) val)) = k" "pos \<le> l - 1" by simp_all
  then show ?thesis using a(1) by (simp add: take_append min_absorb1 del: length_take)
qed

lemma svec_remove_cases:
  assumes "svec_ok v" "pos < sv_len v" "0 < es"
  shows "if pos + 1 + (sv_len v - pos - 1) * es \<le> sv_capacity v
    then \<exists>v' h'. z_svec_remove es clear_f move False v pos h = Some (v', h') \<and>
      svec_items v' = take pos (svec_items v) @ drop (pos + 1) (svec_items v)
    else z_svec_remove es clear_f move False v pos h = None"
proof -
  let ?n = "(sv_len v - pos - 1) * es" and ?val = "sv_val v"
  have o: "sv_len v \<le> sv_capacity v" "length ?val = sv_capacity v" using assms(1) by (simp_all add: svec_ok_def)
  obtain y h1 where y: "clear_f (?val ! pos) h = (y, h1)" by fastforce
  have r: "z_svec_remove es clear_f move False v pos h =
      (if pos + 1 + ?n \<le> sv_capacity v then
         Some (v\<lparr>sv_val := take pos ?val @ take ?n (drop (pos + 1) (?val[pos := y])) @ drop (pos + ?n) (?val[pos := y]),
           sv_len := sv_len v - 1\<rparr>, h1)
       else None)"
    using o assms(2) y by (simp add: z_svec_remove_def z_svec_move_inner_def)
  have m: "sv_len v - pos - 1 \<le> ?n" using assms(3) by (cases es) simp_all
  show ?thesis
  proof (cases "pos + 1 + ?n \<le> sv_capacity v")
    case True
    have "take (sv_len v - 1) (take pos ?val @ take ?n (drop (pos + 1) ?val) @ R) =
        take pos (take (sv_len v) ?val) @ drop (pos + 1) (take (sv_len v) ?val)" for R
    proof -
      have "take (sv_len v - 1) (take pos ?val @ take ?n (drop (pos + 1) ?val) @ R) =
          take pos ?val @ take (sv_len v - 1 - pos) (drop (pos + 1) ?val)"
        using True m o assms(2) by (intro take_moved) simp_all
      then show ?thesis using assms(2) by (simp add: drop_take)
    qed
    then show ?thesis using True r by (simp add: svec_items_def)
  next
    case False
    then show ?thesis using r by simp
  qed
qed

text \<open>
  A removal from a vector of values moves as many elements as there are bytes behind the removed
  one: unless it is the last element or the capacity is that large, it reads and writes out of the
  array.
\<close>

theorem svec_remove_effect:
  assumes "svec_ok v" "pos < sv_len v" "0 < es"
  shows "if pos + 1 + (sv_len v - pos - 1) * es \<le> sv_capacity v
    then \<exists>v' h'. z_svec_remove es clear_f move False v pos h = Some (v', h') \<and>
      svec_items v' = take pos (svec_items v) @ drop (pos + 1) (svec_items v)
    else z_svec_remove es clear_f move False v pos h = None"
  by (rule svec_remove_cases [OF assms])

definition demo_vec :: "nat \<Rightarrow> nat z_vec" where
  "demo_vec c = \<lparr>v_capacity = c, v_len = 4, v_val = map Some [1, 2, 3, 4] @ replicate (c - 4) None\<rparr>"

theorem vec_remove_effect_witness:
  "z_vec_remove (\<lambda>x h. x # h) (demo_vec 4) 0 [] = None \<and>
   (\<exists>v'. z_vec_remove (\<lambda>x h. x # h) (demo_vec 5) 0 [] = Some (v', [1]) \<and>
      vec_items v' = map Some [2, 2, 3])"
proof
  show "z_vec_remove (\<lambda>x h. x # h) (demo_vec 4) 0 [] = None"
    using vec_remove_effect [of "demo_vec 4" 0 "\<lambda>x h. x # h" "[]"] by (simp add: demo_vec_def vec_ok_def)
  have "\<exists>v' h'. z_vec_remove (\<lambda>x h. x # h) (demo_vec 5) 0 [] = Some (v', h') \<and> vec_items v' = map Some [2, 2, 3]"
    using vec_remove_effect [of "demo_vec 5" 0 "\<lambda>x h. x # h" "[]"]
    by (auto simp: demo_vec_def vec_ok_def vec_items_def Let_def)
  moreover have "map_option snd (z_vec_remove (\<lambda>x h. x # h) (demo_vec 5) 0 []) = Some [1]"
    by (simp add: demo_vec_def z_vec_remove_def elem_free_def vec_shift_loop_eq)
  ultimately show "\<exists>v'. z_vec_remove (\<lambda>x h. x # h) (demo_vec 5) 0 [] = Some (v', [1]) \<and> vec_items v' = map Some [2, 2, 3]"
    by auto
qed

definition demo_svec :: "nat z_svec" where
  "demo_svec = \<lparr>sv_capacity = 5, sv_len = 3, sv_val = [1, 2, 3, 0, 0], sv_aliased = False\<rparr>"

theorem svec_remove_effect_witness:
  "z_svec_remove 20 (\<lambda>x h. (x, h)) (\<lambda>d s. (d, s)) False demo_svec 1 () = None \<and>
   (\<exists>v'. z_svec_remove 20 (\<lambda>x h. (x, h)) (\<lambda>d s. (d, s)) False demo_svec 2 () = Some (v', ()) \<and> svec_items v' = [1, 2])"
  using svec_remove_effect [of demo_svec 1 20 "\<lambda>x h. (x, h)" "\<lambda>d s. (d, s)" "()"]
    svec_remove_effect [of demo_svec 2 20 "\<lambda>x h. (x, h)" "\<lambda>d s. (d, s)" "()"]
  by (simp add: demo_svec_def svec_ok_def svec_items_def)

end
