(* ===== verification/ZIoBuf.thy ===== *)
theory ZIoBuf
  imports ZVec
begin

text \<open>
  The buffers of zenoh-pico, \<open>protocol/iobuf.h\<close> and \<open>protocol/iobuf.c\<close>: slices with a read and a
  write position, read buffers of one slice and write buffers of several.

  \<open>ios_buf\<close> is the memory from the slice's pointer to the end of its block, \<open>[]\<close> for a null
  pointer. A wrapped slice borrows constant memory of the caller, which is copied into the slice
  here; the rest of a slice that was split by a wrap is disjoint from what stays in front.
  The heap is a parameter, the allocators of the three kinds of objects over a state \<open>'h\<close>.
\<close>

section \<open>Memory\<close>

definition c_read :: "bytes \<Rightarrow> nat \<Rightarrow> nat \<Rightarrow> bytes option" where
  "c_read buf off n = (if off + n \<le> length buf then Some (slice buf off n) else None)"

definition c_write :: "bytes \<Rightarrow> nat \<Rightarrow> bytes \<Rightarrow> bytes option" where
  "c_write buf off data = (if off + length data \<le> length buf then Some (memcpy_at buf off data) else None)"

lemma c_read_in [simp, z_simps]: "off + n \<le> length buf \<Longrightarrow> c_read buf off n = Some (slice buf off n)"
  by (simp add: c_read_def)

lemma c_write_in [simp, z_simps]: "off + length d \<le> length buf \<Longrightarrow> c_write buf off d = Some (memcpy_at buf off d)"
  by (simp add: c_write_def)

section \<open>Slices\<close>

record z_iosli =
  ios_r_pos :: nat
  ios_w_pos :: nat
  ios_capacity :: nat
  ios_buf :: bytes
  ios_is_alloc :: bool

record 'h heap =
  mal_bytes :: "(u8, 'h) malloc"
  mal_slis :: "(z_iosli, 'h) malloc"
  mal_rc :: "'h \<Rightarrow> bool \<times> 'h"

text \<open>A slice has 20 bytes on the controller.\<close>

definition z_iosli_size :: nat where "z_iosli_size = 20"

definition z_iosli_null :: z_iosli where
  "z_iosli_null = \<lparr>ios_r_pos = 0, ios_w_pos = 0, ios_capacity = 0, ios_buf = [], ios_is_alloc = False\<rparr>"

definition z_iosli_writable :: "z_iosli \<Rightarrow> nat" where
  "z_iosli_writable ios = size_sub (ios_capacity ios) (ios_w_pos ios)"

definition z_iosli_readable :: "z_iosli \<Rightarrow> nat" where
  "z_iosli_readable ios = size_sub (ios_w_pos ios) (ios_r_pos ios)"

definition z_iosli_can_write :: "z_iosli \<Rightarrow> bool" where
  "z_iosli_can_write ios \<longleftrightarrow> ios_w_pos ios < ios_capacity ios"

definition z_iosli_can_read :: "z_iosli \<Rightarrow> bool" where
  "z_iosli_can_read ios \<longleftrightarrow> ios_r_pos ios < ios_w_pos ios"

definition z_iosli_read :: "z_iosli \<Rightarrow> (u8 \<times> z_iosli) option" where
  "z_iosli_read ios = do {
     assert_c (ios_r_pos ios < ios_w_pos ios);
     b \<leftarrow> arr_get (ios_buf ios) (ios_r_pos ios);
     Some (b, ios\<lparr>ios_r_pos := ios_r_pos ios + 1\<rparr>) }"

text \<open>The reference is the offset in the block.\<close>

definition z_iosli_read_as_ref :: "z_iosli \<Rightarrow> (nat \<times> z_iosli) option" where
  "z_iosli_read_as_ref ios = do {
     assert_c (ios_r_pos ios < ios_w_pos ios);
     Some (ios_r_pos ios, ios\<lparr>ios_r_pos := ios_r_pos ios + 1\<rparr>) }"

definition z_iosli_write :: "z_iosli \<Rightarrow> u8 \<Rightarrow> z_iosli option" where
  "z_iosli_write ios b = do {
     assert_c (ios_w_pos ios < ios_capacity ios);
     buf \<leftarrow> arr_set (ios_buf ios) (ios_w_pos ios) b;
     Some (ios\<lparr>ios_buf := buf, ios_w_pos := ios_w_pos ios + 1\<rparr>) }"

definition z_iosli_get :: "z_iosli \<Rightarrow> nat \<Rightarrow> u8 option" where
  "z_iosli_get ios pos = do { assert_c (pos < ios_capacity ios); arr_get (ios_buf ios) pos }"

definition z_iosli_put :: "z_iosli \<Rightarrow> u8 \<Rightarrow> nat \<Rightarrow> z_iosli option" where
  "z_iosli_put ios b pos = do {
     assert_c (pos < ios_capacity ios);
     buf \<leftarrow> arr_set (ios_buf ios) pos b;
     Some (ios\<lparr>ios_buf := buf\<rparr>) }"

definition z_iosli_reset :: "z_iosli \<Rightarrow> z_iosli" where
  "z_iosli_reset ios = ios\<lparr>ios_r_pos := 0, ios_w_pos := 0\<rparr>"

text \<open>The destination is the caller's buffer.\<close>

definition z_iosli_read_bytes :: "z_iosli \<Rightarrow> bytes \<Rightarrow> nat \<Rightarrow> nat \<Rightarrow> (bytes \<times> z_iosli) option" where
  "z_iosli_read_bytes ios dst off n = do {
     assert_c (n \<le> z_iosli_readable ios);
     d \<leftarrow> c_read (ios_buf ios) (ios_r_pos ios) n;
     dst' \<leftarrow> c_write dst off d;
     Some (dst', ios\<lparr>ios_r_pos := ios_r_pos ios + n\<rparr>) }"

definition z_iosli_copy_bytes :: "z_iosli \<Rightarrow> z_iosli \<Rightarrow> z_iosli option" where
  "z_iosli_copy_bytes dst src = do {
     let n = z_iosli_readable src;
     assert_c (n \<le> ios_capacity dst);
     d \<leftarrow> c_read (ios_buf src) (ios_r_pos src) n;
     buf \<leftarrow> c_write (ios_buf dst) (ios_w_pos dst) d;
     Some (dst\<lparr>ios_buf := buf, ios_w_pos := ios_w_pos dst + n\<rparr>) }"

definition z_iosli_write_bytes :: "z_iosli \<Rightarrow> bytes \<Rightarrow> nat \<Rightarrow> nat \<Rightarrow> z_iosli option" where
  "z_iosli_write_bytes ios bs off n = do {
     assert_c (n \<le> z_iosli_writable ios);
     d \<leftarrow> c_read bs off n;
     buf \<leftarrow> c_write (ios_buf ios) (ios_w_pos ios) d;
     Some (ios\<lparr>ios_buf := buf, ios_w_pos := ios_w_pos ios + n\<rparr>) }"

definition z_iosli_wrap :: "bytes \<Rightarrow> nat \<Rightarrow> nat \<Rightarrow> nat \<Rightarrow> z_iosli option" where
  "z_iosli_wrap buf n r w = do {
     assert_c (r \<le> w \<and> w \<le> n);
     Some \<lparr>ios_r_pos = r, ios_w_pos = w, ios_capacity = n, ios_buf = buf, ios_is_alloc = False\<rparr> }"

text \<open>Results: the stolen slice and what is left.\<close>

definition z_iosli_steal :: "z_iosli \<Rightarrow> z_iosli \<times> z_iosli" where
  "z_iosli_steal ios = (ios, z_iosli_null)"

definition z_iosli_init :: "'h heap \<Rightarrow> nat \<Rightarrow> 'h \<Rightarrow> z_iosli \<times> 'h" where
  "z_iosli_init H capacity h =
     (case mal_bytes H capacity h of
        (Some b, h1) \<Rightarrow> (\<lparr>ios_r_pos = 0, ios_w_pos = 0, ios_capacity = capacity, ios_buf = b, ios_is_alloc = True\<rparr>, h1)
      | (None, h1) \<Rightarrow> (\<lparr>ios_r_pos = 0, ios_w_pos = 0, ios_capacity = 0, ios_buf = [], ios_is_alloc = False\<rparr>, h1))"

definition z_iosli_make :: "'h heap \<Rightarrow> nat \<Rightarrow> 'h \<Rightarrow> z_iosli \<times> 'h" where
  "z_iosli_make H capacity h = z_iosli_init H capacity h"

text \<open>\<open>None\<close> is the null pointer.\<close>

definition z_iosli_new :: "'h heap \<Rightarrow> nat \<Rightarrow> 'h \<Rightarrow> z_iosli option \<times> 'h" where
  "z_iosli_new H capacity h =
     (case mal_slis H z_iosli_size h of
        (None, h1) \<Rightarrow> (None, h1)
      | (Some _, h1) \<Rightarrow> let (ios, h2) = z_iosli_init H capacity h1 in (Some ios, h2))"

definition z_iosli_to_bytes :: "z_iosli \<Rightarrow> bytes option" where
  "z_iosli_to_bytes ios = c_read (ios_buf ios) (ios_r_pos ios) (z_iosli_readable ios)"

definition z_iosli_clear :: "z_iosli \<Rightarrow> z_iosli" where
  "z_iosli_clear ios = (if ios_is_alloc ios then ios\<lparr>ios_buf := []\<rparr> else ios)"

definition z_iosli_free :: "z_iosli option \<Rightarrow> z_iosli option" where
  "z_iosli_free p = None"

definition z_iosli_copy :: "'h heap \<Rightarrow> z_iosli \<Rightarrow> 'h \<Rightarrow> (z_iosli \<times> 'h) option" where
  "z_iosli_copy H src h =
     (if ios_is_alloc src then
        case mal_bytes H (ios_capacity src) h of
          (None, h1) \<Rightarrow> Some (src\<lparr>ios_buf := []\<rparr>, h1)
        | (Some b, h1) \<Rightarrow> do {
            d \<leftarrow> c_read (ios_buf src) 0 (ios_capacity src);
            buf \<leftarrow> c_write b 0 d;
            Some (src\<lparr>ios_buf := buf\<rparr>, h1) }
      else Some (src, h))"

definition z_iosli_clone :: "'h heap \<Rightarrow> z_iosli \<Rightarrow> 'h \<Rightarrow> (z_iosli option \<times> 'h) option" where
  "z_iosli_clone H src h =
     (case mal_slis H z_iosli_size h of
        (None, h1) \<Rightarrow> Some (None, h1)
      | (Some _, h1) \<Rightarrow> do { (dst, h2) \<leftarrow> z_iosli_copy H src h1; Some (Some dst, h2) })"

section \<open>Read buffers\<close>

text \<open>\<open>zb_slice\<close> is the counted reference to the block, \<open>None\<close> for the null reference.\<close>

record z_zbuf =
  zb_ios :: z_iosli
  zb_slice :: "bytes option"

definition z_zbuf_null :: z_zbuf where
  "z_zbuf_null = \<lparr>zb_ios = z_iosli_null, zb_slice = None\<rparr>"

definition z_zbuf_reset :: "z_zbuf \<Rightarrow> z_zbuf" where
  "z_zbuf_reset zbf = zbf\<lparr>zb_ios := z_iosli_reset (zb_ios zbf)\<rparr>"

definition z_zbuf_capacity :: "z_zbuf \<Rightarrow> nat" where "z_zbuf_capacity zbf = ios_capacity (zb_ios zbf)"
definition z_zbuf_space_left :: "z_zbuf \<Rightarrow> nat" where "z_zbuf_space_left zbf = z_iosli_writable (zb_ios zbf)"
definition z_zbuf_len :: "z_zbuf \<Rightarrow> nat" where "z_zbuf_len zbf = z_iosli_readable (zb_ios zbf)"
definition z_zbuf_can_read :: "z_zbuf \<Rightarrow> bool" where "z_zbuf_can_read zbf = z_iosli_can_read (zb_ios zbf)"

definition z_zbuf_read :: "z_zbuf \<Rightarrow> (u8 \<times> z_zbuf) option" where
  "z_zbuf_read zbf = do { (b, ios) \<leftarrow> z_iosli_read (zb_ios zbf); Some (b, zbf\<lparr>zb_ios := ios\<rparr>) }"

definition z_zbuf_read_as_ref :: "z_zbuf \<Rightarrow> (nat \<times> z_zbuf) option" where
  "z_zbuf_read_as_ref zbf = do { (p, ios) \<leftarrow> z_iosli_read_as_ref (zb_ios zbf); Some (p, zbf\<lparr>zb_ios := ios\<rparr>) }"

definition z_zbuf_get :: "z_zbuf \<Rightarrow> nat \<Rightarrow> u8 option" where "z_zbuf_get zbf pos = z_iosli_get (zb_ios zbf) pos"
definition z_zbuf_get_rpos :: "z_zbuf \<Rightarrow> nat" where "z_zbuf_get_rpos zbf = ios_r_pos (zb_ios zbf)"
definition z_zbuf_get_wpos :: "z_zbuf \<Rightarrow> nat" where "z_zbuf_get_wpos zbf = ios_w_pos (zb_ios zbf)"

definition z_zbuf_set_rpos :: "z_zbuf \<Rightarrow> nat \<Rightarrow> z_zbuf option" where
  "z_zbuf_set_rpos zbf p = do {
     assert_c (p \<le> ios_w_pos (zb_ios zbf));
     Some (zbf\<lparr>zb_ios := (zb_ios zbf)\<lparr>ios_r_pos := p\<rparr>\<rparr>) }"

definition z_zbuf_set_wpos :: "z_zbuf \<Rightarrow> nat \<Rightarrow> z_zbuf option" where
  "z_zbuf_set_wpos zbf p = do {
     assert_c (p \<le> ios_capacity (zb_ios zbf));
     Some (zbf\<lparr>zb_ios := (zb_ios zbf)\<lparr>ios_w_pos := p\<rparr>\<rparr>) }"

text \<open>The memory from the read position on.\<close>

definition z_zbuf_get_rptr :: "z_zbuf \<Rightarrow> bytes" where
  "z_zbuf_get_rptr zbf = drop (ios_r_pos (zb_ios zbf)) (ios_buf (zb_ios zbf))"

definition z_zbuf_make :: "'h heap \<Rightarrow> nat \<Rightarrow> 'h \<Rightarrow> z_zbuf \<times> 'h" where
  "z_zbuf_make H capacity h =
     (let (ios, h1) = z_iosli_make H capacity h;
          zbf = z_zbuf_null\<lparr>zb_ios := ios\<rparr>
      in if z_zbuf_capacity zbf = 0 then (zbf, h1)
         else
           let (ok, h2) = mal_rc H h1;
               zbf1 = (if ok then zbf\<lparr>zb_slice := Some (ios_buf ios)\<rparr>
                       else zbf\<lparr>zb_ios := z_iosli_clear ios, zb_slice := None\<rparr>)
           in (zbf1\<lparr>zb_ios := (zb_ios zbf1)\<lparr>ios_is_alloc := False\<rparr>\<rparr>, h2))"

definition z_zbuf_view :: "z_zbuf \<Rightarrow> nat \<Rightarrow> z_zbuf option" where
  "z_zbuf_view zbf n = do {
     assert_c (n \<le> z_iosli_readable (zb_ios zbf));
     ios \<leftarrow> z_iosli_wrap (z_zbuf_get_rptr zbf) n 0 n;
     Some \<lparr>zb_ios = ios, zb_slice = zb_slice zbf\<rparr> }"

definition z_slice_as_zbuf :: "bytes \<Rightarrow> z_zbuf" where
  "z_slice_as_zbuf s =
     \<lparr>zb_ios = \<lparr>ios_r_pos = 0, ios_w_pos = length s, ios_capacity = length s, ios_buf = s, ios_is_alloc = False\<rparr>,
      zb_slice = None\<rparr>"

definition z_zbuf_copy_bytes :: "z_zbuf \<Rightarrow> z_zbuf \<Rightarrow> z_zbuf option" where
  "z_zbuf_copy_bytes dst src = do {
     ios \<leftarrow> z_iosli_copy_bytes (zb_ios dst) (zb_ios src);
     Some (dst\<lparr>zb_ios := ios\<rparr>) }"

definition z_zbuf_copy :: "z_zbuf \<Rightarrow> z_zbuf \<Rightarrow> z_zbuf option" where
  "z_zbuf_copy dst src = z_zbuf_copy_bytes (dst\<lparr>zb_slice := zb_slice src\<rparr>) src"

definition z_zbuf_read_bytes :: "z_zbuf \<Rightarrow> bytes \<Rightarrow> nat \<Rightarrow> nat \<Rightarrow> (bytes \<times> z_zbuf) option" where
  "z_zbuf_read_bytes zbf dst off n = do {
     (dst', ios) \<leftarrow> z_iosli_read_bytes (zb_ios zbf) dst off n;
     Some (dst', zbf\<lparr>zb_ios := ios\<rparr>) }"

definition z_zbuf_clear :: "z_zbuf \<Rightarrow> z_zbuf" where
  "z_zbuf_clear zbf = \<lparr>zb_ios = z_iosli_clear (zb_ios zbf), zb_slice = None\<rparr>"

definition z_zbuf_compact :: "z_zbuf \<Rightarrow> z_zbuf option" where
  "z_zbuf_compact zbf =
     (let ios = zb_ios zbf
      in if ios_r_pos ios \<noteq> 0 \<or> ios_w_pos ios \<noteq> 0 then do {
           let n = z_iosli_readable ios;
           d \<leftarrow> c_read (ios_buf ios) (ios_r_pos ios) n;
           buf \<leftarrow> c_write (ios_buf ios) 0 d;
           zbf1 \<leftarrow> z_zbuf_set_rpos (zbf\<lparr>zb_ios := ios\<lparr>ios_buf := buf\<rparr>\<rparr>) 0;
           z_zbuf_set_wpos zbf1 n }
         else Some zbf)"

definition z_zbuf_free :: "z_zbuf option \<Rightarrow> z_zbuf option" where
  "z_zbuf_free p = None"

section \<open>Slices are byte queues\<close>

definition ios_ok :: "z_iosli \<Rightarrow> bool" where
  "ios_ok ios \<longleftrightarrow> ios_r_pos ios \<le> ios_w_pos ios \<and> ios_w_pos ios \<le> ios_capacity ios \<and>
     ios_capacity ios \<le> length (ios_buf ios)"

definition ios_data :: "z_iosli \<Rightarrow> bytes" where
  "ios_data ios = slice (ios_buf ios) (ios_r_pos ios) (ios_w_pos ios - ios_r_pos ios)"

definition ios_space :: "z_iosli \<Rightarrow> nat" where
  "ios_space ios = ios_capacity ios - ios_w_pos ios"

lemma length_ios_data: "ios_ok ios \<Longrightarrow> length (ios_data ios) = ios_w_pos ios - ios_r_pos ios"
  by (auto simp: ios_ok_def ios_data_def min_def)

lemma ios_sizes [simp]:
  assumes "ios_ok ios"
  shows "z_iosli_writable ios = ios_space ios" "z_iosli_readable ios = length (ios_data ios)"
    "z_iosli_can_write ios \<longleftrightarrow> 0 < ios_space ios" "z_iosli_can_read ios \<longleftrightarrow> ios_data ios \<noteq> []"
proof -
  note length_ios_data [OF assms]
  then show "z_iosli_readable ios = length (ios_data ios)" "z_iosli_can_read ios \<longleftrightarrow> ios_data ios \<noteq> []"
    using assms by (auto simp: ios_ok_def z_iosli_readable_def z_iosli_can_read_def simp flip: length_0_conv)
qed (use assms in \<open>auto simp: ios_ok_def z_iosli_writable_def z_iosli_can_write_def ios_space_def\<close>)

lemma ios_r_le: "ios_ok ios \<Longrightarrow> ios_r_pos ios + length (ios_data ios) = ios_w_pos ios"
  by (simp add: length_ios_data) (simp add: ios_ok_def)

lemma slice_memcpy_append:
  "r \<le> w \<Longrightarrow> w + length d \<le> length buf \<Longrightarrow>
    slice (memcpy_at buf w d) r (w + length d - r) = slice buf r (w - r) @ d"
proof -
  assume a: "r \<le> w" "w + length d \<le> length buf"
  have "drop r (memcpy_at buf w d) = drop r (take w buf) @ d @ drop (w + length d) buf"
    using a by (simp add: memcpy_at_def)
  moreover have "drop r (take w buf) = slice buf r (w - r)" by (simp add: slice_def drop_take)
  moreover have "length (slice buf r (w - r)) = w - r" "w + length d - r = (w - r) + length d" using a by auto
  ultimately show ?thesis by (simp add: slice_def)
qed

lemma memcpy_at_single: "w < length buf \<Longrightarrow> memcpy_at buf w [b] = buf[w := b]"
  by (simp add: memcpy_at_def upd_conv_take_nth_drop)

lemma ios_write_bytes:
  assumes "ios_ok ios" "n \<le> ios_space ios" "off + n \<le> length bs"
  shows "\<exists>ios'. z_iosli_write_bytes ios bs off n = Some ios' \<and> ios_ok ios' \<and> ios_data ios' = ios_data ios @ slice bs off n \<and>
    ios_space ios' = ios_space ios - n \<and> ios_capacity ios' = ios_capacity ios \<and> ios_is_alloc ios' = ios_is_alloc ios \<and>
    ios_r_pos ios' = ios_r_pos ios \<and> length (ios_buf ios') = length (ios_buf ios)"
proof -
  have l: "ios_w_pos ios + n \<le> length (ios_buf ios)" "length (slice bs off n) = n" "ios_r_pos ios \<le> ios_w_pos ios"
    using assms by (auto simp: ios_ok_def ios_space_def)
  note d = slice_memcpy_append [of "ios_r_pos ios" "ios_w_pos ios" "slice bs off n" "ios_buf ios", unfolded l(2)]
  have "ios_w_pos ios + n \<le> ios_capacity ios" using assms by (simp add: ios_ok_def ios_space_def) arith
  then show ?thesis using assms l d by (simp add: z_iosli_write_bytes_def ios_ok_def ios_data_def ios_space_def)
qed

lemma ios_write:
  assumes "ios_ok ios" "0 < ios_space ios"
  shows "\<exists>ios'. z_iosli_write ios b = Some ios' \<and> ios_ok ios' \<and> ios_data ios' = ios_data ios @ [b] \<and>
    ios_space ios' = ios_space ios - 1 \<and> ios_capacity ios' = ios_capacity ios \<and> ios_is_alloc ios' = ios_is_alloc ios \<and>
    ios_r_pos ios' = ios_r_pos ios \<and> length (ios_buf ios') = length (ios_buf ios)"
proof -
  have l: "ios_w_pos ios < length (ios_buf ios)" "ios_r_pos ios \<le> ios_w_pos ios"
    using assms by (auto simp: ios_ok_def ios_space_def)
  then have "slice ((ios_buf ios)[ios_w_pos ios := b]) (ios_r_pos ios) (ios_w_pos ios + 1 - ios_r_pos ios) = ios_data ios @ [b]"
    using slice_memcpy_append [of "ios_r_pos ios" "ios_w_pos ios" "[b]" "ios_buf ios"]
    by (simp add: memcpy_at_single ios_data_def)
  then show ?thesis using assms l by (auto simp: z_iosli_write_def ios_ok_def ios_data_def ios_space_def)
qed

lemma slice_Suc: "r < length buf \<Longrightarrow> slice buf r (Suc n) = buf ! r # slice buf (Suc r) n"
  by (simp add: slice_def Cons_nth_drop_Suc [symmetric])

lemma ios_read:
  assumes "ios_ok ios" "ios_data ios = b # d"
  shows "\<exists>ios'. z_iosli_read ios = Some (b, ios') \<and> ios_ok ios' \<and> ios_data ios' = d \<and> ios_space ios' = ios_space ios \<and>
    ios_buf ios' = ios_buf ios \<and> ios_w_pos ios' = ios_w_pos ios \<and> ios_capacity ios' = ios_capacity ios \<and>
    ios_is_alloc ios' = ios_is_alloc ios"
proof -
  obtain n where n: "ios_w_pos ios - ios_r_pos ios = Suc n"
    using assms by (cases "ios_w_pos ios - ios_r_pos ios") (auto simp: ios_data_def slice_def)
  then have l: "ios_r_pos ios < length (ios_buf ios)" using assms(1) unfolding ios_ok_def by linarith
  then have "ios_buf ios ! ios_r_pos ios = b" "slice (ios_buf ios) (Suc (ios_r_pos ios)) n = d"
    using assms(2) n by (simp_all add: ios_data_def slice_Suc)
  moreover have "n = ios_w_pos ios - Suc (ios_r_pos ios)" "ios_r_pos ios < ios_w_pos ios" using n by simp_all
  ultimately show ?thesis using assms(1) n l by (simp add: z_iosli_read_def ios_ok_def ios_data_def ios_space_def)
qed

lemma slice_take_drop: "n \<le> m \<Longrightarrow> slice buf r n = take n (slice buf r m)" "slice buf (r + n) (m - n) = drop n (slice buf r m)"
  by (simp_all add: slice_def min_def drop_take add.commute)

lemma ios_advance:
  assumes "ios_ok ios" "n \<le> length (ios_data ios)"
  shows "slice (ios_buf ios) (ios_r_pos ios) n = take n (ios_data ios)"
    "ios_data (ios\<lparr>ios_r_pos := ios_r_pos ios + n\<rparr>) = drop n (ios_data ios)"
    "ios_ok (ios\<lparr>ios_r_pos := ios_r_pos ios + n\<rparr>)" "ios_r_pos ios + n \<le> length (ios_buf ios)"
proof -
  have r: "ios_r_pos ios + n \<le> ios_w_pos ios" using ios_r_le [OF assms(1)] assms(2) by simp
  then show "ios_r_pos ios + n \<le> length (ios_buf ios)" "ios_ok (ios\<lparr>ios_r_pos := ios_r_pos ios + n\<rparr>)"
    using assms(1) by (simp_all add: ios_ok_def)
  show "slice (ios_buf ios) (ios_r_pos ios) n = take n (ios_data ios)"
    "ios_data (ios\<lparr>ios_r_pos := ios_r_pos ios + n\<rparr>) = drop n (ios_data ios)"
    unfolding ios_data_def using r slice_take_drop(2) [of "ios_buf ios" "ios_r_pos ios" n "ios_w_pos ios - ios_r_pos ios"]
    by (simp_all add: slice_take_drop(1) [of n "ios_w_pos ios - ios_r_pos ios"])
qed

lemma ios_read_bytes:
  assumes "ios_ok ios" "n \<le> length (ios_data ios)" "off + n \<le> length dst"
  shows "\<exists>ios'. z_iosli_read_bytes ios dst off n = Some (memcpy_at dst off (take n (ios_data ios)), ios') \<and> ios_ok ios' \<and>
    ios_data ios' = drop n (ios_data ios) \<and> ios_space ios' = ios_space ios \<and> ios_buf ios' = ios_buf ios \<and>
    ios_w_pos ios' = ios_w_pos ios \<and> ios_capacity ios' = ios_capacity ios \<and> ios_is_alloc ios' = ios_is_alloc ios"
  using ios_advance [OF assms(1,2)] assms by (simp add: z_iosli_read_bytes_def ios_space_def min_absorb2)

lemma ios_make:
  assumes "malloc_ok 1 (mal_bytes H)"
  shows "ios_ok (fst (z_iosli_make H n h)) \<and> ios_data (fst (z_iosli_make H n h)) = [] \<and>
    ios_space (fst (z_iosli_make H n h)) = (if fst (mal_bytes H n h) = None then 0 else n)"
proof (cases "mal_bytes H n h")
  case (Pair b h')
  then show ?thesis
    using malloc_ok_length [OF assms, of n h _ h']
    by (cases b) (simp_all add: z_iosli_make_def z_iosli_init_def ios_ok_def ios_data_def ios_space_def slice_def)
qed

section \<open>Read buffers\<close>

definition zb_data :: "z_zbuf \<Rightarrow> bytes" where
  "zb_data zbf = ios_data (zb_ios zbf)"

definition zb_ok :: "z_zbuf \<Rightarrow> bool" where
  "zb_ok zbf \<longleftrightarrow> ios_ok (zb_ios zbf)"

lemma zb_sizes [simp]:
  "zb_ok zbf \<Longrightarrow> z_zbuf_len zbf = length (zb_data zbf)" "zb_ok zbf \<Longrightarrow> z_zbuf_can_read zbf \<longleftrightarrow> zb_data zbf \<noteq> []"
  by (simp_all add: zb_ok_def zb_data_def z_zbuf_len_def z_zbuf_can_read_def)

lemma zb_read:
  assumes "zb_ok zbf" "zb_data zbf = b # d"
  shows "\<exists>zbf'. z_zbuf_read zbf = Some (b, zbf') \<and> zb_ok zbf' \<and> zb_data zbf' = d"
  using ios_read [of "zb_ios zbf" b d] assms by (auto simp: z_zbuf_read_def zb_ok_def zb_data_def)

lemma slice_as_zbuf [simp]: "zb_ok (z_slice_as_zbuf s)" "zb_data (z_slice_as_zbuf s) = s"
  by (simp_all add: zb_ok_def zb_data_def z_slice_as_zbuf_def ios_ok_def ios_data_def slice_def)

lemma zb_view:
  assumes "zb_ok zbf" "n \<le> length (zb_data zbf)"
  shows "\<exists>v. z_zbuf_view zbf n = Some v \<and> zb_ok v \<and> zb_data v = take n (zb_data zbf)"
  using assms ios_r_le [of "zb_ios zbf"]
  by (auto simp: z_zbuf_view_def z_iosli_wrap_def zb_ok_def zb_data_def ios_ok_def ios_data_def slice_def z_zbuf_get_rptr_def)

lemma zb_compact:
  assumes "zb_ok zbf"
  shows "\<exists>zbf'. z_zbuf_compact zbf = Some zbf' \<and> zb_ok zbf' \<and> zb_data zbf' = zb_data zbf \<and>
    ios_r_pos (zb_ios zbf') = 0 \<and> ios_capacity (zb_ios zbf') = ios_capacity (zb_ios zbf)"
proof -
  let ?ios = "zb_ios zbf"
  have ok: "ios_ok ?ios" using assms by (simp add: zb_ok_def)
  show ?thesis
  proof (cases "ios_r_pos ?ios = 0 \<and> ios_w_pos ?ios = 0")
    case True
    then show ?thesis using assms by (simp add: z_zbuf_compact_def Let_def)
  next
    case False
    have l: "length (ios_data ?ios) \<le> ios_capacity ?ios" "ios_r_pos ?ios + length (ios_data ?ios) \<le> length (ios_buf ?ios)"
      "length (ios_data ?ios) \<le> length (ios_buf ?ios)"
      using ios_r_le [OF ok] ok by (auto simp: ios_ok_def)
    have d: "slice (ios_buf ?ios) (ios_r_pos ?ios) (length (ios_data ?ios)) = ios_data ?ios"
      unfolding length_ios_data [OF ok] by (simp add: ios_data_def)
    show ?thesis
      using False l d ok
      by (auto simp: z_zbuf_compact_def Let_def z_zbuf_set_rpos_def z_zbuf_set_wpos_def zb_ok_def zb_data_def ios_ok_def
          ios_data_def [of "_\<lparr>ios_w_pos := _\<rparr>"] slice_memcpy_same)
  qed
qed

end
