(* ===== verification/ZWBuf.thy ===== *)
theory ZWBuf
  imports ZIoBuf
begin

text \<open>
  The write buffers of \<open>protocol/iobuf.c\<close>: a vector of slices, the indices of the slices read and
  written next, and the size of the slices by which the buffer grows, 0 for a buffer that does not.
\<close>

section \<open>Operations\<close>

record z_wbuf =
  wb_ioss :: "z_iosli z_svec"
  wb_r_idx :: nat
  wb_w_idx :: nat
  wb_step :: nat

definition z_wbuf_null :: z_wbuf where
  "z_wbuf_null = \<lparr>wb_ioss = z_svec_null, wb_r_idx = 0, wb_w_idx = 0, wb_step = 0\<rparr>"

definition z_wbuf_get_iosli :: "z_wbuf \<Rightarrow> nat \<Rightarrow> z_iosli option" where
  "z_wbuf_get_iosli wbf i = z_svec_get (wb_ioss wbf) i"

text \<open>A change of the slice through the pointer that \<open>z_wbuf_get_iosli\<close> returned.\<close>

definition wb_set_iosli :: "z_wbuf \<Rightarrow> nat \<Rightarrow> z_iosli \<Rightarrow> z_wbuf" where
  "wb_set_iosli wbf i ios = wbf\<lparr>wb_ioss := (wb_ioss wbf)\<lparr>sv_val := (sv_val (wb_ioss wbf))[i := ios]\<rparr>\<rparr>"

text \<open>The vector's element functions do nothing when the slices move.\<close>

definition svec_append_iosli ::
  "'h heap \<Rightarrow> z_iosli z_svec \<Rightarrow> z_iosli \<Rightarrow> 'h \<Rightarrow> (z_res \<times> z_iosli z_svec \<times> 'h) option" where
  "svec_append_iosli H v ios h = z_svec_append (mal_slis H) z_iosli_size (\<lambda>d s. (d, s)) False v ios h"

definition z_wbuf_add_iosli :: "'h heap \<Rightarrow> z_wbuf \<Rightarrow> z_iosli \<Rightarrow> 'h \<Rightarrow> (z_res \<times> z_wbuf \<times> 'h) option" where
  "z_wbuf_add_iosli H wbf ios h = do {
     (res, v, h1) \<leftarrow> svec_append_iosli H (wb_ioss wbf) ios h;
     let wbf1 = wbf\<lparr>wb_ioss := v\<rparr>;
     Some (res, if res = Z_OK then wbf1\<lparr>wb_w_idx := size_add (wb_w_idx wbf1) 1\<rparr> else wbf1, h1) }"

definition z_wbuf_len_iosli :: "z_wbuf \<Rightarrow> nat" where
  "z_wbuf_len_iosli wbf = sv_len (wb_ioss wbf)"

definition z_wbuf_make :: "'h heap \<Rightarrow> nat \<Rightarrow> bool \<Rightarrow> 'h \<Rightarrow> (z_wbuf \<times> 'h) option" where
  "z_wbuf_make H capacity is_expandable h = do {
     let (v, h1) = z_svec_make (mal_slis H) z_iosli_size (if is_expandable then 5 else 1) h;
     let (ios, h2) = z_iosli_make H capacity h1;
     (res, v1, h3) \<leftarrow> svec_append_iosli H v ios h2;
     Some (\<lparr>wb_ioss = v1, wb_r_idx = 0, wb_w_idx = 0, wb_step = (if is_expandable then capacity else 0)\<rparr>, h3) }"

text \<open>The sums of the loops over the slices \<open>i\<close>, \<open>i + 1\<close>, \<open>\<dots>\<close>, \<open>k\<close> of them.\<close>

fun sum_slices :: "(z_iosli \<Rightarrow> nat) \<Rightarrow> z_wbuf \<Rightarrow> nat \<Rightarrow> nat \<Rightarrow> nat \<Rightarrow> nat option" where
  "sum_slices f wbf 0 i acc = Some acc"
| "sum_slices f wbf (Suc k) i acc = do {
     ios \<leftarrow> z_wbuf_get_iosli wbf i;
     sum_slices f wbf k (i + 1) (size_add acc (f ios)) }"

definition z_wbuf_capacity :: "z_wbuf \<Rightarrow> nat option" where
  "z_wbuf_capacity wbf = sum_slices ios_capacity wbf (z_wbuf_len_iosli wbf) 0 0"

definition z_wbuf_len :: "z_wbuf \<Rightarrow> nat option" where
  "z_wbuf_len wbf =
     sum_slices z_iosli_readable wbf (min (z_wbuf_len_iosli wbf) (wb_w_idx wbf + 1) - wb_r_idx wbf) (wb_r_idx wbf) 0"

definition z_wbuf_space_left :: "z_wbuf \<Rightarrow> nat option" where
  "z_wbuf_space_left wbf = do { ios \<leftarrow> z_wbuf_get_iosli wbf (wb_w_idx wbf); Some (z_iosli_writable ios) }"

partial_function (option) z_wbuf_read :: "z_wbuf \<Rightarrow> (u8 \<times> z_wbuf) option" where
  "z_wbuf_read wbf = do {
     assert_c (wb_r_idx wbf \<le> wb_w_idx wbf);
     ios \<leftarrow> z_wbuf_get_iosli wbf (wb_r_idx wbf);
     if 0 < z_iosli_readable ios then do {
       (b, ios1) \<leftarrow> z_iosli_read ios;
       Some (b, wb_set_iosli wbf (wb_r_idx wbf) ios1) }
     else z_wbuf_read (wbf\<lparr>wb_r_idx := size_add (wb_r_idx wbf) 1\<rparr>) }"

partial_function (option) z_wbuf_read_bytes :: "z_wbuf \<Rightarrow> bytes \<Rightarrow> nat \<Rightarrow> nat \<Rightarrow> (bytes \<times> z_wbuf) option" where
  "z_wbuf_read_bytes wbf dst off n = do {
     assert_c (wb_r_idx wbf \<le> wb_w_idx wbf);
     ios \<leftarrow> z_wbuf_get_iosli wbf (wb_r_idx wbf);
     let readable = z_iosli_readable ios;
     (dst1, wbf1, off1, n1) \<leftarrow>
       (if 0 < readable then do {
          let to_read = (if readable \<le> n then readable else n);
          (dst1, ios1) \<leftarrow> z_iosli_read_bytes ios dst off to_read;
          Some (dst1, wb_set_iosli wbf (wb_r_idx wbf) ios1, off + to_read, n - to_read) }
        else Some (dst, wbf\<lparr>wb_r_idx := size_add (wb_r_idx wbf) 1\<rparr>, off, n));
     if 0 < n1 then z_wbuf_read_bytes wbf1 dst1 off1 n1 else Some (dst1, wbf1) }"

text \<open>The slice that holds a position counted by capacities, and the position in it.\<close>

partial_function (option) find_pos :: "z_wbuf \<Rightarrow> nat \<Rightarrow> nat \<Rightarrow> (nat \<times> nat) option" where
  "find_pos wbf current i = do {
     assert_c (i < z_wbuf_len_iosli wbf);
     ios \<leftarrow> z_wbuf_get_iosli wbf i;
     if current < ios_capacity ios then Some (i, current)
     else find_pos wbf (current - ios_capacity ios) (i + 1) }"

definition z_wbuf_get :: "z_wbuf \<Rightarrow> nat \<Rightarrow> u8 option" where
  "z_wbuf_get wbf pos = do {
     (i, current) \<leftarrow> find_pos wbf pos 0;
     ios \<leftarrow> z_wbuf_get_iosli wbf i;
     z_iosli_get ios current }"

definition z_wbuf_put :: "z_wbuf \<Rightarrow> u8 \<Rightarrow> nat \<Rightarrow> z_wbuf option" where
  "z_wbuf_put wbf b pos = do {
     (i, current) \<leftarrow> find_pos wbf pos 0;
     ios \<leftarrow> z_wbuf_get_iosli wbf i;
     ios1 \<leftarrow> z_iosli_put ios b current;
     Some (wb_set_iosli wbf i ios1) }"

definition z_wbuf_write :: "'h heap \<Rightarrow> z_wbuf \<Rightarrow> u8 \<Rightarrow> 'h \<Rightarrow> (z_res \<times> z_wbuf \<times> 'h) option" where
  "z_wbuf_write H wbf b h = do {
     ios \<leftarrow> z_wbuf_get_iosli wbf (wb_w_idx wbf);
     (res, wbf1, h1) \<leftarrow>
       (if \<not> z_iosli_can_write ios then
          if z_wbuf_len_iosli wbf \<le> wb_w_idx wbf + 1 then
            if wb_step wbf = 0 then Some (Z_ERR_TRANSPORT_NO_SPACE, wbf, h)
            else let (tmp, h1) = z_iosli_make H (wb_step wbf) h in z_wbuf_add_iosli H wbf tmp h1
          else Some (Z_OK, wbf\<lparr>wb_w_idx := wb_w_idx wbf + 1\<rparr>, h)
        else Some (Z_OK, wbf, h));
     if res \<noteq> Z_OK then Some (res, wbf1, h1)
     else do {
       ios1 \<leftarrow> z_wbuf_get_iosli wbf1 (wb_w_idx wbf1);
       ios2 \<leftarrow> z_iosli_write ios1 b;
       Some (Z_OK, wb_set_iosli wbf1 (wb_w_idx wbf1) ios2, h1) } }"

text \<open>The loop that expands the buffer until the rest of the data, \<open>n\<close> bytes from \<open>off\<close> on, is written.\<close>

partial_function (option) expand_loop ::
  "'h heap \<Rightarrow> z_wbuf \<Rightarrow> bytes \<Rightarrow> nat \<Rightarrow> nat \<Rightarrow> 'h \<Rightarrow> (z_res \<times> z_wbuf \<times> 'h) option" where
  "expand_loop H wbf bs off n h =
     (if 0 < n then
        let (tmp, h1) = z_iosli_make H (wb_step wbf) h in do {
        (res, wbf1, h2) \<leftarrow> z_wbuf_add_iosli H wbf tmp h1;
        if res \<noteq> Z_OK then Some (res, wbf1, h2)
        else do {
          ios \<leftarrow> z_wbuf_get_iosli wbf1 (wb_w_idx wbf1);
          let writable = min (z_iosli_writable ios) n;
          ios1 \<leftarrow> z_iosli_write_bytes ios bs off writable;
          expand_loop H (wb_set_iosli wbf1 (wb_w_idx wbf1) ios1) bs (off + writable) (n - writable) h2 } }
      else Some (Z_OK, wbf, h))"

definition z_wbuf_write_bytes ::
  "'h heap \<Rightarrow> z_wbuf \<Rightarrow> bytes \<Rightarrow> nat \<Rightarrow> nat \<Rightarrow> 'h \<Rightarrow> (z_res \<times> z_wbuf \<times> 'h) option" where
  "z_wbuf_write_bytes H wbf bs off n h = do {
     ios \<leftarrow> z_wbuf_get_iosli wbf (wb_w_idx wbf);
     let writable = z_iosli_writable ios;
     if n \<le> writable then do {
       ios1 \<leftarrow> z_iosli_write_bytes ios bs off n;
       Some (Z_OK, wb_set_iosli wbf (wb_w_idx wbf) ios1, h) }
     else if wb_step wbf \<noteq> 0 then do {
       ios1 \<leftarrow> z_iosli_write_bytes ios bs off writable;
       expand_loop H (wb_set_iosli wbf (wb_w_idx wbf) ios1) bs (off + writable) (n - writable) h }
     else Some (Z_ERR_TRANSPORT_NO_SPACE, wbf, h) }"

definition z_wbuf_wrap_bytes ::
  "'h heap \<Rightarrow> z_wbuf \<Rightarrow> bytes \<Rightarrow> nat \<Rightarrow> nat \<Rightarrow> 'h \<Rightarrow> (z_res \<times> z_wbuf \<times> 'h) option" where
  "z_wbuf_wrap_bytes H wbf bs off n h = do {
     ios \<leftarrow> z_wbuf_get_iosli wbf (wb_w_idx wbf);
     let curr_space = z_iosli_writable ios;
     let wbf1 = wb_set_iosli wbf (wb_w_idx wbf) (ios\<lparr>ios_capacity := ios_w_pos ios\<rparr>);
     wios \<leftarrow> z_iosli_wrap bs n off (off + n);
     (res, wbf2, h1) \<leftarrow> z_wbuf_add_iosli H wbf1 wios h;
     if res \<noteq> Z_OK then Some (res, wbf2, h1)
     else do {
       ios1 \<leftarrow> z_wbuf_get_iosli wbf2 (wb_w_idx wbf2 - 1);
       wios1 \<leftarrow> z_iosli_wrap (drop (ios_w_pos ios1) (ios_buf ios1)) curr_space 0 0;
       z_wbuf_add_iosli H wbf2 wios1 h1 } }"

definition z_wbuf_get_rpos :: "z_wbuf \<Rightarrow> nat option" where
  "z_wbuf_get_rpos wbf = do {
     pos \<leftarrow> sum_slices ios_capacity wbf (wb_r_idx wbf) 0 0;
     ios \<leftarrow> z_wbuf_get_iosli wbf (wb_r_idx wbf);
     Some (size_add pos (ios_r_pos ios)) }"

definition z_wbuf_get_wpos :: "z_wbuf \<Rightarrow> nat option" where
  "z_wbuf_get_wpos wbf = do {
     pos \<leftarrow> sum_slices ios_capacity wbf (wb_w_idx wbf) 0 0;
     ios \<leftarrow> z_wbuf_get_iosli wbf (wb_w_idx wbf);
     Some (size_add pos (ios_w_pos ios)) }"

partial_function (option) set_rpos_loop :: "z_wbuf \<Rightarrow> nat \<Rightarrow> nat \<Rightarrow> z_wbuf option" where
  "set_rpos_loop wbf current i = do {
     assert_c (i \<le> wb_w_idx wbf);
     ios \<leftarrow> z_wbuf_get_iosli wbf i;
     if current \<le> ios_w_pos ios then
       Some (wb_set_iosli (wbf\<lparr>wb_r_idx := i\<rparr>) i (ios\<lparr>ios_r_pos := current\<rparr>))
     else set_rpos_loop (wb_set_iosli wbf i (ios\<lparr>ios_r_pos := ios_w_pos ios\<rparr>))
            (size_sub current (ios_capacity ios)) (i + 1) }"

definition z_wbuf_set_rpos :: "z_wbuf \<Rightarrow> nat \<Rightarrow> z_wbuf option" where
  "z_wbuf_set_rpos wbf pos = set_rpos_loop wbf pos 0"

partial_function (option) set_wpos_loop :: "z_wbuf \<Rightarrow> nat \<Rightarrow> nat \<Rightarrow> z_wbuf option" where
  "set_wpos_loop wbf current i = do {
     assert_c (i \<le> z_wbuf_len_iosli wbf);
     ios \<leftarrow> z_wbuf_get_iosli wbf i;
     if current \<le> ios_capacity ios \<and> ios_r_pos ios \<le> current then
       Some (wb_set_iosli (wbf\<lparr>wb_w_idx := i\<rparr>) i (ios\<lparr>ios_w_pos := current\<rparr>))
     else set_wpos_loop (wb_set_iosli wbf i (ios\<lparr>ios_w_pos := ios_capacity ios\<rparr>))
            (size_sub current (ios_capacity ios)) (i + 1) }"

definition z_wbuf_set_wpos :: "z_wbuf \<Rightarrow> nat \<Rightarrow> z_wbuf option" where
  "z_wbuf_set_wpos wbf pos = set_wpos_loop wbf pos 0"

fun to_zbuf_loop :: "z_wbuf \<Rightarrow> nat \<Rightarrow> nat \<Rightarrow> z_zbuf \<Rightarrow> z_zbuf option" where
  "to_zbuf_loop wbf 0 i zbf = Some zbf"
| "to_zbuf_loop wbf (Suc k) i zbf = do {
     ios \<leftarrow> z_wbuf_get_iosli wbf i;
     zios \<leftarrow> z_iosli_write_bytes (zb_ios zbf) (ios_buf ios) (ios_r_pos ios) (z_iosli_readable ios);
     to_zbuf_loop wbf k (i + 1) (zbf\<lparr>zb_ios := zios\<rparr>) }"

definition z_wbuf_to_zbuf :: "'h heap \<Rightarrow> z_wbuf \<Rightarrow> 'h \<Rightarrow> (z_zbuf \<times> 'h) option" where
  "z_wbuf_to_zbuf H wbf h = do {
     n \<leftarrow> z_wbuf_len wbf;
     let (zbf, h1) = z_zbuf_make H n h;
     zbf1 \<leftarrow> to_zbuf_loop wbf (wb_w_idx wbf + 1 - wb_r_idx wbf) (wb_r_idx wbf) zbf;
     Some (zbf1, h1) }"

definition z_wbuf_clear :: "z_wbuf \<Rightarrow> z_wbuf option" where
  "z_wbuf_clear wbf = do {
     (v, _) \<leftarrow> z_svec_clear (Some (\<lambda>ios u. (z_iosli_clear ios, u))) (wb_ioss wbf) ();
     Some z_wbuf_null }"

text \<open>Results: the read buffer, the write buffer and the heap.\<close>

definition z_wbuf_moved_as_zbuf :: "'h heap \<Rightarrow> z_wbuf \<Rightarrow> 'h \<Rightarrow> (z_zbuf \<times> z_wbuf \<times> 'h) option" where
  "z_wbuf_moved_as_zbuf H wbf h = do {
     assert_c (z_wbuf_len_iosli wbf = 1);
     ios \<leftarrow> z_wbuf_get_iosli wbf 0;
     let (zios, rest) = z_iosli_steal ios;
     let (ok, h1) = mal_rc H h;
     let zbf = \<lparr>zb_ios = zios\<lparr>ios_is_alloc := False\<rparr>, zb_slice = (if ok then Some (ios_buf zios) else None)\<rparr>;
     wbf1 \<leftarrow> z_wbuf_clear (wb_set_iosli wbf 0 rest);
     Some (zbf, wbf1, h1) }"

partial_function (option) siphon_loop :: "z_iosli \<Rightarrow> z_wbuf \<Rightarrow> nat \<Rightarrow> (z_iosli \<times> z_wbuf) option" where
  "siphon_loop wios src n = do {
     assert_c (wb_r_idx src \<le> wb_w_idx src);
     rios \<leftarrow> z_wbuf_get_iosli src (wb_r_idx src);
     let readable = z_iosli_readable rios;
     (wios1, src1, n1) \<leftarrow>
       (if 0 < readable then do {
          let to_read = (if readable \<le> n then readable else n);
          d \<leftarrow> c_read (ios_buf rios) (ios_r_pos rios) to_read;
          buf \<leftarrow> c_write (ios_buf wios) (ios_w_pos wios) d;
          Some (wios\<lparr>ios_buf := buf, ios_w_pos := ios_w_pos wios + to_read\<rparr>,
            wb_set_iosli src (wb_r_idx src) (rios\<lparr>ios_r_pos := ios_r_pos rios + to_read\<rparr>), n - to_read) }
        else Some (wios, src\<lparr>wb_r_idx := wb_r_idx src + 1\<rparr>, n));
     if 0 < n1 then siphon_loop wios1 src1 n1 else Some (wios1, src1) }"

text \<open>Results: the code, the destination and the source, which are different buffers.\<close>

definition z_wbuf_siphon :: "z_wbuf \<Rightarrow> z_wbuf \<Rightarrow> nat \<Rightarrow> (z_res \<times> z_wbuf \<times> z_wbuf) option" where
  "z_wbuf_siphon dst src n = do {
     wios \<leftarrow> z_wbuf_get_iosli dst (wb_w_idx dst);
     if n \<le> z_iosli_writable wios then do {
       (wios1, src1) \<leftarrow> siphon_loop wios src n;
       Some (Z_OK, wb_set_iosli dst (wb_w_idx dst) wios1, src1) }
     else Some (Z_ERR_TRANSPORT_NO_SPACE, dst, src) }"

definition z_wbuf_copy :: "'h heap \<Rightarrow> z_wbuf \<Rightarrow> 'h \<Rightarrow> (z_wbuf \<times> 'h) option" where
  "z_wbuf_copy H src h = do {
     (_, v, h1) \<leftarrow> z_svec_copy (mal_slis H) z_iosli_size (\<lambda>d s u. (s, u)) False (wb_ioss src) h;
     Some (\<lparr>wb_ioss = v, wb_r_idx = wb_r_idx src, wb_w_idx = wb_w_idx src, wb_step = wb_step src\<rparr>, h1) }"

text \<open>The loop looks at slice \<open>i\<close>; the index grows after a removal, too.\<close>

partial_function (option) reset_loop :: "z_wbuf \<Rightarrow> nat \<Rightarrow> z_wbuf option" where
  "reset_loop wbf i =
     (if i < z_wbuf_len_iosli wbf then do {
        ios \<leftarrow> z_wbuf_get_iosli wbf i;
        if \<not> ios_is_alloc ios then do {
          (v, _) \<leftarrow> z_svec_remove z_iosli_size (\<lambda>ios u. (z_iosli_clear ios, u)) (\<lambda>d s. (d, s)) False (wb_ioss wbf) i ();
          reset_loop (wbf\<lparr>wb_ioss := v\<rparr>) (i + 1) }
        else reset_loop (wb_set_iosli wbf i (z_iosli_reset ios)) (i + 1) }
      else Some wbf)"

definition z_wbuf_reset :: "z_wbuf \<Rightarrow> z_wbuf option" where
  "z_wbuf_reset wbf = reset_loop (wbf\<lparr>wb_r_idx := 0, wb_w_idx := 0\<rparr>) 0"

definition z_wbuf_free :: "z_wbuf option \<Rightarrow> z_wbuf option" where
  "z_wbuf_free p = None"

section \<open>Well-formed buffers\<close>

definition wb_slices :: "z_wbuf \<Rightarrow> z_iosli list" where
  "wb_slices wbf = svec_items (wb_ioss wbf)"

text \<open>The last slice is the one written next.\<close>

definition wb_ok :: "z_wbuf \<Rightarrow> bool" where
  "wb_ok wbf \<longleftrightarrow> svec_ok (wb_ioss wbf) \<and> wb_r_idx wbf \<le> wb_w_idx wbf \<and> sv_len (wb_ioss wbf) = wb_w_idx wbf + 1 \<and>
     (\<forall>ios\<in>set (wb_slices wbf). ios_ok ios)"

definition wb_data :: "z_wbuf \<Rightarrow> bytes" where
  "wb_data wbf = concat (map ios_data (drop (wb_r_idx wbf) (wb_slices wbf)))"

definition wb_space :: "z_wbuf \<Rightarrow> nat" where
  "wb_space wbf = ios_space (wb_slices wbf ! wb_w_idx wbf)"

definition heap_ok :: "'h heap \<Rightarrow> bool" where
  "heap_ok H \<longleftrightarrow> malloc_ok 1 (mal_bytes H) \<and> malloc_ok z_iosli_size (mal_slis H)"

text \<open>A heap that never runs out of bytes.\<close>

definition heap_gives :: "'h heap \<Rightarrow> bool" where
  "heap_gives H \<longleftrightarrow> (\<forall>n h. fst (mal_bytes H n h) \<noteq> None)"

lemma wb_length: "wb_ok wbf \<Longrightarrow> length (wb_slices wbf) = wb_w_idx wbf + 1"
  by (simp add: wb_ok_def wb_slices_def)

lemma wb_get: "wb_ok wbf \<Longrightarrow> i \<le> wb_w_idx wbf \<Longrightarrow> z_wbuf_get_iosli wbf i = Some (wb_slices wbf ! i)"
  by (simp add: wb_ok_def wb_slices_def z_wbuf_get_iosli_def z_svec_get_def svec_items_def svec_ok_def)

lemma wb_slice_ok: "wb_ok wbf \<Longrightarrow> i \<le> wb_w_idx wbf \<Longrightarrow> ios_ok (wb_slices wbf ! i)"
  using wb_length [of wbf] by (simp add: wb_ok_def)

lemma wb_set_simps [simp]:
  "wb_slices (wb_set_iosli wbf i ios) = (wb_slices wbf)[i := ios]"
  "wb_r_idx (wb_set_iosli wbf i ios) = wb_r_idx wbf" "wb_w_idx (wb_set_iosli wbf i ios) = wb_w_idx wbf"
  "wb_step (wb_set_iosli wbf i ios) = wb_step wbf"
  "sv_len (wb_ioss (wb_set_iosli wbf i ios)) = sv_len (wb_ioss wbf)"
  "sv_capacity (wb_ioss (wb_set_iosli wbf i ios)) = sv_capacity (wb_ioss wbf)"
  by (simp_all add: wb_slices_def svec_items_def wb_set_iosli_def take_update_swap)

lemma wb_set_ok [simp]: "wb_ok wbf \<Longrightarrow> ios_ok ios \<Longrightarrow> wb_ok (wb_set_iosli wbf i ios)"
  by (auto simp: wb_ok_def svec_ok_def wb_set_iosli_def wb_slices_def svec_items_def take_update_swap
      dest!: subsetD [OF set_update_subset_insert])

lemma wb_split:
  assumes "wb_ok wbf"
  shows "wb_slices wbf = butlast (wb_slices wbf) @ [wb_slices wbf ! wb_w_idx wbf]"
    "length (butlast (wb_slices wbf)) = wb_w_idx wbf"
proof -
  have "wb_slices wbf \<noteq> []" using wb_length [OF assms] by auto
  moreover have "last (wb_slices wbf) = wb_slices wbf ! wb_w_idx wbf"
    using wb_length [OF assms] by (simp add: last_conv_nth [OF calculation])
  ultimately show "wb_slices wbf = butlast (wb_slices wbf) @ [wb_slices wbf ! wb_w_idx wbf]"
    by (metis append_butlast_last_id)
qed (simp add: wb_length [OF assms])

text \<open>A change of the slice written next changes the end of the data.\<close>

definition wb_front :: "z_wbuf \<Rightarrow> bytes" where
  "wb_front wbf = concat (map ios_data (drop (wb_r_idx wbf) (butlast (wb_slices wbf))))"

text \<open>What writing leaves as it is: the indices, and of every slice the read position, the capacity and the owner.\<close>

definition ios_shape :: "z_iosli \<Rightarrow> nat \<times> nat \<times> bool" where
  "ios_shape ios = (ios_r_pos ios, ios_capacity ios, ios_is_alloc ios)"

definition wb_shape :: "z_wbuf \<Rightarrow> nat \<times> nat \<times> (nat \<times> nat \<times> bool) list" where
  "wb_shape wbf = (wb_r_idx wbf, wb_w_idx wbf, map ios_shape (wb_slices wbf))"

lemma wb_shape_set:
  "ios_shape ios = ios_shape (wb_slices wbf ! i) \<Longrightarrow> wb_shape (wb_set_iosli wbf i ios) = wb_shape wbf"
  by (cases "i < length (wb_slices wbf)") (simp_all add: wb_shape_def map_update list_update_same_conv list_update_beyond)

lemma ios_write_shape:
  "z_iosli_write ios b = Some ios' \<Longrightarrow> ios_shape ios' = ios_shape ios"
  "z_iosli_write_bytes ios bs off n = Some ios' \<Longrightarrow> ios_shape ios' = ios_shape ios"
  by (auto simp: z_iosli_write_def z_iosli_write_bytes_def ios_shape_def bind_Some_iff split: if_splits)

lemma wb_data_split:
  assumes "wb_ok wbf"
  shows "wb_data wbf = wb_front wbf @ ios_data (wb_slices wbf ! wb_w_idx wbf)"
    "wb_data (wb_set_iosli wbf (wb_w_idx wbf) ios) = wb_front wbf @ ios_data ios"
    "wb_space (wb_set_iosli wbf (wb_w_idx wbf) ios) = ios_space ios"
proof -
  note s = wb_split [OF assms]
  have r: "wb_r_idx wbf \<le> wb_w_idx wbf" using assms by (simp add: wb_ok_def)
  show "wb_data wbf = wb_front wbf @ ios_data (wb_slices wbf ! wb_w_idx wbf)"
    unfolding wb_data_def wb_front_def by (subst s(1)) (use s(2) r in simp)
  have "(wb_slices wbf)[wb_w_idx wbf := ios] = butlast (wb_slices wbf) @ [ios]"
    using wb_length [OF assms] by (subst s(1)) (simp add: list_update_append)
  then show "wb_data (wb_set_iosli wbf (wb_w_idx wbf) ios) = wb_front wbf @ ios_data ios"
    "wb_space (wb_set_iosli wbf (wb_w_idx wbf) ios) = ios_space ios"
    using s(2) r by (simp_all add: wb_data_def wb_front_def wb_space_def nth_append)
qed

lemma wb_add:
  assumes H: "heap_ok H" and ok: "wb_ok wbf" and i: "ios_ok ios" and small: "40 * (wb_w_idx wbf + 2) \<le> SIZE_MAX"
  shows "\<exists>r wbf' h'. z_wbuf_add_iosli H wbf ios h = Some (r, wbf', h') \<and> wb_step wbf' = wb_step wbf \<and>
    wb_r_idx wbf' = wb_r_idx wbf \<and>
    (if r = Z_OK then wb_ok wbf' \<and> wb_slices wbf' = wb_slices wbf @ [ios] \<and> wb_w_idx wbf' = wb_w_idx wbf + 1
     else r = Z_ERR_SYSTEM_OUT_OF_MEMORY \<and> wbf' = wbf)"
proof -
  have v: "svec_ok (wb_ioss wbf)" "sv_len (wb_ioss wbf) = wb_w_idx wbf + 1" using ok by (simp_all add: wb_ok_def)
  have m: "malloc_ok z_iosli_size (mal_slis H)" "0 < z_iosli_size" using H by (simp_all add: heap_ok_def z_iosli_size_def)
  have le: "2 * (sv_len (wb_ioss wbf) + 1) * z_iosli_size \<le> SIZE_MAX" using small v(2) by (simp add: z_iosli_size_def)
  obtain r v' h' where a: "svec_append_iosli H (wb_ioss wbf) ios h = Some (r, v', h')" "svec_ok v'"
    "if r = Z_OK then svec_items v' = svec_items (wb_ioss wbf) @ [ios] else v' = wb_ioss wbf"
    "r = Z_OK \<or> r = Z_ERR_SYSTEM_OUT_OF_MEMORY"
    using z_svec_append_items [OF m(1) v(1) m(2) le, of "\<lambda>d s. (d, s)" ios h] z_svec_append_res
    unfolding svec_append_iosli_def by (metis (no_types, lifting))
  have w: "size_add (wb_w_idx wbf) 1 = wb_w_idx wbf + 1" using small by (intro size_add_small) simp
  show ?thesis
  proof (cases "r = Z_OK")
    case True
    then have "sv_len v' = wb_w_idx wbf + 2" using a v length_svec_items by (metis add_2_eq_Suc' add_Suc_right
          length_append_singleton Suc_eq_plus1)
    then show ?thesis using True a ok i w
      by (auto simp: z_wbuf_add_iosli_def wb_ok_def wb_slices_def Let_def)
  next
    case False
    then show ?thesis using a by (simp add: z_wbuf_add_iosli_def Let_def)
  qed
qed

section \<open>Writing\<close>

lemma wb_added:
  assumes "wb_ok wbf" "wb_slices wbf' = wb_slices wbf @ [ios]" "wb_r_idx wbf' = wb_r_idx wbf" "wb_w_idx wbf' = wb_w_idx wbf + 1"
  shows "wb_data wbf' = wb_data wbf @ ios_data ios" "wb_slices wbf' ! wb_w_idx wbf' = ios"
proof -
  have "wb_r_idx wbf \<le> length (wb_slices wbf)" using assms(1) wb_length [OF assms(1)] by (simp add: wb_ok_def)
  then show "wb_data wbf' = wb_data wbf @ ios_data ios" by (simp add: wb_data_def assms)
  show "wb_slices wbf' ! wb_w_idx wbf' = ios"
    using wb_length [OF assms(1)] unfolding assms(2,4) by (metis nth_append_length)
qed

lemma slice_split: "m \<le> n \<Longrightarrow> slice bs off m @ slice bs (off + m) (n - m) = slice bs off n"
  by (simp add: slice_def flip: take_add) (metis add.commute drop_drop le_add_diff_inverse take_add)

lemma prefix_slice: "m \<le> n \<Longrightarrow> slice bs off m = take m (slice bs off n)"
  by (simp add: slice_def min_def)

lemma expand_loop_data:
  assumes H: "heap_ok H" "heap_gives H"
  shows "wb_ok wbf \<Longrightarrow> 0 < wb_step wbf \<Longrightarrow> off + n \<le> length bs \<Longrightarrow> 40 * (wb_w_idx wbf + n + 2) \<le> SIZE_MAX \<Longrightarrow>
    \<exists>r wbf' h' m. expand_loop H wbf bs off n h = Some (r, wbf', h') \<and> wb_ok wbf' \<and> wb_step wbf' = wb_step wbf \<and>
      m \<le> n \<and> wb_data wbf' = wb_data wbf @ slice bs off m \<and>
      (if r = Z_OK then m = n else r = Z_ERR_SYSTEM_OUT_OF_MEMORY)"
proof (induction n arbitrary: wbf off h rule: less_induct)
  case (less n)
  show ?case
  proof (cases "0 < n")
    case False
    then show ?thesis using less.prems by (auto simp: expand_loop.simps [of H wbf] slice_def)
  next
    case True
    obtain tmp h1 where t: "z_iosli_make H (wb_step wbf) h = (tmp, h1)" by fastforce
    have tmp: "ios_ok tmp" "ios_data tmp = []" "ios_space tmp = wb_step wbf"
    proof -
      have "fst (mal_bytes H (wb_step wbf) h) \<noteq> None" using H(2) unfolding heap_gives_def by blast
      then show "ios_ok tmp" "ios_data tmp = []" "ios_space tmp = wb_step wbf"
        using ios_make [of H "wb_step wbf" h] H(1) t by (auto simp: heap_ok_def)
    qed
    have sm: "40 * (wb_w_idx wbf + 2) \<le> SIZE_MAX" using less.prems(4) by simp
    obtain r wbf1 h2 where a: "z_wbuf_add_iosli H wbf tmp h1 = Some (r, wbf1, h2)" "wb_step wbf1 = wb_step wbf"
      "wb_r_idx wbf1 = wb_r_idx wbf"
      "if r = Z_OK then wb_ok wbf1 \<and> wb_slices wbf1 = wb_slices wbf @ [tmp] \<and> wb_w_idx wbf1 = wb_w_idx wbf + 1
       else r = Z_ERR_SYSTEM_OUT_OF_MEMORY \<and> wbf1 = wbf"
      using wb_add [OF H(1) less.prems(1) tmp(1) sm, of h1] by blast
    show ?thesis
    proof (cases "r = Z_OK")
      case False
      then show ?thesis using True a t less.prems(1)
        by (auto simp: expand_loop.simps [of H wbf] slice_def intro!: exI [of _ 0])
    next
      case ok: True
      then have w: "wb_ok wbf1" "wb_slices wbf1 = wb_slices wbf @ [tmp]" "wb_w_idx wbf1 = wb_w_idx wbf + 1"
        using a(4) by simp_all
      note ad = wb_added [OF less.prems(1) w(2) a(3) w(3)]
      let ?m = "min (wb_step wbf) n"
      have "?m \<le> ios_space tmp" "off + ?m \<le> length bs" using tmp(3) less.prems(3) by simp_all
      from ios_write_bytes [OF tmp(1) this] obtain ios1 where i: "z_iosli_write_bytes tmp bs off ?m = Some ios1"
        "ios_ok ios1" "ios_data ios1 = slice bs off ?m" using tmp(2) by auto
      let ?wbf = "wb_set_iosli wbf1 (wb_w_idx wbf1) ios1"
      have d: "wb_data ?wbf = wb_data wbf @ slice bs off ?m"
        using wb_data_split(1) [OF w(1)] wb_data_split(2) [OF w(1), of ios1] ad tmp(2) i(3) by simp
      have step: "expand_loop H wbf bs off n h = expand_loop H ?wbf bs (off + ?m) (n - ?m) h2"
        using True ok a(1) t wb_get [OF w(1) order_refl] ad(2) tmp i(1)
        by (simp add: expand_loop.simps [of H wbf] Let_def)
      have "n - ?m < n" "0 < wb_step ?wbf" "off + ?m + (n - ?m) \<le> length bs" "40 * (wb_w_idx ?wbf + (n - ?m) + 2) \<le> SIZE_MAX"
        using True less.prems a(2) w(3) by (auto simp: min_def)
      from less.IH [OF this(1) _ this(2-4), of h2] w(1) i(2) obtain r wbf' h' k where
        "expand_loop H ?wbf bs (off + ?m) (n - ?m) h2 = Some (r, wbf', h')" "wb_ok wbf'" "wb_step wbf' = wb_step ?wbf"
        "k \<le> n - ?m" "wb_data wbf' = wb_data ?wbf @ slice bs (off + ?m) k"
        "if r = Z_OK then k = n - ?m else r = Z_ERR_SYSTEM_OUT_OF_MEMORY" by auto
      moreover from this have "slice bs off ?m @ slice bs (off + ?m) k = slice bs off (?m + k)"
        using slice_split [of ?m "?m + k" bs off] by simp
      ultimately show ?thesis
        using d a(2) by (intro exI [of _ r] exI [of _ wbf'] exI [of _ h'] exI [of _ "?m + k"]) (auto simp: step)
    qed
  qed
qed

lemma write_bytes_fits:
  assumes "wb_ok wbf" "off + n \<le> length bs" "n \<le> wb_space wbf"
  shows "\<exists>wbf'. z_wbuf_write_bytes H wbf bs off n h = Some (Z_OK, wbf', h) \<and> wb_ok wbf' \<and> wb_step wbf' = wb_step wbf \<and>
    wb_w_idx wbf' = wb_w_idx wbf \<and> wb_data wbf' = wb_data wbf @ slice bs off n \<and> wb_space wbf' = wb_space wbf - n \<and>
    wb_shape wbf' = wb_shape wbf"
proof -
  let ?ios = "wb_slices wbf ! wb_w_idx wbf"
  have i: "ios_ok ?ios" using wb_slice_ok [OF assms(1)] by simp
  obtain ios1 where w: "z_iosli_write_bytes ?ios bs off n = Some ios1" "ios_ok ios1" "ios_data ios1 = ios_data ?ios @ slice bs off n"
    "ios_space ios1 = ios_space ?ios - n" using ios_write_bytes [OF i _ assms(2)] assms(3) unfolding wb_space_def by blast
  show ?thesis
    using assms w wb_get [OF assms(1) order_refl] wb_data_split(1) [OF assms(1)] wb_data_split(2,3) [OF assms(1), of ios1] i
    by (simp add: z_wbuf_write_bytes_def wb_space_def [of wbf] wb_shape_set ios_write_shape(2) [OF w(1)])
qed

lemma write_bytes_full:
  "wb_ok wbf \<Longrightarrow> wb_space wbf < n \<Longrightarrow> wb_step wbf = 0 \<Longrightarrow>
    z_wbuf_write_bytes H wbf bs off n h = Some (Z_ERR_TRANSPORT_NO_SPACE, wbf, h)"
  using wb_get [of wbf "wb_w_idx wbf"] wb_slice_ok [of wbf "wb_w_idx wbf"]
  by (simp add: z_wbuf_write_bytes_def wb_space_def)

lemma write_bytes_expands:
  assumes H: "heap_ok H" "heap_gives H" and ok: "wb_ok wbf" and off: "off + n \<le> length bs"
    and n: "wb_space wbf < n" and st: "0 < wb_step wbf" and small: "40 * (wb_w_idx wbf + n + 2) \<le> SIZE_MAX"
  shows "\<exists>r wbf' h' m. z_wbuf_write_bytes H wbf bs off n h = Some (r, wbf', h') \<and> wb_ok wbf' \<and> wb_step wbf' = wb_step wbf \<and>
    m \<le> n \<and> wb_data wbf' = wb_data wbf @ slice bs off m \<and> (if r = Z_OK then m = n else r = Z_ERR_SYSTEM_OUT_OF_MEMORY)"
proof -
  let ?ios = "wb_slices wbf ! wb_w_idx wbf" and ?m = "wb_space wbf"
  have i: "ios_ok ?ios" using wb_slice_ok [OF ok] by simp
  have "off + ?m \<le> length bs" using off n by simp
  from ios_write_bytes [OF i _ this] obtain ios1 where w: "z_iosli_write_bytes ?ios bs off ?m = Some ios1" "ios_ok ios1"
    "ios_data ios1 = ios_data ?ios @ slice bs off ?m" unfolding wb_space_def by blast
  let ?wbf = "wb_set_iosli wbf (wb_w_idx wbf) ios1"
  have step: "z_wbuf_write_bytes H wbf bs off n h = expand_loop H ?wbf bs (off + ?m) (n - ?m) h"
    using wb_get [OF ok order_refl] w(1) n st i by (simp add: z_wbuf_write_bytes_def wb_space_def Let_def)
  have d: "wb_data ?wbf = wb_data wbf @ slice bs off ?m" using wb_data_split(1) [OF ok] wb_data_split(2,3) [OF ok, of ios1] w(3) by simp
  have "off + ?m + (n - ?m) \<le> length bs" "40 * (wb_w_idx ?wbf + (n - ?m) + 2) \<le> SIZE_MAX" "0 < wb_step ?wbf"
    using off n small st by auto
  from expand_loop_data [OF H wb_set_ok [OF ok w(2)] this(3,1,2), of h] obtain r wbf' h' k where
    e: "expand_loop H ?wbf bs (off + ?m) (n - ?m) h = Some (r, wbf', h')" "wb_ok wbf'" "wb_step wbf' = wb_step wbf"
    "k \<le> n - ?m" "wb_data wbf' = wb_data ?wbf @ slice bs (off + ?m) k"
    "if r = Z_OK then k = n - ?m else r = Z_ERR_SYSTEM_OUT_OF_MEMORY" by auto
  have "slice bs off ?m @ slice bs (off + ?m) k = slice bs off (?m + k)"
    using slice_split [of ?m "?m + k" bs off] by simp
  then show ?thesis
    using d e n by (intro exI [of _ r] exI [of _ wbf'] exI [of _ h'] exI [of _ "?m + k"]) (auto simp: step)
qed

text \<open>A fixed buffer: one slice, no growth. It is what the transports send from.\<close>

definition wb_fixed :: "z_wbuf \<Rightarrow> bool" where
  "wb_fixed wbf \<longleftrightarrow> wb_ok wbf \<and> wb_step wbf = 0"

lemma write_fixed:
  assumes "wb_fixed wbf"
  shows "\<exists>wbf'. z_wbuf_write H wbf b h =
      Some (if 0 < wb_space wbf then Z_OK else Z_ERR_TRANSPORT_NO_SPACE, wbf', h) \<and> wb_fixed wbf' \<and>
    wb_data wbf' = wb_data wbf @ (if 0 < wb_space wbf then [b] else []) \<and> wb_space wbf' = wb_space wbf - 1 \<and>
    wb_shape wbf' = wb_shape wbf"
proof -
  let ?ios = "wb_slices wbf ! wb_w_idx wbf"
  have ok: "wb_ok wbf" "wb_step wbf = 0" using assms by (simp_all add: wb_fixed_def)
  have i: "ios_ok ?ios" using wb_slice_ok [OF ok(1)] by simp
  show ?thesis
  proof (cases "0 < ios_space ?ios")
    case True
    obtain ios1 where w: "z_iosli_write ?ios b = Some ios1" "ios_ok ios1" "ios_data ios1 = ios_data ?ios @ [b]"
      "ios_space ios1 = ios_space ?ios - 1" using ios_write [OF i True] by blast
    show ?thesis
      using True ok i w wb_get [OF ok(1) order_refl] wb_data_split(1) [OF ok(1)] wb_data_split(2,3) [OF ok(1), of ios1]
      by (simp add: z_wbuf_write_def wb_fixed_def wb_space_def [of wbf] wb_shape_set ios_write_shape(1) [OF w(1)])
  next
    case False
    then show ?thesis
      using ok i wb_get [OF ok(1) order_refl]
      by (simp add: z_wbuf_write_def wb_fixed_def wb_space_def [of wbf] z_wbuf_len_iosli_def wb_ok_def)
  qed
qed

section \<open>Making, wrapping, resetting\<close>

lemma make_wb:
  assumes H: "heap_ok H" and c: "fst (mal_bytes H c (snd (z_svec_make (mal_slis H) z_iosli_size (if e then 5 else 1) h))) \<noteq> None"
  shows "\<exists>wbf h'. z_wbuf_make H c e h = Some (wbf, h') \<and> wb_step wbf = (if e then c else 0) \<and>
    (z_wbuf_len_iosli wbf = 0 \<or>
     wb_ok wbf \<and> wb_data wbf = [] \<and> wb_space wbf = c \<and> wb_w_idx wbf = 0 \<and> ios_is_alloc (wb_slices wbf ! 0) \<and>
     sv_capacity (wb_ioss wbf) \<le> (if e then 5 else 1))"
proof -
  let ?k = "if e then 5 else 1 :: nat"
  obtain v h1 where v: "z_svec_make (mal_slis H) z_iosli_size ?k h = (v, h1)" by fastforce
  obtain ios h2 where i: "z_iosli_make H c h1 = (ios, h2)" by fastforce
  have m: "malloc_ok z_iosli_size (mal_slis H)" "malloc_ok 1 (mal_bytes H)" using H by (simp_all add: heap_ok_def)
  have vok: "svec_ok v" "sv_len v = 0" "sv_capacity v \<in> {0, ?k}"
  proof -
    have k: "size_mul z_iosli_size ?k div z_iosli_size = ?k" by (simp add: z_iosli_size_def size_mul_def)
    have l: "mal_slis H (size_mul z_iosli_size ?k) h = (Some b, h') \<Longrightarrow> length b = ?k" for b h'
      using malloc_ok_length [OF m(1)] k by metis
    show "svec_ok v" "sv_len v = 0" "sv_capacity v \<in> {0, ?k}"
      using v l by (auto simp: z_svec_make_def svec_ok_def z_svec_null_def split: prod.splits option.splits if_splits)
  qed
  have iok: "ios_ok ios" "ios_data ios = []" "ios_space ios = c"
    using ios_make [OF m(2), of c h1] i c v by auto
  have ia: "ios_is_alloc ios"
    using i c v by (auto simp: z_iosli_make_def z_iosli_init_def split: option.splits prod.splits)
  have "2 * (sv_len v + 1) * z_iosli_size \<le> SIZE_MAX" by (simp add: vok(2) z_iosli_size_def SIZE_MAX_def)
  from z_svec_append_items [OF m(1) vok(1) _ this, of "\<lambda>d s. (d, s)" ios h2] obtain r v1 h3 where
    a: "svec_append_iosli H v ios h2 = Some (r, v1, h3)" "svec_ok v1"
      "if r = Z_OK then svec_items v1 = svec_items v @ [ios] else v1 = v \<and> sv_len v = sv_capacity v"
    by (auto simp: svec_append_iosli_def z_iosli_size_def)
  have mk: "z_wbuf_make H c e h = Some (\<lparr>wb_ioss = v1, wb_r_idx = 0, wb_w_idx = 0, wb_step = (if e then c else 0)\<rparr>, h3)"
    using a(1) v i by (simp add: z_wbuf_make_def)
  show ?thesis
  proof (cases "r = Z_OK")
    case True
    have "svec_items v = []" using vok by (simp add: svec_items_def)
    then have it: "svec_items v1 = [ios]" using a(3) True by simp
    then have "sv_len v1 = 1" using length_svec_items [OF a(2)] by simp
    moreover have "sv_capacity v1 \<le> ?k"
      using a(1) vok True
      by (auto simp: svec_append_iosli_def z_svec_append_def z_svec_expand_def bind_Some_iff Let_def
          split: if_splits option.splits prod.splits)
    ultimately show ?thesis using mk it iok ia a(2)
      by (auto simp: wb_ok_def wb_slices_def wb_data_def wb_space_def)
  next
    case False
    then show ?thesis using mk a(3) vok(2) by (auto simp: z_wbuf_len_iosli_def)
  qed
qed

lemma reset_single:
  assumes "wb_ok wbf" "wb_w_idx wbf = 0" "ios_is_alloc (wb_slices wbf ! 0)"
  shows "\<exists>wbf'. z_wbuf_reset wbf = Some wbf' \<and> wb_ok wbf' \<and> wb_data wbf' = [] \<and> wb_w_idx wbf' = 0 \<and>
    wb_step wbf' = wb_step wbf \<and> wb_space wbf' = ios_capacity (wb_slices wbf ! 0)"
proof -
  let ?ios = "wb_slices wbf ! 0"
  have r: "wb_r_idx wbf = 0" and l: "z_wbuf_len_iosli wbf = 1" using assms(1,2) by (simp_all add: wb_ok_def z_wbuf_len_iosli_def)
  then have w: "wbf\<lparr>wb_r_idx := 0, wb_w_idx := 0\<rparr> = wbf" using assms(2) by simp
  have i: "ios_ok ?ios" using wb_slice_ok [OF assms(1)] by simp
  then have i': "ios_ok (z_iosli_reset ?ios)" "ios_data (z_iosli_reset ?ios) = []" "ios_space (z_iosli_reset ?ios) = ios_capacity ?ios"
    by (simp_all add: ios_ok_def z_iosli_reset_def ios_data_def ios_space_def slice_def)
  let ?wbf = "wb_set_iosli wbf 0 (z_iosli_reset ?ios)"
  have "z_wbuf_len_iosli ?wbf = 1" using l by (simp add: z_wbuf_len_iosli_def)
  then have "z_wbuf_reset wbf = Some ?wbf"
    using w l wb_get [OF assms(1), of 0] assms(3)
    by (simp add: z_wbuf_reset_def reset_loop.simps [of wbf] reset_loop.simps [of ?wbf])
  moreover have "wb_slices ?wbf = [z_iosli_reset ?ios]" using wb_length [OF assms(1)] assms(2) by (cases "wb_slices wbf") auto
  ultimately show ?thesis using assms i' r by (simp add: wb_data_def wb_space_def)
qed

lemma wb_add_capacity:
  "z_wbuf_add_iosli H wbf ios h = Some (r, wbf', h') \<Longrightarrow>
    sv_capacity (wb_ioss wbf') \<le> max (sv_capacity (wb_ioss wbf)) (2 * sv_len (wb_ioss wbf) + 1)"
  by (auto simp: z_wbuf_add_iosli_def bind_Some_iff svec_append_iosli_def Let_def dest!: z_svec_append_capacity split: if_splits)

lemma wb_add_len:
  "z_wbuf_add_iosli H wbf ios h = Some (r, wbf', h') \<Longrightarrow> sv_len (wb_ioss wbf') \<le> sv_len (wb_ioss wbf) + 1"
proof -
  have "size_add n 1 \<le> n + 1" for n by (simp add: size_add_def)
  then show "z_wbuf_add_iosli H wbf ios h = Some (r, wbf', h') \<Longrightarrow> sv_len (wb_ioss wbf') \<le> sv_len (wb_ioss wbf) + 1"
    by (auto simp: z_wbuf_add_iosli_def bind_Some_iff svec_append_iosli_def z_svec_append_def z_svec_expand_def Let_def
        split: if_splits option.splits prod.splits)
qed

text \<open>As long as the vector has room, adding a slice needs no memory.\<close>

lemma wb_add_room:
  assumes "wb_ok wbf" "sv_len (wb_ioss wbf) < sv_capacity (wb_ioss wbf)" "sv_len (wb_ioss wbf) < SIZE_MAX" "ios_ok ios"
  shows "\<exists>wbf'. z_wbuf_add_iosli H wbf ios h = Some (Z_OK, wbf', h) \<and> wb_ok wbf' \<and>
    sv_capacity (wb_ioss wbf') = sv_capacity (wb_ioss wbf) \<and> sv_len (wb_ioss wbf') = sv_len (wb_ioss wbf) + 1"
proof -
  have v: "svec_ok (wb_ioss wbf)" "sv_len (wb_ioss wbf) = wb_w_idx wbf + 1" using assms(1) by (simp_all add: wb_ok_def)
  show ?thesis
    using assms v by (auto simp: z_wbuf_add_iosli_def svec_append_iosli_def z_svec_append_def svec_ok_def wb_ok_def
        wb_slices_def svec_items_def take_Suc_update Let_def)
qed

lemma wrap_capacity:
  assumes "wb_ok wbf" "wb_w_idx wbf = 0" "z_wbuf_wrap_bytes H wbf bs off n h = Some (r, wbf', h')"
    and "sv_capacity (wb_ioss wbf) \<le> 5"
  shows "sv_capacity (wb_ioss wbf') \<le> 5"
proof -
  let ?w0 = "wb_set_iosli wbf (wb_w_idx wbf) ((wb_slices wbf ! wb_w_idx wbf)
      \<lparr>ios_capacity := ios_w_pos (wb_slices wbf ! wb_w_idx wbf)\<rparr>)"
  obtain ios wbf1 r1 h1 where a: "z_wbuf_add_iosli H ?w0 ios h = Some (r1, wbf1, h1)"
    "wbf' = wbf1 \<or> (\<exists>ios2. z_wbuf_add_iosli H wbf1 ios2 h1 = Some (r, wbf', h'))"
    using assms(3) unfolding z_wbuf_wrap_bytes_def wb_get [OF assms(1) order_refl] bind.bind_lunit Let_def
    by (auto simp: bind_Some_iff split: if_splits) blast
  have l: "sv_len (wb_ioss ?w0) = 1" "sv_capacity (wb_ioss ?w0) \<le> 5" using assms(1,2,4) by (simp_all add: wb_ok_def)
  have 1: "sv_capacity (wb_ioss wbf1) \<le> 5" "sv_len (wb_ioss wbf1) \<le> 2"
    using wb_add_capacity [OF a(1)] wb_add_len [OF a(1)] l by simp_all
  from a(2) show ?thesis
  proof
    assume "\<exists>ios2. z_wbuf_add_iosli H wbf1 ios2 h1 = Some (r, wbf', h')"
    then obtain ios2 where "z_wbuf_add_iosli H wbf1 ios2 h1 = Some (r, wbf', h')" by blast
    from wb_add_capacity [OF this] 1 show ?thesis by simp
  qed (use 1 in simp)
qed

lemma wrap_data:
  assumes H: "heap_ok H" and ok: "wb_ok wbf" and n: "n \<le> length bs" and small: "40 * (wb_w_idx wbf + 3) \<le> SIZE_MAX"
  shows "\<exists>r wbf' h'. z_wbuf_wrap_bytes H wbf bs 0 n h = Some (r, wbf', h') \<and> wb_step wbf' = wb_step wbf \<and>
    (if r = Z_OK then wb_ok wbf' \<and> wb_data wbf' = wb_data wbf @ take n bs \<and> wb_space wbf' = wb_space wbf \<and>
       wb_w_idx wbf' = wb_w_idx wbf + 2 \<and>
       (\<exists>a b c. wb_slices wbf' = butlast (wb_slices wbf) @ [a, b, c] \<and> \<not> ios_is_alloc b \<and> \<not> ios_is_alloc c \<and>
          ios_is_alloc a = ios_is_alloc (wb_slices wbf ! wb_w_idx wbf))
     else r = Z_ERR_SYSTEM_OUT_OF_MEMORY)"
proof -
  let ?ios = "wb_slices wbf ! wb_w_idx wbf"
  let ?cut = "?ios\<lparr>ios_capacity := ios_w_pos ?ios\<rparr>"
  have i: "ios_ok ?ios" using wb_slice_ok [OF ok] by simp
  have cut: "ios_ok ?cut" "ios_data ?cut = ios_data ?ios" using i by (simp_all add: ios_ok_def ios_data_def)
  let ?w1 = "wb_set_iosli wbf (wb_w_idx wbf) ?cut"
  define wios where "wios = \<lparr>ios_r_pos = 0, ios_w_pos = n, ios_capacity = n, ios_buf = bs, ios_is_alloc = False\<rparr>"
  have wios: "z_iosli_wrap bs n 0 (0 + n) = Some wios" "ios_ok wios" "ios_data wios = take n bs"
    using n by (simp_all add: wios_def z_iosli_wrap_def ios_ok_def ios_data_def slice_def)
  have ok1: "wb_ok ?w1" using ok cut(1) by simp
  have sm: "40 * (wb_w_idx ?w1 + 2) \<le> SIZE_MAX" "40 * (wb_w_idx wbf + 1 + 2) \<le> SIZE_MAX" using small by simp_all
  obtain r w2 h1 where a: "z_wbuf_add_iosli H ?w1 wios h = Some (r, w2, h1)" "wb_step w2 = wb_step wbf" "wb_r_idx w2 = wb_r_idx ?w1"
    "if r = Z_OK then wb_ok w2 \<and> wb_slices w2 = wb_slices ?w1 @ [wios] \<and> wb_w_idx w2 = wb_w_idx ?w1 + 1
     else r = Z_ERR_SYSTEM_OUT_OF_MEMORY \<and> w2 = ?w1"
    using wb_add [OF H ok1 wios(2) sm(1), of h] unfolding wb_set_simps by blast
  have run: "z_wbuf_wrap_bytes H wbf bs 0 n h = (if r \<noteq> Z_OK then Some (r, w2, h1) else do {
       ios1 \<leftarrow> z_wbuf_get_iosli w2 (wb_w_idx w2 - 1);
       wios1 \<leftarrow> z_iosli_wrap (drop (ios_w_pos ios1) (ios_buf ios1)) (ios_space ?ios) 0 0;
       z_wbuf_add_iosli H w2 wios1 h1 })"
    unfolding z_wbuf_wrap_bytes_def wb_get [OF ok order_refl] bind.bind_lunit Let_def wios(1) a(1) using i by simp
  show ?thesis
  proof (cases "r = Z_OK")
    case False
    then show ?thesis using run a by simp
  next
    case True
    then have w2: "wb_ok w2" "wb_slices w2 = wb_slices ?w1 @ [wios]" "wb_w_idx w2 = wb_w_idx wbf + 1" using a(4) by simp_all
    have len: "length (wb_slices wbf) = wb_w_idx wbf + 1" using wb_length [OF ok] .
    have g: "z_wbuf_get_iosli w2 (wb_w_idx w2 - 1) = Some ?cut"
      using wb_get [OF w2(1), of "wb_w_idx wbf"] w2 len by (simp add: nth_append)
    define rest where "rest = \<lparr>ios_r_pos = 0, ios_w_pos = 0, ios_capacity = ios_space ?ios,
        ios_buf = drop (ios_w_pos ?ios) (ios_buf ?ios), ios_is_alloc = False\<rparr>"
    have rest: "z_iosli_wrap (drop (ios_w_pos ?cut) (ios_buf ?cut)) (ios_space ?ios) 0 0 = Some rest" "ios_ok rest"
      "ios_data rest = []" "ios_space rest = ios_space ?ios"
      using i by (simp_all add: rest_def z_iosli_wrap_def ios_ok_def ios_data_def ios_space_def slice_def diff_le_mono)
    have sm2: "40 * (wb_w_idx w2 + 2) \<le> SIZE_MAX" using sm(2) w2(3) by simp
    obtain r' w3 h3 where b: "z_wbuf_add_iosli H w2 rest h1 = Some (r', w3, h3)" "wb_step w3 = wb_step w2" "wb_r_idx w3 = wb_r_idx w2"
      "if r' = Z_OK then wb_ok w3 \<and> wb_slices w3 = wb_slices w2 @ [rest] \<and> wb_w_idx w3 = wb_w_idx w2 + 1
       else r' = Z_ERR_SYSTEM_OUT_OF_MEMORY \<and> w3 = w2"
      using wb_add [OF H w2(1) rest(2) sm2, of h1] by blast
    have run2: "z_wbuf_wrap_bytes H wbf bs 0 n h = Some (r', w3, h3)"
      unfolding run g bind.bind_lunit rest(1) b(1) using True by simp
    show ?thesis
    proof (cases "r' = Z_OK")
      case False
      then show ?thesis using run2 a(2) b(2,4) by simp
    next
      case r': True
      then have w3: "wb_ok w3" "wb_slices w3 = wb_slices w2 @ [rest]" "wb_w_idx w3 = wb_w_idx w2 + 1" using b(4) by simp_all
      have d1: "wb_data ?w1 = wb_data wbf" using wb_data_split(1,2) [OF ok] cut(2) by simp
      have d2: "wb_data w2 = wb_data ?w1 @ ios_data wios" using wb_added(1) [OF ok1 w2(2)] a(3) w2(3) by simp
      have d3: "wb_data w3 = wb_data w2 @ ios_data rest" "wb_slices w3 ! wb_w_idx w3 = rest"
        using wb_added [OF w2(1) w3(2) b(3) w3(3)] by simp_all
      have sl: "wb_slices w3 = butlast (wb_slices wbf) @ [?cut, wios, rest]"
      proof -
        have "(wb_slices wbf)[wb_w_idx wbf := ?cut] = butlast (wb_slices wbf) @ [?cut]"
          using wb_split(2) [OF ok] by (subst wb_split(1) [OF ok]) (simp add: list_update_append len)
        then show ?thesis using w3(2) w2(2) by simp
      qed
      have "wb_space w3 = wb_space wbf" using d3(2) rest(4) by (simp add: wb_space_def)
      moreover have "\<exists>a b c. wb_slices w3 = butlast (wb_slices wbf) @ [a, b, c] \<and> \<not> ios_is_alloc b \<and> \<not> ios_is_alloc c \<and>
          ios_is_alloc a = ios_is_alloc ?ios"
        using sl by (intro exI [of _ ?cut] exI [of _ wios] exI [of _ rest]) (simp add: wios_def rest_def)
      ultimately show ?thesis
        using run2 r' w3(1,3) w2(3) d1 d2 d3(1) wios(3) rest(3) a(2) b(2) by simp
    qed
  qed
qed

section \<open>Reading\<close>

lemma sum_slices_eq:
  "wb_ok wbf \<Longrightarrow> i + k \<le> wb_w_idx wbf + 1 \<Longrightarrow> acc + sum_list (map f (take k (drop i (wb_slices wbf)))) \<le> SIZE_MAX \<Longrightarrow>
    sum_slices f wbf k i acc = Some (acc + sum_list (map f (take k (drop i (wb_slices wbf)))))"
proof (induction k arbitrary: i acc)
  case 0
  then show ?case by simp
next
  case (Suc k)
  have i: "i < length (wb_slices wbf)" using wb_length [OF Suc.prems(1)] Suc.prems(2) by simp
  have d: "take (Suc k) (drop i (wb_slices wbf)) = wb_slices wbf ! i # take k (drop (Suc i) (wb_slices wbf))"
    using i by (metis Cons_nth_drop_Suc take_Suc_Cons)
  then show ?case
    using Suc.IH [of "Suc i" "acc + f (wb_slices wbf ! i)"] Suc.prems wb_get [OF Suc.prems(1), of i] by simp
qed

lemma wb_len:
  assumes "wb_ok wbf" "length (wb_data wbf) \<le> SIZE_MAX"
  shows "z_wbuf_len wbf = Some (length (wb_data wbf))"
proof -
  let ?s = "drop (wb_r_idx wbf) (wb_slices wbf)"
  have r: "wb_r_idx wbf \<le> wb_w_idx wbf" "z_wbuf_len_iosli wbf = wb_w_idx wbf + 1"
    using assms(1) by (simp_all add: wb_ok_def z_wbuf_len_iosli_def)
  have t: "take (wb_w_idx wbf + 1 - wb_r_idx wbf) ?s = ?s" using wb_length [OF assms(1)] by simp
  have "map z_iosli_readable ?s = map (\<lambda>ios. length (ios_data ios)) ?s"
    using assms(1) by (auto simp: wb_ok_def dest: in_set_dropD)
  then have "sum_list (map z_iosli_readable ?s) = length (wb_data wbf)"
    by (simp add: wb_data_def length_concat comp_def cong: map_cong)
  then show ?thesis
    using sum_slices_eq [OF assms(1), of "wb_r_idx wbf" "wb_w_idx wbf + 1 - wb_r_idx wbf" 0 z_iosli_readable] assms(2) r t
    by (simp add: z_wbuf_len_def)
qed

lemma to_zbuf_loop_data:
  "wb_ok wbf \<Longrightarrow> i + k \<le> wb_w_idx wbf + 1 \<Longrightarrow> zb_ok zbf \<Longrightarrow>
    length (concat (map ios_data (take k (drop i (wb_slices wbf))))) \<le> ios_space (zb_ios zbf) \<Longrightarrow>
    \<exists>zbf'. to_zbuf_loop wbf k i zbf = Some zbf' \<and> zb_ok zbf' \<and> zb_slice zbf' = zb_slice zbf \<and>
      zb_data zbf' = zb_data zbf @ concat (map ios_data (take k (drop i (wb_slices wbf))))"
proof (induction k arbitrary: i zbf)
  case 0
  then show ?case by simp
next
  case (Suc k)
  let ?ios = "wb_slices wbf ! i"
  have i: "i < length (wb_slices wbf)" using wb_length [OF Suc.prems(1)] Suc.prems(2) by simp
  have d: "take (Suc k) (drop i (wb_slices wbf)) = ?ios # take k (drop (Suc i) (wb_slices wbf))"
    using i by (metis Cons_nth_drop_Suc take_Suc_Cons)
  have ok: "ios_ok ?ios" using wb_slice_ok [OF Suc.prems(1), of i] Suc.prems(2) by simp
  have l: "length (ios_data ?ios) \<le> ios_space (zb_ios zbf)" using Suc.prems(4) d by simp
  have b: "ios_r_pos ?ios + length (ios_data ?ios) \<le> length (ios_buf ?ios)"
    using ios_r_le [OF ok] ok by (simp add: ios_ok_def)
  have e: "slice (ios_buf ?ios) (ios_r_pos ?ios) (length (ios_data ?ios)) = ios_data ?ios"
    unfolding length_ios_data [OF ok] by (simp add: ios_data_def)
  obtain zios where z: "z_iosli_write_bytes (zb_ios zbf) (ios_buf ?ios) (ios_r_pos ?ios) (length (ios_data ?ios)) = Some zios"
    "ios_ok zios" "ios_data zios = zb_data zbf @ ios_data ?ios" "ios_space zios = ios_space (zb_ios zbf) - length (ios_data ?ios)"
    using ios_write_bytes [OF _ l b] Suc.prems(3) unfolding zb_ok_def zb_data_def e by blast
  have "length (concat (map ios_data (take k (drop (Suc i) (wb_slices wbf))))) \<le> ios_space zios"
    using Suc.prems(4) d z(4) by simp
  then obtain zbf' where "to_zbuf_loop wbf k (Suc i) (zbf\<lparr>zb_ios := zios\<rparr>) = Some zbf'" "zb_ok zbf'" "zb_slice zbf' = zb_slice zbf"
    "zb_data zbf' = ios_data zios @ concat (map ios_data (take k (drop (Suc i) (wb_slices wbf))))"
    using Suc.IH [OF Suc.prems(1), of "Suc i" "zbf\<lparr>zb_ios := zios\<rparr>"] Suc.prems(2) z(2) by (auto simp: zb_ok_def zb_data_def)
  then show ?case using wb_get [OF Suc.prems(1), of i] Suc.prems(2) d z ok by simp
qed

text \<open>What is read is taken from the front of the data.\<close>

lemma wb_data_head:
  assumes "wb_ok wbf"
  shows "wb_data wbf = ios_data (wb_slices wbf ! wb_r_idx wbf) @ concat (map ios_data (drop (Suc (wb_r_idx wbf)) (wb_slices wbf)))"
    "wb_data (wb_set_iosli wbf (wb_r_idx wbf) ios) =
       ios_data ios @ concat (map ios_data (drop (Suc (wb_r_idx wbf)) (wb_slices wbf)))"
proof -
  have r: "wb_r_idx wbf < length (wb_slices wbf)" using assms wb_length [OF assms] by (simp add: wb_ok_def)
  then show "wb_data wbf = ios_data (wb_slices wbf ! wb_r_idx wbf) @ concat (map ios_data (drop (Suc (wb_r_idx wbf)) (wb_slices wbf)))"
    by (simp add: wb_data_def flip: Cons_nth_drop_Suc)
  have "drop (wb_r_idx wbf) ((wb_slices wbf)[wb_r_idx wbf := ios]) = ios # drop (Suc (wb_r_idx wbf)) (wb_slices wbf)"
    using r by (simp add: drop_update_cancel flip: Cons_nth_drop_Suc [of _ "(wb_slices wbf)[wb_r_idx wbf := ios]"])
  then show "wb_data (wb_set_iosli wbf (wb_r_idx wbf) ios) =
       ios_data ios @ concat (map ios_data (drop (Suc (wb_r_idx wbf)) (wb_slices wbf)))"
    by (simp add: wb_data_def)
qed

lemma wb_skip:
  assumes "wb_ok wbf" "ios_data (wb_slices wbf ! wb_r_idx wbf) = []" "wb_data wbf \<noteq> []"
  shows "wb_r_idx wbf < wb_w_idx wbf" "wb_ok (wbf\<lparr>wb_r_idx := wb_r_idx wbf + 1\<rparr>)"
    "wb_data (wbf\<lparr>wb_r_idx := wb_r_idx wbf + 1\<rparr>) = wb_data wbf"
proof -
  note h = wb_data_head(1) [OF assms(1)]
  have "drop (Suc (wb_r_idx wbf)) (wb_slices wbf) \<noteq> []" using h assms(2,3) by (intro notI) simp
  then show lt: "wb_r_idx wbf < wb_w_idx wbf" using wb_length [OF assms(1)] by simp
  then show "wb_ok (wbf\<lparr>wb_r_idx := wb_r_idx wbf + 1\<rparr>)" using assms(1) by (simp add: wb_ok_def wb_slices_def)
  show "wb_data (wbf\<lparr>wb_r_idx := wb_r_idx wbf + 1\<rparr>) = wb_data wbf"
    using h assms(2) by (simp add: wb_data_def wb_slices_def)
qed

lemma siphon_loop_data:
  "ios_ok wios \<Longrightarrow> n \<le> ios_space wios \<Longrightarrow> wb_ok src \<Longrightarrow> 0 < n \<Longrightarrow> n \<le> length (wb_data src) \<Longrightarrow>
    \<exists>wios' src'. siphon_loop wios src n = Some (wios', src') \<and> ios_ok wios' \<and> ios_data wios' = ios_data wios @ take n (wb_data src) \<and>
      ios_space wios' = ios_space wios - n \<and> wb_ok src' \<and> wb_data src' = drop n (wb_data src) \<and> ios_shape wios' = ios_shape wios"
proof (induction "n + (wb_w_idx src - wb_r_idx src)" arbitrary: wios src n rule: less_induct)
  case less
  let ?r = "wb_slices src ! wb_r_idx src"
  have le: "wb_r_idx src \<le> wb_w_idx src" using less.prems(3) by (simp add: wb_ok_def)
  have ok: "ios_ok ?r" using wb_slice_ok [OF less.prems(3) le] .
  note get = wb_get [OF less.prems(3) le] and h = wb_data_head [OF less.prems(3)]
  show ?case
  proof (cases "ios_data ?r = []")
    case True
    have "wb_data src \<noteq> []" using less.prems(4,5) by auto
    note sk = wb_skip [OF less.prems(3) True this]
    have step: "siphon_loop wios src n = siphon_loop wios (src\<lparr>wb_r_idx := wb_r_idx src + 1\<rparr>) n"
      using le get ok True less.prems(4) by (simp add: siphon_loop.simps [of wios src])
    show ?thesis
      unfolding step using less.hyps [of n "src\<lparr>wb_r_idx := wb_r_idx src + 1\<rparr>" wios] less.prems sk by simp
  next
    case False
    define m where "m = min (length (ios_data ?r)) n"
    have m: "0 < m" "m \<le> length (ios_data ?r)" "m \<le> n" using False less.prems(4) by (simp_all add: m_def)
    let ?d = "slice (ios_buf ?r) (ios_r_pos ?r) m"
    let ?r1 = "?r\<lparr>ios_r_pos := ios_r_pos ?r + m\<rparr>"
    have d: "?d = take m (ios_data ?r)" "ios_data ?r1 = drop m (ios_data ?r)" "ios_ok ?r1"
      and b: "ios_r_pos ?r + m \<le> length (ios_buf ?r)"
      using ios_advance [OF ok m(2)] by blast+
    have ld: "length ?d = m" using d(1) m(2) by simp
    have mw: "m \<le> ios_space wios" using m(3) less.prems(2) by linarith
    then have wb: "ios_w_pos wios + length ?d \<le> length (ios_buf wios)" "ios_w_pos wios + m \<le> ios_capacity wios"
      using less.prems(1) ld by (auto simp: ios_ok_def ios_space_def)
    define w1 where "w1 = wios\<lparr>ios_buf := memcpy_at (ios_buf wios) (ios_w_pos wios) ?d, ios_w_pos := ios_w_pos wios + m\<rparr>"
    have w1: "ios_ok w1" "ios_data w1 = ios_data wios @ ?d" "ios_space w1 = ios_space wios - m" "ios_shape w1 = ios_shape wios"
      using less.prems(1) wb slice_memcpy_append [of "ios_r_pos wios" "ios_w_pos wios" ?d "ios_buf wios", unfolded ld]
      by (simp_all add: w1_def ios_ok_def ios_data_def [of "wios\<lparr>ios_buf := _, ios_w_pos := _\<rparr>"] ios_data_def [of wios]
          ios_space_def ios_shape_def ld)
    define src1 where "src1 = wb_set_iosli src (wb_r_idx src) ?r1"
    have s1: "wb_ok src1" "wb_data src1 = drop m (wb_data src)" "take m (wb_data src) = ?d"
      using less.prems(3) d h m(2) by (simp_all add: src1_def)
    have step: "siphon_loop wios src n = (if 0 < n - m then siphon_loop w1 src1 (n - m) else Some (w1, src1))"
    proof -
      have e: "(if length (ios_data ?r) \<le> n then length (ios_data ?r) else n) = m" by (simp add: m_def min_def)
      have "siphon_loop wios src n = do {
          d \<leftarrow> c_read (ios_buf ?r) (ios_r_pos ?r) m;
          buf \<leftarrow> c_write (ios_buf wios) (ios_w_pos wios) d;
          (if 0 < n - m then siphon_loop (wios\<lparr>ios_buf := buf, ios_w_pos := ios_w_pos wios + m\<rparr>) src1 (n - m)
           else Some (wios\<lparr>ios_buf := buf, ios_w_pos := ios_w_pos wios + m\<rparr>, src1)) }"
        unfolding siphon_loop.simps [of wios src] get bind.bind_lunit Let_def ios_sizes(2) [OF ok] e
          src1_def
        using le False by (simp cong: if_cong)
      then show ?thesis using b wb(1) by (simp add: w1_def)
    qed
    show ?thesis
    proof (cases "m = n")
      case True
      then show ?thesis using step w1 s1 by auto
    next
      case False
      then have lt: "0 < n - m" using m(3) by linarith
      have "n - m + (wb_w_idx src1 - wb_r_idx src1) < n + (wb_w_idx src - wb_r_idx src)"
        using m by (simp add: src1_def)
      moreover have "n - m \<le> ios_space w1" "n - m \<le> length (wb_data src1)"
        using less.prems(2,5) w1(3) s1(2) by (simp_all add: diff_le_mono)
      ultimately obtain w2 src2 where
        "siphon_loop w1 src1 (n - m) = Some (w2, src2)" "ios_ok w2" "ios_data w2 = ios_data w1 @ take (n - m) (wb_data src1)"
        "ios_space w2 = ios_space w1 - (n - m)" "wb_ok src2" "wb_data src2 = drop (n - m) (wb_data src1)"
        "ios_shape w2 = ios_shape w1"
        using less.hyps [of "n - m" src1 w1] w1(1) s1(1) lt by blast
      moreover have "?d @ take (n - m) (drop m (wb_data src)) = take n (wb_data src)"
        unfolding s1(3) [symmetric] using m(3) by (metis le_add_diff_inverse take_add)
      ultimately show ?thesis using step lt w1 s1 m(3) by simp
    qed
  qed
qed

lemma siphon_data:
  assumes "wb_ok dst" "wb_ok src" "0 < n" "n \<le> length (wb_data src)"
  shows "\<exists>dst' src'. z_wbuf_siphon dst src n = Some (if n \<le> wb_space dst then Z_OK else Z_ERR_TRANSPORT_NO_SPACE, dst', src') \<and>
    wb_ok dst' \<and> wb_ok src' \<and> wb_shape dst' = wb_shape dst \<and> wb_step dst' = wb_step dst \<and>
    (if n \<le> wb_space dst then wb_data dst' = wb_data dst @ take n (wb_data src) \<and> wb_data src' = drop n (wb_data src)
     else dst' = dst \<and> src' = src)"
proof -
  let ?w = "wb_slices dst ! wb_w_idx dst"
  have ok: "ios_ok ?w" using wb_slice_ok [OF assms(1)] by simp
  show ?thesis
  proof (cases "n \<le> wb_space dst")
    case True
    then obtain w' src' where s: "siphon_loop ?w src n = Some (w', src')" "ios_ok w'"
      "ios_data w' = ios_data ?w @ take n (wb_data src)" "wb_ok src'" "wb_data src' = drop n (wb_data src)" "ios_shape w' = ios_shape ?w"
      using siphon_loop_data [OF ok _ assms(2-4)] unfolding wb_space_def by blast
    then show ?thesis
      using True assms(1) ok wb_get [OF assms(1) order_refl] wb_data_split(1) [OF assms(1)] wb_data_split(2) [OF assms(1), of w']
      by (simp add: z_wbuf_siphon_def wb_space_def wb_shape_set)
  next
    case False
    then show ?thesis using assms ok wb_get [OF assms(1) order_refl] by (simp add: z_wbuf_siphon_def wb_space_def)
  qed
qed

end
