(* ===== verification/ZWBufProps.thy ===== *)
theory ZWBufProps
  imports ZWBuf
begin

text \<open>The properties of the write buffers, with a heap for their witnesses.\<close>

section \<open>A heap\<close>

definition demo_heap :: "unit heap" where
  "demo_heap = \<lparr>mal_bytes = \<lambda>n h. (Some (replicate n 7), h),
     mal_slis = \<lambda>n h. (Some (replicate (n div 20) z_iosli_null), h), mal_rc = \<lambda>h. (True, h)\<rparr>"

text \<open>The same without room for bytes.\<close>

definition full_heap :: "unit heap" where
  "full_heap = demo_heap\<lparr>mal_bytes := \<lambda>n h. (None, h)\<rparr>"

lemma demo_heap_ok: "heap_ok demo_heap" "heap_gives demo_heap"
  by (auto simp: demo_heap_def heap_ok_def heap_gives_def malloc_ok_def z_iosli_size_def)

lemma full_heap_ok: "heap_ok full_heap"
  by (auto simp: full_heap_def demo_heap_def heap_ok_def malloc_ok_def z_iosli_size_def)

lemma make_svec_demo: "z_svec_make (mal_slis demo_heap) z_iosli_size k () =
    (if k = 0 then z_svec_null else z_svec_null\<lparr>sv_val := replicate (size_mul 20 k div 20) z_iosli_null, sv_capacity := k\<rparr>, ())"
  by (simp add: z_svec_make_def demo_heap_def z_iosli_size_def)

definition demo_wbuf :: "nat \<Rightarrow> bool \<Rightarrow> z_wbuf" where
  "demo_wbuf c e = fst (the (z_wbuf_make demo_heap c e ()))"

lemma demo_wbuf_len: "z_wbuf_len_iosli (demo_wbuf c e) = 1"
  by (cases e) (simp_all add: demo_wbuf_def z_wbuf_make_def make_svec_demo z_svec_null_def svec_append_iosli_def
      z_svec_append_def z_wbuf_len_iosli_def split_beta size_mul_def size_add_def)

lemma demo_wbuf: "wb_ok (demo_wbuf c e)" "wb_data (demo_wbuf c e) = []" "wb_space (demo_wbuf c e) = c" "wb_w_idx (demo_wbuf c e) = 0"
  "wb_step (demo_wbuf c e) = (if e then c else 0)" "ios_is_alloc (wb_slices (demo_wbuf c e) ! 0)"
  "sv_capacity (wb_ioss (demo_wbuf c e)) \<le> 5"
proof -
  have "fst (mal_bytes demo_heap c (snd (z_svec_make (mal_slis demo_heap) z_iosli_size (if e then 5 else 1) ()))) \<noteq> None"
    by (simp add: demo_heap_def)
  from make_wb [OF demo_heap_ok(1) this] obtain wbf h' where "z_wbuf_make demo_heap c e () = Some (wbf, h')"
    "wb_step wbf = (if e then c else 0)"
    "z_wbuf_len_iosli wbf = 0 \<or> wb_ok wbf \<and> wb_data wbf = [] \<and> wb_space wbf = c \<and> wb_w_idx wbf = 0 \<and> ios_is_alloc (wb_slices wbf ! 0) \<and>
     sv_capacity (wb_ioss wbf) \<le> (if e then 5 else 1)" by blast
  moreover from this have "demo_wbuf c e = wbf" by (simp add: demo_wbuf_def)
  moreover have "z_wbuf_len_iosli (demo_wbuf c e) = 1" by (rule demo_wbuf_len)
  ultimately show "wb_ok (demo_wbuf c e)" "wb_data (demo_wbuf c e) = []" "wb_space (demo_wbuf c e) = c"
    "wb_w_idx (demo_wbuf c e) = 0" "wb_step (demo_wbuf c e) = (if e then c else 0)"
    "ios_is_alloc (wb_slices (demo_wbuf c e) ! 0)" "sv_capacity (wb_ioss (demo_wbuf c e)) \<le> 5"
    by (auto split: if_splits)
qed

section \<open>Writing\<close>

text \<open>
  \<open>_z_wbuf_write_bytes\<close> ends, on every heap that provides the bytes it is asked for. It appends
  the whole of the bytes, or a part of them when the heap has no room for another slice, or nothing
  when they do not fit a buffer that does not grow; the buffer stays well-formed.
\<close>

theorem wbuf_write_bytes_appends:
  assumes "heap_ok H" "heap_gives H" "wb_ok wbf" "off + n \<le> length bs" "40 * (wb_w_idx wbf + n + 2) \<le> SIZE_MAX"
  shows "\<exists>r wbf' h' m. z_wbuf_write_bytes H wbf bs off n h = Some (r, wbf', h') \<and> wb_ok wbf' \<and>
    wb_data wbf' = wb_data wbf @ take m (drop off bs) \<and>
    (if n \<le> wb_space wbf then r = Z_OK \<and> m = n
     else if wb_step wbf = 0 then r = Z_ERR_TRANSPORT_NO_SPACE \<and> m = 0
     else r = Z_OK \<and> m = n \<or> r = Z_ERR_SYSTEM_OUT_OF_MEMORY \<and> m \<le> n)"
proof (cases "n \<le> wb_space wbf")
  case True
  then show ?thesis using write_bytes_fits [OF assms(3,4) True, of H h] by (auto simp: slice_def)
next
  case False
  show ?thesis
  proof (cases "wb_step wbf = 0")
    case True
    then show ?thesis using False write_bytes_full [OF assms(3), of n H bs off h] assms(3) by auto
  next
    case s: False
    have "wb_space wbf < n" "0 < wb_step wbf" using False s by simp_all
    from write_bytes_expands [OF assms(1-4) this assms(5), of h] obtain r wbf' h' m where
      "z_wbuf_write_bytes H wbf bs off n h = Some (r, wbf', h')" "wb_ok wbf'" "m \<le> n" "wb_data wbf' = wb_data wbf @ slice bs off m"
      "if r = Z_OK then m = n else r = Z_ERR_SYSTEM_OUT_OF_MEMORY" by blast
    then show ?thesis using False s
      by (intro exI [of _ r] exI [of _ wbf'] exI [of _ h'] exI [of _ m]) (auto simp: slice_def split: if_splits)
  qed
qed

theorem wbuf_write_bytes_appends_witness:
  "\<exists>r wbf' h'. z_wbuf_write_bytes demo_heap (demo_wbuf 2 True) [1, 2, 3, 4, 5, 6] 1 5 () = Some (r, wbf', h') \<and>
    (r = Z_OK \<longrightarrow> wb_data wbf' = [2, 3, 4, 5, 6])"
  using wbuf_write_bytes_appends [OF demo_heap_ok demo_wbuf(1) [of 2 True], of 1 5 "[1, 2, 3, 4, 5, 6]" "()"]
  by (auto simp: demo_wbuf SIZE_MAX_def)

text \<open>
  \<open>_z_wbuf_wrap_bytes\<close> of a whole block appends it to the data without copying it, and leaves the
  free space of the buffer as it was, unless the heap is exhausted.
\<close>

theorem wbuf_wrap_appends:
  assumes "heap_ok H" "wb_ok wbf" "n \<le> length bs" "40 * (wb_w_idx wbf + 3) \<le> SIZE_MAX"
  shows "\<exists>r wbf' h'. z_wbuf_wrap_bytes H wbf bs 0 n h = Some (r, wbf', h') \<and>
    (if r = Z_OK then wb_ok wbf' \<and> wb_data wbf' = wb_data wbf @ take n bs \<and> wb_space wbf' = wb_space wbf
     else r = Z_ERR_SYSTEM_OUT_OF_MEMORY)"
  using wrap_data [OF assms, of h] by (elim exE conjE) (intro exI conjI, assumption, simp split: if_splits)

theorem wbuf_wrap_appends_witness:
  "\<exists>r wbf' h'. z_wbuf_wrap_bytes demo_heap (demo_wbuf 2 True) [1, 2, 3] 0 3 () = Some (r, wbf', h') \<and>
    (r = Z_OK \<longrightarrow> wb_data wbf' = [1, 2, 3] \<and> wb_space wbf' = 2)"
  using wbuf_wrap_appends [OF demo_heap_ok(1) demo_wbuf(1) [of 2 True], of 3 "[1, 2, 3]" "()"]
  by (auto simp: demo_wbuf SIZE_MAX_def split: if_splits)

section \<open>From writing to reading\<close>

text \<open>
  The read buffer that \<open>_z_wbuf_to_zbuf\<close> makes holds exactly the data of the write buffer, in
  order, across all of its slices.
\<close>

theorem wbuf_to_zbuf_data:
  assumes H: "heap_ok H" "heap_gives H" and rc: "\<forall>h. fst (mal_rc H h)"
    and ok: "wb_ok wbf" and len: "length (wb_data wbf) \<le> SIZE_MAX"
  shows "\<exists>zbf h'. z_wbuf_to_zbuf H wbf h = Some (zbf, h') \<and> zb_ok zbf \<and> zb_data zbf = wb_data wbf"
proof -
  let ?n = "length (wb_data wbf)"
  obtain ios h1 where i: "z_iosli_make H ?n h = (ios, h1)" by fastforce
  have g: "fst (mal_bytes H ?n h) \<noteq> None" using H(2) unfolding heap_gives_def by blast
  have ios: "ios_ok ios" "ios_data ios = []" "ios_space ios = ?n"
    using ios_make [of H ?n h] H(1) i g by (auto simp: heap_ok_def)
  obtain zbf h2 where z: "z_zbuf_make H ?n h = (zbf, h2)" by fastforce
  have zb: "zb_ok zbf" "zb_data zbf = []" "ios_space (zb_ios zbf) = ?n"
  proof -
    have "fst (mal_rc H h1)" using rc by blast
    then have "zb_ios zbf = ios \<or> zb_ios zbf = ios\<lparr>ios_is_alloc := False\<rparr>"
      using z i by (auto simp: z_zbuf_make_def z_zbuf_null_def Let_def split: if_splits prod.splits)
    then show "zb_ok zbf" "zb_data zbf = []" "ios_space (zb_ios zbf) = ?n"
      using ios by (auto simp: zb_ok_def zb_data_def ios_ok_def ios_data_def ios_space_def)
  qed
  have r: "wb_r_idx wbf + (wb_w_idx wbf + 1 - wb_r_idx wbf) \<le> wb_w_idx wbf + 1" using ok by (simp add: wb_ok_def)
  have t: "take (wb_w_idx wbf + 1 - wb_r_idx wbf) (drop (wb_r_idx wbf) (wb_slices wbf)) = drop (wb_r_idx wbf) (wb_slices wbf)"
    using wb_length [OF ok] by simp
  have "length (concat (map ios_data (take (wb_w_idx wbf + 1 - wb_r_idx wbf) (drop (wb_r_idx wbf) (wb_slices wbf))))) \<le> ios_space (zb_ios zbf)"
    unfolding t using zb(3) by (simp add: wb_data_def)
  from to_zbuf_loop_data [OF ok r zb(1) this] obtain zbf' where
    "to_zbuf_loop wbf (wb_w_idx wbf + 1 - wb_r_idx wbf) (wb_r_idx wbf) zbf = Some zbf'" "zb_ok zbf'" "zb_data zbf' = wb_data wbf"
    unfolding t zb(2) wb_data_def by auto
  then show ?thesis using wb_len [OF ok len] z by (simp add: z_wbuf_to_zbuf_def)
qed

theorem wbuf_to_zbuf_data_witness:
  "\<exists>zbf h'. z_wbuf_to_zbuf demo_heap (demo_wbuf 3 False) () = Some (zbf, h') \<and> zb_data zbf = []"
  using wbuf_to_zbuf_data [OF demo_heap_ok _ demo_wbuf(1) [of 3 False], of "()"]
  by (auto simp: demo_wbuf demo_heap_def)

text \<open>
  A siphon moves the first \<open>n\<close> bytes of its source, from as many slices as they take, to the end
  of its destination, or reports that they do not fit and changes neither.
\<close>

theorem wbuf_siphon_moves:
  assumes "wb_ok dst" "wb_ok src" "0 < n" "n \<le> length (wb_data src)"
  shows "\<exists>dst' src'. z_wbuf_siphon dst src n = Some (if n \<le> wb_space dst then Z_OK else Z_ERR_TRANSPORT_NO_SPACE, dst', src') \<and>
    wb_ok dst' \<and> wb_ok src' \<and>
    (if n \<le> wb_space dst then wb_data dst' = wb_data dst @ take n (wb_data src) \<and> wb_data src' = drop n (wb_data src)
     else dst' = dst \<and> src' = src)"
  using siphon_data [OF assms] by (elim exE conjE) (intro exI conjI, assumption+)

definition filled_wbuf :: z_wbuf where
  "filled_wbuf = (case z_wbuf_write_bytes demo_heap (demo_wbuf 4 False) [1, 2, 3] 0 3 () of Some (_, wbf, _) \<Rightarrow> wbf)"

lemma filled_wbuf: "wb_ok filled_wbuf" "wb_data filled_wbuf = [1, 2, 3]"
  using write_bytes_fits [OF demo_wbuf(1) [of 4 False], of 0 3 "[1, 2, 3]" demo_heap "()"]
  by (auto simp: filled_wbuf_def demo_wbuf slice_def)

theorem wbuf_siphon_moves_witness:
  "\<exists>dst' src'. z_wbuf_siphon (demo_wbuf 2 False) filled_wbuf 2 = Some (Z_OK, dst', src') \<and>
    wb_data dst' = [1, 2] \<and> wb_data src' = [3]"
  using wbuf_siphon_moves [OF demo_wbuf(1) [of 2 False] filled_wbuf(1), of 2] by (auto simp: demo_wbuf filled_wbuf)

section \<open>Where they go wrong\<close>

text \<open>
  A reset after a wrap runs out of the array of slices, because the removal of the wrapped slice
  moves twenty times too many elements.
\<close>

theorem wbuf_reset_after_wrap:
  assumes H: "heap_ok H" and ok: "wb_ok wbf" "wb_w_idx wbf = 0" and al: "ios_is_alloc (wb_slices wbf ! 0)"
    and cap: "sv_capacity (wb_ioss wbf) \<le> 5" and n: "n \<le> length bs"
    and wrap: "z_wbuf_wrap_bytes H wbf bs 0 n h = Some (Z_OK, wbf', h')"
  shows "z_wbuf_reset wbf' = None"
proof -
  have "40 * (wb_w_idx wbf + 3) \<le> SIZE_MAX" using ok(2) by (simp add: SIZE_MAX_def)
  from wrap_data [OF H ok(1) n this, of h] obtain a b c where
    w: "wb_ok wbf'" "wb_w_idx wbf' = 2" "wb_slices wbf' = butlast (wb_slices wbf) @ [a, b, c]"
      "\<not> ios_is_alloc b" "ios_is_alloc a"
    using wrap ok(2) al by auto
  have "butlast (wb_slices wbf) = []" using wb_length [OF ok(1)] ok(2) by (cases "wb_slices wbf") auto
  then have sl: "wb_slices wbf' = [a, b, c]" using w(3) by simp
  have c': "sv_capacity (wb_ioss wbf') \<le> 5" by (rule wrap_capacity [OF ok wrap cap])
  let ?w0 = "wbf'\<lparr>wb_r_idx := 0, wb_w_idx := 0\<rparr>"
  let ?w1 = "wb_set_iosli ?w0 0 (z_iosli_reset a)"
  have g0: "z_wbuf_get_iosli ?w0 0 = Some a" and l0: "z_wbuf_len_iosli ?w0 = 3"
    using wb_get [OF w(1), of 0] w(1,2) sl by (simp_all add: z_wbuf_get_iosli_def z_wbuf_len_iosli_def wb_ok_def)
  have v: "svec_ok (wb_ioss ?w1)" "sv_len (wb_ioss ?w1) = 3" "sv_capacity (wb_ioss ?w1) \<le> 5"
    using w(1,2) c' by (simp_all add: wb_ok_def svec_ok_def wb_set_iosli_def)
  have g1: "z_wbuf_get_iosli ?w1 1 = Some b" and l1: "z_wbuf_len_iosli ?w1 = 3"
  proof -
    have "svec_items (wb_ioss ?w1) = [z_iosli_reset a, b, c]"
      using sl by (simp add: wb_slices_def wb_set_iosli_def svec_items_def take_update_swap)
    then have "sv_val (wb_ioss ?w1) ! 1 = b" using v(2) by (metis nth_take svec_items_def nth_Cons_Suc nth_Cons_0 One_nat_def less_numeral_extra(1) numeral_3_eq_3 lessI less_SucI)
    then show "z_wbuf_get_iosli ?w1 1 = Some b" using v by (simp add: z_wbuf_get_iosli_def z_svec_get_def svec_ok_def)
  qed (use v in \<open>simp add: z_wbuf_len_iosli_def\<close>)
  have rm: "z_svec_remove z_iosli_size f g False (wb_ioss ?w1) 1 u = None" for f g and u :: unit
    using svec_remove_cases [OF v(1), of 1 z_iosli_size f g u] v(2,3) by (simp add: z_iosli_size_def)
  have "reset_loop ?w1 1 = None" using g1 l1 w(4) rm by (simp add: reset_loop.simps [of ?w1])
  then show ?thesis using g0 l0 w(5) by (simp add: z_wbuf_reset_def reset_loop.simps [of ?w0])
qed

lemma demo_wrap_ok:
  "map_option fst (z_wbuf_wrap_bytes demo_heap (demo_wbuf 2 True) [1, 2, 3] 0 3 ()) = Some Z_OK"
proof -
  let ?w = "demo_wbuf 2 True"
  let ?i = "wb_slices ?w ! 0"
  have i: "ios_ok ?i" using wb_slice_ok [OF demo_wbuf(1) [of 2 True], of 0] by simp
  have v: "sv_len (wb_ioss ?w) = 1" "sv_capacity (wb_ioss ?w) = 5"
    by (simp_all add: demo_wbuf_def z_wbuf_make_def make_svec_demo z_svec_null_def svec_append_iosli_def
        z_svec_append_def split_beta size_mul_def size_add_def)
  let ?w0 = "wb_set_iosli ?w 0 (?i\<lparr>ios_capacity := ios_w_pos ?i\<rparr>)"
  let ?a = "\<lparr>ios_r_pos = 0, ios_w_pos = 3, ios_capacity = 3, ios_buf = [1, 2, 3], ios_is_alloc = False\<rparr>"
  have w0: "wb_ok ?w0" using i demo_wbuf(1) by (intro wb_set_ok) (simp_all add: ios_ok_def)
  obtain w1 where w1: "z_wbuf_add_iosli demo_heap ?w0 ?a () = Some (Z_OK, w1, ())" "wb_ok w1"
    "sv_capacity (wb_ioss w1) = 5" "sv_len (wb_ioss w1) = 2"
    using wb_add_room [OF w0, of ?a demo_heap "()"] v by (auto simp: ios_ok_def SIZE_MAX_def)
  have g: "z_wbuf_get_iosli w1 (wb_w_idx w1 - 1) = Some (wb_slices w1 ! (wb_w_idx w1 - 1))"
    using wb_get [OF w1(2)] by simp
  let ?b = "\<lparr>ios_r_pos = 0, ios_w_pos = 0, ios_capacity = z_iosli_writable ?i,
      ios_buf = drop (ios_w_pos (wb_slices w1 ! (wb_w_idx w1 - 1))) (ios_buf (wb_slices w1 ! (wb_w_idx w1 - 1))), ios_is_alloc = False\<rparr>"
  have "sv_len (wb_ioss w1) < sv_capacity (wb_ioss w1)" using w1 by simp
  then have "map_option fst (z_wbuf_add_iosli demo_heap w1 ?b ()) = Some Z_OK"
    using w1(2) by (auto simp: z_wbuf_add_iosli_def svec_append_iosli_def z_svec_append_def wb_ok_def svec_ok_def Let_def)
  then show ?thesis
    using w1(1) g wb_get [OF demo_wbuf(1) [of 2 True], of 0]
    by (simp add: z_wbuf_wrap_bytes_def demo_wbuf(4) z_iosli_wrap_def Let_def)
qed

theorem wbuf_reset_after_wrap_witness:
  "\<exists>wbf'. map_option (fst \<circ> snd) (z_wbuf_wrap_bytes demo_heap (demo_wbuf 2 True) [1, 2, 3] 0 3 ()) = Some wbf' \<and>
     z_wbuf_reset wbf' = None"
proof -
  obtain wbf' h' where w: "z_wbuf_wrap_bytes demo_heap (demo_wbuf 2 True) [1, 2, 3] 0 3 () = Some (Z_OK, wbf', h')"
    using demo_wrap_ok by auto
  then show ?thesis
    using wbuf_reset_after_wrap [OF demo_heap_ok(1) demo_wbuf(1,4,6,7) _ w] by simp
qed

text \<open>
  The loop of \<open>_z_wbuf_write_bytes\<close> does not notice that the heap had no bytes for a slice. It goes
  on with the same rest of the data and one more, empty, slice, until the heap has no room for the
  list of slices either.
\<close>

theorem wbuf_failed_allocation_unnoticed:
  assumes H: "heap_ok H" and none: "mal_bytes H (wb_step wbf) h = (None, h1)" and ok: "wb_ok wbf" and n: "0 < n"
    and off: "off + n \<le> length bs" and small: "40 * (wb_w_idx wbf + 2) \<le> SIZE_MAX"
  shows "(\<exists>wbf' h'. expand_loop H wbf bs off n h = Some (Z_ERR_SYSTEM_OUT_OF_MEMORY, wbf', h')) \<or>
    (\<exists>wbf' h'. expand_loop H wbf bs off n h = expand_loop H wbf' bs off n h' \<and> wb_ok wbf' \<and>
       wb_data wbf' = wb_data wbf \<and> wb_w_idx wbf' = wb_w_idx wbf + 1)"
proof -
  define tmp where "tmp = \<lparr>ios_r_pos = 0, ios_w_pos = 0, ios_capacity = 0, ios_buf = [], ios_is_alloc = False\<rparr>"
  have t: "z_iosli_make H (wb_step wbf) h = (tmp, h1)" by (simp add: z_iosli_make_def z_iosli_init_def none tmp_def)
  have tmp: "ios_ok tmp" "ios_data tmp = []" by (simp_all add: tmp_def ios_ok_def ios_data_def slice_def)
  have wr: "z_iosli_writable tmp = 0" "z_iosli_write_bytes tmp bs off 0 = Some tmp"
    using off by (simp_all add: tmp_def z_iosli_writable_def z_iosli_write_bytes_def slice_def memcpy_at_def)
  obtain r wbf1 h2 where a: "z_wbuf_add_iosli H wbf tmp h1 = Some (r, wbf1, h2)" "wb_r_idx wbf1 = wb_r_idx wbf"
    "if r = Z_OK then wb_ok wbf1 \<and> wb_slices wbf1 = wb_slices wbf @ [tmp] \<and> wb_w_idx wbf1 = wb_w_idx wbf + 1
     else r = Z_ERR_SYSTEM_OUT_OF_MEMORY \<and> wbf1 = wbf"
    using wb_add [OF H ok tmp(1) small, of h1] by blast
  show ?thesis
  proof (cases "r = Z_OK")
    case False
    then show ?thesis using a(1,3) t n by (simp add: expand_loop.simps [of H wbf])
  next
    case True
    then have w: "wb_ok wbf1" "wb_slices wbf1 = wb_slices wbf @ [tmp]" "wb_w_idx wbf1 = wb_w_idx wbf + 1" using a(3) by simp_all
    note ad = wb_added [OF ok w(2) a(2) w(3)]
    have g: "z_wbuf_get_iosli wbf1 (wb_w_idx wbf1) = Some tmp" using wb_get [OF w(1) order_refl] ad(2) by simp
    let ?wbf = "wb_set_iosli wbf1 (wb_w_idx wbf1) tmp"
    have "expand_loop H wbf bs off n h = expand_loop H ?wbf bs off n h2"
      using n t a(1) True g wr by (simp add: expand_loop.simps [of H wbf])
    moreover have "wb_data ?wbf = wb_data wbf"
      using wb_data_split(1) [OF w(1)] wb_data_split(2) [OF w(1), of tmp] ad tmp(2) by simp
    ultimately show ?thesis using w tmp(1) by auto
  qed
qed

theorem wbuf_failed_allocation_unnoticed_witness:
  "(\<exists>wbf' h'. expand_loop full_heap (demo_wbuf 2 True) [1, 2, 3] 0 3 () = Some (Z_ERR_SYSTEM_OUT_OF_MEMORY, wbf', h')) \<or>
    (\<exists>wbf' h'. expand_loop full_heap (demo_wbuf 2 True) [1, 2, 3] 0 3 () = expand_loop full_heap wbf' [1, 2, 3] 0 3 h' \<and>
       wb_ok wbf' \<and> wb_data wbf' = [] \<and> wb_w_idx wbf' = 1)"
  using wbuf_failed_allocation_unnoticed [OF full_heap_ok _ demo_wbuf(1) [of 2 True], where h = "()" and ?h1.0 = "()" and n = 3 and off = 0 and bs = "[1, 2, 3]"]
  by (simp add: full_heap_def demo_wbuf SIZE_MAX_def)

text \<open>
  After a reset, a buffer of one slice is empty and has its whole capacity again.
\<close>

theorem wbuf_reset_empties:
  assumes "wb_ok wbf" "wb_w_idx wbf = 0" "ios_is_alloc (wb_slices wbf ! 0)"
  shows "\<exists>wbf'. z_wbuf_reset wbf = Some wbf' \<and> wb_ok wbf' \<and> wb_data wbf' = [] \<and>
    wb_space wbf' = ios_capacity (wb_slices wbf ! 0)"
  using reset_single [OF assms] by blast

theorem wbuf_reset_empties_witness:
  "\<exists>wbf'. z_wbuf_reset (demo_wbuf 4 False) = Some wbf' \<and> wb_data wbf' = []"
  using wbuf_reset_empties [OF demo_wbuf(1,4,6), of 4 False] by blast

end
