(* ===== verification/ZCobs.thy ===== *)
theory ZCobs
  imports ZIoBuf
begin

text \<open>
  The framing of the serial link: \<open>utils/encoding.c\<close> (consistent overhead byte stuffing),
  \<open>utils/checksum.c\<close> and \<open>protocol/codec/serial.c\<close>.

  An output is an array of the caller's size; a write outside of it has no result. \<open>stuff\<close> is the
  encoding as a function of the bytes that the current block holds.
\<close>

section \<open>Byte stuffing\<close>

text \<open>The loop over the rest of the input, with the output, \<open>pos\<close>, \<open>codep\<close> and \<open>code\<close>.\<close>

fun cobs_encode_loop :: "bytes \<Rightarrow> bytes \<Rightarrow> nat \<Rightarrow> nat \<Rightarrow> u8 \<Rightarrow> (bytes \<times> nat \<times> nat \<times> u8) option" where
  "cobs_encode_loop [] out pos codep code = Some (out, pos, codep, code)"
| "cobs_encode_loop (b # bs) out pos codep code = do {
     (out1, pos1, code1) \<leftarrow>
       (if b \<noteq> 0 then do { o1 \<leftarrow> arr_set out pos b; Some (o1, pos + 1, code + 1) } else Some (out, pos, code));
     if b = 0 \<or> code1 = 0xFF then do {
       out2 \<leftarrow> arr_set out1 codep code1;
       cobs_encode_loop bs out2 (if b = 0 \<or> length (b # bs) \<noteq> 0 then pos1 + 1 else pos1) pos1 1 }
     else cobs_encode_loop bs out1 pos1 codep code1 }"

definition z_cobs_encode :: "bytes \<Rightarrow> nat \<Rightarrow> bytes \<Rightarrow> (nat \<times> bytes) option" where
  "z_cobs_encode input n output = do {
     assert_c (n \<le> length input);
     (out, pos, codep, code) \<leftarrow> cobs_encode_loop (take n input) output 1 0 1;
     out1 \<leftarrow> arr_set out codep code;
     Some (pos, out1) }"

text \<open>\<open>pos\<close> may step in front of the array; the difference of the pointers is then \<open>SIZE_MAX\<close>.\<close>

fun cobs_decode_loop :: "bytes \<Rightarrow> u8 \<Rightarrow> u8 \<Rightarrow> bytes \<Rightarrow> nat \<Rightarrow> (nat \<times> bytes) option" where
  "cobs_decode_loop [] code block out pos = Some (pos, out)"
| "cobs_decode_loop (b # bs) code block out pos =
     (if block \<noteq> 0 then do { out1 \<leftarrow> arr_set out pos b; cobs_decode_loop bs code (block - 1) out1 (pos + 1) }
      else do {
        (out1, pos1) \<leftarrow> (if code \<noteq> 0xFF then do { o1 \<leftarrow> arr_set out pos 0; Some (o1, pos + 1) } else Some (out, pos));
        if b = 0 then Some (size_sub pos1 1, out1) else cobs_decode_loop bs b (b - 1) out1 pos1 })"

definition z_cobs_decode :: "bytes \<Rightarrow> nat \<Rightarrow> bytes \<Rightarrow> (nat \<times> bytes) option" where
  "z_cobs_decode input n output = do {
     assert_c (n \<le> length input);
     cobs_decode_loop (take n input) 0xFF 0 output 0 }"

section \<open>The reference\<close>

fun stuff :: "bytes \<Rightarrow> bytes \<Rightarrow> bytes" where
  "stuff [] blk = of_nat (length blk + 1) # blk"
| "stuff (b # bs) blk =
     (if b = 0 then of_nat (length blk + 1) # blk @ stuff bs []
      else if length blk = 253 then 0xFF # blk @ [b] @ stuff bs []
      else stuff bs (blk @ [b]))"

lemma length_stuff: "length blk \<le> 253 \<Longrightarrow> length (stuff bs blk) \<le> length blk + length bs + (length blk + length bs) div 254 + 1"
proof (induction bs blk rule: stuff.induct)
  case (2 b bs blk)
  show ?case
  proof (cases "b = 0")
    case True
    then have "length (stuff bs []) \<le> length bs + length bs div 254 + 1" using 2 by simp
    moreover have "length bs div 254 \<le> (length blk + length (b # bs)) div 254" by (rule div_le_mono) simp
    ultimately show ?thesis using True by simp
  next
    case b: False
    show ?thesis
    proof (cases "length blk = 253")
      case True
      then have "length (stuff bs []) \<le> length bs + length bs div 254 + 1" using 2 b by simp
      then show ?thesis using b True by simp
    qed (use 2 b in simp)
  qed
qed simp

lemma code_nonzero: "n \<le> 253 \<Longrightarrow> (of_nat (n + 1) :: u8) \<noteq> 0 \<and> (of_nat (n + 1) :: u8) \<noteq> 0xFF"
proof -
  assume n: "n \<le> 253"
  then have u: "unat (of_nat (n + 1) :: u8) = n + 1" by (simp add: unat_of_nat del: of_nat_add of_nat_Suc)
  show ?thesis
  proof
    show "(of_nat (n + 1) :: u8) \<noteq> 0" using u by (metis Suc_eq_plus1 nat.distinct(1) unat_0)
    show "(of_nat (n + 1) :: u8) \<noteq> 0xFF"
    proof
      assume "(of_nat (n + 1) :: u8) = 0xFF"
      then have "n + 1 = unat (0xFF :: u8)" using u by simp
      then show False using n by simp
    qed
  qed
qed

lemma stuff_no_zero: "length blk \<le> 253 \<Longrightarrow> 0 \<notin> set blk \<Longrightarrow> 0 \<notin> set (stuff bs blk)"
  by (induction bs blk rule: stuff.induct) (auto dest!: code_nonzero)

lemma length_stuff_ge: "length blk + 1 \<le> length (stuff bs blk)"
proof (induction bs blk rule: stuff.induct)
  case (2 b bs blk)
  then show ?case by (cases "b = 0"; cases "length blk = 253") auto
qed simp

section \<open>The encoder\<close>

lemma arr_set_append: "n = length xs \<Longrightarrow> arr_set (xs @ y # zs) n v = Some (xs @ v # zs)"
  by (simp add: arr_set_def)

text \<open>The output holds what is finished, a gap for the code, and the block; \<open>w\<close> is what follows.\<close>

lemma encode_loop_stuff:
  assumes "length blk \<le> 253" "length (stuff bs blk) \<le> 1 + length blk + length w"
  shows "\<exists>out pos codep code. cobs_encode_loop bs (fin @ g # blk @ w) (length fin + 1 + length blk) (length fin) (of_nat (length blk + 1)) =
      Some (out, pos, codep, code) \<and> arr_set out codep code = Some (fin @ stuff bs blk @ drop (length (stuff bs blk) - 1 - length blk) w) \<and>
      pos = length (fin @ stuff bs blk)"
  using assms
proof (induction bs blk arbitrary: fin g w rule: stuff.induct)
  case (1 blk)
  then show ?case by (simp add: arr_set_append)
next
  case (2 b bs blk)
  note pos = length_stuff_ge [of "[]" bs]
  show ?case
  proof (cases "b = 0")
    case True
    with "2.prems" pos obtain g2 w2 where w: "w = g2 # w2" by (cases w) auto
    let ?d = "fin @ of_nat (length blk + 1) # blk"
    have l: "length (stuff bs []) \<le> 1 + length [] + length w2" using "2.prems" True w by simp
    note IH = "2.IH"(1) [OF True _ l, where fin = ?d and g = g2, simplified]
    have "cobs_encode_loop (b # bs) (fin @ g # blk @ w) (length fin + 1 + length blk) (length fin) (of_nat (length blk + 1)) =
        cobs_encode_loop bs (?d @ g2 # [] @ w2) (length ?d + 1) (length ?d) 1"
      using True w by (simp add: arr_set_append)
    then show ?thesis using IH True w pos by (auto simp: Suc_diff_le drop_Cons')
  next
    case b: False
    show ?thesis
    proof (cases "length blk = 253")
      case True
      with "2.prems" b pos obtain x g2 w2 where w: "w = x # g2 # w2" by (cases w; cases "tl w") auto
      let ?d = "fin @ 0xFF # blk @ [b]"
      have l: "length (stuff bs []) \<le> 1 + length [] + length w2" using "2.prems" b True w by simp
      note IH = "2.IH"(2) [OF b True _ l, where fin = ?d and g = g2, simplified]
      have s: "arr_set (fin @ g # blk @ w) (length fin + 1 + length blk) b = Some (fin @ g # blk @ b # g2 # w2)"
        using arr_set_append [of "length fin + 1 + length blk" "fin @ g # blk" x "g2 # w2" b] w by simp
      have "cobs_encode_loop (b # bs) (fin @ g # blk @ w) (length fin + 1 + length blk) (length fin) (of_nat (length blk + 1)) =
          cobs_encode_loop bs (?d @ g2 # [] @ w2) (length ?d + 1) (length ?d) 1"
        using b True s by (simp add: arr_set_append add.commute)
      then show ?thesis using IH b True w pos by (auto simp: Suc_diff_le drop_Cons' add.commute)
    next
      case n: False
      from "2.prems" b n length_stuff_ge [of "blk @ [b]" bs] obtain x w2 where w: "w = x # w2" by (cases w) auto
      have l: "length (blk @ [b]) \<le> 253" "length (stuff bs (blk @ [b])) \<le> 1 + length (blk @ [b]) + length w2"
        using "2.prems" b n w by simp_all
      note IH = "2.IH"(3) [OF b n l, where fin = fin and g = g, simplified]
      have s: "arr_set (fin @ g # blk @ w) (length fin + 1 + length blk) b = Some (fin @ g # blk @ b # w2)"
        using arr_set_append [of "length fin + 1 + length blk" "fin @ g # blk" x w2 b] w by simp
      have "(of_nat (length blk + 1) :: u8) + 1 \<noteq> 0xFF" using code_nonzero [of "length blk + 1"] l(1) by (simp add: add.commute)
      then have "cobs_encode_loop (b # bs) (fin @ g # blk @ w) (length fin + 1 + length blk) (length fin) (of_nat (length blk + 1)) =
          cobs_encode_loop bs (fin @ g # (blk @ [b]) @ w2) (length fin + 1 + length (blk @ [b])) (length fin) (of_nat (length (blk @ [b]) + 1))"
        using b s by (simp add: add.commute add.left_commute)
      then show ?thesis using IH b n w length_stuff_ge [of "blk @ [b]" bs] by (auto simp: Suc_diff_le drop_Cons' add.commute add.left_commute)
    qed
  qed
qed

lemma cobs_encode_stuff:
  assumes "n \<le> length input" "length (stuff (take n input) []) \<le> length output"
  shows "z_cobs_encode input n output =
    Some (length (stuff (take n input) []), stuff (take n input) [] @ drop (length (stuff (take n input) [])) output)"
proof -
  have ne: "stuff (take n input) [] \<noteq> []" using length_stuff_ge [of "[]" "take n input"] by (cases "stuff (take n input) []") auto
  then obtain g w where o: "output = g # w" using assms(2) by (cases "output") auto
  show ?thesis
    using encode_loop_stuff [of "[]" "take n input" w "[]" g] assms o ne
    by (auto simp: z_cobs_encode_def assert_c_def drop_Cons' split: if_splits)
qed

lemma length_stuff_all: "length blk \<le> 253 \<Longrightarrow> length blk + length bs + 1 \<le> length (stuff bs blk)"
  by (induction bs blk rule: stuff.induct) (auto simp: le_Suc_eq)

text \<open>A run that stays inside its output had room for all of the encoding.\<close>

lemma encode_loop_room:
  "cobs_encode_loop bs out pos codep (of_nat (length blk + 1)) = Some (out', pos', codep', code') \<Longrightarrow> length blk \<le> 253 \<Longrightarrow>
    pos = codep + 1 \<or> pos \<le> length out \<Longrightarrow>
    length out' = length out \<and> (pos' = codep' + 1 \<or> pos' \<le> length out) \<and> pos' + 1 + length blk = pos + length (stuff bs blk)"
proof (induction bs blk arbitrary: out pos codep rule: stuff.induct)
  case (2 b bs blk)
  show ?case
  proof (cases "b = 0")
    case True
    then have "cobs_encode_loop bs (out[codep := of_nat (length blk + 1)]) (pos + 1) pos (of_nat (length [] + 1)) = Some (out', pos', codep', code')"
      using "2.prems"(1) by (auto simp: arr_set_def split: if_splits)
    from "2.IH"(1) [OF True this] show ?thesis using True by auto
  next
    case b: False
    then have p: "pos < length out" using "2.prems"(1) by (auto simp: arr_set_def split: if_splits)
    show ?thesis
    proof (cases "length blk = 253")
      case True
      then have "cobs_encode_loop bs (out[pos := b, codep := 0xFF]) (pos + 1 + 1) (pos + 1) (of_nat (length [] + 1)) = Some (out', pos', codep', code')"
        using "2.prems"(1) b p by (auto simp: arr_set_def split: if_splits)
      from "2.IH"(2) [OF b True this] show ?thesis using True b by auto
    next
      case n: False
      have c: "(of_nat (length blk + 1) :: u8) + 1 \<noteq> 0xFF" using code_nonzero [of "length blk + 1"] "2.prems"(2) n by (simp add: add.commute)
      have "cobs_encode_loop bs (out[pos := b]) (pos + 1) codep (of_nat (length (blk @ [b]) + 1)) = Some (out', pos', codep', code')"
        using "2.prems"(1) b p c by (simp add: arr_set_def add.commute)
      from "2.IH"(3) [OF b n this] show ?thesis using n b p "2.prems"(2) by auto
    qed
  qed
qed simp

lemma cobs_encode_short:
  assumes "n \<le> length input" "length output < length (stuff (take n input) [])"
  shows "z_cobs_encode input n output = None"
proof (cases "cobs_encode_loop (take n input) output 1 0 1")
  case (Some r)
  then obtain out pos codep code where r: "cobs_encode_loop (take n input) output 1 0 (of_nat (length ([] :: bytes) + 1)) = Some (out, pos, codep, code)"
    by (cases r) auto
  from encode_loop_room [OF this] have "length out = length output" "pos = codep + 1 \<or> pos \<le> length output"
    "pos = length (stuff (take n input) [])" by auto
  then have "\<not> codep < length out" using assms(2) by auto
  then show ?thesis using r assms(1) by (simp add: z_cobs_encode_def arr_set_def)
qed (use assms in \<open>simp add: z_cobs_encode_def\<close>)

section \<open>The decoder\<close>

text \<open>\<open>dec_at bs code block pos out res\<close>: decoding \<open>bs\<close> from this state appends \<open>res\<close> to the first \<open>pos\<close> bytes.\<close>

definition dec_at :: "bytes \<Rightarrow> u8 \<Rightarrow> u8 \<Rightarrow> nat \<Rightarrow> bytes \<Rightarrow> bytes \<Rightarrow> bool" where
  "dec_at bs code block pos out res \<longleftrightarrow>
     (\<exists>out'. cobs_decode_loop bs code block out pos = Some (pos + length res, out') \<and> length out' = length out \<and>
       take (pos + length res) out' = take pos out @ res)"

lemma dec_block:
  "length blk \<le> 254 \<Longrightarrow> pos + length blk \<le> length out \<Longrightarrow>
    (\<And>out'. length out' = length out \<Longrightarrow> take (pos + length blk) out' = take pos out @ blk \<Longrightarrow>
       dec_at rest code 0 (pos + length blk) out' res) \<Longrightarrow>
    dec_at (blk @ rest) code (of_nat (length blk)) pos out (blk @ res)"
proof (induction blk arbitrary: pos out)
  case Nil
  then show ?case by simp
next
  case (Cons b blk)
  have nz: "(of_nat (length (b # blk)) :: u8) \<noteq> 0" using code_nonzero [of "length blk"] Cons.prems(1) by simp
  have p: "pos < length out" using Cons.prems(2) by simp
  have "dec_at (blk @ rest) code (of_nat (length blk)) (pos + 1) (out[pos := b]) (blk @ res)"
  proof (rule Cons.IH)
    fix out' :: bytes
    assume "length out' = length (out[pos := b])" "take (pos + 1 + length blk) out' = take (pos + 1) (out[pos := b]) @ blk"
    then show "dec_at rest code 0 (pos + 1 + length blk) out' res"
      using Cons.prems(3) [of out'] take_Suc_update [OF p] by simp
  qed (use Cons.prems in simp_all)
  then show ?case using nz p take_Suc_update [OF p, of b] by (auto simp: dec_at_def)
qed

text \<open>A code byte in between puts out the zero that it stands for.\<close>

lemma dec_code:
  assumes "c \<noteq> 0" "pos < length out"
    and "\<And>out'. length out' = length out \<Longrightarrow> take (pos + length z) out' = take pos out @ z \<Longrightarrow>
      dec_at rest c (c - 1) (pos + length z) out' res"
    and "z = (if code \<noteq> 0xFF then [0] else [])"
  shows "dec_at (c # rest) code 0 pos out (z @ res)"
proof (cases "code = 0xFF")
  case True
  then show ?thesis using assms(1) assms(3) [of out] assms(4) by (simp add: dec_at_def)
next
  case False
  then have z: "z = [0]" using assms(4) by simp
  have t: "take (pos + 1) (out[pos := 0]) = take pos out @ [0]" using take_Suc_update [OF assms(2)] by simp
  then have "dec_at rest c (c - 1) (pos + 1) (out[pos := 0]) res" using assms(3) [of "out[pos := 0]"] z by simp
  then show ?thesis using False assms(1,2) z t by (auto simp: dec_at_def)
qed

lemma dec_end:
  "code \<noteq> 0xFF \<Longrightarrow> tail \<in> {[], [0]} \<Longrightarrow> pos + length tail \<le> length out \<Longrightarrow> dec_at tail code 0 pos out []"
  by (auto simp: dec_at_def)

lemma dec_stuff:
  "length blk \<le> 253 \<Longrightarrow> tail \<in> {[], [0]} \<Longrightarrow> pos + length (stuff bs blk @ tail) \<le> length out \<Longrightarrow>
    dec_at (stuff bs blk @ tail) code 0 pos out ((if code \<noteq> 0xFF then [0] else []) @ blk @ bs)"
proof (induction bs blk arbitrary: code pos out rule: stuff.induct)
  case (1 blk)
  let ?c = "of_nat (length blk + 1) :: u8"
  have c: "?c \<noteq> 0" "?c \<noteq> 0xFF" "?c - 1 = of_nat (length blk)" using code_nonzero [OF "1.prems"(1)] by simp_all
  show ?case
    unfolding stuff.simps append_Cons
    by (rule dec_code, rule c, use 1 in simp, unfold c(3) append_Nil2, rule dec_block [where res = "[]", simplified])
      (use 1 c in \<open>auto intro!: dec_end split: if_splits\<close>)
next
  case (2 b bs blk)
  let ?c = "of_nat (length blk + 1) :: u8" and ?z = "if code \<noteq> 0xFF then [0] else [] :: bytes"
  have c: "?c \<noteq> 0" "?c \<noteq> 0xFF" "?c - 1 = of_nat (length blk)" using code_nonzero [OF "2.prems"(1)] by simp_all
  show ?case
  proof (cases "b = 0")
    case True
    have "dec_at (?c # blk @ stuff bs [] @ tail) code 0 pos out (?z @ blk @ [0] @ bs)"
      by (rule dec_code, rule c, use 2 True in simp, unfold c(3), rule dec_block)
        (use 2 True c "2.IH"(1) [OF True, where code = ?c] in \<open>auto split: if_splits\<close>)
    then show ?thesis using True by simp
  next
    case b: False
    show ?thesis
    proof (cases "length blk = 253")
      case True
      have f: "(0xFF :: u8) - 1 = of_nat (length (blk @ [b]))" using True by simp
      have "dec_at (0xFF # (blk @ [b]) @ stuff bs [] @ tail) code 0 pos out (?z @ (blk @ [b]) @ bs)"
        by (rule dec_code, simp, use 2 b True in simp, unfold f, rule dec_block)
          (use 2 b True "2.IH"(2) [OF b True, where code = "0xFF"] in \<open>auto split: if_splits\<close>)
      then show ?thesis using b True by simp
    next
      case n: False
      then show ?thesis using "2.IH"(3) [OF b n, of pos out code] "2.prems" b by simp
    qed
  qed
qed

lemma cobs_decode_stuff:
  assumes "tail \<in> {[], [0]}" "take n input = stuff bs [] @ tail" "n \<le> length input" "n \<le> length outp"
  shows "\<exists>out'. z_cobs_decode input n outp = Some (length bs, out') \<and> length out' = length outp \<and> take (length bs) out' = bs"
proof -
  have "length (stuff bs [] @ tail) = n" using assms(2,3) by (metis length_take min.absorb2)
  then have "dec_at (stuff bs [] @ tail) 0xFF 0 0 outp bs" using dec_stuff [of "[]" tail 0 bs outp "0xFF"] assms(1,4) by simp
  then show ?thesis using assms(2,3) by (auto simp: dec_at_def z_cobs_decode_def)
qed

text \<open>It never writes more bytes than it reads.\<close>

lemma decode_loop_bounds:
  "pos + length bs \<le> length out \<Longrightarrow>
    \<exists>n out'. cobs_decode_loop bs code block out pos = Some (n, out') \<and> length out' = length out \<and>
      (n \<le> pos + length bs \<or> pos = 0 \<and> n = SIZE_MAX)"
proof (induction bs arbitrary: code block out pos)
  case (Cons b bs)
  show ?case
  proof (cases "block = 0")
    case True
    let ?out = "if code \<noteq> 0xFF then out[pos := 0] else out" and ?pos = "if code \<noteq> 0xFF then pos + 1 else pos"
    have "cobs_decode_loop (b # bs) code block out pos =
        (if b = 0 then Some (size_sub ?pos 1, ?out) else cobs_decode_loop bs b (b - 1) ?out ?pos)"
      using True Cons.prems by simp
    moreover have "\<exists>n out'. cobs_decode_loop bs b (b - 1) ?out ?pos = Some (n, out') \<and> length out' = length ?out \<and>
        (n \<le> ?pos + length bs \<or> ?pos = 0 \<and> n = SIZE_MAX)"
      using Cons.prems by (intro Cons.IH) simp
    ultimately show ?thesis by (cases "?pos") (auto split: if_splits)
  next
    case False
    then show ?thesis using Cons.IH [of "pos + 1" "out[pos := b]" code "block - 1"] Cons.prems by auto
  qed
qed simp

end
