(* ===== verification/ZSerial.thy ===== *)
theory ZSerial
  imports ZCobs
begin

text \<open>
  The frames of the serial link, \<open>protocol/codec/serial.c\<close>, with their checksum,
  \<open>utils/checksum.c\<close>: kind, length, payload and checksum, stuffed and ended by a zero byte.

  The checksum shifts to the right with the polynomial in the order that belongs to shifting to the left.
\<close>

section \<open>The checksum\<close>

definition z_crc_step :: "u32 \<Rightarrow> u32" where
  "z_crc_step crc = drop_bit 1 crc XOR (0x04C11DB7 AND (- (crc AND 1)))"

definition z_crc_byte :: "u32 \<Rightarrow> u8 \<Rightarrow> u32" where
  "z_crc_byte crc b = (z_crc_step ^^ 8) (crc XOR ucast b)"

definition z_crc32 :: "bytes \<Rightarrow> nat \<Rightarrow> u32 option" where
  "z_crc32 message n = do {
     assert_c (n \<le> length message);
     Some (NOT (foldl z_crc_byte 0xFFFFFFFF (take n message))) }"

section \<open>Frames\<close>

definition z_serial_msg_serialize ::
  "bytes \<Rightarrow> nat \<Rightarrow> bytes \<Rightarrow> nat \<Rightarrow> u8 \<Rightarrow> bytes \<Rightarrow> nat \<Rightarrow> (nat \<times> bytes \<times> bytes) option" where
  "z_serial_msg_serialize dest dest_len src src_len header tmp_buf tmp_buf_len =
     (if tmp_buf_len < size_add src_len 7 then Some (SIZE_MAX, dest, tmp_buf)
      else do {
        crc32 \<leftarrow> z_crc32 src src_len;
        let crc_bytes = [ucast (crc32 AND 0xFF), ucast (drop_bit 8 crc32 AND 0xFF), ucast (drop_bit 16 crc32 AND 0xFF),
          ucast (drop_bit 24 crc32 AND 0xFF)];
        let wire_size = (of_nat src_len :: u16);
        let size_bytes = [ucast (wire_size AND 0xFF), ucast (drop_bit 8 wire_size AND 0xFF)];
        tmp0 \<leftarrow> arr_set tmp_buf 0 header;
        tmp1 \<leftarrow> c_write tmp0 1 size_bytes;
        d \<leftarrow> c_read src 0 src_len;
        tmp2 \<leftarrow> c_write tmp1 3 d;
        tmp3 \<leftarrow> c_write tmp2 (3 + src_len) crc_bytes;
        (ret, dest1) \<leftarrow> z_cobs_encode tmp3 (3 + src_len + 4) dest;
        if dest_len < size_add ret 1 then Some (SIZE_MAX, dest1, tmp3)
        else do { dest2 \<leftarrow> arr_set dest1 ret 0; Some (size_add ret 1, dest2, tmp3) } })"

text \<open>The result, the destination and the caller's variable for the header.\<close>

definition z_serial_msg_deserialize ::
  "bytes \<Rightarrow> nat \<Rightarrow> bytes \<Rightarrow> nat \<Rightarrow> u8 \<Rightarrow> bytes \<Rightarrow> nat \<Rightarrow> (nat \<times> bytes \<times> u8) option" where
  "z_serial_msg_deserialize src src_len dst dst_len header0 tmp_buf tmp_buf_len =
     (if tmp_buf_len < src_len then Some (SIZE_MAX, dst, header0)
      else do {
        (decoded_size, tmp) \<leftarrow> z_cobs_decode src src_len tmp_buf;
        if decoded_size < 7 then Some (SIZE_MAX, dst, header0)
        else do {
          header \<leftarrow> arr_get tmp 0;
          lo \<leftarrow> arr_get tmp 1;
          hi \<leftarrow> arr_get tmp 2;
          let wire_size = unat ((ucast lo OR push_bit 8 (ucast hi)) :: u16);
          if size_add wire_size 7 \<noteq> decoded_size then Some (SIZE_MAX, dst, header)
          else if dst_len < wire_size then Some (SIZE_MAX, dst, header)
          else do {
            dst1 \<leftarrow> (if wire_size \<noteq> 0 then do { d \<leftarrow> c_read tmp 3 wire_size; c_write dst 0 d } else Some dst);
            b0 \<leftarrow> arr_get tmp (3 + wire_size);
            b1 \<leftarrow> arr_get tmp (4 + wire_size);
            b2 \<leftarrow> arr_get tmp (5 + wire_size);
            b3 \<leftarrow> arr_get tmp (6 + wire_size);
            let received_crc = (ucast b0 OR push_bit 8 (ucast b1) OR push_bit 16 (ucast b2) OR push_bit 24 (ucast b3) :: u32);
            computed_crc \<leftarrow> z_crc32 dst1 wire_size;
            Some (if received_crc \<noteq> computed_crc then SIZE_MAX else wire_size, dst1, header) } } })"

section \<open>The frame as a list\<close>

definition size_bytes :: "nat \<Rightarrow> bytes" where
  "size_bytes n = [ucast ((of_nat n :: u16) AND 0xFF), ucast (drop_bit 8 (of_nat n :: u16) AND 0xFF)]"

definition crc_bytes :: "u32 \<Rightarrow> bytes" where
  "crc_bytes c = [ucast (c AND 0xFF), ucast (drop_bit 8 c AND 0xFF), ucast (drop_bit 16 c AND 0xFF), ucast (drop_bit 24 c AND 0xFF)]"

definition serial_frame :: "u8 \<Rightarrow> bytes \<Rightarrow> u32 \<Rightarrow> bytes" where
  "serial_frame header d c = header # size_bytes (length d) @ d @ crc_bytes c"

definition crc_of :: "bytes \<Rightarrow> u32" where
  "crc_of d = NOT (foldl z_crc_byte 0xFFFFFFFF d)"

lemma z_crc32_eq: "n \<le> length m \<Longrightarrow> z_crc32 m n = Some (crc_of (take n m))"
  by (simp add: z_crc32_def crc_of_def)

lemma length_frame [simp]: "length (serial_frame h d c) = length d + 7" "length (size_bytes n) = 2" "length (crc_bytes c) = 4"
  by (simp_all add: serial_frame_def size_bytes_def crc_bytes_def)

lemma c_write_append: "off = length xs \<Longrightarrow> length d \<le> length ys \<Longrightarrow> c_write (xs @ ys) off d = Some ((xs @ d) @ drop (length d) ys)"
  by (simp add: memcpy_at_def)

lemma serialize_frame:
  assumes "src_len \<le> length src" "src_len + 7 \<le> SIZE_MAX" "src_len + 7 \<le> length tmp_buf" "tmp_buf_len = length tmp_buf"
  shows "z_serial_msg_serialize dest dest_len src src_len header tmp_buf tmp_buf_len = do {
     let f = serial_frame header (take src_len src) (crc_of (take src_len src)) @ drop (src_len + 7) tmp_buf;
     (ret, dest1) \<leftarrow> z_cobs_encode f (src_len + 7) dest;
     if dest_len < size_add ret 1 then Some (SIZE_MAX, dest1, f)
     else do { dest2 \<leftarrow> arr_set dest1 ret 0; Some (size_add ret 1, dest2, f) } }"
proof -
  let ?d = "take src_len src" and ?c = "crc_of (take src_len src)"
  obtain t0 t where t: "tmp_buf = t0 # t" "src_len + 6 \<le> length t" using assms(3) by (cases tmp_buf) auto
  have 1: "c_write (header # t) 1 (size_bytes src_len) = Some ((header # size_bytes src_len) @ drop 2 t)"
    using c_write_append [of 1 "[header]" "size_bytes src_len" t] t by simp
  have 2: "c_write ((header # size_bytes src_len) @ drop 2 t) 3 ?d = Some ((header # size_bytes src_len @ ?d) @ drop (src_len + 2) t)"
    using c_write_append [of 3 "header # size_bytes src_len" ?d "drop 2 t"] t assms(1) by (simp add: min_absorb2 add.commute)
  have 3: "c_write ((header # size_bytes src_len @ ?d) @ drop (src_len + 2) t) (3 + src_len) (crc_bytes ?c) =
      Some (serial_frame header ?d ?c @ drop (src_len + 7) tmp_buf)"
    using c_write_append [of "3 + src_len" "header # size_bytes src_len @ ?d" "crc_bytes ?c" "drop (src_len + 2) t"] t assms(1)
    by (simp add: min_absorb2 serial_frame_def drop_Cons' add.commute)
  have s: "slice src 0 src_len = ?d" by (simp add: slice_def)
  show ?thesis
    using assms t 1 2 3
    by (simp add: z_serial_msg_serialize_def z_crc32_eq arr_set_def s Let_def size_bytes_def [of src_len, symmetric]
        crc_bytes_def [symmetric] add.commute del: c_write_in)
qed

lemma u16_join_bytes: "(ucast (ucast (w AND 0xFF) :: u8) OR push_bit 8 (ucast (ucast (drop_bit 8 w AND 0xFF) :: u8)) :: u16) = w"
  unfolding ucast_low
proof (rule bit_word_eqI)
  fix n assume "n < LENGTH(16)"
  then show "bit (ucast (ucast w :: u8) OR push_bit 8 (ucast (ucast (drop_bit 8 w) :: u8)) :: u16) n \<longleftrightarrow> bit w n"
    by (cases "n < 8") (auto simp: bit_simps)
qed

lemma u32_join_bytes:
  "(ucast (ucast (w AND 0xFF) :: u8) OR push_bit 8 (ucast (ucast (drop_bit 8 w AND 0xFF) :: u8)) OR
    push_bit 16 (ucast (ucast (drop_bit 16 w AND 0xFF) :: u8)) OR push_bit 24 (ucast (ucast (drop_bit 24 w AND 0xFF) :: u8)) :: u32) = w"
  unfolding ucast_low
proof (rule bit_word_eqI)
  fix n assume "n < LENGTH(32)"
  then show "bit (ucast (ucast w :: u8) OR push_bit 8 (ucast (ucast (drop_bit 8 w) :: u8)) OR
      push_bit 16 (ucast (ucast (drop_bit 16 w) :: u8)) OR push_bit 24 (ucast (ucast (drop_bit 24 w) :: u8)) :: u32) n \<longleftrightarrow> bit w n"
    by (cases "n < 8"; cases "n < 16"; cases "n < 24") (auto simp: bit_simps)
qed

lemma deserialize_frame:
  assumes "take src_len src = stuff (serial_frame h d c) [] @ tail" "tail \<in> {[], [0]}" "src_len \<le> length src"
    and "src_len \<le> tmp_buf_len" "tmp_buf_len \<le> length tmp_buf" "length d \<le> 0xFFFF" "length d \<le> dst_len" "dst_len \<le> length dst"
  shows "z_serial_msg_deserialize src src_len dst dst_len h0 tmp_buf tmp_buf_len =
    Some (if c = crc_of d then length d else SIZE_MAX, d @ drop (length d) dst, h)"
proof -
  obtain t where t: "z_cobs_decode src src_len tmp_buf = Some (length (serial_frame h d c), t)" "length t = length tmp_buf"
    "take (length (serial_frame h d c)) t = serial_frame h d c"
    using cobs_decode_stuff [OF assms(2,1,3), of tmp_buf] assms(4,5) by auto
  then have tf: "t = serial_frame h d c @ drop (length d + 7) t" by (metis append_take_drop_id length_frame(1))
  obtain r where t2: "t = serial_frame h d c @ r" using tf by blast
  let ?w = "of_nat (length d) :: u16"
  have w: "unat ?w = length d" using assms(6) by (simp add: unat_of_nat)
  have n: "t ! 0 = h" "t ! Suc 0 = ucast (?w AND 0xFF)" "t ! 2 = ucast (drop_bit 8 ?w AND 0xFF)"
    "t ! (3 + length d) = ucast (c AND 0xFF)" "t ! (4 + length d) = ucast (drop_bit 8 c AND 0xFF)"
    "t ! (5 + length d) = ucast (drop_bit 16 c AND 0xFF)" "t ! (6 + length d) = ucast (drop_bit 24 c AND 0xFF)"
    "slice t 3 (length d) = d"
    by (simp_all add: t2 serial_frame_def size_bytes_def crc_bytes_def slice_def nth_append numeral_eq_Suc)
  have l: "length d + 7 \<le> length t" by (simp add: t2)
  have s: "size_add (length d) 7 = length d + 7" using assms(6) by (simp add: SIZE_MAX_def)
  have wr: "c_write dst 0 d = Some (d @ drop (length d) dst)" using assms(7,8) by (simp add: memcpy_at_def)
  have "length d \<noteq> 0 \<Longrightarrow> c_read t 3 (length d) = Some d" using l n(8) by simp
  moreover have "length d = 0 \<Longrightarrow> d @ drop (length d) dst = dst" by simp
  moreover have "arr_get t 0 = Some h" using l n(1) by (cases t) simp_all
  ultimately show ?thesis
    using assms(4,7,8) t(1) l s w wr n(2-)
    by (simp add: z_serial_msg_deserialize_def u16_join_bytes u32_join_bytes Let_def z_crc32_eq del: c_read_in c_write_in)
qed

section \<open>What the checksum misses\<close>

lemma low_bit_mask: "- (x AND 1) = (if bit x 0 then - 1 else 0)" for x :: u32
  by (simp add: and_one_eq bit_0 odd_iff_mod_2_eq_one)

lemma crc_step_xor: "z_crc_step (a XOR b) = z_crc_step a XOR z_crc_step b"
proof -
  have "drop_bit 1 (a XOR b) = drop_bit 1 a XOR drop_bit 1 b" by (rule drop_bit_xor)
  then show ?thesis
    by (auto simp: z_crc_step_def low_bit_mask bit_xor_iff xor.assoc xor.left_commute)
qed

lemma crc_steps_xor: "(z_crc_step ^^ n) (a XOR b) = (z_crc_step ^^ n) a XOR (z_crc_step ^^ n) b"
  by (induction n arbitrary: a b) (simp_all add: crc_step_xor del: funpow.simps add: funpow_Suc_right)

text \<open>One exclusive or with a byte per byte comes out as one with a difference of the state.\<close>

lemma crc_byte_xor: "z_crc_byte (c XOR e) (b XOR d) = z_crc_byte c b XOR z_crc_byte e d"
proof -
  have "(c XOR e) XOR ucast (b XOR d) = (c XOR ucast b) XOR (e XOR ucast d)"
    by (simp add: unsigned_xor_eq ac_simps)
  then show ?thesis by (simp add: z_crc_byte_def crc_steps_xor)
qed

lemma crc_8: "(z_crc_step ^^ 8) x =
    z_crc_step (z_crc_step (z_crc_step (z_crc_step (z_crc_step (z_crc_step (z_crc_step (z_crc_step x)))))))"
  by (simp add: eval_nat_numeral)

lemma crc_of_burst:
  "crc_of (pre @ [b0 XOR 0x6F, b1 XOR 0x3B, b2 XOR 0x82, b3 XOR 0x09] @ post) = crc_of (pre @ [b0, b1, b2, b3] @ post)"
proof -
  have z: "z_crc_byte (z_crc_byte (z_crc_byte (z_crc_byte 0 0x6F) 0x3B) 0x82) 0x09 = 0"
    by (simp add: z_crc_byte_def crc_8 z_crc_step_def)
  have "z_crc_byte (z_crc_byte (z_crc_byte (z_crc_byte c (b0 XOR 0x6F)) (b1 XOR 0x3B)) (b2 XOR 0x82)) (b3 XOR 0x09) =
      z_crc_byte (z_crc_byte (z_crc_byte (z_crc_byte c b0) b1) b2) b3" for c
    using crc_byte_xor [of c 0 b0 "0x6F"] z by (simp add: crc_byte_xor)
  then show ?thesis by (simp add: crc_of_def)
qed

section \<open>Properties\<close>

text \<open>
  C34: the in-place encoder writes the reference stuffing, which holds no zero byte and is at most one byte in
  254 longer than the input; the decoder takes it back, with or without the zero that ends the frame.
\<close>

theorem cobs_reference:
  assumes "length bs + length bs div 254 + 1 \<le> length outp"
  shows "\<exists>n out. z_cobs_encode bs (length bs) outp = Some (n, out) \<and> take n out = stuff bs [] \<and> 0 \<notin> set (take n out) \<and>
    n \<le> length bs + length bs div 254 + 1 \<and>
    (\<forall>buf. n \<le> length buf \<longrightarrow> (\<exists>d. z_cobs_decode out n buf = Some (length bs, d) \<and> take (length bs) d = bs)) \<and>
    (\<forall>buf. n < length buf \<longrightarrow> (\<exists>d. z_cobs_decode (take n out @ [0]) (n + 1) buf = Some (length bs, d) \<and> take (length bs) d = bs))"
proof -
  have l: "length (stuff bs []) \<le> length bs + length bs div 254 + 1" using length_stuff [of "[]" bs] by simp
  let ?n = "length (stuff bs [])" and ?out = "stuff bs [] @ drop (length (stuff bs [])) outp"
  have e: "z_cobs_encode bs (length bs) outp = Some (?n, ?out)"
    using cobs_encode_stuff [of "length bs" bs outp] l assms by simp
  have "\<exists>d. z_cobs_decode ?out ?n buf = Some (length bs, d) \<and> take (length bs) d = bs" if "?n \<le> length buf" for buf
    using cobs_decode_stuff [of "[]" ?n ?out bs buf] that l assms by auto
  moreover have "\<exists>d. z_cobs_decode (take ?n ?out @ [0]) (?n + 1) buf = Some (length bs, d) \<and> take (length bs) d = bs" if "?n < length buf" for buf
    using cobs_decode_stuff [of "[0]" "?n + 1" "take ?n ?out @ [0]" bs buf] that by auto
  ultimately show ?thesis using e l stuff_no_zero [of "[]" bs] by (intro exI [of _ ?n] exI [of _ ?out]) auto
qed

theorem cobs_reference_witness:
  "\<exists>n out. z_cobs_encode [0, 1] 2 [9, 9, 9, 9] = Some (n, out) \<and> take n out = [1, 2, 1] \<and>
    (\<exists>d. z_cobs_decode out n [5, 5, 5] = Some (2, d) \<and> take 2 d = [0, 1])"
  using cobs_reference [of "[0, 1]" "[9, 9, 9, 9]"] by (auto simp: numeral_2_eq_2 dest!: spec [of _ "[5, 5, 5] :: bytes"])

text \<open>
  What \<open>_z_serial_msg_serialize\<close> writes into a buffer with room for it is one frame: no zero in front of the
  last byte, and \<open>_z_serial_msg_deserialize\<close> gets header and payload back.
\<close>

theorem serial_roundtrip:
  assumes "length d \<le> 0xFFFF" "length d + 7 \<le> length tmp" "length d + (length d + 7) div 254 + 9 \<le> length dest"
    and "length dest \<le> SIZE_MAX" "length d \<le> length dst" "length dest \<le> length tmp2"
  shows "\<exists>n dest' tmp'. z_serial_msg_serialize dest (length dest) d (length d) header tmp (length tmp) = Some (n, dest', tmp') \<and>
    n \<le> length d + (length d + 7) div 254 + 9 \<and> 0 \<notin> set (take (n - 1) dest') \<and> dest' ! (n - 1) = 0 \<and>
    z_serial_msg_deserialize dest' n dst (length dst) h0 tmp2 (length tmp2) = Some (length d, d @ drop (length d) dst, header)"
proof -
  let ?f = "serial_frame header d (crc_of d)" and ?g = "serial_frame header d (crc_of d) @ drop (length d + 7) tmp"
  let ?n = "length (stuff ?f [])"
  have l: "?n \<le> length d + 7 + (length d + 7) div 254 + 1" using length_stuff [of "[]" ?f] by simp
  have t: "take (length d + 7) ?g = ?f" by simp
  have dl: "?n < length dest" using l assms(3) by simp
  have "z_cobs_encode ?g (length d + 7) dest = Some (?n, stuff ?f [] @ drop ?n dest)"
    using cobs_encode_stuff [of "length d + 7" ?g dest] dl unfolding t by simp
  moreover have "arr_set (stuff ?f [] @ drop ?n dest) ?n 0 = Some (stuff ?f [] @ 0 # drop (Suc ?n) dest)"
    using dl arr_set_append [of ?n "stuff ?f []" "dest ! ?n" "drop (Suc ?n) dest" 0] by (simp add: Cons_nth_drop_Suc)
  ultimately have s: "z_serial_msg_serialize dest (length dest) d (length d) header tmp (length tmp) =
      Some (?n + 1, stuff ?f [] @ 0 # drop (Suc ?n) dest, ?g)"
    using serialize_frame [of "length d" d tmp "length tmp" dest "length dest" header] assms(1,2,4) dl
    by (simp add: Let_def SIZE_MAX_def)
  have "z_serial_msg_deserialize (stuff ?f [] @ 0 # drop (Suc ?n) dest) (?n + 1) dst (length dst) h0 tmp2 (length tmp2) =
      Some (length d, d @ drop (length d) dst, header)"
    using deserialize_frame [of "?n + 1" "stuff ?f [] @ 0 # drop (Suc ?n) dest" header d "crc_of d" "[0]"] assms dl by simp
  then show ?thesis using s l stuff_no_zero [of "[]" ?f]
    by (intro exI [of _ "?n + 1"] exI [of _ "stuff ?f [] @ 0 # drop (Suc ?n) dest"] exI [of _ ?g]) (simp add: nth_append)
qed

theorem serial_roundtrip_witness:
  "\<exists>n dest' tmp'. z_serial_msg_serialize (replicate 20 9) 20 [1, 0, 2] 3 5 (replicate 30 0) 30 = Some (n, dest', tmp') \<and>
    z_serial_msg_deserialize dest' n [7, 7, 7] 3 0 (replicate 30 1) 30 = Some (3, [1, 0, 2], 5)"
  using serial_roundtrip [of "[1, 0, 2]" "replicate 30 0" "replicate 20 9" "[7, 7, 7]" "replicate 30 1" 5 0]
  by (auto simp: SIZE_MAX_def numeral_3_eq_3)

text \<open>
  A burst of four bytes anywhere in the payload goes through: the frame with the changed payload and the
  checksum of the original one is accepted. A cyclic checksum of 32 bits detects every burst of that length.
\<close>

theorem serial_burst_accepted:
  assumes "d = pre @ [b0, b1, b2, b3] @ post" "d' = pre @ [b0 XOR 0x6F, b1 XOR 0x3B, b2 XOR 0x82, b3 XOR 0x09] @ post"
    and "frame = stuff (serial_frame header d' (crc_of d)) [] @ [0]" "length d \<le> 0xFFFF" "length d \<le> length dst"
    and "length frame \<le> length tmp"
  shows "d' \<noteq> d \<and> z_crc32 d (length d) = Some (crc_of d) \<and>
    z_serial_msg_deserialize frame (length frame) dst (length dst) h0 tmp (length tmp) = Some (length d', d' @ drop (length d') dst, header)"
proof -
  have c: "crc_of d' = crc_of d" using crc_of_burst [of pre b0 b1 b2 b3 post] assms(1,2) by simp
  have l: "length d' = length d" using assms(1,2) by simp
  have "b0 XOR 0x6F \<noteq> b0"
  proof
    assume "b0 XOR 0x6F = b0"
    then have "b0 XOR (b0 XOR 0x6F) = b0 XOR b0" by simp
    then show False by (simp flip: xor.assoc)
  qed
  then have "d' \<noteq> d" using assms(1,2) by simp
  then show ?thesis
    using deserialize_frame [of "length frame" frame header d' "crc_of d" "[0]" "length tmp" tmp "length dst" dst h0] assms(3-6) l c
    by (simp add: z_crc32_eq)
qed

theorem serial_burst_accepted_witness:
  "z_serial_msg_deserialize (stuff (serial_frame 5 [0x6E, 0x39, 0x81, 0x0D] (crc_of [1, 2, 3, 4])) [] @ [0])
      (length (stuff (serial_frame 5 [0x6E, 0x39, 0x81, 0x0D] (crc_of [1, 2, 3, 4])) [] @ [0])) [7, 7, 7, 7] 4 0 (replicate 30 1) 30 =
    Some (4, [0x6E, 0x39, 0x81, 0x0D], 5)"
proof -
  have four: "(4 :: nat) = Suc (Suc (Suc (Suc 0)))" by simp
  show ?thesis
    using serial_burst_accepted [of "[1, 2, 3, 4]" "[]" 1 2 3 4 "[]" "[0x6E, 0x39, 0x81, 0x0D]" _ 5 "[7, 7, 7, 7]" "replicate 30 1" 0, OF _ _ refl]
      length_stuff [of "[]" "serial_frame 5 [0x6E, 0x39, 0x81, 0x0D] (crc_of [1, 2, 3, 4])"] by (simp add: four)
qed

text \<open>
  No input makes \<open>_z_serial_msg_deserialize\<close> read or write outside of its buffers, if the scratch
  buffer has three bytes: it fails, or the payload fits the destination.
\<close>

theorem serial_deserialize_in_bounds:
  assumes "src_len \<le> length src" "tmp_len \<le> length tmp" "3 \<le> length tmp" "dst_len \<le> length dst"
  shows "\<exists>r dst' h. z_serial_msg_deserialize src src_len dst dst_len h0 tmp tmp_len = Some (r, dst', h) \<and>
    length dst' = length dst \<and> (r = SIZE_MAX \<or> r \<le> dst_len)"
proof (cases "tmp_len < src_len")
  case True
  then show ?thesis by (simp add: z_serial_msg_deserialize_def)
next
  case False
  then obtain n t where t: "z_cobs_decode src src_len tmp = Some (n, t)" "length t = length tmp" "n \<le> length tmp \<or> n = SIZE_MAX"
    using decode_loop_bounds [of 0 "take src_len src" tmp "0xFF" 0] assms(1,2)
    by (fastforce simp: z_cobs_decode_def)
  obtain w where w: "unat (ucast (t ! Suc 0) OR push_bit 8 (ucast (t ! 2)) :: u16) = w" "w < 65536" using unat_u16_less by blast
  have "SIZE_MAX = 4294967295" by (simp add: SIZE_MAX_def)
  then have w7: "w + 7 \<le> SIZE_MAX" "w + 7 \<noteq> SIZE_MAX" using w(2) by linarith+
  have l: "3 \<le> length t" "0 < length t" using assms(3) t(2) by auto
  note eval = z_serial_msg_deserialize_def Let_def t(1) w(1) size_add_small [OF w7(1)]
  show ?thesis
  proof (cases "7 \<le> n \<and> w + 7 = n \<and> w \<le> dst_len")
    case True
    then have w': "w + 7 \<le> length t" "w \<le> length dst" "w \<le> dst_len" "n = w + 7" using t(2,3) w7(2) assms(4) by auto
    then show ?thesis using False l w(1)
      by (cases "w = 0") (simp_all add: eval z_crc32_eq)
  next
    case 2: False
    then show ?thesis using False l by (auto simp: eval)
  qed
qed

theorem serial_deserialize_in_bounds_witness:
  "\<exists>r dst' h. z_serial_msg_deserialize [0, 1, 2] 3 [7, 7] 2 0 [9, 9, 9] 3 = Some (r, dst', h) \<and>
    length dst' = 2 \<and> (r = SIZE_MAX \<or> r \<le> 2)"
  using serial_deserialize_in_bounds [of 3 "[0, 1, 2]" 3 "[9, 9, 9]" 2 "[7, 7]" 0] by (simp add: numeral_3_eq_3 numeral_2_eq_2)

text \<open>
  \<open>_z_serial_msg_serialize\<close> compares the length of its destination with what it needs only after it has written
  it: into a destination that is too short for the payload it writes behind the end.
\<close>

theorem serial_serialize_overflow:
  assumes "length d + 7 \<le> SIZE_MAX" "length d + 7 \<le> length tmp" "length dest \<le> length d + 7"
  shows "z_serial_msg_serialize dest (length dest) d (length d) header tmp (length tmp) = None"
proof -
  let ?f = "serial_frame header d (crc_of d)" and ?g = "serial_frame header d (crc_of d) @ drop (length d + 7) tmp"
  have "take (length d + 7) ?g = ?f" by simp
  moreover have "length ?f + 1 \<le> length (stuff ?f [])" using length_stuff_all [of "[]" ?f] by simp
  ultimately have "z_cobs_encode ?g (length d + 7) dest = None"
    using cobs_encode_short [of "length d + 7" ?g dest] assms(3) by simp
  then show ?thesis using serialize_frame [of "length d" d tmp "length tmp" dest "length dest" header] assms(1,2) by (simp add: Let_def)
qed

theorem serial_serialize_overflow_witness:
  "z_serial_msg_serialize [0, 0] (length [0, 0 :: u8]) [1] (length [1 :: u8]) 5 (replicate 30 0) (length (replicate 30 (0 :: u8))) = None"
  using serial_serialize_overflow [of "[1]" "replicate 30 0" "[0, 0]" 5] by (simp add: SIZE_MAX_def)

end
