(* ===== verification/ZCodec.thy ===== *)
theory ZCodec
  imports ZWBuf Format
begin

text \<open>
  The primitive encodings of zenoh-pico, \<open>protocol/codec.c\<close> and \<open>protocol/codec/core.h\<close>: integers
  of variable length, slices, strings, encodings and values.

  A decoder returns \<open>Inl\<close> of an error code or \<open>Inr\<close> of the value, and the buffer with its new read
  position. Slices and strings that are decoded alias the buffer; here they are their bytes.
\<close>

type_synonym 'a decoded = "((z_res + 'a) \<times> z_zbuf) option"
type_synonym 'h encoded = "(z_res \<times> z_wbuf \<times> 'h) option"

text \<open>\<open>_Z_RETURN_IF_ERR\<close>, for an encoder and for a decoder.\<close>

definition if_ok :: "'h encoded \<Rightarrow> (z_wbuf \<Rightarrow> 'h \<Rightarrow> 'h encoded) \<Rightarrow> 'h encoded" where
  "if_ok m f = do { (r, wbf, h) \<leftarrow> m; if r = Z_OK then f wbf h else Some (r, wbf, h) }"

definition on_value :: "'a decoded \<Rightarrow> ('a \<Rightarrow> z_zbuf \<Rightarrow> 'b decoded) \<Rightarrow> 'b decoded" where
  "on_value m f = do { (r, zbf) \<leftarrow> m; (case r of Inl e \<Rightarrow> Some (Inl e, zbf) | Inr x \<Rightarrow> f x zbf) }"

definition fail_decode :: "z_zbuf \<Rightarrow> 'a decoded" where
  "fail_decode zbf = Some (Inl Z_ERR_MESSAGE_DESERIALIZATION_FAILED, zbf)"

section \<open>Bytes\<close>

definition z_uint8_encode :: "'h heap \<Rightarrow> z_wbuf \<Rightarrow> u8 \<Rightarrow> 'h \<Rightarrow> 'h encoded" where
  "z_uint8_encode H wbf v h = z_wbuf_write H wbf v h"

definition z_uint8_decode :: "z_zbuf \<Rightarrow> u8 decoded" where
  "z_uint8_decode zbf =
     (if \<not> z_zbuf_can_read zbf then fail_decode zbf
      else do { (b, zbf') \<leftarrow> z_zbuf_read zbf; Some (Inr b, zbf') })"

text \<open>The reference is the offset in the block.\<close>

definition z_uint8_decode_as_ref :: "z_zbuf \<Rightarrow> nat decoded" where
  "z_uint8_decode_as_ref zbf =
     (if \<not> z_zbuf_can_read zbf then fail_decode zbf
      else do { (p, zbf') \<leftarrow> z_zbuf_read_as_ref zbf; Some (Inr p, zbf') })"

definition z_get_u16_lsb :: "u16 \<Rightarrow> u8" where "z_get_u16_lsb v = ucast v"
definition z_get_u16_msb :: "u16 \<Rightarrow> u8" where "z_get_u16_msb v = ucast (drop_bit 8 v)"

definition z_uint16_encode :: "'h heap \<Rightarrow> z_wbuf \<Rightarrow> u16 \<Rightarrow> 'h \<Rightarrow> 'h encoded" where
  "z_uint16_encode H wbf v h =
     if_ok (z_wbuf_write H wbf (z_get_u16_lsb v) h) (\<lambda>wbf h. z_wbuf_write H wbf (z_get_u16_msb v) h)"

text \<open>
  The two reads are the operands of one addition, whose order C leaves open; \<open>swap\<close> is the choice of
  the compiler. \<open>_z_host_u16_from_le_u16\<close> does nothing on the little-endian controller.
\<close>

definition z_uint16_decode :: "bool \<Rightarrow> z_zbuf \<Rightarrow> u16 decoded" where
  "z_uint16_decode swap zbf =
     (if z_zbuf_len zbf < 2 then fail_decode zbf
      else do {
        (a, zbf1) \<leftarrow> z_zbuf_read zbf;
        (b, zbf2) \<leftarrow> z_zbuf_read zbf1;
        let (lo, hi) = (if swap then (b, a) else (a, b));
        Some (Inr (ucast lo + push_bit 8 (ucast hi)), zbf2) })"

section \<open>Integers of variable length\<close>

abbreviation (input) VLE_LEN :: nat where "VLE_LEN \<equiv> 9"

definition vle_mask :: "nat \<Rightarrow> u64" where
  "vle_mask k = push_bit (7 * k) (- 1)"

definition z_zint_len :: "u64 \<Rightarrow> nat" where
  "z_zint_len v =
     (if v AND vle_mask 1 = 0 then 1 else if v AND vle_mask 2 = 0 then 2
      else if v AND vle_mask 3 = 0 then 3 else if v AND vle_mask 4 = 0 then 4
      else if v AND vle_mask 5 = 0 then 5 else if v AND vle_mask 6 = 0 then 6
      else if v AND vle_mask 7 = 0 then 7 else if v AND vle_mask 8 = 0 then 8 else 9)"

lemma vle_mask_test: "(v :: u64) AND vle_mask k = 0 \<longleftrightarrow> drop_bit (7 * k) v = 0"
proof
  assume *: "v AND vle_mask k = 0"
  show "drop_bit (7 * k) v = 0"
  proof (rule bit_word_eqI)
    fix n assume "n < LENGTH(64)"
    from * have "\<not> bit (v AND vle_mask k) (7 * k + n)" by simp
    then show "bit (drop_bit (7 * k) v) n \<longleftrightarrow> bit (0 :: u64) n"
      by (auto simp: vle_mask_def bit_simps dest: bit_imp_le_length)
  qed
next
  assume *: "drop_bit (7 * k) v = 0"
  show "v AND vle_mask k = 0"
  proof (rule bit_word_eqI)
    fix n assume "n < LENGTH(64)"
    from * have "\<not> bit (drop_bit (7 * k) v) (n - 7 * k)" by simp
    then show "bit (v AND vle_mask k) n \<longleftrightarrow> bit (0 :: u64) n"
      by (cases "n < 7 * k") (auto simp: vle_mask_def bit_simps)
  qed
qed

text \<open>
  The loop of \<open>_z_zint64_encode_buf\<close>: what is left of the value, the bytes written and their number.
\<close>

function zint_encode_loop :: "u64 \<Rightarrow> bytes \<Rightarrow> nat \<Rightarrow> u64 \<times> bytes \<times> nat" where
  "zint_encode_loop lv buf len =
     (if lv AND vle_mask 1 \<noteq> 0
      then zint_encode_loop (drop_bit 7 lv) (buf @ [ucast ((lv AND 0x7F) OR 0x80)]) (len + 1)
      else (lv, buf, len))"
  by pat_completeness auto

termination
proof (relation "measure (\<lambda>(lv, buf, len). unat lv)")
  fix lv :: u64 and buf :: bytes and len
  assume "lv AND vle_mask 1 \<noteq> 0"
  then have "unat (drop_bit 7 lv) \<noteq> 0" by (simp add: vle_mask_test unat_eq_0)
  moreover have "unat (drop_bit 7 lv) = unat lv div 128"
    by (simp only: unat_drop_bit_eq) (simp add: drop_bit_eq_div)
  ultimately have "unat (drop_bit 7 lv) < unat lv" by (cases "unat lv") auto
  then show "((drop_bit 7 lv, buf @ [ucast ((lv AND 0x7F) OR 0x80)], len + 1), (lv, buf, len)) \<in>
      measure (\<lambda>(lv, buf, len). unat lv)"
    by simp
qed simp

declare zint_encode_loop.simps [simp del]

text \<open>The bytes that it writes to \<open>buf\<close>; it returns their number.\<close>

definition z_zint64_encode_buf :: "u64 \<Rightarrow> bytes" where
  "z_zint64_encode_buf v =
     (let (lv, buf, len) = zint_encode_loop v [] 0
      in if len \<noteq> VLE_LEN then buf @ [ucast (lv AND 0xFF)] else buf)"

definition z_zint64_encode :: "'h heap \<Rightarrow> z_wbuf \<Rightarrow> u64 \<Rightarrow> 'h \<Rightarrow> 'h encoded" where
  "z_zint64_encode H wbf v h =
     (let buf = z_zint64_encode_buf v in z_wbuf_write_bytes H wbf buf 0 (length buf) h)"

definition z_zint16_encode :: "'h heap \<Rightarrow> z_wbuf \<Rightarrow> u16 \<Rightarrow> 'h \<Rightarrow> 'h encoded" where
  "z_zint16_encode H wbf v h = z_zint64_encode H wbf (ucast v) h"

definition z_zint32_encode :: "'h heap \<Rightarrow> z_wbuf \<Rightarrow> u32 \<Rightarrow> 'h \<Rightarrow> 'h encoded" where
  "z_zint32_encode H wbf v h = z_zint64_encode H wbf (ucast v) h"

definition z_zsize_encode :: "'h heap \<Rightarrow> z_wbuf \<Rightarrow> nat \<Rightarrow> 'h \<Rightarrow> 'h encoded" where
  "z_zsize_encode H wbf n h = z_zint64_encode H wbf (of_nat n) h"

text \<open>The loop of the decoders: the value so far, the last byte and the shift.\<close>

partial_function (option) zint_reader_loop ::
  "('c \<Rightarrow> ((z_res + u8) \<times> 'c) option) \<Rightarrow> u64 \<Rightarrow> u8 \<Rightarrow> nat \<Rightarrow> 'c \<Rightarrow> ((z_res + u64) \<times> 'c) option" where
  "zint_reader_loop reader zint b i c =
     (if b AND 0x80 \<noteq> 0 \<and> i \<noteq> 7 * (VLE_LEN - 1) then do {
        let zint1 = zint OR push_bit i (ucast (b AND 0x7F));
        (r, c1) \<leftarrow> reader c;
        (case r of Inl e \<Rightarrow> Some (Inl e, c1) | Inr b1 \<Rightarrow> zint_reader_loop reader zint1 b1 (i + 7) c1) }
      else Some (Inr (zint OR push_bit i (ucast b)), c))"

definition z_zint64_decode_with_reader ::
  "('c \<Rightarrow> ((z_res + u8) \<times> 'c) option) \<Rightarrow> 'c \<Rightarrow> ((z_res + u64) \<times> 'c) option" where
  "z_zint64_decode_with_reader reader c = do {
     (r, c1) \<leftarrow> reader c;
     (case r of Inl e \<Rightarrow> Some (Inl e, c1) | Inr b \<Rightarrow> zint_reader_loop reader 0 b 0 c1) }"

definition z_zsize_decode_with_reader ::
  "('c \<Rightarrow> ((z_res + u8) \<times> 'c) option) \<Rightarrow> 'c \<Rightarrow> ((z_res + nat) \<times> 'c) option" where
  "z_zsize_decode_with_reader reader c = do {
     (r, c1) \<leftarrow> z_zint64_decode_with_reader reader c;
     Some (case r of
         Inl e \<Rightarrow> Inl Z_ERR_MESSAGE_DESERIALIZATION_FAILED
       | Inr i \<Rightarrow> if SIZE_MAX < unat i then Inl Z_ERR_MESSAGE_DESERIALIZATION_FAILED else Inr (unat i), c1) }"

definition z_uint8_decode_reader :: "z_zbuf \<Rightarrow> u8 decoded" where
  "z_uint8_decode_reader zbf = z_uint8_decode zbf"

partial_function (option) zint_decode_loop :: "u64 \<Rightarrow> u8 \<Rightarrow> nat \<Rightarrow> z_zbuf \<Rightarrow> u64 decoded" where
  "zint_decode_loop zint b i zbf =
     (if b AND 0x80 \<noteq> 0 \<and> i \<noteq> 7 * (VLE_LEN - 1) then do {
        let zint1 = zint OR push_bit i (ucast (b AND 0x7F));
        (r, zbf1) \<leftarrow> z_uint8_decode zbf;
        (case r of Inl e \<Rightarrow> Some (Inl e, zbf1) | Inr b1 \<Rightarrow> zint_decode_loop zint1 b1 (i + 7) zbf1) }
      else Some (Inr (zint OR push_bit i (ucast b)), zbf))"

definition z_zint64_decode :: "z_zbuf \<Rightarrow> u64 decoded" where
  "z_zint64_decode zbf = on_value (z_uint8_decode zbf) (\<lambda>b zbf1. zint_decode_loop 0 b 0 zbf1)"

definition z_zint16_decode :: "z_zbuf \<Rightarrow> u16 decoded" where
  "z_zint16_decode zbf =
     on_value (z_zint64_decode zbf) (\<lambda>v zbf1. if 0xFFFF < v then fail_decode zbf1 else Some (Inr (ucast v), zbf1))"

definition z_zint32_decode :: "z_zbuf \<Rightarrow> u32 decoded" where
  "z_zint32_decode zbf =
     on_value (z_zint64_decode zbf) (\<lambda>v zbf1. if 0xFFFFFFFF < v then fail_decode zbf1 else Some (Inr (ucast v), zbf1))"

definition z_zsize_decode :: "z_zbuf \<Rightarrow> nat decoded" where
  "z_zsize_decode zbf =
     on_value (z_zint64_decode zbf) (\<lambda>v zbf1. if SIZE_MAX < unat v then fail_decode zbf1 else Some (Inr (unat v), zbf1))"

section \<open>Enumerations\<close>

text \<open>An enumerator is its value; \<open>int\<close> and \<open>size_t\<close> have 32 bits.\<close>

definition z_consolidation_mode_encode :: "'h heap \<Rightarrow> z_wbuf \<Rightarrow> u32 \<Rightarrow> 'h \<Rightarrow> 'h encoded" where
  "z_consolidation_mode_encode H wbf en h = z_zsize_encode H wbf (unat en) h"

definition z_consolidation_mode_decode :: "z_zbuf \<Rightarrow> u32 decoded" where
  "z_consolidation_mode_decode zbf = on_value (z_zsize_decode zbf) (\<lambda>n zbf1. Some (Inr (of_nat n), zbf1))"

definition z_query_target_encode :: "'h heap \<Rightarrow> z_wbuf \<Rightarrow> u32 \<Rightarrow> 'h \<Rightarrow> 'h encoded" where
  "z_query_target_encode H wbf en h = z_zsize_encode H wbf (unat en) h"

definition z_query_target_decode :: "z_zbuf \<Rightarrow> u32 decoded" where
  "z_query_target_decode zbf = on_value (z_zsize_decode zbf) (\<lambda>n zbf1. Some (Inr (of_nat n), zbf1))"

definition z_whatami_to_uint8 :: "u32 \<Rightarrow> u8" where
  "z_whatami_to_uint8 w = ucast (drop_bit 1 w AND 3)"

definition z_whatami_from_uint8 :: "u8 \<Rightarrow> u32" where
  "z_whatami_from_uint8 b = push_bit (unat (b AND 3)) 1"

definition z_whatami_encode :: "'h heap \<Rightarrow> z_wbuf \<Rightarrow> u32 \<Rightarrow> 'h \<Rightarrow> 'h encoded" where
  "z_whatami_encode H wbf en h = z_zsize_encode H wbf (unat (z_whatami_to_uint8 en)) h"

definition z_whatami_decode :: "z_zbuf \<Rightarrow> u32 decoded" where
  "z_whatami_decode zbf = on_value (z_zsize_decode zbf) (\<lambda>n zbf1. Some (Inr (z_whatami_from_uint8 (of_nat n)), zbf1))"

section \<open>Slices and strings\<close>

abbreviation (input) Z_ZID_LENGTH :: nat where "Z_ZID_LENGTH \<equiv> 16"

definition z_buf_encode :: "'h heap \<Rightarrow> z_wbuf \<Rightarrow> bytes \<Rightarrow> 'h \<Rightarrow> 'h encoded" where
  "z_buf_encode H wbf buf h =
     (if wb_step wbf \<noteq> 0 \<and> Z_ZID_LENGTH < length buf then z_wbuf_wrap_bytes H wbf buf 0 (length buf) h
      else z_wbuf_write_bytes H wbf buf 0 (length buf) h)"

definition z_slice_val_encode :: "'h heap \<Rightarrow> z_wbuf \<Rightarrow> bytes \<Rightarrow> 'h \<Rightarrow> 'h encoded" where
  "z_slice_val_encode H wbf bs h = z_buf_encode H wbf bs h"

definition z_slice_encode :: "'h heap \<Rightarrow> z_wbuf \<Rightarrow> bytes \<Rightarrow> 'h \<Rightarrow> 'h encoded" where
  "z_slice_encode H wbf bs h =
     if_ok (z_zsize_encode H wbf (length bs) h) (\<lambda>wbf h. z_slice_val_encode H wbf bs h)"

fun slices_val_encode :: "'h heap \<Rightarrow> z_wbuf \<Rightarrow> bytes list \<Rightarrow> 'h \<Rightarrow> 'h encoded" where
  "slices_val_encode H wbf [] h = Some (Z_OK, wbf, h)"
| "slices_val_encode H wbf (b # bs) h =
     if_ok (z_slice_val_encode H wbf b h) (\<lambda>wbf h. slices_val_encode H wbf bs h)"

definition total_len :: "bytes list \<Rightarrow> nat" where
  "total_len bs = foldl (\<lambda>n b. size_add n (length b)) 0 bs"

definition z_slices_encode :: "'h heap \<Rightarrow> z_wbuf \<Rightarrow> bytes list \<Rightarrow> 'h \<Rightarrow> 'h encoded" where
  "z_slices_encode H wbf bs h =
     if_ok (z_zsize_encode H wbf (total_len bs) h) (\<lambda>wbf h. slices_val_encode H wbf bs h)"

text \<open>\<open>_z_slice_val_decode_na\<close> for the length it finds in the slice.\<close>

definition z_slice_val_decode_na :: "nat \<Rightarrow> z_zbuf \<Rightarrow> bytes decoded" where
  "z_slice_val_decode_na n zbf =
     (if z_zbuf_len zbf < n then fail_decode zbf
      else do {
        d \<leftarrow> c_read (z_zbuf_get_rptr zbf) 0 n;
        zbf' \<leftarrow> z_zbuf_set_rpos zbf (z_zbuf_get_rpos zbf + n);
        Some (Inr d, zbf') })"

definition z_slice_decode_na :: "z_zbuf \<Rightarrow> bytes decoded" where
  "z_slice_decode_na zbf = on_value (z_zsize_decode zbf) (\<lambda>n zbf1. z_slice_val_decode_na n zbf1)"

definition z_slice_decode :: "z_zbuf \<Rightarrow> bytes decoded" where
  "z_slice_decode zbf = z_slice_decode_na zbf"

text \<open>Bytes are lists of slices. A decoded one has one slice, the part of the block at an offset.\<close>

definition z_bytes_len :: "bytes list \<Rightarrow> nat" where
  "z_bytes_len bs = total_len bs"

fun z_bytes_encode_val :: "'h heap \<Rightarrow> z_wbuf \<Rightarrow> bytes list \<Rightarrow> 'h \<Rightarrow> 'h encoded" where
  "z_bytes_encode_val H wbf [] h = Some (Z_OK, wbf, h)"
| "z_bytes_encode_val H wbf (b # bs) h =
     if_ok (z_buf_encode H wbf b h) (\<lambda>wbf h. z_bytes_encode_val H wbf bs h)"

definition z_bytes_encode :: "'h heap \<Rightarrow> z_wbuf \<Rightarrow> bytes list \<Rightarrow> 'h \<Rightarrow> 'h encoded" where
  "z_bytes_encode H wbf bs h =
     if_ok (z_zsize_encode H wbf (z_bytes_len bs) h) (\<lambda>wbf h. z_bytes_encode_val H wbf bs h)"

definition z_bytes_decode :: "z_zbuf \<Rightarrow> bytes list decoded" where
  "z_bytes_decode zbf = on_value (z_slice_decode zbf) (\<lambda>s zbf1. Some (Inr [s], zbf1))"

text \<open>A C string is its bytes without the terminator.\<close>

definition z_str_encode :: "'h heap \<Rightarrow> z_wbuf \<Rightarrow> bytes \<Rightarrow> 'h \<Rightarrow> 'h encoded" where
  "z_str_encode H wbf s h =
     if_ok (z_zsize_encode H wbf (length s) h) (\<lambda>wbf h. z_wbuf_write_bytes H wbf s 0 (length s) h)"

text \<open>
  \<open>mal\<close> is the block that \<open>z_malloc\<close> hands out for a size, the result the block with the string and its
  terminator.
\<close>

definition z_str_decode :: "u8 pool \<Rightarrow> z_zbuf \<Rightarrow> bytes decoded" where
  "z_str_decode mal zbf =
     on_value (z_zsize_decode zbf) (\<lambda>n zbf1.
       if z_zbuf_len zbf1 < n then fail_decode zbf1
       else case mal (size_add n 1) of
         None \<Rightarrow> Some (Inl Z_ERR_SYSTEM_OUT_OF_MEMORY, zbf1)
       | Some tmp \<Rightarrow> do {
           tmp1 \<leftarrow> arr_set tmp n 0;
           (tmp2, zbf2) \<leftarrow> z_zbuf_read_bytes zbf1 tmp1 0 n;
           Some (Inr tmp2, zbf2) })"

definition z_string_encode :: "'h heap \<Rightarrow> z_wbuf \<Rightarrow> bytes \<Rightarrow> 'h \<Rightarrow> 'h encoded" where
  "z_string_encode H wbf s h =
     if_ok (z_zsize_encode H wbf (length s) h) (\<lambda>wbf h. z_wbuf_write_bytes H wbf s 0 (length s) h)"

definition z_string_decode :: "z_zbuf \<Rightarrow> bytes decoded" where
  "z_string_decode zbf =
     on_value (z_zsize_decode zbf) (\<lambda>n zbf1.
       if z_zbuf_len zbf1 < n then fail_decode zbf1
       else do {
         d \<leftarrow> c_read (z_zbuf_get_rptr zbf1) 0 n;
         zbf2 \<leftarrow> z_zbuf_set_rpos zbf1 (z_zbuf_get_rpos zbf1 + n);
         Some (Inr d, zbf2) })"

section \<open>Encodings and values\<close>

record z_encoding =
  enc_id :: u16
  enc_schema :: bytes

definition z_string_check :: "bytes \<Rightarrow> bool" where
  "z_string_check s \<longleftrightarrow> s \<noteq> []"

definition z_encoding_len :: "z_encoding \<Rightarrow> nat" where
  "z_encoding_len en =
     (let n = z_zint_len (ucast (push_bit 1 (ucast (enc_id en) :: u32)))
      in if z_string_check (enc_schema en)
         then size_add n (size_add (z_zint_len (of_nat (length (enc_schema en)))) (length (enc_schema en))) else n)"

definition z_encoding_encode :: "'h heap \<Rightarrow> z_wbuf \<Rightarrow> z_encoding \<Rightarrow> 'h \<Rightarrow> 'h encoded" where
  "z_encoding_encode H wbf en h =
     (let has_schema = z_string_check (enc_schema en);
          i = push_bit 1 (ucast (enc_id en)) :: u32;
          i1 = (if has_schema then i OR 1 else i)
      in if_ok (z_zint32_encode H wbf i1 h) (\<lambda>wbf h.
           if has_schema then if_ok (z_string_encode H wbf (enc_schema en) h) (\<lambda>wbf h. Some (Z_OK, wbf, h))
           else Some (Z_OK, wbf, h)))"

text \<open>\<open>en0\<close> is what the caller's variable holds: the schema stays when there is none on the wire.\<close>

definition z_encoding_decode :: "z_encoding \<Rightarrow> z_zbuf \<Rightarrow> z_encoding decoded" where
  "z_encoding_decode en0 zbf =
     on_value (z_zint32_decode zbf) (\<lambda>i zbf1.
       let en1 = en0\<lparr>enc_id := ucast (drop_bit 1 i)\<rparr>
       in if i AND 1 \<noteq> 0
          then on_value (z_string_decode zbf1) (\<lambda>s zbf2. Some (Inr (en1\<lparr>enc_schema := s\<rparr>), zbf2))
          else Some (Inr en1, zbf1))"

record z_value =
  val_encoding :: z_encoding
  val_payload :: "bytes list"

definition z_value_encode :: "'h heap \<Rightarrow> z_wbuf \<Rightarrow> z_value \<Rightarrow> 'h \<Rightarrow> 'h encoded" where
  "z_value_encode H wbf v h =
     if_ok (z_zsize_encode H wbf (size_add (z_encoding_len (val_encoding v)) (z_bytes_len (val_payload v))) h) (\<lambda>wbf h.
       if_ok (z_encoding_encode H wbf (val_encoding v) h) (\<lambda>wbf h.
         z_bytes_encode_val H wbf (val_payload v) h))"

text \<open>
  \<open>copy\<close> is \<open>_z_bytes_from_buf\<close>: the bytes it makes of a copy of the rest of the buffer, or \<open>None\<close>
  when there is no memory.
\<close>

definition z_value_decode :: "(bytes \<Rightarrow> bytes list option) \<Rightarrow> z_value \<Rightarrow> z_zbuf \<Rightarrow> z_value decoded" where
  "z_value_decode copy v0 zbf =
     on_value (z_encoding_decode (val_encoding v0) zbf) (\<lambda>en zbf1. do {
       d \<leftarrow> c_read (z_zbuf_get_rptr zbf1) 0 (z_zbuf_len zbf1);
       (case copy d of
          None \<Rightarrow> Some (Inl Z_ERR_SYSTEM_OUT_OF_MEMORY, zbf1)
        | Some p \<Rightarrow> Some (Inr (v0\<lparr>val_encoding := en, val_payload := p\<rparr>), zbf1)) })"

end
