(* ===== verification/ZWire.thy ===== *)
theory ZWire
  imports ZCodec "HOL-Library.Sublist"
begin

text \<open>
  What the primitive encodings put on the wire. An encoder \<open>emits\<close> bytes into a buffer that does
  not grow, a decoder \<open>reads\<close> a value from bytes and rejects every proper prefix of them, and is
  \<open>in_bounds\<close> when it stays inside the buffer on every input. The three are closed under the sequencing
  of the code, so a codec follows the definitions step by step. The locale \<open>wire_codec\<close> is the
  contract of an encoder and its decoder.
\<close>

named_theorems wire_intros \<open>what the encoders emit and the decoders read\<close>
named_theorems bounds_intros \<open>decoders that stay inside the buffer\<close>

section \<open>Encoders\<close>

definition emits :: "(z_wbuf \<Rightarrow> 'h \<Rightarrow> 'h encoded) \<Rightarrow> bytes \<Rightarrow> bool" where
  "emits f bs \<longleftrightarrow> (\<forall>wbf h. wb_fixed wbf \<longrightarrow> (\<exists>r wbf' sent. f wbf h = Some (r, wbf', h) \<and> wb_fixed wbf' \<and> wb_shape wbf' = wb_shape wbf \<and>
     wb_data wbf' = wb_data wbf @ sent \<and> prefix sent bs \<and>
     (if length bs \<le> wb_space wbf then r = Z_OK \<and> sent = bs \<and> wb_space wbf' = wb_space wbf - length bs
      else r = Z_ERR_TRANSPORT_NO_SPACE \<and> sent \<noteq> bs)))"

lemma emitsI:
  assumes "\<And>wbf h. wb_fixed wbf \<Longrightarrow> length bs \<le> wb_space wbf \<Longrightarrow> \<exists>wbf'. f wbf h = Some (Z_OK, wbf', h) \<and> wb_fixed wbf' \<and> wb_shape wbf' = wb_shape wbf \<and>
      wb_data wbf' = wb_data wbf @ bs \<and> wb_space wbf' = wb_space wbf - length bs"
    and "\<And>wbf h. wb_fixed wbf \<Longrightarrow> wb_space wbf < length bs \<Longrightarrow> \<exists>wbf' sent. f wbf h = Some (Z_ERR_TRANSPORT_NO_SPACE, wbf', h) \<and>
      wb_fixed wbf' \<and> wb_shape wbf' = wb_shape wbf \<and> wb_data wbf' = wb_data wbf @ sent \<and> strict_prefix sent bs"
  shows "emits f bs"
  unfolding emits_def
proof (intro allI impI)
  fix wbf h
  assume w: "wb_fixed wbf"
  show "\<exists>r wbf' sent. f wbf h = Some (r, wbf', h) \<and> wb_fixed wbf' \<and> wb_shape wbf' = wb_shape wbf \<and> wb_data wbf' = wb_data wbf @ sent \<and> prefix sent bs \<and>
     (if length bs \<le> wb_space wbf then r = Z_OK \<and> sent = bs \<and> wb_space wbf' = wb_space wbf - length bs
      else r = Z_ERR_TRANSPORT_NO_SPACE \<and> sent \<noteq> bs)"
  proof (cases "length bs \<le> wb_space wbf")
    case True
    then show ?thesis using assms(1) [OF w] by auto
  next
    case False
    then show ?thesis using assms(2) [OF w, of h] by auto
  qed
qed

lemma emits_fits:
  assumes "emits f bs" "wb_fixed wbf" "length bs \<le> wb_space wbf"
  shows "\<exists>wbf'. f wbf h = Some (Z_OK, wbf', h) \<and> wb_fixed wbf' \<and> wb_shape wbf' = wb_shape wbf \<and> wb_data wbf' = wb_data wbf @ bs \<and>
    wb_space wbf' = wb_space wbf - length bs"
  using assms unfolding emits_def by (metis (full_types))

lemma emits_full:
  assumes "emits f bs" "wb_fixed wbf" "wb_space wbf < length bs"
  shows "\<exists>wbf' sent. f wbf h = Some (Z_ERR_TRANSPORT_NO_SPACE, wbf', h) \<and> wb_fixed wbf' \<and> wb_shape wbf' = wb_shape wbf \<and>
    wb_data wbf' = wb_data wbf @ sent \<and> strict_prefix sent bs"
  using assms unfolding emits_def by (metis (full_types) not_less strict_prefix_def)

lemma emits_seq [wire_intros]:
  assumes f: "emits f a" and g: "emits g b"
  shows "emits (\<lambda>wbf h. if_ok (f wbf h) g) (a @ b)"
proof (rule emitsI)
  fix wbf :: z_wbuf and h
  assume w: "wb_fixed wbf" and l: "length (a @ b) \<le> wb_space wbf"
  obtain w1 where 1: "f wbf h = Some (Z_OK, w1, h)" "wb_fixed w1" "wb_shape w1 = wb_shape wbf" "wb_data w1 = wb_data wbf @ a" "wb_space w1 = wb_space wbf - length a"
    using emits_fits [OF f w] l by auto
  show "\<exists>wbf'. if_ok (f wbf h) g = Some (Z_OK, wbf', h) \<and> wb_fixed wbf' \<and> wb_shape wbf' = wb_shape wbf \<and> wb_data wbf' = wb_data wbf @ a @ b \<and>
      wb_space wbf' = wb_space wbf - length (a @ b)"
    using emits_fits [OF g 1(2), of h] l 1 by (auto simp: if_ok_def)
next
  fix wbf :: z_wbuf and h
  assume w: "wb_fixed wbf" and l: "wb_space wbf < length (a @ b)"
  show "\<exists>wbf' sent. if_ok (f wbf h) g = Some (Z_ERR_TRANSPORT_NO_SPACE, wbf', h) \<and> wb_fixed wbf' \<and> wb_shape wbf' = wb_shape wbf \<and>
      wb_data wbf' = wb_data wbf @ sent \<and> strict_prefix sent (a @ b)"
  proof (cases "length a \<le> wb_space wbf")
    case True
    obtain w1 where 1: "f wbf h = Some (Z_OK, w1, h)" "wb_fixed w1" "wb_shape w1 = wb_shape wbf" "wb_data w1 = wb_data wbf @ a" "wb_space w1 = wb_space wbf - length a"
      using emits_fits [OF f w True] by auto
    have "wb_space w1 < length b" using l True 1(5) by simp
    then obtain w2 sent where "g w1 h = Some (Z_ERR_TRANSPORT_NO_SPACE, w2, h)" "wb_fixed w2" "wb_shape w2 = wb_shape w1" "wb_data w2 = wb_data w1 @ sent"
      "strict_prefix sent b" using emits_full [OF g 1(2)] by blast
    then show ?thesis using 1 by (intro exI [of _ w2] exI [of _ "a @ sent"]) (simp add: if_ok_def strict_prefix_def)
  next
    case False
    then obtain w1 sent where "f wbf h = Some (Z_ERR_TRANSPORT_NO_SPACE, w1, h)" "wb_fixed w1" "wb_shape w1 = wb_shape wbf" "wb_data w1 = wb_data wbf @ sent"
      "strict_prefix sent a" using emits_full [OF f w, of h] by auto
    moreover have "strict_prefix sent (a @ b)"
      using calculation(5) by (auto simp: strict_prefix_def prefix_def)
    ultimately show ?thesis by (auto simp: if_ok_def)
  qed
qed

lemma emits_nothing [wire_intros]: "emits (\<lambda>wbf h. Some (Z_OK, wbf, h)) []"
  by (simp add: emits_def)

lemma emits_bytes [wire_intros]: "emits (\<lambda>wbf. z_wbuf_write_bytes H wbf bs 0 (length bs)) bs"
proof (rule emitsI)
  fix wbf :: z_wbuf and h
  assume w: "wb_fixed wbf" and l: "length bs \<le> wb_space wbf"
  then show "\<exists>wbf'. z_wbuf_write_bytes H wbf bs 0 (length bs) h = Some (Z_OK, wbf', h) \<and> wb_fixed wbf' \<and> wb_shape wbf' = wb_shape wbf \<and>
      wb_data wbf' = wb_data wbf @ bs \<and> wb_space wbf' = wb_space wbf - length bs"
    using write_bytes_fits [of wbf 0 "length bs" bs H h] by (auto simp: wb_fixed_def slice_def)
next
  fix wbf :: z_wbuf and h
  assume w: "wb_fixed wbf" and l: "wb_space wbf < length bs"
  then show "\<exists>wbf' sent. z_wbuf_write_bytes H wbf bs 0 (length bs) h = Some (Z_ERR_TRANSPORT_NO_SPACE, wbf', h) \<and>
      wb_fixed wbf' \<and> wb_shape wbf' = wb_shape wbf \<and> wb_data wbf' = wb_data wbf @ sent \<and> strict_prefix sent bs"
    using write_bytes_full [of wbf "length bs" H bs 0 h] by (auto simp: wb_fixed_def strict_prefix_def)
qed

lemma emits_byte [wire_intros]: "emits (\<lambda>wbf. z_wbuf_write H wbf b) [b]"
proof (rule emitsI)
  fix wbf :: z_wbuf and h
  assume "wb_fixed wbf" "length [b] \<le> wb_space wbf"
  then show "\<exists>wbf'. z_wbuf_write H wbf b h = Some (Z_OK, wbf', h) \<and> wb_fixed wbf' \<and> wb_shape wbf' = wb_shape wbf \<and>
      wb_data wbf' = wb_data wbf @ [b] \<and> wb_space wbf' = wb_space wbf - length [b]"
    using write_fixed [of wbf H b h] by (auto split: if_splits)
next
  fix wbf :: z_wbuf and h
  assume "wb_fixed wbf" "wb_space wbf < length [b]"
  then show "\<exists>wbf' sent. z_wbuf_write H wbf b h = Some (Z_ERR_TRANSPORT_NO_SPACE, wbf', h) \<and>
      wb_fixed wbf' \<and> wb_shape wbf' = wb_shape wbf \<and> wb_data wbf' = wb_data wbf @ sent \<and> strict_prefix sent [b]"
    using write_fixed [of wbf H b h] by (auto split: if_splits)
qed

section \<open>Decoders\<close>

definition reads :: "(z_zbuf \<Rightarrow> 'a decoded) \<Rightarrow> bytes \<Rightarrow> 'a \<Rightarrow> bool" where
  "reads d bs x \<longleftrightarrow>
     (\<forall>zbf rest. zb_ok zbf \<and> zb_data zbf = bs @ rest \<longrightarrow>
        (\<exists>zbf'. d zbf = Some (Inr x, zbf') \<and> zb_ok zbf' \<and> zb_data zbf' = rest)) \<and>
     (\<forall>zbf. zb_ok zbf \<and> strict_prefix (zb_data zbf) bs \<longrightarrow>
        (\<exists>zbf'. d zbf = Some (Inl Z_ERR_MESSAGE_DESERIALIZATION_FAILED, zbf') \<and> zb_ok zbf'))"

definition in_bounds :: "(z_zbuf \<Rightarrow> 'a decoded) \<Rightarrow> bool" where
  "in_bounds d \<longleftrightarrow> (\<forall>zbf. zb_ok zbf \<longrightarrow> (\<exists>r zbf'. d zbf = Some (r, zbf') \<and> zb_ok zbf' \<and> suffix (zb_data zbf') (zb_data zbf)))"

lemma in_boundsD: "in_bounds d \<Longrightarrow> \<exists>r zbf. d (z_slice_as_zbuf bs) = Some (r, zbf) \<and> suffix (zb_data zbf) bs"
  unfolding in_bounds_def by (drule spec [of _ "z_slice_as_zbuf bs"]) auto

lemma readsD:
  assumes "reads d bs x" "zb_ok zbf"
  shows "zb_data zbf = bs @ rest \<Longrightarrow> \<exists>zbf'. d zbf = Some (Inr x, zbf') \<and> zb_ok zbf' \<and> zb_data zbf' = rest"
    "strict_prefix (zb_data zbf) bs \<Longrightarrow> \<exists>zbf'. d zbf = Some (Inl Z_ERR_MESSAGE_DESERIALIZATION_FAILED, zbf') \<and> zb_ok zbf'"
  using assms by (auto simp: reads_def)

lemma strict_prefix_append:
  "strict_prefix p (a @ b) \<Longrightarrow> strict_prefix p a \<or> (\<exists>q. p = a @ q \<and> strict_prefix q b)"
  unfolding strict_prefix_def prefix_append by (cases "p = a") auto

lemma reads_seq:
  assumes d: "reads d a x" and f: "reads (f x) b y"
  shows "reads (\<lambda>zbf. on_value (d zbf) f) (a @ b) y"
  unfolding reads_def
proof (intro conjI allI impI)
  fix zbf rest
  assume z: "zb_ok zbf \<and> zb_data zbf = (a @ b) @ rest"
  then obtain z1 where 1: "d zbf = Some (Inr x, z1)" "zb_ok z1" "zb_data z1 = b @ rest" using readsD(1) [OF d] by auto
  show "\<exists>zbf'. on_value (d zbf) f = Some (Inr y, zbf') \<and> zb_ok zbf' \<and> zb_data zbf' = rest"
    using readsD(1) [OF f 1(2,3)] 1(1) by (simp add: on_value_def)
next
  fix zbf
  assume z: "zb_ok zbf \<and> strict_prefix (zb_data zbf) (a @ b)"
  then consider "strict_prefix (zb_data zbf) a" | q where "zb_data zbf = a @ q" "strict_prefix q b"
    using strict_prefix_append by blast
  then show "\<exists>zbf'. on_value (d zbf) f = Some (Inl Z_ERR_MESSAGE_DESERIALIZATION_FAILED, zbf') \<and> zb_ok zbf'"
  proof cases
    case 1
    then obtain z1 where "d zbf = Some (Inl Z_ERR_MESSAGE_DESERIALIZATION_FAILED, z1)" "zb_ok z1"
      using readsD(2) [OF d] z by blast
    then show ?thesis by (simp add: on_value_def)
  next
    case 2
    then obtain z1 where 1: "d zbf = Some (Inr x, z1)" "zb_ok z1" "zb_data z1 = q" using readsD(1) [OF d] z by blast
    show ?thesis using readsD(2) [OF f 1(2)] 1 2 by (simp add: on_value_def)
  qed
qed

lemma reads_nothing: "reads (\<lambda>zbf. Some (Inr x, zbf)) [] x"
  by (simp add: reads_def)

text \<open>A step that computes on the decoded value.\<close>

lemma reads_then:
  assumes "reads d bs x" "\<And>zbf. f x zbf = Some (Inr y, zbf)"
  shows "reads (\<lambda>zbf. on_value (d zbf) f) bs y"
proof -
  have "reads (f x) [] y" using assms(2) by (simp add: reads_def)
  from reads_seq [where f = f, OF assms(1) this] show ?thesis by simp
qed

lemma in_bounds_seq:
  assumes d: "in_bounds d" and f: "\<And>x. in_bounds (f x)"
  shows "in_bounds (\<lambda>zbf. on_value (d zbf) f)"
  unfolding in_bounds_def
proof (intro allI impI)
  fix zbf
  assume "zb_ok zbf"
  then obtain r z1 where 1: "d zbf = Some (r, z1)" "zb_ok z1" "suffix (zb_data z1) (zb_data zbf)" using d by (auto simp: in_bounds_def)
  show "\<exists>r zbf'. on_value (d zbf) f = Some (r, zbf') \<and> zb_ok zbf' \<and> suffix (zb_data zbf') (zb_data zbf)"
  proof (cases r)
    case (Inr x)
    obtain r2 z2 where 2: "f x z1 = Some (r2, z2)" "zb_ok z2" "suffix (zb_data z2) (zb_data z1)"
      using f [of x] 1(2) by (auto simp: in_bounds_def)
    then show ?thesis using 1 Inr by (auto simp: on_value_def intro: suffix_order.trans)
  qed (use 1 in \<open>simp add: on_value_def\<close>)
qed

lemma in_bounds_value [bounds_intros]: "in_bounds (\<lambda>zbf. Some (r, zbf))" "in_bounds fail_decode"
  by (simp_all add: in_bounds_def fail_decode_def)

lemma in_bounds_if [bounds_intros]: "in_bounds a \<Longrightarrow> in_bounds b \<Longrightarrow> in_bounds (\<lambda>zbf. if P then a zbf else b zbf)"
  by (cases P) simp_all

section \<open>Contracts\<close>

locale wire_codec =
  fixes enc :: "'a \<Rightarrow> z_wbuf \<Rightarrow> 'h \<Rightarrow> 'h encoded" and dec :: "z_zbuf \<Rightarrow> 'a decoded" and wire :: "'a \<Rightarrow> bytes"
    and valid :: "'a \<Rightarrow> bool"
  assumes enc_emits: "valid x \<Longrightarrow> emits (enc x) (wire x)"
    and dec_reads: "valid x \<Longrightarrow> reads dec (wire x) x"
begin

text \<open>What was written into an empty buffer with room for it is read back, up to its last byte.\<close>

lemma roundtrip:
  assumes "valid x" "wb_fixed wbf" "wb_data wbf = []" "length (wire x) \<le> wb_space wbf"
  shows "\<exists>wbf' zbf. enc x wbf h = Some (Z_OK, wbf', h) \<and> wb_data wbf' = wire x \<and>
    dec (z_slice_as_zbuf (wb_data wbf')) = Some (Inr x, zbf) \<and> zb_data zbf = []"
proof -
  obtain wbf' where 1: "enc x wbf h = Some (Z_OK, wbf', h)" "wb_data wbf' = wire x"
    using emits_fits [OF enc_emits [OF assms(1)] assms(2,4), of h] assms(3) by auto
  have "\<exists>zbf. dec (z_slice_as_zbuf (wire x)) = Some (Inr x, zbf) \<and> zb_ok zbf \<and> zb_data zbf = []"
    by (rule readsD(1) [OF dec_reads [OF assms(1)]]) simp_all
  then show ?thesis using 1 by auto
qed

text \<open>No encoding is a prefix of another one, so a stream of them has one reading.\<close>

lemma prefix_free:
  assumes "valid x" "valid y" "prefix (wire x) (wire y)"
  shows "x = y"
proof -
  obtain r where r: "wire y = wire x @ r" using assms(3) by (auto simp: prefix_def)
  have "\<exists>zbf. dec (z_slice_as_zbuf (wire y)) = Some (Inr y, zbf) \<and> zb_ok zbf \<and> zb_data zbf = []"
    by (rule readsD(1) [OF dec_reads [OF assms(2)]]) simp_all
  moreover have "\<exists>zbf. dec (z_slice_as_zbuf (wire y)) = Some (Inr x, zbf) \<and> zb_ok zbf \<and> zb_data zbf = r"
    by (rule readsD(1) [OF dec_reads [OF assms(1)]]) (simp_all add: r)
  ultimately show ?thesis by auto
qed

lemma truncated:
  assumes "valid x" "n < length (wire x)"
  shows "\<exists>zbf. dec (z_slice_as_zbuf (take n (wire x))) = Some (Inl Z_ERR_MESSAGE_DESERIALIZATION_FAILED, zbf)"
proof -
  have "strict_prefix (take n (wire x)) (wire x)" using assms(2) by (auto simp: strict_prefix_def take_is_prefix)
  then show ?thesis using readsD(2) [OF dec_reads [OF assms(1)], of "z_slice_as_zbuf (take n (wire x))"] by auto
qed

text \<open>Values one after the other, written until one does not fit.\<close>

fun enc_all :: "'a list \<Rightarrow> z_wbuf \<Rightarrow> 'h \<Rightarrow> 'h encoded" where
  "enc_all [] wbf h = Some (Z_OK, wbf, h)"
| "enc_all (x # xs) wbf h = if_ok (enc x wbf h) (enc_all xs)"

fun dec_all :: "nat \<Rightarrow> z_zbuf \<Rightarrow> 'a list decoded" where
  "dec_all 0 zbf = Some (Inr [], zbf)"
| "dec_all (Suc n) zbf = on_value (dec zbf) (\<lambda>x zbf. on_value (dec_all n zbf) (\<lambda>xs zbf. Some (Inr (x # xs), zbf)))"

lemma enc_all_emits: "\<forall>x\<in>set xs. valid x \<Longrightarrow> emits (enc_all xs) (concat (map wire xs))"
proof (induction xs)
  case Nil
  then show ?case by (simp add: emits_def)
next
  case (Cons x xs)
  then show ?case using emits_seq [OF enc_emits [of x] Cons.IH] by simp
qed

lemma dec_all_reads: "\<forall>x\<in>set xs. valid x \<Longrightarrow> reads (dec_all (length xs)) (concat (map wire xs)) xs"
proof (induction xs)
  case Nil
  then show ?case by (simp add: reads_def)
next
  case (Cons x xs)
  then have "reads (\<lambda>zbf. on_value (dec_all (length xs) zbf) (\<lambda>xs zbf. Some (Inr (x # xs), zbf))) (concat (map wire xs)) (x # xs)"
    by (intro reads_then) simp_all
  then show ?case using reads_seq [OF dec_reads [of x]] Cons.prems by simp
qed

end

end
