(* ===== verification/ZVle.thy ===== *)
theory ZVle
  imports ZWire
begin

text \<open>
  Bytes, 16 bit words and the integers of variable length. \<open>vle\<close> is the reference encoding, seven bits a byte from
  the low end, with a ninth byte that is used whole; \<open>_z_zint64_encode_buf\<close> computes it, the
  decoders read it, \<open>_z_zint_len\<close> is its length.
\<close>

section \<open>Bytes\<close>

lemma uint8_emits [wire_intros]: "emits (\<lambda>wbf. z_uint8_encode H wbf b) [b]"
  unfolding z_uint8_encode_def [abs_def] by (rule emits_byte)

lemma uint8_reads [wire_intros]: "reads z_uint8_decode [b] b"
  unfolding reads_def
proof (intro conjI allI impI)
  fix zbf rest
  assume "zb_ok zbf \<and> zb_data zbf = [b] @ rest"
  then show "\<exists>zbf'. z_uint8_decode zbf = Some (Inr b, zbf') \<and> zb_ok zbf' \<and> zb_data zbf' = rest"
    using zb_read [of zbf b rest] by (auto simp: z_uint8_decode_def)
next
  fix zbf
  assume "zb_ok zbf \<and> strict_prefix (zb_data zbf) [b]"
  then show "\<exists>zbf'. z_uint8_decode zbf = Some (Inl Z_ERR_MESSAGE_DESERIALIZATION_FAILED, zbf') \<and> zb_ok zbf'"
    by (auto simp: z_uint8_decode_def fail_decode_def strict_prefix_def prefix_Cons)
qed

lemma uint8_in_bounds [bounds_intros]: "in_bounds z_uint8_decode"
  unfolding in_bounds_def
proof (intro allI impI)
  fix zbf
  assume z: "zb_ok zbf"
  show "\<exists>r zbf'. z_uint8_decode zbf = Some (r, zbf') \<and> zb_ok zbf' \<and> suffix (zb_data zbf') (zb_data zbf)"
  proof (cases "zb_data zbf")
    case (Cons b d)
    then show ?thesis using zb_read [OF z Cons] z by (auto simp: z_uint8_decode_def intro: suffix_ConsI)
  qed (use z in \<open>simp add: z_uint8_decode_def fail_decode_def\<close>)
qed

section \<open>The reference encoding\<close>

fun vle :: "nat \<Rightarrow> u64 \<Rightarrow> bytes" where
  "vle 0 v = [ucast v]"
| "vle (Suc k) v =
     (if drop_bit 7 v = 0 then [ucast v] else ucast ((v AND 0x7F) OR 0x80) # vle k (drop_bit 7 v))"

abbreviation (input) zint_wire :: "u64 \<Rightarrow> bytes" where "zint_wire v \<equiv> vle 8 v"

lemma vle_bound: "0 < length (vle k v) \<and> length (vle k v) \<le> k + 1"
  by (induction k arbitrary: v) auto

lemma vle_8: "vle 8 = vle (Suc (Suc (Suc (Suc (Suc (Suc (Suc (Suc 0))))))))"
  by (simp add: numeral_eq_Suc)

lemma zint_len_vle: "z_zint_len v = length (zint_wire v)"
  by (simp add: z_zint_len_def vle_mask_test vle_8)

text \<open>The last byte is the value's low byte; it has eight bits when it is the ninth.\<close>

lemma encode_loop_vle:
  "k \<le> 8 \<Longrightarrow> drop_bit (7 * k + 8) lv = 0 \<Longrightarrow> zint_encode_loop lv buf (8 - k) = (lv', buf', len') \<Longrightarrow>
    (if len' \<noteq> VLE_LEN then buf' @ [ucast (lv' AND 0xFF)] else buf') = buf @ vle k lv"
proof (induction k arbitrary: lv buf)
  case 0
  show ?case
  proof (cases "drop_bit 7 lv = 0")
    case True
    then have "zint_encode_loop lv buf 8 = (lv, buf, 8)" by (simp add: zint_encode_loop.simps vle_mask_test)
    moreover have "(ucast (lv AND 0xFF) :: u8) = ucast lv" by (rule bit_word_eqI) (auto simp: bits_7 bit_simps)
    ultimately show ?thesis using 0 by simp
  next
    case False
    have small: "\<not> bit lv n" if "8 \<le> n" for n
    proof -
      have "\<not> bit (drop_bit 8 lv) (n - 8)" using 0 by simp
      then show ?thesis using that by (simp add: bit_simps)
    qed
    have z: "drop_bit 7 (drop_bit 7 lv) = 0" using 0 small by (intro bit_word_eqI) (auto simp: bit_simps)
    have b7: "bit lv 7"
    proof (rule ccontr)
      assume n: "\<not> bit lv 7"
      have "drop_bit 7 lv = 0"
      proof (rule bit_word_eqI)
        fix m
        show "bit (drop_bit 7 lv) m \<longleftrightarrow> bit (0 :: u64) m" using n small [of "7 + m"] by (cases m) (auto simp: bit_simps)
      qed
      with False show False by simp
    qed
    have "(ucast ((lv AND 0x7F) OR 0x80) :: u8) = ucast lv"
    proof (rule bit_word_eqI)
      fix m assume "m < LENGTH(8)"
      then have "m = 0 \<or> m = 1 \<or> m = 2 \<or> m = 3 \<or> m = 4 \<or> m = 5 \<or> m = 6 \<or> m = 7" by auto
      then show "bit (ucast ((lv AND 0x7F) OR 0x80) :: u8) m \<longleftrightarrow> bit (ucast lv :: u8) m"
        using b7 by (auto simp: bit_simps)
    qed
    moreover have "zint_encode_loop lv buf 8 = (drop_bit 7 lv, buf @ [ucast ((lv AND 0x7F) OR 0x80)], 9)"
      using False z by (simp add: zint_encode_loop.simps [of lv] zint_encode_loop.simps [of "drop_bit 7 lv"] vle_mask_test)
    ultimately show ?thesis using 0 by simp
  qed
next
  case (Suc k)
  show ?case
  proof (cases "drop_bit 7 lv = 0")
    case True
    then have "zint_encode_loop lv buf (8 - Suc k) = (lv, buf, 8 - Suc k)" by (simp add: zint_encode_loop.simps vle_mask_test)
    moreover have "(ucast (lv AND 0xFF) :: u8) = ucast lv" by (rule bit_word_eqI) (auto simp: bits_7 bit_simps)
    ultimately show ?thesis using Suc.prems True by auto
  next
    case False
    have "8 - Suc k + 1 = 8 - k" using Suc.prems(1) by simp
    then have "zint_encode_loop lv buf (8 - Suc k) = zint_encode_loop (drop_bit 7 lv) (buf @ [ucast ((lv AND 0x7F) OR 0x80)]) (8 - k)"
      using False by (simp add: zint_encode_loop.simps [of lv] vle_mask_test)
    moreover have "drop_bit (7 * k + 8) (drop_bit 7 lv) = 0" using Suc.prems(2) by (simp add: add.commute)
    ultimately show ?thesis using Suc.IH [of "drop_bit 7 lv"] Suc.prems False by simp
  qed
qed

lemma zint_encode_buf_vle: "z_zint64_encode_buf v = zint_wire v"
proof -
  obtain lv buf len where l: "zint_encode_loop v [] 0 = (lv, buf, len)" by (metis prod_cases3)
  have "drop_bit (7 * 8 + 8) v = 0" by (rule bit_word_eqI) (auto simp: bit_simps)
  then show ?thesis using encode_loop_vle [of 8 v "[]" lv buf len] l by (simp add: z_zint64_encode_buf_def Let_def)
qed

lemma zint64_emits [wire_intros]: "emits (\<lambda>wbf. z_zint64_encode H wbf v) (zint_wire v)"
proof -
  have "(\<lambda>wbf. z_zint64_encode H wbf v) = (\<lambda>wbf. z_wbuf_write_bytes H wbf (zint_wire v) 0 (length (zint_wire v)))"
    by (simp add: fun_eq_iff z_zint64_encode_def zint_encode_buf_vle Let_def)
  then show ?thesis using emits_bytes by metis
qed

section \<open>The decoders\<close>

lemma decode_loop_step:
  "b AND 0x80 \<noteq> 0 \<Longrightarrow> i \<noteq> 56 \<Longrightarrow> zint_decode_loop z b i =
    (\<lambda>zbf. on_value (z_uint8_decode zbf) (\<lambda>b1. zint_decode_loop (z OR push_bit i (ucast (b AND 0x7F))) b1 (i + 7)))"
  by (simp add: fun_eq_iff zint_decode_loop.simps [of z b i] on_value_def Let_def cong: sum.case_cong)

lemma decode_loop_stop:
  "b AND 0x80 = 0 \<or> i = 56 \<Longrightarrow> zint_decode_loop z b i = (\<lambda>zbf. Some (Inr (z OR push_bit i (ucast b)), zbf))"
  by (auto simp: fun_eq_iff zint_decode_loop.simps [of z b i])

lemma last_byte: "drop_bit 7 (w :: u64) = 0 \<Longrightarrow> (ucast w :: u8) AND 0x80 = 0"
proof (rule bit_word_eqI)
  fix n assume *: "drop_bit 7 w = 0"
  then have "\<not> bit (drop_bit 7 w) 0" by simp
  then show "bit ((ucast w :: u8) AND 0x80) n \<longleftrightarrow> bit (0 :: u8) n" by (auto simp: bits_7 bit_simps)
qed

lemma more_byte:
  fixes w :: u64
  shows "(ucast ((w AND 0x7F) OR 0x80) :: u8) AND 0x80 \<noteq> 0"
    "(ucast ((ucast ((w AND 0x7F) OR 0x80) :: u8) AND 0x7F) :: u64) = w AND 0x7F"
proof -
  have "bit ((ucast ((w AND 0x7F) OR 0x80) :: u8) AND 0x80) 7" by (simp add: bits_7 bit_simps)
  then show "(ucast ((w AND 0x7F) OR 0x80) :: u8) AND 0x80 \<noteq> 0" by auto
  show "(ucast ((ucast ((w AND 0x7F) OR 0x80) :: u8) AND 0x7F) :: u64) = w AND 0x7F"
    by (rule bit_word_eqI) (auto simp: bits_7 bit_simps)
qed

lemma join_7: "(z OR push_bit i (w AND 0x7F)) OR push_bit (i + 7) (drop_bit 7 w) = z OR push_bit i w" for w :: u64
proof (rule bit_word_eqI)
  fix n assume "n < LENGTH(64)"
  moreover have "i + 7 \<le> n \<Longrightarrow> 7 + (n - (i + 7)) = n - i" by simp
  ultimately show "bit ((z OR push_bit i (w AND 0x7F)) OR push_bit (i + 7) (drop_bit 7 w)) n \<longleftrightarrow> bit (z OR push_bit i w) n"
    by (cases "i + 7 \<le> n") (auto simp: bits_7 bit_simps)
qed

lemma wide_low: "push_bit 56 (ucast (ucast w :: u8)) = push_bit 56 w" for w :: u64
  by (rule bit_word_eqI) (auto simp: bit_simps)

lemma small_low: "drop_bit 7 w = 0 \<Longrightarrow> (ucast (ucast w :: u8) :: u64) = w" for w :: u64
proof (rule bit_word_eqI)
  fix n assume "drop_bit 7 w = 0" "n < LENGTH(64)"
  then have "\<not> bit (drop_bit 7 w) (n - 7)" by simp
  then show "bit (ucast (ucast w :: u8) :: u64) n \<longleftrightarrow> bit w n" by (cases "n < 7") (auto simp: bit_simps)
qed

lemma decode_loop_reads:
  "k \<le> 8 \<Longrightarrow> reads (\<lambda>zbf. on_value (z_uint8_decode zbf) (\<lambda>b. zint_decode_loop z b (7 * (8 - k)))) (vle k w)
    (z OR push_bit (7 * (8 - k)) w)"
proof (induction k arbitrary: z w)
  case 0
  show ?case by (rule reads_then [of _ "vle 0 w" "ucast w"]) (simp_all add: uint8_reads decode_loop_stop wide_low)
next
  case (Suc k)
  let ?i = "7 * (8 - Suc k)" and ?b = "ucast ((w AND 0x7F) OR 0x80) :: u8"
  show ?case
  proof (cases "drop_bit 7 w = 0")
    case True
    then show ?thesis
      by (intro reads_then [of _ "vle (Suc k) w" "ucast w"]) (simp_all add: uint8_reads decode_loop_stop last_byte small_low)
  next
    case False
    have i: "?i \<noteq> 56" "?i + 7 = 7 * (8 - k)" using Suc.prems by auto
    have "k \<le> 8" using Suc.prems by simp
    note IH = Suc.IH [OF this, of "z OR push_bit ?i (w AND 0x7F)" "drop_bit 7 w", folded i(2), unfolded join_7]
    have "reads (zint_decode_loop z ?b ?i) (vle k (drop_bit 7 w)) (z OR push_bit ?i w)"
      unfolding decode_loop_step [OF more_byte(1) i(1)] more_byte(2) by (rule IH)
    then show ?thesis using reads_seq [OF uint8_reads] False by fastforce
  qed
qed

lemma zint64_reads [wire_intros]: "reads z_zint64_decode (zint_wire v) v"
  using decode_loop_reads [of 8 0 v] by (simp add: z_zint64_decode_def [abs_def])

lemma decode_loop_in_bounds: "k \<le> 8 \<Longrightarrow> in_bounds (zint_decode_loop z b (7 * (8 - k)))"
proof (induction k arbitrary: z b)
  case 0
  then show ?case by (simp add: decode_loop_stop in_bounds_value)
next
  case (Suc k)
  let ?i = "7 * (8 - Suc k)"
  have i: "?i \<noteq> 56" "?i + 7 = 7 * (8 - k)" using Suc.prems by auto
  show ?case
  proof (cases "b AND 0x80 = 0")
    case True
    then show ?thesis by (simp add: decode_loop_stop in_bounds_value)
  next
    case False
    show ?thesis unfolding decode_loop_step [OF False i(1)] i(2)
      by (rule in_bounds_seq [OF uint8_in_bounds]) (use Suc in simp)
  qed
qed

lemma zint64_in_bounds [bounds_intros]: "in_bounds z_zint64_decode"
  unfolding z_zint64_decode_def [abs_def]
  by (rule in_bounds_seq [OF uint8_in_bounds]) (use decode_loop_in_bounds [of 8] in simp)

text \<open>The decoder over any reader of single bytes is the decoder of the buffers.\<close>

lemma reader_loop_eq: "k \<le> 8 \<Longrightarrow> zint_reader_loop z_uint8_decode_reader z b (7 * (8 - k)) = zint_decode_loop z b (7 * (8 - k))"
proof (induction k arbitrary: z b)
  case 0
  then show ?case by (simp add: fun_eq_iff zint_reader_loop.simps [of _ z b] zint_decode_loop.simps [of z b])
next
  case (Suc k)
  have "7 * (8 - Suc k) + 7 = 7 * (8 - k)" using Suc.prems by auto
  then show ?case using Suc
    by (simp add: fun_eq_iff zint_reader_loop.simps [of _ z b] zint_decode_loop.simps [of z b] z_uint8_decode_reader_def
        Let_def cong: sum.case_cong)
qed

lemma decode_with_reader: "z_zint64_decode_with_reader z_uint8_decode_reader zbf = z_zint64_decode zbf"
  using reader_loop_eq [of 8]
  by (simp add: z_zint64_decode_with_reader_def z_zint64_decode_def on_value_def z_uint8_decode_reader_def cong: sum.case_cong)

end
