(* ===== verification/ZWireProps.thy ===== *)
theory ZWireProps
  imports ZVle ZWBufProps
begin

text \<open>
  The codecs of \<open>protocol/codec.c\<close> built on the integers: narrower integers, enumerations, slices,
  strings, encodings and values, each as an instance of \<open>wire_codec\<close>, and their properties.
\<close>

section \<open>Narrower integers\<close>

lemma zint16_emits [wire_intros]: "emits (\<lambda>wbf. z_zint16_encode H wbf v) (zint_wire (ucast v))"
  unfolding z_zint16_encode_def [abs_def] by (rule zint64_emits)

lemma zint32_emits [wire_intros]: "emits (\<lambda>wbf. z_zint32_encode H wbf v) (zint_wire (ucast v))"
  unfolding z_zint32_encode_def [abs_def] by (rule zint64_emits)

lemma zsize_emits [wire_intros]: "emits (\<lambda>wbf. z_zsize_encode H wbf n) (zint_wire (of_nat n))"
  unfolding z_zsize_encode_def [abs_def] by (rule zint64_emits)

lemma unat_of_size: "n \<le> SIZE_MAX \<Longrightarrow> unat (of_nat n :: u64) = n"
  by (simp add: unat_of_nat SIZE_MAX_def)

lemma ucast_small: "(ucast (v :: u16) :: u64) \<le> 0xFFFF" "(ucast (w :: u32) :: u64) \<le> 0xFFFFFFFF"
proof -
  have "unat v < 65536" using word_uint_le_max [of v] by simp
  moreover have "unat w < 4294967296" using word_uint_le_max [of w] by simp
  ultimately have "unat v \<le> 65535" "unat w \<le> 4294967295" by linarith+
  then show "(ucast v :: u64) \<le> 0xFFFF" "(ucast w :: u64) \<le> 0xFFFFFFFF"
    by (simp_all add: word_le_nat_alt unsigned_ucast_eq order_trans [OF take_bit_nat_less_eq_self])
qed

lemma ucast_back: "(ucast (ucast (v :: u16) :: u64) :: u16) = v" "(ucast (ucast (w :: u32) :: u64) :: u32) = w"
  by (rule bit_word_eqI, auto simp: bit_simps)+

lemma zint16_reads [wire_intros]: "reads z_zint16_decode (zint_wire (ucast v)) v"
  unfolding z_zint16_decode_def [abs_def]
  using ucast_small(1) [of v] by (intro reads_then [OF zint64_reads]) (simp add: not_less [symmetric] ucast_back)

lemma zint32_reads [wire_intros]: "reads z_zint32_decode (zint_wire (ucast v)) v"
  unfolding z_zint32_decode_def [abs_def]
  using ucast_small(2) [of v] by (intro reads_then [OF zint64_reads]) (simp add: not_less [symmetric] ucast_back)

lemma zsize_reads [wire_intros]: "n \<le> SIZE_MAX \<Longrightarrow> reads z_zsize_decode (zint_wire (of_nat n)) n"
  unfolding z_zsize_decode_def [abs_def] by (intro reads_then [OF zint64_reads]) (simp add: unat_of_size)

lemma zint_small_in_bounds [bounds_intros]: "in_bounds z_zint16_decode" "in_bounds z_zint32_decode" "in_bounds z_zsize_decode"
  unfolding z_zint16_decode_def [abs_def] z_zint32_decode_def [abs_def] z_zsize_decode_def [abs_def]
  by (intro in_bounds_seq zint64_in_bounds in_bounds_if in_bounds_value)+

section \<open>Slices and strings\<close>

lemma buf_emits [wire_intros]: "emits (\<lambda>wbf. z_buf_encode H wbf bs) bs"
proof (rule emitsI)
  fix wbf :: z_wbuf and h
  assume "wb_fixed wbf" "length bs \<le> wb_space wbf"
  then show "\<exists>wbf'. z_buf_encode H wbf bs h = Some (Z_OK, wbf', h) \<and> wb_fixed wbf' \<and> wb_shape wbf' = wb_shape wbf \<and> wb_data wbf' = wb_data wbf @ bs \<and>
      wb_space wbf' = wb_space wbf - length bs"
    using emits_fits [OF emits_bytes, of wbf bs H h] by (simp add: z_buf_encode_def wb_fixed_def [of wbf])
next
  fix wbf :: z_wbuf and h
  assume "wb_fixed wbf" "wb_space wbf < length bs"
  then show "\<exists>wbf' sent. z_buf_encode H wbf bs h = Some (Z_ERR_TRANSPORT_NO_SPACE, wbf', h) \<and> wb_fixed wbf' \<and> wb_shape wbf' = wb_shape wbf \<and>
      wb_data wbf' = wb_data wbf @ sent \<and> strict_prefix sent bs"
    using emits_full [OF emits_bytes, of wbf bs H h] by (simp add: z_buf_encode_def wb_fixed_def [of wbf])
qed

lemma slice_val_emits [wire_intros]: "emits (\<lambda>wbf. z_slice_val_encode H wbf bs) bs"
  unfolding z_slice_val_encode_def [abs_def] by (rule buf_emits)

abbreviation (input) sized :: "bytes \<Rightarrow> bytes" where
  "sized s \<equiv> zint_wire (of_nat (length s)) @ s"

lemma slice_emits [wire_intros]: "emits (\<lambda>wbf. z_slice_encode H wbf s) (sized s)"
  unfolding z_slice_encode_def [abs_def] by (intro wire_intros)

lemma string_emits [wire_intros]: "emits (\<lambda>wbf. z_string_encode H wbf s) (sized s)"
  unfolding z_string_encode_def [abs_def] by (intro wire_intros)

lemma str_emits [wire_intros]: "emits (\<lambda>wbf. z_str_encode H wbf s) (sized s)"
  unfolding z_str_encode_def [abs_def] by (intro wire_intros)

lemma bytes_val_emits [wire_intros]: "emits (\<lambda>wbf. z_bytes_encode_val H wbf bs) (concat bs)"
proof (induction bs)
  case Nil
  then show ?case by (simp add: emits_nothing)
next
  case (Cons b bs)
  then show ?case using emits_seq [OF buf_emits, of "\<lambda>wbf. z_bytes_encode_val H wbf bs"] by simp
qed

lemma slices_val_emits [wire_intros]: "emits (\<lambda>wbf. slices_val_encode H wbf bs) (concat bs)"
proof (induction bs)
  case Nil
  then show ?case by (simp add: emits_nothing)
next
  case (Cons b bs)
  then show ?case using emits_seq [OF slice_val_emits, of "\<lambda>wbf. slices_val_encode H wbf bs"] by simp
qed

lemma foldl_size_add: "n + length (concat bs) \<le> SIZE_MAX \<Longrightarrow> foldl (\<lambda>n b. size_add n (length b)) n bs = n + length (concat bs)"
  by (induction bs arbitrary: n) simp_all

lemma total_len: "length (concat bs) \<le> SIZE_MAX \<Longrightarrow> total_len bs = length (concat bs)"
  using foldl_size_add [of 0 bs] by (simp add: total_len_def)

lemma bytes_emits: "length (concat bs) \<le> SIZE_MAX \<Longrightarrow> emits (\<lambda>wbf. z_bytes_encode H wbf bs) (sized (concat bs))"
  unfolding z_bytes_encode_def [abs_def] z_bytes_len_def by (simp only: total_len) (intro wire_intros)

lemma slices_emits: "length (concat bs) \<le> SIZE_MAX \<Longrightarrow> emits (\<lambda>wbf. z_slices_encode H wbf bs) (sized (concat bs))"
  unfolding z_slices_encode_def [abs_def] by (simp only: total_len) (intro wire_intros)

text \<open>Taking bytes from the front of a buffer.\<close>

lemma zb_take:
  assumes "zb_ok zbf" "n \<le> length (zb_data zbf)"
  shows "c_read (z_zbuf_get_rptr zbf) 0 n = Some (take n (zb_data zbf))"
    "\<exists>zbf'. z_zbuf_set_rpos zbf (z_zbuf_get_rpos zbf + n) = Some zbf' \<and> zb_ok zbf' \<and> zb_data zbf' = drop n (zb_data zbf)"
proof -
  have i: "ios_ok (zb_ios zbf)" "n \<le> length (ios_data (zb_ios zbf))" using assms by (simp_all add: zb_ok_def zb_data_def)
  note a = ios_advance [OF i] and r = ios_r_le [OF i(1)]
  have "c_read (drop (ios_r_pos (zb_ios zbf)) (ios_buf (zb_ios zbf))) 0 n = Some (slice (ios_buf (zb_ios zbf)) (ios_r_pos (zb_ios zbf)) n)"
    using a(4) by (simp add: slice_def)
  then show "c_read (z_zbuf_get_rptr zbf) 0 n = Some (take n (zb_data zbf))"
    by (simp add: z_zbuf_get_rptr_def a(1) zb_data_def)
  show "\<exists>zbf'. z_zbuf_set_rpos zbf (z_zbuf_get_rpos zbf + n) = Some zbf' \<and> zb_ok zbf' \<and> zb_data zbf' = drop n (zb_data zbf)"
    using a r i by (simp add: z_zbuf_set_rpos_def z_zbuf_get_rpos_def zb_ok_def zb_data_def)
qed

text \<open>A step that takes \<open>n\<close> bytes or fails.\<close>

lemma takes_reads:
  assumes "\<And>zbf. zb_ok zbf \<Longrightarrow> n \<le> length (zb_data zbf) \<Longrightarrow>
      \<exists>zbf'. d zbf = Some (Inr (f (take n (zb_data zbf))), zbf') \<and> zb_ok zbf' \<and> zb_data zbf' = drop n (zb_data zbf)"
    and "\<And>zbf. zb_ok zbf \<Longrightarrow> length (zb_data zbf) < n \<Longrightarrow> d zbf = fail_decode zbf"
    and "length s = n"
  shows "reads d s (f s)"
  unfolding reads_def
proof (intro conjI allI impI)
  fix zbf rest
  assume "zb_ok zbf \<and> zb_data zbf = s @ rest"
  then show "\<exists>zbf'. d zbf = Some (Inr (f s), zbf') \<and> zb_ok zbf' \<and> zb_data zbf' = rest"
    using assms(1) [of zbf] assms(3) by simp
next
  fix zbf
  assume "zb_ok zbf \<and> strict_prefix (zb_data zbf) s"
  then show "\<exists>zbf'. d zbf = Some (Inl Z_ERR_MESSAGE_DESERIALIZATION_FAILED, zbf') \<and> zb_ok zbf'"
    using assms(2) [of zbf] assms(3) prefix_length_less [of "zb_data zbf" s] by (simp add: fail_decode_def)
qed

lemma takes_in_bounds:
  assumes "\<And>zbf. zb_ok zbf \<Longrightarrow> n \<le> length (zb_data zbf) \<Longrightarrow>
      \<exists>r zbf'. d zbf = Some (r, zbf') \<and> zb_ok zbf' \<and> zb_data zbf' = drop n (zb_data zbf)"
    and "\<And>zbf. zb_ok zbf \<Longrightarrow> length (zb_data zbf) < n \<Longrightarrow> d zbf = fail_decode zbf"
  shows "in_bounds d"
  unfolding in_bounds_def
proof (intro allI impI)
  fix zbf
  assume z: "zb_ok zbf"
  show "\<exists>r zbf'. d zbf = Some (r, zbf') \<and> zb_ok zbf' \<and> suffix (zb_data zbf') (zb_data zbf)"
  proof (cases "n \<le> length (zb_data zbf)")
    case True
    then show ?thesis using assms(1) [OF z] suffix_drop by metis
  qed (use z assms(2) [OF z] in \<open>simp add: fail_decode_def\<close>)
qed

lemma slice_val_takes:
  "zb_ok zbf \<Longrightarrow> n \<le> length (zb_data zbf) \<Longrightarrow> \<exists>zbf'. z_slice_val_decode_na n zbf = Some (Inr (take n (zb_data zbf)), zbf') \<and>
    zb_ok zbf' \<and> zb_data zbf' = drop n (zb_data zbf)"
  "zb_ok zbf \<Longrightarrow> length (zb_data zbf) < n \<Longrightarrow> z_slice_val_decode_na n zbf = fail_decode zbf"
  using zb_take [of zbf n] by (auto simp: z_slice_val_decode_na_def)

lemma slice_val_reads: "reads (z_slice_val_decode_na (length s)) s s"
  by (rule takes_reads [where f = "\<lambda>s. s", OF slice_val_takes refl])

lemma slice_val_in_bounds: "in_bounds (z_slice_val_decode_na n)"
  by (rule takes_in_bounds [where n = n]) (use slice_val_takes in blast)+

lemma slice_reads: "length s \<le> SIZE_MAX \<Longrightarrow> reads z_slice_decode (sized s) s"
  unfolding z_slice_decode_def [abs_def] z_slice_decode_na_def by (rule reads_seq [where f = z_slice_val_decode_na, OF zsize_reads slice_val_reads])

lemma slice_in_bounds [bounds_intros]: "in_bounds z_slice_decode"
  unfolding z_slice_decode_def [abs_def] z_slice_decode_na_def by (rule in_bounds_seq [OF zint_small_in_bounds(3) slice_val_in_bounds])

lemma bytes_reads: "length s \<le> SIZE_MAX \<Longrightarrow> reads z_bytes_decode (sized s) [s]"
  unfolding z_bytes_decode_def [abs_def] by (rule reads_then [OF slice_reads]) simp_all

lemma bytes_in_bounds [bounds_intros]: "in_bounds z_bytes_decode"
  unfolding z_bytes_decode_def [abs_def] by (rule in_bounds_seq [OF slice_in_bounds in_bounds_value(1)])

lemma string_val: "z_string_decode zbf = on_value (z_zsize_decode zbf) z_slice_val_decode_na"
  by (simp add: z_string_decode_def z_slice_val_decode_na_def [abs_def])

lemma string_reads [wire_intros]: "length s \<le> SIZE_MAX \<Longrightarrow> reads z_string_decode (sized s) s"
  unfolding string_val [abs_def] by (rule reads_seq [where f = z_slice_val_decode_na, OF zsize_reads slice_val_reads])

lemma string_in_bounds [bounds_intros]: "in_bounds z_string_decode"
  unfolding string_val [abs_def] by (rule in_bounds_seq [OF zint_small_in_bounds(3) slice_val_in_bounds])

section \<open>Encodings and values\<close>

definition encoding_head :: "z_encoding \<Rightarrow> u32" where
  "encoding_head en = (if enc_schema en \<noteq> [] then push_bit 1 (ucast (enc_id en)) OR 1 else push_bit 1 (ucast (enc_id en)))"

definition encoding_wire :: "z_encoding \<Rightarrow> bytes" where
  "encoding_wire en = zint_wire (ucast (encoding_head en)) @ (if enc_schema en \<noteq> [] then sized (enc_schema en) else [])"

definition encoding_valid :: "z_encoding \<Rightarrow> bool" where
  "encoding_valid en \<longleftrightarrow> length (enc_schema en) \<le> SIZE_MAX"

lemma encoding_emits: "emits (\<lambda>wbf. z_encoding_encode H wbf en) (encoding_wire en)"
proof -
  have "emits (\<lambda>wbf h. if_ok (z_zint32_encode H wbf (encoding_head en) h) (\<lambda>wbf h.
           if enc_schema en \<noteq> [] then if_ok (z_string_encode H wbf (enc_schema en) h) (\<lambda>wbf h. Some (Z_OK, wbf, h))
           else Some (Z_OK, wbf, h))) (encoding_wire en)"
    unfolding encoding_wire_def
  proof (intro emits_seq zint32_emits)
    have "emits (\<lambda>wbf h. if_ok (z_string_encode H wbf (enc_schema en) h) (\<lambda>wbf h. Some (Z_OK, wbf, h))) (sized (enc_schema en))"
      using emits_seq [OF string_emits emits_nothing] by simp
    then show "emits (\<lambda>wbf h. if enc_schema en \<noteq> [] then if_ok (z_string_encode H wbf (enc_schema en) h) (\<lambda>wbf h. Some (Z_OK, wbf, h))
           else Some (Z_OK, wbf, h)) (if enc_schema en \<noteq> [] then sized (enc_schema en) else [])"
      by (simp add: emits_nothing)
  qed
  then show ?thesis unfolding encoding_head_def by (simp only: z_encoding_encode_def [abs_def] z_string_check_def Let_def)
qed

lemma bit_shl_id: "bit (ucast (x :: u16) * 2 :: u32) (Suc n) \<longleftrightarrow> bit x n"
  using bit_double_iff [of "ucast x :: u32" "Suc n"] by (auto simp: mult.commute bit_simps)

lemma encoding_head_bits: "encoding_head en AND 1 \<noteq> 0 \<longleftrightarrow> enc_schema en \<noteq> []" "ucast (drop_bit 1 (encoding_head en)) = enc_id en"
proof -
  have "bit (encoding_head en) 0 \<longleftrightarrow> enc_schema en \<noteq> []" by (auto simp: encoding_head_def bit_0 even_or_iff)
  then show "encoding_head en AND 1 \<noteq> 0 \<longleftrightarrow> enc_schema en \<noteq> []" by (auto simp: and_one_eq bit_0 mod2_eq_if split: if_splits)
  show "ucast (drop_bit 1 (encoding_head en)) = enc_id en"
    by (rule bit_word_eqI) (auto simp: encoding_head_def bit_shl_id bit_simps)
qed

lemma encoding_reads:
  assumes "encoding_valid en" "enc_schema en = [] \<Longrightarrow> enc_schema en0 = []"
  shows "reads (z_encoding_decode en0) (encoding_wire en) en"
  unfolding z_encoding_decode_def [abs_def] encoding_wire_def
proof (rule reads_seq [OF zint32_reads])
  let ?d = "\<lambda>zbf. on_value (z_string_decode zbf) (\<lambda>s zbf2. Some (Inr (en0\<lparr>enc_id := enc_id en, enc_schema := s\<rparr>), zbf2))"
  have s: "reads ?d (sized (enc_schema en)) en"
    using assms by (intro reads_then [OF string_reads]) (simp_all add: encoding_valid_def)
  show "reads (\<lambda>zbf1. let en1 = en0\<lparr>enc_id := ucast (drop_bit 1 (encoding_head en))\<rparr>
       in if encoding_head en AND 1 \<noteq> 0
          then on_value (z_string_decode zbf1) (\<lambda>s zbf2. Some (Inr (en1\<lparr>enc_schema := s\<rparr>), zbf2))
          else Some (Inr en1, zbf1)) (if enc_schema en \<noteq> [] then sized (enc_schema en) else []) en"
  proof (cases "enc_schema en = []")
    case True
    then show ?thesis using assms(2) unfolding encoding_head_bits by (cases en; cases en0) (simp add: reads_nothing)
  next
    case False
    then show ?thesis using s unfolding encoding_head_bits by simp
  qed
qed

lemma encoding_in_bounds [bounds_intros]: "in_bounds (z_encoding_decode en0)"
proof -
  have "in_bounds (\<lambda>zbf1. let en1 = en0\<lparr>enc_id := ucast (drop_bit 1 i)\<rparr>
       in if i AND 1 \<noteq> 0
          then on_value (z_string_decode zbf1) (\<lambda>s zbf2. Some (Inr (en1\<lparr>enc_schema := s\<rparr>), zbf2))
          else Some (Inr en1, zbf1))" for i :: u32
    unfolding Let_def by (intro in_bounds_if in_bounds_seq string_in_bounds in_bounds_value)
  then show ?thesis unfolding z_encoding_decode_def [abs_def] by (intro in_bounds_seq zint_small_in_bounds)
qed

text \<open>The length that is announced is the length that is written.\<close>

lemma vle_len_schema: "length (zint_wire (ucast (encoding_head en))) = z_zint_len (ucast (push_bit 1 (ucast (enc_id en)) :: u32))"
proof -
  have l: "drop_bit (7 * k) (ucast (encoding_head en) :: u64) = drop_bit (7 * k) (ucast (push_bit 1 (ucast (enc_id en)) :: u32))"
    if "0 < k" for k
    using that by (intro bit_word_eqI) (auto simp: encoding_head_def bit_simps)
  show ?thesis
    unfolding zint_len_vle [symmetric] z_zint_len_def vle_mask_test
    using l [of 1] l [of 2] l [of 3] l [of 4] l [of 5] l [of 6] l [of 7] l [of 8] by (simp only: zero_less_numeral zero_less_one)
qed

lemma encoding_len: 
  assumes "length (enc_schema en) + 18 \<le> SIZE_MAX"
  shows "z_encoding_len en = length (encoding_wire en)"
proof -
  note b = vle_bound [of 8 "ucast (encoding_head en)"] vle_bound [of 8 "of_nat (length (enc_schema en))"]
  have "z_zint_len (of_nat (length (enc_schema en))) = length (zint_wire (of_nat (length (enc_schema en))))" by (rule zint_len_vle)
  then show ?thesis
    using assms b unfolding z_encoding_len_def vle_len_schema [symmetric] encoding_wire_def z_string_check_def Let_def by simp
qed

definition value_wire :: "z_value \<Rightarrow> bytes" where
  "value_wire v = encoding_wire (val_encoding v) @ concat (val_payload v)"

lemma encoding_wire_bound: "length (encoding_wire en) \<le> length (enc_schema en) + 18"
  using vle_bound [of 8 "ucast (encoding_head en)"] vle_bound [of 8 "of_nat (length (enc_schema en))"]
  by (simp add: encoding_wire_def)

lemma value_emits:
  assumes "length (enc_schema (val_encoding v)) + length (concat (val_payload v)) + 18 \<le> SIZE_MAX"
  shows "emits (\<lambda>wbf. z_value_encode H wbf v) (sized (value_wire v))"
proof -
  have e: "z_encoding_len (val_encoding v) = length (encoding_wire (val_encoding v))" using assms by (intro encoding_len) simp
  have t: "z_bytes_len (val_payload v) = length (concat (val_payload v))"
    using assms by (simp add: z_bytes_len_def total_len)
  have "length (encoding_wire (val_encoding v)) + length (concat (val_payload v)) \<le> SIZE_MAX"
    using encoding_wire_bound [of "val_encoding v"] assms by linarith
  then have l: "size_add (z_encoding_len (val_encoding v)) (z_bytes_len (val_payload v)) = length (value_wire v)"
    by (simp add: e t value_wire_def del: length_concat)
  show ?thesis
    unfolding z_value_encode_def [abs_def] l
    by (intro emits_seq zsize_emits) (unfold value_wire_def, intro emits_seq encoding_emits bytes_val_emits)
qed

text \<open>The decoder takes the rest of its buffer for the payload and leaves it unread.\<close>

lemma value_decode:
  assumes "encoding_valid (val_encoding v)" "enc_schema (val_encoding v) = [] \<Longrightarrow> enc_schema (val_encoding v0) = []"
    and "zb_ok zbf" "zb_data zbf = value_wire v"
  shows "\<exists>zbf'. z_value_decode copy v0 zbf = Some (case copy (concat (val_payload v)) of
      None \<Rightarrow> Inl Z_ERR_SYSTEM_OUT_OF_MEMORY
    | Some p \<Rightarrow> Inr (v0\<lparr>val_encoding := val_encoding v, val_payload := p\<rparr>), zbf') \<and> zb_ok zbf'"
proof -
  obtain z1 where z1: "z_encoding_decode (val_encoding v0) zbf = Some (Inr (val_encoding v), z1)" "zb_ok z1"
    "zb_data z1 = concat (val_payload v)"
    using readsD(1) [OF encoding_reads [OF assms(1,2)] assms(3)] assms(4) unfolding value_wire_def by blast
  have "c_read (z_zbuf_get_rptr z1) 0 (z_zbuf_len z1) = Some (concat (val_payload v))"
    using zb_take(1) [OF z1(2), of "z_zbuf_len z1"] z1 by simp
  then show ?thesis using z1 by (simp add: z_value_decode_def on_value_def split: option.split)
qed

lemma value_in_bounds: "in_bounds (z_value_decode copy v0)"
  unfolding z_value_decode_def [abs_def]
proof (rule in_bounds_seq [OF encoding_in_bounds])
  fix en
  show "in_bounds (\<lambda>zbf1. do {
       d \<leftarrow> c_read (z_zbuf_get_rptr zbf1) 0 (z_zbuf_len zbf1);
       (case copy d of
          None \<Rightarrow> Some (Inl Z_ERR_SYSTEM_OUT_OF_MEMORY, zbf1)
        | Some p \<Rightarrow> Some (Inr (v0\<lparr>val_encoding := en, val_payload := p\<rparr>), zbf1)) })"
    unfolding in_bounds_def
    by (auto simp: zb_take(1) split: option.split)
qed

section \<open>16 bit words and enumerations\<close>

abbreviation (input) u16_wire :: "u16 \<Rightarrow> bytes" where "u16_wire v \<equiv> [ucast v, ucast (drop_bit 8 v)]"

lemma uint16_emits: "emits (\<lambda>wbf. z_uint16_encode H wbf v) (u16_wire v)"
  using emits_seq [OF emits_byte emits_byte] by (simp add: z_uint16_encode_def [abs_def] z_get_u16_lsb_def z_get_u16_msb_def)

lemma u16_join: "ucast (ucast v :: u8) + push_bit 8 (ucast (ucast (drop_bit 8 v) :: u8)) = v" for v :: u16
proof -
  have "ucast (ucast v :: u8) + push_bit 8 (ucast (ucast (drop_bit 8 v) :: u8)) =
      (ucast (ucast v :: u8) OR push_bit 8 (ucast (ucast (drop_bit 8 v) :: u8)) :: u16)"
    by (rule disjunctive_add) (auto simp: bit_simps)
  also have "\<dots> = v"
  proof (rule bit_word_eqI)
    fix n assume "n < LENGTH(16)"
    then show "bit (ucast (ucast v :: u8) OR push_bit 8 (ucast (ucast (drop_bit 8 v) :: u8)) :: u16) n \<longleftrightarrow> bit v n"
      by (cases "n < 8") (auto simp: bit_simps)
  qed
  finally show ?thesis .
qed

lemma uint16_decode_two:
  assumes "zb_ok zbf" "zb_data zbf = a # b # rest"
  shows "\<exists>zbf'. z_uint16_decode swap zbf =
      Some (Inr (if swap then ucast b + push_bit 8 (ucast a) else ucast a + push_bit 8 (ucast b)), zbf') \<and> zb_ok zbf' \<and> zb_data zbf' = rest"
proof -
  obtain z1 where z1: "z_zbuf_read zbf = Some (a, z1)" "zb_ok z1" "zb_data z1 = b # rest" using zb_read [OF assms] by blast
  obtain z2 where "z_zbuf_read z1 = Some (b, z2)" "zb_ok z2" "zb_data z2 = rest" using zb_read [OF z1(2,3)] by blast
  then show ?thesis using assms z1 by (simp add: z_uint16_decode_def Let_def)
qed

lemma uint16_reads: "reads (z_uint16_decode False) (u16_wire v) v"
  unfolding reads_def
proof (intro conjI allI impI)
  fix zbf rest
  assume "zb_ok zbf \<and> zb_data zbf = u16_wire v @ rest"
  then show "\<exists>zbf'. z_uint16_decode False zbf = Some (Inr v, zbf') \<and> zb_ok zbf' \<and> zb_data zbf' = rest"
    using uint16_decode_two [of zbf "ucast v" "ucast (drop_bit 8 v)" rest False] by (simp add: u16_join)
next
  fix zbf
  assume z: "zb_ok zbf \<and> strict_prefix (zb_data zbf) (u16_wire v)"
  then have "length (zb_data zbf) < 2" using prefix_length_less [of "zb_data zbf" "u16_wire v"] by simp
  then show "\<exists>zbf'. z_uint16_decode False zbf = Some (Inl Z_ERR_MESSAGE_DESERIALIZATION_FAILED, zbf') \<and> zb_ok zbf'"
    using z by (simp add: z_uint16_decode_def fail_decode_def)
qed

lemma u32_size: "unat (w :: u32) \<le> SIZE_MAX"
proof -
  have "unat w < 2 ^ LENGTH(32)" by (rule word_uint_le_max)
  then show ?thesis by (simp add: SIZE_MAX_def)
qed

lemma mode_reads: "reads z_consolidation_mode_decode (zint_wire (of_nat (unat w))) w"
  "reads z_query_target_decode (zint_wire (of_nat (unat w))) w"
  unfolding z_consolidation_mode_decode_def [abs_def] z_query_target_decode_def [abs_def]
  by (intro reads_then [OF zsize_reads [OF u32_size]], simp)+

lemma mode_emits: "emits (\<lambda>wbf. z_consolidation_mode_encode H wbf w) (zint_wire (of_nat (unat w)))"
  "emits (\<lambda>wbf. z_query_target_encode H wbf w) (zint_wire (of_nat (unat w)))"
  unfolding z_consolidation_mode_encode_def [abs_def] z_query_target_encode_def [abs_def] by (rule zsize_emits)+

text \<open>Router, peer and client.\<close>

definition whatami_valid :: "u32 \<Rightarrow> bool" where
  "whatami_valid w \<longleftrightarrow> w = 1 \<or> w = 2 \<or> w = 4"

lemma whatami_back: "whatami_valid w \<Longrightarrow> z_whatami_from_uint8 (z_whatami_to_uint8 w) = w"
  by (auto simp: whatami_valid_def z_whatami_from_uint8_def z_whatami_to_uint8_def)

lemma whatami_reads: "whatami_valid w \<Longrightarrow> reads z_whatami_decode (zint_wire (of_nat (unat (z_whatami_to_uint8 w)))) w"
proof -
  assume w: "whatami_valid w"
  have "unat (z_whatami_to_uint8 w) \<le> SIZE_MAX"
    using unat_u8_less [of "z_whatami_to_uint8 w"] by (simp add: SIZE_MAX_def del: unat_u8_less)
  then show ?thesis unfolding z_whatami_decode_def [abs_def]
    by (intro reads_then [OF zsize_reads]) (simp_all add: whatami_back [OF w])
qed

lemma whatami_emits: "emits (\<lambda>wbf. z_whatami_encode H wbf w) (zint_wire (of_nat (unat (z_whatami_to_uint8 w))))"
  unfolding z_whatami_encode_def [abs_def] by (rule zsize_emits)

section \<open>The codecs\<close>

interpretation uint8: wire_codec "\<lambda>v wbf. z_uint8_encode H wbf v" z_uint8_decode "\<lambda>v. [v]" "\<lambda>_. True" for H :: "'h heap"
  by unfold_locales (simp_all add: uint8_emits uint8_reads)

interpretation uint16: wire_codec "\<lambda>v wbf. z_uint16_encode H wbf v" "z_uint16_decode False" "\<lambda>v. u16_wire v" "\<lambda>_. True" for H :: "'h heap"
  by unfold_locales (simp_all only: uint16_emits uint16_reads)

interpretation zint64: wire_codec "\<lambda>v wbf. z_zint64_encode H wbf v" z_zint64_decode "vle 8" "\<lambda>_. True" for H :: "'h heap"
  by unfold_locales (simp_all add: zint64_emits zint64_reads)

interpretation zint32: wire_codec "\<lambda>v wbf. z_zint32_encode H wbf v" z_zint32_decode "\<lambda>v. vle 8 (ucast v)" "\<lambda>_. True" for H :: "'h heap"
  by unfold_locales (simp_all add: zint32_emits zint32_reads)

interpretation zint16: wire_codec "\<lambda>v wbf. z_zint16_encode H wbf v" z_zint16_decode "\<lambda>v. vle 8 (ucast v)" "\<lambda>_. True" for H :: "'h heap"
  by unfold_locales (simp_all add: zint16_emits zint16_reads)

interpretation zsize: wire_codec "\<lambda>v wbf. z_zsize_encode H wbf v" z_zsize_decode "\<lambda>n. vle 8 (of_nat n)" "\<lambda>n. n \<le> SIZE_MAX" for H :: "'h heap"
  by unfold_locales (simp_all add: zsize_emits zsize_reads)

interpretation mode: wire_codec "\<lambda>v wbf. z_consolidation_mode_encode H wbf v" z_consolidation_mode_decode
    "\<lambda>w. vle 8 (of_nat (unat w))" "\<lambda>_. True" for H :: "'h heap"
  by unfold_locales (simp_all only: mode_emits mode_reads)

interpretation target: wire_codec "\<lambda>v wbf. z_query_target_encode H wbf v" z_query_target_decode
    "\<lambda>w. vle 8 (of_nat (unat w))" "\<lambda>_. True" for H :: "'h heap"
  by unfold_locales (simp_all only: mode_emits mode_reads)

interpretation whatami: wire_codec "\<lambda>v wbf. z_whatami_encode H wbf v" z_whatami_decode
    "\<lambda>w. vle 8 (of_nat (unat (z_whatami_to_uint8 w)))" whatami_valid for H :: "'h heap"
  by unfold_locales (simp_all only: whatami_emits whatami_reads)

interpretation slices: wire_codec "\<lambda>v wbf. z_slice_encode H wbf v" z_slice_decode "\<lambda>s. sized s" "\<lambda>s. length s \<le> SIZE_MAX" for H :: "'h heap"
  by unfold_locales (simp_all only: slice_emits slice_reads)

interpretation strings: wire_codec "\<lambda>v wbf. z_string_encode H wbf v" z_string_decode "\<lambda>s. sized s" "\<lambda>s. length s \<le> SIZE_MAX" for H :: "'h heap"
  by unfold_locales (simp_all only: string_emits string_reads)

text \<open>Into a variable that was cleared, as its callers do.\<close>

definition encoding_null :: z_encoding where
  "encoding_null = \<lparr>enc_id = 0, enc_schema = []\<rparr>"

interpretation encodings: wire_codec "\<lambda>v wbf. z_encoding_encode H wbf v" "z_encoding_decode encoding_null" encoding_wire encoding_valid
    for H :: "'h heap"
  by unfold_locales (simp_all add: encoding_emits encoding_reads encoding_null_def)

section \<open>Properties\<close>

text \<open>
  C33: the buffer encoder of 64 bit integers writes the reference encoding: seven bits a byte from the low
  end, at most nine bytes, as many as \<open>_z_zint_len\<close> announces. The decoder over a byte reader is the
  decoder over the buffer.
\<close>

theorem zint_encoding_reference:
  "z_zint64_encode_buf v = vle 8 v \<and> z_zint_len v = length (vle 8 v) \<and> length (z_zint64_encode_buf v) \<in> {1..9} \<and>
   z_zint64_decode_with_reader z_uint8_decode_reader zbf = z_zint64_decode zbf"
  using vle_bound [of 8 v] by (simp add: zint_encode_buf_vle zint_len_vle decode_with_reader Suc_le_eq)

text \<open>
  Every 64 bit integer that fits the buffer is written whole and read back, leaving what followed it; one that
  does not fit is reported, and what was there before stays in front.
\<close>

theorem zint_roundtrip:
  assumes "wb_fixed wbf"
  shows "\<exists>r wbf'. z_zint64_encode H wbf v h = Some (r, wbf', h) \<and> prefix (wb_data wbf) (wb_data wbf') \<and>
    (if z_zint_len v \<le> wb_space wbf then r = Z_OK \<and>
       (\<exists>zbf. z_zint64_decode (z_slice_as_zbuf (drop (length (wb_data wbf)) (wb_data wbf') @ rest)) = Some (Inr v, zbf) \<and> zb_data zbf = rest)
     else r = Z_ERR_TRANSPORT_NO_SPACE)"
proof (cases "z_zint_len v \<le> wb_space wbf")
  case True
  obtain wbf' where w: "z_zint64_encode H wbf v h = Some (Z_OK, wbf', h)" "wb_data wbf' = wb_data wbf @ vle 8 v"
    using emits_fits [OF zint64_emits assms, of v H h] True by (auto simp: zint_len_vle)
  have "\<exists>zbf. z_zint64_decode (z_slice_as_zbuf (vle 8 v @ rest)) = Some (Inr v, zbf) \<and> zb_ok zbf \<and> zb_data zbf = rest"
    by (rule readsD(1) [OF zint64_reads]) simp_all
  then show ?thesis using w True by auto
next
  case False
  then show ?thesis using emits_full [OF zint64_emits assms, of v H h] by (auto simp: zint_len_vle)
qed

theorem zint_roundtrip_witness:
  "\<exists>r wbf'. z_zint64_encode demo_heap (demo_wbuf 10 False) 0xFFFFFFFFFFFFFFFF () = Some (r, wbf', ()) \<and> r = Z_OK \<and>
    (\<exists>zbf. z_zint64_decode (z_slice_as_zbuf (wb_data wbf' @ [1, 2])) = Some (Inr 0xFFFFFFFFFFFFFFFF, zbf) \<and> zb_data zbf = [1, 2])"
proof -
  have "wb_fixed (demo_wbuf 10 False)" by (simp add: wb_fixed_def demo_wbuf)
  moreover have "z_zint_len 0xFFFFFFFFFFFFFFFF \<le> 10" 
    using vle_bound [of 8 "0xFFFFFFFFFFFFFFFF"] by (simp add: zint_len_vle)
  ultimately show ?thesis
    using zint_roundtrip [of "demo_wbuf 10 False" demo_heap "0xFFFFFFFFFFFFFFFF" "()" "[1, 2]"] by (auto simp: demo_wbuf)
qed

text \<open>
  An encoding written to an empty buffer has the length that \<open>_z_encoding_len\<close> computes, is read back
  into a cleared variable, and is rejected when any of its bytes are missing.
\<close>

theorem encoding_roundtrip:
  assumes "length (enc_schema en) + 18 \<le> SIZE_MAX" "wb_fixed wbf" "wb_data wbf = []" "z_encoding_len en \<le> wb_space wbf"
  shows "\<exists>wbf' zbf. z_encoding_encode H wbf en h = Some (Z_OK, wbf', h) \<and> length (wb_data wbf') = z_encoding_len en \<and>
    z_encoding_decode encoding_null (z_slice_as_zbuf (wb_data wbf')) = Some (Inr en, zbf) \<and> zb_data zbf = [] \<and>
    (\<forall>n < z_encoding_len en. \<exists>zbf. z_encoding_decode encoding_null (z_slice_as_zbuf (take n (wb_data wbf'))) =
       Some (Inl Z_ERR_MESSAGE_DESERIALIZATION_FAILED, zbf))"
proof -
  have v: "encoding_valid en" using assms(1) by (simp add: encoding_valid_def)
  note l = encoding_len [OF assms(1)]
  have f: "length (encoding_wire en) \<le> wb_space wbf" using assms(4) by (simp add: l)
  obtain wbf' zbf where "z_encoding_encode H wbf en h = Some (Z_OK, wbf', h)" "wb_data wbf' = encoding_wire en"
    "z_encoding_decode encoding_null (z_slice_as_zbuf (wb_data wbf')) = Some (Inr en, zbf)" "zb_data zbf = []"
    using encodings.roundtrip [where H = H and h = h, OF v assms(2,3) f] by (elim exE conjE)
  then show ?thesis
    using encodings.truncated [OF v] by (intro exI [of _ wbf'] exI [of _ zbf]) (simp add: l)
qed

theorem encoding_roundtrip_witness:
  "\<exists>wbf' zbf. z_encoding_encode demo_heap (demo_wbuf 30 False) \<lparr>enc_id = 0xFFFF, enc_schema = [65, 66]\<rparr> () = Some (Z_OK, wbf', ()) \<and>
    z_encoding_decode encoding_null (z_slice_as_zbuf (wb_data wbf')) = Some (Inr \<lparr>enc_id = 0xFFFF, enc_schema = [65, 66]\<rparr>, zbf)"
proof -
  let ?en = "\<lparr>enc_id = 0xFFFF, enc_schema = [65, 66]\<rparr>"
  have s: "length (enc_schema ?en) + 18 \<le> SIZE_MAX" by (simp add: SIZE_MAX_def)
  have f: "wb_fixed (demo_wbuf 30 False)" by (simp add: wb_fixed_def demo_wbuf)
  have l: "z_encoding_len ?en \<le> wb_space (demo_wbuf 30 False)"
    using encoding_wire_bound [of ?en] by (simp add: encoding_len [OF s] demo_wbuf)
  show ?thesis using encoding_roundtrip [OF s f demo_wbuf(2) l, of demo_heap "()"] by blast
qed

text \<open>
  A value is written as its length and a body of exactly that length. From the body the decoder takes the
  encoding, and hands the rest, which is the payload, to the copy.
\<close>

theorem value_roundtrip:
  assumes "length (enc_schema (val_encoding v)) + length (concat (val_payload v)) + 18 \<le> SIZE_MAX"
    and "wb_fixed wbf" "wb_data wbf = []"
    and "length (enc_schema (val_encoding v)) + length (concat (val_payload v)) + 27 \<le> wb_space wbf"
  shows "\<exists>wbf' n body. z_value_encode H wbf v h = Some (Z_OK, wbf', h) \<and>
    z_zsize_decode (z_slice_as_zbuf (wb_data wbf')) = Some (Inr n, body) \<and> length (zb_data body) = n \<and>
    (\<exists>zbf. z_value_decode copy \<lparr>val_encoding = encoding_null, val_payload = []\<rparr> body = Some (case copy (concat (val_payload v)) of
       None \<Rightarrow> Inl Z_ERR_SYSTEM_OUT_OF_MEMORY | Some p \<Rightarrow> Inr (v\<lparr>val_payload := p\<rparr>), zbf))"
proof -
  have b: "length (value_wire v) \<le> length (enc_schema (val_encoding v)) + length (concat (val_payload v)) + 18"
    using encoding_wire_bound [of "val_encoding v"] by (simp add: value_wire_def del: length_concat)
  have "length (sized (value_wire v)) \<le> wb_space wbf"
    using vle_bound [of 8 "of_nat (length (value_wire v))"] b assms(4) by simp
  then obtain wbf' where w: "z_value_encode H wbf v h = Some (Z_OK, wbf', h)" "wb_data wbf' = sized (value_wire v)"
    using emits_fits [OF value_emits [OF assms(1)] assms(2), of H h] assms(3) by auto
  have "length (value_wire v) \<le> SIZE_MAX" using b assms(1) by linarith
  then have "\<exists>body. z_zsize_decode (z_slice_as_zbuf (sized (value_wire v))) = Some (Inr (length (value_wire v)), body) \<and>
      zb_ok body \<and> zb_data body = value_wire v"
    by (intro readsD(1) [OF zsize_reads]) simp_all
  then obtain body where body: "z_zsize_decode (z_slice_as_zbuf (wb_data wbf')) = Some (Inr (length (value_wire v)), body)"
    "zb_ok body" "zb_data body = value_wire v" unfolding w(2) by blast
  have "encoding_valid (val_encoding v)" using assms(1) by (simp add: encoding_valid_def)
  moreover have "enc_schema (val_encoding \<lparr>val_encoding = encoding_null, val_payload = []\<rparr>) = []" by (simp add: encoding_null_def)
  ultimately obtain zbf where "z_value_decode copy \<lparr>val_encoding = encoding_null, val_payload = []\<rparr> body =
      Some (case copy (concat (val_payload v)) of None \<Rightarrow> Inl Z_ERR_SYSTEM_OUT_OF_MEMORY | Some p \<Rightarrow> Inr (v\<lparr>val_payload := p\<rparr>), zbf)"
    using value_decode [of v "\<lparr>val_encoding = encoding_null, val_payload = []\<rparr>" body copy] body(2,3)
    by (cases v) (auto cong: option.case_cong)
  then show ?thesis using w(1) body(1,3) by (intro exI [of _ wbf'] exI [of _ "length (value_wire v)"] exI [of _ body]) auto
qed

theorem value_roundtrip_witness:
  "\<exists>wbf' n body zbf. z_value_encode demo_heap (demo_wbuf 40 False)
      \<lparr>val_encoding = \<lparr>enc_id = 3, enc_schema = []\<rparr>, val_payload = [[1, 2], [3]]\<rparr> () = Some (Z_OK, wbf', ()) \<and>
    z_zsize_decode (z_slice_as_zbuf (wb_data wbf')) = Some (Inr n, body) \<and>
    z_value_decode (\<lambda>d. Some [d]) \<lparr>val_encoding = encoding_null, val_payload = []\<rparr> body =
      Some (Inr \<lparr>val_encoding = \<lparr>enc_id = 3, enc_schema = []\<rparr>, val_payload = [[1, 2, 3]]\<rparr>, zbf)"
  using value_roundtrip [of "\<lparr>val_encoding = \<lparr>enc_id = 3, enc_schema = []\<rparr>, val_payload = [[1, 2], [3]]\<rparr>" "demo_wbuf 40 False"
      demo_heap "()" "\<lambda>d. Some [d]"] by (auto simp: wb_fixed_def demo_wbuf SIZE_MAX_def)

text \<open>
  No input makes the decoders of integers, strings, bytes, encodings and values read outside of the
  buffer or run forever: each returns a value or an error, and the buffer keeps a part of the end of the input.
\<close>

theorem decoders_stay_in_bounds:
  "(\<exists>r zbf. z_zint64_decode (z_slice_as_zbuf bs) = Some (r, zbf) \<and> suffix (zb_data zbf) bs) \<and>
   (\<exists>r zbf. z_string_decode (z_slice_as_zbuf bs) = Some (r, zbf) \<and> suffix (zb_data zbf) bs) \<and>
   (\<exists>r zbf. z_bytes_decode (z_slice_as_zbuf bs) = Some (r, zbf) \<and> suffix (zb_data zbf) bs) \<and>
   (\<exists>r zbf. z_encoding_decode en0 (z_slice_as_zbuf bs) = Some (r, zbf) \<and> suffix (zb_data zbf) bs) \<and>
   (\<exists>r zbf. z_value_decode copy v0 (z_slice_as_zbuf bs) = Some (r, zbf) \<and> suffix (zb_data zbf) bs)"
  by (intro conjI in_boundsD zint64_in_bounds string_in_bounds bytes_in_bounds encoding_in_bounds value_in_bounds)

text \<open>
  The two bytes that \<open>_z_uint16_encode\<close> writes are read back by \<open>_z_uint16_decode\<close> when the compiler
  evaluates its left operand first; when it starts with the right one the bytes come out exchanged.
\<close>

theorem uint16_order:
  assumes "wb_fixed wbf" "wb_data wbf = []" "2 \<le> wb_space wbf"
  shows "\<exists>wbf'. z_uint16_encode H wbf v h = Some (Z_OK, wbf', h) \<and>
    (\<exists>zbf. z_uint16_decode False (z_slice_as_zbuf (wb_data wbf')) = Some (Inr v, zbf)) \<and>
    (\<exists>zbf. z_uint16_decode True (z_slice_as_zbuf (wb_data wbf')) = Some (Inr (push_bit 8 v OR drop_bit 8 v), zbf))"
proof -
  obtain wbf' where w: "z_uint16_encode H wbf v h = Some (Z_OK, wbf', h)" "wb_data wbf' = u16_wire v"
    using emits_fits [OF uint16_emits assms(1)] assms(2,3) by fastforce
  let ?z = "z_slice_as_zbuf (u16_wire v)" and ?lo = "ucast v :: u8" and ?hi = "ucast (drop_bit 8 v) :: u8"
  have z: "zb_ok ?z" "zb_data ?z = ?lo # ?hi # []" by simp_all
  have "(ucast ?hi + push_bit 8 (ucast ?lo) :: u16) = ucast ?hi OR push_bit 8 (ucast ?lo)"
    by (rule disjunctive_add) (auto simp: bit_simps)
  also have "\<dots> = push_bit 8 v OR drop_bit 8 v"
    by (rule bit_word_eqI) (auto simp: bit_simps)
  finally show ?thesis
    using uint16_decode_two [OF z, of False] uint16_decode_two [OF z, of True] w
    by (auto simp: u16_join)
qed

theorem uint16_order_witness:
  "\<exists>wbf' zbf. z_uint16_encode demo_heap (demo_wbuf 4 False) 0x1234 () = Some (Z_OK, wbf', ()) \<and>
    z_uint16_decode True (z_slice_as_zbuf (wb_data wbf')) = Some (Inr 0x3412, zbf)"
  using uint16_order [of "demo_wbuf 4 False" demo_heap "0x1234" "()"] by (auto simp: wb_fixed_def demo_wbuf)

end
