(* ===== verification/ZExt.thy ===== *)
theory ZExt
  imports ZWireProps
begin

text \<open>
  Extensions of messages: \<open>protocol/ext.h\<close>, \<open>protocol/ext.c\<close> and \<open>protocol/codec/ext.c\<close>. The body is a union; the header says
  which of its members is meant, and reading another one is undefined here.
\<close>

section \<open>Definitions\<close>

datatype z_msg_ext_body = Ext_unit | Ext_zint u64 | Ext_zbuf bytes

record z_msg_ext =
  ext_header :: u8
  ext_body :: z_msg_ext_body

definition EXT_FULL_ID :: "u8 \<Rightarrow> u8" where "EXT_FULL_ID h = 0x7F AND h"
definition EXT_ENC :: "u8 \<Rightarrow> u8" where "EXT_ENC h = 0x60 AND h"
definition EXT_IS_MANDATORY :: "u8 \<Rightarrow> bool" where "EXT_IS_MANDATORY h \<longleftrightarrow> h AND 0x10 \<noteq> 0"
definition EXT_MORE :: "bool \<Rightarrow> u8" where "EXT_MORE has_more = (if has_more then 0x80 else 0)"

definition z_msg_ext_make_unit :: "u8 \<Rightarrow> z_msg_ext" where
  "z_msg_ext_make_unit i = \<lparr>ext_header = i AND 0x0F OR 0x00, ext_body = Ext_unit\<rparr>"

definition z_msg_ext_make_zint :: "u8 \<Rightarrow> u32 \<Rightarrow> z_msg_ext" where
  "z_msg_ext_make_zint i v = \<lparr>ext_header = i AND 0x0F OR 0x20, ext_body = Ext_zint (ucast v)\<rparr>"

definition z_msg_ext_make_zbuf :: "u8 \<Rightarrow> bytes \<Rightarrow> z_msg_ext" where
  "z_msg_ext_make_zbuf i s = \<lparr>ext_header = i AND 0x0F OR 0x40, ext_body = Ext_zbuf s\<rparr>"

definition z_msg_ext_encode_unit :: "z_wbuf \<Rightarrow> 'h \<Rightarrow> 'h encoded" where
  "z_msg_ext_encode_unit wbf h = Some (Z_OK, wbf, h)"

definition z_msg_ext_encode_zint :: "'h heap \<Rightarrow> z_wbuf \<Rightarrow> u64 \<Rightarrow> 'h \<Rightarrow> 'h encoded" where
  "z_msg_ext_encode_zint H wbf v h = if_ok (z_zint64_encode H wbf v h) (\<lambda>wbf h. Some (Z_OK, wbf, h))"

definition z_msg_ext_encode_zbuf :: "'h heap \<Rightarrow> z_wbuf \<Rightarrow> bytes \<Rightarrow> 'h \<Rightarrow> 'h encoded" where
  "z_msg_ext_encode_zbuf H wbf s h = if_ok (z_slice_encode H wbf s h) (\<lambda>wbf h. Some (Z_OK, wbf, h))"

definition body_encode :: "'h heap \<Rightarrow> z_wbuf \<Rightarrow> z_msg_ext \<Rightarrow> 'h \<Rightarrow> 'h encoded" where
  "body_encode H wbf ext h =
     (let enc = EXT_ENC (ext_header ext) in
      if enc = 0x00 then z_msg_ext_encode_unit wbf h
      else if enc = 0x20 then (case ext_body ext of Ext_zint v \<Rightarrow> z_msg_ext_encode_zint H wbf v h | _ \<Rightarrow> None)
      else if enc = 0x40 then (case ext_body ext of Ext_zbuf s \<Rightarrow> z_msg_ext_encode_zbuf H wbf s h | _ \<Rightarrow> None)
      else Some (Z_OK, wbf, h))"

text \<open>The result of the body is dropped.\<close>

definition z_msg_ext_encode :: "'h heap \<Rightarrow> z_wbuf \<Rightarrow> z_msg_ext \<Rightarrow> bool \<Rightarrow> 'h \<Rightarrow> 'h encoded" where
  "z_msg_ext_encode H wbf ext has_next h =
     if_ok (z_wbuf_write H wbf (EXT_FULL_ID (ext_header ext) OR EXT_MORE has_next) h) (\<lambda>wbf h. do {
       (_, wbf, h) \<leftarrow> body_encode H wbf ext h;
       Some (Z_OK, wbf, h) })"

text \<open>The last one is written after the loop, with the same argument.\<close>

fun z_msg_ext_vec_encode :: "'h heap \<Rightarrow> z_wbuf \<Rightarrow> z_msg_ext list \<Rightarrow> 'h \<Rightarrow> 'h encoded" where
  "z_msg_ext_vec_encode H wbf [] h = Some (Z_OK, wbf, h)"
| "z_msg_ext_vec_encode H wbf [ext] h = z_msg_ext_encode H wbf ext True h"
| "z_msg_ext_vec_encode H wbf (ext # exts) h =
     if_ok (z_msg_ext_encode H wbf ext True h) (\<lambda>wbf h. z_msg_ext_vec_encode H wbf exts h)"

definition z_msg_ext_unknown_body_decode :: "z_msg_ext_body \<Rightarrow> u8 \<Rightarrow> z_zbuf \<Rightarrow> z_msg_ext_body decoded" where
  "z_msg_ext_unknown_body_decode body enc zbf =
     (if enc = 0x00 then Some (Inr Ext_unit, zbf)
      else if enc = 0x20 then on_value (z_zint64_decode zbf) (\<lambda>v zbf. Some (Inr (Ext_zint v), zbf))
      else if enc = 0x40 then on_value (z_slice_decode zbf) (\<lambda>s zbf. Some (Inr (Ext_zbuf s), zbf))
      else Some (Inr body, zbf))"

text \<open>The extension and whether another one follows.\<close>

definition z_msg_ext_decode :: "z_msg_ext \<Rightarrow> z_zbuf \<Rightarrow> (z_msg_ext \<times> bool) decoded" where
  "z_msg_ext_decode ext zbf =
     on_value (z_uint8_decode zbf) (\<lambda>h zbf.
     on_value (z_msg_ext_unknown_body_decode (ext_body ext) (EXT_ENC h) zbf) (\<lambda>b zbf.
       Some (Inr (\<lparr>ext_header = h AND 0x7F, ext_body = b\<rparr>, h AND 0x80 \<noteq> 0), zbf)))"

text \<open>The callback works on a context \<open>'c\<close>; \<open>None\<close> is undefined behaviour in it.\<close>

type_synonym 'c ext_callback = "z_msg_ext \<Rightarrow> 'c \<Rightarrow> (z_res \<times> 'c) option"

partial_function (option) z_msg_ext_decode_iter :: "'c ext_callback \<Rightarrow> 'c \<Rightarrow> z_zbuf \<Rightarrow> 'c decoded" where
  "z_msg_ext_decode_iter callback c zbf = do {
     (r, zbf1) \<leftarrow> z_msg_ext_decode (z_msg_ext_make_unit 0) zbf;
     (case r of
        Inl e \<Rightarrow> Some (Inl e, zbf1)
      | Inr x \<Rightarrow> do {
          (ret, c1) \<leftarrow> callback (fst x) c;
          if ret \<noteq> Z_OK then Some (Inl ret, zbf1)
          else if snd x then z_msg_ext_decode_iter callback c1 zbf1
          else Some (Inr c1, zbf1) }) }"

definition z_msg_ext_unknown_error :: z_res where
  "z_msg_ext_unknown_error = Z_ERR_MESSAGE_EXTENSION_MANDATORY_AND_UNKNOWN"

definition z_msg_ext_skip_non_mandatory :: "unit ext_callback" where
  "z_msg_ext_skip_non_mandatory ext c =
     Some (if EXT_IS_MANDATORY (ext_header ext) then z_msg_ext_unknown_error else Z_OK, c)"

definition z_msg_ext_skip_non_mandatories :: "z_zbuf \<Rightarrow> unit decoded" where
  "z_msg_ext_skip_non_mandatories zbf = z_msg_ext_decode_iter z_msg_ext_skip_non_mandatory () zbf"

section \<open>What is on the wire\<close>

text \<open>Extensions whose body is the one that their header announces.\<close>

fun ext_valid :: "z_msg_ext \<Rightarrow> bool" where
  "ext_valid \<lparr>ext_header = h, ext_body = Ext_unit\<rparr> \<longleftrightarrow> h AND 0x80 = 0 \<and> EXT_ENC h = 0x00"
| "ext_valid \<lparr>ext_header = h, ext_body = Ext_zint v\<rparr> \<longleftrightarrow> h AND 0x80 = 0 \<and> EXT_ENC h = 0x20"
| "ext_valid \<lparr>ext_header = h, ext_body = Ext_zbuf s\<rparr> \<longleftrightarrow> h AND 0x80 = 0 \<and> EXT_ENC h = 0x40 \<and> length s \<le> SIZE_MAX"

fun body_wire :: "z_msg_ext_body \<Rightarrow> bytes" where
  "body_wire Ext_unit = []"
| "body_wire (Ext_zint v) = vle 8 v"
| "body_wire (Ext_zbuf s) = sized s"

definition ext_wire :: "z_msg_ext \<Rightarrow> bool \<Rightarrow> bytes" where
  "ext_wire ext has_more = (EXT_FULL_ID (ext_header ext) OR EXT_MORE has_more) # body_wire (ext_body ext)"

lemma ext_validE:
  assumes "ext_valid ext"
  obtains "ext_header ext AND 0x80 = 0" "EXT_ENC (ext_header ext) = 0x00" "ext_body ext = Ext_unit"
  | v where "ext_header ext AND 0x80 = 0" "EXT_ENC (ext_header ext) = 0x20" "ext_body ext = Ext_zint v"
  | s where "ext_header ext AND 0x80 = 0" "EXT_ENC (ext_header ext) = 0x40" "ext_body ext = Ext_zbuf s" "length s \<le> SIZE_MAX"
  using assms by (cases ext rule: ext_valid.cases) auto

lemma body_emits: "ext_valid ext \<Longrightarrow> emits (\<lambda>wbf. body_encode H wbf ext) (body_wire (ext_body ext))"
proof (erule ext_validE)
  assume "EXT_ENC (ext_header ext) = 0x00" "ext_body ext = Ext_unit"
  then show ?thesis by (simp add: body_encode_def [abs_def] z_msg_ext_encode_unit_def emits_nothing)
next
  fix v
  assume "EXT_ENC (ext_header ext) = 0x20" "ext_body ext = Ext_zint v"
  moreover have "emits (\<lambda>wbf. z_msg_ext_encode_zint H wbf v) (vle 8 v)"
    unfolding z_msg_ext_encode_zint_def [abs_def] using emits_seq [OF zint64_emits emits_nothing] by simp
  ultimately show ?thesis by (simp add: body_encode_def [abs_def])
next
  fix s
  assume "EXT_ENC (ext_header ext) = 0x40" "ext_body ext = Ext_zbuf s"
  moreover have "emits (\<lambda>wbf. z_msg_ext_encode_zbuf H wbf s) (sized s)"
    unfolding z_msg_ext_encode_zbuf_def [abs_def] using emits_seq [OF slice_emits emits_nothing] by simp
  ultimately show ?thesis by (simp add: body_encode_def [abs_def])
qed

text \<open>With room for all of it an extension is written; with room for its header only, it is reported as written.\<close>

lemma ext_encode_fits:
  assumes "ext_valid ext" "wb_fixed wbf" "length (ext_wire ext has_more) \<le> wb_space wbf"
  shows "\<exists>wbf'. z_msg_ext_encode H wbf ext has_more h = Some (Z_OK, wbf', h) \<and> wb_fixed wbf' \<and>
    wb_data wbf' = wb_data wbf @ ext_wire ext has_more \<and> wb_space wbf' = wb_space wbf - length (ext_wire ext has_more)"
proof -
  let ?b = "EXT_FULL_ID (ext_header ext) OR EXT_MORE has_more"
  obtain w1 where 1: "z_wbuf_write H wbf ?b h = Some (Z_OK, w1, h)" "wb_fixed w1" "wb_data w1 = wb_data wbf @ [?b]"
    "wb_space w1 = wb_space wbf - 1"
    using emits_fits [OF emits_byte assms(2), of ?b H h] assms(3) by (auto simp: ext_wire_def)
  have room: "length (body_wire (ext_body ext)) \<le> wb_space w1" using 1(4) assms(3) by (simp add: ext_wire_def)
  obtain w2 where "body_encode H w1 ext h = Some (Z_OK, w2, h)" "wb_fixed w2" "wb_data w2 = wb_data w1 @ body_wire (ext_body ext)"
    "wb_space w2 = wb_space w1 - length (body_wire (ext_body ext))"
    using emits_fits [OF body_emits [OF assms(1)] 1(2) room, of H h] by blast
  then show ?thesis using 1 by (simp add: z_msg_ext_encode_def if_ok_def ext_wire_def)
qed

lemma ext_encode_truncates:
  assumes "ext_valid ext" "wb_fixed wbf" "0 < wb_space wbf" "wb_space wbf < length (ext_wire ext has_more)"
  shows "\<exists>wbf' sent. z_msg_ext_encode H wbf ext has_more h = Some (Z_OK, wbf', h) \<and>
    wb_data wbf' = wb_data wbf @ sent \<and> strict_prefix sent (ext_wire ext has_more)"
proof -
  let ?b = "EXT_FULL_ID (ext_header ext) OR EXT_MORE has_more"
  obtain w1 where 1: "z_wbuf_write H wbf ?b h = Some (Z_OK, w1, h)" "wb_fixed w1" "wb_data w1 = wb_data wbf @ [?b]"
    "wb_space w1 = wb_space wbf - 1"
    using emits_fits [OF emits_byte assms(2), of ?b H h] assms(3) by auto
  have room: "wb_space w1 < length (body_wire (ext_body ext))" using 1(4) assms(3,4) by (simp add: ext_wire_def)
  obtain w2 sent where "body_encode H w1 ext h = Some (Z_ERR_TRANSPORT_NO_SPACE, w2, h)" "wb_data w2 = wb_data w1 @ sent"
    "strict_prefix sent (body_wire (ext_body ext))"
    using emits_full [OF body_emits [OF assms(1)] 1(2) room, of H h] by blast
  then show ?thesis using 1 by (simp add: z_msg_ext_encode_def if_ok_def ext_wire_def strict_prefix_def)
qed

lemma u8_eqI:
  fixes a b :: u8
  assumes "bit a 0 = bit b 0" "bit a 1 = bit b 1" "bit a 2 = bit b 2" "bit a 3 = bit b 3" "bit a 4 = bit b 4"
    "bit a 5 = bit b 5" "bit a 6 = bit b 6" "bit a 7 = bit b 7"
  shows "a = b"
proof (rule bit_word_eqI)
  fix n assume "n < LENGTH(8)"
  then have "n \<in> {0, 1, 2, 3, 4, 5, 6, 7}" by auto
  then show "bit a n = bit b n" using assms by auto
qed

lemma u8_flag [simp]:
  "(h :: u8) AND 0x80 = 0 \<longleftrightarrow> \<not> bit h 7" "(h :: u8) AND 0x40 = 0 \<longleftrightarrow> \<not> bit h 6" "(h :: u8) AND 0x20 = 0 \<longleftrightarrow> \<not> bit h 5"
  "(h :: u8) AND 0x10 = 0 \<longleftrightarrow> \<not> bit h 4"
proof -
  have f: "(h AND 2 ^ k = 0) = (\<not> bit h k)" for k by (rule and_exp_eq_0_iff_not_bit)
  show "h AND 0x80 = 0 \<longleftrightarrow> \<not> bit h 7" "h AND 0x40 = 0 \<longleftrightarrow> \<not> bit h 6" "h AND 0x20 = 0 \<longleftrightarrow> \<not> bit h 5" "h AND 0x10 = 0 \<longleftrightarrow> \<not> bit h 4"
    using f [of 7] f [of 6] f [of 5] f [of 4] by simp_all
qed

lemma ext_bits:
  assumes "(h :: u8) AND 0x80 = 0"
  shows "(EXT_FULL_ID h OR EXT_MORE has_more) AND 0x7F = h" "bit (EXT_FULL_ID h OR EXT_MORE has_more) 7 \<longleftrightarrow> has_more"
    "EXT_ENC (EXT_FULL_ID h OR EXT_MORE has_more) = EXT_ENC h"
  using assms by (auto simp: EXT_FULL_ID_def EXT_MORE_def EXT_ENC_def bit_simps intro!: u8_eqI)

lemma ext_reads:
  assumes "ext_valid ext"
  shows "reads (z_msg_ext_decode (z_msg_ext_make_unit 0)) (ext_wire ext has_more) (ext, has_more)"
proof -
  let ?h = "ext_header ext" and ?b = "EXT_FULL_ID (ext_header ext) OR EXT_MORE has_more"
  have h: "?h AND 0x80 = 0" using assms by (elim ext_validE) auto
  have body: "reads (\<lambda>zbf. z_msg_ext_unknown_body_decode (ext_body (z_msg_ext_make_unit 0)) (EXT_ENC ?b) zbf)
      (body_wire (ext_body ext)) (ext_body ext)"
    using assms
  proof (cases rule: ext_validE)
    case 1
    then show ?thesis by (simp add: z_msg_ext_unknown_body_decode_def [abs_def] ext_bits(3) [OF h] reads_nothing)
  next
    case (2 v)
    then show ?thesis by (simp add: z_msg_ext_unknown_body_decode_def [abs_def] ext_bits(3) [OF h] reads_then [OF zint64_reads])
  next
    case (3 s)
    then show ?thesis by (simp add: z_msg_ext_unknown_body_decode_def [abs_def] ext_bits(3) [OF h] reads_then [OF slice_reads])
  qed
  have e: "\<lparr>ext_header = ?b AND 0x7F, ext_body = ext_body ext\<rparr> = ext" using ext_bits(1) [OF h, of has_more] by simp
  let ?f = "\<lambda>h zbf. on_value (z_msg_ext_unknown_body_decode (ext_body (z_msg_ext_make_unit 0)) (EXT_ENC h) zbf) (\<lambda>b zbf.
       Some (Inr (\<lparr>ext_header = h AND 0x7F, ext_body = b\<rparr>, h AND 0x80 \<noteq> 0), zbf))"
  have "reads (?f ?b) (body_wire (ext_body ext)) (ext, has_more)"
    by (rule reads_then [OF body]) (simp add: e ext_bits(2) [OF h])
  from reads_seq [where f = ?f, OF uint8_reads this] show ?thesis
    by (simp add: z_msg_ext_decode_def [abs_def] ext_wire_def)
qed

lemma body_in_bounds: "in_bounds (\<lambda>zbf. z_msg_ext_unknown_body_decode body enc zbf)"
  unfolding z_msg_ext_unknown_body_decode_def [abs_def]
  by (intro in_bounds_if in_bounds_value in_bounds_seq zint64_in_bounds slice_in_bounds)

lemma ext_in_bounds [bounds_intros]: "in_bounds (z_msg_ext_decode ext)"
  unfolding z_msg_ext_decode_def [abs_def] by (intro in_bounds_seq uint8_in_bounds body_in_bounds in_bounds_value)

text \<open>A decoded extension has used up its header at least, so the iteration ends.\<close>

lemma ext_consumes:
  assumes "zb_ok zbf" "z_msg_ext_decode ext zbf = Some (Inr x, zbf')"
  shows "length (zb_data zbf') < length (zb_data zbf)"
proof (cases "zb_data zbf")
  case Nil
  then show ?thesis using assms by (simp add: z_msg_ext_decode_def z_uint8_decode_def fail_decode_def on_value_def)
next
  case (Cons b d)
  obtain z1 where z1: "z_uint8_decode zbf = Some (Inr b, z1)" "zb_ok z1" "zb_data z1 = d"
    using zb_read [OF assms(1) Cons] assms(1) Cons by (auto simp: z_uint8_decode_def)
  obtain r z2 where z2: "z_msg_ext_unknown_body_decode (ext_body ext) (EXT_ENC b) z1 = Some (r, z2)" "suffix (zb_data z2) (zb_data z1)"
    using body_in_bounds z1(2) unfolding in_bounds_def by blast
  then have "zb_data zbf' = zb_data z2"
    using assms(2) z1 by (auto simp: z_msg_ext_decode_def on_value_def split: sum.splits)
  then show ?thesis using z2(2) z1(3) Cons suffix_length_le by fastforce
qed

lemma iter_in_bounds:
  assumes cb: "\<And>ext c. kind ext \<Longrightarrow> callback ext c \<noteq> None"
    and k: "\<And>zbf x z1. z_msg_ext_decode (z_msg_ext_make_unit 0) zbf = Some (Inr x, z1) \<Longrightarrow> kind (fst x)"
  shows "in_bounds (z_msg_ext_decode_iter callback c)"
  unfolding in_bounds_def
proof (intro allI impI)
  fix zbf
  assume "zb_ok zbf"
  then show "\<exists>r zbf'. z_msg_ext_decode_iter callback c zbf = Some (r, zbf') \<and> zb_ok zbf' \<and> suffix (zb_data zbf') (zb_data zbf)"
  proof (induction "length (zb_data zbf)" arbitrary: c zbf rule: less_induct)
    case less
    obtain r z1 where d: "z_msg_ext_decode (z_msg_ext_make_unit 0) zbf = Some (r, z1)" "zb_ok z1" "suffix (zb_data z1) (zb_data zbf)"
      using ext_in_bounds less.prems unfolding in_bounds_def by blast
    show ?case
    proof (cases r)
      case (Inl e)
      then show ?thesis using d by (simp add: z_msg_ext_decode_iter.simps [of callback c zbf])
    next
      case (Inr x)
      obtain ret c1 where c: "callback (fst x) c = Some (ret, c1)"
        using cb [OF k [OF d(1) [unfolded Inr]]] by fastforce
      have l: "length (zb_data z1) < length (zb_data zbf)" using ext_consumes [OF less.prems] d(1) Inr by blast
      obtain r2 z2 where "z_msg_ext_decode_iter callback c1 z1 = Some (r2, z2)" "zb_ok z2" "suffix (zb_data z2) (zb_data z1)"
        using less.hyps [OF l d(2)] by blast
      then show ?thesis using d Inr c
        by (auto simp: z_msg_ext_decode_iter.simps [of callback c zbf] intro: suffix_order.trans)
    qed
  qed
qed

text \<open>What the decoder hands to the callback: a body of the kind that the header announces.\<close>

definition ext_kind :: "z_msg_ext \<Rightarrow> bool" where
  "ext_kind ext \<longleftrightarrow> (EXT_ENC (ext_header ext) = 0x20 \<longrightarrow> (\<exists>v. ext_body ext = Ext_zint v)) \<and>
     (EXT_ENC (ext_header ext) = 0x40 \<longrightarrow> (\<exists>s. ext_body ext = Ext_zbuf s))"

lemma low_enc: "EXT_ENC (h AND 0x7F) = EXT_ENC h"
  by (auto simp: EXT_ENC_def bit_simps intro!: u8_eqI)

lemma on_value_Inr: "on_value m f = Some (Inr y, z) \<longleftrightarrow> (\<exists>x z1. m = Some (Inr x, z1) \<and> f x z1 = Some (Inr y, z))"
proof (cases m)
  case (Some rz)
  then show ?thesis by (cases rz; cases "fst rz") (auto simp: on_value_def)
qed (simp add: on_value_def)

lemma decode_kind:
  assumes "z_msg_ext_decode ext zbf = Some (Inr x, z1)"
  shows "ext_kind (fst x)"
  using assms
  by (auto simp: z_msg_ext_decode_def on_value_Inr z_msg_ext_unknown_body_decode_def ext_kind_def low_enc split: if_splits)

lemma iter_kind_in_bounds [bounds_intros]:
  assumes "\<And>ext c. ext_kind ext \<Longrightarrow> callback ext c \<noteq> None"
  shows "in_bounds (z_msg_ext_decode_iter callback c)"
  by (rule iter_in_bounds [where kind = ext_kind, OF assms decode_kind])

lemma skip_in_bounds [bounds_intros]: "in_bounds z_msg_ext_skip_non_mandatories"
  unfolding z_msg_ext_skip_non_mandatories_def [abs_def]
  by (rule iter_kind_in_bounds) (simp add: z_msg_ext_skip_non_mandatory_def)

text \<open>One extension, the last one.\<close>

lemma iter_reads_one:
  assumes "ext_valid ext" "callback ext c = Some (Z_OK, c1)"
  shows "reads (z_msg_ext_decode_iter callback c) (ext_wire ext False) c1"
proof -
  have i: "z_msg_ext_decode_iter callback c zbf = on_value (z_msg_ext_decode (z_msg_ext_make_unit 0) zbf) (\<lambda>x zbf1. do {
          (ret, c1) \<leftarrow> callback (fst x) c;
          if ret \<noteq> Z_OK then Some (Inl ret, zbf1)
          else if snd x then z_msg_ext_decode_iter callback c1 zbf1
          else Some (Inr c1, zbf1) })" for zbf
    by (simp add: z_msg_ext_decode_iter.simps [of callback c zbf] on_value_def)
  show ?thesis unfolding i [abs_def]
    by (rule reads_then [OF ext_reads [OF assms(1)]]) (simp add: assms(2))
qed

lemma iter_reads_more:
  assumes "ext_valid ext" "callback ext c = Some (Z_OK, c1)" "reads (z_msg_ext_decode_iter callback c1) w c2"
  shows "reads (z_msg_ext_decode_iter callback c) (ext_wire ext True @ w) c2"
proof -
  let ?f = "\<lambda>x zbf1. do {
          (ret, c1) \<leftarrow> callback (fst x) c;
          if ret \<noteq> Z_OK then Some (Inl ret, zbf1)
          else if snd x then z_msg_ext_decode_iter callback c1 zbf1
          else Some (Inr c1, zbf1) }"
  have i: "z_msg_ext_decode_iter callback c zbf = on_value (z_msg_ext_decode (z_msg_ext_make_unit 0) zbf) ?f" for zbf
    by (simp add: z_msg_ext_decode_iter.simps [of callback c zbf] on_value_def)
  have "reads (?f (ext, True)) w c2" using assms(2,3) by simp
  from reads_seq [where f = ?f, OF ext_reads [OF assms(1)] this] show ?thesis unfolding i [abs_def] .
qed

lemma iter_fails:
  assumes "\<And>ext c. callback ext c = Some (Z_OK, g ext c)" "exts \<noteq> []" "\<forall>ext \<in> set exts. ext_valid ext"
    and "zb_ok zbf" "zb_data zbf = concat (map (\<lambda>ext. ext_wire ext True) exts)"
  shows "\<exists>zbf'. z_msg_ext_decode_iter callback c zbf = Some (Inl Z_ERR_MESSAGE_DESERIALIZATION_FAILED, zbf')"
  using assms(2-)
proof (induction exts arbitrary: c zbf)
  case (Cons ext exts)
  obtain z1 where z1: "z_msg_ext_decode (z_msg_ext_make_unit 0) zbf = Some (Inr (ext, True), z1)" "zb_ok z1"
    "zb_data z1 = concat (map (\<lambda>ext. ext_wire ext True) exts)"
    using readsD(1) [OF ext_reads [where has_more = True] Cons.prems(3), of ext] Cons.prems(2,4) by auto
  have i: "z_msg_ext_decode_iter callback c zbf = z_msg_ext_decode_iter callback (g ext c) z1"
    using z1(1) assms(1) by (simp add: z_msg_ext_decode_iter.simps [of callback c zbf])
  show ?case
  proof (cases "exts = []")
    case True
    then have "z_msg_ext_decode (z_msg_ext_make_unit 0) z1 = fail_decode z1"
      using z1(2,3) by (simp add: z_msg_ext_decode_def z_uint8_decode_def fail_decode_def on_value_def)
    then show ?thesis unfolding i by (simp add: z_msg_ext_decode_iter.simps [of callback "g ext c" z1] fail_decode_def)
  next
    case False
    then show ?thesis unfolding i using Cons.IH [OF False _ z1(2,3)] Cons.prems(2) by simp
  qed
qed simp

lemma vec_encode_fits:
  assumes "\<forall>ext \<in> set exts. ext_valid ext" "wb_fixed wbf" "length (concat (map (\<lambda>ext. ext_wire ext True) exts)) \<le> wb_space wbf"
  shows "\<exists>wbf'. z_msg_ext_vec_encode H wbf exts h = Some (Z_OK, wbf', h) \<and> wb_fixed wbf' \<and>
    wb_data wbf' = wb_data wbf @ concat (map (\<lambda>ext. ext_wire ext True) exts)"
  using assms
proof (induction H wbf exts h rule: z_msg_ext_vec_encode.induct)
  case (3 H wbf ext e es h)
  have "length (ext_wire ext True) \<le> wb_space wbf" using 3(4) by simp
  then obtain w1 where 1: "z_msg_ext_encode H wbf ext True h = Some (Z_OK, w1, h)" "wb_fixed w1" "wb_data w1 = wb_data wbf @ ext_wire ext True"
    "wb_space w1 = wb_space wbf - length (ext_wire ext True)"
    using ext_encode_fits [of ext wbf True H h] 3(2,3) by auto
  have "length (concat (map (\<lambda>ext. ext_wire ext True) (e # es))) \<le> wb_space w1" using 1(4) 3(4) by simp
  with 3(1) [of w1 h] 1 3(2) show ?case by (auto simp: if_ok_def)
qed (use ext_encode_fits in fastforce)+

section \<open>Properties\<close>

text \<open>
  A vector of extensions is announced as never ending: each one, the last one included, says that another one
  follows. What \<open>_z_msg_ext_vec_encode\<close> writes therefore fails to decode, whatever the callback, unless it is empty.
\<close>

theorem ext_vec_never_ends:
  assumes "exts \<noteq> []" "\<forall>ext \<in> set exts. ext_valid ext" "\<And>ext c. callback ext c = Some (Z_OK, g ext c)"
    and "wb_fixed wbf" "wb_data wbf = []" "length (concat (map (\<lambda>ext. ext_wire ext True) exts)) \<le> wb_space wbf"
  shows "\<exists>wbf' zbf. z_msg_ext_vec_encode H wbf exts h = Some (Z_OK, wbf', h) \<and>
    z_msg_ext_decode_iter callback c (z_slice_as_zbuf (wb_data wbf')) = Some (Inl Z_ERR_MESSAGE_DESERIALIZATION_FAILED, zbf)"
proof -
  let ?w = "concat (map (\<lambda>ext. ext_wire ext True) exts)"
  obtain wbf' where "z_msg_ext_vec_encode H wbf exts h = Some (Z_OK, wbf', h)" "wb_data wbf' = ?w"
    using vec_encode_fits [OF assms(2,4,6), of H h] assms(5) by auto
  then show ?thesis using iter_fails [of callback g exts "z_slice_as_zbuf ?w" c, OF assms(3,1,2)] by auto
qed

theorem ext_vec_never_ends_witness:
  "\<exists>wbf' zbf. z_msg_ext_vec_encode demo_heap (demo_wbuf 9 False) [\<lparr>ext_header = 0x02, ext_body = Ext_unit\<rparr>] () = Some (Z_OK, wbf', ()) \<and>
    z_msg_ext_decode_iter (\<lambda>ext n. Some (Z_OK, Suc n)) 0 (z_slice_as_zbuf (wb_data wbf')) =
      Some (Inl Z_ERR_MESSAGE_DESERIALIZATION_FAILED, zbf)"
  using ext_vec_never_ends [of "[\<lparr>ext_header = 0x02, ext_body = Ext_unit\<rparr>]" "\<lambda>ext n. Some (Z_OK, Suc n)" "\<lambda>ext n. Suc n" "demo_wbuf 9 False"
      demo_heap "()" 0]
  by (simp add: EXT_ENC_def ext_wire_def wb_fixed_def demo_wbuf)

text \<open>
  An extension of which only a part fits the buffer is reported as written: \<open>_z_msg_ext_encode\<close>
  drops the result of the encoder of the body.
\<close>

theorem ext_truncated_silently:
  assumes "ext_valid ext" "wb_fixed wbf" "0 < wb_space wbf"
  shows "\<exists>wbf' sent. z_msg_ext_encode H wbf ext has_more h = Some (Z_OK, wbf', h) \<and>
    wb_data wbf' = wb_data wbf @ sent \<and> prefix sent (ext_wire ext has_more) \<and>
    (sent = ext_wire ext has_more \<longleftrightarrow> length (ext_wire ext has_more) \<le> wb_space wbf)"
proof (cases "length (ext_wire ext has_more) \<le> wb_space wbf")
  case True
  then show ?thesis using ext_encode_fits [OF assms(1,2) True, of H h] by auto
next
  case False
  then obtain wbf' sent where "z_msg_ext_encode H wbf ext has_more h = Some (Z_OK, wbf', h)" "wb_data wbf' = wb_data wbf @ sent"
    "strict_prefix sent (ext_wire ext has_more)"
    using ext_encode_truncates [OF assms, of has_more H h] by auto
  then show ?thesis using False by (intro exI [of _ wbf'] exI [of _ sent]) (simp add: strict_prefix_def)
qed

theorem ext_truncated_silently_witness:
  "\<exists>wbf' sent. z_msg_ext_encode demo_heap (demo_wbuf 1 False) \<lparr>ext_header = 0x27, ext_body = Ext_zint 1\<rparr> False () = Some (Z_OK, wbf', ()) \<and>
    wb_data wbf' = sent \<and> sent \<noteq> ext_wire \<lparr>ext_header = 0x27, ext_body = Ext_zint 1\<rparr> False"
  using ext_truncated_silently [of "\<lparr>ext_header = 0x27, ext_body = Ext_zint 1\<rparr>" "demo_wbuf 1 False" demo_heap False "()"]
  by (auto simp: EXT_ENC_def wb_fixed_def demo_wbuf ext_wire_def vle_8)

text \<open>
  C32: on every input and for every callback that is defined on what it can be given, the iteration over the
  extensions ends, inside the buffer.
\<close>

theorem ext_iter_ends:
  assumes "\<And>ext c. ext_kind ext \<Longrightarrow> callback ext c \<noteq> None"
  shows "\<exists>r zbf. z_msg_ext_decode_iter callback c (z_slice_as_zbuf bs) = Some (r, zbf) \<and> suffix (zb_data zbf) bs"
proof -
  have "in_bounds (z_msg_ext_decode_iter callback c)" by (rule iter_kind_in_bounds) (rule assms)
  then show ?thesis by (rule in_boundsD)
qed

theorem ext_iter_ends_witness:
  "\<exists>r zbf. z_msg_ext_decode_iter (\<lambda>ext n. Some (Z_OK, Suc n)) (0 :: nat) (z_slice_as_zbuf [0x82, 1, 2]) = Some (r, zbf) \<and>
    suffix (zb_data zbf) [0x82, 1, 2]"
  by (rule ext_iter_ends) simp

end
