(* ===== verification/ZSn.thy ===== *)
theory ZSn
  imports ZBase
begin

text \<open>
  The sequence numbers of the transports, \<open>transport/utils.c\<close>. \<open>_z_zint_t\<close> is \<open>size_t\<close>, 32 bits on the
  controller. The resolution is a mask; a number precedes those of the half circle in front of it.
\<close>

section \<open>The functions\<close>

definition z_sn_max :: "u8 \<Rightarrow> u32" where
  "z_sn_max bits =
     (if bits = 0 then drop_bit 1 0xFF else if bits = 1 then drop_bit 2 0xFFFF
      else if bits = 2 then drop_bit 4 0xFFFFFFFF else if bits = 3 then ucast (drop_bit 1 (0xFFFFFFFFFFFFFFFF :: u64))
      else 0)"

definition z_sn_half :: "u32 \<Rightarrow> u32" where "z_sn_half sn = drop_bit 1 sn"

definition z_sn_modulo_mask :: "u8 \<Rightarrow> u32" where
  "z_sn_modulo_mask bits =
     (if bits = 0 then drop_bit 1 0xFF else if bits = 1 then drop_bit 2 0xFFFF
      else if bits = 2 then drop_bit 4 0xFFFFFFFF else if bits = 3 then ucast (drop_bit 1 (0xFFFFFFFFFFFFFFFF :: u64))
      else 0)"

definition z_sn_precedes :: "u32 \<Rightarrow> u32 \<Rightarrow> u32 \<Rightarrow> bool" where
  "z_sn_precedes res left right =
     (let distance = (right - left) AND res in distance \<le> z_sn_half res \<and> distance \<noteq> 0)"

definition z_sn_consecutive :: "u32 \<Rightarrow> u32 \<Rightarrow> u32 \<Rightarrow> bool" where
  "z_sn_consecutive res left right = (let distance = (right - left) AND res in distance = 1)"

definition z_sn_increment :: "u32 \<Rightarrow> u32 \<Rightarrow> u32" where
  "z_sn_increment res sn = (sn + 1) AND res"

definition z_sn_decrement :: "u32 \<Rightarrow> u32 \<Rightarrow> u32" where
  "z_sn_decrement res sn = (sn - 1) AND res"

text \<open>A list of numbers, plain or for each of the eight priorities.\<close>

record z_conduit_sn =
  sn_reliable :: u32
  sn_best_effort :: u32

datatype z_conduit_sn_list = Plain_sn z_conduit_sn | Qos_sn "z_conduit_sn list"

abbreviation (input) Z_PRIORITIES_NUM :: nat where "Z_PRIORITIES_NUM \<equiv> 8"

text \<open>The copy takes over the kind of the source, and its numbers.\<close>

definition z_conduit_sn_list_copy :: "z_conduit_sn_list \<Rightarrow> z_conduit_sn_list \<Rightarrow> z_conduit_sn_list" where
  "z_conduit_sn_list_copy dst src =
     (case src of
        Plain_sn s \<Rightarrow> Plain_sn \<lparr>sn_reliable = sn_reliable s, sn_best_effort = sn_best_effort s\<rparr>
      | Qos_sn ss \<Rightarrow> Qos_sn (map (\<lambda>s. \<lparr>sn_reliable = sn_reliable s, sn_best_effort = sn_best_effort s\<rparr>) (take Z_PRIORITIES_NUM ss)))"

text \<open>The second assignment of the loop goes to \<open>_best_effort\<close>, too.\<close>

definition z_conduit_sn_list_decrement :: "u32 \<Rightarrow> z_conduit_sn_list \<Rightarrow> z_conduit_sn_list" where
  "z_conduit_sn_list_decrement res sns =
     (case sns of
        Plain_sn s \<Rightarrow> Plain_sn (s\<lparr>sn_best_effort := z_sn_decrement res (sn_best_effort s),
          sn_reliable := z_sn_decrement res (sn_reliable s)\<rparr>)
      | Qos_sn ss \<Rightarrow> Qos_sn (map (\<lambda>s.
          let s1 = s\<lparr>sn_best_effort := z_sn_decrement res (sn_best_effort s)\<rparr>
          in s1\<lparr>sn_best_effort := z_sn_decrement res (sn_reliable s1)\<rparr>) ss))"

section \<open>Distances\<close>

text \<open>The resolutions, \<open>2 ^ k - 1\<close>, as the code has them on this controller.\<close>

definition sn_bits :: "u8 \<Rightarrow> nat" where
  "sn_bits b = (if b = 0 then 7 else if b = 1 then 14 else if b = 2 then 28 else 32)"

lemma sn_max_mask: "b < 4 \<Longrightarrow> z_sn_max b = mask (sn_bits b)"
proof -
  assume "b < 4"
  then have "unat b < 4" by (simp add: word_less_nat_alt)
  then have "unat b = 0 \<or> unat b = 1 \<or> unat b = 2 \<or> unat b = 3" by arith
  then have "b = 0 \<or> b = 1 \<or> b = 2 \<or> b = 3" by (simp add: word_unat_eq_iff)
  then show ?thesis by (auto simp: z_sn_max_def sn_bits_def mask_eq_exp_minus_1)
qed

lemma sn_bits_range: "2 \<le> sn_bits b \<and> sn_bits b \<le> 32"
  by (simp add: sn_bits_def)

definition sn_dist :: "nat \<Rightarrow> u32 \<Rightarrow> u32 \<Rightarrow> nat" where
  "sn_dist k a b = unat (b - a) mod 2 ^ k"

lemma unat_and_mask: "k \<le> 32 \<Longrightarrow> unat (x AND mask k :: u32) = unat x mod 2 ^ k"
  unfolding take_bit_eq_mask [symmetric] unsigned_take_bit_eq by (simp only: take_bit_eq_mod)

lemma unat_half_mask: "1 \<le> k \<Longrightarrow> k \<le> 32 \<Longrightarrow> unat (z_sn_half (mask k)) = 2 ^ (k - 1) - 1"
proof -
  assume k: "1 \<le> k" "k \<le> 32"
  have "z_sn_half (mask k) = mask (k - 1)"
    by (rule bit_word_eqI) (use k in \<open>auto simp: z_sn_half_def bit_simps\<close>)
  moreover have "uint (mask (k - 1) :: u32) = 2 ^ (k - 1) - 1"
    unfolding uint_mask_eq using k by (simp add: mask_eq_exp_minus_1 min_absorb2)
  ultimately show ?thesis by (simp add: unat_eq_nat_uint nat_diff_distrib nat_power_eq)
qed

lemma word_1_iff: "x = 1 \<longleftrightarrow> unat x = 1" for x :: u32
  by (metis unat_1 unsigned_word_eqI)

lemma precedes_dist:
  assumes "1 \<le> k" "k \<le> 32"
  shows "z_sn_precedes (mask k) a b \<longleftrightarrow> 0 < sn_dist k a b \<and> sn_dist k a b < 2 ^ (k - 1)"
proof -
  have "0 < (2 :: nat) ^ (k - 1)" by simp
  moreover have "(b - a) AND mask k \<noteq> 0 \<longleftrightarrow> unat ((b - a) AND mask k) \<noteq> 0" by (simp add: unat_eq_0)
  ultimately show ?thesis
    by (simp only: z_sn_precedes_def Let_def word_le_nat_alt unat_half_mask [OF assms] unat_and_mask [OF assms(2)] sn_dist_def) linarith
qed

lemma consecutive_dist: "1 \<le> k \<Longrightarrow> k \<le> 32 \<Longrightarrow> z_sn_consecutive (mask k) a b \<longleftrightarrow> sn_dist k a b = 1"
  by (simp only: z_sn_consecutive_def Let_def word_1_iff unat_and_mask sn_dist_def)

lemma dist_self [simp]: "sn_dist k a a = 0"
  by (simp add: sn_dist_def)

lemma dist_less: "sn_dist k a b < 2 ^ k"
  by (simp add: sn_dist_def)

lemma dist_back:
  assumes "k \<le> 32"
  shows "sn_dist k a b = 0 \<and> sn_dist k b a = 0 \<or> sn_dist k a b + sn_dist k b a = 2 ^ k"
proof -
  have "unat (b - a) + unat (a - b) = 0 \<or> unat (b - a) + unat (a - b) = 2 ^ 32"
    using word_uint_le_max [of a] word_uint_le_max [of b] by (auto simp: unat_sub_if_size word_size)
  then have "2 ^ k dvd unat (b - a) + unat (a - b)" using le_imp_power_dvd [OF assms, of "2 :: nat"] by (elim disjE) (simp_all only: dvd_0_right)
  then have "(sn_dist k a b + sn_dist k b a) mod 2 ^ k = 0" by (simp add: sn_dist_def mod_add_eq)
  moreover have "sn_dist k a b + sn_dist k b a < 2 * 2 ^ k" using dist_less [of k a b] dist_less [of k b a] by simp
  ultimately obtain q where q: "sn_dist k a b + sn_dist k b a = 2 ^ k * q" "q < 2" by (auto elim!: dvdE simp flip: dvd_eq_mod_eq_0)
  then show ?thesis by (cases "q = 0") (auto simp: less_2_cases_iff)
qed

lemma int_dist: "k \<le> 32 \<Longrightarrow> int (sn_dist k a b) = (uint b - uint a) mod 2 ^ k"
proof -
  assume k: "k \<le> 32"
  have "int (sn_dist k a b) = uint (b - a) mod 2 ^ k" by (simp add: sn_dist_def zmod_int)
  also have "uint (b - a) = (uint b - uint a) mod 2 ^ 32" by (simp add: uint_word_ariths)
  also have "\<dots> mod 2 ^ k = (uint b - uint a) mod 2 ^ k" using le_imp_power_dvd [OF k, of "2 :: int"] by (rule mod_mod_cancel)
  finally show ?thesis .
qed

lemma dist_mask: "k \<le> 32 \<Longrightarrow> sn_dist k a (b AND mask k) = sn_dist k a b"
proof -
  assume k: "k \<le> 32"
  have "uint (b AND mask k) = uint b mod 2 ^ k" unfolding take_bit_eq_mask [symmetric] unsigned_take_bit_eq by (simp only: take_bit_eq_mod)
  then have "int (sn_dist k a (b AND mask k)) = int (sn_dist k a b)" by (simp add: int_dist [OF k] mod_diff_left_eq)
  then show ?thesis by simp
qed

lemma dist_add: "k \<le> 32 \<Longrightarrow> sn_dist k a (a + of_nat n) = n mod 2 ^ k"
proof -
  assume k: "k \<le> 32"
  have "unat (of_nat n :: u32) mod 2 ^ k = n mod 2 ^ 32 mod 2 ^ k" by (simp add: unat_of_nat)
  also have "\<dots> = n mod 2 ^ k" using le_imp_power_dvd [OF k, of "2 :: nat"] by (rule mod_mod_cancel)
  finally show ?thesis by (simp add: sn_dist_def)
qed

lemma mask_add: "k \<le> 32 \<Longrightarrow> ((x AND mask k) + 1) AND mask k = (x + 1 :: u32) AND mask k"
proof -
  assume k: "k \<le> 32"
  have m: "n mod 2 ^ 32 mod 2 ^ k = n mod 2 ^ k" for n :: nat
    using le_imp_power_dvd [OF k, of "2 :: nat"] by (rule mod_mod_cancel)
  have u: "unat (y + 1) mod 2 ^ k = (unat y + 1) mod 2 ^ k" for y :: u32 using m by (simp add: unat_word_ariths)
  have "unat (((x AND mask k) + 1) AND mask k) = unat ((x + 1) AND mask k)"
    unfolding unat_and_mask [OF k] u by (simp add: mod_simps)
  then show ?thesis by (simp only: word_unat_eq_iff)
qed

lemma increments: "k \<le> 32 \<Longrightarrow> (z_sn_increment (mask k) ^^ Suc n) a = (a + of_nat (Suc n)) AND mask k"
proof (induction n)
  case (Suc n)
  have "(z_sn_increment (mask k) ^^ Suc (Suc n)) a = z_sn_increment (mask k) ((z_sn_increment (mask k) ^^ Suc n) a)" by simp
  also have "\<dots> = (a + of_nat (Suc n) + 1) AND mask k" unfolding Suc.IH [OF Suc.prems] z_sn_increment_def mask_add [OF Suc.prems] ..
  also have "a + of_nat (Suc n) + 1 = a + of_nat (Suc (Suc n))" by simp
  finally show ?case .
qed (simp add: z_sn_increment_def)

lemma dist_increments: "k \<le> 32 \<Longrightarrow> sn_dist k a ((z_sn_increment (mask k) ^^ n) a) = n mod 2 ^ k"
proof (cases n)
  case (Suc m)
  assume k: "k \<le> 32"
  show ?thesis unfolding Suc increments [OF k] by (simp only: dist_mask [OF k] dist_add [OF k])
qed simp

section \<open>Properties\<close>

text \<open>
  For every resolution of the protocol \<open>_z_sn_precedes\<close> is a strict order on half of the circle: of two numbers
  exactly one precedes the other, unless they are the same or opposite.
\<close>

theorem sn_precedes_order:
  assumes "bits < 4"
  shows "\<not> z_sn_precedes (z_sn_max bits) a a \<and>
    \<not> (z_sn_precedes (z_sn_max bits) a b \<and> z_sn_precedes (z_sn_max bits) b a) \<and>
    (z_sn_precedes (z_sn_max bits) a b \<or> z_sn_precedes (z_sn_max bits) b a \<longleftrightarrow>
      sn_dist (sn_bits bits) a b \<notin> {0, 2 ^ (sn_bits bits - 1)})"
proof -
  let ?k = "sn_bits bits"
  have k: "1 \<le> ?k" "?k \<le> 32" using sn_bits_range [of bits] by simp_all
  have p: "(2 :: nat) ^ ?k = 2 * 2 ^ (?k - 1)" using k by (simp flip: power_Suc)
  show ?thesis
    unfolding sn_max_mask [OF assms] precedes_dist [OF k] using dist_back [OF k(2), of a b] dist_less [of ?k a b] p by auto
qed

theorem sn_precedes_order_witness:
  "z_sn_precedes (z_sn_max 2) 0xFFFFFFF 3 \<and> \<not> z_sn_precedes (z_sn_max 2) 3 0xFFFFFFF"
proof -
  have "z_sn_precedes (z_sn_max 2) 0xFFFFFFF 3" by (simp add: z_sn_precedes_def z_sn_max_def z_sn_half_def)
  then show ?thesis using sn_precedes_order [of 2 "0xFFFFFFF" 3] by simp
qed

text \<open>
  C35: a number precedes the next \<open>2 ^ (k - 1) - 1\<close> ones and is consecutive with the first of them only; counting
  comes round after \<open>2 ^ k\<close> steps.
\<close>

theorem sn_window:
  assumes "bits < 4"
  shows "(z_sn_precedes (z_sn_max bits) a ((z_sn_increment (z_sn_max bits) ^^ n) a) \<longleftrightarrow>
      0 < n mod 2 ^ sn_bits bits \<and> n mod 2 ^ sn_bits bits < 2 ^ (sn_bits bits - 1)) \<and>
    (z_sn_consecutive (z_sn_max bits) a ((z_sn_increment (z_sn_max bits) ^^ n) a) \<longleftrightarrow> n mod 2 ^ sn_bits bits = 1)"
proof -
  have k: "1 \<le> sn_bits bits" "sn_bits bits \<le> 32" using sn_bits_range [of bits] by simp_all
  show ?thesis
    unfolding sn_max_mask [OF assms] precedes_dist [OF k] consecutive_dist [OF k] dist_increments [OF k(2)] by simp
qed

theorem sn_window_witness:
  "z_sn_precedes (z_sn_max 2) 0xFFFFFFF ((z_sn_increment (z_sn_max 2) ^^ 5) 0xFFFFFFF) \<and>
    \<not> z_sn_consecutive (z_sn_max 2) 0xFFFFFFF ((z_sn_increment (z_sn_max 2) ^^ 5) 0xFFFFFFF)"
  using sn_window [of 2 "0xFFFFFFF" 5] by (simp add: sn_bits_def)

text \<open>
  A decrement of the numbers of all priorities loses those of the best-effort channel and leaves the reliable
  ones as they were; the plain case decrements both.
\<close>

theorem sn_list_decrement_qos:
  "z_conduit_sn_list_decrement res (Qos_sn ss) =
     Qos_sn (map (\<lambda>s. \<lparr>sn_reliable = sn_reliable s, sn_best_effort = z_sn_decrement res (sn_reliable s)\<rparr>) ss) \<and>
   z_conduit_sn_list_decrement res (Plain_sn s) =
     Plain_sn \<lparr>sn_reliable = z_sn_decrement res (sn_reliable s), sn_best_effort = z_sn_decrement res (sn_best_effort s)\<rparr>"
proof -
  have "(let s1 = s\<lparr>sn_best_effort := b\<rparr> in s1\<lparr>sn_best_effort := f (sn_reliable s1)\<rparr>) =
      \<lparr>sn_reliable = sn_reliable s, sn_best_effort = f (sn_reliable s)\<rparr>" for s :: z_conduit_sn and b f
    by (cases s) (simp add: Let_def)
  then show ?thesis by (cases s) (simp add: z_conduit_sn_list_decrement_def)
qed

end
