(* ===== verification/ZMsg.thy ===== *)
theory ZMsg
  imports ZExt ZSn
begin

text \<open>
  Transport messages: their data and builders (\<open>protocol/definitions/transport.h\<close> and \<open>.c\<close>) and their codec
  (\<open>protocol/codec/transport.c\<close>), in the configuration of \<open>config.h\<close>: fragmentation and multicast on.
\<close>

section \<open>Data\<close>

abbreviation (input) MID_T_INIT :: u8 where "MID_T_INIT \<equiv> 0x01"
abbreviation (input) MID_T_OPEN :: u8 where "MID_T_OPEN \<equiv> 0x02"
abbreviation (input) MID_T_CLOSE :: u8 where "MID_T_CLOSE \<equiv> 0x03"
abbreviation (input) MID_T_KEEP_ALIVE :: u8 where "MID_T_KEEP_ALIVE \<equiv> 0x04"
abbreviation (input) MID_T_FRAME :: u8 where "MID_T_FRAME \<equiv> 0x05"
abbreviation (input) MID_T_FRAGMENT :: u8 where "MID_T_FRAGMENT \<equiv> 0x06"
abbreviation (input) MID_T_JOIN :: u8 where "MID_T_JOIN \<equiv> 0x07"

abbreviation (input) FLAG_T_Z :: u8 where "FLAG_T_Z \<equiv> 0x80"
abbreviation (input) FLAG_T_JOIN_T :: u8 where "FLAG_T_JOIN_T \<equiv> 0x20"
abbreviation (input) FLAG_T_JOIN_S :: u8 where "FLAG_T_JOIN_S \<equiv> 0x40"
abbreviation (input) FLAG_T_INIT_A :: u8 where "FLAG_T_INIT_A \<equiv> 0x20"
abbreviation (input) FLAG_T_INIT_S :: u8 where "FLAG_T_INIT_S \<equiv> 0x40"
abbreviation (input) FLAG_T_OPEN_A :: u8 where "FLAG_T_OPEN_A \<equiv> 0x20"
abbreviation (input) FLAG_T_OPEN_T :: u8 where "FLAG_T_OPEN_T \<equiv> 0x40"
abbreviation (input) FLAG_T_FRAME_R :: u8 where "FLAG_T_FRAME_R \<equiv> 0x20"
abbreviation (input) FLAG_T_FRAGMENT_R :: u8 where "FLAG_T_FRAGMENT_R \<equiv> 0x20"
abbreviation (input) FLAG_T_FRAGMENT_M :: u8 where "FLAG_T_FRAGMENT_M \<equiv> 0x40"
abbreviation (input) FLAG_T_CLOSE_S :: u8 where "FLAG_T_CLOSE_S \<equiv> 0x20"

abbreviation (input) NO_PATCH :: u8 where "NO_PATCH \<equiv> 0"
abbreviation (input) CURRENT_PATCH :: u8 where "CURRENT_PATCH \<equiv> 1"
abbreviation (input) Z_PROTO_VERSION :: u8 where "Z_PROTO_VERSION \<equiv> 9"
abbreviation (input) Z_BATCH_SIZE :: u16 where "Z_BATCH_SIZE \<equiv> 2048"
abbreviation (input) Z_RESOLUTION :: u8 where "Z_RESOLUTION \<equiv> 2"
abbreviation (input) DEFAULT_UNICAST_BATCH_SIZE :: u16 where "DEFAULT_UNICAST_BATCH_SIZE \<equiv> 65535"
abbreviation (input) DEFAULT_MULTICAST_BATCH_SIZE :: u16 where "DEFAULT_MULTICAST_BATCH_SIZE \<equiv> 8192"
abbreviation (input) DEFAULT_RESOLUTION_SIZE :: u8 where "DEFAULT_RESOLUTION_SIZE \<equiv> 2"

definition Z_MID :: "u8 \<Rightarrow> u8" where "Z_MID h = 0x1F AND h"
definition HAS_FLAG :: "u8 \<Rightarrow> u8 \<Rightarrow> bool" where "HAS_FLAG h f \<longleftrightarrow> h AND f \<noteq> 0"

datatype z_reliability = RELIABLE | BEST_EFFORT
datatype z_congestion_control = CC_BLOCK | CC_DROP

text \<open>An identifier has 16 bytes; its length leaves out the zeros at its end.\<close>

type_synonym z_id = bytes

fun id_len_loop :: "z_id \<Rightarrow> nat \<Rightarrow> nat" where
  "id_len_loop i 0 = 0"
| "id_len_loop i (Suc n) = (if i ! n \<noteq> 0 then Suc n else id_len_loop i n)"

definition z_id_len :: "z_id \<Rightarrow> nat" where "z_id_len i = id_len_loop i 16"

definition z_id_empty :: z_id where "z_id_empty = replicate 16 0"

record z_t_msg_join =
  join_zid :: z_id
  join_lease :: u32
  join_next_sn :: z_conduit_sn_list
  join_batch_size :: u16
  join_whatami :: u32
  join_req_id_res :: u8
  join_seq_num_res :: u8
  join_version :: u8
  join_patch :: u8

record z_t_msg_init =
  init_zid :: z_id
  init_cookie :: bytes
  init_batch_size :: u16
  init_whatami :: u32
  init_req_id_res :: u8
  init_seq_num_res :: u8
  init_version :: u8
  init_patch :: u8

record z_t_msg_open =
  open_lease :: u32
  open_initial_sn :: u32
  open_cookie :: bytes

text \<open>The payload is the buffer that was being decoded, or the one to be sent.\<close>

record z_t_msg_frame =
  frame_payload :: "z_zbuf option"
  frame_sn :: u32

record z_t_msg_fragment =
  frag_payload :: bytes
  frag_sn :: u32
  frag_first :: bool
  frag_drop :: bool

datatype z_transport_body =
  T_join z_t_msg_join | T_init z_t_msg_init | T_open z_t_msg_open | T_close u8 | T_keep_alive
| T_frame z_t_msg_frame | T_fragment z_t_msg_fragment

record z_transport_message =
  tm_body :: z_transport_body
  tm_header :: u8

section \<open>Builders\<close>

definition z_t_msg_make_join :: "u32 \<Rightarrow> u32 \<Rightarrow> z_id \<Rightarrow> z_conduit_sn_list \<Rightarrow> z_transport_message" where
  "z_t_msg_make_join whatami lease zid next_sn =
     (let m = \<lparr>join_zid = zid, join_lease = lease, join_next_sn = next_sn, join_batch_size = Z_BATCH_SIZE, join_whatami = whatami,
                join_req_id_res = Z_RESOLUTION, join_seq_num_res = Z_RESOLUTION, join_version = Z_PROTO_VERSION,
                join_patch = CURRENT_PATCH\<rparr>;
          h = MID_T_JOIN;
          h = (if lease mod 1000 = 0 then h OR FLAG_T_JOIN_T else h);
          h = (if Z_BATCH_SIZE \<noteq> DEFAULT_MULTICAST_BATCH_SIZE \<or> Z_RESOLUTION \<noteq> DEFAULT_RESOLUTION_SIZE then h OR FLAG_T_JOIN_S else h);
          is_qos = (case next_sn of Plain_sn _ \<Rightarrow> False | Qos_sn _ \<Rightarrow> True);
          h = (if is_qos \<or> join_patch m \<noteq> NO_PATCH then h OR FLAG_T_Z else h)
      in \<lparr>tm_body = T_join m, tm_header = h\<rparr>)"

text \<open>The flags of the two init messages.\<close>

definition init_flags :: "z_t_msg_init \<Rightarrow> u8 \<Rightarrow> u8" where
  "init_flags m h =
     (let h = (if init_batch_size m \<noteq> DEFAULT_UNICAST_BATCH_SIZE \<or> init_seq_num_res m \<noteq> DEFAULT_RESOLUTION_SIZE \<or>
                  init_req_id_res m \<noteq> DEFAULT_RESOLUTION_SIZE then h OR FLAG_T_INIT_S else h)
      in if init_patch m \<noteq> NO_PATCH then h OR FLAG_T_Z else h)"

definition z_t_msg_make_init_syn :: "u32 \<Rightarrow> z_id \<Rightarrow> z_transport_message" where
  "z_t_msg_make_init_syn whatami zid =
     (let m = \<lparr>init_zid = zid, init_cookie = [], init_batch_size = Z_BATCH_SIZE, init_whatami = whatami,
                init_req_id_res = Z_RESOLUTION, init_seq_num_res = Z_RESOLUTION, init_version = Z_PROTO_VERSION,
                init_patch = CURRENT_PATCH\<rparr>
      in \<lparr>tm_body = T_init m, tm_header = init_flags m MID_T_INIT\<rparr>)"

definition z_t_msg_make_init_ack :: "u32 \<Rightarrow> z_id \<Rightarrow> bytes \<Rightarrow> z_transport_message" where
  "z_t_msg_make_init_ack whatami zid cookie =
     (let m = \<lparr>init_zid = zid, init_cookie = cookie, init_batch_size = Z_BATCH_SIZE, init_whatami = whatami,
                init_req_id_res = Z_RESOLUTION, init_seq_num_res = Z_RESOLUTION, init_version = Z_PROTO_VERSION,
                init_patch = CURRENT_PATCH\<rparr>
      in \<lparr>tm_body = T_init m, tm_header = init_flags m (MID_T_INIT OR FLAG_T_INIT_A)\<rparr>)"

definition z_t_msg_make_open_syn :: "u32 \<Rightarrow> u32 \<Rightarrow> bytes \<Rightarrow> z_transport_message" where
  "z_t_msg_make_open_syn lease initial_sn cookie =
     \<lparr>tm_body = T_open \<lparr>open_lease = lease, open_initial_sn = initial_sn, open_cookie = cookie\<rparr>,
      tm_header = (if lease mod 1000 = 0 then MID_T_OPEN OR FLAG_T_OPEN_T else MID_T_OPEN)\<rparr>"

definition z_t_msg_make_open_ack :: "u32 \<Rightarrow> u32 \<Rightarrow> z_transport_message" where
  "z_t_msg_make_open_ack lease initial_sn =
     (let h = MID_T_OPEN OR FLAG_T_OPEN_A
      in \<lparr>tm_body = T_open \<lparr>open_lease = lease, open_initial_sn = initial_sn, open_cookie = []\<rparr>,
          tm_header = (if lease mod 1000 = 0 then h OR FLAG_T_OPEN_T else h)\<rparr>)"

definition z_t_msg_make_close :: "u8 \<Rightarrow> bool \<Rightarrow> z_transport_message" where
  "z_t_msg_make_close reason link_only =
     \<lparr>tm_body = T_close reason, tm_header = (if \<not> link_only then MID_T_CLOSE OR FLAG_T_CLOSE_S else MID_T_CLOSE)\<rparr>"

definition z_t_msg_make_keep_alive :: z_transport_message where
  "z_t_msg_make_keep_alive = \<lparr>tm_body = T_keep_alive, tm_header = MID_T_KEEP_ALIVE\<rparr>"

definition z_t_msg_make_frame :: "u32 \<Rightarrow> z_zbuf \<Rightarrow> z_reliability \<Rightarrow> z_transport_message" where
  "z_t_msg_make_frame sn payload reliability =
     \<lparr>tm_body = T_frame \<lparr>frame_payload = Some payload, frame_sn = sn\<rparr>,
      tm_header = (if reliability = RELIABLE then MID_T_FRAME OR FLAG_T_FRAME_R else MID_T_FRAME)\<rparr>"

definition z_t_msg_make_frame_header :: "u32 \<Rightarrow> z_reliability \<Rightarrow> z_transport_message" where
  "z_t_msg_make_frame_header sn reliability =
     \<lparr>tm_body = T_frame \<lparr>frame_payload = None, frame_sn = sn\<rparr>,
      tm_header = (if reliability = RELIABLE then MID_T_FRAME OR FLAG_T_FRAME_R else MID_T_FRAME)\<rparr>"

definition z_t_msg_make_fragment :: "u32 \<Rightarrow> bytes \<Rightarrow> z_reliability \<Rightarrow> bool \<Rightarrow> bool \<Rightarrow> bool \<Rightarrow> z_transport_message" where
  "z_t_msg_make_fragment sn payload reliability is_last first dropped =
     (let h = MID_T_FRAGMENT;
          h = (if \<not> is_last then h OR FLAG_T_FRAGMENT_M else h);
          h = (if reliability = RELIABLE then h OR FLAG_T_FRAGMENT_R else h);
          h = (if first \<or> dropped then h OR FLAG_T_Z else h)
      in \<lparr>tm_body = T_fragment \<lparr>frag_payload = payload, frag_sn = sn, frag_first = first, frag_drop = dropped\<rparr>, tm_header = h\<rparr>)"

definition z_t_msg_make_fragment_header :: "u32 \<Rightarrow> z_reliability \<Rightarrow> bool \<Rightarrow> bool \<Rightarrow> bool \<Rightarrow> z_transport_message" where
  "z_t_msg_make_fragment_header sn reliability is_last first dropped =
     z_t_msg_make_fragment sn [] reliability is_last first dropped"

definition z_t_msg_get_reliability :: "z_transport_message \<Rightarrow> z_reliability" where
  "z_t_msg_get_reliability msg = (if HAS_FLAG (tm_header msg) FLAG_T_FRAME_R then RELIABLE else BEST_EFFORT)"

section \<open>Encoding\<close>

text \<open>What the head of a join and of an init message have in common.\<close>

definition zid_cbyte :: "u32 \<Rightarrow> nat \<Rightarrow> u8" where
  "zid_cbyte whatami zidlen = z_whatami_to_uint8 whatami OR push_bit 4 ((of_nat zidlen - 1) AND 0x0F)"

definition res_cbyte :: "u8 \<Rightarrow> u8 \<Rightarrow> u8" where
  "res_cbyte seq_num_res req_id_res = (seq_num_res AND 0x03) OR push_bit 2 (req_id_res AND 0x03)"

text \<open>The union of the numbers: the plain pair lies over the first of the eight.\<close>

definition sn_plain :: "z_conduit_sn_list \<Rightarrow> z_conduit_sn" where
  "sn_plain l = (case l of Plain_sn s \<Rightarrow> s | Qos_sn q \<Rightarrow> q ! 0)"

fun qos_len :: "z_conduit_sn list \<Rightarrow> nat" where
  "qos_len [] = 0"
| "qos_len (s # q) = z_zint_len (ucast (sn_reliable s)) + z_zint_len (ucast (sn_best_effort s)) + qos_len q"

fun qos_encode :: "'h heap \<Rightarrow> z_wbuf \<Rightarrow> z_conduit_sn list \<Rightarrow> 'h \<Rightarrow> 'h encoded" where
  "qos_encode H wbf [] h = Some (Z_OK, wbf, h)"
| "qos_encode H wbf (s # q) h =
     if_ok (z_zsize_encode H wbf (unat (sn_reliable s)) h) (\<lambda>wbf h.
     if_ok (z_zsize_encode H wbf (unat (sn_best_effort s)) h) (\<lambda>wbf h. qos_encode H wbf q h))"

text \<open>The patch extension. An extension without the flag is an error that is reported at the end.\<close>

definition patch_encode :: "'h heap \<Rightarrow> z_wbuf \<Rightarrow> u8 \<Rightarrow> u8 \<Rightarrow> z_res \<Rightarrow> 'h \<Rightarrow> 'h encoded" where
  "patch_encode H wbf header patch ret h =
     (if patch \<noteq> NO_PATCH then
        if HAS_FLAG header FLAG_T_Z then
          if_ok (z_uint8_encode H wbf 0x27 h) (\<lambda>wbf h.
          if_ok (z_zint64_encode H wbf (ucast patch) h) (\<lambda>wbf h. Some (ret, wbf, h)))
        else Some (Z_ERR_MESSAGE_SERIALIZATION_FAILED, wbf, h)
      else Some (ret, wbf, h))"

definition z_join_encode :: "'h heap \<Rightarrow> z_wbuf \<Rightarrow> u8 \<Rightarrow> z_t_msg_join \<Rightarrow> 'h \<Rightarrow> 'h encoded" where
  "z_join_encode H wbf header msg h =
     (let zidlen = z_id_len (join_zid msg) in
      if_ok (z_wbuf_write H wbf (join_version msg) h) (\<lambda>wbf h.
      if_ok (z_uint8_encode H wbf (zid_cbyte (join_whatami msg) zidlen) h) (\<lambda>wbf h.
      if_ok (z_wbuf_write_bytes H wbf (join_zid msg) 0 zidlen h) (\<lambda>wbf h.
      if_ok (if HAS_FLAG header FLAG_T_JOIN_S then
               if_ok (z_uint8_encode H wbf (res_cbyte (join_seq_num_res msg) (join_req_id_res msg)) h) (\<lambda>wbf h.
                 z_uint16_encode H wbf (join_batch_size msg) h)
             else Some (Z_OK, wbf, h)) (\<lambda>wbf h.
      if_ok (if HAS_FLAG header FLAG_T_JOIN_T then z_zsize_encode H wbf (unat (join_lease msg div 1000)) h
             else z_zsize_encode H wbf (unat (join_lease msg)) h) (\<lambda>wbf h.
      if_ok (z_zsize_encode H wbf (unat (sn_reliable (sn_plain (join_next_sn msg)))) h) (\<lambda>wbf h.
      if_ok (z_zsize_encode H wbf (unat (sn_best_effort (sn_plain (join_next_sn msg)))) h) (\<lambda>wbf h.
        case join_next_sn msg of
          Plain_sn _ \<Rightarrow> patch_encode H wbf header (join_patch msg) Z_OK h
        | Qos_sn q \<Rightarrow>
            if HAS_FLAG header FLAG_T_Z then
              if_ok (z_uint8_encode H wbf (0x51 OR EXT_MORE (join_patch msg \<noteq> NO_PATCH)) h) (\<lambda>wbf h.
              if_ok (z_zsize_encode H wbf (qos_len q) h) (\<lambda>wbf h.
              if_ok (qos_encode H wbf q h) (\<lambda>wbf h. patch_encode H wbf header (join_patch msg) Z_OK h)))
            else patch_encode H wbf header (join_patch msg) Z_ERR_MESSAGE_SERIALIZATION_FAILED h))))))))"

definition z_init_encode :: "'h heap \<Rightarrow> z_wbuf \<Rightarrow> u8 \<Rightarrow> z_t_msg_init \<Rightarrow> 'h \<Rightarrow> 'h encoded" where
  "z_init_encode H wbf header msg h =
     (let zidlen = z_id_len (init_zid msg) in
      if_ok (z_wbuf_write H wbf (init_version msg) h) (\<lambda>wbf h.
      if_ok (z_uint8_encode H wbf (zid_cbyte (init_whatami msg) zidlen) h) (\<lambda>wbf h.
      if_ok (z_wbuf_write_bytes H wbf (init_zid msg) 0 zidlen h) (\<lambda>wbf h.
      if_ok (if HAS_FLAG header FLAG_T_INIT_S then
               if_ok (z_uint8_encode H wbf (res_cbyte (init_seq_num_res msg) (init_req_id_res msg)) h) (\<lambda>wbf h.
                 z_uint16_encode H wbf (init_batch_size msg) h)
             else Some (Z_OK, wbf, h)) (\<lambda>wbf h.
      if_ok (if HAS_FLAG header FLAG_T_INIT_A then z_slice_encode H wbf (init_cookie msg) h else Some (Z_OK, wbf, h)) (\<lambda>wbf h.
        patch_encode H wbf header (init_patch msg) Z_OK h))))))"

definition z_open_encode :: "'h heap \<Rightarrow> z_wbuf \<Rightarrow> u8 \<Rightarrow> z_t_msg_open \<Rightarrow> 'h \<Rightarrow> 'h encoded" where
  "z_open_encode H wbf header msg h =
     if_ok (if HAS_FLAG header FLAG_T_OPEN_T then z_zsize_encode H wbf (unat (open_lease msg div 1000)) h
            else z_zsize_encode H wbf (unat (open_lease msg)) h) (\<lambda>wbf h.
     if_ok (z_zsize_encode H wbf (unat (open_initial_sn msg)) h) (\<lambda>wbf h.
       if \<not> HAS_FLAG header FLAG_T_OPEN_A then z_slice_encode H wbf (open_cookie msg) h else Some (Z_OK, wbf, h)))"

definition z_close_encode :: "'h heap \<Rightarrow> z_wbuf \<Rightarrow> u8 \<Rightarrow> u8 \<Rightarrow> 'h \<Rightarrow> 'h encoded" where
  "z_close_encode H wbf header reason h = z_wbuf_write H wbf reason h"

definition z_keep_alive_encode :: "z_wbuf \<Rightarrow> u8 \<Rightarrow> 'h \<Rightarrow> 'h encoded" where
  "z_keep_alive_encode wbf header h = Some (Z_OK, wbf, h)"

definition z_frame_encode :: "'h heap \<Rightarrow> z_wbuf \<Rightarrow> u8 \<Rightarrow> z_t_msg_frame \<Rightarrow> 'h \<Rightarrow> 'h encoded" where
  "z_frame_encode H wbf header msg h =
     if_ok (z_zsize_encode H wbf (unat (frame_sn msg)) h) (\<lambda>wbf h.
       if HAS_FLAG header FLAG_T_Z then Some (Z_ERR_MESSAGE_SERIALIZATION_FAILED, wbf, h)
       else case frame_payload msg of
              None \<Rightarrow> Some (Z_OK, wbf, h)
            | Some zbf \<Rightarrow> z_wbuf_write_bytes H wbf (z_zbuf_get_rptr zbf) 0 (z_zbuf_len zbf) h)"

text \<open>The markers; \<open>ret\<close> is what will be returned at the end.\<close>

definition z_fragment_encode :: "'h heap \<Rightarrow> z_wbuf \<Rightarrow> u8 \<Rightarrow> z_t_msg_fragment \<Rightarrow> 'h \<Rightarrow> 'h encoded" where
  "z_fragment_encode H wbf header msg h =
     (let z = HAS_FLAG header FLAG_T_Z;
          ret = (if (frag_first msg \<or> frag_drop msg) \<and> \<not> z then Z_ERR_MESSAGE_SERIALIZATION_FAILED else Z_OK)
      in if_ok (z_zsize_encode H wbf (unat (frag_sn msg)) h) (\<lambda>wbf h.
         if_ok (if frag_first msg \<and> z then z_uint8_encode H wbf (0x02 OR EXT_MORE (frag_drop msg)) h else Some (Z_OK, wbf, h)) (\<lambda>wbf h.
         if_ok (if frag_drop msg \<and> z then z_uint8_encode H wbf 0x03 h else Some (Z_OK, wbf, h)) (\<lambda>wbf h.
         if_ok (if frag_payload msg \<noteq> [] then z_wbuf_write_bytes H wbf (frag_payload msg) 0 (length (frag_payload msg)) h
                else Some (Z_OK, wbf, h)) (\<lambda>wbf h. Some (ret, wbf, h))))))"

definition z_transport_message_encode :: "'h heap \<Rightarrow> z_wbuf \<Rightarrow> z_transport_message \<Rightarrow> 'h \<Rightarrow> 'h encoded" where
  "z_transport_message_encode H wbf msg h =
     if_ok (z_wbuf_write H wbf (tm_header msg) h) (\<lambda>wbf h.
       let header = tm_header msg; mid = Z_MID header; body = tm_body msg in
       if mid = MID_T_FRAME then (case body of T_frame m \<Rightarrow> z_frame_encode H wbf header m h | _ \<Rightarrow> None)
       else if mid = MID_T_FRAGMENT then (case body of T_fragment m \<Rightarrow> z_fragment_encode H wbf header m h | _ \<Rightarrow> None)
       else if mid = MID_T_KEEP_ALIVE then z_keep_alive_encode wbf header h
       else if mid = MID_T_JOIN then (case body of T_join m \<Rightarrow> z_join_encode H wbf header m h | _ \<Rightarrow> None)
       else if mid = MID_T_INIT then (case body of T_init m \<Rightarrow> z_init_encode H wbf header m h | _ \<Rightarrow> None)
       else if mid = MID_T_OPEN then (case body of T_open m \<Rightarrow> z_open_encode H wbf header m h | _ \<Rightarrow> None)
       else if mid = MID_T_CLOSE then (case body of T_close r \<Rightarrow> z_close_encode H wbf header r h | _ \<Rightarrow> None)
       else Some (Z_ERR_MESSAGE_TRANSPORT_UNKNOWN, wbf, h))"

section \<open>Decoding\<close>

text \<open>
  Two steps of which the second is taken even when the first has failed, their results joined by \<open>|=\<close>.
  Both fail with the same code where the code does this (\<open>both_code\<close> below).
\<close>

definition decode_both :: "(z_zbuf \<Rightarrow> 'a decoded) \<Rightarrow> (z_zbuf \<Rightarrow> 'b decoded) \<Rightarrow> z_zbuf \<Rightarrow> ('a \<times> 'b) decoded" where
  "decode_both d1 d2 zbf = do {
     (r1, zbf1) \<leftarrow> d1 zbf;
     (r2, zbf2) \<leftarrow> d2 zbf1;
     Some (case r1 of Inl e \<Rightarrow> Inl e | Inr a \<Rightarrow> (case r2 of Inl e \<Rightarrow> Inl e | Inr b \<Rightarrow> Inr (a, b)), zbf2) }"

text \<open>The identifier after the byte that tells its length.\<close>

definition zid_read :: "nat \<Rightarrow> z_zbuf \<Rightarrow> z_id decoded" where
  "zid_read zidlen zbf =
     (if zidlen \<le> z_zbuf_len zbf then do {
        (zid, zbf1) \<leftarrow> z_zbuf_read_bytes zbf z_id_empty 0 zidlen;
        Some (Inr zid, zbf1) }
      else fail_decode zbf)"

definition zid_decode :: "u8 \<Rightarrow> z_zbuf \<Rightarrow> z_id decoded" where
  "zid_decode cbyte zbf = zid_read (unat (drop_bit 4 (cbyte AND 0xF0) + 1)) zbf"

text \<open>Numbers of eight bytes or fewer that fit \<open>size_t\<close>.\<close>

definition zsn_decode :: "z_zbuf \<Rightarrow> u32 decoded" where
  "zsn_decode zbf = on_value (z_zsize_decode zbf) (\<lambda>n zbf. Some (Inr (of_nat n), zbf))"

fun qos_decode :: "nat \<Rightarrow> z_zbuf \<Rightarrow> z_conduit_sn list decoded" where
  "qos_decode 0 zbf = Some (Inr [], zbf)"
| "qos_decode (Suc n) zbf =
     on_value (decode_both zsn_decode zsn_decode zbf) (\<lambda>(r, b) zbf.
     on_value (qos_decode n zbf) (\<lambda>q zbf. Some (Inr (\<lparr>sn_reliable = r, sn_best_effort = b\<rparr> # q), zbf)))"

definition z_join_decode_ext :: "z_t_msg_join ext_callback" where
  "z_join_decode_ext ext msg =
     (if EXT_FULL_ID (ext_header ext) = 0x51 then
        (case ext_body ext of
           Ext_zbuf s \<Rightarrow> do {
             (r, _) \<leftarrow> qos_decode Z_PRIORITIES_NUM (z_slice_as_zbuf s);
             (case r of Inl e \<Rightarrow> Some (e, msg) | Inr q \<Rightarrow> Some (Z_OK, msg\<lparr>join_next_sn := Qos_sn q\<rparr>)) }
         | _ \<Rightarrow> None)
      else if EXT_FULL_ID (ext_header ext) = 0x27 then
        (case ext_body ext of Ext_zint v \<Rightarrow> Some (Z_OK, msg\<lparr>join_patch := ucast v\<rparr>) | _ \<Rightarrow> None)
      else if EXT_IS_MANDATORY (ext_header ext) then Some (Z_ERR_MESSAGE_EXTENSION_MANDATORY_AND_UNKNOWN, msg)
      else Some (Z_OK, msg))"

definition res_decode :: "z_zbuf \<Rightarrow> bool \<Rightarrow> (u8 \<times> u8 \<times> u16) decoded" where
  "res_decode zbf swap =
     on_value (decode_both z_uint8_decode (z_uint16_decode swap) zbf) (\<lambda>(cbyte, batch) zbf.
       Some (Inr (cbyte AND 0x03, drop_bit 2 cbyte AND 0x03, batch), zbf))"

text \<open>\<open>swap\<close> is the order in which the compiler reads the bytes of a 16 bit word.\<close>

definition z_join_decode :: "bool \<Rightarrow> u8 \<Rightarrow> z_zbuf \<Rightarrow> z_t_msg_join decoded" where
  "z_join_decode swap header zbf =
     on_value (decode_both z_uint8_decode z_uint8_decode zbf) (\<lambda>(version, cbyte) zbf.
     on_value (zid_decode cbyte zbf) (\<lambda>zid zbf.
     on_value (if HAS_FLAG header FLAG_T_JOIN_S then res_decode zbf swap
               else Some (Inr (DEFAULT_RESOLUTION_SIZE, DEFAULT_RESOLUTION_SIZE, DEFAULT_MULTICAST_BATCH_SIZE), zbf)) (\<lambda>(sres, rres, batch) zbf.
     on_value (zsn_decode zbf) (\<lambda>lease zbf.
     on_value (decode_both zsn_decode zsn_decode zbf) (\<lambda>(r, b) zbf.
       let msg = \<lparr>join_zid = zid, join_lease = (if HAS_FLAG header FLAG_T_JOIN_T then lease * 1000 else lease),
                  join_next_sn = Plain_sn \<lparr>sn_reliable = r, sn_best_effort = b\<rparr>, join_batch_size = batch,
                  join_whatami = z_whatami_from_uint8 cbyte, join_req_id_res = rres, join_seq_num_res = sres,
                  join_version = version, join_patch = NO_PATCH\<rparr>
       in if HAS_FLAG header FLAG_T_Z then z_msg_ext_decode_iter z_join_decode_ext msg zbf else Some (Inr msg, zbf))))))"

definition z_init_decode_ext :: "z_t_msg_init ext_callback" where
  "z_init_decode_ext ext msg =
     (if EXT_FULL_ID (ext_header ext) = 0x27 then
        (case ext_body ext of Ext_zint v \<Rightarrow> Some (Z_OK, msg\<lparr>init_patch := ucast v\<rparr>) | _ \<Rightarrow> None)
      else if EXT_IS_MANDATORY (ext_header ext) then Some (Z_ERR_MESSAGE_EXTENSION_MANDATORY_AND_UNKNOWN, msg)
      else Some (Z_OK, msg))"

definition z_init_decode :: "bool \<Rightarrow> u8 \<Rightarrow> z_zbuf \<Rightarrow> z_t_msg_init decoded" where
  "z_init_decode swap header zbf =
     on_value (decode_both z_uint8_decode z_uint8_decode zbf) (\<lambda>(version, cbyte) zbf.
     on_value (zid_decode cbyte zbf) (\<lambda>zid zbf.
     on_value (if HAS_FLAG header FLAG_T_INIT_S then res_decode zbf swap
               else Some (Inr (DEFAULT_RESOLUTION_SIZE, DEFAULT_RESOLUTION_SIZE, DEFAULT_UNICAST_BATCH_SIZE), zbf)) (\<lambda>(sres, rres, batch) zbf.
     on_value (if HAS_FLAG header FLAG_T_INIT_A then z_slice_decode zbf else Some (Inr [], zbf)) (\<lambda>cookie zbf.
       let msg = \<lparr>init_zid = zid, init_cookie = cookie, init_batch_size = batch, init_whatami = z_whatami_from_uint8 cbyte,
                  init_req_id_res = rres, init_seq_num_res = sres, init_version = version, init_patch = NO_PATCH\<rparr>
       in if HAS_FLAG header FLAG_T_Z then z_msg_ext_decode_iter z_init_decode_ext msg zbf else Some (Inr msg, zbf)))))"

definition z_open_decode :: "u8 \<Rightarrow> z_zbuf \<Rightarrow> z_t_msg_open decoded" where
  "z_open_decode header zbf =
     on_value (decode_both zsn_decode zsn_decode zbf) (\<lambda>(lease, sn) zbf.
     on_value (if \<not> HAS_FLAG header FLAG_T_OPEN_A then z_slice_decode zbf else Some (Inr [], zbf)) (\<lambda>cookie zbf.
       let msg = \<lparr>open_lease = (if HAS_FLAG header FLAG_T_OPEN_T then lease * 1000 else lease), open_initial_sn = sn, open_cookie = cookie\<rparr>
       in if HAS_FLAG header FLAG_T_Z then on_value (z_msg_ext_skip_non_mandatories zbf) (\<lambda>_ zbf. Some (Inr msg, zbf))
          else Some (Inr msg, zbf)))"

definition z_close_decode :: "u8 \<Rightarrow> z_zbuf \<Rightarrow> u8 decoded" where
  "z_close_decode header zbf = z_uint8_decode zbf"

definition z_keep_alive_decode :: "u8 \<Rightarrow> z_zbuf \<Rightarrow> unit decoded" where
  "z_keep_alive_decode header zbf =
     (if HAS_FLAG header FLAG_T_Z then z_msg_ext_skip_non_mandatories zbf else Some (Inr (), zbf))"

definition z_frame_decode :: "u8 \<Rightarrow> z_zbuf \<Rightarrow> z_t_msg_frame decoded" where
  "z_frame_decode header zbf =
     on_value (zsn_decode zbf) (\<lambda>sn zbf.
     on_value (if HAS_FLAG header FLAG_T_Z then z_msg_ext_skip_non_mandatories zbf else Some (Inr (), zbf)) (\<lambda>_ zbf.
       Some (Inr \<lparr>frame_payload = Some zbf, frame_sn = sn\<rparr>, zbf)))"

definition z_fragment_decode_ext :: "z_t_msg_fragment ext_callback" where
  "z_fragment_decode_ext ext msg =
     (if EXT_FULL_ID (ext_header ext) = 0x02 then Some (Z_OK, msg\<lparr>frag_first := True\<rparr>)
      else if EXT_FULL_ID (ext_header ext) = 0x03 then Some (Z_OK, msg\<lparr>frag_drop := True\<rparr>)
      else if EXT_IS_MANDATORY (ext_header ext) then Some (Z_ERR_MESSAGE_EXTENSION_MANDATORY_AND_UNKNOWN, msg)
      else Some (Z_OK, msg))"

text \<open>The payload is taken and the buffer is emptied even when the head is no good.\<close>

definition fragment_head_decode :: "u8 \<Rightarrow> z_zbuf \<Rightarrow> z_t_msg_fragment decoded" where
  "fragment_head_decode header zbf =
     on_value (zsn_decode zbf) (\<lambda>sn zbf.
       let msg = \<lparr>frag_payload = [], frag_sn = sn, frag_first = False, frag_drop = False\<rparr>
       in if HAS_FLAG header FLAG_T_Z then z_msg_ext_decode_iter z_fragment_decode_ext msg zbf else Some (Inr msg, zbf))"

definition z_fragment_decode :: "u8 \<Rightarrow> z_zbuf \<Rightarrow> z_t_msg_fragment decoded" where
  "z_fragment_decode header zbf = do {
     (r, zbf1) \<leftarrow> fragment_head_decode header zbf;
     payload \<leftarrow> c_read (z_zbuf_get_rptr zbf1) 0 (z_zbuf_len zbf1);
     let zbf2 = zbf1\<lparr>zb_ios := (zb_ios zbf1)\<lparr>ios_r_pos := ios_w_pos (zb_ios zbf1)\<rparr>\<rparr>;
     Some (case r of Inl e \<Rightarrow> Inl e | Inr msg \<Rightarrow> Inr (msg\<lparr>frag_payload := payload\<rparr>), zbf2) }"

definition body_decode :: "(u8 \<Rightarrow> z_zbuf \<Rightarrow> 'a decoded) \<Rightarrow> ('a \<Rightarrow> z_transport_body) \<Rightarrow> u8 \<Rightarrow> z_zbuf \<Rightarrow> z_transport_message decoded" where
  "body_decode d c header zbf = on_value (d header zbf) (\<lambda>m zbf. Some (Inr \<lparr>tm_body = c m, tm_header = header\<rparr>, zbf))"

definition z_transport_message_decode :: "bool \<Rightarrow> z_zbuf \<Rightarrow> z_transport_message decoded" where
  "z_transport_message_decode swap zbf =
     on_value (z_uint8_decode zbf) (\<lambda>header zbf.
       let mid = Z_MID header in
       if mid = MID_T_FRAME then body_decode z_frame_decode T_frame header zbf
       else if mid = MID_T_FRAGMENT then body_decode z_fragment_decode T_fragment header zbf
       else if mid = MID_T_KEEP_ALIVE then body_decode z_keep_alive_decode (\<lambda>_. T_keep_alive) header zbf
       else if mid = MID_T_JOIN then body_decode (z_join_decode swap) T_join header zbf
       else if mid = MID_T_INIT then body_decode (z_init_decode swap) T_init header zbf
       else if mid = MID_T_OPEN then body_decode z_open_decode T_open header zbf
       else if mid = MID_T_CLOSE then body_decode z_close_decode T_close header zbf
       else Some (Inl Z_ERR_MESSAGE_TRANSPORT_UNKNOWN, zbf))"

end
