(* ===== verification/ZMsgProps.thy ===== *)
theory ZMsgProps
  imports ZMsg
begin

text \<open>
  Properties of the transport messages: what their encoders emit is what their decoders read, and no input makes a
  decoder leave its buffer.
\<close>

section \<open>Steps of the codec\<close>

lemma emits_if [wire_intros]:
  "emits a x \<Longrightarrow> emits b y \<Longrightarrow> emits (\<lambda>wbf h. if P then a wbf h else b wbf h) (if P then x else y)"
  by (cases P) simp_all

lemma emits_front: "n \<le> length bs \<Longrightarrow> emits (\<lambda>wbf. z_wbuf_write_bytes H wbf bs 0 n) (take n bs)"
proof (rule emitsI)
  fix wbf :: z_wbuf and h
  assume "n \<le> length bs" "wb_fixed wbf" "length (take n bs) \<le> wb_space wbf"
  then show "\<exists>wbf'. z_wbuf_write_bytes H wbf bs 0 n h = Some (Z_OK, wbf', h) \<and> wb_fixed wbf' \<and> wb_shape wbf' = wb_shape wbf \<and>
      wb_data wbf' = wb_data wbf @ take n bs \<and> wb_space wbf' = wb_space wbf - length (take n bs)"
    using write_bytes_fits [of wbf 0 n bs H h] by (auto simp: wb_fixed_def slice_def)
next
  fix wbf :: z_wbuf and h
  assume "n \<le> length bs" "wb_fixed wbf" "wb_space wbf < length (take n bs)"
  then show "\<exists>wbf' sent. z_wbuf_write_bytes H wbf bs 0 n h = Some (Z_ERR_TRANSPORT_NO_SPACE, wbf', h) \<and>
      wb_fixed wbf' \<and> wb_shape wbf' = wb_shape wbf \<and> wb_data wbf' = wb_data wbf @ sent \<and> strict_prefix sent (take n bs)"
    using write_bytes_full [of wbf n H bs 0 h] by (auto simp: wb_fixed_def strict_prefix_def)
qed

lemma both_reads:
  assumes 1: "reads d1 a x" and 2: "reads d2 b y" and t: "in_bounds d2"
  shows "reads (decode_both d1 d2) (a @ b) (x, y)"
  unfolding reads_def
proof (intro conjI allI impI)
  fix zbf rest
  assume z: "zb_ok zbf \<and> zb_data zbf = (a @ b) @ rest"
  then obtain z1 where z1: "d1 zbf = Some (Inr x, z1)" "zb_ok z1" "zb_data z1 = b @ rest" using readsD(1) [OF 1] by auto
  show "\<exists>zbf'. decode_both d1 d2 zbf = Some (Inr (x, y), zbf') \<and> zb_ok zbf' \<and> zb_data zbf' = rest"
    using readsD(1) [OF 2 z1(2,3)] z1(1) by (auto simp: decode_both_def)
next
  fix zbf
  assume z: "zb_ok zbf \<and> strict_prefix (zb_data zbf) (a @ b)"
  then consider "strict_prefix (zb_data zbf) a" | q where "zb_data zbf = a @ q" "strict_prefix q b"
    using strict_prefix_append by blast
  then show "\<exists>zbf'. decode_both d1 d2 zbf = Some (Inl Z_ERR_MESSAGE_DESERIALIZATION_FAILED, zbf') \<and> zb_ok zbf'"
  proof cases
    case 1
    then obtain z1 where z1: "d1 zbf = Some (Inl Z_ERR_MESSAGE_DESERIALIZATION_FAILED, z1)" "zb_ok z1"
      using readsD(2) [OF assms(1)] z by blast
    then show ?thesis using t by (auto simp: decode_both_def in_bounds_def)
  next
    case 2
    then obtain z1 where z1: "d1 zbf = Some (Inr x, z1)" "zb_ok z1" "zb_data z1 = q" using readsD(1) [OF assms(1)] z by blast
    show ?thesis using readsD(2) [OF assms(2) z1(2)] z1 2 by (auto simp: decode_both_def)
  qed
qed

lemma both_in_bounds [bounds_intros]:
  assumes "in_bounds d1" "in_bounds d2"
  shows "in_bounds (decode_both d1 d2)"
  unfolding in_bounds_def
proof (intro allI impI)
  fix zbf
  assume "zb_ok zbf"
  then obtain r1 z1 where 1: "d1 zbf = Some (r1, z1)" "zb_ok z1" "suffix (zb_data z1) (zb_data zbf)"
    using assms(1) unfolding in_bounds_def by blast
  then obtain r2 z2 where 2: "d2 z1 = Some (r2, z2)" "zb_ok z2" "suffix (zb_data z2) (zb_data z1)"
    using assms(2) unfolding in_bounds_def by blast
  then show "\<exists>r zbf'. decode_both d1 d2 zbf = Some (r, zbf') \<and> zb_ok zbf' \<and> suffix (zb_data zbf') (zb_data zbf)"
    using 1 by (auto simp: decode_both_def intro: suffix_order.trans)
qed

abbreviation (input) sn_wire :: "u32 \<Rightarrow> bytes" where "sn_wire v \<equiv> vle 8 (of_nat (unat v))"

lemma zsn_reads: "reads zsn_decode (sn_wire v) v"
  unfolding zsn_decode_def [abs_def] by (rule reads_then [OF zsize_reads [OF u32_size]]) simp

lemma zsn_in_bounds [bounds_intros]: "in_bounds zsn_decode"
  unfolding zsn_decode_def [abs_def] by (intro in_bounds_seq zint_small_in_bounds in_bounds_value)

lemma uint16_in_bounds [bounds_intros]: "in_bounds (z_uint16_decode swap)"
  unfolding in_bounds_def
proof (intro allI impI)
  fix zbf
  assume z: "zb_ok zbf"
  show "\<exists>r zbf'. z_uint16_decode swap zbf = Some (r, zbf') \<and> zb_ok zbf' \<and> suffix (zb_data zbf') (zb_data zbf)"
  proof (cases "2 \<le> length (zb_data zbf)")
    case True
    then obtain a b rest where "zb_data zbf = a # b # rest" by (metis (no_types) One_nat_def Suc_1 Suc_le_length_iff)
    then show ?thesis using uint16_decode_two [OF z, of a b rest swap] by (auto intro: suffix_ConsI)
  qed (use z in \<open>simp add: z_uint16_decode_def fail_decode_def\<close>)
qed

section \<open>Identifiers\<close>

definition zid_ok :: "z_id \<Rightarrow> bool" where
  "zid_ok i \<longleftrightarrow> length i = 16 \<and> (\<exists>b \<in> set i. b \<noteq> 0)"

lemma id_len_loop: "id_len_loop i n \<le> n \<and> (\<forall>k. id_len_loop i n \<le> k \<and> k < n \<longrightarrow> i ! k = 0) \<and>
    ((\<exists>k < n. i ! k \<noteq> 0) \<longrightarrow> 0 < id_len_loop i n)"
  by (induction n) (auto simp: less_Suc_eq)

lemma zid_len:
  assumes "zid_ok i"
  shows "1 \<le> z_id_len i" "z_id_len i \<le> 16" "take (z_id_len i) i @ replicate (16 - z_id_len i) 0 = i"
proof -
  have l: "length i = 16" and b: "\<exists>k < 16. i ! k \<noteq> 0" using assms by (auto simp: zid_ok_def in_set_conv_nth)
  note p = id_len_loop [of i 16]
  show "1 \<le> z_id_len i" "z_id_len i \<le> 16" using p b by (simp_all add: z_id_len_def)
  show "take (z_id_len i) i @ replicate (16 - z_id_len i) 0 = i"
    by (rule nth_equalityI) (use p l in \<open>auto simp: z_id_len_def nth_append\<close>)
qed

lemma zid_emits: "zid_ok i \<Longrightarrow> emits (\<lambda>wbf. z_wbuf_write_bytes H wbf i 0 (z_id_len i)) (take (z_id_len i) i)"
  using zid_len(2) [of i] by (intro emits_front) (simp add: zid_ok_def)

lemma nibble: "1 \<le> n \<Longrightarrow> n \<le> 16 \<Longrightarrow> unat (drop_bit 4 (zid_cbyte w n AND 0xF0) + 1) = n"
proof -
  assume n: "1 \<le> n" "n \<le> 16"
  define k where "k = n - 1"
  then have k: "n = k + 1" "k < 16" using n by auto
  have "drop_bit 4 (zid_cbyte w n AND 0xF0) = (of_nat k AND 0x0F :: u8)"
    unfolding zid_cbyte_def k(1)
    by (rule u8_eqI) (auto simp: z_whatami_to_uint8_def bit_simps)
  also have "\<dots> = of_nat k"
  proof -
    have "\<forall>k \<in> set [0..<16]. (of_nat k AND 0x0F :: u8) = of_nat k" by (simp add: upt_rec)
    then show ?thesis using k(2) by (simp del: upt_rec_numeral)
  qed
  finally show ?thesis using k by (simp add: unat_word_ariths unat_of_nat)
qed

lemma zid_read_takes:
  assumes "zb_ok zbf" "n \<le> 16"
  shows "n \<le> length (zb_data zbf) \<Longrightarrow> \<exists>zbf'. zid_read n zbf = Some (Inr (memcpy_at z_id_empty 0 (take n (zb_data zbf))), zbf') \<and>
      zb_ok zbf' \<and> zb_data zbf' = drop n (zb_data zbf)"
    "length (zb_data zbf) < n \<Longrightarrow> zid_read n zbf = fail_decode zbf"
proof -
  assume l: "n \<le> length (zb_data zbf)"
  then obtain ios where "z_iosli_read_bytes (zb_ios zbf) z_id_empty 0 n = Some (memcpy_at z_id_empty 0 (take n (ios_data (zb_ios zbf))), ios)"
    "ios_ok ios" "ios_data ios = drop n (ios_data (zb_ios zbf))" "ios_is_alloc ios = ios_is_alloc (zb_ios zbf)"
    using ios_read_bytes [of "zb_ios zbf" n 0 z_id_empty] assms by (auto simp: zb_ok_def zb_data_def z_id_empty_def)
  moreover have "n \<le> z_zbuf_len zbf" using l assms(1) by simp
  ultimately show "\<exists>zbf'. zid_read n zbf = Some (Inr (memcpy_at z_id_empty 0 (take n (zb_data zbf))), zbf') \<and>
      zb_ok zbf' \<and> zb_data zbf' = drop n (zb_data zbf)"
    by (auto simp: zid_read_def z_zbuf_read_bytes_def zb_ok_def zb_data_def)
next
  assume "length (zb_data zbf) < n"
  then show "zid_read n zbf = fail_decode zbf" using assms(1) by (simp add: zid_read_def)
qed

lemma zid_reads:
  assumes "zid_ok i"
  shows "reads (zid_decode (zid_cbyte w (z_id_len i))) (take (z_id_len i) i) i"
proof -
  note n = zid_len [OF assms]
  have l: "length (take (z_id_len i) i) = z_id_len i" using n(2) assms by (simp add: zid_ok_def)
  have m: "memcpy_at z_id_empty 0 (take (z_id_len i) i) = i" using n(3) l by (simp add: memcpy_at_def z_id_empty_def)
  from takes_reads [where f = "memcpy_at z_id_empty 0", OF zid_read_takes(1) zid_read_takes(2) l, OF _ n(2) _ _ n(2)]
  show ?thesis unfolding m zid_decode_def [abs_def] nibble [OF n(1,2)] by blast
qed

lemma zid_in_bounds [bounds_intros]: "in_bounds (zid_decode cbyte)"
proof -
  let ?n = "unat (drop_bit 4 (cbyte AND 0xF0) + 1)"
  have "drop_bit 4 (cbyte AND 0xF0) = take_bit 4 (drop_bit 4 cbyte)" by (rule u8_eqI) (auto simp: bit_simps)
  then have "unat (drop_bit 4 (cbyte AND 0xF0)) = take_bit 4 (unat (drop_bit 4 cbyte))" by (simp only: unsigned_take_bit_eq)
  then have "unat (drop_bit 4 (cbyte AND 0xF0)) < 16" using take_bit_nat_less_exp [of 4 "unat (drop_bit 4 cbyte)"] by simp
  then have l: "?n \<le> 16" by (simp only: unat_word_ariths) simp
  show ?thesis unfolding zid_decode_def [abs_def]
    by (rule takes_in_bounds [where n = ?n]) (use zid_read_takes [OF _ l] in blast)+
qed

section \<open>Resolutions, patch and extensions\<close>

definition res_wire :: "u8 \<Rightarrow> u8 \<Rightarrow> u16 \<Rightarrow> bytes" where
  "res_wire sres rres batch = res_cbyte sres rres # u16_wire batch"

lemma res_emits: "emits (\<lambda>wbf h. if_ok (z_uint8_encode H wbf (res_cbyte s r) h) (\<lambda>wbf h. z_uint16_encode H wbf b h)) (res_wire s r b)"
  using emits_seq [OF uint8_emits uint16_emits] by (simp add: res_wire_def)

lemma res_reads:
  assumes "s AND 0x03 = s" "r AND 0x03 = r"
  shows "reads (\<lambda>zbf. res_decode zbf False) (res_wire s r b) (s, r, b)"
proof -
  have "reads (decode_both z_uint8_decode (z_uint16_decode False)) ([res_cbyte s r] @ u16_wire b) (res_cbyte s r, b)"
    by (rule both_reads [OF uint8_reads uint16_reads uint16_in_bounds])
  moreover have "res_cbyte s r AND 0x03 = s AND 0x03" "drop_bit 2 (res_cbyte s r) AND 0x03 = r AND 0x03"
    by (auto simp: res_cbyte_def bit_simps intro!: u8_eqI)
  ultimately show ?thesis
    unfolding res_decode_def by (intro reads_then) (auto simp: res_wire_def assms)
qed

lemma res_in_bounds [bounds_intros]: "in_bounds (\<lambda>zbf. res_decode zbf swap)"
  unfolding res_decode_def by (intro in_bounds_seq both_in_bounds uint8_in_bounds uint16_in_bounds) (auto intro: bounds_intros split: prod.split)

definition patch_wire :: "u8 \<Rightarrow> bytes" where
  "patch_wire patch = (if patch \<noteq> NO_PATCH then 0x27 # vle 8 (ucast patch) else [])"

lemma patch_emits:
  assumes "patch \<noteq> NO_PATCH \<Longrightarrow> HAS_FLAG header FLAG_T_Z"
  shows "emits (\<lambda>wbf. patch_encode H wbf header patch Z_OK) (patch_wire patch)"
proof (cases "patch = NO_PATCH")
  case False
  have "emits (\<lambda>wbf h. if_ok (z_uint8_encode H wbf 0x27 h) (\<lambda>wbf h.
          if_ok (z_zint64_encode H wbf (ucast patch) h) (\<lambda>wbf h. Some (Z_OK, wbf, h)))) ([0x27] @ vle 8 (ucast patch) @ [])"
    by (intro emits_seq uint8_emits zint64_emits emits_nothing)
  then show ?thesis using False assms by (simp add: patch_encode_def [abs_def] patch_wire_def)
qed (simp add: patch_encode_def [abs_def] patch_wire_def emits_nothing)

lemma patch_ext:
  "ext_valid \<lparr>ext_header = 0x27, ext_body = Ext_zint v\<rparr>"
  "ext_wire \<lparr>ext_header = 0x27, ext_body = Ext_zint v\<rparr> False = 0x27 # vle 8 v"
  by (simp_all add: EXT_ENC_def ext_wire_def EXT_FULL_ID_def EXT_MORE_def)

section \<open>Init and open messages\<close>

definition init_ok :: "u8 \<Rightarrow> z_t_msg_init \<Rightarrow> bool" where
  "init_ok header m \<longleftrightarrow> zid_ok (init_zid m) \<and> whatami_valid (init_whatami m) \<and> length (init_cookie m) \<le> SIZE_MAX \<and>
     init_seq_num_res m AND 0x03 = init_seq_num_res m \<and> init_req_id_res m AND 0x03 = init_req_id_res m \<and>
     (HAS_FLAG header FLAG_T_INIT_S \<or> init_seq_num_res m = DEFAULT_RESOLUTION_SIZE \<and> init_req_id_res m = DEFAULT_RESOLUTION_SIZE \<and>
        init_batch_size m = DEFAULT_UNICAST_BATCH_SIZE) \<and>
     (HAS_FLAG header FLAG_T_INIT_A \<or> init_cookie m = []) \<and> (HAS_FLAG header FLAG_T_Z \<longleftrightarrow> init_patch m \<noteq> NO_PATCH)"

definition init_wire :: "u8 \<Rightarrow> z_t_msg_init \<Rightarrow> bytes" where
  "init_wire header m =
     ([init_version m] @ [zid_cbyte (init_whatami m) (z_id_len (init_zid m))]) @ take (z_id_len (init_zid m)) (init_zid m) @
     (if HAS_FLAG header FLAG_T_INIT_S then res_wire (init_seq_num_res m) (init_req_id_res m) (init_batch_size m) else []) @
     (if HAS_FLAG header FLAG_T_INIT_A then sized (init_cookie m) else []) @ patch_wire (init_patch m)"

lemma init_emits: "init_ok header m \<Longrightarrow> emits (\<lambda>wbf. z_init_encode H wbf header m) (init_wire header m)"
  unfolding z_init_encode_def [abs_def] init_wire_def Let_def append_assoc
  by (intro emits_seq emits_byte uint8_emits zid_emits emits_if res_emits emits_nothing slice_emits patch_emits) (auto simp: init_ok_def)

lemma whatami_cbyte: "whatami_valid w \<Longrightarrow> z_whatami_from_uint8 (zid_cbyte w n) = w"
proof -
  assume "whatami_valid w"
  moreover have "zid_cbyte w n AND 3 = z_whatami_to_uint8 w AND 3"
    by (rule u8_eqI) (auto simp: zid_cbyte_def bit_simps)
  ultimately show ?thesis using whatami_back [of w] by (simp add: z_whatami_from_uint8_def)
qed

lemma init_reads:
  assumes ok: "init_ok header m"
  shows "reads (z_init_decode False header) (init_wire header m) m"
  unfolding z_init_decode_def [abs_def] init_wire_def
proof (rule reads_seq [OF both_reads [OF uint8_reads uint8_reads uint8_in_bounds]], unfold prod.case,
    rule reads_seq [OF zid_reads], goal_cases)
  case 1
  then show ?case using ok by (simp add: init_ok_def)
next
  case 2
  let ?S = "HAS_FLAG header FLAG_T_INIT_S" and ?A = "HAS_FLAG header FLAG_T_INIT_A" and ?Z = "HAS_FLAG header FLAG_T_Z"
  let ?m = "m\<lparr>init_patch := NO_PATCH\<rparr>"
  have S: "reads (\<lambda>zbf. if ?S then res_decode zbf False
         else Some (Inr (DEFAULT_RESOLUTION_SIZE, DEFAULT_RESOLUTION_SIZE, DEFAULT_UNICAST_BATCH_SIZE), zbf))
      (if ?S then res_wire (init_seq_num_res m) (init_req_id_res m) (init_batch_size m) else [])
      (init_seq_num_res m, init_req_id_res m, init_batch_size m)"
    using ok res_reads by (auto simp: init_ok_def reads_nothing)
  have A: "reads (\<lambda>zbf. if ?A then z_slice_decode zbf else Some (Inr [], zbf)) (if ?A then sized (init_cookie m) else []) (init_cookie m)"
    using ok slice_reads by (auto simp: init_ok_def reads_nothing)
  have Z: "reads (\<lambda>zbf. if ?Z then z_msg_ext_decode_iter z_init_decode_ext ?m zbf else Some (Inr ?m, zbf)) (patch_wire (init_patch m)) m"
  proof (cases ?Z)
    case True
    have "z_init_decode_ext \<lparr>ext_header = 0x27, ext_body = Ext_zint (ucast (init_patch m))\<rparr> ?m = Some (Z_OK, m)"
      by (simp add: z_init_decode_ext_def EXT_FULL_ID_def ucast_up_ucast_id is_up)
    from iter_reads_one [where callback = z_init_decode_ext, OF patch_ext(1) this] True ok show ?thesis by (simp add: patch_ext(2) init_ok_def patch_wire_def)
  next
    case False
    then have e: "?m = m" "patch_wire (init_patch m) = []" using ok by (cases m, simp_all add: init_ok_def patch_wire_def)
    show ?thesis unfolding e using False by (simp add: reads_nothing)
  qed
  have w: "z_whatami_from_uint8 (zid_cbyte (init_whatami m) (z_id_len (init_zid m))) = init_whatami m"
    using ok by (intro whatami_cbyte) (simp add: init_ok_def)
  have e: "\<lparr>init_zid = init_zid m, init_cookie = init_cookie m, init_batch_size = init_batch_size m, init_whatami = init_whatami m,
      init_req_id_res = init_req_id_res m, init_seq_num_res = init_seq_num_res m, init_version = init_version m, init_patch = NO_PATCH\<rparr> = ?m"
    by simp
  show ?case
    by (rule reads_seq [OF S], unfold prod.case, rule reads_seq [OF A], unfold w Let_def e, rule Z)
qed

definition open_ok :: "u8 \<Rightarrow> z_t_msg_open \<Rightarrow> bool" where
  "open_ok header m \<longleftrightarrow> (HAS_FLAG header FLAG_T_OPEN_T \<longrightarrow> open_lease m mod 1000 = 0) \<and> length (open_cookie m) \<le> SIZE_MAX \<and>
     (HAS_FLAG header FLAG_T_OPEN_A \<longrightarrow> open_cookie m = []) \<and> \<not> HAS_FLAG header FLAG_T_Z"

definition lease_wire :: "bool \<Rightarrow> u32 \<Rightarrow> bytes" where
  "lease_wire seconds lease = (if seconds then sn_wire (lease div 1000) else sn_wire lease)"

definition open_wire :: "u8 \<Rightarrow> z_t_msg_open \<Rightarrow> bytes" where
  "open_wire header m = (lease_wire (HAS_FLAG header FLAG_T_OPEN_T) (open_lease m) @ sn_wire (open_initial_sn m)) @
     (if \<not> HAS_FLAG header FLAG_T_OPEN_A then sized (open_cookie m) else [])"

lemma lease_emits:
  "emits (\<lambda>wbf h. if T then z_zsize_encode H wbf (unat (lease div 1000)) h else z_zsize_encode H wbf (unat lease) h) (lease_wire T lease)"
  unfolding lease_wire_def by (intro emits_if zsize_emits)

lemma open_emits: "emits (\<lambda>wbf. z_open_encode H wbf header m) (open_wire header m)"
  unfolding z_open_encode_def [abs_def] open_wire_def append_assoc
  by (intro emits_seq lease_emits zsize_emits emits_if slice_emits emits_nothing)

lemma lease_back: "(T \<longrightarrow> lease mod 1000 = 0) \<Longrightarrow> (if T then (if T then lease div 1000 else lease) * 1000 else (if T then lease div 1000 else lease)) = lease"
  for lease :: u32
proof (cases T)
  case True
  assume "T \<longrightarrow> lease mod 1000 = 0"
  with True have "lease mod 1000 = 0" by blast
  then have "lease div 1000 * 1000 = lease" using div_mult_mod_eq [of lease 1000] by (simp only: add_0_right)
  then show ?thesis using True by (simp only: if_True)
qed (simp only: if_False)

lemma lease_reads: "reads zsn_decode (lease_wire T lease) (if T then lease div 1000 else lease)"
  unfolding lease_wire_def by (cases T) (simp_all only: if_True if_False zsn_reads)

lemma open_reads:
  assumes ok: "open_ok header m"
  shows "reads (z_open_decode header) (open_wire header m) m"
  unfolding z_open_decode_def [abs_def] open_wire_def
proof (rule reads_seq [OF both_reads [OF lease_reads zsn_reads zsn_in_bounds]], unfold prod.case)
  let ?A = "HAS_FLAG header FLAG_T_OPEN_A"
  have A: "reads (\<lambda>zbf. if \<not> ?A then z_slice_decode zbf else Some (Inr [], zbf)) (if \<not> ?A then sized (open_cookie m) else []) (open_cookie m)"
    using ok slice_reads by (auto simp: open_ok_def reads_nothing)
  show "reads (\<lambda>zbf. on_value (if \<not> ?A then z_slice_decode zbf else Some (Inr [], zbf)) (\<lambda>cookie zbf.
       let msg = \<lparr>open_lease = (if HAS_FLAG header FLAG_T_OPEN_T then (if HAS_FLAG header FLAG_T_OPEN_T then open_lease m div 1000 else open_lease m) * 1000
                    else (if HAS_FLAG header FLAG_T_OPEN_T then open_lease m div 1000 else open_lease m)), open_initial_sn = open_initial_sn m, open_cookie = cookie\<rparr>
       in if HAS_FLAG header FLAG_T_Z then on_value (z_msg_ext_skip_non_mandatories zbf) (\<lambda>_ zbf. Some (Inr msg, zbf))
          else Some (Inr msg, zbf))) (if \<not> ?A then sized (open_cookie m) else []) m"
    using ok by (intro reads_then [OF A]) (simp add: open_ok_def Let_def lease_back)
qed

section \<open>Join messages\<close>

fun qos_wire :: "z_conduit_sn list \<Rightarrow> bytes" where
  "qos_wire [] = []"
| "qos_wire (s # q) = (sn_wire (sn_reliable s) @ sn_wire (sn_best_effort s)) @ qos_wire q"

lemma qos_emits: "emits (\<lambda>wbf. qos_encode H wbf q) (qos_wire q)"
proof (induction q)
  case (Cons s q)
  have "emits (\<lambda>wbf h. if_ok (z_zsize_encode H wbf (unat (sn_reliable s)) h) (\<lambda>wbf h.
     if_ok (z_zsize_encode H wbf (unat (sn_best_effort s)) h) (\<lambda>wbf h. qos_encode H wbf q h)))
     (sn_wire (sn_reliable s) @ sn_wire (sn_best_effort s) @ qos_wire q)"
    by (intro emits_seq zsize_emits Cons.IH)
  then show ?case unfolding qos_wire.simps append_assoc qos_encode.simps .
qed (simp add: emits_nothing)

lemma sn_wire_len: "length (sn_wire v) = z_zint_len (ucast v)"
  by (simp add: zint_len_vle)

lemma qos_len: "qos_len q = length (qos_wire q)"
  by (induction q) (simp_all add: zint_len_vle)

lemma qos_wire_bound: "length (qos_wire q) \<le> 18 * length q"
proof (induction q)
  case (Cons s q)
  then show ?case using vle_bound [of 8 "of_nat (unat (sn_reliable s))"] vle_bound [of 8 "of_nat (unat (sn_best_effort s))"] by simp
qed simp

lemma qos_reads: "reads (qos_decode (length q)) (qos_wire q) q"
proof (induction q)
  case Nil
  then show ?case by (simp add: reads_nothing)
next
  case (Cons s q)
  let ?f = "\<lambda>(r, b) zbf. on_value (qos_decode (length q) zbf) (\<lambda>q zbf. Some (Inr (\<lparr>sn_reliable = r, sn_best_effort = b\<rparr> # q), zbf))"
  have "reads (?f (sn_reliable s, sn_best_effort s)) (qos_wire q) (s # q)"
    unfolding prod.case by (rule reads_then [OF Cons.IH]) simp
  from reads_seq [where f = ?f, OF both_reads [OF zsn_reads zsn_reads zsn_in_bounds] this]
  show ?case by (simp only: list.size qos_decode.simps add_0_right add_Suc_right qos_wire.simps)
qed

lemma qos_in_bounds: "in_bounds (qos_decode n)"
proof (induction n)
  case (Suc n)
  have "in_bounds (\<lambda>zbf. on_value (qos_decode n zbf) (\<lambda>q zbf. Some (Inr (\<lparr>sn_reliable = r, sn_best_effort = b\<rparr> # q), zbf)))" for r b
    by (intro in_bounds_seq Suc.IH in_bounds_value)
  then show ?case unfolding qos_decode.simps
    by (intro in_bounds_seq both_in_bounds zsn_in_bounds) (simp split: prod.split)
qed (simp add: in_bounds_value)

definition join_qos :: "z_t_msg_join \<Rightarrow> bool" where
  "join_qos m \<longleftrightarrow> (case join_next_sn m of Plain_sn _ \<Rightarrow> False | Qos_sn _ \<Rightarrow> True)"

definition join_ok :: "u8 \<Rightarrow> z_t_msg_join \<Rightarrow> bool" where
  "join_ok header m \<longleftrightarrow> zid_ok (join_zid m) \<and> whatami_valid (join_whatami m) \<and>
     join_seq_num_res m AND 0x03 = join_seq_num_res m \<and> join_req_id_res m AND 0x03 = join_req_id_res m \<and>
     (HAS_FLAG header FLAG_T_JOIN_S \<or> join_seq_num_res m = DEFAULT_RESOLUTION_SIZE \<and> join_req_id_res m = DEFAULT_RESOLUTION_SIZE \<and>
        join_batch_size m = DEFAULT_MULTICAST_BATCH_SIZE) \<and>
     (HAS_FLAG header FLAG_T_JOIN_T \<longrightarrow> join_lease m mod 1000 = 0) \<and>
     (\<forall>q. join_next_sn m = Qos_sn q \<longrightarrow> length q = Z_PRIORITIES_NUM) \<and>
     (HAS_FLAG header FLAG_T_Z \<longleftrightarrow> join_qos m \<or> join_patch m \<noteq> NO_PATCH)"

definition join_ext_wire :: "z_t_msg_join \<Rightarrow> bytes" where
  "join_ext_wire m = (case join_next_sn m of
     Plain_sn _ \<Rightarrow> patch_wire (join_patch m)
   | Qos_sn q \<Rightarrow> ext_wire \<lparr>ext_header = 0x51, ext_body = Ext_zbuf (qos_wire q)\<rparr> (join_patch m \<noteq> NO_PATCH) @ patch_wire (join_patch m))"

definition join_wire :: "u8 \<Rightarrow> z_t_msg_join \<Rightarrow> bytes" where
  "join_wire header m =
     ([join_version m] @ [zid_cbyte (join_whatami m) (z_id_len (join_zid m))]) @ take (z_id_len (join_zid m)) (join_zid m) @
     (if HAS_FLAG header FLAG_T_JOIN_S then res_wire (join_seq_num_res m) (join_req_id_res m) (join_batch_size m) else []) @
     lease_wire (HAS_FLAG header FLAG_T_JOIN_T) (join_lease m) @
     (sn_wire (sn_reliable (sn_plain (join_next_sn m))) @ sn_wire (sn_best_effort (sn_plain (join_next_sn m)))) @ join_ext_wire m"

lemma qos_ext:
  "length q = Z_PRIORITIES_NUM \<Longrightarrow> ext_valid \<lparr>ext_header = 0x51, ext_body = Ext_zbuf (qos_wire q)\<rparr>"
  "ext_wire \<lparr>ext_header = 0x51, ext_body = Ext_zbuf (qos_wire q)\<rparr> has_more = (0x51 OR EXT_MORE has_more) # sized (qos_wire q)"
  using qos_wire_bound [of q] by (simp_all add: EXT_ENC_def SIZE_MAX_def ext_wire_def EXT_FULL_ID_def)

lemma join_emits:
  assumes "join_ok header m"
  shows "emits (\<lambda>wbf. z_join_encode H wbf header m) (join_wire header m)"
proof -
  have e: "emits (\<lambda>wbf h. case join_next_sn m of
          Plain_sn _ \<Rightarrow> patch_encode H wbf header (join_patch m) Z_OK h
        | Qos_sn q \<Rightarrow>
            if HAS_FLAG header FLAG_T_Z then
              if_ok (z_uint8_encode H wbf (0x51 OR EXT_MORE (join_patch m \<noteq> NO_PATCH)) h) (\<lambda>wbf h.
              if_ok (z_zsize_encode H wbf (qos_len q) h) (\<lambda>wbf h.
              if_ok (qos_encode H wbf q h) (\<lambda>wbf h. patch_encode H wbf header (join_patch m) Z_OK h)))
            else patch_encode H wbf header (join_patch m) Z_ERR_MESSAGE_SERIALIZATION_FAILED h) (join_ext_wire m)"
  proof (cases "join_next_sn m")
    case (Plain_sn s)
    then show ?thesis using patch_emits [of "join_patch m" header H] assms by (auto simp: join_ext_wire_def join_ok_def)
  next
    case (Qos_sn q)
    then have z: "HAS_FLAG header FLAG_T_Z" using assms by (simp add: join_ok_def join_qos_def)
    have "emits (\<lambda>wbf h. if_ok (z_uint8_encode H wbf (0x51 OR EXT_MORE (join_patch m \<noteq> NO_PATCH)) h) (\<lambda>wbf h.
              if_ok (z_zsize_encode H wbf (qos_len q) h) (\<lambda>wbf h.
              if_ok (qos_encode H wbf q h) (\<lambda>wbf h. patch_encode H wbf header (join_patch m) Z_OK h))))
       ([0x51 OR EXT_MORE (join_patch m \<noteq> NO_PATCH)] @ zint_wire (of_nat (qos_len q)) @ qos_wire q @ patch_wire (join_patch m))"
      by (intro emits_seq uint8_emits zsize_emits qos_emits patch_emits z)
    then show ?thesis using z Qos_sn by (simp add: join_ext_wire_def qos_ext(2) qos_len)
  qed
  show ?thesis
    unfolding z_join_encode_def [abs_def] join_wire_def Let_def append_assoc
    by (intro emits_seq emits_byte uint8_emits zid_emits emits_if res_emits emits_nothing lease_emits zsize_emits e)
      (use assms in \<open>simp add: join_ok_def\<close>)
qed

lemma join_ext_reads:
  assumes ok: "join_ok header m"
  defines "m0 \<equiv> m\<lparr>join_next_sn := Plain_sn (sn_plain (join_next_sn m)), join_patch := NO_PATCH\<rparr>"
  shows "reads (\<lambda>zbf. if HAS_FLAG header FLAG_T_Z then z_msg_ext_decode_iter z_join_decode_ext m0 zbf else Some (Inr m0, zbf)) (join_ext_wire m) m"
proof -
  let ?Z = "HAS_FLAG header FLAG_T_Z" and ?p = "\<lparr>ext_header = 0x27, ext_body = Ext_zint (ucast (join_patch m))\<rparr>"
  have p: "z_join_decode_ext ?p x = Some (Z_OK, x\<lparr>join_patch := join_patch m\<rparr>)" for x
    by (simp add: z_join_decode_ext_def EXT_FULL_ID_def ucast_up_ucast_id is_up)
  have pw: "patch_wire (join_patch m) = (if join_patch m = NO_PATCH then [] else ext_wire ?p False)"
    by (simp add: patch_wire_def patch_ext(2))
  note pr = iter_reads_one [where callback = z_join_decode_ext, OF patch_ext(1) p]
  show ?thesis
  proof (cases "join_next_sn m")
    case (Plain_sn s)
    then have m0: "m0\<lparr>join_patch := join_patch m\<rparr> = m" and z: "?Z \<longleftrightarrow> join_patch m \<noteq> NO_PATCH"
      using ok by (cases m, simp_all add: m0_def sn_plain_def join_ok_def join_qos_def)
    show ?thesis
    proof (cases ?Z)
      case True
      then show ?thesis using pr [of m0] z Plain_sn by (simp add: join_ext_wire_def pw m0)
    next
      case False
      have e1: "join_ext_wire m = []" using False z Plain_sn by (simp add: join_ext_wire_def patch_wire_def)
      have e2: "m0 = m" using False z Plain_sn by (cases m) (simp add: m0_def sn_plain_def)
      show ?thesis unfolding e1 e2 using False by (simp add: reads_nothing)
    qed
  next
    case (Qos_sn q)
    then have z: ?Z and l: "length q = Z_PRIORITIES_NUM" using ok by (simp_all add: join_ok_def join_qos_def)
    let ?q = "\<lparr>ext_header = 0x51, ext_body = Ext_zbuf (qos_wire q)\<rparr>"
    have "\<exists>zbf. qos_decode Z_PRIORITIES_NUM (z_slice_as_zbuf (qos_wire q)) = Some (Inr q, zbf) \<and> zb_ok zbf \<and> zb_data zbf = []"
      using readsD(1) [OF qos_reads [of q], of "z_slice_as_zbuf (qos_wire q)" "[]"] l by simp
    then have c: "z_join_decode_ext ?q m0 = Some (Z_OK, m0\<lparr>join_next_sn := Qos_sn q\<rparr>)"
      by (auto simp: z_join_decode_ext_def EXT_FULL_ID_def)
    have m1: "m0\<lparr>join_next_sn := Qos_sn q, join_patch := join_patch m\<rparr> = m" using Qos_sn by (cases m) (simp add: m0_def)
    show ?thesis
    proof (cases "join_patch m = NO_PATCH")
      case True
      then have m2: "m0\<lparr>join_next_sn := Qos_sn q\<rparr> = m" using m1 by (cases m) (simp add: m0_def)
      show ?thesis
        using iter_reads_one [where callback = z_join_decode_ext, OF qos_ext(1) [OF l] c] z True Qos_sn
        by (simp add: join_ext_wire_def patch_wire_def m2)
    next
      case False
      show ?thesis
        using iter_reads_more [where callback = z_join_decode_ext, OF qos_ext(1) [OF l] c pr] z False Qos_sn
        by (simp add: join_ext_wire_def pw m1)
    qed
  qed
qed

lemma join_reads:
  assumes ok: "join_ok header m"
  shows "reads (z_join_decode False header) (join_wire header m) m"
  unfolding z_join_decode_def [abs_def] join_wire_def
proof (rule reads_seq [OF both_reads [OF uint8_reads uint8_reads uint8_in_bounds]], unfold prod.case,
    rule reads_seq [OF zid_reads], goal_cases)
  case 1
  then show ?case using ok by (simp add: join_ok_def)
next
  case 2
  let ?S = "HAS_FLAG header FLAG_T_JOIN_S" and ?T = "HAS_FLAG header FLAG_T_JOIN_T"
  let ?m = "m\<lparr>join_next_sn := Plain_sn (sn_plain (join_next_sn m)), join_patch := NO_PATCH\<rparr>"
  have S: "reads (\<lambda>zbf. if ?S then res_decode zbf False
         else Some (Inr (DEFAULT_RESOLUTION_SIZE, DEFAULT_RESOLUTION_SIZE, DEFAULT_MULTICAST_BATCH_SIZE), zbf))
      (if ?S then res_wire (join_seq_num_res m) (join_req_id_res m) (join_batch_size m) else [])
      (join_seq_num_res m, join_req_id_res m, join_batch_size m)"
    using ok res_reads by (auto simp: join_ok_def reads_nothing)
  have w: "z_whatami_from_uint8 (zid_cbyte (join_whatami m) (z_id_len (join_zid m))) = join_whatami m"
    using ok by (intro whatami_cbyte) (simp add: join_ok_def)
  have l: "(if ?T then (if ?T then join_lease m div 1000 else join_lease m) * 1000 else (if ?T then join_lease m div 1000 else join_lease m)) =
      join_lease m"
    using ok by (intro lease_back) (simp add: join_ok_def)
  have e: "\<lparr>join_zid = join_zid m, join_lease = join_lease m,
      join_next_sn = Plain_sn \<lparr>sn_reliable = sn_reliable (sn_plain (join_next_sn m)), sn_best_effort = sn_best_effort (sn_plain (join_next_sn m))\<rparr>,
      join_batch_size = join_batch_size m, join_whatami = join_whatami m, join_req_id_res = join_req_id_res m,
      join_seq_num_res = join_seq_num_res m, join_version = join_version m, join_patch = NO_PATCH\<rparr> = ?m"
    by simp
  show ?case
    by (rule reads_seq [OF S], unfold prod.case, rule reads_seq [OF lease_reads],
        rule reads_seq [OF both_reads [OF zsn_reads zsn_reads zsn_in_bounds]], unfold prod.case w l Let_def e,
        rule join_ext_reads [OF ok])
qed

section \<open>Messages of a session\<close>

definition tm_wire :: "z_transport_message \<Rightarrow> bytes" where
  "tm_wire msg = [tm_header msg] @ (case tm_body msg of
     T_join m \<Rightarrow> join_wire (tm_header msg) m | T_init m \<Rightarrow> init_wire (tm_header msg) m | T_open m \<Rightarrow> open_wire (tm_header msg) m
   | T_close r \<Rightarrow> [r] | _ \<Rightarrow> [])"

text \<open>The messages that have an end of their own: all but frames and fragments.\<close>

definition tm_ok :: "z_transport_message \<Rightarrow> bool" where
  "tm_ok msg \<longleftrightarrow> (case tm_body msg of
     T_join m \<Rightarrow> Z_MID (tm_header msg) = MID_T_JOIN \<and> join_ok (tm_header msg) m
   | T_init m \<Rightarrow> Z_MID (tm_header msg) = MID_T_INIT \<and> init_ok (tm_header msg) m
   | T_open m \<Rightarrow> Z_MID (tm_header msg) = MID_T_OPEN \<and> open_ok (tm_header msg) m
   | T_close r \<Rightarrow> Z_MID (tm_header msg) = MID_T_CLOSE
   | T_keep_alive \<Rightarrow> Z_MID (tm_header msg) = MID_T_KEEP_ALIVE \<and> \<not> HAS_FLAG (tm_header msg) FLAG_T_Z
   | _ \<Rightarrow> False)"

lemma message_emits: "tm_ok msg \<Longrightarrow> emits (\<lambda>wbf. z_transport_message_encode H wbf msg) (tm_wire msg)"
  unfolding z_transport_message_encode_def [abs_def] tm_wire_def Let_def
proof (intro emits_seq emits_byte)
  assume ok: "tm_ok msg"
  let ?h = "tm_header msg"
  show "emits (\<lambda>wbf h. if Z_MID ?h = MID_T_FRAME then (case tm_body msg of T_frame m \<Rightarrow> z_frame_encode H wbf ?h m h | _ \<Rightarrow> None)
       else if Z_MID ?h = MID_T_FRAGMENT then (case tm_body msg of T_fragment m \<Rightarrow> z_fragment_encode H wbf ?h m h | _ \<Rightarrow> None)
       else if Z_MID ?h = MID_T_KEEP_ALIVE then z_keep_alive_encode wbf ?h h
       else if Z_MID ?h = MID_T_JOIN then (case tm_body msg of T_join m \<Rightarrow> z_join_encode H wbf ?h m h | _ \<Rightarrow> None)
       else if Z_MID ?h = MID_T_INIT then (case tm_body msg of T_init m \<Rightarrow> z_init_encode H wbf ?h m h | _ \<Rightarrow> None)
       else if Z_MID ?h = MID_T_OPEN then (case tm_body msg of T_open m \<Rightarrow> z_open_encode H wbf ?h m h | _ \<Rightarrow> None)
       else if Z_MID ?h = MID_T_CLOSE then (case tm_body msg of T_close r \<Rightarrow> z_close_encode H wbf ?h r h | _ \<Rightarrow> None)
       else Some (Z_ERR_MESSAGE_TRANSPORT_UNKNOWN, wbf, h))
     (case tm_body msg of T_join m \<Rightarrow> join_wire ?h m | T_init m \<Rightarrow> init_wire ?h m | T_open m \<Rightarrow> open_wire ?h m | T_close r \<Rightarrow> [r] | _ \<Rightarrow> [])"
    using ok by (cases "tm_body msg") (simp_all add: tm_ok_def z_close_encode_def z_keep_alive_encode_def
        join_emits init_emits open_emits emits_byte emits_nothing)
qed

lemma body_reads:
  "reads (d header) w m \<Longrightarrow> reads (body_decode d c header) w \<lparr>tm_body = c m, tm_header = header\<rparr>"
  unfolding body_decode_def [abs_def] by (rule reads_then) simp_all

lemma message_reads:
  assumes ok: "tm_ok msg"
  shows "reads (z_transport_message_decode False) (tm_wire msg) msg"
  unfolding z_transport_message_decode_def [abs_def] tm_wire_def
proof (rule reads_seq [OF uint8_reads], goal_cases)
  case 1
  obtain b h where m: "msg = \<lparr>tm_body = b, tm_header = h\<rparr>" by (cases msg)
  have j: "join_ok h x \<Longrightarrow> reads (body_decode (z_join_decode False) T_join h) (join_wire h x) \<lparr>tm_body = T_join x, tm_header = h\<rparr>"
    and i: "init_ok h y \<Longrightarrow> reads (body_decode (z_init_decode False) T_init h) (init_wire h y) \<lparr>tm_body = T_init y, tm_header = h\<rparr>"
    and op: "open_ok h z \<Longrightarrow> reads (body_decode z_open_decode T_open h) (open_wire h z) \<lparr>tm_body = T_open z, tm_header = h\<rparr>" for x y z
    by (auto intro: body_reads join_reads init_reads open_reads)
  have c: "reads (body_decode z_close_decode T_close h) [r] \<lparr>tm_body = T_close r, tm_header = h\<rparr>" for r
    by (rule body_reads) (simp add: z_close_decode_def [abs_def] uint8_reads)
  have k: "\<not> HAS_FLAG h FLAG_T_Z \<Longrightarrow> reads (body_decode z_keep_alive_decode (\<lambda>_. T_keep_alive) h) [] \<lparr>tm_body = T_keep_alive, tm_header = h\<rparr>"
    by (rule body_reads [where c = "\<lambda>_. T_keep_alive"]) (simp add: z_keep_alive_decode_def [abs_def] reads_nothing)
  show ?case using ok j i op c k unfolding m by (cases b) (simp_all add: tm_ok_def Let_def)
qed

interpretation messages: wire_codec "\<lambda>msg wbf. z_transport_message_encode H wbf msg" "z_transport_message_decode False" tm_wire tm_ok
  for H :: "'h heap"
  by unfold_locales (simp_all add: message_emits message_reads)

text \<open>
  What the builders of join, init, open, close and keep-alive messages make of an identifier that is not zero, a valid role, eight pairs of
  numbers where there are numbers per priority and a cookie whose length is a \<open>size_t\<close>. Frames and fragments are not among them: they
  reach to the end of the buffer (\<open>ZTxProps\<close>).
\<close>

inductive session_message :: "z_transport_message \<Rightarrow> bool" where
  join: "zid_ok zid \<Longrightarrow> whatami_valid w \<Longrightarrow> (\<forall>q. sns = Qos_sn q \<longrightarrow> length q = Z_PRIORITIES_NUM) \<Longrightarrow>
    session_message (z_t_msg_make_join w lease zid sns)"
| init_syn: "zid_ok zid \<Longrightarrow> whatami_valid w \<Longrightarrow> session_message (z_t_msg_make_init_syn w zid)"
| init_ack: "zid_ok zid \<Longrightarrow> whatami_valid w \<Longrightarrow> length cookie \<le> SIZE_MAX \<Longrightarrow> session_message (z_t_msg_make_init_ack w zid cookie)"
| open_syn: "length cookie \<le> SIZE_MAX \<Longrightarrow> session_message (z_t_msg_make_open_syn lease sn cookie)"
| open_ack: "session_message (z_t_msg_make_open_ack lease sn)"
| close: "session_message (z_t_msg_make_close reason link_only)"
| keep_alive: "session_message z_t_msg_make_keep_alive"

lemma session_message_ok: "session_message msg \<Longrightarrow> tm_ok msg"
proof (induction rule: session_message.induct)
  case (join zid w sns lease)
  then show ?case
    by (auto simp: z_t_msg_make_join_def tm_ok_def join_ok_def Let_def Z_MID_def HAS_FLAG_def join_qos_def split: z_conduit_sn_list.split)
qed (auto simp: z_t_msg_make_init_syn_def z_t_msg_make_init_ack_def z_t_msg_make_open_syn_def z_t_msg_make_open_ack_def
  z_t_msg_make_close_def z_t_msg_make_keep_alive_def tm_ok_def init_ok_def open_ok_def init_flags_def Let_def Z_MID_def HAS_FLAG_def)

section \<open>Properties\<close>

text \<open>
  C24: any sequence of join, init, open, close and keep-alive messages as their builders make them (\<open>session_message\<close>: for an identifier
  that is not zero and a valid role), written one after the other into a buffer that does not grow and has room for them,
  is read back as the same sequence; and no proper part of an encoded message is taken for a message. The decoder evaluates the operands of its
  additions from left to right, as the encoder's byte order needs it.
\<close>

theorem session_messages_roundtrip:
  assumes "\<forall>msg \<in> set msgs. session_message msg" "wb_fixed wbf" "wb_data wbf = []"
    and "length (concat (map tm_wire msgs)) \<le> wb_space wbf"
  shows "\<exists>wbf' zbf. wire_codec.enc_all (\<lambda>msg wbf. z_transport_message_encode H wbf msg) msgs wbf h = Some (Z_OK, wbf', h) \<and>
    wire_codec.dec_all (z_transport_message_decode False) (length msgs) (z_slice_as_zbuf (wb_data wbf')) = Some (Inr msgs, zbf) \<and>
    zb_data zbf = [] \<and>
    (\<forall>msg \<in> set msgs. \<forall>n < length (tm_wire msg). \<exists>zbf. z_transport_message_decode False (z_slice_as_zbuf (take n (tm_wire msg))) =
       Some (Inl Z_ERR_MESSAGE_DESERIALIZATION_FAILED, zbf))"
proof -
  have ok: "\<forall>msg \<in> set msgs. tm_ok msg" using assms(1) session_message_ok by blast
  let ?w = "concat (map tm_wire msgs)"
  obtain wbf' where w: "messages.enc_all H msgs wbf h = Some (Z_OK, wbf', h)" "wb_data wbf' = ?w"
    using emits_fits [OF messages.enc_all_emits [OF ok] assms(2,4), of H h] assms(3) by auto
  have "\<exists>zbf. messages.dec_all (length msgs) (z_slice_as_zbuf ?w) = Some (Inr msgs, zbf) \<and> zb_ok zbf \<and> zb_data zbf = []"
    by (rule readsD(1) [OF messages.dec_all_reads [OF ok]]) simp_all
  then show ?thesis using w messages.truncated ok by auto
qed

theorem session_messages_roundtrip_witness:
  "\<exists>wbf' zbf. wire_codec.enc_all (\<lambda>msg wbf. z_transport_message_encode demo_heap wbf msg)
      [z_t_msg_make_keep_alive, z_t_msg_make_close 5 False] (demo_wbuf 9 False) () = Some (Z_OK, wbf', ()) \<and>
    wire_codec.dec_all (z_transport_message_decode False) 2 (z_slice_as_zbuf (wb_data wbf')) =
      Some (Inr [z_t_msg_make_keep_alive, z_t_msg_make_close 5 False], zbf)"
proof -
  let ?m = "[z_t_msg_make_keep_alive, z_t_msg_make_close 5 False]"
  have m: "\<forall>msg \<in> set ?m. session_message msg" by (auto intro: session_message.intros)
  have "length (concat (map tm_wire ?m)) \<le> wb_space (demo_wbuf 9 False)"
    by (simp add: tm_wire_def z_t_msg_make_keep_alive_def z_t_msg_make_close_def demo_wbuf)
  then show ?thesis
    using session_messages_roundtrip [OF m _ demo_wbuf(2) [of 9 False], of demo_heap "()"] by (auto simp: wb_fixed_def demo_wbuf numeral_2_eq_2)
qed

text \<open>
  An identifier of zeros only is announced with sixteen bytes and written with none, so that what follows it is read
  as the identifier.
\<close>

theorem zero_zid_breaks:
  "z_id_len z_id_empty = 0 \<and> zid_cbyte w 0 AND 0xF0 = 0xF0 \<and>
   (\<exists>zbf'. zid_decode (zid_cbyte w 0) (z_slice_as_zbuf (replicate 16 b @ rest)) = Some (Inr (replicate 16 b), zbf') \<and> zb_data zbf' = rest)"
proof (intro conjI)
  have e: "replicate 16 0 = [0,0,0,0,0,0,0,0,0,0,0,0,0,0,0,0::u8]" by (simp add: numeral_eq_Suc)
  show "z_id_len z_id_empty = 0"
    unfolding z_id_len_def z_id_empty_def e by (simp add: numeral_eq_Suc)
  show n: "zid_cbyte w 0 AND 0xF0 = 0xF0" by (rule u8_eqI) (auto simp: zid_cbyte_def z_whatami_to_uint8_def bit_simps)
  let ?z = "z_slice_as_zbuf (replicate 16 b @ rest)"
  have "unat (drop_bit 4 (0xF0 :: u8) + 1) = 16" by simp
  then have d: "zid_decode (zid_cbyte w 0) ?z = zid_read 16 ?z" by (simp only: zid_decode_def n)
  show "\<exists>zbf'. zid_decode (zid_cbyte w 0) ?z = Some (Inr (replicate 16 b), zbf') \<and> zb_data zbf' = rest"
    unfolding d using zid_read_takes(1) [of ?z 16] by (auto simp: memcpy_at_def z_id_empty_def)
qed

end
