(* ===== verification/ZMsgTyped.thy ===== *)
theory ZMsgTyped
  imports ZMsgProps
begin

text \<open>
  What the decoders of the transport messages do on every input: they end, stay inside of their buffer, and what they
  return is well-formed.
\<close>

section \<open>Every input\<close>

text \<open>A decoder that ends inside the buffer on every input and whose values satisfy \<open>P\<close>.\<close>

definition yields :: "(z_zbuf \<Rightarrow> 'a decoded) \<Rightarrow> ('a \<Rightarrow> bool) \<Rightarrow> bool" where
  "yields d P \<longleftrightarrow> (\<forall>zbf. zb_ok zbf \<longrightarrow> (\<exists>r zbf'. d zbf = Some (r, zbf') \<and> zb_ok zbf' \<and> suffix (zb_data zbf') (zb_data zbf) \<and>
     (\<forall>x. r = Inr x \<longrightarrow> P x)))"

lemma yields_any: "in_bounds d \<Longrightarrow> (\<And>x. P x) \<Longrightarrow> yields d P"
  unfolding in_bounds_def yields_def by blast

lemma yields_seq:
  assumes d: "yields d P" and f: "\<And>x. P x \<Longrightarrow> yields (f x) Q"
  shows "yields (\<lambda>zbf. on_value (d zbf) f) Q"
  unfolding yields_def
proof (intro allI impI)
  fix zbf
  assume "zb_ok zbf"
  then obtain r z1 where 1: "d zbf = Some (r, z1)" "zb_ok z1" "suffix (zb_data z1) (zb_data zbf)" "\<forall>x. r = Inr x \<longrightarrow> P x"
    using d unfolding yields_def by blast
  show "\<exists>r zbf'. on_value (d zbf) f = Some (r, zbf') \<and> zb_ok zbf' \<and> suffix (zb_data zbf') (zb_data zbf) \<and> (\<forall>x. r = Inr x \<longrightarrow> Q x)"
  proof (cases r)
    case (Inr x)
    then obtain r2 z2 where "f x z1 = Some (r2, z2)" "zb_ok z2" "suffix (zb_data z2) (zb_data z1)" "\<forall>x. r2 = Inr x \<longrightarrow> Q x"
      using f [of x] 1(2,4) unfolding yields_def by blast
    then show ?thesis using 1 Inr by (auto simp: on_value_def intro: suffix_order.trans)
  qed (use 1 in \<open>simp add: on_value_def\<close>)
qed

lemma yields_value: "P x \<Longrightarrow> yields (\<lambda>zbf. Some (Inr x, zbf)) P"
  by (simp add: yields_def)

lemma yields_if: "(B \<Longrightarrow> yields a P) \<Longrightarrow> (\<not> B \<Longrightarrow> yields b P) \<Longrightarrow> yields (\<lambda>zbf. if B then a zbf else b zbf) P"
  by (cases B) simp_all

lemma yields_weaken: "yields d P \<Longrightarrow> (\<And>x. P x \<Longrightarrow> Q x) \<Longrightarrow> yields d Q"
  unfolding yields_def by blast

lemma yields_iter:
  assumes cb: "\<And>ext c. ext_kind ext \<Longrightarrow> P c \<Longrightarrow> \<exists>ret c1. callback ext c = Some (ret, c1) \<and> (ret = Z_OK \<longrightarrow> P c1)" and c: "P c"
  shows "yields (z_msg_ext_decode_iter callback c) P"
  unfolding yields_def
proof (intro allI impI)
  fix zbf
  assume "zb_ok zbf"
  then show "\<exists>r zbf'. z_msg_ext_decode_iter callback c zbf = Some (r, zbf') \<and> zb_ok zbf' \<and> suffix (zb_data zbf') (zb_data zbf) \<and>
      (\<forall>x. r = Inr x \<longrightarrow> P x)"
    using c
  proof (induction "length (zb_data zbf)" arbitrary: c zbf rule: less_induct)
    case less
    obtain r z1 where d: "z_msg_ext_decode (z_msg_ext_make_unit 0) zbf = Some (r, z1)" "zb_ok z1" "suffix (zb_data z1) (zb_data zbf)"
      using ext_in_bounds less.prems unfolding in_bounds_def by blast
    show ?case
    proof (cases r)
      case (Inl e)
      then show ?thesis using d by (simp add: z_msg_ext_decode_iter.simps [of callback c zbf])
    next
      case (Inr x)
      obtain ret c1 where c: "callback (fst x) c = Some (ret, c1)" "ret = Z_OK \<longrightarrow> P c1"
        using cb [OF decode_kind [OF d(1) [unfolded Inr]] less.prems(2)] by blast
      have l: "length (zb_data z1) < length (zb_data zbf)" using ext_consumes [OF less.prems(1)] d(1) Inr by blast
      show ?thesis
      proof (cases "ret = Z_OK \<and> snd x")
        case True
        then obtain r2 z2 where "z_msg_ext_decode_iter callback c1 z1 = Some (r2, z2)" "zb_ok z2" "suffix (zb_data z2) (zb_data z1)"
          "\<forall>x. r2 = Inr x \<longrightarrow> P x" using less.hyps [OF l d(2)] c(2) by blast
        then show ?thesis using d Inr c(1) True
          by (auto simp: z_msg_ext_decode_iter.simps [of callback c zbf] intro: suffix_order.trans)
      next
        case False
        then show ?thesis using d Inr c by (auto simp: z_msg_ext_decode_iter.simps [of callback c zbf])
      qed
    qed
  qed
qed

text \<open>What a decoded message looks like: the body fits its header, and the fields are in their ranges.\<close>

definition role_known :: "u32 \<Rightarrow> bool" where
  "role_known w \<longleftrightarrow> w = 1 \<or> w = 2 \<or> w = 4 \<or> w = 8"

definition join_typed :: "z_t_msg_join \<Rightarrow> bool" where
  "join_typed m \<longleftrightarrow> length (join_zid m) = 16 \<and> role_known (join_whatami m) \<and> join_seq_num_res m < 4 \<and> join_req_id_res m < 4 \<and>
     (\<forall>q. join_next_sn m = Qos_sn q \<longrightarrow> length q = Z_PRIORITIES_NUM)"

definition init_typed :: "z_t_msg_init \<Rightarrow> bool" where
  "init_typed m \<longleftrightarrow> length (init_zid m) = 16 \<and> role_known (init_whatami m) \<and> init_seq_num_res m < 4 \<and> init_req_id_res m < 4"

definition tm_typed :: "z_transport_message \<Rightarrow> bool" where
  "tm_typed msg \<longleftrightarrow> (let mid = Z_MID (tm_header msg) in case tm_body msg of
     T_join m \<Rightarrow> mid = MID_T_JOIN \<and> join_typed m
   | T_init m \<Rightarrow> mid = MID_T_INIT \<and> init_typed m \<and> (init_cookie m = [] \<or> HAS_FLAG (tm_header msg) FLAG_T_INIT_A)
   | T_open m \<Rightarrow> mid = MID_T_OPEN \<and> (open_cookie m = [] \<or> \<not> HAS_FLAG (tm_header msg) FLAG_T_OPEN_A)
   | T_close r \<Rightarrow> mid = MID_T_CLOSE
   | T_keep_alive \<Rightarrow> mid = MID_T_KEEP_ALIVE
   | T_frame m \<Rightarrow> mid = MID_T_FRAME \<and> (\<exists>zbf. frame_payload m = Some zbf \<and> zb_ok zbf)
   | T_fragment m \<Rightarrow> mid = MID_T_FRAGMENT \<and> (frag_first m \<or> frag_drop m \<longrightarrow> HAS_FLAG (tm_header msg) FLAG_T_Z))"

lemma mask_3: "(b :: u8) AND 3 < 4"
proof -
  have "b AND 3 = take_bit 2 b" by (rule u8_eqI) (auto simp: bit_simps)
  then have "unat (b AND 3) = take_bit 2 (unat b)" by (simp only: unsigned_take_bit_eq)
  then have "unat (b AND 3) < 4" using take_bit_nat_less_exp [of 2 "unat b"] by simp
  then show ?thesis by (simp add: word_less_nat_alt)
qed

lemma role_decoded: "role_known (z_whatami_from_uint8 b)"
proof -
  have "unat (b AND 3) < 4" using mask_3 [of b] by (simp add: word_less_nat_alt)
  then have "unat (b AND 3) \<in> {0, 1, 2, 3}" by auto
  then show ?thesis by (auto simp: z_whatami_from_uint8_def role_known_def)
qed

lemma zid_yields: "yields (zid_decode cbyte) (\<lambda>i. length i = 16)"
proof -
  have "length i = 16" if "zid_decode cbyte zbf = Some (Inr i, zbf')" for i zbf zbf'
    using that by (auto simp: zid_decode_def zid_read_def z_zbuf_read_bytes_def z_iosli_read_bytes_def z_id_empty_def fail_decode_def
        c_write_def bind_Some_iff split: if_splits)
  then show ?thesis using zid_in_bounds [of cbyte] unfolding yields_def in_bounds_def by metis
qed

lemma res_yields:
  "yields (\<lambda>zbf. if B then res_decode zbf swap else Some (Inr (DEFAULT_RESOLUTION_SIZE, DEFAULT_RESOLUTION_SIZE, batch), zbf))
     (\<lambda>(s, r, _). s < 4 \<and> r < 4)"
  unfolding res_decode_def
  by (intro yields_if yields_seq [OF yields_any [OF both_in_bounds [OF uint8_in_bounds uint16_in_bounds], where P = "\<lambda>_. True"]])
    (auto simp: mask_3 yields_def split: prod.split)

lemma qos_decode_length: "qos_decode n zbf = Some (Inr q, zbf') \<Longrightarrow> length q = n"
  by (induction n arbitrary: zbf q zbf') (auto simp: on_value_Inr split: prod.splits)

lemma join_ext_yields:
  assumes "ext_kind ext" "join_typed c"
  shows "\<exists>ret c1. z_join_decode_ext ext c = Some (ret, c1) \<and> (ret = Z_OK \<longrightarrow> join_typed c1)"
proof -
  have b: "EXT_ENC (ext_header ext) = EXT_ENC (EXT_FULL_ID (ext_header ext))"
    by (auto simp: EXT_ENC_def EXT_FULL_ID_def bit_simps intro!: u8_eqI)
  consider (qos) "EXT_FULL_ID (ext_header ext) = 0x51" | (patch) "EXT_FULL_ID (ext_header ext) = 0x27"
    | (other) "EXT_FULL_ID (ext_header ext) \<noteq> 0x51" "EXT_FULL_ID (ext_header ext) \<noteq> 0x27" by blast
  then show ?thesis
  proof cases
    case qos
    then obtain s where s: "ext_body ext = Ext_zbuf s" using assms(1) b by (auto simp: ext_kind_def EXT_ENC_def)
    obtain r z where q: "qos_decode Z_PRIORITIES_NUM (z_slice_as_zbuf s) = Some (r, z)"
      using in_boundsD [OF qos_in_bounds] by blast
    then show ?thesis using qos s assms(2) qos_decode_length by (cases r) (auto simp: z_join_decode_ext_def join_typed_def)
  next
    case patch
    then obtain v where "ext_body ext = Ext_zint v" using assms(1) b by (auto simp: ext_kind_def EXT_ENC_def)
    then show ?thesis using patch assms(2) by (auto simp: z_join_decode_ext_def join_typed_def)
  next
    case other
    then show ?thesis using assms(2) by (auto simp: z_join_decode_ext_def)
  qed
qed

lemma init_ext_yields:
  assumes "ext_kind ext" "init_typed c \<and> Q (init_cookie c)"
  shows "\<exists>ret c1. z_init_decode_ext ext c = Some (ret, c1) \<and> (ret = Z_OK \<longrightarrow> init_typed c1 \<and> Q (init_cookie c1))"
proof -
  have b: "EXT_ENC (ext_header ext) = EXT_ENC (EXT_FULL_ID (ext_header ext))"
    by (auto simp: EXT_ENC_def EXT_FULL_ID_def bit_simps intro!: u8_eqI)
  show ?thesis
  proof (cases "EXT_FULL_ID (ext_header ext) = 0x27")
    case True
    then obtain v where "ext_body ext = Ext_zint v" using assms(1) b by (auto simp: ext_kind_def EXT_ENC_def)
    then show ?thesis using True assms(2) by (auto simp: z_init_decode_ext_def init_typed_def)
  next
    case False
    then show ?thesis using assms(2) by (auto simp: z_init_decode_ext_def)
  qed
qed

lemma both_any: "in_bounds d1 \<Longrightarrow> in_bounds d2 \<Longrightarrow> yields (decode_both d1 d2) (\<lambda>_. True)"
  by (intro yields_any both_in_bounds) simp_all

lemma join_yields: "yields (z_join_decode swap header) join_typed"
  unfolding z_join_decode_def [abs_def]
proof (rule yields_seq [OF both_any [OF uint8_in_bounds uint8_in_bounds]], clarify)
  fix version cbyte :: u8
  show "yields (\<lambda>zbf. on_value (zid_decode cbyte zbf) (\<lambda>zid zbf.
     on_value (if HAS_FLAG header FLAG_T_JOIN_S then res_decode zbf swap
               else Some (Inr (DEFAULT_RESOLUTION_SIZE, DEFAULT_RESOLUTION_SIZE, DEFAULT_MULTICAST_BATCH_SIZE), zbf)) (\<lambda>(sres, rres, batch) zbf.
     on_value (zsn_decode zbf) (\<lambda>lease zbf.
     on_value (decode_both zsn_decode zsn_decode zbf) (\<lambda>(r, b) zbf.
       let msg = \<lparr>join_zid = zid, join_lease = (if HAS_FLAG header FLAG_T_JOIN_T then lease * 1000 else lease),
                  join_next_sn = Plain_sn \<lparr>sn_reliable = r, sn_best_effort = b\<rparr>, join_batch_size = batch,
                  join_whatami = z_whatami_from_uint8 cbyte, join_req_id_res = rres, join_seq_num_res = sres,
                  join_version = version, join_patch = NO_PATCH\<rparr>
       in if HAS_FLAG header FLAG_T_Z then z_msg_ext_decode_iter z_join_decode_ext msg zbf else Some (Inr msg, zbf)))))) join_typed"
  proof (rule yields_seq [OF zid_yields], rule yields_seq [OF res_yields], clarify,
      rule yields_seq [OF yields_any [OF zsn_in_bounds, where P = "\<lambda>_. True"]], simp,
      rule yields_seq [OF both_any [OF zsn_in_bounds zsn_in_bounds]], clarify)
    fix zid :: z_id and sres rres :: u8 and batch :: u16 and lease r b :: u32
    let ?m = "\<lparr>join_zid = zid, join_lease = (if HAS_FLAG header FLAG_T_JOIN_T then lease * 1000 else lease),
                  join_next_sn = Plain_sn \<lparr>sn_reliable = r, sn_best_effort = b\<rparr>, join_batch_size = batch,
                  join_whatami = z_whatami_from_uint8 cbyte, join_req_id_res = rres, join_seq_num_res = sres,
                  join_version = version, join_patch = NO_PATCH\<rparr>"
    assume "length zid = 16" "sres < 4" "rres < 4"
    then have t: "join_typed ?m" by (simp add: join_typed_def role_decoded)
    show "yields (\<lambda>zbf. let msg = ?m in if HAS_FLAG header FLAG_T_Z then z_msg_ext_decode_iter z_join_decode_ext msg zbf else Some (Inr msg, zbf)) join_typed"
      unfolding Let_def by (intro yields_if yields_iter yields_value join_ext_yields t)
  qed
qed

lemma init_yields: "yields (z_init_decode swap header) (\<lambda>m. init_typed m \<and> (init_cookie m = [] \<or> HAS_FLAG header FLAG_T_INIT_A))"
  unfolding z_init_decode_def [abs_def]
proof (rule yields_seq [OF both_any [OF uint8_in_bounds uint8_in_bounds]], clarify)
  fix version cbyte :: u8
  let ?A = "HAS_FLAG header FLAG_T_INIT_A"
  have c: "yields (\<lambda>zbf. if ?A then z_slice_decode zbf else Some (Inr [], zbf)) (\<lambda>cookie. cookie = [] \<or> ?A)"
    by (rule yields_if) (simp_all add: yields_any [OF slice_in_bounds] yields_value)
  show "yields (\<lambda>zbf. on_value (zid_decode cbyte zbf) (\<lambda>zid zbf.
     on_value (if HAS_FLAG header FLAG_T_INIT_S then res_decode zbf swap
               else Some (Inr (DEFAULT_RESOLUTION_SIZE, DEFAULT_RESOLUTION_SIZE, DEFAULT_UNICAST_BATCH_SIZE), zbf)) (\<lambda>(sres, rres, batch) zbf.
     on_value (if ?A then z_slice_decode zbf else Some (Inr [], zbf)) (\<lambda>cookie zbf.
       let msg = \<lparr>init_zid = zid, init_cookie = cookie, init_batch_size = batch, init_whatami = z_whatami_from_uint8 cbyte,
                  init_req_id_res = rres, init_seq_num_res = sres, init_version = version, init_patch = NO_PATCH\<rparr>
       in if HAS_FLAG header FLAG_T_Z then z_msg_ext_decode_iter z_init_decode_ext msg zbf else Some (Inr msg, zbf)))))
     (\<lambda>m. init_typed m \<and> (init_cookie m = [] \<or> ?A))"
  proof (rule yields_seq [OF zid_yields], rule yields_seq [OF res_yields], clarify, rule yields_seq [OF c])
    fix zid :: z_id and sres rres :: u8 and batch :: u16 and cookie :: bytes
    let ?m = "\<lparr>init_zid = zid, init_cookie = cookie, init_batch_size = batch, init_whatami = z_whatami_from_uint8 cbyte,
                  init_req_id_res = rres, init_seq_num_res = sres, init_version = version, init_patch = NO_PATCH\<rparr>"
    assume "length zid = 16" "sres < 4" "rres < 4" "cookie = [] \<or> ?A"
    then have t: "init_typed ?m \<and> (init_cookie ?m = [] \<or> ?A)" by (simp add: init_typed_def role_decoded)
    show "yields (\<lambda>zbf. let msg = ?m in if HAS_FLAG header FLAG_T_Z then z_msg_ext_decode_iter z_init_decode_ext msg zbf else Some (Inr msg, zbf))
       (\<lambda>m. init_typed m \<and> (init_cookie m = [] \<or> ?A))"
      unfolding Let_def
      by (intro yields_if yields_iter yields_value init_ext_yields [where Q = "\<lambda>c. c = [] \<or> ?A"] t)
  qed
qed

lemma open_yields: "yields (z_open_decode header) (\<lambda>m. open_cookie m = [] \<or> \<not> HAS_FLAG header FLAG_T_OPEN_A)"
  unfolding z_open_decode_def [abs_def]
proof (rule yields_seq [OF both_any [OF zsn_in_bounds zsn_in_bounds]], clarify)
  fix lease sn :: u32
  let ?A = "HAS_FLAG header FLAG_T_OPEN_A"
  have c: "yields (\<lambda>zbf. if \<not> ?A then z_slice_decode zbf else Some (Inr [], zbf)) (\<lambda>cookie. cookie = [] \<or> \<not> ?A)"
    by (rule yields_if) (simp_all add: yields_any [OF slice_in_bounds] yields_value)
  show "yields (\<lambda>zbf. on_value (if \<not> ?A then z_slice_decode zbf else Some (Inr [], zbf)) (\<lambda>cookie zbf.
       let msg = \<lparr>open_lease = (if HAS_FLAG header FLAG_T_OPEN_T then lease * 1000 else lease), open_initial_sn = sn, open_cookie = cookie\<rparr>
       in if HAS_FLAG header FLAG_T_Z then on_value (z_msg_ext_skip_non_mandatories zbf) (\<lambda>_ zbf. Some (Inr msg, zbf))
          else Some (Inr msg, zbf))) (\<lambda>m. open_cookie m = [] \<or> \<not> ?A)"
    unfolding Let_def
    by (rule yields_seq [OF c], intro yields_if yields_seq [OF yields_any [OF skip_in_bounds, where P = "\<lambda>_. True"]] yields_value) simp_all
qed

lemma keep_alive_yields: "yields (z_keep_alive_decode header) (\<lambda>_. True)"
  unfolding z_keep_alive_decode_def [abs_def] by (intro yields_if yields_any [OF skip_in_bounds] yields_value) simp_all

lemma frame_yields: "yields (z_frame_decode header) (\<lambda>m. \<exists>zbf. frame_payload m = Some zbf \<and> zb_ok zbf)"
proof -
  have e: "yields (\<lambda>zbf. if HAS_FLAG header FLAG_T_Z then z_msg_ext_skip_non_mandatories zbf else Some (Inr (), zbf)) (\<lambda>_. True)"
    by (intro yields_if yields_any [OF skip_in_bounds] yields_value) simp_all
  have "yields (\<lambda>zbf. Some (Inr \<lparr>frame_payload = Some zbf, frame_sn = sn\<rparr>, zbf)) (\<lambda>m. \<exists>zbf. frame_payload m = Some zbf \<and> zb_ok zbf)" for sn
    by (auto simp: yields_def)
  then show ?thesis unfolding z_frame_decode_def [abs_def]
    by (intro yields_seq [OF yields_any [OF zsn_in_bounds, where P = "\<lambda>_. True"]] yields_seq [OF e]) simp_all
qed

lemma fragment_head_yields:
  "yields (fragment_head_decode header) (\<lambda>m. frag_first m \<or> frag_drop m \<longrightarrow> HAS_FLAG header FLAG_T_Z)"
proof -
  let ?P = "\<lambda>m. frag_first m \<or> frag_drop m \<longrightarrow> HAS_FLAG header FLAG_T_Z"
  have "yields (\<lambda>zbf. if HAS_FLAG header FLAG_T_Z then z_msg_ext_decode_iter z_fragment_decode_ext m zbf else Some (Inr m, zbf)) ?P"
    if "\<not> frag_first m" "\<not> frag_drop m" for m
    using that by (intro yields_if yields_iter yields_value) (simp_all add: z_fragment_decode_ext_def)
  then show ?thesis unfolding fragment_head_decode_def [abs_def] Let_def
    by (intro yields_seq [OF yields_any [OF zsn_in_bounds, where P = "\<lambda>_. True"]]) simp_all
qed

lemma all_read: "zb_ok zbf \<Longrightarrow> zb_ok (zbf\<lparr>zb_ios := (zb_ios zbf)\<lparr>ios_r_pos := ios_w_pos (zb_ios zbf)\<rparr>\<rparr>)"
  "zb_data (zbf\<lparr>zb_ios := (zb_ios zbf)\<lparr>ios_r_pos := ios_w_pos (zb_ios zbf)\<rparr>\<rparr>) = []"
  by (simp_all add: zb_ok_def ios_ok_def zb_data_def ios_data_def slice_def)

lemma rest_read: "zb_ok zbf \<Longrightarrow> c_read (z_zbuf_get_rptr zbf) 0 (length (zb_data zbf)) = Some (zb_data zbf)"
  using zb_take(1) [of zbf "length (zb_data zbf)"] by simp

lemma fragment_yields: "yields (z_fragment_decode header) (\<lambda>m. frag_first m \<or> frag_drop m \<longrightarrow> HAS_FLAG header FLAG_T_Z)"
  unfolding yields_def
proof (intro allI impI)
  fix zbf
  assume "zb_ok zbf"
  then obtain r z1 where 1: "fragment_head_decode header zbf = Some (r, z1)" "zb_ok z1" 
    "\<forall>x. r = Inr x \<longrightarrow> (frag_first x \<or> frag_drop x \<longrightarrow> HAS_FLAG header FLAG_T_Z)"
    using fragment_head_yields unfolding yields_def by blast
  then show "\<exists>r zbf'. z_fragment_decode header zbf = Some (r, zbf') \<and> zb_ok zbf' \<and> suffix (zb_data zbf') (zb_data zbf) \<and>
      (\<forall>x. r = Inr x \<longrightarrow> (frag_first x \<or> frag_drop x \<longrightarrow> HAS_FLAG header FLAG_T_Z))"
    by (cases r) (simp_all add: z_fragment_decode_def rest_read all_read Let_def)
qed

lemma message_body_yields:
  assumes "yields (d header) P" "\<And>m. P m \<Longrightarrow> tm_typed \<lparr>tm_body = c m, tm_header = header\<rparr>"
  shows "yields (body_decode d c header) tm_typed"
  unfolding body_decode_def [abs_def] using assms by (intro yields_seq [OF assms(1)] yields_value)

text \<open>A message behind its header.\<close>

definition message_rest :: "bool \<Rightarrow> u8 \<Rightarrow> z_zbuf \<Rightarrow> z_transport_message decoded" where
  "message_rest swap h zbf =
     (let mid = Z_MID h in
      if mid = MID_T_FRAME then body_decode z_frame_decode T_frame h zbf
      else if mid = MID_T_FRAGMENT then body_decode z_fragment_decode T_fragment h zbf
      else if mid = MID_T_KEEP_ALIVE then body_decode z_keep_alive_decode (\<lambda>_. T_keep_alive) h zbf
      else if mid = MID_T_JOIN then body_decode (z_join_decode swap) T_join h zbf
      else if mid = MID_T_INIT then body_decode (z_init_decode swap) T_init h zbf
      else if mid = MID_T_OPEN then body_decode z_open_decode T_open h zbf
      else if mid = MID_T_CLOSE then body_decode z_close_decode T_close h zbf
      else Some (Inl Z_ERR_MESSAGE_TRANSPORT_UNKNOWN, zbf))"

lemma message_decode_rest: "z_transport_message_decode swap zbf = on_value (z_uint8_decode zbf) (message_rest swap)"
  by (simp add: z_transport_message_decode_def message_rest_def [abs_def])

lemma message_rest_yields: "yields (message_rest swap h) tm_typed"
proof -
  have c: "yields (z_close_decode h) (\<lambda>_. True)" by (simp add: z_close_decode_def [abs_def] yields_any [OF uint8_in_bounds])
  have u: "yields (\<lambda>zbf. Some (Inl Z_ERR_MESSAGE_TRANSPORT_UNKNOWN, zbf)) tm_typed" by (simp add: yields_def)
  show ?thesis
    unfolding message_rest_def [abs_def] Let_def
    by (intro yields_if u message_body_yields [OF frame_yields] message_body_yields [OF fragment_yields] message_body_yields [OF keep_alive_yields]
        message_body_yields [OF join_yields] message_body_yields [OF init_yields] message_body_yields [OF open_yields] message_body_yields [where d = z_close_decode, OF c])
      (simp_all add: tm_typed_def)
qed

lemma message_yields: "yields (z_transport_message_decode swap) tm_typed"
  unfolding message_decode_rest [abs_def]
  by (rule yields_seq [OF yields_any [OF uint8_in_bounds, where P = "\<lambda>_. True"] message_rest_yields]) simp_all

text \<open>A message takes its header at least, and the payload of a fragment comes from the buffer.\<close>

lemma fragment_payload:
  assumes "zb_ok zbf" "z_fragment_decode header zbf = Some (Inr m, zbf')"
  shows "length (frag_payload m) \<le> length (zb_data zbf)"
proof -
  obtain r z1 where 1: "fragment_head_decode header zbf = Some (r, z1)" "zb_ok z1" "suffix (zb_data z1) (zb_data zbf)"
    using fragment_head_yields assms(1) unfolding yields_def by blast
  have "frag_payload m = zb_data z1"
    using assms(2) 1(1,2) by (cases r) (auto simp: z_fragment_decode_def rest_read Let_def)
  then show ?thesis using 1(3) by (simp add: suffix_length_le)
qed

lemma body_decoded:
  assumes "body_decode d c h zbf = Some (Inr msg, zbf')"
  obtains m where "d h zbf = Some (Inr m, zbf')" "msg = \<lparr>tm_body = c m, tm_header = h\<rparr>"
proof -
  obtain x z where d: "d h zbf = Some (x, z)" using assms by (cases "d h zbf") (auto simp: body_decode_def on_value_def)
  then show ?thesis using assms that by (cases x) (auto simp: body_decode_def on_value_def)
qed

lemma decode_shrinks:
  assumes "zb_ok zbf" "zb_data zbf \<noteq> []"
  shows "\<exists>x zbf'. z_transport_message_decode swap zbf = Some (x, zbf') \<and> zb_ok zbf' \<and>
    (\<forall>msg. x = Inr msg \<longrightarrow> tm_typed msg \<and> length (zb_data zbf') < length (zb_data zbf) \<and>
      (\<forall>m. tm_body msg = T_fragment m \<longrightarrow> length (frag_payload m) \<le> length (zb_data zbf)))"
proof -
  obtain b d where d: "zb_data zbf = b # d" using assms(2) by (cases "zb_data zbf") auto
  obtain z1 where 1: "z_uint8_decode zbf = Some (Inr b, z1)" "zb_ok z1" "zb_data z1 = d"
    using readsD(1) [OF uint8_reads [of b] assms(1), of d] d by auto
  then have e: "z_transport_message_decode swap zbf = message_rest swap b z1"
    by (simp add: message_decode_rest on_value_def)
  obtain x zbf' where 2: "message_rest swap b z1 = Some (x, zbf')" "zb_ok zbf'" "suffix (zb_data zbf') (zb_data z1)"
    "\<forall>msg. x = Inr msg \<longrightarrow> tm_typed msg"
    using message_rest_yields [of swap b] 1(2) unfolding yields_def by blast
  have l: "length (zb_data zbf') < length (zb_data zbf)"
    using suffix_length_le [OF 2(3)] 1(3) d by simp
  have "length (frag_payload m) \<le> length (zb_data zbf)" if x: "x = Inr msg" "tm_body msg = T_fragment m" for msg m
  proof -
    have "z_fragment_decode b z1 = Some (Inr m, zbf')"
      using 2(1) x by (auto simp: message_rest_def Let_def split: if_splits elim!: body_decoded)
    then show ?thesis using fragment_payload [OF 1(2)] 1(3) d by fastforce
  qed
  then show ?thesis using 2 l e by auto
qed

section \<open>Properties\<close>

text \<open>
  C31: whatever bytes arrive, \<open>_z_transport_message_decode\<close> ends, reads inside of the buffer only and returns an error or
  a well-formed message: the body is the one its header announces, the identifier has its 16 bytes, roles and resolutions are
  known ones, a list of numbers has its eight entries.
\<close>

theorem transport_decode_typed:
  "\<exists>r zbf. z_transport_message_decode swap (z_slice_as_zbuf bs) = Some (r, zbf) \<and> zb_ok zbf \<and> suffix (zb_data zbf) bs \<and>
    (case r of Inl _ \<Rightarrow> True | Inr msg \<Rightarrow> tm_typed msg)"
proof -
  obtain r zbf where "z_transport_message_decode swap (z_slice_as_zbuf bs) = Some (r, zbf)" "zb_ok zbf" "suffix (zb_data zbf) bs"
    "\<forall>x. r = Inr x \<longrightarrow> tm_typed x"
    using message_yields [of swap, unfolded yields_def, rule_format, of "z_slice_as_zbuf bs"] by auto
  then show ?thesis by (cases r) auto
qed

end
