(* ===== verification/ZLink.thy ===== *)
theory ZLink
  imports ZMsgTyped
begin

text \<open>
  The link (\<open>link/link.c\<close>) and the reception over the bare link (\<open>transport/common/rx.c\<close>). What the network does is a
  parameter: a reader is asked for at most so many bytes and hands out some, or fails; a writer says how
  many of its bytes it took, or fails.
\<close>

type_synonym 'l reader = "nat \<Rightarrow> 'l \<Rightarrow> bytes option \<times> 'l"
type_synonym 'l writer = "bytes \<Rightarrow> 'l \<Rightarrow> nat option \<times> 'l"

section \<open>Sending\<close>

text \<open>
  The loop over one slice: \<open>n\<close> of its \<open>len\<close> bytes are left, the next ones are \<open>off\<close> bytes into its block.
\<close>

partial_function (option) send_slice :: "bool \<Rightarrow> 'l writer \<Rightarrow> bytes \<Rightarrow> nat \<Rightarrow> nat \<Rightarrow> nat \<Rightarrow> 'l \<Rightarrow> (z_res \<times> 'l) option" where
  "send_slice streamed write buf len n off l = do {
     d \<leftarrow> c_read buf off n;
     let (r, l) = write d l;
     (case r of
        None \<Rightarrow> Some (Z_ERR_TRANSPORT_TX_FAILED, l)
      | Some wb \<Rightarrow>
          if n < wb then Some (Z_ERR_TRANSPORT_TX_FAILED, l)
          else if streamed \<and> wb \<noteq> n then Some (Z_ERR_TRANSPORT_TX_FAILED, l)
          else if 0 < n - wb then send_slice streamed write buf len (n - wb) (off + (len - (n - wb))) l
          else Some (Z_OK, l)) }"

partial_function (option) send_slices :: "bool \<Rightarrow> 'l writer \<Rightarrow> z_wbuf \<Rightarrow> nat \<Rightarrow> z_res \<Rightarrow> 'l \<Rightarrow> (z_res \<times> 'l) option" where
  "send_slices streamed write wbf i ret l =
     (if i < z_wbuf_len_iosli wbf \<and> ret = Z_OK then do {
        ios \<leftarrow> z_wbuf_get_iosli wbf i;
        let n = z_iosli_readable ios;
        (ret, l) \<leftarrow> send_slice streamed write (ios_buf ios) n n (ios_r_pos ios) l;
        send_slices streamed write wbf (i + 1) ret l }
      else Some (ret, l))"

definition z_link_send_wbuf :: "bool \<Rightarrow> 'l writer \<Rightarrow> z_wbuf \<Rightarrow> 'l \<Rightarrow> (z_res \<times> 'l) option" where
  "z_link_send_wbuf streamed write wbf l = send_slices streamed write wbf 0 Z_OK l"

section \<open>Receiving\<close>

text \<open>What was read lies behind the data of the buffer.\<close>

definition take_in :: "z_zbuf \<Rightarrow> bytes \<Rightarrow> z_zbuf option" where
  "take_in zbf bs = do {
     buf \<leftarrow> c_write (ios_buf (zb_ios zbf)) (z_zbuf_get_wpos zbf) bs;
     z_zbuf_set_wpos (zbf\<lparr>zb_ios := (zb_ios zbf)\<lparr>ios_buf := buf\<rparr>\<rparr>) (z_zbuf_get_wpos zbf + length bs) }"

text \<open>Results: the number of bytes, none when the network failed, the buffer and the link.\<close>

definition z_link_recv_zbuf :: "'l reader \<Rightarrow> z_zbuf \<Rightarrow> 'l \<Rightarrow> (nat option \<times> z_zbuf \<times> 'l) option" where
  "z_link_recv_zbuf read zbf l =
     (case read (z_zbuf_space_left zbf) l of
        (None, l) \<Rightarrow> Some (None, zbf, l)
      | (Some bs, l) \<Rightarrow> do { zbf \<leftarrow> take_in zbf bs; Some (Some (length bs), zbf, l) })"

definition z_link_recv_exact_zbuf :: "'l reader \<Rightarrow> z_zbuf \<Rightarrow> nat \<Rightarrow> 'l \<Rightarrow> (nat option \<times> z_zbuf \<times> 'l) option" where
  "z_link_recv_exact_zbuf read_exact zbf n l =
     (case read_exact n l of
        (None, l) \<Rightarrow> Some (None, zbf, l)
      | (Some bs, l) \<Rightarrow> do { zbf \<leftarrow> take_in zbf bs; Some (Some (length bs), zbf, l) })"

definition z_read_stream_size :: "z_zbuf \<Rightarrow> (nat \<times> z_zbuf) option" where
  "z_read_stream_size zbf = do {
     (b0, zbf) \<leftarrow> z_zbuf_read zbf;
     (b1, zbf) \<leftarrow> z_zbuf_read zbf;
     Some (unat (ucast b0 OR push_bit 8 (ucast b1) :: u16), zbf) }"

definition z_link_recv_t_msg_cap_flow_stream :: "'l reader \<Rightarrow> z_zbuf \<Rightarrow> 'l \<Rightarrow> (z_res \<times> z_zbuf \<times> 'l) option" where
  "z_link_recv_t_msg_cap_flow_stream read_exact zbf l = do {
     (r, zbf, l) \<leftarrow> z_link_recv_exact_zbuf read_exact zbf 2 l;
     (case r of
        None \<Rightarrow> Some (Z_ETIMEDOUT, zbf, l)
      | Some n \<Rightarrow>
          if n \<noteq> 2 then Some (Z_ERR_TRANSPORT_RX_FAILED, zbf, l)
          else do {
            (b0, zbf) \<leftarrow> z_zbuf_read zbf;
            (b1, zbf) \<leftarrow> z_zbuf_read zbf;
            let len = unat (ucast b0 OR push_bit 8 (ucast b1) :: u32);
            let writable = size_sub (z_zbuf_capacity zbf) (z_zbuf_len zbf);
            if len \<le> writable then do {
              (r, zbf, l) \<leftarrow> z_link_recv_exact_zbuf read_exact zbf len l;
              Some (if r \<noteq> Some len then Z_ERR_TRANSPORT_RX_FAILED else Z_OK, zbf, l) }
            else Some (Z_ERR_TRANSPORT_NO_SPACE, zbf, l) }) }"

definition z_link_recv_t_msg_cap_flow_datagram :: "'l reader \<Rightarrow> z_zbuf \<Rightarrow> 'l \<Rightarrow> (z_res \<times> z_zbuf \<times> 'l) option" where
  "z_link_recv_t_msg_cap_flow_datagram read zbf l = do {
     (r, zbf, l) \<leftarrow> z_link_recv_zbuf read zbf l;
     Some (if r = None then Z_ETIMEDOUT else Z_OK, zbf, l) }"

text \<open>What a link offers: the two readers, its kind, and the clock, whether the deadline has passed.\<close>

datatype z_link_flow = FLOW_DATAGRAM | FLOW_STREAM | FLOW_OTHER

record 'l z_link =
  lk_read :: "'l reader"
  lk_read_exact :: "'l reader"
  lk_write :: "'l writer"
  lk_flow :: z_link_flow
  lk_mtu :: u16
  lk_expired :: "'l \<Rightarrow> bool \<times> 'l"

definition recv_once :: "'l z_link \<Rightarrow> z_zbuf \<Rightarrow> 'l \<Rightarrow> (z_res \<times> z_zbuf \<times> 'l) option" where
  "recv_once zl zbf l =
     (case lk_flow zl of
        FLOW_STREAM \<Rightarrow> z_link_recv_t_msg_cap_flow_stream (lk_read_exact zl) zbf l
      | FLOW_DATAGRAM \<Rightarrow> z_link_recv_t_msg_cap_flow_datagram (lk_read zl) zbf l
      | FLOW_OTHER \<Rightarrow> Some (Z_ERR_GENERIC, zbf, l))"

partial_function (option) recv_loop :: "'l z_link \<Rightarrow> z_zbuf \<Rightarrow> 'l \<Rightarrow> (z_res \<times> z_zbuf \<times> 'l) option" where
  "recv_loop zl zbf l = do {
     (ret, zbf, l) \<leftarrow> recv_once zl zbf l;
     if ret = Z_ETIMEDOUT then
       let (late, l) = lk_expired zl l
       in if late then Some (Z_ERR_TRANSPORT_RX_DURATION_EXPIRED, zbf, l) else recv_loop zl zbf l
     else Some (ret, zbf, l) }"

text \<open>
  The message is copied out of the buffer: a cookie gets a block of its own and is lost when there is none. The copy goes into a
  cleared message; of frames and fragments, which no handshake reads, it is the message as it is.
\<close>

definition copy_cookie :: "'h heap \<Rightarrow> bytes \<Rightarrow> 'h \<Rightarrow> bytes \<times> 'h" where
  "copy_cookie H cookie h =
     (if cookie = [] then ([], h)
      else case mal_bytes H (length cookie) h of (None, h) \<Rightarrow> ([], h) | (Some _, h) \<Rightarrow> (cookie, h))"

definition z_t_msg_copy :: "'h heap \<Rightarrow> z_transport_message \<Rightarrow> 'h \<Rightarrow> z_transport_message \<times> 'h" where
  "z_t_msg_copy H msg h =
     (case tm_body msg of
        T_init m \<Rightarrow> let (c, h) = copy_cookie H (init_cookie m) h in (msg\<lparr>tm_body := T_init (m\<lparr>init_cookie := c\<rparr>)\<rparr>, h)
      | T_open m \<Rightarrow> let (c, h) = copy_cookie H (open_cookie m) h in (msg\<lparr>tm_body := T_open (m\<lparr>open_cookie := c\<rparr>)\<rparr>, h)
      | _ \<Rightarrow> (msg, h))"

definition z_link_recv_t_msg ::
  "'h heap \<Rightarrow> bool \<Rightarrow> 'l z_link \<Rightarrow> 'l \<Rightarrow> 'h \<Rightarrow> ((z_res + z_transport_message) \<times> 'l \<times> 'h) option" where
  "z_link_recv_t_msg H swap zl l h = do {
     let (zbf, h) = z_zbuf_make H 2048 h;
     (ret, zbf, l) \<leftarrow> recv_loop zl (z_zbuf_reset zbf) l;
     if ret = Z_OK then do {
       (r, zbf) \<leftarrow> z_transport_message_decode swap zbf;
       Some (case r of Inl e \<Rightarrow> (Inl e, l, h) | Inr msg \<Rightarrow> let (msg, h) = z_t_msg_copy H msg h in (Inr msg, l, h)) }
     else Some (Inl ret, l, h) }"

section \<open>The size of a message on a stream\<close>

definition stream_size :: "nat \<Rightarrow> bytes" where
  "stream_size n = [ucast (of_nat n :: u32), ucast (drop_bit 8 (of_nat n :: u32))]"

lemma stream_size_back:
  assumes "n < 65536"
  shows "unat (ucast (ucast (of_nat n :: u32) :: u8) OR push_bit 8 (ucast (ucast (drop_bit 8 (of_nat n :: u32)) :: u8)) :: u16) = n"
    "unat (ucast (ucast (of_nat n :: u32) :: u8) OR push_bit 8 (ucast (ucast (drop_bit 8 (of_nat n :: u32)) :: u8)) :: u32) = n"
proof -
  let ?w = "of_nat n :: u32"
  have "ucast (ucast ?w :: u8) OR push_bit 8 (ucast (ucast (drop_bit 8 ?w) :: u8)) = (ucast ?w :: u16)"
  proof (rule bit_word_eqI)
    fix i
    assume "i < LENGTH(16)"
    then show "bit (ucast (ucast ?w :: u8) OR push_bit 8 (ucast (ucast (drop_bit 8 ?w) :: u8)) :: u16) i = bit (ucast ?w :: u16) i"
      by (cases "i < 8") (auto simp: bit_simps)
  qed
  then show "unat (ucast (ucast ?w :: u8) OR push_bit 8 (ucast (ucast (drop_bit 8 ?w) :: u8)) :: u16) = n"
    using assms by (simp add: unat_of_nat unsigned_ucast_eq take_bit_nat_eq_self_iff)
  have t: "take_bit 16 ?w = ?w"
    using assms unfolding word_unat_eq_iff by (simp add: unsigned_take_bit_eq unat_of_nat take_bit_nat_eq_self_iff)
  have "ucast (ucast ?w :: u8) OR push_bit 8 (ucast (ucast (drop_bit 8 ?w) :: u8)) = take_bit 16 ?w"
  proof (rule bit_word_eqI)
    fix i
    assume "i < LENGTH(32)"
    then show "bit (ucast (ucast ?w :: u8) OR push_bit 8 (ucast (ucast (drop_bit 8 ?w) :: u8)) :: u32) i = bit (take_bit 16 ?w) i"
      by (cases "i < 8") (auto simp: bit_simps)
  qed
  then show "unat (ucast (ucast ?w :: u8) OR push_bit 8 (ucast (ucast (drop_bit 8 ?w) :: u8)) :: u32) = n"
    unfolding t using assms by (simp add: unat_of_nat)
qed

lemma read_stream_size:
  assumes "zb_ok zbf" "zb_data zbf = stream_size n @ d" "n < 65536"
  shows "\<exists>zbf'. z_read_stream_size zbf = Some (n, zbf') \<and> zb_ok zbf' \<and> zb_data zbf' = d"
proof -
  obtain z1 where 1: "z_zbuf_read zbf = Some (ucast (of_nat n :: u32), z1)" "zb_ok z1" "zb_data z1 = ucast (drop_bit 8 (of_nat n :: u32)) # d"
    using zb_read [OF assms(1)] assms(2) by (auto simp: stream_size_def)
  show ?thesis using zb_read [OF 1(2,3)] 1(1) stream_size_back(1) [OF assms(3)] by (auto simp: z_read_stream_size_def)
qed

section \<open>Reading into a buffer\<close>

text \<open>The same room for what comes.\<close>

definition zb_same :: "z_zbuf \<Rightarrow> z_zbuf \<Rightarrow> bool" where
  "zb_same z z' \<longleftrightarrow> ios_buf (zb_ios z) = ios_buf (zb_ios z') \<and> ios_w_pos (zb_ios z) = ios_w_pos (zb_ios z') \<and>
     ios_capacity (zb_ios z) = ios_capacity (zb_ios z')"

lemma zb_read_same:
  assumes "zb_ok zbf" "zb_data zbf = b # d"
  shows "\<exists>zbf'. z_zbuf_read zbf = Some (b, zbf') \<and> zb_ok zbf' \<and> zb_data zbf' = d \<and> zb_same zbf' zbf"
  using ios_read [of "zb_ios zbf" b d] assms by (auto simp: z_zbuf_read_def zb_ok_def zb_data_def zb_same_def)

lemma take_in:
  assumes "zb_ok zbf" "length bs \<le> ios_space (zb_ios zbf)"
  shows "\<exists>zbf'. take_in zbf bs = Some zbf' \<and> zb_ok zbf' \<and> zb_data zbf' = zb_data zbf @ bs \<and> ios_shape (zb_ios zbf') = ios_shape (zb_ios zbf) \<and>
    ios_space (zb_ios zbf') = ios_space (zb_ios zbf) - length bs \<and> length (ios_buf (zb_ios zbf')) = length (ios_buf (zb_ios zbf))"
proof -
  let ?ios = "zb_ios zbf"
  let ?ios' = "?ios\<lparr>ios_buf := memcpy_at (ios_buf ?ios) (ios_w_pos ?ios) bs, ios_w_pos := ios_w_pos ?ios + length bs\<rparr>"
  have ok: "ios_ok ?ios" using assms(1) by (simp add: zb_ok_def)
  have w: "ios_w_pos ?ios + length bs \<le> ios_capacity ?ios" using assms(2) ok unfolding ios_space_def ios_ok_def by linarith
  then have b: "ios_w_pos ?ios + length bs \<le> length (ios_buf ?ios)" using ok by (simp add: ios_ok_def)
  have l: "length (memcpy_at (ios_buf ?ios) (ios_w_pos ?ios) bs) = length (ios_buf ?ios)" using b by simp
  have "take_in zbf bs = Some (zbf\<lparr>zb_ios := ?ios'\<rparr>)"
    using b w by (simp add: take_in_def z_zbuf_get_wpos_def z_zbuf_set_wpos_def)
  moreover have "ios_ok ?ios'" using ok w l by (simp add: ios_ok_def)
  moreover have "ios_data ?ios' = ios_data ?ios @ bs"
    using slice_memcpy_append [of "ios_r_pos ?ios" "ios_w_pos ?ios" bs "ios_buf ?ios"] ok b by (simp add: ios_data_def ios_ok_def)
  ultimately show ?thesis using l by (simp add: zb_ok_def zb_data_def ios_shape_def ios_space_def)
qed

text \<open>The bytes of a connection, all of them there.\<close>

definition stream_reader :: "bytes reader" where
  "stream_reader n l = (Some (take n l), drop n l)"

lemma recv_stream_head:
  assumes "ios_r_pos (zb_ios zbf) = 0" "ios_w_pos (zb_ios zbf) = 0" "ios_capacity (zb_ios zbf) = cap"
    and "length (ios_buf (zb_ios zbf)) = cap" "2 \<le> cap" "length d < 65536"
    and "read_exact 2 l = (Some (stream_size (length d)), l')"
  shows "\<exists>z. z_link_recv_t_msg_cap_flow_stream read_exact zbf l =
      (if length d \<le> cap then do {
         (r, zbf, l) \<leftarrow> z_link_recv_exact_zbuf read_exact z (length d) l';
         Some (if r \<noteq> Some (length d) then Z_ERR_TRANSPORT_RX_FAILED else Z_OK, zbf, l) }
       else Some (Z_ERR_TRANSPORT_NO_SPACE, z, l')) \<and>
    zb_ok z \<and> zb_data z = [] \<and> ios_space (zb_ios z) = cap - 2 \<and> length (ios_buf (zb_ios z)) = cap \<and> z_zbuf_get_wpos z = 2"
proof -
  let ?s = "stream_size (length d)"
  have ok: "zb_ok zbf" "zb_data zbf = []" "ios_space (zb_ios zbf) = cap"
    using assms(1-4) by (simp_all add: zb_ok_def ios_ok_def zb_data_def ios_data_def ios_space_def slice_def)
  have s2: "length ?s = 2" by (simp add: stream_size_def)
  obtain z1 where 1: "take_in zbf ?s = Some z1" "zb_ok z1" "zb_data z1 = ?s" "ios_shape (zb_ios z1) = ios_shape (zb_ios zbf)"
    "ios_space (zb_ios z1) = cap - 2" "length (ios_buf (zb_ios z1)) = cap"
    using take_in [OF ok(1), of ?s] ok(2,3) s2 assms(4,5) by auto
  let ?b0 = "ucast (of_nat (length d) :: u32) :: u8" and ?b1 = "ucast (drop_bit 8 (of_nat (length d) :: u32)) :: u8"
  obtain z2 where 2: "z_zbuf_read z1 = Some (?b0, z2)" "zb_ok z2" "zb_data z2 = [?b1]" "zb_same z2 z1"
    using zb_read_same [OF 1(2), of ?b0 "[?b1]"] 1(3) by (auto simp: stream_size_def)
  obtain z3 where 3: "z_zbuf_read z2 = Some (?b1, z3)" "zb_ok z3" "zb_data z3 = []" "zb_same z3 z2"
    using zb_read_same [OF 2(2), of ?b1 "[]"] 2(3) by auto
  have k: "z_zbuf_capacity z3 = cap" "z_zbuf_len z3 = 0" "ios_space (zb_ios z3) = cap - 2" "length (ios_buf (zb_ios z3)) = cap"
      "z_zbuf_get_wpos z3 = 2"
    using 1(4-6) 2(4) 3(2,3,4) assms(3,5) 1(2) by (auto simp: zb_same_def z_zbuf_capacity_def z_zbuf_get_wpos_def ios_shape_def ios_space_def zb_ok_def ios_ok_def)
  show ?thesis
    using assms(7) 1(1) s2 2(1) 3 k stream_size_back(2) [OF assms(6)]
    by (intro exI [of _ z3]) (simp add: z_link_recv_t_msg_cap_flow_stream_def z_link_recv_exact_zbuf_def Let_def)
qed

lemma recv_stream:
  assumes zbf: "ios_r_pos (zb_ios zbf) = 0" "ios_w_pos (zb_ios zbf) = 0" "ios_capacity (zb_ios zbf) = cap"
    "length (ios_buf (zb_ios zbf)) = cap" and d: "length d + 2 \<le> cap" "length d < 65536"
    and r: "read_exact 2 l = (Some (stream_size (length d)), l1)" "read_exact (length d) l1 = (Some d, l2)"
  shows "\<exists>zbf'. z_link_recv_t_msg_cap_flow_stream read_exact zbf l = Some (Z_OK, zbf', l2) \<and> zb_ok zbf' \<and> zb_data zbf' = d"
proof -
  have "2 \<le> cap" "length d \<le> cap" using d by simp_all
  then obtain z where z: "z_link_recv_t_msg_cap_flow_stream read_exact zbf l = do {
         (r, zbf, l) \<leftarrow> z_link_recv_exact_zbuf read_exact z (length d) l1;
         Some (if r \<noteq> Some (length d) then Z_ERR_TRANSPORT_RX_FAILED else Z_OK, zbf, l) }"
      "zb_ok z" "zb_data z = []" "ios_space (zb_ios z) = cap - 2"
    using recv_stream_head [where read_exact = read_exact and l = l and l' = l1, OF zbf _ d(2) r(1)] by auto
  have "length d \<le> ios_space (zb_ios z)" using z(4) d(1) by linarith
  then obtain z4 where "take_in z d = Some z4" "zb_ok z4" "zb_data z4 = d" using take_in [OF z(2), of d] z(3) by auto
  then show ?thesis unfolding z(1) using r(2) by (simp add: z_link_recv_exact_zbuf_def)
qed

text \<open>
  The reception of a message of the handshake checks its length against the whole buffer, of which the length itself
  has taken two bytes already: a message that is one or two bytes too long is written behind the buffer.
\<close>

theorem handshake_buffer_overrun:
  fixes rest :: bytes
  assumes "ios_r_pos (zb_ios zbf) = 0" "ios_w_pos (zb_ios zbf) = 0" "ios_capacity (zb_ios zbf) = cap"
    and "length (ios_buf (zb_ios zbf)) = cap" "2 \<le> cap" "length d < 65536"
  defines "result \<equiv> z_link_recv_t_msg_cap_flow_stream stream_reader zbf (stream_size (length d) @ d @ rest)"
  shows "if length d + 2 \<le> cap then \<exists>zbf'. result = Some (Z_OK, zbf', rest) \<and> zb_ok zbf' \<and> zb_data zbf' = d
    else if length d \<le> cap then result = None
    else \<exists>zbf'. result = Some (Z_ERR_TRANSPORT_NO_SPACE, zbf', d @ rest)"
proof -
  let ?s = "stream_size (length d)"
  have s2: "length ?s = 2" by (simp add: stream_size_def)
  have r: "stream_reader 2 (?s @ d @ rest) = (Some ?s, d @ rest)" "stream_reader (length d) (d @ rest) = (Some d, rest)"
    using s2 by (simp_all add: stream_reader_def)
  show ?thesis
  proof (cases "length d + 2 \<le> cap")
    case True
    then show ?thesis using recv_stream [where read_exact = stream_reader, OF assms(1-4) True assms(6) r] by (simp add: result_def)
  next
    case False
    then have "cap < 2 + length d" by linarith
    then have "take_in z d = None" if "length (ios_buf (zb_ios z)) = cap" "z_zbuf_get_wpos z = 2" for z
      using that by (simp add: take_in_def c_write_def)
    then show ?thesis
      using recv_stream_head [where read_exact = stream_reader, OF assms(1-6) r(1)] False r(2) by (auto simp: result_def z_link_recv_exact_zbuf_def)
  qed
qed

theorem handshake_buffer_overrun_witness:
  "z_link_recv_t_msg_cap_flow_stream stream_reader
     \<lparr>zb_ios = \<lparr>ios_r_pos = 0, ios_w_pos = 0, ios_capacity = 6, ios_buf = replicate 6 0, ios_is_alloc = True\<rparr>, zb_slice = None\<rparr>
     (stream_size 5 @ [1, 2, 3, 4, 5] @ [9]) = None"
proof -
  have l: "length [1, 2, 3, 4, 5 :: u8] = 5" by simp
  show ?thesis
    using handshake_buffer_overrun [of "\<lparr>zb_ios = \<lparr>ios_r_pos = 0, ios_w_pos = 0, ios_capacity = 6, ios_buf = replicate 6 0,
      ios_is_alloc = True\<rparr>, zb_slice = None\<rparr>" 6 "[1, 2, 3, 4, 5]" "[9]", unfolded l] by simp
qed

section \<open>What reaches the network\<close>

text \<open>A network that takes whatever it is given.\<close>

definition full_writer :: "bytes writer" where
  "full_writer d l = (Some (length d), l @ d)"

lemma send_slice_full:
  assumes "ios_ok ios"
  shows "send_slice streamed full_writer (ios_buf ios) (z_iosli_readable ios) (z_iosli_readable ios) (ios_r_pos ios) l = Some (Z_OK, l @ ios_data ios)"
proof -
  have n: "z_iosli_readable ios = length (ios_data ios)" using assms by simp
  have "ios_r_pos ios + length (ios_data ios) \<le> length (ios_buf ios)" using ios_r_le [OF assms] assms by (simp add: ios_ok_def)
  moreover have "slice (ios_buf ios) (ios_r_pos ios) (length (ios_data ios)) = ios_data ios"
    unfolding length_ios_data [OF assms] by (simp add: ios_data_def)
  ultimately show ?thesis unfolding n by (simp add: send_slice.simps full_writer_def)
qed

lemma send_slices_full:
  assumes "wb_ok wbf"
  shows "send_slices streamed full_writer wbf i Z_OK l = Some (Z_OK, l @ concat (map ios_data (drop i (wb_slices wbf))))"
proof (induction "wb_w_idx wbf + 1 - i" arbitrary: i l)
  case 0
  then have "\<not> i < z_wbuf_len_iosli wbf" "drop i (wb_slices wbf) = []"
    using assms wb_length [OF assms] by (simp_all add: z_wbuf_len_iosli_def wb_ok_def)
  then show ?case by (simp add: send_slices.simps)
next
  case (Suc n)
  then have i: "i \<le> wb_w_idx wbf" "i < z_wbuf_len_iosli wbf" "i < length (wb_slices wbf)"
    using assms wb_length [OF assms] by (simp_all add: z_wbuf_len_iosli_def wb_ok_def)
  have "n = wb_w_idx wbf + 1 - (i + 1)" using Suc.hyps(2) by simp
  from Suc.hyps(1) [OF this] show ?case
    using i wb_get [OF assms i(1)] send_slice_full [OF wb_slice_ok [OF assms i(1)]]
    by (simp add: send_slices.simps [of _ _ _ i] Let_def flip: Cons_nth_drop_Suc)
qed

text \<open>\<open>_z_link_send_wbuf\<close> hands the data of all slices over, in order.\<close>

lemma link_send_full: "wb_ok wbf \<Longrightarrow> z_link_send_wbuf streamed full_writer wbf l = Some (Z_OK, l @ concat (map ios_data (wb_slices wbf)))"
  by (simp add: z_link_send_wbuf_def send_slices_full)

text \<open>A network for datagrams that takes at most \<open>k\<close> bytes a time.\<close>

definition partial_writer :: "nat \<Rightarrow> bytes writer" where
  "partial_writer k d l = (Some (min k (length d)), l @ take k d)"

text \<open>
  After the second partial write of a datagram the position has moved on by the bytes of the first one twice: the third
  write reads beyond the data.
\<close>

theorem datagram_third_write_overreads:
  assumes "0 < k" "length buf = 3 * k"
  shows "send_slice False (partial_writer k) buf (3 * k) (3 * k) 0 l = None"
proof -
  have "send_slice False (partial_writer k) buf (3 * k) k (3 * k) l = None" for l
    using assms by (simp add: send_slice.simps [of _ _ _ _ k] c_read_def)
  then have "send_slice False (partial_writer k) buf (3 * k) (2 * k) k l = None" for l
    using assms by (simp add: send_slice.simps [of _ _ _ _ "2 * k"] c_read_def partial_writer_def min_def)
  then show ?thesis
    using assms by (simp add: send_slice.simps [of _ _ _ _ "3 * k"] c_read_def partial_writer_def min_def)
qed

theorem datagram_third_write_overreads_witness:
  "send_slice False (partial_writer 1) [7, 8, 9] 3 3 0 [] = None"
  using datagram_third_write_overreads [of 1 "[7, 8, 9]" "[]"] by (simp add: numeral_eq_Suc)

end
