(* ===== verification/ZRx.thy ===== *)
theory ZRx
  imports ZLink
begin

text \<open>
  The receiver of a unicast transport: \<open>transport/unicast/rx.c\<close> and \<open>transport/unicast/read.c\<close>. Frames and fragments
  pass the window of the sequence numbers, fragments are put together in a buffer of each channel. The network
  layer is an argument: how a network message is decoded (\<open>ZNet\<close> has the code's decoder, \<open>ZReceiver\<close> puts it in),
  what the session does with it.
\<close>

section \<open>State\<close>

datatype z_dbuf_state = DBUF_NULL | DBUF_INIT | DBUF_OVERFLOW

datatype z_flow_state = FLOW_INACTIVE | FLOW_PENDING_SIZE | FLOW_PENDING_DATA | FLOW_READY

record z_peer =
  pr_remote_zid :: z_id
  pr_remote_whatami :: u32
  pr_received :: bool
  pr_state_reliable :: z_dbuf_state
  pr_state_best_effort :: z_dbuf_state
  pr_dbuf_reliable :: z_wbuf
  pr_dbuf_best_effort :: z_wbuf
  pr_patch :: u8
  pr_socket :: nat
  pr_owns_socket :: bool
  pr_sn_rx_reliable :: u32
  pr_sn_rx_best_effort :: u32
  pr_pending :: bool
  pr_flow_state :: z_flow_state
  pr_flow_curr_size :: u16
  pr_flow_buff :: z_zbuf

text \<open>
  Of the transport, what the receiver uses: how often the mutex of the peers is held goes with it, the peers
  are passed beside it.
\<close>

record z_transport_unicast =
  zu_sn_res :: u32
  zu_zbuf :: z_zbuf
  zu_flow :: z_link_flow
  zu_peer_locks :: nat

text \<open>
  \<open>_z_network_message_decode\<close>, \<open>_z_handle_network_message\<close> and \<open>_z_interest_peer_disconnected\<close> with the session
  \<open>'s\<close> they work on, and whether somebody still refers to the receive buffer. The decoder is that of \<open>ZNet\<close>; the
  receiver is written for any, and \<open>ZTransportProps\<close> puts the one of the code in. It allocates, so what it returns
  may depend on the state, and it may be undefined.
\<close>

record ('m, 's) z_rx_env =
  rx_decode :: "'s \<Rightarrow> z_zbuf \<Rightarrow> 'm decoded"
  rx_handle :: "'m \<Rightarrow> z_reliability \<Rightarrow> 's \<Rightarrow> z_res \<times> 's"
  rx_disconnected :: "z_peer \<Rightarrow> 's \<Rightarrow> 's"
  rx_shared :: "'s \<Rightarrow> bool"

text \<open>The fields of a channel.\<close>

definition rx_sn :: "z_reliability \<Rightarrow> z_peer \<Rightarrow> u32" where
  "rx_sn r p = (if r = RELIABLE then pr_sn_rx_reliable p else pr_sn_rx_best_effort p)"

definition set_rx_sn :: "z_reliability \<Rightarrow> u32 \<Rightarrow> z_peer \<Rightarrow> z_peer" where
  "set_rx_sn r sn p = (if r = RELIABLE then p\<lparr>pr_sn_rx_reliable := sn\<rparr> else p\<lparr>pr_sn_rx_best_effort := sn\<rparr>)"

definition dbuf :: "z_reliability \<Rightarrow> z_peer \<Rightarrow> z_wbuf" where
  "dbuf r p = (if r = RELIABLE then pr_dbuf_reliable p else pr_dbuf_best_effort p)"

definition set_dbuf :: "z_reliability \<Rightarrow> z_wbuf \<Rightarrow> z_peer \<Rightarrow> z_peer" where
  "set_dbuf r w p = (if r = RELIABLE then p\<lparr>pr_dbuf_reliable := w\<rparr> else p\<lparr>pr_dbuf_best_effort := w\<rparr>)"

definition dbuf_state :: "z_reliability \<Rightarrow> z_peer \<Rightarrow> z_dbuf_state" where
  "dbuf_state r p = (if r = RELIABLE then pr_state_reliable p else pr_state_best_effort p)"

definition set_state :: "z_reliability \<Rightarrow> z_dbuf_state \<Rightarrow> z_peer \<Rightarrow> z_peer" where
  "set_state r st p = (if r = RELIABLE then p\<lparr>pr_state_reliable := st\<rparr> else p\<lparr>pr_state_best_effort := st\<rparr>)"

definition clear_dbuf :: "z_reliability \<Rightarrow> z_peer \<Rightarrow> z_peer option" where
  "clear_dbuf r p = do { w \<leftarrow> z_wbuf_clear (dbuf r p); Some (set_state r DBUF_NULL (set_dbuf r w p)) }"

section \<open>Frames\<close>

text \<open>The messages of a frame, one by one, out of the buffer that was being decoded.\<close>

partial_function (option) frame_messages ::
  "('m, 's) z_rx_env \<Rightarrow> z_reliability \<Rightarrow> z_zbuf \<Rightarrow> 's \<Rightarrow> (z_res \<times> z_zbuf \<times> 's) option" where
  "frame_messages E r zbf s =
     (if 0 < z_zbuf_len zbf then do {
        (x, zbf) \<leftarrow> rx_decode E s zbf;
        (case x of
           Inl e \<Rightarrow> Some (e, zbf, s)
         | Inr m \<Rightarrow>
             let (ret, s) = rx_handle E m r s
             in if ret \<noteq> Z_OK then Some (ret, zbf, s) else frame_messages E r zbf s) }
      else Some (Z_OK, zbf, s))"

text \<open>\<open>zbf\<close> is the buffer that the payload of the frame points to.\<close>

definition z_unicast_handle_frame ::
  "('m, 's) z_rx_env \<Rightarrow> u32 \<Rightarrow> u8 \<Rightarrow> z_t_msg_frame \<Rightarrow> z_zbuf \<Rightarrow> z_peer \<Rightarrow> 's \<Rightarrow> (z_res \<times> z_zbuf \<times> z_peer \<times> 's) option" where
  "z_unicast_handle_frame E res header msg zbf peer s =
     (let r = (if HAS_FLAG header FLAG_T_FRAME_R then RELIABLE else BEST_EFFORT)
      in if z_sn_precedes res (rx_sn r peer) (frame_sn msg) then do {
           (ret, zbf, s) \<leftarrow> frame_messages E r zbf s;
           Some (ret, zbf, set_rx_sn r (frame_sn msg) peer, s) }
         else do {
           peer \<leftarrow> clear_dbuf r peer;
           Some (Z_OK, z_zbuf_reset zbf, peer, s) })"

section \<open>Fragments\<close>

abbreviation (input) Z_FRAG_MAX_SIZE :: nat where "Z_FRAG_MAX_SIZE \<equiv> 4096"

text \<open>The markers of the first and the dropped fragment; whether to go on with this one.\<close>

definition fragment_markers :: "z_reliability \<Rightarrow> z_t_msg_fragment \<Rightarrow> z_peer \<Rightarrow> (bool \<times> z_peer) option" where
  "fragment_markers r msg peer =
     (if 1 \<le> pr_patch peer then do {
        (go, peer) \<leftarrow> (if frag_first msg then do { w \<leftarrow> z_wbuf_reset (dbuf r peer); Some (True, set_dbuf r w peer) }
                      else do { n \<leftarrow> z_wbuf_len (dbuf r peer); Some (n \<noteq> 0, peer) });
        if go \<and> frag_drop msg then do { w \<leftarrow> z_wbuf_reset (dbuf r peer); Some (False, set_dbuf r w peer) }
        else Some (go, peer) }
      else Some (True, peer))"

text \<open>The buffer of the channel, made when there is none; whether there is one now.\<close>

definition fragment_alloc :: "'h heap \<Rightarrow> z_reliability \<Rightarrow> z_peer \<Rightarrow> 'h \<Rightarrow> (bool \<times> z_peer \<times> 'h) option" where
  "fragment_alloc H r peer h =
     (if dbuf_state r peer = DBUF_NULL then do {
        (w, h) \<leftarrow> z_wbuf_make H Z_FRAG_MAX_SIZE False h;
        cap \<leftarrow> z_wbuf_capacity w;
        let peer = set_dbuf r w peer;
        Some (if cap \<noteq> Z_FRAG_MAX_SIZE then (False, peer, h) else (True, set_state r DBUF_INIT peer, h)) }
      else Some (True, peer, h))"

definition fragment_fill :: "'h heap \<Rightarrow> z_reliability \<Rightarrow> bytes \<Rightarrow> z_peer \<Rightarrow> 'h \<Rightarrow> (z_peer \<times> 'h) option" where
  "fragment_fill H r payload peer h =
     (if dbuf_state r peer = DBUF_INIT then do {
        n \<leftarrow> z_wbuf_len (dbuf r peer);
        if Z_FRAG_MAX_SIZE < size_add n (length payload) then Some (set_state r DBUF_OVERFLOW peer, h)
        else do {
          (_, w, h) \<leftarrow> z_wbuf_write_bytes H (dbuf r peer) payload 0 (length payload) h;
          Some (set_dbuf r w peer, h) } }
      else Some (peer, h))"

definition fragment_final ::
  "('m, 's) z_rx_env \<Rightarrow> 'h heap \<Rightarrow> z_reliability \<Rightarrow> z_peer \<Rightarrow> 's \<Rightarrow> 'h \<Rightarrow> (z_res \<times> z_peer \<times> 's \<times> 'h) option" where
  "fragment_final E H r peer s h =
     (if dbuf_state r peer = DBUF_OVERFLOW then do { peer \<leftarrow> clear_dbuf r peer; Some (Z_OK, peer, s, h) }
      else do {
        (zbf, w, h) \<leftarrow> z_wbuf_moved_as_zbuf H (dbuf r peer) h;
        let peer = set_dbuf r w peer;
        if z_zbuf_capacity zbf = 0 then do { peer \<leftarrow> clear_dbuf r peer; Some (Z_ERR_SYSTEM_OUT_OF_MEMORY, peer, s, h) }
        else do {
          (x, zbf) \<leftarrow> rx_decode E s zbf;
          let peer = set_state r DBUF_NULL peer;
          Some (case x of
             Inl _ \<Rightarrow> (Z_ERR_MESSAGE_DESERIALIZATION_FAILED, peer, s, h)
           | Inr m \<Rightarrow> (Z_OK, peer, snd (rx_handle E m r s), h)) } })"

definition z_unicast_handle_fragment_inner ::
  "('m, 's) z_rx_env \<Rightarrow> 'h heap \<Rightarrow> u32 \<Rightarrow> u8 \<Rightarrow> z_t_msg_fragment \<Rightarrow> z_peer \<Rightarrow> 's \<Rightarrow> 'h \<Rightarrow> (z_res \<times> z_peer \<times> 's \<times> 'h) option" where
  "z_unicast_handle_fragment_inner E H res header msg peer s h =
     (let r = (if HAS_FLAG header FLAG_T_FRAGMENT_R then RELIABLE else BEST_EFFORT)
      in if \<not> z_sn_precedes res (rx_sn r peer) (frag_sn msg) then do { peer \<leftarrow> clear_dbuf r peer; Some (Z_OK, peer, s, h) }
         else do {
           let consecutive = z_sn_consecutive res (rx_sn r peer) (frag_sn msg);
           let peer = set_rx_sn r (frag_sn msg) peer;
           n \<leftarrow> z_wbuf_len (dbuf r peer);
           if \<not> consecutive \<and> 0 < n then do { peer \<leftarrow> clear_dbuf r peer; Some (Z_OK, peer, s, h) }
           else do {
             (go, peer) \<leftarrow> fragment_markers r msg peer;
             if \<not> go then Some (Z_OK, peer, s, h)
             else do {
               (ok, peer, h) \<leftarrow> fragment_alloc H r peer h;
               if \<not> ok then Some (Z_ERR_SYSTEM_OUT_OF_MEMORY, peer, s, h)
               else do {
                 (peer, h) \<leftarrow> fragment_fill H r (frag_payload msg) peer h;
                 if HAS_FLAG header FLAG_T_FRAGMENT_M then Some (Z_OK, peer, s, h)
                 else fragment_final E H r peer s h } } } })"

definition z_unicast_handle_fragment ::
  "('m, 's) z_rx_env \<Rightarrow> 'h heap \<Rightarrow> u32 \<Rightarrow> u8 \<Rightarrow> z_t_msg_fragment \<Rightarrow> z_peer \<Rightarrow> 's \<Rightarrow> 'h \<Rightarrow> (z_res \<times> z_peer \<times> 's \<times> 'h) option" where
  "z_unicast_handle_fragment E H res header msg peer s h = z_unicast_handle_fragment_inner E H res header msg peer s h"

section \<open>Messages\<close>

text \<open>Results: the code, the buffer that the message was decoded from, the peer, the session and the heap.\<close>

type_synonym ('s, 'h) handled = "(z_res \<times> z_zbuf \<times> z_peer \<times> 's \<times> 'h) option"

definition z_unicast_handle_transport_message ::
  "('m, 's) z_rx_env \<Rightarrow> 'h heap \<Rightarrow> u32 \<Rightarrow> z_transport_message \<Rightarrow> z_zbuf \<Rightarrow> z_peer \<Rightarrow> 's \<Rightarrow> 'h \<Rightarrow> ('s, 'h) handled" where
  "z_unicast_handle_transport_message E H res t_msg zbf peer s h =
     (let header = tm_header t_msg; mid = Z_MID header in
      if mid = MID_T_FRAME then
        (case tm_body t_msg of
           T_frame m \<Rightarrow> do { (ret, zbf, peer, s) \<leftarrow> z_unicast_handle_frame E res header m zbf peer s; Some (ret, zbf, peer, s, h) }
         | _ \<Rightarrow> None)
      else if mid = MID_T_FRAGMENT then
        (case tm_body t_msg of
           T_fragment m \<Rightarrow> do { (ret, peer, s, h) \<leftarrow> z_unicast_handle_fragment E H res header m peer s h; Some (ret, zbf, peer, s, h) }
         | _ \<Rightarrow> None)
      else if mid = MID_T_CLOSE then Some (Z_ERR_CONNECTION_CLOSED, zbf, peer, s, h)
      else Some (Z_OK, zbf, peer, s, h))"

partial_function (option) process_loop ::
  "('m, 's) z_rx_env \<Rightarrow> 'h heap \<Rightarrow> bool \<Rightarrow> u32 \<Rightarrow> z_zbuf \<Rightarrow> z_peer \<Rightarrow> 's \<Rightarrow> 'h \<Rightarrow> (z_res \<times> z_peer \<times> 's \<times> 'h) option" where
  "process_loop E H swap res zbf peer s h =
     (if 0 < z_zbuf_len zbf then do {
        (r, zbf) \<leftarrow> z_transport_message_decode swap zbf;
        (case r of
           Inl e \<Rightarrow> Some (e, peer, s, h)
         | Inr t_msg \<Rightarrow> do {
             (ret, zbf, peer, s, h) \<leftarrow> z_unicast_handle_transport_message E H res t_msg zbf peer s h;
             if ret \<noteq> Z_OK then Some (ret, peer, s, h) else process_loop E H swap res zbf peer s h }) }
      else Some (Z_OK, peer, s, h))"

text \<open>A new buffer when the old one is still referred to.\<close>

definition z_unicast_update_rx_buffer :: "'h heap \<Rightarrow> bool \<Rightarrow> z_transport_unicast \<Rightarrow> 'h \<Rightarrow> (z_res \<times> z_transport_unicast \<times> 'h) option" where
  "z_unicast_update_rx_buffer H shared ztu h =
     (if shared then do {
        let (new_zbuf, h) = z_zbuf_make H (z_zbuf_capacity (zu_zbuf ztu)) h;
        if z_zbuf_capacity new_zbuf \<noteq> z_zbuf_capacity (zu_zbuf ztu) then Some (Z_ERR_SYSTEM_OUT_OF_MEMORY, ztu, h)
        else do {
          new_zbuf \<leftarrow> (if 0 < z_zbuf_len (zu_zbuf ztu) then z_zbuf_copy_bytes new_zbuf (zu_zbuf ztu) else Some new_zbuf);
          Some (Z_OK, ztu\<lparr>zu_zbuf := new_zbuf\<rparr>, h) } }
      else Some (Z_OK, ztu, h))"

type_synonym ('s, 'h) processed = "(z_res \<times> z_transport_unicast \<times> z_peer \<times> 's \<times> 'h) option"

definition z_unicast_process_messages ::
  "('m, 's) z_rx_env \<Rightarrow> 'h heap \<Rightarrow> bool \<Rightarrow> z_transport_unicast \<Rightarrow> z_peer \<Rightarrow> nat \<Rightarrow> 's \<Rightarrow> 'h \<Rightarrow> ('s, 'h) processed" where
  "z_unicast_process_messages E H swap ztu peer to_read s h = do {
     zbuf \<leftarrow> z_zbuf_view (if pr_flow_state peer = FLOW_READY then pr_flow_buff peer else zu_zbuf ztu) to_read;
     (ret, peer, s, h) \<leftarrow> process_loop E H swap (zu_sn_res ztu) zbuf (peer\<lparr>pr_received := True\<rparr>) s h;
     if ret \<noteq> Z_OK then Some (ret, ztu, peer, s, h)
     else do {
       (ztu, peer) \<leftarrow> (if pr_flow_state peer = FLOW_READY then do {
           b \<leftarrow> z_zbuf_set_rpos (pr_flow_buff peer) (size_add (z_zbuf_get_rpos (pr_flow_buff peer)) to_read);
           Some (ztu, peer\<lparr>pr_flow_buff := b\<rparr>) }
         else do {
           b \<leftarrow> z_zbuf_set_rpos (zu_zbuf ztu) (size_add (z_zbuf_get_rpos (zu_zbuf ztu)) to_read);
           Some (ztu\<lparr>zu_zbuf := b\<rparr>, peer) });
       (ret, ztu, h) \<leftarrow> z_unicast_update_rx_buffer H (rx_shared E s) ztu h;
       Some (ret, ztu, peer, s, h) } }"

end
