(* ===== verification/ZRead.thy ===== *)
theory ZRead
  imports ZRx
begin

text \<open>
  The read side of a unicast transport: \<open>transport/unicast/read.c\<close>, the reception of a single message of
  \<open>transport/unicast/rx.c\<close> and the peers of \<open>transport/peer.c\<close>. The peers are a list, their sockets numbers; the
  reader of a socket is a parameter.
\<close>

section \<open>Peers\<close>

record z_establish_param =
  ep_remote_zid :: z_id
  ep_batch_size :: u16
  ep_initial_sn_rx :: u32
  ep_initial_sn_tx :: u32
  ep_lease :: u32
  ep_remote_whatami :: u32
  ep_key_id_res :: u8
  ep_req_id_res :: u8
  ep_seq_num_res :: u8
  ep_patch :: u8

definition z_transport_peer_mutex_lock :: "z_transport_unicast \<Rightarrow> z_transport_unicast" where
  "z_transport_peer_mutex_lock ztu = ztu\<lparr>zu_peer_locks := zu_peer_locks ztu + 1\<rparr>"

definition z_transport_peer_mutex_unlock :: "z_transport_unicast \<Rightarrow> z_transport_unicast" where
  "z_transport_peer_mutex_unlock ztu = ztu\<lparr>zu_peer_locks := zu_peer_locks ztu - 1\<rparr>"

text \<open>The data of a new peer.\<close>

definition fill_peer :: "u32 \<Rightarrow> z_establish_param \<Rightarrow> nat \<Rightarrow> bool \<Rightarrow> z_peer" where
  "fill_peer res param socket owns_socket =
     (let sn = z_sn_decrement res (ep_initial_sn_rx param)
      in \<lparr>pr_remote_zid = ep_remote_zid param, pr_remote_whatami = ep_remote_whatami param, pr_received = True,
          pr_state_reliable = DBUF_NULL, pr_state_best_effort = DBUF_NULL, pr_dbuf_reliable = z_wbuf_null,
          pr_dbuf_best_effort = z_wbuf_null, pr_patch = (if ep_patch param < 1 then ep_patch param else 1),
          pr_socket = socket, pr_owns_socket = owns_socket, pr_sn_rx_reliable = sn, pr_sn_rx_best_effort = sn,
          pr_pending = False, pr_flow_state = FLOW_INACTIVE, pr_flow_curr_size = 0, pr_flow_buff = z_zbuf_null\<rparr>)"

text \<open>
  \<open>_z_slist_push_empty\<close> hands the old list back when there is no memory for a new element; the head of that list is
  then taken for the new one.
\<close>

definition z_transport_peer_unicast_add ::
  "bool \<Rightarrow> z_transport_unicast \<Rightarrow> z_establish_param \<Rightarrow> nat \<Rightarrow> bool \<Rightarrow> z_peer list \<Rightarrow> z_res \<times> z_transport_unicast \<times> z_peer list" where
  "z_transport_peer_unicast_add alloc_ok ztu param socket owns_socket peers =
     (let ztu = z_transport_peer_mutex_lock ztu;
          peer = fill_peer (zu_sn_res ztu) param socket owns_socket
      in if alloc_ok then (Z_OK, z_transport_peer_mutex_unlock ztu, peer # peers)
         else case peers of
           [] \<Rightarrow> (Z_ERR_SYSTEM_OUT_OF_MEMORY, ztu, [])
         | _ # rest \<Rightarrow> (Z_OK, z_transport_peer_mutex_unlock ztu, peer # rest))"

definition z_transport_peer_common_clear :: "z_peer \<Rightarrow> z_peer option" where
  "z_transport_peer_common_clear src = do {
     w1 \<leftarrow> z_wbuf_clear (pr_dbuf_reliable src);
     w2 \<leftarrow> z_wbuf_clear (pr_dbuf_best_effort src);
     Some (src\<lparr>pr_dbuf_reliable := w1, pr_dbuf_best_effort := w2, pr_remote_zid := z_id_empty\<rparr>) }"

text \<open>The sockets that are closed go with the result.\<close>

definition z_transport_peer_unicast_clear :: "z_peer \<Rightarrow> (z_peer \<times> nat list) option" where
  "z_transport_peer_unicast_clear src = do {
     let src = src\<lparr>pr_flow_buff := z_zbuf_clear (pr_flow_buff src)\<rparr>;
     let closed = (if pr_owns_socket src then [pr_socket src] else []);
     src \<leftarrow> z_transport_peer_common_clear src;
     Some (src, closed) }"

definition z_transport_peer_unicast_eq :: "z_peer \<Rightarrow> z_peer \<Rightarrow> bool" where
  "z_transport_peer_unicast_eq left right = (pr_remote_zid left = pr_remote_zid right)"

section \<open>Getting data in\<close>

text \<open>A look at the network when there are fewer than \<open>n\<close> bytes.\<close>

definition top_up :: "'l reader \<Rightarrow> nat \<Rightarrow> z_zbuf \<Rightarrow> 'l \<Rightarrow> (z_zbuf \<times> 'l) option" where
  "top_up read n zbf l =
     (if z_zbuf_len zbf < n then do { (_, zbf, l) \<leftarrow> z_link_recv_zbuf read zbf l; Some (zbf, l) } else Some (zbf, l))"

text \<open>
  A whole message of a stream is gathered in the buffer: its size, or none when there is not enough yet, after
  which the data moves to the front and the length is read again the next time.
\<close>

definition gather_stream :: "'l reader \<Rightarrow> z_zbuf \<Rightarrow> 'l \<Rightarrow> (nat option \<times> z_zbuf \<times> 'l) option" where
  "gather_stream read zbf l = do {
     (zbf, l) \<leftarrow> top_up read 2 zbf l;
     if z_zbuf_len zbf < 2 then do { zbf \<leftarrow> z_zbuf_compact zbf; Some (None, zbf, l) }
     else do {
       (to_read, zbf) \<leftarrow> z_read_stream_size zbf;
       (zbf, l) \<leftarrow> top_up read to_read zbf l;
       if z_zbuf_len zbf < to_read then do {
         zbf \<leftarrow> z_zbuf_set_rpos zbf (size_sub (z_zbuf_get_rpos zbf) 2);
         zbf \<leftarrow> z_zbuf_compact zbf;
         Some (None, zbf, l) }
       else Some (Some to_read, zbf, l) } }"

text \<open>Results: whether there is something to process, and how much.\<close>

definition z_unicast_client_read ::
  "'l reader \<Rightarrow> z_transport_unicast \<Rightarrow> nat \<Rightarrow> 'l \<Rightarrow> (bool \<times> nat \<times> z_transport_unicast \<times> 'l) option" where
  "z_unicast_client_read read ztu to_read l =
     (case zu_flow ztu of
        FLOW_STREAM \<Rightarrow> do {
          (n, zbf, l) \<leftarrow> gather_stream read (zu_zbuf ztu) l;
          Some (case n of None \<Rightarrow> (False, to_read, ztu\<lparr>zu_zbuf := zbf\<rparr>, l) | Some n \<Rightarrow> (True, n, ztu\<lparr>zu_zbuf := zbf\<rparr>, l)) }
      | FLOW_DATAGRAM \<Rightarrow> do {
          zbf \<leftarrow> z_zbuf_compact (zu_zbuf ztu);
          (n, zbf, l) \<leftarrow> z_link_recv_zbuf read zbf l;
          Some (case n of None \<Rightarrow> (False, to_read, ztu\<lparr>zu_zbuf := zbf\<rparr>, l) | Some n \<Rightarrow> (True, n, ztu\<lparr>zu_zbuf := zbf\<rparr>, l)) }
      | FLOW_OTHER \<Rightarrow> Some (True, to_read, ztu, l))"

definition z_unicast_recv_t_msg ::
  "bool \<Rightarrow> 'l reader \<Rightarrow> z_transport_unicast \<Rightarrow> z_peer \<Rightarrow> 'l \<Rightarrow> ((z_res + z_transport_message) \<times> z_transport_unicast \<times> z_peer \<times> 'l) option" where
  "z_unicast_recv_t_msg swap read ztu peer l = do {
     (ret, zbf, l) \<leftarrow> (case zu_flow ztu of
          FLOW_STREAM \<Rightarrow> do {
            (n, zbf, l) \<leftarrow> gather_stream read (zu_zbuf ztu) l;
            Some (if n = None then Z_ERR_TRANSPORT_NOT_ENOUGH_BYTES else Z_OK, zbf, l) }
        | FLOW_DATAGRAM \<Rightarrow> do {
            zbf \<leftarrow> z_zbuf_compact (zu_zbuf ztu);
            (n, zbf, l) \<leftarrow> z_link_recv_zbuf read zbf l;
            Some (if n = None then Z_ERR_TRANSPORT_RX_FAILED else Z_OK, zbf, l) }
        | FLOW_OTHER \<Rightarrow> Some (Z_OK, zu_zbuf ztu, l));
     if ret = Z_OK then do {
       (x, zbf) \<leftarrow> z_transport_message_decode swap zbf;
       Some (x, ztu\<lparr>zu_zbuf := zbf\<rparr>, (case x of Inr _ \<Rightarrow> peer\<lparr>pr_received := True\<rparr> | Inl _ \<Rightarrow> peer), l) }
     else Some (Inl ret, ztu\<lparr>zu_zbuf := zbf\<rparr>, peer, l) }"

section \<open>The client\<close>

text \<open>What the destructor of a message does to the buffer that the message was decoded from.\<close>

definition t_msg_clear_zbuf :: "z_transport_message \<Rightarrow> z_zbuf \<Rightarrow> z_zbuf" where
  "t_msg_clear_zbuf t_msg zbf = (if Z_MID (tm_header t_msg) = MID_T_FRAME then z_zbuf_reset zbf else zbf)"

type_synonym ('s, 'l, 'h) unicast_read = "(z_res \<times> z_transport_unicast \<times> z_peer \<times> 's \<times> 'l \<times> 'h) option"

text \<open>A message at a time, or what one look at the socket gives, by the router, the client's only peer.\<close>

definition read_from_peer ::
  "('m, 's) z_rx_env \<Rightarrow> 'h heap \<Rightarrow> bool \<Rightarrow> 'l reader \<Rightarrow> z_transport_unicast \<Rightarrow> z_peer \<Rightarrow> bool \<Rightarrow> 's \<Rightarrow> 'l \<Rightarrow> 'h \<Rightarrow> ('s, 'l, 'h) unicast_read" where
  "read_from_peer E H swap read ztu curr_peer single_read s l h =
     (if single_read then do {
        (x, ztu, curr_peer, l) \<leftarrow> z_unicast_recv_t_msg swap read ztu curr_peer l;
        (case x of
           Inl e \<Rightarrow> Some (e, ztu, curr_peer, s, l, h)
         | Inr t_msg \<Rightarrow> do {
             (ret, zbf, curr_peer, s, h) \<leftarrow> z_unicast_handle_transport_message E H (zu_sn_res ztu) t_msg (zu_zbuf ztu) curr_peer s h;
             let ztu = ztu\<lparr>zu_zbuf := t_msg_clear_zbuf t_msg zbf\<rparr>;
             if ret \<noteq> Z_OK then Some (ret, ztu, curr_peer, s, l, h)
             else do {
               (ret, ztu, h) \<leftarrow> z_unicast_update_rx_buffer H (rx_shared E s) ztu h;
               Some (ret, ztu, curr_peer, s, l, h) } }) }
      else do {
        let ztu = ztu\<lparr>zu_zbuf := z_zbuf_reset (zu_zbuf ztu)\<rparr>;
        (more, to_read, ztu, l) \<leftarrow> z_unicast_client_read read ztu 0 l;
        if more then do {
          (ret, ztu, curr_peer, s, h) \<leftarrow> z_unicast_process_messages E H swap ztu curr_peer to_read s h;
          Some (ret, ztu, curr_peer, s, l, h) }
        else Some (Z_NO_DATA_PROCESSED, ztu, curr_peer, s, l, h) })"

definition zp_unicast_read ::
  "('m, 's) z_rx_env \<Rightarrow> 'h heap \<Rightarrow> bool \<Rightarrow> 'l reader \<Rightarrow> z_transport_unicast \<Rightarrow> z_peer list \<Rightarrow> bool \<Rightarrow> 's \<Rightarrow> 'l \<Rightarrow> 'h \<Rightarrow>
    (z_res \<times> z_transport_unicast \<times> z_peer list \<times> 's \<times> 'l \<times> 'h) option" where
  "zp_unicast_read E H swap read ztu peers single_read s l h =
     (case peers of
        [] \<Rightarrow> Some (Z_ERR_TRANSPORT_RX_FAILED, ztu, [], s, l, h)
      | curr_peer # rest \<Rightarrow> do {
          (ret, ztu, curr_peer, s, l, h) \<leftarrow> read_from_peer E H swap read ztu curr_peer single_read s l h;
          Some (ret, ztu, curr_peer # rest, s, l, h) })"

text \<open>One turn of the read task of a client: whether the session failed.\<close>

definition zp_unicast_read_task_client ::
  "('m, 's) z_rx_env \<Rightarrow> 'h heap \<Rightarrow> bool \<Rightarrow> 'l reader \<Rightarrow> z_transport_unicast \<Rightarrow> z_peer \<Rightarrow> 's \<Rightarrow> 'l \<Rightarrow> 'h \<Rightarrow>
    (bool \<times> z_transport_unicast \<times> z_peer \<times> 's \<times> 'l \<times> 'h) option" where
  "zp_unicast_read_task_client E H swap read ztu curr_peer s l h = do {
     (more, to_read, ztu, l) \<leftarrow> z_unicast_client_read read ztu 0 l;
     if more then do {
       (ret, ztu, curr_peer, s, h) \<leftarrow> z_unicast_process_messages E H swap ztu curr_peer to_read s h;
       Some (ret \<noteq> Z_OK, ztu, curr_peer, s, l, h) }
     else Some (False, ztu, curr_peer, s, l, h) }"

section \<open>A peer of many\<close>

text \<open>A buffer for a message of which a part has come; whether there was memory for it.\<close>

definition pending_data :: "'h heap \<Rightarrow> z_transport_unicast \<Rightarrow> z_peer \<Rightarrow> u16 \<Rightarrow> 'h \<Rightarrow> (bool \<times> z_peer \<times> 'h) option" where
  "pending_data H ztu peer sz h = do {
     let (b, h) = z_zbuf_make H (unat sz) h;
     let peer = peer\<lparr>pr_flow_state := FLOW_PENDING_DATA, pr_flow_curr_size := sz, pr_flow_buff := b\<rparr>;
     if z_zbuf_capacity b \<noteq> unat sz then Some (False, peer, h)
     else do {
       b \<leftarrow> z_zbuf_copy_bytes b (zu_zbuf ztu);
       Some (True, peer\<lparr>pr_flow_buff := b\<rparr>, h) } }"

definition pending_size :: "z_transport_unicast \<Rightarrow> z_peer \<Rightarrow> (z_transport_unicast \<times> z_peer) option" where
  "pending_size ztu peer = do {
     (b, zbf) \<leftarrow> z_zbuf_read (zu_zbuf ztu);
     Some (ztu\<lparr>zu_zbuf := zbf\<rparr>, peer\<lparr>pr_flow_state := FLOW_PENDING_SIZE, pr_flow_curr_size := ucast b\<rparr>) }"

text \<open>Results: the code, whether there is another message, how long it is.\<close>

definition z_unicast_handle_remaining_data ::
  "'h heap \<Rightarrow> z_transport_unicast \<Rightarrow> z_peer \<Rightarrow> nat \<Rightarrow> nat \<Rightarrow> 'h \<Rightarrow> (z_res \<times> bool \<times> nat \<times> z_transport_unicast \<times> z_peer \<times> 'h) option" where
  "z_unicast_handle_remaining_data H ztu peer extra_size to_read h =
     (if extra_size < 2 then do { (ztu, peer) \<leftarrow> pending_size ztu peer; Some (Z_OK, False, to_read, ztu, peer, h) }
      else do {
        (to_read, zbf) \<leftarrow> z_read_stream_size (zu_zbuf ztu);
        let ztu = ztu\<lparr>zu_zbuf := zbf\<rparr>;
        if z_zbuf_len zbf < to_read then do {
          (ok, peer, h) \<leftarrow> pending_data H ztu peer (of_nat to_read) h;
          Some (if ok then Z_OK else Z_ERR_SYSTEM_OUT_OF_MEMORY, False, to_read, ztu, peer, h) }
        else Some (Z_OK, True, to_read, ztu, peer, h) })"

datatype z_peer_read_status = READ_OK | READ_PENDING_DATA | READ_SOCKET_CLOSED | READ_CRITICAL_ERROR

type_synonym ('l, 'h) peer_read = "(z_peer_read_status \<times> nat \<times> z_transport_unicast \<times> z_peer \<times> 'l \<times> 'h) option"

text \<open>The three states of a stream that has no whole message.\<close>

definition peer_read_inactive ::
  "'h heap \<Rightarrow> 'l reader \<Rightarrow> z_transport_unicast \<Rightarrow> z_peer \<Rightarrow> nat \<Rightarrow> 'l \<Rightarrow> 'h \<Rightarrow> ('l, 'h) peer_read" where
  "peer_read_inactive H read ztu peer to_read l h = do {
     (n, zbf, l) \<leftarrow> z_link_recv_zbuf read (zu_zbuf ztu) l;
     let ztu = ztu\<lparr>zu_zbuf := zbf\<rparr>;
     if n = Some 0 then Some (READ_SOCKET_CLOSED, to_read, ztu, peer, l, h)
     else if n = None then Some (READ_PENDING_DATA, to_read, ztu, peer, l, h)
     else if z_zbuf_len zbf < 2 then do { (ztu, peer) \<leftarrow> pending_size ztu peer; Some (READ_PENDING_DATA, to_read, ztu, peer, l, h) }
     else do {
       (to_read, zbf) \<leftarrow> z_read_stream_size zbf;
       let ztu = ztu\<lparr>zu_zbuf := zbf\<rparr>;
       if z_zbuf_len zbf < to_read then do {
         (ok, peer, h) \<leftarrow> pending_data H ztu peer (of_nat to_read) h;
         Some (if ok then READ_PENDING_DATA else READ_CRITICAL_ERROR, to_read, ztu, peer, l, h) }
       else Some (READ_OK, to_read, ztu, peer, l, h) } }"

definition peer_read_size ::
  "'h heap \<Rightarrow> 'l reader \<Rightarrow> z_transport_unicast \<Rightarrow> z_peer \<Rightarrow> nat \<Rightarrow> 'l \<Rightarrow> 'h \<Rightarrow> ('l, 'h) peer_read" where
  "peer_read_size H read ztu peer to_read l h = do {
     (n, zbf, l) \<leftarrow> z_link_recv_zbuf read (zu_zbuf ztu) l;
     let ztu = ztu\<lparr>zu_zbuf := zbf\<rparr>;
     if n = Some 0 then Some (READ_SOCKET_CLOSED, to_read, ztu, peer, l, h)
     else if n = None then Some (READ_PENDING_DATA, to_read, ztu, peer, l, h)
     else do {
       (b, zbf) \<leftarrow> z_zbuf_read zbf;
       let ztu = ztu\<lparr>zu_zbuf := zbf\<rparr>;
       let peer = peer\<lparr>pr_flow_curr_size := pr_flow_curr_size peer + push_bit 8 (ucast b)\<rparr>;
       let to_read = unat (pr_flow_curr_size peer);
       if z_zbuf_len zbf < to_read then do {
         (ok, peer, h) \<leftarrow> pending_data H ztu peer (pr_flow_curr_size peer) h;
         Some (if ok then READ_PENDING_DATA else READ_CRITICAL_ERROR, to_read, ztu, peer, l, h) }
       else Some (READ_OK, to_read, ztu, peer, l, h) } }"

definition peer_read_data ::
  "'l reader \<Rightarrow> z_transport_unicast \<Rightarrow> z_peer \<Rightarrow> nat \<Rightarrow> 'l \<Rightarrow> 'h \<Rightarrow> ('l, 'h) peer_read" where
  "peer_read_data read ztu peer to_read l h = do {
     (n, b, l) \<leftarrow> z_link_recv_zbuf read (pr_flow_buff peer) l;
     let peer = peer\<lparr>pr_flow_buff := b\<rparr>;
     if n = Some 0 then Some (READ_SOCKET_CLOSED, to_read, ztu, peer, l, h)
     else if n = None then Some (READ_PENDING_DATA, to_read, ztu, peer, l, h)
     else do {
       let to_read = unat (pr_flow_curr_size peer);
       if z_zbuf_len b < to_read then Some (READ_PENDING_DATA, to_read, ztu, peer, l, h)
       else Some (READ_OK, to_read, ztu, peer\<lparr>pr_flow_state := FLOW_READY\<rparr>, l, h) } }"

definition z_unicast_peer_read ::
  "'h heap \<Rightarrow> 'l reader \<Rightarrow> z_transport_unicast \<Rightarrow> z_peer \<Rightarrow> nat \<Rightarrow> 'l \<Rightarrow> 'h \<Rightarrow> ('l, 'h) peer_read" where
  "z_unicast_peer_read H read ztu peer to_read l h =
     (case zu_flow ztu of
        FLOW_STREAM \<Rightarrow>
          (case pr_flow_state peer of
             FLOW_READY \<Rightarrow> peer_read_inactive H read ztu
               (peer\<lparr>pr_flow_state := FLOW_INACTIVE, pr_flow_curr_size := 0, pr_flow_buff := z_zbuf_clear (pr_flow_buff peer)\<rparr>)
               to_read l h
           | FLOW_INACTIVE \<Rightarrow> peer_read_inactive H read ztu peer to_read l h
           | FLOW_PENDING_SIZE \<Rightarrow> peer_read_size H read ztu peer to_read l h
           | FLOW_PENDING_DATA \<Rightarrow> peer_read_data read ztu peer to_read l h)
      | FLOW_DATAGRAM \<Rightarrow> do {
          (n, zbf, l) \<leftarrow> z_link_recv_zbuf read (zu_zbuf ztu) l;
          let ztu = ztu\<lparr>zu_zbuf := zbf\<rparr>;
          Some (case n of None \<Rightarrow> (READ_PENDING_DATA, to_read, ztu, peer, l, h) | Some n \<Rightarrow> (READ_OK, n, ztu, peer, l, h)) }
      | FLOW_OTHER \<Rightarrow> Some (READ_OK, to_read, ztu, peer, l, h))"

section \<open>All peers\<close>

text \<open>The messages that came with one read: the code, and whether the peer is to be dropped.\<close>

partial_function (option) peer_messages ::
  "('m, 's) z_rx_env \<Rightarrow> 'h heap \<Rightarrow> bool \<Rightarrow> z_transport_unicast \<Rightarrow> z_peer \<Rightarrow> nat \<Rightarrow> 's \<Rightarrow> 'h \<Rightarrow>
    (z_res \<times> bool \<times> nat \<times> z_transport_unicast \<times> z_peer \<times> 's \<times> 'h) option" where
  "peer_messages E H swap ztu peer to_read s h = do {
     (ret, ztu, peer, s, h) \<leftarrow> z_unicast_process_messages E H swap ztu peer to_read s h;
     if ret \<noteq> Z_OK then Some (Z_OK, True, to_read, ztu, peer, s, h)
     else if pr_flow_state peer \<noteq> FLOW_READY \<and> 0 < z_zbuf_len (zu_zbuf ztu) then do {
       (ret, more, to_read, ztu, peer, h) \<leftarrow> z_unicast_handle_remaining_data H ztu peer (z_zbuf_len (zu_zbuf ztu)) to_read h;
       if ret \<noteq> Z_OK then Some (ret, False, to_read, ztu, peer, s, h)
       else if more then peer_messages E H swap ztu peer to_read s h
       else Some (Z_OK, False, to_read, ztu, peer, s, h) }
     else Some (Z_OK, False, to_read, ztu, peer, s, h) }"

definition peer_event ::
  "('m, 's) z_rx_env \<Rightarrow> 'h heap \<Rightarrow> bool \<Rightarrow> 'l reader \<Rightarrow> z_transport_unicast \<Rightarrow> z_peer \<Rightarrow> nat \<Rightarrow> 's \<Rightarrow> 'l \<Rightarrow> 'h \<Rightarrow>
    (z_res \<times> bool \<times> nat \<times> z_transport_unicast \<times> z_peer \<times> 's \<times> 'l \<times> 'h) option" where
  "peer_event E H swap read ztu peer to_read s l h =
     (if pr_pending peer then do {
        (status, to_read, ztu, peer, l, h) \<leftarrow> z_unicast_peer_read H read ztu (peer\<lparr>pr_pending := False\<rparr>) to_read l h;
        (case status of
           READ_OK \<Rightarrow> do {
             (ret, drop_peer, to_read, ztu, peer, s, h) \<leftarrow> peer_messages E H swap ztu peer to_read s h;
             Some (ret, drop_peer, to_read, ztu, peer, s, l, h) }
         | READ_SOCKET_CLOSED \<Rightarrow> Some (Z_OK, True, to_read, ztu, peer, s, l, h)
         | READ_CRITICAL_ERROR \<Rightarrow> Some (Z_ERR_SYSTEM_OUT_OF_MEMORY, False, to_read, ztu, peer, s, l, h)
         | READ_PENDING_DATA \<Rightarrow> Some (Z_OK, False, to_read, ztu, peer, s, l, h)) }
      else Some (Z_OK, False, to_read, ztu, peer, s, l, h))"

text \<open>The peers one after the other; those that are dropped are gone from the result.\<close>

fun peer_events ::
  "('m, 's) z_rx_env \<Rightarrow> 'h heap \<Rightarrow> bool \<Rightarrow> (nat \<Rightarrow> 'l reader) \<Rightarrow> z_transport_unicast \<Rightarrow> z_peer list \<Rightarrow> nat \<Rightarrow> 's \<Rightarrow> 'l \<Rightarrow> 'h \<Rightarrow>
    (z_res \<times> z_transport_unicast \<times> z_peer list \<times> 's \<times> 'l \<times> 'h) option" where
  "peer_events E H swap sock ztu [] to_read s l h = Some (Z_OK, ztu, [], s, l, h)"
| "peer_events E H swap sock ztu (peer # peers) to_read s l h = do {
     (ret, drop_peer, to_read, ztu, peer, s, l, h) \<leftarrow> peer_event E H swap (sock (pr_socket peer)) ztu peer to_read s l h;
     if ret \<noteq> Z_OK then Some (ret, ztu, peer # peers, s, l, h)
     else do {
       let s = (if drop_peer then rx_disconnected E peer s else s);
       let ztu = ztu\<lparr>zu_zbuf := z_zbuf_reset (zu_zbuf ztu)\<rparr>;
       (ret, ztu, rest, s, l, h) \<leftarrow> peer_events E H swap sock ztu peers to_read s l h;
       Some (ret, ztu, if drop_peer then rest else peer # rest, s, l, h) } }"

text \<open>On an error the function returns without giving the mutex back.\<close>

definition zp_unicast_process_peer_event ::
  "('m, 's) z_rx_env \<Rightarrow> 'h heap \<Rightarrow> bool \<Rightarrow> (nat \<Rightarrow> 'l reader) \<Rightarrow> z_transport_unicast \<Rightarrow> z_peer list \<Rightarrow> 's \<Rightarrow> 'l \<Rightarrow> 'h \<Rightarrow>
    (z_res \<times> z_transport_unicast \<times> z_peer list \<times> 's \<times> 'l \<times> 'h) option" where
  "zp_unicast_process_peer_event E H swap sock ztu peers s l h = do {
     (ret, ztu, peers, s, l, h) \<leftarrow> peer_events E H swap sock (z_transport_peer_mutex_lock ztu) peers 0 s l h;
     Some (ret, if ret = Z_OK then z_transport_peer_mutex_unlock ztu else ztu, peers, s, l, h) }"

end
