(* ===== verification/ZTx.thy ===== *)
theory ZTx
  imports ZLink
begin

text \<open>
  The sender, \<open>transport/common/tx.c\<close>: batches, frames and fragments. The network layer is an argument, how a
  network message is encoded (\<open>ZNet\<close> has the code's encoder) and whether it is express; the link is a parameter.
\<close>

section \<open>The sender\<close>

record z_transport_common =
  tc_sn_res :: u32
  tc_sn_tx_reliable :: u32
  tc_sn_tx_best_effort :: u32
  tc_wbuf :: z_wbuf
  tc_stream :: bool
  tc_batch_active :: bool
  tc_batch_count :: nat
  tc_transmitted :: bool

text \<open>
  What the sender uses: \<open>_z_network_message_encode\<close>, whether a message is express, and
  \<open>_z_link_send_wbuf\<close> to the link itself or to the socket of a peer.
\<close>

record ('m, 'p, 'l, 'h) z_tx_env =
  tx_heap :: "'h heap"
  tx_encode :: "z_wbuf \<Rightarrow> 'm \<Rightarrow> 'h \<Rightarrow> 'h encoded"
  tx_express :: "'m \<Rightarrow> bool"
  tx_send :: "z_wbuf \<Rightarrow> 'p option \<Rightarrow> 'l \<Rightarrow> z_res \<times> 'l"

type_synonym ('l, 'h) tx_result = "(z_res \<times> z_transport_common \<times> 'l \<times> 'h) option"

definition z_transport_tx_get_sn :: "z_transport_common \<Rightarrow> z_reliability \<Rightarrow> u32 \<times> z_transport_common" where
  "z_transport_tx_get_sn ztc reliability =
     (if reliability = RELIABLE
      then (tc_sn_tx_reliable ztc, ztc\<lparr>tc_sn_tx_reliable := z_sn_increment (tc_sn_res ztc) (tc_sn_tx_reliable ztc)\<rparr>)
      else (tc_sn_tx_best_effort ztc, ztc\<lparr>tc_sn_tx_best_effort := z_sn_increment (tc_sn_res ztc) (tc_sn_tx_best_effort ztc)\<rparr>))"

definition unsafe_z_prepare_wbuf :: "z_wbuf \<Rightarrow> bool \<Rightarrow> z_wbuf option" where
  "unsafe_z_prepare_wbuf buf stream = do {
     buf \<leftarrow> z_wbuf_reset buf;
     if stream then do {
       buf \<leftarrow> z_wbuf_put buf 0 0;
       buf \<leftarrow> z_wbuf_put buf 0 1;
       z_wbuf_set_wpos buf 2 }
     else Some buf }"

definition unsafe_z_finalize_wbuf :: "z_wbuf \<Rightarrow> bool \<Rightarrow> z_wbuf option" where
  "unsafe_z_finalize_wbuf buf stream =
     (if stream then do {
        n \<leftarrow> z_wbuf_len buf;
        let len = size_sub n 2;
        buf \<leftarrow> z_wbuf_put buf (ucast (of_nat len :: u32)) 0;
        z_wbuf_put buf (ucast (drop_bit 8 (of_nat len :: u32))) 1 }
      else Some buf)"

text \<open>
  One pass of the loop of \<open>__unsafe_z_serialize_zenoh_fragment\<close>: to be repeated as the final one, or done.
  The comparison with \<open>Z_RELIABILITY_RELIABLE\<close> goes to a parameter of the enumeration's type, where
  1, true, is \<open>Z_RELIABILITY_BEST_EFFORT\<close> and 0 is \<open>Z_RELIABILITY_RELIABLE\<close>.
\<close>

definition reliability_of_bool :: "bool \<Rightarrow> z_reliability" where
  "reliability_of_bool b = (if b then BEST_EFFORT else RELIABLE)"

definition fragment_pass ::
  "'h heap \<Rightarrow> bool \<Rightarrow> z_wbuf \<Rightarrow> z_wbuf \<Rightarrow> z_reliability \<Rightarrow> u32 \<Rightarrow> bool \<Rightarrow> 'h \<Rightarrow>
    ((z_wbuf \<times> 'h) + (z_res \<times> z_wbuf \<times> z_wbuf \<times> 'h)) option" where
  "fragment_pass H is_final dst src reliability sn first h = do {
     w_pos \<leftarrow> z_wbuf_get_wpos dst;
     let f_hdr = z_t_msg_make_fragment_header sn (reliability_of_bool (reliability = RELIABLE)) is_final first False;
     (ret, dst, h) \<leftarrow> z_transport_message_encode H dst f_hdr h;
     if ret \<noteq> Z_OK then Some (Inr (ret, dst, src, h))
     else do {
       space_left \<leftarrow> z_wbuf_space_left dst;
       bytes_left \<leftarrow> z_wbuf_len src;
       if \<not> is_final \<and> bytes_left \<le> space_left then do { dst \<leftarrow> z_wbuf_set_wpos dst w_pos; Some (Inl (dst, h)) }
       else do {
         (ret, dst, src) \<leftarrow> z_wbuf_siphon dst src (if bytes_left \<le> space_left then bytes_left else space_left);
         Some (Inr (ret, dst, src, h)) } } }"

definition unsafe_z_serialize_zenoh_fragment ::
  "'h heap \<Rightarrow> z_wbuf \<Rightarrow> z_wbuf \<Rightarrow> z_reliability \<Rightarrow> u32 \<Rightarrow> bool \<Rightarrow> 'h \<Rightarrow> (z_res \<times> z_wbuf \<times> z_wbuf \<times> 'h) option" where
  "unsafe_z_serialize_zenoh_fragment H dst src reliability sn first h = do {
     x \<leftarrow> fragment_pass H False dst src reliability sn first h;
     (case x of
        Inr r \<Rightarrow> Some r
      | Inl (dst, h) \<Rightarrow> do {
          y \<leftarrow> fragment_pass H True dst src reliability sn first h;
          (case y of Inr r \<Rightarrow> Some r | Inl _ \<Rightarrow> None) }) }"

text \<open>The link's result counts when there is no list of peers.\<close>

definition send_wbuf :: "('m, 'p, 'l, 'h) z_tx_env \<Rightarrow> z_wbuf \<Rightarrow> 'p list option \<Rightarrow> 'l \<Rightarrow> z_res \<times> 'l" where
  "send_wbuf E wbf peers l =
     (case peers of
        None \<Rightarrow> tx_send E wbf None l
      | Some ps \<Rightarrow> (Z_OK, fold (\<lambda>p l. snd (tx_send E wbf (Some p) l)) ps l))"

partial_function (option) send_fragments ::
  "('m, 'p, 'l, 'h) z_tx_env \<Rightarrow> z_transport_common \<Rightarrow> z_wbuf \<Rightarrow> z_reliability \<Rightarrow> u32 \<Rightarrow> bool \<Rightarrow> 'p list option \<Rightarrow>
    'l \<Rightarrow> 'h \<Rightarrow> ('l, 'h) tx_result" where
  "send_fragments E ztc frag_buff reliability sn is_first peers l h = do {
     n \<leftarrow> z_wbuf_len frag_buff;
     if 0 < n then do {
       let (sn, ztc) = (if \<not> is_first then z_transport_tx_get_sn ztc reliability else (sn, ztc));
       wbf \<leftarrow> unsafe_z_prepare_wbuf (tc_wbuf ztc) (tc_stream ztc);
       (ret, wbf, frag_buff, h) \<leftarrow> unsafe_z_serialize_zenoh_fragment (tx_heap E) wbf frag_buff reliability sn is_first h;
       if ret \<noteq> Z_OK then Some (ret, ztc\<lparr>tc_wbuf := wbf\<rparr>, l, h)
       else do {
         wbf \<leftarrow> unsafe_z_finalize_wbuf wbf (tc_stream ztc);
         let ztc = ztc\<lparr>tc_wbuf := wbf\<rparr>;
         let (ret, l) = send_wbuf E wbf peers l;
         if ret \<noteq> Z_OK then Some (ret, ztc, l, h)
         else send_fragments E (ztc\<lparr>tc_transmitted := True\<rparr>) frag_buff reliability sn False peers l h } }
     else Some (Z_OK, ztc, l, h) }"

definition z_transport_tx_send_fragment_inner ::
  "('m, 'p, 'l, 'h) z_tx_env \<Rightarrow> z_transport_common \<Rightarrow> z_wbuf \<Rightarrow> 'm \<Rightarrow> z_reliability \<Rightarrow> u32 \<Rightarrow> 'p list option \<Rightarrow>
    'l \<Rightarrow> 'h \<Rightarrow> ('l, 'h) tx_result" where
  "z_transport_tx_send_fragment_inner E ztc frag_buff n_msg reliability first_sn peers l h = do {
     (ret, frag_buff, h) \<leftarrow> tx_encode E frag_buff n_msg h;
     if ret \<noteq> Z_OK then Some (ret, ztc, l, h)
     else send_fragments E ztc frag_buff reliability first_sn True peers l h }"

text \<open>The buffer is cleared at the end; the model drops it.\<close>

definition z_transport_tx_send_fragment ::
  "('m, 'p, 'l, 'h) z_tx_env \<Rightarrow> z_transport_common \<Rightarrow> 'm \<Rightarrow> z_reliability \<Rightarrow> u32 \<Rightarrow> 'p list option \<Rightarrow>
    'l \<Rightarrow> 'h \<Rightarrow> ('l, 'h) tx_result" where
  "z_transport_tx_send_fragment E ztc n_msg reliability first_sn peers l h = do {
     (frag_buff, h) \<leftarrow> z_wbuf_make (tx_heap E) 128 True h;
     z_transport_tx_send_fragment_inner E ztc frag_buff n_msg reliability first_sn peers l h }"

definition z_transport_tx_batch_has_data :: "z_transport_common \<Rightarrow> bool" where
  "z_transport_tx_batch_has_data ztc \<longleftrightarrow> tc_batch_active ztc \<and> 0 < tc_batch_count ztc"

definition z_transport_tx_flush_buffer ::
  "('m, 'p, 'l, 'h) z_tx_env \<Rightarrow> z_transport_common \<Rightarrow> 'p list option \<Rightarrow> 'l \<Rightarrow> 'h \<Rightarrow> ('l, 'h) tx_result" where
  "z_transport_tx_flush_buffer E ztc peers l h = do {
     wbf \<leftarrow> unsafe_z_finalize_wbuf (tc_wbuf ztc) (tc_stream ztc);
     let ztc = ztc\<lparr>tc_wbuf := wbf\<rparr>;
     let (ret, l) = send_wbuf E wbf peers l;
     Some (if ret \<noteq> Z_OK then (ret, ztc, l, h) else (Z_OK, ztc\<lparr>tc_transmitted := True, tc_batch_count := 0\<rparr>, l, h)) }"

definition z_transport_tx_flush_or_incr_batch ::
  "('m, 'p, 'l, 'h) z_tx_env \<Rightarrow> z_transport_common \<Rightarrow> 'p list option \<Rightarrow> 'l \<Rightarrow> 'h \<Rightarrow> ('l, 'h) tx_result" where
  "z_transport_tx_flush_or_incr_batch E ztc peers l h =
     (if tc_batch_active ztc then Some (Z_OK, ztc\<lparr>tc_batch_count := size_add (tc_batch_count ztc) 1\<rparr>, l, h)
      else z_transport_tx_flush_buffer E ztc peers l h)"

text \<open>A fresh buffer with the head of a frame; the result carries the frame's number.\<close>

definition start_frame ::
  "('m, 'p, 'l, 'h) z_tx_env \<Rightarrow> z_transport_common \<Rightarrow> z_reliability \<Rightarrow> 'h \<Rightarrow> (z_res \<times> u32 \<times> z_transport_common \<times> 'h) option" where
  "start_frame E ztc reliability h = do {
     wbf \<leftarrow> unsafe_z_prepare_wbuf (tc_wbuf ztc) (tc_stream ztc);
     let (sn, ztc) = z_transport_tx_get_sn ztc reliability;
     (ret, wbf, h) \<leftarrow> z_transport_message_encode (tx_heap E) wbf (z_t_msg_make_frame_header sn reliability) h;
     Some (ret, sn, ztc\<lparr>tc_wbuf := wbf\<rparr>, h) }"

definition z_transport_tx_batch_overflow ::
  "('m, 'p, 'l, 'h) z_tx_env \<Rightarrow> z_transport_common \<Rightarrow> 'm \<Rightarrow> z_reliability \<Rightarrow> u32 \<Rightarrow> nat \<Rightarrow> 'p list option \<Rightarrow>
    'l \<Rightarrow> 'h \<Rightarrow> ('l, 'h) tx_result" where
  "z_transport_tx_batch_overflow E ztc n_msg reliability sn prev_wpos peers l h = do {
     wbf \<leftarrow> z_wbuf_set_wpos (tc_wbuf ztc) prev_wpos;
     (ret, ztc, l, h) \<leftarrow> z_transport_tx_flush_buffer E (ztc\<lparr>tc_wbuf := wbf\<rparr>) peers l h;
     if ret \<noteq> Z_OK then Some (ret, ztc, l, h)
     else do {
       (ret, sn, ztc, h) \<leftarrow> start_frame E ztc reliability h;
       if ret \<noteq> Z_OK then Some (ret, ztc, l, h)
       else do {
         (ret, wbf, h) \<leftarrow> tx_encode E (tc_wbuf ztc) n_msg h;
         let ztc = ztc\<lparr>tc_wbuf := wbf\<rparr>;
         if ret \<noteq> Z_OK then z_transport_tx_send_fragment E ztc n_msg reliability sn peers l h
         else if tx_express E n_msg then z_transport_tx_flush_buffer E ztc peers l h
         else Some (Z_OK, ztc\<lparr>tc_batch_count := size_add (tc_batch_count ztc) 1\<rparr>, l, h) } } }"

definition z_transport_tx_save_wpos :: "z_wbuf \<Rightarrow> nat option" where
  "z_transport_tx_save_wpos wbuf = z_wbuf_get_wpos wbuf"

definition z_transport_tx_send_n_msg_inner ::
  "('m, 'p, 'l, 'h) z_tx_env \<Rightarrow> z_transport_common \<Rightarrow> 'm \<Rightarrow> z_reliability \<Rightarrow> 'p list option \<Rightarrow> 'l \<Rightarrow> 'h \<Rightarrow> ('l, 'h) tx_result" where
  "z_transport_tx_send_n_msg_inner E ztc n_msg reliability peers l h = do {
     let batch_has_data = z_transport_tx_batch_has_data ztc;
     (ret, sn, ztc, h) \<leftarrow> (if \<not> batch_has_data then start_frame E ztc reliability h else Some (Z_OK, 0, ztc, h));
     if ret \<noteq> Z_OK then Some (ret, ztc, l, h)
     else do {
       prev_wpos \<leftarrow> z_transport_tx_save_wpos (tc_wbuf ztc);
       (ret, wbf, h) \<leftarrow> tx_encode E (tc_wbuf ztc) n_msg h;
       let ztc = ztc\<lparr>tc_wbuf := wbf\<rparr>;
       if ret = Z_OK then
         if tx_express E n_msg then z_transport_tx_flush_buffer E ztc peers l h
         else z_transport_tx_flush_or_incr_batch E ztc peers l h
       else if \<not> batch_has_data then z_transport_tx_send_fragment E ztc n_msg reliability sn peers l h
       else z_transport_tx_batch_overflow E ztc n_msg reliability sn prev_wpos peers l h } }"

definition z_transport_tx_send_t_msg_inner ::
  "('m, 'p, 'l, 'h) z_tx_env \<Rightarrow> z_transport_common \<Rightarrow> z_transport_message \<Rightarrow> 'p list option \<Rightarrow> 'l \<Rightarrow> 'h \<Rightarrow> ('l, 'h) tx_result" where
  "z_transport_tx_send_t_msg_inner E ztc t_msg peers l h = do {
     (ret, ztc, l, h) \<leftarrow> (if z_transport_tx_batch_has_data ztc then z_transport_tx_flush_buffer E ztc peers l h
                         else Some (Z_OK, ztc, l, h));
     if ret \<noteq> Z_OK then Some (ret, ztc, l, h)
     else do {
       wbf \<leftarrow> unsafe_z_prepare_wbuf (tc_wbuf ztc) (tc_stream ztc);
       (ret, wbf, h) \<leftarrow> z_transport_message_encode (tx_heap E) wbf t_msg h;
       let ztc = ztc\<lparr>tc_wbuf := wbf\<rparr>;
       if ret \<noteq> Z_OK then Some (ret, ztc, l, h)
       else z_transport_tx_flush_buffer E ztc peers l h } }"

definition z_transport_tx_send_t_msg ::
  "('m, 'p, 'l, 'h) z_tx_env \<Rightarrow> z_transport_common \<Rightarrow> z_transport_message \<Rightarrow> 'p list option \<Rightarrow> 'l \<Rightarrow> 'h \<Rightarrow> ('l, 'h) tx_result" where
  "z_transport_tx_send_t_msg E ztc t_msg peers l h = z_transport_tx_send_t_msg_inner E ztc t_msg peers l h"

text \<open>
  The mutex of the sender is free, or another task holds it: a sender that blocks waits for it, one that does not is
  turned away. \<open>busy\<close> is what the attempt returns.
\<close>

definition z_transport_tx_mutex_lock :: "z_res \<Rightarrow> bool \<Rightarrow> z_res" where
  "z_transport_tx_mutex_lock busy block = (if block then Z_OK else busy)"

definition z_transport_tx_send_n_msg ::
  "('m, 'p, 'l, 'h) z_tx_env \<Rightarrow> z_transport_common \<Rightarrow> z_res \<Rightarrow> 'm \<Rightarrow> z_reliability \<Rightarrow> z_congestion_control \<Rightarrow> 'p list option \<Rightarrow>
    'l \<Rightarrow> 'h \<Rightarrow> ('l, 'h) tx_result" where
  "z_transport_tx_send_n_msg E ztc busy n_msg reliability cong_ctrl peers l h =
     (let ret = z_transport_tx_mutex_lock busy (cong_ctrl = CC_BLOCK)
      in if ret \<noteq> Z_OK then Some (ret, ztc, l, h)
         else z_transport_tx_send_n_msg_inner E ztc n_msg reliability peers l h)"

definition z_transport_tx_send_n_batch ::
  "('m, 'p, 'l, 'h) z_tx_env \<Rightarrow> z_transport_common \<Rightarrow> z_res \<Rightarrow> z_congestion_control \<Rightarrow> 'p list option \<Rightarrow> 'l \<Rightarrow> 'h \<Rightarrow> ('l, 'h) tx_result" where
  "z_transport_tx_send_n_batch E ztc busy cong_ctrl peers l h =
     (if 0 < tc_batch_count ztc then
        let ret = z_transport_tx_mutex_lock busy (cong_ctrl = CC_BLOCK)
        in if ret \<noteq> Z_OK then Some (ret, ztc, l, h) else z_transport_tx_flush_buffer E ztc peers l h
      else Some (Z_OK, ztc, l, h))"

section \<open>Choosing the transport\<close>

datatype z_transport_type = UNICAST_TYPE | MULTICAST_TYPE | RAWETH_TYPE | TRANSPORT_NONE

text \<open>A session; of the known peers of a unicast transport. What raw Ethernet does is a parameter.\<close>

record 'p z_tx_session =
  zn_client :: bool
  zn_type :: z_transport_type
  zn_tc :: z_transport_common
  zn_peers :: "'p list"

definition z_send_t_msg ::
  "('m, 'p, 'l, 'h) z_tx_env \<Rightarrow> ('l \<Rightarrow> 'h \<Rightarrow> ('l, 'h) tx_result) \<Rightarrow> 'p z_tx_session \<Rightarrow> z_transport_message \<Rightarrow> 'l \<Rightarrow> 'h \<Rightarrow>
    ('l, 'h) tx_result" where
  "z_send_t_msg E raweth zn t_msg l h =
     (case zn_type zn of
        UNICAST_TYPE \<Rightarrow> z_transport_tx_send_t_msg E (zn_tc zn) t_msg None l h
      | MULTICAST_TYPE \<Rightarrow> z_transport_tx_send_t_msg E (zn_tc zn) t_msg None l h
      | RAWETH_TYPE \<Rightarrow> raweth l h
      | TRANSPORT_NONE \<Rightarrow> Some (Z_ERR_TRANSPORT_NOT_AVAILABLE, zn_tc zn, l, h))"

text \<open>A message to one peer needs a list of it; \<open>alloc\<close> says whether there is memory for that.\<close>

definition z_send_n_msg ::
  "('m, 'p, 'l, 'h) z_tx_env \<Rightarrow> ('l \<Rightarrow> 'h \<Rightarrow> ('l, 'h) tx_result) \<Rightarrow> 'p z_tx_session \<Rightarrow> z_res \<Rightarrow> bool \<Rightarrow> 'm \<Rightarrow> z_reliability \<Rightarrow>
    z_congestion_control \<Rightarrow> 'p option \<Rightarrow> 'l \<Rightarrow> 'h \<Rightarrow> ('l, 'h) tx_result" where
  "z_send_n_msg E raweth zn busy alloc z_msg reliability cong_ctrl peer l h =
     (case zn_type zn of
        UNICAST_TYPE \<Rightarrow>
          if zn_client zn then z_transport_tx_send_n_msg E (zn_tc zn) busy z_msg reliability cong_ctrl None l h
          else if zn_peers zn \<noteq> [] then
            case peer of
              None \<Rightarrow> z_transport_tx_send_n_msg E (zn_tc zn) busy z_msg reliability cong_ctrl (Some (zn_peers zn)) l h
            | Some p \<Rightarrow> if alloc then z_transport_tx_send_n_msg E (zn_tc zn) busy z_msg reliability cong_ctrl (Some [p]) l h
                        else Some (Z_OK, zn_tc zn, l, h)
          else Some (Z_OK, zn_tc zn, l, h)
      | MULTICAST_TYPE \<Rightarrow> z_transport_tx_send_n_msg E (zn_tc zn) busy z_msg reliability cong_ctrl None l h
      | RAWETH_TYPE \<Rightarrow> raweth l h
      | TRANSPORT_NONE \<Rightarrow> Some (Z_ERR_TRANSPORT_NOT_AVAILABLE, zn_tc zn, l, h))"

definition z_send_n_batch ::
  "('m, 'p, 'l, 'h) z_tx_env \<Rightarrow> 'p z_tx_session \<Rightarrow> z_res \<Rightarrow> z_congestion_control \<Rightarrow> 'l \<Rightarrow> 'h \<Rightarrow> ('l, 'h) tx_result" where
  "z_send_n_batch E zn busy cong_ctrl l h =
     (case zn_type zn of
        UNICAST_TYPE \<Rightarrow>
          if zn_client zn then z_transport_tx_send_n_batch E (zn_tc zn) busy cong_ctrl None l h
          else if zn_peers zn \<noteq> [] then z_transport_tx_send_n_batch E (zn_tc zn) busy cong_ctrl (Some (zn_peers zn)) l h
          else Some (Z_OK, zn_tc zn, l, h)
      | MULTICAST_TYPE \<Rightarrow> z_transport_tx_send_n_batch E (zn_tc zn) busy cong_ctrl None l h
      | RAWETH_TYPE \<Rightarrow> Some (Z_ERR_TRANSPORT_TX_FAILED, zn_tc zn, l, h)
      | TRANSPORT_NONE \<Rightarrow> Some (Z_ERR_TRANSPORT_NOT_AVAILABLE, zn_tc zn, l, h))"

section \<open>Messages before there is a transport\<close>

text \<open>
  The handshake is sent over the bare link. A kind of flow that is none of the two is an error that the results of the
  next steps overwrite. Result: the code and the link.
\<close>

definition z_link_send_t_msg ::
  "'h heap \<Rightarrow> 'l z_link \<Rightarrow> z_transport_message \<Rightarrow> 'l \<Rightarrow> 'h \<Rightarrow> (z_res \<times> 'l \<times> 'h) option" where
  "z_link_send_t_msg H zl t_msg l h = do {
     let mtu = (if unat (lk_mtu zl) < 2048 then unat (lk_mtu zl) else 2048);
     let streamed = (lk_flow zl = FLOW_STREAM);
     (wbf, h) \<leftarrow> z_wbuf_make H mtu False h;
     cap \<leftarrow> z_wbuf_capacity wbf;
     if cap \<noteq> mtu then Some (Z_ERR_SYSTEM_OUT_OF_MEMORY, l, h)
     else do {
       wbf \<leftarrow> (if streamed then do {
           wbf \<leftarrow> z_wbuf_put wbf 0 0;
           wbf \<leftarrow> z_wbuf_put wbf 0 1;
           z_wbuf_set_wpos wbf 2 }
         else Some wbf);
       (ret, wbf, h) \<leftarrow> z_transport_message_encode H wbf t_msg h;
       if ret \<noteq> Z_OK then Some (ret, l, h)
       else do {
         wbf \<leftarrow> (if streamed then do {
             n \<leftarrow> z_wbuf_len wbf;
             let len = size_sub n 2;
             wbf \<leftarrow> z_wbuf_put wbf (ucast (of_nat len :: u32)) 0;
             z_wbuf_put wbf (ucast (drop_bit 8 (of_nat len :: u32))) 1 }
           else Some wbf);
         (ret, l) \<leftarrow> z_link_send_wbuf streamed (lk_write zl) wbf l;
         Some (ret, l, h) } } }"

end
