(* ===== verification/ZHandshake.thy ===== *)
theory ZHandshake
  imports ZRead ZTx
begin

text \<open>
  The establishment of a unicast transport: \<open>transport/unicast/transport.c\<close>, and \<open>transport/manager.c\<close> and
  \<open>transport/unicast/accept.c\<close> for unicast links. The link is that of \<open>ZLink\<close>; the sources of random numbers, the
  sockets and the end points are parameters.
\<close>

abbreviation (input) WHATAMI_PEER :: u32 where "WHATAMI_PEER \<equiv> 2"
abbreviation (input) WHATAMI_CLIENT :: u32 where "WHATAMI_CLIENT \<equiv> 4"
abbreviation (input) Z_TRANSPORT_LEASE :: u32 where "Z_TRANSPORT_LEASE \<equiv> 10000"

section \<open>The transport\<close>

text \<open>Both halves with the lease and the peers; the halves share the resolution of the numbers and the kind of the link.\<close>

record z_transport =
  tp_tx :: z_transport_common
  tp_rx :: z_transport_unicast
  tp_lease :: u32
  tp_peers :: "z_peer list"

definition zero_transport :: z_transport where
  "zero_transport =
     \<lparr>tp_tx = \<lparr>tc_sn_res = 0, tc_sn_tx_reliable = 0, tc_sn_tx_best_effort = 0, tc_wbuf = z_wbuf_null, tc_stream = False,
               tc_batch_active = False, tc_batch_count = 0, tc_transmitted = False\<rparr>,
      tp_rx = \<lparr>zu_sn_res = 0, zu_zbuf = z_zbuf_null, zu_flow = FLOW_DATAGRAM, zu_peer_locks = 0\<rparr>,
      tp_lease = 0, tp_peers = []\<rparr>"

text \<open>\<open>m_tx\<close> and \<open>m_peer\<close> are the results of the creation of the two mutexes.\<close>

definition z_unicast_transport_create_inner ::
  "'h heap \<Rightarrow> z_res \<Rightarrow> z_res \<Rightarrow> z_transport \<Rightarrow> 'l z_link \<Rightarrow> z_establish_param \<Rightarrow> 'h \<Rightarrow> (z_res \<times> z_transport \<times> 'h) option" where
  "z_unicast_transport_create_inner H m_tx m_peer ztu zl param h =
     (let ztu = ztu\<lparr>tp_tx := (tp_tx ztu)\<lparr>tc_batch_active := False, tc_batch_count := 0\<rparr>\<rparr>
      in if m_tx \<noteq> Z_OK then Some (m_tx, ztu, h)
         else if m_peer \<noteq> Z_OK then Some (m_peer, ztu, h)
         else do {
           let wbuf_size = unat (if lk_mtu zl < ep_batch_size param then lk_mtu zl else ep_batch_size param);
           let zbuf_size = unat (ep_batch_size param);
           (wbf, h) \<leftarrow> z_wbuf_make H wbuf_size False h;
           let (zbf, h) = z_zbuf_make H zbuf_size h;
           let ztu = ztu\<lparr>tp_tx := (tp_tx ztu)\<lparr>tc_wbuf := wbf\<rparr>, tp_rx := (tp_rx ztu)\<lparr>zu_zbuf := zbf\<rparr>\<rparr>;
           cap \<leftarrow> z_wbuf_capacity wbf;
           if cap \<noteq> wbuf_size \<or> z_zbuf_capacity zbf \<noteq> zbuf_size then Some (Z_ERR_SYSTEM_OUT_OF_MEMORY, ztu, h)
           else do {
             let res = z_sn_max (ep_seq_num_res param);
             Some (Z_OK,
               \<lparr>tp_tx = (tp_tx ztu)\<lparr>tc_sn_res := res, tc_sn_tx_reliable := ep_initial_sn_tx param,
                  tc_sn_tx_best_effort := ep_initial_sn_tx param, tc_stream := (lk_flow zl = FLOW_STREAM), tc_transmitted := False\<rparr>,
                tp_rx = (tp_rx ztu)\<lparr>zu_sn_res := res, zu_flow := lk_flow zl\<rparr>,
                tp_lease = ep_lease param, tp_peers = []\<rparr>, h) } })"

definition z_unicast_transport_create ::
  "'h heap \<Rightarrow> z_res \<Rightarrow> z_res \<Rightarrow> 'l z_link \<Rightarrow> z_establish_param \<Rightarrow> 'h \<Rightarrow> (z_res \<times> z_transport \<times> 'h) option" where
  "z_unicast_transport_create H m_tx m_peer zl param h = do {
     (ret, ztu, h) \<leftarrow> z_unicast_transport_create_inner H m_tx m_peer zero_transport zl param h;
     if ret \<noteq> Z_OK then do {
       wbf \<leftarrow> z_wbuf_clear (tc_wbuf (tp_tx ztu));
       let zbf = z_zbuf_clear (zu_zbuf (tp_rx ztu));
       Some (ret, ztu\<lparr>tp_tx := (tp_tx ztu)\<lparr>tc_wbuf := wbf\<rparr>, tp_rx := (tp_rx ztu)\<lparr>zu_zbuf := zbf\<rparr>\<rparr>, h) }
     else Some (ret, ztu, h) }"

section \<open>The handshake\<close>

text \<open>
  \<open>z_random_fill\<close>, and what the two numbers of an open message are when the union holds another message.
\<close>

record 'l z_handshake_env =
  hs_random :: "'l \<Rightarrow> u32 \<times> 'l"
  hs_union :: "z_transport_message \<Rightarrow> u32 \<times> u32"

text \<open>Eight times a power of two, as an \<open>int\<close>, cut to a byte: undefined when the \<open>int\<close> overflows.\<close>

definition res_bits :: "u8 \<Rightarrow> u8 option" where
  "res_bits k = (if k < 28 then Some (ucast (push_bit (unat k) 8 :: u32)) else None)"

text \<open>A record of parameters before anything is known.\<close>

definition zero_param :: z_establish_param where
  "zero_param = \<lparr>ep_remote_zid = z_id_empty, ep_batch_size = 0, ep_initial_sn_rx = 0, ep_initial_sn_tx = 0, ep_lease = 0, ep_remote_whatami = 0,
     ep_key_id_res = 0, ep_req_id_res = 0, ep_seq_num_res = 0, ep_patch = 0\<rparr>"

definition init_body :: "z_transport_message \<Rightarrow> z_t_msg_init option" where
  "init_body m = (case tm_body m of T_init i \<Rightarrow> Some i | _ \<Rightarrow> None)"

definition open_fields :: "'l z_handshake_env \<Rightarrow> z_transport_message \<Rightarrow> u32 \<times> u32" where
  "open_fields E m = (case tm_body m of T_open d \<Rightarrow> (open_lease d, open_initial_sn d) | _ \<Rightarrow> hs_union E m)"

definition least_lease :: "u32 \<Rightarrow> u32" where
  "least_lease lease = (if lease < Z_TRANSPORT_LEASE then lease else Z_TRANSPORT_LEASE)"

text \<open>What an acknowledgement may do is to lower the announced values; the last complaint is the result.\<close>

definition accept_ack :: "z_t_msg_init \<Rightarrow> z_t_msg_init \<Rightarrow> z_establish_param \<Rightarrow> z_res \<times> z_establish_param" where
  "accept_ack syn ack param =
     (let (ret, param) = (if init_seq_num_res ack \<le> ep_seq_num_res param then (Z_OK, param\<lparr>ep_seq_num_res := init_seq_num_res ack\<rparr>)
                          else (Z_ERR_TRANSPORT_OPEN_SN_RESOLUTION, param));
          (ret, param) = (if init_req_id_res ack \<le> ep_req_id_res param then (ret, param\<lparr>ep_req_id_res := init_req_id_res ack\<rparr>)
                          else (Z_ERR_TRANSPORT_OPEN_SN_RESOLUTION, param));
          (ret, param) = (if init_batch_size ack \<le> ep_batch_size param then (ret, param\<lparr>ep_batch_size := init_batch_size ack\<rparr>)
                          else (Z_ERR_TRANSPORT_OPEN_SN_RESOLUTION, param))
      in if init_patch ack \<le> init_patch syn then (ret, param\<lparr>ep_patch := init_patch ack\<rparr>) else (Z_ERR_GENERIC, param))"

text \<open>\<open>!\<close> is the logical negation: the mask is never zero for a resolution that the decoder yields.\<close>

definition random_sn :: "'l z_handshake_env \<Rightarrow> z_establish_param \<Rightarrow> 'l \<Rightarrow> z_establish_param \<times> 'l" where
  "random_sn E param l =
     (let (r, l) = hs_random E l
      in (param\<lparr>ep_initial_sn_tx := r AND (if z_sn_modulo_mask (ep_seq_num_res param) = 0 then 1 else 0)\<rparr>, l))"

type_synonym ('l, 'h) handshake = "(z_res \<times> z_establish_param \<times> 'l \<times> 'h) option"

text \<open>The second half of the opening side. The complaint about a bad answer is forgotten.\<close>

definition handshake_open_syn ::
  "'h heap \<Rightarrow> bool \<Rightarrow> 'l z_handshake_env \<Rightarrow> 'l z_link \<Rightarrow> z_establish_param \<Rightarrow> z_t_msg_init \<Rightarrow> u32 \<Rightarrow> 'l \<Rightarrow> 'h \<Rightarrow> ('l, 'h) handshake" where
  "handshake_open_syn H swap E zl param ack mode l h = do {
     key_id \<leftarrow> res_bits (ep_key_id_res param);
     req_id \<leftarrow> res_bits (ep_req_id_res param);
     let param = param\<lparr>ep_key_id_res := key_id, ep_req_id_res := req_id\<rparr>;
     let (param, l) = (if mode = WHATAMI_CLIENT then random_sn E param l else (param, l));
     let param = param\<lparr>ep_remote_zid := init_zid ack\<rparr>;
     let (cookie, h) = copy_cookie H (init_cookie ack) h;
     (ret, l, h) \<leftarrow> z_link_send_t_msg H zl (z_t_msg_make_open_syn Z_TRANSPORT_LEASE (ep_initial_sn_tx param) cookie) l h;
     if ret \<noteq> Z_OK then Some (ret, param, l, h)
     else do {
       (x, l, h) \<leftarrow> z_link_recv_t_msg H swap zl l h;
       (case x of
          Inl e \<Rightarrow> Some (e, param, l, h)
        | Inr oam \<Rightarrow> Some (Z_OK, param\<lparr>ep_lease := least_lease (fst (open_fields E oam)), ep_initial_sn_rx := snd (open_fields E oam)\<rparr>, l, h)) } }"

definition z_unicast_handshake_open ::
  "'h heap \<Rightarrow> bool \<Rightarrow> 'l z_handshake_env \<Rightarrow> 'l z_link \<Rightarrow> z_establish_param \<Rightarrow> z_id \<Rightarrow> u32 \<Rightarrow> 'l \<Rightarrow> 'h \<Rightarrow> ('l, 'h) handshake" where
  "z_unicast_handshake_open H swap E zl param local_zid mode l h = do {
     let ism = z_t_msg_make_init_syn mode local_zid;
     syn \<leftarrow> init_body ism;
     let param = param\<lparr>ep_seq_num_res := init_seq_num_res syn, ep_req_id_res := init_req_id_res syn, ep_batch_size := init_batch_size syn\<rparr>;
     (ret, l, h) \<leftarrow> z_link_send_t_msg H zl ism l h;
     if ret \<noteq> Z_OK then Some (ret, param, l, h)
     else do {
       (x, l, h) \<leftarrow> z_link_recv_t_msg H swap zl l h;
       (case x of
          Inl e \<Rightarrow> Some (e, param, l, h)
        | Inr iam \<Rightarrow>
            if Z_MID (tm_header iam) \<noteq> MID_T_INIT \<or> \<not> HAS_FLAG (tm_header iam) FLAG_T_INIT_A then Some (Z_ERR_MESSAGE_UNEXPECTED, param, l, h)
            else do {
              ack \<leftarrow> init_body iam;
              let (ret, param) = accept_ack syn ack (param\<lparr>ep_remote_whatami := init_whatami ack\<rparr>);
              if ret \<noteq> Z_OK then Some (ret, param, l, h)
              else handshake_open_syn H swap E zl param ack mode l h }) } }"

text \<open>The listening side lowers what it would announce. The flags of its answer are those of the values before.\<close>

definition adjust_ack :: "z_t_msg_init \<Rightarrow> z_t_msg_init \<Rightarrow> z_t_msg_init" where
  "adjust_ack syn ack =
     (let ack = (if init_seq_num_res syn < init_seq_num_res ack then ack\<lparr>init_seq_num_res := init_seq_num_res syn\<rparr> else ack);
          ack = (if init_req_id_res syn < init_req_id_res ack then ack\<lparr>init_req_id_res := init_req_id_res syn\<rparr> else ack);
          ack = (if init_batch_size syn < init_batch_size ack then ack\<lparr>init_batch_size := init_batch_size syn\<rparr> else ack)
      in if init_patch syn < init_patch ack then ack\<lparr>init_patch := init_patch syn\<rparr> else ack)"

definition listen_ack :: "u32 \<Rightarrow> z_id \<Rightarrow> z_t_msg_init \<Rightarrow> z_transport_message option" where
  "listen_ack mode local_zid syn = do {
     let iam = z_t_msg_make_init_ack mode local_zid [];
     ack \<leftarrow> init_body iam;
     Some (iam\<lparr>tm_body := T_init (adjust_ack syn ack)\<rparr>) }"

definition listen_param :: "z_t_msg_init \<Rightarrow> z_t_msg_init \<Rightarrow> z_establish_param \<Rightarrow> z_establish_param option" where
  "listen_param syn ack param = do {
     key_id \<leftarrow> res_bits (ep_key_id_res param);
     req_id \<leftarrow> res_bits (init_req_id_res ack);
     Some (param\<lparr>ep_seq_num_res := init_seq_num_res ack, ep_req_id_res := req_id, ep_batch_size := init_batch_size ack,
       ep_remote_zid := init_zid syn, ep_remote_whatami := init_whatami syn, ep_key_id_res := key_id\<rparr>) }"

definition handshake_listen_open ::
  "'h heap \<Rightarrow> bool \<Rightarrow> 'l z_handshake_env \<Rightarrow> 'l z_link \<Rightarrow> z_establish_param \<Rightarrow> 'l \<Rightarrow> 'h \<Rightarrow> ('l, 'h) handshake" where
  "handshake_listen_open H swap E zl param l h = do {
     (x, l, h) \<leftarrow> z_link_recv_t_msg H swap zl l h;
     (case x of
        Inl e \<Rightarrow> Some (e, param, l, h)
      | Inr tmsg \<Rightarrow>
          if Z_MID (tm_header tmsg) \<noteq> MID_T_OPEN \<or> HAS_FLAG (tm_header tmsg) FLAG_T_INIT_A then Some (Z_ERR_MESSAGE_UNEXPECTED, param, l, h)
          else do {
            let param = param\<lparr>ep_lease := least_lease (fst (open_fields E tmsg)), ep_initial_sn_rx := snd (open_fields E tmsg)\<rparr>;
            (ret, l, h) \<leftarrow> z_link_send_t_msg H zl (z_t_msg_make_open_ack Z_TRANSPORT_LEASE (ep_initial_sn_tx param)) l h;
            Some (ret, param, l, h) }) }"

definition z_unicast_handshake_listen ::
  "'h heap \<Rightarrow> bool \<Rightarrow> 'l z_handshake_env \<Rightarrow> 'l z_link \<Rightarrow> z_establish_param \<Rightarrow> z_id \<Rightarrow> u32 \<Rightarrow> 'l \<Rightarrow> 'h \<Rightarrow> ('l, 'h) handshake" where
  "z_unicast_handshake_listen H swap E zl param local_zid mode l h =
     (if mode \<noteq> WHATAMI_PEER then None
      else do {
        (x, l, h) \<leftarrow> z_link_recv_t_msg H swap zl l h;
        (case x of
           Inl e \<Rightarrow> Some (e, param, l, h)
         | Inr tmsg \<Rightarrow>
             if Z_MID (tm_header tmsg) \<noteq> MID_T_INIT \<or> HAS_FLAG (tm_header tmsg) FLAG_T_INIT_A then Some (Z_ERR_MESSAGE_UNEXPECTED, param, l, h)
             else do {
               syn \<leftarrow> init_body tmsg;
               iam \<leftarrow> listen_ack mode local_zid syn;
               ack \<leftarrow> init_body iam;
               param \<leftarrow> listen_param syn ack param;
               (ret, l, h) \<leftarrow> z_link_send_t_msg H zl iam l h;
               if ret \<noteq> Z_OK then Some (ret, param, l, h)
               else handshake_listen_open H swap E zl param l h }) })"

definition z_unicast_open_client ::
  "'h heap \<Rightarrow> bool \<Rightarrow> 'l z_handshake_env \<Rightarrow> 'l z_link \<Rightarrow> z_establish_param \<Rightarrow> z_id \<Rightarrow> 'l \<Rightarrow> 'h \<Rightarrow> ('l, 'h) handshake" where
  "z_unicast_open_client H swap E zl param local_zid l h = z_unicast_handshake_open H swap E zl param local_zid WHATAMI_CLIENT l h"

definition z_unicast_open_peer ::
  "'h heap \<Rightarrow> bool \<Rightarrow> 'l z_handshake_env \<Rightarrow> 'l z_link \<Rightarrow> z_establish_param \<Rightarrow> z_id \<Rightarrow> bool \<Rightarrow> 'l \<Rightarrow> 'h \<Rightarrow> ('l, 'h) handshake" where
  "z_unicast_open_peer H swap E zl param local_zid op_open l h =
     (let (param, l) = random_sn E param l
      in if op_open then z_unicast_handshake_open H swap E zl param local_zid WHATAMI_PEER l h
         else Some (Z_OK, param\<lparr>ep_lease := Z_TRANSPORT_LEASE, ep_batch_size := 2048, ep_seq_num_res := 2\<rparr>, l, h))"

section \<open>Closing\<close>

definition z_unicast_send_close ::
  "('m, 'p, 'l, 'h) z_tx_env \<Rightarrow> z_transport_common \<Rightarrow> u8 \<Rightarrow> bool \<Rightarrow> 'l \<Rightarrow> 'h \<Rightarrow> ('l, 'h) tx_result" where
  "z_unicast_send_close E ztc reason link_only l h = z_transport_tx_send_t_msg E ztc (z_t_msg_make_close reason link_only) None l h"

definition z_unicast_transport_close ::
  "('m, 'p, 'l, 'h) z_tx_env \<Rightarrow> z_transport_common \<Rightarrow> u8 \<Rightarrow> 'l \<Rightarrow> 'h \<Rightarrow> ('l, 'h) tx_result" where
  "z_unicast_transport_close E ztc reason l h = z_unicast_send_close E ztc reason False l h"

text \<open>Both buffers and all peers go; the sockets that are closed on the way, in the order of the peers.\<close>

fun clear_peers :: "z_peer list \<Rightarrow> nat list option" where
  "clear_peers [] = Some []"
| "clear_peers (p # ps) = do {
     (_, closed) \<leftarrow> z_transport_peer_unicast_clear p;
     rest \<leftarrow> clear_peers ps;
     Some (closed @ rest) }"

definition z_unicast_transport_clear :: "z_transport \<Rightarrow> (z_transport \<times> nat list) option" where
  "z_unicast_transport_clear ztu = do {
     closed \<leftarrow> clear_peers (tp_peers ztu);
     wbf \<leftarrow> z_wbuf_clear (tc_wbuf (tp_tx ztu));
     let zbf = z_zbuf_clear (zu_zbuf (tp_rx ztu));
     Some (ztu\<lparr>tp_tx := (tp_tx ztu)\<lparr>tc_wbuf := wbf\<rparr>, tp_rx := (tp_rx ztu)\<lparr>zu_zbuf := zbf\<rparr>, tp_peers := []\<rparr>, closed) }"

end
