(* ===== verification/ZTxProps.thy ===== *)
theory ZTxProps
  imports ZTx
begin

text \<open>
  Properties of the sender. Its buffer is a single slice of fixed size; the fragments of a message carry it whole,
  in order, and in a number of passes that the room of the buffer bounds.
\<close>

section \<open>The buffer of the sender\<close>

definition tx_buf :: "nat \<Rightarrow> z_wbuf \<Rightarrow> bool" where
  "tx_buf cap wbf \<longleftrightarrow> wb_fixed wbf \<and> wb_shape wbf = (0, 0, [(0, cap, True)])"

definition tx_slice :: "z_wbuf \<Rightarrow> z_iosli" where
  "tx_slice wbf = wb_slices wbf ! 0"

lemma tx_buf_slice:
  assumes "tx_buf cap wbf"
  shows "wb_ok wbf" "wb_r_idx wbf = 0" "wb_w_idx wbf = 0" "wb_slices wbf = [tx_slice wbf]" "ios_ok (tx_slice wbf)"
    "ios_r_pos (tx_slice wbf) = 0" "ios_capacity (tx_slice wbf) = cap" "ios_is_alloc (tx_slice wbf)"
    "wb_data wbf = take (ios_w_pos (tx_slice wbf)) (ios_buf (tx_slice wbf))" "ios_w_pos (tx_slice wbf) \<le> cap"
    "length (wb_data wbf) = ios_w_pos (tx_slice wbf)" "wb_space wbf = cap - length (wb_data wbf)"
    "z_wbuf_get_iosli wbf 0 = Some (tx_slice wbf)" "z_wbuf_len_iosli wbf = 1" "wb_step wbf = 0"
proof -
  have f: "wb_ok wbf" "wb_step wbf = 0" "wb_r_idx wbf = 0" "wb_w_idx wbf = 0" "map ios_shape (wb_slices wbf) = [(0, cap, True)]"
    using assms by (simp_all add: tx_buf_def wb_fixed_def wb_shape_def)
  obtain ios where s: "wb_slices wbf = [ios]" "ios_r_pos ios = 0" "ios_capacity ios = cap" "ios_is_alloc ios"
    using f(5) by (auto simp: ios_shape_def map_eq_Cons_conv)
  then have t: "tx_slice wbf = ios" by (simp add: tx_slice_def)
  have ok: "ios_ok ios" using wb_slice_ok [OF f(1), of 0] s(1) by simp
  have d: "wb_data wbf = take (ios_w_pos ios) (ios_buf ios)" using s f(3) by (simp add: wb_data_def ios_data_def slice_def)
  have w: "ios_w_pos ios \<le> cap" "cap \<le> length (ios_buf ios)" using ok s(3) by (simp_all add: ios_ok_def)
  show "wb_ok wbf" "wb_r_idx wbf = 0" "wb_w_idx wbf = 0" "wb_slices wbf = [tx_slice wbf]" "ios_ok (tx_slice wbf)"
    "ios_r_pos (tx_slice wbf) = 0" "ios_capacity (tx_slice wbf) = cap" "ios_is_alloc (tx_slice wbf)"
    "wb_data wbf = take (ios_w_pos (tx_slice wbf)) (ios_buf (tx_slice wbf))" "ios_w_pos (tx_slice wbf) \<le> cap"
    "length (wb_data wbf) = ios_w_pos (tx_slice wbf)" "wb_space wbf = cap - length (wb_data wbf)" "wb_step wbf = 0"
    unfolding t using f s ok d w by (simp_all add: wb_space_def ios_space_def)
  show "z_wbuf_get_iosli wbf 0 = Some (tx_slice wbf)" using wb_get [OF f(1), of 0] by (simp add: tx_slice_def)
  show "z_wbuf_len_iosli wbf = 1" using f by (simp add: z_wbuf_len_iosli_def wb_ok_def)
qed

text \<open>Another write position or content of its block leaves it a buffer of the sender.\<close>

lemma tx_buf_set:
  assumes b: "tx_buf cap wbf" and i: "w \<le> cap" "length buf = length (ios_buf (tx_slice wbf))"
  defines "wbf' \<equiv> wb_set_iosli wbf 0 ((tx_slice wbf)\<lparr>ios_buf := buf, ios_w_pos := w\<rparr>)"
  shows "tx_buf cap wbf'" "wb_data wbf' = take w buf" "tx_slice wbf' = (tx_slice wbf)\<lparr>ios_buf := buf, ios_w_pos := w\<rparr>"
proof -
  note s = tx_buf_slice [OF b]
  let ?ios = "(tx_slice wbf)\<lparr>ios_buf := buf, ios_w_pos := w\<rparr>"
  have "ios_ok ?ios" "ios_shape ?ios = ios_shape (wb_slices wbf ! 0)"
    using s(5,6,7) i by (simp_all add: ios_ok_def ios_shape_def flip: tx_slice_def)
  then show "tx_buf cap wbf'" using b s(1,15) by (simp add: wbf'_def tx_buf_def wb_fixed_def wb_shape_set)
  show "tx_slice wbf' = ?ios" unfolding wbf'_def tx_slice_def [of "wb_set_iosli wbf 0 ?ios"] by (simp add: s(4))
  show "wb_data wbf' = take w buf" using s(2,6) by (simp add: wbf'_def wb_data_def s(4) ios_data_def slice_def)
qed

lemma tx_buf_same: "tx_buf cap wbf \<Longrightarrow> wb_fixed wbf' \<Longrightarrow> wb_shape wbf' = wb_shape wbf \<Longrightarrow> tx_buf cap wbf'"
  by (simp add: tx_buf_def)

lemma tx_reset:
  assumes b: "tx_buf cap wbf"
  shows "\<exists>wbf'. z_wbuf_reset wbf = Some wbf' \<and> tx_buf cap wbf' \<and> wb_data wbf' = []"
proof -
  note s = tx_buf_slice [OF b]
  have w: "wbf\<lparr>wb_r_idx := 0, wb_w_idx := 0\<rparr> = wbf" using s(2,3) by simp
  let ?wbf = "wb_set_iosli wbf 0 ((tx_slice wbf)\<lparr>ios_buf := ios_buf (tx_slice wbf), ios_w_pos := 0\<rparr>)"
  have r: "z_iosli_reset (tx_slice wbf) = (tx_slice wbf)\<lparr>ios_buf := ios_buf (tx_slice wbf), ios_w_pos := 0\<rparr>"
    using s(6) by (simp add: z_iosli_reset_def)
  have b': "tx_buf cap ?wbf" "wb_data ?wbf = []" using tx_buf_set [OF b, of 0 "ios_buf (tx_slice wbf)"] by simp_all
  have "z_wbuf_reset wbf = Some ?wbf"
    unfolding z_wbuf_reset_def w reset_loop.simps [of wbf] r
    using s(13,14,8) tx_buf_slice(14) [OF b'(1)] by (simp add: r reset_loop.simps [of "wb_set_iosli wbf 0 x" for x])
  then show ?thesis using b' by blast
qed

lemma tx_get_wpos: "tx_buf cap wbf \<Longrightarrow> cap \<le> SIZE_MAX \<Longrightarrow> z_wbuf_get_wpos wbf = Some (length (wb_data wbf))"
  using tx_buf_slice(3,10,11,13) [of cap wbf] by (simp add: z_wbuf_get_wpos_def)

lemma tx_set_wpos:
  assumes b: "tx_buf cap wbf" and w: "w \<le> cap"
  shows "\<exists>wbf'. z_wbuf_set_wpos wbf w = Some wbf' \<and> tx_buf cap wbf' \<and> wb_data wbf' = take w (ios_buf (tx_slice wbf)) \<and>
    ios_buf (tx_slice wbf') = ios_buf (tx_slice wbf)"
proof -
  note s = tx_buf_slice [OF b]
  have i: "wbf\<lparr>wb_w_idx := 0\<rparr> = wbf" using s(3) by simp
  have "z_wbuf_set_wpos wbf w = Some (wb_set_iosli wbf 0 ((tx_slice wbf)\<lparr>ios_buf := ios_buf (tx_slice wbf), ios_w_pos := w\<rparr>))"
    using s(13,14,6,7) w i by (simp add: z_wbuf_set_wpos_def set_wpos_loop.simps [of wbf])
  then show ?thesis using tx_buf_set [OF b w, of "ios_buf (tx_slice wbf)"] by auto
qed

lemma tx_put:
  assumes b: "tx_buf cap wbf" and p: "p < cap"
  shows "\<exists>wbf'. z_wbuf_put wbf x p = Some wbf' \<and> tx_buf cap wbf' \<and> wb_data wbf' = (wb_data wbf)[p := x] \<and>
    ios_buf (tx_slice wbf') = (ios_buf (tx_slice wbf))[p := x]"
proof -
  note s = tx_buf_slice [OF b]
  have l: "cap \<le> length (ios_buf (tx_slice wbf))" using s(5,7) by (simp add: ios_ok_def)
  let ?ios = "(tx_slice wbf)\<lparr>ios_buf := (ios_buf (tx_slice wbf))[p := x], ios_w_pos := ios_w_pos (tx_slice wbf)\<rparr>"
  have "z_wbuf_put wbf x p = Some (wb_set_iosli wbf 0 ?ios)"
    using s(13,14,7) p l by (simp add: z_wbuf_put_def find_pos.simps [of wbf] z_iosli_put_def)
  moreover have "wb_data (wb_set_iosli wbf 0 ?ios) = (wb_data wbf)[p := x]"
    using tx_buf_set(2) [OF b s(10), of "(ios_buf (tx_slice wbf))[p := x]"] unfolding s(9) by (simp add: take_update_swap)
  ultimately show ?thesis using tx_buf_set [OF b s(10), of "(ios_buf (tx_slice wbf))[p := x]"] by auto
qed

lemma tx_len: "tx_buf cap wbf \<Longrightarrow> cap \<le> SIZE_MAX \<Longrightarrow> z_wbuf_len wbf = Some (length (wb_data wbf))"
  using tx_buf_slice(1,10,11) [of cap wbf] by (intro wb_len) simp_all

lemma tx_space: "tx_buf cap wbf \<Longrightarrow> z_wbuf_space_left wbf = Some (cap - length (wb_data wbf))"
  using tx_buf_slice(3,5,7,11,13) [of cap wbf] by (simp add: z_wbuf_space_left_def ios_space_def)

text \<open>Going back to an earlier end of the data.\<close>

lemma tx_rewind:
  assumes b: "tx_buf cap wbf" and d: "wb_data wbf = a @ sent"
  shows "\<exists>wbf'. z_wbuf_set_wpos wbf (length a) = Some wbf' \<and> tx_buf cap wbf' \<and> wb_data wbf' = a"
proof -
  note s = tx_buf_slice [OF b]
  have l: "length a \<le> ios_w_pos (tx_slice wbf)" using s(11) d by simp
  then have "take (length a) (ios_buf (tx_slice wbf)) = take (length a) (wb_data wbf)" using s(9) by (simp add: min_def)
  then show ?thesis using tx_set_wpos [OF b, of "length a"] l s(10) d by auto
qed

text \<open>On a stream each message has its length in front.\<close>

definition stream_room :: "bool \<Rightarrow> nat" where
  "stream_room stream = (if stream then 2 else 0)"

definition on_link :: "bool \<Rightarrow> bytes \<Rightarrow> bytes" where
  "on_link stream bs = (if stream then stream_size (length bs) @ bs else bs)"

lemma tx_prepare:
  assumes b: "tx_buf cap wbf" and c: "stream_room stream \<le> cap"
  shows "\<exists>wbf'. unsafe_z_prepare_wbuf wbf stream = Some wbf' \<and> tx_buf cap wbf' \<and> wb_data wbf' = (if stream then [0, 0] else [])"
proof -
  obtain w1 where 1: "z_wbuf_reset wbf = Some w1" "tx_buf cap w1" "wb_data w1 = []" using tx_reset [OF b] by blast
  show ?thesis
  proof (cases stream)
    case True
    then have c2: "2 \<le> cap" using c by (simp add: stream_room_def)
    obtain w2 where 2: "z_wbuf_put w1 0 0 = Some w2" "tx_buf cap w2" "ios_buf (tx_slice w2) = (ios_buf (tx_slice w1))[0 := 0]"
      using tx_put [OF 1(2), of 0 0] c2 by auto
    obtain w3 where 3: "z_wbuf_put w2 0 1 = Some w3" "tx_buf cap w3" "ios_buf (tx_slice w3) = (ios_buf (tx_slice w2))[1 := 0]"
      using tx_put [OF 2(2), of 1 0] c2 by auto
    obtain w4 where 4: "z_wbuf_set_wpos w3 2 = Some w4" "tx_buf cap w4" "wb_data w4 = take 2 (ios_buf (tx_slice w3))"
      using tx_set_wpos [OF 3(2) c2] by blast
    have l: "2 \<le> length (ios_buf (tx_slice w1))"
      using tx_buf_slice(5,7) [OF 1(2)] c2 by (simp add: ios_ok_def)
    then have "take 2 ((ios_buf (tx_slice w1))[0 := 0, 1 := 0]) = [0, 0]"
      by (cases "ios_buf (tx_slice w1)"; cases "tl (ios_buf (tx_slice w1))") auto
    then show ?thesis using True 1 2 3 4 by (simp add: unsafe_z_prepare_wbuf_def)
  qed (use 1 in \<open>simp add: unsafe_z_prepare_wbuf_def\<close>)
qed

lemma tx_finalize:
  assumes b: "tx_buf cap wbf" "cap \<le> SIZE_MAX" and d: "wb_data wbf = (if stream then [0, 0] else []) @ bs"
  shows "\<exists>wbf'. unsafe_z_finalize_wbuf wbf stream = Some wbf' \<and> tx_buf cap wbf' \<and> wb_data wbf' = on_link stream bs"
proof (cases stream)
  case True
  let ?n = "of_nat (length bs) :: u32"
  have c: "0 < cap" "1 < cap" using tx_buf_slice(10,11) [OF b(1)] d True by simp_all
  obtain w1 where 1: "z_wbuf_put wbf (ucast ?n) 0 = Some w1" "tx_buf cap w1" "wb_data w1 = (wb_data wbf)[0 := ucast ?n]"
    using tx_put [OF b(1) c(1)] by blast
  obtain w2 where 2: "z_wbuf_put w1 (ucast (drop_bit 8 ?n)) 1 = Some w2" "tx_buf cap w2" "wb_data w2 = (wb_data w1)[1 := ucast (drop_bit 8 ?n)]"
    using tx_put [OF 1(2) c(2)] by blast
  have "z_wbuf_len wbf = Some (length bs + 2)" using tx_len [OF b] d True by simp
  then show ?thesis using True 1 2 d by (simp add: unsafe_z_finalize_wbuf_def on_link_def stream_size_def)
qed (use assms in \<open>simp add: unsafe_z_finalize_wbuf_def on_link_def\<close>)

section \<open>Fragments\<close>

definition frag_flags :: "z_reliability \<Rightarrow> bool \<Rightarrow> bool \<Rightarrow> u8" where
  "frag_flags reliability is_last first = tm_header (z_t_msg_make_fragment_header 0 reliability is_last first False)"

definition frag_head :: "u32 \<Rightarrow> z_reliability \<Rightarrow> bool \<Rightarrow> bool \<Rightarrow> bytes" where
  "frag_head sn reliability is_last first = [frag_flags reliability is_last first] @ sn_wire sn @ (if first then [0x02] else [])"

lemma frag_flags:
  "Z_MID (frag_flags r is_last first) = MID_T_FRAGMENT"
  "HAS_FLAG (frag_flags r is_last first) FLAG_T_FRAGMENT_M \<longleftrightarrow> \<not> is_last"
  "HAS_FLAG (frag_flags r is_last first) FLAG_T_FRAGMENT_R \<longleftrightarrow> r = RELIABLE"
  "HAS_FLAG (frag_flags r is_last first) FLAG_T_Z \<longleftrightarrow> first"
  by (auto simp: frag_flags_def z_t_msg_make_fragment_header_def z_t_msg_make_fragment_def Z_MID_def HAS_FLAG_def)

lemma frag_msg:
  "z_t_msg_make_fragment sn p r is_last first False =
     \<lparr>tm_body = T_fragment \<lparr>frag_payload = p, frag_sn = sn, frag_first = first, frag_drop = False\<rparr>, tm_header = frag_flags r is_last first\<rparr>"
  by (simp add: frag_flags_def z_t_msg_make_fragment_header_def z_t_msg_make_fragment_def)

lemma frag_head_length:
  "length (frag_head sn r is_last first) = length (frag_head sn r' is_last' first)" "length (frag_head sn r is_last first) \<le> 11"
  using vle_bound [of 8 "of_nat (unat sn)"] by (simp_all add: frag_head_def)

lemma frag_head_emits:
  "emits (\<lambda>wbf. z_transport_message_encode H wbf (z_t_msg_make_fragment_header sn r is_last first False)) (frag_head sn r is_last first)"
proof -
  let ?m = "z_t_msg_make_fragment_header sn r is_last first False"
  let ?f = "frag_flags r is_last first"
  have m: "?m = \<lparr>tm_body = T_fragment \<lparr>frag_payload = [], frag_sn = sn, frag_first = first, frag_drop = False\<rparr>, tm_header = ?f\<rparr>"
    unfolding z_t_msg_make_fragment_header_def by (rule frag_msg)
  let ?b = "\<lparr>frag_payload = [], frag_sn = sn, frag_first = first, frag_drop = False\<rparr>"
  have "emits (\<lambda>wbf h. Some (if (frag_first ?b \<or> frag_drop ?b) \<and> \<not> HAS_FLAG ?f FLAG_T_Z then Z_ERR_MESSAGE_SERIALIZATION_FAILED else Z_OK, wbf, h)) []"
    by (simp add: frag_flags emits_nothing)
  then have "emits (\<lambda>wbf. z_fragment_encode H wbf ?f ?b)
    (sn_wire (frag_sn ?b) @ (if frag_first ?b \<and> HAS_FLAG ?f FLAG_T_Z then [0x02 OR EXT_MORE (frag_drop ?b)] else []) @
     (if frag_drop ?b \<and> HAS_FLAG ?f FLAG_T_Z then [0x03] else []) @ (if frag_payload ?b \<noteq> [] then frag_payload ?b else []) @ [])"
    unfolding z_fragment_encode_def [abs_def] Let_def
    by (intro emits_seq zsize_emits emits_if uint8_emits emits_nothing emits_bytes)
  then have "emits (\<lambda>wbf. z_fragment_encode H wbf ?f ?b) (sn_wire sn @ (if first then [0x02] else []))"
    by (cases first) (simp_all add: frag_flags EXT_MORE_def)
  then have "emits (\<lambda>wbf h. if_ok (z_wbuf_write H wbf ?f h) (\<lambda>wbf h.
      z_fragment_encode H wbf ?f \<lparr>frag_payload = [], frag_sn = sn, frag_first = first, frag_drop = False\<rparr> h)) (frag_head sn r is_last first)"
    unfolding frag_head_def by (intro emits_seq emits_byte)
  then show ?thesis
    by (simp add: z_transport_message_encode_def [abs_def] m frag_flags Let_def)
qed

lemma frag_decode_any:
  assumes z: "zb_ok z" "zb_data z = frag_head sn r is_last first @ payload"
  shows "\<exists>zbf. z_transport_message_decode swap z =
     Some (Inr \<lparr>tm_body = T_fragment \<lparr>frag_payload = payload, frag_sn = sn, frag_first = first, frag_drop = False\<rparr>,
       tm_header = frag_flags r is_last first\<rparr>, zbf) \<and> zb_ok zbf \<and> zb_data zbf = []"
proof -
  let ?f = "frag_flags r is_last first" and ?b = "\<lparr>frag_payload = [], frag_sn = sn, frag_first = False, frag_drop = False\<rparr>"
  let ?e = "\<lparr>ext_header = 0x02, ext_body = Ext_unit\<rparr>"
  have e: "ext_valid ?e" "ext_wire ?e False = [0x02]" "z_fragment_decode_ext ?e ?b = Some (Z_OK, ?b\<lparr>frag_first := True\<rparr>)"
    by (simp_all add: EXT_ENC_def ext_wire_def EXT_FULL_ID_def EXT_MORE_def z_fragment_decode_ext_def)
  have x: "reads (\<lambda>zbf. let msg = ?b in if HAS_FLAG ?f FLAG_T_Z then z_msg_ext_decode_iter z_fragment_decode_ext msg zbf else Some (Inr msg, zbf))
      (if first then [0x02] else []) (?b\<lparr>frag_first := first\<rparr>)"
    using iter_reads_one [where callback = z_fragment_decode_ext, OF e(1,3)] by (cases first) (simp_all add: frag_flags e(2) reads_nothing)
  have h: "reads (fragment_head_decode ?f) (sn_wire sn @ (if first then [0x02] else [])) (?b\<lparr>frag_first := first\<rparr>)"
    unfolding fragment_head_decode_def [abs_def] by (rule reads_seq [OF zsn_reads]) (rule x)
  obtain z1 where 1: "z_uint8_decode z = Some (Inr ?f, z1)" "zb_ok z1" "zb_data z1 = (sn_wire sn @ (if first then [0x02] else [])) @ payload"
    using readsD(1) [OF uint8_reads [of ?f], of z] z by (auto simp: frag_head_def)
  obtain z2 where 2: "fragment_head_decode ?f z1 = Some (Inr (?b\<lparr>frag_first := first\<rparr>), z2)" "zb_ok z2" "zb_data z2 = payload"
    using readsD(1) [OF h 1(2,3)] by blast
  have "c_read (z_zbuf_get_rptr z2) 0 (z_zbuf_len z2) = Some payload" using rest_read [OF 2(2)] 2(2,3) by simp
  then have "z_fragment_decode ?f z1 = Some (Inr (?b\<lparr>frag_first := first, frag_payload := payload\<rparr>),
      z2\<lparr>zb_ios := (zb_ios z2)\<lparr>ios_r_pos := ios_w_pos (zb_ios z2)\<rparr>\<rparr>)"
    using 2(1) by (simp add: z_fragment_decode_def Let_def)
  then show ?thesis using 1(1) all_read(1) [OF 2(2)] all_read(2) by (simp add: z_transport_message_decode_def on_value_def body_decode_def frag_flags)
qed

lemma frag_decode:
  "\<exists>zbf. z_transport_message_decode swap (z_slice_as_zbuf (frag_head sn r is_last first @ payload)) =
     Some (Inr \<lparr>tm_body = T_fragment \<lparr>frag_payload = payload, frag_sn = sn, frag_first = first, frag_drop = False\<rparr>,
       tm_header = frag_flags r is_last first\<rparr>, zbf)"
  using frag_decode_any [of "z_slice_as_zbuf (frag_head sn r is_last first @ payload)" sn r is_last first payload swap] by auto

section \<open>One fragment\<close>

lemma siphon_tx:
  assumes b: "tx_buf cap dst" and src: "wb_ok src" "0 < n" "n \<le> length (wb_data src)" "length (wb_data dst) + n \<le> cap"
  shows "\<exists>dst' src'. z_wbuf_siphon dst src n = Some (Z_OK, dst', src') \<and> tx_buf cap dst' \<and> wb_ok src' \<and>
    wb_data dst' = wb_data dst @ take n (wb_data src) \<and> wb_data src' = drop n (wb_data src)"
proof -
  have "n \<le> wb_space dst" using tx_buf_slice(12) [OF b] src(4) by simp
  then show ?thesis
    using siphon_data [OF tx_buf_slice(1) [OF b] src(1-3)] b by (auto simp: tx_buf_def wb_fixed_def)
qed

text \<open>The channel that the comparison of a boolean with the enumeration chooses.\<close>

definition frag_channel :: "z_reliability \<Rightarrow> z_reliability" where
  "frag_channel reliability = reliability_of_bool (reliability = RELIABLE)"

lemma frag_channel: "frag_channel reliability = RELIABLE \<longleftrightarrow> reliability = BEST_EFFORT"
  by (cases reliability) (simp_all add: frag_channel_def reliability_of_bool_def)

lemma fragment_pass:
  assumes b: "tx_buf cap dst" "cap \<le> SIZE_MAX" and src: "wb_ok src" "wb_data src \<noteq> []" "length (wb_data src) \<le> SIZE_MAX"
    and room: "length (wb_data dst) + length (frag_head sn reliability False first) + room = cap" "0 < room"
  defines "fits \<equiv> length (wb_data src) \<le> room"
  shows "if \<not> is_final \<and> fits
    then \<exists>dst'. fragment_pass H is_final dst src reliability sn first h = Some (Inl (dst', h)) \<and> tx_buf cap dst' \<and> wb_data dst' = wb_data dst
    else \<exists>dst' src'. fragment_pass H is_final dst src reliability sn first h = Some (Inr (Z_OK, dst', src', h)) \<and> tx_buf cap dst' \<and>
      wb_ok src' \<and> wb_data dst' = wb_data dst @ frag_head sn (frag_channel reliability) is_final first @ take room (wb_data src) \<and>
      wb_data src' = drop room (wb_data src)"
proof -
  let ?h = "frag_head sn (frag_channel reliability) is_final first" and ?n = "length (wb_data src)"
  have hl: "length ?h = length (frag_head sn reliability False first)" by (rule frag_head_length(1))
  have f: "wb_fixed dst" "length ?h \<le> wb_space dst" using b(1) room hl tx_buf_slice(12) [OF b(1)] by (simp_all add: tx_buf_def)
  obtain d1 where 1: "z_transport_message_encode H dst (z_t_msg_make_fragment_header sn (frag_channel reliability) is_final first False) h =
      Some (Z_OK, d1, h)" "wb_fixed d1" "wb_shape d1 = wb_shape dst" "wb_data d1 = wb_data dst @ ?h"
    using emits_fits [OF frag_head_emits f, of H h] by blast
  have b1: "tx_buf cap d1" using tx_buf_same [OF b(1) 1(2,3)] .
  have sp: "z_wbuf_space_left d1 = Some room" using tx_space [OF b1] 1(4) room hl by simp
  have step: "fragment_pass H is_final dst src reliability sn first h =
      (if \<not> is_final \<and> fits then do { dst \<leftarrow> z_wbuf_set_wpos d1 (length (wb_data dst)); Some (Inl (dst, h)) }
       else do { (ret, dst, src) \<leftarrow> z_wbuf_siphon d1 src (if fits then ?n else room); Some (Inr (ret, dst, src, h)) })"
    unfolding fragment_pass_def tx_get_wpos [OF b] frag_channel_def [symmetric] Let_def
    using 1(1) sp wb_len [OF src(1,3)] by (simp add: fits_def)
  show ?thesis
  proof (cases "\<not> is_final \<and> fits")
    case True
    then show ?thesis unfolding step using tx_rewind [OF b1 1(4)] by auto
  next
    case False
    let ?m = "if fits then ?n else room"
    have m: "0 < ?m" "?m \<le> ?n" "length (wb_data d1) + ?m \<le> cap" "take ?m (wb_data src) = take room (wb_data src)"
      "drop ?m (wb_data src) = drop room (wb_data src)"
      using src(2) room hl 1(4) by (auto simp: fits_def)
    show ?thesis unfolding step using False siphon_tx [OF b1 src(1) m(1-3)] m(4,5) 1(4) by auto
  qed
qed

text \<open>The buffer takes as much of the message as fits behind the head, which announces the end if that is all.\<close>

lemma serialize_fragment:
  assumes b: "tx_buf cap dst" "cap \<le> SIZE_MAX" and src: "wb_ok src" "wb_data src \<noteq> []" "length (wb_data src) \<le> SIZE_MAX"
    and room: "length (wb_data dst) + length (frag_head sn reliability False first) + room = cap" "0 < room"
  shows "\<exists>dst' src'. unsafe_z_serialize_zenoh_fragment H dst src reliability sn first h = Some (Z_OK, dst', src', h) \<and> tx_buf cap dst' \<and>
      wb_ok src' \<and> wb_data dst' = wb_data dst @ frag_head sn (frag_channel reliability) (length (wb_data src) \<le> room) first @ take room (wb_data src) \<and>
      wb_data src' = drop room (wb_data src)"
proof (cases "length (wb_data src) \<le> room")
  case True
  obtain d1 where 1: "fragment_pass H False dst src reliability sn first h = Some (Inl (d1, h))" "tx_buf cap d1" "wb_data d1 = wb_data dst"
    using fragment_pass [OF b src room, of False H h] True by auto
  show ?thesis
    using fragment_pass [OF 1(2) b(2) src room(1) [folded 1(3)] room(2), of True H h] 1 True
    by (auto simp: unsafe_z_serialize_zenoh_fragment_def)
next
  case False
  then show ?thesis using fragment_pass [OF b src room, of False H h] by (auto simp: unsafe_z_serialize_zenoh_fragment_def)
qed

section \<open>All of a message\<close>

definition tx_sn :: "z_transport_common \<Rightarrow> z_reliability \<Rightarrow> u32" where
  "tx_sn ztc reliability = (if reliability = RELIABLE then tc_sn_tx_reliable ztc else tc_sn_tx_best_effort ztc)"

lemma get_sn:
  "\<exists>ztc'. z_transport_tx_get_sn ztc r = (tx_sn ztc r, ztc') \<and> tx_sn ztc' r = z_sn_increment (tc_sn_res ztc) (tx_sn ztc r) \<and>
    tc_sn_res ztc' = tc_sn_res ztc \<and> tc_wbuf ztc' = tc_wbuf ztc \<and> tc_stream ztc' = tc_stream ztc \<and>
    tc_batch_active ztc' = tc_batch_active ztc \<and> tc_batch_count ztc' = tc_batch_count ztc"
  by (simp add: z_transport_tx_get_sn_def tx_sn_def)

lemma tx_sn_update [simp]:
  "tx_sn (ztc\<lparr>tc_wbuf := w\<rparr>) r = tx_sn ztc r" "tx_sn (ztc\<lparr>tc_transmitted := t\<rparr>) r = tx_sn ztc r"
  "tx_sn (ztc\<lparr>tc_batch_count := n\<rparr>) r = tx_sn ztc r"
  by (simp_all add: tx_sn_def)

text \<open>A link that takes what it is given, or a single peer behind such a link.\<close>

definition recording :: "('m, 'p, bytes list, 'h) z_tx_env \<Rightarrow> 'p list option \<Rightarrow> bool" where
  "recording E peers \<longleftrightarrow> (\<forall>wbf l. send_wbuf E wbf peers l = (Z_OK, l @ [wb_data wbf]))"

lemma recording_send: "recording E peers \<Longrightarrow> send_wbuf E wbf peers l = (Z_OK, l @ [wb_data wbf])"
  by (simp add: recording_def)

fun frag_wires :: "bool \<Rightarrow> z_reliability \<Rightarrow> u32 \<Rightarrow> u32 \<Rightarrow> bool \<Rightarrow> bytes list \<Rightarrow> bytes list" where
  "frag_wires stream r res sn first [] = []"
| "frag_wires stream r res sn first (p # ps) =
     on_link stream (frag_head sn r (ps = []) first @ p) # frag_wires stream r res (z_sn_increment res sn) False ps"

lemma frag_wires_nth:
  "i < length ps \<Longrightarrow> frag_wires stream r res sn first ps ! i =
     on_link stream (frag_head ((z_sn_increment res ^^ i) sn) r (i + 1 = length ps) (first \<and> i = 0) @ ps ! i)"
proof (induction ps arbitrary: i sn first)
  case (Cons p ps)
  then show ?case by (cases i) (auto simp: funpow_swap1)
qed simp

lemma length_frag_wires [simp]: "length (frag_wires stream r res sn first ps) = length ps"
  by (induction ps arbitrary: sn first) simp_all

lemma on_link_length: "length (on_link stream bs) = stream_room stream + length bs"
  by (simp add: on_link_def stream_room_def stream_size_def)

lemma send_fragments_step:
  fixes reliability :: z_reliability and sn :: u32 and is_first :: bool
  assumes b: "tx_buf cap (tc_wbuf ztc)" "cap \<le> SIZE_MAX" "stream_room (tc_stream ztc) + 11 < cap"
    and fb: "wb_ok fb" "wb_data fb \<noteq> []" "length (wb_data fb) \<le> SIZE_MAX" and E: "recording E peers"
  defines "cur \<equiv> (if is_first then sn else tx_sn ztc reliability)"
  shows "\<exists>ztc' fb' room. send_fragments E ztc fb reliability sn is_first peers l h =
      send_fragments E ztc' fb' reliability cur False peers
        (l @ [on_link (tc_stream ztc) (frag_head cur (frag_channel reliability) (length (wb_data fb) \<le> room) is_first @ take room (wb_data fb))]) h \<and>
    0 < room \<and> wb_ok fb' \<and> wb_data fb' = drop room (wb_data fb) \<and> tx_buf cap (tc_wbuf ztc') \<and> tc_stream ztc' = tc_stream ztc \<and>
    length (on_link (tc_stream ztc) (frag_head cur (frag_channel reliability) (length (wb_data fb) \<le> room) is_first @ take room (wb_data fb))) \<le> cap \<and>
    tc_sn_res ztc' = tc_sn_res ztc \<and> tc_batch_active ztc' = tc_batch_active ztc \<and>
    tx_sn ztc' reliability = (if is_first then tx_sn ztc reliability else z_sn_increment (tc_sn_res ztc) cur)"
proof -
  obtain z1 where g: "(if \<not> is_first then z_transport_tx_get_sn ztc reliability else (sn, ztc)) = (cur, z1)"
    "tx_sn z1 reliability = (if is_first then tx_sn ztc reliability else z_sn_increment (tc_sn_res ztc) cur)"
    "tc_wbuf z1 = tc_wbuf ztc" "tc_stream z1 = tc_stream ztc" "tc_sn_res z1 = tc_sn_res ztc" "tc_batch_active z1 = tc_batch_active ztc"
    using get_sn [of ztc reliability] by (cases is_first) (simp_all add: cur_def, blast)
  let ?st = "tc_stream ztc" and ?hl = "length (frag_head cur reliability False is_first)"
  define room where "room = cap - stream_room ?st - ?hl"
  have hl: "?hl \<le> 11" by (rule frag_head_length(2))
  obtain w1 where w1: "unsafe_z_prepare_wbuf (tc_wbuf ztc) ?st = Some w1" "tx_buf cap w1" "wb_data w1 = (if ?st then [0, 0] else [])"
    using tx_prepare [OF b(1), of ?st] b(3) by auto
  have l1: "length (wb_data w1) = stream_room ?st" by (simp add: w1(3) stream_room_def)
  have room: "length (wb_data w1) + ?hl + room = cap" "0 < room" using b(3) hl unfolding l1 room_def by linarith+
  obtain w2 fb' where w2: "unsafe_z_serialize_zenoh_fragment (tx_heap E) w1 fb reliability cur is_first h = Some (Z_OK, w2, fb', h)"
    "tx_buf cap w2" "wb_ok fb'"
    "wb_data w2 = wb_data w1 @ frag_head cur (frag_channel reliability) (length (wb_data fb) \<le> room) is_first @ take room (wb_data fb)"
    "wb_data fb' = drop room (wb_data fb)"
    using serialize_fragment [OF w1(2) b(2) fb room, of "tx_heap E" h] by blast
  obtain w3 where w3: "unsafe_z_finalize_wbuf w2 ?st = Some w3" "tx_buf cap w3"
    "wb_data w3 = on_link ?st (frag_head cur (frag_channel reliability) (length (wb_data fb) \<le> room) is_first @ take room (wb_data fb))"
    using tx_finalize [OF w2(2) b(2) w2(4) [unfolded w1(3)]] by blast
  have n: "z_wbuf_len fb = Some (length (wb_data fb))" by (rule wb_len [OF fb(1,3)])
  let ?z = "(z1\<lparr>tc_wbuf := w3\<rparr>)\<lparr>tc_transmitted := True\<rparr>"
  have "send_fragments E ztc fb reliability sn is_first peers l h = send_fragments E ?z fb' reliability cur False peers (l @ [wb_data w3]) h"
    unfolding send_fragments.simps [of E ztc fb] n g(1) Let_def prod.case
    using fb(2) g(3,4) w1(1) w2(1) w3(1) recording_send [OF E] by simp
  then show ?thesis
    unfolding w3(3) using room(2) w2(3,5) w3(2) g tx_buf_slice(10,11) [OF w3(2), unfolded w3(3)] by (intro exI [of _ ?z] exI [of _ fb'] exI [of _ room]) simp
qed

lemma send_fragments_all:
  assumes "tx_buf cap (tc_wbuf ztc)" "cap \<le> SIZE_MAX" "stream_room (tc_stream ztc) + 11 < cap"
    and "wb_ok fb" "length (wb_data fb) \<le> SIZE_MAX" "recording E peers"
    and "is_first \<longrightarrow> tx_sn ztc reliability = z_sn_increment (tc_sn_res ztc) sn"
  shows "\<exists>ps ztc'. send_fragments E ztc fb reliability sn is_first peers l h =
      Some (Z_OK, ztc', l @ frag_wires (tc_stream ztc) (frag_channel reliability) (tc_sn_res ztc)
        (if is_first then sn else tx_sn ztc reliability) is_first ps, h) \<and>
    concat ps = wb_data fb \<and> [] \<notin> set ps \<and> tx_buf cap (tc_wbuf ztc') \<and> tc_stream ztc' = tc_stream ztc \<and>
    tc_sn_res ztc' = tc_sn_res ztc \<and> tc_batch_active ztc' = tc_batch_active ztc \<and>
    tx_sn ztc' reliability = (if ps = [] then tx_sn ztc reliability
      else (z_sn_increment (tc_sn_res ztc) ^^ length ps) (if is_first then sn else tx_sn ztc reliability)) \<and>
    (\<forall>w\<in>set (frag_wires (tc_stream ztc) (frag_channel reliability) (tc_sn_res ztc)
        (if is_first then sn else tx_sn ztc reliability) is_first ps). length w \<le> cap)"
  using assms
proof (induction "length (wb_data fb)" arbitrary: ztc fb sn is_first l rule: less_induct)
  case less
  show ?case
  proof (cases "wb_data fb = []")
    case True
    have "send_fragments E ztc fb reliability sn is_first peers l h = Some (Z_OK, ztc, l, h)"
      using wb_len [OF less.prems(4,5)] True by (simp add: send_fragments.simps [of E ztc fb])
    then show ?thesis using True less.prems(1) by (intro exI [of _ "[]"]) simp
  next
    case False
    let ?cur = "if is_first then sn else tx_sn ztc reliability" and ?r = "frag_channel reliability"
    obtain z1 fb1 room where 1: "send_fragments E ztc fb reliability sn is_first peers l h =
        send_fragments E z1 fb1 reliability ?cur False peers
          (l @ [on_link (tc_stream ztc) (frag_head ?cur ?r (length (wb_data fb) \<le> room) is_first @ take room (wb_data fb))]) h"
      "0 < room" "wb_ok fb1" "wb_data fb1 = drop room (wb_data fb)" "tx_buf cap (tc_wbuf z1)" "tc_stream z1 = tc_stream ztc"
      "tc_sn_res z1 = tc_sn_res ztc" "tc_batch_active z1 = tc_batch_active ztc"
      "tx_sn z1 reliability = (if is_first then tx_sn ztc reliability else z_sn_increment (tc_sn_res ztc) ?cur)"
      "length (on_link (tc_stream ztc) (frag_head ?cur ?r (length (wb_data fb) \<le> room) is_first @ take room (wb_data fb))) \<le> cap"
      using send_fragments_step [OF less.prems(1-4) False less.prems(5,6)] by blast
    have sn1: "tx_sn z1 reliability = z_sn_increment (tc_sn_res ztc) ?cur" using 1(9) less.prems(7) by simp
    let ?p = "take room (wb_data fb)"
    have lt: "length (wb_data fb1) < length (wb_data fb)" using 1(2,4) False by simp
    then have le: "length (wb_data fb1) \<le> SIZE_MAX" using less.prems(5) by simp
    obtain ps z2 where 2: "send_fragments E z1 fb1 reliability ?cur False peers
          (l @ [on_link (tc_stream ztc) (frag_head ?cur ?r (length (wb_data fb) \<le> room) is_first @ ?p)]) h =
        Some (Z_OK, z2, (l @ [on_link (tc_stream ztc) (frag_head ?cur ?r (length (wb_data fb) \<le> room) is_first @ ?p)]) @
          frag_wires (tc_stream ztc) ?r (tc_sn_res ztc) (tx_sn z1 reliability) False ps, h)"
      "concat ps = wb_data fb1" "[] \<notin> set ps" "tx_buf cap (tc_wbuf z2)" "tc_stream z2 = tc_stream ztc"
      "tc_sn_res z2 = tc_sn_res ztc" "tc_batch_active z2 = tc_batch_active ztc"
      "tx_sn z2 reliability = (if ps = [] then tx_sn z1 reliability else (z_sn_increment (tc_sn_res ztc) ^^ length ps) (tx_sn z1 reliability))"
      "\<forall>w\<in>set (frag_wires (tc_stream ztc) ?r (tc_sn_res ztc) (tx_sn z1 reliability) False ps). length w \<le> cap"
      using less.hyps [OF lt 1(5) less.prems(2) _ 1(3) le less.prems(6), of False ?cur
          "l @ [on_link (tc_stream ztc) (frag_head ?cur ?r (length (wb_data fb) \<le> room) is_first @ ?p)]"] less.prems(3) 1(6-8)
      by auto
    have e: "ps = [] \<longleftrightarrow> length (wb_data fb) \<le> room"
      using 2(2,3) 1(4) by (cases ps) auto
    have "?p \<noteq> []" "concat (?p # ps) = wb_data fb" using False 1(2,4) 2(2) by simp_all
    moreover have "tx_sn z2 reliability = (z_sn_increment (tc_sn_res ztc) ^^ length (?p # ps)) ?cur"
      using 2(8) sn1 by (simp add: funpow_swap1)
    ultimately show ?thesis
      unfolding 1(1) 2(1) using 2(3-7,9) 1(10) by (intro exI [of _ "?p # ps"] exI [of _ z2]) (simp add: e sn1)
  qed
qed

section \<open>Frames\<close>

definition frame_head :: "u32 \<Rightarrow> z_reliability \<Rightarrow> bytes" where
  "frame_head sn r = [tm_header (z_t_msg_make_frame_header sn r)] @ sn_wire sn"

lemma frame_flags:
  "Z_MID (tm_header (z_t_msg_make_frame_header sn r)) = MID_T_FRAME"
  "HAS_FLAG (tm_header (z_t_msg_make_frame_header sn r)) FLAG_T_FRAME_R \<longleftrightarrow> r = RELIABLE"
  "\<not> HAS_FLAG (tm_header (z_t_msg_make_frame_header sn r)) FLAG_T_Z"
  by (auto simp: z_t_msg_make_frame_header_def Z_MID_def HAS_FLAG_def)

lemma frame_head_emits: "emits (\<lambda>wbf. z_transport_message_encode H wbf (z_t_msg_make_frame_header sn r)) (frame_head sn r)"
proof -
  let ?m = "z_t_msg_make_frame_header sn r" and ?b = "\<lparr>frame_payload = None, frame_sn = sn\<rparr>"
  have "emits (\<lambda>wbf h. if_ok (z_zsize_encode H wbf (unat sn) h) (\<lambda>wbf h. Some (Z_OK, wbf, h))) (sn_wire sn @ [])"
    by (intro emits_seq zsize_emits emits_nothing)
  then have "emits (\<lambda>wbf. z_frame_encode H wbf (tm_header ?m) ?b) (sn_wire sn)"
    by (simp add: z_frame_encode_def [abs_def] frame_flags)
  then have "emits (\<lambda>wbf h. if_ok (z_wbuf_write H wbf (tm_header ?m) h) (\<lambda>wbf h. z_frame_encode H wbf (tm_header ?m) ?b h)) (frame_head sn r)"
    unfolding frame_head_def by (intro emits_seq emits_byte)
  moreover have "tm_body ?m = T_frame ?b" by (simp add: z_t_msg_make_frame_header_def)
  ultimately show ?thesis
    by (simp add: z_transport_message_encode_def [abs_def] frame_flags Let_def)
qed

lemma frame_decode_any:
  assumes z: "zb_ok z" "zb_data z = frame_head sn r @ bs"
  shows "\<exists>zbf. z_transport_message_decode swap z = Some (Inr (z_t_msg_make_frame sn zbf r), zbf) \<and> zb_ok zbf \<and> zb_data zbf = bs"
proof -
  let ?f = "tm_header (z_t_msg_make_frame_header sn r)"
  obtain z1 where 1: "z_uint8_decode z = Some (Inr ?f, z1)" "zb_ok z1" "zb_data z1 = sn_wire sn @ bs"
    using readsD(1) [OF uint8_reads [of ?f], of z] z by (auto simp: frame_head_def)
  obtain z2 where 2: "zsn_decode z1 = Some (Inr sn, z2)" "zb_ok z2" "zb_data z2 = bs"
    using readsD(1) [OF zsn_reads 1(2,3)] by blast
  have "z_frame_decode ?f z1 = Some (Inr \<lparr>frame_payload = Some z2, frame_sn = sn\<rparr>, z2)"
    using 2(1) by (simp add: z_frame_decode_def on_value_def frame_flags)
  moreover have "z_t_msg_make_frame sn z2 r = \<lparr>tm_body = T_frame \<lparr>frame_payload = Some z2, frame_sn = sn\<rparr>, tm_header = ?f\<rparr>"
    by (simp add: z_t_msg_make_frame_def z_t_msg_make_frame_header_def)
  ultimately have "z_transport_message_decode swap z = Some (Inr (z_t_msg_make_frame sn z2 r), z2)"
    using 1(1) by (simp add: z_transport_message_decode_def on_value_def body_decode_def frame_flags)
  then show ?thesis using 2(2,3) by blast
qed

lemma frame_decode:
  "\<exists>zbf payload. z_transport_message_decode swap (z_slice_as_zbuf (frame_head sn r @ bs)) =
     Some (Inr (z_t_msg_make_frame sn payload r), zbf) \<and> zb_ok payload \<and> zb_data payload = bs"
  using frame_decode_any [of "z_slice_as_zbuf (frame_head sn r @ bs)" sn r bs swap] by auto

lemma start_frame:
  assumes b: "tx_buf cap (tc_wbuf ztc)" "cap \<le> SIZE_MAX" "stream_room (tc_stream ztc) + 11 < cap"
  shows "\<exists>ztc'. start_frame E ztc r h = Some (Z_OK, tx_sn ztc r, ztc', h) \<and> tx_buf cap (tc_wbuf ztc') \<and>
    wb_data (tc_wbuf ztc') = (if tc_stream ztc then [0, 0] else []) @ frame_head (tx_sn ztc r) r \<and>
    tx_sn ztc' r = z_sn_increment (tc_sn_res ztc) (tx_sn ztc r) \<and> tc_sn_res ztc' = tc_sn_res ztc \<and> tc_stream ztc' = tc_stream ztc \<and>
    tc_batch_active ztc' = tc_batch_active ztc \<and> tc_batch_count ztc' = tc_batch_count ztc"
proof -
  let ?st = "tc_stream ztc" and ?sn = "tx_sn ztc r"
  obtain w1 where w1: "unsafe_z_prepare_wbuf (tc_wbuf ztc) ?st = Some w1" "tx_buf cap w1" "wb_data w1 = (if ?st then [0, 0] else [])"
    using tx_prepare [OF b(1), of ?st] b(3) by auto
  obtain z1 where z1: "z_transport_tx_get_sn ztc r = (?sn, z1)" "tx_sn z1 r = z_sn_increment (tc_sn_res ztc) ?sn"
    "tc_sn_res z1 = tc_sn_res ztc" "tc_stream z1 = ?st" "tc_batch_active z1 = tc_batch_active ztc" "tc_batch_count z1 = tc_batch_count ztc"
    using get_sn [of ztc r] by blast
  have l: "length (wb_data w1) = stream_room ?st" by (simp add: w1(3) stream_room_def)
  have "length (frame_head ?sn r) \<le> 10" using vle_bound [of 8 "of_nat (unat ?sn)"] by (simp add: frame_head_def)
  then have "length (frame_head ?sn r) \<le> wb_space w1" using b(3) tx_buf_slice(12) [OF w1(2)] l by linarith
  then obtain w2 where "z_transport_message_encode (tx_heap E) w1 (z_t_msg_make_frame_header ?sn r) h = Some (Z_OK, w2, h)"
    "tx_buf cap w2" "wb_data w2 = wb_data w1 @ frame_head ?sn r"
    using emits_fits [OF frame_head_emits, of w1 ?sn r "tx_heap E" h] w1(2) tx_buf_same [OF w1(2)] by (auto simp: tx_buf_def)
  then show ?thesis using w1 z1 by (simp add: start_frame_def)
qed

section \<open>What is sent\<close>

text \<open>The network layer writes \<open>m\<close> as \<open>wire\<close>, into a buffer of the sender and into the one that is cut into fragments.\<close>

definition carries :: "('m, 'p, 'l, 'h) z_tx_env \<Rightarrow> 'm \<Rightarrow> bytes \<Rightarrow> bool" where
  "carries E m wire \<longleftrightarrow> length wire \<le> SIZE_MAX \<and> emits (\<lambda>wbf. tx_encode E wbf m) wire \<and>
     (\<forall>h. \<exists>fb h1 fb' h2. z_wbuf_make (tx_heap E) 128 True h = Some (fb, h1) \<and> tx_encode E fb m h1 = Some (Z_OK, fb', h2) \<and>
        wb_ok fb' \<and> wb_data fb' = wire)"

lemma flush_sends:
  assumes b: "tx_buf cap (tc_wbuf ztc)" "cap \<le> SIZE_MAX" and d: "wb_data (tc_wbuf ztc) = (if tc_stream ztc then [0, 0] else []) @ bs"
    and E: "recording E peers"
  shows "\<exists>ztc'. z_transport_tx_flush_buffer E ztc peers l h = Some (Z_OK, ztc', l @ [on_link (tc_stream ztc) bs], h) \<and>
    tx_buf cap (tc_wbuf ztc') \<and> tc_batch_count ztc' = 0 \<and> tx_sn ztc' r = tx_sn ztc r \<and> tc_stream ztc' = tc_stream ztc \<and>
    tc_sn_res ztc' = tc_sn_res ztc \<and> tc_batch_active ztc' = tc_batch_active ztc"
proof -
  obtain w where "unsafe_z_finalize_wbuf (tc_wbuf ztc) (tc_stream ztc) = Some w" "tx_buf cap w" "wb_data w = on_link (tc_stream ztc) bs"
    using tx_finalize [OF b d] by blast
  then show ?thesis using recording_send [OF E] by (simp add: z_transport_tx_flush_buffer_def)
qed

lemma fragment_sends:
  assumes b: "tx_buf cap (tc_wbuf ztc)" "cap \<le> SIZE_MAX" "stream_room (tc_stream ztc) + 11 < cap"
    and E: "recording E peers" "carries E m wire" and sn: "tx_sn ztc r = z_sn_increment (tc_sn_res ztc) sn"
  shows "\<exists>ps ztc' h'. z_transport_tx_send_fragment E ztc m r sn peers l h =
      Some (Z_OK, ztc', l @ frag_wires (tc_stream ztc) (frag_channel r) (tc_sn_res ztc) sn True ps, h') \<and>
    concat ps = wire \<and> [] \<notin> set ps \<and> tx_buf cap (tc_wbuf ztc') \<and> tc_stream ztc' = tc_stream ztc \<and>
    tc_sn_res ztc' = tc_sn_res ztc \<and> tc_batch_active ztc' = tc_batch_active ztc \<and>
    (ps \<noteq> [] \<longrightarrow> tx_sn ztc' r = (z_sn_increment (tc_sn_res ztc) ^^ length ps) sn) \<and>
    (\<forall>w\<in>set (frag_wires (tc_stream ztc) (frag_channel r) (tc_sn_res ztc) sn True ps). length w \<le> cap)"
proof -
  obtain fb h1 fb' h2 where f: "z_wbuf_make (tx_heap E) 128 True h = Some (fb, h1)" "tx_encode E fb m h1 = Some (Z_OK, fb', h2)"
    "wb_ok fb'" "wb_data fb' = wire" using E(2) unfolding carries_def by meson
  have "length (wb_data fb') \<le> SIZE_MAX" using E(2) f(4) by (simp add: carries_def)
  then obtain ps ztc' where 1: "send_fragments E ztc fb' r sn True peers l h2 =
      Some (Z_OK, ztc', l @ frag_wires (tc_stream ztc) (frag_channel r) (tc_sn_res ztc) sn True ps, h2)"
    "concat ps = wire" "[] \<notin> set ps" "tx_buf cap (tc_wbuf ztc')" "tc_stream ztc' = tc_stream ztc" "tc_sn_res ztc' = tc_sn_res ztc"
    "tc_batch_active ztc' = tc_batch_active ztc" "ps \<noteq> [] \<longrightarrow> tx_sn ztc' r = (z_sn_increment (tc_sn_res ztc) ^^ length ps) sn"
    "\<forall>w\<in>set (frag_wires (tc_stream ztc) (frag_channel r) (tc_sn_res ztc) sn True ps). length w \<le> cap"
    using send_fragments_all [OF b f(3) _ E(1), of True r sn l h2] sn unfolding f(4) by auto
  show ?thesis
    by (rule exI [of _ ps], rule exI [of _ ztc'], rule exI [of _ h2])
      (use 1 f in \<open>simp add: z_transport_tx_send_fragment_def z_transport_tx_send_fragment_inner_def\<close>)
qed

text \<open>A message that fits goes out in one frame, one that does not as fragments.\<close>

lemma unbatched:
  fixes r :: z_reliability
  assumes b: "tx_buf cap (tc_wbuf ztc)" "cap \<le> SIZE_MAX" "stream_room (tc_stream ztc) + 11 < cap"
    and E: "recording E peers" "carries E m wire" and off: "\<not> tc_batch_active ztc"
  defines "sn \<equiv> tx_sn ztc r" and "st \<equiv> tc_stream ztc"
  shows "\<exists>ztc' l' h'. z_transport_tx_send_n_msg_inner E ztc m r peers l h = Some (Z_OK, ztc', l', h') \<and> tx_buf cap (tc_wbuf ztc') \<and>
    tc_stream ztc' = st \<and> tc_sn_res ztc' = tc_sn_res ztc \<and> \<not> tc_batch_active ztc' \<and>
    (if stream_room st + length (frame_head sn r) + length wire \<le> cap
     then l' = l @ [on_link st (frame_head sn r @ wire)] \<and> tx_sn ztc' r = z_sn_increment (tc_sn_res ztc) sn
     else \<exists>ps. l' = l @ frag_wires st (frag_channel r) (tc_sn_res ztc) sn True ps \<and> concat ps = wire \<and> [] \<notin> set ps \<and>
       (ps \<noteq> [] \<longrightarrow> tx_sn ztc' r = (z_sn_increment (tc_sn_res ztc) ^^ length ps) sn) \<and>
       (\<forall>w\<in>set (frag_wires st (frag_channel r) (tc_sn_res ztc) sn True ps). length w \<le> cap))"
proof -
  obtain z1 where z1: "start_frame E ztc r h = Some (Z_OK, sn, z1, h)" "tx_buf cap (tc_wbuf z1)"
    "wb_data (tc_wbuf z1) = (if st then [0, 0] else []) @ frame_head sn r" "tx_sn z1 r = z_sn_increment (tc_sn_res ztc) sn"
    "tc_sn_res z1 = tc_sn_res ztc" "tc_stream z1 = st" "\<not> tc_batch_active z1"
    using start_frame [OF b, of E r h] off by (auto simp: sn_def st_def)
  have em: "emits (\<lambda>wbf. tx_encode E wbf m) wire" using E(2) by (simp add: carries_def)
  have l: "length (wb_data (tc_wbuf z1)) = stream_room st + length (frame_head sn r)" by (simp add: z1(3) stream_room_def)
  have wp: "z_wbuf_get_wpos (tc_wbuf z1) = Some (length (wb_data (tc_wbuf z1)))" by (rule tx_get_wpos [OF z1(2) b(2)])
  have fx: "wb_fixed (tc_wbuf z1)" "wb_space (tc_wbuf z1) = cap - (stream_room st + length (frame_head sn r))"
    using z1(2) tx_buf_slice(12) [OF z1(2)] l by (simp_all add: tx_buf_def)
  note step = z_transport_tx_send_n_msg_inner_def z_transport_tx_batch_has_data_def z_transport_tx_save_wpos_def
  show ?thesis
  proof (cases "stream_room st + length (frame_head sn r) + length wire \<le> cap")
    case True
    then have "length wire \<le> wb_space (tc_wbuf z1)" using fx(2) by linarith
    then obtain w2 where w2: "tx_encode E (tc_wbuf z1) m h = Some (Z_OK, w2, h)" "tx_buf cap w2" "wb_data w2 = wb_data (tc_wbuf z1) @ wire"
      using emits_fits [OF em fx(1), of h] tx_buf_same [OF z1(2)] by blast
    let ?z = "z1\<lparr>tc_wbuf := w2\<rparr>"
    obtain z3 where "z_transport_tx_flush_buffer E ?z peers l h = Some (Z_OK, z3, l @ [on_link st (frame_head sn r @ wire)], h)"
      "tx_buf cap (tc_wbuf z3)" "tx_sn z3 r = z_sn_increment (tc_sn_res ztc) sn" "tc_stream z3 = st" "tc_sn_res z3 = tc_sn_res ztc"
      "\<not> tc_batch_active z3"
      using flush_sends [of cap ?z "frame_head sn r @ wire" E peers l h r] w2(2,3) b(2) z1(3-7) E(1) by auto
    then show ?thesis
      using True off z1(1,7) wp w2(1)
      by (intro exI [of _ z3] exI [of _ "l @ [on_link st (frame_head sn r @ wire)]"] exI [of _ h])
        (simp add: step z_transport_tx_flush_or_incr_batch_def Let_def)
  next
    case False
    then have "wb_space (tc_wbuf z1) < length wire"
      using fx(2) l tx_buf_slice(10,11) [OF z1(2)] by linarith
    then obtain w2 sent where w2: "tx_encode E (tc_wbuf z1) m h = Some (Z_ERR_TRANSPORT_NO_SPACE, w2, h)" "tx_buf cap w2"
      using emits_full [OF em fx(1), of h] tx_buf_same [OF z1(2)] by auto
    let ?z = "z1\<lparr>tc_wbuf := w2\<rparr>"
    obtain ps z3 h3 where "z_transport_tx_send_fragment E ?z m r sn peers l h =
        Some (Z_OK, z3, l @ frag_wires st (frag_channel r) (tc_sn_res ztc) sn True ps, h3)" "concat ps = wire" "[] \<notin> set ps"
      "tx_buf cap (tc_wbuf z3)" "tc_stream z3 = st" "tc_sn_res z3 = tc_sn_res ztc" "\<not> tc_batch_active z3"
      "ps \<noteq> [] \<longrightarrow> tx_sn z3 r = (z_sn_increment (tc_sn_res ztc) ^^ length ps) sn"
      "\<forall>w\<in>set (frag_wires st (frag_channel r) (tc_sn_res ztc) sn True ps). length w \<le> cap"
      using fragment_sends [of cap ?z E peers m wire r sn l h] w2(2) b(2,3) z1(4-7) E by (auto simp: st_def)
    then show ?thesis
      using False off z1(1) wp w2(1)
      by (intro exI [of _ z3] exI [of _ "l @ frag_wires st (frag_channel r) (tc_sn_res ztc) sn True ps"] exI [of _ h3]) (auto simp: step Let_def)
  qed
qed

text \<open>
  Without batches, a message goes to a link that takes everything in one frame that decodes to it, if it fits
  the buffer, and otherwise in as many fragments as it takes: their payloads put together are the message, their numbers
  follow on each other, only the first is marked as such and all but the last announce another one. Fragments of
  a reliable message are sent as best-effort ones and the other way round.
\<close>

theorem sender_delivers:
  fixes r :: z_reliability
  assumes "tx_buf cap (tc_wbuf ztc)" "cap \<le> SIZE_MAX" "stream_room (tc_stream ztc) + 11 < cap"
    and "recording E peers" "carries E m wire" "\<not> tc_batch_active ztc"
  defines "sn \<equiv> tx_sn ztc r" and "st \<equiv> tc_stream ztc"
  shows "\<exists>ztc' sent h'. z_transport_tx_send_n_msg_inner E ztc m r peers l h = Some (Z_OK, ztc', l @ sent, h') \<and>
    (if stream_room st + length (frame_head sn r) + length wire \<le> cap
     then \<exists>bs zbf payload. sent = [on_link st bs] \<and>
       z_transport_message_decode swap (z_slice_as_zbuf bs) = Some (Inr (z_t_msg_make_frame sn payload r), zbf) \<and> zb_data payload = wire
     else \<exists>ps. concat ps = wire \<and> [] \<notin> set ps \<and> length sent = length ps \<and>
       (\<forall>i < length ps. \<exists>bs zbf. sent ! i = on_link st bs \<and>
          z_transport_message_decode swap (z_slice_as_zbuf bs) =
            Some (Inr (z_t_msg_make_fragment ((z_sn_increment (tc_sn_res ztc) ^^ i) sn) (ps ! i)
              (if r = RELIABLE then BEST_EFFORT else RELIABLE) (i + 1 = length ps) (i = 0) False), zbf)))"
proof -
  obtain ztc' l' h' where 1: "z_transport_tx_send_n_msg_inner E ztc m r peers l h = Some (Z_OK, ztc', l', h')"
    "if stream_room st + length (frame_head sn r) + length wire \<le> cap
     then l' = l @ [on_link st (frame_head sn r @ wire)] \<and> tx_sn ztc' r = z_sn_increment (tc_sn_res ztc) sn
     else \<exists>ps. l' = l @ frag_wires st (frag_channel r) (tc_sn_res ztc) sn True ps \<and> concat ps = wire \<and> [] \<notin> set ps \<and>
       (ps \<noteq> [] \<longrightarrow> tx_sn ztc' r = (z_sn_increment (tc_sn_res ztc) ^^ length ps) sn) \<and>
       (\<forall>w\<in>set (frag_wires st (frag_channel r) (tc_sn_res ztc) sn True ps). length w \<le> cap)"
    using unbatched [OF assms(1-6), of r l h] unfolding sn_def st_def by blast
  show ?thesis
  proof (cases "stream_room st + length (frame_head sn r) + length wire \<le> cap")
    case True
    then show ?thesis using 1 frame_decode [of swap sn r wire] by auto
  next
    case False
    then obtain ps where ps: "l' = l @ frag_wires st (frag_channel r) (tc_sn_res ztc) sn True ps" "concat ps = wire" "[] \<notin> set ps"
      using 1(2) by auto
    have c: "frag_channel r = (if r = RELIABLE then BEST_EFFORT else RELIABLE)" by (simp add: frag_channel_def reliability_of_bool_def)
    have d: "\<exists>zbf. z_transport_message_decode swap (z_slice_as_zbuf (frag_head n c is_last first @ p)) =
        Some (Inr (z_t_msg_make_fragment n p c is_last first False), zbf)" for n c is_last first p
      unfolding frag_msg by (rule frag_decode)
    show ?thesis
      unfolding 1(1) ps(1) using False ps(2,3) d
      by (intro exI [of _ ztc'] exI [of _ "frag_wires st (frag_channel r) (tc_sn_res ztc) sn True ps"] exI [of _ h'])
        (simp only: if_False, intro conjI refl exI [of _ ps], assumption+, simp, auto simp: frag_wires_nth c)
  qed
qed

definition demo_ztc :: z_transport_common where
  "demo_ztc = \<lparr>tc_sn_res = z_sn_max 2, tc_sn_tx_reliable = 0xFFFFFFF, tc_sn_tx_best_effort = 0, tc_wbuf = demo_wbuf 24 False,
     tc_stream = True, tc_batch_active = False, tc_batch_count = 0, tc_transmitted = False\<rparr>"

definition demo_tx :: "(bytes, unit, bytes list, unit) z_tx_env" where
  "demo_tx = \<lparr>tx_heap = demo_heap, tx_encode = \<lambda>wbf m. z_wbuf_write_bytes demo_heap wbf m 0 (length m), tx_express = \<lambda>m. False,
     tx_send = \<lambda>wbf p l. (Z_OK, l @ [wb_data wbf])\<rparr>"

lemma demo_iosli: "z_iosli_make demo_heap c h =
    (\<lparr>ios_r_pos = 0, ios_w_pos = 0, ios_capacity = c, ios_buf = replicate c 7, ios_is_alloc = True\<rparr>, h)"
  by (simp add: z_iosli_make_def z_iosli_init_def demo_heap_def)

lemma first_of_five: "take (Suc 0) ((replicate 5 x)[0 := y]) = [y]"
  by (simp add: numeral_eq_Suc)

lemma demo_wbuf_make: "\<exists>wbf. z_wbuf_make demo_heap c e () = Some (wbf, ()) \<and> demo_wbuf c e = wbf \<and> wb_shape wbf = (0, 0, [(0, c, True)])"
  by (cases e) (simp_all add: demo_wbuf_def z_wbuf_make_def make_svec_demo z_svec_null_def svec_append_iosli_def z_svec_append_def
      split_beta size_mul_def size_add_def wb_shape_def wb_slices_def svec_items_def demo_iosli ios_shape_def first_of_five)

lemma demo_tx_buf: "tx_buf c (demo_wbuf c False)"
  using demo_wbuf_make [of c False] demo_wbuf(1,5) [of c False] by (auto simp: tx_buf_def wb_fixed_def)

lemma demo_carries: "length m \<le> 128 \<Longrightarrow> carries demo_tx m m"
proof -
  assume l: "length m \<le> 128"
  obtain fb where "z_wbuf_make demo_heap 128 True () = Some (fb, ())" "demo_wbuf 128 True = fb" using demo_wbuf_make by blast
  moreover have "\<exists>wbf'. z_wbuf_write_bytes demo_heap (demo_wbuf 128 True) m 0 (length m) () = Some (Z_OK, wbf', ()) \<and> wb_ok wbf' \<and> wb_data wbf' = m"
    using write_bytes_fits [OF demo_wbuf(1) [of 128 True], of 0 "length m" m demo_heap "()"] l by (auto simp: demo_wbuf slice_def)
  moreover have "length m \<le> SIZE_MAX" using l by (simp add: SIZE_MAX_def)
  ultimately show ?thesis by (auto simp: carries_def demo_tx_def emits_bytes)
qed

theorem sender_delivers_witness:
  "\<exists>ztc' sent h'. z_transport_tx_send_n_msg_inner demo_tx demo_ztc (replicate 30 7) RELIABLE None [] () = Some (Z_OK, ztc', sent, h') \<and>
     (\<exists>ps. concat ps = replicate 30 7 \<and> length sent = length ps \<and>
       (\<forall>i < length ps. \<exists>bs zbf. sent ! i = on_link True bs \<and> z_transport_message_decode False (z_slice_as_zbuf bs) =
          Some (Inr (z_t_msg_make_fragment ((z_sn_increment (z_sn_max 2) ^^ i) 0xFFFFFFF) (ps ! i) BEST_EFFORT (i + 1 = length ps) (i = 0) False), zbf)))"
proof -
  have "tx_buf 24 (tc_wbuf demo_ztc)" "(24 :: nat) \<le> SIZE_MAX" "stream_room (tc_stream demo_ztc) + 11 < 24" "recording demo_tx None"
    "carries demo_tx (replicate 30 7) (replicate 30 7)" "\<not> tc_batch_active demo_ztc"
    using demo_tx_buf demo_carries [of "replicate 30 7"]
    by (simp_all add: demo_ztc_def SIZE_MAX_def stream_room_def recording_def demo_tx_def send_wbuf_def)
  from sender_delivers [OF this, of RELIABLE "[]" "()" False] show ?thesis
    by (auto simp: demo_ztc_def stream_room_def tx_sn_def)
qed

text \<open>
  Once a batch holds a message, it takes others without a look at their reliability: best-effort messages go out under
  the head of a reliable frame, and reliable ones under that of a best-effort frame.
\<close>

theorem batch_mixes_channels:
  assumes "z_transport_tx_batch_has_data ztc" "z_wbuf_get_wpos (tc_wbuf ztc) = Some n"
    and "tx_encode E (tc_wbuf ztc) m h = Some (Z_OK, wbf, h')" "\<not> tx_express E m"
  shows "z_transport_tx_send_n_msg_inner E ztc m r p l h =
    Some (Z_OK, ztc\<lparr>tc_wbuf := wbf, tc_batch_count := size_add (tc_batch_count ztc) 1\<rparr>, l, h')"
  using assms by (simp add: z_transport_tx_send_n_msg_inner_def z_transport_tx_save_wpos_def Let_def
      z_transport_tx_flush_or_incr_batch_def z_transport_tx_batch_has_data_def)

theorem batch_mixes_channels_witness:
  "\<exists>ztc' h'. z_transport_tx_send_n_msg_inner demo_tx (demo_ztc\<lparr>tc_batch_active := True, tc_batch_count := 1\<rparr>) [1, 2] BEST_EFFORT None [] () =
     Some (Z_OK, ztc', [], h') \<and> tc_batch_count ztc' = 2"
proof -
  let ?z = "demo_ztc\<lparr>tc_batch_active := True, tc_batch_count := 1\<rparr>"
  have "length [1, 2 :: u8] \<le> wb_space (demo_wbuf 24 False)" "wb_fixed (demo_wbuf 24 False)"
    using demo_wbuf(3) [of 24 False] demo_tx_buf [of 24] by (simp_all add: tx_buf_def)
  then obtain w where "tx_encode demo_tx (tc_wbuf ?z) [1, 2] () = Some (Z_OK, w, ())"
    using emits_fits [OF emits_bytes [of demo_heap "[1, 2]"], of "demo_wbuf 24 False" "()"] by (auto simp: demo_tx_def demo_ztc_def)
  moreover have "z_transport_tx_batch_has_data ?z" "\<not> tx_express demo_tx [1, 2]"
    by (simp_all add: z_transport_tx_batch_has_data_def demo_tx_def demo_ztc_def)
  moreover have "z_wbuf_get_wpos (tc_wbuf ?z) = Some 0"
    using tx_get_wpos [OF demo_tx_buf [of 24]] demo_wbuf(2) [of 24 False] by (simp add: SIZE_MAX_def demo_ztc_def)
  ultimately show ?thesis
    using batch_mixes_channels [of ?z 0 demo_tx "[1, 2]" "()" w "()" BEST_EFFORT None "[]"] by (simp add: demo_ztc_def size_add_def)
qed

end
