(* ===== verification/ZRxProps.thy ===== *)
theory ZRxProps
  imports ZTxProps ZRead
begin

text \<open>
  Properties of the receiver. A peer stays well-formed whatever the network and the allocator do; with enough memory
  the fragments of a channel are put together as an automaton over byte strings says.
\<close>

section \<open>The buffer of a channel\<close>

text \<open>A buffer that holds nothing: none at all, or what an allocation left that failed.\<close>

definition idle_wbuf :: "z_wbuf \<Rightarrow> bool" where
  "idle_wbuf w \<longleftrightarrow> svec_ok (wb_ioss w) \<and> wb_r_idx w = 0 \<and> wb_w_idx w = 0 \<and> sv_len (wb_ioss w) \<le> 1 \<and>
     (\<forall>ios\<in>set (wb_slices w). ios_ok ios \<and> ios_r_pos ios = 0 \<and> ios_w_pos ios = 0)"

lemma idle_null [simp]: "idle_wbuf z_wbuf_null"
  by (simp add: idle_wbuf_def z_wbuf_null_def z_svec_null_def svec_ok_def wb_slices_def svec_items_def)

lemma idle_cases:
  assumes "idle_wbuf w"
  obtains "wb_slices w = []" "z_wbuf_len_iosli w = 0"
  | ios where "wb_slices w = [ios]" "z_wbuf_len_iosli w = 1" "ios_ok ios" "ios_r_pos ios = 0" "ios_w_pos ios = 0" "wb_ok w"
proof -
  have l: "length (wb_slices w) = sv_len (wb_ioss w)" "sv_len (wb_ioss w) \<le> 1"
    using assms by (simp_all add: idle_wbuf_def wb_slices_def)
  show ?thesis
  proof (cases "sv_len (wb_ioss w) = 0")
    case True
    then show ?thesis using that(1) l by (simp add: z_wbuf_len_iosli_def)
  next
    case False
    then have n: "sv_len (wb_ioss w) = 1" using l(2) by simp
    then obtain ios where "wb_slices w = [ios]" using l(1) by (cases "wb_slices w") auto
    then show ?thesis using that(2) n assms by (simp add: z_wbuf_len_iosli_def idle_wbuf_def wb_ok_def)
  qed
qed

lemma idle_len:
  assumes "idle_wbuf w"
  shows "z_wbuf_len w = Some 0"
  using assms
proof (cases rule: idle_cases)
  case 1
  then show ?thesis by (simp add: z_wbuf_len_def)
next
  case (2 ios)
  then have "wb_data w = []" using assms by (simp add: wb_data_def idle_wbuf_def ios_data_def slice_def)
  then show ?thesis using wb_len [OF 2(6)] by simp
qed

lemma idle_reset:
  assumes "idle_wbuf w"
  shows "\<exists>w'. z_wbuf_reset w = Some w' \<and> idle_wbuf w'"
proof -
  have w: "w\<lparr>wb_r_idx := 0, wb_w_idx := 0\<rparr> = w" using assms by (simp add: idle_wbuf_def)
  from assms show ?thesis
  proof (cases rule: idle_cases)
    case 1
    then show ?thesis using assms unfolding z_wbuf_reset_def w by (simp add: reset_loop.simps [of w])
  next
    case (2 ios)
    have r: "z_iosli_reset ios = ios" using 2(4,5) by (simp add: z_iosli_reset_def)
    have g: "z_wbuf_get_iosli w 0 = Some ios" using wb_get [OF 2(6), of 0] 2(1) by simp
    then have s: "wb_set_iosli w 0 ios = w"
      by (auto simp: wb_set_iosli_def z_wbuf_get_iosli_def z_svec_get_def assert_c_def arr_get_def list_update_same_conv split: if_splits)
    show ?thesis
    proof (cases "ios_is_alloc ios")
      case True
      then have "z_wbuf_reset w = Some w"
        unfolding z_wbuf_reset_def w reset_loop.simps [of w 0] using 2(2) g r s by (simp add: reset_loop.simps [of w "Suc 0"])
      then show ?thesis using assms by simp
    next
      case False
      have v: "svec_ok (wb_ioss w)" "sv_len (wb_ioss w) = 1" using assms 2(2) by (simp_all add: idle_wbuf_def z_wbuf_len_iosli_def)
      then obtain v' where v': "z_svec_remove z_iosli_size (\<lambda>ios u. (z_iosli_clear ios, u)) (\<lambda>d s. (d, s)) False (wb_ioss w) 0 () = Some (v', ())"
        "svec_ok v'" "sv_len v' = 0"
        by (simp add: z_svec_remove_def z_svec_move_inner_def svec_ok_def)
      let ?w = "w\<lparr>wb_ioss := v'\<rparr>"
      have "z_wbuf_reset w = Some ?w"
        unfolding z_wbuf_reset_def w reset_loop.simps [of w 0] using 2(2) g False v'(1,3)
        by (simp add: reset_loop.simps [of ?w] z_wbuf_len_iosli_def)
      moreover have "idle_wbuf ?w" using assms v'(2,3) by (simp add: idle_wbuf_def wb_slices_def svec_items_def)
      ultimately show ?thesis by blast
    qed
  qed
qed

lemma clear_loop_ok: "i + n \<le> length val \<Longrightarrow> \<exists>val'. elem_clear_loop (\<lambda>x u. (f x, u)) n i val () = Some (val', ())"
  by (induction n arbitrary: i val) simp_all

lemma wbuf_clear: "svec_ok (wb_ioss w) \<Longrightarrow> z_wbuf_clear w = Some z_wbuf_null"
  using clear_loop_ok [of 0 "sv_len (wb_ioss w)" "sv_val (wb_ioss w)" z_iosli_clear]
  by (auto simp: z_wbuf_clear_def z_svec_clear_def z_svec_reset_def svec_ok_def)

text \<open>Memory that never runs out.\<close>

definition heap_full :: "'h heap \<Rightarrow> bool" where
  "heap_full H \<longleftrightarrow> heap_ok H \<and> heap_gives H \<and> (\<forall>n h. fst (mal_slis H n h) \<noteq> None) \<and> (\<forall>h. fst (mal_rc H h))"

lemma make_tx_buf:
  assumes H: "heap_ok H" and pos: "0 < n" "n \<le> SIZE_MAX"
  shows "\<exists>w h' cap. z_wbuf_make H n False h = Some (w, h') \<and> z_wbuf_capacity w = Some cap \<and> idle_wbuf w \<and>
    (cap = n \<longrightarrow> tx_buf n w \<and> wb_data w = []) \<and> (heap_full H \<longrightarrow> cap = n)"
proof -
  obtain v h1 where v: "z_svec_make (mal_slis H) z_iosli_size 1 h = (v, h1)" by fastforce
  obtain ios h2 where i: "z_iosli_make H n h1 = (ios, h2)" by fastforce
  have m: "malloc_ok z_iosli_size (mal_slis H)" "malloc_ok 1 (mal_bytes H)" using H by (simp_all add: heap_ok_def)
  have vok: "svec_ok v" "sv_len v = 0"
  proof -
    have k: "size_mul z_iosli_size 1 div z_iosli_size = 1" by (simp add: z_iosli_size_def size_mul_def)
    have l: "mal_slis H (size_mul z_iosli_size 1) h = (Some b, h') \<Longrightarrow> length b = 1" for b h'
      using malloc_ok_length [OF m(1)] k by metis
    show "svec_ok v" "sv_len v = 0"
      using v l by (auto simp: z_svec_make_def svec_ok_def z_svec_null_def split: prod.splits option.splits if_splits)
  qed
  have iok: "ios_ok ios" using ios_make [OF m(2), of n h1] i by simp
  have ia: "ios_is_alloc ios \<or> ios_capacity ios = 0" "ios_r_pos ios = 0" "ios_w_pos ios = 0"
    using i by (auto simp: z_iosli_make_def z_iosli_init_def split: option.splits prod.splits)
  have "2 * (sv_len v + 1) * z_iosli_size \<le> SIZE_MAX" by (simp add: vok(2) z_iosli_size_def SIZE_MAX_def)
  from z_svec_append_items [OF m(1) vok(1) _ this, of "\<lambda>d s. (d, s)" ios h2] obtain r v1 h3 where
    a: "svec_append_iosli H v ios h2 = Some (r, v1, h3)" "svec_ok v1"
      "if r = Z_OK then svec_items v1 = svec_items v @ [ios] else v1 = v \<and> sv_len v = sv_capacity v"
    by (auto simp: svec_append_iosli_def z_iosli_size_def)
  have full: "sv_capacity v = 1 \<and> ios_capacity ios = n" if f: "heap_full H"
  proof -
    obtain b1 g1 b2 g2 where "mal_slis H (size_mul z_iosli_size 1) h = (Some b1, g1)" "mal_bytes H n h1 = (Some b2, g2)"
      using f unfolding heap_full_def heap_gives_def by (metis fst_conv not_None_eq surj_pair)
    then show ?thesis using v i by (auto simp: z_svec_make_def z_iosli_make_def z_iosli_init_def)
  qed
  let ?w = "\<lparr>wb_ioss = v1, wb_r_idx = 0, wb_w_idx = 0, wb_step = 0\<rparr>"
  have mk: "z_wbuf_make H n False h = Some (?w, h3)" using a(1) v i by (simp add: z_wbuf_make_def)
  have it: "svec_items v = []" using vok by (simp add: svec_items_def)
  show ?thesis
  proof (cases "r = Z_OK")
    case True
    then have s: "wb_slices ?w = [ios]" using a(3) it by (simp add: wb_slices_def)
    then have n: "sv_len v1 = 1" using length_svec_items [OF a(2)] by (simp add: wb_slices_def)
    then have ok: "wb_ok ?w" using a(2) s iok by (simp add: wb_ok_def)
    then have "z_wbuf_get_iosli ?w 0 = Some ios" using wb_get [OF ok, of 0] s by simp
    moreover have "ios_capacity ios \<le> SIZE_MAX"
      using i pos(2) by (auto simp: z_iosli_make_def z_iosli_init_def split: option.splits prod.splits)
    ultimately have "z_wbuf_capacity ?w = Some (ios_capacity ios)"
      using n by (simp add: z_wbuf_capacity_def z_wbuf_len_iosli_def numeral_eq_Suc)
    then show ?thesis
      using mk a(2) n s iok ia ok full pos(1)
      by (auto simp: idle_wbuf_def tx_buf_def wb_fixed_def wb_shape_def ios_shape_def wb_data_def ios_data_def slice_def)
  next
    case False
    then have "sv_len v1 = 0" "sv_capacity v = 0" using a(3) vok(2) by simp_all
    then show ?thesis
      using mk a(2) full pos(1) by (auto simp: idle_wbuf_def z_wbuf_capacity_def z_wbuf_len_iosli_def wb_slices_def svec_items_def)
  qed
qed

lemma make_frag_buf:
  assumes H: "heap_ok H"
  shows "\<exists>w h' cap. z_wbuf_make H Z_FRAG_MAX_SIZE False h = Some (w, h') \<and> z_wbuf_capacity w = Some cap \<and> idle_wbuf w \<and>
    (cap = Z_FRAG_MAX_SIZE \<longrightarrow> tx_buf Z_FRAG_MAX_SIZE w \<and> wb_data w = []) \<and> (heap_full H \<longrightarrow> cap = Z_FRAG_MAX_SIZE)"
  by (rule make_tx_buf [OF H]) (simp_all add: SIZE_MAX_def)

lemma frag_max: "Z_FRAG_MAX_SIZE \<le> SIZE_MAX"
  by (simp add: SIZE_MAX_def)

lemma tx_moved:
  assumes b: "tx_buf cap w"
  shows "\<exists>zbf h'. z_wbuf_moved_as_zbuf H w h = Some (zbf, z_wbuf_null, h') \<and> zb_ok zbf \<and> zb_data zbf = wb_data w \<and> z_zbuf_capacity zbf = cap"
proof -
  note s = tx_buf_slice [OF b]
  have "svec_ok (wb_ioss (wb_set_iosli w 0 x))" for x
    using s(1) by (simp add: wb_ok_def svec_ok_def wb_set_iosli_def)
  then have c: "z_wbuf_clear (wb_set_iosli w 0 x) = Some z_wbuf_null" for x by (rule wbuf_clear)
  have "wb_data w = ios_data (tx_slice w)" using s(2) by (simp add: wb_data_def s(4))
  then show ?thesis
    using s(5,7,13,14) c by (cases "mal_rc H h")
      (simp add: z_wbuf_moved_as_zbuf_def z_iosli_steal_def zb_ok_def zb_data_def ios_ok_def ios_data_def z_zbuf_capacity_def)
qed

lemma tx_write:
  assumes b: "tx_buf cap w" and l: "length (wb_data w) + length d \<le> cap"
  shows "\<exists>w'. z_wbuf_write_bytes H w d 0 (length d) h = Some (Z_OK, w', h) \<and> tx_buf cap w' \<and> wb_data w' = wb_data w @ d"
proof -
  note s = tx_buf_slice [OF b]
  have "length d \<le> wb_space w" using s(12) l by simp
  from write_bytes_fits [OF s(1) _ this, of 0 d H h] show ?thesis
    using b s(15) by (auto simp: slice_def tx_buf_def wb_fixed_def)
qed

section \<open>Channels\<close>

datatype frag_chan = Idle | Collecting bytes | Overflown bytes

definition chan_of :: "z_reliability \<Rightarrow> z_peer \<Rightarrow> frag_chan" where
  "chan_of r p =
     (case dbuf_state r p of
        DBUF_NULL \<Rightarrow> Idle
      | DBUF_INIT \<Rightarrow> Collecting (wb_data (dbuf r p))
      | DBUF_OVERFLOW \<Rightarrow> Overflown (wb_data (dbuf r p)))"

definition chan_ok :: "z_reliability \<Rightarrow> z_peer \<Rightarrow> bool" where
  "chan_ok r p \<longleftrightarrow> (if dbuf_state r p = DBUF_NULL then idle_wbuf (dbuf r p) else tx_buf Z_FRAG_MAX_SIZE (dbuf r p))"

definition peer_ok :: "z_peer \<Rightarrow> bool" where
  "peer_ok p \<longleftrightarrow> chan_ok RELIABLE p \<and> chan_ok BEST_EFFORT p"

fun chan_bytes :: "frag_chan \<Rightarrow> bytes" where
  "chan_bytes Idle = []"
| "chan_bytes (Collecting d) = d"
| "chan_bytes (Overflown d) = d"

fun emptied :: "frag_chan \<Rightarrow> frag_chan" where
  "emptied Idle = Idle"
| "emptied (Collecting d) = Collecting []"
| "emptied (Overflown d) = Overflown []"

lemma peer_simps [simp]:
  "dbuf r (set_dbuf r w p) = w" "dbuf_state r (set_dbuf r' w p) = dbuf_state r p" "rx_sn r (set_dbuf r' w p) = rx_sn r p"
  "dbuf r (set_state r' st p) = dbuf r p" "dbuf_state r (set_state r st p) = st" "rx_sn r (set_state r' st p) = rx_sn r p"
  "dbuf r (set_rx_sn r' sn p) = dbuf r p" "dbuf_state r (set_rx_sn r' sn p) = dbuf_state r p" "rx_sn r (set_rx_sn r sn p) = sn"
  "pr_patch (set_dbuf r w p) = pr_patch p" "pr_patch (set_state r st p) = pr_patch p" "pr_patch (set_rx_sn r sn p) = pr_patch p"
  "r \<noteq> r' \<Longrightarrow> dbuf r (set_dbuf r' w p) = dbuf r p" "r \<noteq> r' \<Longrightarrow> dbuf_state r (set_state r' st p) = dbuf_state r p"
  "r \<noteq> r' \<Longrightarrow> rx_sn r (set_rx_sn r' sn p) = rx_sn r p"
  by (cases r; cases r'; simp add: dbuf_def set_dbuf_def dbuf_state_def set_state_def rx_sn_def set_rx_sn_def)+

lemma peer_fields [simp]:
  "pr_received (set_dbuf r w p) = pr_received p" "pr_received (set_state r st p) = pr_received p" "pr_received (set_rx_sn r sn p) = pr_received p"
  "pr_flow_state (set_dbuf r w p) = pr_flow_state p" "pr_flow_state (set_state r st p) = pr_flow_state p"
  "pr_flow_state (set_rx_sn r sn p) = pr_flow_state p" "pr_flow_buff (set_dbuf r w p) = pr_flow_buff p"
  "pr_flow_buff (set_state r st p) = pr_flow_buff p" "pr_flow_buff (set_rx_sn r sn p) = pr_flow_buff p"
  by (simp_all add: set_dbuf_def set_state_def set_rx_sn_def)

text \<open>The peers that differ from \<open>p\<close> at most in the channel \<open>r\<close>.\<close>

definition elsewhere :: "z_reliability \<Rightarrow> z_peer \<Rightarrow> z_peer \<Rightarrow> bool" where
  "elsewhere r p p' \<longleftrightarrow> (\<exists>w st sn. p' = set_rx_sn r sn (set_state r st (set_dbuf r w p)))"

lemma set_commute:
  "set_dbuf r w (set_state r st p) = set_state r st (set_dbuf r w p)" "set_dbuf r w (set_rx_sn r sn p) = set_rx_sn r sn (set_dbuf r w p)"
  "set_state r st (set_rx_sn r sn p) = set_rx_sn r sn (set_state r st p)" "set_dbuf r w' (set_dbuf r w p) = set_dbuf r w' p"
  "set_state r st' (set_state r st p) = set_state r st' p" "set_rx_sn r sn' (set_rx_sn r sn p) = set_rx_sn r sn' p"
  by (simp_all add: set_dbuf_def set_state_def set_rx_sn_def)

lemma elsewhere_refl [simp]: "elsewhere r p p"
proof -
  have "p = set_rx_sn r (rx_sn r p) (set_state r (dbuf_state r p) (set_dbuf r (dbuf r p) p))"
    by (simp add: set_dbuf_def set_state_def set_rx_sn_def dbuf_def dbuf_state_def rx_sn_def)
  then show ?thesis unfolding elsewhere_def by blast
qed

lemma elsewhere_sets [simp]:
  "elsewhere r p q \<Longrightarrow> elsewhere r p (set_dbuf r w q)" "elsewhere r p q \<Longrightarrow> elsewhere r p (set_state r st q)"
  "elsewhere r p q \<Longrightarrow> elsewhere r p (set_rx_sn r sn q)"
  by (auto simp: elsewhere_def set_commute) (metis set_commute(5,6))+

lemma elsewhere_trans: "elsewhere r p q \<Longrightarrow> elsewhere r q q' \<Longrightarrow> elsewhere r p q'"
  by (auto simp: elsewhere_def set_commute) blast

lemma elsewhere_fields:
  assumes "elsewhere r p q"
  shows "pr_patch q = pr_patch p" "pr_flow_state q = pr_flow_state p" "pr_received q = pr_received p"
    "r' \<noteq> r \<Longrightarrow> chan_ok r' q = chan_ok r' p" "r' \<noteq> r \<Longrightarrow> chan_of r' q = chan_of r' p" "r' \<noteq> r \<Longrightarrow> rx_sn r' q = rx_sn r' p"
    "pr_flow_buff q = pr_flow_buff p"
  using assms by (auto simp: elsewhere_def chan_ok_def chan_of_def split: z_dbuf_state.split)

lemma chan_set_sn [simp]: "chan_of r (set_rx_sn r' sn p) = chan_of r p" "chan_ok r (set_rx_sn r' sn p) = chan_ok r p"
  by (cases "dbuf_state r p"; simp add: chan_of_def chan_ok_def)+

lemma chan_len: "chan_ok r p \<Longrightarrow> z_wbuf_len (dbuf r p) = Some (length (chan_bytes (chan_of r p)))"
  using tx_len [OF _ frag_max, of "dbuf r p"] idle_len
  by (cases "dbuf_state r p") (auto simp: chan_ok_def chan_of_def)

lemma chan_reset:
  assumes "chan_ok r p"
  shows "\<exists>w. z_wbuf_reset (dbuf r p) = Some w \<and> chan_ok r (set_dbuf r w p) \<and> chan_of r (set_dbuf r w p) = emptied (chan_of r p)"
proof (cases "dbuf_state r p = DBUF_NULL")
  case True
  then show ?thesis using assms idle_reset by (auto simp: chan_ok_def chan_of_def)
next
  case False
  then obtain w where "z_wbuf_reset (dbuf r p) = Some w" "tx_buf Z_FRAG_MAX_SIZE w" "wb_data w = []"
    using assms tx_reset by (auto simp: chan_ok_def)
  then show ?thesis using False by (cases "dbuf_state r p") (auto simp: chan_ok_def chan_of_def)
qed

definition cleared :: "z_reliability \<Rightarrow> z_peer \<Rightarrow> z_peer" where
  "cleared r p = set_state r DBUF_NULL (set_dbuf r z_wbuf_null p)"

lemma chan_clear: "chan_ok r p \<Longrightarrow> clear_dbuf r p = Some (cleared r p)"
  using wbuf_clear [of "dbuf r p"] tx_buf_slice(1) [of Z_FRAG_MAX_SIZE "dbuf r p"]
  by (simp add: chan_ok_def clear_dbuf_def cleared_def idle_wbuf_def wb_ok_def split: if_splits)

lemma cleared_simps [simp]:
  "dbuf_state r (cleared r p) = DBUF_NULL" "chan_ok r (cleared r p)" "chan_of r (cleared r p) = Idle" "rx_sn r (cleared r p) = rx_sn r p"
  "elsewhere r p q \<Longrightarrow> elsewhere r p (cleared r q)"
  by (simp_all add: cleared_def chan_ok_def chan_of_def)

section \<open>The automaton of a channel\<close>

fun started :: "frag_chan \<Rightarrow> frag_chan" where
  "started Idle = Collecting []"
| "started c = c"

fun filled :: "bytes \<Rightarrow> frag_chan \<Rightarrow> frag_chan" where
  "filled d (Collecting b) = (if Z_FRAG_MAX_SIZE < length b + length d then Overflown b else Collecting (b @ d))"
| "filled d c = c"

fun finished :: "frag_chan \<Rightarrow> bytes option" where
  "finished (Collecting d) = Some d"
| "finished c = None"

text \<open>
  A fragment comes to a channel, \<open>fresh\<close> or old, \<open>next\<close> to the one before or not, with others behind it or not:
  the channel afterwards, and the message that is complete now. The other end writes markers or does not.
\<close>

definition reassemble :: "bool \<Rightarrow> bool \<Rightarrow> bool \<Rightarrow> bool \<Rightarrow> z_t_msg_fragment \<Rightarrow> frag_chan \<Rightarrow> frag_chan \<times> bytes option" where
  "reassemble markers fresh next_sn others m c =
     (if \<not> fresh \<or> \<not> next_sn \<and> chan_bytes c \<noteq> [] then (Idle, None)
      else if markers \<and> \<not> frag_first m \<and> chan_bytes c = [] then (c, None)
      else if markers \<and> frag_drop m then (emptied c, None)
      else
        let c = filled (frag_payload m) (started (if markers \<and> frag_first m then emptied c else c))
        in if others then (c, None) else (Idle, finished c))"

lemma emptied_emptied [simp]: "emptied (emptied c) = emptied c"
  by (cases c) simp_all

lemma fragment_markers:
  assumes "chan_ok r p"
  defines "markers \<equiv> 1 \<le> pr_patch p" and "c \<equiv> chan_of r p"
  shows "\<exists>p'. fragment_markers r m p =
      Some (\<not> markers \<or> (frag_first m \<or> chan_bytes c \<noteq> []) \<and> \<not> frag_drop m, p') \<and> chan_ok r p' \<and> elsewhere r p p' \<and>
    chan_of r p' = (if markers \<and> (frag_first m \<or> chan_bytes c \<noteq> [] \<and> frag_drop m) then emptied c else c) \<and> rx_sn r p' = rx_sn r p"
proof -
  obtain w where 1: "z_wbuf_reset (dbuf r p) = Some w" "chan_ok r (set_dbuf r w p)" "chan_of r (set_dbuf r w p) = emptied c"
    using chan_reset [OF assms(1)] by (auto simp: c_def)
  obtain w' where 2: "z_wbuf_reset w = Some w'" "chan_ok r (set_dbuf r w' (set_dbuf r w p))"
    "chan_of r (set_dbuf r w' (set_dbuf r w p)) = emptied c"
    using chan_reset [OF 1(2)] 1(3) by auto
  have n: "z_wbuf_len (dbuf r p) = Some (length (chan_bytes c))" using chan_len [OF assms(1)] by (simp add: c_def)
  show ?thesis
  proof (cases markers)
    case True
    then have "fragment_markers r m p =
        (if frag_first m then (if frag_drop m then Some (False, set_dbuf r w' (set_dbuf r w p)) else Some (True, set_dbuf r w p))
         else if chan_bytes c = [] then Some (False, p)
         else if frag_drop m then Some (False, set_dbuf r w p) else Some (True, p))"
      unfolding fragment_markers_def markers_def if_P [OF True [unfolded markers_def]] if_P
      by (cases "frag_first m"; cases "frag_drop m"; cases "chan_bytes c = []") (simp_all add: 1(1) 2(1) n)
    then show ?thesis using True assms(1) 1(2,3) 2(2,3) by (auto simp: c_def)
  next
    case False
    then show ?thesis using assms(1) by (simp add: fragment_markers_def markers_def c_def)
  qed
qed

lemma fragment_alloc:
  assumes "heap_ok H" "chan_ok r p"
  shows "\<exists>ok p' h'. fragment_alloc H r p h = Some (ok, p', h') \<and> chan_ok r p' \<and> elsewhere r p p' \<and> rx_sn r p' = rx_sn r p \<and>
    (if ok then chan_of r p' = started (chan_of r p) \<and> dbuf_state r p' \<noteq> DBUF_NULL
     else chan_of r p = Idle \<and> chan_of r p' = Idle \<and> \<not> heap_full H)"
proof (cases "dbuf_state r p = DBUF_NULL")
  case True
  obtain w h' cap where w: "z_wbuf_make H Z_FRAG_MAX_SIZE False h = Some (w, h')" "z_wbuf_capacity w = Some cap" "idle_wbuf w"
    "cap = Z_FRAG_MAX_SIZE \<longrightarrow> tx_buf Z_FRAG_MAX_SIZE w \<and> wb_data w = []" "heap_full H \<longrightarrow> cap = Z_FRAG_MAX_SIZE"
    using make_frag_buf [OF assms(1), of h] by blast
  show ?thesis
  proof (cases "cap = Z_FRAG_MAX_SIZE")
    case c: True
    have "fragment_alloc H r p h = Some (True, set_state r DBUF_INIT (set_dbuf r w p), h')"
      using True w(1,2) c by (simp add: fragment_alloc_def)
    then show ?thesis using True w(4) c by (intro exI [of _ True]) (simp add: chan_ok_def chan_of_def)
  next
    case False
    have "fragment_alloc H r p h = Some (False, set_dbuf r w p, h')"
      using True w(1,2) False by (simp add: fragment_alloc_def)
    then show ?thesis using True False w(3,5) by (intro exI [of _ False]) (simp add: chan_ok_def chan_of_def)
  qed
next
  case False
  then show ?thesis using assms(2) by (cases "dbuf_state r p") (auto simp: fragment_alloc_def chan_of_def)
qed

lemma fragment_fill:
  assumes "chan_ok r p" "dbuf_state r p \<noteq> DBUF_NULL" "length d \<le> SIZE_MAX - Z_FRAG_MAX_SIZE"
  shows "\<exists>p'. fragment_fill H r d p h = Some (p', h) \<and> chan_ok r p' \<and> elsewhere r p p' \<and> rx_sn r p' = rx_sn r p \<and>
    chan_of r p' = filled d (chan_of r p) \<and> dbuf_state r p' \<noteq> DBUF_NULL"
proof (cases "dbuf_state r p = DBUF_INIT")
  case True
  have b: "tx_buf Z_FRAG_MAX_SIZE (dbuf r p)" using assms(1,2) by (simp add: chan_ok_def)
  have n: "z_wbuf_len (dbuf r p) = Some (length (wb_data (dbuf r p)))" using tx_len [OF b frag_max] .
  have "length (wb_data (dbuf r p)) \<le> Z_FRAG_MAX_SIZE" using tx_buf_slice(10,11) [OF b] by simp
  then have a: "size_add (length (wb_data (dbuf r p))) (length d) = length (wb_data (dbuf r p)) + length d"
    using assms(3) frag_max by (intro size_add_small) linarith
  show ?thesis
  proof (cases "Z_FRAG_MAX_SIZE < length (wb_data (dbuf r p)) + length d")
    case o: True
    then show ?thesis using True b n a by (simp add: fragment_fill_def chan_ok_def chan_of_def)
  next
    case False
    then obtain w where "z_wbuf_write_bytes H (dbuf r p) d 0 (length d) h = Some (Z_OK, w, h)" "tx_buf Z_FRAG_MAX_SIZE w"
      "wb_data w = wb_data (dbuf r p) @ d"
      using tx_write [OF b, of d H h] by auto
    then show ?thesis using True False n a by (simp add: fragment_fill_def chan_ok_def chan_of_def)
  qed
next
  case False
  then have "dbuf_state r p = DBUF_OVERFLOW" using assms(2) by (cases "dbuf_state r p") auto
  then show ?thesis using assms(1) by (simp add: fragment_fill_def chan_of_def)
qed

text \<open>What the network layer makes of a byte string: the first message and the rest.\<close>

definition decodes :: "('m, 's) z_rx_env \<Rightarrow> (bytes \<Rightarrow> ('m \<times> bytes) option) \<Rightarrow> bool" where
  "decodes E parse \<longleftrightarrow>
     (\<forall>s zbf. zb_ok zbf \<longrightarrow>
        (case parse (zb_data zbf) of
           None \<Rightarrow> \<exists>e zbf'. rx_decode E s zbf = Some (Inl e, zbf') \<and> e \<noteq> Z_OK
         | Some (m, rest) \<Rightarrow> \<exists>zbf'. rx_decode E s zbf = Some (Inr m, zbf') \<and> zb_ok zbf' \<and> zb_data zbf' = rest \<and>
             length rest < length (zb_data zbf)))"

text \<open>The result of a message that was put together.\<close>

definition delivered :: "('m, 's) z_rx_env \<Rightarrow> (bytes \<Rightarrow> ('m \<times> bytes) option) \<Rightarrow> z_reliability \<Rightarrow> bytes option \<Rightarrow> 's \<Rightarrow> z_res \<times> 's" where
  "delivered E parse r x s =
     (case x of
        None \<Rightarrow> (Z_OK, s)
      | Some d \<Rightarrow>
          (case parse d of
             None \<Rightarrow> (Z_ERR_MESSAGE_DESERIALIZATION_FAILED, s)
           | Some (m, _) \<Rightarrow> (Z_OK, snd (rx_handle E m r s))))"

text \<open>
  The same for any decoder that is defined: \<open>ret\<close> and \<open>s'\<close> are what comes of one buffer with these bytes.
\<close>

definition tame :: "('m, 's) z_rx_env \<Rightarrow> bool" where
  "tame E \<longleftrightarrow>
     (\<forall>s zbf. zb_ok zbf \<longrightarrow>
        (\<exists>x zbf'. rx_decode E s zbf = Some (x, zbf') \<and>
           (case x of
              Inl e \<Rightarrow> e \<noteq> Z_OK \<or> zb_ok zbf' \<and> length (zb_data zbf') \<le> length (zb_data zbf)
            | Inr m \<Rightarrow> zb_ok zbf' \<and> length (zb_data zbf') < length (zb_data zbf))))"

definition handed :: "('m, 's) z_rx_env \<Rightarrow> z_reliability \<Rightarrow> bytes option \<Rightarrow> 's \<Rightarrow> z_res \<Rightarrow> 's \<Rightarrow> bool" where
  "handed E r x s ret s' \<longleftrightarrow>
     (case x of
        None \<Rightarrow> (ret, s') = (Z_OK, s)
      | Some d \<Rightarrow> \<exists>zbf y zbf'. zb_ok zbf \<and> zb_data zbf = d \<and> rx_decode E s zbf = Some (y, zbf') \<and>
          (ret, s') = (case y of Inl _ \<Rightarrow> (Z_ERR_MESSAGE_DESERIALIZATION_FAILED, s) | Inr m \<Rightarrow> (Z_OK, snd (rx_handle E m r s))))"

lemma tameD:
  assumes "tame E" "zb_ok zbf"
  obtains (err) e zbf' where "rx_decode E s zbf = Some (Inl e, zbf')" "e = Z_OK \<Longrightarrow> zb_ok zbf' \<and> length (zb_data zbf') \<le> length (zb_data zbf)"
  | (msg) m zbf' where "rx_decode E s zbf = Some (Inr m, zbf')" "zb_ok zbf'" "length (zb_data zbf') < length (zb_data zbf)"
proof -
  obtain x zbf' where x: "rx_decode E s zbf = Some (x, zbf')"
    "case x of Inl e \<Rightarrow> e \<noteq> Z_OK \<or> zb_ok zbf' \<and> length (zb_data zbf') \<le> length (zb_data zbf)
       | Inr m \<Rightarrow> zb_ok zbf' \<and> length (zb_data zbf') < length (zb_data zbf)" using assms unfolding tame_def by blast
  show thesis
  proof (cases x)
    case (Inl e)
    then show ?thesis using x err [of e zbf'] by auto
  next
    case (Inr m)
    then show ?thesis using x msg [of m zbf'] by auto
  qed
qed

lemma decodesD:
  assumes "decodes E parse" "zb_ok zbf"
  shows "parse (zb_data zbf) = None \<Longrightarrow> \<exists>e zbf'. rx_decode E s zbf = Some (Inl e, zbf') \<and> e \<noteq> Z_OK"
    "parse (zb_data zbf) = Some (m, rest) \<Longrightarrow> \<exists>zbf'. rx_decode E s zbf = Some (Inr m, zbf') \<and> zb_ok zbf' \<and> zb_data zbf' = rest \<and>
      length rest < length (zb_data zbf)"
  using assms by (force simp: decodes_def)+

lemma decodes_tame:
  assumes "decodes E parse"
  shows "tame E"
  unfolding tame_def
proof (intro allI impI)
  fix s zbf
  assume z: "zb_ok zbf"
  show "\<exists>x zbf'. rx_decode E s zbf = Some (x, zbf') \<and>
      (case x of Inl e \<Rightarrow> e \<noteq> Z_OK \<or> zb_ok zbf' \<and> length (zb_data zbf') \<le> length (zb_data zbf)
       | Inr m \<Rightarrow> zb_ok zbf' \<and> length (zb_data zbf') < length (zb_data zbf))"
  proof (cases "parse (zb_data zbf)")
    case None
    then show ?thesis using decodesD(1) [OF assms z, of s] by auto
  next
    case (Some a)
    obtain m rest where "a = (m, rest)" by fastforce
    then show ?thesis using decodesD(2) [OF assms z, of m rest s] Some by auto
  qed
qed

lemma handed_delivered:
  assumes "decodes E parse" "handed E r x s ret s'"
  shows "(ret, s') = delivered E parse r x s"
proof (cases x)
  case None
  then show ?thesis using assms(2) by (simp add: handed_def delivered_def)
next
  case (Some d)
  then obtain zbf y zbf' where z: "zb_ok zbf" "zb_data zbf = d" "rx_decode E s zbf = Some (y, zbf')"
    "(ret, s') = (case y of Inl _ \<Rightarrow> (Z_ERR_MESSAGE_DESERIALIZATION_FAILED, s) | Inr m \<Rightarrow> (Z_OK, snd (rx_handle E m r s)))"
    using assms(2) by (auto simp: handed_def)
  show ?thesis
  proof (cases "parse d")
    case None
    then show ?thesis using decodesD(1) [OF assms(1) z(1), of s] z Some by (auto simp: delivered_def)
  next
    case p: (Some a)
    obtain m rest where a: "a = (m, rest)" by fastforce
    then have "rx_decode E s zbf = Some (Inr m, zbf')" using decodesD(2) [OF assms(1) z(1), of m rest s] z(2,3) p by auto
    then have "y = Inr m" using z(3) by simp
    then show ?thesis using z(4) Some p a by (simp add: delivered_def)
  qed
qed

lemma fragment_final:
  assumes "tame E" "chan_ok r p" "dbuf_state r p \<noteq> DBUF_NULL"
  shows "\<exists>ret p' s' h'. fragment_final E H r p s h = Some (ret, p', s', h') \<and> handed E r (finished (chan_of r p)) s ret s' \<and>
    chan_ok r p' \<and> elsewhere r p p' \<and> rx_sn r p' = rx_sn r p \<and> chan_of r p' = Idle"
proof (cases "dbuf_state r p = DBUF_OVERFLOW")
  case True
  then show ?thesis using chan_clear [OF assms(2)] by (simp add: fragment_final_def handed_def chan_of_def [of r p])
next
  case False
  then have st: "dbuf_state r p = DBUF_INIT" using assms(3) by (cases "dbuf_state r p") auto
  then have b: "tx_buf Z_FRAG_MAX_SIZE (dbuf r p)" "chan_of r p = Collecting (wb_data (dbuf r p))"
    using assms(2) by (simp_all add: chan_ok_def chan_of_def)
  obtain zbf h' where m: "z_wbuf_moved_as_zbuf H (dbuf r p) h = Some (zbf, z_wbuf_null, h')" "zb_ok zbf"
    "zb_data zbf = wb_data (dbuf r p)" "z_zbuf_capacity zbf \<noteq> 0"
    using tx_moved [OF b(1), of H h] by auto
  have q: "chan_ok r (set_state r DBUF_NULL (set_dbuf r z_wbuf_null p))" "chan_of r (set_state r DBUF_NULL (set_dbuf r z_wbuf_null p)) = Idle"
    by (simp_all add: chan_ok_def chan_of_def)
  show ?thesis
  proof (rule tameD [OF assms(1) m(2), of s])
    fix e zbf'
    assume d: "rx_decode E s zbf = Some (Inl e, zbf')"
    have "handed E r (Some (wb_data (dbuf r p))) s Z_ERR_MESSAGE_DESERIALIZATION_FAILED s"
      using m(2,3) d by (fastforce simp: handed_def)
    then show ?thesis using d False b(2) m(1,4) q by (simp add: fragment_final_def)
  next
    fix msg zbf'
    assume d: "rx_decode E s zbf = Some (Inr msg, zbf')"
    have "handed E r (Some (wb_data (dbuf r p))) s Z_OK (snd (rx_handle E msg r s))"
      using m(2,3) d by (fastforce simp: handed_def)
    then show ?thesis using d False b(2) m(1,4) q by (simp add: fragment_final_def)
  qed
qed

text \<open>The channel of a fragment, and what the automaton makes of it.\<close>

definition frag_rel :: "u8 \<Rightarrow> z_reliability" where
  "frag_rel header = (if HAS_FLAG header FLAG_T_FRAGMENT_R then RELIABLE else BEST_EFFORT)"

definition frag_step :: "u32 \<Rightarrow> u8 \<Rightarrow> z_t_msg_fragment \<Rightarrow> z_peer \<Rightarrow> frag_chan \<times> bytes option" where
  "frag_step res header m p =
     (let r = frag_rel header
      in reassemble (1 \<le> pr_patch p) (z_sn_precedes res (rx_sn r p) (frag_sn m)) (z_sn_consecutive res (rx_sn r p) (frag_sn m))
           (HAS_FLAG header FLAG_T_FRAGMENT_M) m (chan_of r p))"

lemma handle_fragment_any:
  fixes res :: u32
  assumes "heap_ok H" "tame E" "length (frag_payload m) \<le> SIZE_MAX - Z_FRAG_MAX_SIZE" "chan_ok (frag_rel header) p"
  defines "r \<equiv> frag_rel header" and "step \<equiv> frag_step res header m p"
  shows "\<exists>ret p' s' h'. z_unicast_handle_fragment E H res header m p s h = Some (ret, p', s', h') \<and> chan_ok r p' \<and> elsewhere r p p' \<and>
    rx_sn r p' = (if z_sn_precedes res (rx_sn r p) (frag_sn m) then frag_sn m else rx_sn r p) \<and>
    (handed E r (snd step) s ret s' \<and> chan_of r p' = fst step \<or>
     \<not> heap_full H \<and> (ret, s') = (Z_ERR_SYSTEM_OUT_OF_MEMORY, s) \<and> chan_of r p = Idle \<and> chan_of r p' = Idle)"
proof -
  let ?fresh = "z_sn_precedes res (rx_sn r p) (frag_sn m)" and ?next = "z_sn_consecutive res (rx_sn r p) (frag_sn m)"
  let ?marks = "1 \<le> pr_patch p" and ?c = "chan_of r p" and ?p1 = "set_rx_sn r (frag_sn m) p"
  have ok: "chan_ok r p" using assms(4) by (simp add: r_def)
  have ok1: "chan_ok r ?p1" "chan_of r ?p1 = ?c" "pr_patch ?p1 = pr_patch p" using ok by simp_all
  have r: "(if HAS_FLAG header FLAG_T_FRAGMENT_R then RELIABLE else BEST_EFFORT) = r" by (simp add: r_def frag_rel_def)
  have step: "step = reassemble ?marks ?fresh ?next (HAS_FLAG header FLAG_T_FRAGMENT_M) m ?c"
    unfolding step_def frag_step_def r_def Let_def ..
  consider "\<not> ?fresh" | "?fresh" "\<not> ?next" "chan_bytes ?c \<noteq> []" | "?fresh" "?next \<or> chan_bytes ?c = []" by blast
  then show ?thesis
  proof cases
    case 1
    then have "step = (Idle, None)" by (simp add: step reassemble_def)
    then show ?thesis using 1 chan_clear [OF ok]
      by (simp add: z_unicast_handle_fragment_def z_unicast_handle_fragment_inner_def r Let_def handed_def)
  next
    case 2
    then have "step = (Idle, None)" by (simp add: step reassemble_def)
    then show ?thesis using 2 chan_clear [OF ok1(1)] chan_len [OF ok1(1)] ok1(2)
      by (simp add: z_unicast_handle_fragment_def z_unicast_handle_fragment_inner_def r Let_def handed_def)
  next
    case 3
    obtain go p2 where 2: "fragment_markers r m ?p1 = Some (go, p2)" "chan_ok r p2" "elsewhere r ?p1 p2" "rx_sn r p2 = frag_sn m"
      "go = (\<not> ?marks \<or> (frag_first m \<or> chan_bytes ?c \<noteq> []) \<and> \<not> frag_drop m)"
      "chan_of r p2 = (if ?marks \<and> (frag_first m \<or> chan_bytes ?c \<noteq> [] \<and> frag_drop m) then emptied ?c else ?c)"
      using fragment_markers [OF ok1(1), of m, unfolded ok1(2,3)] by auto
    have e2: "elsewhere r p p2" using elsewhere_trans [OF _ 2(3)] by simp
    have start: "z_unicast_handle_fragment E H res header m p s h =
       (if \<not> go then Some (Z_OK, p2, s, h)
        else do {
          (ok, p3, h) \<leftarrow> fragment_alloc H r p2 h;
          if \<not> ok then Some (Z_ERR_SYSTEM_OUT_OF_MEMORY, p3, s, h)
          else do {
            (p4, h) \<leftarrow> fragment_fill H r (frag_payload m) p3 h;
            if HAS_FLAG header FLAG_T_FRAGMENT_M then Some (Z_OK, p4, s, h) else fragment_final E H r p4 s h } })"
      using 3(2)
    proof
      assume "?next"
      then show ?thesis using 3(1) 2(1) chan_len [OF ok1(1)]
        by (simp add: z_unicast_handle_fragment_def z_unicast_handle_fragment_inner_def r Let_def)
    next
      assume "chan_bytes ?c = []"
      then show ?thesis using 3(1) 2(1) chan_len [OF ok1(1)] ok1(2)
        by (simp add: z_unicast_handle_fragment_def z_unicast_handle_fragment_inner_def r Let_def)
    qed
    show ?thesis
    proof (cases go)
      case False
      then have "step = (chan_of r p2, None)" using 3 2(5,6) by (auto simp: step reassemble_def)
      then show ?thesis using False 3(1) 2(2,4) e2 by (simp add: start handed_def)
    next
      case True
      obtain b p3 h3 where 3: "fragment_alloc H r p2 h = Some (b, p3, h3)" "chan_ok r p3" "elsewhere r p2 p3" "rx_sn r p3 = frag_sn m"
        "if b then chan_of r p3 = started (chan_of r p2) \<and> dbuf_state r p3 \<noteq> DBUF_NULL
         else chan_of r p2 = Idle \<and> chan_of r p3 = Idle \<and> \<not> heap_full H"
        using fragment_alloc [OF assms(1) 2(2), of h] 2(4) by auto
      have e3: "elsewhere r p p3" using elsewhere_trans [OF e2 3(3)] .
      show ?thesis
      proof (cases b)
        case False
        then have "chan_of r p = Idle" using 3(5) 2(6) by (cases ?c) (auto split: if_splits)
        then show ?thesis using False True \<open>?fresh\<close> 3 e3 by (simp add: start)
      next
        case b: True
        let ?c3 = "started (chan_of r p2)"
        have c3: "chan_of r p3 = ?c3" "dbuf_state r p3 \<noteq> DBUF_NULL" using 3(5) b by simp_all
        obtain p4 where 4: "fragment_fill H r (frag_payload m) p3 h3 = Some (p4, h3)" "chan_ok r p4" "elsewhere r p3 p4" "rx_sn r p4 = frag_sn m"
          "chan_of r p4 = filled (frag_payload m) ?c3" "dbuf_state r p4 \<noteq> DBUF_NULL"
          using fragment_fill [OF 3(2) c3(2) assms(3), of H h3] 3(4) c3(1) by auto
        have e4: "elsewhere r p p4" using elsewhere_trans [OF e3 4(3)] .
        have st: "step = (if HAS_FLAG header FLAG_T_FRAGMENT_M then (chan_of r p4, None) else (Idle, finished (chan_of r p4)))"
          using True \<open>?fresh\<close> \<open>?next \<or> _\<close> 2(5,6) unfolding 4(5) step reassemble_def by (auto simp: Let_def)
        show ?thesis
        proof (cases "HAS_FLAG header FLAG_T_FRAGMENT_M")
          case m: True
          then show ?thesis using True b \<open>?fresh\<close> 3(1) 4(1,2,4) e4 by (simp add: start st handed_def)
        next
          case False
          obtain ret p5 s5 h5 where "fragment_final E H r p4 s h3 = Some (ret, p5, s5, h5)" "handed E r (finished (chan_of r p4)) s ret s5"
            "chan_ok r p5" "elsewhere r p4 p5" "rx_sn r p5 = frag_sn m" "chan_of r p5 = Idle"
            using fragment_final [OF assms(2) 4(2,6), of H s h3] 4(4) by auto
          then show ?thesis using True b False \<open>?fresh\<close> 3(1) 4(1) elsewhere_trans [OF e4] by (simp add: start st)
        qed
      qed
    qed
  qed
qed

lemma handle_fragment:
  fixes res :: u32
  assumes H: "heap_ok H" and E: "decodes E parse" and l: "length (frag_payload m) \<le> SIZE_MAX - Z_FRAG_MAX_SIZE" and p: "chan_ok (frag_rel header) p"
  defines "r \<equiv> frag_rel header" and "step \<equiv> frag_step res header m p"
  shows "\<exists>ret p' s' h'. z_unicast_handle_fragment E H res header m p s h = Some (ret, p', s', h') \<and> chan_ok r p' \<and> elsewhere r p p' \<and>
    rx_sn r p' = (if z_sn_precedes res (rx_sn r p) (frag_sn m) then frag_sn m else rx_sn r p) \<and>
    ((ret, s') = delivered E parse r (snd step) s \<and> chan_of r p' = fst step \<or>
     \<not> heap_full H \<and> (ret, s') = (Z_ERR_SYSTEM_OUT_OF_MEMORY, s) \<and> chan_of r p = Idle \<and> chan_of r p' = Idle)"
  using handle_fragment_any [OF H decodes_tame [OF E] l p, of res s h] handed_delivered [OF E] unfolding r_def step_def by blast

section \<open>Frames\<close>

lemma frame_total:
  assumes "tame E"
  shows "zb_ok zbf \<Longrightarrow> \<exists>ret zbf' s'. frame_messages E r zbf s = Some (ret, zbf', s') \<and>
    (ret = Z_OK \<longrightarrow> zb_ok zbf' \<and> length (zb_data zbf') \<le> length (zb_data zbf))"
proof (induction "length (zb_data zbf)" arbitrary: zbf s rule: less_induct)
  case less
  note z = less.prems
  show ?case
  proof (cases "zb_data zbf = []")
    case True
    then show ?thesis using z by (simp add: frame_messages.simps)
  next
    case ne: False
    show ?thesis
    proof (rule tameD [OF assms z, of s])
      fix e zbf'
      assume "rx_decode E s zbf = Some (Inl e, zbf')" "e = Z_OK \<Longrightarrow> zb_ok zbf' \<and> length (zb_data zbf') \<le> length (zb_data zbf)"
      then show ?thesis using ne z by (simp add: frame_messages.simps [of _ _ zbf])
    next
      fix m zbf'
      assume 1: "rx_decode E s zbf = Some (Inr m, zbf')" "zb_ok zbf'" "length (zb_data zbf') < length (zb_data zbf)"
      obtain ret s1 where h: "rx_handle E m r s = (ret, s1)" by fastforce
      obtain ret2 z2 s2 where 2: "frame_messages E r zbf' s1 = Some (ret2, z2, s2)"
        "ret2 = Z_OK \<longrightarrow> zb_ok z2 \<and> length (zb_data z2) \<le> length (zb_data zbf')" using less.hyps [OF 1(3,2)] by blast
      show ?thesis using 2 1 h ne z by (cases "ret = Z_OK") (auto simp: frame_messages.simps [of _ _ zbf])
    qed
  qed
qed

lemma chan_set_cleared: "peer_ok p \<Longrightarrow> peer_ok (cleared r p)"
  using elsewhere_fields(4) [of r p "cleared r p" "if r = RELIABLE then BEST_EFFORT else RELIABLE"]
  by (cases r) (simp_all add: peer_ok_def)

lemma peer_ok_elsewhere: "peer_ok p \<Longrightarrow> elsewhere r p q \<Longrightarrow> chan_ok r q \<Longrightarrow> peer_ok q"
  using elsewhere_fields(4) [of r p q "if r = RELIABLE then BEST_EFFORT else RELIABLE"]
  by (cases r) (simp_all add: peer_ok_def)

lemma peer_ok_chan: "peer_ok p \<Longrightarrow> chan_ok r p"
  by (cases r) (simp_all add: peer_ok_def)

text \<open>What of a peer the handling of messages leaves alone.\<close>

definition same_flow :: "z_peer \<Rightarrow> z_peer \<Rightarrow> bool" where
  "same_flow p q \<longleftrightarrow> pr_flow_state q = pr_flow_state p \<and> pr_flow_buff q = pr_flow_buff p \<and> pr_received q = pr_received p"

lemma same_flow_elsewhere: "elsewhere r p q \<Longrightarrow> same_flow p q"
  by (simp add: same_flow_def elsewhere_fields)

lemma handle_frame:
  assumes "tame E" "zb_ok zbf" "peer_ok p"
  shows "\<exists>ret zbf' p' s'. z_unicast_handle_frame E res header m zbf p s = Some (ret, zbf', p', s') \<and> peer_ok p' \<and> same_flow p p' \<and>
    (ret = Z_OK \<longrightarrow> zb_ok zbf' \<and> length (zb_data zbf') \<le> length (zb_data zbf))"
proof -
  let ?r = "if HAS_FLAG header FLAG_T_FRAME_R then RELIABLE else BEST_EFFORT"
  obtain ret zbf' s' where f: "frame_messages E ?r zbf s = Some (ret, zbf', s')" "ret = Z_OK \<longrightarrow> zb_ok zbf' \<and> length (zb_data zbf') \<le> length (zb_data zbf)"
    using frame_total [OF assms(1,2)] by blast
  have z: "zb_ok (z_zbuf_reset zbf)" "zb_data (z_zbuf_reset zbf) = []"
    using assms(2) by (simp_all add: z_zbuf_reset_def zb_ok_def ios_ok_def z_iosli_reset_def zb_data_def ios_data_def slice_def)
  have p1: "peer_ok (set_rx_sn ?r (frame_sn m) p)" "same_flow p (set_rx_sn ?r (frame_sn m) p)"
    using assms(3) by (simp_all add: peer_ok_def same_flow_def)
  have p2: "peer_ok (cleared ?r p)" "same_flow p (cleared ?r p)" "clear_dbuf ?r p = Some (cleared ?r p)"
    using chan_set_cleared [OF assms(3)] same_flow_elsewhere [of ?r p "cleared ?r p"] chan_clear [OF peer_ok_chan [OF assms(3)]] by simp_all
  show ?thesis
    using f z p1 p2 by (simp add: z_unicast_handle_frame_def Let_def)
qed

section \<open>Any message\<close>

lemma handle_message:
  assumes H: "heap_ok H" and E: "tame E" and z: "zb_ok zbf" and p: "peer_ok p" and t: "tm_typed msg"
    and l: "\<And>m. tm_body msg = T_fragment m \<Longrightarrow> length (frag_payload m) \<le> SIZE_MAX - Z_FRAG_MAX_SIZE"
  shows "\<exists>ret zbf' p' s' h'. z_unicast_handle_transport_message E H res msg zbf p s h = Some (ret, zbf', p', s', h') \<and> peer_ok p' \<and>
    same_flow p p' \<and> (ret = Z_OK \<longrightarrow> zb_ok zbf' \<and> length (zb_data zbf') \<le> length (zb_data zbf))"
proof (cases "tm_body msg")
  case (T_frame m)
  then have "Z_MID (tm_header msg) = MID_T_FRAME" using t by (simp add: tm_typed_def Let_def)
  then show ?thesis
    using handle_frame [OF E z p, where res = res and header = "tm_header msg" and m = m and s = s] T_frame by (auto simp: z_unicast_handle_transport_message_def Let_def)
next
  case (T_fragment m)
  then have mid: "Z_MID (tm_header msg) = MID_T_FRAGMENT" using t by (simp add: tm_typed_def Let_def)
  obtain ret p' s' h' where "z_unicast_handle_fragment E H res (tm_header msg) m p s h = Some (ret, p', s', h')"
    "chan_ok (frag_rel (tm_header msg)) p'" "elsewhere (frag_rel (tm_header msg)) p p'"
    using handle_fragment_any [OF H E l [OF T_fragment] peer_ok_chan [OF p], where header = "tm_header msg" and res = res and s = s and h = h] by blast
  then show ?thesis
    using mid T_fragment z peer_ok_elsewhere [OF p] same_flow_elsewhere by (simp add: z_unicast_handle_transport_message_def Let_def)
qed (use t p z in \<open>auto simp: tm_typed_def Let_def z_unicast_handle_transport_message_def same_flow_def\<close>)

lemma process_total:
  assumes H: "heap_ok H" and E: "tame E"
  shows "zb_ok zbf \<Longrightarrow> peer_ok p \<Longrightarrow> length (zb_data zbf) \<le> SIZE_MAX - Z_FRAG_MAX_SIZE \<Longrightarrow>
    \<exists>ret p' s' h'. process_loop E H swap res zbf p s h = Some (ret, p', s', h') \<and> peer_ok p' \<and> same_flow p p'"
proof (induction "length (zb_data zbf)" arbitrary: zbf p s h rule: less_induct)
  case less
  show ?case
  proof (cases "zb_data zbf = []")
    case True
    then show ?thesis using less.prems by (simp add: process_loop.simps same_flow_def)
  next
    case ne: False
    obtain x z1 where 1: "z_transport_message_decode swap zbf = Some (x, z1)" "zb_ok z1"
      "\<forall>msg. x = Inr msg \<longrightarrow> tm_typed msg \<and> length (zb_data z1) < length (zb_data zbf) \<and>
        (\<forall>m. tm_body msg = T_fragment m \<longrightarrow> length (frag_payload m) \<le> length (zb_data zbf))"
      using decode_shrinks [OF less.prems(1) ne] by blast
    have n: "0 < z_zbuf_len zbf" using ne less.prems(1) by simp
    show ?thesis
    proof (cases x)
      case (Inl e)
      then show ?thesis using n 1(1) less.prems(2) by (simp add: process_loop.simps [of _ _ _ _ zbf] same_flow_def)
    next
      case (Inr msg)
      have l: "tm_body msg = T_fragment m \<Longrightarrow> length (frag_payload m) \<le> SIZE_MAX - Z_FRAG_MAX_SIZE" for m
        using 1(3) Inr less.prems(3) order_trans by blast
      obtain ret z2 p2 s2 h2 where 2: "z_unicast_handle_transport_message E H res msg z1 p s h = Some (ret, z2, p2, s2, h2)" "peer_ok p2"
        "same_flow p p2" "ret = Z_OK \<longrightarrow> zb_ok z2 \<and> length (zb_data z2) \<le> length (zb_data z1)"
        using handle_message [OF H E 1(2) less.prems(2) _ l, where res = res and s = s and h = h] 1(3) Inr by blast
      show ?thesis
      proof (cases "ret = Z_OK")
        case True
        then have lt: "length (zb_data z2) < length (zb_data zbf)" "zb_ok z2" using 2(4) 1(3) Inr by auto
        then have "length (zb_data z2) \<le> SIZE_MAX - Z_FRAG_MAX_SIZE" using less.prems(3) by linarith
        from less.hyps [OF lt(1,2) 2(2) this, of s2 h2] show ?thesis
          using n 1(1) Inr 2(1,3) True by (auto simp: process_loop.simps [of _ _ _ _ zbf] same_flow_def)
      next
        case False
        then show ?thesis using n 1(1) Inr 2(1,2,3) by (simp add: process_loop.simps [of _ _ _ _ zbf])
      qed
    qed
  qed
qed

end
