(* ===== verification/ZStream.thy ===== *)
theory ZStream
  imports ZRxProps
begin

text \<open>
  The client reads a stream. However the network cuts it, the turns of the read task take the messages out one by one,
  whole and in order.
\<close>

section \<open>The network\<close>

text \<open>A connection that is open: it hands out what is there next, at least a byte when there is room for one.\<close>

definition honest :: "bytes reader \<Rightarrow> bool" where
  "honest read \<longleftrightarrow>
     (\<forall>n l. \<exists>k. k \<le> n \<and> k \<le> length l \<and> read n l = (Some (take k l), drop k l) \<and> (0 < n \<and> l \<noteq> [] \<longrightarrow> 0 < k))"

definition rx_buf :: "nat \<Rightarrow> z_zbuf \<Rightarrow> bool" where
  "rx_buf cap zbf \<longleftrightarrow> zb_ok zbf \<and> ios_capacity (zb_ios zbf) = cap"

definition zb_space :: "z_zbuf \<Rightarrow> nat" where
  "zb_space zbf = ios_space (zb_ios zbf)"

definition zb_from :: "nat \<Rightarrow> z_zbuf \<Rightarrow> bytes" where
  "zb_from r zbf = slice (ios_buf (zb_ios zbf)) r (ios_w_pos (zb_ios zbf) - r)"

lemma zb_from_data: "zb_from (ios_r_pos (zb_ios zbf)) zbf = zb_data zbf"
  by (simp add: zb_from_def zb_data_def ios_data_def)

lemma recv:
  assumes "honest read" "rx_buf cap zbf"
  shows "\<exists>k zbf'. z_link_recv_zbuf read zbf l = Some (Some k, zbf', drop k l) \<and> k \<le> length l \<and> rx_buf cap zbf' \<and>
    ios_r_pos (zb_ios zbf') = ios_r_pos (zb_ios zbf) \<and> zb_space zbf' = zb_space zbf - k \<and>
    (\<forall>r \<le> ios_r_pos (zb_ios zbf). zb_from r zbf' = zb_from r zbf @ take k l) \<and> (0 < zb_space zbf \<and> l \<noteq> [] \<longrightarrow> 0 < k)"
proof -
  let ?ios = "zb_ios zbf"
  have ok: "ios_ok ?ios" "ios_capacity ?ios = cap" using assms(2) by (simp_all add: rx_buf_def zb_ok_def)
  have s: "z_zbuf_space_left zbf = zb_space zbf" "zb_space zbf = cap - ios_w_pos ?ios"
    using ok by (simp_all add: z_zbuf_space_left_def zb_space_def ios_space_def)
  obtain k where k: "k \<le> zb_space zbf" "k \<le> length l" "read (zb_space zbf) l = (Some (take k l), drop k l)"
    "0 < zb_space zbf \<and> l \<noteq> [] \<longrightarrow> 0 < k"
    using assms(1) unfolding honest_def by blast
  let ?buf = "memcpy_at (ios_buf ?ios) (ios_w_pos ?ios) (take k l)"
  let ?z = "zbf\<lparr>zb_ios := ?ios\<lparr>ios_buf := ?buf, ios_w_pos := ios_w_pos ?ios + k\<rparr>\<rparr>"
  have w: "ios_w_pos ?ios + k \<le> cap" "cap \<le> length (ios_buf ?ios)" "ios_w_pos ?ios \<le> cap"
    using ok k(1) s(2) by (auto simp: ios_ok_def)
  have t: "take_in zbf (take k l) = Some ?z"
    using w ok(2) k(2) by (simp add: take_in_def z_zbuf_get_wpos_def z_zbuf_set_wpos_def min_absorb2)
  have "zb_from r ?z = zb_from r zbf @ take k l" if "r \<le> ios_r_pos ?ios" for r
    using slice_memcpy_append [of r "ios_w_pos ?ios" "take k l" "ios_buf ?ios"] that ok(1) w k(2)
    by (simp add: zb_from_def ios_ok_def min_absorb2)
  moreover have "rx_buf cap ?z" using ok w k(2) by (simp add: rx_buf_def zb_ok_def ios_ok_def min_absorb2)
  moreover have "zb_space ?z = zb_space zbf - k" by (simp add: zb_space_def ios_space_def)
  ultimately show ?thesis using t k s(1) by (simp add: z_link_recv_zbuf_def min_absorb2)
qed

lemma top_up:
  assumes "honest read" "rx_buf cap zbf"
  shows "\<exists>zbf' l'. top_up read n zbf l = Some (zbf', l') \<and> rx_buf cap zbf' \<and> ios_r_pos (zb_ios zbf') = ios_r_pos (zb_ios zbf) \<and>
    (\<forall>r \<le> ios_r_pos (zb_ios zbf). zb_from r zbf' @ l' = zb_from r zbf @ l) \<and> length l' \<le> length l \<and>
    (length l' = length l \<longrightarrow> zb_space zbf' = zb_space zbf \<and> (length (zb_data zbf) < n \<and> l \<noteq> [] \<longrightarrow> zb_space zbf = 0))"
proof (cases "length (zb_data zbf) < n")
  case True
  obtain k zbf' where k: "z_link_recv_zbuf read zbf l = Some (Some k, zbf', drop k l)" "k \<le> length l" "rx_buf cap zbf'"
    "ios_r_pos (zb_ios zbf') = ios_r_pos (zb_ios zbf)" "zb_space zbf' = zb_space zbf - k"
    "\<forall>r \<le> ios_r_pos (zb_ios zbf). zb_from r zbf' = zb_from r zbf @ take k l" "0 < zb_space zbf \<and> l \<noteq> [] \<longrightarrow> 0 < k"
    using recv [OF assms, of l] by blast
  have "top_up read n zbf l = Some (zbf', drop k l)" using True k(1) assms(2) by (simp add: top_up_def rx_buf_def)
  then show ?thesis using k True by auto
next
  case False
  then show ?thesis using assms(2) by (simp add: top_up_def rx_buf_def)
qed

text \<open>The bytes in the buffer and on the way are the same, and there is less to wait for.\<close>

definition waiting :: "z_zbuf \<Rightarrow> bytes \<Rightarrow> nat" where
  "waiting zbf l = 2 * length l + (if zb_space zbf = 0 then 1 else 0)"

lemma compact:
  assumes "rx_buf cap zbf" "length (zb_data zbf) < cap"
  shows "\<exists>zbf'. z_zbuf_compact zbf = Some zbf' \<and> rx_buf cap zbf' \<and> zb_data zbf' = zb_data zbf \<and> 0 < zb_space zbf'"
proof -
  obtain z where z: "z_zbuf_compact zbf = Some z" "zb_ok z" "zb_data z = zb_data zbf" "ios_r_pos (zb_ios z) = 0"
    "ios_capacity (zb_ios z) = cap"
    using zb_compact [of zbf] assms(1) by (auto simp: rx_buf_def)
  have "ios_w_pos (zb_ios z) = length (zb_data z)" using ios_r_le [of "zb_ios z"] z(2,4) by (simp add: zb_ok_def zb_data_def)
  then show ?thesis using z assms(2) by (simp add: rx_buf_def zb_space_def ios_space_def)
qed

lemma size_same:
  assumes "zb_ok zbf" "zb_data zbf = stream_size n @ d" "n < 65536"
  shows "\<exists>zbf'. z_read_stream_size zbf = Some (n, zbf') \<and> zb_ok zbf' \<and> zb_data zbf' = d \<and> zb_same zbf' zbf \<and>
    ios_r_pos (zb_ios zbf') = ios_r_pos (zb_ios zbf) + 2"
proof -
  let ?b0 = "ucast (of_nat n :: u32) :: u8" and ?b1 = "ucast (drop_bit 8 (of_nat n :: u32)) :: u8"
  obtain z1 where 1: "z_zbuf_read zbf = Some (?b0, z1)" "zb_ok z1" "zb_data z1 = ?b1 # d" "zb_same z1 zbf"
    using zb_read_same [OF assms(1), of ?b0 "?b1 # d"] assms(2) by (auto simp: stream_size_def)
  obtain z2 where 2: "z_zbuf_read z1 = Some (?b1, z2)" "zb_ok z2" "zb_data z2 = d" "zb_same z2 z1"
    using zb_read_same [OF 1(2,3)] by auto
  have s: "zb_same z2 zbf" using 1(4) 2(4) by (simp add: zb_same_def)
  have "ios_r_pos (zb_ios z2) + length d = ios_w_pos (zb_ios zbf)" "ios_r_pos (zb_ios zbf) + (2 + length d) = ios_w_pos (zb_ios zbf)"
    using ios_r_le [of "zb_ios z2"] ios_r_le [of "zb_ios zbf"] assms(1,2) 2(2,3) s
    by (simp_all add: zb_ok_def zb_data_def zb_same_def stream_size_def)
  then have "ios_r_pos (zb_ios z2) = ios_r_pos (zb_ios zbf) + 2" by linarith
  then show ?thesis using 1(1) 2(1-3) s stream_size_back(1) [OF assms(3)] by (simp add: z_read_stream_size_def)
qed

text \<open>
  One look at a stream that has a whole message in it, sooner or later: the message is there, or some of it has come and
  the buffer has room for more.
\<close>

lemma gather:
  assumes h: "honest read" and b: "rx_buf cap zbf" and d: "zb_data zbf @ l = stream_size (length w) @ w @ rest"
    and w: "length w + 2 \<le> cap" "length w < 65536"
  shows "(\<exists>zbf' l'. gather_stream read zbf l = Some (Some (length w), zbf', l') \<and> rx_buf cap zbf' \<and> zb_data zbf' @ l' = w @ rest \<and>
      length w \<le> length (zb_data zbf')) \<or>
    (\<exists>zbf' l'. gather_stream read zbf l = Some (None, zbf', l') \<and> rx_buf cap zbf' \<and> zb_data zbf' @ l' = zb_data zbf @ l \<and>
      waiting zbf' l' < waiting zbf l)"
proof -
  have s2: "length (stream_size n) = 2" for n by (simp add: stream_size_def)
  obtain z1 l1 where t: "top_up read 2 zbf l = Some (z1, l1)" "rx_buf cap z1" "ios_r_pos (zb_ios z1) = ios_r_pos (zb_ios zbf)"
    "\<forall>r \<le> ios_r_pos (zb_ios zbf). zb_from r z1 @ l1 = zb_from r zbf @ l"
    "length l1 \<le> length l" "length l1 = length l \<longrightarrow> zb_space z1 = zb_space zbf \<and> (length (zb_data zbf) < 2 \<and> l \<noteq> [] \<longrightarrow> zb_space zbf = 0)"
    using top_up [OF h b, of 2 l] by blast
  have "zb_data z1 @ l1 = zb_data zbf @ l" using t(3,4) by (metis order_refl zb_from_data)
  then have 1: "top_up read 2 zbf l = Some (z1, l1)" "rx_buf cap z1" "zb_data z1 @ l1 = stream_size (length w) @ w @ rest"
    "length l1 \<le> length l" "length l1 = length l \<longrightarrow> zb_space z1 = zb_space zbf \<and> (length (zb_data zbf) < 2 \<and> l \<noteq> [] \<longrightarrow> zb_space zbf = 0)"
    using t d by simp_all
  have ok1: "zb_ok z1" using 1(2) by (simp add: rx_buf_def)
  show ?thesis
  proof (cases "length (zb_data z1) < 2")
    case True
    then obtain z2 where 2: "z_zbuf_compact z1 = Some z2" "rx_buf cap z2" "zb_data z2 = zb_data z1" "0 < zb_space z2"
      using compact [OF 1(2)] w(1) by auto
    have tot: "length (zb_data z1) + length l1 = length (zb_data zbf) + length l" "2 \<le> length (zb_data zbf) + length l"
      using arg_cong [OF 1(3), of length] arg_cong [OF d, of length] s2 [of "length w"] by simp_all
    have "zb_space zbf = 0" if e: "length l1 = length l"
      using 1(5) True tot e by fastforce
    then have "waiting z2 l1 < waiting zbf l" using 1(4) 2(4) by (cases "length l1 = length l") (auto simp: waiting_def)
    then show ?thesis using 1(1,3) 2 True ok1 d by (simp add: gather_stream_def)
  next
    case False
    then have "take 2 (zb_data z1) = stream_size (length w)" "drop 2 (zb_data z1) @ l1 = w @ rest"
      using arg_cong [OF 1(3), of "take 2"] arg_cong [OF 1(3), of "drop 2"] s2 [of "length w"] by simp_all
    then obtain d1 where d1: "zb_data z1 = stream_size (length w) @ d1" "d1 @ l1 = w @ rest"
      by (metis append_take_drop_id)
    obtain z2 where 2: "z_read_stream_size z1 = Some (length w, z2)" "zb_ok z2" "zb_data z2 = d1" "zb_same z2 z1"
      "ios_r_pos (zb_ios z2) = ios_r_pos (zb_ios z1) + 2"
      using size_same [OF ok1 d1(1) w(2)] by blast
    have b2: "rx_buf cap z2" "zb_space z2 = zb_space z1" using 1(2) 2(2,4) by (simp_all add: rx_buf_def zb_same_def zb_space_def ios_space_def)
    obtain z3 l3 where 3: "top_up read (length w) z2 l1 = Some (z3, l3)" "rx_buf cap z3" "ios_r_pos (zb_ios z3) = ios_r_pos (zb_ios z2)"
      "\<forall>r \<le> ios_r_pos (zb_ios z2). zb_from r z3 @ l3 = zb_from r z2 @ l1" "length l3 \<le> length l1"
      "length l3 = length l1 \<longrightarrow> zb_space z3 = zb_space z2 \<and> (length (zb_data z2) < length w \<and> l1 \<noteq> [] \<longrightarrow> zb_space z2 = 0)"
      using top_up [OF h b2(1), of "length w" l1] by blast
    have d3: "zb_data z3 @ l3 = w @ rest" using 3(3,4) 2(3) d1(2) by (metis order_refl zb_from_data)
    have ok3: "zb_ok z3" using 3(2) by (simp add: rx_buf_def)
    have start: "gather_stream read zbf l =
       (if length (zb_data z3) < length w then do {
          zbf \<leftarrow> z_zbuf_set_rpos z3 (size_sub (z_zbuf_get_rpos z3) 2);
          zbf \<leftarrow> z_zbuf_compact zbf;
          Some (None, zbf, l3) }
        else Some (Some (length w), z3, l3))"
      using 1(1) False ok1 2(1) 3(1) ok3 by (simp add: gather_stream_def)
    show ?thesis
    proof (cases "length (zb_data z3) < length w")
      case True
      let ?r = "ios_r_pos (zb_ios z1)" and ?z4 = "z3\<lparr>zb_ios := (zb_ios z3)\<lparr>ios_r_pos := ios_r_pos (zb_ios z1)\<rparr>\<rparr>"
      have r3: "size_sub (z_zbuf_get_rpos z3) 2 = ?r" using 3(3) 2(5) by (simp add: z_zbuf_get_rpos_def)
      have le: "?r + 2 + length (zb_data z3) = ios_w_pos (zb_ios z3)"
        using ios_r_le [of "zb_ios z3"] ok3 3(3) 2(5) by (simp add: zb_ok_def zb_data_def)
      then have s4: "z_zbuf_set_rpos z3 ?r = Some ?z4" "rx_buf cap ?z4"
        using 3(2) by (simp_all add: z_zbuf_set_rpos_def rx_buf_def zb_ok_def ios_ok_def)
      have "zb_data ?z4 = zb_from ?r z3" "zb_from ?r z2 = zb_data z1"
        using 2(4) by (simp_all add: zb_data_def zb_from_def ios_data_def zb_same_def)
      then have d4: "zb_data ?z4 @ l3 = stream_size (length w) @ w @ rest" using 3(4) 2(5) 1(3) by simp
      have "length (zb_data ?z4) = 2 + length (zb_data z3)"
        using le ios_r_le [of "zb_ios ?z4"] s4(2) by (simp add: rx_buf_def zb_ok_def zb_data_def)
      then have "length (zb_data ?z4) < cap" using True w(1) by linarith
      then obtain z5 where 5: "z_zbuf_compact ?z4 = Some z5" "rx_buf cap z5" "zb_data z5 = zb_data ?z4" "0 < zb_space z5"
        using compact [OF s4(2)] by blast
      have "l1 \<noteq> []" using True d3 3(5) by fastforce
      moreover have "length (zb_data z2) < length w \<or> length l3 < length l1"
        using d3 2(3) d1(2) True 3(5) by (metis append_eq_append_conv linorder_not_less nat_less_le)
      ultimately have "length l3 = length l \<Longrightarrow> zb_space zbf = 0" using 3(5,6) 1(4,5) b2(2) by fastforce
      then have "waiting z5 l3 < waiting zbf l" using 3(5) 1(4) 5(4) by (cases "length l3 = length l") (auto simp: waiting_def)
      then show ?thesis using True r3 s4(1) 5 d4 d by (simp add: start)
    next
      case False
      then show ?thesis using 3(2) d3 by (simp add: start)
    qed
  qed
qed

section \<open>A turn of the client\<close>

lemma update_rx:
  assumes H: "heap_full H" and b: "rx_buf cap (zu_zbuf ztu)"
  shows "\<exists>ztu' h'. z_unicast_update_rx_buffer H sh ztu h = Some (Z_OK, ztu', h') \<and> rx_buf cap (zu_zbuf ztu') \<and>
    zb_data (zu_zbuf ztu') = zb_data (zu_zbuf ztu) \<and> zu_sn_res ztu' = zu_sn_res ztu \<and> zu_flow ztu' = zu_flow ztu"
proof (cases sh)
  case False
  then show ?thesis using b by (simp add: z_unicast_update_rx_buffer_def)
next
  case True
  let ?d = "zb_data (zu_zbuf ztu)"
  have ok: "zb_ok (zu_zbuf ztu)" "z_zbuf_capacity (zu_zbuf ztu) = cap" "ios_ok (zb_ios (zu_zbuf ztu))"
    using b by (simp_all add: rx_buf_def z_zbuf_capacity_def zb_ok_def)
  have l: "length ?d \<le> cap" using ios_r_le [of "zb_ios (zu_zbuf ztu)"] b by (simp add: rx_buf_def zb_ok_def zb_data_def ios_ok_def)
  obtain blk h1 where m: "mal_bytes H cap h = (Some blk, h1)"
    using H unfolding heap_full_def heap_gives_def by (metis fst_conv not_None_eq surj_pair)
  have lb: "length blk = cap" using H m malloc_ok_length [of 1 "mal_bytes H" cap h blk h1] by (simp add: heap_full_def heap_ok_def)
  obtain h2 where r: "mal_rc H h1 = (True, h2)" using H unfolding heap_full_def by (metis prod.collapse)
  define new where "new = \<lparr>zb_ios = \<lparr>ios_r_pos = 0, ios_w_pos = 0, ios_capacity = cap, ios_buf = blk, ios_is_alloc = (cap = 0)\<rparr>,
    zb_slice = (if cap = 0 then None else Some blk)\<rparr>"
  have mk: "z_zbuf_make H cap h = (new, if cap = 0 then h1 else h2)"
    using m r by (simp add: z_zbuf_make_def z_iosli_make_def z_iosli_init_def z_zbuf_null_def z_zbuf_capacity_def new_def Let_def)
  have new: "zb_ok new" "z_zbuf_capacity new = cap" "zb_data new = []" "ios_w_pos (zb_ios new) = 0" "ios_r_pos (zb_ios new) = 0"
    "length (ios_buf (zb_ios new)) = cap"
    using lb by (simp_all add: new_def zb_ok_def ios_ok_def z_zbuf_capacity_def zb_data_def ios_data_def slice_def)
  have c: "c_read (ios_buf (zb_ios (zu_zbuf ztu))) (ios_r_pos (zb_ios (zu_zbuf ztu))) (length ?d) = Some ?d"
    using ios_advance(1,4) [OF ok(3), of "length ?d"] by (simp add: zb_data_def)
  show ?thesis
  proof (cases "?d = []")
    case True
    then show ?thesis using \<open>sh\<close> mk new ok by (simp add: z_unicast_update_rx_buffer_def rx_buf_def z_zbuf_capacity_def)
  next
    case False
    let ?new = "new\<lparr>zb_ios := (zb_ios new)\<lparr>ios_buf := memcpy_at (ios_buf (zb_ios new)) 0 ?d, ios_w_pos := length ?d\<rparr>\<rparr>"
    have n: "z_iosli_readable (zb_ios (zu_zbuf ztu)) = length ?d" using ok(3) by (simp add: zb_data_def)
    have "z_zbuf_copy_bytes new (zu_zbuf ztu) = Some ?new"
      using new l c n by (simp add: z_zbuf_copy_bytes_def z_iosli_copy_bytes_def z_zbuf_capacity_def)
    moreover have "rx_buf cap ?new" using new l by (simp add: rx_buf_def zb_ok_def ios_ok_def z_zbuf_capacity_def)
    moreover have "zb_data (new\<lparr>zb_ios := (zb_ios new)\<lparr>ios_buf := memcpy_at (ios_buf (zb_ios new)) 0 d, ios_w_pos := length d\<rparr>\<rparr>) = d"
      for d using new by (simp add: zb_data_def ios_data_def slice_def memcpy_at_def)
    ultimately show ?thesis using \<open>sh\<close> mk new(2) ok False by (simp add: z_unicast_update_rx_buffer_def)
  qed
qed

text \<open>A message that is taken whole, whatever buffer it is in; what holds then of the peer and of the session.\<close>

definition handles ::
  "('m, 's) z_rx_env \<Rightarrow> 'h heap \<Rightarrow> bool \<Rightarrow> u32 \<Rightarrow> bytes \<Rightarrow> z_peer \<Rightarrow> 's \<Rightarrow> (z_peer \<Rightarrow> 's \<Rightarrow> bool) \<Rightarrow> bool" where
  "handles E H swap res w p s Q \<longleftrightarrow>
     (\<forall>zbf h. zb_ok zbf \<and> zb_data zbf = w \<longrightarrow>
        (\<exists>p' s' h'. process_loop E H swap res zbf p s h = Some (Z_OK, p', s', h') \<and> same_flow p p' \<and> Q p' s'))"

lemma process_whole:
  assumes H: "heap_full H" and b: "rx_buf cap (zu_zbuf ztu)" "cap \<le> SIZE_MAX" and d: "zb_data (zu_zbuf ztu) = w @ d"
    and f: "pr_flow_state p \<noteq> FLOW_READY" and w: "handles E H swap (zu_sn_res ztu) w (p\<lparr>pr_received := True\<rparr>) s Q"
  shows "\<exists>ztu' p' s' h'. z_unicast_process_messages E H swap ztu p (length w) s h = Some (Z_OK, ztu', p', s', h') \<and> Q p' s' \<and>
    pr_flow_state p' = pr_flow_state p \<and> rx_buf cap (zu_zbuf ztu') \<and> zb_data (zu_zbuf ztu') = d \<and> zu_sn_res ztu' = zu_sn_res ztu \<and> zu_flow ztu' = zu_flow ztu"
proof -
  let ?z = "zu_zbuf ztu" and ?p = "p\<lparr>pr_received := True\<rparr>"
  have ok: "zb_ok ?z" "ios_ok (zb_ios ?z)" using b by (simp_all add: rx_buf_def zb_ok_def)
  obtain v where v: "z_zbuf_view ?z (length w) = Some v" "zb_ok v" "zb_data v = w" using zb_view [OF ok(1), of "length w"] d by auto
  obtain p' s' h1 where 1: "process_loop E H swap (zu_sn_res ztu) v ?p s h = Some (Z_OK, p', s', h1)" "same_flow ?p p'" "Q p' s'"
    using w v(2,3) unfolding handles_def by blast
  have f': "pr_flow_state p' = pr_flow_state p" using 1(2) by (simp add: same_flow_def)
  let ?r = "ios_r_pos (zb_ios ?z) + length w"
  let ?z' = "?z\<lparr>zb_ios := (zb_ios ?z)\<lparr>ios_r_pos := ?r\<rparr>\<rparr>"
  have le: "?r \<le> ios_w_pos (zb_ios ?z)" "ios_w_pos (zb_ios ?z) \<le> SIZE_MAX"
    using ios_r_le [OF ok(2)] d b by (auto simp: zb_data_def rx_buf_def zb_ok_def ios_ok_def)
  then have s: "z_zbuf_set_rpos ?z (size_add (z_zbuf_get_rpos ?z) (length w)) = Some ?z'"
    by (simp add: z_zbuf_set_rpos_def z_zbuf_get_rpos_def)
  have z': "rx_buf cap ?z'" "zb_data ?z' = d"
    using ios_advance [OF ok(2), of "length w"] d b by (simp_all add: rx_buf_def zb_ok_def zb_data_def)
  let ?t = "ztu\<lparr>zu_zbuf := ?z'\<rparr>"
  have "rx_buf cap (zu_zbuf ?t)" using z'(1) by simp
  from update_rx [OF H this, of "rx_shared E s'" h1] obtain t' h2 where
    t: "z_unicast_update_rx_buffer H (rx_shared E s') ?t h1 = Some (Z_OK, t', h2)" "rx_buf cap (zu_zbuf t')"
      "zb_data (zu_zbuf t') = zb_data (zu_zbuf ?t)" "zu_sn_res t' = zu_sn_res ?t" "zu_flow t' = zu_flow ?t"
    by blast
  have "zb_data (zu_zbuf t') = d" using t(3) z'(2) by simp
  then show ?thesis using v(1) 1(1,3) f f' s t(1,2,4,5) by (simp add: z_unicast_process_messages_def)
qed

text \<open>Turns of the read task, one after the other.\<close>

fun client_turns ::
  "('m, 's) z_rx_env \<Rightarrow> 'h heap \<Rightarrow> bool \<Rightarrow> 'l reader \<Rightarrow> nat \<Rightarrow> z_transport_unicast \<Rightarrow> z_peer \<Rightarrow> 's \<Rightarrow> 'l \<Rightarrow> 'h \<Rightarrow>
    (bool \<times> z_transport_unicast \<times> z_peer \<times> 's \<times> 'l \<times> 'h) option" where
  "client_turns E H swap read 0 ztu p s l h = Some (False, ztu, p, s, l, h)"
| "client_turns E H swap read (Suc n) ztu p s l h = do {
     (failed, ztu, p, s, l, h) \<leftarrow> zp_unicast_read_task_client E H swap read ztu p s l h;
     if failed then Some (True, ztu, p, s, l, h) else client_turns E H swap read n ztu p s l h }"

text \<open>A row of messages, from one condition to another.\<close>

fun handles_all ::
  "('m, 's) z_rx_env \<Rightarrow> 'h heap \<Rightarrow> bool \<Rightarrow> u32 \<Rightarrow> bytes list \<Rightarrow> (z_peer \<Rightarrow> 's \<Rightarrow> bool) \<Rightarrow> (z_peer \<Rightarrow> 's \<Rightarrow> bool) \<Rightarrow> bool" where
  "handles_all E H swap res [] P Q \<longleftrightarrow> (\<forall>p s. P p s \<longrightarrow> Q p s)"
| "handles_all E H swap res (w # ws) P Q \<longleftrightarrow>
     (\<exists>R. (\<forall>p s. P p s \<longrightarrow> handles E H swap res w (p\<lparr>pr_received := True\<rparr>) s R) \<and> handles_all E H swap res ws R Q)"

lemma client_turns_add:
  "client_turns E H swap read n ztu p s l h = Some (False, ztu1, p1, s1, l1, h1) \<Longrightarrow>
    client_turns E H swap read (n + k) ztu p s l h = client_turns E H swap read k ztu1 p1 s1 l1 h1"
  by (induction n arbitrary: ztu p s l h) (auto simp: bind_Some_iff split: if_splits)

text \<open>Turns that leave a sound client.\<close>

definition reaches ::
  "('m, 's) z_rx_env \<Rightarrow> 'h heap \<Rightarrow> bool \<Rightarrow> bytes reader \<Rightarrow> nat \<Rightarrow> z_transport_unicast \<Rightarrow> z_peer \<Rightarrow> 's \<Rightarrow> bytes \<Rightarrow> 'h \<Rightarrow>
    z_peer \<Rightarrow> 's \<Rightarrow> bytes \<Rightarrow> z_transport_unicast \<Rightarrow> bytes \<Rightarrow> 'h \<Rightarrow> nat \<Rightarrow> bool" where
  "reaches E H swap read cap ztu p s l h p' s' d ztu' l' h' n \<longleftrightarrow>
     client_turns E H swap read n ztu p s l h = Some (False, ztu', p', s', l', h') \<and> zb_data (zu_zbuf ztu') @ l' = d \<and>
     rx_buf cap (zu_zbuf ztu') \<and> zu_sn_res ztu' = zu_sn_res ztu \<and> zu_flow ztu' = FLOW_STREAM"

lemma client_one:
  assumes h: "honest read" and H: "heap_full H" and cap: "cap \<le> SIZE_MAX" and w: "length w + 2 \<le> cap" "length w < 65536"
    and f: "pr_flow_state p \<noteq> FLOW_READY"
  shows "rx_buf cap (zu_zbuf ztu) \<Longrightarrow> zu_flow ztu = FLOW_STREAM \<Longrightarrow> zb_data (zu_zbuf ztu) @ l = stream_size (length w) @ w @ rest \<Longrightarrow>
    handles E H swap (zu_sn_res ztu) w (p\<lparr>pr_received := True\<rparr>) s Q \<Longrightarrow>
    \<exists>n ztu' l' h' p' s'. reaches E H swap read cap ztu p s l m p' s' rest ztu' l' h' n \<and> Q p' s' \<and> pr_flow_state p' = pr_flow_state p"
proof (induction "waiting (zu_zbuf ztu) l" arbitrary: ztu l rule: less_induct)
  case less
  from gather [OF h less.prems(1,3) w] show ?case
  proof (elim disjE exE conjE)
    fix zbf' l'
    assume g: "gather_stream read (zu_zbuf ztu) l = Some (Some (length w), zbf', l')" "rx_buf cap zbf'" "zb_data zbf' @ l' = w @ rest"
      "length w \<le> length (zb_data zbf')"
    then obtain d' where d': "zb_data zbf' = w @ d'" "d' @ l' = rest"
      by (metis append_eq_append_conv_if append_take_drop_id)
    let ?t = "ztu\<lparr>zu_zbuf := zbf'\<rparr>"
    have t: "rx_buf cap (zu_zbuf ?t)" "zb_data (zu_zbuf ?t) = w @ d'" "handles E H swap (zu_sn_res ?t) w (p\<lparr>pr_received := True\<rparr>) s Q"
      using g(2) d'(1) less.prems(4) by simp_all
    from process_whole [OF H t(1) cap t(2) f t(3), of m] obtain ztu' p' s' h' where
      z: "z_unicast_process_messages E H swap ?t p (length w) s m = Some (Z_OK, ztu', p', s', h')" "rx_buf cap (zu_zbuf ztu')"
        "Q p' s'" "pr_flow_state p' = pr_flow_state p"
        "zb_data (zu_zbuf ztu') = d'" "zu_sn_res ztu' = zu_sn_res ?t" "zu_flow ztu' = zu_flow ?t" by blast
    have "zp_unicast_read_task_client E H swap read ztu p s l m = Some (False, ztu', p', s', l', h')"
      using g(1) less.prems(2) z(1) by (simp add: zp_unicast_read_task_client_def z_unicast_client_read_def)
    then show ?thesis
      using z(2-7) d'(2) less.prems(2) by (intro exI [of _ "Suc 0"]) (simp add: reaches_def)
  next
    fix zbf' l'
    assume g: "gather_stream read (zu_zbuf ztu) l = Some (None, zbf', l')" "rx_buf cap zbf'" "zb_data zbf' @ l' = zb_data (zu_zbuf ztu) @ l"
      "waiting zbf' l' < waiting (zu_zbuf ztu) l"
    let ?t = "ztu\<lparr>zu_zbuf := zbf'\<rparr>"
    have t: "zp_unicast_read_task_client E H swap read ztu p s l m = Some (False, ?t, p, s, l', m)"
      using g(1) less.prems(2) by (simp add: zp_unicast_read_task_client_def z_unicast_client_read_def)
    obtain n ztu' l'' h' p' s' where "reaches E H swap read cap ?t p s l' m p' s' rest ztu' l'' h' n" "Q p' s'"
      "pr_flow_state p' = pr_flow_state p"
      using less.hyps [of ?t l'] g less.prems by auto
    then show ?thesis using t by (intro exI [of _ "Suc n"]) (auto simp: reaches_def)
  qed
qed

lemma client_reads:
  assumes h: "honest read" and H: "heap_full H" and cap: "cap \<le> SIZE_MAX"
  shows "rx_buf cap (zu_zbuf ztu) \<Longrightarrow> zu_flow ztu = FLOW_STREAM \<Longrightarrow> pr_flow_state p \<noteq> FLOW_READY \<Longrightarrow>
    zb_data (zu_zbuf ztu) @ l = concat (map (on_link True) ws) \<Longrightarrow> \<forall>w\<in>set ws. length w + 2 \<le> cap \<and> length w < 65536 \<Longrightarrow>
    handles_all E H swap (zu_sn_res ztu) ws P Q \<Longrightarrow> P p s \<Longrightarrow>
    \<exists>n ztu' l' h' p' s'. reaches E H swap read cap ztu p s l m p' s' [] ztu' l' h' n \<and> Q p' s' \<and> pr_flow_state p' = pr_flow_state p"
proof (induction ws arbitrary: ztu p s l m P)
  case Nil
  then show ?case by (intro exI [of _ 0]) (simp add: reaches_def)
next
  case (Cons w ws)
  let ?rest = "concat (map (on_link True) ws)"
  obtain R where R: "handles E H swap (zu_sn_res ztu) w (p\<lparr>pr_received := True\<rparr>) s R" "handles_all E H swap (zu_sn_res ztu) ws R Q"
    using Cons.prems(6,7) by auto
  have w: "length w + 2 \<le> cap" "length w < 65536" "zb_data (zu_zbuf ztu) @ l = stream_size (length w) @ w @ ?rest"
    using Cons.prems(4,5) by (simp_all add: on_link_def [of True w])
  obtain n z1 l1 h1 p1 s1 where 1: "reaches E H swap read cap ztu p s l m p1 s1 ?rest z1 l1 h1 n" "R p1 s1"
    "pr_flow_state p1 = pr_flow_state p"
    using client_one [OF h H cap w(1,2) Cons.prems(3,1,2) w(3) R(1)] by blast
  obtain k z2 l2 h2 p' s' where 2: "reaches E H swap read cap z1 p1 s1 l1 h1 p' s' [] z2 l2 h2 k" "Q p' s'" "pr_flow_state p' = pr_flow_state p1"
    using Cons.IH [of z1 p1 l1 R s1 h1] 1 Cons.prems(3,5) R(2) by (auto simp: reaches_def)
  have "reaches E H swap read cap ztu p s l m p' s' [] z2 l2 h2 (n + k)"
    using 1(1) 2(1) by (simp add: reaches_def client_turns_add)
  moreover have "pr_flow_state p' = pr_flow_state p" using 1(3) 2(3) by simp
  ultimately show ?case using 2(2) by blast
qed

end
