(* ===== verification/ZDelivery.thy ===== *)
theory ZDelivery
  imports ZStream
begin

text \<open>
  From the sender to the receiver: what the transport of one side sends, the read task of a client on the other side hands
  to its session.
\<close>

section \<open>Fragments\<close>

fun frag_msgs :: "z_reliability \<Rightarrow> u32 \<Rightarrow> u32 \<Rightarrow> bool \<Rightarrow> bytes list \<Rightarrow> bytes list" where
  "frag_msgs r res sn first [] = []"
| "frag_msgs r res sn first (p # ps) = (frag_head sn r (ps = []) first @ p) # frag_msgs r res (z_sn_increment res sn) False ps"

lemma frag_wires_msgs: "frag_wires st r res sn first ps = map (on_link st) (frag_msgs r res sn first ps)"
  by (induction ps arbitrary: sn first) simp_all

lemma next_sn:
  assumes "bits < 4"
  shows "z_sn_precedes (z_sn_max bits) a (z_sn_increment (z_sn_max bits) a)" "z_sn_consecutive (z_sn_max bits) a (z_sn_increment (z_sn_max bits) a)"
proof -
  let ?k = "sn_bits bits"
  have k: "1 \<le> ?k" "?k \<le> 32" "2 \<le> ?k" using sn_bits_range [of bits] by simp_all
  have "(2 :: nat) ^ 1 \<le> 2 ^ (?k - 1)" using k(3) by (intro power_increasing) auto
  then have lt: "1 < (2 :: nat) ^ (?k - 1)" by simp
  also have "(2 :: nat) ^ (?k - 1) \<le> 2 ^ ?k" by (intro power_increasing) auto
  finally have lk: "1 < (2 :: nat) ^ ?k" .
  then have "sn_dist ?k a (z_sn_increment (mask ?k) a) = 1" using dist_increments [OF k(2), of a 1] k(1) by simp
  then show "z_sn_precedes (z_sn_max bits) a (z_sn_increment (z_sn_max bits) a)" "z_sn_consecutive (z_sn_max bits) a (z_sn_increment (z_sn_max bits) a)"
    unfolding sn_max_mask [OF assms] precedes_dist [OF k(1,2)] consecutive_dist [OF k(1,2)] using lt by simp_all
qed

text \<open>A peer in step with the numbers of a channel, with markers and something or nothing collected.\<close>

definition in_step :: "z_reliability \<Rightarrow> u32 \<Rightarrow> (frag_chan \<Rightarrow> bool) \<Rightarrow> z_peer \<Rightarrow> bool" where
  "in_step c sn C p \<longleftrightarrow> peer_ok p \<and> 1 \<le> pr_patch p \<and> rx_sn c p = sn \<and> C (chan_of c p)"

lemma handles_fragment:
  assumes H: "heap_full H" and E: "decodes E parse" and p: "in_step c a C p" and sn: "bits < 4" "sn = z_sn_increment (z_sn_max bits) a"
    and l: "length payload \<le> SIZE_MAX - Z_FRAG_MAX_SIZE"
    and step: "reassemble True True True (\<not> is_last) \<lparr>frag_payload = payload, frag_sn = sn, frag_first = first, frag_drop = False\<rparr> (chan_of c p) = (c', x)"
    and d: "delivered E parse c x s = (Z_OK, s')"
  shows "handles E H swap (z_sn_max bits) (frag_head sn c is_last first @ payload) p s (\<lambda>p' t. in_step c sn (\<lambda>k. k = c') p' \<and> t = s')"
  unfolding handles_def
proof (intro allI impI, elim conjE)
  fix zbf h
  assume z: "zb_ok zbf" "zb_data zbf = frag_head sn c is_last first @ payload"
  let ?m = "\<lparr>frag_payload = payload, frag_sn = sn, frag_first = first, frag_drop = False\<rparr>" and ?h = "frag_flags c is_last first"
  obtain z1 where 1: "z_transport_message_decode swap zbf = Some (Inr \<lparr>tm_body = T_fragment ?m, tm_header = ?h\<rparr>, z1)" "zb_ok z1" "zb_data z1 = []"
    using frag_decode_any [OF z] by blast
  have r: "frag_rel ?h = c" by (cases c) (simp_all add: frag_rel_def frag_flags)
  have pk: "peer_ok p" "1 \<le> pr_patch p" "rx_sn c p = a" using p by (simp_all add: in_step_def)
  have st: "frag_step (z_sn_max bits) ?h ?m p = (c', x)"
    using step pk next_sn [OF sn(1), of a] by (simp add: frag_step_def r sn(2) frag_flags)
  have fr: "z_sn_precedes (z_sn_max bits) (rx_sn c p) sn" using next_sn(1) [OF sn(1), of a] pk(3) by (simp add: sn(2))
  have hk: "heap_ok H" using H by (simp add: heap_full_def)
  have l': "length (frag_payload ?m) \<le> SIZE_MAX - Z_FRAG_MAX_SIZE" using l by simp
  obtain ret p' t h' where 2: "z_unicast_handle_fragment E H (z_sn_max bits) ?h ?m p s h = Some (ret, p', t, h')" "chan_ok c p'" "elsewhere c p p'"
    "rx_sn c p' = sn" "(ret, t) = (Z_OK, s')" "chan_of c p' = c'"
    using handle_fragment [OF hk E l' peer_ok_chan [OF pk(1)], where res = "z_sn_max bits" and header = ?h and s = s and h = h]
      H fr unfolding r st by (auto simp: d)
  have "peer_ok p'" "same_flow p p'" "pr_patch p' = pr_patch p"
    using peer_ok_elsewhere [OF pk(1) 2(3,2)] same_flow_elsewhere [OF 2(3)] elsewhere_fields(1) [OF 2(3)] by simp_all
  then show "\<exists>p' t h'. process_loop E H swap (z_sn_max bits) zbf p s h = Some (Z_OK, p', t, h') \<and> same_flow p p' \<and>
      in_step c sn (\<lambda>k. k = c') p' \<and> t = s'"
    using 1 2 z pk(2)
    by (simp add: process_loop.simps [of _ _ _ _ zbf] process_loop.simps [of _ _ _ _ z1] z_unicast_handle_transport_message_def frag_flags
        in_step_def frag_head_def)
qed

lemma received_fields [simp]:
  "rx_sn r (p\<lparr>pr_received := b\<rparr>) = rx_sn r p" "dbuf r (p\<lparr>pr_received := b\<rparr>) = dbuf r p"
  "dbuf_state r (p\<lparr>pr_received := b\<rparr>) = dbuf_state r p"
  by (simp_all add: rx_sn_def dbuf_def dbuf_state_def)

lemma received_chan [simp]:
  "chan_of r (p\<lparr>pr_received := b\<rparr>) = chan_of r p" "chan_ok r (p\<lparr>pr_received := b\<rparr>) = chan_ok r p"
  by (simp_all add: chan_of_def chan_ok_def cong: z_dbuf_state.case_cong)

lemma received_peer [simp]:
  "peer_ok (p\<lparr>pr_received := b\<rparr>) = peer_ok p" "in_step r sn C (p\<lparr>pr_received := b\<rparr>) = in_step r sn C p"
  by (simp_all add: peer_ok_def in_step_def)

lemma reassemble_more:
  assumes "length d + length payload \<le> Z_FRAG_MAX_SIZE" "C = Collecting d \<and> d \<noteq> [] \<and> \<not> first \<or> (\<forall>b. C \<noteq> Overflown b) \<and> d = [] \<and> first"
  shows "reassemble True True True (\<not> is_last) \<lparr>frag_payload = payload, frag_sn = sn, frag_first = first, frag_drop = False\<rparr> C =
    (if is_last then (Idle, Some (d @ payload)) else (Collecting (d @ payload), None))"
proof -
  have "filled payload (started (if first then emptied C else C)) = Collecting (d @ payload)"
    using assms by (cases C) auto
  then show ?thesis using assms(2) by (auto simp: reassemble_def)
qed

lemma delivered_some: "parse d = Some (m, rest) \<Longrightarrow> delivered E parse c (Some d) s = (Z_OK, snd (rx_handle E m c s))"
  by (simp add: delivered_def)

lemma fragments_row:
  assumes H: "heap_full H" and E: "decodes E parse" and bits: "bits < 4"
  defines "res \<equiv> z_sn_max bits"
  shows "ps \<noteq> [] \<Longrightarrow> [] \<notin> set ps \<Longrightarrow> length (d @ concat ps) \<le> Z_FRAG_MAX_SIZE \<Longrightarrow> parse (d @ concat ps) = Some (m, rest) \<Longrightarrow>
    (\<And>C. K C \<Longrightarrow> C = Collecting d \<and> d \<noteq> [] \<and> \<not> first \<or> (\<forall>b. C \<noteq> Overflown b) \<and> d = [] \<and> first) \<Longrightarrow>
    handles_all E H swap res (frag_msgs c res (z_sn_increment res a) first ps)
      (\<lambda>p s. in_step c a K p \<and> s = s0)
      (\<lambda>p s. in_step c ((z_sn_increment res ^^ length ps) a) (\<lambda>k. k = Idle) p \<and> s = snd (rx_handle E m c s0))"
proof (induction ps arbitrary: d a first K)
  case Nil
  then show ?case by simp
next
  case (Cons w ps)
  let ?sn = "z_sn_increment res a" and ?last = "ps = []"
  have w: "length d + length w \<le> Z_FRAG_MAX_SIZE" using Cons.prems(3) by simp
  then have l: "length w \<le> SIZE_MAX - Z_FRAG_MAX_SIZE" by (simp add: SIZE_MAX_def)
  have one: "handles E H swap res (frag_head ?sn c ?last first @ w) (p\<lparr>pr_received := True\<rparr>) s0
      (\<lambda>p' t. in_step c ?sn (\<lambda>k. k = c') p' \<and> t = s')"
    if "in_step c a K p" "(c', x) = (if ?last then (Idle, Some (d @ w)) else (Collecting (d @ w), None))" "delivered E parse c x s0 = (Z_OK, s')"
    for p c' x s'
  proof -
    have "K (chan_of c p)" using that(1) by (simp add: in_step_def)
    then have r: "reassemble True True True (\<not> ?last) \<lparr>frag_payload = w, frag_sn = ?sn, frag_first = first, frag_drop = False\<rparr>
        (chan_of c (p\<lparr>pr_received := True\<rparr>)) = (c', x)"
      using reassemble_more [OF w Cons.prems(5), of "chan_of c p" ?last ?sn] that(2) by simp
    have i: "in_step c a K (p\<lparr>pr_received := True\<rparr>)" using that(1) by simp
    from handles_fragment [OF H E i bits _ l r that(3)] show ?thesis by (simp add: res_def)
  qed
  show ?case
  proof (cases ?last)
    case True
    have "delivered E parse c (Some (d @ w)) s0 = (Z_OK, snd (rx_handle E m c s0))"
      using Cons.prems(4) True by (simp add: delivered_some)
    then show ?thesis using one [of _ Idle "Some (d @ w)"] True
      by (auto intro!: exI [of _ "\<lambda>p s. in_step c ?sn (\<lambda>k. k = Idle) p \<and> s = snd (rx_handle E m c s0)"])
  next
    case False
    have ne: "d @ w \<noteq> []" using Cons.prems(2) by auto
    have "handles_all E H swap res (frag_msgs c res (z_sn_increment res ?sn) False ps)
      (\<lambda>p s. in_step c ?sn (\<lambda>k. k = Collecting (d @ w)) p \<and> s = s0)
      (\<lambda>p s. in_step c ((z_sn_increment res ^^ length ps) ?sn) (\<lambda>k. k = Idle) p \<and> s = snd (rx_handle E m c s0))"
      using Cons.IH [OF False, of "d @ w" "\<lambda>k. k = Collecting (d @ w)" False ?sn] Cons.prems(2-4) ne by simp
    moreover have "delivered E parse c None s0 = (Z_OK, s0)" by (simp add: delivered_def)
    ultimately show ?thesis using one [of _ "Collecting (d @ w)" None s0] False
      by (auto simp: funpow_swap1 intro!: exI [of _ "\<lambda>p s. in_step c ?sn (\<lambda>k. k = Collecting (d @ w)) p \<and> s = s0"])
  qed
qed

section \<open>Frames\<close>

lemma handles_frame:
  assumes E: "decodes E parse" and p: "in_step c a C p" and sn: "bits < 4" "sn = z_sn_increment (z_sn_max bits) a"
    and d: "parse bs = Some (m, [])" "rx_handle E m c s = (Z_OK, s')"
  shows "handles E H swap (z_sn_max bits) (frame_head sn c @ bs) p s (\<lambda>p' t. in_step c sn C p' \<and> t = s')"
  unfolding handles_def
proof (intro allI impI, elim conjE)
  fix zbf h
  assume z: "zb_ok zbf" "zb_data zbf = frame_head sn c @ bs"
  let ?h = "tm_header (z_t_msg_make_frame_header sn c)"
  obtain z1 where 1: "z_transport_message_decode swap zbf = Some (Inr (z_t_msg_make_frame sn z1 c), z1)" "zb_ok z1" "zb_data z1 = bs"
    using frame_decode_any [OF z] by blast
  have m: "z_t_msg_make_frame sn z1 c = \<lparr>tm_body = T_frame \<lparr>frame_payload = Some z1, frame_sn = sn\<rparr>, tm_header = ?h\<rparr>"
    by (simp add: z_t_msg_make_frame_def z_t_msg_make_frame_header_def)
  have r: "(if HAS_FLAG ?h FLAG_T_FRAME_R then RELIABLE else BEST_EFFORT) = c" by (cases c) (simp_all add: frame_flags)
  have parse: "parse (zb_data z1) = Some (m, [])" using d(1) 1(3) by simp
  obtain z2 where 2: "rx_decode E s z1 = Some (Inr m, z2)" "zb_ok z2" "zb_data z2 = []" "bs \<noteq> []"
    using decodesD(2) [OF E 1(2) parse] 1(3) by auto
  have fm: "frame_messages E c z1 s = Some (Z_OK, z2, s')"
    using 1(2,3) 2 d(2) by (simp add: frame_messages.simps [of _ _ z1] frame_messages.simps [of _ _ z2])
  have pk: "rx_sn c p = a" using p by (simp add: in_step_def)
  have fr: "z_sn_precedes (z_sn_max bits) (rx_sn c p) sn" using next_sn(1) [OF sn(1), of a] pk by (simp add: sn(2))
  have f: "z_unicast_handle_frame E (z_sn_max bits) ?h \<lparr>frame_payload = Some z1, frame_sn = sn\<rparr> z1 p s = Some (Z_OK, z2, set_rx_sn c sn p, s')"
    using fm fr unfolding z_unicast_handle_frame_def r by simp
  have q: "in_step c sn C (set_rx_sn c sn p)" "same_flow p (set_rx_sn c sn p)"
    using p by (simp_all add: in_step_def peer_ok_def same_flow_def)
  then show "\<exists>p' t h'. process_loop E H swap (z_sn_max bits) zbf p s h = Some (Z_OK, p', t, h') \<and> same_flow p p' \<and> in_step c sn C p' \<and> t = s'"
    using 1 2(2,3) z f unfolding m
    by (simp add: process_loop.simps [of _ _ _ _ zbf] process_loop.simps [of _ _ _ _ z2] z_unicast_handle_transport_message_def frame_flags
        frame_head_def)
qed

section \<open>Both ends\<close>

text \<open>A client that has read everything so far, and goes with the numbers of a channel.\<close>

definition client_ready :: "nat \<Rightarrow> u8 \<Rightarrow> z_transport_unicast \<Rightarrow> z_peer \<Rightarrow> bool" where
  "client_ready cap bits ztu p \<longleftrightarrow> rx_buf cap (zu_zbuf ztu) \<and> zb_data (zu_zbuf ztu) = [] \<and> cap \<le> SIZE_MAX \<and> zu_flow ztu = FLOW_STREAM \<and>
     bits < 4 \<and> zu_sn_res ztu = z_sn_max bits \<and> pr_flow_state p \<noteq> FLOW_READY \<and> peer_ok p \<and> 1 \<le> pr_patch p"

text \<open>A sender that does not batch, and whose next number on \<open>r\<close> is the one that the client expects on \<open>c\<close>.\<close>

definition sender_ready :: "nat \<Rightarrow> u8 \<Rightarrow> z_transport_common \<Rightarrow> bool" where
  "sender_ready cap bits ztc \<longleftrightarrow> tx_buf cap (tc_wbuf ztc) \<and> \<not> tc_batch_active ztc \<and> tc_stream ztc \<and> tc_sn_res ztc = z_sn_max bits"

definition agrees :: "u8 \<Rightarrow> z_transport_common \<Rightarrow> z_reliability \<Rightarrow> z_peer \<Rightarrow> z_reliability \<Rightarrow> bool" where
  "agrees bits ztc r p c \<longleftrightarrow> z_sn_increment (z_sn_max bits) (rx_sn c p) = tx_sn ztc r \<and> dbuf_state c p \<noteq> DBUF_OVERFLOW"

lemma not_overflown: "(\<forall>b. chan_of c p \<noteq> Overflown b) \<longleftrightarrow> dbuf_state c p \<noteq> DBUF_OVERFLOW"
  by (cases "dbuf_state c p") (simp_all add: chan_of_def)

lemma delivery:
  fixes r :: z_reliability and ztc :: z_transport_common and cap :: nat and wire :: bytes
  defines "fits \<equiv> 2 + length (frame_head (tx_sn ztc r) r) + length wire \<le> cap"
  defines "c \<equiv> (if fits then r else if r = RELIABLE then BEST_EFFORT else RELIABLE)"
  assumes send: "tx_buf cap (tc_wbuf ztc)" "13 < cap" "cap \<le> 65536" "recording tx peers" "carries tx m wire" "\<not> tc_batch_active ztc" "tc_stream ztc"
    and client: "client_ready rcap bits ztu p" "honest read" "heap_full H" "decodes rx parse"
    and agree: "tc_sn_res ztc = z_sn_max bits" "cap \<le> rcap" "z_sn_increment (z_sn_max bits) (rx_sn c p) = tx_sn ztc r"
    and msg: "parse wire = Some (msg, [])" "fits \<or> length wire \<le> Z_FRAG_MAX_SIZE" "dbuf_state c p \<noteq> DBUF_OVERFLOW" "rx_handle rx msg c s = (Z_OK, s')"
  shows "\<exists>ztc' sent h' n ztu' p' h''. z_transport_tx_send_n_msg_inner tx ztc m r peers [] h = Some (Z_OK, ztc', sent, h') \<and>
    client_turns rx H swap read n ztu p s (concat sent) k = Some (False, ztu', p', s', [], h'') \<and> client_ready rcap bits ztu' p' \<and>
    sender_ready cap bits ztc' \<and> agrees bits ztc' r p' c"
proof -
  let ?sn = "tx_sn ztc r" and ?res = "z_sn_max bits" and ?a = "rx_sn c p"
  have st: "stream_room (tc_stream ztc) = 2" using send(7) by (simp add: stream_room_def)
  have cs: "cap \<le> SIZE_MAX" "stream_room (tc_stream ztc) + 11 < cap" using send(2,3) st by (simp_all add: SIZE_MAX_def)
  have cl: "rx_buf rcap (zu_zbuf ztu)" "zb_data (zu_zbuf ztu) = []" "rcap \<le> SIZE_MAX" "zu_flow ztu = FLOW_STREAM" "bits < 4" "zu_sn_res ztu = ?res"
    "pr_flow_state p \<noteq> FLOW_READY" "peer_ok p" "1 \<le> pr_patch p"
    using client(1) by (simp_all add: client_ready_def)
  have sn: "?sn = z_sn_increment ?res ?a" using agree(3) by simp
  have raw: "\<exists>ztc' l' h'. z_transport_tx_send_n_msg_inner tx ztc m r peers [] h = Some (Z_OK, ztc', l', h') \<and>
      tx_buf cap (tc_wbuf ztc') \<and> tc_stream ztc' = True \<and> tc_sn_res ztc' = ?res \<and> \<not> tc_batch_active ztc' \<and>
      (if fits then l' = [] @ [on_link True (frame_head ?sn r @ wire)] \<and> tx_sn ztc' r = z_sn_increment ?res ?sn
       else \<exists>ps. l' = [] @ frag_wires True (frag_channel r) ?res ?sn True ps \<and> concat ps = wire \<and> [] \<notin> set ps \<and>
         (ps \<noteq> [] \<longrightarrow> tx_sn ztc' r = (z_sn_increment ?res ^^ length ps) ?sn) \<and>
         (\<forall>w\<in>set (frag_wires True (frag_channel r) ?res ?sn True ps). length w \<le> cap))"
    using unbatched [OF send(1) cs send(4-6), of r "[]" h] unfolding agree(1) fits_def st
    by (simp only: send(7) simp_thms if_True)
  obtain ztc' l' h' where 1: "z_transport_tx_send_n_msg_inner tx ztc m r peers [] h = Some (Z_OK, ztc', l', h')"
    "if fits then l' = [on_link True (frame_head ?sn r @ wire)] \<and> tx_sn ztc' r = z_sn_increment ?res ?sn
     else \<exists>ps. l' = frag_wires True (frag_channel r) ?res ?sn True ps \<and> concat ps = wire \<and> [] \<notin> set ps \<and> (\<forall>w\<in>set l'. length w \<le> cap) \<and>
       (ps \<noteq> [] \<longrightarrow> tx_sn ztc' r = (z_sn_increment ?res ^^ length ps) ?sn)"
    "sender_ready cap bits ztc'"
    using raw unfolding sender_ready_def by (cases fits) auto
  have no: "\<forall>b. chan_of c p \<noteq> Overflown b" using msg(3) by (simp add: not_overflown)
  let ?P = "\<lambda>q t. in_step c ?a (\<lambda>k. \<forall>b. k \<noteq> Overflown b) q \<and> t = s"
  have P: "?P p s" using cl no by (simp add: in_step_def)
  have "\<exists>ws Q. l' = map (on_link True) ws \<and> handles_all rx H swap ?res ws ?P Q \<and> (\<forall>w\<in>set ws. length w + 2 \<le> rcap \<and> length w < 65536) \<and>
      (\<forall>q t. Q q t \<longrightarrow> peer_ok q \<and> 1 \<le> pr_patch q \<and> t = s' \<and> agrees bits ztc' r q c)"
  proof (cases fits)
    case True
    let ?w = "frame_head ?sn r @ wire" and ?Q = "\<lambda>q t. in_step c ?sn (\<lambda>k. \<forall>b. k \<noteq> Overflown b) q \<and> t = s'"
    have c: "c = r" using True by (simp add: c_def)
    have "handles rx H swap ?res ?w (q\<lparr>pr_received := True\<rparr>) t ?Q" if "?P q t" for q t
    proof -
      have i: "in_step c ?a (\<lambda>k. \<forall>b. k \<noteq> Overflown b) (q\<lparr>pr_received := True\<rparr>)" using that by simp
      from handles_frame [OF client(4) i cl(5) sn msg(1,4)] show ?thesis using that by (simp add: c)
    qed
    then have "handles_all rx H swap ?res [?w] ?P ?Q" by auto
    moreover have "length ?w + 2 \<le> rcap" "length ?w < 65536" using True send(3) agree(2) unfolding fits_def by simp_all
    ultimately show ?thesis using 1(2) True
      by (intro exI [of _ "[?w]"] exI [of _ ?Q]) (auto simp: in_step_def agrees_def not_overflown)
  next
    case False
    then obtain ps where ps: "l' = frag_wires True (frag_channel r) ?res ?sn True ps" "concat ps = wire" "[] \<notin> set ps" "\<forall>w\<in>set l'. length w \<le> cap"
      "ps \<noteq> [] \<longrightarrow> tx_sn ztc' r = (z_sn_increment ?res ^^ length ps) ?sn"
      using 1(2) by auto
    have c: "frag_channel r = c" using False by (cases r) (simp_all add: c_def frag_channel_def reliability_of_bool_def)
    let ?ws = "frag_msgs c ?res ?sn True ps"
    let ?Q = "\<lambda>q t. in_step c ((z_sn_increment ?res ^^ length ps) ?a) (\<lambda>k. k = Idle) q \<and> t = snd (rx_handle rx msg c s)"
    have "wire \<noteq> []"
    proof
      assume e: "wire = []"
      obtain z where "zb_ok z" "zb_data z = []" using slice_as_zbuf [of "[]"] by blast
      then show False using decodesD(2) [OF client(4), of z msg "[]"] msg(1) e by auto
    qed
    then have ne: "ps \<noteq> []" using ps(2) by auto
    have len: "length ([] @ concat ps) \<le> Z_FRAG_MAX_SIZE" "parse ([] @ concat ps) = Some (msg, [])" using False msg(1,2) ps(2) by simp_all
    have "handles_all rx H swap ?res ?ws ?P ?Q"
      unfolding sn by (rule fragments_row [OF client(3,4) cl(5) ne ps(3) len]) simp
    moreover have l: "l' = map (on_link True) ?ws" using ps(1) by (simp add: frag_wires_msgs c)
    moreover have "\<forall>w\<in>set ?ws. length w + 2 \<le> rcap \<and> length w < 65536"
    proof
      fix w
      assume "w \<in> set ?ws"
      then have "length (on_link True w) \<le> cap" using ps(4) unfolding l by simp
      then show "length w + 2 \<le> rcap \<and> length w < 65536" using send(3) agree(2) by (simp add: on_link_length stream_room_def)
    qed
    moreover have "agrees bits ztc' r q c" if "?Q q t" for q t
      using that ps(5) ne not_overflown [of c q] by (simp add: in_step_def agrees_def sn funpow_swap1)
    ultimately show ?thesis using msg(4) by (intro exI [of _ ?ws] exI [of _ ?Q]) (auto simp: in_step_def)
  qed
  then obtain ws Q where ws: "l' = map (on_link True) ws" "handles_all rx H swap (zu_sn_res ztu) ws ?P Q"
    "\<forall>w\<in>set ws. length w + 2 \<le> rcap \<and> length w < 65536" "\<And>q t. Q q t \<Longrightarrow> peer_ok q \<and> 1 \<le> pr_patch q \<and> t = s' \<and> agrees bits ztc' r q c"
    unfolding cl(6) by blast
  have d: "zb_data (zu_zbuf ztu) @ concat l' = concat (map (on_link True) ws)" using cl(2) ws(1) by simp
  obtain n ztu' l2 h2 p' t where 2: "reaches rx H swap read rcap ztu p s (concat l') k p' t [] ztu' l2 h2 n" "Q p' t" "pr_flow_state p' = pr_flow_state p"
    using client_reads [where P = ?P, OF client(2,3) cl(3,1,4,7) d ws(3,2) P] by blast
  then have "client_turns rx H swap read n ztu p s (concat l') k = Some (False, ztu', p', s', [], h2)" "client_ready rcap bits ztu' p'" "agrees bits ztc' r p' c"
    using ws(4) [OF 2(2)] 2(1,3) cl by (auto simp: reaches_def client_ready_def)
  then show ?thesis using 1(1,3) by blast
qed

text \<open>
  C26: a message that is sent over a stream without batching comes out at the other end exactly once, whole or in fragments and
  however the network cuts the stream, and both ends are ready for the next one: the sender's buffer is as good as before and its
  next number on \<open>r\<close> is again the one that the client expects on \<open>c\<close>. That is when the client expects the sender's number on
  the channel the message really takes, namely \<open>r\<close> if it fits a frame and the other one if it is cut into fragments; has no
  overflow left over in it; the message fits a frame or is at most \<open>Z_FRAG_MAX_SIZE\<close> (4096) bytes long; the network layer's
  decoder (a parameter, \<open>decodes\<close>) takes the bytes for \<open>msg\<close>; and the session's callback succeeds. Memory is granted.
\<close>

theorem transport_delivers:
  fixes r :: z_reliability and ztc :: z_transport_common and cap :: nat and wire :: bytes
  defines "fits \<equiv> 2 + length (frame_head (tx_sn ztc r) r) + length wire \<le> cap"
  defines "c \<equiv> (if fits then r else if r = RELIABLE then BEST_EFFORT else RELIABLE)"
  assumes send: "tx_buf cap (tc_wbuf ztc)" "13 < cap" "cap \<le> 65536" "recording tx peers" "carries tx m wire" "\<not> tc_batch_active ztc" "tc_stream ztc"
    and client: "client_ready rcap bits ztu p" "honest read" "heap_full H" "decodes rx parse"
    and agree: "tc_sn_res ztc = z_sn_max bits" "cap \<le> rcap" "z_sn_increment (z_sn_max bits) (rx_sn c p) = tx_sn ztc r"
    and msg: "parse wire = Some (msg, [])" "fits \<or> length wire \<le> Z_FRAG_MAX_SIZE" "dbuf_state c p \<noteq> DBUF_OVERFLOW" "rx_handle rx msg c s = (Z_OK, s')"
  shows "\<exists>ztc' sent h' n ztu' p' h''. z_transport_tx_send_n_msg_inner tx ztc m r peers [] h = Some (Z_OK, ztc', sent, h') \<and>
    client_turns rx H swap read n ztu p s (concat sent) k = Some (False, ztu', p', s', [], h'') \<and> client_ready rcap bits ztu' p' \<and>
    sender_ready cap bits ztc' \<and> agrees bits ztc' r p' c"
  unfolding fits_def c_def using delivery [OF assms(3-20) [unfolded fits_def c_def]] .

text \<open>A receiver whose messages are all the bytes of a payload, and whose session is a list of messages.\<close>

definition demo_rx :: "(bytes, bytes list) z_rx_env" where
  "demo_rx = \<lparr>rx_decode = \<lambda>_ zbf. Some (if zb_data zbf = [] then (Inl Z_ERR_MESSAGE_DESERIALIZATION_FAILED, zbf)
       else (Inr (zb_data zbf), zbf\<lparr>zb_ios := (zb_ios zbf)\<lparr>ios_r_pos := ios_w_pos (zb_ios zbf)\<rparr>\<rparr>)),
     rx_handle = \<lambda>m r l. (Z_OK, l @ [m]), rx_disconnected = \<lambda>p l. l, rx_shared = \<lambda>l. False\<rparr>"

definition demo_ztu :: "nat \<Rightarrow> z_transport_unicast" where
  "demo_ztu cap = \<lparr>zu_sn_res = z_sn_max 2, zu_zbuf = fst (z_zbuf_make demo_heap cap ()), zu_flow = FLOW_STREAM, zu_peer_locks = 0\<rparr>"

definition demo_peer :: "u32 \<Rightarrow> z_peer" where
  "demo_peer sn = fill_peer (z_sn_max 2)
     \<lparr>ep_remote_zid = z_id_empty, ep_batch_size = 24, ep_initial_sn_rx = sn, ep_initial_sn_tx = 0, ep_lease = 10000, ep_remote_whatami = 1,
       ep_key_id_res = 2, ep_req_id_res = 2, ep_seq_num_res = 2, ep_patch = 1\<rparr> 3 False"

definition demo_parse :: "bytes \<Rightarrow> (bytes \<times> bytes) option" where
  "demo_parse bs = (if bs = [] then None else Some (bs, []))"

lemma demo_decodes: "decodes demo_rx demo_parse"
  unfolding decodes_def
proof (intro allI impI)
  fix s and zbf :: z_zbuf
  assume z: "zb_ok zbf"
  have "zb_data zbf \<noteq> [] \<Longrightarrow> zb_ok (zbf\<lparr>zb_ios := (zb_ios zbf)\<lparr>ios_r_pos := ios_w_pos (zb_ios zbf)\<rparr>\<rparr>) \<and>
      zb_data (zbf\<lparr>zb_ios := (zb_ios zbf)\<lparr>ios_r_pos := ios_w_pos (zb_ios zbf)\<rparr>\<rparr>) = []"
    using z by (auto simp: zb_ok_def ios_ok_def zb_data_def ios_data_def slice_def)
  then show "case demo_parse (zb_data zbf) of
      None \<Rightarrow> \<exists>e zbf'. rx_decode demo_rx s zbf = Some (Inl e, zbf') \<and> e \<noteq> Z_OK
    | Some (m, rest) \<Rightarrow> \<exists>zbf'. rx_decode demo_rx s zbf = Some (Inr m, zbf') \<and> zb_ok zbf' \<and> zb_data zbf' = rest \<and>
        length rest < length (zb_data zbf)"
    by (cases "zb_data zbf = []") (simp_all add: demo_rx_def demo_parse_def)
qed

lemma demo_client: "client_ready cap 2 (demo_ztu cap) (demo_peer sn)" if "cap \<le> SIZE_MAX"
  using that by (simp add: client_ready_def demo_ztu_def demo_peer_def fill_peer_def rx_buf_def z_zbuf_make_def z_iosli_make_def z_iosli_init_def zb_ok_def ios_ok_def
      zb_data_def ios_data_def peer_ok_def chan_ok_def dbuf_state_def dbuf_def Let_def z_zbuf_null_def z_zbuf_capacity_def demo_heap_def slice_def)

lemma stream_reader_honest: "honest stream_reader"
  unfolding honest_def
proof (intro allI)
  fix n :: nat and l :: bytes
  show "\<exists>k. k \<le> n \<and> k \<le> length l \<and> stream_reader n l = (Some (take k l), drop k l) \<and> (0 < n \<and> l \<noteq> [] \<longrightarrow> 0 < k)"
    by (intro exI [of _ "min n (length l)"]) (auto simp: stream_reader_def min_def)
qed

theorem transport_delivers_witness:
  "\<exists>ztc' sent h' n ztu' p' h''. z_transport_tx_send_n_msg_inner demo_tx demo_ztc (replicate 30 7) RELIABLE None [] () = Some (Z_OK, ztc', sent, h') \<and>
     client_turns demo_rx demo_heap False stream_reader n (demo_ztu 24) (demo_peer 0xFFFFFFF) [] (concat sent) () =
       Some (False, ztu', p', [replicate 30 7], [], h'') \<and> client_ready 24 2 ztu' p' \<and>
     sender_ready 24 2 ztc' \<and> agrees 2 ztc' RELIABLE p' BEST_EFFORT"
proof -
  have tx: "tx_buf 24 (tc_wbuf demo_ztc)" "recording demo_tx None" "carries demo_tx (replicate 30 7) (replicate 30 7)" "\<not> tc_batch_active demo_ztc"
    "tc_stream demo_ztc" "tx_sn demo_ztc RELIABLE = 0xFFFFFFF" "tc_sn_res demo_ztc = z_sn_max 2"
    using demo_tx_buf demo_carries [of "replicate 30 7"] by (simp_all add: demo_ztc_def recording_def demo_tx_def send_wbuf_def tx_sn_def)
  have rx: "client_ready 24 2 (demo_ztu 24) (demo_peer 0xFFFFFFF)" "heap_full demo_heap"
    using demo_client [of 24] by (simp_all add: SIZE_MAX_def heap_full_def heap_ok_def heap_gives_def malloc_ok_def demo_heap_def z_iosli_size_def)
  have "z_sn_increment (z_sn_max 2) (rx_sn BEST_EFFORT (demo_peer 0xFFFFFFF)) = 0xFFFFFFF" "dbuf_state BEST_EFFORT (demo_peer 0xFFFFFFF) \<noteq> DBUF_OVERFLOW"
    by (simp_all add: demo_peer_def fill_peer_def rx_sn_def dbuf_state_def z_sn_increment_def z_sn_decrement_def z_sn_max_def)
  moreover have "demo_parse (replicate 30 7) = Some (replicate 30 7, [])" "rx_handle demo_rx (replicate 30 7) BEST_EFFORT [] = (Z_OK, [replicate 30 7])"
    by (simp_all add: demo_parse_def demo_rx_def)
  ultimately show ?thesis
    using transport_delivers [OF tx(1) _ _ tx(2-5) rx(1) stream_reader_honest rx(2) demo_decodes tx(7), where r = RELIABLE and
        msg = "replicate 30 7" and s = "[]" and s' = "[replicate 30 7]" and swap = False and k = "()" and h = "()"]
    unfolding tx(6) by simp
qed

end
