(* ===== verification/ZHandshakeProps.thy ===== *)
theory ZHandshakeProps
  imports ZHandshake ZDelivery
begin

text \<open>
  The handshake between both sides of \<open>ZHandshake\<close> over a connection that loses nothing: what each of them ends up
  with, and what the transports they make of it can do.
\<close>

section \<open>A connection\<close>

text \<open>A stream with what is still to come in and what has gone out.\<close>

definition pipe_reader :: "(bytes \<times> bytes) reader" where
  "pipe_reader n io = (Some (take n (fst io)), (drop n (fst io), snd io))"

definition pipe :: "u16 \<Rightarrow> (bytes \<times> bytes) z_link" where
  "pipe mtu = \<lparr>lk_read = pipe_reader, lk_read_exact = pipe_reader, lk_write = \<lambda>d io. (Some (length d), (fst io, snd io @ d)),
     lk_flow = FLOW_STREAM, lk_mtu = mtu, lk_expired = \<lambda>io. (False, io)\<rparr>"

lemma pipe_simps [simp]: "lk_flow (pipe mtu) = FLOW_STREAM" "lk_mtu (pipe mtu) = mtu" "lk_read_exact (pipe mtu) = pipe_reader"
  "lk_write (pipe mtu) d io = (Some (length d), (fst io, snd io @ d))"
  by (simp_all add: pipe_def)

lemma heap_room:
  assumes H: "heap_full H"
  shows "\<exists>zbf h'. z_zbuf_make H n h = (zbf, h') \<and> ios_r_pos (zb_ios zbf) = 0 \<and> ios_w_pos (zb_ios zbf) = 0 \<and>
    ios_capacity (zb_ios zbf) = n \<and> length (ios_buf (zb_ios zbf)) = n"
proof -
  obtain blk h1 where m: "mal_bytes H n h = (Some blk, h1)"
    using H unfolding heap_full_def heap_gives_def by (metis fst_conv not_None_eq surj_pair)
  have lb: "length blk = n" using H m malloc_ok_length [of 1 "mal_bytes H" n h blk h1] by (simp add: heap_full_def heap_ok_def)
  obtain h2 where r: "mal_rc H h1 = (True, h2)" using H unfolding heap_full_def by (metis prod.collapse)
  show ?thesis
    using m r lb by (auto simp: z_zbuf_make_def z_iosli_make_def z_iosli_init_def z_zbuf_null_def z_zbuf_capacity_def Let_def)
qed

text \<open>Where memory is granted nothing is lost in the copy.\<close>

lemma copy_cookie_full: "heap_full H \<Longrightarrow> fst (copy_cookie H cookie h) = cookie"
  unfolding heap_full_def heap_gives_def copy_cookie_def
  by (cases "mal_bytes H (length cookie) h") (auto split: option.split, metis fst_conv option.distinct(1))

lemma copy_full: "heap_full H \<Longrightarrow> fst (z_t_msg_copy H msg h) = msg"
  using copy_cookie_full [of H]
  by (cases "tm_body msg") (simp_all add: z_t_msg_copy_def case_prod_beta Let_def)

lemma pipe_recv:
  assumes H: "heap_full H" and d: "length d + 2 \<le> 2048"
  shows "\<exists>z g. zb_ok z \<and> zb_data z = d \<and>
    z_link_recv_t_msg H swap (pipe mtu) (on_link True d @ rest, out) h =
      map_option (\<lambda>(r, _). (r, (rest, out), g r)) (z_transport_message_decode swap z)"
proof -
  obtain zbf h' where m: "z_zbuf_make H 2048 h = (zbf, h')" "ios_r_pos (zb_ios zbf) = 0" "ios_w_pos (zb_ios zbf) = 0"
    "ios_capacity (zb_ios zbf) = 2048" "length (ios_buf (zb_ios zbf)) = 2048" using heap_room [OF H] by blast
  let ?z = "z_zbuf_reset zbf"
  have z: "ios_r_pos (zb_ios ?z) = 0" "ios_w_pos (zb_ios ?z) = 0" "ios_capacity (zb_ios ?z) = 2048" "length (ios_buf (zb_ios ?z)) = 2048"
    using m(4,5) by (simp_all add: z_zbuf_reset_def z_iosli_reset_def)
  have s: "length (stream_size (length d)) = 2" by (simp add: stream_size_def)
  have r: "pipe_reader 2 (on_link True d @ rest, out) = (Some (stream_size (length d)), (d @ rest, out))"
    "pipe_reader (length d) (d @ rest, out) = (Some d, (rest, out))"
    using s by (simp_all add: pipe_reader_def on_link_def)
  have "length d < 65536" using d by linarith
  then obtain z2 where z2: "z_link_recv_t_msg_cap_flow_stream pipe_reader ?z (on_link True d @ rest, out) = Some (Z_OK, z2, (rest, out))"
    "zb_ok z2" "zb_data z2 = d"
    using recv_stream [where read_exact = pipe_reader, OF z d _ r] by blast
  have "recv_loop (pipe mtu) ?z (on_link True d @ rest, out) = Some (Z_OK, z2, (rest, out))"
    using z2(1) by (simp add: recv_loop.simps recv_once_def pipe_def)
  then show ?thesis
    using m(1) z2(2,3) copy_full [OF H, of _ h']
    by (intro exI [of _ z2] exI [of _ "\<lambda>r. case r of Inl e \<Rightarrow> h' | Inr msg \<Rightarrow> snd (z_t_msg_copy H msg h')"])
      (cases "z_transport_message_decode swap z2", auto simp: z_link_recv_t_msg_def Let_def split: sum.split prod.split, metis fst_conv)
qed

lemma pipe_recv_msg:
  assumes "heap_full H" "tm_ok msg" "length (tm_wire msg) + 2 \<le> 2048"
  shows "\<exists>h'. z_link_recv_t_msg H False (pipe mtu) (on_link True (tm_wire msg) @ rest, out) h = Some (Inr msg, (rest, out), h')"
proof -
  obtain z g where z: "zb_ok z" "zb_data z = tm_wire msg" "z_link_recv_t_msg H False (pipe mtu) (on_link True (tm_wire msg) @ rest, out) h =
      map_option (\<lambda>(r, _). (r, (rest, out), g r)) (z_transport_message_decode False z)"
    using pipe_recv [OF assms(1,3)] by blast
  moreover obtain z' where "z_transport_message_decode False z = Some (Inr msg, z')"
    using readsD(1) [OF message_reads [OF assms(2)] z(1), of "[]"] z(2) by auto
  ultimately show ?thesis by simp
qed

lemma pipe_send:
  assumes H: "heap_full H" and e: "emits (\<lambda>wbf. z_transport_message_encode H wbf msg) wire"
    and room: "length wire + 2 \<le> unat mtu" "length wire + 2 \<le> 2048"
  shows "\<exists>h'. z_link_send_t_msg H (pipe mtu) msg (inp, out) h = Some (Z_OK, (inp, out @ on_link True wire), h')"
proof -
  define n where "n = (if unat mtu < 2048 then unat mtu else 2048)"
  have n: "0 < n" "n \<le> SIZE_MAX" "length wire + 2 \<le> n" "0 < n" "1 < n" "2 \<le> n" using room by (auto simp: n_def SIZE_MAX_def)
  have "heap_ok H" using H by (simp add: heap_full_def)
  then obtain w h1 where w: "z_wbuf_make H n False h = Some (w, h1)" "z_wbuf_capacity w = Some n" "tx_buf n w" "wb_data w = []"
    using make_tx_buf [of H n h] n(1,2) H by auto
  obtain w1 where 1: "z_wbuf_put w 0 0 = Some w1" "tx_buf n w1" "ios_buf (tx_slice w1) = (ios_buf (tx_slice w))[0 := 0]"
    using tx_put [OF w(3) n(4)] by blast
  obtain w2 where 2: "z_wbuf_put w1 0 1 = Some w2" "tx_buf n w2" "ios_buf (tx_slice w2) = (ios_buf (tx_slice w1))[1 := 0]"
    using tx_put [OF 1(2) n(5)] by blast
  obtain w3 where 3: "z_wbuf_set_wpos w2 2 = Some w3" "tx_buf n w3" "wb_data w3 = take 2 (ios_buf (tx_slice w2))"
    using tx_set_wpos [OF 2(2) n(6)] by blast
  have "2 \<le> length (ios_buf (tx_slice w))" using tx_buf_slice(5,7) [OF w(3)] n(6) by (simp add: ios_ok_def)
  then obtain x y b where "ios_buf (tx_slice w) = x # y # b" by (auto simp: numeral_eq_Suc Suc_le_length_iff)
  then have d3: "wb_data w3 = [0, 0]" unfolding 3(3) 2(3) 1(3) by simp
  have "length wire \<le> wb_space w3" using tx_buf_slice(12) [OF 3(2)] d3 n(3) by simp
  then obtain w4 where 4: "z_transport_message_encode H w3 msg h1 = Some (Z_OK, w4, h1)" "tx_buf n w4" "wb_data w4 = [0, 0] @ wire"
    using emits_fits [OF e _, of w3 h1] tx_buf_same [OF 3(2)] 3(2) d3 by (auto simp: tx_buf_def)
  obtain w5 where 5: "unsafe_z_finalize_wbuf w4 True = Some w5" "tx_buf n w5" "wb_data w5 = on_link True wire"
    using tx_finalize [OF 4(2) n(2), of True wire] 4(3) by auto
  obtain k w' where len: "z_wbuf_len w4 = Some k" "z_wbuf_put w4 (ucast (of_nat (size_sub k 2) :: u32)) 0 = Some w'"
    "z_wbuf_put w' (ucast (drop_bit 8 (of_nat (size_sub k 2) :: u32))) 1 = Some w5"
    using 5(1) by (auto simp: unsafe_z_finalize_wbuf_def Let_def Option.bind_eq_Some_conv)
  have s: "z_link_send_wbuf True (lk_write (pipe mtu)) w5 (inp, out) = Some (Z_OK, (inp, out @ on_link True wire))"
  proof -
    note b = tx_buf_slice [OF 5(2)]
    have r: "z_iosli_readable (tx_slice w5) = length (on_link True wire)"
      using b(5,6,9,11) 5(3) by (simp add: z_iosli_readable_def)
    have c: "c_read (ios_buf (tx_slice w5)) 0 (length (on_link True wire)) = Some (on_link True wire)"
      using b(5,9,11) 5(3) by (simp add: c_read_def ios_ok_def slice_def)
    have l: "0 < length (on_link True wire)" by (simp add: on_link_length stream_room_def)
    show ?thesis
      using b(6,13,14) r c by (simp add: z_link_send_wbuf_def send_slices.simps send_slice.simps)
  qed
  have "z_link_send_t_msg H (pipe mtu) msg (inp, out) h = do {
      (ret, l) \<leftarrow> z_link_send_wbuf True (lk_write (pipe mtu)) w5 (inp, out);
      Some (ret, l, h1) }"
    unfolding z_link_send_t_msg_def pipe_simps Let_def n_def [symmetric]
    using w(1,2) 1(1) 2(1) 3(1) 4(1) len by simp
  then show ?thesis using s by simp
qed

section \<open>Both sides\<close>

lemma listen_ack_same: "init_body (z_t_msg_make_init_syn w za) = Some syn \<Longrightarrow> listen_ack v zb syn = Some (z_t_msg_make_init_ack v zb [])"
  by (auto simp: listen_ack_def init_body_def z_t_msg_make_init_syn_def z_t_msg_make_init_ack_def adjust_ack_def Let_def)

text \<open>All four messages are short.\<close>

lemma sized_nothing: "length (sized []) \<le> 9"
  using vle_bound [of 8 0] by simp

lemma init_fits:
  assumes "zid_ok zid" "whatami_valid w"
  shows "tm_ok (z_t_msg_make_init_syn w zid)" "tm_ok (z_t_msg_make_init_ack w zid [])"
    "length (tm_wire (z_t_msg_make_init_syn w zid)) \<le> 48" "length (tm_wire (z_t_msg_make_init_ack w zid [])) \<le> 48"
proof -
  show "tm_ok (z_t_msg_make_init_syn w zid)" "tm_ok (z_t_msg_make_init_ack w zid [])"
    using assms session_message_ok session_message.init_syn session_message.init_ack [of zid w "[]"] by simp_all
  have l: "length (init_wire h m) \<le> 47" if "init_cookie m = []" "init_zid m = zid" for h m
  proof -
    have "z_id_len zid \<le> 16" using id_len_loop [of zid 16] by (simp add: z_id_len_def)
    then have "length (take (z_id_len (init_zid m)) (init_zid m)) \<le> 16" by (simp add: that(2))
    moreover have "length (patch_wire (init_patch m)) \<le> 10" using vle_bound [of 8 "ucast (init_patch m)"] by (simp add: patch_wire_def)
    moreover have "length (if HAS_FLAG h FLAG_T_INIT_A then sized (init_cookie m) else []) \<le> 9" using sized_nothing that(1) by auto
    moreover have "length (if HAS_FLAG h FLAG_T_INIT_S then res_wire (init_seq_num_res m) (init_req_id_res m) (init_batch_size m) else []) \<le> 3"
      by (simp add: res_wire_def)
    ultimately show ?thesis unfolding init_wire_def length_append by simp
  qed
  show "length (tm_wire (z_t_msg_make_init_syn w zid)) \<le> 48" "length (tm_wire (z_t_msg_make_init_ack w zid [])) \<le> 48"
    using l by (simp_all add: tm_wire_def z_t_msg_make_init_syn_def z_t_msg_make_init_ack_def Let_def)
qed

lemma open_fits:
  shows "tm_ok (z_t_msg_make_open_syn lease sn [])" "tm_ok (z_t_msg_make_open_ack lease sn)"
    "length (tm_wire (z_t_msg_make_open_syn lease sn [])) \<le> 48" "length (tm_wire (z_t_msg_make_open_ack lease sn)) \<le> 48"
proof -
  show "tm_ok (z_t_msg_make_open_syn lease sn [])" "tm_ok (z_t_msg_make_open_ack lease sn)"
    using session_message_ok session_message.open_syn [of "[]"] session_message.open_ack by simp_all
  have l: "length (open_wire h m) \<le> 47" if "open_cookie m = []" for h m
    using vle_bound [of 8 "of_nat (unat (open_lease m div 1000))"] vle_bound [of 8 "of_nat (unat (open_lease m))"]
      vle_bound [of 8 "of_nat (unat (open_initial_sn m))"] sized_nothing that
    by (auto simp: open_wire_def lease_wire_def)
  show "length (tm_wire (z_t_msg_make_open_syn lease sn [])) \<le> 48" "length (tm_wire (z_t_msg_make_open_ack lease sn)) \<le> 48"
    using l by (simp_all add: tm_wire_def z_t_msg_make_open_syn_def z_t_msg_make_open_ack_def Let_def)
qed

lemma handshake_messages:
  "init_body (z_t_msg_make_init_ack v zb []) = Some \<lparr>init_zid = zb, init_cookie = [], init_batch_size = 2048, init_whatami = v,
     init_req_id_res = 2, init_seq_num_res = 2, init_version = 9, init_patch = 1\<rparr>"
  "init_body (z_t_msg_make_init_syn v zb) = Some \<lparr>init_zid = zb, init_cookie = [], init_batch_size = 2048, init_whatami = v,
     init_req_id_res = 2, init_seq_num_res = 2, init_version = 9, init_patch = 1\<rparr>"
  "Z_MID (tm_header (z_t_msg_make_init_ack v zb [])) = MID_T_INIT" "HAS_FLAG (tm_header (z_t_msg_make_init_ack v zb [])) FLAG_T_INIT_A"
  "Z_MID (tm_header (z_t_msg_make_init_syn v zb)) = MID_T_INIT" "\<not> HAS_FLAG (tm_header (z_t_msg_make_init_syn v zb)) FLAG_T_INIT_A"
  "Z_MID (tm_header (z_t_msg_make_open_syn lease sn [])) = MID_T_OPEN" "\<not> HAS_FLAG (tm_header (z_t_msg_make_open_syn lease sn [])) FLAG_T_INIT_A"
  "open_fields E (z_t_msg_make_open_syn lease sn []) = (lease, sn)" "open_fields E (z_t_msg_make_open_ack lease sn) = (lease, sn)"
  by (simp_all add: init_body_def open_fields_def z_t_msg_make_init_ack_def z_t_msg_make_init_syn_def z_t_msg_make_open_syn_def
      z_t_msg_make_open_ack_def init_flags_def Z_MID_def HAS_FLAG_def Let_def)

text \<open>What each side has at the end.\<close>

definition opened :: "z_establish_param \<Rightarrow> u8 \<Rightarrow> u32 \<Rightarrow> u32 \<Rightarrow> z_id \<Rightarrow> u32 \<Rightarrow> u32 \<Rightarrow> z_establish_param" where
  "opened p key mode v zid lease sn =
     p\<lparr>ep_seq_num_res := 2, ep_req_id_res := 32, ep_batch_size := 2048, ep_patch := 1, ep_key_id_res := key, ep_remote_whatami := v,
       ep_initial_sn_tx := (if mode = WHATAMI_CLIENT then 0 else ep_initial_sn_tx p), ep_remote_zid := zid,
       ep_lease := least_lease lease, ep_initial_sn_rx := sn\<rparr>"

definition listened :: "z_establish_param \<Rightarrow> u8 \<Rightarrow> u32 \<Rightarrow> z_id \<Rightarrow> u32 \<Rightarrow> u32 \<Rightarrow> z_establish_param" where
  "listened q key v zid lease sn =
     q\<lparr>ep_seq_num_res := 2, ep_req_id_res := 32, ep_batch_size := 2048, ep_key_id_res := key, ep_remote_whatami := v,
       ep_remote_zid := zid, ep_lease := least_lease lease, ep_initial_sn_rx := sn\<rparr>"

lemma short_send:
  assumes "heap_full H" "tm_ok msg" "length (tm_wire msg) \<le> 48" "64 \<le> unat mtu"
  shows "\<exists>h'. z_link_send_t_msg H (pipe mtu) msg (inp, out) h = Some (Z_OK, (inp, out @ on_link True (tm_wire msg)), h')"
  using pipe_send [OF assms(1) message_emits [OF assms(2)], of mtu inp out h] assms(3,4) by simp

lemma short_recv:
  assumes "heap_full H" "tm_ok msg" "length (tm_wire msg) \<le> 48"
  shows "\<exists>h'. z_link_recv_t_msg H False (pipe mtu) (on_link True (tm_wire msg) @ rest, out) h = Some (Inr msg, (rest, out), h')"
  using pipe_recv_msg [OF assms(1,2), of mtu rest out h] assms(3) by simp

text \<open>Whatever short message answers the second one.\<close>

lemma opener_second:
  fixes p :: z_establish_param and mode :: u32
  assumes H: "heap_full H" and mtu: "64 \<le> unat mtu" and key: "res_bits (ep_key_id_res p) = Some key" "ep_req_id_res p = 2" "ep_seq_num_res p = 2"
    and rnd: "\<And>l. snd (hs_random E l) = l" and ack: "init_cookie ack = []"
    and oam: "tm_ok oam" "length (tm_wire oam) \<le> 48" "open_fields E oam = (lease, sn)"
  defines "s \<equiv> if mode = WHATAMI_CLIENT then 0 else ep_initial_sn_tx p"
  shows "\<exists>h'. handshake_open_syn H False E (pipe mtu) p ack mode (on_link True (tm_wire oam) @ rest, out) h =
    Some (Z_OK, p\<lparr>ep_key_id_res := key, ep_req_id_res := 32, ep_initial_sn_tx := s, ep_remote_zid := init_zid ack, ep_lease := least_lease lease,
      ep_initial_sn_rx := sn\<rparr>, (rest, out @ on_link True (tm_wire (z_t_msg_make_open_syn 10000 s []))), h')"
proof -
  let ?oack = "on_link True (tm_wire oam)" and ?out = "out @ on_link True (tm_wire (z_t_msg_make_open_syn 10000 s []))"
  obtain h1 where 1: "z_link_send_t_msg H (pipe mtu) (z_t_msg_make_open_syn 10000 s []) (?oack @ rest, out) h = Some (Z_OK, (?oack @ rest, ?out), h1)"
    using short_send [OF H open_fits(1,3) mtu] by blast
  obtain h2 where 2: "z_link_recv_t_msg H False (pipe mtu) (?oack @ rest, ?out) h1 = Some (Inr oam, (rest, ?out), h2)"
    using short_recv [OF H oam(1,2)] by blast
  have r: "random_sn E q l = (q\<lparr>ep_initial_sn_tx := 0\<rparr>, l)" if "ep_seq_num_res q = 2" for q l
    using that rnd [of l] by (simp add: random_sn_def z_sn_modulo_mask_def split_beta)
  have b: "res_bits 2 = Some 32" by (simp add: res_bits_def)
  show ?thesis
  proof (cases "mode = WHATAMI_CLIENT")
    case True
    then show ?thesis
      using 1 2 by (simp add: handshake_open_syn_def key b r copy_cookie_def ack oam(3) s_def)
  next
    case False
    then show ?thesis
      using 1 2 by (simp add: handshake_open_syn_def key b copy_cookie_def ack oam(3) s_def)
  qed
qed

lemma opener:
  assumes H: "heap_full H" and zid: "zid_ok za" "zid_ok zb" "whatami_valid mode" "whatami_valid v" and mtu: "64 \<le> unat mtu"
    and key: "res_bits (ep_key_id_res p) = Some key" and rnd: "\<And>l. snd (hs_random E l) = l"
    and oam: "tm_ok oam" "length (tm_wire oam) \<le> 48" "open_fields E oam = (lease, sn)"
  shows "\<exists>h'. z_unicast_handshake_open H False E (pipe mtu) p za mode
      (on_link True (tm_wire (z_t_msg_make_init_ack v zb [])) @ on_link True (tm_wire oam) @ rest, out) h =
    Some (Z_OK, opened p key mode v zb lease sn, (rest, out @ on_link True (tm_wire (z_t_msg_make_init_syn mode za)) @
      on_link True (tm_wire (z_t_msg_make_open_syn 10000 (if mode = WHATAMI_CLIENT then 0 else ep_initial_sn_tx p) []))), h')"
proof -
  let ?oack = "on_link True (tm_wire oam)" and ?out = "out @ on_link True (tm_wire (z_t_msg_make_init_syn mode za))"
  note f = init_fits [OF zid(1,3)] init_fits [OF zid(2,4)]
  obtain h1 where 1: "z_link_send_t_msg H (pipe mtu) (z_t_msg_make_init_syn mode za)
      (on_link True (tm_wire (z_t_msg_make_init_ack v zb [])) @ ?oack @ rest, out) h =
    Some (Z_OK, (on_link True (tm_wire (z_t_msg_make_init_ack v zb [])) @ ?oack @ rest, ?out), h1)"
    using short_send [OF H f(1,3) mtu] by blast
  obtain h2 where 2: "z_link_recv_t_msg H False (pipe mtu) (on_link True (tm_wire (z_t_msg_make_init_ack v zb [])) @ ?oack @ rest, ?out) h1 =
    Some (Inr (z_t_msg_make_init_ack v zb []), (?oack @ rest, ?out), h2)"
    using short_recv [OF H f(6,8)] by blast
  let ?p = "p\<lparr>ep_seq_num_res := 2, ep_req_id_res := 2, ep_batch_size := 2048, ep_remote_whatami := v, ep_patch := 1\<rparr>"
  let ?ack = "\<lparr>init_zid = zb, init_cookie = [], init_batch_size = 2048, init_whatami = v, init_req_id_res = 2, init_seq_num_res = 2,
    init_version = 9, init_patch = 1\<rparr> :: z_t_msg_init"
  have k: "res_bits (ep_key_id_res ?p) = Some key" "ep_req_id_res ?p = 2" "ep_seq_num_res ?p = 2" "init_cookie ?ack = []" using key by simp_all
  obtain h3 where 3: "handshake_open_syn H False E (pipe mtu) ?p ?ack mode (?oack @ rest, ?out) h2 =
    Some (Z_OK, ?p\<lparr>ep_key_id_res := key, ep_req_id_res := 32, ep_initial_sn_tx := (if mode = WHATAMI_CLIENT then 0 else ep_initial_sn_tx ?p),
      ep_remote_zid := init_zid ?ack, ep_lease := least_lease lease, ep_initial_sn_rx := sn\<rparr>,
      (rest, ?out @ on_link True (tm_wire (z_t_msg_make_open_syn 10000 (if mode = WHATAMI_CLIENT then 0 else ep_initial_sn_tx ?p) []))), h3)"
    using opener_second [OF H mtu k(1-3) rnd k(4) oam] by blast
  have "z_unicast_handshake_open H False E (pipe mtu) p za mode (on_link True (tm_wire (z_t_msg_make_init_ack v zb [])) @ ?oack @ rest, out) h =
      handshake_open_syn H False E (pipe mtu) ?p ?ack mode (?oack @ rest, ?out) h2"
    using 1 2 by (cases p) (simp add: z_unicast_handshake_open_def handshake_messages accept_ack_def Let_def)
  then show ?thesis unfolding 3 by (cases p) (simp add: opened_def)
qed

lemma listener:
  assumes H: "heap_full H" and zid: "zid_ok za" "zid_ok zb" "whatami_valid mode" and mtu: "64 \<le> unat mtu"
    and key: "res_bits (ep_key_id_res q) = Some key"
  shows "\<exists>h'. z_unicast_handshake_listen H False E (pipe mtu) q zb WHATAMI_PEER
      (on_link True (tm_wire (z_t_msg_make_init_syn mode za)) @ on_link True (tm_wire (z_t_msg_make_open_syn lease sn [])) @ rest, out) h =
    Some (Z_OK, listened q key mode za lease sn, (rest, out @ on_link True (tm_wire (z_t_msg_make_init_ack WHATAMI_PEER zb [])) @
      on_link True (tm_wire (z_t_msg_make_open_ack 10000 (ep_initial_sn_tx q)))), h')"
proof -
  have v: "whatami_valid WHATAMI_PEER" by (simp add: whatami_valid_def)
  let ?osyn = "on_link True (tm_wire (z_t_msg_make_open_syn lease sn []))"
  let ?out = "out @ on_link True (tm_wire (z_t_msg_make_init_ack WHATAMI_PEER zb []))"
  note f = init_fits [OF zid(1,3)] init_fits [OF zid(2) v]
  obtain h1 where 1: "z_link_recv_t_msg H False (pipe mtu) (on_link True (tm_wire (z_t_msg_make_init_syn mode za)) @ ?osyn @ rest, out) h =
    Some (Inr (z_t_msg_make_init_syn mode za), (?osyn @ rest, out), h1)"
    using short_recv [OF H f(1,3)] by blast
  obtain h2 where 2: "z_link_send_t_msg H (pipe mtu) (z_t_msg_make_init_ack WHATAMI_PEER zb []) (?osyn @ rest, out) h1 =
    Some (Z_OK, (?osyn @ rest, ?out), h2)"
    using short_send [OF H f(6,8) mtu] by blast
  obtain h3 where 3: "z_link_recv_t_msg H False (pipe mtu) (?osyn @ rest, ?out) h2 = Some (Inr (z_t_msg_make_open_syn lease sn []), (rest, ?out), h3)"
    using short_recv [OF H open_fits(1,3)] by blast
  obtain h4 where 4: "z_link_send_t_msg H (pipe mtu) (z_t_msg_make_open_ack 10000 (ep_initial_sn_tx q)) (rest, ?out) h3 =
    Some (Z_OK, (rest, ?out @ on_link True (tm_wire (z_t_msg_make_open_ack 10000 (ep_initial_sn_tx q)))), h4)"
    using short_send [OF H open_fits(2,4) mtu] by blast
  let ?q = "q\<lparr>ep_seq_num_res := 2, ep_req_id_res := 32, ep_batch_size := 2048, ep_remote_zid := za, ep_remote_whatami := mode, ep_key_id_res := key\<rparr>"
  have b: "res_bits 2 = Some 32" by (simp add: res_bits_def)
  have "z_unicast_handshake_listen H False E (pipe mtu) q zb WHATAMI_PEER
      (on_link True (tm_wire (z_t_msg_make_init_syn mode za)) @ ?osyn @ rest, out) h =
    handshake_listen_open H False E (pipe mtu) ?q (?osyn @ rest, ?out) h2"
    using 1 2 key by (cases q) (simp add: z_unicast_handshake_listen_def handshake_messages listen_ack_same listen_param_def b)
  also have "\<dots> = Some (Z_OK, ?q\<lparr>ep_lease := least_lease lease, ep_initial_sn_rx := sn\<rparr>,
      (rest, ?out @ on_link True (tm_wire (z_t_msg_make_open_ack 10000 (ep_initial_sn_tx q)))), h4)"
    using 3 4 by (simp add: handshake_listen_open_def handshake_messages)
  finally show ?thesis by (cases q) (simp add: listened_def)
qed

lemma both_sides:
  assumes heaps: "heap_full H" "heap_full K" and zid: "zid_ok za" "zid_ok zb" "whatami_valid mode" and mtu: "64 \<le> unat ma" "64 \<le> unat mb"
    and key: "ep_key_id_res p < 28" "ep_key_id_res q < 28" and rnd: "\<forall>l. snd (hs_random E l) = l"
  defines "sn \<equiv> if mode = WHATAMI_CLIENT then 0 else ep_initial_sn_tx p"
  shows "\<exists>there reply kp kq h' k'.
    z_unicast_handshake_open H False E (pipe ma) p za mode (reply, []) h =
      Some (Z_OK, opened p kp mode WHATAMI_PEER zb 10000 (ep_initial_sn_tx q), ([], there), h') \<and>
    z_unicast_handshake_listen K False F (pipe mb) q zb WHATAMI_PEER (there, []) k = Some (Z_OK, listened q kq mode za 10000 sn, ([], reply), k')"
proof -
  obtain kp kq where k: "res_bits (ep_key_id_res p) = Some kp" "res_bits (ep_key_id_res q) = Some kq" using key by (simp add: res_bits_def)
  have v: "whatami_valid WHATAMI_PEER" by (simp add: whatami_valid_def)
  have r: "snd (hs_random E l) = l" for l using rnd by blast
  show ?thesis
    using opener [OF heaps(1) zid v mtu(1) k(1) r open_fits(2,4) handshake_messages(10), of 10000 "ep_initial_sn_tx q" "[]" "[]" h, folded sn_def, unfolded append_Nil append_Nil2]
      listener [OF heaps(2) zid mtu(2) k(2), of F 10000 sn "[]" "[]" k, unfolded append_Nil append_Nil2]
    by blast
qed

text \<open>What the creation of a transport makes of its parameters.\<close>

lemma created:
  assumes H: "heap_full H" and b: "0 < unat (lk_mtu zl)" "0 < unat (ep_batch_size p)"
  defines "cap \<equiv> min (unat (lk_mtu zl)) (unat (ep_batch_size p))"
  shows "\<exists>zt h'. z_unicast_transport_create H Z_OK Z_OK zl p h = Some (Z_OK, zt, h') \<and> tx_buf cap (tc_wbuf (tp_tx zt)) \<and>
    \<not> tc_batch_active (tp_tx zt) \<and> tc_stream (tp_tx zt) = (lk_flow zl = FLOW_STREAM) \<and> tc_sn_res (tp_tx zt) = z_sn_max (ep_seq_num_res p) \<and>
    (\<forall>r. tx_sn (tp_tx zt) r = ep_initial_sn_tx p) \<and> rx_buf (unat (ep_batch_size p)) (zu_zbuf (tp_rx zt)) \<and> zb_data (zu_zbuf (tp_rx zt)) = [] \<and>
    zu_flow (tp_rx zt) = lk_flow zl \<and> zu_sn_res (tp_rx zt) = z_sn_max (ep_seq_num_res p) \<and> tp_lease zt = ep_lease p \<and> tp_peers zt = []"
proof -
  have "cap \<le> unat (lk_mtu zl)" by (simp add: cap_def)
  then have "cap < 65536" using unat_u16_less by (rule le_less_trans)
  then have cap: "0 < cap" "cap \<le> SIZE_MAX" "unat (if lk_mtu zl < ep_batch_size p then lk_mtu zl else ep_batch_size p) = cap"
    using b by (simp_all add: SIZE_MAX_def) (simp_all add: cap_def word_less_nat_alt min_def)
  have "heap_ok H" using H by (simp add: heap_full_def)
  then obtain w h1 where w: "z_wbuf_make H cap False h = Some (w, h1)" "z_wbuf_capacity w = Some cap" "tx_buf cap w"
    using make_tx_buf [of H cap h] cap(1,2) H by auto
  obtain zbf h2 where z: "z_zbuf_make H (unat (ep_batch_size p)) h1 = (zbf, h2)" "ios_r_pos (zb_ios zbf) = 0" "ios_w_pos (zb_ios zbf) = 0"
    "ios_capacity (zb_ios zbf) = unat (ep_batch_size p)" "length (ios_buf (zb_ios zbf)) = unat (ep_batch_size p)"
    using heap_room [OF H] by blast
  have "rx_buf (unat (ep_batch_size p)) zbf" "zb_data zbf = []" "z_zbuf_capacity zbf = unat (ep_batch_size p)"
    using z(2-5) by (simp_all add: rx_buf_def zb_ok_def ios_ok_def zb_data_def ios_data_def slice_def z_zbuf_capacity_def)
  then show ?thesis
    using w z(1) unfolding z_unicast_transport_create_def z_unicast_transport_create_inner_def Let_def cap(3)
    by (simp add: zero_transport_def tx_sn_def)
qed

section \<open>Properties\<close>

text \<open>
  C27: two sides that meet over a stream, one that opens and one that listens, both finish and agree: on the resolution
  of the numbers, the size of a batch and the lease, on who they are, and each expects the number that the other will
  start with. Of a client this is always 0, in spite of the random numbers. Memory is granted, identifiers are not zero, MTUs are 64 or
  more, operands are evaluated from left to right and the resolution fields that the code shifts by, of which a client's is not
  initialised, are below 28. The listener forgets the version of the fragmentation that
  both of them know, and keeps what was in its record before.
\<close>

theorem handshake_agrees:
  assumes "heap_full H" "heap_full K" "zid_ok za" "zid_ok zb" "whatami_valid mode" "64 \<le> unat ma" "64 \<le> unat mb"
    and "ep_key_id_res p < 28" "ep_key_id_res q < 28" "\<forall>l. snd (hs_random E l) = l"
  shows "\<exists>there reply p' q' h' k'.
    z_unicast_handshake_open H False E (pipe ma) p za mode (reply, []) h = Some (Z_OK, p', ([], there), h') \<and>
    z_unicast_handshake_listen K False F (pipe mb) q zb WHATAMI_PEER (there, []) k = Some (Z_OK, q', ([], reply), k') \<and>
    ep_seq_num_res p' = 2 \<and> ep_seq_num_res q' = 2 \<and> ep_batch_size p' = 2048 \<and> ep_batch_size q' = 2048 \<and> ep_lease p' = 10000 \<and> ep_lease q' = 10000 \<and>
    ep_remote_zid p' = zb \<and> ep_remote_zid q' = za \<and> ep_remote_whatami p' = WHATAMI_PEER \<and> ep_remote_whatami q' = mode \<and>
    ep_initial_sn_rx p' = ep_initial_sn_tx q' \<and> ep_initial_sn_rx q' = ep_initial_sn_tx p' \<and> ep_initial_sn_tx q' = ep_initial_sn_tx q \<and>
    (if mode = WHATAMI_CLIENT then ep_initial_sn_tx p' = 0 else ep_initial_sn_tx p' = ep_initial_sn_tx p) \<and>
    ep_patch p' = 1 \<and> ep_patch q' = ep_patch q"
proof -
  obtain there reply kp kq h' k' where
    "z_unicast_handshake_open H False E (pipe ma) p za mode (reply, []) h =
      Some (Z_OK, opened p kp mode WHATAMI_PEER zb 10000 (ep_initial_sn_tx q), ([], there), h')"
    "z_unicast_handshake_listen K False F (pipe mb) q zb WHATAMI_PEER (there, []) k =
      Some (Z_OK, listened q kq mode za 10000 (if mode = WHATAMI_CLIENT then 0 else ep_initial_sn_tx p), ([], reply), k')"
    using both_sides [OF assms] by blast
  then show ?thesis
    by (intro exI [of _ there] exI [of _ reply] exI [of _ "opened p kp mode WHATAMI_PEER zb 10000 (ep_initial_sn_tx q)"]
        exI [of _ "listened q kq mode za 10000 (if mode = WHATAMI_CLIENT then 0 else ep_initial_sn_tx p)"] exI [of _ h'] exI [of _ k'])
      (auto simp: opened_def listened_def least_lease_def)
qed

definition demo_env :: "(bytes \<times> bytes) z_handshake_env" where
  "demo_env = \<lparr>hs_random = \<lambda>l. (0x1234, l), hs_union = \<lambda>m. (0, 0)\<rparr>"

definition demo_zid :: "u8 \<Rightarrow> z_id" where
  "demo_zid x = replicate 16 x"

lemma demo_ids: "zid_ok (demo_zid 1)" "zid_ok (demo_zid 2)" "whatami_valid WHATAMI_CLIENT" "ep_key_id_res zero_param < 28"
    "\<forall>l. snd (hs_random demo_env l) = l" "heap_full demo_heap"
  by (simp_all add: zid_ok_def demo_zid_def whatami_valid_def zero_param_def demo_env_def heap_full_def heap_ok_def heap_gives_def malloc_ok_def
      demo_heap_def z_iosli_size_def)

theorem handshake_agrees_witness:
  "\<exists>there reply p' q' h' k'.
    z_unicast_handshake_open demo_heap False demo_env (pipe 1500) zero_param (demo_zid 1) WHATAMI_CLIENT (reply, []) () = Some (Z_OK, p', ([], there), h') \<and>
    z_unicast_handshake_listen demo_heap False demo_env (pipe 100) zero_param (demo_zid 2) WHATAMI_PEER (there, []) () = Some (Z_OK, q', ([], reply), k') \<and>
    ep_initial_sn_rx p' = ep_initial_sn_tx q' \<and> ep_initial_sn_rx q' = ep_initial_sn_tx p' \<and> ep_patch p' = 1 \<and> ep_patch q' = 0"
proof -
  have "64 \<le> unat (1500 :: u16)" "64 \<le> unat (100 :: u16)" "ep_patch zero_param = 0" by (simp_all add: zero_param_def)
  then show ?thesis
    using handshake_agrees [OF demo_ids(6,6,1-3) _ _ demo_ids(4,4,5), of 1500 100 "()" demo_env "()"] by auto
qed

text \<open>
  C25: from nothing to a message: a client opens to a node that listens, both make their transports, and the first message of the node
  comes out at the client exactly once, in one frame or in fragments, however the network cuts the stream. That holds for a message that fits
  a frame or is at most \<open>Z_FRAG_MAX_SIZE\<close> (4096) bytes long: a longer one is dropped by the receiver. The rest is about the
  surroundings: memory is granted to both sides, their identifiers are not zero and their links have an MTU of 64 or more; the network
  layer's decoder (\<open>decodes\<close>) takes the bytes for \<open>msg\<close> and the session's callback succeeds; the operands of the additions
  in the decoder are evaluated from left to right (\<open>swap\<close> is false); and \<open>_key_id_res\<close>, which a client never initialises
  and the handshake shifts by, is below 28.
\<close>

theorem handshake_then_delivery:
  fixes r :: z_reliability and mb :: u16 and wire :: bytes
  defines "fits \<equiv> 4 + length wire \<le> min (unat mb) 2048"
  defines "c \<equiv> (if fits then r else if r = RELIABLE then BEST_EFFORT else RELIABLE)"
  assumes nodes: "heap_full H" "heap_full K" "zid_ok za" "zid_ok zb" "64 \<le> unat ma" "64 \<le> unat mb" "ep_key_id_res p < 28"
      "\<forall>l. snd (hs_random E l) = l"
    and node: "recording tx peers" "carries tx m wire"
    and client: "honest read" "decodes rx parse" "parse wire = Some (msg, [])" "fits \<or> length wire \<le> Z_FRAG_MAX_SIZE"
      "rx_handle rx msg c s = (Z_OK, s')"
  shows "\<exists>there reply p' q' b A B ztu peer sent n h1 k1 l' k2 h2 k3 ztc' k4 ztu' peer' h3.
    z_unicast_open_client H False E (pipe ma) p za (reply, []) h = Some (Z_OK, p', ([], there), h1) \<and>
    z_unicast_handshake_listen K False F (pipe mb) zero_param zb WHATAMI_PEER (there, []) k = Some (Z_OK, q', ([], reply), k1) \<and>
    z_unicast_open_peer K False F (pipe mb) zero_param zb False l k1 = Some (Z_OK, b, l', k2) \<and>
    z_unicast_transport_create H Z_OK Z_OK (pipe ma) p' h1 = Some (Z_OK, A, h2) \<and>
    z_unicast_transport_create K Z_OK Z_OK (pipe mb) b k2 = Some (Z_OK, B, k3) \<and>
    z_transport_peer_unicast_add True (tp_rx A) p' socket False [] = (Z_OK, ztu, [peer]) \<and>
    z_transport_tx_send_n_msg_inner tx (tp_tx B) m r peers [] k3 = Some (Z_OK, ztc', sent, k4) \<and>
    client_turns rx H False read n ztu peer s (concat sent) h2 = Some (False, ztu', peer', s', [], h3)"
proof -
  have w: "whatami_valid WHATAMI_CLIENT" by (simp add: whatami_valid_def)
  have key0: "ep_key_id_res zero_param < 28" by (simp add: zero_param_def)
  obtain there reply kp kq h1 k1 where 1: "z_unicast_handshake_open H False E (pipe ma) p za WHATAMI_CLIENT (reply, []) h =
      Some (Z_OK, opened p kp WHATAMI_CLIENT WHATAMI_PEER zb 10000 (ep_initial_sn_tx zero_param), ([], there), h1)"
    "z_unicast_handshake_listen K False F (pipe mb) zero_param zb WHATAMI_PEER (there, []) k =
      Some (Z_OK, listened zero_param kq WHATAMI_CLIENT za 10000 0, ([], reply), k1)"
    using both_sides [OF nodes(1-4) w nodes(5-7) key0 nodes(8), of h F k] by auto
  let ?p = "opened p kp WHATAMI_CLIENT WHATAMI_PEER zb 10000 (ep_initial_sn_tx zero_param)"
  have p: "ep_batch_size ?p = 2048" "ep_seq_num_res ?p = 2" "ep_initial_sn_rx ?p = 0" "ep_patch ?p = 1"
    by (simp_all add: opened_def zero_param_def)
  let ?b = "zero_param\<lparr>ep_lease := 10000, ep_batch_size := 2048, ep_seq_num_res := 2\<rparr>"
  obtain l' where 2: "z_unicast_open_peer K False F (pipe mb) zero_param zb False l k1 = Some (Z_OK, ?b, l', k1)"
    by (cases "hs_random F l") (simp add: z_unicast_open_peer_def random_sn_def zero_param_def z_sn_modulo_mask_def)
  have b: "ep_batch_size ?b = 2048" "ep_seq_num_res ?b = 2" "ep_initial_sn_tx ?b = 0" by (simp_all add: zero_param_def)
  obtain A h2 where A: "z_unicast_transport_create H Z_OK Z_OK (pipe ma) ?p h1 = Some (Z_OK, A, h2)" "rx_buf 2048 (zu_zbuf (tp_rx A))"
    "zb_data (zu_zbuf (tp_rx A)) = []" "zu_flow (tp_rx A) = FLOW_STREAM" "zu_sn_res (tp_rx A) = z_sn_max 2"
    using created [OF nodes(1), of "pipe ma" ?p h1] nodes(5) p by auto
  obtain B k3 where B: "z_unicast_transport_create K Z_OK Z_OK (pipe mb) ?b k1 = Some (Z_OK, B, k3)" "tx_buf (min (unat mb) 2048) (tc_wbuf (tp_tx B))"
    "\<not> tc_batch_active (tp_tx B)" "tc_stream (tp_tx B)" "tc_sn_res (tp_tx B) = z_sn_max 2" "tx_sn (tp_tx B) r = 0"
    using created [OF nodes(2), of "pipe mb" ?b k1] nodes(6) b by auto
  let ?ztu = "z_transport_peer_mutex_unlock (z_transport_peer_mutex_lock (tp_rx A))"
  let ?peer = "fill_peer (z_sn_max 2) ?p socket False"
  have add: "z_transport_peer_unicast_add True (tp_rx A) ?p socket False [] = (Z_OK, ?ztu, [?peer])"
    using A(5) by (simp add: z_transport_peer_unicast_add_def z_transport_peer_mutex_lock_def)
  have ready: "client_ready 2048 2 ?ztu ?peer"
    using A(2-5) p(4) by (simp add: client_ready_def SIZE_MAX_def z_transport_peer_mutex_lock_def z_transport_peer_mutex_unlock_def
        fill_peer_def Let_def peer_ok_def chan_ok_def dbuf_state_def dbuf_def)
  have sn: "z_sn_increment (z_sn_max 2) (rx_sn c ?peer) = tx_sn (tp_tx B) r" "dbuf_state c ?peer \<noteq> DBUF_OVERFLOW"
    using p(3) B(6) by (simp_all add: fill_peer_def Let_def rx_sn_def z_sn_increment_def z_sn_decrement_def z_sn_max_def dbuf_state_def)
  have fl: "length (frame_head (tx_sn (tp_tx B) r) r) = 2" unfolding B(6) by (simp add: frame_head_def vle_8)
  have fits: "fits \<longleftrightarrow> 2 + length (frame_head (tx_sn (tp_tx B) r) r) + length wire \<le> min (unat mb) 2048" unfolding fits_def fl by simp
  have cap: "13 < min (unat mb) 2048" "min (unat mb) 2048 \<le> 65536" "min (unat mb) 2048 \<le> 2048" using nodes(6) by simp_all
  obtain ztc' sent k4 n ztu' peer' h3 where 3: "z_transport_tx_send_n_msg_inner tx (tp_tx B) m r peers [] k3 = Some (Z_OK, ztc', sent, k4)"
    "client_turns rx H False read n ?ztu ?peer s (concat sent) h2 = Some (False, ztu', peer', s', [], h3)"
    using delivery [OF B(2) cap(1,2) node B(3,4) ready client(1) nodes(1) client(2) B(5) cap(3), where r = r,
        folded fits c_def, OF sn(1) client(3,4) sn(2) client(5)] by blast
  show ?thesis unfolding z_unicast_open_client_def by (intro exI conjI) (rule 1 2 A(1) B(1) add 3)+
qed

theorem handshake_then_delivery_witness:
  "\<exists>there reply p' q' b l' A B ztu peer sent n ztc' ztu' peer'.
    z_unicast_open_client demo_heap False demo_env (pipe 1500) zero_param (demo_zid 1) (reply, []) () = Some (Z_OK, p', ([], there), ()) \<and>
    z_unicast_handshake_listen demo_heap False demo_env (pipe 100) zero_param (demo_zid 2) WHATAMI_PEER (there, []) () = Some (Z_OK, q', ([], reply), ()) \<and>
    z_unicast_open_peer demo_heap False demo_env (pipe 100) zero_param (demo_zid 2) False ([], []) () = Some (Z_OK, b, l', ()) \<and>
    z_unicast_transport_create demo_heap Z_OK Z_OK (pipe 1500) p' () = Some (Z_OK, A, ()) \<and>
    z_unicast_transport_create demo_heap Z_OK Z_OK (pipe 100) b () = Some (Z_OK, B, ()) \<and>
    z_transport_peer_unicast_add True (tp_rx A) p' 3 False [] = (Z_OK, ztu, [peer]) \<and>
    z_transport_tx_send_n_msg_inner demo_tx (tp_tx B) (replicate 120 7) RELIABLE None [] () = Some (Z_OK, ztc', sent, ()) \<and>
    client_turns demo_rx demo_heap False stream_reader n ztu peer [] (concat sent) () = Some (False, ztu', peer', [replicate 120 7], [], ())"
proof -
  have m: "64 \<le> unat (1500 :: u16)" "64 \<le> unat (100 :: u16)" by simp_all
  have tx: "recording demo_tx None" "carries demo_tx (replicate 120 7) (replicate 120 7)"
    using demo_carries [of "replicate 120 7"] by (simp_all add: recording_def demo_tx_def send_wbuf_def)
  have rx: "demo_parse (replicate 120 7) = Some (replicate 120 7, [])" "rx_handle demo_rx (replicate 120 7) BEST_EFFORT [] = (Z_OK, [replicate 120 7])"
    by (simp_all add: demo_parse_def demo_rx_def)
  have c: "(if 4 + length (replicate 120 (7 :: u8)) \<le> min (unat (100 :: u16)) 2048 then RELIABLE
      else if RELIABLE = RELIABLE then BEST_EFFORT else RELIABLE) = BEST_EFFORT" by simp
  show ?thesis
    using handshake_then_delivery [OF demo_ids(6,6,1,2) m demo_ids(4,5) tx stream_reader_honest demo_decodes rx(1), where r = RELIABLE,
        unfolded c, OF _ rx(2), where F = demo_env and l = "([], [])" and socket = 3 and h = "()" and k = "()"]
    by simp
qed

end
