(* ===== verification/ZNetMsg.thy ===== *)
theory ZNetMsg
  imports ZMsg
begin

text \<open>
  The messages of the zenoh layer: their fields and bodies (\<open>protocol/core.h\<close>, \<open>protocol/definitions/message.h\<close>
  and \<open>.c\<close>) and their codec (\<open>protocol/codec/message.c\<close>).

  \<open>mem n\<close> tells whether the allocations for \<open>n\<close> bytes succeed. An extension is decoded from its slice; reading
  past its end is undefined here, as it is for the block that is received.
\<close>

section \<open>Sequences of steps\<close>

text \<open>A function that returns at the first error, and a step under a condition.\<close>

type_synonym 'h step = "z_wbuf \<Rightarrow> 'h \<Rightarrow> 'h encoded"

fun in_turn :: "'h step list \<Rightarrow> 'h step" where
  "in_turn [] wbf h = Some (Z_OK, wbf, h)"
| "in_turn (f # fs) wbf h = if_ok (f wbf h) (in_turn fs)"

definition only_if :: "bool \<Rightarrow> 'h step \<Rightarrow> 'h step" where
  "only_if b f wbf h = (if b then f wbf h else Some (Z_OK, wbf, h))"

definition decode_if :: "bool \<Rightarrow> (z_zbuf \<Rightarrow> 'a decoded) \<Rightarrow> 'a \<Rightarrow> z_zbuf \<Rightarrow> 'a decoded" where
  "decode_if b d x zbf = (if b then d zbf else Some (Inr x, zbf))"

text \<open>A callback that decodes the body of the extension with \<open>d\<close> and puts the value into the message.\<close>

definition ext_slice :: "z_msg_ext \<Rightarrow> (bytes \<Rightarrow> (z_res \<times> 'c) option) \<Rightarrow> (z_res \<times> 'c) option" where
  "ext_slice ext f = (case ext_body ext of Ext_zbuf s \<Rightarrow> f s | _ \<Rightarrow> None)"

definition ext_number :: "z_msg_ext \<Rightarrow> (u64 \<Rightarrow> (z_res \<times> 'c) option) \<Rightarrow> (z_res \<times> 'c) option" where
  "ext_number ext f = (case ext_body ext of Ext_zint v \<Rightarrow> f v | _ \<Rightarrow> None)"

definition slice_into :: "(z_zbuf \<Rightarrow> 'a decoded) \<Rightarrow> ('a \<Rightarrow> 'c) \<Rightarrow> 'c \<Rightarrow> bytes \<Rightarrow> (z_res \<times> 'c) option" where
  "slice_into d f c s = do {
     (r, _) \<leftarrow> d (z_slice_as_zbuf s);
     (case r of Inl e \<Rightarrow> Some (e, c) | Inr x \<Rightarrow> Some (Z_OK, f x)) }"

definition ext_unknown :: "z_msg_ext \<Rightarrow> 'c \<Rightarrow> (z_res \<times> 'c) option" where
  "ext_unknown ext c = Some (if EXT_IS_MANDATORY (ext_header ext) then z_msg_ext_unknown_error else Z_OK, c)"

section \<open>Fields\<close>

record z_timestamp =
  ts_valid :: bool
  ts_id :: z_id
  ts_time :: u64

definition z_timestamp_null :: z_timestamp where
  "z_timestamp_null = \<lparr>ts_valid = False, ts_id = z_id_empty, ts_time = 0\<rparr>"

definition z_timestamp_check :: "z_timestamp \<Rightarrow> bool" where "z_timestamp_check ts = ts_valid ts"

text \<open>The number space of a resource: the own one (0), that of a peer (its address), or a placeholder (the address of \<open>empty_id\<close>).\<close>

datatype z_mapping = Mapping_local | Mapping_peer nat | Mapping_unknown_remote

record z_wireexpr =
  we_id :: u16
  we_mapping :: z_mapping
  we_suffix :: bytes

definition z_wireexpr_null :: z_wireexpr where
  "z_wireexpr_null = \<lparr>we_id = 0, we_mapping = Mapping_local, we_suffix = []\<rparr>"

definition z_wireexpr_is_local :: "z_wireexpr \<Rightarrow> bool" where "z_wireexpr_is_local ke \<longleftrightarrow> we_mapping ke = Mapping_local"
definition z_wireexpr_has_suffix :: "z_wireexpr \<Rightarrow> bool" where "z_wireexpr_has_suffix ke \<longleftrightarrow> z_string_check (we_suffix ke)"
definition z_wireexpr_check :: "z_wireexpr \<Rightarrow> bool" where
  "z_wireexpr_check ke \<longleftrightarrow> z_string_check (we_suffix ke) \<or> we_id ke \<noteq> 0"

record z_source_info =
  si_zid :: z_id
  si_eid :: u32
  si_sn :: u32

definition z_source_info_null :: z_source_info where
  "z_source_info_null = \<lparr>si_zid = z_id_empty, si_eid = 0, si_sn = 0\<rparr>"

definition z_id_check :: "z_id \<Rightarrow> bool" where "z_id_check i \<longleftrightarrow> i \<noteq> z_id_empty"
definition z_bytes_check :: "bytes list \<Rightarrow> bool" where "z_bytes_check bs \<longleftrightarrow> \<not> list_all (\<lambda>s. length s = 0) bs"
definition z_encoding_null :: z_encoding where "z_encoding_null = \<lparr>enc_id = 0, enc_schema = []\<rparr>"
definition z_encoding_check :: "z_encoding \<Rightarrow> bool" where
  "z_encoding_check en \<longleftrightarrow> enc_id en \<noteq> 0 \<or> z_string_check (enc_schema en)"

text \<open>The test that is written out wherever a source info may be sent.\<close>

definition info_needed :: "z_source_info \<Rightarrow> bool" where
  "info_needed si \<longleftrightarrow> z_id_check (si_zid si) \<or> si_eid si \<noteq> 0 \<or> si_sn si \<noteq> 0"

section \<open>Bytes of a slice\<close>

definition z_slice_copy :: "(nat \<Rightarrow> bool) \<Rightarrow> bytes \<Rightarrow> z_res + bytes" where
  "z_slice_copy mem s = (if length s = 0 \<or> mem (length s) then Inr s else Inl Z_ERR_SYSTEM_OUT_OF_MEMORY)"

definition z_bytes_from_slice :: "(nat \<Rightarrow> bool) \<Rightarrow> bytes \<Rightarrow> z_res + bytes list" where
  "z_bytes_from_slice mem s = (if mem (length s) then Inr [s] else Inl Z_ERR_SYSTEM_OUT_OF_MEMORY)"

definition z_bytes_from_buf :: "(nat \<Rightarrow> bool) \<Rightarrow> bytes \<Rightarrow> bytes list option" where
  "z_bytes_from_buf mem s =
     (if length s = 0 then Some []
      else case z_slice_copy mem s of
        Inl _ \<Rightarrow> None
      | Inr s \<Rightarrow> (case z_bytes_from_slice mem s of Inl _ \<Rightarrow> None | Inr bs \<Rightarrow> Some bs))"

text \<open>The slice of an extension is never an allocated one, so the callbacks copy it.\<close>

definition attachment_from :: "(nat \<Rightarrow> bool) \<Rightarrow> bytes \<Rightarrow> z_res + bytes list" where
  "attachment_from mem s = (case z_slice_copy mem s of Inl e \<Rightarrow> Inl e | Inr s \<Rightarrow> z_bytes_from_slice mem s)"

definition attach :: "(nat \<Rightarrow> bool) \<Rightarrow> (bytes list \<Rightarrow> 'c) \<Rightarrow> 'c \<Rightarrow> bytes \<Rightarrow> (z_res \<times> 'c) option" where
  "attach mem f c s = (case attachment_from mem s of Inl e \<Rightarrow> Some (e, c) | Inr bs \<Rightarrow> Some (Z_OK, f bs))"

section \<open>Codec of the fields\<close>

definition z_payload_encode :: "'h heap \<Rightarrow> bytes \<Rightarrow> 'h step" where
  "z_payload_encode H pld wbf h = z_slice_encode H wbf pld h"

definition z_payload_decode_na :: "z_zbuf \<Rightarrow> bytes decoded" where "z_payload_decode_na zbf = z_slice_decode zbf"
definition z_payload_decode :: "z_zbuf \<Rightarrow> bytes decoded" where "z_payload_decode zbf = z_payload_decode_na zbf"

definition z_id_encode_as_slice :: "'h heap \<Rightarrow> z_id \<Rightarrow> 'h step" where
  "z_id_encode_as_slice H i wbf h =
     (let len = z_id_len i
      in if len \<noteq> 0 then z_slice_encode H wbf (take len i) h else Some (Z_ERR_MESSAGE_ZENOH_UNKNOWN, wbf, h))"

text \<open>Neither the byte nor the length in it is checked; the identifier has 16 bytes.\<close>

definition z_id_decode_as_slice :: "z_id \<Rightarrow> z_zbuf \<Rightarrow> z_id decoded" where
  "z_id_decode_as_slice i zbf = do {
     (len, zbf) \<leftarrow> z_zbuf_read zbf;
     (i, zbf) \<leftarrow> z_zbuf_read_bytes zbf i 0 (unat len);
     i \<leftarrow> c_write i (unat len) (replicate (16 - unat len) 0);
     Some (Inr i, zbf) }"

definition z_timestamp_encode :: "'h heap \<Rightarrow> z_timestamp \<Rightarrow> 'h step" where
  "z_timestamp_encode H ts = in_turn [\<lambda>wbf. z_zint64_encode H wbf (ts_time ts), z_id_encode_as_slice H (ts_id ts)]"

definition z_timestamp_encode_ext :: "'h heap \<Rightarrow> z_timestamp \<Rightarrow> 'h step" where
  "z_timestamp_encode_ext H ts =
     in_turn [\<lambda>wbf. z_zsize_encode H wbf (z_zint_len (ts_time ts) + 1 + z_id_len (ts_id ts)), z_timestamp_encode H ts]"

definition z_timestamp_decode :: "z_timestamp \<Rightarrow> z_zbuf \<Rightarrow> z_timestamp decoded" where
  "z_timestamp_decode ts zbf =
     on_value (decode_both z_zint64_decode (z_id_decode_as_slice (ts_id ts)) zbf) (\<lambda>(t, i) zbf.
       Some (Inr \<lparr>ts_valid = True, ts_id = i, ts_time = t\<rparr>, zbf))"

definition z_wireexpr_encode :: "'h heap \<Rightarrow> bool \<Rightarrow> z_wireexpr \<Rightarrow> 'h step" where
  "z_wireexpr_encode H has_suffix fld =
     in_turn [\<lambda>wbf. z_zsize_encode H wbf (unat (we_id fld)), only_if has_suffix (\<lambda>wbf. z_string_encode H wbf (we_suffix fld))]"

definition z_wireexpr_decode :: "bool \<Rightarrow> bool \<Rightarrow> z_mapping \<Rightarrow> z_zbuf \<Rightarrow> z_wireexpr decoded" where
  "z_wireexpr_decode has_suffix remote_mapping mapping zbf =
     on_value (decode_both z_zint16_decode (decode_if has_suffix z_string_decode []) zbf) (\<lambda>(i, s) zbf.
       Some (Inr \<lparr>we_id = i, we_mapping = (if remote_mapping then mapping else Mapping_local), we_suffix = s\<rparr>, zbf))"

text \<open>The byte that tells the length of an identifier; without one it is that of 16 bytes.\<close>

definition zidlen_byte :: "nat \<Rightarrow> u8" where
  "zidlen_byte zidlen = push_bit 4 (of_nat zidlen - 1)"

definition z_source_info_encode_ext :: "'h heap \<Rightarrow> z_source_info \<Rightarrow> 'h step" where
  "z_source_info_encode_ext H info =
     (let zidlen = z_id_len (si_zid info);
          ext_size = 1 + zidlen + z_zint_len (ucast (si_eid info)) + z_zint_len (ucast (si_sn info))
      in in_turn [\<lambda>wbf. z_zsize_encode H wbf ext_size, \<lambda>wbf. z_uint8_encode H wbf (zidlen_byte zidlen),
           \<lambda>wbf. z_slice_val_encode H wbf (take zidlen (si_zid info)), \<lambda>wbf. z_zsize_encode H wbf (unat (si_eid info)),
           \<lambda>wbf. z_zsize_encode H wbf (unat (si_sn info))])"

text \<open>\<open>size_t\<close> has 32 bits, so the tests against \<open>UINT32_MAX\<close> never fail.\<close>

definition z_source_info_decode :: "z_zbuf \<Rightarrow> z_source_info decoded" where
  "z_source_info_decode zbf =
     on_value (z_uint8_decode zbf) (\<lambda>b zbf.
     on_value (zid_read (unat (drop_bit 4 b + 1)) zbf) (\<lambda>i zbf.
     on_value (z_zsize_decode zbf) (\<lambda>eid zbf.
     on_value (z_zsize_decode zbf) (\<lambda>sn zbf.
       Some (Inr \<lparr>si_zid = i, si_eid = of_nat eid, si_sn = of_nat sn\<rparr>, zbf)))))"

section \<open>Zenoh messages\<close>

record z_m_push_commons =
  pc_timestamp :: z_timestamp
  pc_source_info :: z_source_info

record z_msg_del =
  del_commons :: z_m_push_commons
  del_attachment :: "bytes list"

record z_msg_put =
  put_commons :: z_m_push_commons
  put_payload :: "bytes list"
  put_encoding :: z_encoding
  put_attachment :: "bytes list"

text \<open>
  The body is a union of the two. A deletion is the front of a publication, with its attachment where the payload is;
  what lies behind is not used.
\<close>

record z_push_body =
  pb_is_put :: bool
  pb_put :: z_msg_put

definition put_of_del :: "z_msg_del \<Rightarrow> z_msg_put" where
  "put_of_del d = \<lparr>put_commons = del_commons d, put_payload = del_attachment d, put_encoding = z_encoding_null, put_attachment = []\<rparr>"

definition del_of_put :: "z_msg_put \<Rightarrow> z_msg_del" where
  "del_of_put p = \<lparr>del_commons = put_commons p, del_attachment = put_payload p\<rparr>"

text \<open>Consolidation modes and targets are their values; -1 leaves the choice to the router.\<close>

abbreviation (input) CONSOLIDATION_DEFAULT :: u32 where "CONSOLIDATION_DEFAULT \<equiv> 0xFFFFFFFF"

record z_msg_query =
  q_parameters :: bytes
  q_ext_info :: z_source_info
  q_ext_value :: z_value
  q_consolidation :: u32
  q_ext_attachment :: "bytes list"
  q_implicit_anyke :: bool

record z_msg_query_reqexts =
  qx_info :: bool
  qx_body :: bool
  qx_attachment :: bool

record z_msg_reply =
  r_consolidation :: u32
  r_body :: z_push_body

record z_msg_err =
  e_encoding :: z_encoding
  e_ext_source_info :: z_source_info
  e_payload :: "bytes list"

definition z_msg_query_required_extensions :: "z_msg_query \<Rightarrow> z_msg_query_reqexts" where
  "z_msg_query_required_extensions msg =
     \<lparr>qx_info = info_needed (q_ext_info msg),
      qx_body = z_bytes_check (val_payload (q_ext_value msg)) \<or> z_encoding_check (val_encoding (q_ext_value msg)),
      qx_attachment = z_bytes_check (q_ext_attachment msg)\<rparr>"

text \<open>A header byte with flags that are set under a condition, and the flag for another extension.\<close>

definition flag_if :: "bool \<Rightarrow> u8 \<Rightarrow> u8" where
  "flag_if b f = (if b then f else 0)"

section \<open>Put and delete\<close>

definition z_push_body_encode :: "'h heap \<Rightarrow> z_push_body \<Rightarrow> 'h step" where
  "z_push_body_encode H pshb =
     (let put = pb_put pshb; commons = put_commons put; is_put = pb_is_put pshb;
          has_source_info = info_needed (pc_source_info commons);
          has_attachment = (is_put \<and> z_bytes_check (put_attachment put));
          has_timestamp = z_timestamp_check (pc_timestamp commons);
          has_encoding = (is_put \<and> z_encoding_check (put_encoding put));
          header = (if is_put then 0x01 else 0x02) OR flag_if (has_source_info \<or> has_attachment) 0x80 OR
            flag_if has_timestamp 0x20 OR flag_if has_encoding 0x40
      in in_turn [\<lambda>wbf. z_uint8_encode H wbf header,
           only_if has_timestamp (z_timestamp_encode H (pc_timestamp commons)),
           only_if has_encoding (\<lambda>wbf. z_encoding_encode H wbf (put_encoding put)),
           only_if has_source_info (in_turn [\<lambda>wbf. z_uint8_encode H wbf (0x41 OR flag_if has_attachment 0x80),
             z_source_info_encode_ext H (pc_source_info commons)]),
           only_if has_attachment (in_turn [\<lambda>wbf. z_uint8_encode H wbf 0x43, \<lambda>wbf. z_bytes_encode H wbf (put_attachment put)]),
           only_if is_put (\<lambda>wbf. z_bytes_encode H wbf (put_payload put))])"

definition with_info :: "z_source_info \<Rightarrow> z_push_body \<Rightarrow> z_push_body" where
  "with_info si b = b\<lparr>pb_put := (pb_put b)\<lparr>put_commons := (put_commons (pb_put b))\<lparr>pc_source_info := si\<rparr>\<rparr>\<rparr>"

definition with_timestamp :: "z_timestamp \<Rightarrow> z_push_body \<Rightarrow> z_push_body" where
  "with_timestamp ts b = b\<lparr>pb_put := (pb_put b)\<lparr>put_commons := (put_commons (pb_put b))\<lparr>pc_timestamp := ts\<rparr>\<rparr>\<rparr>"

definition z_push_body_decode_extensions :: "(nat \<Rightarrow> bool) \<Rightarrow> z_push_body ext_callback" where
  "z_push_body_decode_extensions mem ext pshb =
     (if EXT_FULL_ID (ext_header ext) = 0x41 then
        ext_slice ext (slice_into z_source_info_decode (\<lambda>si. with_info si pshb) pshb)
      else if EXT_FULL_ID (ext_header ext) = 0x43 then
        ext_slice ext (attach mem (\<lambda>bs. pshb\<lparr>pb_put := (pb_put pshb)\<lparr>put_attachment := bs\<rparr>\<rparr>) pshb)
      else ext_unknown ext pshb)"

text \<open>\<open>pshb\<close> is what the variable holds before, the fields that are not on the wire stay.\<close>

definition z_push_body_decode :: "(nat \<Rightarrow> bool) \<Rightarrow> z_push_body \<Rightarrow> u8 \<Rightarrow> z_zbuf \<Rightarrow> z_push_body decoded" where
  "z_push_body_decode mem pshb header zbf =
     (if Z_MID header = 0x01 then
        let pshb = pshb\<lparr>pb_is_put := True\<rparr> in
        on_value (decode_if (HAS_FLAG header 0x20) (z_timestamp_decode (pc_timestamp (put_commons (pb_put pshb))))
            (pc_timestamp (put_commons (pb_put pshb))) zbf) (\<lambda>ts zbf. let pshb = with_timestamp ts pshb in
        on_value (decode_if (HAS_FLAG header 0x40) (z_encoding_decode (put_encoding (pb_put pshb))) (put_encoding (pb_put pshb)) zbf) (\<lambda>en zbf.
        let pshb = pshb\<lparr>pb_put := (pb_put pshb)\<lparr>put_encoding := en\<rparr>\<rparr> in
        on_value (decode_if (HAS_FLAG header 0x80) (z_msg_ext_decode_iter (z_push_body_decode_extensions mem) pshb) pshb zbf) (\<lambda>pshb zbf.
        on_value (z_bytes_decode zbf) (\<lambda>pld zbf.
          Some (Inr (pshb\<lparr>pb_put := (pb_put pshb)\<lparr>put_payload := pld\<rparr>\<rparr>), zbf)))))
      else if Z_MID header = 0x02 then
        let pshb = pshb\<lparr>pb_is_put := False\<rparr> in
        on_value (decode_if (HAS_FLAG header 0x20) (z_timestamp_decode (pc_timestamp (put_commons (pb_put pshb))))
            (pc_timestamp (put_commons (pb_put pshb))) zbf) (\<lambda>ts zbf. let pshb = with_timestamp ts pshb in
        decode_if (HAS_FLAG header 0x80) (z_msg_ext_decode_iter (z_push_body_decode_extensions mem) pshb) pshb zbf)
      else Some (Inl Z_ERR_MESSAGE_ZENOH_UNKNOWN, zbf))"

definition z_put_encode :: "'h heap \<Rightarrow> z_msg_put \<Rightarrow> 'h step" where
  "z_put_encode H put = z_push_body_encode H \<lparr>pb_is_put = True, pb_put = put\<rparr>"

definition z_put_decode :: "(nat \<Rightarrow> bool) \<Rightarrow> z_msg_put \<Rightarrow> u8 \<Rightarrow> z_zbuf \<Rightarrow> z_msg_put decoded" where
  "z_put_decode mem put header zbf = do {
     assert_c (Z_MID header = 0x01);
     on_value (z_push_body_decode mem \<lparr>pb_is_put = True, pb_put = put\<rparr> header zbf) (\<lambda>b zbf. Some (Inr (pb_put b), zbf)) }"

definition z_del_encode :: "'h heap \<Rightarrow> z_msg_del \<Rightarrow> 'h step" where
  "z_del_encode H del = z_push_body_encode H \<lparr>pb_is_put = False, pb_put = put_of_del del\<rparr>"

definition z_del_decode :: "(nat \<Rightarrow> bool) \<Rightarrow> z_msg_del \<Rightarrow> u8 \<Rightarrow> z_zbuf \<Rightarrow> z_msg_del decoded" where
  "z_del_decode mem del header zbf = do {
     assert_c (Z_MID header = 0x02);
     on_value (z_push_body_decode mem \<lparr>pb_is_put = False, pb_put = put_of_del del\<rparr> header zbf)
       (\<lambda>b zbf. Some (Inr (del_of_put (pb_put b)), zbf)) }"

section \<open>Query\<close>

text \<open>The parameter that is added for any key expression, behind a separator if there are others.\<close>

definition ANYKE :: bytes where "ANYKE = [95, 97, 110, 121, 107, 101]"
definition SEPARATOR :: bytes where "SEPARATOR = [59]"

definition z_query_encode :: "'h heap \<Rightarrow> z_msg_query \<Rightarrow> 'h step" where
  "z_query_encode H msg =
     (let has_params = (0 < length (q_parameters msg));
          has_consolidation = (q_consolidation msg \<noteq> CONSOLIDATION_DEFAULT);
          required_exts = z_msg_query_required_extensions msg;
          header = 0x03 OR flag_if (has_params \<or> q_implicit_anyke msg) 0x40 OR flag_if has_consolidation 0x20 OR
            flag_if (qx_body required_exts \<or> qx_info required_exts \<or> qx_attachment required_exts) 0x80
      in in_turn [\<lambda>wbf. z_uint8_encode H wbf header,
           only_if has_consolidation (\<lambda>wbf. z_uint8_encode H wbf (ucast (q_consolidation msg))),
           (if q_implicit_anyke msg then
              if has_params then (\<lambda>wbf. z_slices_encode H wbf [q_parameters msg, SEPARATOR @ ANYKE])
              else (\<lambda>wbf. z_slice_encode H wbf ANYKE)
            else only_if has_params (\<lambda>wbf. z_slice_encode H wbf (q_parameters msg))),
           only_if (qx_body required_exts) (in_turn [
             \<lambda>wbf. z_uint8_encode H wbf (0x43 OR flag_if (qx_info required_exts \<or> qx_attachment required_exts) 0x80),
             \<lambda>wbf. z_value_encode H wbf (q_ext_value msg)]),
           only_if (qx_info required_exts) (in_turn [
             \<lambda>wbf. z_uint8_encode H wbf (0x41 OR flag_if (qx_attachment required_exts) 0x80),
             z_source_info_encode_ext H (q_ext_info msg)]),
           only_if (qx_attachment required_exts) (in_turn [\<lambda>wbf. z_uint8_encode H wbf 0x45,
             \<lambda>wbf. z_bytes_encode H wbf (q_ext_attachment msg)])])"

definition z_query_decode_extensions :: "(nat \<Rightarrow> bool) \<Rightarrow> z_msg_query ext_callback" where
  "z_query_decode_extensions mem ext msg =
     (if EXT_FULL_ID (ext_header ext) = 0x41 then
        ext_slice ext (slice_into z_source_info_decode (\<lambda>si. msg\<lparr>q_ext_info := si\<rparr>) msg)
      else if EXT_FULL_ID (ext_header ext) = 0x43 then
        ext_slice ext (slice_into (z_value_decode (z_bytes_from_buf mem) (q_ext_value msg)) (\<lambda>v. msg\<lparr>q_ext_value := v\<rparr>) msg)
      else if EXT_FULL_ID (ext_header ext) = 0x45 then
        ext_slice ext (attach mem (\<lambda>bs. msg\<lparr>q_ext_attachment := bs\<rparr>) msg)
      else ext_unknown ext msg)"

text \<open>The mode is read into the low byte of the variable.\<close>

definition low_byte :: "u32 \<Rightarrow> u8 \<Rightarrow> u32" where
  "low_byte w b = (w AND 0xFFFFFF00) OR ucast b"

definition consolidation_decode :: "bool \<Rightarrow> u32 \<Rightarrow> z_zbuf \<Rightarrow> u32 decoded" where
  "consolidation_decode has w zbf =
     (if has then on_value (z_uint8_decode zbf) (\<lambda>b zbf. Some (Inr (low_byte w b), zbf)) else Some (Inr CONSOLIDATION_DEFAULT, zbf))"

definition z_query_decode :: "(nat \<Rightarrow> bool) \<Rightarrow> z_msg_query \<Rightarrow> u8 \<Rightarrow> z_zbuf \<Rightarrow> z_msg_query decoded" where
  "z_query_decode mem msg header zbf =
     (let msg = msg\<lparr>q_implicit_anyke := False\<rparr> in
      on_value (consolidation_decode (HAS_FLAG header 0x20) (q_consolidation msg) zbf) (\<lambda>c zbf. let msg = msg\<lparr>q_consolidation := c\<rparr> in
      on_value (decode_if (HAS_FLAG header 0x40) z_slice_decode [] zbf) (\<lambda>p zbf. let msg = msg\<lparr>q_parameters := p\<rparr> in
      decode_if (HAS_FLAG header 0x80) (z_msg_ext_decode_iter (z_query_decode_extensions mem) msg) msg zbf)))"

section \<open>Reply and error\<close>

definition z_reply_encode :: "'h heap \<Rightarrow> z_msg_reply \<Rightarrow> 'h step" where
  "z_reply_encode H reply =
     (let has_consolidation = (r_consolidation reply \<noteq> CONSOLIDATION_DEFAULT);
          header = 0x04 OR flag_if has_consolidation 0x20
      in in_turn [\<lambda>wbf. z_uint8_encode H wbf header,
           only_if has_consolidation (\<lambda>wbf. z_uint8_encode H wbf (ucast (r_consolidation reply))),
           z_push_body_encode H (r_body reply)])"

text \<open>Every extension of a reply is refused, mandatory or not.\<close>

definition z_reply_decode_extension :: "z_msg_reply ext_callback" where
  "z_reply_decode_extension ext c = Some (z_msg_ext_unknown_error, c)"

definition z_reply_decode :: "(nat \<Rightarrow> bool) \<Rightarrow> z_msg_reply \<Rightarrow> u8 \<Rightarrow> z_zbuf \<Rightarrow> z_msg_reply decoded" where
  "z_reply_decode mem reply header zbf =
     on_value (consolidation_decode (HAS_FLAG header 0x20) (r_consolidation reply) zbf) (\<lambda>c zbf.
     let reply = reply\<lparr>r_consolidation := c\<rparr> in
     on_value (decode_if (HAS_FLAG header 0x80) (z_msg_ext_decode_iter z_reply_decode_extension reply) reply zbf) (\<lambda>reply zbf.
     on_value (z_uint8_decode zbf) (\<lambda>put_header zbf.
     on_value (z_push_body_decode mem (r_body reply) put_header zbf) (\<lambda>b zbf.
       Some (Inr (reply\<lparr>r_body := b\<rparr>), zbf)))))"

definition z_err_encode :: "'h heap \<Rightarrow> z_msg_err \<Rightarrow> 'h step" where
  "z_err_encode H err =
     (let has_encoding = z_encoding_check (e_encoding err);
          has_sinfo_ext = info_needed (e_ext_source_info err);
          header = 0x05 OR flag_if has_encoding 0x40 OR flag_if has_sinfo_ext 0x80
      in in_turn [\<lambda>wbf. z_uint8_encode H wbf header,
           only_if has_encoding (\<lambda>wbf. z_encoding_encode H wbf (e_encoding err)),
           only_if has_sinfo_ext (in_turn [\<lambda>wbf. z_uint8_encode H wbf 0x41, z_source_info_encode_ext H (e_ext_source_info err)]),
           \<lambda>wbf. z_bytes_encode H wbf (e_payload err)])"

definition z_err_decode_extension :: "z_msg_err ext_callback" where
  "z_err_decode_extension ext reply =
     (if EXT_FULL_ID (ext_header ext) = 0x41 then
        ext_slice ext (slice_into z_source_info_decode (\<lambda>si. reply\<lparr>e_ext_source_info := si\<rparr>) reply)
      else ext_unknown ext reply)"

definition z_err_decode :: "z_msg_err \<Rightarrow> u8 \<Rightarrow> z_zbuf \<Rightarrow> z_msg_err decoded" where
  "z_err_decode err header zbf =
     on_value (decode_if (HAS_FLAG header 0x40) (z_encoding_decode (e_encoding err)) (e_encoding err) zbf) (\<lambda>en zbf.
     let err = err\<lparr>e_encoding := en\<rparr> in
     on_value (decode_if (HAS_FLAG header 0x80) (z_msg_ext_decode_iter z_err_decode_extension err) err zbf) (\<lambda>err zbf.
     on_value (z_bytes_decode zbf) (\<lambda>pld zbf. Some (Inr (err\<lparr>e_payload := pld\<rparr>), zbf))))"

section \<open>Cleared messages\<close>

definition z_put_null :: z_msg_put where
  "z_put_null = \<lparr>put_commons = \<lparr>pc_timestamp = z_timestamp_null, pc_source_info = z_source_info_null\<rparr>, put_payload = [],
     put_encoding = z_encoding_null, put_attachment = []\<rparr>"

definition z_del_null :: z_msg_del where "z_del_null = del_of_put z_put_null"
definition z_push_body_null :: z_push_body where "z_push_body_null = \<lparr>pb_is_put = False, pb_put = z_put_null\<rparr>"

definition z_query_null :: z_msg_query where
  "z_query_null = \<lparr>q_parameters = [], q_ext_info = z_source_info_null, q_ext_value = \<lparr>val_encoding = z_encoding_null, val_payload = []\<rparr>,
     q_consolidation = 0, q_ext_attachment = [], q_implicit_anyke = False\<rparr>"

definition z_reply_null :: z_msg_reply where "z_reply_null = \<lparr>r_consolidation = 0, r_body = z_push_body_null\<rparr>"
definition z_err_null :: z_msg_err where
  "z_err_null = \<lparr>e_encoding = z_encoding_null, e_ext_source_info = z_source_info_null, e_payload = []\<rparr>"

end
