(* ===== verification/ZNetDecl.thy ===== *)
theory ZNetDecl
  imports ZNetMsg
begin

text \<open>
  Declarations and interests: their data and builders (\<open>protocol/definitions/declarations.h\<close> and \<open>.c\<close>,
  \<open>protocol/definitions/interest.h\<close> and \<open>.c\<close>) and their codec (\<open>protocol/codec/declarations.c\<close>,
  \<open>protocol/codec/interest.c\<close>), in the configuration of \<open>config.h\<close>: every feature on.
\<close>

section \<open>Declarations\<close>

text \<open>The tag and the union, each with its identifier and key expression.\<close>

datatype z_declaration =
  Decl_kexpr u16 z_wireexpr | Undecl_kexpr u16
| Decl_subscriber u32 z_wireexpr | Undecl_subscriber u32 z_wireexpr
| Decl_queryable u32 z_wireexpr bool u16 | Undecl_queryable u32 z_wireexpr
| Decl_token u32 z_wireexpr | Undecl_token u32 z_wireexpr
| Decl_final

text \<open>The key expression of the caller is cleared, as it has moved. \<open>None\<close> is the null pointer.\<close>

definition z_wireexpr_steal :: "z_wireexpr \<Rightarrow> z_wireexpr \<times> z_wireexpr" where
  "z_wireexpr_steal ke = (ke, z_wireexpr_null)"

definition steal_or_null :: "z_wireexpr option \<Rightarrow> z_wireexpr \<times> z_wireexpr option" where
  "steal_or_null key =
     (case key of
        None \<Rightarrow> (z_wireexpr_null, None)
      | Some ke \<Rightarrow> let (ke, key) = z_wireexpr_steal ke in (ke, Some key))"

definition z_make_decl_keyexpr :: "u16 \<Rightarrow> z_wireexpr \<Rightarrow> z_declaration \<times> z_wireexpr" where
  "z_make_decl_keyexpr i key = (let (ke, key) = z_wireexpr_steal key in (Decl_kexpr i ke, key))"

definition z_make_undecl_keyexpr :: "u16 \<Rightarrow> z_declaration" where "z_make_undecl_keyexpr i = Undecl_kexpr i"

definition z_make_decl_subscriber :: "z_wireexpr \<Rightarrow> u32 \<Rightarrow> z_declaration \<times> z_wireexpr" where
  "z_make_decl_subscriber key i = (let (ke, key) = z_wireexpr_steal key in (Decl_subscriber i ke, key))"

definition z_make_undecl_subscriber :: "u32 \<Rightarrow> z_wireexpr option \<Rightarrow> z_declaration \<times> z_wireexpr option" where
  "z_make_undecl_subscriber i key = (let (ke, key) = steal_or_null key in (Undecl_subscriber i ke, key))"

definition z_make_decl_queryable :: "z_wireexpr \<Rightarrow> u32 \<Rightarrow> bool \<Rightarrow> u16 \<Rightarrow> z_declaration \<times> z_wireexpr" where
  "z_make_decl_queryable key i complete distance =
     (let (ke, key) = z_wireexpr_steal key in (Decl_queryable i ke complete distance, key))"

definition z_make_undecl_queryable :: "u32 \<Rightarrow> z_wireexpr option \<Rightarrow> z_declaration \<times> z_wireexpr option" where
  "z_make_undecl_queryable i key = (let (ke, key) = steal_or_null key in (Undecl_queryable i ke, key))"

definition z_make_decl_token :: "z_wireexpr \<Rightarrow> u32 \<Rightarrow> z_declaration \<times> z_wireexpr" where
  "z_make_decl_token key i = (let (ke, key) = z_wireexpr_steal key in (Decl_token i ke, key))"

definition z_make_undecl_token :: "u32 \<Rightarrow> z_wireexpr option \<Rightarrow> z_declaration \<times> z_wireexpr option" where
  "z_make_undecl_token i key = (let (ke, key) = steal_or_null key in (Undecl_token i ke, key))"

definition z_make_decl_final :: z_declaration where "z_make_decl_final = Decl_final"

section \<open>Encoding of declarations\<close>

definition z_decl_ext_keyexpr_encode :: "'h heap \<Rightarrow> z_wireexpr \<Rightarrow> bool \<Rightarrow> 'h step" where
  "z_decl_ext_keyexpr_encode H ke has_next_ext =
     (let kelen = (if z_wireexpr_has_suffix ke then length (we_suffix ke) mod 2 ^ 32 else 0);
          header = flag_if (z_wireexpr_is_local ke) 2 OR flag_if (kelen \<noteq> 0) 1
      in in_turn [\<lambda>wbf. z_uint8_encode H wbf (0x40 OR 0x10 OR 0x0F OR flag_if has_next_ext 0x80),
           \<lambda>wbf. z_zsize_encode H wbf (size_add (size_add 1 kelen) (z_zint_len (ucast (we_id ke)))),
           \<lambda>wbf. z_uint8_encode H wbf header,
           \<lambda>wbf. z_zsize_encode H wbf (unat (we_id ke)),
           only_if (kelen \<noteq> 0) (\<lambda>wbf. z_wbuf_write_bytes H wbf (we_suffix ke) 0 kelen)])"

definition z_decl_kexpr_encode :: "'h heap \<Rightarrow> u16 \<Rightarrow> z_wireexpr \<Rightarrow> 'h step" where
  "z_decl_kexpr_encode H i ke =
     (let has_kesuffix = z_wireexpr_has_suffix ke
      in in_turn [\<lambda>wbf. z_uint8_encode H wbf (0x00 OR flag_if has_kesuffix 0x20), \<lambda>wbf. z_zsize_encode H wbf (unat i),
           z_wireexpr_encode H has_kesuffix ke])"

definition z_decl_commons_encode :: "'h heap \<Rightarrow> u8 \<Rightarrow> bool \<Rightarrow> u32 \<Rightarrow> z_wireexpr \<Rightarrow> 'h step" where
  "z_decl_commons_encode H header has_extensions i ke =
     (let has_kesuffix = z_wireexpr_has_suffix ke;
          header = header OR flag_if has_extensions 0x80 OR flag_if has_kesuffix 0x20 OR flag_if (z_wireexpr_is_local ke) 0x40
      in in_turn [\<lambda>wbf. z_uint8_encode H wbf header, \<lambda>wbf. z_zsize_encode H wbf (unat i), z_wireexpr_encode H has_kesuffix ke])"

definition z_decl_subscriber_encode :: "'h heap \<Rightarrow> u32 \<Rightarrow> z_wireexpr \<Rightarrow> 'h step" where
  "z_decl_subscriber_encode H i ke = z_decl_commons_encode H 0x02 False i ke"

definition z_undecl_kexpr_encode :: "'h heap \<Rightarrow> u16 \<Rightarrow> 'h step" where
  "z_undecl_kexpr_encode H i = in_turn [\<lambda>wbf. z_uint8_encode H wbf 0x01, \<lambda>wbf. z_zsize_encode H wbf (unat i)]"

definition z_undecl_encode :: "'h heap \<Rightarrow> u8 \<Rightarrow> u32 \<Rightarrow> z_wireexpr \<Rightarrow> 'h step" where
  "z_undecl_encode H header i ke =
     (let has_keyexpr_ext = z_wireexpr_check ke
      in in_turn [\<lambda>wbf. z_uint8_encode H wbf (header OR flag_if has_keyexpr_ext 0x80), \<lambda>wbf. z_zsize_encode H wbf (unat i),
           only_if has_keyexpr_ext (z_decl_ext_keyexpr_encode H ke False)])"

definition z_undecl_subscriber_encode :: "'h heap \<Rightarrow> u32 \<Rightarrow> z_wireexpr \<Rightarrow> 'h step" where
  "z_undecl_subscriber_encode H i ke = z_undecl_encode H 0x03 i ke"

definition queryable_info :: "bool \<Rightarrow> u16 \<Rightarrow> u64" where
  "queryable_info complete distance = ucast (flag_if complete 0x01) OR push_bit 8 (ucast distance)"

definition z_decl_queryable_encode :: "'h heap \<Rightarrow> u32 \<Rightarrow> z_wireexpr \<Rightarrow> bool \<Rightarrow> u16 \<Rightarrow> 'h step" where
  "z_decl_queryable_encode H i ke complete distance =
     (let has_info_ext = (complete \<or> distance \<noteq> 0)
      in in_turn [z_decl_commons_encode H 0x04 has_info_ext i ke,
           only_if has_info_ext (in_turn [\<lambda>wbf. z_uint8_encode H wbf 0x21, \<lambda>wbf. z_zint64_encode H wbf (queryable_info complete distance)])])"

definition z_undecl_queryable_encode :: "'h heap \<Rightarrow> u32 \<Rightarrow> z_wireexpr \<Rightarrow> 'h step" where
  "z_undecl_queryable_encode H i ke = z_undecl_encode H 0x05 i ke"

definition z_decl_token_encode :: "'h heap \<Rightarrow> u32 \<Rightarrow> z_wireexpr \<Rightarrow> 'h step" where
  "z_decl_token_encode H i ke = z_decl_commons_encode H 0x06 False i ke"

definition z_undecl_token_encode :: "'h heap \<Rightarrow> u32 \<Rightarrow> z_wireexpr \<Rightarrow> 'h step" where
  "z_undecl_token_encode H i ke = z_undecl_encode H 0x07 i ke"

definition z_decl_final_encode :: "'h heap \<Rightarrow> 'h step" where
  "z_decl_final_encode H wbf h = z_uint8_encode H wbf 0x1A h"

fun z_declaration_encode :: "'h heap \<Rightarrow> z_declaration \<Rightarrow> 'h step" where
  "z_declaration_encode H (Decl_kexpr i ke) = z_decl_kexpr_encode H i ke"
| "z_declaration_encode H (Undecl_kexpr i) = z_undecl_kexpr_encode H i"
| "z_declaration_encode H (Decl_subscriber i ke) = z_decl_subscriber_encode H i ke"
| "z_declaration_encode H (Undecl_subscriber i ke) = z_undecl_subscriber_encode H i ke"
| "z_declaration_encode H (Decl_queryable i ke complete distance) = z_decl_queryable_encode H i ke complete distance"
| "z_declaration_encode H (Undecl_queryable i ke) = z_undecl_queryable_encode H i ke"
| "z_declaration_encode H (Decl_token i ke) = z_decl_token_encode H i ke"
| "z_declaration_encode H (Undecl_token i ke) = z_undecl_token_encode H i ke"
| "z_declaration_encode H Decl_final = z_decl_final_encode H"

section \<open>Decoding of declarations\<close>

text \<open>The extensions that are skipped when they may be.\<close>

definition skip_if :: "bool \<Rightarrow> 'a \<Rightarrow> z_zbuf \<Rightarrow> 'a decoded" where
  "skip_if has x zbf = on_value (decode_if has z_msg_ext_skip_non_mandatories () zbf) (\<lambda>_ zbf. Some (Inr x, zbf))"

definition z_decl_kexpr_decode :: "u8 \<Rightarrow> z_mapping \<Rightarrow> z_zbuf \<Rightarrow> z_declaration decoded" where
  "z_decl_kexpr_decode header mapping zbf =
     on_value (z_zint16_decode zbf) (\<lambda>i zbf.
     on_value (z_wireexpr_decode (HAS_FLAG header 0x20) True mapping zbf) (\<lambda>ke zbf.
       skip_if (HAS_FLAG header 0x80) (Decl_kexpr i ke) zbf))"

definition z_undecl_kexpr_decode :: "u8 \<Rightarrow> z_zbuf \<Rightarrow> z_declaration decoded" where
  "z_undecl_kexpr_decode header zbf =
     on_value (z_zint16_decode zbf) (\<lambda>i zbf. skip_if (HAS_FLAG header 0x80) (Undecl_kexpr i) zbf)"

text \<open>The block that is handed out is overwritten. Nothing is handed out for a string without characters.\<close>

definition z_string_preallocate :: "(nat \<Rightarrow> bool) \<Rightarrow> nat \<Rightarrow> bytes" where
  "z_string_preallocate mem len = (if len \<noteq> 0 \<and> mem len then replicate len 0 else [])"

definition undecl_ke_decode :: "(nat \<Rightarrow> bool) \<Rightarrow> z_wireexpr \<Rightarrow> z_zbuf \<Rightarrow> z_wireexpr decoded" where
  "undecl_ke_decode mem ke zbf =
     on_value (z_uint8_decode zbf) (\<lambda>header zbf.
     let mapping = (if HAS_FLAG header 2 then Mapping_unknown_remote else Mapping_local) in
     on_value (z_zint16_decode zbf) (\<lambda>i zbf.
     let ke = ke\<lparr>we_id := i\<rparr> in
     if HAS_FLAG header 1 then
       let len = z_zbuf_len zbf; ke = ke\<lparr>we_suffix := z_string_preallocate mem len\<rparr> in
       if \<not> z_wireexpr_has_suffix ke then Some (Inl Z_ERR_SYSTEM_OUT_OF_MEMORY, zbf)
       else do {
         (s, zbf) \<leftarrow> z_zbuf_read_bytes zbf (we_suffix ke) 0 len;
         Some (Inr (ke\<lparr>we_suffix := s, we_mapping := mapping\<rparr>), zbf) }
     else Some (Inr (ke\<lparr>we_mapping := mapping\<rparr>), zbf)))"

definition z_undecl_decode_extensions :: "(nat \<Rightarrow> bool) \<Rightarrow> z_wireexpr ext_callback" where
  "z_undecl_decode_extensions mem ext ke =
     (if ext_header ext = 0x40 OR 0x10 OR 0x0F then ext_slice ext (slice_into (undecl_ke_decode mem ke) id ke)
      else ext_unknown ext ke)"

definition z_undecl_trivial_decode :: "(nat \<Rightarrow> bool) \<Rightarrow> z_wireexpr \<Rightarrow> u8 \<Rightarrow> z_mapping \<Rightarrow> z_zbuf \<Rightarrow> (u32 \<times> z_wireexpr) decoded" where
  "z_undecl_trivial_decode mem ke header mapping zbf =
     on_value (z_zint32_decode zbf) (\<lambda>i zbf.
     if HAS_FLAG header 0x80 then
       on_value (z_msg_ext_decode_iter (z_undecl_decode_extensions mem) ke zbf) (\<lambda>ke zbf.
         Some (Inr (i, if we_mapping ke = Mapping_unknown_remote then ke\<lparr>we_mapping := mapping\<rparr> else ke), zbf))
     else Some (Inr (i, ke), zbf))"

definition z_decl_commons_decode :: "u8 \<Rightarrow> z_mapping \<Rightarrow> z_zbuf \<Rightarrow> (bool \<times> u32 \<times> z_wireexpr) decoded" where
  "z_decl_commons_decode header mapping zbf =
     on_value (z_zint32_decode zbf) (\<lambda>i zbf.
     on_value (z_wireexpr_decode (HAS_FLAG header 0x20) (HAS_FLAG header 0x40) mapping zbf) (\<lambda>ke zbf.
       Some (Inr (HAS_FLAG header 0x80, i, ke), zbf)))"

definition z_decl_subscriber_decode_extensions :: "unit ext_callback" where
  "z_decl_subscriber_decode_extensions ext c = ext_unknown ext c"

definition z_decl_subscriber_decode :: "u8 \<Rightarrow> z_mapping \<Rightarrow> z_zbuf \<Rightarrow> z_declaration decoded" where
  "z_decl_subscriber_decode header mapping zbf =
     on_value (z_decl_commons_decode header mapping zbf) (\<lambda>(has_ext, i, ke) zbf.
     on_value (decode_if has_ext (z_msg_ext_decode_iter z_decl_subscriber_decode_extensions ()) () zbf) (\<lambda>_ zbf.
       Some (Inr (Decl_subscriber i ke), zbf)))"

definition z_undecl_subscriber_decode :: "(nat \<Rightarrow> bool) \<Rightarrow> u8 \<Rightarrow> z_mapping \<Rightarrow> z_zbuf \<Rightarrow> z_declaration decoded" where
  "z_undecl_subscriber_decode mem header mapping zbf =
     on_value (z_undecl_trivial_decode mem z_wireexpr_null header mapping zbf) (\<lambda>(i, ke) zbf. Some (Inr (Undecl_subscriber i ke), zbf))"

definition z_decl_queryable_decode_extensions :: "(bool \<times> u16) ext_callback" where
  "z_decl_queryable_decode_extensions ext info =
     (if ext_header ext = 0x21 then ext_number ext (\<lambda>val. Some (Z_OK, val AND 0x01 \<noteq> 0, ucast (drop_bit 8 val)))
      else ext_unknown ext info)"

definition z_decl_queryable_decode :: "u8 \<Rightarrow> z_mapping \<Rightarrow> z_zbuf \<Rightarrow> z_declaration decoded" where
  "z_decl_queryable_decode header mapping zbf =
     on_value (z_decl_commons_decode header mapping zbf) (\<lambda>(has_ext, i, ke) zbf.
     on_value (decode_if has_ext (z_msg_ext_decode_iter z_decl_queryable_decode_extensions (False, 0)) (False, 0) zbf)
       (\<lambda>(complete, distance) zbf. Some (Inr (Decl_queryable i ke complete distance), zbf)))"

definition z_undecl_queryable_decode :: "(nat \<Rightarrow> bool) \<Rightarrow> u8 \<Rightarrow> z_mapping \<Rightarrow> z_zbuf \<Rightarrow> z_declaration decoded" where
  "z_undecl_queryable_decode mem header mapping zbf =
     on_value (z_undecl_trivial_decode mem z_wireexpr_null header mapping zbf) (\<lambda>(i, ke) zbf. Some (Inr (Undecl_queryable i ke), zbf))"

definition z_decl_token_decode :: "u8 \<Rightarrow> z_mapping \<Rightarrow> z_zbuf \<Rightarrow> z_declaration decoded" where
  "z_decl_token_decode header mapping zbf =
     on_value (z_decl_commons_decode header mapping zbf) (\<lambda>(has_ext, i, ke) zbf. skip_if has_ext (Decl_token i ke) zbf)"

text \<open>Alone of the decoders it does not clear the declaration; \<open>ke\<close> is the key expression in it.\<close>

definition z_undecl_token_decode :: "(nat \<Rightarrow> bool) \<Rightarrow> z_wireexpr \<Rightarrow> u8 \<Rightarrow> z_mapping \<Rightarrow> z_zbuf \<Rightarrow> z_declaration decoded" where
  "z_undecl_token_decode mem ke header mapping zbf =
     on_value (z_undecl_trivial_decode mem ke header mapping zbf) (\<lambda>(i, ke) zbf. Some (Inr (Undecl_token i ke), zbf))"

definition z_decl_final_decode :: "u8 \<Rightarrow> z_zbuf \<Rightarrow> z_declaration decoded" where
  "z_decl_final_decode header zbf = skip_if (HAS_FLAG header 0x80) Decl_final zbf"

text \<open>\<open>ke\<close> is the key expression of a token that the caller's variable holds.\<close>

definition z_declaration_decode :: "(nat \<Rightarrow> bool) \<Rightarrow> z_wireexpr \<Rightarrow> z_mapping \<Rightarrow> z_zbuf \<Rightarrow> z_declaration decoded" where
  "z_declaration_decode mem ke mapping zbf =
     on_value (z_uint8_decode zbf) (\<lambda>header zbf.
       if Z_MID header = 0x00 then z_decl_kexpr_decode header mapping zbf
       else if Z_MID header = 0x01 then z_undecl_kexpr_decode header zbf
       else if Z_MID header = 0x02 then z_decl_subscriber_decode header mapping zbf
       else if Z_MID header = 0x03 then z_undecl_subscriber_decode mem header mapping zbf
       else if Z_MID header = 0x04 then z_decl_queryable_decode header mapping zbf
       else if Z_MID header = 0x05 then z_undecl_queryable_decode mem header mapping zbf
       else if Z_MID header = 0x06 then z_decl_token_decode header mapping zbf
       else if Z_MID header = 0x07 then z_undecl_token_decode mem ke header mapping zbf
       else if Z_MID header = 0x1A then z_decl_final_decode header zbf
       else Some (Inl Z_ERR_MESSAGE_DESERIALIZATION_FAILED, zbf))"

section \<open>Interests\<close>

abbreviation (input) INTEREST_RESTRICTED :: u8 where "INTEREST_RESTRICTED \<equiv> 0x10"
abbreviation (input) INTEREST_CURRENT :: u8 where "INTEREST_CURRENT \<equiv> 0x20"
abbreviation (input) INTEREST_FUTURE :: u8 where "INTEREST_FUTURE \<equiv> 0x40"

record z_interest =
  int_keyexpr :: z_wireexpr
  int_id :: u32
  int_flags :: u8
  int_complete :: bool

definition z_interest_null :: z_interest where
  "z_interest_null = \<lparr>int_keyexpr = z_wireexpr_null, int_id = 0, int_flags = 0, int_complete = False\<rparr>"

definition z_make_interest :: "z_wireexpr option \<Rightarrow> u32 \<Rightarrow> u8 \<Rightarrow> z_interest \<times> z_wireexpr option" where
  "z_make_interest key i flags =
     (let (ke, key) = steal_or_null key in (\<lparr>int_keyexpr = ke, int_id = i, int_flags = flags, int_complete = False\<rparr>, key))"

definition z_make_interest_final :: "u32 \<Rightarrow> z_interest" where
  "z_make_interest_final i = \<lparr>int_keyexpr = z_wireexpr_null, int_id = i, int_flags = 0, int_complete = False\<rparr>"

text \<open>On the wire the flags for current and future give their places to those of the key expression.\<close>

definition z_interest_encode :: "'h heap \<Rightarrow> z_interest \<Rightarrow> bool \<Rightarrow> 'h step" where
  "z_interest_encode H interest is_final =
     (let flags = int_flags interest AND NOT INTEREST_CURRENT AND NOT INTEREST_FUTURE;
          has_kesuffix = z_wireexpr_has_suffix (int_keyexpr interest);
          restricted = HAS_FLAG flags INTEREST_RESTRICTED;
          flags = (if restricted then flags OR flag_if has_kesuffix 0x20 OR flag_if (z_wireexpr_is_local (int_keyexpr interest)) 0x40 else flags)
      in in_turn [\<lambda>wbf. z_zsize_encode H wbf (unat (int_id interest)),
           only_if (\<not> is_final) (in_turn [\<lambda>wbf. z_uint8_encode H wbf flags,
             only_if restricted (z_wireexpr_encode H has_kesuffix (int_keyexpr interest))])])"

definition z_interest_decode :: "z_interest \<Rightarrow> bool \<Rightarrow> bool \<Rightarrow> z_mapping \<Rightarrow> z_zbuf \<Rightarrow> z_interest decoded" where
  "z_interest_decode interest is_final has_ext mapping zbf =
     on_value (z_zint32_decode zbf) (\<lambda>i zbf. let interest = interest\<lparr>int_id := i\<rparr> in
     on_value (decode_if (\<not> is_final) (\<lambda>zbf.
         on_value (z_uint8_decode zbf) (\<lambda>flags zbf.
         on_value (decode_if (HAS_FLAG flags INTEREST_RESTRICTED) (z_wireexpr_decode (HAS_FLAG flags 0x20) (HAS_FLAG flags 0x40) mapping)
             (int_keyexpr interest) zbf) (\<lambda>ke zbf.
           Some (Inr (interest\<lparr>int_keyexpr := ke, int_flags := int_flags interest OR (flags AND 0x9F)\<rparr>), zbf)))) interest zbf) (\<lambda>interest zbf.
       skip_if has_ext interest zbf))"

end
