(* ===== verification/ZNet.thy ===== *)
theory ZNet
  imports ZNetDecl
begin

text \<open>
  Network messages: their data and builders (\<open>protocol/definitions/network.h\<close> and \<open>.c\<close>) and their codec
  (\<open>protocol/codec/network.c\<close>), in the configuration of \<open>config.h\<close>: every feature on.
\<close>

section \<open>Data\<close>

text \<open>A quality of service is its byte.\<close>

definition N_QOS_DEFAULT :: u8 where "N_QOS_DEFAULT = 5"

definition z_n_qos_create :: "bool \<Rightarrow> z_congestion_control \<Rightarrow> u8 \<Rightarrow> u8" where
  "z_n_qos_create express congestion_control priority =
     push_bit 4 (of_bool express) OR push_bit 3 (of_bool (congestion_control \<noteq> CC_DROP)) OR priority"

definition z_n_qos_get_priority :: "u8 \<Rightarrow> u8" where "z_n_qos_get_priority qos = qos AND 0x07"
definition z_n_qos_get_congestion_control :: "u8 \<Rightarrow> z_congestion_control" where
  "z_n_qos_get_congestion_control qos = (if qos AND 0x08 \<noteq> 0 then CC_BLOCK else CC_DROP)"
definition z_n_qos_get_express :: "u8 \<Rightarrow> bool" where "z_n_qos_get_express qos \<longleftrightarrow> qos AND 0x10 \<noteq> 0"

record z_n_msg_push =
  push_key :: z_wireexpr
  push_timestamp :: z_timestamp
  push_qos :: u8
  push_body :: z_push_body

datatype z_request_body = Request_query z_msg_query | Request_put z_msg_put | Request_del z_msg_del

record z_n_msg_request =
  rq_rid :: nat
  rq_key :: z_wireexpr
  rq_ext_timestamp :: z_timestamp
  rq_ext_qos :: u8
  rq_ext_target :: u32
  rq_ext_budget :: u32
  rq_ext_timeout_ms :: u64
  rq_body :: z_request_body

record z_n_msg_request_exts =
  rx_qos :: bool
  rx_tstamp :: bool
  rx_target :: bool
  rx_budget :: bool
  rx_timeout_ms :: bool
  rx_n :: nat

datatype z_response_body = Response_reply z_msg_reply | Response_err z_msg_err

record z_n_msg_response =
  rs_ext_timestamp :: z_timestamp
  rs_request_id :: nat
  rs_key :: z_wireexpr
  rs_ext_qos :: u8
  rs_responder_zid :: z_id
  rs_responder_eid :: u32
  rs_body :: z_response_body

record z_n_msg_declare =
  dc_decl :: z_declaration
  dc_ext_timestamp :: z_timestamp
  dc_ext_qos :: u8
  dc_interest_id :: "u32 option"

text \<open>The encoding is told by the body.\<close>

record z_n_msg_oam =
  oam_id :: u16
  oam_ext_timestamp :: z_timestamp
  oam_ext_qos :: u8
  oam_body :: z_msg_ext_body

datatype z_network_body =
  N_declare z_n_msg_declare | N_push z_n_msg_push | N_request z_n_msg_request | N_response z_n_msg_response
| N_response_final nat | N_interest z_interest | N_oam z_n_msg_oam

record z_network_message =
  nm_body :: z_network_body
  nm_reliability :: z_reliability

section \<open>Builders\<close>

definition or_null :: "'a \<Rightarrow> 'a option \<Rightarrow> 'a" where
  "or_null d p = (case p of None \<Rightarrow> d | Some x \<Rightarrow> x)"

definition commons_of :: "z_timestamp option \<Rightarrow> z_source_info option \<Rightarrow> z_m_push_commons" where
  "commons_of timestamp source_info =
     \<lparr>pc_timestamp = or_null z_timestamp_null timestamp, pc_source_info = or_null z_source_info_null source_info\<rparr>"

definition put_of :: "bytes list option \<Rightarrow> z_encoding option \<Rightarrow> z_timestamp option \<Rightarrow> bytes list option \<Rightarrow> z_source_info option \<Rightarrow> z_msg_put" where
  "put_of payload encoding timestamp attachment source_info =
     \<lparr>put_commons = commons_of timestamp source_info, put_payload = or_null [] payload, put_encoding = or_null z_encoding_null encoding,
      put_attachment = or_null [] attachment\<rparr>"

definition z_n_msg_make_response_final :: "nat \<Rightarrow> z_network_message" where
  "z_n_msg_make_response_final rid = \<lparr>nm_body = N_response_final rid, nm_reliability = RELIABLE\<rparr>"

definition z_n_msg_make_declare :: "z_declaration \<Rightarrow> u32 option \<Rightarrow> z_network_message" where
  "z_n_msg_make_declare declaration interest_id =
     \<lparr>nm_body = N_declare \<lparr>dc_decl = declaration, dc_ext_timestamp = z_timestamp_null, dc_ext_qos = N_QOS_DEFAULT, dc_interest_id = interest_id\<rparr>,
      nm_reliability = RELIABLE\<rparr>"

definition z_n_msg_make_query :: "z_wireexpr \<Rightarrow> bytes \<Rightarrow> nat \<Rightarrow> z_reliability \<Rightarrow> u32 \<Rightarrow> bytes list option \<Rightarrow> z_encoding option \<Rightarrow>
    u64 \<Rightarrow> bytes list option \<Rightarrow> u8 \<Rightarrow> z_source_info option \<Rightarrow> bool \<Rightarrow> z_network_message" where
  "z_n_msg_make_query key parameters qid reliability consolidation payload encoding timeout_ms attachment qos source_info implicit_anyke =
     \<lparr>nm_body = N_request \<lparr>rq_rid = qid, rq_key = key, rq_ext_timestamp = z_timestamp_null, rq_ext_qos = qos, rq_ext_target = 0,
        rq_ext_budget = 0, rq_ext_timeout_ms = timeout_ms,
        rq_body = Request_query \<lparr>q_parameters = parameters, q_ext_info = or_null z_source_info_null source_info,
          q_ext_value = \<lparr>val_encoding = or_null z_encoding_null encoding, val_payload = or_null [] payload\<rparr>,
          q_consolidation = consolidation, q_ext_attachment = or_null [] attachment, q_implicit_anyke = implicit_anyke\<rparr>\<rparr>,
      nm_reliability = reliability\<rparr>"

definition z_n_msg_make_push_put :: "z_wireexpr \<Rightarrow> bytes list option \<Rightarrow> z_encoding option \<Rightarrow> u8 \<Rightarrow> z_timestamp option \<Rightarrow>
    bytes list option \<Rightarrow> z_reliability \<Rightarrow> z_source_info option \<Rightarrow> z_network_message" where
  "z_n_msg_make_push_put key payload encoding qos timestamp attachment reliability source_info =
     \<lparr>nm_body = N_push \<lparr>push_key = key, push_timestamp = z_timestamp_null, push_qos = qos,
        push_body = \<lparr>pb_is_put = True, pb_put = put_of payload encoding timestamp attachment source_info\<rparr>\<rparr>,
      nm_reliability = reliability\<rparr>"

definition z_n_msg_make_push_del :: "z_wireexpr \<Rightarrow> u8 \<Rightarrow> z_timestamp option \<Rightarrow> z_reliability \<Rightarrow> z_source_info option \<Rightarrow> z_network_message" where
  "z_n_msg_make_push_del key qos timestamp reliability source_info =
     \<lparr>nm_body = N_push \<lparr>push_key = key, push_timestamp = z_timestamp_null, push_qos = qos,
        push_body = \<lparr>pb_is_put = False, pb_put = put_of_del \<lparr>del_commons = commons_of timestamp source_info, del_attachment = []\<rparr>\<rparr>\<rparr>,
      nm_reliability = reliability\<rparr>"

definition z_n_msg_make_reply_ok_put :: "z_id \<Rightarrow> nat \<Rightarrow> z_wireexpr \<Rightarrow> z_reliability \<Rightarrow> u32 \<Rightarrow> u8 \<Rightarrow> z_timestamp option \<Rightarrow>
    z_source_info option \<Rightarrow> bytes list option \<Rightarrow> z_encoding option \<Rightarrow> bytes list option \<Rightarrow> z_network_message" where
  "z_n_msg_make_reply_ok_put zid rid key reliability consolidation qos timestamp source_info payload encoding attachment =
     \<lparr>nm_body = N_response \<lparr>rs_ext_timestamp = z_timestamp_null, rs_request_id = rid, rs_key = key, rs_ext_qos = qos,
        rs_responder_zid = zid, rs_responder_eid = 0,
        rs_body = Response_reply \<lparr>r_consolidation = consolidation,
          r_body = \<lparr>pb_is_put = True, pb_put = put_of payload encoding timestamp attachment source_info\<rparr>\<rparr>\<rparr>,
      nm_reliability = reliability\<rparr>"

definition z_n_msg_make_reply_ok_del :: "z_id \<Rightarrow> nat \<Rightarrow> z_wireexpr \<Rightarrow> z_reliability \<Rightarrow> u32 \<Rightarrow> u8 \<Rightarrow> z_timestamp option \<Rightarrow>
    z_source_info option \<Rightarrow> bytes list option \<Rightarrow> z_network_message" where
  "z_n_msg_make_reply_ok_del zid rid key reliability consolidation qos timestamp source_info attachment =
     \<lparr>nm_body = N_response \<lparr>rs_ext_timestamp = z_timestamp_null, rs_request_id = rid, rs_key = key, rs_ext_qos = qos,
        rs_responder_zid = zid, rs_responder_eid = 0,
        rs_body = Response_reply \<lparr>r_consolidation = consolidation,
          r_body = \<lparr>pb_is_put = False, pb_put = put_of_del \<lparr>del_commons = commons_of timestamp source_info,
            del_attachment = or_null [] attachment\<rparr>\<rparr>\<rparr>\<rparr>,
      nm_reliability = reliability\<rparr>"

definition z_n_msg_make_reply_err :: "z_id \<Rightarrow> nat \<Rightarrow> z_reliability \<Rightarrow> u8 \<Rightarrow> bytes list option \<Rightarrow> z_encoding option \<Rightarrow>
    z_source_info option \<Rightarrow> z_network_message" where
  "z_n_msg_make_reply_err zid rid reliability qos payload encoding source_info =
     \<lparr>nm_body = N_response \<lparr>rs_ext_timestamp = z_timestamp_null, rs_request_id = rid, rs_key = z_wireexpr_null, rs_ext_qos = qos,
        rs_responder_zid = zid, rs_responder_eid = 0,
        rs_body = Response_err \<lparr>e_encoding = or_null z_encoding_null encoding, e_ext_source_info = or_null z_source_info_null source_info,
          e_payload = or_null [] payload\<rparr>\<rparr>,
      nm_reliability = reliability\<rparr>"

definition z_n_msg_make_interest :: "z_interest \<Rightarrow> z_network_message" where
  "z_n_msg_make_interest interest = \<lparr>nm_body = N_interest interest, nm_reliability = RELIABLE\<rparr>"

definition z_n_msg_request_needed_exts :: "z_n_msg_request \<Rightarrow> z_n_msg_request_exts" where
  "z_n_msg_request_needed_exts msg =
     (let budget = rq_ext_budget msg \<noteq> 0; target = rq_ext_target msg \<noteq> 0; qos = rq_ext_qos msg \<noteq> N_QOS_DEFAULT;
          timeout = rq_ext_timeout_ms msg \<noteq> 0; tstamp = z_timestamp_check (rq_ext_timestamp msg)
      in \<lparr>rx_qos = qos, rx_tstamp = tstamp, rx_target = target, rx_budget = budget, rx_timeout_ms = timeout,
          rx_n = of_bool budget + of_bool target + of_bool qos + of_bool timeout + of_bool tstamp\<rparr>)"

section \<open>Encoding\<close>

definition key_flags :: "z_wireexpr \<Rightarrow> u8" where
  "key_flags key = flag_if (z_wireexpr_is_local key) 0x40 OR flag_if (z_wireexpr_has_suffix key) 0x20"

definition z_push_encode :: "'h heap \<Rightarrow> z_n_msg_push \<Rightarrow> 'h step" where
  "z_push_encode H msg =
     (let has_suffix = z_wireexpr_has_suffix (push_key msg);
          has_qos_ext = (push_qos msg \<noteq> N_QOS_DEFAULT);
          has_timestamp_ext = z_timestamp_check (push_timestamp msg);
          header = 0x1D OR key_flags (push_key msg) OR flag_if (has_qos_ext \<or> has_timestamp_ext) 0x80
      in in_turn [\<lambda>wbf. z_uint8_encode H wbf header, z_wireexpr_encode H has_suffix (push_key msg),
           only_if has_qos_ext (in_turn [\<lambda>wbf. z_uint8_encode H wbf (0x21 OR flag_if has_timestamp_ext 0x80),
             \<lambda>wbf. z_uint8_encode H wbf (push_qos msg)]),
           only_if has_timestamp_ext (in_turn [\<lambda>wbf. z_uint8_encode H wbf 0x42, z_timestamp_encode_ext H (push_timestamp msg)]),
           z_push_body_encode H (push_body msg)])"

text \<open>An extension's header, and its number or its body; \<open>n\<close> is how many are still to come.\<close>

definition more :: "nat \<Rightarrow> u8" where "more n = flag_if (n \<noteq> 0) 0x80"

fun request_body_encode :: "'h heap \<Rightarrow> z_request_body \<Rightarrow> 'h step" where
  "request_body_encode H (Request_query q) = z_query_encode H q"
| "request_body_encode H (Request_put p) = z_put_encode H p"
| "request_body_encode H (Request_del d) = z_del_encode H d"

definition z_request_encode :: "'h heap \<Rightarrow> z_n_msg_request \<Rightarrow> 'h step" where
  "z_request_encode H msg =
     (let header = 0x1C OR key_flags (rq_key msg);
          exts = z_n_msg_request_needed_exts msg; n0 = rx_n exts;
          n1 = n0 - of_bool (rx_qos exts); n2 = n1 - of_bool (rx_tstamp exts); n3 = n2 - of_bool (rx_target exts);
          n4 = n3 - of_bool (rx_budget exts); n5 = n4 - of_bool (rx_timeout_ms exts)
      in in_turn [\<lambda>wbf. z_uint8_encode H wbf (header OR more n0), \<lambda>wbf. z_zsize_encode H wbf (rq_rid msg),
           z_wireexpr_encode H (z_wireexpr_has_suffix (rq_key msg)) (rq_key msg),
           only_if (rx_qos exts) (in_turn [\<lambda>wbf. z_uint8_encode H wbf (0x21 OR more n1), \<lambda>wbf. z_zsize_encode H wbf (unat (rq_ext_qos msg))]),
           only_if (rx_tstamp exts) (in_turn [\<lambda>wbf. z_uint8_encode H wbf (0x42 OR more n2), z_timestamp_encode_ext H (rq_ext_timestamp msg)]),
           only_if (rx_target exts) (in_turn [\<lambda>wbf. z_uint8_encode H wbf (0x34 OR more n3), \<lambda>wbf. z_zsize_encode H wbf (unat (rq_ext_target msg))]),
           only_if (rx_budget exts) (in_turn [\<lambda>wbf. z_uint8_encode H wbf (0x25 OR more n4), \<lambda>wbf. z_zsize_encode H wbf (unat (rq_ext_budget msg))]),
           only_if (rx_timeout_ms exts) (in_turn [\<lambda>wbf. z_uint8_encode H wbf (0x26 OR more n5), \<lambda>wbf. z_zint64_encode H wbf (rq_ext_timeout_ms msg)]),
           request_body_encode H (rq_body msg)])"

fun response_body_encode :: "'h heap \<Rightarrow> z_response_body \<Rightarrow> 'h step" where
  "response_body_encode H (Response_reply r) = z_reply_encode H r"
| "response_body_encode H (Response_err e) = z_err_encode H e"

definition z_response_encode :: "'h heap \<Rightarrow> z_n_msg_response \<Rightarrow> 'h step" where
  "z_response_encode H msg =
     (let has_qos_ext = (rs_ext_qos msg \<noteq> N_QOS_DEFAULT); has_ts_ext = z_timestamp_check (rs_ext_timestamp msg);
          has_responder_ext = (z_id_check (rs_responder_zid msg) \<or> rs_responder_eid msg \<noteq> 0);
          n0 = of_bool has_qos_ext + of_bool has_ts_ext + of_bool has_responder_ext;
          n1 = n0 - of_bool has_qos_ext; n2 = n1 - of_bool has_ts_ext; n3 = n2 - of_bool has_responder_ext;
          has_suffix = z_wireexpr_has_suffix (rs_key msg);
          zidlen = z_id_len (rs_responder_zid msg)
      in in_turn [\<lambda>wbf. z_uint8_encode H wbf (0x1B OR key_flags (rs_key msg) OR more n0), \<lambda>wbf. z_zsize_encode H wbf (rs_request_id msg),
           \<lambda>wbf. z_zsize_encode H wbf (unat (we_id (rs_key msg))),
           only_if has_suffix (\<lambda>wbf. z_string_encode H wbf (we_suffix (rs_key msg))),
           only_if has_qos_ext (in_turn [\<lambda>wbf. z_uint8_encode H wbf (0x21 OR more n1), \<lambda>wbf. z_zsize_encode H wbf (unat (rs_ext_qos msg))]),
           only_if has_ts_ext (in_turn [\<lambda>wbf. z_uint8_encode H wbf (0x42 OR more n2), z_timestamp_encode_ext H (rs_ext_timestamp msg)]),
           only_if has_responder_ext (in_turn [\<lambda>wbf. z_uint8_encode H wbf (0x43 OR more n3),
             \<lambda>wbf. z_zsize_encode H wbf (zidlen + 1 + z_zint_len (ucast (rs_responder_eid msg))),
             \<lambda>wbf. z_uint8_encode H wbf (zidlen_byte zidlen), \<lambda>wbf. z_wbuf_write_bytes H wbf (rs_responder_zid msg) 0 zidlen,
             \<lambda>wbf. z_zsize_encode H wbf (unat (rs_responder_eid msg))]),
           response_body_encode H (rs_body msg)])"

definition z_response_final_encode :: "'h heap \<Rightarrow> nat \<Rightarrow> 'h step" where
  "z_response_final_encode H rid = in_turn [\<lambda>wbf. z_uint8_encode H wbf 0x1A, \<lambda>wbf. z_zsize_encode H wbf rid]"

definition z_declare_encode :: "'h heap \<Rightarrow> z_n_msg_declare \<Rightarrow> 'h step" where
  "z_declare_encode H decl =
     (let has_qos_ext = (dc_ext_qos decl \<noteq> N_QOS_DEFAULT); has_timestamp_ext = z_timestamp_check (dc_ext_timestamp decl);
          n0 = of_bool has_qos_ext + of_bool has_timestamp_ext; n1 = n0 - of_bool has_qos_ext; n2 = n1 - of_bool has_timestamp_ext;
          header = 0x1E OR more n0 OR flag_if (dc_interest_id decl \<noteq> None) 0x20
      in in_turn [\<lambda>wbf. z_uint8_encode H wbf header,
           (case dc_interest_id decl of None \<Rightarrow> in_turn [] | Some i \<Rightarrow> (\<lambda>wbf. z_zsize_encode H wbf (unat i))),
           only_if has_qos_ext (in_turn [\<lambda>wbf. z_uint8_encode H wbf (0x21 OR more n1), \<lambda>wbf. z_zsize_encode H wbf (unat (dc_ext_qos decl))]),
           only_if has_timestamp_ext (in_turn [\<lambda>wbf. z_uint8_encode H wbf (0x42 OR more n2), z_timestamp_encode_ext H (dc_ext_timestamp decl)]),
           z_declaration_encode H (dc_decl decl)])"

definition z_n_interest_encode :: "'h heap \<Rightarrow> z_interest \<Rightarrow> 'h step" where
  "z_n_interest_encode H interest =
     (let current = HAS_FLAG (int_flags interest) INTEREST_CURRENT; future = HAS_FLAG (int_flags interest) INTEREST_FUTURE
      in in_turn [\<lambda>wbf. z_uint8_encode H wbf (0x19 OR flag_if current 0x20 OR flag_if future 0x40),
           z_interest_encode H interest (\<not> current \<and> \<not> future)])"

fun oam_enc :: "z_msg_ext_body \<Rightarrow> u8" where
  "oam_enc Ext_unit = 0x00"
| "oam_enc (Ext_zint v) = 0x20"
| "oam_enc (Ext_zbuf s) = 0x40"

fun oam_body_encode :: "'h heap \<Rightarrow> z_msg_ext_body \<Rightarrow> 'h step" where
  "oam_body_encode H Ext_unit = in_turn []"
| "oam_body_encode H (Ext_zint v) = (\<lambda>wbf. z_zint64_encode H wbf v)"
| "oam_body_encode H (Ext_zbuf s) = (\<lambda>wbf. z_slice_encode H wbf s)"

definition z_oam_encode :: "'h heap \<Rightarrow> z_n_msg_oam \<Rightarrow> 'h step" where
  "z_oam_encode H oam =
     (let has_qos_ext = (oam_ext_qos oam \<noteq> N_QOS_DEFAULT); has_timestamp_ext = z_timestamp_check (oam_ext_timestamp oam);
          n0 = of_bool has_qos_ext + of_bool has_timestamp_ext; n1 = n0 - of_bool has_qos_ext; n2 = n1 - of_bool has_timestamp_ext;
          header = 0x1F OR more n0 OR oam_enc (oam_body oam)
      in in_turn [\<lambda>wbf. z_uint8_encode H wbf header, \<lambda>wbf. z_zint16_encode H wbf (oam_id oam),
           only_if has_qos_ext (in_turn [\<lambda>wbf. z_uint8_encode H wbf (0x21 OR more n1), \<lambda>wbf. z_uint8_encode H wbf (oam_ext_qos oam)]),
           only_if has_timestamp_ext (in_turn [\<lambda>wbf. z_uint8_encode H wbf (0x42 OR more n2), z_timestamp_encode_ext H (oam_ext_timestamp oam)]),
           oam_body_encode H (oam_body oam)])"

definition z_network_message_encode :: "'h heap \<Rightarrow> z_network_message \<Rightarrow> 'h step" where
  "z_network_message_encode H msg =
     (case nm_body msg of
        N_declare d \<Rightarrow> z_declare_encode H d
      | N_push p \<Rightarrow> z_push_encode H p
      | N_request r \<Rightarrow> z_request_encode H r
      | N_response r \<Rightarrow> z_response_encode H r
      | N_response_final rid \<Rightarrow> z_response_final_encode H rid
      | N_interest i \<Rightarrow> z_n_interest_encode H i
      | N_oam m \<Rightarrow> z_oam_encode H m)"

section \<open>Decoding\<close>

definition z_push_decode_ext_cb :: "z_n_msg_push ext_callback" where
  "z_push_decode_ext_cb ext msg =
     (if EXT_FULL_ID (ext_header ext) = 0x21 then
        ext_number ext (\<lambda>v. if 0xFFFFFFFF < v then Some (Z_ERR_MESSAGE_DESERIALIZATION_FAILED, msg)
          else Some (Z_OK, msg\<lparr>push_qos := ucast v\<rparr>))
      else if EXT_FULL_ID (ext_header ext) = 0x42 then
        ext_slice ext (slice_into (z_timestamp_decode (push_timestamp msg)) (\<lambda>ts. msg\<lparr>push_timestamp := ts\<rparr>) msg)
      else ext_unknown ext msg)"

definition z_push_decode :: "(nat \<Rightarrow> bool) \<Rightarrow> z_n_msg_push \<Rightarrow> u8 \<Rightarrow> z_mapping \<Rightarrow> z_zbuf \<Rightarrow> z_n_msg_push decoded" where
  "z_push_decode mem msg header mapping zbf =
     on_value (z_wireexpr_decode (HAS_FLAG header 0x20) (HAS_FLAG header 0x40) mapping zbf) (\<lambda>ke zbf.
     let msg = msg\<lparr>push_qos := N_QOS_DEFAULT, push_key := ke\<rparr> in
     on_value (decode_if (HAS_FLAG header 0x80) (z_msg_ext_decode_iter z_push_decode_ext_cb msg) msg zbf) (\<lambda>msg zbf.
     on_value (z_uint8_decode zbf) (\<lambda>msgheader zbf.
     on_value (z_push_body_decode mem (push_body msg) msgheader zbf) (\<lambda>b zbf.
       Some (Inr (msg\<lparr>push_body := b\<rparr>), zbf)))))"

definition z_request_decode_extensions :: "z_n_msg_request ext_callback" where
  "z_request_decode_extensions ext msg =
     (let full_id = EXT_FULL_ID (ext_header ext) in
      if full_id = 0x21 then
        ext_number ext (\<lambda>v. if 0xFF < v then Some (Z_ERR_MESSAGE_DESERIALIZATION_FAILED, msg)
          else Some (Z_OK, msg\<lparr>rq_ext_qos := ucast v\<rparr>))
      else if full_id = 0x42 then
        ext_slice ext (slice_into (z_timestamp_decode (rq_ext_timestamp msg)) (\<lambda>ts. msg\<lparr>rq_ext_timestamp := ts\<rparr>) msg)
      else if full_id = 0x34 then
        ext_number ext (\<lambda>v. let msg = msg\<lparr>rq_ext_target := ucast (ucast v :: u8)\<rparr> in
          if 2 < rq_ext_target msg then Some (Z_ERR_MESSAGE_DESERIALIZATION_FAILED, msg) else Some (Z_OK, msg))
      else if full_id = 0x25 then ext_number ext (\<lambda>v. Some (Z_OK, msg\<lparr>rq_ext_budget := ucast v\<rparr>))
      else if full_id = 0x26 then ext_number ext (\<lambda>v. Some (Z_OK, msg\<lparr>rq_ext_timeout_ms := v\<rparr>))
      else ext_unknown ext msg)"

text \<open>The body is one of the members of a cleared union.\<close>

definition request_body_decode :: "(nat \<Rightarrow> bool) \<Rightarrow> u8 \<Rightarrow> z_zbuf \<Rightarrow> z_request_body decoded" where
  "request_body_decode mem zheader zbf =
     (if Z_MID zheader = 0x03 then on_value (z_query_decode mem z_query_null zheader zbf) (\<lambda>q zbf. Some (Inr (Request_query q), zbf))
      else if Z_MID zheader = 0x01 then on_value (z_put_decode mem z_put_null zheader zbf) (\<lambda>p zbf. Some (Inr (Request_put p), zbf))
      else if Z_MID zheader = 0x02 then on_value (z_del_decode mem z_del_null zheader zbf) (\<lambda>d zbf. Some (Inr (Request_del d), zbf))
      else Some (Inl Z_ERR_MESSAGE_DESERIALIZATION_FAILED, zbf))"

definition z_request_decode :: "(nat \<Rightarrow> bool) \<Rightarrow> z_n_msg_request \<Rightarrow> u8 \<Rightarrow> z_mapping \<Rightarrow> z_zbuf \<Rightarrow> z_n_msg_request decoded" where
  "z_request_decode mem msg header mapping zbf =
     on_value (z_zsize_decode zbf) (\<lambda>rid zbf.
     on_value (z_wireexpr_decode (HAS_FLAG header 0x20) (HAS_FLAG header 0x40) mapping zbf) (\<lambda>ke zbf.
     let msg = msg\<lparr>rq_ext_qos := N_QOS_DEFAULT, rq_rid := rid, rq_key := ke\<rparr> in
     on_value (decode_if (HAS_FLAG header 0x80) (z_msg_ext_decode_iter z_request_decode_extensions msg) msg zbf) (\<lambda>msg zbf.
     on_value (z_uint8_decode zbf) (\<lambda>zheader zbf.
     on_value (request_body_decode mem zheader zbf) (\<lambda>b zbf. Some (Inr (msg\<lparr>rq_body := b\<rparr>), zbf))))))"

text \<open>The responder's identifier is read over the one that is there.\<close>

definition z_zbuf_read_exact :: "bytes \<Rightarrow> nat \<Rightarrow> z_zbuf \<Rightarrow> bytes decoded" where
  "z_zbuf_read_exact dest n zbf =
     (if z_zbuf_len zbf < n then fail_decode zbf
      else do { (d, zbf) \<leftarrow> z_zbuf_read_bytes zbf dest 0 n; Some (Inr d, zbf) })"

definition responder_decode :: "z_id \<Rightarrow> z_zbuf \<Rightarrow> (z_id \<times> u32) decoded" where
  "responder_decode zid zbf =
     on_value (z_uint8_decode zbf) (\<lambda>header zbf.
     on_value (z_zbuf_read_exact zid (unat (drop_bit 4 header + 1)) zbf) (\<lambda>zid zbf.
     on_value (z_zint32_decode zbf) (\<lambda>eid zbf. Some (Inr (zid, eid), zbf))))"

definition z_response_decode_extension :: "z_n_msg_response ext_callback" where
  "z_response_decode_extension ext msg =
     (if EXT_FULL_ID (ext_header ext) = 0x21 then ext_number ext (\<lambda>v. Some (Z_OK, msg\<lparr>rs_ext_qos := ucast v\<rparr>))
      else if EXT_FULL_ID (ext_header ext) = 0x42 then
        ext_slice ext (slice_into (z_timestamp_decode (rs_ext_timestamp msg)) (\<lambda>ts. msg\<lparr>rs_ext_timestamp := ts\<rparr>) msg)
      else if EXT_FULL_ID (ext_header ext) = 0x43 then
        ext_slice ext (slice_into (responder_decode (rs_responder_zid msg))
          (\<lambda>(zid, eid). msg\<lparr>rs_responder_zid := zid, rs_responder_eid := eid\<rparr>) msg)
      else ext_unknown ext msg)"

definition response_body_decode :: "(nat \<Rightarrow> bool) \<Rightarrow> u8 \<Rightarrow> z_zbuf \<Rightarrow> z_response_body decoded" where
  "response_body_decode mem inner_header zbf =
     (if Z_MID inner_header = 0x04 then on_value (z_reply_decode mem z_reply_null inner_header zbf) (\<lambda>r zbf. Some (Inr (Response_reply r), zbf))
      else if Z_MID inner_header = 0x05 then on_value (z_err_decode z_err_null inner_header zbf) (\<lambda>e zbf. Some (Inr (Response_err e), zbf))
      else Some (Inl Z_ERR_MESSAGE_DESERIALIZATION_FAILED, zbf))"

definition z_response_decode :: "(nat \<Rightarrow> bool) \<Rightarrow> z_n_msg_response \<Rightarrow> u8 \<Rightarrow> z_mapping \<Rightarrow> z_zbuf \<Rightarrow> z_n_msg_response decoded" where
  "z_response_decode mem msg header mapping zbf =
     on_value (z_zsize_decode zbf) (\<lambda>rid zbf.
     on_value (z_wireexpr_decode (HAS_FLAG header 0x20) (HAS_FLAG header 0x40) mapping zbf) (\<lambda>ke zbf.
     let msg = msg\<lparr>rs_ext_qos := N_QOS_DEFAULT, rs_request_id := rid, rs_key := ke\<rparr> in
     on_value (decode_if (HAS_FLAG header 0x80) (z_msg_ext_decode_iter z_response_decode_extension msg) msg zbf) (\<lambda>msg zbf.
     on_value (z_uint8_decode zbf) (\<lambda>inner_header zbf.
     on_value (response_body_decode mem inner_header zbf) (\<lambda>b zbf. Some (Inr (msg\<lparr>rs_body := b\<rparr>), zbf))))))"

text \<open>An error of the extensions hides one of the number.\<close>

definition z_response_final_decode :: "u8 \<Rightarrow> z_zbuf \<Rightarrow> nat decoded" where
  "z_response_final_decode header zbf = do {
     (r1, zbf) \<leftarrow> z_zsize_decode zbf;
     (r2, zbf) \<leftarrow> decode_if (HAS_FLAG header 0x80) z_msg_ext_skip_non_mandatories () zbf;
     Some (case r2 of Inl e \<Rightarrow> Inl e | Inr _ \<Rightarrow> r1, zbf) }"

definition z_declare_decode_extensions :: "z_n_msg_declare ext_callback" where
  "z_declare_decode_extensions ext decl =
     (if EXT_FULL_ID (ext_header ext) = 0x21 then ext_number ext (\<lambda>v. Some (Z_OK, decl\<lparr>dc_ext_qos := ucast v\<rparr>))
      else if EXT_FULL_ID (ext_header ext) = 0x42 then
        ext_slice ext (slice_into (z_timestamp_decode (dc_ext_timestamp decl)) (\<lambda>ts. decl\<lparr>dc_ext_timestamp := ts\<rparr>) decl)
      else ext_unknown ext decl)"

text \<open>The declaration of a cleared message has no key expression.\<close>

definition z_declare_decode :: "(nat \<Rightarrow> bool) \<Rightarrow> z_n_msg_declare \<Rightarrow> u8 \<Rightarrow> z_mapping \<Rightarrow> z_zbuf \<Rightarrow> z_n_msg_declare decoded" where
  "z_declare_decode mem decl header mapping zbf =
     (let decl = decl\<lparr>dc_ext_qos := N_QOS_DEFAULT\<rparr> in
      on_value (if HAS_FLAG header 0x20 then on_value (z_zint32_decode zbf) (\<lambda>i zbf. Some (Inr (decl\<lparr>dc_interest_id := Some i\<rparr>), zbf))
          else Some (Inr decl, zbf)) (\<lambda>decl zbf.
      on_value (decode_if (HAS_FLAG header 0x80) (z_msg_ext_decode_iter z_declare_decode_extensions decl) decl zbf) (\<lambda>decl zbf.
      on_value (z_declaration_decode mem z_wireexpr_null mapping zbf) (\<lambda>d zbf. Some (Inr (decl\<lparr>dc_decl := d\<rparr>), zbf)))))"

definition z_n_interest_decode :: "u8 \<Rightarrow> z_mapping \<Rightarrow> z_zbuf \<Rightarrow> z_interest decoded" where
  "z_n_interest_decode header mapping zbf =
     (let current = HAS_FLAG header 0x20; future = HAS_FLAG header 0x40;
          interest = z_interest_null\<lparr>int_flags := flag_if current INTEREST_CURRENT OR flag_if future INTEREST_FUTURE\<rparr>
      in z_interest_decode interest (\<not> current \<and> \<not> future) (HAS_FLAG header 0x80) mapping zbf)"

definition z_oam_decode_extensions :: "z_n_msg_oam ext_callback" where
  "z_oam_decode_extensions ext oam =
     (if EXT_FULL_ID (ext_header ext) = 0x21 then ext_number ext (\<lambda>v. Some (Z_OK, oam\<lparr>oam_ext_qos := ucast v\<rparr>))
      else if EXT_FULL_ID (ext_header ext) = 0x42 then
        ext_slice ext (slice_into (z_timestamp_decode (oam_ext_timestamp oam)) (\<lambda>ts. oam\<lparr>oam_ext_timestamp := ts\<rparr>) oam)
      else ext_unknown ext oam)"

definition z_oam_decode :: "z_n_msg_oam \<Rightarrow> u8 \<Rightarrow> z_zbuf \<Rightarrow> z_n_msg_oam decoded" where
  "z_oam_decode oam header zbf =
     on_value (z_zint16_decode zbf) (\<lambda>i zbf.
     let oam = oam\<lparr>oam_id := i, oam_ext_qos := N_QOS_DEFAULT, oam_ext_timestamp := z_timestamp_null\<rparr> in
     on_value (decode_if (HAS_FLAG header 0x80) (z_msg_ext_decode_iter z_oam_decode_extensions oam) oam zbf) (\<lambda>oam zbf.
       if EXT_ENC header = 0x00 then Some (Inr (oam\<lparr>oam_body := Ext_unit\<rparr>), zbf)
       else if EXT_ENC header = 0x20 then on_value (z_zint64_decode zbf) (\<lambda>v zbf. Some (Inr (oam\<lparr>oam_body := Ext_zint v\<rparr>), zbf))
       else if EXT_ENC header = 0x40 then on_value (z_slice_decode zbf) (\<lambda>s zbf. Some (Inr (oam\<lparr>oam_body := Ext_zbuf s\<rparr>), zbf))
       else Some (Inl Z_ERR_MESSAGE_DESERIALIZATION_FAILED, zbf)))"

section \<open>Decoding of a message\<close>

definition z_push_null :: z_n_msg_push where
  "z_push_null = \<lparr>push_key = z_wireexpr_null, push_timestamp = z_timestamp_null, push_qos = 0, push_body = z_push_body_null\<rparr>"

definition z_request_null :: z_n_msg_request where
  "z_request_null = \<lparr>rq_rid = 0, rq_key = z_wireexpr_null, rq_ext_timestamp = z_timestamp_null, rq_ext_qos = 0, rq_ext_target = 0,
     rq_ext_budget = 0, rq_ext_timeout_ms = 0, rq_body = Request_query z_query_null\<rparr>"

definition z_response_null :: z_n_msg_response where
  "z_response_null = \<lparr>rs_ext_timestamp = z_timestamp_null, rs_request_id = 0, rs_key = z_wireexpr_null, rs_ext_qos = 0,
     rs_responder_zid = z_id_empty, rs_responder_eid = 0, rs_body = Response_reply z_reply_null\<rparr>"

definition z_declare_null :: z_n_msg_declare where
  "z_declare_null = \<lparr>dc_decl = Decl_kexpr 0 z_wireexpr_null, dc_ext_timestamp = z_timestamp_null, dc_ext_qos = 0, dc_interest_id = None\<rparr>"

definition z_oam_null :: z_n_msg_oam where
  "z_oam_null = \<lparr>oam_id = 0, oam_ext_timestamp = z_timestamp_null, oam_ext_qos = 0, oam_body = Ext_unit\<rparr>"

definition n_body_decode :: "'a decoded \<Rightarrow> ('a \<Rightarrow> z_network_body) \<Rightarrow> z_network_message decoded" where
  "n_body_decode m f = on_value m (\<lambda>x zbf. Some (Inr \<lparr>nm_body = f x, nm_reliability = RELIABLE\<rparr>, zbf))"

text \<open>The header is read in place, through its address in the block.\<close>

definition z_network_message_decode :: "(nat \<Rightarrow> bool) \<Rightarrow> z_mapping \<Rightarrow> z_zbuf \<Rightarrow> z_network_message decoded" where
  "z_network_message_decode mem mapping zbf =
     on_value (z_uint8_decode_as_ref zbf) (\<lambda>p zbf. do {
       header \<leftarrow> arr_get (ios_buf (zb_ios zbf)) p;
       if Z_MID header = 0x1E then n_body_decode (z_declare_decode mem z_declare_null header mapping zbf) N_declare
       else if Z_MID header = 0x1D then n_body_decode (z_push_decode mem z_push_null header mapping zbf) N_push
       else if Z_MID header = 0x1C then n_body_decode (z_request_decode mem z_request_null header mapping zbf) N_request
       else if Z_MID header = 0x1B then n_body_decode (z_response_decode mem z_response_null header mapping zbf) N_response
       else if Z_MID header = 0x1A then n_body_decode (z_response_final_decode header zbf) N_response_final
       else if Z_MID header = 0x19 then n_body_decode (z_n_interest_decode header mapping zbf) N_interest
       else if Z_MID header = 0x1F then n_body_decode (z_oam_decode z_oam_null header zbf) N_oam
       else Some (Inl Z_ERR_MESSAGE_DESERIALIZATION_FAILED, zbf) })"

end
