(* ===== verification/ZNetBounds.thy ===== *)
theory ZNetBounds
  imports ZNet ZMsgTyped
begin

text \<open>
  The decoder of network messages stays inside of its buffer: whenever it returns, what it leaves is an end of what there was, and a
  message took at least its header. Whether it returns is another matter: the length of an identifier in a timestamp is not checked.
\<close>

named_theorems stays_intros

definition stays :: "(z_zbuf \<Rightarrow> 'a decoded) \<Rightarrow> bool" where
  "stays d \<longleftrightarrow> (\<forall>zbf r zbf'. zb_ok zbf \<longrightarrow> d zbf = Some (r, zbf') \<longrightarrow> zb_ok zbf' \<and> suffix (zb_data zbf') (zb_data zbf))"

lemma staysI: "(\<And>zbf r zbf'. zb_ok zbf \<Longrightarrow> d zbf = Some (r, zbf') \<Longrightarrow> zb_ok zbf' \<and> suffix (zb_data zbf') (zb_data zbf)) \<Longrightarrow> stays d"
  unfolding stays_def by blast

lemma staysD: "stays d \<Longrightarrow> zb_ok zbf \<Longrightarrow> d zbf = Some (r, zbf') \<Longrightarrow> zb_ok zbf' \<and> suffix (zb_data zbf') (zb_data zbf)"
  unfolding stays_def by blast

lemma stays_bounds: "in_bounds d \<Longrightarrow> stays d"
  unfolding in_bounds_def stays_def by fastforce

lemmas stays_basic [stays_intros] =
  in_bounds_value [THEN stays_bounds] uint8_in_bounds [THEN stays_bounds] zint_small_in_bounds [THEN stays_bounds] zint64_in_bounds [THEN stays_bounds]
  slice_in_bounds [THEN stays_bounds] bytes_in_bounds [THEN stays_bounds] string_in_bounds [THEN stays_bounds]
  encoding_in_bounds [THEN stays_bounds] value_in_bounds [THEN stays_bounds] skip_in_bounds [THEN stays_bounds]

lemma stays_undefined [stays_intros]: "stays (\<lambda>zbf. None)"
  by (simp add: stays_def)

lemma stays_if [stays_intros]: "stays a \<Longrightarrow> stays b \<Longrightarrow> stays (\<lambda>zbf. if B then a zbf else b zbf)"
  by (cases B) simp_all

lemma stays_bind:
  assumes d: "stays d" and f: "\<And>r. stays (f r)"
  shows "stays (\<lambda>zbf. Option.bind (d zbf) (\<lambda>(r, zbf). f r zbf))"
proof (rule staysI)
  fix zbf r zbf'
  assume z: "zb_ok zbf" "Option.bind (d zbf) (\<lambda>(r, zbf). f r zbf) = Some (r, zbf')"
  then obtain r1 z1 where 1: "d zbf = Some (r1, z1)" "f r1 z1 = Some (r, zbf')" by (auto simp: bind_eq_Some_conv)
  from staysD [OF d z(1) 1(1)] staysD [OF f _ 1(2)] show "zb_ok zbf' \<and> suffix (zb_data zbf') (zb_data zbf)"
    by (auto intro: suffix_order.trans)
qed

lemma stays_seq [stays_intros]:
  assumes "stays d" "\<And>x. stays (f x)"
  shows "stays (\<lambda>zbf. on_value (d zbf) f)"
proof -
  have "(\<lambda>zbf. on_value (d zbf) f) = (\<lambda>zbf. Option.bind (d zbf) (\<lambda>(r, zbf). case r of Inl e \<Rightarrow> Some (Inl e, zbf) | Inr x \<Rightarrow> f x zbf))"
    by (rule ext) (simp add: on_value_def)
  moreover have "stays (case r of Inl e \<Rightarrow> (\<lambda>zbf. Some (Inl e, zbf)) | Inr x \<Rightarrow> f x)" for r
    using assms(2) by (cases r) (simp_all add: stays_def)
  then have "stays (\<lambda>zbf. Option.bind (d zbf) (\<lambda>(r, zbf). case r of Inl e \<Rightarrow> Some (Inl e, zbf) | Inr x \<Rightarrow> f x zbf))"
    using stays_bind [OF assms(1), of "\<lambda>r. case r of Inl e \<Rightarrow> (\<lambda>zbf. Some (Inl e, zbf)) | Inr x \<Rightarrow> f x"]
    by (simp add: sum.case_distrib [of "\<lambda>g. g _"])
  ultimately show ?thesis by simp
qed

lemma stays_prod [stays_intros]: "(\<And>a b. stays (f a b)) \<Longrightarrow> stays (case p of (a, b) \<Rightarrow> f a b)"
  by (cases p) simp

lemma stays_both [stays_intros]:
  assumes "stays d1" "stays d2"
  shows "stays (decode_both d1 d2)"
proof (rule staysI)
  fix zbf r zbf'
  assume z: "zb_ok zbf" "decode_both d1 d2 zbf = Some (r, zbf')"
  then obtain r1 z1 r2 where 1: "d1 zbf = Some (r1, z1)" "d2 z1 = Some (r2, zbf')" by (auto simp: decode_both_def bind_eq_Some_conv)
  from staysD [OF assms(1) z(1) 1(1)] staysD [OF assms(2) _ 1(2)] show "zb_ok zbf' \<and> suffix (zb_data zbf') (zb_data zbf)"
    by (auto intro: suffix_order.trans)
qed

lemma stays_decode_if [stays_intros]: "stays d \<Longrightarrow> stays (decode_if b d x)"
  by (simp add: stays_def decode_if_def)

lemma stays_iter [stays_intros]: "stays (z_msg_ext_decode_iter callback c)"
proof (rule staysI)
  fix zbf r zbf'
  assume "zb_ok zbf" "z_msg_ext_decode_iter callback c zbf = Some (r, zbf')"
  then show "zb_ok zbf' \<and> suffix (zb_data zbf') (zb_data zbf)"
  proof (induction "length (zb_data zbf)" arbitrary: c zbf rule: less_induct)
    case less
    obtain r1 z1 where d: "z_msg_ext_decode (z_msg_ext_make_unit 0) zbf = Some (r1, z1)" "zb_ok z1" "suffix (zb_data z1) (zb_data zbf)"
      using ext_in_bounds less.prems(1) unfolding in_bounds_def by blast
    show ?case
    proof (cases r1)
      case (Inl e)
      then show ?thesis using d less.prems(2) by (simp add: z_msg_ext_decode_iter.simps [of callback c zbf])
    next
      case (Inr x)
      have l: "length (zb_data z1) < length (zb_data zbf)" using ext_consumes [OF less.prems(1)] d(1) Inr by blast
      obtain ret c1 where c: "callback (fst x) c = Some (ret, c1)"
        using less.prems(2) d(1) Inr by (auto simp: z_msg_ext_decode_iter.simps [of callback c zbf] bind_eq_Some_conv)
      show ?thesis
      proof (cases "ret = Z_OK \<and> snd x")
        case True
        then have "z_msg_ext_decode_iter callback c1 z1 = Some (r, zbf')"
          using less.prems(2) d(1) Inr c by (simp add: z_msg_ext_decode_iter.simps [of callback c zbf])
        from less.hyps [OF l d(2) this] show ?thesis using d(3) suffix_order.trans by blast
      next
        case False
        then show ?thesis using less.prems(2) d Inr c by (auto simp: z_msg_ext_decode_iter.simps [of callback c zbf] split: if_splits)
      qed
    qed
  qed
qed

lemma stays_id [stays_intros]: "stays (z_id_decode_as_slice i)"
proof (rule staysI)
  fix zbf r zbf'
  assume z: "zb_ok zbf" "z_id_decode_as_slice i zbf = Some (r, zbf')"
  let ?n = "unat (zb_data zbf ! 0)"
  have ok: "ios_ok (zb_ios zbf)" using z(1) by (simp add: zb_ok_def)
  have ne: "zb_data zbf \<noteq> []"
    using z(2) length_ios_data [OF ok] by (auto simp: z_id_decode_as_slice_def z_zbuf_read_def z_iosli_read_def bind_eq_Some_conv zb_data_def)
  then obtain b d where bd: "zb_data zbf = b # d" by (cases "zb_data zbf") auto
  obtain z1 where 1: "z_zbuf_read zbf = Some (b, z1)" "zb_ok z1" "zb_data z1 = d" using zb_read [OF z(1) bd] by blast
  have ok1: "ios_ok (zb_ios z1)" using 1(2) by (simp add: zb_ok_def)
  have n: "unat b \<le> length (ios_data (zb_ios z1))" and
    zbf': "zbf' = z1\<lparr>zb_ios := (zb_ios z1)\<lparr>ios_r_pos := ios_r_pos (zb_ios z1) + unat b\<rparr>\<rparr>"
    using z(2) 1(1) ok1 by (auto simp: z_id_decode_as_slice_def z_zbuf_read_bytes_def z_iosli_read_bytes_def bind_eq_Some_conv)
  show "zb_ok zbf' \<and> suffix (zb_data zbf') (zb_data zbf)"
    using ios_advance(2,3) [OF ok1 n] 1(3) bd by (auto simp: zbf' zb_ok_def zb_data_def intro!: suffix_ConsI suffix_drop)
qed

section \<open>Zenoh messages, declarations and interests\<close>

lemma stays_timestamp [stays_intros]: "stays (z_timestamp_decode ts)"
  unfolding z_timestamp_decode_def [abs_def] by (intro stays_intros)

lemma stays_wireexpr [stays_intros]: "stays (z_wireexpr_decode a b c)"
  unfolding z_wireexpr_decode_def [abs_def] by (intro stays_intros)

lemma stays_push_body [stays_intros]: "stays (z_push_body_decode mem b header)"
  unfolding z_push_body_decode_def [abs_def] Let_def by (intro stays_intros)

lemma stays_put [stays_intros]: "stays (z_put_decode mem p header)"
  unfolding z_put_decode_def [abs_def] by (cases "Z_MID header = 0x01") (simp_all add: stays_intros)

lemma stays_del [stays_intros]: "stays (z_del_decode mem p header)"
  unfolding z_del_decode_def [abs_def] by (cases "Z_MID header = 0x02") (simp_all add: stays_intros)

lemma stays_consolidation [stays_intros]: "stays (consolidation_decode has w)"
  unfolding consolidation_decode_def [abs_def] by (intro stays_intros)

lemma stays_query [stays_intros]: "stays (z_query_decode mem q header)"
  unfolding z_query_decode_def [abs_def] Let_def by (intro stays_intros)

lemma stays_reply [stays_intros]: "stays (z_reply_decode mem r header)"
  unfolding z_reply_decode_def [abs_def] Let_def by (intro stays_intros)

lemma stays_err [stays_intros]: "stays (z_err_decode e header)"
  unfolding z_err_decode_def [abs_def] Let_def by (intro stays_intros)

lemma stays_skip_if [stays_intros]: "stays (skip_if has x)"
  unfolding skip_if_def [abs_def] by (intro stays_intros)

lemma stays_undecl [stays_intros]: "stays (z_undecl_trivial_decode mem ke header mapping)"
  unfolding z_undecl_trivial_decode_def [abs_def] by (intro stays_intros)

lemma stays_decl_commons [stays_intros]: "stays (z_decl_commons_decode header mapping)"
  unfolding z_decl_commons_decode_def [abs_def] by (intro stays_intros)

lemma stays_declaration [stays_intros]: "stays (z_declaration_decode mem ke mapping)"
  unfolding z_declaration_decode_def [abs_def] z_decl_kexpr_decode_def z_undecl_kexpr_decode_def z_decl_subscriber_decode_def
    z_undecl_subscriber_decode_def z_decl_queryable_decode_def z_undecl_queryable_decode_def z_decl_token_decode_def
    z_undecl_token_decode_def z_decl_final_decode_def
  by (intro stays_intros)

lemma stays_interest [stays_intros]: "stays (z_interest_decode i is_final has_ext mapping)"
  unfolding z_interest_decode_def [abs_def] Let_def by (intro stays_intros)

section \<open>Network messages\<close>

lemma stays_push [stays_intros]: "stays (z_push_decode mem m header mapping)"
  unfolding z_push_decode_def [abs_def] Let_def by (intro stays_intros)

lemma stays_request [stays_intros]: "stays (z_request_decode mem m header mapping)"
  unfolding z_request_decode_def [abs_def] request_body_decode_def Let_def by (intro stays_intros)

lemma stays_response [stays_intros]: "stays (z_response_decode mem m header mapping)"
  unfolding z_response_decode_def [abs_def] response_body_decode_def Let_def by (intro stays_intros)

lemma stays_response_final [stays_intros]: "stays (z_response_final_decode header)"
  unfolding z_response_final_decode_def [abs_def]
  by (rule stays_bind, intro stays_intros, rule stays_bind, intro stays_intros, simp add: stays_def)

lemma stays_declare [stays_intros]: "stays (z_declare_decode mem m header mapping)"
  unfolding z_declare_decode_def [abs_def] Let_def by (intro stays_intros)

lemma stays_n_interest [stays_intros]: "stays (z_n_interest_decode header mapping)"
  unfolding z_n_interest_decode_def [abs_def] Let_def by (intro stays_intros)

lemma stays_oam [stays_intros]: "stays (z_oam_decode m header)"
  unfolding z_oam_decode_def [abs_def] Let_def by (intro stays_intros)

text \<open>The body behind a header, and a whole message.\<close>

definition n_body :: "(nat \<Rightarrow> bool) \<Rightarrow> z_mapping \<Rightarrow> u8 \<Rightarrow> z_zbuf \<Rightarrow> z_network_message decoded" where
  "n_body mem mapping header zbf =
     (if Z_MID header = 0x1E then n_body_decode (z_declare_decode mem z_declare_null header mapping zbf) N_declare
      else if Z_MID header = 0x1D then n_body_decode (z_push_decode mem z_push_null header mapping zbf) N_push
      else if Z_MID header = 0x1C then n_body_decode (z_request_decode mem z_request_null header mapping zbf) N_request
      else if Z_MID header = 0x1B then n_body_decode (z_response_decode mem z_response_null header mapping zbf) N_response
      else if Z_MID header = 0x1A then n_body_decode (z_response_final_decode header zbf) N_response_final
      else if Z_MID header = 0x19 then n_body_decode (z_n_interest_decode header mapping zbf) N_interest
      else if Z_MID header = 0x1F then n_body_decode (z_oam_decode z_oam_null header zbf) N_oam
      else Some (Inl Z_ERR_MESSAGE_DESERIALIZATION_FAILED, zbf))"

lemma stays_body: "stays (n_body mem mapping header)"
  unfolding n_body_def [abs_def] n_body_decode_def by (intro stays_intros)

theorem network_decode_stays:
  assumes "zb_ok zbf" "z_network_message_decode mem mapping zbf = Some (x, zbf')"
  shows "zb_ok zbf' \<and> suffix (zb_data zbf') (zb_data zbf) \<and> (\<forall>m. x = Inr m \<longrightarrow> length (zb_data zbf') < length (zb_data zbf))"
proof (cases "zb_data zbf = []")
  case True
  then have "z_zbuf_can_read zbf = False" using assms(1) by simp
  then have "x = Inl Z_ERR_MESSAGE_DESERIALIZATION_FAILED" "zbf' = zbf"
    using assms(2) by (simp_all add: z_network_message_decode_def z_uint8_decode_as_ref_def fail_decode_def on_value_def)
  then show ?thesis using assms(1) by simp
next
  case False
  have ok: "ios_ok (zb_ios zbf)" using assms(1) by (simp add: zb_ok_def)
  let ?z1 = "zbf\<lparr>zb_ios := (zb_ios zbf)\<lparr>ios_r_pos := ios_r_pos (zb_ios zbf) + 1\<rparr>\<rparr>"
  have one: "1 \<le> length (ios_data (zb_ios zbf))" using False by (cases "ios_data (zb_ios zbf)") (auto simp: zb_data_def)
  have z1: "zb_ok ?z1" "zb_data ?z1 = drop 1 (zb_data zbf)"
    using ios_advance(2,3) [OF ok one] by (simp_all add: zb_ok_def zb_data_def)
  have can: "z_zbuf_can_read zbf" "ios_r_pos (zb_ios zbf) < ios_w_pos (zb_ios zbf)"
    using False assms(1) one length_ios_data [OF ok] by auto
  obtain header where "n_body mem mapping header ?z1 = Some (x, zbf')"
    using assms(2) can by (auto simp: z_network_message_decode_def z_uint8_decode_as_ref_def z_zbuf_read_as_ref_def z_iosli_read_as_ref_def
        on_value_def n_body_def bind_eq_Some_conv)
  from staysD [OF stays_body z1(1) this] show ?thesis
    using z1(2) False suffix_length_le [of "zb_data zbf'" "drop 1 (zb_data zbf)"] suffix_drop [of 1 "zb_data zbf"]
    by (cases "zb_data zbf") (auto intro: suffix_ConsI)
qed

end
