(* ===== verification/ZReceiver.thy ===== *)
theory ZReceiver
  imports ZRxProps ZNetBounds
begin

text \<open>
  The receiver with the network decoder of the code. \<open>mem s n\<close> tells whether the allocations of \<open>n\<close> bytes succeed in the state
  \<open>s\<close>.
\<close>

definition network_rx :: "('s \<Rightarrow> nat \<Rightarrow> bool) \<Rightarrow> z_mapping \<Rightarrow> (z_network_message, 's) z_rx_env \<Rightarrow> (z_network_message, 's) z_rx_env" where
  "network_rx mem mapping E = E\<lparr>rx_decode := \<lambda>s. z_network_message_decode (mem s) mapping\<rparr>"

text \<open>
  An environment that does what the code does wherever that is defined, and leaves the buffer well-formed where it is not.
\<close>

definition completes :: "('s \<Rightarrow> nat \<Rightarrow> bool) \<Rightarrow> z_mapping \<Rightarrow> (z_network_message, 's) z_rx_env \<Rightarrow> bool" where
  "completes mem mapping E \<longleftrightarrow>
     (\<forall>s zbf.
        case z_network_message_decode (mem s) mapping zbf of
          Some x \<Rightarrow> rx_decode E s zbf = Some x
        | None \<Rightarrow> zb_ok zbf \<longrightarrow>
            (\<exists>x zbf'. rx_decode E s zbf = Some (x, zbf') \<and> zb_ok zbf' \<and>
               (case x of Inl e \<Rightarrow> length (zb_data zbf') \<le> length (zb_data zbf) | Inr m \<Rightarrow> length (zb_data zbf') < length (zb_data zbf))))"

lemma completes_tame:
  assumes "completes mem mapping E"
  shows "tame E"
  unfolding tame_def
proof (intro allI impI)
  fix s zbf
  assume z: "zb_ok zbf"
  show "\<exists>x zbf'. rx_decode E s zbf = Some (x, zbf') \<and>
      (case x of Inl e \<Rightarrow> e \<noteq> Z_OK \<or> zb_ok zbf' \<and> length (zb_data zbf') \<le> length (zb_data zbf)
       | Inr m \<Rightarrow> zb_ok zbf' \<and> length (zb_data zbf') < length (zb_data zbf))"
  proof (cases "z_network_message_decode (mem s) mapping zbf")
    case None
    then obtain x zbf' where "rx_decode E s zbf = Some (x, zbf')" "zb_ok zbf'"
      "case x of Inl e \<Rightarrow> length (zb_data zbf') \<le> length (zb_data zbf) | Inr m \<Rightarrow> length (zb_data zbf') < length (zb_data zbf)"
      using spec [OF spec [OF assms [unfolded completes_def], of s], of zbf] z by auto
    then show ?thesis by (cases x) auto
  next
    case (Some a)
    obtain x zbf' where a: "a = (x, zbf')" by fastforce
    then have "rx_decode E s zbf = Some (x, zbf')" using spec [OF spec [OF assms [unfolded completes_def], of s], of zbf] Some by simp
    moreover note network_decode_stays [OF z Some [unfolded a]]
    ultimately show ?thesis by (cases x) (auto dest: suffix_length_le)
  qed
qed

lemma network_rx_fields [simp]:
  "rx_handle (network_rx mem mapping E) = rx_handle E" "rx_shared (network_rx mem mapping E) = rx_shared E"
  "rx_disconnected (network_rx mem mapping E) = rx_disconnected E"
  by (simp_all add: network_rx_def)

text \<open>The second result is the first, where there is a first.\<close>

definition extends :: "'a option \<Rightarrow> 'a option \<Rightarrow> bool" where
  "extends a b \<longleftrightarrow> a = None \<or> b = a"

lemma extendsD: "extends a b \<Longrightarrow> a = Some y \<Longrightarrow> b = Some y"
  by (simp add: extends_def)

named_theorems extends_intros

lemma extends_same [extends_intros]: "extends a a"
  by (simp add: extends_def)

lemma extends_bind [extends_intros]: "extends a b \<Longrightarrow> (\<And>x. extends (f x) (g x)) \<Longrightarrow> extends (Option.bind a f) (Option.bind b g)"
  unfolding extends_def by (cases a) fastforce+

lemma extends_if [extends_intros]: "extends a a' \<Longrightarrow> extends b b' \<Longrightarrow> extends (if B then a else b) (if B then a' else b')"
  by simp

lemma extends_prod [extends_intros]: "(\<And>a b. extends (f a b) (g a b)) \<Longrightarrow> extends (case p of (a, b) \<Rightarrow> f a b) (case p of (a, b) \<Rightarrow> g a b)"
  by (cases p) simp

lemma extends_sum [extends_intros]:
  "(\<And>e. extends (f e) (f' e)) \<Longrightarrow> (\<And>x. extends (g x) (g' x)) \<Longrightarrow>
   extends (case r of Inl e \<Rightarrow> f e | Inr x \<Rightarrow> g x) (case r of Inl e \<Rightarrow> f' e | Inr x \<Rightarrow> g' x)"
  by (cases r) simp_all

lemma decode_extends:
  assumes "completes mem mapping E"
  shows "extends (rx_decode (network_rx mem mapping E) s zbf) (rx_decode E s zbf)"
proof (cases "z_network_message_decode (mem s) mapping zbf")
  case None
  then show ?thesis by (simp add: extends_def network_rx_def)
next
  case (Some a)
  then have "rx_decode E s zbf = Some a" using spec [OF spec [OF assms [unfolded completes_def], of s], of zbf] by simp
  then show ?thesis using Some by (simp add: extends_def network_rx_def)
qed

text \<open>What the code's decoder gives, the other one gives as well: through frames, fragments and messages.\<close>

lemma frame_extends:
  assumes C: "completes mem mapping E"
  shows "extends (frame_messages (network_rx mem mapping E) r zbf s) (frame_messages E r zbf s)"
proof (cases "frame_messages (network_rx mem mapping E) r zbf s")
  case (Some y)
  let ?F = "network_rx mem mapping E"
  have "?F = ?F \<longrightarrow> frame_messages E r zbf s = Some y"
  proof (rule frame_messages.raw_induct [where P = "\<lambda>F r zbf s y. F = ?F \<longrightarrow> frame_messages E r zbf s = Some y", OF _ Some], intro impI)
    fix frm F r zbf s y
    assume IH: "\<And>F r zbf s y. frm F r zbf s = Some y \<Longrightarrow> F = ?F \<longrightarrow> frame_messages E r zbf s = Some y" and F: "F = ?F"
      and b: "(if 0 < z_zbuf_len zbf then do {
          (x, zbf) \<leftarrow> rx_decode F s zbf;
          (case x of
             Inl e \<Rightarrow> Some (e, zbf, s)
           | Inr m \<Rightarrow>
               let (ret, s) = rx_handle F m r s
               in if ret \<noteq> Z_OK then Some (ret, zbf, s) else frm F r zbf s) }
        else Some (Z_OK, zbf, s)) = Some y"
    have IH': "extends (frm ?F r zbf s) (frame_messages E r zbf s)" for r zbf s
      using IH [of ?F r zbf s] by (cases "frm ?F r zbf s") (simp_all add: extends_def)
    have "extends (if 0 < z_zbuf_len zbf then do {
          (x, zbf) \<leftarrow> rx_decode ?F s zbf;
          (case x of
             Inl e \<Rightarrow> Some (e, zbf, s)
           | Inr m \<Rightarrow>
               let (ret, s) = rx_handle ?F m r s
               in if ret \<noteq> Z_OK then Some (ret, zbf, s) else frm ?F r zbf s) }
        else Some (Z_OK, zbf, s)) (frame_messages E r zbf s)"
      unfolding frame_messages.simps [of E r zbf s] network_rx_fields Let_def
      by (intro extends_intros decode_extends [OF C] IH')
    then show "frame_messages E r zbf s = Some y" using b unfolding F by (rule extendsD)
  qed
  then show ?thesis using Some by (simp add: extends_def)
qed (simp add: extends_def)

lemma final_extends:
  assumes "completes mem mapping E"
  shows "extends (fragment_final (network_rx mem mapping E) H r p s h) (fragment_final E H r p s h)"
  unfolding fragment_final_def Let_def network_rx_fields by (intro extends_intros decode_extends [OF assms])

lemma message_extends:
  assumes "completes mem mapping E"
  shows "extends (z_unicast_handle_transport_message (network_rx mem mapping E) H res msg zbf p s h)
    (z_unicast_handle_transport_message E H res msg zbf p s h)"
proof -
  have a: "extends (z_unicast_handle_frame (network_rx mem mapping E) res header m zbf p s) (z_unicast_handle_frame E res header m zbf p s)"
    for header m unfolding z_unicast_handle_frame_def Let_def by (intro extends_intros frame_extends [OF assms])
  have b: "extends (z_unicast_handle_fragment (network_rx mem mapping E) H res header m p s h) (z_unicast_handle_fragment E H res header m p s h)"
    for header m unfolding z_unicast_handle_fragment_def z_unicast_handle_fragment_inner_def Let_def
    by (intro extends_intros final_extends [OF assms])
  show ?thesis
    unfolding z_unicast_handle_transport_message_def Let_def
    by (cases "tm_body msg") (simp_all add: extends_intros a b del: not_None_eq)
qed

lemma loop_extends:
  assumes C: "completes mem mapping E"
  shows "extends (process_loop (network_rx mem mapping E) H swap res zbf p s h) (process_loop E H swap res zbf p s h)"
proof (cases "process_loop (network_rx mem mapping E) H swap res zbf p s h")
  case (Some y)
  let ?F = "network_rx mem mapping E"
  have "?F = ?F \<longrightarrow> process_loop E H swap res zbf p s h = Some y"
  proof (rule process_loop.raw_induct [where P = "\<lambda>F H swap res zbf p s h y. F = ?F \<longrightarrow> process_loop E H swap res zbf p s h = Some y", OF _ Some],
      intro impI)
    fix prc F H swap res zbf peer s h y
    assume IH: "\<And>F H swap res zbf p s h y. prc F H swap res zbf p s h = Some y \<Longrightarrow> F = ?F \<longrightarrow> process_loop E H swap res zbf p s h = Some y"
      and F: "F = ?F"
      and b: "(if 0 < z_zbuf_len zbf then do {
        (r, zbf) \<leftarrow> z_transport_message_decode swap zbf;
        (case r of
           Inl e \<Rightarrow> Some (e, peer, s, h)
         | Inr t_msg \<Rightarrow> do {
             (ret, zbf, peer, s, h) \<leftarrow> z_unicast_handle_transport_message F H res t_msg zbf peer s h;
             if ret \<noteq> Z_OK then Some (ret, peer, s, h) else prc F H swap res zbf peer s h }) }
      else Some (Z_OK, peer, s, h)) = Some y"
    have IH': "extends (prc ?F H swap res zbf p s h) (process_loop E H swap res zbf p s h)" for H swap res zbf p s h
      using IH [of ?F H swap res zbf p s h] by (cases "prc ?F H swap res zbf p s h") (simp_all add: extends_def)
    have "extends (if 0 < z_zbuf_len zbf then do {
        (r, zbf) \<leftarrow> z_transport_message_decode swap zbf;
        (case r of
           Inl e \<Rightarrow> Some (e, peer, s, h)
         | Inr t_msg \<Rightarrow> do {
             (ret, zbf, peer, s, h) \<leftarrow> z_unicast_handle_transport_message ?F H res t_msg zbf peer s h;
             if ret \<noteq> Z_OK then Some (ret, peer, s, h) else prc ?F H swap res zbf peer s h }) }
      else Some (Z_OK, peer, s, h)) (process_loop E H swap res zbf peer s h)"
      unfolding process_loop.simps [of E H swap res zbf peer s h]
      by (intro extends_intros message_extends [OF C] IH')
    then show "process_loop E H swap res zbf peer s h = Some y" using b unfolding F by (rule extendsD)
  qed
  then show ?thesis using Some by (simp add: extends_def)
qed (simp add: extends_def)

lemma process_extends:
  assumes "completes mem mapping E"
  shows "extends (z_unicast_process_messages (network_rx mem mapping E) H swap ztu p n s h) (z_unicast_process_messages E H swap ztu p n s h)"
  unfolding z_unicast_process_messages_def Let_def network_rx_fields by (intro extends_intros loop_extends [OF assms])

end
