(* ===== verification/ZTransportProps.thy ===== *)
theory ZTransportProps
  imports ZHandshakeProps ZReceiver
begin

text \<open>
  What the transport promises as a whole, on every branch: the receiver on any input and any allocator, the fragments of a channel
  against their automaton, and the end of a handshake that the other side refuses.
\<close>

section \<open>The receiver\<close>








text \<open>
  C28: the three buffers, flags and copies of the code implement an automaton over byte strings: a fragment takes the channel where the automaton
  says, the message it completes is delivered, and the other channel stays as it is.
\<close>

theorem fragment_refines:
  fixes header :: u8
  assumes "heap_full H" "decodes E parse" "peer_ok p" "length (frag_payload m) \<le> SIZE_MAX - Z_FRAG_MAX_SIZE"
  defines "r \<equiv> frag_rel header"
  shows "\<exists>ret p' s' h'. z_unicast_handle_fragment E H res header m p s h = Some (ret, p', s', h') \<and> peer_ok p' \<and>
    (ret, s') = delivered E parse r (snd (frag_step res header m p)) s \<and> chan_of r p' = fst (frag_step res header m p) \<and>
    rx_sn r p' = (if z_sn_precedes res (rx_sn r p) (frag_sn m) then frag_sn m else rx_sn r p) \<and>
    (\<forall>q. q \<noteq> r \<longrightarrow> chan_of q p' = chan_of q p \<and> rx_sn q p' = rx_sn q p)"
proof -
  obtain ret p' s' h' where 1: "z_unicast_handle_fragment E H res header m p s h = Some (ret, p', s', h')" "chan_ok r p'" "elsewhere r p p'"
    "rx_sn r p' = (if z_sn_precedes res (rx_sn r p) (frag_sn m) then frag_sn m else rx_sn r p)"
    "(ret, s') = delivered E parse r (snd (frag_step res header m p)) s \<and> chan_of r p' = fst (frag_step res header m p)"
    using handle_fragment [OF _ assms(2,4) peer_ok_chan [OF assms(3)], where header = header and res = res and s = s and h = h] assms(1) unfolding r_def heap_full_def by blast
  then show ?thesis using peer_ok_elsewhere [OF assms(3) 1(3,2)] elsewhere_fields(5,6) [OF 1(3)] by auto
qed

theorem fragment_refines_witness:
  "\<exists>p' h'. z_unicast_handle_fragment demo_rx demo_heap (z_sn_max 2) 0x66 \<lparr>frag_payload = [1, 2, 3], frag_sn = 7, frag_first = True, frag_drop = False\<rparr>
      (demo_peer 7) [] () = Some (Z_OK, p', [], h') \<and> chan_of RELIABLE p' = Collecting [1, 2, 3] \<and> rx_sn RELIABLE p' = 7"
proof -
  have p: "peer_ok (demo_peer 7)" using demo_client [of 24 7] by (simp add: client_ready_def SIZE_MAX_def)
  let ?m = "\<lparr>frag_payload = [1, 2, 3], frag_sn = 7, frag_first = True, frag_drop = False\<rparr> :: z_t_msg_fragment"
  have r: "frag_rel 0x66 = RELIABLE" by (simp add: frag_rel_def HAS_FLAG_def)
  have d: "rx_sn RELIABLE (demo_peer 7) = 6" "chan_of RELIABLE (demo_peer 7) = Idle" "1 \<le> pr_patch (demo_peer 7)"
    by (simp_all add: demo_peer_def fill_peer_def Let_def rx_sn_def z_sn_decrement_def z_sn_max_def chan_of_def dbuf_state_def)
  have w: "z_sn_precedes (z_sn_max 2) 6 7" "z_sn_consecutive (z_sn_max 2) 6 7" by (simp_all add: z_sn_precedes_def z_sn_consecutive_def z_sn_max_def z_sn_half_def)
  have "frag_step (z_sn_max 2) 0x66 ?m (demo_peer 7) = (Collecting [1, 2, 3], None)"
    unfolding frag_step_def r Let_def using d w by (simp add: reassemble_def HAS_FLAG_def)
  then show ?thesis
    using fragment_refines [OF demo_ids(6) demo_decodes p, where header = "0x66" and m = ?m and res = "z_sn_max 2" and s = "[]" and h = "()"] d w
    unfolding r by (auto simp: SIZE_MAX_def delivered_def)
qed

text \<open>
  A channel that once overflowed stays so when the sender gives the message up: the stop marker empties the buffer but not the state, and the
  next message, small as it may be, is thrown away when it is complete, while the receiver reports success.
\<close>

theorem overflow_sticks:
  fixes header :: u8
  defines "r \<equiv> frag_rel header"
  assumes "heap_full H" "decodes E parse" "peer_ok p" "length (frag_payload m) \<le> SIZE_MAX - Z_FRAG_MAX_SIZE"
    and "dbuf_state r p = DBUF_OVERFLOW" "1 \<le> pr_patch p" "frag_first m" "\<not> frag_drop m" "\<not> HAS_FLAG header FLAG_T_FRAGMENT_M"
    and "z_sn_consecutive res (rx_sn r p) (frag_sn m)" "z_sn_precedes res (rx_sn r p) (frag_sn m)"
  shows "\<exists>p' h'. z_unicast_handle_fragment E H res header m p s h = Some (Z_OK, p', s, h') \<and> chan_of r p' = Idle"
proof -
  have c: "chan_of r p = Overflown (wb_data (dbuf r p))" using assms(6) by (simp add: chan_of_def)
  have "frag_step res header m p = (Idle, None)"
    unfolding frag_step_def r_def [symmetric] Let_def c using assms(7-) by (simp add: reassemble_def)
  moreover have "heap_ok H" using assms(2) by (simp add: heap_full_def)
  ultimately show ?thesis
    using handle_fragment [OF _ assms(3,5) peer_ok_chan [OF assms(4)], where H = H and header = header and res = res and s = s and h = h] c assms(2)
    unfolding r_def [symmetric] by (auto simp: delivered_def)
qed

theorem overflow_sticks_witness:
  "\<exists>p' h'. z_unicast_handle_fragment demo_rx demo_heap (z_sn_max 2) 0x26 \<lparr>frag_payload = [1, 2, 3], frag_sn = 7, frag_first = True, frag_drop = False\<rparr>
      (set_state RELIABLE DBUF_OVERFLOW (set_dbuf RELIABLE (demo_wbuf Z_FRAG_MAX_SIZE False) (demo_peer 7))) [] () = Some (Z_OK, p', [], h') \<and>
    chan_of RELIABLE p' = Idle"
proof -
  let ?p = "set_state RELIABLE DBUF_OVERFLOW (set_dbuf RELIABLE (demo_wbuf Z_FRAG_MAX_SIZE False) (demo_peer 7))"
  let ?m = "\<lparr>frag_payload = [1, 2, 3], frag_sn = 7, frag_first = True, frag_drop = False\<rparr> :: z_t_msg_fragment"
  have "peer_ok (demo_peer 7)" using demo_client [of 24 7] by (simp add: client_ready_def SIZE_MAX_def)
  then have p: "peer_ok ?p" using demo_tx_buf [of Z_FRAG_MAX_SIZE] by (simp add: peer_ok_def chan_ok_def)
  have r: "frag_rel 0x26 = RELIABLE" by (simp add: frag_rel_def HAS_FLAG_def)
  have d: "rx_sn RELIABLE (demo_peer 7) = 6" "1 \<le> pr_patch (demo_peer 7)"
    by (simp_all add: demo_peer_def fill_peer_def Let_def rx_sn_def z_sn_decrement_def z_sn_max_def)
  have w: "z_sn_precedes (z_sn_max 2) 6 7" "z_sn_consecutive (z_sn_max 2) 6 7" by (simp_all add: z_sn_precedes_def z_sn_consecutive_def z_sn_max_def z_sn_half_def)
  show ?thesis
    using overflow_sticks [OF demo_ids(6) demo_decodes p, where header = "0x26" and m = ?m and res = "z_sn_max 2" and s = "[]" and h = "()"] d w
    unfolding r by (simp add: SIZE_MAX_def HAS_FLAG_def)
qed

section \<open>A buffer without bytes\<close>

text \<open>Only the reference count of the read buffer fails to be allocated.\<close>

definition no_count :: "'h heap \<Rightarrow> bool" where
  "no_count H \<longleftrightarrow> heap_ok H \<and> heap_gives H \<and> (\<forall>n h. fst (mal_slis H n h) \<noteq> None) \<and> (\<forall>h. \<not> fst (mal_rc H h))"

lemma wbuf_make_no_count: "z_wbuf_make (H\<lparr>mal_rc := f\<rparr>) n e h = z_wbuf_make H n e h"
  by (simp add: z_wbuf_make_def svec_append_iosli_def z_iosli_make_def z_iosli_init_def)

lemma u16_size: "unat (x :: u16) \<le> SIZE_MAX"
  by (rule order_trans [OF less_imp_le [OF unat_u16_less]]) (simp add: SIZE_MAX_def)

lemma created_no_count:
  assumes H: "no_count H" and b: "0 < unat (lk_mtu zl)" "0 < unat (ep_batch_size p)"
  shows "\<exists>zt h'. z_unicast_transport_create H Z_OK Z_OK zl p h = Some (Z_OK, zt, h') \<and> zu_flow (tp_rx zt) = lk_flow zl \<and>
    z_zbuf_capacity (zu_zbuf (tp_rx zt)) = unat (ep_batch_size p) \<and> ios_buf (zb_ios (zu_zbuf (tp_rx zt))) = [] \<and>
    ios_r_pos (zb_ios (zu_zbuf (tp_rx zt))) = 0 \<and> ios_w_pos (zb_ios (zu_zbuf (tp_rx zt))) = 0"
proof -
  let ?H = "H\<lparr>mal_rc := \<lambda>h. (True, h)\<rparr>" and ?n = "unat (ep_batch_size p)"
  have "heap_full ?H" using H by (simp add: heap_full_def no_count_def heap_ok_def heap_gives_def)
  moreover define cap where "cap = unat (if lk_mtu zl < ep_batch_size p then lk_mtu zl else ep_batch_size p)"
  moreover have "0 < cap" "cap \<le> SIZE_MAX" using b u16_size by (simp_all add: cap_def)
  ultimately obtain w h1 where w: "z_wbuf_make H cap False h = Some (w, h1)" "z_wbuf_capacity w = Some cap"
    using make_tx_buf [of ?H cap h] by (auto simp: heap_full_def wbuf_make_no_count)
  obtain blk h2 where m: "mal_bytes H ?n h1 = (Some blk, h2)"
    using H unfolding no_count_def heap_gives_def by (metis fst_conv not_None_eq surj_pair)
  obtain h3 where rc: "mal_rc H h2 = (False, h3)" using H unfolding no_count_def by (metis prod.collapse)
  have "z_zbuf_make H ?n h1 = (\<lparr>zb_ios = \<lparr>ios_r_pos = 0, ios_w_pos = 0, ios_capacity = ?n, ios_buf = [], ios_is_alloc = False\<rparr>, zb_slice = None\<rparr>, h3)"
    using m rc b(2) by (simp add: z_zbuf_make_def z_iosli_make_def z_iosli_init_def z_zbuf_null_def z_zbuf_capacity_def z_iosli_clear_def)
  then show ?thesis
    using w unfolding z_unicast_transport_create_def z_unicast_transport_create_inner_def Let_def cap_def [symmetric]
    by (simp add: z_zbuf_capacity_def zero_transport_def)
qed

text \<open>
  \<open>_z_zbuf_make\<close> frees the block when it cannot count references to it, but leaves the capacity as it was, which is all that its callers look at:
  the transport is created, and the first byte that comes in is written through the null pointer.
\<close>

theorem transport_without_buffer:
  assumes H: "no_count H" and zl: "0 < unat (lk_mtu zl)" "lk_flow zl = FLOW_STREAM" and p: "0 < unat (ep_batch_size p)"
    and net: "honest read" "l \<noteq> []"
  shows "\<exists>zt h'. z_unicast_transport_create H Z_OK Z_OK zl p h = Some (Z_OK, zt, h') \<and>
    zp_unicast_read_task_client E K False read (tp_rx zt) peer s l k = None"
proof -
  obtain zt h' where zt: "z_unicast_transport_create H Z_OK Z_OK zl p h = Some (Z_OK, zt, h')" "zu_flow (tp_rx zt) = FLOW_STREAM"
    "z_zbuf_capacity (zu_zbuf (tp_rx zt)) = unat (ep_batch_size p)" "ios_buf (zb_ios (zu_zbuf (tp_rx zt))) = []"
    "ios_r_pos (zb_ios (zu_zbuf (tp_rx zt))) = 0" "ios_w_pos (zb_ios (zu_zbuf (tp_rx zt))) = 0"
    using created_no_count [OF H zl(1) p, of h] zl(2) by auto
  let ?z = "zu_zbuf (tp_rx zt)"
  obtain n where "n \<le> z_zbuf_space_left ?z" "n \<le> length l" "read (z_zbuf_space_left ?z) l = (Some (take n l), drop n l)"
    "0 < z_zbuf_space_left ?z \<and> l \<noteq> [] \<longrightarrow> 0 < n"
    using net(1) unfolding honest_def by blast
  moreover have "0 < z_zbuf_space_left ?z" using zt(3,6) p by (simp add: z_zbuf_space_left_def z_iosli_writable_def z_zbuf_capacity_def)
  ultimately obtain x bs l' where "read (z_zbuf_space_left ?z) l = (Some (x # bs), l')" using net(2) by (cases l; cases n) auto
  then have "gather_stream read ?z l = None"
    using zt(4-6) by (simp add: gather_stream_def top_up_def z_zbuf_len_def z_iosli_readable_def z_link_recv_zbuf_def take_in_def c_write_def)
  then show ?thesis using zt(1,2) by (simp add: zp_unicast_read_task_client_def z_unicast_client_read_def)
qed

theorem transport_without_buffer_witness:
  "\<exists>zt. z_unicast_transport_create (demo_heap\<lparr>mal_rc := \<lambda>h. (False, h)\<rparr>) Z_OK Z_OK (pipe 1500) (zero_param\<lparr>ep_batch_size := 2048\<rparr>) () =
      Some (Z_OK, zt, ()) \<and>
    zp_unicast_read_task_client demo_rx demo_heap False stream_reader (tp_rx zt) (demo_peer 0) [] [1] () = None"
proof -
  have "no_count (demo_heap\<lparr>mal_rc := \<lambda>h. (False, h)\<rparr>)"
    using demo_ids(6) by (simp add: no_count_def heap_full_def heap_ok_def heap_gives_def)
  then show ?thesis
    using transport_without_buffer [where zl = "pipe 1500" and p = "zero_param\<lparr>ep_batch_size := 2048\<rparr>" and h = "()" and l = "[1]" and
        peer = "demo_peer 0" and s = "[]" and k = "()" and E = demo_rx and K = demo_heap, OF _ _ _ _ stream_reader_honest] by (simp add: pipe_def)
qed

section \<open>The end of the handshake\<close>

text \<open>
  C30: a node that refuses the session answers the second message of a client with a close message. The client reads the fields of the union, which now
  holds the reason, as the lease and the initial number, and reports success. Memory is granted and operands are evaluated from left to right.
\<close>

theorem handshake_ignores_refusal:
  fixes reason :: u8 and link_only :: bool
  assumes nodes: "heap_full H" "zid_ok za" "zid_ok zb" "whatami_valid v" "64 \<le> unat mtu" "ep_key_id_res p < 28" "\<forall>l. snd (hs_random E l) = l"
  defines "refusal \<equiv> z_t_msg_make_close reason link_only"
  shows "\<exists>p' out h'. z_unicast_open_client H False E (pipe mtu) p za
      (on_link True (tm_wire (z_t_msg_make_init_ack v zb [])) @ on_link True (tm_wire refusal), []) h = Some (Z_OK, p', ([], out), h') \<and>
    ep_lease p' = least_lease (fst (hs_union E refusal)) \<and> ep_initial_sn_rx p' = snd (hs_union E refusal)"
proof -
  obtain key where k: "res_bits (ep_key_id_res p) = Some key" using nodes(6) by (simp add: res_bits_def)
  have w: "whatami_valid WHATAMI_CLIENT" by (simp add: whatami_valid_def)
  have r: "snd (hs_random E l) = l" for l using nodes(7) by blast
  have c: "tm_ok refusal" "length (tm_wire refusal) \<le> 48" "open_fields E refusal = (fst (hs_union E refusal), snd (hs_union E refusal))"
    by (simp_all add: refusal_def z_t_msg_make_close_def tm_ok_def tm_wire_def open_fields_def Z_MID_def)
  show ?thesis
    using opener [OF nodes(1-3) w nodes(4,5) k r c, of "[]" "[]" h, unfolded append_Nil append_Nil2]
    unfolding z_unicast_open_client_def by (auto simp: opened_def)
qed

theorem handshake_ignores_refusal_witness:
  "\<exists>p' out. z_unicast_open_client demo_heap False demo_env (pipe 1500) zero_param (demo_zid 1)
      (on_link True (tm_wire (z_t_msg_make_init_ack 1 (demo_zid 2) [])) @ on_link True (tm_wire (z_t_msg_make_close 1 False)), []) () =
      Some (Z_OK, p', ([], out), ()) \<and> ep_lease p' = 0"
proof -
  have "whatami_valid 1" "64 \<le> unat (1500 :: u16)" by (simp_all add: whatami_valid_def)
  then show ?thesis
    using handshake_ignores_refusal [OF demo_ids(6,1,2) _ _ demo_ids(4,5), of 1 1500 1 False "()"] by (auto simp: demo_env_def least_lease_def)
qed

text \<open>
  A node that writes no markers asks a listening node, which lowers its patch to none and keeps the flag that announces an extension: the
  answer ends where the extension should be, and the asking node can not decode it.
\<close>

lemma lowered: "x < 2 \<Longrightarrow> x AND 3 = x" for x :: u8
proof -
  assume "x < 2"
  then have "unat x < 2" by (simp add: word_less_nat_alt)
  then have "x = 0 \<or> x = 1" by (auto simp: word_unat_eq_iff less_2_cases_iff)
  then show ?thesis by auto
qed

lemma cut_short:
  fixes syn :: z_t_msg_init and zb :: z_id
  assumes "zid_ok zb" "whatami_valid v" "init_patch syn = NO_PATCH"
  obtains iam ack where "listen_ack v zb syn = Some iam" "tm_body iam = T_init ack" "init_patch ack = NO_PATCH"
    "Z_MID (tm_header iam) = MID_T_INIT" "init_ok (tm_header iam) (ack\<lparr>init_patch := CURRENT_PATCH\<rparr>)"
proof -
  let ?m = "\<lparr>init_zid = zb, init_cookie = [], init_batch_size = 2048, init_whatami = v, init_req_id_res = 2, init_seq_num_res = 2,
    init_version = 9, init_patch = 1\<rparr> :: z_t_msg_init"
  let ?iam = "(z_t_msg_make_init_ack v zb [])\<lparr>tm_body := T_init (adjust_ack syn ?m)\<rparr>"
  have p: "init_patch (adjust_ack syn ?m) = NO_PATCH" using assms(3) by (simp add: adjust_ack_def Let_def)
  have l: "listen_ack v zb syn = Some ?iam" by (simp add: listen_ack_def handshake_messages)
  have h: "Z_MID (tm_header ?iam) = MID_T_INIT" "tm_header ?iam = 0xE1" by (simp_all add: z_t_msg_make_init_ack_def init_flags_def Let_def Z_MID_def)
  have "init_ok 0xE1 (adjust_ack syn ?m\<lparr>init_patch := CURRENT_PATCH\<rparr>)"
    using assms by (simp add: lowered init_ok_def adjust_ack_def HAS_FLAG_def Let_def)
  then show ?thesis using that [OF l _ p h(1)] h(2) by simp
qed

theorem old_peer_ack_malformed:
  assumes "zid_ok zb" "whatami_valid v" "init_patch syn = NO_PATCH"
  shows "\<exists>iam wire. listen_ack v zb syn = Some iam \<and> emits (\<lambda>wbf. z_transport_message_encode H wbf iam) wire \<and>
    (\<forall>zbf. zb_ok zbf \<and> zb_data zbf = wire \<longrightarrow>
      (\<exists>zbf'. z_transport_message_decode False zbf = Some (Inl Z_ERR_MESSAGE_DESERIALIZATION_FAILED, zbf')))"
proof -
  obtain iam ack where iam: "listen_ack v zb syn = Some iam" "tm_body iam = T_init ack" "init_patch ack = NO_PATCH"
    "Z_MID (tm_header iam) = MID_T_INIT" "init_ok (tm_header iam) (ack\<lparr>init_patch := CURRENT_PATCH\<rparr>)"
    using cut_short [OF assms] by blast
  let ?full = "iam\<lparr>tm_body := T_init (ack\<lparr>init_patch := CURRENT_PATCH\<rparr>)\<rparr>"
  have "emits (\<lambda>wbf. z_init_encode H wbf (tm_header iam) ack) (init_wire (tm_header iam) ack)"
    unfolding z_init_encode_def [abs_def] init_wire_def Let_def append_assoc
    by (intro emits_seq emits_byte uint8_emits zid_emits emits_if res_emits emits_nothing slice_emits patch_emits) (use iam(3,5) in \<open>auto simp: init_ok_def\<close>)
  then have "emits (\<lambda>wbf. z_transport_message_encode H wbf iam) ([tm_header iam] @ init_wire (tm_header iam) ack)"
    unfolding z_transport_message_encode_def [abs_def] Let_def by (intro emits_seq emits_byte) (simp add: iam(2,4))
  moreover have "reads (z_transport_message_decode False) (tm_wire ?full) ?full"
    by (rule message_reads) (simp add: tm_ok_def iam(4,5))
  moreover have "strict_prefix ([tm_header iam] @ init_wire (tm_header iam) ack) (tm_wire ?full)"
    by (simp add: tm_wire_def init_wire_def patch_wire_def iam(3) strict_prefix_def)
  ultimately show ?thesis using iam(1) readsD(2) by fastforce
qed

theorem old_peer_ack_malformed_witness:
  "\<exists>iam wire. listen_ack WHATAMI_PEER (demo_zid 2) \<lparr>init_zid = demo_zid 1, init_cookie = [], init_batch_size = 2048, init_whatami = 4,
      init_req_id_res = 2, init_seq_num_res = 2, init_version = 9, init_patch = 0\<rparr> = Some iam \<and>
    emits (\<lambda>wbf. z_transport_message_encode demo_heap wbf iam) wire \<and>
    (\<exists>zbf'. z_transport_message_decode False (z_slice_as_zbuf wire) = Some (Inl Z_ERR_MESSAGE_DESERIALIZATION_FAILED, zbf'))"
proof -
  have "whatami_valid WHATAMI_PEER" by (simp add: whatami_valid_def)
  from old_peer_ack_malformed [OF demo_ids(2) this, of "\<lparr>init_zid = demo_zid 1, init_cookie = [], init_batch_size = 2048, init_whatami = 4,
      init_req_id_res = 2, init_seq_num_res = 2, init_version = 9, init_patch = 0\<rparr>" demo_heap]
  obtain iam wire where 1: "listen_ack WHATAMI_PEER (demo_zid 2) \<lparr>init_zid = demo_zid 1, init_cookie = [], init_batch_size = 2048, init_whatami = 4,
      init_req_id_res = 2, init_seq_num_res = 2, init_version = 9, init_patch = 0\<rparr> = Some iam"
    "emits (\<lambda>wbf. z_transport_message_encode demo_heap wbf iam) wire"
    "\<forall>zbf. zb_ok zbf \<and> zb_data zbf = wire \<longrightarrow>
      (\<exists>zbf'. z_transport_message_decode False zbf = Some (Inl Z_ERR_MESSAGE_DESERIALIZATION_FAILED, zbf'))" by auto
  obtain zbf' where "z_transport_message_decode False (z_slice_as_zbuf wire) = Some (Inl Z_ERR_MESSAGE_DESERIALIZATION_FAILED, zbf')"
    using 1(3) [THEN spec, of "z_slice_as_zbuf wire"] by auto
  then show ?thesis by (intro exI conjI) (rule 1(1,2) | assumption)+
qed

section \<open>Who comes late\<close>

lemma late_window:
  fixes n :: u32
  assumes "n \<le> z_sn_max 2"
  shows "z_sn_precedes (z_sn_max 2) (z_sn_decrement (z_sn_max 2) 0) n \<longleftrightarrow> unat n + 1 < 2 ^ 27"
proof -
  have m: "z_sn_max 2 = mask 28" by (simp add: z_sn_max_def mask_eq_exp_minus_1)
  have d: "z_sn_decrement (mask 28) 0 = mask 28" by (simp add: z_sn_decrement_def)
  have n: "unat n \<le> 268435455" using assms by (simp add: z_sn_max_def word_le_nat_alt)
  have "unat (n - mask 28) = (if 268435455 \<le> unat n then unat n - 268435455 else unat n + 4294967296 - 268435455)"
    by (simp add: unat_sub_if_size word_size mask_eq_exp_minus_1)
  moreover have "(u + 4294967296 - 268435455) mod 268435456 = (u + 1) mod 268435456" for u :: nat
    using mod_mult_self1 [of "u + 1" 15 268435456] by (simp add: add.commute)
  ultimately have "sn_dist 28 (mask 28) n = (unat n + 1) mod 268435456" using n by (auto simp: sn_dist_def)
  then show ?thesis unfolding m d using n by (cases "unat n = 268435455") (simp_all add: precedes_dist)
qed

text \<open>
  A listening node announces the number 0 to everyone who connects, while the numbers of its one sender go on. A node that connects after \<open>n\<close> messages
  takes the next frame as new when \<open>n\<close> is in the first half of the circle, and drops it without a word otherwise.
\<close>

theorem late_peer_hears_nothing:
  fixes header :: u8
  defines "r \<equiv> (if HAS_FLAG header FLAG_T_FRAME_R then RELIABLE else BEST_EFFORT)"
  assumes "ep_initial_sn_rx p = 0" "n \<le> z_sn_max 2"
  shows "z_unicast_handle_frame E (z_sn_max 2) header \<lparr>frame_payload = f, frame_sn = n\<rparr> zbf (fill_peer (z_sn_max 2) p socket owned) s =
    (if unat n + 1 < 2 ^ 27 then do {
       (ret, zbf, s) \<leftarrow> frame_messages E r zbf s;
       Some (ret, zbf, set_rx_sn r n (fill_peer (z_sn_max 2) p socket owned), s) }
     else Some (Z_OK, z_zbuf_reset zbf, cleared r (fill_peer (z_sn_max 2) p socket owned), s))"
proof -
  let ?p = "fill_peer (z_sn_max 2) p socket owned"
  have "rx_sn r ?p = z_sn_decrement (z_sn_max 2) 0" for r using assms(2) by (simp add: fill_peer_def Let_def rx_sn_def)
  then have w: "z_sn_precedes (z_sn_max 2) (rx_sn r ?p) n \<longleftrightarrow> unat n + 1 < 2 ^ 27" using late_window [OF assms(3)] by simp
  have "chan_ok r ?p" by (simp add: fill_peer_def Let_def chan_ok_def dbuf_state_def dbuf_def)
  then show ?thesis unfolding z_unicast_handle_frame_def r_def [symmetric] Let_def using w chan_clear by (simp cong: if_cong)
qed

theorem late_peer_hears_nothing_witness:
  "z_unicast_handle_frame demo_rx (z_sn_max 2) 0x25 \<lparr>frame_payload = None, frame_sn = 0x7FFFFFF\<rparr> (z_slice_as_zbuf [1, 2]) (fill_peer (z_sn_max 2) zero_param 3 False) [] =
    Some (Z_OK, z_zbuf_reset (z_slice_as_zbuf [1, 2]), cleared RELIABLE (fill_peer (z_sn_max 2) zero_param 3 False), [])"
proof -
  have "ep_initial_sn_rx zero_param = 0" "(0x7FFFFFF :: u32) \<le> z_sn_max 2" by (simp_all add: zero_param_def z_sn_max_def)
  from late_peer_hears_nothing [OF this, where E = demo_rx and header = "0x25" and f = None and zbf = "z_slice_as_zbuf [1, 2]" and socket = 3 and owned = False and s = "[]"] show ?thesis
    by (simp add: HAS_FLAG_def)
qed

end
