(* ===== verification/ZKeyexpr.thy ===== *)
theory ZKeyexpr
  imports ZIoBuf
begin

text \<open>
  Key expressions as strings: \<open>session/keyexpr.c\<close> up to the matching, with the helper \<open>_z_str_startswith\<close> of
  \<open>utils/string.c\<close>. A block of memory is the list of its characters, and a pointer into it a position; a read or a write
  outside of the block is undefined.
\<close>

section \<open>Memory\<close>

text \<open>\<open>memchr\<close> reads one character after the other: it may be told more than there is when the character comes first.\<close>

definition mem_chr :: "string \<Rightarrow> nat \<Rightarrow> char \<Rightarrow> nat \<Rightarrow> nat option option" where
  "mem_chr s b c n =
     (let k = length (takeWhile (\<lambda>x. x \<noteq> c) (take n (drop b s)))
      in if k = n then Some None else if b + k < length s then Some (Some (b + k)) else None)"

text \<open>\<open>strchr\<close> stops at a zero.\<close>

definition str_chr :: "string \<Rightarrow> nat \<Rightarrow> char \<Rightarrow> nat option option" where
  "str_chr s b c =
     (let k = length (takeWhile (\<lambda>x. x \<noteq> c \<and> x \<noteq> CHR 0x00) (drop b s))
      in if b + k < length s then Some (if s ! (b + k) = c then Some (b + k) else None) else None)"

definition arr_put :: "string \<Rightarrow> nat \<Rightarrow> char \<Rightarrow> string option" where
  "arr_put s i c = (if i < length s then Some (s[i := c]) else None)"

text \<open>\<open>memmove\<close> within a block.\<close>

definition mem_move :: "string \<Rightarrow> nat \<Rightarrow> nat \<Rightarrow> nat \<Rightarrow> string option" where
  "mem_move s dst src n =
     (if src + n \<le> length s \<and> dst + n \<le> length s then Some (take dst s @ take n (drop src s) @ drop (dst + n) s) else None)"

text \<open>The number of characters of the needle when it is there, otherwise 0.\<close>

fun z_str_startswith :: "string \<Rightarrow> nat \<Rightarrow> string \<Rightarrow> nat \<Rightarrow> nat option" where
  "z_str_startswith s b [] i = Some i"
| "z_str_startswith s b (c # needle) i = do {
     x \<leftarrow> arr_get s (b + i);
     if x \<noteq> c then Some 0 else z_str_startswith s b needle (i + 1) }"

section \<open>The canonical form\<close>

datatype canon_status =
  CANON_SUCCESS | CANON_LONE_DOLLAR_STAR | CANON_SINGLE_STAR_AFTER_DOUBLE_STAR | CANON_DOUBLE_STAR_AFTER_DOUBLE_STAR
| CANON_EMPTY_CHUNK | CANON_STARS_IN_CHUNK | CANON_DOLLAR_AFTER_DOLLAR_OR_STAR | CANON_CONTAINS_SHARP_OR_QMARK
| CANON_CONTAINS_UNBOUND_DOLLAR

text \<open>The scan of the characters of a chunk; the number is 1 after a dollar and 3 after the star that follows it.\<close>

fun dollar_scan :: "string \<Rightarrow> nat \<Rightarrow> canon_status \<times> nat" where
  "dollar_scan [] in_dollar = (CANON_SUCCESS, in_dollar)"
| "dollar_scan (c # cs) in_dollar =
     (if c = CHR ''#'' \<or> c = CHR ''?'' then (CANON_CONTAINS_SHARP_OR_QMARK, in_dollar)
      else if c = CHR ''$'' then
        (if in_dollar \<noteq> 0 then (CANON_DOLLAR_AFTER_DOLLAR_OR_STAR, in_dollar) else dollar_scan cs (in_dollar + 1))
      else if c = CHR ''*'' then
        (if in_dollar \<noteq> 1 then (CANON_STARS_IN_CHUNK, in_dollar) else dollar_scan cs (in_dollar + 2))
      else if in_dollar = 1 then (CANON_CONTAINS_UNBOUND_DOLLAR, in_dollar) else dollar_scan cs 0)"

definition scan_chunk :: "string \<Rightarrow> canon_status" where
  "scan_chunk chunk =
     (let (ret, in_dollar) = dollar_scan chunk 0
      in if ret = CANON_SUCCESS \<and> in_dollar = 1 then CANON_CONTAINS_UNBOUND_DOLLAR else ret)"

text \<open>
  One turn of the loop of \<open>__zp_canon_prefix\<close> over the chunk at \<open>pos\<close>: the status and the length to report, and
  whether the chunk before was a double star.
\<close>

definition canon_chunk :: "bool \<Rightarrow> string \<Rightarrow> nat \<Rightarrow> nat \<Rightarrow> canon_status \<times> nat \<times> bool" where
  "canon_chunk in_big_wild chunk pos len =
     (if chunk = [] then (CANON_EMPTY_CHUNK, len, in_big_wild)
      else if length chunk = 1 then
        (if in_big_wild \<and> chunk ! 0 = CHR ''*'' then (CANON_SINGLE_STAR_AFTER_DOUBLE_STAR, size_sub pos 3, in_big_wild)
         else (CANON_SUCCESS, len, in_big_wild))
      else if chunk = ''$*'' then (CANON_LONE_DOLLAR_STAR, pos, in_big_wild)
      else if chunk = ''**'' then
        (if in_big_wild then (CANON_DOUBLE_STAR_AFTER_DOUBLE_STAR, size_sub pos 3, in_big_wild) else (CANON_SUCCESS, len, True))
      else case scan_chunk chunk of
          CANON_SUCCESS \<Rightarrow> (CANON_SUCCESS, len, False)
        | ret \<Rightarrow> (ret, len, in_big_wild))"

text \<open>Where the chunk at a position ends.\<close>

definition chunk_stop :: "string \<Rightarrow> nat \<Rightarrow> nat" where
  "chunk_stop s pos = pos + length (takeWhile (\<lambda>c. c \<noteq> CHR ''/'') (drop pos s))"

function canon_loop :: "string \<Rightarrow> nat \<Rightarrow> bool \<Rightarrow> nat \<Rightarrow> canon_status \<times> nat" where
  "canon_loop s chunk_start in_big_wild len =
     (let chunk_end = chunk_stop s chunk_start;
          (ret, len, in_big_wild) = canon_chunk in_big_wild (take (chunk_end - chunk_start) (drop chunk_start s)) chunk_start len
      in if ret \<noteq> CANON_SUCCESS then (ret, len)
         else if chunk_end + 1 < length s then canon_loop s (chunk_end + 1) in_big_wild len
         else if chunk_end + 1 \<le> length s then (CANON_EMPTY_CHUNK, len)
         else (CANON_SUCCESS, len))"
  by pat_completeness auto
termination
  by (relation "measure (\<lambda>(s, pos, _, _). length s - pos)") (auto simp: chunk_stop_def)

text \<open>The characters are those of the caller's \<open>start\<close> up to \<open>len\<close>; the length is the one to report.\<close>

definition zp_canon_prefix :: "string \<Rightarrow> canon_status \<times> nat" where
  "zp_canon_prefix s = canon_loop s 0 False (length s)"

definition z_keyexpr_is_canon :: "string \<Rightarrow> canon_status" where
  "z_keyexpr_is_canon s = fst (zp_canon_prefix s)"

section \<open>Bringing into canonical form\<close>

text \<open>The first loop of \<open>__zp_singleify\<close>: up to a needle that follows another one.\<close>

function skip_needles :: "string \<Rightarrow> nat \<Rightarrow> string \<Rightarrow> nat \<Rightarrow> bool \<Rightarrow> (nat \<times> bool) option" where
  "skip_needles s len needle reader right_after =
     (if reader < len then do {
        pos \<leftarrow> z_str_startswith s reader needle 0;
        if pos \<noteq> 0 then (if right_after then Some (reader, right_after) else skip_needles s len needle (reader + pos) True)
        else skip_needles s len needle (reader + 1) False }
      else Some (reader, right_after))"
  by pat_completeness auto
termination
  by (relation "measure (\<lambda>(_, len, _, reader, _). len - reader)") auto

fun copy_chars :: "nat \<Rightarrow> string \<Rightarrow> nat \<Rightarrow> nat \<Rightarrow> string option" where
  "copy_chars 0 s dst src = Some s"
| "copy_chars (Suc n) s dst src = do {
     x \<leftarrow> arr_get s src;
     s \<leftarrow> arr_put s dst x;
     copy_chars n s (dst + 1) (src + 1) }"

text \<open>The second loop: what is kept is moved down.\<close>

function move_down :: "string \<Rightarrow> nat \<Rightarrow> string \<Rightarrow> nat \<Rightarrow> nat \<Rightarrow> bool \<Rightarrow> (string \<times> nat) option" where
  "move_down s len needle reader writer right_after =
     (if reader < len then do {
        pos \<leftarrow> z_str_startswith s reader needle 0;
        if pos \<noteq> 0 then do {
          s \<leftarrow> (if right_after then Some s else copy_chars pos s writer reader);
          move_down s len needle (reader + pos) (if right_after then writer else writer + pos) True }
        else do {
          x \<leftarrow> arr_get s reader;
          s \<leftarrow> arr_put s writer x;
          move_down s len needle (reader + 1) (writer + 1) False } }
      else Some (s, writer))"
  by pat_completeness auto
termination
  by (relation "measure (\<lambda>(_, len, _, reader, _). len - reader)") auto

declare canon_loop.simps [simp del] skip_needles.simps [simp del] move_down.simps [simp del]

definition zp_singleify :: "string \<Rightarrow> nat \<Rightarrow> string \<Rightarrow> (string \<times> nat) option" where
  "zp_singleify s len needle = do {
     (reader, right_after) \<leftarrow> skip_needles s len needle 0 False;
     move_down s len needle reader reader right_after }"

text \<open>A chunk behind what is written already; it comes from a constant or from the same block.\<close>

definition write_slash :: "string \<Rightarrow> nat \<Rightarrow> nat \<Rightarrow> (string \<times> nat) option" where
  "write_slash s writer write_start =
     (if writer \<noteq> write_start then do { s \<leftarrow> arr_put s writer CHR ''/''; Some (s, writer + 1) } else Some (s, writer))"

fun write_chars :: "string \<Rightarrow> nat \<Rightarrow> string \<Rightarrow> string option" where
  "write_chars s writer [] = Some s"
| "write_chars s writer (c # cs) = do { s \<leftarrow> arr_put s writer c; write_chars s (writer + 1) cs }"

definition zp_ke_write_text :: "string \<Rightarrow> nat \<Rightarrow> string \<Rightarrow> nat \<Rightarrow> (string \<times> nat) option" where
  "zp_ke_write_text s writer chunk write_start = do {
     (s, writer) \<leftarrow> write_slash s writer write_start;
     s \<leftarrow> write_chars s writer chunk;
     Some (s, writer + length chunk) }"

definition zp_ke_write_chunk :: "string \<Rightarrow> nat \<Rightarrow> nat \<Rightarrow> nat \<Rightarrow> nat \<Rightarrow> (string \<times> nat) option" where
  "zp_ke_write_chunk s writer chunk len write_start = do {
     (s, writer) \<leftarrow> write_slash s writer write_start;
     s \<leftarrow> mem_move s writer chunk len;
     Some (s, writer + len) }"

text \<open>What a chunk of length one or two is to the second loop of \<open>_z_keyexpr_canonize\<close>.\<close>

datatype wild_chunk = No_wild | Star_chunk | Double_star_chunk

definition wild_chunk :: "string \<Rightarrow> nat \<Rightarrow> nat \<Rightarrow> wild_chunk option" where
  "wild_chunk s reader n =
     (if n = 1 then do { x \<leftarrow> arr_get s reader; Some (if x = CHR ''*'' then Star_chunk else No_wild) }
      else if n = 2 then do {
        y \<leftarrow> arr_get s (reader + 1);
        if y = CHR ''*'' then do {
          x \<leftarrow> arr_get s reader;
          Some (if x = CHR ''$'' then Star_chunk else if x = CHR ''*'' then Double_star_chunk else No_wild) }
        else Some No_wild }
      else Some No_wild)"

text \<open>
  The loop over the chunks behind the canonical prefix, with the position of the slash before the next one. The scan of
  the characters goes on to the end of the whole string.
\<close>

partial_function (option) canon_rest ::
  "nat \<Rightarrow> nat \<Rightarrow> string \<Rightarrow> nat option \<Rightarrow> nat \<Rightarrow> bool \<Rightarrow> canon_status \<Rightarrow> (string \<times> nat \<times> bool \<times> canon_status) option" where
  "canon_rest end write_start s next_slash writer in_big_wild ret =
     (case next_slash of
        None \<Rightarrow> Some (s, writer, in_big_wild, ret)
      | Some slash \<Rightarrow> do {
          let reader = slash + 1;
          next_slash \<leftarrow> mem_chr s reader CHR ''/'' (size_sub end reader);
          let chunk_end = (case next_slash of Some i \<Rightarrow> i | None \<Rightarrow> end);
          let n = size_sub chunk_end reader;
          w \<leftarrow> wild_chunk s reader n;
          (case w of
             Star_chunk \<Rightarrow> do {
               (s, writer) \<leftarrow> zp_ke_write_text s writer ''*'' write_start;
               canon_rest end write_start s next_slash writer in_big_wild ret }
           | Double_star_chunk \<Rightarrow> canon_rest end write_start s next_slash writer True ret
           | No_wild \<Rightarrow>
               let ret = (if n = 0 then CANON_EMPTY_CHUNK else ret);
                   ret = (if ret = CANON_SUCCESS then scan_chunk (take (end - reader) (drop reader s)) else ret)
               in if ret = CANON_SUCCESS then do {
                    (s, writer) \<leftarrow> (if in_big_wild then zp_ke_write_text s writer ''**'' write_start else Some (s, writer));
                    (s, writer) \<leftarrow> zp_ke_write_chunk s writer reader n write_start;
                    canon_rest end write_start s next_slash writer False ret }
                  else canon_rest end write_start s next_slash writer in_big_wild ret) })"

declare canon_rest.simps [code]

definition z_keyexpr_canonize :: "string \<Rightarrow> nat \<Rightarrow> (canon_status \<times> string \<times> nat) option" where
  "z_keyexpr_canonize s len = do {
     (s, len) \<leftarrow> zp_singleify s len ''$*'';
     let (ret, canon_len) = zp_canon_prefix (take len s);
     if ret \<noteq> CANON_LONE_DOLLAR_STAR \<and> ret \<noteq> CANON_SINGLE_STAR_AFTER_DOUBLE_STAR \<and> ret \<noteq> CANON_DOUBLE_STAR_AFTER_DOUBLE_STAR
     then Some (ret, s, len)
     else do {
       next_slash \<leftarrow> str_chr s canon_len CHR ''/'';
       let chunk_end = (case next_slash of Some i \<Rightarrow> i | None \<Rightarrow> len);
       assert_c (size_sub chunk_end canon_len = 2);
       y \<leftarrow> arr_get s (canon_len + 1);
       assert_c (y = CHR ''*'');
       x \<leftarrow> arr_get s canon_len;
       assert_c (x = CHR ''*'' \<or> x = CHR ''$'');
       (s, writer) \<leftarrow> (if x = CHR ''$'' then do { s \<leftarrow> arr_put s canon_len CHR ''*''; Some (s, canon_len + 1) } else Some (s, canon_len));
       (s, writer, in_big_wild, ret) \<leftarrow> canon_rest len canon_len s next_slash writer (x = CHR ''*'') CANON_SUCCESS;
       if ret = CANON_SUCCESS then do {
         (s, writer) \<leftarrow> (if in_big_wild then zp_ke_write_text s writer ''**'' canon_len else Some (s, writer));
         Some (ret, s, writer) }
       else Some (ret, s, len) } }"

section \<open>Other operations\<close>

text \<open>How far a key expression goes without a wild chunk.\<close>

fun back_to_slash :: "string \<Rightarrow> nat \<Rightarrow> nat" where
  "back_to_slash s 0 = 0"
| "back_to_slash s (Suc i) = (if s ! Suc i = CHR ''/'' then Suc i else back_to_slash s i)"

definition z_keyexpr_non_wild_prefix_len :: "string \<Rightarrow> nat option" where
  "z_keyexpr_non_wild_prefix_len key = do {
     pos \<leftarrow> mem_chr key 0 CHR ''*'' (length key);
     Some (case pos of None \<Rightarrow> length key | Some i \<Rightarrow> back_to_slash key i) }"

text \<open>The bits 1, 2 and 4 of the result, and both counters.\<close>

fun zp_ke_wildness :: "string \<Rightarrow> char \<Rightarrow> bool \<times> bool \<times> bool \<Rightarrow> nat \<Rightarrow> nat \<Rightarrow> (bool \<times> bool \<times> bool) \<times> nat \<times> nat" where
  "zp_ke_wildness [] prev w segments verbatims = (w, segments, verbatims)"
| "zp_ke_wildness (c # cs) prev (any, super, dsl) segments verbatims =
     zp_ke_wildness cs c
       (any \<or> c = CHR ''*'', super \<or> c = CHR ''*'' \<and> prev = CHR ''*'', dsl \<or> c = CHR ''$'')
       (if c = CHR ''/'' then size_add segments 1 else segments) (if c = CHR ''@'' then size_add verbatims 1 else verbatims)"

text \<open>A copy of a string, and two strings with a separator; a first copy is lost when the left string is empty.\<close>

definition mem_alloc :: "'h heap \<Rightarrow> nat \<Rightarrow> 'h \<Rightarrow> bool \<times> 'h" where
  "mem_alloc H n h = (case mal_bytes H n h of (b, h) \<Rightarrow> (b \<noteq> None, h))"

definition string_copy :: "'h heap \<Rightarrow> string \<Rightarrow> 'h \<Rightarrow> z_res \<times> string \<times> 'h" where
  "string_copy H s h =
     (if s = [] then (Z_OK, [], h)
      else case mem_alloc H (length s) h of (True, h) \<Rightarrow> (Z_OK, s, h) | (False, h) \<Rightarrow> (Z_ERR_SYSTEM_OUT_OF_MEMORY, [], h))"

definition z_keyexpr_from_substr :: "'h heap \<Rightarrow> string \<Rightarrow> 'h \<Rightarrow> z_res \<times> string \<times> 'h" where
  "z_keyexpr_from_substr H s h =
     (let (_, d, h) = string_copy H s h in (if d \<noteq> [] then Z_OK else Z_ERR_SYSTEM_OUT_OF_MEMORY, d, h))"

definition z_string_concat_substr :: "'h heap \<Rightarrow> string \<Rightarrow> string \<Rightarrow> string \<Rightarrow> 'h \<Rightarrow> z_res \<times> string \<times> 'h" where
  "z_string_concat_substr H left right separator h =
     (if right = [] then string_copy H left h
      else
        let (ok, h) = (if left = [] then mem_alloc H (length right) h else (True, h))
        in if \<not> ok then (Z_ERR_SYSTEM_OUT_OF_MEMORY, [], h)
           else case mem_alloc H (size_add (size_add (length left) (length right)) (length separator)) h of
             (True, h) \<Rightarrow> (Z_OK, left @ separator @ right, h)
           | (False, h) \<Rightarrow> (Z_ERR_SYSTEM_OUT_OF_MEMORY, [], h))"

definition z_keyexpr_concat :: "'h heap \<Rightarrow> string \<Rightarrow> string \<Rightarrow> 'h \<Rightarrow> z_res \<times> string \<times> 'h" where
  "z_keyexpr_concat H left right h =
     (if left = [] then z_keyexpr_from_substr H right h
      else if last left = CHR ''*'' \<and> right \<noteq> [] \<and> hd right = CHR ''*'' then (Z_ERR_INVALID, [], h)
      else z_string_concat_substr H left right [] h)"

text \<open>The block that is brought into canonical form is that of the new string, with no zero behind it.\<close>

definition z_keyexpr_join :: "'h heap \<Rightarrow> string \<Rightarrow> string \<Rightarrow> 'h \<Rightarrow> ((z_res + canon_status \<times> string) \<times> 'h) option" where
  "z_keyexpr_join H left right h =
     (let (ret, key, h) = z_string_concat_substr H left right ''/'' h
      in if ret \<noteq> Z_OK then Some (Inl ret, h)
         else do {
           (status, key, len) \<leftarrow> z_keyexpr_canonize key (length key);
           Some (Inr (status, if status = CANON_SUCCESS then take len key else []), h) })"

end
