(* ===== verification/ZKeyMatch.thy ===== *)
theory ZKeyMatch
  imports ZKeyexpr
begin

text \<open>
  The matching of key expressions: \<open>session/keyexpr_match_template.h\<close>, which the code includes twice, and the two functions of
  \<open>session/keyexpr.c\<close> that call it. The parameter \<open>isect\<close> tells the intersection from the inclusion. Each key expression is a
  block of memory, and the pointers into it are positions; a read outside of the block, and a search that does not end, have no result.
\<close>

section \<open>Chunks\<close>

datatype chunk_match = Match_no | Match_yes | Left_superwild | Right_superwild

text \<open>The result, and where the match ends on either side when there is one.\<close>

type_synonym chunk_data = "chunk_match \<times> nat \<times> nat"

definition swapped :: "chunk_data \<Rightarrow> chunk_data" where
  "swapped d = (case d of (res, l, r) \<Rightarrow> (res, r, l))"

definition z_chunk_end :: "string \<Rightarrow> nat \<Rightarrow> nat \<Rightarrow> nat option" where
  "z_chunk_end s b e = do {
     sep \<leftarrow> mem_chr s b CHR ''/'' (size_sub e b);
     Some (case sep of Some i \<Rightarrow> i | None \<Rightarrow> e) }"

fun z_chunk_begin :: "string \<Rightarrow> nat \<Rightarrow> nat \<Rightarrow> nat option" where
  "z_chunk_begin s b e =
     (if b < e then do {
        c \<leftarrow> arr_get s (e - 1);
        if c \<noteq> CHR ''/'' then z_chunk_begin s b (e - 1) else Some e }
      else Some e)"

definition z_keyexpr_is_double_star :: "string \<Rightarrow> nat \<Rightarrow> nat \<Rightarrow> bool option" where
  "z_keyexpr_is_double_star s b e =
     (if size_sub e b = 2 then do {
        x \<leftarrow> arr_get s b;
        if x = CHR ''*'' then do { y \<leftarrow> arr_get s (b + 1); Some (y = CHR ''*'') } else Some False }
      else Some False)"

definition z_chunk_contains_stardsl :: "string \<Rightarrow> nat \<Rightarrow> nat \<Rightarrow> bool option" where
  "z_chunk_contains_stardsl s b e = do { c \<leftarrow> mem_chr s b CHR ''$'' (size_sub e b); Some (c \<noteq> None) }"

definition z_chunk_is_stardsl :: "string \<Rightarrow> nat \<Rightarrow> nat \<Rightarrow> bool option" where
  "z_chunk_is_stardsl s b e = do {
     x \<leftarrow> arr_get s b;
     if x \<noteq> CHR ''$'' then Some False
     else if b + 2 = e then Some True
     else do { y \<leftarrow> arr_get s (b + 2); Some (y = CHR ''/'') } }"

text \<open>The position \<open>e\<close> is the one behind \<open>last\<close>.\<close>

definition z_chunk_is_stardsl_backward :: "string \<Rightarrow> nat \<Rightarrow> nat \<Rightarrow> bool option" where
  "z_chunk_is_stardsl_backward s b e = do {
     x \<leftarrow> arr_get s (e - 1);
     if x \<noteq> CHR ''*'' then Some False
     else if e = b + 2 then Some True
     else if b + 2 < e then do { y \<leftarrow> arr_get s (e - 3); Some (y = CHR ''/'') }
     else Some False }"

definition mem_equal :: "string \<Rightarrow> nat \<Rightarrow> string \<Rightarrow> nat \<Rightarrow> nat \<Rightarrow> bool option" where
  "mem_equal r rb l lb n =
     (if rb + n \<le> length r \<and> lb + n \<le> length l then Some (take n (drop rb r) = take n (drop lb l)) else None)"

text \<open>The search for one part: the position behind it.\<close>

function find_part :: "string \<Rightarrow> nat \<Rightarrow> nat \<Rightarrow> string \<Rightarrow> nat \<Rightarrow> nat \<Rightarrow> nat option option" where
  "find_part l lb n r rb re =
     (if rb + n \<le> re then do {
        eq \<leftarrow> mem_equal r rb l lb n;
        if eq then Some (Some (rb + n)) else find_part l lb n r (rb + 1) re }
      else Some None)"
  by pat_completeness auto
termination
  by (relation "measure (\<lambda>(_, _, n, _, rb, re). Suc re - rb)") auto

declare find_part.simps [simp del]

partial_function (option) z_chunk_right_contains_all_stardsl_subchunks_of_left ::
  "string \<Rightarrow> nat \<Rightarrow> nat \<Rightarrow> string \<Rightarrow> nat \<Rightarrow> nat \<Rightarrow> bool option" where
  "z_chunk_right_contains_all_stardsl_subchunks_of_left l lb le r rb re = do {
     let llen = size_sub le lb;
     next_dsl \<leftarrow> mem_chr l lb CHR ''$'' llen;
     let clen = (case next_dsl of Some i \<Rightarrow> i - lb | None \<Rightarrow> llen);
     found \<leftarrow> find_part l lb clen r rb re;
     (case found of
        None \<Rightarrow> Some False
      | Some rb \<Rightarrow>
          if next_dsl = None then Some True
          else z_chunk_right_contains_all_stardsl_subchunks_of_left l (lb + clen + 2) le r rb re) }"

definition z_chunk_special :: "bool \<Rightarrow> string \<Rightarrow> nat \<Rightarrow> nat \<Rightarrow> string \<Rightarrow> nat \<Rightarrow> nat \<Rightarrow> bool option" where
  "z_chunk_special isect l lb le r rb re = do {
     both \<leftarrow> (if isect then z_chunk_contains_stardsl r rb re else Some False);
     if both then Some True else z_chunk_right_contains_all_stardsl_subchunks_of_left l lb le r rb re }"

section \<open>One chunk against another\<close>

definition yes_no :: "bool \<Rightarrow> chunk_match" where
  "yes_no b = (if b then Match_yes else Match_no)"

text \<open>From the end of both chunks, when the left one begins behind a gap.\<close>

fun backward_loop :: "bool \<Rightarrow> string \<Rightarrow> nat \<Rightarrow> string \<Rightarrow> nat \<Rightarrow> nat \<Rightarrow> nat \<Rightarrow> bool option" where
  "backward_loop isect l lb r rb le re =
     (if lb < le \<and> rb < re then do {
        y \<leftarrow> arr_get r (re - 1);
        if isect \<and> y = CHR ''*'' then Some True
        else do {
          x \<leftarrow> arr_get l (le - 1);
          if x = CHR ''*'' then z_chunk_special isect l lb (le - 2) r rb re
          else if x \<noteq> y then Some False
          else backward_loop isect l lb r rb (le - 1) (re - 1) } }
      else Some (lb = le))"

definition z_chunk_forward_backward :: "bool \<Rightarrow> string \<Rightarrow> nat \<Rightarrow> nat \<Rightarrow> string \<Rightarrow> nat \<Rightarrow> nat \<Rightarrow> chunk_data option" where
  "z_chunk_forward_backward isect l lb lke r rb rke = do {
     lend \<leftarrow> z_chunk_end l lb lke;
     rend \<leftarrow> z_chunk_end r rb rke;
     res \<leftarrow> backward_loop isect l lb r rb lend rend;
     Some (yes_no res, lend, rend) }"

text \<open>At the end of a chunk, or of all.\<close>

definition exhausted :: "string \<Rightarrow> nat \<Rightarrow> nat \<Rightarrow> bool option" where
  "exhausted s b e = (if b = e then Some True else do { x \<leftarrow> arr_get s b; Some (x = CHR ''/'') })"

definition forward_end :: "bool \<Rightarrow> string \<Rightarrow> nat \<Rightarrow> nat \<Rightarrow> string \<Rightarrow> nat \<Rightarrow> nat \<Rightarrow> chunk_data option" where
  "forward_end isect l lb lke r rb rke = do {
     left_exhausted \<leftarrow> exhausted l lb lke;
     right_exhausted \<leftarrow> exhausted r rb rke;
     if left_exhausted \<and> right_exhausted then Some (Match_yes, lb, rb)
     else do {
       right_gap \<leftarrow> (if isect \<and> left_exhausted then z_chunk_is_stardsl r rb rke else Some False);
       if right_gap then Some (Match_yes, lb, rb + 2)
       else do {
         left_gap \<leftarrow> (if right_exhausted then z_chunk_is_stardsl l lb lke else Some False);
         Some (if left_gap then (Match_yes, lb + 2, rb) else (Match_no, 0, 0)) } } }"

function forward_loop :: "bool \<Rightarrow> string \<Rightarrow> nat \<Rightarrow> string \<Rightarrow> nat \<Rightarrow> nat \<Rightarrow> nat \<Rightarrow> chunk_data option" where
  "forward_loop isect l lke r rke lb rb =
     (if lb < lke \<and> rb < rke then do {
        x \<leftarrow> arr_get l lb;
        y \<leftarrow> arr_get r rb;
        if x \<noteq> CHR ''/'' \<and> y \<noteq> CHR ''/'' then
          (if x = CHR ''$'' then z_chunk_forward_backward isect l (lb + 2) lke r rb rke
           else if isect \<and> y = CHR ''$'' then map_option swapped (z_chunk_forward_backward isect r (rb + 2) rke l lb lke)
           else if x \<noteq> y then Some (Match_no, 0, 0)
           else forward_loop isect l lke r rke (lb + 1) (rb + 1))
        else forward_end isect l lb lke r rb rke }
      else forward_end isect l lb lke r rb rke)"
  by pat_completeness auto
termination
  by (relation "measure (\<lambda>(_, _, lke, _, _, lb, _). lke - lb)") auto

declare backward_loop.simps [simp del] forward_loop.simps [simp del] z_chunk_begin.simps [simp del]

text \<open>A star at \<open>b\<close>, and a second one.\<close>

definition superwild :: "bool \<Rightarrow> string \<Rightarrow> nat \<Rightarrow> nat \<Rightarrow> bool option" where
  "superwild wild s b e = (if wild \<and> b + 2 \<le> e then do { x \<leftarrow> arr_get s (b + 1); Some (x = CHR ''*'') } else Some False)"

definition z_chunk_forward :: "bool \<Rightarrow> string \<Rightarrow> nat \<Rightarrow> nat \<Rightarrow> string \<Rightarrow> nat \<Rightarrow> nat \<Rightarrow> chunk_data option" where
  "z_chunk_forward isect l lb lke r rb rke = do {
     x \<leftarrow> arr_get l lb;
     y \<leftarrow> arr_get r rb;
     left_super \<leftarrow> superwild (x = CHR ''*'') l lb lke;
     right_super \<leftarrow> superwild (y = CHR ''*'') r rb rke;
     if left_super then Some (Left_superwild, 0, 0)
     else if right_super then Some (if isect then Right_superwild else Match_no, 0, 0)
     else if (x = CHR ''@'') \<noteq> (y = CHR ''@'') then Some (Match_no, 0, 0)
     else if x = CHR ''*'' then do { rend \<leftarrow> z_chunk_end r rb rke; Some (Match_yes, lb + 1, rend) }
     else if y = CHR ''*'' then
       (if isect then do { lend \<leftarrow> z_chunk_end l lb lke; Some (Match_yes, lend, rb + 1) } else Some (Match_no, 0, 0))
     else forward_loop isect l lke r rke lb rb }"

text \<open>From the beginning of both chunks, when the left one ends with a gap.\<close>

function backward_forward_loop :: "bool \<Rightarrow> string \<Rightarrow> nat \<Rightarrow> string \<Rightarrow> nat \<Rightarrow> nat \<Rightarrow> nat \<Rightarrow> bool option" where
  "backward_forward_loop isect l le r re lb rb =
     (if lb < le \<and> rb < re then do {
        y \<leftarrow> arr_get r rb;
        if isect \<and> y = CHR ''$'' then Some True
        else do {
          x \<leftarrow> arr_get l lb;
          if x = CHR ''$'' then z_chunk_special isect l (lb + 2) le r rb re
          else if x \<noteq> y then Some False
          else backward_forward_loop isect l le r re (lb + 1) (rb + 1) } }
      else Some (lb = le))"
  by pat_completeness auto
termination
  by (relation "measure (\<lambda>(_, _, le, _, _, lb, _). le - lb)") auto

definition z_chunk_backward_forward :: "bool \<Rightarrow> string \<Rightarrow> nat \<Rightarrow> nat \<Rightarrow> string \<Rightarrow> nat \<Rightarrow> nat \<Rightarrow> chunk_data option" where
  "z_chunk_backward_forward isect l lkb le r rkb re = do {
     lbegin \<leftarrow> z_chunk_begin l lkb le;
     rbegin \<leftarrow> z_chunk_begin r rkb re;
     x \<leftarrow> arr_get l lbegin;
     y \<leftarrow> arr_get r rbegin;
     if (x = CHR ''@'') \<noteq> (y = CHR ''@'') then Some (Match_no, 0, 0)
     else do {
       res \<leftarrow> backward_forward_loop isect l le r re lbegin rbegin;
       Some (yes_no res, lbegin, rbegin) } }"

definition exhausted_backward :: "string \<Rightarrow> nat \<Rightarrow> nat \<Rightarrow> bool option" where
  "exhausted_backward s b e = (if b = e then Some True else do { x \<leftarrow> arr_get s (e - 1); Some (x = CHR ''/'') })"

definition backward_end :: "bool \<Rightarrow> string \<Rightarrow> nat \<Rightarrow> nat \<Rightarrow> string \<Rightarrow> nat \<Rightarrow> nat \<Rightarrow> chunk_data option" where
  "backward_end isect l lkb le r rkb re = do {
     left_exhausted \<leftarrow> exhausted_backward l lkb le;
     right_exhausted \<leftarrow> exhausted_backward r rkb re;
     if left_exhausted \<and> right_exhausted then Some (Match_yes, le, re)
     else do {
       right_gap \<leftarrow> (if isect \<and> left_exhausted then z_chunk_is_stardsl_backward r rkb re else Some False);
       if right_gap then Some (Match_yes, le, re - 2)
       else do {
         left_gap \<leftarrow> (if right_exhausted then z_chunk_is_stardsl_backward l lkb le else Some False);
         Some (if left_gap then (Match_yes, le - 2, re) else (Match_no, 0, 0)) } } }"

fun backward_chars :: "bool \<Rightarrow> string \<Rightarrow> nat \<Rightarrow> string \<Rightarrow> nat \<Rightarrow> nat \<Rightarrow> nat \<Rightarrow> chunk_data option" where
  "backward_chars isect l lkb r rkb le re =
     (if lkb < le \<and> rkb < re then do {
        x \<leftarrow> arr_get l (le - 1);
        y \<leftarrow> arr_get r (re - 1);
        if x \<noteq> CHR ''/'' \<and> y \<noteq> CHR ''/'' then
          (if x = CHR ''*'' then z_chunk_backward_forward isect l lkb (le - 2) r rkb re
           else if isect \<and> y = CHR ''*'' then map_option swapped (z_chunk_backward_forward isect r rkb (re - 2) l lkb le)
           else if x \<noteq> y then Some (Match_no, 0, 0)
           else backward_chars isect l lkb r rkb (le - 1) (re - 1))
        else backward_end isect l lkb le r rkb re }
      else backward_end isect l lkb le r rkb re)"

declare backward_forward_loop.simps [simp del] backward_chars.simps [simp del]

text \<open>A star at the end, what stands before it, and whether it is a chunk of its own.\<close>

definition superwild_backward :: "bool \<Rightarrow> string \<Rightarrow> nat \<Rightarrow> nat \<Rightarrow> bool option" where
  "superwild_backward wild s b e = (if wild \<and> b + 2 \<le> e then do { x \<leftarrow> arr_get s (e - 2); Some (x = CHR ''*'') } else Some False)"

definition wild_backward :: "bool \<Rightarrow> string \<Rightarrow> nat \<Rightarrow> nat \<Rightarrow> bool option" where
  "wild_backward wild s b e =
     (if wild then (if b + 1 = e then Some True else do { x \<leftarrow> arr_get s (e - 2); Some (x = CHR ''/'') }) else Some False)"

definition z_chunk_backward :: "bool \<Rightarrow> string \<Rightarrow> nat \<Rightarrow> nat \<Rightarrow> string \<Rightarrow> nat \<Rightarrow> nat \<Rightarrow> chunk_data option" where
  "z_chunk_backward isect l lkb le r rkb re = do {
     x \<leftarrow> arr_get l (le - 1);
     y \<leftarrow> arr_get r (re - 1);
     left_super \<leftarrow> superwild_backward (x = CHR ''*'') l lkb le;
     right_super \<leftarrow> superwild_backward (y = CHR ''*'') r rkb re;
     if left_super then Some (Left_superwild, 0, 0)
     else if right_super then Some (if isect then Right_superwild else Match_no, 0, 0)
     else do {
       left_wild \<leftarrow> wild_backward (x = CHR ''*'') l lkb le;
       right_wild \<leftarrow> wild_backward (y = CHR ''*'') r rkb re;
       if left_wild then do {
         rbegin \<leftarrow> z_chunk_begin r rkb re;
         c \<leftarrow> arr_get r rbegin;
         Some (yes_no (c \<noteq> CHR ''@''), le - 1, rbegin) }
       else if right_wild then
         (if isect then do {
            lbegin \<leftarrow> z_chunk_begin l lkb le;
            c \<leftarrow> arr_get l lbegin;
            Some (yes_no (c \<noteq> CHR ''@''), lbegin, re - 1) }
          else Some (Match_no, 0, 0))
       else backward_chars isect l lkb r rkb le re } }"

section \<open>Key expressions\<close>

function z_keyexpr_get_next_double_star_chunk :: "string \<Rightarrow> nat \<Rightarrow> nat \<Rightarrow> nat option option" where
  "z_keyexpr_get_next_double_star_chunk s b e =
     (if b + 1 < e then do {
        c \<leftarrow> mem_chr s b CHR ''*'' (e - b - 1);
        (case c of
           None \<Rightarrow> Some None
         | Some c \<Rightarrow>
             if b \<le> c then do {
               x \<leftarrow> arr_get s (c + 1);
               if x = CHR ''*'' then Some (Some c) else z_keyexpr_get_next_double_star_chunk s (c + 2) e }
             else None) }
      else Some None)"
  by pat_completeness auto
termination
  by (relation "measure (\<lambda>(_, b, e). e - b)") auto

declare z_keyexpr_get_next_double_star_chunk.simps [simp del]

definition z_keyexpr_get_next_verbatim_chunk :: "string \<Rightarrow> nat \<Rightarrow> nat \<Rightarrow> nat option option" where
  "z_keyexpr_get_next_verbatim_chunk s b e = mem_chr s b CHR ''@'' (size_sub e b)"

text \<open>
  The inner loop of \<open>_z_keyexpr_special\<close>, over one part of the left side between double stars: \<open>None\<close> for \<open>return false\<close>, or both
  positions behind the match. A chunk that does not match makes it begin anew, one chunk further to the right.
\<close>

partial_function (option) special_part ::
  "bool \<Rightarrow> string \<Rightarrow> nat \<Rightarrow> nat \<Rightarrow> string \<Rightarrow> nat \<Rightarrow> nat \<Rightarrow> nat \<Rightarrow> nat \<Rightarrow> (nat \<times> nat) option option" where
  "special_part isect l lb lcend r re lcbegin rb rcbegin =
     (if lcbegin < lcend then
        (if re \<le> rcbegin then Some None
         else do {
           (res, lend, rend) \<leftarrow> z_chunk_forward isect l lcbegin lcend r rcbegin re;
           if res = Match_yes then special_part isect l lb lcend r re (lend + 1) rb (rend + 1)
           else do {
             rb \<leftarrow> map_option (\<lambda>i. i + 1) (z_chunk_end r rb re);
             special_part isect l lb lcend r re lb rb rb } })
      else Some (Some (lcbegin, rcbegin)))"

text \<open>One turn of the outer loop.\<close>

definition special_turn :: "bool \<Rightarrow> string \<Rightarrow> nat \<Rightarrow> nat \<Rightarrow> string \<Rightarrow> nat \<Rightarrow> nat \<Rightarrow> (nat \<times> nat) option option" where
  "special_turn isect l lb le r rb re = do {
     c \<leftarrow> z_keyexpr_get_next_double_star_chunk l lb le;
     special_part isect l lb (case c of Some i \<Rightarrow> i - 1 | None \<Rightarrow> le) r re lb rb rb }"

partial_function (option) special_loop :: "bool \<Rightarrow> string \<Rightarrow> nat \<Rightarrow> string \<Rightarrow> nat \<Rightarrow> nat \<Rightarrow> nat \<Rightarrow> bool option" where
  "special_loop isect l le r re lb rb =
     (if lb < le then do {
        x \<leftarrow> special_turn isect l lb le r rb re;
        (case x of None \<Rightarrow> Some False | Some (lb, rb) \<Rightarrow> special_loop isect l le r re lb rb) }
      else Some True)"

definition z_keyexpr_special :: "bool \<Rightarrow> string \<Rightarrow> nat \<Rightarrow> nat \<Rightarrow> string \<Rightarrow> nat \<Rightarrow> nat \<Rightarrow> bool option" where
  "z_keyexpr_special isect l lb le r rb re = do {
     c \<leftarrow> (if isect then z_keyexpr_get_next_double_star_chunk r rb re else Some None);
     if c \<noteq> None then Some True else special_loop isect l le r re lb rb }"

text \<open>What is left of both sides may be a double star.\<close>

definition match_end :: "bool \<Rightarrow> string \<Rightarrow> nat \<Rightarrow> nat \<Rightarrow> string \<Rightarrow> nat \<Rightarrow> nat \<Rightarrow> bool option" where
  "match_end isect l lb le r rb re = do {
     left \<leftarrow> (if le \<le> lb then Some True else z_keyexpr_is_double_star l lb le);
     if \<not> left then Some False
     else if re \<le> rb then Some True
     else if isect then z_keyexpr_is_double_star r rb re else Some False }"

text \<open>
  The calls in a circle: forward, backward, and by the parts between chunks that begin with \<open>@\<close>. The third of them calls the first one with
  \<open>can_have_verbatim\<close> false, after which the second one does not call the third any more.
\<close>

partial_function (option) backward_match ::
  "(string \<Rightarrow> nat \<Rightarrow> nat \<Rightarrow> string \<Rightarrow> nat \<Rightarrow> nat \<Rightarrow> bool option) \<Rightarrow> bool \<Rightarrow> string \<Rightarrow> nat \<Rightarrow> string \<Rightarrow> nat \<Rightarrow> bool \<Rightarrow> nat \<Rightarrow> nat \<Rightarrow>
    bool option" where
  "backward_match parts isect l lb r rb can_have_verbatim le re =
     (if lb < le \<and> rb < re then do {
        (res, lbegin, rbegin) \<leftarrow> z_chunk_backward isect l lb le r rb re;
        if res = Match_no \<or> \<not> isect \<and> res = Right_superwild then Some False
        else if res = Match_yes then
          (if lb = lbegin \<and> rb = rbegin then Some True
           else if lb = lbegin then
             (if \<not> can_have_verbatim then Some True
              else map_option (\<lambda>c. c = None) (z_keyexpr_get_next_verbatim_chunk r rb (rbegin - 1)))
           else if rb = rbegin then Some False
           else backward_match parts isect l lb r rb can_have_verbatim (lbegin - 1) (rbegin - 1))
        else if can_have_verbatim then parts l (lb - 3) le r rb re
        else if res = Left_superwild then z_keyexpr_special isect l lb (le - 3) r rb re
        else Some True }
      else match_end isect l lb le r rb re)"

partial_function (option) forward_match ::
  "(string \<Rightarrow> nat \<Rightarrow> nat \<Rightarrow> string \<Rightarrow> nat \<Rightarrow> nat \<Rightarrow> bool option) \<Rightarrow> bool \<Rightarrow> string \<Rightarrow> nat \<Rightarrow> string \<Rightarrow> nat \<Rightarrow> bool \<Rightarrow> nat \<Rightarrow> nat \<Rightarrow>
    bool option" where
  "forward_match parts isect l le r re can_have_verbatim lb rb =
     (if lb < le \<and> rb < re then do {
        (res, lend, rend) \<leftarrow> z_chunk_forward isect l lb le r rb re;
        (case res of
           Match_yes \<Rightarrow> forward_match parts isect l le r re can_have_verbatim (lend + 1) (rend + 1)
         | Left_superwild \<Rightarrow>
             if lb + 2 = le then map_option (\<lambda>c. c = None) (z_keyexpr_get_next_verbatim_chunk r rb re)
             else backward_match parts isect l (lb + 3) r rb can_have_verbatim le re
         | Right_superwild \<Rightarrow>
             if isect then
               (if rb + 2 = re then map_option (\<lambda>c. c = None) (z_keyexpr_get_next_verbatim_chunk l lb le)
                else backward_match parts isect r (rb + 3) l lb can_have_verbatim re le)
             else Some False
         | Match_no \<Rightarrow> Some False) }
      else match_end isect l lb le r rb re)"

definition no_parts :: "string \<Rightarrow> nat \<Rightarrow> nat \<Rightarrow> string \<Rightarrow> nat \<Rightarrow> nat \<Rightarrow> bool option" where
  "no_parts l lb le r rb re = None"

text \<open>Without verbatim chunks.\<close>

definition forward_plain :: "bool \<Rightarrow> string \<Rightarrow> nat \<Rightarrow> nat \<Rightarrow> string \<Rightarrow> nat \<Rightarrow> nat \<Rightarrow> bool option" where
  "forward_plain isect l lb le r rb re = forward_match no_parts isect l le r re False lb rb"

partial_function (option) parts_loop :: "bool \<Rightarrow> string \<Rightarrow> nat \<Rightarrow> string \<Rightarrow> nat \<Rightarrow> nat \<Rightarrow> nat \<Rightarrow> bool option" where
  "parts_loop isect l le r re lb rb =
     (if lb < le \<and> rb < re then do {
        lverbatim \<leftarrow> z_keyexpr_get_next_verbatim_chunk l lb le;
        rverbatim \<leftarrow> z_keyexpr_get_next_verbatim_chunk r rb re;
        (case (lverbatim, rverbatim) of
           (None, None) \<Rightarrow> forward_plain isect l lb le r rb re
         | (Some lv, Some rv) \<Rightarrow> do {
             matched \<leftarrow> forward_plain isect l lb (if lv = lb then lb else lv - 1) r rb (if rv = rb then rb else rv - 1);
             if \<not> matched then Some False
             else do {
               (res, lend, rend) \<leftarrow> z_chunk_forward isect l lv le r rv re;
               if res \<noteq> Match_yes then Some False else parts_loop isect l le r re (lend + 1) (rend + 1) } }
         | _ \<Rightarrow> Some False) }
      else match_end isect l lb le r rb re)"

definition z_keyexpr_parts :: "bool \<Rightarrow> string \<Rightarrow> nat \<Rightarrow> nat \<Rightarrow> string \<Rightarrow> nat \<Rightarrow> nat \<Rightarrow> bool option" where
  "z_keyexpr_parts isect l lb le r rb re = parts_loop isect l le r re lb rb"

definition z_keyexpr_forward :: "bool \<Rightarrow> string \<Rightarrow> nat \<Rightarrow> nat \<Rightarrow> string \<Rightarrow> nat \<Rightarrow> nat \<Rightarrow> bool \<Rightarrow> bool option" where
  "z_keyexpr_forward isect l lb le r rb re can_have_verbatim =
     forward_match (z_keyexpr_parts isect) isect l le r re can_have_verbatim lb rb"

text \<open>\<open>strncmp\<close> stops at a zero.\<close>

definition str_equal :: "string \<Rightarrow> string \<Rightarrow> bool" where
  "str_equal l r \<longleftrightarrow> takeWhile (\<lambda>c. c \<noteq> CHR 0x00) l = takeWhile (\<lambda>c. c \<noteq> CHR 0x00) r"

definition z_keyexpr_intersects :: "string \<Rightarrow> string \<Rightarrow> bool option" where
  "z_keyexpr_intersects left right =
     (if length left = length right \<and> str_equal left right then Some True
      else z_keyexpr_forward True left 0 (length left) right 0 (length right) True)"

definition z_keyexpr_includes :: "string \<Rightarrow> string \<Rightarrow> bool option" where
  "z_keyexpr_includes left right =
     (if length left = length right \<and> str_equal left right then Some True
      else z_keyexpr_forward False left 0 (length left) right 0 (length right) True)"

declare z_chunk_right_contains_all_stardsl_subchunks_of_left.simps [code] special_part.simps [code] special_loop.simps [code]
  backward_match.simps [code] forward_match.simps [code] parts_loop.simps [code]

end
