(* ===== verification/ZKeyexprProps.thy ===== *)
theory ZKeyexprProps
  imports ZKeyexpr
begin

text \<open>
  Key expressions by their structure, and what the strings of the canonical form are: a reference for \<open>ZKeyexpr\<close> and for the
  matching.
\<close>

section \<open>Structure\<close>

text \<open>
  A chunk is a single star, which stands for any one chunk, a double star, which stands for any number of them, or a row of
  characters and of gaps, \<open>$*\<close>, that stand for any number of characters.
\<close>

type_synonym pat = "char option list"

datatype ke_chunk = K_one | K_many | K_pat pat

definition plain :: "char \<Rightarrow> bool" where
  "plain c \<longleftrightarrow> c \<notin> {CHR ''#'', CHR ''?'', CHR ''$'', CHR ''*'', CHR ''/'', CHR 0x00}"

fun single_gaps :: "'a option list \<Rightarrow> bool" where
  "single_gaps (None # None # ts) = False"
| "single_gaps (t # ts) = single_gaps ts"
| "single_gaps [] = True"

definition plain_pat :: "pat \<Rightarrow> bool" where
  "plain_pat ts \<longleftrightarrow> (\<forall>c. Some c \<in> set ts \<longrightarrow> plain c) \<and> single_gaps ts"

fun ke_chunk_ok :: "ke_chunk \<Rightarrow> bool" where
  "ke_chunk_ok K_one = True"
| "ke_chunk_ok K_many = True"
| "ke_chunk_ok (K_pat ts) = (plain_pat ts \<and> ts \<noteq> [] \<and> ts \<noteq> [None])"

fun stars_apart :: "ke_chunk list \<Rightarrow> bool" where
  "stars_apart (K_many # k # ks) = (k \<noteq> K_one \<and> k \<noteq> K_many \<and> stars_apart (k # ks))"
| "stars_apart (k # ks) = stars_apart ks"
| "stars_apart [] = True"

definition ke_ok :: "ke_chunk list \<Rightarrow> bool" where
  "ke_ok ks \<longleftrightarrow> ks \<noteq> [] \<and> (\<forall>k\<in>set ks. ke_chunk_ok k) \<and> stars_apart ks"

fun spell :: "pat \<Rightarrow> string" where
  "spell [] = []"
| "spell (Some c # ts) = c # spell ts"
| "spell (None # ts) = CHR ''$'' # CHR ''*'' # spell ts"

fun spell_chunk :: "ke_chunk \<Rightarrow> string" where
  "spell_chunk K_one = ''*''"
| "spell_chunk K_many = ''**''"
| "spell_chunk (K_pat ts) = spell ts"

fun join_chunks :: "string list \<Rightarrow> string" where
  "join_chunks [] = []"
| "join_chunks [c] = c"
| "join_chunks (c # cs) = c @ CHR ''/'' # join_chunks cs"

definition spell_key :: "ke_chunk list \<Rightarrow> string" where
  "spell_key ks = join_chunks (map spell_chunk ks)"

definition canonical :: "string \<Rightarrow> bool" where
  "canonical s \<longleftrightarrow> (\<exists>ks. ke_ok ks \<and> s = spell_key ks)"

section \<open>Chunks of a string\<close>

abbreviation "no_slash \<equiv> \<lambda>c. c \<noteq> CHR ''/''"

function chunks :: "string \<Rightarrow> string list" where
  "chunks s = takeWhile no_slash s # (case dropWhile no_slash s of [] \<Rightarrow> [] | _ # r \<Rightarrow> chunks r)"
  by pat_completeness auto
termination
proof (relation "measure length")
  fix s :: string and x r
  assume "dropWhile no_slash s = x # r"
  then have "length (x # r) \<le> length s" using length_dropWhile_le [of no_slash s] by metis
  then show "(r, s) \<in> measure length" by simp
qed simp

declare chunks.simps [simp del]

lemma chunks_nonempty [simp]: "chunks s \<noteq> []"
  by (subst chunks.simps) simp

lemma join_cons: "cs \<noteq> [] \<Longrightarrow> join_chunks (c # cs) = c @ CHR ''/'' # join_chunks cs"
  by (cases cs) simp_all

lemma takeWhile_part: "x \<notin> set c \<Longrightarrow> takeWhile (\<lambda>y. y \<noteq> x) (c @ x # r) = c \<and> dropWhile (\<lambda>y. y \<noteq> x) (c @ x # r) = x # r"
  by (induction c) auto

lemma takeWhile_whole: "x \<notin> set c \<Longrightarrow> takeWhile (\<lambda>y. y \<noteq> x) c = c \<and> dropWhile (\<lambda>y. y \<noteq> x) c = []"
  by (induction c) auto

lemma chunks_join: "cs \<noteq> [] \<Longrightarrow> \<forall>c\<in>set cs. CHR ''/'' \<notin> set c \<Longrightarrow> chunks (join_chunks cs) = cs"
proof (induction cs rule: join_chunks.induct)
  case (2 c)
  then show ?case by (subst chunks.simps) (simp add: takeWhile_whole)
next
  case (3 c d cs)
  then show ?case by (subst chunks.simps) (simp add: takeWhile_part)
qed simp

lemma join_chunks_chunks: "join_chunks (chunks s) = s" "\<forall>c\<in>set (chunks s). CHR ''/'' \<notin> set c"
proof (induction s rule: chunks.induct)
  case (1 s)
  note IH = 1
  have t: "CHR ''/'' \<notin> set (takeWhile no_slash s)" by (auto dest: set_takeWhileD)
  have s: "takeWhile no_slash s @ dropWhile no_slash s = s" by simp
  {
    case 1
    show ?case
    proof (cases "dropWhile no_slash s")
      case Nil
      then have "CHR ''/'' \<notin> set s" by (auto simp: dropWhile_eq_Nil_conv)
      then show ?thesis by (subst chunks.simps) (simp add: takeWhile_whole)
    next
      case (Cons x r)
      moreover have "x = CHR ''/''" using Cons hd_dropWhile [of no_slash s] by simp
      ultimately show ?thesis using IH(1) [OF Cons] s by (subst chunks.simps) (simp add: join_cons)
    qed
  next
    case 2
    show ?case
    proof (cases "dropWhile no_slash s")
      case Nil
      then have "CHR ''/'' \<notin> set s" by (auto simp: dropWhile_eq_Nil_conv)
      then show ?thesis by (subst chunks.simps) (simp add: takeWhile_whole)
    next
      case (Cons x r)
      then show ?thesis using IH(2) [OF Cons] t by (subst chunks.simps) simp
    qed
  }
qed

section \<open>The scan of a chunk\<close>

fun gap_first :: "'a option list \<Rightarrow> bool" where
  "gap_first (None # ts) = True"
| "gap_first ts = False"

lemma single_gaps_cons [simp]: "single_gaps (t # ts) \<longleftrightarrow> (t = None \<longrightarrow> \<not> gap_first ts) \<and> single_gaps ts"
  by (cases t; cases ts rule: gap_first.cases) auto

lemma plain_pat_cons [simp]: "plain_pat (Some c # ts) \<longleftrightarrow> plain c \<and> plain_pat ts" "plain_pat (None # ts) \<longleftrightarrow> \<not> gap_first ts \<and> plain_pat ts"
  "plain_pat []"
  by (auto simp: plain_pat_def)

lemma scan_spelled:
  "plain_pat ts \<Longrightarrow> d = 0 \<or> d = 3 \<and> \<not> gap_first ts \<Longrightarrow> \<exists>d'. dollar_scan (spell ts) d = (CANON_SUCCESS, d') \<and> d' \<noteq> 1"
proof (induction ts arbitrary: d rule: spell.induct)
  case (2 c ts)
  then show ?case by (auto simp: plain_def)
next
  case (3 ts)
  then show ?case by auto
qed auto

lemma spelled_scan:
  "dollar_scan cs d = (CANON_SUCCESS, d') \<Longrightarrow> d' \<noteq> 1 \<Longrightarrow> CHR ''/'' \<notin> set cs \<Longrightarrow> CHR 0x00 \<notin> set cs \<Longrightarrow> d = 0 \<or> d = 3 \<Longrightarrow>
    \<exists>ts. cs = spell ts \<and> plain_pat ts \<and> (d = 3 \<longrightarrow> \<not> gap_first ts)"
proof (induction "length cs" arbitrary: cs d rule: less_induct)
  case less
  show ?case
  proof (cases cs)
    case Nil
    then show ?thesis by (intro exI [of _ "[]"]) simp
  next
    case (Cons c r)
    show ?thesis
    proof (cases "c = CHR ''$''")
      case True
      then have d: "d = 0" "dollar_scan r 1 = (CANON_SUCCESS, d')" using less.prems(1,5) Cons by (auto split: if_splits)
      then obtain r' where r: "r = CHR ''*'' # r'" "dollar_scan r' 3 = (CANON_SUCCESS, d')"
        using less.prems(2) by (cases r) (auto simp: numeral_3_eq_3 split: if_splits)
      then obtain ts where "r' = spell ts" "plain_pat ts" "\<not> gap_first ts"
        using less.hyps [of r' 3] less.prems(2-4) Cons by auto
      then show ?thesis using True Cons r(1) d(1) by (intro exI [of _ "None # ts"]) simp
    next
      case False
      then have p: "plain c" "dollar_scan r 0 = (CANON_SUCCESS, d')"
        using less.prems Cons by (auto simp: plain_def split: if_splits)
      then obtain ts where "r = spell ts" "plain_pat ts" using less.hyps [of r 0] less.prems(2-4) Cons by auto
      then show ?thesis using p(1) Cons by (intro exI [of _ "Some c # ts"]) simp
    qed
  qed
qed

lemma scan_chunk_iff:
  assumes "CHR ''/'' \<notin> set c" "CHR 0x00 \<notin> set c"
  shows "scan_chunk c = CANON_SUCCESS \<longleftrightarrow> (\<exists>ts. c = spell ts \<and> plain_pat ts)"
proof
  assume a: "scan_chunk c = CANON_SUCCESS"
  obtain ret d where "dollar_scan c 0 = (ret, d)" by fastforce
  then show "\<exists>ts. c = spell ts \<and> plain_pat ts" using a spelled_scan [of c 0 d] assms by (auto simp: scan_chunk_def split: if_splits)
next
  assume "\<exists>ts. c = spell ts \<and> plain_pat ts"
  then obtain d where "dollar_scan c 0 = (CANON_SUCCESS, d)" "d \<noteq> 1" using scan_spelled [of _ 0] by blast
  then show "scan_chunk c = CANON_SUCCESS" by (simp add: scan_chunk_def)
qed

section \<open>What the code accepts\<close>

fun accepts :: "bool \<Rightarrow> string list \<Rightarrow> bool" where
  "accepts big [] = True"
| "accepts big (c # cs) =
     (c \<noteq> [] \<and>
      (if length c = 1 then \<not> (big \<and> c = ''*'') \<and> accepts big cs
       else if c = ''**'' then \<not> big \<and> accepts True cs
       else c \<noteq> ''$*'' \<and> scan_chunk c = CANON_SUCCESS \<and> accepts False cs))"

lemma canon_chunk_accepts:
  "accepts big (c # cs) \<longleftrightarrow> (case canon_chunk big c pos len of (ret, _, big') \<Rightarrow> ret = CANON_SUCCESS \<and> accepts big' cs)"
  by (cases c; cases "tl c") (auto simp: canon_chunk_def split: canon_status.split)

lemma canon_loop_accepts:
  "pos \<le> length s \<Longrightarrow> fst (canon_loop s pos big len) = CANON_SUCCESS \<longleftrightarrow> accepts big (chunks (drop pos s))"
proof (induction s pos big len rule: canon_loop.induct)
  case (1 s pos big len)
  let ?c = "takeWhile no_slash (drop pos s)" and ?e = "chunk_stop s pos"
  obtain ret len' big' where k: "canon_chunk big ?c pos len = (ret, len', big')" by (metis prod_cases3)
  have c: "take (?e - pos) (drop pos s) = ?c" by (simp add: chunk_stop_def takeWhile_eq_take [symmetric])
  have d: "dropWhile no_slash (drop pos s) = drop ?e s" by (simp add: chunk_stop_def dropWhile_eq_drop add.commute)
  have e: "?e \<le> length s" using 1(2) length_takeWhile_le [of no_slash "drop pos s"] by (simp add: chunk_stop_def)
  have chunks: "chunks (drop pos s) = ?c # (if ?e < length s then chunks (drop (?e + 1) s) else [])"
    using e by (subst chunks.simps) (auto simp: d Cons_nth_drop_Suc [symmetric])
  show ?case
  proof (cases "ret = CANON_SUCCESS \<and> ?e + 1 < length s")
    case True
    then have "fst (canon_loop s (?e + 1) big' len') = CANON_SUCCESS \<longleftrightarrow> accepts big' (chunks (drop (?e + 1) s))"
      using 1(1) k c by simp
    then show ?thesis using True k c unfolding chunks canon_chunk_accepts [of big ?c _ pos len] by (subst canon_loop.simps) simp
  next
    case False
    have n: "\<not> accepts b (chunks [])" for b by (subst chunks.simps) simp
    show ?thesis using False k c e n unfolding chunks canon_chunk_accepts [of big ?c _ pos len] by (subst canon_loop.simps) (auto simp: Let_def split: if_splits)
  qed
qed

lemma is_canon_accepts: "z_keyexpr_is_canon s = CANON_SUCCESS \<longleftrightarrow> accepts False (chunks s)"
  using canon_loop_accepts [of 0 s False "length s"] by (simp add: z_keyexpr_is_canon_def zp_canon_prefix_def)

section \<open>The canonical form\<close>

lemma spell_plain: "plain_pat ts \<Longrightarrow> CHR ''/'' \<notin> set (spell ts) \<and> CHR 0x00 \<notin> set (spell ts)"
  by (induction ts rule: spell.induct) (auto simp: plain_def)

lemma spell_chunk_plain: "ke_chunk_ok k \<Longrightarrow> CHR ''/'' \<notin> set (spell_chunk k) \<and> CHR 0x00 \<notin> set (spell_chunk k) \<and> spell_chunk k \<noteq> []"
  using spell_plain by (cases k) (auto elim: spell.elims)

lemma chunks_spell_key: "ke_ok ks \<Longrightarrow> chunks (spell_key ks) = map spell_chunk ks"
  unfolding spell_key_def ke_ok_def by (rule chunks_join) (auto simp: spell_chunk_plain)

lemma spell_no_star: "plain_pat ts \<Longrightarrow> spell ts \<noteq> ''*'' \<and> spell ts \<noteq> ''**'' \<and> (spell ts = ''$*'' \<longrightarrow> ts = [None])"
  by (cases ts rule: spell.cases) (auto simp: plain_def elim: spell.elims)

text \<open>
  The turn over a chunk of one character leaves out the scan and the flag: what the code accepts is the canonical form only of strings
  whose chunks of one character are single stars.
\<close>

lemma accepts_ok:
  assumes "\<forall>k\<in>set ks. ke_chunk_ok k" "stars_apart (if big then K_many # ks else ks)" "\<forall>k\<in>set ks. length (spell_chunk k) = 1 \<longrightarrow> k = K_one"
  shows "accepts big (map spell_chunk ks)"
  using assms
proof (induction ks arbitrary: big)
  case (Cons k ks)
  have k: "ke_chunk_ok k" "stars_apart (k # ks)" "big \<longrightarrow> k \<noteq> K_one \<and> k \<noteq> K_many"
    using Cons.prems(1,2) by (auto split: if_splits)
  have ks: "\<forall>k\<in>set ks. ke_chunk_ok k" "\<forall>k\<in>set ks. length (spell_chunk k) = 1 \<longrightarrow> k = K_one" using Cons.prems by simp_all
  show ?case
  proof (cases k)
    case K_one
    then have "accepts big (map spell_chunk ks)" using Cons.IH [OF ks(1) _ ks(2), of big] k by (cases big) auto
    then show ?thesis using K_one k(3) by simp
  next
    case K_many
    then have "accepts True (map spell_chunk ks)" using Cons.IH [OF ks(1) _ ks(2), of True] k(2) by simp
    then show ?thesis using K_many k(3) by simp
  next
    case (K_pat ts)
    then have "stars_apart ks" using k(2) by (cases ks) auto
    then have a: "accepts False (map spell_chunk ks)" using Cons.IH [OF ks(1) _ ks(2), of False] by simp
    have t: "plain_pat ts" "ts \<noteq> [None]" "length (spell ts) \<noteq> 1" "spell ts \<noteq> []"
      using K_pat k(1) Cons.prems(3) spell_chunk_plain [OF k(1)] by auto
    have "scan_chunk (spell ts) = CANON_SUCCESS" using t(1) spell_plain by (auto simp: scan_chunk_iff)
    then show ?thesis using K_pat a t spell_no_star [OF t(1)] by simp
  qed
qed simp

lemma ok_accepts:
  assumes "accepts big cs" "\<forall>c\<in>set cs. CHR ''/'' \<notin> set c \<and> CHR 0x00 \<notin> set c" "\<forall>c\<in>set cs. length c = 1 \<longrightarrow> c = ''*''"
  shows "\<exists>ks. cs = map spell_chunk ks \<and> (\<forall>k\<in>set ks. ke_chunk_ok k) \<and> stars_apart (if big then K_many # ks else ks)"
  using assms
proof (induction cs arbitrary: big)
  case (Cons c cs)
  have cs: "\<forall>c\<in>set cs. CHR ''/'' \<notin> set c \<and> CHR 0x00 \<notin> set c" "\<forall>c\<in>set cs. length c = 1 \<longrightarrow> c = ''*''" using Cons.prems by simp_all
  consider (one) "c = ''*''" | (many) "c = ''**''" | (pat) "length c \<noteq> 1" "c \<noteq> ''**''"
    using Cons.prems(3) [THEN bspec, of c] by fastforce
  then show ?case
  proof cases
    case one
    then have "\<not> big" "accepts False cs" using Cons.prems(1) by auto
    then obtain ks where "cs = map spell_chunk ks" "\<forall>k\<in>set ks. ke_chunk_ok k" "stars_apart ks" using Cons.IH [OF _ cs] by force
    then show ?thesis using one \<open>\<not> big\<close> by (intro exI [of _ "K_one # ks"]) (cases ks, auto)
  next
    case many
    then have "\<not> big" "accepts True cs" using Cons.prems(1) by auto
    then obtain ks where "cs = map spell_chunk ks" "\<forall>k\<in>set ks. ke_chunk_ok k" "stars_apart (K_many # ks)" using Cons.IH [OF _ cs] by force
    then show ?thesis using many \<open>\<not> big\<close> by (intro exI [of _ "K_many # ks"]) auto
  next
    case pat
    then have c: "c \<noteq> []" "c \<noteq> ''$*''" "scan_chunk c = CANON_SUCCESS" "accepts False cs" using Cons.prems(1) by auto
    obtain ks where ks: "cs = map spell_chunk ks" "\<forall>k\<in>set ks. ke_chunk_ok k" "stars_apart ks" using Cons.IH [OF c(4) cs] by force
    obtain ts where "c = spell ts" "plain_pat ts" using c(3) scan_chunk_iff [of c] Cons.prems(2) by auto
    then have "ke_chunk_ok (K_pat ts)" "c = spell_chunk (K_pat ts)" using c(1,2) by auto
    moreover have "stars_apart (K_pat ts # ks)" using ks(3) by (cases ks) auto
    ultimately show ?thesis using ks by (intro exI [of _ "K_pat ts # ks"]) auto
  qed
qed simp

lemma canon_exact:
  assumes "CHR 0x00 \<notin> set s" "\<forall>c\<in>set (chunks s). length c = 1 \<longrightarrow> c = ''*''"
  shows "z_keyexpr_is_canon s = CANON_SUCCESS \<longleftrightarrow> canonical s"
proof
  assume "z_keyexpr_is_canon s = CANON_SUCCESS"
  then have a: "accepts False (chunks s)" by (simp add: is_canon_accepts)
  have "set (join_chunks cs) \<supseteq> set c" if "c \<in> set cs" for c cs using that by (induction cs rule: join_chunks.induct) auto
  then have "\<forall>c\<in>set (chunks s). CHR ''/'' \<notin> set c \<and> CHR 0x00 \<notin> set c" using join_chunks_chunks [of s] assms(1) by fastforce
  then obtain ks where ks: "chunks s = map spell_chunk ks" "\<forall>k\<in>set ks. ke_chunk_ok k" "stars_apart ks"
    using ok_accepts [OF a _ assms(2)] by auto
  then have "ks \<noteq> []" using chunks_nonempty [of s] by auto
  then show "canonical s" using ks join_chunks_chunks(1) [of s] unfolding canonical_def ke_ok_def spell_key_def by metis
next
  assume "canonical s"
  then obtain ks where ks: "ke_ok ks" "s = spell_key ks" by (auto simp: canonical_def)
  then have c: "chunks s = map spell_chunk ks" by (simp add: chunks_spell_key)
  have "k = K_one" if "k \<in> set ks" "length (spell_chunk k) = 1" for k
  proof -
    have "spell_chunk k = ''*''" using assms(2) that c by auto
    then show ?thesis using ks(1) that(1) spell_no_star by (cases k) (auto simp: ke_ok_def)
  qed
  then show "z_keyexpr_is_canon s = CANON_SUCCESS"
    using accepts_ok [of ks False] ks(1) by (auto simp: is_canon_accepts c ke_ok_def)
qed

text \<open>
  C40: on strings whose chunks of one character are single stars the check of the canonical form is exact: it accepts those strings that
  spell a row of chunks, each of them a star, a double star or characters and gaps, with no star or double star behind a double star.
\<close>

theorem is_canon_exact:
  assumes "CHR 0x00 \<notin> set s" "\<forall>c\<in>set (chunks s). length c = 1 \<longrightarrow> c = ''*''"
  shows "z_keyexpr_is_canon s = CANON_SUCCESS \<longleftrightarrow> (\<exists>ks. ke_ok ks \<and> s = spell_key ks)"
  using canon_exact [OF assms] by (simp add: canonical_def)

theorem is_canon_exact_witness:
  "canonical ''**/sensor/$*temp/*'' \<and> \<not> canonical ''**/*/sensor''"
proof -
  have "z_keyexpr_is_canon ''**/sensor/$*temp/*'' = CANON_SUCCESS" "z_keyexpr_is_canon ''**/*/sensor'' \<noteq> CANON_SUCCESS"
    "chunks ''**/sensor/$*temp/*'' = [''**'', ''sensor'', ''$*temp'', ''*'']" "chunks ''**/*/sensor'' = [''**'', ''*'', ''sensor'']"
    by code_simp+
  then show ?thesis using is_canon_exact [of "''**/sensor/$*temp/*''"] is_canon_exact [of "''**/*/sensor''"] by (simp add: canonical_def)
qed

lemma one_character: "canonical s \<Longrightarrow> [c] \<in> set (chunks s) \<Longrightarrow> c = CHR ''*'' \<or> plain c"
proof -
  assume "canonical s" "[c] \<in> set (chunks s)"
  then obtain ks where "ke_ok ks" "[c] \<in> set (map spell_chunk ks)" by (auto simp: canonical_def chunks_spell_key)
  then obtain k where "ke_chunk_ok k" "spell_chunk k = [c]" unfolding ke_ok_def by auto
  then show ?thesis by (cases k) (auto elim!: spell.elims)
qed

text \<open>
  Chunks of one character: a canonical key expression that is refused, two that are not canonical and accepted.
\<close>

theorem one_character_chunks:
  "canonical ''**/a/*'' \<and> z_keyexpr_is_canon ''**/a/*'' = CANON_SINGLE_STAR_AFTER_DOUBLE_STAR \<and>
   \<not> canonical ''a/$'' \<and> z_keyexpr_is_canon ''a/$'' = CANON_SUCCESS \<and> \<not> canonical ''a/#'' \<and> z_keyexpr_is_canon ''a/#'' = CANON_SUCCESS"
proof -
  have "ke_ok [K_many, K_pat [Some CHR ''a''], K_one]" "spell_key [K_many, K_pat [Some CHR ''a''], K_one] = ''**/a/*''"
    by (simp_all add: ke_ok_def plain_def spell_key_def)
  then have "canonical ''**/a/*''" unfolding canonical_def by metis
  moreover have "\<not> canonical ''a/$''" "\<not> canonical ''a/#''"
    using one_character [of "''a/$''" "CHR ''$''"] one_character [of "''a/#''" "CHR ''#''"] by (auto simp: chunks.simps plain_def)
  moreover have "z_keyexpr_is_canon ''**/a/*'' = CANON_SINGLE_STAR_AFTER_DOUBLE_STAR" "z_keyexpr_is_canon ''a/$'' = CANON_SUCCESS"
    "z_keyexpr_is_canon ''a/#'' = CANON_SUCCESS"
    by code_simp+
  ultimately show ?thesis by blast
qed

section \<open>Bringing into canonical form\<close>

text \<open>No gap directly after a gap, and no dollar without its star.\<close>

fun quiet :: "bool \<Rightarrow> string \<Rightarrow> bool" where
  "quiet after [] = True"
| "quiet after (c # r) =
     (if c = CHR ''$'' then (case r of [] \<Rightarrow> False | d # r \<Rightarrow> d = CHR ''*'' \<and> \<not> after \<and> quiet True r) else quiet False r)"

lemma skip_quiet:
  "quiet after s \<Longrightarrow> \<exists>ra. skip_needles (p @ s @ t) (length p + length s) ''$*'' (length p) after = Some (length p + length s, ra)"
proof (induction "length s" arbitrary: s p after rule: less_induct)
  case less
  show ?case
  proof (cases s)
    case Nil
    then show ?thesis by (simp add: skip_needles.simps)
  next
    case (Cons c r)
    show ?thesis
    proof (cases "c = CHR ''$''")
      case True
      then obtain r' where r: "r = CHR ''*'' # r'" "\<not> after" "quiet True r'" using less.prems Cons by (auto split: list.splits)
      have "\<exists>ra. skip_needles ((p @ ''$*'') @ r' @ t) (length (p @ ''$*'') + length r') ''$*'' (length (p @ ''$*'')) True =
          Some (length (p @ ''$*'') + length r', ra)"
        by (rule less.hyps) (use r Cons in simp_all)
      moreover have "z_str_startswith (p @ s @ t) (length p) ''$*'' 0 = Some 2"
        using Cons True r(1) by (simp add: nth_append numeral_2_eq_2)
      ultimately show ?thesis using Cons True r(1,2) by (subst skip_needles.simps) simp
    next
      case False
      then have "\<exists>ra. skip_needles ((p @ [c]) @ r @ t) (length (p @ [c]) + length r) ''$*'' (length (p @ [c])) False =
          Some (length (p @ [c]) + length r, ra)"
        using less.prems Cons by (intro less.hyps) auto
      moreover have "z_str_startswith (p @ s @ t) (length p) ''$*'' 0 = Some 0" using Cons False by (simp add: nth_append)
      ultimately show ?thesis using Cons by (subst skip_needles.simps) simp
    qed
  qed
qed

lemma quiet_spell:
  "plain_pat ts \<Longrightarrow> \<forall>b. quiet b r \<Longrightarrow> after \<longrightarrow> \<not> gap_first ts \<Longrightarrow> quiet after (spell ts @ r)"
  by (induction ts arbitrary: after rule: spell.induct) (auto simp: plain_def)

lemma quiet_key: "\<forall>k\<in>set ks. ke_chunk_ok k \<Longrightarrow> quiet False (spell_key ks)"
proof (induction ks)
  case (Cons k ks)
  have c: "quiet False (spell_chunk k @ r)" if "\<forall>b. quiet b r" for r
    using that Cons.prems quiet_spell [of _ r False] by (cases k) auto
  show ?case
  proof (cases ks)
    case Nil
    then show ?thesis using c [of "[]"] by (simp add: spell_key_def)
  next
    case (Cons l ls)
    then show ?thesis using c [of "CHR ''/'' # spell_key ks"] Cons.IH Cons.prems by (simp add: spell_key_def)
  qed
qed (simp add: spell_key_def)

text \<open>
  A canonical key expression that the check accepts is left as it is, whatever lies behind it in memory.
\<close>

theorem canonize_keeps_canonical:
  assumes "canonical s" "z_keyexpr_is_canon s = CANON_SUCCESS"
  shows "z_keyexpr_canonize (s @ t) (length s) = Some (CANON_SUCCESS, s @ t, length s)"
proof -
  obtain ks where ks: "ke_ok ks" "s = spell_key ks" using assms(1) by (auto simp: canonical_def)
  then have "quiet False s" using quiet_key by (simp add: ke_ok_def)
  from skip_quiet [OF this, of "[]" t] obtain ra where "skip_needles (s @ t) (length s) ''$*'' 0 False = Some (length s, ra)" by auto
  then have "zp_singleify (s @ t) (length s) ''$*'' = Some (s @ t, length s)" by (simp add: zp_singleify_def move_down.simps)
  moreover obtain n where "zp_canon_prefix s = (CANON_SUCCESS, n)" using assms(2) unfolding z_keyexpr_is_canon_def by (metis prod.collapse)
  ultimately show ?thesis by (simp add: z_keyexpr_canonize_def)
qed

theorem canonize_keeps_canonical_witness:
  "z_keyexpr_canonize (''**/sensor/$*temp'' @ ''xyz'') 16 = Some (CANON_SUCCESS, ''**/sensor/$*tempxyz'', 16)"
proof -
  have "ke_ok [K_many, K_pat (map Some ''sensor''), K_pat (None # map Some ''temp'')]"
    "spell_key [K_many, K_pat (map Some ''sensor''), K_pat (None # map Some ''temp'')] = ''**/sensor/$*temp''"
    by (simp_all add: ke_ok_def plain_def plain_pat_def spell_key_def)
  then have "canonical ''**/sensor/$*temp''" unfolding canonical_def by metis
  moreover have "z_keyexpr_is_canon ''**/sensor/$*temp'' = CANON_SUCCESS" by code_simp
  ultimately show ?thesis using canonize_keeps_canonical [of "''**/sensor/$*temp''" "''xyz''"] by (simp add: numeral_eq_Suc)
qed

text \<open>
  What the second half makes of key expressions that are not canonical: a double star and a lone gap become a result that is not
  canonical either; a star is refused because of the scan that does not stop at the end of a chunk; and without a zero behind the string the
  search for a slash leaves the block, as it does in \<open>_z_keyexpr_join\<close>.
\<close>

theorem canonize_wrong:
  "z_keyexpr_canonize (''**/$*'' @ [CHR 0x00]) 5 = Some (CANON_SUCCESS, ''**/**'' @ [CHR 0x00], 4) \<and> \<not> canonical (take 4 ''**/**'') \<and>
   fst (the (z_keyexpr_canonize (''$*/abc/*'' @ [CHR 0x00]) 8)) = CANON_STARS_IN_CHUNK \<and> canonical ''*/abc/*'' \<and>
   z_keyexpr_canonize ''abc/$*'' 6 = None"
proof -
  have "z_keyexpr_canonize (''**/$*'' @ [CHR 0x00]) 5 = Some (CANON_SUCCESS, ''**/**'' @ [CHR 0x00], 4)"
    "fst (the (z_keyexpr_canonize (''$*/abc/*'' @ [CHR 0x00]) 8)) = CANON_STARS_IN_CHUNK" "z_keyexpr_canonize ''abc/$*'' 6 = None"
    by code_simp+
  moreover have "z_keyexpr_is_canon ''**/*'' \<noteq> CANON_SUCCESS" "z_keyexpr_is_canon ''*/abc/*'' = CANON_SUCCESS"
    "chunks ''**/*'' = [''**'', ''*'']" "chunks ''*/abc/*'' = [''*'', ''abc'', ''*'']"
    by code_simp+
  ultimately show ?thesis using canon_exact [of "''**/*''"] canon_exact [of "''*/abc/*''"] by simp
qed

end
