(* ===== verification/ZGlob.thy ===== *)
theory ZGlob
  imports Main
begin

text \<open>
  Patterns with gaps, over any kind of elements: what two patterns have in common. It is used twice for the key expressions, for
  characters with \<open>$*\<close> and for chunks with \<open>**\<close>.
\<close>

section \<open>Words of a pattern\<close>

text \<open>A gap is \<open>None\<close>, and stands for any number of elements.\<close>

fun glob :: "('a \<Rightarrow> 'b \<Rightarrow> bool) \<Rightarrow> 'a option list \<Rightarrow> 'b list \<Rightarrow> bool" where
  "glob R [] w = (w = [])"
| "glob R (Some a # p) [] = False"
| "glob R (Some a # p) (x # w) = (R a x \<and> glob R p w)"
| "glob R (None # p) [] = glob R p []"
| "glob R (None # p) (x # w) = (glob R p (x # w) \<or> glob R (None # p) w)"

lemma glob_some: "glob R (Some a # p) w \<longleftrightarrow> (\<exists>x v. w = x # v \<and> R a x \<and> glob R p v)"
  by (cases w) auto

lemma glob_none: "glob R (None # p) w \<longleftrightarrow> (\<exists>u v. w = u @ v \<and> glob R p v)"
proof (induction w)
  case (Cons x w)
  then show ?case by (auto simp: Cons_eq_append_conv)
qed simp

lemma glob_append: "glob R (p @ q) w \<longleftrightarrow> (\<exists>u v. w = u @ v \<and> glob R p u \<and> glob R q v)"
proof (induction p arbitrary: w)
  case (Cons t p)
  show ?case
  proof (cases t)
    case None
    have "glob R (p @ q) v \<longleftrightarrow> (\<exists>a b. v = a @ b \<and> glob R p a \<and> glob R q b)" for v by (rule Cons.IH)
    then show ?thesis unfolding None append_Cons glob_none by (metis append.assoc)
  next
    case (Some a)
    then show ?thesis unfolding append_Cons by (simp add: glob_some Cons.IH) (metis append_Cons)
  qed
qed simp

lemma glob_literal: "glob R (map Some as) w \<longleftrightarrow> list_all2 R as w"
proof (induction as arbitrary: w)
  case (Cons a as)
  then show ?case by (cases w) auto
qed auto

lemma glob_cong: "\<forall>a x. Some a \<in> set p \<longrightarrow> R a x = S a x \<Longrightarrow> glob R p w = glob S p w"
proof (induction p arbitrary: w)
  case (Cons t p)
  have p: "glob R p v = glob S p v" for v using Cons by simp
  show ?case
  proof (cases t)
    case None
    then show ?thesis using p by (simp add: glob_none)
  next
    case (Some a)
    then show ?thesis using p Cons.prems by (simp add: glob_some)
  qed
qed simp

lemma glob_map: "glob R p (map f w) = glob (\<lambda>a x. R a (f x)) p w"
  by (induction "\<lambda>a x. R a (f x)" p w rule: glob.induct) simp_all

lemma glob_mono: "glob R p w \<Longrightarrow> \<forall>a x. Some a \<in> set p \<longrightarrow> x \<in> set w \<longrightarrow> R a x \<longrightarrow> S a x \<Longrightarrow> glob S p w"
  by (induction R p w rule: glob.induct) auto

lemma glob_absorb:
  "\<forall>a. Some a \<in> set p \<longrightarrow> \<not> R a x \<Longrightarrow> glob R p (x # v) \<longleftrightarrow> (\<exists>p'. p = None # p') \<and> glob R p v"
proof (induction p)
  case (Cons t p)
  show ?case
  proof (cases t)
    case None
    then show ?thesis using Cons by (cases v) auto
  next
    case (Some a)
    then show ?thesis using Cons.prems by auto
  qed
qed simp

text \<open>Elements that no literal matches can be left out.\<close>

lemma glob_filter: "glob R p w \<Longrightarrow> \<forall>a x. Some a \<in> set p \<longrightarrow> R a x \<longrightarrow> P x \<Longrightarrow> glob R p (filter P w)"
proof (induction R p w rule: glob.induct)
  case (5 R p x w)
  have "glob R p v \<Longrightarrow> glob R (None # p) v" for v by (cases v) simp_all
  then show ?case using 5 by (cases "P x") auto
qed auto

text \<open>Words of both patterns, with elements that the universe \<open>D\<close> has.\<close>

definition meets :: "('b \<Rightarrow> bool) \<Rightarrow> ('a \<Rightarrow> 'b \<Rightarrow> bool) \<Rightarrow> 'a option list \<Rightarrow> 'a option list \<Rightarrow> bool" where
  "meets D R p q \<longleftrightarrow> (\<exists>w. (\<forall>x\<in>set w. D x) \<and> glob R p w \<and> glob R q w)"

definition compat :: "('b \<Rightarrow> bool) \<Rightarrow> ('a \<Rightarrow> 'b \<Rightarrow> bool) \<Rightarrow> 'a \<Rightarrow> 'a \<Rightarrow> bool" where
  "compat D R a b \<longleftrightarrow> (\<exists>x. D x \<and> R a x \<and> R b x)"

lemma meets_sym: "meets D R p q \<longleftrightarrow> meets D R q p"
  by (auto simp: meets_def)

lemma compat_sym: "compat D R a b \<longleftrightarrow> compat D R b a"
  by (auto simp: compat_def)

lemma meets_nil [simp]: "meets D R [] []"
  by (simp add: meets_def)

lemma meets_some_nil [simp]: "\<not> meets D R (Some a # p) []" "\<not> meets D R [] (Some a # p)"
  by (auto simp: meets_def glob_some)

lemma meets_some [simp]: "meets D R (Some a # p) (Some b # q) \<longleftrightarrow> compat D R a b \<and> meets D R p q"
proof
  assume "compat D R a b \<and> meets D R p q"
  then obtain x w where "D x" "R a x" "R b x" "\<forall>x\<in>set w. D x" "glob R p w" "glob R q w" by (auto simp: meets_def compat_def)
  then show "meets D R (Some a # p) (Some b # q)" unfolding meets_def by (intro exI [of _ "x # w"]) simp
qed (fastforce simp: meets_def compat_def glob_some)

lemma meets_snoc: "meets D R (p @ [Some a]) (q @ [Some b]) \<longleftrightarrow> compat D R a b \<and> meets D R p q"
proof
  assume "compat D R a b \<and> meets D R p q"
  then obtain x w where "D x" "R a x" "R b x" "\<forall>x\<in>set w. D x" "glob R p w" "glob R q w" by (auto simp: meets_def compat_def)
  then show "meets D R (p @ [Some a]) (q @ [Some b])"
    unfolding meets_def by (intro exI [of _ "w @ [x]"]) (auto simp: glob_append glob_some)
qed (fastforce simp: meets_def compat_def glob_append glob_some)

lemma meets_none_nil: "meets D R (None # p) [] \<longleftrightarrow> meets D R p []"
  by (auto simp: meets_def)

definition gap_free :: "'a option list \<Rightarrow> bool" where
  "gap_free p \<longleftrightarrow> None \<notin> set p"

lemma gap_free_literal: "gap_free p \<longleftrightarrow> (\<exists>as. p = map Some as)"
proof
  show "gap_free p \<Longrightarrow> \<exists>as. p = map Some as"
  proof (induction p)
    case (Cons t p)
    then show ?case by (cases t) (auto simp: gap_free_def intro: exI [of _ "_ # _"])
  qed simp
qed (auto simp: gap_free_def)

section \<open>Intersection and inclusion\<close>

text \<open>
  Either two patterns have a word in common, or the left one matches the right one, whose gaps count as elements that match no element of
  a pattern. Both are decided the same way.
\<close>

definition lit :: "('a \<Rightarrow> 'b \<Rightarrow> bool) \<Rightarrow> 'a \<Rightarrow> 'b option \<Rightarrow> bool" where
  "lit C a t = (case t of None \<Rightarrow> False | Some b \<Rightarrow> C a b)"

definition agree :: "('b \<Rightarrow> bool) \<Rightarrow> ('a \<Rightarrow> 'b \<Rightarrow> bool) \<Rightarrow> ('a \<Rightarrow> 'a \<Rightarrow> bool) \<Rightarrow> bool \<Rightarrow> 'a \<Rightarrow> 'a \<Rightarrow> bool" where
  "agree D R C i = (if i then compat D R else C)"

definition fits :: "('b \<Rightarrow> bool) \<Rightarrow> ('a \<Rightarrow> 'b \<Rightarrow> bool) \<Rightarrow> ('a \<Rightarrow> 'a \<Rightarrow> bool) \<Rightarrow> bool \<Rightarrow> 'a option list \<Rightarrow> 'a option list \<Rightarrow> bool" where
  "fits D R C i p q = (if i then meets D R p q else glob (lit C) p q)"

lemma lit_simps [simp]: "\<not> lit C a None" "lit C a (Some b) = C a b"
  by (simp_all add: lit_def)

lemma glob_lit: "glob (lit C) p (map Some bs) = glob C p bs"
  by (induction C p bs rule: glob.induct) simp_all

lemma glob_nil: "glob R p [] \<longleftrightarrow> (\<forall>t\<in>set p. t = None)"
proof (induction p)
  case (Cons t p)
  then show ?case by (cases t) simp_all
qed simp

lemma fits_simps [simp]:
  "fits D R C i [] []"
  "\<not> fits D R C i (Some a # p) []"
  "\<not> fits D R C i [] (Some a # p)"
  "fits D R C i (Some a # p) (Some b # q) \<longleftrightarrow> agree D R C i a b \<and> fits D R C i p q"
  "\<not> fits D R C False (Some a # p) (None # q)"
  by (auto simp: fits_def agree_def)

lemma fits_snoc: "fits D R C i (p @ [Some a]) (q @ [Some b]) \<longleftrightarrow> agree D R C i a b \<and> fits D R C i p q"
proof (cases i)
  case False
  have "glob (lit C) (p @ [Some a]) (q @ [Some b]) \<longleftrightarrow> C a b \<and> glob (lit C) p q"
    unfolding glob_append glob_some by (auto intro: exI [of _ q] exI [of _ "[Some b]"])
  then show ?thesis using False by (simp add: fits_def agree_def)
qed (simp add: fits_def agree_def meets_snoc)

lemma fits_snoc_none: "\<not> fits D R C False (p @ [Some a]) (q @ [None])"
  by (auto simp: fits_def glob_append glob_some)

lemma fits_sym: "fits D R C True p q = fits D R C True q p"
  by (simp add: fits_def meets_sym)

lemma meets_nil_iff: "meets D R p [] \<longleftrightarrow> (\<forall>t\<in>set p. t = None)"
  by (simp add: meets_def glob_nil)

lemma fits_right_nil: "fits D R C i p [] \<longleftrightarrow> (\<forall>t\<in>set p. t = None)"
  by (simp add: fits_def meets_nil_iff glob_nil)

lemma fits_left_nil: "fits D R C i [] q \<longleftrightarrow> (if i then \<forall>t\<in>set q. t = None else q = [])"
  by (auto simp: fits_def meets_nil_iff meets_sym [of D R "[]"])

text \<open>A pattern that matches another one matches its words.\<close>

lemma lit_sound:
  "glob (lit C) p q \<Longrightarrow> glob R q w \<Longrightarrow> \<forall>a b x. Some a \<in> set p \<longrightarrow> Some b \<in> set q \<longrightarrow> C a b \<longrightarrow> R b x \<longrightarrow> R a x \<Longrightarrow> glob R p w"
proof (induction q arbitrary: p w)
  case (Cons t q)
  have IH: "glob (lit C) p q \<Longrightarrow> glob R q w \<Longrightarrow> \<forall>a b x. Some a \<in> set p \<longrightarrow> Some b \<in> set (t # q) \<longrightarrow> C a b \<longrightarrow> R b x \<longrightarrow> R a x \<Longrightarrow> glob R p w" for p w
    using Cons.IH [of p w] by simp
  show ?case
  proof (cases t)
    case None
    then obtain u v where w: "w = u @ v" "glob R q v" using Cons.prems(2) by (auto simp: glob_none)
    have "glob (lit C) p (None # q) \<longleftrightarrow> (\<exists>p'. p = None # p') \<and> glob (lit C) p q" by (rule glob_absorb) simp
    then obtain p' where p: "p = None # p'" "glob (lit C) p q" using Cons.prems(1) None by blast
    then have "glob R p v" using IH w(2) Cons.prems(3) by blast
    then show ?thesis unfolding p(1) w(1) glob_none by (metis append.assoc)
  next
    case (Some b)
    then obtain x v where w: "w = x # v" "R b x" "glob R q v" using Cons.prems(2) by (auto simp: glob_some)
    from Cons.prems(1,3) show ?thesis
    proof (induction p)
      case (Cons s p)
      show ?case
      proof (cases s)
        case None
        with Cons.prems(1) have "glob (lit C) p (t # q) \<or> glob (lit C) (s # p) q" by simp
        then show ?thesis
        proof
          assume "glob (lit C) p (t # q)"
          then have "glob R p w" using Cons.IH Cons.prems(2) by simp
          then show ?thesis using None w(1) by simp
        next
          assume "glob (lit C) (s # p) q"
          then have "glob R (s # p) v" using IH w(3) Cons.prems(2) by blast
          then show ?thesis using None w(1) by simp
        qed
      next
        case (Some a)
        then have "R a x" "glob (lit C) p q" using Cons.prems w(2) \<open>t = Some b\<close> by auto
        moreover have "glob R p v" using IH [OF \<open>glob (lit C) p q\<close> w(3)] Cons.prems(2) by simp
        ultimately show ?thesis using Some w(1) by simp
      qed
    qed simp
  qed
qed (simp add: glob_nil)

lemma lit_self: "\<forall>a. Some a \<in> set p \<longrightarrow> C a a \<Longrightarrow> glob (lit C) p p"
proof (induction p)
  case (Cons t p)
  then have "glob (lit C) p p" by simp
  then show ?case
  proof (cases t)
    case None
    then show ?thesis using \<open>glob (lit C) p p\<close> glob_none [of "lit C" p] by (metis append_Cons append_Nil)
  qed (use Cons.prems \<open>glob (lit C) p p\<close> in auto)
qed simp

section \<open>When every element of a pattern has a match\<close>

definition fine :: "('a \<Rightarrow> bool) \<Rightarrow> 'a option list \<Rightarrow> bool" where
  "fine ok p \<longleftrightarrow> (\<forall>a. Some a \<in> set p \<longrightarrow> ok a)"

lemma fine_cons [simp]: "fine ok []" "fine ok (None # p) \<longleftrightarrow> fine ok p" "fine ok (Some a # p) \<longleftrightarrow> ok a \<and> fine ok p" "fine ok (p @ q) \<longleftrightarrow> fine ok p \<and> fine ok q"
  by (auto simp: fine_def)

locale alphabet =
  fixes D :: "'b \<Rightarrow> bool" and ok :: "'a \<Rightarrow> bool" and R :: "'a \<Rightarrow> 'b \<Rightarrow> bool"
  assumes inhabited: "ok a \<Longrightarrow> \<exists>x. D x \<and> R a x"
begin

lemma some_word: "fine ok p \<Longrightarrow> \<exists>w. (\<forall>x\<in>set w. D x) \<and> glob R p w"
proof (induction p)
  case (Cons t p)
  then obtain w where w: "\<forall>x\<in>set w. D x" "glob R p w" by (cases t) auto
  show ?case
  proof (cases t)
    case None
    then show ?thesis using w glob_none [of R p w] by (metis append_Nil)
  next
    case (Some a)
    then obtain x where "D x" "R a x" using Cons.prems inhabited by auto
    then show ?thesis using w Some by (intro exI [of _ "x # w"]) simp
  qed
qed simp

lemma meets_self: "fine ok p \<Longrightarrow> meets D R p p"
  using some_word by (auto simp: meets_def)

lemma meets_gap: "fine ok q \<Longrightarrow> meets D R [None] q"
  using some_word [of q] glob_none [of R "[]"] by (fastforce simp: meets_def)

text \<open>A gap in front on one side, and one at the end on the other.\<close>

lemma meets_ends: "fine ok p \<Longrightarrow> fine ok q \<Longrightarrow> meets D R (None # p) (q @ [None])"
proof -
  assume "fine ok p" "fine ok q"
  then obtain u v where "\<forall>x\<in>set u. D x" "glob R p u" "\<forall>x\<in>set v. D x" "glob R q v" using some_word by metis
  then show ?thesis unfolding meets_def glob_append glob_none by (intro exI [of _ "v @ u"]) auto
qed

text \<open>Gaps at both ends of one side, and one in the middle of the other.\<close>

lemma meets_middle: "fine ok p \<Longrightarrow> fine ok q \<Longrightarrow> \<not> gap_free q \<Longrightarrow> meets D R (None # p @ [None]) q"
proof -
  assume a: "fine ok p" "fine ok q" "\<not> gap_free q"
  then obtain q1 q2 where q: "q = q1 @ None # q2" unfolding gap_free_def using split_list by metis
  then obtain u v1 v2 where "\<forall>x\<in>set u. D x" "glob R p u" "\<forall>x\<in>set v1. D x" "glob R q1 v1" "\<forall>x\<in>set v2. D x" "glob R q2 v2"
    using a(1,2) some_word by (metis fine_cons(2,4))
  moreover from this have "glob R (None # p @ [None]) (v1 @ u @ v2)" "glob R q (v1 @ u @ v2)"
    unfolding q glob_append glob_none by auto
  ultimately show ?thesis unfolding meets_def by (intro exI [of _ "v1 @ u @ v2"]) auto
qed

lemma meets_gap_literal:
  assumes "fine ok p" "fine ok (map Some bs)"
  shows "meets D R (None # p) (map Some bs) \<longleftrightarrow> (\<exists>b1 b2. bs = b1 @ b2 \<and> meets D R p (map Some b2))"
proof
  assume "meets D R (None # p) (map Some bs)"
  then obtain u v where w: "\<forall>x\<in>set (u @ v). D x" "glob R p v" "list_all2 R bs (u @ v)"
    unfolding meets_def glob_none glob_literal by blast
  then obtain b1 b2 where b: "bs = b1 @ b2" "list_all2 R b2 v" by (auto simp: list_all2_append2)
  then show "\<exists>b1 b2. bs = b1 @ b2 \<and> meets D R p (map Some b2)" using w unfolding meets_def glob_literal by auto
next
  assume "\<exists>b1 b2. bs = b1 @ b2 \<and> meets D R p (map Some b2)"
  then obtain b1 b2 v where b: "bs = b1 @ b2" "\<forall>x\<in>set v. D x" "glob R p v" "list_all2 R b2 v" unfolding meets_def glob_literal by blast
  moreover obtain u where "\<forall>x\<in>set u. D x" "glob R (map Some b1) u" using b(1) assms(2) some_word [of "map Some b1"] by auto
  ultimately show "meets D R (None # p) (map Some bs)"
    unfolding meets_def glob_none glob_literal by (intro exI [of _ "u @ v"]) (auto intro: list_all2_appendI)
qed

lemma meets_literal: "fine ok p \<Longrightarrow> fine ok (map Some bs) \<Longrightarrow> meets D R p (map Some bs) \<longleftrightarrow> glob (compat D R) p bs"
proof (induction p arbitrary: bs)
  case Nil
  show ?case by (cases bs) auto
next
  case (Cons t p)
  show ?case
  proof (cases t)
    case (Some a)
    then show ?thesis using Cons by (cases bs) auto
  next
    case None
    then have "fine ok p" using Cons.prems by simp
    moreover have "fine ok (map Some b2)" if "bs = b1 @ b2" for b1 b2 using that Cons.prems(2) by simp
    ultimately have "(bs = b1 @ b2 \<and> meets D R p (map Some b2)) \<longleftrightarrow> (bs = b1 @ b2 \<and> glob (compat D R) p b2)" for b1 b2
      using Cons.IH [of b2] by blast
    then show ?thesis unfolding None glob_none using meets_gap_literal [OF \<open>fine ok p\<close> Cons.prems(2)] by simp
  qed
qed

lemma fits_gap: "fine ok q \<Longrightarrow> fits D R C i [None] q"
  using glob_none [of "lit C" "[]" q] by (simp add: fits_def meets_gap)

lemma fits_ends: "fine ok p \<Longrightarrow> fine ok q \<Longrightarrow> fits D R C True (None # p) (q @ [None])"
  by (simp add: fits_def meets_ends)

lemma fits_special:
  "fine ok p \<Longrightarrow> fine ok q \<Longrightarrow>
    fits D R C i (None # p @ [None]) q \<longleftrightarrow> i \<and> \<not> gap_free q \<or> glob (lit (agree D R C i)) (None # p @ [None]) q"
proof (cases "i \<and> gap_free q")
  case True
  then obtain bs where "q = map Some bs" by (auto simp: gap_free_literal)
  moreover assume "fine ok p" "fine ok q"
  ultimately show ?thesis using True by (simp add: fits_def agree_def glob_lit meets_literal)
qed (auto simp: fits_def agree_def meets_middle)

end

text \<open>The first occurrence of a row of elements decides.\<close>

fun seek :: "('a \<Rightarrow> 'b \<Rightarrow> bool) \<Rightarrow> 'a list \<Rightarrow> 'b list \<Rightarrow> 'b list option" where
  "seek R as w =
     (if length w < length as then None
      else if list_all2 R as (take (length as) w) then Some (drop (length as) w)
      else case w of [] \<Rightarrow> None | _ # v \<Rightarrow> seek R as v)"

declare seek.simps [simp del]

lemma glob_seek:
  "glob R (None # map Some as @ None # p) w \<longleftrightarrow> (case seek R as w of None \<Rightarrow> False | Some v \<Rightarrow> glob R (None # p) v)"
proof (induction R as w rule: seek.induct)
  case (1 R as w)
  have here: "glob R (map Some as @ None # p) w \<longleftrightarrow> list_all2 R as (take (length as) w) \<and> glob R (None # p) (drop (length as) w)"
    unfolding glob_append glob_literal
    by (metis append_eq_conv_conj append_take_drop_id list_all2_lengthD)
  show ?case
  proof (cases "length w < length as")
    case True
    have "\<not> (\<exists>u v. w = u @ v \<and> glob R (map Some as @ None # p) v)"
      using True by (auto simp: glob_append glob_literal dest: list_all2_lengthD)
    then show ?thesis using True unfolding glob_none [of _ "map Some as @ None # p"] by (subst seek.simps) simp
  next
    case long: False
    show ?thesis
    proof (cases "list_all2 R as (take (length as) w)")
      case True
      have "glob R (None # map Some as @ None # p) w \<longleftrightarrow> glob R (None # p) (drop (length as) w)"
      proof
        assume "glob R (None # map Some as @ None # p) w"
        then obtain u1 u2 u3 v where "w = u1 @ u2 @ u3 @ v" "list_all2 R as u2" "glob R p v"
          unfolding glob_none glob_append glob_literal by blast
        then have "drop (length as) w = drop (length as) (u1 @ u2) @ u3 @ v" by (auto dest: list_all2_lengthD)
        then show "glob R (None # p) (drop (length as) w)" using \<open>glob R p v\<close> unfolding glob_none by (metis append.assoc)
      next
        assume "glob R (None # p) (drop (length as) w)"
        then show "glob R (None # map Some as @ None # p) w" using here True glob_none [of R "map Some as @ None # p" w] by (metis append_Nil)
      qed
      then show ?thesis using long True by (subst seek.simps) simp
    next
      case False
      then have "glob R (None # map Some as @ None # p) w \<longleftrightarrow> (case w of [] \<Rightarrow> False | _ # v \<Rightarrow> glob R (None # map Some as @ None # p) v)"
        using here by (cases w) auto
      then show ?thesis using 1 [OF long False] long False by (subst seek.simps) (cases w, auto)
    qed
  qed
qed

end
