(* ===== verification/ZKeyChunk.thy ===== *)
theory ZKeyChunk
  imports ZKeyMatch ZKeyexprProps ZGlob
begin

text \<open>
  The matching of one chunk against another, from its beginning and from its end, decides the intersection and the inclusion of the
  patterns that the chunks spell.
\<close>

section \<open>Parts of a block\<close>

definition piece :: "string \<Rightarrow> nat \<Rightarrow> nat \<Rightarrow> string \<Rightarrow> bool" where
  "piece s b e c \<longleftrightarrow> e = b + length c \<and> e \<le> length s \<and> take (length c) (drop b s) = c"

lemma piece_end: "piece s b e c \<Longrightarrow> e = b + length c \<and> e \<le> length s"
  by (simp add: piece_def)

lemma piece_nil: "piece s b e [] \<longleftrightarrow> b = e \<and> e \<le> length s"
  by (auto simp: piece_def)

lemma piece_append: "piece s b e (c @ d) \<longleftrightarrow> piece s b (b + length c) c \<and> piece s (b + length c) e d"
proof -
  have "take (length c + length d) (drop b s) = take (length c) (drop b s) @ take (length d) (drop (b + length c) s)"
    by (simp add: take_add add.commute)
  then show ?thesis by (auto simp: piece_def append_eq_append_conv)
qed

lemma piece_one: "piece s b (Suc b) [x] \<longleftrightarrow> arr_get s b = Some x"
  by (cases "drop b s") (auto simp: piece_def arr_get_def drop_eq_Nil nth_via_drop)

lemma piece_cons: "piece s b e (x # c) \<longleftrightarrow> arr_get s b = Some x \<and> piece s (Suc b) e c"
  using piece_append [of s b e "[x]" c] by (simp add: piece_one)

lemma piece_snoc: "piece s b e (c @ [x]) \<longleftrightarrow> b < e \<and> arr_get s (e - 1) = Some x \<and> piece s b (e - 1) c"
proof -
  have "piece s b e (c @ [x]) \<longleftrightarrow> piece s b (b + length c) c \<and> piece s (b + length c) e [x]" by (rule piece_append)
  moreover have "piece s (b + length c) e [x] \<longleftrightarrow> e = Suc (b + length c) \<and> arr_get s (b + length c) = Some x"
    using piece_one [of s "b + length c" x] piece_end [of s "b + length c" e "[x]"] by auto
  ultimately show ?thesis using piece_end [of s b "e - 1" c] by auto
qed

lemma mem_chr_piece:
  assumes "piece s b e c"
  shows "mem_chr s b x (e - b) = Some (if x \<in> set c then Some (b + length (takeWhile (\<lambda>y. y \<noteq> x) c)) else None)"
proof -
  have t: "take (e - b) (drop b s) = c" "e - b = length c" "b + length c \<le> length s" using assms by (auto simp: piece_def)
  have k: "length (takeWhile (\<lambda>y. y \<noteq> x) c) < length c \<longleftrightarrow> x \<in> set c" by (induction c) auto
  have "length (takeWhile (\<lambda>y. y \<noteq> x) c) \<le> length c" by (rule length_takeWhile_le)
  then show ?thesis using t k unfolding mem_chr_def Let_def by (cases "x \<in> set c") simp_all
qed

text \<open>Behind a chunk the key expression ends, or goes on with a slash.\<close>

definition boundary :: "string \<Rightarrow> bool" where
  "boundary r \<longleftrightarrow> r = [] \<or> hd r = CHR ''/''"

definition chunk_at :: "string \<Rightarrow> nat \<Rightarrow> nat \<Rightarrow> string \<Rightarrow> bool" where
  "chunk_at s b ke c \<longleftrightarrow> CHR ''/'' \<notin> set c \<and> (\<exists>r. boundary r \<and> piece s b ke (c @ r))"

lemma chunk_at_cons: "chunk_at s b ke (x # c) \<Longrightarrow> b < ke \<and> arr_get s b = Some x \<and> x \<noteq> CHR ''/'' \<and> chunk_at s (Suc b) ke c"
  by (auto simp: chunk_at_def piece_cons dest: piece_end)

lemma chunk_at_nil: "chunk_at s b ke [] \<Longrightarrow> b = ke \<and> ke \<le> length s \<or> b < ke \<and> arr_get s b = Some CHR ''/''"
proof -
  assume "chunk_at s b ke []"
  then obtain r where "boundary r" "piece s b ke r" by (auto simp: chunk_at_def)
  then show ?thesis by (cases r) (auto simp: boundary_def piece_nil piece_cons dest: piece_end)
qed

lemma chunk_at_append: "chunk_at s b ke (c @ d) \<Longrightarrow> chunk_at s (b + length c) ke d \<and> piece s b (b + length c) c"
  by (auto simp: chunk_at_def piece_append)

lemma chunk_at_piece: "chunk_at s b ke c \<Longrightarrow> piece s b (b + length c) c"
  by (auto simp: chunk_at_def piece_append)

lemma chunk_end_eq: "chunk_at s b ke c \<Longrightarrow> z_chunk_end s b ke = Some (b + length c)"
proof -
  assume "chunk_at s b ke c"
  then obtain r where r: "CHR ''/'' \<notin> set c" "boundary r" "piece s b ke (c @ r)" by (auto simp: chunk_at_def)
  then have "mem_chr s b CHR ''/'' (ke - b) = Some (if r = [] then None else Some (b + length c))"
    using mem_chr_piece [OF r(3)] by (cases r) (auto simp: boundary_def takeWhile_part takeWhile_whole)
  then show ?thesis using piece_end [OF r(3)] by (auto simp: z_chunk_end_def)
qed

lemma exhausted_eq: "chunk_at s b ke c \<Longrightarrow> exhausted s b ke = Some (c = [])"
  using chunk_at_nil [of s b ke] chunk_at_cons [of s b ke] by (cases c) (auto simp: exhausted_def)

lemma stardsl_eq:
  assumes "chunk_at s b ke c" "c \<noteq> []" "\<And>d. c = CHR ''$'' # d \<Longrightarrow> \<exists>d'. d = CHR ''*'' # d'"
  shows "z_chunk_is_stardsl s b ke = Some (c = ''$*'')"
proof -
  obtain x d where c: "c = x # d" using assms(2) by (cases c) auto
  then have x: "arr_get s b = Some x" using chunk_at_cons [of s b ke x d] assms(1) by simp
  show ?thesis
  proof (cases "x = CHR ''$''")
    case True
    then obtain d' where d: "c = ''$*'' @ d'" using assms(3) c by auto
    then have "chunk_at s (b + 2) ke d'" using chunk_at_append [of s b ke "''$*''" d'] assms(1) by simp
    then show ?thesis using True x d chunk_at_nil [of s "b + 2" ke] chunk_at_cons [of s "b + 2" ke]
      by (cases d') (auto simp: z_chunk_is_stardsl_def)
  qed (use x c in \<open>auto simp: z_chunk_is_stardsl_def\<close>)
qed

section \<open>Spelled patterns\<close>

lemma gap_first_iff [simp]: "gap_first (t # ts) \<longleftrightarrow> t = None"
  by (cases t) simp_all

lemma spell_append [simp]: "spell (p @ q) = spell p @ spell q"
  by (induction p rule: spell.induct) simp_all

lemma spell_nil [simp]: "spell p = [] \<longleftrightarrow> p = []" "[] = spell p \<longleftrightarrow> p = []"
  by (cases p rule: spell.cases; simp)+

lemma spell_literal [simp]: "spell (map Some as) = as"
  by (induction as) simp_all

lemma spell_dollar: "plain_pat p \<Longrightarrow> CHR ''$'' \<in> set (spell p) \<longleftrightarrow> \<not> gap_free p"
  by (induction p rule: spell.induct) (auto simp: plain_def gap_free_def)

lemma spell_head: "plain_pat p \<Longrightarrow> spell p = CHR ''$'' # d \<Longrightarrow> \<exists>d'. d = CHR ''*'' # d'"
  by (cases p rule: spell.cases) (auto simp: plain_def)

lemma plain_pat_append: "plain_pat (p @ q) \<Longrightarrow> plain_pat p \<and> plain_pat q"
  by (induction p rule: spell.induct) (auto elim!: gap_first.elims(3), (case_tac ts; force)+)

lemma plain_pat_snoc: "plain_pat (p @ [None]) \<Longrightarrow> p = [] \<or> (\<exists>p' a. p = p' @ [Some a])"
proof (cases p rule: rev_cases)
  case (snoc q t)
  moreover assume "plain_pat (p @ [None])"
  ultimately have "plain_pat [t, None]" using plain_pat_append [of q "[t, None]"] by simp
  then show ?thesis using snoc by (cases t) auto
qed simp

lemma split_gap: "gap_free p \<or> (\<exists>as q. p = map Some as @ None # q)"
proof (induction p)
  case (Cons t p)
  show ?case
  proof (cases t)
    case None
    then show ?thesis by (intro disjI2 exI [of _ "[]"] exI [of _ p]) simp
  next
    case (Some a)
    from Cons show ?thesis
    proof
      assume "\<exists>as q. p = map Some as @ None # q"
      then obtain as q where "p = map Some as @ None # q" by blast
      then show ?thesis using Some by (intro disjI2 exI [of _ "a # as"]) simp
    qed (simp add: Some gap_free_def)
  qed
qed (simp add: gap_free_def)

section \<open>Parts between gaps\<close>

lemma find_part_seek:
  "piece l lb (lb + length as) as \<Longrightarrow> piece r rb re w \<Longrightarrow>
    find_part l lb (length as) r rb re = Some (map_option (\<lambda>v. re - length v) (seek (=) as w))"
proof (induction w arbitrary: rb)
  case Nil
  then show ?case
    by (cases as) (auto simp: piece_nil find_part.simps [of _ _ _ _ re] seek.simps [of _ _ "[]"] mem_equal_def dest: piece_end)
next
  case (Cons x v)
  let ?w = "x # v"
  have w: "re = rb + length ?w" "re \<le> length r" "take (length ?w) (drop rb r) = ?w" using Cons.prems(2) by (simp_all add: piece_def)
  show ?case
  proof (cases "length ?w < length as")
    case True
    then show ?thesis using w by (simp add: find_part.simps [of _ _ _ _ rb] seek.simps [of _ _ ?w])
  next
    case False
    have "take (length as) (drop rb r) = take (length as) ?w" using False w(3) by (metis min.absorb1 not_less take_take)
    moreover have "take (length as) (drop lb l) = as" "lb + length as \<le> length l" using Cons.prems(1) by (simp_all add: piece_def)
    ultimately have eq: "mem_equal r rb l lb (length as) = Some (take (length as) ?w = as)" using w(1,2) False by (simp add: mem_equal_def)
    have l: "list_all2 (=) as (take (length as) ?w) \<longleftrightarrow> take (length as) ?w = as" by (auto simp: list_all2_eq [symmetric])
    have "find_part l lb (length as) r (Suc rb) re = Some (map_option (\<lambda>v. re - length v) (seek (=) as v))"
      using Cons.IH [OF Cons.prems(1)] Cons.prems(2) by (simp add: piece_cons)
    then show ?thesis using eq w False l
      by (cases "take (length as) ?w = as") (simp_all only: find_part.simps [of _ _ _ _ rb] seek.simps [of _ _ ?w], auto)
  qed
qed

lemma seek_suffix: "seek R as w = Some v \<Longrightarrow> \<exists>u. w = u @ v"
proof (induction w)
  case (Cons x w)
  then show ?case
    using exI [of "\<lambda>u. x # w = u @ drop (length as) (x # w)" "take (length as) (x # w)"]
    by (subst (asm) (2) seek.simps) (auto split: if_splits intro: exI [of _ "x # _"])
qed (subst (asm) seek.simps, auto split: if_splits)

lemma glob_any [simp]: "glob R [None] w"
  by (induction w) simp_all

lemma right_contains:
  "piece l lb le (spell p) \<Longrightarrow> piece r rb re w \<Longrightarrow> plain_pat p \<Longrightarrow>
    z_chunk_right_contains_all_stardsl_subchunks_of_left l lb le r rb re = Some (glob (=) (None # p @ [None]) w)"
proof (induction "length p" arbitrary: p lb rb w rule: less_induct)
  case less
  have le: "size_sub le lb = le - lb" using piece_end [OF less.prems(1)] by simp
  from split_gap [of p] show ?case
  proof
    assume "gap_free p"
    then obtain as where p: "p = map Some as" by (auto simp: gap_free_literal)
    have "mem_chr l lb CHR ''$'' (le - lb) = Some None"
      using mem_chr_piece [OF less.prems(1)] spell_dollar [OF less.prems(3)] \<open>gap_free p\<close> by simp
    moreover have "piece l lb (lb + length as) as" "le - lb = length as" using less.prems(1) p piece_end [OF less.prems(1)] by auto
    ultimately show ?thesis
      using find_part_seek [OF _ less.prems(2), of l lb as] glob_seek [of "(=)" as "[]" w]
      by (subst z_chunk_right_contains_all_stardsl_subchunks_of_left.simps) (auto simp: le p split: option.split)
  next
    assume "\<exists>as q. p = map Some as @ None # q"
    then obtain as q where p: "p = map Some as @ None # q" by blast
    then have q: "plain_pat q" "plain_pat (map Some as)" using less.prems(3) plain_pat_append [of "map Some as" "None # q"] by simp_all
    have as: "CHR ''$'' \<notin> set as" using spell_dollar [OF q(2)] by (simp add: gap_free_literal)
    have l: "piece l lb (lb + length as) as" "piece l (lb + length as + 2) le (spell q)"
      using less.prems(1) unfolding p by (simp_all add: piece_append piece_cons)
    have m: "mem_chr l lb CHR ''$'' (le - lb) = Some (Some (lb + length as))"
      using mem_chr_piece [OF less.prems(1), of "CHR ''$''"] as takeWhile_part [of "CHR ''$''" as] unfolding p by simp
    show ?thesis
    proof (cases "seek (=) as w")
      case None
      then show ?thesis using find_part_seek [OF l(1) less.prems(2)] m glob_seek [of "(=)" as "q @ [None]" w]
        by (subst z_chunk_right_contains_all_stardsl_subchunks_of_left.simps) (simp add: le p)
    next
      case (Some v)
      then obtain u where u: "w = u @ v" using seek_suffix by blast
      then have v: "piece r (re - length v) re v"
        using less.prems(2) piece_append [of r rb re u v] by (metis add_diff_cancel_right' piece_end)
      have "length q < length p" using p by simp
      from less.hyps [OF this l(2) v q(1)]
      show ?thesis using Some find_part_seek [OF l(1) less.prems(2)] m glob_seek [of "(=)" as "q @ [None]" w]
        by (subst z_chunk_right_contains_all_stardsl_subchunks_of_left.simps) (simp add: le p add.commute)
    qed
  qed
qed

section \<open>Spelled gaps as characters\<close>

lemma spell_glob: "fine plain p \<Longrightarrow> glob (=) p (spell q) = glob (lit (=)) p q"
proof (induction q arbitrary: p)
  case (Cons t q)
  show ?case
  proof (cases t)
    case None
    have "glob (=) p (spell (None # q)) \<longleftrightarrow> (\<exists>p'. p = None # p') \<and> glob (=) p (spell q)"
      using Cons.prems glob_absorb [of p "(=)"] by (auto simp: fine_def plain_def)
    moreover have "glob (lit (=)) p (None # q) \<longleftrightarrow> (\<exists>p'. p = None # p') \<and> glob (lit (=)) p q" by (rule glob_absorb) simp
    ultimately show ?thesis using Cons None by simp
  next
    case (Some c)
    from Cons.prems have "glob (=) p (c # spell q) = glob (lit (=)) p (Some c # q)"
    proof (induction p)
      case (Cons u p)
      then show ?case using \<open>\<And>p. fine plain p \<Longrightarrow> glob (=) p (spell q) = glob (lit (=)) p q\<close> by (cases u) auto
    qed simp
    then show ?thesis using Some by simp
  qed
qed (simp add: glob_nil)

interpretation letters: alphabet D D "(=)" for D :: "char \<Rightarrow> bool"
  by unfold_locales auto

abbreviation cfits :: "(char \<Rightarrow> bool) \<Rightarrow> bool \<Rightarrow> pat \<Rightarrow> pat \<Rightarrow> bool" where
  "cfits D i p q \<equiv> fits D (=) (=) i p q"

lemma agree_letter: "D a \<Longrightarrow> agree D (=) (=) i a b \<longleftrightarrow> a = b"
  by (auto simp: agree_def compat_def)

lemma glob_agree: "fine D p \<Longrightarrow> glob (lit (agree D (=) (=) i)) p q = glob (lit (=)) p q"
  by (rule glob_cong) (auto simp: fine_def lit_def agree_letter split: option.split)

text \<open>The patterns of the chunks: plain, and with letters of \<open>D\<close>.\<close>

definition proper :: "(char \<Rightarrow> bool) \<Rightarrow> pat \<Rightarrow> bool" where
  "proper D p \<longleftrightarrow> plain_pat p \<and> fine D p"

lemma proper_append: "proper D (p @ q) \<Longrightarrow> proper D p \<and> proper D q"
  using plain_pat_append [of p q] by (simp add: proper_def)

lemma proper_cons: "proper D (Some a # p) \<longleftrightarrow> plain a \<and> D a \<and> proper D p" "proper D (None # p) \<longleftrightarrow> \<not> gap_first p \<and> proper D p" "proper D []"
  by (auto simp: proper_def)

lemma proper_last: "proper D (p @ [Some a]) \<Longrightarrow> plain a \<and> D a"
  using proper_append [of D p "[Some a]"] by (simp add: proper_cons)

lemma proper_plain: "proper D p \<Longrightarrow> fine plain p"
  by (simp add: proper_def plain_pat_def fine_def)

lemma chunk_special_eq:
  assumes "piece l lb le (spell p)" "piece r rb re (spell q)" "proper D p" "proper D q"
  shows "z_chunk_special i l lb le r rb re = Some (cfits D i (None # p @ [None]) q)"
proof -
  have "z_chunk_contains_stardsl r rb re = Some (\<not> gap_free q)"
    using mem_chr_piece [OF assms(2)] piece_end [OF assms(2)] spell_dollar [of q] assms(4)
    by (simp add: z_chunk_contains_stardsl_def proper_def)
  moreover have "glob (=) (None # p @ [None]) (spell q) = glob (lit (=)) (None # p @ [None]) q"
    using proper_plain [OF assms(3)] by (simp add: spell_glob)
  ultimately show ?thesis
    using right_contains [OF assms(1,2)] assms(3,4)
    by (auto simp: z_chunk_special_def letters.fits_special glob_agree proper_def)
qed

lemma backward_loop_eq:
  "piece l lb le (spell p) \<Longrightarrow> piece r rb re (spell q) \<Longrightarrow> proper D p \<Longrightarrow> proper D q \<Longrightarrow> \<not> gap_first p \<Longrightarrow>
    backward_loop i l lb r rb le re = Some (cfits D i (None # p) q)"
proof (induction "length p" arbitrary: p q le re)
  case 0
  then show ?case using letters.fits_gap [of D q] by (subst backward_loop.simps) (simp add: piece_nil proper_def)
next
  case (Suc n)
  then obtain p' t where p: "p = p' @ [t]" by (metis length_0_conv nat.distinct(1) rev_exhaust)
  have lb: "lb < le" using Suc.prems(1) p by (auto dest: piece_end)
  show ?case
  proof (cases q rule: rev_cases)
    case Nil
    then have "re = rb" using Suc.prems(2) by (simp add: piece_nil)
    moreover have "\<not> cfits D i (None # p) q" using Nil Suc.prems(5) Suc.hyps(2) by (cases p; cases "hd p") (auto simp: fits_right_nil)
    ultimately show ?thesis using lb by (subst backward_loop.simps) simp
  next
    case (snoc q' u)
    have rb: "rb < re" using Suc.prems(2) snoc by (cases u) (auto dest: piece_end)
    have p': "proper D p'" "p' \<noteq> [] \<Longrightarrow> \<not> gap_first p'" using Suc.prems(3,5) proper_append [of D p' "[t]"] p by (simp, cases p', auto)
    have q': "proper D q'" "fine D p" "fine D q" using Suc.prems(3,4) proper_append [of D q' "[u]"] snoc by (simp_all add: proper_def)
    obtain y where y: "arr_get r (re - 1) = Some y" "y = (case u of None \<Rightarrow> CHR ''*'' | Some b \<Rightarrow> b)"
      using Suc.prems(2) snoc piece_snoc [of r rb re "spell q' @ ''$''" "CHR ''*''"] piece_snoc [of r rb re "spell q'"] by (cases u) auto
    show ?thesis
    proof (cases t)
      case None
      have l: "piece l lb (le - 2) (spell p')" "arr_get l (le - 1) = Some CHR ''*''"
        using Suc.prems(1) p None piece_snoc [of l lb le "spell p' @ ''$''" "CHR ''*''"] piece_snoc [of l lb "le - 1" "spell p'"]
        by (simp_all add: numeral_2_eq_2)
      have y': "y = CHR ''*'' \<longleftrightarrow> u = None" using y(2) proper_last [of D q'] Suc.prems(4) snoc by (cases u) (auto simp: plain_def)
      have sp: "z_chunk_special i l lb (le - 2) r rb re = Some (cfits D i (None # p) q)"
        using chunk_special_eq [OF l(1) Suc.prems(2) p'(1) Suc.prems(4)] None p by simp
      show ?thesis
      proof (cases "i \<and> u = None")
        case True
        then show ?thesis using lb rb y y' letters.fits_ends [of D p q'] q' snoc by (subst backward_loop.simps) (simp add: proper_def)
      next
        case False
        then show ?thesis using lb rb y y' l sp by (subst backward_loop.simps) auto
      qed
    next
      case (Some a)
      have l: "piece l lb (le - 1) (spell p')" "arr_get l (le - 1) = Some a" "a \<noteq> CHR ''*''"
        using Suc.prems(1,3) p Some piece_snoc [of l lb le "spell p'" a] proper_last [of D p' a] by (simp_all add: plain_def)
      show ?thesis
      proof (cases u)
        case None
        then show ?thesis using lb rb y l Some p snoc letters.fits_ends [of D p q'] fits_snoc_none [of D "(=)" "(=)" "None # p'" a q'] q'
          by (subst backward_loop.simps) (auto simp: proper_def)
      next
        case u: (Some b)
        have b: "plain b" "D a" using proper_last [of D q' b] proper_last [of D p' a] Suc.prems(3,4) snoc u p Some by simp_all
        have r: "piece r rb (re - 1) (spell q')" using Suc.prems(2) snoc u piece_snoc [of r rb re "spell q'" b] by simp
        have "backward_loop i l lb r rb (le - 1) (re - 1) = Some (cfits D i (None # p') q')"
          using Suc.hyps(1) [OF _ l(1) r p'(1) q'(1)] Suc.hyps(2) p p'(2) by (cases "p' = []") auto
        then show ?thesis using lb rb y l Some p snoc u b fits_snoc [of D "(=)" "(=)" i "None # p'" a q' b] agree_letter [of D a i b]
          by (subst backward_loop.simps) (auto simp: plain_def)
      qed
    qed
  qed
qed

section \<open>Forward\<close>

definition chunk_result :: "bool \<Rightarrow> nat \<Rightarrow> nat \<Rightarrow> chunk_data option \<Rightarrow> bool" where
  "chunk_result ok a b d \<longleftrightarrow> (\<exists>x y. d = Some (yes_no ok, x, y) \<and> (ok \<longrightarrow> x = a \<and> y = b))"

lemma chunk_result_swap: "chunk_result ok a b d \<Longrightarrow> chunk_result ok b a (map_option swapped d)"
  by (auto simp: chunk_result_def swapped_def)

lemma only_gaps: "proper D p \<Longrightarrow> (\<forall>t\<in>set p. t = None) \<longleftrightarrow> p = [] \<or> p = [None]"
  by (cases p; cases "tl p"; cases "hd (tl p)") (auto simp: proper_cons)

lemma stardsl_spell: "chunk_at s b ke (spell p) \<Longrightarrow> proper D p \<Longrightarrow> p \<noteq> [] \<Longrightarrow> z_chunk_is_stardsl s b ke = Some (p = [None])"
proof -
  assume a: "chunk_at s b ke (spell p)" "proper D p" "p \<noteq> []"
  have "spell p = ''$*'' \<longleftrightarrow> p = [None]"
    using a(2) by (cases p rule: spell.cases) (auto simp: proper_cons plain_def)
  then show ?thesis using stardsl_eq [OF a(1)] a(2,3) spell_head [of p] by (simp add: proper_def)
qed

lemma forward_end_eq:
  assumes "chunk_at l lb lke (spell p)" "chunk_at r rb rke (spell q)" "proper D p" "proper D q" "p = [] \<or> q = []"
  shows "chunk_result (cfits D i p q) (lb + length (spell p)) (rb + length (spell q)) (forward_end i l lb lke r rb rke)"
proof -
  have ex: "exhausted l lb lke = Some (p = [])" "exhausted r rb rke = Some (q = [])"
    using exhausted_eq [OF assms(1)] exhausted_eq [OF assms(2)] by simp_all
  have p: "cfits D i p [] \<longleftrightarrow> p = [] \<or> p = [None]" "cfits D i [] q \<longleftrightarrow> q = [] \<or> i \<and> q = [None]"
    using only_gaps assms(3,4) by (auto simp: fits_right_nil fits_left_nil)
  show ?thesis
  proof (cases "p = []")
    case True
    then show ?thesis using ex p(2) stardsl_spell [OF assms(2,4)]
      by (cases "q = []") (auto simp: forward_end_def chunk_result_def yes_no_def)
  next
    case False
    then show ?thesis using ex p(1) assms(5) stardsl_spell [OF assms(1,3)]
      by (auto simp: forward_end_def chunk_result_def yes_no_def)
  qed
qed

lemma forward_backward_eq:
  assumes "chunk_at l lb lke (spell p)" "chunk_at r rb rke (spell q)" "proper D p" "proper D q" "\<not> gap_first p"
  shows "z_chunk_forward_backward i l lb lke r rb rke =
    Some (yes_no (cfits D i (None # p) q), lb + length (spell p), rb + length (spell q))"
  using backward_loop_eq [OF chunk_at_piece [OF assms(1)] chunk_at_piece [OF assms(2)] assms(3-5)] chunk_end_eq [OF assms(1)] chunk_end_eq [OF assms(2)]
  by (simp add: z_chunk_forward_backward_def)

lemma forward_loop_eq:
  "chunk_at l lb lke (spell p) \<Longrightarrow> chunk_at r rb rke (spell q) \<Longrightarrow> proper D p \<Longrightarrow> proper D q \<Longrightarrow>
    chunk_result (cfits D i p q) (lb + length (spell p)) (rb + length (spell q)) (forward_loop i l lke r rke lb rb)"
proof (induction p arbitrary: q lb rb)
  case Nil
  have "forward_loop i l lke r rke lb rb = forward_end i l lb lke r rb rke"
    using chunk_at_nil [of l lb lke] chunk_at_nil [of r rb rke] chunk_at_cons [of r rb rke] Nil.prems(1,2)
    by (subst forward_loop.simps) (cases "spell q", auto)
  then show ?case using forward_end_eq [OF Nil.prems, of i] by simp
next
  case (Cons t p)
  show ?case
  proof (cases q)
    case Nil
    have "forward_loop i l lke r rke lb rb = forward_end i l lb lke r rb rke"
      using chunk_at_nil [of r rb rke] chunk_at_cons [of l lb lke] Cons.prems(1,2) Nil
      by (subst forward_loop.simps) (cases "spell (t # p)", auto)
    then show ?thesis using forward_end_eq [OF Cons.prems, of i] Nil by simp
  next
    case q: (Cons u q')
    have q': "proper D q'" "fine D p" "fine D q" using Cons.prems(3,4) q proper_cons by (cases u; cases t; auto simp: proper_def)+
    show ?thesis
    proof (cases t)
      case None
      have l: "arr_get l lb = Some CHR ''$''" "chunk_at l (lb + 2) lke (spell p)" "lb < lke"
        using Cons.prems(1) None chunk_at_cons [of l lb lke "CHR ''$''"] chunk_at_append [of l lb lke "''$*''" "spell p"] by auto
      obtain y w where w: "spell q = y # w" using q by (cases "spell q") auto
      have "proper D p" "\<not> gap_first p" using Cons.prems(3) None by (simp_all add: proper_cons)
      from forward_backward_eq [OF l(2) Cons.prems(2) this(1) Cons.prems(4) this(2), of i] show ?thesis
        using l chunk_at_cons [of r rb rke y w] Cons.prems(2) w None
        by (subst forward_loop.simps) (auto simp: chunk_result_def)
    next
      case (Some a)
      have l: "arr_get l lb = Some a" "chunk_at l (Suc lb) lke (spell p)" "lb < lke" "a \<noteq> CHR ''/''" "a \<noteq> CHR ''$''" "D a" "proper D p"
        using Cons.prems(1,3) Some chunk_at_cons [of l lb lke a] by (auto simp: proper_cons plain_def)
      show ?thesis
      proof (cases u)
        case None
        have r: "arr_get r rb = Some CHR ''$''" "chunk_at r (rb + 2) rke (spell q')" "rb < rke" "proper D q'" "\<not> gap_first q'"
          using Cons.prems(2,4) q None chunk_at_cons [of r rb rke "CHR ''$''"] chunk_at_append [of r rb rke "''$*''" "spell q'"]
          by (auto simp: proper_cons)
        have sw: "cfits D True (Some a # p) (None # q') = cfits D True (None # q') (Some a # p)" by (rule fits_sym)
        show ?thesis
          using l r chunk_result_swap forward_backward_eq [OF r(2) Cons.prems(1) r(4) Cons.prems(3) r(5), of True] sw Some None q
          by (subst forward_loop.simps) (auto simp: chunk_result_def yes_no_def swapped_def)
      next
        case u: (Some b)
        have r: "arr_get r rb = Some b" "chunk_at r (Suc rb) rke (spell q')" "rb < rke" "b \<noteq> CHR ''/''" "b \<noteq> CHR ''$''"
          using Cons.prems(2,4) q u chunk_at_cons [of r rb rke b] by (auto simp: proper_cons plain_def)
        show ?thesis using Cons.IH [OF l(2) r(2) l(7) q'(1)] l r Some u q agree_letter [of D a i b]
          by (subst forward_loop.simps) (auto simp: chunk_result_def yes_no_def)
      qed
    qed
  qed
qed

end
