(* ===== verification/ZKeyBack.thy ===== *)
theory ZKeyBack
  imports ZKeyChunk
begin

text \<open>The same from the end of the chunks.\<close>

section \<open>Backward\<close>

text \<open>In front of a chunk the key expression begins, or there is a slash.\<close>

definition back_boundary :: "string \<Rightarrow> bool" where
  "back_boundary r \<longleftrightarrow> r = [] \<or> last r = CHR ''/''"

definition chunk_before :: "string \<Rightarrow> nat \<Rightarrow> nat \<Rightarrow> string \<Rightarrow> bool" where
  "chunk_before s b e c \<longleftrightarrow> CHR ''/'' \<notin> set c \<and> (\<exists>r. back_boundary r \<and> piece s b e (r @ c))"

lemma chunk_before_snoc:
  "chunk_before s b e (c @ [x]) \<Longrightarrow> b < e \<and> arr_get s (e - 1) = Some x \<and> x \<noteq> CHR ''/'' \<and> chunk_before s b (e - 1) c"
proof -
  assume "chunk_before s b e (c @ [x])"
  then obtain r where "CHR ''/'' \<notin> set (c @ [x])" "back_boundary r" "piece s b e ((r @ c) @ [x])" by (auto simp: chunk_before_def)
  then show ?thesis unfolding piece_snoc by (auto simp: chunk_before_def)
qed

lemma chunk_before_nil: "chunk_before s b e [] \<Longrightarrow> b = e \<and> e \<le> length s \<or> b < e \<and> arr_get s (e - 1) = Some CHR ''/''"
proof -
  assume "chunk_before s b e []"
  then obtain r where "back_boundary r" "piece s b e r" by (auto simp: chunk_before_def)
  then show ?thesis by (cases r rule: rev_cases) (auto simp: back_boundary_def piece_nil piece_snoc)
qed

lemma chunk_before_piece: "chunk_before s b e c \<Longrightarrow> b + length c \<le> e \<and> piece s (e - length c) e c"
proof -
  assume "chunk_before s b e c"
  then obtain r where r: "piece s b e (r @ c)" by (auto simp: chunk_before_def)
  then have "e - length c = b + length r" using piece_end [OF r] by simp
  then show ?thesis using r piece_end [OF r] by (simp add: piece_append)
qed

lemma chunk_begin_eq: "chunk_before s b e c \<Longrightarrow> z_chunk_begin s b e = Some (e - length c)"
proof (induction c arbitrary: e rule: rev_induct)
  case Nil
  then show ?case using chunk_before_nil [of s b e] by (subst z_chunk_begin.simps) auto
next
  case (snoc x c)
  then show ?case using chunk_before_snoc [of s b e c x] by (subst z_chunk_begin.simps) auto
qed

lemma exhausted_backward_eq: "chunk_before s b e c \<Longrightarrow> exhausted_backward s b e = Some (c = [])"
  using chunk_before_nil [of s b e] chunk_before_snoc [of s b e]
  by (cases c rule: rev_cases) (auto simp: exhausted_backward_def)

lemma stardsl_backward_spell:
  assumes "chunk_before s b e (spell p)" "proper D p" "p \<noteq> []"
  shows "z_chunk_is_stardsl_backward s b e = Some (p = [None])"
proof -
  obtain p' t where p: "p = p' @ [t]" using assms(3) by (cases p rule: rev_cases) auto
  show ?thesis
  proof (cases t)
    case None
    then have e: "chunk_before s b e ((spell p' @ ''$'') @ ''*'')" using assms(1) p by simp
    then have x: "b < e" "arr_get s (e - 1) = Some CHR ''*''" "chunk_before s b (e - 1) (spell p' @ ''$'')"
      using chunk_before_snoc [OF e] by simp_all
    then have y: "b < e - 1" "chunk_before s b (e - 2) (spell p')"
      using chunk_before_snoc [OF x(3)] by (simp_all add: numeral_2_eq_2)
    show ?thesis
    proof (cases "p' = []")
      case True
      then show ?thesis using chunk_before_nil [of s b "e - 2"] x y None p
        by (auto simp: z_chunk_is_stardsl_backward_def numeral_2_eq_2 numeral_3_eq_3)
    next
      case False
      then obtain q c where "p' = q @ [Some c]" using plain_pat_snoc [of p'] assms(2) p None by (auto simp: proper_def)
      then have "b < e - 2" "arr_get s (e - 2 - 1) = Some c" "c \<noteq> CHR ''/''"
        using y(2) chunk_before_snoc [of s b "e - 2" "spell q" c] by simp_all
      then show ?thesis using x y None p False by (auto simp: z_chunk_is_stardsl_backward_def)
    qed
  next
    case (Some a)
    then have "a \<noteq> CHR ''*''" using assms(2) p proper_last [of D p' a] by (auto simp: plain_def)
    then show ?thesis using chunk_before_snoc [of s b e "spell p'" a] assms(1) p Some by (auto simp: z_chunk_is_stardsl_backward_def)
  qed
qed

lemma backward_end_eq:
  assumes "chunk_before l lb le (spell p)" "chunk_before r rb re (spell q)" "proper D p" "proper D q" "p = [] \<or> q = []"
  shows "chunk_result (cfits D i p q) (le - length (spell p)) (re - length (spell q)) (backward_end i l lb le r rb re)"
proof -
  have ex: "exhausted_backward l lb le = Some (p = [])" "exhausted_backward r rb re = Some (q = [])"
    using exhausted_backward_eq [OF assms(1)] exhausted_backward_eq [OF assms(2)] by simp_all
  have p: "cfits D i p [] \<longleftrightarrow> p = [] \<or> p = [None]" "cfits D i [] q \<longleftrightarrow> q = [] \<or> i \<and> q = [None]"
    using only_gaps assms(3,4) by (auto simp: fits_right_nil fits_left_nil)
  show ?thesis
  proof (cases "p = []")
    case True
    then show ?thesis using ex p(2) stardsl_backward_spell [OF assms(2,4)]
      by (cases "q = []") (auto simp: backward_end_def chunk_result_def yes_no_def)
  next
    case False
    then show ?thesis using ex p(1) assms(5) stardsl_backward_spell [OF assms(1,3)]
      by (auto simp: backward_end_def chunk_result_def yes_no_def)
  qed
qed

text \<open>From the beginning, when the left chunk ends with a gap.\<close>

lemma backward_forward_loop_eq:
  "piece l lb le (spell p) \<Longrightarrow> piece r rb re (spell q) \<Longrightarrow> proper D p \<Longrightarrow> proper D q \<Longrightarrow> p \<noteq> [] \<longrightarrow> last p \<noteq> None \<Longrightarrow>
    backward_forward_loop i l le r re lb rb = Some (cfits D i (p @ [None]) q)"
proof (induction p arbitrary: q lb rb)
  case Nil
  then show ?case using letters.fits_gap [of D q] by (subst backward_forward_loop.simps) (simp add: piece_nil proper_def)
next
  case (Cons t p)
  have lb: "lb < le" using Cons.prems(1) by (cases t) (auto dest: piece_end)
  show ?case
  proof (cases q)
    case Nil
    then have "re = rb" using Cons.prems(2) by (simp add: piece_nil)
    moreover have "\<not> cfits D i ((t # p) @ [None]) q" using Nil Cons.prems(3,5) only_gaps [of D "t # p"] by (auto simp: fits_right_nil)
    ultimately show ?thesis using lb by (subst backward_forward_loop.simps) simp
  next
    case q: (Cons u q')
    have rb: "rb < re" using Cons.prems(2) q by (cases u) (auto dest: piece_end)
    have f: "fine D (t # p)" "fine D q" "fine D q'" "proper D q'" "proper D p" "p \<noteq> [] \<longrightarrow> last p \<noteq> None"
      using Cons.prems(3-5) q by (cases u; cases t; auto simp: proper_def)+
    obtain y where y: "arr_get r rb = Some y" "y = CHR ''$'' \<longleftrightarrow> u = None"
      using Cons.prems(2,4) q by (cases u) (auto simp: piece_cons proper_cons plain_def)
    have gap: "cfits D True ((t # p) @ [None]) (None # q')"
      using letters.fits_ends [of D q' "t # p" "(=)"] f fits_sym [of D "(=)" "(=)" "(t # p) @ [None]" "None # q'"] by simp
    show ?thesis
    proof (cases t)
      case None
      have l: "arr_get l lb = Some CHR ''$''" "piece l (lb + 2) le (spell p)" using Cons.prems(1) None by (auto simp: piece_cons)
      have "z_chunk_special i l (lb + 2) le r rb re = Some (cfits D i (None # p @ [None]) q)"
        using chunk_special_eq [OF l(2) Cons.prems(2) f(5) Cons.prems(4)] .
      then show ?thesis using lb rb l y q None gap by (subst backward_forward_loop.simps) auto
    next
      case (Some a)
      have l: "arr_get l lb = Some a" "piece l (Suc lb) le (spell p)" "a \<noteq> CHR ''$''" "D a"
        using Cons.prems(1,3) Some by (auto simp: piece_cons proper_cons plain_def)
      show ?thesis
      proof (cases u)
        case None
        then show ?thesis using lb rb l y q Some gap by (subst backward_forward_loop.simps) auto
      next
        case u: (Some b)
        have r: "arr_get r rb = Some b" "piece r (Suc rb) re (spell q')" using Cons.prems(2) q u by (auto simp: piece_cons)
        show ?thesis using Cons.IH [OF l(2) r(2) f(5,4,6)] lb rb l r y u q Some agree_letter [of D a i b]
          by (subst backward_forward_loop.simps) auto
      qed
    qed
  qed
qed

abbreviation no_at :: "string \<Rightarrow> bool" where
  "no_at c \<equiv> CHR ''@'' \<notin> set c"

lemma first_of: "piece s b e c \<Longrightarrow> c \<noteq> [] \<Longrightarrow> arr_get s b = Some (hd c) \<and> hd c \<in> set c"
  by (cases c) (auto simp: piece_cons)

lemma backward_forward_eq:
  assumes "chunk_before l lb le (spell (p @ [None]))" "chunk_before r rb re (spell q)" "proper D (p @ [None])" "proper D q" "q \<noteq> []"
    and "no_at (spell p)" "no_at (spell q)"
  shows "z_chunk_backward_forward i l lb (le - 2) r rb re =
    Some (yes_no (cfits D i (p @ [None]) q), le - 2 - length (spell p), re - length (spell q))"
proof -
  have e: "chunk_before l lb le ((spell p @ ''$'') @ ''*'')" using assms(1) by simp
  have l: "chunk_before l lb (le - 2) (spell p)" "2 \<le> le"
    using chunk_before_snoc [OF e] chunk_before_snoc [of l lb "le - 1" "spell p" "CHR ''$''"] by (auto simp: numeral_2_eq_2)
  have pl: "piece l (le - 2 - length (spell p)) le (spell (p @ [None]))"
    using chunk_before_piece [OF assms(1)] by simp
  have p: "proper D p" "p \<noteq> [] \<longrightarrow> last p \<noteq> None" using assms(3) proper_append [of D p "[None]"] plain_pat_snoc [of p] by (auto simp: proper_def)
  have x: "arr_get l (le - 2 - length (spell p)) = Some (hd (spell p @ ''$*''))" "hd (spell p @ ''$*'') \<noteq> CHR ''@''"
    using first_of [OF pl] assms(6) by auto
  have pr: "piece r (re - length (spell q)) re (spell q)" using chunk_before_piece [OF assms(2)] by simp
  have y: "arr_get r (re - length (spell q)) = Some (hd (spell q))" "hd (spell q) \<noteq> CHR ''@''"
    using first_of [OF pr] assms(5,7) by (metis spell_nil(1))+
  show ?thesis
    using chunk_begin_eq [OF l(1)] chunk_begin_eq [OF assms(2)] x y
      backward_forward_loop_eq [OF conjunct2 [OF chunk_before_piece [OF l(1)]] pr p(1) assms(4) p(2), of i]
    by (simp add: z_chunk_backward_forward_def)
qed

lemma backward_chars_eq:
  "chunk_before l lb le (spell p) \<Longrightarrow> chunk_before r rb re (spell q) \<Longrightarrow> proper D p \<Longrightarrow> proper D q \<Longrightarrow>
    no_at (spell p) \<Longrightarrow> no_at (spell q) \<Longrightarrow>
    chunk_result (cfits D i p q) (le - length (spell p)) (re - length (spell q)) (backward_chars i l lb r rb le re)"
proof (induction p arbitrary: q le re rule: rev_induct)
  case Nil
  have "backward_chars i l lb r rb le re = backward_end i l lb le r rb re"
    using chunk_before_nil [of l lb le] chunk_before_nil [of r rb re] chunk_before_snoc [of r rb re] Nil.prems(1,2)
    by (subst backward_chars.simps) (cases "spell q" rule: rev_cases, auto)
  then show ?case using backward_end_eq [OF Nil.prems(1-4), of i] by simp
next
  case (snoc t p)
  show ?case
  proof (cases q rule: rev_cases)
    case Nil
    have "backward_chars i l lb r rb le re = backward_end i l lb le r rb re"
      using chunk_before_nil [of r rb re] chunk_before_snoc [of l lb le] snoc.prems(1,2) Nil
      by (subst backward_chars.simps) (cases "spell (p @ [t])" rule: rev_cases, auto)
    then show ?thesis using backward_end_eq [OF snoc.prems(1-4), of i] Nil by simp
  next
    case q: (snoc q' u)
    have pq: "proper D p" "proper D q'" using snoc.prems(3,4) q proper_append by blast+
    show ?thesis
    proof (cases t)
      case None
      then have e: "chunk_before l lb le ((spell p @ ''$'') @ ''*'')" using snoc.prems(1) by simp
      obtain y w where w: "spell q = w @ [y]" using q by (cases "spell q" rule: rev_cases) auto
      have le: "le - 2 - length (spell p) = le - length (spell (p @ [t]))" using None by simp
      have "z_chunk_backward_forward i l lb (le - 2) r rb re =
          Some (yes_no (cfits D i (p @ [t]) q), le - length (spell (p @ [t])), re - length (spell q))"
        using backward_forward_eq [of l lb le p r rb re q D i] snoc.prems None q le by simp
      then show ?thesis using chunk_before_snoc [OF e] chunk_before_snoc [of r rb re w y] snoc.prems(2) w
        by (subst backward_chars.simps) (auto simp: chunk_result_def)
    next
      case (Some a)
      have l: "lb < le" "arr_get l (le - 1) = Some a" "chunk_before l lb (le - 1) (spell p)" "a \<noteq> CHR ''/''" "a \<noteq> CHR ''*''" "D a"
        using snoc.prems(1,3) Some chunk_before_snoc [of l lb le "spell p" a] proper_last [of D p a] by (auto simp: plain_def)
      show ?thesis
      proof (cases u)
        case None
        then have e: "chunk_before r rb re ((spell q' @ ''$'') @ ''*'')" using snoc.prems(2) q by simp
        have re: "re - 2 - length (spell q') = re - length (spell q)" using None q by simp
        have sw: "cfits D True (p @ [t]) q = cfits D True q (p @ [t])" by (rule fits_sym)
        have "z_chunk_backward_forward True r rb (re - 2) l lb le =
            Some (yes_no (cfits D True q (p @ [t])), re - length (spell q), le - length (spell (p @ [t])))"
          using backward_forward_eq [of r rb re q' l lb le "p @ [t]" D True] snoc.prems None q re by simp
        then show ?thesis using l chunk_before_snoc [OF e] sw Some None q fits_snoc_none [of D "(=)" "(=)" p a q']
          by (subst backward_chars.simps) (auto simp: chunk_result_def swapped_def yes_no_def)
      next
        case u: (Some b)
        have r: "rb < re" "arr_get r (re - 1) = Some b" "chunk_before r rb (re - 1) (spell q')" "b \<noteq> CHR ''/''" "b \<noteq> CHR ''*''"
          using snoc.prems(2,4) q u chunk_before_snoc [of r rb re "spell q'" b] proper_last [of D q' b] by (auto simp: plain_def)
        have "no_at (spell p)" "no_at (spell q')" using snoc.prems(5,6) q by simp_all
        from snoc.IH [OF l(3) r(3) pq this] show ?thesis
          using l r Some u q agree_letter [of D a i b] fits_snoc [of D "(=)" "(=)" i p a q' b]
          by (subst backward_chars.simps) (auto simp: chunk_result_def yes_no_def)
      qed
    qed
  qed
qed

section \<open>Chunks\<close>

text \<open>
  The letters of the keys that two key expressions are shown to have in common. No at sign is among them: chunks that begin with one are matched
  by themselves only.
\<close>

definition letter :: "char \<Rightarrow> bool" where
  "letter c \<longleftrightarrow> plain c \<and> c \<noteq> CHR ''@''"

definition word :: "string \<Rightarrow> bool" where
  "word w \<longleftrightarrow> w \<noteq> [] \<and> (\<forall>c\<in>set w. letter c)"

fun chunk_accepts :: "ke_chunk \<Rightarrow> string \<Rightarrow> bool" where
  "chunk_accepts K_one w = True"
| "chunk_accepts K_many w = False"
| "chunk_accepts (K_pat ts) w = glob (=) ts w"

text \<open>The gaps of the right chunk count as letters.\<close>

fun chunk_covers :: "ke_chunk \<Rightarrow> ke_chunk \<Rightarrow> bool" where
  "chunk_covers K_one k = True"
| "chunk_covers (K_pat ts) (K_pat us) = glob (lit (=)) ts us"
| "chunk_covers k j = False"

definition clean :: "ke_chunk \<Rightarrow> bool" where
  "clean k \<longleftrightarrow> ke_chunk_ok k \<and> no_at (spell_chunk k)"

abbreviation "solid k \<equiv> clean k \<and> k \<noteq> K_many"

abbreviation "ke_agree \<equiv> agree word chunk_accepts chunk_covers"

lemma spell_chars: "Some c \<in> set ts \<Longrightarrow> c \<in> set (spell ts)"
  by (induction ts rule: spell.induct) auto

lemma clean_pat: "clean (K_pat ts) \<Longrightarrow> proper letter ts \<and> ts \<noteq> [] \<and> ts \<noteq> [None] \<and> no_at (spell ts)"
  using spell_chars [of "CHR ''@''" ts] by (auto simp: clean_def proper_def fine_def letter_def plain_pat_def)

lemma pat_word: "clean (K_pat ts) \<Longrightarrow> \<exists>w. word w \<and> glob (=) ts w"
proof -
  assume "clean (K_pat ts)"
  then have t: "proper letter ts" "ts \<noteq> []" "ts \<noteq> [None]" using clean_pat by blast+
  then obtain w where "\<forall>x\<in>set w. letter x" "glob (=) ts w" using letters.some_word [of letter ts] by (auto simp: proper_def)
  moreover from this(2) have "w \<noteq> []" using t only_gaps [of letter ts] by (auto simp: glob_nil)
  ultimately show ?thesis by (auto simp: word_def)
qed

interpretation key_chunks: alphabet word "\<lambda>k. clean k \<and> k \<noteq> K_many" chunk_accepts
proof
  fix k :: ke_chunk
  assume k: "clean k \<and> k \<noteq> K_many"
  then show "\<exists>w. word w \<and> chunk_accepts k w"
    using pat_word by (cases k) (auto simp: word_def letter_def plain_def intro!: exI [of _ "''a''"])
qed

lemma agree_one: "solid j \<Longrightarrow> ke_agree i K_one j" "solid j \<Longrightarrow> ke_agree True j K_one"
  using key_chunks.inhabited [of j] by (auto simp: agree_def compat_def)

lemma agree_pat:
  assumes "clean (K_pat ts)" "clean (K_pat us)"
  shows "ke_agree i (K_pat ts) (K_pat us) \<longleftrightarrow> cfits letter i ts us"
proof (cases i)
  case True
  have "word w" if "\<forall>x\<in>set w. letter x" "glob (=) ts w" for w
    using that clean_pat [OF assms(1)] only_gaps [of letter ts] by (auto simp: word_def glob_nil)
  then show ?thesis using True by (auto simp: agree_def fits_def compat_def meets_def word_def)
qed (simp add: agree_def fits_def)

lemma first_char:
  assumes "chunk_at s b e (spell_chunk k)" "clean k"
  shows "\<exists>x. arr_get s b = Some x \<and> (x = CHR ''*'' \<longleftrightarrow> k = K_one \<or> k = K_many) \<and> x \<noteq> CHR ''@'' \<and> superwild (x = CHR ''*'') s b e = Some (k = K_many)"
proof (cases k)
  case K_one
  then have "arr_get s b = Some CHR ''*''" "chunk_at s (Suc b) e []" using assms(1) chunk_at_cons [of s b e "CHR ''*''"] by auto
  then show ?thesis using K_one chunk_at_nil [of s "Suc b" e] by (auto simp: superwild_def)
next
  case K_many
  then have c: "arr_get s b = Some CHR ''*''" "chunk_at s (Suc b) e ''*''" using assms(1) chunk_at_cons [of s b e "CHR ''*''"] by auto
  then have "arr_get s (Suc b) = Some CHR ''*''" "Suc b < e" using chunk_at_cons [of s "Suc b" e "CHR ''*''"] by auto
  then show ?thesis using K_many c by (auto simp: superwild_def)
next
  case (K_pat ts)
  then obtain t us where ts: "ts = t # us" using clean_pat assms(2) by (cases ts) auto
  then have "proper letter (t # us)" using clean_pat assms(2) K_pat by blast
  then show ?thesis using assms(1) K_pat ts chunk_at_cons [of s b e "hd (spell ts)" "tl (spell ts)"]
    by (cases t) (auto simp: superwild_def proper_cons plain_def letter_def)
qed

lemma chunk_forward_many:
  assumes "chunk_at l lb lke (spell_chunk k)" "chunk_at r rb rke (spell_chunk j)" "clean k" "clean j"
  shows "k = K_many \<Longrightarrow> z_chunk_forward i l lb lke r rb rke = Some (Left_superwild, 0, 0)"
    and "k \<noteq> K_many \<Longrightarrow> j = K_many \<Longrightarrow> z_chunk_forward i l lb lke r rb rke = Some (if i then Right_superwild else Match_no, 0, 0)"
  using first_char [OF assms(1,3)] first_char [OF assms(2,4)] by (auto simp: z_chunk_forward_def)

lemma chunk_forward_eq:
  assumes "chunk_at l lb lke (spell_chunk k)" "chunk_at r rb rke (spell_chunk j)" "solid k" "solid j"
  shows "chunk_result (ke_agree i k j) (lb + length (spell_chunk k)) (rb + length (spell_chunk j)) (z_chunk_forward i l lb lke r rb rke)"
proof -
  obtain x where x: "arr_get l lb = Some x" "x = CHR ''*'' \<longleftrightarrow> k = K_one" "x \<noteq> CHR ''@''" "superwild (x = CHR ''*'') l lb lke = Some False"
    using first_char [OF assms(1)] assms(3) by auto
  obtain y where y: "arr_get r rb = Some y" "y = CHR ''*'' \<longleftrightarrow> j = K_one" "y \<noteq> CHR ''@''" "superwild (y = CHR ''*'') r rb rke = Some False"
    using first_char [OF assms(2)] assms(4) by auto
  show ?thesis
  proof (cases k)
    case K_one
    then show ?thesis using x y chunk_end_eq [OF assms(2)] agree_one(1) [OF assms(4)]
      by (auto simp: z_chunk_forward_def chunk_result_def yes_no_def)
  next
    case (K_pat ts)
    show ?thesis
    proof (cases j)
      case K_one
      then show ?thesis using x y K_pat chunk_end_eq [OF assms(1)] agree_one(2) [OF assms(3)]
        by (auto simp: z_chunk_forward_def chunk_result_def yes_no_def agree_def)
    next
      case j: (K_pat us)
      have "chunk_result (cfits letter i ts us) (lb + length (spell ts)) (rb + length (spell us)) (forward_loop i l lke r rke lb rb)"
        using forward_loop_eq [of l lb lke ts r rb rke us letter i] assms K_pat j clean_pat by simp
      then show ?thesis using x y K_pat j agree_pat [of ts us i] assms(3,4) by (auto simp: z_chunk_forward_def)
    qed (use assms(4) in simp)
  qed (use assms(3) in simp)
qed

lemma last_char:
  assumes "chunk_before s b e (spell_chunk k)" "clean k"
  shows "\<exists>x. arr_get s (e - 1) = Some x \<and> superwild_backward (x = CHR ''*'') s b e = Some (k = K_many) \<and>
    (k \<noteq> K_many \<longrightarrow> wild_backward (x = CHR ''*'') s b e = Some (k = K_one))"
proof (cases k)
  case K_one
  then have "arr_get s (e - 1) = Some CHR ''*''" "chunk_before s b (e - 1) []" "b < e"
    using assms(1) chunk_before_snoc [of s b e "[]" "CHR ''*''"] by auto
  then show ?thesis using K_one chunk_before_nil [of s b "e - 1"]
    by (auto simp: superwild_backward_def wild_backward_def numeral_2_eq_2)
next
  case K_many
  then have c: "arr_get s (e - 1) = Some CHR ''*''" "chunk_before s b (e - 1) ''*''" "b < e"
    using assms(1) chunk_before_snoc [of s b e "''*''" "CHR ''*''"] by auto
  then have "arr_get s (e - 2) = Some CHR ''*''" "b < e - 1" using chunk_before_snoc [of s b "e - 1" "[]" "CHR ''*''"] by (auto simp: numeral_2_eq_2)
  then show ?thesis using K_many c by (auto simp: superwild_backward_def)
next
  case (K_pat ts)
  then obtain t us where ts: "ts = us @ [t]" using clean_pat assms(2) by (cases ts rule: rev_cases) auto
  then have p: "proper letter (us @ [t])" using clean_pat assms(2) K_pat by blast
  show ?thesis
  proof (cases t)
    case None
    then have c: "chunk_before s b e ((spell us @ ''$'') @ ''*'')" using assms(1) K_pat ts by simp
    then have "arr_get s (e - 1) = Some CHR ''*''" "chunk_before s b (e - 1) (spell us @ ''$'')" "b < e" using chunk_before_snoc [OF c] by auto
    moreover from this have "arr_get s (e - 2) = Some CHR ''$''" "b < e - 1"
      using chunk_before_snoc [of s b "e - 1" "spell us" "CHR ''$''"] by (auto simp: numeral_2_eq_2)
    ultimately show ?thesis using K_pat by (auto simp: superwild_backward_def wild_backward_def)
  next
    case (Some a)
    then have "a \<noteq> CHR ''*''" "arr_get s (e - 1) = Some a"
      using assms(1) K_pat ts proper_last [of letter us a] p chunk_before_snoc [of s b e "spell us" a] by (auto simp: plain_def)
    then show ?thesis using K_pat by (auto simp: superwild_backward_def wild_backward_def)
  qed
qed

lemma chunk_backward_many:
  assumes "chunk_before l lb le (spell_chunk k)" "chunk_before r rb re (spell_chunk j)" "clean k" "clean j"
  shows "k = K_many \<Longrightarrow> z_chunk_backward i l lb le r rb re = Some (Left_superwild, 0, 0)"
    and "k \<noteq> K_many \<Longrightarrow> j = K_many \<Longrightarrow> z_chunk_backward i l lb le r rb re = Some (if i then Right_superwild else Match_no, 0, 0)"
  using last_char [OF assms(1,3)] last_char [OF assms(2,4)] by (auto simp: z_chunk_backward_def)

lemma chunk_first_no_at:
  assumes "chunk_before s b e (spell_chunk k)" "clean k"
  shows "\<exists>c. arr_get s (e - length (spell_chunk k)) = Some c \<and> c \<noteq> CHR ''@''"
proof -
  have "spell_chunk k \<noteq> []" "no_at (spell_chunk k)" using assms(2) spell_chunk_plain [of k] by (simp_all add: clean_def)
  then show ?thesis using first_of [OF conjunct2 [OF chunk_before_piece [OF assms(1)]]] by metis
qed

lemma chunk_backward_eq:
  assumes "chunk_before l lb le (spell_chunk k)" "chunk_before r rb re (spell_chunk j)" "solid k" "solid j"
  shows "chunk_result (ke_agree i k j) (le - length (spell_chunk k)) (re - length (spell_chunk j)) (z_chunk_backward i l lb le r rb re)"
proof -
  obtain x where x: "arr_get l (le - 1) = Some x" "superwild_backward (x = CHR ''*'') l lb le = Some False"
      "wild_backward (x = CHR ''*'') l lb le = Some (k = K_one)"
    using last_char [OF assms(1)] assms(3) by auto
  obtain y where y: "arr_get r (re - 1) = Some y" "superwild_backward (y = CHR ''*'') r rb re = Some False"
      "wild_backward (y = CHR ''*'') r rb re = Some (j = K_one)"
    using last_char [OF assms(2)] assms(4) by auto
  obtain c where c: "arr_get l (le - length (spell_chunk k)) = Some c" "c \<noteq> CHR ''@''" using chunk_first_no_at [OF assms(1)] assms(3) by auto
  obtain d where d: "arr_get r (re - length (spell_chunk j)) = Some d" "d \<noteq> CHR ''@''" using chunk_first_no_at [OF assms(2)] assms(4) by auto
  show ?thesis
  proof (cases k)
    case K_one
    then show ?thesis using x y d chunk_begin_eq [OF assms(2)] agree_one(1) [OF assms(4)]
      by (auto simp: z_chunk_backward_def chunk_result_def yes_no_def)
  next
    case (K_pat ts)
    show ?thesis
    proof (cases j)
      case K_one
      then show ?thesis using x y c K_pat chunk_begin_eq [OF assms(1)] agree_one(2) [OF assms(3)]
        by (auto simp: z_chunk_backward_def chunk_result_def yes_no_def agree_def)
    next
      case j: (K_pat us)
      have "chunk_result (cfits letter i ts us) (le - length (spell ts)) (re - length (spell us)) (backward_chars i l lb r rb le re)"
        using backward_chars_eq [of l lb le ts r rb re us letter i] assms K_pat j clean_pat by simp
      then show ?thesis using x y K_pat j agree_pat [of ts us i] assms(3,4) by (auto simp: z_chunk_backward_def)
    qed (use assms(4) in simp)
  qed (use assms(3) in simp)
qed

end
