(* ===== verification/ZKeyMatchProps.thy ===== *)
theory ZKeyMatchProps
  imports ZKeyMatch ZKeyexprProps
begin

text \<open>
  Where the matching of key expressions (\<open>ZKeyMatch\<close>) goes wrong: it may not end when one side has three double stars, reads
  past a canonical key expression that ends with a dollar, and takes an at sign anywhere for the mark of a verbatim chunk.
\<close>

lemma special_loop_stays:
  assumes "lb < le" "special_turn isect l lb le r rb re = Some (Some (lb, rb))"
  shows "special_loop isect l le r re lb rb = None"
proof -
  have "\<not> (lb < le \<and> special_turn isect l lb le r rb re = Some (Some (lb, rb)))" if "special_loop isect l le r re lb rb = Some y" for y
    by (rule special_loop.raw_induct [where P = "\<lambda>isect l le r re lb rb y. \<not> (lb < le \<and> special_turn isect l lb le r rb re = Some (Some (lb, rb)))", OF _ that])
       (auto split: if_splits)
  then show ?thesis using assms by (cases "special_loop isect l le r re lb rb") auto
qed

theorem intersects_hangs:
  "special_turn True ''**/a/**/b/**'' 5 9 ''a/b'' 2 3 = Some (Some (5, 2)) \<and>
   z_keyexpr_intersects ''**/a/**/b/**'' ''a/b'' = None"
proof -
  have s: "special_turn True ''**/a/**/b/**'' 3 9 ''a/b'' 0 3 = Some (Some (5, 2))" "special_turn True ''**/a/**/b/**'' 5 9 ''a/b'' 2 3 = Some (Some (5, 2))" by code_simp+
  have l: "special_loop True ''**/a/**/b/**'' 9 ''a/b'' 3 3 0 = None"
    by (subst special_loop.simps, simp only: s, simp) (rule special_loop_stays, simp, rule s)
  have c: "z_keyexpr_get_next_double_star_chunk ''a/b'' 0 3 = Some None"
     "z_chunk_forward True ''**/a/**/b/**'' 0 12 ''a/b'' 0 3 = Some (Left_superwild, 0, 0)"
     "z_chunk_backward True ''**/a/**/b/**'' 3 12 ''a/b'' 0 3 = Some (Left_superwild, 0, 0)"
     "z_keyexpr_get_next_verbatim_chunk ''**/a/**/b/**'' 0 12 = Some None"
     "z_keyexpr_get_next_verbatim_chunk ''a/b'' 0 3 = Some None" by code_simp+
  have p: "forward_plain True ''**/a/**/b/**'' 0 12 ''a/b'' 0 3 = None"
    unfolding forward_plain_def by (subst forward_match.simps) (simp add: c, subst backward_match.simps, simp add: c z_keyexpr_special_def l)
  have q: "z_keyexpr_parts True ''**/a/**/b/**'' 0 12 ''a/b'' 0 3 = None"
    unfolding z_keyexpr_parts_def by (subst parts_loop.simps) (simp add: c p)
  have f: "z_keyexpr_forward True ''**/a/**/b/**'' 0 12 ''a/b'' 0 3 True = None"
    unfolding z_keyexpr_forward_def by (subst forward_match.simps) (simp add: c, subst backward_match.simps, simp add: c q)
  have "length ''**/a/**/b/**'' = 12" "length ''a/b'' = 3" by (simp_all add: eval_nat_numeral)
  then have "z_keyexpr_intersects ''**/a/**/b/**'' ''a/b'' = None" using f by (simp only: z_keyexpr_intersects_def) simp
  then show ?thesis using s by blast
qed

theorem accepted_and_unsafe:
  "z_keyexpr_is_canon ''a/$'' = CANON_SUCCESS \<and> z_keyexpr_intersects ''a/$'' ''a/b'' = None"
proof -
  have c: "z_chunk_forward True ''a/$'' 0 3 ''a/b'' 0 3 = Some (Match_yes, 1, 1)" by code_simp
  have d: "z_chunk_forward True ''a/$'' 2 3 ''a/b'' 2 3 = None"
    by (simp add: z_chunk_forward_def forward_loop.simps superwild_def z_chunk_forward_backward_def z_chunk_end_def mem_chr_def size_sub_def)
  have f: "z_keyexpr_forward True ''a/$'' 0 3 ''a/b'' 0 3 True = None"
    unfolding z_keyexpr_forward_def by (subst forward_match.simps) (simp add: c, subst forward_match.simps, simp add: d [unfolded numeral_2_eq_2])
  have "length ''a/$'' = 3" "length ''a/b'' = 3" by (simp_all add: eval_nat_numeral)
  then have "z_keyexpr_intersects ''a/$'' ''a/b'' = None" using f by (simp add: z_keyexpr_intersects_def str_equal_def numeral_3_eq_3)
  moreover have "z_keyexpr_is_canon ''a/$'' = CANON_SUCCESS" by code_simp
  ultimately show ?thesis by blast
qed

theorem verbatim_anywhere:
  "z_keyexpr_intersects ''**'' ''a@b'' = Some False \<and> z_keyexpr_intersects ''*'' ''a@b'' = Some True"
  by code_simp

text \<open>An inclusion that does not hold: the key \<open>x/ac@b/y\<close> has no chunk \<open>aa@b\<close>.\<close>

theorem includes_unsound_at:
  "z_keyexpr_includes ''**/aa@b/**'' ''x/ac@b/y'' = Some True \<and> \<not> z_keyexpr_includes ''**/aa/**'' ''x/ac/y'' = Some True"
  by code_simp

end
