(* ===== verification/ZKeyCorrect.thy ===== *)
theory ZKeyCorrect
  imports ZKeyBack ZKeyMatchProps
begin

text \<open>
  The matching of whole key expressions: intersection and inclusion are what the languages of the key expressions say, for key expressions
  without chunks that begin with \<open>@\<close> and with at most two double stars each.
\<close>

section \<open>Rows of chunks\<close>

fun gap :: "ke_chunk \<Rightarrow> ke_chunk option" where
  "gap K_many = None"
| "gap k = Some k"

lemma gap_iff [simp]: "gap k = None \<longleftrightarrow> k = K_many" "None = gap k \<longleftrightarrow> k = K_many" "gap k = Some j \<longleftrightarrow> k = j \<and> j \<noteq> K_many"
  "Some j = gap k \<longleftrightarrow> k = j \<and> j \<noteq> K_many"
  by (cases k; auto)+

text \<open>A part of a canonical key expression.\<close>

definition row :: "ke_chunk list \<Rightarrow> bool" where
  "row ks \<longleftrightarrow> (\<forall>k\<in>set ks. clean k) \<and> stars_apart ks"

abbreviation kfits :: "bool \<Rightarrow> ke_chunk list \<Rightarrow> ke_chunk list \<Rightarrow> bool" where
  "kfits i ks js \<equiv> fits word chunk_accepts chunk_covers i (map gap ks) (map gap js)"

abbreviation "ke_fine \<equiv> fine (\<lambda>k. clean k \<and> k \<noteq> K_many)"

lemma row_fine: "row ks \<Longrightarrow> ke_fine (map gap ks)"
  by (auto simp: row_def fine_def dest: sym)

lemma stars_apart_cons: "stars_apart (k # ks) \<longleftrightarrow> (k = K_many \<longrightarrow> ks = [] \<or> hd ks \<noteq> K_one \<and> hd ks \<noteq> K_many) \<and> stars_apart ks"
  by (cases k; cases ks) auto

lemma stars_apart_append: "stars_apart (ks @ js) \<Longrightarrow> stars_apart ks \<and> stars_apart js"
  by (induction ks) (auto simp: stars_apart_cons hd_append split: if_splits)

lemma row_append: "row (ks @ js) \<Longrightarrow> row ks \<and> row js"
  using stars_apart_append [of ks js] by (auto simp: row_def)

lemma row_cons: "row (k # ks) \<Longrightarrow> clean k \<and> row ks"
  by (simp add: row_def stars_apart_cons)

lemma row_many: "row (K_many # ks) \<Longrightarrow> ks = [] \<or> hd ks \<noteq> K_many"
  by (cases ks) (auto simp: row_def)

lemma only_many: "row ks \<Longrightarrow> (\<forall>t\<in>set (map gap ks). t = None) \<longleftrightarrow> ks = [] \<or> ks = [K_many]"
  using row_many by (cases ks; cases "tl ks") (auto simp: row_def)

lemma spell_key_cons: "spell_key (k # ks) = spell_chunk k @ (if ks = [] then [] else CHR ''/'' # spell_key ks)"
  by (cases ks) (simp_all add: spell_key_def)

lemma spell_key_snoc: "spell_key (ks @ [k]) = (if ks = [] then [] else spell_key ks @ ''/'') @ spell_chunk k"
proof (induction ks)
  case (Cons a ks)
  then show ?case by (cases ks) (simp_all add: spell_key_cons)
qed (simp add: spell_key_def)

lemma spell_key_nonempty: "row ks \<Longrightarrow> ks \<noteq> [] \<Longrightarrow> spell_key ks \<noteq> []"
  using spell_chunk_plain by (cases ks) (auto simp: spell_key_cons row_def clean_def)

lemma no_at_key: "row ks \<Longrightarrow> no_at (spell_key ks)"
proof (induction ks)
  case (Cons k ks)
  then show ?case using row_cons [of k ks] by (auto simp: spell_key_cons clean_def)
qed (simp add: spell_key_def)

lemma clean_no_slash: "clean k \<Longrightarrow> CHR ''/'' \<notin> set (spell_chunk k)"
  using spell_chunk_plain by (simp add: clean_def)

section \<open>Positions\<close>

text \<open>What is left of a key expression that ends at \<open>e\<close>; when nothing is left the position is behind the end.\<close>

definition rest_at :: "string \<Rightarrow> nat \<Rightarrow> nat \<Rightarrow> ke_chunk list \<Rightarrow> bool" where
  "rest_at s b e ks \<longleftrightarrow> (if ks = [] then b = e + 1 else piece s b e (spell_key ks))"

lemma rest_lt: "rest_at s b e ks \<Longrightarrow> row ks \<Longrightarrow> b < e \<longleftrightarrow> ks \<noteq> []"
  using piece_end [of s b e "spell_key ks"] spell_key_nonempty [of ks] by (cases "ks = []") (auto simp: rest_at_def)

lemma rest_cons:
  assumes "rest_at s b e (k # ks)" "row (k # ks)"
  shows "chunk_at s b e (spell_chunk k)" "rest_at s (b + length (spell_chunk k) + 1) e ks" "b + length (spell_chunk k) \<le> e"
    "b + length (spell_chunk k) = e \<longleftrightarrow> ks = []"
proof -
  have p: "piece s b e (spell_chunk k @ (if ks = [] then [] else CHR ''/'' # spell_key ks))"
    using assms(1) by (simp add: rest_at_def spell_key_cons)
  then show "chunk_at s b e (spell_chunk k)"
    using row_cons [OF assms(2)] clean_no_slash unfolding chunk_at_def boundary_def by (metis list.sel(1))
  show "rest_at s (b + length (spell_chunk k) + 1) e ks" "b + length (spell_chunk k) \<le> e" "b + length (spell_chunk k) = e \<longleftrightarrow> ks = []"
    using p piece_end [OF p] by (auto simp: rest_at_def piece_append piece_cons)
qed

lemma rest_snoc:
  assumes "rest_at s b e (ks @ [k])" "row (ks @ [k])"
  shows "chunk_before s b e (spell_chunk k)" "b + length (spell_chunk k) \<le> e" "e - length (spell_chunk k) = b \<longleftrightarrow> ks = []"
    "ks \<noteq> [] \<Longrightarrow> rest_at s b (e - length (spell_chunk k) - 1) ks"
proof -
  have p: "piece s b e ((if ks = [] then [] else spell_key ks @ ''/'') @ spell_chunk k)"
    using assms(1) by (simp add: rest_at_def spell_key_snoc)
  moreover have "back_boundary (if ks = [] then [] else spell_key ks @ ''/'')" by (simp add: back_boundary_def)
  ultimately show c: "chunk_before s b e (spell_chunk k)"
    using row_append [OF assms(2)] row_cons [of k "[]"] clean_no_slash unfolding chunk_before_def by metis
  show "b + length (spell_chunk k) \<le> e" "e - length (spell_chunk k) = b \<longleftrightarrow> ks = []" using piece_end [OF p] by auto
  assume ks: "ks \<noteq> []"
  then have e: "e - length (spell_chunk k) - 1 = b + length (spell_key ks)" using piece_end [OF p] by simp
  show "rest_at s b (e - length (spell_chunk k) - 1) ks"
    unfolding e using p ks by (simp add: rest_at_def piece_append)
qed

lemma is_double_star_eq:
  assumes "rest_at s b e ks" "row ks" "ks \<noteq> []"
  shows "z_keyexpr_is_double_star s b e = Some (ks = [K_many])"
proof -
  have p: "piece s b e (spell_key ks)" using assms(1,3) by (simp add: rest_at_def)
  have k: "spell_key ks = ''**'' \<longleftrightarrow> ks = [K_many]"
  proof
    assume a: "spell_key ks = ''**''"
    obtain k js where ks: "ks = k # js" using assms(3) by (cases ks) auto
    then have "clean k" using row_cons assms(2) by blast
    moreover have "CHR ''/'' \<notin> set (spell_key ks)" using a by simp
    ultimately have "js = []" "spell_chunk k = ''**''" using a ks by (auto simp: spell_key_cons split: if_splits)
    then show "ks = [K_many]" using ks \<open>clean k\<close> spell_no_star by (cases k) (auto simp: clean_def)
  qed (simp add: spell_key_def)
  have l: "size_sub e b = length (spell_key ks)" using piece_end [OF p] by simp
  show ?thesis
  proof (cases "length (spell_key ks) = 2")
    case True
    then obtain x y where xy: "spell_key ks = [x, y]" by (metis One_nat_def Suc_1 length_0_conv length_Suc_conv)
    then have "arr_get s b = Some x" "arr_get s (Suc b) = Some y" using p by (simp_all add: piece_cons)
    then show ?thesis using l k xy by (auto simp: z_keyexpr_is_double_star_def)
  next
    case False
    then show ?thesis using l k by (auto simp: z_keyexpr_is_double_star_def)
  qed
qed

lemma no_verbatim: "piece s b e w \<Longrightarrow> no_at w \<Longrightarrow> z_keyexpr_get_next_verbatim_chunk s b e = Some None"
  using mem_chr_piece [of s b e w "CHR ''@''"] piece_end [of s b e w] by (simp add: z_keyexpr_get_next_verbatim_chunk_def)

lemma rest_no_verbatim: "rest_at s b e ks \<Longrightarrow> row ks \<Longrightarrow> ks \<noteq> [] \<Longrightarrow> z_keyexpr_get_next_verbatim_chunk s b e = Some None"
  using no_verbatim no_at_key by (auto simp: rest_at_def)

lemma match_end_eq:
  assumes "rest_at l lb le ks" "rest_at r rb re js" "row ks" "row js" "ks = [] \<or> js = []"
  shows "match_end i l lb le r rb re = Some (kfits i ks js)"
proof -
  have "kfits i ks [] \<longleftrightarrow> ks = [] \<or> ks = [K_many]" "kfits i [] js \<longleftrightarrow> js = [] \<or> i \<and> js = [K_many]"
    using only_many [OF assms(3)] only_many [OF assms(4)] by (auto simp: fits_right_nil fits_left_nil)
  then show ?thesis
    using assms rest_lt [OF assms(1,3)] rest_lt [OF assms(2,4)] is_double_star_eq [OF assms(1,3)] is_double_star_eq [OF assms(2,4)]
    by (cases "ks = []") (auto simp: match_end_def not_less)
qed

section \<open>The search for a double star\<close>

fun two_stars :: "string \<Rightarrow> bool" where
  "two_stars (x # y # w) = (x = CHR ''*'' \<and> y = CHR ''*'' \<or> two_stars (y # w))"
| "two_stars w = False"

lemma two_stars_skip: "CHR ''*'' \<notin> set u \<Longrightarrow> two_stars (u @ w) = two_stars w"
proof (induction u)
  case (Cons x u)
  then show ?case by (cases "u @ w") auto
qed simp

lemma two_stars_one: "y \<noteq> CHR ''*'' \<Longrightarrow> two_stars (x # y # w) = two_stars w"
  by (cases w) auto

lemma two_stars_slash: "two_stars (u @ CHR ''/'' # w) \<longleftrightarrow> two_stars u \<or> two_stars w"
  by (induction u rule: two_stars.induct) (cases w; auto)+

lemma two_stars_spell: "plain_pat ts \<Longrightarrow> \<not> two_stars (spell ts) \<and> \<not> two_stars (CHR ''*'' # spell ts)"
proof (induction ts rule: spell.induct)
  case (2 c ts)
  then show ?case by (cases "spell ts") (auto simp: plain_def)
qed auto

lemma two_stars_key: "row ks \<Longrightarrow> two_stars (spell_key ks) \<longleftrightarrow> K_many \<in> set ks"
proof (induction ks)
  case (Cons k ks)
  have "two_stars (spell_chunk k) \<longleftrightarrow> k = K_many"
    using two_stars_spell row_cons [OF Cons.prems] by (cases k) (auto simp: clean_def)
  then show ?case using Cons.IH row_cons [OF Cons.prems] by (cases ks) (auto simp: spell_key_cons two_stars_slash)
qed (simp add: spell_key_def)

lemma next_double_star:
  "piece s b e w \<Longrightarrow> \<exists>c. z_keyexpr_get_next_double_star_chunk s b e = Some c \<and> (c \<noteq> None \<longleftrightarrow> two_stars w)"
proof (induction "length w" arbitrary: w b rule: less_induct)
  case less
  have e: "e = b + length w" using piece_end [OF less.prems] by simp
  show ?case
  proof (cases "b + 1 < e")
    case False
    then have "length w \<le> 1" using e by simp
    then have "\<not> two_stars w" by (cases w rule: two_stars.cases) auto
    then show ?thesis using False by (subst z_keyexpr_get_next_double_star_chunk.simps) simp
  next
    case True
    then obtain v z where w: "w = v @ [z]" using e by (cases w rule: rev_cases) auto
    then have v: "piece s b (e - 1) v" using less.prems by (simp add: piece_snoc)
    have m: "mem_chr s b CHR ''*'' (e - b - 1) =
        Some (if CHR ''*'' \<in> set v then Some (b + length (takeWhile (\<lambda>y. y \<noteq> CHR ''*'') v)) else None)"
      using mem_chr_piece [OF v] by (simp add: diff_commute)
    show ?thesis
    proof (cases "CHR ''*'' \<in> set v")
      case False
      then have "two_stars w = two_stars [z]" using two_stars_skip [of v "[z]"] w by simp
      then show ?thesis using True False m by (subst z_keyexpr_get_next_double_star_chunk.simps) simp
    next
      case star: True
      then obtain u v' where u: "v = u @ CHR ''*'' # v'" "CHR ''*'' \<notin> set u" using split_list_first by metis
      obtain y w' where y: "v' @ [z] = y # w'" by (cases "v' @ [z]") auto
      have ws: "w = (u @ [CHR ''*'', y]) @ w'" using w u y by simp
      have k: "length (takeWhile (\<lambda>y. y \<noteq> CHR ''*'') v) = length u" using takeWhile_part [of "CHR ''*''" u v'] u by simp
      have p: "arr_get s (b + length u + 1) = Some y" "piece s (b + length u + 2) e w'"
        using less.prems unfolding ws by (auto simp: piece_append piece_cons)
      have t: "two_stars w \<longleftrightarrow> y = CHR ''*'' \<or> two_stars w'"
        using two_stars_skip [OF u(2), of "CHR ''*'' # y # w'"] two_stars_one [of y "CHR ''*''" w'] ws by auto
      show ?thesis
      proof (cases "y = CHR ''*''")
        case True
        then show ?thesis using \<open>b + 1 < e\<close> m star k p t by (subst z_keyexpr_get_next_double_star_chunk.simps) simp
      next
        case False
        have "length w' < length w" using ws by simp
        from less.hyps [OF this p(2)] show ?thesis using False \<open>b + 1 < e\<close> m star k p t
          by (subst z_keyexpr_get_next_double_star_chunk.simps) simp
      qed
    qed
  qed
qed

section \<open>The part between two double stars\<close>

abbreviation "ke_lit i \<equiv> lit (ke_agree i)"

lemma seek_short: "length w < length as \<Longrightarrow> seek R as w = None"
  by (subst seek.simps) simp

lemma chunk_forward_symbol:
  assumes "rest_at l lb le (k # ks)" "rest_at r rb re (j # js)" "row (k # ks)" "row (j # js)" "k \<noteq> K_many" "i \<longrightarrow> j \<noteq> K_many"
  shows "\<exists>res x y. z_chunk_forward i l lb le r rb re = Some (res, x, y) \<and> (res = Match_yes \<longleftrightarrow> ke_lit i k (gap j)) \<and>
    (res = Match_yes \<longrightarrow> x = lb + length (spell_chunk k) \<and> y = rb + length (spell_chunk j))"
proof -
  note c = rest_cons(1) [OF assms(1,3)] rest_cons(1) [OF assms(2,4)]
  show ?thesis
  proof (cases "j = K_many")
    case True
    then show ?thesis using chunk_forward_many(2) [OF c] row_cons [OF assms(3)] row_cons [OF assms(4)] assms(5,6) by auto
  next
    case False
    then have "ke_lit i k (gap j) = ke_agree i k j" by (cases j) simp_all
    then show ?thesis using chunk_forward_eq [OF c, of i] row_cons [OF assms(3)] row_cons [OF assms(4)] assms(5) False
      by (auto simp: chunk_result_def yes_no_def)
  qed
qed

lemma special_part_eq:
  assumes "row ks" "K_many \<notin> set ks" "rest_at l lb le ks" "ks \<noteq> []"
  shows "ks = ks1 @ ks2 \<Longrightarrow> rest_at l lcb le ks2 \<Longrightarrow> rest_at r rb re (js1 @ js2) \<Longrightarrow> rest_at r rcb re js2 \<Longrightarrow> row (js1 @ js2) \<Longrightarrow>
    i \<longrightarrow> K_many \<notin> set (js1 @ js2) \<Longrightarrow> list_all2 (ke_lit i) ks1 (map gap js1) \<Longrightarrow>
    \<exists>x. special_part i l lb le r re lcb rb rcb = Some (map_option (\<lambda>v. (le + 1, x)) (seek (ke_lit i) ks (map gap (js1 @ js2))))"
proof (induction "length (js1 @ js2) * (length ks + 1) + length ks2" arbitrary: ks1 ks2 js1 js2 lcb rb rcb rule: less_induct)
  case less
  have ks2: "row ks2" "K_many \<notin> set ks2" and js2: "row js2" "i \<longrightarrow> K_many \<notin> set js2"
    using assms(1,2) less.prems(1,5,6) row_append [of ks1 ks2] row_append [of js1 js2] by auto
  have n: "length ks1 = length js1" using less.prems(7) by (auto dest: list_all2_lengthD)
  show ?case
  proof (cases ks2)
    case Nil
    then have "take (length ks) (map gap (js1 @ js2)) = map gap js1" "\<not> length (map gap (js1 @ js2)) < length ks"
      using less.prems(1) n by auto
    then have "seek (ke_lit i) ks (map gap (js1 @ js2)) = Some (drop (length ks) (map gap (js1 @ js2)))"
      using less.prems(1,7) Nil by (subst seek.simps) simp
    then show ?thesis using less.prems(2) Nil by (subst special_part.simps) (simp add: rest_at_def)
  next
    case k: (Cons k ks2')
    have lt: "lcb < le" using rest_lt [OF less.prems(2) ks2(1)] k by simp
    show ?thesis
    proof (cases js2)
      case Nil
      then have "length (map gap (js1 @ js2)) < length ks" using less.prems(1) k n by simp
      then have "seek (ke_lit i) ks (map gap (js1 @ js2)) = None" by (rule seek_short)
      then show ?thesis using lt less.prems(4) Nil by (subst special_part.simps) (simp add: rest_at_def)
    next
      case j: (Cons j js2')
      have "rcb < re" using rest_lt [OF less.prems(4) js2(1)] j by simp
      obtain res x y where f: "z_chunk_forward i l lcb le r rcb re = Some (res, x, y)" "res = Match_yes \<longleftrightarrow> ke_lit i k (gap j)"
          "res = Match_yes \<longrightarrow> x = lcb + length (spell_chunk k) \<and> y = rcb + length (spell_chunk j)"
        using chunk_forward_symbol [of l lcb le k ks2' r rcb re j js2' i] less.prems(2,4) ks2 js2 k j by auto
      show ?thesis
      proof (cases "res = Match_yes")
        case True
        have "\<exists>x. special_part i l lb le r re (lcb + length (spell_chunk k) + 1) rb (rcb + length (spell_chunk j) + 1) =
            Some (map_option (\<lambda>v. (le + 1, x)) (seek (ke_lit i) ks (map gap ((js1 @ [j]) @ js2'))))"
          by (rule less.hyps [of "js1 @ [j]" js2' ks2' "ks1 @ [k]"])
            (use less.prems ks2 js2 k j True f(2) rest_cons(2) [of l lcb le k ks2'] rest_cons(2) [of r rcb re j js2'] in
              \<open>auto intro: list_all2_appendI\<close>)
        then show ?thesis using lt \<open>rcb < re\<close> f True j by (subst special_part.simps) simp
      next
        case False
        obtain h hs where h: "js1 @ js2 = h # hs" using j by (cases "js1 @ js2") auto
        have r: "rest_at r rb re (h # hs)" "row (h # hs)" using less.prems(3,5) h by simp_all
        have e: "z_chunk_end r rb re = Some (rb + length (spell_chunk h))" using chunk_end_eq rest_cons(1) [OF r] by blast
        have "\<exists>x. special_part i l lb le r re lb (rb + length (spell_chunk h) + 1) (rb + length (spell_chunk h) + 1) =
            Some (map_option (\<lambda>v. (le + 1, x)) (seek (ke_lit i) ks (map gap ([] @ hs))))"
          by (rule less.hyps [of "[]" hs ks "[]"]) (use less.prems(6) h r rest_cons(2) [OF r] row_cons [OF r(2)] assms in auto)
        moreover have "seek (ke_lit i) ks (map gap (h # hs)) = seek (ke_lit i) ks (map gap hs)"
        proof (cases "length ks \<le> length (h # hs)")
          case True
          have "\<not> list_all2 (ke_lit i) ks (take (length ks) (map gap (h # hs)))"
          proof
            assume a: "list_all2 (ke_lit i) ks (take (length ks) (map gap (h # hs)))"
            have js1: "length js1 < length ks" "length js1 < length (h # hs)" using less.prems(1) k n j by (simp, simp flip: h)
            have "ks ! length js1 = k" "(h # hs) ! length js1 = j"
              using less.prems(1) k j n h by (simp_all add: nth_append flip: h)
            moreover from this js1 have "map gap (h # hs) ! length js1 = gap j" by (subst nth_map) simp_all
            ultimately have "ke_lit i k (gap j)" using list_all2_nthD [OF a, of "length js1"] True js1 by (simp del: list.map)
            then show False using False f(2) by blast
          qed
          then show ?thesis using True by (subst seek.simps) simp
        qed (simp add: seek_short)
        ultimately show ?thesis using lt \<open>rcb < re\<close> f False e h by (subst special_part.simps) simp
      qed
    qed
  qed
qed

lemma glob_both_ends: "glob R (None # map Some as @ [None]) w \<longleftrightarrow> seek R as w \<noteq> None"
  using glob_seek [of R as "[]" w] by (auto split: option.splits)

lemma map_gap_some: "K_many \<notin> set ks \<Longrightarrow> map gap ks = map Some ks"
proof (induction ks)
  case (Cons k ks)
  then show ?case by (cases k) auto
qed simp

lemma keyexpr_special_eq:
  assumes "rest_at l lb le ks" "row ks" "ks \<noteq> []" "K_many \<notin> set ks" "rest_at r rb re js" "row js" "js \<noteq> []"
  shows "z_keyexpr_special i l lb le r rb re = Some (kfits i (K_many # ks @ [K_many]) js)"
proof -
  have free: "gap_free (map gap js) \<longleftrightarrow> K_many \<notin> set js" by (auto simp: gap_free_def)
  have eq: "kfits i (K_many # ks @ [K_many]) js \<longleftrightarrow> i \<and> K_many \<in> set js \<or> seek (ke_lit i) ks (map gap js) \<noteq> None"
    using key_chunks.fits_special [OF row_fine [OF assms(2)] row_fine [OF assms(6)], of chunk_covers i]
    by (simp add: free glob_both_ends map_gap_some [OF assms(4)])
  obtain c where c: "z_keyexpr_get_next_double_star_chunk r rb re = Some c" "c \<noteq> None \<longleftrightarrow> K_many \<in> set js"
    using next_double_star [of r rb re "spell_key js"] two_stars_key [OF assms(6)] assms(5,7) by (auto simp: rest_at_def)
  have d: "z_keyexpr_get_next_double_star_chunk l lb le = Some None"
    using next_double_star [of l lb le "spell_key ks"] two_stars_key [OF assms(2)] assms(1,3,4) by (auto simp: rest_at_def)
  show ?thesis
  proof (cases "i \<and> K_many \<in> set js")
    case True
    then show ?thesis using c eq by (simp add: z_keyexpr_special_def)
  next
    case False
    obtain x where x: "special_part i l lb le r re lb rb rb = Some (map_option (\<lambda>v. (le + 1, x)) (seek (ke_lit i) ks (map gap js)))"
      using special_part_eq [OF assms(2,4,1,3), of "[]" ks lb r rb re "[]" js rb i] assms(1,5,6) False by auto
    have "lb < le" using rest_lt [OF assms(1,2)] assms(3) by simp
    then have "special_loop i l le r re lb rb = Some (seek (ke_lit i) ks (map gap js) \<noteq> None)"
      using x d by (subst special_loop.simps) (auto simp: special_turn_def special_loop.simps [of _ _ le _ _ "Suc le"] split: option.split)
    then show ?thesis using False c eq by (auto simp: z_keyexpr_special_def)
  qed
qed

section \<open>Backward and forward\<close>

definition few_stars :: "ke_chunk list \<Rightarrow> bool" where
  "few_stars ks \<longleftrightarrow> length (filter (\<lambda>k. k = K_many) ks) \<le> 2"

text \<open>What is asked of the function for key expressions with verbatim chunks.\<close>

definition parts_ok :: "bool \<Rightarrow> (string \<Rightarrow> nat \<Rightarrow> nat \<Rightarrow> string \<Rightarrow> nat \<Rightarrow> nat \<Rightarrow> bool option) \<Rightarrow> bool" where
  "parts_ok i parts \<longleftrightarrow>
     (\<forall>l lb le r rb re ks js. rest_at l lb le ks \<longrightarrow> rest_at r rb re js \<longrightarrow> row ks \<longrightarrow> row js \<longrightarrow> ks \<noteq> [] \<longrightarrow> js \<noteq> [] \<longrightarrow>
        few_stars ks \<longrightarrow> few_stars js \<longrightarrow> parts l lb le r rb re = Some (kfits i ks js))"

lemma kfits_snoc: "k \<noteq> K_many \<Longrightarrow> j \<noteq> K_many \<Longrightarrow> kfits i (ks @ [k]) (js @ [j]) \<longleftrightarrow> ke_agree i k j \<and> kfits i ks js"
  using fits_snoc [of word chunk_accepts chunk_covers i "map gap ks" k "map gap js" j] by (cases k; cases j) auto

lemma kfits_cons: "k \<noteq> K_many \<Longrightarrow> j \<noteq> K_many \<Longrightarrow> kfits i (k # ks) (j # js) \<longleftrightarrow> ke_agree i k j \<and> kfits i ks js"
  by (cases k; cases j) auto

lemma kfits_many: "row js \<Longrightarrow> kfits i [K_many] js"
  using key_chunks.fits_gap [OF row_fine] by simp

lemma kfits_ends: "row ks \<Longrightarrow> row js \<Longrightarrow> kfits True (K_many # ks) (js @ [K_many])"
  using key_chunks.fits_ends [OF row_fine row_fine] by simp

lemma kfits_right_many: "k \<noteq> K_many \<Longrightarrow> \<not> kfits False (ks @ [k]) (js @ [K_many])"
  using fits_snoc_none [of word chunk_accepts chunk_covers "map gap ks" k "map gap js"] by (cases k) auto

lemma backward_match_eq:
  assumes v: "v \<longrightarrow> parts_ok i parts"
  shows "rest_at l lb le ks \<Longrightarrow> rest_at r rb re js \<Longrightarrow> rest_at l (lb - 3) le (K_many # ks) \<Longrightarrow> row (K_many # ks) \<Longrightarrow> row js \<Longrightarrow>
    ks \<noteq> [] \<Longrightarrow> js \<noteq> [] \<Longrightarrow> few_stars (K_many # ks) \<Longrightarrow> few_stars js \<Longrightarrow>
    backward_match parts i l lb r rb v le re = Some (kfits i (K_many # ks) js)"
proof (induction "length ks" arbitrary: ks js le re rule: less_induct)
  case less
  have lt: "lb < le" "rb < re"
    using rest_lt [OF less.prems(1)] rest_lt [OF less.prems(2)] less.prems(4-7) row_cons by auto
  obtain ks' k where ks: "ks = ks' @ [k]" using less.prems(6) by (cases ks rule: rev_cases) auto
  obtain js' j where js: "js = js' @ [j]" using less.prems(7) by (cases js rule: rev_cases) auto
  have row: "row (ks' @ [k])" "row (js' @ [j])" "row (K_many # ks')"
    using less.prems(4,5) ks js row_cons [of K_many ks] row_append [of "K_many # ks'" "[k]"] by auto
  then have row': "row ks'" "row js'" "clean k" "clean j" using row_append row_cons by blast+
  note sl = rest_snoc [OF less.prems(1) [unfolded ks] row(1)] and sr = rest_snoc [OF less.prems(2) [unfolded js] row(2)]
  have first: "ks' \<noteq> [] \<Longrightarrow> hd ks' \<noteq> K_many" using row_many [OF row(3)] by blast
  have parts: "v \<Longrightarrow> parts l (lb - 3) le r rb re = Some (kfits i (K_many # ks) js)"
    using v less.prems unfolding parts_ok_def by blast
  show ?case
  proof (cases "k = K_many")
    case True
    have ks': "ks' \<noteq> []" using row_many [OF less.prems(4)] True ks by (cases ks') auto
    have "filter (\<lambda>k. k = K_many) ks' = []" using less.prems(8) ks True by (simp add: few_stars_def)
    then have "K_many \<notin> set ks'" by (auto simp: filter_empty_conv)
    moreover have "le - length (spell_chunk k) - 1 = le - 3" using True by simp
    then have "rest_at l lb (le - 3) ks'" using sl(4) [OF ks'] by (simp only:)
    ultimately have "z_keyexpr_special i l lb (le - 3) r rb re = Some (kfits i (K_many # ks) js)"
      using keyexpr_special_eq [of l lb "le - 3" ks' r rb re js i] row' ks' less.prems(2,5,7) ks True by simp
    then show ?thesis using lt chunk_backward_many(1) [OF sl(1) sr(1) row'(3,4) True, of i] parts
      by (subst backward_match.simps) simp
  next
    case k: False
    show ?thesis
    proof (cases "j = K_many")
      case True
      have "i \<Longrightarrow> kfits i (K_many # ks) js" using kfits_ends [of ks js'] row(1) row'(2) ks js True by simp
      moreover have "\<not> i \<Longrightarrow> \<not> kfits i (K_many # ks) js" using kfits_right_many [OF k, of "K_many # ks'" js'] ks js True by simp
      ultimately show ?thesis using lt chunk_backward_many(2) [OF sl(1) sr(1) row'(3,4) k True, of i] parts
        by (subst backward_match.simps) (cases i; simp)
    next
      case j: False
      obtain x y where f: "z_chunk_backward i l lb le r rb re = Some (yes_no (ke_agree i k j), x, y)"
          "ke_agree i k j \<longrightarrow> x = le - length (spell_chunk k) \<and> y = re - length (spell_chunk j)"
        using chunk_backward_eq [OF sl(1) sr(1), of i] row' k j by (auto simp: chunk_result_def)
      have step: "kfits i (K_many # ks) js \<longleftrightarrow> ke_agree i k j \<and> kfits i (K_many # ks') js'"
        using kfits_snoc [OF k j, of i "K_many # ks'" js'] ks js by simp
      show ?thesis
      proof (cases "ke_agree i k j")
        case False
        then show ?thesis using lt f step by (subst backward_match.simps) (simp add: yes_no_def)
      next
        case True
        have xy: "x = lb \<longleftrightarrow> ks' = []" "y = rb \<longleftrightarrow> js' = []" using f(2) True sl(3) sr(3) by auto
        consider (left) "ks' = []" | (right) "ks' \<noteq> []" "js' = []" | (more) "ks' \<noteq> []" "js' \<noteq> []" by blast
        then show ?thesis
        proof cases
          case left
          have "js' \<noteq> [] \<Longrightarrow> z_keyexpr_get_next_verbatim_chunk r rb (y - 1) = Some None"
            using rest_no_verbatim [OF sr(4) row'(2)] f(2) True by simp
          then show ?thesis using lt f True xy step left kfits_many [OF row'(2)]
            by (subst backward_match.simps) (auto simp: yes_no_def)
        next
          case right
          have "\<not> kfits i (K_many # ks') []"
            using only_many [OF row(3)] right(1) by (simp add: fits_right_nil)
          then show ?thesis using lt f True xy step right
            by (subst backward_match.simps) (auto simp: yes_no_def)
        next
          case more
          have "rest_at l (lb - 3) (x - 1) (K_many # ks')"
            using rest_snoc(4) [of l "lb - 3" le "K_many # ks'" k] less.prems(3,4) ks f(2) True by simp
          moreover have "few_stars (K_many # ks')" "few_stars js'" using less.prems(8,9) ks js k j by (simp_all add: few_stars_def)
          moreover have "rest_at l lb (x - 1) ks'" "rest_at r rb (y - 1) js'" using sl(4) sr(4) more f(2) True by simp_all
          ultimately have "backward_match parts i l lb r rb v (x - 1) (y - 1) = Some (kfits i (K_many # ks') js')"
            using less.hyps [of ks' "x - 1" "y - 1" js'] ks row row' more by simp
          then show ?thesis using lt f True xy step more
            by (subst backward_match.simps) (auto simp: yes_no_def)
        qed
      qed
    qed
  qed
qed

lemma forward_match_eq:
  assumes v: "v \<longrightarrow> parts_ok i parts"
  shows "rest_at l lb le ks \<Longrightarrow> rest_at r rb re js \<Longrightarrow> row ks \<Longrightarrow> row js \<Longrightarrow> few_stars ks \<Longrightarrow> few_stars js \<Longrightarrow>
    forward_match parts i l le r re v lb rb = Some (kfits i ks js)"
proof (induction ks arbitrary: js lb rb)
  case Nil
  then have "\<not> lb < le" using rest_lt by blast
  then show ?case using match_end_eq [of l lb le "[]" r rb re js i] Nil by (subst forward_match.simps) simp
next
  case (Cons k ks)
  have lb: "lb < le" using rest_lt Cons.prems(1,3) by blast
  show ?case
  proof (cases js)
    case Nil
    then have "\<not> rb < re" using rest_lt Cons.prems(2,4) by blast
    then show ?thesis using match_end_eq [OF Cons.prems(1-4), of i] Nil by (subst forward_match.simps) simp
  next
    case js: (Cons j js')
    have rb: "rb < re" using rest_lt Cons.prems(2,4) js by blast
    note cl = rest_cons [OF Cons.prems(1,3)] and cr = rest_cons [OF Cons.prems(2) [unfolded js] Cons.prems(4) [unfolded js]]
    have row: "clean k" "row ks" "clean j" "row js'" using row_cons Cons.prems(3,4) js by auto
    have nv: "z_keyexpr_get_next_verbatim_chunk l lb le = Some None" "z_keyexpr_get_next_verbatim_chunk r rb re = Some None"
      using rest_no_verbatim Cons.prems(1-4) js by blast+
    show ?thesis
    proof (cases "k = K_many")
      case True
      have f: "z_chunk_forward i l lb le r rb re = Some (Left_superwild, 0, 0)"
        using chunk_forward_many(1) [OF cl(1) cr(1) row(1,3) True] .
      show ?thesis
      proof (cases "ks = []")
        case True
        then show ?thesis using lb rb f nv cl(4) \<open>k = K_many\<close> kfits_many [OF Cons.prems(4), of i] by (subst forward_match.simps) simp
      next
        case False
        have "rest_at l (lb + 3) le ks" using cl(2) True by (simp add: numeral_3_eq_3)
        then have "backward_match parts i l (lb + 3) r rb v le re = Some (kfits i (K_many # ks) js)"
          using backward_match_eq [OF v, of l "lb + 3" le ks r rb re js] Cons.prems True False js by simp
        then show ?thesis using lb rb f cl(4) False True by (subst forward_match.simps) simp
      qed
    next
      case k: False
      show ?thesis
      proof (cases "j = K_many")
        case True
        have f: "z_chunk_forward i l lb le r rb re = Some (if i then Right_superwild else Match_no, 0, 0)"
          using chunk_forward_many(2) [OF cl(1) cr(1) row(1,3) k True] .
        show ?thesis
        proof (cases i)
          case False
          then have "\<not> kfits i (k # ks) js" using js True k by (cases k) auto
          then show ?thesis using lb rb f False by (subst forward_match.simps) simp
        next
          case i: True
          have sw: "kfits True (k # ks) js = kfits True js (k # ks)" by (rule fits_sym)
          show ?thesis
          proof (cases "js' = []")
            case True
            then show ?thesis using lb rb f nv cr(4) i js \<open>j = K_many\<close> kfits_many [OF Cons.prems(3), of i] sw by (subst forward_match.simps) simp
          next
            case False
            have "rest_at r (rb + 3) re js'" using cr(2) True by (simp add: numeral_3_eq_3)
            then have "backward_match parts i r (rb + 3) l lb v re le = Some (kfits i (K_many # js') (k # ks))"
              using backward_match_eq [OF v, of r "rb + 3" re js' l lb le "k # ks"] Cons.prems True False js by simp
            then show ?thesis using lb rb f cr(4) False True i js sw by (subst forward_match.simps) simp
          qed
        qed
      next
        case j: False
        obtain x y where f: "z_chunk_forward i l lb le r rb re = Some (yes_no (ke_agree i k j), x, y)"
            "ke_agree i k j \<longrightarrow> x = lb + length (spell_chunk k) \<and> y = rb + length (spell_chunk j)"
          using chunk_forward_eq [OF cl(1) cr(1), of i] row k j by (auto simp: chunk_result_def)
        have step: "kfits i (k # ks) js \<longleftrightarrow> ke_agree i k j \<and> kfits i ks js'" using kfits_cons [OF k j] js by simp
        show ?thesis
        proof (cases "ke_agree i k j")
          case False
          then show ?thesis using lb rb f step by (subst forward_match.simps) (simp add: yes_no_def)
        next
          case True
          have "few_stars ks" "few_stars js'" using Cons.prems(5,6) js k j by (simp_all add: few_stars_def)
          then have "forward_match parts i l le r re v (x + 1) (y + 1) = Some (kfits i ks js')"
            using Cons.IH [of "x + 1" "y + 1" js'] cl(2) cr(2) row f(2) True by simp
          then show ?thesis using lb rb f True step by (subst forward_match.simps) (simp add: yes_no_def)
        qed
      qed
    qed
  qed
qed

lemma parts_ok: "parts_ok i (z_keyexpr_parts i)"
  unfolding parts_ok_def
proof (intro allI impI)
  fix l r :: string and lb le rb re ks js
  assume a: "rest_at l lb le ks" "rest_at r rb re js" "row ks" "row js" "ks \<noteq> []" "js \<noteq> []" "few_stars ks" "few_stars js"
  have "lb < le" "rb < re" using rest_lt a by blast+
  moreover have "z_keyexpr_get_next_verbatim_chunk l lb le = Some None" "z_keyexpr_get_next_verbatim_chunk r rb re = Some None"
    using rest_no_verbatim a by blast+
  moreover have "forward_match no_parts i l le r re False lb rb = Some (kfits i ks js)" using forward_match_eq [of False] a by simp
  ultimately show "z_keyexpr_parts i l lb le r rb re = Some (kfits i ks js)"
    unfolding z_keyexpr_parts_def by (subst parts_loop.simps) (simp add: forward_plain_def)
qed

lemma keyexpr_forward_eq:
  assumes "row ks" "row js" "ks \<noteq> []" "js \<noteq> []" "few_stars ks" "few_stars js"
  shows "z_keyexpr_forward i (spell_key ks) 0 (length (spell_key ks)) (spell_key js) 0 (length (spell_key js)) True = Some (kfits i ks js)"
proof -
  have "rest_at (spell_key ks) 0 (length (spell_key ks)) ks" "rest_at (spell_key js) 0 (length (spell_key js)) js"
    using assms(3,4) by (simp_all add: rest_at_def piece_def)
  then show ?thesis using forward_match_eq [of True i "z_keyexpr_parts i"] parts_ok assms by (simp add: z_keyexpr_forward_def)
qed

section \<open>Keys\<close>

text \<open>
  A key is a row of nonempty chunks without the special characters, none of them with an at sign in front. A key expression
  matches it chunk by chunk, with any number of chunks for a double star.
\<close>

definition key :: "string list \<Rightarrow> bool" where
  "key ws \<longleftrightarrow> ws \<noteq> [] \<and> (\<forall>w\<in>set ws. w \<noteq> [] \<and> (\<forall>c\<in>set w. plain c) \<and> hd w \<noteq> CHR ''@'')"

definition key_matches :: "ke_chunk list \<Rightarrow> string list \<Rightarrow> bool" where
  "key_matches ks ws = glob chunk_accepts (map gap ks) ws"

text \<open>The key expressions of the theorems.\<close>

definition ke_simple :: "ke_chunk list \<Rightarrow> bool" where
  "ke_simple ks \<longleftrightarrow> ke_ok ks \<and> no_at (spell_key ks) \<and> few_stars ks"

lemma no_at_chunks: "no_at (spell_key ks) \<Longrightarrow> k \<in> set ks \<Longrightarrow> no_at (spell_chunk k)"
proof (induction ks)
  case (Cons a ks)
  then show ?case by (cases ks) (auto simp: spell_key_cons)
qed simp

lemma simple_row: "ke_simple ks \<Longrightarrow> row ks \<and> ks \<noteq> [] \<and> few_stars ks"
  using no_at_chunks by (auto simp: ke_simple_def ke_ok_def row_def clean_def)

lemma meets_key:
  assumes "row ks" "row js" "ks \<noteq> []" "js \<noteq> []"
  shows "kfits True ks js \<longleftrightarrow> (\<exists>ws. key ws \<and> key_matches ks ws \<and> key_matches js ws)"
proof
  have w: "word w \<Longrightarrow> w \<noteq> [] \<and> (\<forall>c\<in>set w. plain c) \<and> hd w \<noteq> CHR ''@''" for w by (cases w) (auto simp: word_def letter_def)
  assume "kfits True ks js"
  then obtain ws where ws: "\<forall>w\<in>set ws. word w" "key_matches ks ws" "key_matches js ws"
    by (auto simp: fits_def meets_def key_matches_def)
  show "\<exists>ws. key ws \<and> key_matches ks ws \<and> key_matches js ws"
  proof (cases "ws = []")
    case True
    then have "ks = [K_many]" "js = [K_many]"
      using ws(2,3) only_many [OF assms(1)] only_many [OF assms(2)] assms(3,4) by (auto simp: key_matches_def glob_nil)
    then show ?thesis by (intro exI [of _ "[''a'']"]) (simp add: key_def key_matches_def plain_def)
  next
    case False
    then have "key ws" using ws(1) w unfolding key_def by blast
    then show ?thesis using ws(2,3) by blast
  qed
next
  assume "\<exists>ws. key ws \<and> key_matches ks ws \<and> key_matches js ws"
  then obtain ws where ws: "key_matches ks ws" "key_matches js ws" by blast
  define f where "f w = (if filter letter w = [] then ''a'' else filter letter w)" for w
  have f: "word (f w)" for w
  proof (cases "filter letter w = []")
    case False
    then show ?thesis unfolding word_def f_def by auto
  qed (simp add: f_def word_def letter_def plain_def)
  have acc: "chunk_accepts k (f w)" if k: "solid k" "chunk_accepts k w" for k w
  proof (cases k)
    case (K_pat ts)
    then have ts: "proper letter ts" "ts \<noteq> []" "ts \<noteq> [None]" using clean_pat k by blast+
    then have "glob (=) ts (filter letter w)" using k(2) K_pat glob_filter [of "(=)" ts w letter] by (auto simp: proper_def fine_def)
    moreover from this have "filter letter w \<noteq> []" using ts only_gaps [of letter ts] by (auto simp: glob_nil)
    ultimately show ?thesis using K_pat by (simp add: f_def)
  qed (use k in simp_all)
  have "glob chunk_accepts (map gap hs) (map f ws)" if "row hs" "key_matches hs ws" for hs
    unfolding glob_map
  proof (rule glob_mono)
    show "glob chunk_accepts (map gap hs) ws" using that(2) by (simp add: key_matches_def)
    show "\<forall>k x. Some k \<in> set (map gap hs) \<longrightarrow> x \<in> set ws \<longrightarrow> chunk_accepts k x \<longrightarrow> chunk_accepts k (f x)"
      using acc row_fine [OF that(1)] by (simp add: fine_def)
  qed
  then have "glob chunk_accepts (map gap ks) (map f ws)" "glob chunk_accepts (map gap js) (map f ws)" using assms ws by blast+
  moreover have "\<forall>w\<in>set (map f ws). word w" using f by simp
  ultimately have "meets word chunk_accepts (map gap ks) (map gap js)" unfolding meets_def by blast
  then show "kfits True ks js" by (simp add: fits_def)
qed

lemma spell_inj: "plain_pat ts \<Longrightarrow> plain_pat us \<Longrightarrow> spell ts = spell us \<Longrightarrow> ts = us"
proof (induction ts arbitrary: us)
  case (Cons t ts)
  have "spell us \<noteq> []" using Cons.prems(3) by (metis list.distinct(1) spell_nil(1))
  then obtain u vs where us: "us = u # vs" by (cases us) auto
  have p: "plain_pat ts" "plain_pat vs" using Cons.prems(1,2) us plain_pat_append [of "[t]" ts] plain_pat_append [of "[u]" vs] by simp_all
  note IH = Cons.IH [OF p]
  show ?case
  proof (cases t; cases u)
    fix c
    assume "t = None" "u = Some c"
    then show ?thesis using Cons.prems us by (simp add: plain_def)
  next
    fix c
    assume "t = Some c" "u = None"
    then show ?thesis using Cons.prems us by (simp add: plain_def)
  qed (use Cons.prems(3) IH us in simp_all)
qed simp

lemma spell_chunk_inj: "ke_chunk_ok k \<Longrightarrow> ke_chunk_ok j \<Longrightarrow> spell_chunk k = spell_chunk j \<Longrightarrow> k = j"
  using spell_inj spell_no_star by (cases k; cases j) fastforce+

lemma spell_key_inj: "ke_ok ks \<Longrightarrow> ke_ok js \<Longrightarrow> spell_key ks = spell_key js \<Longrightarrow> ks = js"
proof -
  assume a: "ke_ok ks" "ke_ok js" "spell_key ks = spell_key js"
  then have "map spell_chunk ks = map spell_chunk js" using chunks_spell_key by metis
  moreover have "k = j" if "k \<in> set ks" "j \<in> set js" "spell_chunk k = spell_chunk j" for k j
    using spell_chunk_inj that a(1,2) by (auto simp: ke_ok_def)
  ultimately show ?thesis by (auto simp: list_eq_iff_nth_eq)
qed

lemma covers_self: "k \<noteq> K_many \<Longrightarrow> chunk_covers k k"
  using lit_self [of _ "(=)"] by (cases k) simp_all

lemma kfits_self: "row ks \<Longrightarrow> kfits i ks ks"
proof -
  assume "row ks"
  moreover have "glob (lit chunk_covers) (map gap ks) (map gap ks)" by (rule lit_self) (auto dest: sym intro: covers_self)
  ultimately show ?thesis using key_chunks.meets_self [OF row_fine] by (simp add: fits_def)
qed

lemma no_zero: "ke_ok ks \<Longrightarrow> CHR 0x00 \<notin> set (spell_key ks)"
proof (induction ks)
  case (Cons k ks)
  then show ?case using spell_chunk_plain [of k] by (cases ks) (auto simp: spell_key_cons ke_ok_def stars_apart_cons)
qed (simp add: ke_ok_def)

lemma same_text: "ke_ok ks \<Longrightarrow> ke_ok js \<Longrightarrow> str_equal (spell_key ks) (spell_key js) \<longleftrightarrow> ks = js"
proof -
  assume a: "ke_ok ks" "ke_ok js"
  have t: "takeWhile (\<lambda>c. c \<noteq> CHR 0x00) (spell_key hs) = spell_key hs" if "ke_ok hs" for hs
    using takeWhile_whole [OF no_zero [OF that]] by blast
  have "str_equal (spell_key ks) (spell_key js) \<longleftrightarrow> spell_key ks = spell_key js"
    unfolding str_equal_def t [OF a(1)] t [OF a(2)] ..
  then show ?thesis using spell_key_inj a by blast
qed

lemma match_simple:
  assumes "ke_simple ks" "ke_simple js"
  shows "(if length (spell_key ks) = length (spell_key js) \<and> str_equal (spell_key ks) (spell_key js) then Some True
      else z_keyexpr_forward i (spell_key ks) 0 (length (spell_key ks)) (spell_key js) 0 (length (spell_key js)) True) =
    Some (kfits i ks js)"
  using keyexpr_forward_eq [of ks js i] same_text [of ks js] kfits_self [of ks i] simple_row [OF assms(1)] simple_row [OF assms(2)] assms
  by (auto simp: ke_simple_def)

lemma intersects_simple: "ke_simple ks \<Longrightarrow> ke_simple js \<Longrightarrow> z_keyexpr_intersects (spell_key ks) (spell_key js) = Some (kfits True ks js)"
  unfolding z_keyexpr_intersects_def by (rule match_simple)

lemma includes_simple: "ke_simple ks \<Longrightarrow> ke_simple js \<Longrightarrow> z_keyexpr_includes (spell_key ks) (spell_key js) = Some (kfits False ks js)"
  unfolding z_keyexpr_includes_def by (rule match_simple)

text \<open>
  C37: the intersection of canonical key expressions with no at sign and at most two double stars each: the code ends inside the strings and
  answers whether there is a key that both match.
\<close>

theorem intersects_exact:
  assumes "ke_simple ks" "ke_simple js"
  shows "z_keyexpr_intersects (spell_key ks) (spell_key js) = Some (\<exists>ws. key ws \<and> key_matches ks ws \<and> key_matches js ws)"
  using intersects_simple [OF assms] meets_key [of ks js] simple_row [OF assms(1)] simple_row [OF assms(2)] by simp

text \<open>A key as a key expression.\<close>

definition key_chunk :: "string \<Rightarrow> ke_chunk" where
  "key_chunk w = K_pat (map Some w)"

theorem intersects_exact_witness:
  "z_keyexpr_intersects ''sensor/**/temp'' ''*/room/$*mp'' = Some True"
proof -
  let ?k = "[key_chunk ''sensor'', K_many, key_chunk ''temp'']"
  let ?j = "[K_one, key_chunk ''room'', K_pat [None, Some CHR ''m'', Some CHR ''p'']]"
  have s: "ke_simple ?k" "ke_simple ?j" "spell_key ?k = ''sensor/**/temp''" "spell_key ?j = ''*/room/$*mp''"
    by (simp_all add: ke_simple_def ke_ok_def few_stars_def key_chunk_def plain_def plain_pat_def spell_key_def)
  have "key [''sensor'', ''room'', ''temp'']" "key_matches ?k [''sensor'', ''room'', ''temp'']" "key_matches ?j [''sensor'', ''room'', ''temp'']"
    by (simp_all add: key_def plain_def key_matches_def key_chunk_def)
  then show ?thesis using intersects_exact [OF s(1,2)] s(3,4) by auto
qed

lemma covers_sound: "chunk_covers k j \<Longrightarrow> chunk_accepts j w \<Longrightarrow> chunk_accepts k w"
  using lit_sound [of "(=)" _ _ "(=)"] by (cases k; cases j) auto

text \<open>
  C39: the inclusion of canonical key expressions, both with no at sign and at most two double stars: the code ends, and when it says
  that the left one includes the right one the left one matches every key of the right one. The converse does not hold: \<open>**/a\<close> is not said to be included in \<open>*/**\<close>.
\<close>

theorem includes_sound:
  assumes "ke_simple ks" "ke_simple js"
  shows "\<exists>b. z_keyexpr_includes (spell_key ks) (spell_key js) = Some b \<and> (b \<longrightarrow> (\<forall>ws. key_matches js ws \<longrightarrow> key_matches ks ws))"
  using includes_simple [OF assms] covers_sound lit_sound [of chunk_covers "map gap ks" "map gap js" chunk_accepts]
  by (auto simp: fits_def key_matches_def)

theorem includes_sound_witness:
  "z_keyexpr_includes ''**/temp'' ''$*x/temp'' = Some True \<and> key_matches [K_many, key_chunk ''temp''] [''ax'', ''temp'']"
proof -
  let ?k = "[K_many, key_chunk ''temp'']" and ?j = "[K_pat [None, Some CHR ''x''], key_chunk ''temp'']"
  have s: "ke_simple ?k" "ke_simple ?j" "spell_key ?k = ''**/temp''" "spell_key ?j = ''$*x/temp''"
    by (simp_all add: ke_simple_def ke_ok_def few_stars_def key_chunk_def plain_def plain_pat_def spell_key_def)
  have "z_keyexpr_includes ''**/temp'' ''$*x/temp'' = Some True" by code_simp
  moreover have "key_matches ?j [''ax'', ''temp'']" by (simp add: key_matches_def key_chunk_def)
  ultimately show ?thesis using includes_sound [OF s(1,2)] s(3,4) by auto
qed

lemma single_some: "single_gaps (map Some w)"
  by (induction w) simp_all

lemma key_chunk_ok: "w \<noteq> [] \<Longrightarrow> \<forall>c\<in>set w. plain c \<Longrightarrow> ke_chunk_ok (key_chunk w)"
  by (auto simp: key_chunk_def plain_pat_def single_some)

lemma key_simple:
  assumes "key ws" "\<forall>w\<in>set ws. no_at w"
  shows "ke_simple (map key_chunk ws)" "spell_key (map key_chunk ws) = join_chunks ws"
proof -
  have s: "map spell_chunk (map key_chunk vs) = vs" for vs by (induction vs) (simp_all add: key_chunk_def)
  then show "spell_key (map key_chunk ws) = join_chunks ws" by (simp only: spell_key_def)
  have "stars_apart (map key_chunk vs)" for vs by (induction vs) (simp_all add: stars_apart_cons key_chunk_def)
  then have "ke_ok (map key_chunk ws)" using assms(1) key_chunk_ok by (auto simp: ke_ok_def key_def)
  moreover have "no_at (spell_key (map key_chunk vs))" if "\<forall>w\<in>set vs. no_at w" for vs
    using that
  proof (induction vs)
    case (Cons v vs)
    then show ?case by (simp add: spell_key_cons) (simp add: key_chunk_def)
  qed (simp add: spell_key_def)
  moreover have "filter (\<lambda>k. k = K_many) (map key_chunk ws) = []" by (auto simp: filter_empty_conv key_chunk_def)
  ultimately show "ke_simple (map key_chunk ws)" using assms(2) by (simp add: ke_simple_def few_stars_def)
qed

text \<open>
  C38: on a key without at signs the inclusion is exact for canonical key expressions with no at sign and at most two double stars: the
  code ends and answers whether the key expression matches the key, chunk by chunk. (With at signs or three double stars it may answer
  wrongly or not end, see \<open>ZKeyMatchProps\<close>.)
\<close>

theorem includes_key:
  assumes "ke_simple ks" "key ws" "\<forall>w\<in>set ws. no_at w"
  shows "z_keyexpr_includes (spell_key ks) (join_chunks ws) = Some (key_matches ks ws)"
proof -
  have "map gap (map key_chunk ws) = map Some (map key_chunk ws)" by (simp add: key_chunk_def)
  then have "kfits False ks (map key_chunk ws) = glob chunk_covers (map gap ks) (map key_chunk ws)"
    by (simp only: fits_def glob_lit) simp
  also have "\<dots> = glob (\<lambda>k w. chunk_covers k (key_chunk w)) (map gap ks) ws" by (rule glob_map)
  also have "\<dots> = key_matches ks ws"
    unfolding key_matches_def
  proof (rule glob_cong, intro allI impI)
    fix k w
    show "chunk_covers k (key_chunk w) = chunk_accepts k w" by (cases k) (simp_all add: key_chunk_def glob_lit)
  qed
  finally show ?thesis using includes_simple [OF assms(1) key_simple(1) [OF assms(2,3)]] key_simple(2) [OF assms(2,3)] by simp
qed

theorem includes_key_witness:
  "z_keyexpr_includes ''room/**/$*mp'' ''room/one/temp'' = Some True \<and> z_keyexpr_includes ''room/**/$*mp'' ''hall/temp'' = Some False"
proof -
  let ?k = "[key_chunk ''room'', K_many, K_pat [None, Some CHR ''m'', Some CHR ''p'']]"
  have s: "ke_simple ?k" "spell_key ?k = ''room/**/$*mp''"
    by (simp_all add: ke_simple_def ke_ok_def few_stars_def key_chunk_def plain_def plain_pat_def spell_key_def)
  have "key [''room'', ''one'', ''temp'']" "key [''hall'', ''temp'']" by (simp_all add: key_def plain_def)
  moreover have "key_matches ?k [''room'', ''one'', ''temp'']" "\<not> key_matches ?k [''hall'', ''temp'']"
    by (simp_all add: key_matches_def key_chunk_def)
  ultimately show ?thesis
    using includes_key [OF s(1), of "[''room'', ''one'', ''temp'']"] includes_key [OF s(1), of "[''hall'', ''temp'']"] s(2) by simp
qed

end
