(* ===== verification/Spec2Isabelle.thy ===== *)
theory Spec2Isabelle
  imports NodeTheorems HarmonyNet EchoServer ZRing ZVec ZWBufProps ZSerial ZTransportProps ZKeyCorrect
begin

text \<open>
  A verification of the secure control node of the SAM E70 firmware, and of the parts of its copy of
  zenoh-pico that carry its messages.

  \<^bold>\<open>The program.\<close> \<open>firmware/sam-e70/app_zenoh.c\<close> runs on FreeRTOS. Its main loop samples a
  thumbstick, and publishes the reading through an end-to-end protection layer (E2E) and an
  authentication layer (SecOC) over zenoh-pico. Two callbacks, run by the read task of zenoh-pico,
  take commands for the headlight and the hazard lamp through intrusion detection, SecOC, E2E and a
  sequence check. Every rejected message is a fault for the safety manager, which moves through
  \<open>NORMAL\<close>, \<open>DEGRADED\<close>, \<open>SAFE_STATE\<close> and \<open>FAIL_SILENT\<close> and switches the lamps off on its way.
  Below it, \<open>firmware/sam-e70/zenoh-pico\<close> encodes network messages into frames and fragments of a
  session with a router, over the sockets of the Harmony TCP/IP library or a serial line.

  \<^bold>\<open>The firmware.\<close>
  \<^item> \<open>Prelude\<close>: byte strings, big-endian fields, rings, and the locales of the interfaces
    (\<open>codec\<close>, \<open>strict_codec\<close>, \<open>codec_stack\<close>, \<open>machine\<close>, \<open>absorbing\<close>, \<open>recency\<close>), each interpreted
    on the components that provide it.
  \<^item> \<open>Crc\<close>, \<open>E2E\<close>: \<open>e2e_protection.c\<close>. The table-driven CRC-32 is the bit-wise one; frames round
    trip; corrupted frames are rejected; the sequence checker.
  \<^item> \<open>Sha256\<close>, \<open>Secoc\<close>: \<open>secoc.c\<close>. The streaming SHA-256 and the HMAC against block-wise
    definitions, with termination; frames round trip; authenticity and freshness.
  \<^item> \<open>Board\<close>: the LED and switch macros of the board support package.
  \<^item> \<open>Format\<close>: decimal conversions, \<open>snprintf\<close> and NUL-terminated strings.
  \<^item> \<open>Safety\<close>: \<open>safety_manager.c\<close>, against the four-state machine \<open>fsm_step\<close>.
  \<^item> \<open>Dtc\<close>: \<open>dtc_manager.c\<close>, the ring of trouble codes against a list.
  \<^item> \<open>Ids\<close>: \<open>ids_engine.c\<close>, the rate limiter against one with unbounded memory and time.
  \<^item> \<open>Flow\<close>, \<open>Watchdog\<close>, \<open>KeyMgr\<close>, \<open>Mcp3204\<close>: \<open>flow_monitor.c\<close>, \<open>watchdog.c\<close>, \<open>key_manager.c\<close>
    and \<open>drv_mcp3204.c\<close>.
  \<^item> \<open>Json\<close>, \<open>Node\<close>: \<open>app_zenoh.c\<close>. \<open>node_step\<close> is the step relation of the running node: a state is the
    node with the point the main loop is at (\<open>main_at\<close>); a step is one call of the main loop, or a
    callback of the read task, which has the higher priority and can come between any two of them, or a
    press of the button. Callbacks are not interrupted. Clock, sensor, button and uninitialised memory
    are new in every step. \<open>node_turn\<close> is the turn of the main loop that nothing interrupts.
    \<open>NodeSafety\<close>, \<open>NodeProps\<close>, \<open>NodeClaims\<close>, \<open>NodeGoals\<close> build up to the properties of the whole node
    in \<open>NodeTheorems\<close>.
  \<^item> \<open>HarmonyNet\<close>: \<open>network.c\<close>, the socket layer of the port over the Harmony TCP/IP stack, which is
    a parameter: exact reads, sends, no leaked connection, the bounds of its polling loops.
  \<^item> \<open>EchoServer\<close>: the demo application \<open>app.c\<close>.

  \<^bold>\<open>zenoh-pico.\<close>
  \<^item> \<open>ZBase\<close>: results, arrays of C, sizes of 32 bits, memory. An access outside of an array, a failed
    assertion and a division by zero are \<open>None\<close>; that an operation is defined is part of the lemmas.
  \<^item> \<open>ZVec\<close>, \<open>ZRing\<close>: \<open>collections/vec.c\<close>, \<open>ring.c\<close>, \<open>fifo.c\<close>, \<open>lifo.c\<close>; FIFO and LIFO refine lists.
  \<^item> \<open>ZIoBuf\<close>, \<open>ZWBuf\<close>, \<open>ZWBufProps\<close>: \<open>protocol/iobuf.c\<close>. A write buffer is a list of slices; \<open>wb_data\<close>
    and \<open>wb_space\<close> are its abstraction, and writing, wrapping, siphoning and converting it are operations on
    lists of bytes. Blocks are values, so a slice that borrows a block holds a copy of it; the code only
    reads blocks that it lent.
  \<^item> \<open>ZVle\<close>, \<open>ZCodec\<close>: \<open>protocol/codec.c\<close>, with the integers of variable length against the reference \<open>vle\<close>.
    \<open>ZWire\<close> states what the codecs owe each other: \<open>emits\<close>, an encoder appends a given string or fails
    with a proper prefix of it; \<open>reads\<close>, a decoder takes such a string back; \<open>in_bounds\<close>, a decoder stays in
    its buffer whatever it finds. The locale \<open>wire_codec\<close> turns them into round trips of sequences.
    \<open>ZWireProps\<close> proves them for the primitive codecs.
  \<^item> \<open>ZCobs\<close>, \<open>ZSerial\<close>: \<open>utils/encoding.c\<close>, \<open>utils/checksum.c\<close>, \<open>protocol/codec/serial.c\<close>; the stuffing against
    the reference \<open>stuff\<close>, frames round trip.
  \<^item> \<open>ZSn\<close>: \<open>transport/utils.c\<close>, sequence numbers modulo a resolution.
  \<^item> \<open>ZExt\<close>: \<open>protocol/codec/ext.c\<close>, extensions of messages and the iteration over them.
  \<^item> \<open>ZMsg\<close>, \<open>ZMsgProps\<close>, \<open>ZMsgTyped\<close>: \<open>protocol/definitions/transport.c\<close> and \<open>protocol/codec/transport.c\<close>.
    Sequences of messages round trip; whatever arrives, the decoder returns an error or a well-formed message.
  \<^item> \<open>ZNetMsg\<close>, \<open>ZNetDecl\<close>, \<open>ZNet\<close>: the messages of the network layer, \<open>protocol/codec/message.c\<close>,
    \<open>declarations.c\<close>, \<open>interest.c\<close> and \<open>network.c\<close> with their definitions and builders. \<open>ZNetBounds\<close>: whenever
    the decoder returns it has stayed in its buffer and taken a byte; what can keep it from returning is the
    length of an identifier, which the code does not check.
  \<^item> \<open>ZLink\<close>: \<open>link/link.c\<close> and \<open>transport/common/rx.c\<close>, sending and receiving over a link; the network is a
    parameter that takes and hands out as much as it likes.
  \<^item> \<open>ZTx\<close>, \<open>ZTxProps\<close>: \<open>transport/common/tx.c\<close>, the sender. A message goes out in one frame, or whole, in
    order and in fragments whose number the room of the buffer bounds.
  \<^item> \<open>ZRx\<close>, \<open>ZRead\<close>, \<open>ZRxProps\<close>: \<open>transport/unicast/rx.c\<close>, \<open>transport/unicast/read.c\<close> and \<open>transport/peer.c\<close>, the
    receiver. The fragments of a channel implement the automaton \<open>reassemble\<close> over byte strings. \<open>ZReceiver\<close>
    puts the code's decoder of network messages in.
  \<^item> \<open>ZStream\<close>, \<open>ZDelivery\<close>: the client takes the messages out of a stream one by one, however the network cuts it;
    from the sender to the receiver a message comes out exactly once, and both ends are ready for the next.
  \<^item> \<open>ZHandshake\<close>, \<open>ZHandshakeProps\<close>: \<open>transport/unicast/transport.c\<close>. Both sides of the handshake over the same
    connection, what they agree on, and that the transports they make deliver.
  \<^item> \<open>ZTransportProps\<close>: the receiver on any bytes and any allocator, a handshake that is refused, and what goes
    wrong: overflows that stick, transports without a buffer, peers that hear nothing.
  \<^item> \<open>ZKeyexpr\<close>, \<open>ZKeyMatch\<close>: \<open>session/keyexpr.c\<close> and \<open>session/keyexpr_match_template.h\<close>, key expressions as blocks
    of memory. \<open>ZKeyexprProps\<close>: the canonical strings as rows of chunks. \<open>ZGlob\<close>, \<open>ZKeyChunk\<close>, \<open>ZKeyBack\<close>,
    \<open>ZKeyCorrect\<close>: intersection and inclusion are those of the languages, for key expressions without at signs
    and with at most two double stars. \<open>ZKeyMatchProps\<close>: what happens outside of that, searches that do not
    end and wrong answers.

  \<^bold>\<open>Bounds.\<close> There is no fuel: loops that might not end are \<open>partial_function (option)\<close>, and the lemmas
  show that they return. The heap is a parameter that may refuse every request (\<open>heap_ok\<close>); lemmas that
  need a generous one say so (\<open>heap_full\<close>). Sizes are natural numbers with the wrap-around of 32 bits
  written out; \<open>SIZE_MAX\<close> bounds the lengths in the lemmas where that wrap-around could be reached. The order
  in which the two operands of \<open>_z_uint16_decode\<close> are evaluated is an argument, \<open>swap\<close>: theorems about both ends
  of a connection are for the order from left to right.

  \<^bold>\<open>Not modelled.\<close> Console output and the mutexes; the sessions of zenoh-pico with their queries,
  subscriptions and declared resources, which call the transport and are called by it; the scouting messages and end points, which the node, a client with a fixed router, does not
  receive; the destructors and copies of messages, beyond the copy of a handshake message; the multicast and raw
  Ethernet transports and the other system ports, which the firmware does not start; the generated Harmony
  configuration, the TCP/IP library and FreeRTOS, which are parameters where the code calls them; the user
  interface and the simulation in Python.
\<close>

end
